(* ===== verification/Prelude.thy ===== *)
theory Prelude
  imports Main "HOL-Library.Word"
begin

unbundle bit_operations_syntax

text \<open>
  Shared vocabulary of the development: the machine types of the C++ sources as word types, the
  result type of fallible code, little-endian byte strings (\<^verbatim>\<open>src/src/crypto/common.h\<close>), the
  two's-complement reading of \<^verbatim>\<open>int64_t\<close> arithmetic, and generic lemmas on lists and
  association lists that the component theories share.
\<close>

section \<open>Machine types\<close>

type_synonym byte = "8 word"
type_synonym u16 = "16 word"
type_synonym u32 = "32 word"
type_synonym u64 = "64 word"
type_synonym uint256 = "256 word"
type_synonym uint160 = "160 word"
type_synonym bytes = "byte list"

text \<open>
  Collections that the component proofs pass to the simplifier: \<open>codec\<close> holds the decoding
  equations of the serialization layer, \<open>view_simps\<close> the abstraction equations of the coin
  views, \<open>limb_simps\<close> those of the 256-bit arithmetic.
\<close>

named_theorems codec
named_theorems view_simps
named_theorems limb_simps

section \<open>Results\<close>

text \<open>
  A C++ function that throws or reports an error returns \<open>'e + 'a\<close>, with \<open>Inl\<close> for the error.
  Sequencing two such calls is \<open>sbind\<close>: the second runs only when the first succeeded.
\<close>

definition sbind :: "'e + 'a \<Rightarrow> ('a \<Rightarrow> 'e + 'b) \<Rightarrow> 'e + 'b" where
  "sbind r f = (case r of Inl e \<Rightarrow> Inl e | Inr x \<Rightarrow> f x)"

lemma sbind_simps [simp]:
  "sbind (Inl e) f = Inl e"
  "sbind (Inr x) f = f x"
  by (simp_all add: sbind_def)

lemma sbind_Inr_iff: "sbind r f = Inr y \<longleftrightarrow> (\<exists>x. r = Inr x \<and> f x = Inr y)"
  by (cases r) auto

lemma Inr_sbind_iff: "Inr y = sbind r f \<longleftrightarrow> (\<exists>x. r = Inr x \<and> f x = Inr y)"
  using sbind_Inr_iff [of r f y] by metis

lemma if_eqE: "(if c then x else y) = z \<Longrightarrow> (x = z \<Longrightarrow> P) \<Longrightarrow> (y = z \<Longrightarrow> P) \<Longrightarrow> P"
  by (simp split: if_splits)

lemma guard_Inr: "(if c then Inl e else r) = Inr x \<longleftrightarrow> \<not> c \<and> r = Inr x"
  by simp

lemma sbind_guard_Inr: "sbind r (\<lambda>x. if c x then Inl e else Inr x) = Inr y \<longleftrightarrow> r = Inr y \<and> \<not> c y"
  by (cases r) auto

lemma sbind_cong [fundef_cong]:
  "r = r' \<Longrightarrow> (\<And>x. r' = Inr x \<Longrightarrow> f x = g x) \<Longrightarrow> sbind r f = sbind r' g"
  by (cases r') (auto simp: sbind_def)

section \<open>Two's complement\<close>

text \<open>
  \<^verbatim>\<open>CAmount\<close> and the other \<^verbatim>\<open>int64_t\<close> and \<^verbatim>\<open>int\<close> quantities are modelled as integers. Where a
  sum can leave the range of the type the definitions apply \<open>int64\<close> (or \<open>int32\<close>, \<open>int16\<close>,
  \<open>int8\<close>), the two's-complement value that the compiled code stores.
\<close>

definition int64 :: "int \<Rightarrow> int" where "int64 x = signed_take_bit 63 x"
definition int32 :: "int \<Rightarrow> int" where "int32 x = signed_take_bit 31 x"
definition int16 :: "int \<Rightarrow> int" where "int16 x = signed_take_bit 15 x"
definition int8 :: "int \<Rightarrow> int" where "int8 x = signed_take_bit 7 x"

definition in_int64 :: "int \<Rightarrow> bool" where "in_int64 x \<longleftrightarrow> - (2 ^ 63) \<le> x \<and> x < 2 ^ 63"
definition in_int8 :: "int \<Rightarrow> bool" where "in_int8 x \<longleftrightarrow> - (2 ^ 7) \<le> x \<and> x < 2 ^ 7"

lemma signed_take_bit_mod_eq: "signed_take_bit n (x mod 2 ^ Suc n) = signed_take_bit n (x :: int)"
  using signed_take_bit_take_bit [of n "Suc n" x] by (simp add: take_bit_eq_mod)

lemma int64_id: "in_int64 x \<Longrightarrow> int64 x = x"
  by (simp add: in_int64_def int64_def signed_take_bit_int_eq_self_iff)

lemma int8_id: "in_int8 x \<Longrightarrow> int8 x = x"
  by (simp add: in_int8_def int8_def signed_take_bit_int_eq_self_iff)

lemma int64_range: "in_int64 (int64 x)"
  using signed_take_bit_int_greater_eq_minus_exp [of 63 x] signed_take_bit_int_less_exp [of 63 x]
  by (simp add: in_int64_def int64_def)

lemma int8_range: "in_int8 (int8 x)"
  using signed_take_bit_int_greater_eq_minus_exp [of 7 x] signed_take_bit_int_less_exp [of 7 x]
  by (simp add: in_int8_def int8_def)

lemma int64_add_left: "int64 (int64 a + b) = int64 (a + b)"
  unfolding int64_def by (metis signed_take_bit_add signed_take_bit_signed_take_bit min.idem)

lemma foldl_int64: "foldl (\<lambda>a x. int64 (a + f x)) n xs = (if xs = [] then n else int64 (n + (\<Sum>x\<leftarrow>xs. f x)))"
  by (induction xs arbitrary: n) (auto simp: int64_add_left add.assoc)

lemma int64_mod: "int64 x mod 2 ^ 64 = x mod 2 ^ 64"
proof -
  have "take_bit 64 (signed_take_bit 63 x) = take_bit 64 x"
    by (rule take_bit_signed_take_bit) simp
  then show ?thesis by (simp add: int64_def take_bit_eq_mod)
qed

section \<open>Little-endian byte strings\<close>

text \<open>
  \<open>le_bytes n x\<close> is the \<open>n\<close>-byte little-endian image of \<open>x\<close> (what \<^verbatim>\<open>htole16/32/64\<close> followed by
  \<^verbatim>\<open>memcpy\<close> leaves in memory on any host) and \<open>le_nat\<close> its inverse.
\<close>

fun le_bytes :: "nat \<Rightarrow> nat \<Rightarrow> bytes" where
  "le_bytes 0 x = []"
| "le_bytes (Suc n) x = of_nat (x mod 256) # le_bytes n (x div 256)"

fun le_nat :: "bytes \<Rightarrow> nat" where
  "le_nat [] = 0"
| "le_nat (b # bs) = unat b + 256 * le_nat bs"

lemma length_le_bytes [simp]: "length (le_bytes n x) = n"
  by (induction n arbitrary: x) auto

lemma unat_byte_mod [simp]: "unat (of_nat (x mod 256) :: byte) = x mod 256"
  by (simp add: unat_of_nat)

lemma unat_byte_less [simp]: "unat (b :: byte) < 256"
  using unsigned_less [of b] by simp

lemma uint_byte_less: "0 \<le> uint (b :: byte)" "uint (b :: byte) < 256"
proof -
  have "uint b < 2 ^ LENGTH(8)" by (rule unsigned_less)
  then show "uint b < 256" by simp
qed simp

lemma unat_u16_le [simp]: "unat (x :: u16) \<le> 65535"
proof -
  have "unat x < 2 ^ LENGTH(16)" by (rule unsigned_less)
  then show ?thesis by simp
qed

lemma unat_u32_le [simp]: "unat (x :: u32) \<le> 4294967295"
proof -
  have "unat x < 2 ^ LENGTH(32)" by (rule unsigned_less)
  then show ?thesis by simp
qed

lemma le_nat_le_bytes: "le_nat (le_bytes n x) = x mod 256 ^ n"
proof (induction n arbitrary: x)
  case (Suc n)
  have "x mod 256 ^ Suc n = x mod 256 + 256 * (x div 256 mod 256 ^ n)"
    by (simp add: mod_mult2_eq add.commute)
  with Suc show ?case by simp
qed simp

lemma le_nat_less: "le_nat bs < 256 ^ length bs"
proof (induction bs)
  case (Cons b bs)
  have "unat b + 256 * le_nat bs < 256 * (1 + le_nat bs)"
    using unat_byte_less [of b] by simp
  also have "\<dots> \<le> 256 * 256 ^ length bs" using Cons by simp
  finally show ?case by simp
qed simp

lemma le_bytes_le_nat: "length bs = n \<Longrightarrow> le_bytes n (le_nat bs) = bs"
proof (induction bs arbitrary: n)
  case (Cons b bs)
  then obtain m where n: "n = Suc m" and m: "length bs = m" by auto
  have "(unat b + 256 * le_nat bs) mod 256 = unat b" by simp
  moreover have "(unat b + 256 * le_nat bs) div 256 = le_nat bs" by simp
  ultimately show ?case using Cons.IH [OF m] by (simp add: n)
qed simp

lemma le_bytes_inj: "x < 256 ^ n \<Longrightarrow> y < 256 ^ n \<Longrightarrow> le_bytes n x = le_bytes n y \<Longrightarrow> x = y"
  by (metis le_nat_le_bytes mod_less)

section \<open>Bits, digits and lists\<close>

lemma radix_less: "a < p \<Longrightarrow> d < q \<Longrightarrow> a + p * d < p * (q :: nat)"
proof -
  assume "a < p" "d < q"
  then have "p * (d + 1) \<le> p * q" by (intro mult_le_mono2) simp
  with \<open>a < p\<close> show ?thesis by (simp add: algebra_simps)
qed

lemma nat_bit_less: "(m :: nat) < 2 ^ k \<Longrightarrow> bit m n \<Longrightarrow> n < k"
  by (metis bit_take_bit_iff take_bit_nat_eq_self)

lemma or_push_bit_nat:
  assumes "(m :: nat) < 2 ^ k"
  shows "m OR push_bit k n = m + n * 2 ^ k"
proof -
  have "m AND push_bit k n = 0"
    using nat_bit_less [OF assms] by (fastforce simp: bit_eq_iff bit_and_iff bit_push_bit_iff)
  then show ?thesis by (simp add: disjunctive_add_eq_or [symmetric] push_bit_eq_mult)
qed

lemma takeWhile_append_Cons_not:
  "\<forall>x \<in> set xs. P x \<Longrightarrow> \<not> P y \<Longrightarrow> takeWhile P (xs @ y # ys) = xs"
  by (induction xs) auto

lemma sum_list_remove:
  fixes f :: "'a \<Rightarrow> nat"
  assumes "distinct xs" and "x \<in> set xs"
  shows "(\<Sum>y\<leftarrow>xs. f y) = f x + (\<Sum>y\<leftarrow>filter (\<lambda>y. y \<noteq> x) xs. f y)"
  using assms
proof (induction xs)
  case (Cons a xs)
  show ?case
  proof (cases "a = x")
    case True
    with Cons.prems have "filter (\<lambda>y. y \<noteq> x) xs = xs"
      by (auto simp: filter_id_conv)
    with True show ?thesis by simp
  next
    case False
    with Cons show ?thesis by simp
  qed
qed simp

end
