(* ===== verification/Serialize.thy ===== *)
theory Serialize
  imports Prelude
begin

text \<open>
  The wire format of \<^verbatim>\<open>src/src/serialize.h\<close>. A stream that is written to is a byte list that
  grows at its end, so a writer is a function to bytes; a stream that is read from is a byte list
  consumed at its front, so a reader returns the value with the remaining bytes, or the exception
  that \<^verbatim>\<open>CDataStream::read\<close> or the decoder throws. The contract between a writer and its reader is
  the locale \<open>serializer\<close>; vectors, pairs and records are built from it.
\<close>

section \<open>Readers\<close>

datatype ser_error = EndOfData | NonCanonicalSize | SizeTooLarge | VarIntTooLarge | UnknownOptionalData
  | TooManyUndoRecords | ReaderAssert

type_synonym 'a reader = "bytes \<Rightarrow> ser_error + ('a \<times> bytes)"

definition rret :: "'a \<Rightarrow> 'a reader" where
  "rret x bs = Inr (x, bs)"

definition rfail :: "ser_error \<Rightarrow> 'a reader" where
  "rfail e bs = Inl e"

definition rbind :: "'a reader \<Rightarrow> ('a \<Rightarrow> 'b reader) \<Rightarrow> 'b reader" where
  "rbind r f bs = (case r bs of Inl e \<Rightarrow> Inl e | Inr (x, bs') \<Rightarrow> f x bs')"

text \<open>\<^verbatim>\<open>CDataStream::read\<close>: the next \<open>n\<close> bytes, or an exception at the end of the data.\<close>

definition stream_read :: "nat \<Rightarrow> bytes reader" where
  "stream_read n bs = (if length bs < n then Inl EndOfData else Inr (take n bs, drop n bs))"

section \<open>Fixed-width integers\<close>

definition ser_writedata8 :: "byte \<Rightarrow> bytes" where
  "ser_writedata8 x = [x]"

definition ser_writedata16 :: "u16 \<Rightarrow> bytes" where
  "ser_writedata16 x = le_bytes 2 (unat x)"

definition ser_writedata32 :: "u32 \<Rightarrow> bytes" where
  "ser_writedata32 x = le_bytes 4 (unat x)"

definition ser_writedata64 :: "u64 \<Rightarrow> bytes" where
  "ser_writedata64 x = le_bytes 8 (unat x)"

definition ser_readdata8 :: "byte reader" where
  "ser_readdata8 = rbind (stream_read 1) (\<lambda>b. rret (of_nat (le_nat b)))"

definition ser_readdata16 :: "u16 reader" where
  "ser_readdata16 = rbind (stream_read 2) (\<lambda>b. rret (of_nat (le_nat b)))"

definition ser_readdata32 :: "u32 reader" where
  "ser_readdata32 = rbind (stream_read 4) (\<lambda>b. rret (of_nat (le_nat b)))"

definition ser_readdata64 :: "u64 reader" where
  "ser_readdata64 = rbind (stream_read 8) (\<lambda>b. rret (of_nat (le_nat b)))"

text \<open>
  The signed overloads of \<^verbatim>\<open>Serialize\<close> and \<^verbatim>\<open>Unserialize\<close> pass the value through the unsigned
  type of the same width.
\<close>

definition Serialize_int64 :: "int \<Rightarrow> bytes" where
  "Serialize_int64 x = ser_writedata64 (word_of_int x)"

definition Unserialize_int64 :: "int reader" where
  "Unserialize_int64 = rbind ser_readdata64 (\<lambda>w. rret (int64 (uint w)))"

definition Serialize_int8 :: "int \<Rightarrow> bytes" where
  "Serialize_int8 x = ser_writedata8 (word_of_int x)"

definition Unserialize_int8 :: "int reader" where
  "Unserialize_int8 = rbind ser_readdata8 (\<lambda>w. rret (int8 (uint w)))"

section \<open>Compact sizes\<close>

definition MAX_SIZE :: nat where
  "MAX_SIZE = 0x02000000"

definition GetSizeOfCompactSize :: "u64 \<Rightarrow> nat" where
  "GetSizeOfCompactSize nSize =
     (if nSize < 253 then 1
      else if nSize \<le> 0xffff then 1 + 2
      else if nSize \<le> 0xffffffff then 1 + 4
      else 1 + 8)"

definition WriteCompactSize :: "u64 \<Rightarrow> bytes" where
  "WriteCompactSize nSize =
     (if nSize < 253 then ser_writedata8 (ucast nSize)
      else if nSize \<le> 0xffff then ser_writedata8 253 @ ser_writedata16 (ucast nSize)
      else if nSize \<le> 0xffffffff then ser_writedata8 254 @ ser_writedata32 (ucast nSize)
      else ser_writedata8 255 @ ser_writedata64 nSize)"

definition ReadCompactSize :: "u64 reader" where
  "ReadCompactSize =
     rbind ser_readdata8 (\<lambda>chSize.
     rbind (if chSize < 253 then rret (ucast chSize)
            else if chSize = 253 then
              rbind ser_readdata16 (\<lambda>n.
                if ucast n < (253 :: u64) then rfail NonCanonicalSize else rret (ucast n))
            else if chSize = 254 then
              rbind ser_readdata32 (\<lambda>n.
                if ucast n < (0x10000 :: u64) then rfail NonCanonicalSize else rret (ucast n))
            else
              rbind ser_readdata64 (\<lambda>n.
                if n < 0x100000000 then rfail NonCanonicalSize else rret n))
       (\<lambda>nSizeRet. if nSizeRet > of_nat MAX_SIZE then rfail SizeTooLarge else rret nSizeRet))"

section \<open>Variable-length integers\<close>

text \<open>
  \<^verbatim>\<open>WriteVarInt\<close> fills \<^verbatim>\<open>tmp\<close> from the least significant group and then emits it backwards;
  \<open>WriteVarInt_tmp\<close> is the filling loop (\<open>len\<close> only matters for whether it is zero) and the emitting
  loop is \<open>rev\<close>. The reader is unsigned with \<open>bits\<close> bits, the \<^verbatim>\<open>numeric_limits<I>\<close> of the
  instance.
\<close>

function WriteVarInt_tmp :: "bool \<Rightarrow> nat \<Rightarrow> bytes" where
  "WriteVarInt_tmp more n =
     (of_nat (n mod 128) OR (if more then 0x80 else 0)) #
     (if n \<le> 0x7F then [] else WriteVarInt_tmp True (n div 128 - 1))"
  by pat_completeness auto
termination
  by (relation "measure snd") auto

definition WriteVarInt :: "nat \<Rightarrow> bytes" where
  "WriteVarInt n = rev (WriteVarInt_tmp False n)"

function GetSizeOfVarInt :: "nat \<Rightarrow> nat" where
  "GetSizeOfVarInt n = (if n \<le> 0x7F then 1 else Suc (GetSizeOfVarInt (n div 128 - 1)))"
  by pat_completeness auto
termination
  by (relation "measure (\<lambda>n. n)") auto

fun ReadVarInt_loop :: "nat \<Rightarrow> nat \<Rightarrow> nat reader" where
  "ReadVarInt_loop bits n [] = Inl EndOfData"
| "ReadVarInt_loop bits n (chData # bs) =
     (if n > (2 ^ bits - 1) div 128 then Inl VarIntTooLarge
      else let n' = n * 128 + unat (chData AND 0x7F) in
        if chData AND 0x80 \<noteq> 0 then
          (if n' = 2 ^ bits - 1 then Inl VarIntTooLarge else ReadVarInt_loop bits (n' + 1) bs)
        else Inr (n', bs))"

definition ReadVarInt :: "nat \<Rightarrow> nat reader" where
  "ReadVarInt bits = ReadVarInt_loop bits 0"

section \<open>Strings and vectors\<close>

definition Serialize_bytes :: "bytes \<Rightarrow> bytes" where
  "Serialize_bytes v = WriteCompactSize (of_nat (length v)) @ v"

definition Unserialize_bytes :: "bytes reader" where
  "Unserialize_bytes = rbind ReadCompactSize (\<lambda>nSize. stream_read (unat nSize))"

definition string_bytes :: "string \<Rightarrow> bytes" where
  "string_bytes s = map (\<lambda>c. of_nat (of_char c)) s"

definition bytes_string :: "bytes \<Rightarrow> string" where
  "bytes_string b = map (\<lambda>w. char_of (unat w)) b"

definition Serialize_string :: "string \<Rightarrow> bytes" where
  "Serialize_string s = Serialize_bytes (string_bytes s)"

definition Unserialize_string :: "string reader" where
  "Unserialize_string = rbind Unserialize_bytes (\<lambda>b. rret (bytes_string b))"

definition Serialize_vector :: "('a \<Rightarrow> bytes) \<Rightarrow> 'a list \<Rightarrow> bytes" where
  "Serialize_vector ser v = WriteCompactSize (of_nat (length v)) @ concat (map ser v)"

fun read_many :: "'a reader \<Rightarrow> nat \<Rightarrow> 'a list reader" where
  "read_many r 0 = rret []"
| "read_many r (Suc n) = rbind r (\<lambda>x. rbind (read_many r n) (\<lambda>xs. rret (x # xs)))"

definition Unserialize_vector :: "'a reader \<Rightarrow> 'a list reader" where
  "Unserialize_vector r = rbind ReadCompactSize (\<lambda>nSize. read_many r (unat nSize))"


section \<open>The contract of a codec\<close>

lemma rbind_simps [simp]:
  "rbind (rret x) f bs = f x bs"
  "rbind (rfail e) f bs = Inl e"
  by (simp_all add: rbind_def rret_def rfail_def)

lemma rret_Inr [simp]: "rret x bs = Inr (y, r) \<longleftrightarrow> x = y \<and> bs = r"
  by (auto simp: rret_def)

lemma rfail_not_Inr [simp]: "rfail e bs \<noteq> Inr p"
  by (simp add: rfail_def)

lemma rbind_Inr_iff: "rbind r f bs = Inr p \<longleftrightarrow> (\<exists>x bs'. r bs = Inr (x, bs') \<and> f x bs' = Inr p)"
  by (auto simp: rbind_def split: sum.splits prod.splits)

lemma rbind_assoc: "rbind (rbind r f) g = rbind r (\<lambda>x. rbind (f x) g)"
  by (auto simp: rbind_def fun_eq_iff split: sum.split)

lemma rbind_if: "rbind (if c then r else r') f = (if c then rbind r f else rbind r' f)"
  by simp

lemma rbind_ret_fail: "rbind (rret x) f = f x" "rbind (rfail e) f = rfail e"
  by (simp_all add: fun_eq_iff rfail_def)

lemmas rbind_norm = rbind_assoc rbind_if rbind_ret_fail

lemma stream_read_append [simp]: "length a = n \<Longrightarrow> stream_read n (a @ r) = Inr (a, r)"
  by (simp add: stream_read_def)

lemma stream_read_Inr: "stream_read n bs = Inr (a, r) \<longleftrightarrow> length a = n \<and> bs = a @ r"
proof
  assume "stream_read n bs = Inr (a, r)"
  then have "\<not> length bs < n" and "a = take n bs" and "r = drop n bs"
    by (simp_all add: stream_read_def split: if_splits)
  then show "length a = n \<and> bs = a @ r" by simp
qed simp

text \<open>
  A codec promises that what the writer emits for a valid value the reader gives back, leaving
  exactly the bytes that follow. From this alone the encodings are prefix-free and injective, and
  the encoding of a vector is again a codec.
\<close>

locale serializer =
  fixes ser :: "'a \<Rightarrow> bytes"
    and unser :: "'a reader"
    and valid :: "'a \<Rightarrow> bool"
  assumes unser_ser: "valid x \<Longrightarrow> unser (ser x @ rest) = Inr (x, rest)"
begin

lemma prefix_free:
  assumes "valid x" and "valid y" and "ser x @ r = ser y @ s"
  shows "x = y \<and> r = s"
  by (metis assms unser_ser Inr_inject prod.inject)

lemma rbind_ser: "valid x \<Longrightarrow> rbind unser f (ser x @ rest) = f x rest"
  by (simp add: rbind_def unser_ser)

lemma rbind_ser_end: "valid x \<Longrightarrow> rbind unser f (ser x) = f x []"
  using rbind_ser [of x f "[]"] by simp

lemma ser_inj: "valid x \<Longrightarrow> valid y \<Longrightarrow> ser x = ser y \<Longrightarrow> x = y"
  by (metis prefix_free)

lemma read_many_ser:
  "list_all valid xs \<Longrightarrow> read_many unser (length xs) (concat (map ser xs) @ rest) = Inr (xs, rest)"
proof (induction xs)
  case Nil
  then show ?case by simp
next
  case (Cons x xs)
  then have "unser (ser x @ concat (map ser xs) @ rest) = Inr (x, concat (map ser xs) @ rest)"
    and "read_many unser (length xs) (concat (map ser xs) @ rest) = Inr (xs, rest)"
    by (simp_all add: unser_ser)
  then show ?case by (simp add: rbind_def)
qed

end

text \<open>
  A codec is canonical when the reader accepts no other spelling of a value: every successful read
  consumed exactly what the writer would have emitted.
\<close>

locale canonical_serializer = serializer +
  assumes unser_canonical: "unser bs = Inr (x, rest) \<Longrightarrow> valid x \<and> bs = ser x @ rest"
begin

lemma unser_iff: "unser bs = Inr (x, rest) \<longleftrightarrow> valid x \<and> bs = ser x @ rest"
  using unser_canonical unser_ser by blast

lemma read_many_canonical:
  "read_many unser n bs = Inr (xs, rest) \<Longrightarrow>
     length xs = n \<and> list_all valid xs \<and> bs = concat (map ser xs) @ rest"
proof (induction n arbitrary: bs xs)
  case 0
  then show ?case by simp
next
  case (Suc n)
  then obtain x bs1 ys where "unser bs = Inr (x, bs1)" and ys: "read_many unser n bs1 = Inr (ys, rest)"
    and xs: "xs = x # ys"
    by (auto simp: rbind_Inr_iff)
  with Suc.IH [OF ys] show ?case by (auto simp: unser_iff)
qed

end

section \<open>Integers and sizes are canonical codecs\<close>

lemma unat_of_nat_small: "n < 2 ^ LENGTH('a) \<Longrightarrow> unat (of_nat n :: 'a :: len word) = n"
  by (simp add: unat_of_nat take_bit_nat_eq_self)

lemma le_word_roundtrip:
  assumes "LENGTH('a :: len) = 8 * n"
  shows "rbind (stream_read n) (\<lambda>b. rret (of_nat (le_nat b))) (le_bytes n (unat (x :: 'a word)) @ rest)
           = Inr (x, rest)"
proof -
  have "unat x < 2 ^ LENGTH('a)" by (rule unsigned_less)
  then have "unat x < 256 ^ n" by (simp add: assms power_mult)
  then have "of_nat (le_nat (le_bytes n (unat x))) = x"
    by (simp add: le_nat_le_bytes)
  then show ?thesis by (simp add: rbind_def)
qed

lemma le_word_canonical:
  assumes "LENGTH('a :: len) = 8 * n"
    and "rbind (stream_read n) (\<lambda>b. rret (of_nat (le_nat b))) bs = Inr (x :: 'a word, rest)"
  shows "bs = le_bytes n (unat x) @ rest"
proof -
  from assms(2) obtain a where a: "length a = n" and bs: "bs = a @ rest" and x: "x = of_nat (le_nat a)"
    by (auto simp: rbind_Inr_iff stream_read_Inr)
  have "le_nat a < 2 ^ LENGTH('a)"
    using le_nat_less [of a] a assms(1) by (simp add: power_mult)
  then have "unat x = le_nat a" by (simp only: x unat_of_nat_small)
  with a bs show ?thesis by (simp add: le_bytes_le_nat)
qed

lemma ser_writedata8_alt: "ser_writedata8 x = le_bytes 1 (unat x)"
  by (simp add: ser_writedata8_def)

lemmas le_word_defs = ser_writedata8_alt ser_writedata16_def ser_writedata32_def ser_writedata64_def
  ser_readdata8_def ser_readdata16_def ser_readdata32_def ser_readdata64_def

text \<open>The four widths, and through them the compact size, are canonical.\<close>

interpretation c8: canonical_serializer ser_writedata8 ser_readdata8 "\<lambda>_. True"
  unfolding canonical_serializer_def serializer_def canonical_serializer_axioms_def le_word_defs
  using le_word_roundtrip [where 'a = 8 and n = 1] le_word_canonical [where 'a = 8 and n = 1] by simp

interpretation c16: canonical_serializer ser_writedata16 ser_readdata16 "\<lambda>_. True"
  unfolding canonical_serializer_def serializer_def canonical_serializer_axioms_def le_word_defs
  using le_word_roundtrip [where 'a = 16 and n = 2] le_word_canonical [where 'a = 16 and n = 2] by simp

interpretation c32: canonical_serializer ser_writedata32 ser_readdata32 "\<lambda>_. True"
  unfolding canonical_serializer_def serializer_def canonical_serializer_axioms_def le_word_defs
  using le_word_roundtrip [where 'a = 32 and n = 4] le_word_canonical [where 'a = 32 and n = 4] by simp

interpretation c64: canonical_serializer ser_writedata64 ser_readdata64 "\<lambda>_. True"
  unfolding canonical_serializer_def serializer_def canonical_serializer_axioms_def le_word_defs
  using le_word_roundtrip [where 'a = 64 and n = 8] le_word_canonical [where 'a = 64 and n = 8] by simp

lemmas word_codec_iff = c8.unser_iff [simplified] c16.unser_iff [simplified]
  c32.unser_iff [simplified] c64.unser_iff [simplified]

lemma rbind_codec:
  "ser_readdata8 bs = Inr (x, r) \<Longrightarrow> rbind ser_readdata8 f8 bs = f8 x r"
  "ser_readdata16 bs = Inr (y, r) \<Longrightarrow> rbind ser_readdata16 f16 bs = f16 y r"
  "ser_readdata32 bs = Inr (z, r) \<Longrightarrow> rbind ser_readdata32 f32 bs = f32 z r"
  "ser_readdata64 bs = Inr (w, r) \<Longrightarrow> rbind ser_readdata64 f64 bs = f64 w r"
  by (simp_all add: rbind_def)

lemma read_word_simps [codec, simp]:
  "rbind ser_readdata8 f8 (ser_writedata8 x @ r) = f8 x r"
  "rbind ser_readdata16 f16 (ser_writedata16 y @ r) = f16 y r"
  "rbind ser_readdata32 f32 (ser_writedata32 z @ r) = f32 z r"
  "rbind ser_readdata64 f64 (ser_writedata64 w @ r) = f64 w r"
  by (simp_all add: rbind_codec word_codec_iff)

lemma unat_ucast_down:
  "unat (n :: 'a :: len word) < 2 ^ LENGTH('b :: len) \<Longrightarrow> unat (ucast n :: 'b word) = unat n"
  by (simp add: unsigned_ucast_eq take_bit_nat_eq_self)

lemma ucast_down_up:
  assumes "unat (n :: 'a :: len word) < 2 ^ LENGTH('b :: len)"
  shows "ucast (ucast n :: 'b word) = n"
proof (rule word_unat_eq_iff [THEN iffD2])
  have "unat n < 2 ^ LENGTH('a)" by (rule unsigned_less)
  then have "unat (ucast n :: 'b word) < 2 ^ LENGTH('a)"
    by (simp only: unat_ucast_down [OF assms])
  then have "unat (ucast (ucast n :: 'b word) :: 'a word) = unat (ucast n :: 'b word)"
    by (rule unat_ucast_down)
  then show "unat (ucast (ucast n :: 'b word) :: 'a word) = unat n"
    using unat_ucast_down [OF assms] by (rule trans)
qed

lemma unat_ucast_up:
  assumes "LENGTH('b :: len) \<le> LENGTH('a :: len)"
  shows "unat (ucast (m :: 'b word) :: 'a word) = unat m"
proof (rule unat_ucast_down)
  have "unat m < 2 ^ LENGTH('b)" by (rule unsigned_less)
  also have "\<dots> \<le> 2 ^ LENGTH('a)" using assms by simp
  finally show "unat m < 2 ^ LENGTH('a)" .
qed

lemma ucast_up_down:
  assumes "LENGTH('b :: len) \<le> LENGTH('a :: len)"
  shows "ucast (ucast (m :: 'b word) :: 'a word) = m"
proof (rule word_unat_eq_iff [THEN iffD2])
  have "unat m < 2 ^ LENGTH('b)" by (rule unsigned_less)
  then have "unat (ucast m :: 'a word) < 2 ^ LENGTH('b)"
    by (simp only: unat_ucast_up [OF assms])
  then have "unat (ucast (ucast m :: 'a word) :: 'b word) = unat (ucast m :: 'a word)"
    by (rule unat_ucast_down)
  then show "unat (ucast (ucast m :: 'a word) :: 'b word) = unat m"
    by (simp only: unat_ucast_up [OF assms])
qed

lemmas u64_narrow = unat_ucast_down [where 'a = 64 and 'b = 8, simplified]
  unat_ucast_down [where 'a = 64 and 'b = 16, simplified]
  unat_ucast_down [where 'a = 64 and 'b = 32, simplified]

lemmas u64_narrow_widen = ucast_down_up [where 'a = 64 and 'b = 8, simplified]
  ucast_down_up [where 'a = 64 and 'b = 16, simplified]
  ucast_down_up [where 'a = 64 and 'b = 32, simplified]

lemmas u64_widen_narrow = ucast_up_down [where 'a = 64 and 'b = 8, simplified]
  ucast_up_down [where 'a = 64 and 'b = 16, simplified]
  ucast_up_down [where 'a = 64 and 'b = 32, simplified]

lemmas u64_widen = unat_ucast_up [where 'a = 64 and 'b = 8, simplified]
  unat_ucast_up [where 'a = 64 and 'b = 16, simplified]
  unat_ucast_up [where 'a = 64 and 'b = 32, simplified]

lemma unat_u64_MAX_SIZE: "unat (of_nat MAX_SIZE :: u64) = MAX_SIZE"
  by (rule unat_of_nat_small) (simp add: MAX_SIZE_def)

lemma ReadCompactSize_WriteCompactSize:
  assumes "unat nSize \<le> MAX_SIZE"
  shows "ReadCompactSize (WriteCompactSize nSize @ rest) = Inr (nSize, rest)"
proof -
  have le: "\<not> of_nat MAX_SIZE < nSize"
    using assms by (simp add: word_less_nat_alt unat_u64_MAX_SIZE)
  consider "unat nSize < 253" | "253 \<le> unat nSize" "unat nSize < 0x10000"
    | "0x10000 \<le> unat nSize" "unat nSize < 0x100000000"
    using assms by (fastforce simp: MAX_SIZE_def)
  then show ?thesis
  proof cases
    case 1
    then show ?thesis using le
      by (simp add: ReadCompactSize_def WriteCompactSize_def u64_narrow u64_narrow_widen
          word_less_nat_alt)
  next
    case 2
    then show ?thesis using le
      by (simp add: ReadCompactSize_def WriteCompactSize_def u64_narrow u64_narrow_widen
          word_less_nat_alt word_le_nat_alt rbind_norm)
  next
    case 3
    then show ?thesis using le
      by (simp add: ReadCompactSize_def WriteCompactSize_def u64_narrow u64_narrow_widen
          word_less_nat_alt word_le_nat_alt rbind_norm)
  qed
qed


lemma ReadCompactSize_canonical:
  assumes "ReadCompactSize bs = Inr (nSize, rest)"
  shows "unat nSize \<le> MAX_SIZE \<and> bs = WriteCompactSize nSize @ rest"
proof -
  from assms obtain c r where bs: "bs = ser_writedata8 c @ r"
    and n: "rbind (if c < 253 then rret (ucast c)
            else if c = 253 then
              rbind ser_readdata16 (\<lambda>n.
                if ucast n < (253 :: u64) then rfail NonCanonicalSize else rret (ucast n))
            else if c = 254 then
              rbind ser_readdata32 (\<lambda>n.
                if ucast n < (0x10000 :: u64) then rfail NonCanonicalSize else rret (ucast n))
            else
              rbind ser_readdata64 (\<lambda>n.
                if n < 0x100000000 then rfail NonCanonicalSize else rret n))
       (\<lambda>nSizeRet. if nSizeRet > of_nat MAX_SIZE then rfail SizeTooLarge else rret nSizeRet) r
        = Inr (nSize, rest)"
    unfolding ReadCompactSize_def rbind_Inr_iff [of ser_readdata8] word_codec_iff by blast
  have size: "unat nSize \<le> MAX_SIZE"
    using n by (auto simp: rbind_Inr_iff word_less_nat_alt unat_u64_MAX_SIZE split: if_splits)
  have "unat c < 253 \<or> unat c = 253 \<or> unat c = 254 \<or> unat c = 255"
    using unat_byte_less [of c] by linarith
  then consider "c < 253" | "c = 253" | "c = 254" | "c = 255"
    by (auto simp: word_less_nat_alt word_unat_eq_iff)
  then show ?thesis
  proof cases
    case 1
    with n have "nSize = ucast c" and "r = rest"
      by (auto simp: rbind_norm split: if_splits)
    with 1 size bs show ?thesis
      by (simp add: WriteCompactSize_def u64_widen u64_widen_narrow word_less_nat_alt)
  next
    case 2
    with n obtain m where "nSize = ucast m" and r: "r = ser_writedata16 m @ rest" and "\<not> ucast m < (253 :: u64)"
      by (auto simp: rbind_norm rbind_Inr_iff word_codec_iff split: if_splits)
    with 2 size bs show ?thesis
      by (simp add: WriteCompactSize_def u64_widen u64_widen_narrow word_less_nat_alt word_le_nat_alt)
  next
    case 3
    with n obtain m where "nSize = ucast m" and r: "r = ser_writedata32 m @ rest" and "\<not> ucast m < (0x10000 :: u64)"
      by (auto simp: rbind_norm rbind_Inr_iff word_codec_iff split: if_splits)
    with 3 size bs show ?thesis
      by (simp add: WriteCompactSize_def u64_widen u64_widen_narrow word_less_nat_alt word_le_nat_alt)
  next
    case 4
    with n have "\<not> nSize < 0x100000000"
      by (auto simp: rbind_norm rbind_Inr_iff word_codec_iff split: if_splits)
    with size show ?thesis
      by (simp add: MAX_SIZE_def word_less_nat_alt)
  qed
qed

interpretation csize: canonical_serializer WriteCompactSize ReadCompactSize "\<lambda>n. unat n \<le> MAX_SIZE"
  by unfold_locales (use ReadCompactSize_WriteCompactSize ReadCompactSize_canonical in blast)+


section \<open>Variable-length integers are canonical\<close>

text \<open>The three bit patterns the reader and the writer use, as arithmetic.\<close>

lemma byte_low7: "unat (c AND 0x7F :: byte) = unat c mod 128"
proof -
  have "(0x7F :: byte) = mask 7" by (simp add: mask_eq_exp_minus_1)
  then have "unat (c AND 0x7F) = take_bit 7 (unat c)"
    by (simp only: take_bit_eq_mask [symmetric] unsigned_take_bit_eq)
  then show ?thesis by (simp add: take_bit_eq_mod)
qed

lemma byte_high: "c AND 0x80 = (0 :: byte) \<longleftrightarrow> unat c < 128"
proof -
  have "c AND 2 ^ 7 = 0 \<longleftrightarrow> \<not> bit c 7"
    by (rule and_exp_eq_0_iff_not_bit)
  also have "bit c 7 \<longleftrightarrow> bit (unat c) 7" by (simp add: bit_unsigned_iff)
  also have "\<dots> \<longleftrightarrow> odd (unat c div 128)" by (simp add: bit_iff_odd)
  also have "unat c div 128 = (if unat c < 128 then 0 else 1)"
    using unat_byte_less [of c] by (simp add: div_nat_eqI)
  finally show ?thesis by simp
qed

lemma byte_or_high: "unat c < 128 \<Longrightarrow> unat (c OR 0x80 :: byte) = unat c + 128"
proof -
  assume c: "unat c < 128"
  then have "c OR 0x80 = c + 0x80"
    by (simp add: disjunctive_add_eq_or byte_high)
  with c show ?thesis by (simp add: unat_word_ariths)
qed


declare WriteVarInt_tmp.simps [simp del]
declare GetSizeOfVarInt.simps [simp del]

text \<open>
  \<open>varint_prefix m\<close> are the bytes read so far when the reader's accumulator is \<open>m\<close>: none at the
  start, and afterwards the continued encoding of \<open>m - 1\<close>, since the reader increments after every
  byte that announces another.
\<close>

definition varint_prefix :: "nat \<Rightarrow> bytes" where
  "varint_prefix m = (if m = 0 then [] else rev (WriteVarInt_tmp True (m - 1)))"

lemma rev_WriteVarInt_tmp:
  "rev (WriteVarInt_tmp more n) =
     varint_prefix (n div 128) @ [of_nat (n mod 128) OR (if more then 0x80 else 0)]"
proof (cases "n \<le> 127")
  case True
  then have "n div 128 = 0" by simp
  with True show ?thesis by (simp add: varint_prefix_def WriteVarInt_tmp.simps [of more n])
next
  case False
  then have "n div 128 \<noteq> 0" by (simp add: div_eq_0_iff)
  with False show ?thesis by (simp add: varint_prefix_def WriteVarInt_tmp.simps [of more n])
qed

lemma unat_mod128: "unat (of_nat (n mod 128) :: byte) = n mod 128"
proof (rule unat_of_nat_small)
  have "n mod 128 < 128" by simp
  then show "n mod 128 < 2 ^ LENGTH(8)" by (rule less_trans) simp
qed

lemma varint_more_byte:
  "unat ((of_nat (n mod 128) OR 0x80 :: byte) AND 0x7F) = n mod 128"
  "(of_nat (n mod 128) OR 0x80 :: byte) AND 0x80 \<noteq> 0"
  by (simp_all add: byte_low7 byte_high byte_or_high unat_mod128)

lemma varint_last_byte:
  "unat ((of_nat (n mod 128) :: byte) AND 0x7F) = n mod 128"
  "(of_nat (n mod 128) :: byte) AND 0x80 = 0"
  by (simp_all add: byte_low7 byte_high unat_mod128)

lemma varint_byte_split:
  fixes c :: byte
  shows "c = of_nat (unat (c AND 0x7F)) OR (if c AND 0x80 \<noteq> 0 then 0x80 else 0)"
proof (cases "unat c < 128")
  case True
  then show ?thesis by (simp add: byte_low7 byte_high)
next
  case False
  then have "unat c div 128 = 1" using unat_byte_less [of c] by (simp add: div_nat_eqI)
  then have "unat c mod 128 + 128 = unat c" using div_mult_mod_eq [of "unat c" 128] by simp
  then have "unat (of_nat (unat c mod 128) OR 0x80 :: byte) = unat c"
    by (simp add: byte_or_high unat_mod128)
  then have "of_nat (unat c mod 128) OR 0x80 = c" by (simp only: word_unat_eq_iff)
  with False show ?thesis by (simp add: byte_low7 byte_high)
qed

lemma ReadVarInt_loop_prefix:
  "m < 2 ^ bits \<Longrightarrow> ReadVarInt_loop bits 0 (varint_prefix m @ rest) = ReadVarInt_loop bits m rest"
proof (induction m arbitrary: rest rule: less_induct)
  case (less m)
  show ?case
  proof (cases m)
    case 0
    then show ?thesis by (simp add: varint_prefix_def)
  next
    case (Suc k)
    let ?b = "of_nat (k mod 128) OR 0x80 :: byte"
    have lt: "k div 128 < m" and lt2: "k div 128 < 2 ^ bits"
      using less.prems Suc by (simp_all add: less_Suc_eq_le div_le_dividend le_less_trans)
    have "ReadVarInt_loop bits 0 (varint_prefix m @ rest)
          = ReadVarInt_loop bits 0 (varint_prefix (k div 128) @ ?b # rest)"
      by (simp add: varint_prefix_def [of "Suc k"] Suc rev_WriteVarInt_tmp)
    also have "\<dots> = ReadVarInt_loop bits (k div 128) (?b # rest)"
      by (rule less.IH [OF lt lt2])
    also have "\<dots> = ReadVarInt_loop bits m rest"
    proof -
      have "k \<noteq> 2 ^ bits - 1" and "k \<le> 2 ^ bits - 1" using less.prems Suc by simp_all
      moreover from this(2) have "k div 128 \<le> (2 ^ bits - 1) div 128" by (rule div_le_mono)
      moreover have "k div 128 * 128 + k mod 128 = k" by simp
      ultimately show ?thesis using varint_more_byte [of k] by (simp add: Suc Let_def)
    qed
    finally show ?thesis .
  qed
qed

lemma ReadVarInt_WriteVarInt:
  assumes "n < 2 ^ bits"
  shows "ReadVarInt bits (WriteVarInt n @ rest) = Inr (n, rest)"
proof -
  have "n div 128 < 2 ^ bits" using assms by (rule le_less_trans [OF div_le_dividend])
  then have "ReadVarInt bits (WriteVarInt n @ rest)
             = ReadVarInt_loop bits (n div 128) (of_nat (n mod 128) # rest)"
    by (simp add: ReadVarInt_def WriteVarInt_def rev_WriteVarInt_tmp ReadVarInt_loop_prefix)
  moreover have "n div 128 \<le> (2 ^ bits - 1) div 128" using assms by (intro div_le_mono) simp
  ultimately show ?thesis using varint_last_byte [of n] by (simp add: Let_def)
qed

lemma ReadVarInt_loop_canonical:
  "ReadVarInt_loop bits m bs = Inr (n, rest) \<Longrightarrow> 7 \<le> bits \<Longrightarrow>
     varint_prefix m @ bs = WriteVarInt n @ rest \<and> n < 2 ^ bits"
proof (induction bits m bs rule: ReadVarInt_loop.induct)
  case (1 bits n)
  then show ?case by simp
next
  case (2 bits m c bs)
  define n' where "n' = m * 128 + unat (c AND 0x7F)"
  have low: "unat (c AND 0x7F) < 128" by (simp add: byte_low7)
  then have n': "n' div 128 = m" "n' mod 128 = unat (c AND 0x7F)" by (simp_all add: n'_def)
  from "2.prems" have m: "m \<le> (2 ^ bits - 1) div 128" by (auto split: if_splits)
  have "n' < 128 * ((2 ^ bits - 1) div 128 + 1)" using m low by (simp add: n'_def)
  also have "\<dots> \<le> 2 ^ bits"
  proof -
    have b: "(2 :: nat) ^ bits = 128 * 2 ^ (bits - 7)"
      using power_add [of "2 :: nat" 7 "bits - 7"] "2.prems"(2) by simp
    have "(128 * 2 ^ (bits - 7) - 1) div 128 < (2 :: nat) ^ (bits - 7)"
      by (rule less_mult_imp_div_less) (simp add: mult.commute)
    then show ?thesis unfolding b by simp
  qed
  finally have small: "n' < 2 ^ bits" .
  have tmp: "rev (WriteVarInt_tmp (c AND 0x80 \<noteq> 0) n') = varint_prefix m @ [c]"
    using varint_byte_split [of c] by (simp add: rev_WriteVarInt_tmp n')
  show ?case
  proof (cases "c AND 0x80 = 0")
    case True
    with "2.prems" m have "n = n'" "rest = bs" by (simp_all add: n'_def Let_def)
    with small show ?thesis using tmp True by (simp add: WriteVarInt_def)
  next
    case False
    with "2.prems" m have r: "ReadVarInt_loop bits (n' + 1) bs = Inr (n, rest)"
      by (simp add: n'_def Let_def split: if_splits)
    have "varint_prefix (n' + 1) = varint_prefix m @ [c]"
      using tmp False by (simp add: varint_prefix_def [of "Suc n'"])
    moreover have "varint_prefix (n' + 1) @ bs = WriteVarInt n @ rest \<and> n < 2 ^ bits"
      using "2.IH" m False r "2.prems" by (simp add: n'_def Let_def split: if_splits)
    ultimately show ?thesis by simp
  qed
qed


lemma ReadVarInt_canonical:
  "7 \<le> bits \<Longrightarrow> ReadVarInt bits bs = Inr (n, rest) \<Longrightarrow> n < 2 ^ bits \<and> bs = WriteVarInt n @ rest"
  using ReadVarInt_loop_canonical [of bits 0 bs n rest] by (simp add: ReadVarInt_def varint_prefix_def)

interpretation varint32: canonical_serializer WriteVarInt "ReadVarInt 32" "\<lambda>n. n < 2 ^ 32"
  by unfold_locales
    (use ReadVarInt_WriteVarInt [where bits = 32] ReadVarInt_canonical [where bits = 32] in simp_all)

interpretation varint64: canonical_serializer WriteVarInt "ReadVarInt 64" "\<lambda>n. n < 2 ^ 64"
  by unfold_locales
    (use ReadVarInt_WriteVarInt [where bits = 64] ReadVarInt_canonical [where bits = 64] in simp_all)

lemma length_WriteVarInt_tmp: "length (WriteVarInt_tmp more n) = GetSizeOfVarInt n"
proof (induction more n rule: WriteVarInt_tmp.induct)
  case (1 more n)
  then show ?case
    by (simp add: WriteVarInt_tmp.simps [of more n] GetSizeOfVarInt.simps [of n])
qed

section \<open>Byte strings, strings, signed integers and vectors\<close>

lemma unat_size: "n \<le> MAX_SIZE \<Longrightarrow> unat (of_nat n :: u64) = n"
  by (rule unat_of_nat_small) (simp add: MAX_SIZE_def)

lemma Unserialize_bytes_Serialize_bytes:
  "length v \<le> MAX_SIZE \<Longrightarrow> Unserialize_bytes (Serialize_bytes v @ rest) = Inr (v, rest)"
  by (simp add: Unserialize_bytes_def Serialize_bytes_def rbind_def csize.unser_ser unat_size)

lemma Unserialize_bytes_canonical:
  assumes "Unserialize_bytes bs = Inr (v, rest)"
  shows "length v \<le> MAX_SIZE \<and> bs = Serialize_bytes v @ rest"
  using assms
  by (auto simp: Unserialize_bytes_def Serialize_bytes_def rbind_Inr_iff csize.unser_iff stream_read_Inr)

interpretation cbytes: canonical_serializer Serialize_bytes Unserialize_bytes "\<lambda>v. length v \<le> MAX_SIZE"
  by unfold_locales (use Unserialize_bytes_Serialize_bytes Unserialize_bytes_canonical in blast)+

lemma unat_of_char: "unat (of_nat (of_char c) :: byte) = of_char c"
proof -
  have "(of_char c :: nat) mod 256 = of_char c" by simp
  then show ?thesis by (metis unat_byte_mod)
qed

lemma bytes_string_inverse: "bytes_string (string_bytes s) = s"
  by (induction s) (simp_all add: bytes_string_def string_bytes_def unat_of_char)

lemma string_bytes_inverse: "string_bytes (bytes_string b) = b"
  by (induction b) (simp_all add: bytes_string_def string_bytes_def)

lemma length_string_bytes [simp]: "length (string_bytes s) = length s"
  by (simp add: string_bytes_def)

lemma length_bytes_string [simp]: "length (bytes_string b) = length b"
  by (simp add: bytes_string_def)

interpretation cstring: canonical_serializer Serialize_string Unserialize_string "\<lambda>s. length s \<le> MAX_SIZE"
proof unfold_locales
  show "Unserialize_string (Serialize_string s @ rest) = Inr (s, rest)" if "length s \<le> MAX_SIZE" for s rest
    using that cbytes.unser_ser [of "string_bytes s" rest]
    by (simp add: Unserialize_string_def Serialize_string_def rbind_def bytes_string_inverse rret_def)
  show "length s \<le> MAX_SIZE \<and> bs = Serialize_string s @ rest"
    if "Unserialize_string bs = Inr (s, rest)" for bs s rest
    using that
    by (auto simp: Unserialize_string_def Serialize_string_def rbind_Inr_iff cbytes.unser_iff
        string_bytes_inverse)
qed

lemma uint_word_of_int64: "uint (word_of_int x :: u64) = x mod 2 ^ 64"
  by (simp add: uint_word_of_int)

lemma int64_of_mod: "int64 (x mod 2 ^ 64) = int64 x"
  unfolding int64_def using signed_take_bit_mod_eq [of 63 x] by simp

lemma int8_of_mod: "int8 (x mod 2 ^ 8) = int8 x"
  unfolding int8_def using signed_take_bit_mod_eq [of 7 x] by simp

lemma int8_mod: "int8 x mod 2 ^ 8 = x mod 2 ^ 8"
proof -
  have "take_bit 8 (signed_take_bit 7 x) = take_bit 8 x"
    by (rule take_bit_signed_take_bit) simp
  then show ?thesis by (simp add: int8_def take_bit_eq_mod)
qed

lemma word_of_int_int64: "(word_of_int (int64 (uint w)) :: u64) = w"
  using int64_mod [of "uint w"] uint_idem [of w]
  by (simp add: word_uint_eq_iff uint_word_of_int)

lemma word_of_int_int8: "(word_of_int (int8 (uint w)) :: byte) = w"
  using int8_mod [of "uint w"] uint_idem [of w]
  by (simp add: word_uint_eq_iff uint_word_of_int)

interpretation ci64: canonical_serializer Serialize_int64 Unserialize_int64 in_int64
proof unfold_locales
  show "Unserialize_int64 (Serialize_int64 x @ rest) = Inr (x, rest)" if "in_int64 x" for x rest
    using that int64_of_mod [of x]
    by (simp add: Unserialize_int64_def Serialize_int64_def uint_word_of_int int64_id)
  show "in_int64 x \<and> bs = Serialize_int64 x @ rest" if "Unserialize_int64 bs = Inr (x, rest)" for bs x rest
    using that int64_range
    by (auto simp: Unserialize_int64_def Serialize_int64_def rbind_Inr_iff word_codec_iff word_of_int_int64)
qed

interpretation ci8: canonical_serializer Serialize_int8 Unserialize_int8 in_int8
proof unfold_locales
  show "Unserialize_int8 (Serialize_int8 x @ rest) = Inr (x, rest)" if "in_int8 x" for x rest
    using that int8_of_mod [of x]
    by (simp add: Unserialize_int8_def Serialize_int8_def uint_word_of_int int8_id)
  show "in_int8 x \<and> bs = Serialize_int8 x @ rest" if "Unserialize_int8 bs = Inr (x, rest)" for bs x rest
    using that int8_range
    by (auto simp: Unserialize_int8_def Serialize_int8_def rbind_Inr_iff word_codec_iff word_of_int_int8)
qed

text \<open>
  A vector of a codec's values is a codec, and canonical when the element codec is: the length
  prefix fixes how many elements the reader takes.
\<close>

context serializer
begin

lemma Unserialize_vector_Serialize_vector:
  assumes "length v \<le> MAX_SIZE" and "list_all valid v"
  shows "Unserialize_vector unser (Serialize_vector ser v @ rest) = Inr (v, rest)"
  using assms read_many_ser
  by (simp add: Unserialize_vector_def Serialize_vector_def rbind_def csize.unser_ser unat_size)

end

context canonical_serializer
begin

lemma Unserialize_vector_canonical:
  assumes "Unserialize_vector unser bs = Inr (v, rest)"
  shows "length v \<le> MAX_SIZE \<and> list_all valid v \<and> bs = Serialize_vector ser v @ rest"
proof -
  from assms obtain n r where n: "unat n \<le> MAX_SIZE" and bs: "bs = WriteCompactSize n @ r"
    and v: "read_many unser (unat n) r = Inr (v, rest)"
    by (auto simp: Unserialize_vector_def rbind_Inr_iff csize.unser_iff)
  from read_many_canonical [OF v] n bs show ?thesis
    by (auto simp: Serialize_vector_def)
qed

end

section \<open>Properties\<close>

text \<open>
  The compact size reader inverts the writer and accepts nothing else: a byte string is read as \<open>n\<close> exactly
  if it starts with the encoding that \<^verbatim>\<open>WriteCompactSize\<close> produces for \<open>n\<close>, and \<open>n\<close> is at most \<^verbatim>\<open>MAX_SIZE\<close>.
\<close>

theorem compact_size_canonical:
  "ReadCompactSize bs = Inr (n, rest) \<longleftrightarrow> unat n \<le> MAX_SIZE \<and> bs = WriteCompactSize n @ rest"
  by (rule csize.unser_iff)

text \<open>
  The variable-length integers are one-to-one, as their comment claims: a byte string is read as the
  64-bit \<open>n\<close> exactly if it starts with the encoding of \<open>n\<close>, whose length is what \<^verbatim>\<open>GetSizeOfVarInt\<close> says.
\<close>

theorem varint_one_to_one:
  "(ReadVarInt 64 bs = Inr (n, rest) \<longleftrightarrow> n < 2 ^ 64 \<and> bs = WriteVarInt n @ rest) \<and>
   length (WriteVarInt m) = GetSizeOfVarInt m"
  using varint64.unser_iff [of bs n rest] by (simp add: WriteVarInt_def length_WriteVarInt_tmp)

end
