(* ===== verification/Script.thy ===== *)
theory Script
  imports Serialize
begin

text \<open>
  Scripts (\<^verbatim>\<open>src/src/script/script.h\<close> and \<^verbatim>\<open>script.cpp\<close>): the numbers that scripts compute with,
  the instruction reader \<^verbatim>\<open>GetOp2\<close> and the loops built on it, the writers \<^verbatim>\<open>operator<<\<close>, and the
  tests that recognise standard and asset output scripts. A script is its byte string; an iterator
  \<^verbatim>\<open>pc\<close> into it is the suffix that starts there, so \<^verbatim>\<open>end() - pc\<close> is its length.
\<close>

section \<open>Opcodes and limits\<close>

type_synonym script = bytes
type_synonym valtype = bytes

abbreviation (input) "OP_0 \<equiv> (0x00 :: byte)"
abbreviation (input) "OP_PUSHDATA1 \<equiv> (0x4c :: byte)"
abbreviation (input) "OP_PUSHDATA2 \<equiv> (0x4d :: byte)"
abbreviation (input) "OP_PUSHDATA4 \<equiv> (0x4e :: byte)"
abbreviation (input) "OP_1NEGATE \<equiv> (0x4f :: byte)"
abbreviation (input) "OP_RESERVED \<equiv> (0x50 :: byte)"
abbreviation (input) "OP_1 \<equiv> (0x51 :: byte)"
abbreviation (input) "OP_16 \<equiv> (0x60 :: byte)"
abbreviation (input) "OP_NOP \<equiv> (0x61 :: byte)"
abbreviation (input) "OP_IF \<equiv> (0x63 :: byte)"
abbreviation (input) "OP_NOTIF \<equiv> (0x64 :: byte)"
abbreviation (input) "OP_ELSE \<equiv> (0x67 :: byte)"
abbreviation (input) "OP_ENDIF \<equiv> (0x68 :: byte)"
abbreviation (input) "OP_VERIFY \<equiv> (0x69 :: byte)"
abbreviation (input) "OP_RETURN \<equiv> (0x6a :: byte)"
abbreviation (input) "OP_TOALTSTACK \<equiv> (0x6b :: byte)"
abbreviation (input) "OP_FROMALTSTACK \<equiv> (0x6c :: byte)"
abbreviation (input) "OP_2DROP \<equiv> (0x6d :: byte)"
abbreviation (input) "OP_2DUP \<equiv> (0x6e :: byte)"
abbreviation (input) "OP_3DUP \<equiv> (0x6f :: byte)"
abbreviation (input) "OP_2OVER \<equiv> (0x70 :: byte)"
abbreviation (input) "OP_2ROT \<equiv> (0x71 :: byte)"
abbreviation (input) "OP_2SWAP \<equiv> (0x72 :: byte)"
abbreviation (input) "OP_IFDUP \<equiv> (0x73 :: byte)"
abbreviation (input) "OP_DEPTH \<equiv> (0x74 :: byte)"
abbreviation (input) "OP_DROP \<equiv> (0x75 :: byte)"
abbreviation (input) "OP_DUP \<equiv> (0x76 :: byte)"
abbreviation (input) "OP_NIP \<equiv> (0x77 :: byte)"
abbreviation (input) "OP_OVER \<equiv> (0x78 :: byte)"
abbreviation (input) "OP_PICK \<equiv> (0x79 :: byte)"
abbreviation (input) "OP_ROLL \<equiv> (0x7a :: byte)"
abbreviation (input) "OP_ROT \<equiv> (0x7b :: byte)"
abbreviation (input) "OP_SWAP \<equiv> (0x7c :: byte)"
abbreviation (input) "OP_TUCK \<equiv> (0x7d :: byte)"
abbreviation (input) "OP_CAT \<equiv> (0x7e :: byte)"
abbreviation (input) "OP_SUBSTR \<equiv> (0x7f :: byte)"
abbreviation (input) "OP_LEFT \<equiv> (0x80 :: byte)"
abbreviation (input) "OP_RIGHT \<equiv> (0x81 :: byte)"
abbreviation (input) "OP_SIZE \<equiv> (0x82 :: byte)"
abbreviation (input) "OP_INVERT \<equiv> (0x83 :: byte)"
abbreviation (input) "OP_AND \<equiv> (0x84 :: byte)"
abbreviation (input) "OP_OR \<equiv> (0x85 :: byte)"
abbreviation (input) "OP_XOR \<equiv> (0x86 :: byte)"
abbreviation (input) "OP_EQUAL \<equiv> (0x87 :: byte)"
abbreviation (input) "OP_EQUALVERIFY \<equiv> (0x88 :: byte)"
abbreviation (input) "OP_1ADD \<equiv> (0x8b :: byte)"
abbreviation (input) "OP_1SUB \<equiv> (0x8c :: byte)"
abbreviation (input) "OP_2MUL \<equiv> (0x8d :: byte)"
abbreviation (input) "OP_2DIV \<equiv> (0x8e :: byte)"
abbreviation (input) "OP_NEGATE \<equiv> (0x8f :: byte)"
abbreviation (input) "OP_ABS \<equiv> (0x90 :: byte)"
abbreviation (input) "OP_NOT \<equiv> (0x91 :: byte)"
abbreviation (input) "OP_0NOTEQUAL \<equiv> (0x92 :: byte)"
abbreviation (input) "OP_ADD \<equiv> (0x93 :: byte)"
abbreviation (input) "OP_SUB \<equiv> (0x94 :: byte)"
abbreviation (input) "OP_MUL \<equiv> (0x95 :: byte)"
abbreviation (input) "OP_DIV \<equiv> (0x96 :: byte)"
abbreviation (input) "OP_MOD \<equiv> (0x97 :: byte)"
abbreviation (input) "OP_LSHIFT \<equiv> (0x98 :: byte)"
abbreviation (input) "OP_RSHIFT \<equiv> (0x99 :: byte)"
abbreviation (input) "OP_BOOLAND \<equiv> (0x9a :: byte)"
abbreviation (input) "OP_BOOLOR \<equiv> (0x9b :: byte)"
abbreviation (input) "OP_NUMEQUAL \<equiv> (0x9c :: byte)"
abbreviation (input) "OP_NUMEQUALVERIFY \<equiv> (0x9d :: byte)"
abbreviation (input) "OP_NUMNOTEQUAL \<equiv> (0x9e :: byte)"
abbreviation (input) "OP_LESSTHAN \<equiv> (0x9f :: byte)"
abbreviation (input) "OP_GREATERTHAN \<equiv> (0xa0 :: byte)"
abbreviation (input) "OP_LESSTHANOREQUAL \<equiv> (0xa1 :: byte)"
abbreviation (input) "OP_GREATERTHANOREQUAL \<equiv> (0xa2 :: byte)"
abbreviation (input) "OP_MIN \<equiv> (0xa3 :: byte)"
abbreviation (input) "OP_MAX \<equiv> (0xa4 :: byte)"
abbreviation (input) "OP_WITHIN \<equiv> (0xa5 :: byte)"
abbreviation (input) "OP_RIPEMD160 \<equiv> (0xa6 :: byte)"
abbreviation (input) "OP_SHA1 \<equiv> (0xa7 :: byte)"
abbreviation (input) "OP_SHA256 \<equiv> (0xa8 :: byte)"
abbreviation (input) "OP_HASH160 \<equiv> (0xa9 :: byte)"
abbreviation (input) "OP_HASH256 \<equiv> (0xaa :: byte)"
abbreviation (input) "OP_CODESEPARATOR \<equiv> (0xab :: byte)"
abbreviation (input) "OP_CHECKSIG \<equiv> (0xac :: byte)"
abbreviation (input) "OP_CHECKSIGVERIFY \<equiv> (0xad :: byte)"
abbreviation (input) "OP_CHECKMULTISIG \<equiv> (0xae :: byte)"
abbreviation (input) "OP_CHECKMULTISIGVERIFY \<equiv> (0xaf :: byte)"
abbreviation (input) "OP_NOP1 \<equiv> (0xb0 :: byte)"
abbreviation (input) "OP_CHECKLOCKTIMEVERIFY \<equiv> (0xb1 :: byte)"
abbreviation (input) "OP_CHECKSEQUENCEVERIFY \<equiv> (0xb2 :: byte)"
abbreviation (input) "OP_NOP4 \<equiv> (0xb3 :: byte)"
abbreviation (input) "OP_NOP10 \<equiv> (0xb9 :: byte)"
abbreviation (input) "OP_BLKR_ASSET \<equiv> (0xc0 :: byte)"
abbreviation (input) "OP_INVALIDOPCODE \<equiv> (0xff :: byte)"
abbreviation (input) "MAX_OPCODE \<equiv> OP_NOP10"

definition MAX_SCRIPT_ELEMENT_SIZE :: nat where "MAX_SCRIPT_ELEMENT_SIZE = 520"
definition MAX_OPS_PER_SCRIPT :: nat where "MAX_OPS_PER_SCRIPT = 201"
definition MAX_PUBKEYS_PER_MULTISIG :: nat where "MAX_PUBKEYS_PER_MULTISIG = 20"
definition MAX_SCRIPT_SIZE :: nat where "MAX_SCRIPT_SIZE = 10000"
definition MAX_STACK_SIZE :: nat where "MAX_STACK_SIZE = 1000"

section \<open>Script numbers\<close>

datatype scriptnum_error = ScriptNumberOverflow | NonMinimalScriptNumber

text \<open>
  \<^verbatim>\<open>CScriptNum::set_vch\<close>: the loop ORs every byte into a 64-bit accumulator at its position; a set
  sign bit in the last byte is removed and negates the rest.
\<close>

fun set_vch_loop :: "nat \<Rightarrow> bytes \<Rightarrow> u64 \<Rightarrow> u64" where
  "set_vch_loop i [] result = result"
| "set_vch_loop i (v # vch) result = set_vch_loop (Suc i) vch (result OR push_bit (8 * i) (ucast v))"

definition set_vch :: "bytes \<Rightarrow> int" where
  "set_vch vch =
     (if vch = [] then 0
      else let result = set_vch_loop 0 vch 0 in
        if last vch AND 0x80 \<noteq> 0
        then - sint (result AND NOT (push_bit (8 * (length vch - 1)) 0x80))
        else sint result)"

definition CScriptNum :: "bytes \<Rightarrow> bool \<Rightarrow> nat \<Rightarrow> scriptnum_error + int" where
  "CScriptNum vch fRequireMinimal nMaxNumSize =
     (if length vch > nMaxNumSize then Inl ScriptNumberOverflow
      else if fRequireMinimal \<and> length vch > 0 \<and> last vch AND 0x7f = 0 \<and>
              (length vch \<le> 1 \<or> vch ! (length vch - 2) AND 0x80 = 0)
      then Inl NonMinimalScriptNumber
      else Inr (set_vch vch))"

definition nDefaultMaxNumSize :: nat where "nDefaultMaxNumSize = 4"

fun absvalue_bytes :: "nat \<Rightarrow> bytes" where
  "absvalue_bytes n = (if n = 0 then [] else of_nat (n mod 256) # absvalue_bytes (n div 256))"

definition scriptnum_serialize :: "int \<Rightarrow> bytes" where
  "scriptnum_serialize value =
     (if value = 0 then []
      else let neg = value < 0; result = absvalue_bytes (nat \<bar>value\<bar>) in
        if last result AND 0x80 \<noteq> 0 then result @ [if neg then 0x80 else 0]
        else if neg then butlast result @ [last result OR 0x80]
        else result)"

definition getint :: "int \<Rightarrow> int" where
  "getint v = (if v > 2 ^ 31 - 1 then 2 ^ 31 - 1 else if v < - (2 ^ 31) then - (2 ^ 31) else v)"

section \<open>Writing scripts\<close>

definition push_data :: "script \<Rightarrow> bytes \<Rightarrow> script" where
  "push_data s b =
     (if length b < unat OP_PUSHDATA1 then s @ [of_nat (length b)] @ b
      else if length b \<le> 0xff then s @ [OP_PUSHDATA1, of_nat (length b)] @ b
      else if length b \<le> 0xffff then s @ [OP_PUSHDATA2] @ le_bytes 2 (length b) @ b
      else s @ [OP_PUSHDATA4] @ le_bytes 4 (length b) @ b)"

definition push_opcode :: "script \<Rightarrow> byte \<Rightarrow> script" where
  "push_opcode s opcode = s @ [opcode]"

definition push_int64 :: "script \<Rightarrow> int \<Rightarrow> script" where
  "push_int64 s n =
     (if n = -1 \<or> (n \<ge> 1 \<and> n \<le> 16) then s @ [word_of_int (n + (uint OP_1 - 1))]
      else if n = 0 then s @ [OP_0]
      else push_data s (scriptnum_serialize n))"

section \<open>Reading instructions\<close>

text \<open>
  \<open>GetOp_size opcode pc\<close> is the part of \<^verbatim>\<open>GetOp2\<close> that finds the size of an immediate operand:
  \<open>None\<close> with the iterator where the read gave up, or the size. \<open>GetOp2 pc\<close> returns the success flag,
  the advanced iterator (it has moved past the opcode and the size bytes even when the call
  fails), the opcode and the pushed data.
\<close>

definition read_size :: "nat \<Rightarrow> bytes \<Rightarrow> nat option \<times> bytes" where
  "read_size k pc = (if length pc < k then (None, pc) else (Some (le_nat (take k pc)), drop k pc))"

definition GetOp_size :: "byte \<Rightarrow> bytes \<Rightarrow> nat option \<times> bytes" where
  "GetOp_size opcode pc =
     (if opcode < OP_PUSHDATA1 then (Some (unat opcode), pc)
      else if opcode = OP_PUSHDATA1 then read_size 1 pc
      else if opcode = OP_PUSHDATA2 then read_size 2 pc
      else read_size 4 pc)"

fun GetOp2 :: "bytes \<Rightarrow> bool \<times> bytes \<times> byte \<times> bytes" where
  "GetOp2 [] = (False, [], OP_INVALIDOPCODE, [])"
| "GetOp2 (opcode # pc) =
     (if opcode \<le> OP_PUSHDATA4 then
        (case GetOp_size opcode pc of
           (None, pc') \<Rightarrow> (False, pc', OP_INVALIDOPCODE, [])
         | (Some nSize, pc') \<Rightarrow>
             if length pc' < nSize then (False, pc', OP_INVALIDOPCODE, [])
             else (True, drop nSize pc', opcode, take nSize pc'))
      else if opcode = OP_BLKR_ASSET then (True, [], opcode, pc)
      else (True, pc, opcode, []))"

lemma GetOp_size_length: "GetOp_size opcode pc = (r, pc') \<Longrightarrow> length pc' \<le> length pc"
  by (auto simp: GetOp_size_def read_size_def split: if_splits)

lemma GetOp2_shorter: "GetOp2 pc = (True, pc', opcode, v) \<Longrightarrow> length pc' < length pc"
  by (cases pc) (auto split: if_splits option.splits prod.splits dest: GetOp_size_length)

lemmas GetOp2_shorter_sym = GetOp2_shorter [OF sym]

definition DecodeOP_N :: "byte \<Rightarrow> int" where
  "DecodeOP_N opcode = (if opcode = OP_0 then 0 else uint opcode - (uint OP_1 - 1))"

definition EncodeOP_N :: "nat \<Rightarrow> byte" where
  "EncodeOP_N n = (if n = 0 then OP_0 else OP_1 + of_nat n - 1)"

text \<open>
  \<^verbatim>\<open>FindAndDelete\<close>: \<open>skip_matches\<close> is the inner loop that steps over consecutive copies of \<open>b\<close>
  and counts them; the outer loop copies the bytes between \<^verbatim>\<open>pc2\<close> and \<^verbatim>\<open>pc\<close> and advances by
  one instruction.
\<close>

function skip_matches :: "bytes \<Rightarrow> bytes \<Rightarrow> nat \<Rightarrow> bytes \<times> nat" where
  "skip_matches b pc nFound =
     (if b \<noteq> [] \<and> length pc \<ge> length b \<and> take (length b) pc = b
      then skip_matches b (drop (length b) pc) (nFound + 1) else (pc, nFound))"
  by pat_completeness auto
termination
  by (relation "measure (\<lambda>(b, pc, n). length pc)") (auto intro!: diff_less)

declare skip_matches.simps [simp del]

lemma skip_matches_length: "skip_matches b pc n = (pc', n') \<Longrightarrow> length pc' \<le> length pc"
proof (induction b pc n rule: skip_matches.induct)
  case (1 b pc n)
  then show ?case
    by (subst (asm) skip_matches.simps) (auto split: if_splits)
qed

function FindAndDelete_loop :: "bytes \<Rightarrow> bytes \<Rightarrow> bytes \<Rightarrow> bytes \<Rightarrow> nat \<Rightarrow> bytes \<times> bytes \<times> nat" where
  "FindAndDelete_loop b pc2 pc result nFound =
     (let result' = result @ take (length pc2 - length pc) pc2;
          (pc', nFound') = skip_matches b pc nFound in
      case GetOp2 pc' of
        (True, pc'', opcode, v) \<Rightarrow> FindAndDelete_loop b pc' pc'' result' nFound'
      | (False, pc'', opcode, v) \<Rightarrow> (result', pc', nFound'))"
  by pat_completeness auto
termination
  by (relation "measure (\<lambda>(b, pc2, pc, r, n). length pc)")
    (auto dest!: GetOp2_shorter_sym skip_matches_length [OF sym])

declare FindAndDelete_loop.simps [simp del]

definition FindAndDelete :: "script \<Rightarrow> bytes \<Rightarrow> script \<times> nat" where
  "FindAndDelete s b =
     (if b = [] then (s, 0)
      else case FindAndDelete_loop b s s [] 0 of
        (result, pc2, nFound) \<Rightarrow> if nFound > 0 then (result @ pc2, nFound) else (s, nFound))"

function Find_loop :: "byte \<Rightarrow> bytes \<Rightarrow> nat \<Rightarrow> nat" where
  "Find_loop opc pc nFound =
     (if pc = [] then nFound
      else case GetOp2 pc of
        (True, pc', opcode, v) \<Rightarrow> Find_loop opc pc' (if opcode = opc then nFound + 1 else nFound)
      | (False, pc', opcode, v) \<Rightarrow> nFound)"
  by pat_completeness auto
termination
  by (relation "measure (\<lambda>(opc, pc, n). length pc)") (auto dest!: GetOp2_shorter_sym)

definition Find :: "script \<Rightarrow> byte \<Rightarrow> nat" where
  "Find s opc = Find_loop opc s 0"

definition sigops_of :: "bool \<Rightarrow> byte \<Rightarrow> byte \<Rightarrow> nat" where
  "sigops_of fAccurate lastOpcode opcode =
     (if opcode = OP_CHECKSIG \<or> opcode = OP_CHECKSIGVERIFY then 1
      else if opcode = OP_CHECKMULTISIG \<or> opcode = OP_CHECKMULTISIGVERIFY then
        (if fAccurate \<and> lastOpcode \<ge> OP_1 \<and> lastOpcode \<le> OP_16
         then nat (DecodeOP_N lastOpcode)
         else MAX_PUBKEYS_PER_MULTISIG)
      else 0)"

function GetSigOpCount_loop :: "bool \<Rightarrow> byte \<Rightarrow> bytes \<Rightarrow> nat \<Rightarrow> nat" where
  "GetSigOpCount_loop fAccurate lastOpcode pc n =
     (if pc = [] then n
      else case GetOp2 pc of
        (False, pc', opcode, v) \<Rightarrow> n
      | (True, pc', opcode, v) \<Rightarrow>
          GetSigOpCount_loop fAccurate opcode pc' (n + sigops_of fAccurate lastOpcode opcode))"
  by pat_completeness auto
termination
  by (relation "measure (\<lambda>(a, l, pc, n). length pc)") (auto dest!: GetOp2_shorter_sym)

definition GetSigOpCount :: "script \<Rightarrow> bool \<Rightarrow> nat" where
  "GetSigOpCount s fAccurate = GetSigOpCount_loop fAccurate OP_INVALIDOPCODE s 0"

section \<open>Recognising output scripts\<close>

definition IsPayToPublicKeyHash :: "script \<Rightarrow> bool" where
  "IsPayToPublicKeyHash s \<longleftrightarrow>
     length s = 25 \<and> s ! 0 = OP_DUP \<and> s ! 1 = OP_HASH160 \<and> s ! 2 = 0x14 \<and>
     s ! 23 = OP_EQUALVERIFY \<and> s ! 24 = OP_CHECKSIG"

definition IsPayToScriptHash :: "script \<Rightarrow> bool" where
  "IsPayToScriptHash s \<longleftrightarrow>
     length s = 23 \<and> s ! 0 = OP_HASH160 \<and> s ! 1 = 0x14 \<and> s ! 22 = OP_EQUAL"

definition IsPayToWitnessScriptHash :: "script \<Rightarrow> bool" where
  "IsPayToWitnessScriptHash s \<longleftrightarrow> length s = 34 \<and> s ! 0 = OP_0 \<and> s ! 1 = 0x20"

definition IsWitnessProgram :: "script \<Rightarrow> (int \<times> bytes) option" where
  "IsWitnessProgram s =
     (if length s < 4 \<or> length s > 42 then None
      else if s ! 0 \<noteq> OP_0 \<and> (s ! 0 < OP_1 \<or> s ! 0 > OP_16) then None
      else if unat (s ! 1) + 2 = length s then Some (DecodeOP_N (s ! 0), drop 2 s)
      else None)"

definition IsPayToPublicKey :: "script \<Rightarrow> bool" where
  "IsPayToPublicKey s \<longleftrightarrow>
     (if length s = 35 then (s ! 1 = 0x02 \<or> s ! 1 = 0x03) \<and> s ! 34 = OP_CHECKSIG
      else if length s = 67 then s ! 1 = 0x04 \<and> s ! 66 = OP_CHECKSIG
      else False)"

function IsPushOnly :: "bytes \<Rightarrow> bool" where
  "IsPushOnly pc =
     (if pc = [] then True
      else case GetOp2 pc of
        (False, pc', opcode, v) \<Rightarrow> False
      | (True, pc', opcode, v) \<Rightarrow> if opcode > OP_16 then False else IsPushOnly pc')"
  by pat_completeness auto
termination
  by (relation "measure length") (auto dest!: GetOp2_shorter_sym)

function HasValidOps :: "bytes \<Rightarrow> bool" where
  "HasValidOps it =
     (if it = [] then True
      else case GetOp2 it of
        (ok, it', opcode, item) \<Rightarrow>
          if \<not> ok \<or> opcode > MAX_OPCODE \<or> length item > MAX_SCRIPT_ELEMENT_SIZE then False
          else HasValidOps it')"
  by pat_completeness auto
termination
  by (relation "measure length") (auto dest!: GetOp2_shorter_sym)

text \<open>The P2SH count takes the last element the signature script pushes as a script.\<close>

function last_push :: "bytes \<Rightarrow> bytes \<Rightarrow> bytes option" where
  "last_push pc vData =
     (if pc = [] then Some vData
      else case GetOp2 pc of
        (False, pc', opcode, v) \<Rightarrow> None
      | (True, pc', opcode, v) \<Rightarrow> if opcode > OP_16 then None else last_push pc' v)"
  by pat_completeness auto
termination
  by (relation "measure (\<lambda>(pc, v). length pc)") (auto dest!: GetOp2_shorter_sym)

definition GetSigOpCount_P2SH :: "script \<Rightarrow> script \<Rightarrow> nat" where
  "GetSigOpCount_P2SH s scriptSig =
     (if \<not> IsPayToScriptHash s then GetSigOpCount s True
      else case last_push scriptSig [] of
        None \<Rightarrow> 0
      | Some vData \<Rightarrow> GetSigOpCount vData True)"

declare Find_loop.simps [simp del] GetSigOpCount_loop.simps [simp del] IsPushOnly.simps [simp del]
  HasValidOps.simps [simp del] last_push.simps [simp del]


section \<open>Asset scripts\<close>

text \<open>
  The kinds of output scripts (\<^verbatim>\<open>standard.h\<close>) and the recognisers of \<^verbatim>\<open>script.cpp\<close> for scripts
  with an asset suffix. \<open>IsAssetScript\<close> returns the values of its three reference parameters when
  the code returns true; a caller that gets false ignores them.
\<close>

datatype txnouttype = TX_NONSTANDARD | TX_PUBKEY | TX_PUBKEYHASH | TX_SCRIPTHASH | TX_MULTISIG
  | TX_NULL_DATA | TX_WITNESS_V0_SCRIPTHASH | TX_WITNESS_V0_KEYHASH | TX_NEW_ASSET
  | TX_REISSUE_ASSET | TX_TRANSFER_ASSET | TX_RESTRICTED_ASSET_DATA

definition BLKR_N :: byte where "BLKR_N = 114"
definition BLKR_E :: byte where "BLKR_E = 118"
definition BLKR_X :: byte where "BLKR_X = 110"
definition BLKR_Q :: byte where "BLKR_Q = 113"
definition BLKR_T :: byte where "BLKR_T = 116"
definition BLKR_O :: byte where "BLKR_O = 111"

lemmas BLKR_defs = BLKR_N_def BLKR_E_def BLKR_X_def BLKR_Q_def BLKR_T_def BLKR_O_def

definition asset_marker_index :: "script \<Rightarrow> nat option" where
  "asset_marker_index s =
     (if s ! 27 = BLKR_N then
        (if s ! 28 = BLKR_E \<and> s ! 29 = BLKR_X then Some 30 else None)
      else if s ! 28 = BLKR_N \<and> s ! 29 = BLKR_E \<and> s ! 30 = BLKR_X then Some 31
      else None)"

definition IsAssetScript :: "script \<Rightarrow> (txnouttype \<times> bool \<times> nat) option" where
  "IsAssetScript s =
     (if length s > 31 \<and> s ! 25 = OP_BLKR_ASSET then
        (case asset_marker_index s of
           None \<Rightarrow> None
         | Some index \<Rightarrow>
             let nStartingIndex = index + 1 in
             if s ! index = BLKR_T then Some (TX_TRANSFER_ASSET, False, nStartingIndex)
             else if s ! index = BLKR_Q \<and> length s > 39 then Some (TX_NEW_ASSET, False, nStartingIndex)
             else if s ! index = BLKR_O then Some (TX_NEW_ASSET, True, nStartingIndex)
             else if s ! index = BLKR_N then Some (TX_REISSUE_ASSET, False, nStartingIndex)
             else None)
      else None)"

definition IsNewAsset :: "script \<Rightarrow> bool" where
  "IsNewAsset s = (case IsAssetScript s of
     Some (nType, fIsOwner, _) \<Rightarrow> \<not> fIsOwner \<and> nType = TX_NEW_ASSET | None \<Rightarrow> False)"

definition IsOwnerAsset :: "script \<Rightarrow> bool" where
  "IsOwnerAsset s = (case IsAssetScript s of
     Some (nType, fIsOwner, _) \<Rightarrow> fIsOwner \<and> nType = TX_NEW_ASSET | None \<Rightarrow> False)"

definition IsReissueAsset :: "script \<Rightarrow> bool" where
  "IsReissueAsset s = (case IsAssetScript s of
     Some (nType, _, _) \<Rightarrow> nType = TX_REISSUE_ASSET | None \<Rightarrow> False)"

definition IsTransferAsset :: "script \<Rightarrow> bool" where
  "IsTransferAsset s = (case IsAssetScript s of
     Some (nType, _, _) \<Rightarrow> nType = TX_TRANSFER_ASSET | None \<Rightarrow> False)"

definition IsNullAssetTxDataScript :: "script \<Rightarrow> bool" where
  "IsNullAssetTxDataScript s \<longleftrightarrow> length s > 23 \<and> s ! 0 = OP_BLKR_ASSET \<and> s ! 1 = 0x14"

definition IsNullGlobalRestrictionAssetTxDataScript :: "script \<Rightarrow> bool" where
  "IsNullGlobalRestrictionAssetTxDataScript s \<longleftrightarrow>
     length s > 6 \<and> s ! 0 = OP_BLKR_ASSET \<and> s ! 1 = OP_RESERVED \<and> s ! 2 = OP_RESERVED"

definition IsNullAssetVerifierTxDataScript :: "script \<Rightarrow> bool" where
  "IsNullAssetVerifierTxDataScript s \<longleftrightarrow>
     length s > 3 \<and> s ! 0 = OP_BLKR_ASSET \<and> s ! 1 = OP_RESERVED \<and> s ! 2 \<noteq> OP_RESERVED"

definition IsNullAsset :: "script \<Rightarrow> bool" where
  "IsNullAsset s \<longleftrightarrow> IsNullAssetTxDataScript s \<or> IsNullGlobalRestrictionAssetTxDataScript s \<or>
     IsNullAssetVerifierTxDataScript s"


section \<open>Script numbers: sign and magnitude\<close>

lemma le_nat_append: "le_nat (a @ b) = le_nat a + 256 ^ length a * le_nat b"
  by (induction a) (auto simp: algebra_simps)

lemma or_push_bit_disjoint:
  fixes r b :: u64
  assumes "unat r < 2 ^ k" "unat b * 2 ^ k < 2 ^ 64"
  shows "unat (r OR push_bit k b) = unat r + unat b * 2 ^ k"
proof -
  have "unat (push_bit k b) = push_bit k (unat b)"
    using assms(2) unfolding unsigned_push_bit_eq by (simp add: take_bit_nat_eq_self push_bit_eq_mult)
  then show ?thesis using or_push_bit_nat [OF assms(1)] by (simp add: unsigned_or_eq)
qed

lemma set_vch_loop_le_nat:
  assumes "unat r < 256 ^ i" "i + length bs \<le> 8"
  shows "unat (set_vch_loop i bs r) = unat r + 256 ^ i * le_nat bs"
  using assms
proof (induction bs arbitrary: i r)
  case (Cons b bs)
  have pow: "(256 :: nat) ^ n = 2 ^ (8 * n)" for n
    by (simp add: power_mult)
  have "unat b * 2 ^ (8 * i) < 256 * 256 ^ i"
    by (simp add: pow)
  also have "\<dots> \<le> 256 ^ 8"
    using Cons.prems(2) power_increasing [of "Suc i" 8 "256 :: nat"] by simp
  finally have "unat (r OR push_bit (8 * i) (ucast b)) = unat r + 256 ^ i * unat b"
    using or_push_bit_disjoint [of r "8 * i" "ucast b"] Cons.prems(1) by (simp add: pow u64_widen mult.commute)
  moreover have "unat r + 256 ^ i * unat b < 256 ^ Suc i"
    using radix_less [OF Cons.prems(1) unat_byte_less [of b]] by (simp add: mult.commute)
  ultimately show ?case
    using Cons.IH [of "r OR push_bit (8 * i) (ucast b)" "Suc i"] Cons.prems(2) by (simp add: algebra_simps)
qed simp

text \<open>Up to eight bytes, \<open>set_vch\<close> reads sign and magnitude.\<close>

definition magnitude :: "bytes \<Rightarrow> byte \<Rightarrow> nat" where
  "magnitude b c = le_nat b + 256 ^ length b * (unat c mod 128)"

lemma magnitude_less: "magnitude b c < 2 ^ (8 * length b + 7)"
proof -
  have "magnitude b c < 256 ^ length b * 128"
    using radix_less [OF le_nat_less [of b], of "unat c mod 128" 128] by (simp add: magnitude_def)
  then show ?thesis by (simp add: power_add power_mult)
qed

lemma sint_u64_small: "unat (w :: u64) < 2 ^ 63 \<Longrightarrow> sint w = int (unat w)"
proof -
  assume "unat w < 2 ^ 63"
  then have "uint w < 2 ^ 63" by (metis of_nat_less_iff of_nat_numeral of_nat_power uint_nat)
  then show ?thesis by (simp add: sint_uint signed_take_bit_int_eq_self_iff order_trans [OF _ uint_ge_0])
qed

lemma clear_high_bit:
  fixes w m :: u64
  assumes "unat m < 2 ^ k" "k < 64" "unat w = unat m + 2 ^ k"
  shows "w AND NOT (push_bit k 1) = m"
proof -
  have "(2 :: nat) ^ k < 2 ^ 64" using assms(2) by (intro power_strict_increasing) auto
  then have "unat (m OR push_bit k 1) = unat w"
    using or_push_bit_disjoint [of m k 1] assms by simp
  then have w: "w = m OR push_bit k 1" by (simp add: word_unat_eq_iff)
  have "\<not> bit m k" using nat_bit_less [OF assms(1), of k] by (auto simp: bit_unsigned_iff)
  then show ?thesis unfolding w
    by (intro bit_word_eqI) (auto simp: bit_simps)
qed

lemma set_vch_snoc:
  assumes "length b \<le> 7"
  shows "set_vch (b @ [c]) = (if unat c < 128 then int (magnitude b c) else - int (magnitude b c))"
proof -
  define k where "k = 8 * length b + 7"
  define w where "w = set_vch_loop 0 (b @ [c]) 0"
  have k: "k < 64" using assms by (simp add: k_def)
  have m: "magnitude b c < 2 ^ k" by (simp add: k_def magnitude_less)
  then have m63: "magnitude b c < 2 ^ 63"
    using k power_increasing [of k 63 "2 :: nat"] by simp
  have w: "unat w = le_nat b + 256 ^ length b * unat c"
    using set_vch_loop_le_nat [of 0 0 "b @ [c]"] assms by (simp add: w_def le_nat_append)
  show ?thesis
  proof (cases "unat c < 128")
    case True
    then have "unat w = magnitude b c" by (simp add: w magnitude_def)
    with True m63 show ?thesis by (simp add: set_vch_def byte_high sint_u64_small flip: w_def)
  next
    case False
    have "unat c - 128 < 128" using unat_byte_less [of c] by linarith
    then have "unat c mod 128 = unat c - 128" using False by (simp add: le_mod_geq)
    moreover obtain d where "unat c = 128 + d"
      using False le_Suc_ex [of 128 "unat c"] by auto
    ultimately have "unat w = magnitude b c + 256 ^ length b * 128"
      by (simp add: w magnitude_def algebra_simps)
    then have "unat w = unat (of_nat (magnitude b c) :: u64) + 2 ^ k"
      using m63 by (simp add: unat_of_nat_small k_def power_add power_mult)
    then have "w AND NOT (push_bit k 1) = of_nat (magnitude b c)"
      using m m63 k by (intro clear_high_bit) (simp_all add: unat_of_nat_small)
    moreover have "push_bit (8 * length b) 128 = (push_bit k 1 :: u64)"
      by (simp add: k_def push_bit_eq_mult power_add)
    ultimately show ?thesis
      using False m63 by (simp add: set_vch_def byte_high sint_u64_small unat_of_nat_small flip: w_def)
  qed
qed

declare absvalue_bytes.simps [simp del]

lemma absvalue_bytes_0 [simp]: "absvalue_bytes 0 = []"
  by (simp add: absvalue_bytes.simps)

lemma absvalue_bytes_eq_Nil [simp]: "absvalue_bytes n = [] \<longleftrightarrow> n = 0"
  by (subst absvalue_bytes.simps) simp

lemma le_nat_absvalue_bytes [simp]: "le_nat (absvalue_bytes n) = n"
  by (induction n rule: absvalue_bytes.induct) (subst absvalue_bytes.simps, simp)

lemma absvalue_bytes_Cons:
  "n \<noteq> 0 \<Longrightarrow> absvalue_bytes n = of_nat (n mod 256) # absvalue_bytes (n div 256)"
  by (simp add: absvalue_bytes.simps)

lemma absvalue_bytes_le_nat:
  "bs = [] \<or> last bs \<noteq> 0 \<Longrightarrow> absvalue_bytes (le_nat bs) = bs"
proof (induction bs)
  case (Cons b bs)
  have "le_nat bs = 0 \<Longrightarrow> bs = []"
    using Cons by (cases "bs = []") auto
  then have "unat b + 256 * le_nat bs \<noteq> 0"
    using Cons.prems by (cases "bs = []") (auto simp: unat_eq_0)
  moreover have "(unat b + 256 * le_nat bs) mod 256 = unat b"
    and "(unat b + 256 * le_nat bs) div 256 = le_nat bs" by simp_all
  ultimately show ?case using Cons by (auto simp: absvalue_bytes_Cons split: if_splits)
qed simp

lemma last_absvalue_bytes: "n \<noteq> 0 \<Longrightarrow> last (absvalue_bytes n) \<noteq> 0"
proof (induction n rule: absvalue_bytes.induct)
  case (1 n)
  show ?case
  proof (cases "n div 256 = 0")
    case True
    then have "n < 256" by (simp add: div_eq_0_iff)
    with 1(2) True show ?thesis by (simp add: absvalue_bytes_Cons unat_eq_0 [symmetric] unat_of_nat del: div_eq_0_iff)
  next
    case False
    with 1 show ?thesis by (simp add: absvalue_bytes_Cons)
  qed
qed

lemma length_absvalue_bytes: "n < 256 ^ k \<Longrightarrow> length (absvalue_bytes n) \<le> k"
proof (induction k arbitrary: n)
  case (Suc k)
  then show ?case by (cases "n = 0") (auto simp: absvalue_bytes_Cons div_less_iff_less_mult mult.commute)
qed simp

text \<open>The test that the constructor of \<^verbatim>\<open>CScriptNum\<close> makes under \<^verbatim>\<open>fRequireMinimal\<close>.\<close>

definition minimal_vch :: "bytes \<Rightarrow> bool" where
  "minimal_vch vch \<longleftrightarrow>
     \<not> (length vch > 0 \<and> last vch AND 0x7f = 0 \<and> (length vch \<le> 1 \<or> vch ! (length vch - 2) AND 0x80 = 0))"

lemma minimal_vch_Nil [simp]: "minimal_vch []"
  by (simp add: minimal_vch_def)

lemma minimal_vch_snoc:
  "minimal_vch (b @ [c]) \<longleftrightarrow> unat c mod 128 \<noteq> 0 \<or> b \<noteq> [] \<and> unat (last b) \<ge> 128"
proof -
  have "c AND 0x7f = 0 \<longleftrightarrow> unat c mod 128 = 0"
    using byte_low7 [of c] by (metis unat_0 unat_eq_0)
  moreover have "b \<noteq> [] \<Longrightarrow> (b @ [c]) ! (length b - 1) = last b"
    by (simp add: nth_append last_conv_nth)
  ultimately show ?thesis
    by (cases "b = []") (auto simp: minimal_vch_def byte_high not_less)
qed

lemma byte_set_sign: "unat (c :: byte) \<ge> 128 \<Longrightarrow> of_nat (unat c mod 128) OR 0x80 = c"
proof -
  assume c: "unat c \<ge> 128"
  then have "unat c - 128 < 128" using unat_byte_less [of c] by linarith
  then have m: "unat c mod 128 = unat c - 128" using c by (simp add: le_mod_geq)
  have "unat (of_nat (unat c mod 128) OR 0x80 :: byte) = unat c mod 128 + 128"
    by (subst byte_or_high) (simp_all add: unat_of_nat)
  then have "unat (of_nat (unat c mod 128) OR 0x80 :: byte) = unat c" using c m by linarith
  then show ?thesis by (simp only: word_unat_eq_iff)
qed

lemma scriptnum_serialize_0 [simp]: "scriptnum_serialize 0 = []"
  by (simp add: scriptnum_serialize_def)

lemma magnitude_carry: "unat c mod 128 = 0 \<Longrightarrow> magnitude b c = le_nat b"
  by (simp add: magnitude_def)

lemma magnitude_digits: "magnitude b c = le_nat (b @ [of_nat (unat c mod 128)])"
  by (simp add: magnitude_def le_nat_append unat_of_nat)

text \<open>The bytes of a nonzero number: their sign and magnitude are those of the number.\<close>

lemma scriptnum_serialize_snoc:
  assumes "v \<noteq> 0"
  obtains b c where "scriptnum_serialize v = b @ [c]" "minimal_vch (b @ [c])"
    "magnitude b c = nat \<bar>v\<bar>" "unat c < 128 \<longleftrightarrow> v > 0"
proof -
  define r where "r = absvalue_bytes (nat \<bar>v\<bar>)"
  have r: "r \<noteq> []" "last r \<noteq> 0" "le_nat r = nat \<bar>v\<bar>"
    using assms last_absvalue_bytes [of "nat \<bar>v\<bar>"] by (auto simp: r_def)
  have unat_last: "unat (last r) \<noteq> 0" using r(2) by (simp add: unat_eq_0)
  show thesis
  proof (cases "unat (last r) < 128")
    case False
    define c where "c = (if v < 0 then 0x80 else 0 :: byte)"
    have "scriptnum_serialize v = r @ [c]"
      using assms False by (simp add: scriptnum_serialize_def byte_high c_def flip: r_def)
    moreover have "unat c mod 128 = 0" by (simp add: c_def)
    ultimately show thesis
      using False r assms by (intro that [of r c]) (auto simp: minimal_vch_snoc magnitude_carry c_def)
  next
    case True
    define c where "c = (if v < 0 then last r OR 0x80 else last r)"
    have c: "unat c mod 128 = unat (last r)" "unat c < 128 \<longleftrightarrow> v > 0"
      using True assms by (auto simp: c_def byte_or_high)
    have "scriptnum_serialize v = butlast r @ [c]"
      using assms True r(1) by (simp add: scriptnum_serialize_def byte_high c_def flip: r_def)
    moreover have "magnitude (butlast r) c = nat \<bar>v\<bar>"
      using c(1) r(1,3) by (simp add: magnitude_digits)
    ultimately show thesis
      using c unat_last by (intro that [of "butlast r" c]) (auto simp: minimal_vch_snoc)
  qed
qed

lemma minimal_scriptnum_serialize: "minimal_vch (scriptnum_serialize v)"
  by (cases "v = 0") (auto elim: scriptnum_serialize_snoc)

lemma set_vch_Nil [simp]: "set_vch [] = 0"
  by (simp add: set_vch_def)

lemma set_vch_serialize:
  "length (scriptnum_serialize v) \<le> 8 \<Longrightarrow> set_vch (scriptnum_serialize v) = v"
proof (cases "v = 0")
  case False
  assume len: "length (scriptnum_serialize v) \<le> 8"
  from False obtain b c where "scriptnum_serialize v = b @ [c]"
    and "magnitude b c = nat \<bar>v\<bar>" "unat c < 128 \<longleftrightarrow> v > 0"
    by (rule scriptnum_serialize_snoc)
  with len show ?thesis using set_vch_snoc [of b c] by auto
qed simp

lemma magnitude_ge:
  assumes "minimal_vch (b @ [c])"
  shows "2 ^ (8 * length b - 1) \<le> magnitude b c"
proof (cases "unat c mod 128 = 0")
  case True
  then have "b \<noteq> []" "unat (last b) \<ge> 128" using assms by (auto simp: minimal_vch_snoc)
  then obtain b' l where b: "b = b' @ [l]" "unat l \<ge> 128"
    by (metis append_butlast_last_id)
  then have "256 ^ length b' * 128 \<le> 256 ^ length b' * unat l"
    by (intro mult_le_mono2) simp
  then have "128 * 256 ^ length b' \<le> le_nat b' + 256 ^ length b' * unat l" by linarith
  then show ?thesis using True b(1)
    by (simp add: magnitude_carry le_nat_append power_add power_mult)
next
  case False
  have "2 ^ (8 * length b - 1) \<le> (2 :: nat) ^ (8 * length b)"
    by (intro power_increasing) auto
  also have "\<dots> = 256 ^ length b * 1" by (simp add: power_mult)
  also have "\<dots> \<le> 256 ^ length b * (unat c mod 128)"
    using False by (intro mult_le_mono2) simp
  finally show ?thesis by (simp add: magnitude_def)
qed

lemma length_scriptnum_serialize_iff:
  "length (scriptnum_serialize v) \<le> k \<longleftrightarrow> \<bar>v\<bar> < 2 ^ (8 * k - 1)"
proof (cases "v = 0")
  case False
  then obtain b c where bc: "scriptnum_serialize v = b @ [c]" "minimal_vch (b @ [c])"
    and mag: "magnitude b c = nat \<bar>v\<bar>" by (rule scriptnum_serialize_snoc)
  have lower: "2 ^ (8 * length b - 1) \<le> nat \<bar>v\<bar>" using magnitude_ge [OF bc(2)] mag by simp
  have upper: "nat \<bar>v\<bar> < 2 ^ (8 * length b + 7)" using magnitude_less [of b c] mag by simp
  show ?thesis
  proof
    assume "length (scriptnum_serialize v) \<le> k"
    then have "2 ^ (8 * length b + 7) \<le> (2 :: nat) ^ (8 * k - 1)"
      using bc(1) by (intro power_increasing) auto
    with upper have "nat \<bar>v\<bar> < 2 ^ (8 * k - 1)" by linarith
    then show "\<bar>v\<bar> < 2 ^ (8 * k - 1)" by simp
  next
    assume "\<bar>v\<bar> < 2 ^ (8 * k - 1)"
    then have "nat \<bar>v\<bar> < 2 ^ (8 * k - 1)" by simp
    with lower have "(2 :: nat) ^ (8 * length b - 1) < 2 ^ (8 * k - 1)" by linarith
    then have "8 * length b - 1 < 8 * k - 1" by (rule power_less_imp_less_exp [rotated]) simp
    then show "length (scriptnum_serialize v) \<le> k" using bc(1) by simp
  qed
qed simp

lemma scriptnum_serialize_set_vch:
  assumes "minimal_vch vch" "length vch \<le> 8"
  shows "scriptnum_serialize (set_vch vch) = vch"
proof (cases vch rule: rev_cases)
  case (snoc b c)
  define l where "l = (of_nat (unat c mod 128) :: byte)"
  have l: "unat l = unat c mod 128" "unat l < 128" by (simp_all add: l_def unat_of_nat)
  have sv: "set_vch (b @ [c]) = (if unat c < 128 then int (magnitude b c) else - int (magnitude b c))"
    using assms(2) snoc by (simp add: set_vch_snoc)
  have pos: "magnitude b c > 0"
    using magnitude_ge [of b c] assms(1) snoc by (metis bot_nat_0.not_eq_extremum le_zero_eq power_not_zero zero_neq_numeral)
  show ?thesis
  proof (cases "unat c mod 128 = 0")
    case True
    then have b: "b \<noteq> []" "unat (last b) \<ge> 128" using assms(1) snoc by (auto simp: minimal_vch_snoc)
    then have abs: "absvalue_bytes (magnitude b c) = b"
      using True absvalue_bytes_le_nat [of b] by (cases "last b = 0") (simp_all add: magnitude_carry)
    have "c = (if unat c < 128 then 0 else 0x80)"
      using True byte_set_sign [of c] by (auto simp: unat_eq_0 [symmetric])
    then show ?thesis
      using b abs pos by (auto simp: sv snoc scriptnum_serialize_def byte_high)
  next
    case False
    then have "l \<noteq> 0" using l(1) by auto
    then have abs: "absvalue_bytes (magnitude b c) = b @ [l]"
      by (simp add: magnitude_digits l_def [symmetric] absvalue_bytes_le_nat)
    have "c = (if unat c < 128 then l else l OR 0x80)"
      using byte_set_sign [of c] by (auto simp: l_def)
    then show ?thesis
      using abs pos l(2) by (auto simp: sv snoc scriptnum_serialize_def byte_high)
  qed
qed simp

text \<open>
  Minimal decoding and encoding are inverse: the accepted byte strings of length at most \<open>n\<close> are
  exactly the encodings of the numbers of magnitude below \<open>2 ^ (8 * n - 1)\<close>, one each.
\<close>

lemma CScriptNum_eq:
  "CScriptNum vch m n =
     (if length vch > n then Inl ScriptNumberOverflow
      else if m \<and> \<not> minimal_vch vch then Inl NonMinimalScriptNumber
      else Inr (set_vch vch))"
  by (auto simp: CScriptNum_def minimal_vch_def)

text \<open>
  Numbers on the stack. Reading a byte vector as a number, with minimal encoding required, gives \<open>v\<close>
  exactly if the vector is the encoding that \<^verbatim>\<open>CScriptNum::serialize\<close> produces for \<open>v\<close> and \<open>v\<close> fits the size limit:
  encodings are unique, negative zero is refused, and the two directions invert each other.
\<close>

theorem scriptnum_codec:
  assumes "n \<le> 8"
  shows "CScriptNum vch True n = Inr v \<longleftrightarrow> vch = scriptnum_serialize v \<and> \<bar>v\<bar> < 2 ^ (8 * n - 1)"
  using assms scriptnum_serialize_set_vch [of vch] set_vch_serialize [of v]
  unfolding length_scriptnum_serialize_iff [symmetric]
  by (auto simp: CScriptNum_eq minimal_scriptnum_serialize)

section \<open>Pushes and instruction streams\<close>

lemma GetOp2_push_data:
  assumes "length b < 2 ^ 32"
  shows "\<exists>opcode \<le> OP_PUSHDATA4. GetOp2 (push_data [] b @ rest) = (True, rest, opcode, b)"
proof -
  consider "length b < 76" | "76 \<le> length b" "length b \<le> 0xff"
    | "0xff < length b" "length b \<le> 0xffff" | "0xffff < length b" by linarith
  then show ?thesis
  proof cases
    case 1
    then have "unat (of_nat (length b) :: byte) = length b" by (simp add: unat_of_nat)
    then show ?thesis using 1
      by (intro exI [of _ "of_nat (length b)"]) (simp add: push_data_def GetOp_size_def read_size_def word_less_nat_alt word_le_nat_alt)
  next
    case 2
    then have "unat (of_nat (length b) :: byte) = length b" by (simp add: unat_of_nat)
    then show ?thesis using 2
      by (intro exI [of _ OP_PUSHDATA1]) (simp add: push_data_def GetOp_size_def read_size_def)
  next
    case 3
    then show ?thesis
      by (intro exI [of _ OP_PUSHDATA2]) (simp add: push_data_def GetOp_size_def read_size_def le_nat_le_bytes)
  next
    case 4
    then show ?thesis using assms
      by (intro exI [of _ OP_PUSHDATA4]) (simp add: push_data_def GetOp_size_def read_size_def le_nat_le_bytes)
  qed
qed

text \<open>
  The loops over a script share one induction principle: the iterator is at the end, the next read
  fails, or it yields an instruction and a shorter suffix.
\<close>

lemma script_induct [case_names Nil Fail Op]:
  assumes "P []"
    and "\<And>pc q. pc \<noteq> [] \<Longrightarrow> GetOp2 pc = (False, q) \<Longrightarrow> P pc"
    and "\<And>pc pc' opcode v. pc \<noteq> [] \<Longrightarrow> GetOp2 pc = (True, pc', opcode, v) \<Longrightarrow> P pc' \<Longrightarrow> P pc"
  shows "P pc"
proof (induction pc rule: length_induct)
  case (1 pc)
  show ?case
  proof (cases "pc = []")
    case False
    obtain ok pc' opcode v where g: "GetOp2 pc = (ok, pc', opcode, v)" by (metis prod_cases4)
    show ?thesis
    proof (cases ok)
      case True
      then show ?thesis using 1 False g assms(3) GetOp2_shorter [of pc] by simp
    next
      case False
      then show ?thesis using \<open>pc \<noteq> []\<close> g assms(2) by simp
    qed
  qed (simp add: assms(1))
qed

text \<open>\<open>parses s\<close>: the reader reaches the end of \<open>s\<close> without an asset opcode.\<close>

function parses :: "script \<Rightarrow> bool" where
  "parses pc =
     (if pc = [] then True
      else case GetOp2 pc of
        (False, pc', opcode, v) \<Rightarrow> False
      | (True, pc', opcode, v) \<Rightarrow> opcode \<noteq> OP_BLKR_ASSET \<and> parses pc')"
  by pat_completeness auto
termination
  by (relation "measure length") (auto dest!: GetOp2_shorter_sym)

declare parses.simps [simp del]

lemma parses_simps [simp]:
  "parses []"
  "pc \<noteq> [] \<Longrightarrow> GetOp2 pc = (False, q) \<Longrightarrow> \<not> parses pc"
  "pc \<noteq> [] \<Longrightarrow> GetOp2 pc = (True, pc', opcode, v) \<Longrightarrow> parses pc \<longleftrightarrow> opcode \<noteq> OP_BLKR_ASSET \<and> parses pc'"
  by (subst parses.simps, simp split: prod.splits)+

lemma GetSigOpCount_loop_simps [simp]:
  "GetSigOpCount_loop a l [] n = n"
  "pc \<noteq> [] \<Longrightarrow> GetOp2 pc = (False, q) \<Longrightarrow> GetSigOpCount_loop a l pc n = n"
  "pc \<noteq> [] \<Longrightarrow> GetOp2 pc = (True, pc', opcode, v) \<Longrightarrow>
     GetSigOpCount_loop a l pc n = GetSigOpCount_loop a opcode pc' (n + sigops_of a l opcode)"
  by (subst GetSigOpCount_loop.simps, simp split: prod.splits)+

lemma read_size_append:
  "read_size k pc = (Some n, pc') \<Longrightarrow> read_size k (pc @ t) = (Some n, pc' @ t)"
  by (auto simp: read_size_def split: if_splits)

lemma GetOp_size_append:
  "GetOp_size opcode pc = (Some n, pc') \<Longrightarrow> GetOp_size opcode (pc @ t) = (Some n, pc' @ t)"
  by (auto simp: GetOp_size_def read_size_append split: if_splits)

lemma GetOp2_append:
  assumes "GetOp2 pc = (True, pc', opcode, v)" "opcode \<noteq> OP_BLKR_ASSET"
  shows "GetOp2 (pc @ t) = (True, pc' @ t, opcode, v)"
proof (cases pc)
  case (Cons c cs)
  then show ?thesis
    using assms GetOp_size_append [of c cs _ _ t]
    by (cases "GetOp_size c cs") (auto split: if_splits option.splits)
qed (use assms in simp)

text \<open>
  Counting signature operations: an asset suffix after a script that parses adds nothing, the
  accurate count never exceeds the inaccurate one, and a script cannot count more than twenty
  per byte.
\<close>

lemma GetSigOpCount_loop_asset_suffix:
  "parses s \<Longrightarrow> GetSigOpCount_loop a l (s @ OP_BLKR_ASSET # t) n = GetSigOpCount_loop a l s n"
proof (induction s arbitrary: l n rule: script_induct)
  case Nil
  then show ?case by (simp add: sigops_of_def)
next
  case (Op pc pc' opcode v)
  then show ?case using GetOp2_append [of pc pc' opcode v "OP_BLKR_ASSET # t"] by simp
qed simp

lemma sigops_of_le: "sigops_of a l opcode \<le> sigops_of False l' opcode"
proof -
  have "l \<le> OP_16 \<Longrightarrow> uint l \<le> 96" by (simp add: word_le_def)
  then show ?thesis
    by (auto simp: sigops_of_def DecodeOP_N_def MAX_PUBKEYS_PER_MULTISIG_def)
qed

lemma GetSigOpCount_loop_accurate:
  "n \<le> m \<Longrightarrow> GetSigOpCount_loop a l pc n \<le> GetSigOpCount_loop False l' pc m"
proof (induction pc arbitrary: l l' n m rule: script_induct)
  case (Op pc pc' opcode v)
  then show ?case using sigops_of_le [of a l opcode l'] by (simp add: add_mono)
qed simp_all

lemma GetSigOpCount_loop_le:
  "GetSigOpCount_loop a l pc n \<le> n + MAX_PUBKEYS_PER_MULTISIG * length pc"
proof (induction pc arbitrary: l n rule: script_induct)
  case (Op pc pc' opcode v)
  have "sigops_of a l opcode \<le> MAX_PUBKEYS_PER_MULTISIG"
    using sigops_of_le [of a l opcode 0]
    by (auto simp: sigops_of_def MAX_PUBKEYS_PER_MULTISIG_def split: if_splits)
  moreover have "MAX_PUBKEYS_PER_MULTISIG * Suc (length pc') \<le> MAX_PUBKEYS_PER_MULTISIG * length pc"
    using GetOp2_shorter [OF Op(2)] by (intro mult_le_mono2) simp
  ultimately show ?case
    using Op(1,2) order_trans [OF Op(3) [of opcode "n + sigops_of a l opcode"]] by simp
qed simp_all

lemma sigops_of_push: "opcode \<le> OP_16 \<Longrightarrow> sigops_of a l opcode = 0"
proof -
  assume "opcode \<le> OP_16"
  then have "opcode \<noteq> OP_CHECKSIG" "opcode \<noteq> OP_CHECKSIGVERIFY" "opcode \<noteq> OP_CHECKMULTISIG"
    "opcode \<noteq> OP_CHECKMULTISIGVERIFY" by auto
  then show ?thesis by (simp add: sigops_of_def)
qed

lemma IsPushOnly_simps [simp]:
  "IsPushOnly []"
  "pc \<noteq> [] \<Longrightarrow> GetOp2 pc = (False, q) \<Longrightarrow> \<not> IsPushOnly pc"
  "pc \<noteq> [] \<Longrightarrow> GetOp2 pc = (True, pc', opcode, v) \<Longrightarrow> IsPushOnly pc \<longleftrightarrow> opcode \<le> OP_16 \<and> IsPushOnly pc'"
  by (auto simp: IsPushOnly.simps [of pc] IsPushOnly.simps [of "[]"])

lemma IsPushOnly_sigops: "IsPushOnly pc \<Longrightarrow> GetSigOpCount_loop a l pc n = n"
  by (induction pc arbitrary: l n rule: script_induct) (simp_all add: sigops_of_push)

lemma IsPushOnly_push_data:
  "IsPushOnly rest \<Longrightarrow> length b < 2 ^ 32 \<Longrightarrow> IsPushOnly (push_data [] b @ rest)"
proof -
  assume "IsPushOnly rest" "length b < 2 ^ 32"
  moreover from GetOp2_push_data [OF this(2)] obtain opcode where
    "opcode \<le> OP_PUSHDATA4" "GetOp2 (push_data [] b @ rest) = (True, rest, opcode, b)" by blast
  moreover have "push_data [] b @ rest \<noteq> []" by (simp add: push_data_def)
  ultimately show ?thesis using order_trans [of opcode OP_PUSHDATA4 OP_16] by simp
qed

text \<open>\<open>FindAndDelete\<close> removes exactly the bytes of the copies it counts.\<close>

lemma skip_matches_count:
  "skip_matches b pc n = (pc', n') \<Longrightarrow> length pc' + n' * length b = length pc + n * length b"
proof (induction b pc n rule: skip_matches.induct)
  case (1 b pc n)
  then show ?case
    by (subst (asm) skip_matches.simps) (auto split: if_splits simp: algebra_simps)
qed

lemma FindAndDelete_loop_count:
  "FindAndDelete_loop b pc2 pc r n = (r', p', n') \<Longrightarrow> length pc \<le> length pc2 \<Longrightarrow>
   length r' + length p' + n' * length b = length r + length pc2 + n * length b"
proof (induction b pc2 pc r n rule: FindAndDelete_loop.induct)
  case (1 b pc2 pc r n)
  obtain q m where skip: "skip_matches b pc n = (q, m)" by (cases "skip_matches b pc n")
  obtain ok q' opcode v where g: "GetOp2 q = (ok, q', opcode, v)" by (metis prod_cases4)
  have "length q + m * length b = length pc + n * length b"
    by (rule skip_matches_count [OF skip])
  moreover have "ok \<Longrightarrow> length q' < length q" using GetOp2_shorter g by simp
  ultimately show ?case
    using 1 skip g by (subst (asm) (2) FindAndDelete_loop.simps) (cases ok; auto)
qed

lemma FindAndDelete_count:
  "FindAndDelete s b = (s', n) \<Longrightarrow> length s' + n * length b = length s"
  using FindAndDelete_loop_count [of b s s "[]" 0]
  by (auto simp: FindAndDelete_def split: if_splits prod.splits)

section \<open>Properties\<close>

theorem scriptnum_codec_witness: "CScriptNum [0xff, 0x80] True 4 = Inr (-255)"
  using scriptnum_codec [of 4 "[0xff, 0x80]" "-255"] by (simp add: scriptnum_serialize_def absvalue_bytes.simps)

text \<open>
  Counting signature operations. The count is not changed by the asset data after \<^verbatim>\<open>OP_BLKR_ASSET\<close>, whatever
  bytes it holds; the accurate count is at most the legacy count; a byte costs at most 20; and a script of
  pushes has none.
\<close>

theorem sigop_count_bounds:
  assumes "parses s"
  shows "GetSigOpCount (s @ OP_BLKR_ASSET # t) fAccurate = GetSigOpCount s fAccurate \<and>
    GetSigOpCount s True \<le> GetSigOpCount s False \<and>
    GetSigOpCount s False \<le> MAX_PUBKEYS_PER_MULTISIG * length s \<and> (IsPushOnly s \<longrightarrow> GetSigOpCount s fAccurate = 0)"
  using GetSigOpCount_loop_asset_suffix [OF assms] GetSigOpCount_loop_accurate [of 0 0 True] GetSigOpCount_loop_le [of False _ s 0]
  by (simp add: GetSigOpCount_def IsPushOnly_sigops)

theorem sigop_count_bounds_witness:
  "GetSigOpCount ([OP_1, OP_CHECKMULTISIG] @ OP_BLKR_ASSET # [OP_CHECKSIG, OP_CHECKSIG]) True = GetSigOpCount [OP_1, OP_CHECKMULTISIG] True \<and>
   parses [OP_1, OP_CHECKMULTISIG]"
proof -
  have "parses [OP_1, OP_CHECKMULTISIG]" by (simp add: parses.simps)
  with sigop_count_bounds [OF this, of "[OP_CHECKSIG, OP_CHECKSIG]" True] show ?thesis by blast
qed

text \<open>
  \<^verbatim>\<open>FindAndDelete\<close> accounts for every byte: the script it leaves and the occurrences it says it has
  removed make up the length of the script it was given.
\<close>

theorem find_and_delete_length:
  assumes "FindAndDelete s b = (s', n)"
  shows "length s' + n * length b = length s"
  using assms by (rule FindAndDelete_count)

theorem find_and_delete_length_witness:
  "FindAndDelete [OP_DUP, OP_NOP, OP_DUP] [OP_NOP] = ([OP_DUP, OP_DUP], 1) \<and> length [OP_DUP, OP_DUP] + 1 * 1 = (3 :: nat)"
proof -
  have "FindAndDelete [OP_DUP, OP_NOP, OP_DUP] [OP_NOP] = ([OP_DUP, OP_DUP], 1)"
    by (simp add: FindAndDelete_def FindAndDelete_loop.simps skip_matches.simps)
  with find_and_delete_length [OF this] show ?thesis by simp
qed

end
