(* ===== verification/Interpreter.thy ===== *)
theory Interpreter
  imports Script "HOL-Library.Sublist"
begin

text \<open>
  The script interpreter (\<^verbatim>\<open>src/src/script/interpreter.cpp\<close>): the encoding checks, \<^verbatim>\<open>EvalScript\<close> with
  one definition per group of opcodes, \<^verbatim>\<open>VerifyWitnessProgram\<close>, \<^verbatim>\<open>VerifyScript\<close> and the witness
  signature-operation count. A stack is a list with its top first, so \<^verbatim>\<open>stacktop(-i)\<close> is element
  \<open>i - 1\<close>. A result \<open>Inl e\<close> is a return of false with \<^verbatim>\<open>*serror = e\<close>; the exceptions that the
  \<^verbatim>\<open>catch (...)\<close> of \<^verbatim>\<open>EvalScript\<close> turns into \<open>SCRIPT_ERR_UNKNOWN_ERROR\<close> carry that code at once.
  The signature checker and the hash functions are parameters, as they are virtual calls and
  library objects in the code.
\<close>

section \<open>Errors, flags and parameters\<close>

datatype ScriptError = SCRIPT_ERR_OK | SCRIPT_ERR_UNKNOWN_ERROR | SCRIPT_ERR_EVAL_FALSE
  | SCRIPT_ERR_OP_RETURN | SCRIPT_ERR_SCRIPT_SIZE | SCRIPT_ERR_PUSH_SIZE | SCRIPT_ERR_OP_COUNT
  | SCRIPT_ERR_STACK_SIZE | SCRIPT_ERR_SIG_COUNT | SCRIPT_ERR_PUBKEY_COUNT | SCRIPT_ERR_VERIFY
  | SCRIPT_ERR_EQUALVERIFY | SCRIPT_ERR_CHECKMULTISIGVERIFY | SCRIPT_ERR_CHECKSIGVERIFY
  | SCRIPT_ERR_NUMEQUALVERIFY | SCRIPT_ERR_BAD_OPCODE | SCRIPT_ERR_DISABLED_OPCODE
  | SCRIPT_ERR_INVALID_STACK_OPERATION | SCRIPT_ERR_INVALID_ALTSTACK_OPERATION
  | SCRIPT_ERR_UNBALANCED_CONDITIONAL | SCRIPT_ERR_NEGATIVE_LOCKTIME | SCRIPT_ERR_UNSATISFIED_LOCKTIME
  | SCRIPT_ERR_SIG_HASHTYPE | SCRIPT_ERR_SIG_DER | SCRIPT_ERR_MINIMALDATA | SCRIPT_ERR_SIG_PUSHONLY
  | SCRIPT_ERR_SIG_HIGH_S | SCRIPT_ERR_SIG_NULLDUMMY | SCRIPT_ERR_PUBKEYTYPE | SCRIPT_ERR_CLEANSTACK
  | SCRIPT_ERR_MINIMALIF | SCRIPT_ERR_SIG_NULLFAIL | SCRIPT_ERR_DISCOURAGE_UPGRADABLE_NOPS
  | SCRIPT_ERR_DISCOURAGE_UPGRADABLE_WITNESS_PROGRAM | SCRIPT_ERR_WITNESS_PROGRAM_WRONG_LENGTH
  | SCRIPT_ERR_WITNESS_PROGRAM_WITNESS_EMPTY | SCRIPT_ERR_WITNESS_PROGRAM_MISMATCH
  | SCRIPT_ERR_WITNESS_MALLEATED | SCRIPT_ERR_WITNESS_MALLEATED_P2SH | SCRIPT_ERR_WITNESS_UNEXPECTED
  | SCRIPT_ERR_WITNESS_PUBKEYTYPE

datatype SigVersion = SIGVERSION_BASE | SIGVERSION_WITNESS_V0

type_synonym stack = "valtype list"

abbreviation (input) "SCRIPT_VERIFY_P2SH \<equiv> (0x0001 :: u32)"
abbreviation (input) "SCRIPT_VERIFY_STRICTENC \<equiv> (0x0002 :: u32)"
abbreviation (input) "SCRIPT_VERIFY_DERSIG \<equiv> (0x0004 :: u32)"
abbreviation (input) "SCRIPT_VERIFY_LOW_S \<equiv> (0x0008 :: u32)"
abbreviation (input) "SCRIPT_VERIFY_NULLDUMMY \<equiv> (0x0010 :: u32)"
abbreviation (input) "SCRIPT_VERIFY_SIGPUSHONLY \<equiv> (0x0020 :: u32)"
abbreviation (input) "SCRIPT_VERIFY_MINIMALDATA \<equiv> (0x0040 :: u32)"
abbreviation (input) "SCRIPT_VERIFY_DISCOURAGE_UPGRADABLE_NOPS \<equiv> (0x0080 :: u32)"
abbreviation (input) "SCRIPT_VERIFY_CLEANSTACK \<equiv> (0x0100 :: u32)"
abbreviation (input) "SCRIPT_VERIFY_CHECKLOCKTIMEVERIFY \<equiv> (0x0200 :: u32)"
abbreviation (input) "SCRIPT_VERIFY_CHECKSEQUENCEVERIFY \<equiv> (0x0400 :: u32)"
abbreviation (input) "SCRIPT_VERIFY_WITNESS \<equiv> (0x0800 :: u32)"
abbreviation (input) "SCRIPT_VERIFY_DISCOURAGE_UPGRADABLE_WITNESS_PROGRAM \<equiv> (0x1000 :: u32)"
abbreviation (input) "SCRIPT_VERIFY_MINIMALIF \<equiv> (0x2000 :: u32)"
abbreviation (input) "SCRIPT_VERIFY_NULLFAIL \<equiv> (0x4000 :: u32)"
abbreviation (input) "SCRIPT_VERIFY_WITNESS_PUBKEYTYPE \<equiv> (0x8000 :: u32)"

definition flag :: "u32 \<Rightarrow> u32 \<Rightarrow> bool" where
  "flag flags f \<longleftrightarrow> flags AND f \<noteq> 0"

text \<open>
  The parameters: the hash functions and the low-S test (\<^verbatim>\<open>CSHA256\<close>, \<^verbatim>\<open>CRIPEMD160\<close>, \<^verbatim>\<open>CSHA1\<close>,
  \<^verbatim>\<open>CPubKey::CheckLowS\<close>), and the virtual methods of \<^verbatim>\<open>BaseSignatureChecker\<close>.
\<close>

record crypto =
  RIPEMD160 :: "bytes \<Rightarrow> bytes"
  SHA1 :: "bytes \<Rightarrow> bytes"
  SHA256 :: "bytes \<Rightarrow> bytes"
  CheckLowS :: "bytes \<Rightarrow> bool"

record checker =
  CheckSig :: "valtype \<Rightarrow> valtype \<Rightarrow> script \<Rightarrow> SigVersion \<Rightarrow> bool"
  CheckLockTime :: "int \<Rightarrow> bool"
  CheckSequence :: "int \<Rightarrow> bool"

definition Hash160 :: "crypto \<Rightarrow> bytes \<Rightarrow> bytes" where
  "Hash160 C m = RIPEMD160 C (SHA256 C m)"

definition Hash256 :: "crypto \<Rightarrow> bytes \<Rightarrow> bytes" where
  "Hash256 C m = SHA256 C (SHA256 C m)"

section \<open>Encoding checks\<close>

fun CastToBool :: "valtype \<Rightarrow> bool" where
  "CastToBool [] \<longleftrightarrow> False"
| "CastToBool (b # vch) \<longleftrightarrow> (if b \<noteq> 0 then \<not> (vch = [] \<and> b = 0x80) else CastToBool vch)"

definition IsCompressedOrUncompressedPubKey :: "valtype \<Rightarrow> bool" where
  "IsCompressedOrUncompressedPubKey vchPubKey \<longleftrightarrow>
     (if length vchPubKey < 33 then False
      else if vchPubKey ! 0 = 0x04 then length vchPubKey = 65
      else if vchPubKey ! 0 = 0x02 \<or> vchPubKey ! 0 = 0x03 then length vchPubKey = 33
      else False)"

definition IsCompressedPubKey :: "valtype \<Rightarrow> bool" where
  "IsCompressedPubKey vchPubKey \<longleftrightarrow>
     length vchPubKey = 33 \<and> (vchPubKey ! 0 = 0x02 \<or> vchPubKey ! 0 = 0x03)"

definition IsValidSignatureEncoding :: "valtype \<Rightarrow> bool" where
  "IsValidSignatureEncoding sig \<longleftrightarrow>
     (if length sig < 9 then False
      else if length sig > 73 then False
      else if sig ! 0 \<noteq> 0x30 then False
      else if unat (sig ! 1) \<noteq> length sig - 3 then False
      else let lenR = unat (sig ! 3) in
        if 5 + lenR \<ge> length sig then False
        else let lenS = unat (sig ! (5 + lenR)) in
          if lenR + lenS + 7 \<noteq> length sig then False
          else if sig ! 2 \<noteq> 0x02 then False
          else if lenR = 0 then False
          else if sig ! 4 AND 0x80 \<noteq> 0 then False
          else if lenR > 1 \<and> sig ! 4 = 0x00 \<and> sig ! 5 AND 0x80 = 0 then False
          else if sig ! (lenR + 4) \<noteq> 0x02 then False
          else if lenS = 0 then False
          else if sig ! (lenR + 6) AND 0x80 \<noteq> 0 then False
          else if lenS > 1 \<and> sig ! (lenR + 6) = 0x00 \<and> sig ! (lenR + 7) AND 0x80 = 0 then False
          else True)"

definition IsLowDERSignature :: "crypto \<Rightarrow> valtype \<Rightarrow> ScriptError + unit" where
  "IsLowDERSignature C vchSig =
     (if \<not> IsValidSignatureEncoding vchSig then Inl SCRIPT_ERR_SIG_DER
      else if \<not> CheckLowS C (butlast vchSig) then Inl SCRIPT_ERR_SIG_HIGH_S
      else Inr ())"

definition IsDefinedHashtypeSignature :: "valtype \<Rightarrow> bool" where
  "IsDefinedHashtypeSignature vchSig \<longleftrightarrow>
     (if length vchSig = 0 then False
      else let nHashType = vchSig ! (length vchSig - 1) AND NOT 0x80 in
        \<not> (nHashType < 1 \<or> nHashType > 3))"

definition CheckSignatureEncoding :: "crypto \<Rightarrow> valtype \<Rightarrow> u32 \<Rightarrow> ScriptError + unit" where
  "CheckSignatureEncoding C vchSig flags =
     (if length vchSig = 0 then Inr ()
      else if flag flags (SCRIPT_VERIFY_DERSIG OR SCRIPT_VERIFY_LOW_S OR SCRIPT_VERIFY_STRICTENC) \<and>
              \<not> IsValidSignatureEncoding vchSig
      then Inl SCRIPT_ERR_SIG_DER
      else sbind (if flag flags SCRIPT_VERIFY_LOW_S then IsLowDERSignature C vchSig else Inr ()) (\<lambda>_.
        if flag flags SCRIPT_VERIFY_STRICTENC \<and> \<not> IsDefinedHashtypeSignature vchSig
        then Inl SCRIPT_ERR_SIG_HASHTYPE
        else Inr ()))"

definition CheckPubKeyEncoding :: "valtype \<Rightarrow> u32 \<Rightarrow> SigVersion \<Rightarrow> ScriptError + unit" where
  "CheckPubKeyEncoding vchPubKey flags sigversion =
     (if flag flags SCRIPT_VERIFY_STRICTENC \<and> \<not> IsCompressedOrUncompressedPubKey vchPubKey
      then Inl SCRIPT_ERR_PUBKEYTYPE
      else if flag flags SCRIPT_VERIFY_WITNESS_PUBKEYTYPE \<and> sigversion = SIGVERSION_WITNESS_V0 \<and>
              \<not> IsCompressedPubKey vchPubKey
      then Inl SCRIPT_ERR_WITNESS_PUBKEYTYPE
      else Inr ())"

definition CheckMinimalPush :: "valtype \<Rightarrow> byte \<Rightarrow> bool" where
  "CheckMinimalPush data opcode \<longleftrightarrow>
     (if length data = 0 then opcode = OP_0
      else if length data = 1 \<and> data ! 0 \<ge> 1 \<and> data ! 0 \<le> 16 then
        unat opcode = unat OP_1 + (unat (data ! 0) - 1)
      else if length data = 1 \<and> data ! 0 = 0x81 then opcode = OP_1NEGATE
      else if length data \<le> 75 then unat opcode = length data
      else if length data \<le> 255 then opcode = OP_PUSHDATA1
      else if length data \<le> 65535 then opcode = OP_PUSHDATA2
      else True)"

section \<open>Opcodes\<close>

record eval_state =
  st_stack :: stack
  st_altstack :: stack
  st_vfExec :: "bool list"
  st_nOpCount :: nat
  st_pbegincodehash :: script

record eval_env =
  env_flags :: u32
  env_sigversion :: SigVersion
  env_crypto :: crypto
  env_checker :: checker

definition vchFalse :: valtype where "vchFalse = []"
definition vchTrue :: valtype where "vchTrue = [1]"

abbreviation fail_stack :: "ScriptError + 'a" where
  "fail_stack \<equiv> Inl SCRIPT_ERR_INVALID_STACK_OPERATION"

abbreviation env_flag :: "eval_env \<Rightarrow> u32 \<Rightarrow> bool" where
  "env_flag E f \<equiv> flag (env_flags E) f"

definition script_num :: "eval_env \<Rightarrow> nat \<Rightarrow> valtype \<Rightarrow> ScriptError + int" where
  "script_num E nMaxNumSize vch =
     (case CScriptNum vch (env_flag E SCRIPT_VERIFY_MINIMALDATA) nMaxNumSize of
        Inl _ \<Rightarrow> Inl SCRIPT_ERR_UNKNOWN_ERROR
      | Inr n \<Rightarrow> Inr n)"

definition op_disabled :: "byte \<Rightarrow> bool" where
  "op_disabled opcode \<longleftrightarrow> opcode \<in> {OP_CAT, OP_SUBSTR, OP_LEFT, OP_RIGHT, OP_INVERT, OP_AND, OP_OR,
     OP_XOR, OP_2MUL, OP_2DIV, OP_MUL, OP_DIV, OP_MOD, OP_LSHIFT, OP_RSHIFT}"

definition op_constant :: "byte \<Rightarrow> stack \<Rightarrow> stack" where
  "op_constant opcode stk = scriptnum_serialize (uint opcode - (uint OP_1 - 1)) # stk"

definition op_checklocktimeverify :: "eval_env \<Rightarrow> stack \<Rightarrow> ScriptError + unit" where
  "op_checklocktimeverify E stk =
     (if \<not> env_flag E SCRIPT_VERIFY_CHECKLOCKTIMEVERIFY then
        (if env_flag E SCRIPT_VERIFY_DISCOURAGE_UPGRADABLE_NOPS
         then Inl SCRIPT_ERR_DISCOURAGE_UPGRADABLE_NOPS else Inr ())
      else case stk of
        [] \<Rightarrow> fail_stack
      | vch # _ \<Rightarrow> sbind (script_num E 5 vch) (\<lambda>nLockTime.
          if nLockTime < 0 then Inl SCRIPT_ERR_NEGATIVE_LOCKTIME
          else if \<not> CheckLockTime (env_checker E) nLockTime then Inl SCRIPT_ERR_UNSATISFIED_LOCKTIME
          else Inr ()))"

definition SEQUENCE_LOCKTIME_DISABLE_FLAG :: u32 where "SEQUENCE_LOCKTIME_DISABLE_FLAG = 0x80000000"
definition SEQUENCE_LOCKTIME_TYPE_FLAG :: u32 where "SEQUENCE_LOCKTIME_TYPE_FLAG = 0x00400000"
definition SEQUENCE_LOCKTIME_MASK :: u32 where "SEQUENCE_LOCKTIME_MASK = 0x0000ffff"
definition SEQUENCE_FINAL :: u32 where "SEQUENCE_FINAL = 0xffffffff"

definition op_checksequenceverify :: "eval_env \<Rightarrow> stack \<Rightarrow> ScriptError + unit" where
  "op_checksequenceverify E stk =
     (if \<not> env_flag E SCRIPT_VERIFY_CHECKSEQUENCEVERIFY then
        (if env_flag E SCRIPT_VERIFY_DISCOURAGE_UPGRADABLE_NOPS
         then Inl SCRIPT_ERR_DISCOURAGE_UPGRADABLE_NOPS else Inr ())
      else case stk of
        [] \<Rightarrow> fail_stack
      | vch # _ \<Rightarrow> sbind (script_num E 5 vch) (\<lambda>nSequence.
          if nSequence < 0 then Inl SCRIPT_ERR_NEGATIVE_LOCKTIME
          else if nSequence AND uint SEQUENCE_LOCKTIME_DISABLE_FLAG \<noteq> 0 then Inr ()
          else if \<not> CheckSequence (env_checker E) nSequence then Inl SCRIPT_ERR_UNSATISFIED_LOCKTIME
          else Inr ()))"

definition op_upgradable_nop :: "eval_env \<Rightarrow> ScriptError + unit" where
  "op_upgradable_nop E =
     (if env_flag E SCRIPT_VERIFY_DISCOURAGE_UPGRADABLE_NOPS
      then Inl SCRIPT_ERR_DISCOURAGE_UPGRADABLE_NOPS else Inr ())"

definition op_if :: "eval_env \<Rightarrow> bool \<Rightarrow> byte \<Rightarrow> stack \<Rightarrow> bool list \<Rightarrow> ScriptError + (stack \<times> bool list)" where
  "op_if E fExec opcode stk vfExec =
     (if fExec then
        (case stk of
           [] \<Rightarrow> Inl SCRIPT_ERR_UNBALANCED_CONDITIONAL
         | vch # stk' \<Rightarrow>
             if env_sigversion E = SIGVERSION_WITNESS_V0 \<and> env_flag E SCRIPT_VERIFY_MINIMALIF \<and>
                (length vch > 1 \<or> length vch = 1 \<and> vch ! 0 \<noteq> 1)
             then Inl SCRIPT_ERR_MINIMALIF
             else Inr (stk', (if opcode = OP_NOTIF then \<not> CastToBool vch else CastToBool vch) # vfExec))
      else Inr (stk, False # vfExec))"

definition op_else :: "bool list \<Rightarrow> ScriptError + bool list" where
  "op_else vfExec = (case vfExec of [] \<Rightarrow> Inl SCRIPT_ERR_UNBALANCED_CONDITIONAL | b # bs \<Rightarrow> Inr ((\<not> b) # bs))"

definition op_endif :: "bool list \<Rightarrow> ScriptError + bool list" where
  "op_endif vfExec = (case vfExec of [] \<Rightarrow> Inl SCRIPT_ERR_UNBALANCED_CONDITIONAL | b # bs \<Rightarrow> Inr bs)"

definition op_verify :: "stack \<Rightarrow> ScriptError + stack" where
  "op_verify stk = (case stk of
     [] \<Rightarrow> fail_stack
   | x # s \<Rightarrow> if CastToBool x then Inr s else Inl SCRIPT_ERR_VERIFY)"

definition op_toaltstack :: "stack \<Rightarrow> stack \<Rightarrow> ScriptError + (stack \<times> stack)" where
  "op_toaltstack stk alt = (case stk of [] \<Rightarrow> fail_stack | x # s \<Rightarrow> Inr (s, x # alt))"

definition op_fromaltstack :: "stack \<Rightarrow> stack \<Rightarrow> ScriptError + (stack \<times> stack)" where
  "op_fromaltstack stk alt =
     (case alt of [] \<Rightarrow> Inl SCRIPT_ERR_INVALID_ALTSTACK_OPERATION | x # a \<Rightarrow> Inr (x # stk, a))"

fun op_2drop :: "stack \<Rightarrow> ScriptError + stack" where
  "op_2drop (x2 # x1 # s) = Inr s"
| "op_2drop _ = fail_stack"

fun op_2dup :: "stack \<Rightarrow> ScriptError + stack" where
  "op_2dup (x2 # x1 # s) = Inr (x2 # x1 # x2 # x1 # s)"
| "op_2dup _ = fail_stack"

fun op_3dup :: "stack \<Rightarrow> ScriptError + stack" where
  "op_3dup (x3 # x2 # x1 # s) = Inr (x3 # x2 # x1 # x3 # x2 # x1 # s)"
| "op_3dup _ = fail_stack"

fun op_2over :: "stack \<Rightarrow> ScriptError + stack" where
  "op_2over (x4 # x3 # x2 # x1 # s) = Inr (x2 # x1 # x4 # x3 # x2 # x1 # s)"
| "op_2over _ = fail_stack"

fun op_2rot :: "stack \<Rightarrow> ScriptError + stack" where
  "op_2rot (x6 # x5 # x4 # x3 # x2 # x1 # s) = Inr (x2 # x1 # x6 # x5 # x4 # x3 # s)"
| "op_2rot _ = fail_stack"

fun op_2swap :: "stack \<Rightarrow> ScriptError + stack" where
  "op_2swap (x4 # x3 # x2 # x1 # s) = Inr (x2 # x1 # x4 # x3 # s)"
| "op_2swap _ = fail_stack"

fun op_ifdup :: "stack \<Rightarrow> ScriptError + stack" where
  "op_ifdup (x # s) = Inr (if CastToBool x then x # x # s else x # s)"
| "op_ifdup [] = fail_stack"

definition op_depth :: "stack \<Rightarrow> ScriptError + stack" where
  "op_depth s = Inr (scriptnum_serialize (int (length s)) # s)"

fun op_drop :: "stack \<Rightarrow> ScriptError + stack" where
  "op_drop (x # s) = Inr s"
| "op_drop [] = fail_stack"

fun op_dup :: "stack \<Rightarrow> ScriptError + stack" where
  "op_dup (x # s) = Inr (x # x # s)"
| "op_dup [] = fail_stack"

fun op_nip :: "stack \<Rightarrow> ScriptError + stack" where
  "op_nip (x2 # x1 # s) = Inr (x2 # s)"
| "op_nip _ = fail_stack"

fun op_over :: "stack \<Rightarrow> ScriptError + stack" where
  "op_over (x2 # x1 # s) = Inr (x1 # x2 # x1 # s)"
| "op_over _ = fail_stack"

text \<open>\<^verbatim>\<open>OP_PICK\<close> copies and \<^verbatim>\<open>OP_ROLL\<close> moves the element at the depth that the top names.\<close>

definition op_pick_roll :: "eval_env \<Rightarrow> byte \<Rightarrow> stack \<Rightarrow> ScriptError + stack" where
  "op_pick_roll E opcode stk =
     (if length stk < 2 then fail_stack
      else sbind (script_num E nDefaultMaxNumSize (stk ! 0)) (\<lambda>bn.
        let n = getint bn; s = tl stk in
        if n < 0 \<or> n \<ge> int (length s) then fail_stack
        else let vch = s ! nat n in
          Inr (vch # (if opcode = OP_ROLL then take (nat n) s @ drop (Suc (nat n)) s else s))))"

fun op_rot :: "stack \<Rightarrow> ScriptError + stack" where
  "op_rot (x3 # x2 # x1 # s) = Inr (x1 # x3 # x2 # s)"
| "op_rot _ = fail_stack"

fun op_swap :: "stack \<Rightarrow> ScriptError + stack" where
  "op_swap (x2 # x1 # s) = Inr (x1 # x2 # s)"
| "op_swap _ = fail_stack"

fun op_tuck :: "stack \<Rightarrow> ScriptError + stack" where
  "op_tuck (x2 # x1 # s) = Inr (x2 # x1 # x2 # s)"
| "op_tuck _ = fail_stack"

fun op_size :: "stack \<Rightarrow> ScriptError + stack" where
  "op_size (x # s) = Inr (scriptnum_serialize (int (length x)) # x # s)"
| "op_size [] = fail_stack"

fun op_equal :: "byte \<Rightarrow> stack \<Rightarrow> ScriptError + stack" where
  "op_equal opcode (x2 # x1 # s) =
     (if opcode = OP_EQUALVERIFY then (if x1 = x2 then Inr s else Inl SCRIPT_ERR_EQUALVERIFY)
      else Inr ((if x1 = x2 then vchTrue else vchFalse) # s))"
| "op_equal opcode _ = fail_stack"

definition of_bool_num :: "bool \<Rightarrow> int" where
  "of_bool_num b = (if b then 1 else 0)"

definition unary_num :: "byte \<Rightarrow> int \<Rightarrow> int" where
  "unary_num opcode bn =
     (if opcode = OP_1ADD then bn + 1
      else if opcode = OP_1SUB then bn - 1
      else if opcode = OP_NEGATE then - bn
      else if opcode = OP_ABS then (if bn < 0 then - bn else bn)
      else if opcode = OP_NOT then of_bool_num (bn = 0)
      else of_bool_num (bn \<noteq> 0))"

fun op_unary :: "eval_env \<Rightarrow> byte \<Rightarrow> stack \<Rightarrow> ScriptError + stack" where
  "op_unary E opcode (x # s) =
     sbind (script_num E nDefaultMaxNumSize x) (\<lambda>bn. Inr (scriptnum_serialize (unary_num opcode bn) # s))"
| "op_unary E opcode [] = fail_stack"

definition binary_num :: "byte \<Rightarrow> int \<Rightarrow> int \<Rightarrow> int" where
  "binary_num opcode bn1 bn2 =
     (if opcode = OP_ADD then bn1 + bn2
      else if opcode = OP_SUB then bn1 - bn2
      else if opcode = OP_BOOLAND then of_bool_num (bn1 \<noteq> 0 \<and> bn2 \<noteq> 0)
      else if opcode = OP_BOOLOR then of_bool_num (bn1 \<noteq> 0 \<or> bn2 \<noteq> 0)
      else if opcode = OP_NUMEQUAL \<or> opcode = OP_NUMEQUALVERIFY then of_bool_num (bn1 = bn2)
      else if opcode = OP_NUMNOTEQUAL then of_bool_num (bn1 \<noteq> bn2)
      else if opcode = OP_LESSTHAN then of_bool_num (bn1 < bn2)
      else if opcode = OP_GREATERTHAN then of_bool_num (bn1 > bn2)
      else if opcode = OP_LESSTHANOREQUAL then of_bool_num (bn1 \<le> bn2)
      else if opcode = OP_GREATERTHANOREQUAL then of_bool_num (bn1 \<ge> bn2)
      else if opcode = OP_MIN then (if bn1 < bn2 then bn1 else bn2)
      else (if bn1 > bn2 then bn1 else bn2))"

fun op_binary :: "eval_env \<Rightarrow> byte \<Rightarrow> stack \<Rightarrow> ScriptError + stack" where
  "op_binary E opcode (x2 # x1 # s) =
     sbind (script_num E nDefaultMaxNumSize x1) (\<lambda>bn1.
     sbind (script_num E nDefaultMaxNumSize x2) (\<lambda>bn2.
       let vch = scriptnum_serialize (binary_num opcode bn1 bn2) in
       if opcode = OP_NUMEQUALVERIFY then
         (if CastToBool vch then Inr s else Inl SCRIPT_ERR_NUMEQUALVERIFY)
       else Inr (vch # s)))"
| "op_binary E opcode _ = fail_stack"

fun op_within :: "eval_env \<Rightarrow> stack \<Rightarrow> ScriptError + stack" where
  "op_within E (x3 # x2 # x1 # s) =
     sbind (script_num E nDefaultMaxNumSize x1) (\<lambda>bn1.
     sbind (script_num E nDefaultMaxNumSize x2) (\<lambda>bn2.
     sbind (script_num E nDefaultMaxNumSize x3) (\<lambda>bn3.
       Inr ((if bn2 \<le> bn1 \<and> bn1 < bn3 then vchTrue else vchFalse) # s))))"
| "op_within E _ = fail_stack"

definition op_hash_of :: "crypto \<Rightarrow> byte \<Rightarrow> valtype \<Rightarrow> valtype" where
  "op_hash_of C opcode vch =
     (if opcode = OP_RIPEMD160 then RIPEMD160 C vch
      else if opcode = OP_SHA1 then SHA1 C vch
      else if opcode = OP_SHA256 then SHA256 C vch
      else if opcode = OP_HASH160 then Hash160 C vch
      else Hash256 C vch)"

fun op_hash :: "eval_env \<Rightarrow> byte \<Rightarrow> stack \<Rightarrow> ScriptError + stack" where
  "op_hash E opcode (x # s) = Inr (op_hash_of (env_crypto E) opcode x # s)"
| "op_hash E opcode [] = fail_stack"

text \<open>A signature cannot sign itself: its push is removed from the code that it signs.\<close>

definition drop_sig :: "eval_env \<Rightarrow> script \<Rightarrow> valtype \<Rightarrow> script" where
  "drop_sig E scriptCode vchSig =
     (if env_sigversion E = SIGVERSION_BASE then fst (FindAndDelete scriptCode (push_data [] vchSig))
      else scriptCode)"

definition check_encodings :: "eval_env \<Rightarrow> valtype \<Rightarrow> valtype \<Rightarrow> ScriptError + unit" where
  "check_encodings E vchSig vchPubKey =
     sbind (CheckSignatureEncoding (env_crypto E) vchSig (env_flags E)) (\<lambda>_.
       CheckPubKeyEncoding vchPubKey (env_flags E) (env_sigversion E))"

fun op_checksig :: "eval_env \<Rightarrow> byte \<Rightarrow> script \<Rightarrow> stack \<Rightarrow> ScriptError + stack" where
  "op_checksig E opcode pbegincodehash (vchPubKey # vchSig # s) =
     (let scriptCode = drop_sig E pbegincodehash vchSig in
      sbind (check_encodings E vchSig vchPubKey) (\<lambda>_.
        let fSuccess = CheckSig (env_checker E) vchSig vchPubKey scriptCode (env_sigversion E) in
        if \<not> fSuccess \<and> env_flag E SCRIPT_VERIFY_NULLFAIL \<and> length vchSig \<noteq> 0 then Inl SCRIPT_ERR_SIG_NULLFAIL
        else if opcode = OP_CHECKSIGVERIFY then
          (if fSuccess then Inr s else Inl SCRIPT_ERR_CHECKSIGVERIFY)
        else Inr ((if fSuccess then vchTrue else vchFalse) # s)))"
| "op_checksig E opcode pbegincodehash _ = fail_stack"

text \<open>
  The matching loop of \<^verbatim>\<open>OP_CHECKMULTISIG\<close>. The remaining signatures and keys, which the code
  addresses by \<^verbatim>\<open>isig\<close>, \<^verbatim>\<open>nSigsCount\<close>, \<^verbatim>\<open>ikey\<close> and \<^verbatim>\<open>nKeysCount\<close>, are two lists; the loop is entered
  with at least as many keys as signatures and keeps it so.
\<close>

fun multisig_loop :: "eval_env \<Rightarrow> script \<Rightarrow> valtype list \<Rightarrow> valtype list \<Rightarrow> ScriptError + bool" where
  "multisig_loop E scriptCode [] keys = Inr True"
| "multisig_loop E scriptCode (vchSig # sigs) [] = Inr False"
| "multisig_loop E scriptCode (vchSig # sigs) (vchPubKey # keys) =
     sbind (check_encodings E vchSig vchPubKey) (\<lambda>_.
       let fOk = CheckSig (env_checker E) vchSig vchPubKey scriptCode (env_sigversion E);
           sigs' = (if fOk then sigs else vchSig # sigs) in
       if length sigs' > length keys then Inr False
       else multisig_loop E scriptCode sigs' keys)"

text \<open>The clean-up loop: \<open>n\<close> pops, of which the ones after the first \<open>ikey2\<close> are signatures.\<close>

fun multisig_cleanup :: "eval_env \<Rightarrow> bool \<Rightarrow> nat \<Rightarrow> nat \<Rightarrow> stack \<Rightarrow> ScriptError + stack" where
  "multisig_cleanup E fSuccess 0 ikey2 stk = Inr stk"
| "multisig_cleanup E fSuccess (Suc n) ikey2 [] = Inl SCRIPT_ERR_UNKNOWN_ERROR"
| "multisig_cleanup E fSuccess (Suc n) ikey2 (x # stk) =
     (if \<not> fSuccess \<and> env_flag E SCRIPT_VERIFY_NULLFAIL \<and> ikey2 = 0 \<and> length x \<noteq> 0
      then Inl SCRIPT_ERR_SIG_NULLFAIL
      else multisig_cleanup E fSuccess n (ikey2 - 1) stk)"

definition multisig_finish :: "eval_env \<Rightarrow> byte \<Rightarrow> bool \<Rightarrow> stack \<Rightarrow> ScriptError + stack" where
  "multisig_finish E opcode fSuccess stk =
     (case stk of
        [] \<Rightarrow> fail_stack
      | dummy # s \<Rightarrow>
          if env_flag E SCRIPT_VERIFY_NULLDUMMY \<and> length dummy \<noteq> 0 then Inl SCRIPT_ERR_SIG_NULLDUMMY
          else if opcode = OP_CHECKMULTISIGVERIFY then
            (if fSuccess then Inr s else Inl SCRIPT_ERR_CHECKMULTISIGVERIFY)
          else Inr ((if fSuccess then vchTrue else vchFalse) # s))"

definition op_checkmultisig ::
  "eval_env \<Rightarrow> byte \<Rightarrow> script \<Rightarrow> nat \<Rightarrow> stack \<Rightarrow> ScriptError + (stack \<times> nat)" where
  "op_checkmultisig E opcode pbegincodehash nOpCount stk =
     (if length stk < 1 then fail_stack
      else sbind (script_num E nDefaultMaxNumSize (stk ! 0)) (\<lambda>bnKeys.
        let nKeysCount = getint bnKeys in
        if nKeysCount < 0 \<or> nKeysCount > int MAX_PUBKEYS_PER_MULTISIG then Inl SCRIPT_ERR_PUBKEY_COUNT
        else let nKeys = nat nKeysCount; nOpCount' = nOpCount + nKeys in
        if nOpCount' > MAX_OPS_PER_SCRIPT then Inl SCRIPT_ERR_OP_COUNT
        else if length stk < 2 + nKeys then fail_stack
        else sbind (script_num E nDefaultMaxNumSize (stk ! (1 + nKeys))) (\<lambda>bnSigs.
          let nSigsCount = getint bnSigs in
          if nSigsCount < 0 \<or> nSigsCount > nKeysCount then Inl SCRIPT_ERR_SIG_COUNT
          else let nSigs = nat nSigsCount; i = 3 + nKeys + nSigs in
          if length stk < i then fail_stack
          else
            let keys = take nKeys (drop 1 stk);
                sigs = take nSigs (drop (2 + nKeys) stk);
                scriptCode = foldl (drop_sig E) pbegincodehash sigs in
            sbind (multisig_loop E scriptCode sigs keys) (\<lambda>fSuccess.
            sbind (multisig_cleanup E fSuccess (i - 1) (nKeys + 2) stk) (\<lambda>stk'.
            sbind (multisig_finish E opcode fSuccess stk') (\<lambda>stk''. Inr (stk'', nOpCount')))))))"

section \<open>The evaluation loop\<close>

text \<open>The opcodes that only rearrange or extend the main stack (\<open>None\<close>: not one of them).\<close>

definition op_stack :: "eval_env \<Rightarrow> byte \<Rightarrow> stack \<Rightarrow> (ScriptError + stack) option" where
  "op_stack E opcode stk =
     (if opcode = OP_1NEGATE \<or> OP_1 \<le> opcode \<and> opcode \<le> OP_16 then Some (Inr (op_constant opcode stk))
      else if opcode = OP_VERIFY then Some (op_verify stk)
      else if opcode = OP_2DROP then Some (op_2drop stk)
      else if opcode = OP_2DUP then Some (op_2dup stk)
      else if opcode = OP_3DUP then Some (op_3dup stk)
      else if opcode = OP_2OVER then Some (op_2over stk)
      else if opcode = OP_2ROT then Some (op_2rot stk)
      else if opcode = OP_2SWAP then Some (op_2swap stk)
      else if opcode = OP_IFDUP then Some (op_ifdup stk)
      else if opcode = OP_DEPTH then Some (op_depth stk)
      else if opcode = OP_DROP then Some (op_drop stk)
      else if opcode = OP_DUP then Some (op_dup stk)
      else if opcode = OP_NIP then Some (op_nip stk)
      else if opcode = OP_OVER then Some (op_over stk)
      else if opcode = OP_PICK \<or> opcode = OP_ROLL then Some (op_pick_roll E opcode stk)
      else if opcode = OP_ROT then Some (op_rot stk)
      else if opcode = OP_SWAP then Some (op_swap stk)
      else if opcode = OP_TUCK then Some (op_tuck stk)
      else if opcode = OP_SIZE then Some (op_size stk)
      else if opcode = OP_EQUAL \<or> opcode = OP_EQUALVERIFY then Some (op_equal opcode stk)
      else if opcode \<in> {OP_1ADD, OP_1SUB, OP_NEGATE, OP_ABS, OP_NOT, OP_0NOTEQUAL} then
        Some (op_unary E opcode stk)
      else if opcode \<in> {OP_ADD, OP_SUB, OP_BOOLAND, OP_BOOLOR, OP_NUMEQUAL, OP_NUMEQUALVERIFY,
          OP_NUMNOTEQUAL, OP_LESSTHAN, OP_GREATERTHAN, OP_LESSTHANOREQUAL, OP_GREATERTHANOREQUAL,
          OP_MIN, OP_MAX} then
        Some (op_binary E opcode stk)
      else if opcode = OP_WITHIN then Some (op_within E stk)
      else if opcode \<in> {OP_RIPEMD160, OP_SHA1, OP_SHA256, OP_HASH160, OP_HASH256} then
        Some (op_hash E opcode stk)
      else None)"

text \<open>
  The \<^verbatim>\<open>switch\<close>. \<open>pc\<close> is the iterator after the instruction, which \<^verbatim>\<open>OP_CODESEPARATOR\<close> records.
\<close>

definition op_switch :: "eval_env \<Rightarrow> bool \<Rightarrow> byte \<Rightarrow> script \<Rightarrow> eval_state \<Rightarrow> ScriptError + eval_state" where
  "op_switch E fExec opcode pc st =
     (case op_stack E opcode (st_stack st) of
        Some r \<Rightarrow> sbind r (\<lambda>stk. Inr (st \<lparr>st_stack := stk\<rparr>))
      | None \<Rightarrow>
          if opcode = OP_NOP then Inr st
          else if opcode = OP_CHECKLOCKTIMEVERIFY then
            sbind (op_checklocktimeverify E (st_stack st)) (\<lambda>_. Inr st)
          else if opcode = OP_CHECKSEQUENCEVERIFY then
            sbind (op_checksequenceverify E (st_stack st)) (\<lambda>_. Inr st)
          else if opcode = OP_NOP1 \<or> OP_NOP4 \<le> opcode \<and> opcode \<le> OP_NOP10 then
            sbind (op_upgradable_nop E) (\<lambda>_. Inr st)
          else if opcode = OP_IF \<or> opcode = OP_NOTIF then
            sbind (op_if E fExec opcode (st_stack st) (st_vfExec st)) (\<lambda>(stk, vf).
              Inr (st \<lparr>st_stack := stk, st_vfExec := vf\<rparr>))
          else if opcode = OP_ELSE then
            sbind (op_else (st_vfExec st)) (\<lambda>vf. Inr (st \<lparr>st_vfExec := vf\<rparr>))
          else if opcode = OP_ENDIF then
            sbind (op_endif (st_vfExec st)) (\<lambda>vf. Inr (st \<lparr>st_vfExec := vf\<rparr>))
          else if opcode = OP_RETURN then Inl SCRIPT_ERR_OP_RETURN
          else if opcode = OP_TOALTSTACK then
            sbind (op_toaltstack (st_stack st) (st_altstack st)) (\<lambda>(stk, alt).
              Inr (st \<lparr>st_stack := stk, st_altstack := alt\<rparr>))
          else if opcode = OP_FROMALTSTACK then
            sbind (op_fromaltstack (st_stack st) (st_altstack st)) (\<lambda>(stk, alt).
              Inr (st \<lparr>st_stack := stk, st_altstack := alt\<rparr>))
          else if opcode = OP_CODESEPARATOR then Inr (st \<lparr>st_pbegincodehash := pc\<rparr>)
          else if opcode = OP_CHECKSIG \<or> opcode = OP_CHECKSIGVERIFY then
            sbind (op_checksig E opcode (st_pbegincodehash st) (st_stack st)) (\<lambda>stk.
              Inr (st \<lparr>st_stack := stk\<rparr>))
          else if opcode = OP_CHECKMULTISIG \<or> opcode = OP_CHECKMULTISIGVERIFY then
            sbind (op_checkmultisig E opcode (st_pbegincodehash st) (st_nOpCount st) (st_stack st))
              (\<lambda>(stk, n). Inr (st \<lparr>st_stack := stk, st_nOpCount := n\<rparr>))
          else if opcode = OP_BLKR_ASSET then Inr st
          else Inl SCRIPT_ERR_BAD_OPCODE)"

definition fExec_of :: "bool list \<Rightarrow> bool" where
  "fExec_of vfExec \<longleftrightarrow> False \<notin> set vfExec"

text \<open>One round of the loop after \<^verbatim>\<open>GetOp\<close> has returned \<open>opcode\<close> and \<open>vchPushValue\<close>.\<close>

definition exec_instr ::
  "eval_env \<Rightarrow> byte \<Rightarrow> valtype \<Rightarrow> script \<Rightarrow> eval_state \<Rightarrow> ScriptError + eval_state" where
  "exec_instr E opcode vchPushValue pc st0 =
     (let fExec = fExec_of (st_vfExec st0) in
      if length vchPushValue > MAX_SCRIPT_ELEMENT_SIZE then Inl SCRIPT_ERR_PUSH_SIZE
      else let st = (if opcode > OP_16 then st0 \<lparr>st_nOpCount := st_nOpCount st0 + 1\<rparr> else st0) in
      if opcode > OP_16 \<and> st_nOpCount st > MAX_OPS_PER_SCRIPT then Inl SCRIPT_ERR_OP_COUNT
      else if op_disabled opcode then Inl SCRIPT_ERR_DISABLED_OPCODE
      else sbind
        (if fExec \<and> opcode \<le> OP_PUSHDATA4 then
           (if env_flag E SCRIPT_VERIFY_MINIMALDATA \<and> \<not> CheckMinimalPush vchPushValue opcode
            then Inl SCRIPT_ERR_MINIMALDATA
            else Inr (st \<lparr>st_stack := vchPushValue # st_stack st\<rparr>))
         else if fExec \<or> OP_IF \<le> opcode \<and> opcode \<le> OP_ENDIF then op_switch E fExec opcode pc st
         else Inr st)
        (\<lambda>st'. if length (st_stack st') + length (st_altstack st') > MAX_STACK_SIZE
               then Inl SCRIPT_ERR_STACK_SIZE else Inr st'))"

function eval_loop :: "eval_env \<Rightarrow> script \<Rightarrow> eval_state \<Rightarrow> ScriptError + eval_state" where
  "eval_loop E pc st =
     (if pc = [] then Inr st
      else case GetOp2 pc of
        (False, pc', opcode, vchPushValue) \<Rightarrow> Inl SCRIPT_ERR_BAD_OPCODE
      | (True, pc', opcode, vchPushValue) \<Rightarrow>
          (case exec_instr E opcode vchPushValue pc' st of
             Inl e \<Rightarrow> Inl e
           | Inr st' \<Rightarrow> eval_loop E pc' st'))"
  by pat_completeness auto
termination
  by (relation "measure (\<lambda>(E, pc, st). length pc)") (auto dest!: GetOp2_shorter_sym)

declare eval_loop.simps [simp del]

definition EvalScript :: "eval_env \<Rightarrow> stack \<Rightarrow> script \<Rightarrow> ScriptError + stack" where
  "EvalScript E stk s =
     (if length s > MAX_SCRIPT_SIZE then Inl SCRIPT_ERR_SCRIPT_SIZE
      else case eval_loop E s
          \<lparr>st_stack = stk, st_altstack = [], st_vfExec = [], st_nOpCount = 0, st_pbegincodehash = s\<rparr> of
        Inl e \<Rightarrow> Inl e
      | Inr st \<Rightarrow> if st_vfExec st \<noteq> [] then Inl SCRIPT_ERR_UNBALANCED_CONDITIONAL else Inr (st_stack st))"

section \<open>Script verification\<close>

text \<open>
  \<open>VerifyScript\<close> returns \<open>None\<close> where an \<^verbatim>\<open>assert\<close> of the code aborts the process.
\<close>

definition mk_env :: "u32 \<Rightarrow> SigVersion \<Rightarrow> crypto \<Rightarrow> checker \<Rightarrow> eval_env" where
  "mk_env flags sv C K = \<lparr>env_flags = flags, env_sigversion = sv, env_crypto = C, env_checker = K\<rparr>"

definition eval_true :: "stack \<Rightarrow> ScriptError + unit" where
  "eval_true stk = (case stk of
     [] \<Rightarrow> Inl SCRIPT_ERR_EVAL_FALSE
   | x # _ \<Rightarrow> if CastToBool x then Inr () else Inl SCRIPT_ERR_EVAL_FALSE)"

definition p2wpkh_script :: "bytes \<Rightarrow> script" where
  "p2wpkh_script program =
     push_opcode (push_opcode (push_data (push_opcode (push_opcode [] OP_DUP) OP_HASH160) program)
       OP_EQUALVERIFY) OP_CHECKSIG"

text \<open>The witness is a list with the back of \<^verbatim>\<open>witness.stack\<close> first, as for every stack.\<close>

definition witness_script :: "crypto \<Rightarrow> stack \<Rightarrow> bytes \<Rightarrow> ScriptError + (script \<times> stack)" where
  "witness_script C witness program =
     (if length program = 32 then
        (case witness of
           [] \<Rightarrow> Inl SCRIPT_ERR_WITNESS_PROGRAM_WITNESS_EMPTY
         | scriptPubKey # stk \<Rightarrow>
             if SHA256 C scriptPubKey \<noteq> program then Inl SCRIPT_ERR_WITNESS_PROGRAM_MISMATCH
             else Inr (scriptPubKey, stk))
      else if length program = 20 then
        (if length witness \<noteq> 2 then Inl SCRIPT_ERR_WITNESS_PROGRAM_MISMATCH
         else Inr (p2wpkh_script program, witness))
      else Inl SCRIPT_ERR_WITNESS_PROGRAM_WRONG_LENGTH)"

definition VerifyWitnessProgram ::
  "stack \<Rightarrow> int \<Rightarrow> bytes \<Rightarrow> u32 \<Rightarrow> crypto \<Rightarrow> checker \<Rightarrow> ScriptError + unit" where
  "VerifyWitnessProgram witness witversion program flags C K =
     (if witversion = 0 then
        sbind (witness_script C witness program) (\<lambda>(scriptPubKey, stk).
          if list_ex (\<lambda>x. length x > MAX_SCRIPT_ELEMENT_SIZE) stk then Inl SCRIPT_ERR_PUSH_SIZE
          else sbind (EvalScript (mk_env flags SIGVERSION_WITNESS_V0 C K) stk scriptPubKey) (\<lambda>stk'.
            if length stk' \<noteq> 1 then Inl SCRIPT_ERR_EVAL_FALSE else eval_true stk'))
      else if flag flags SCRIPT_VERIFY_DISCOURAGE_UPGRADABLE_WITNESS_PROGRAM
      then Inl SCRIPT_ERR_DISCOURAGE_UPGRADABLE_WITNESS_PROGRAM
      else Inr ())"

text \<open>
  The two places that meet a witness program share \<open>verify_witness\<close>: the malleability test, the
  program, and the stack cut to its bottom element. It returns the stack and \<^verbatim>\<open>hadWitness\<close>.
\<close>

definition verify_witness ::
  "script \<Rightarrow> bool \<Rightarrow> ScriptError \<Rightarrow> stack \<Rightarrow> u32 \<Rightarrow> crypto \<Rightarrow> checker \<Rightarrow> stack \<Rightarrow> bool \<Rightarrow>
   ScriptError + (stack \<times> bool)" where
  "verify_witness script sig_ok malleated witness flags C K stk hadWitness =
     (if flag flags SCRIPT_VERIFY_WITNESS then
        (case IsWitnessProgram script of
           None \<Rightarrow> Inr (stk, hadWitness)
         | Some (witnessversion, witnessprogram) \<Rightarrow>
             if \<not> sig_ok then Inl malleated
             else sbind (VerifyWitnessProgram witness witnessversion witnessprogram flags C K) (\<lambda>_.
               Inr ([last stk], True)))
      else Inr (stk, hadWitness))"

definition verify_p2sh ::
  "script \<Rightarrow> stack \<Rightarrow> stack \<Rightarrow> u32 \<Rightarrow> crypto \<Rightarrow> checker \<Rightarrow> bool \<Rightarrow>
   (ScriptError + (stack \<times> bool)) option" where
  "verify_p2sh scriptSig stackCopy witness flags C K hadWitness =
     (if \<not> IsPushOnly scriptSig then Some (Inl SCRIPT_ERR_SIG_PUSHONLY)
      else case stackCopy of
        [] \<Rightarrow> None
      | pubKey2 # stk \<Rightarrow> Some (
          sbind (EvalScript (mk_env flags SIGVERSION_BASE C K) stk pubKey2) (\<lambda>stk'.
          sbind (eval_true stk') (\<lambda>_.
            verify_witness pubKey2 (scriptSig = push_data [] pubKey2)
              SCRIPT_ERR_WITNESS_MALLEATED_P2SH witness flags C K stk' hadWitness))))"

definition verify_tail :: "u32 \<Rightarrow> stack \<Rightarrow> stack \<Rightarrow> bool \<Rightarrow> (ScriptError + unit) option" where
  "verify_tail flags witness stk hadWitness =
     (if flag flags SCRIPT_VERIFY_CLEANSTACK \<and>
         \<not> (flag flags SCRIPT_VERIFY_P2SH \<and> flag flags SCRIPT_VERIFY_WITNESS) then None
      else if flag flags SCRIPT_VERIFY_CLEANSTACK \<and> length stk \<noteq> 1 then Some (Inl SCRIPT_ERR_CLEANSTACK)
      else if flag flags SCRIPT_VERIFY_WITNESS \<and> \<not> flag flags SCRIPT_VERIFY_P2SH then None
      else if flag flags SCRIPT_VERIFY_WITNESS \<and> \<not> hadWitness \<and> witness \<noteq> [] then
        Some (Inl SCRIPT_ERR_WITNESS_UNEXPECTED)
      else Some (Inr ()))"

definition VerifyScript ::
  "script \<Rightarrow> script \<Rightarrow> stack \<Rightarrow> u32 \<Rightarrow> crypto \<Rightarrow> checker \<Rightarrow> (ScriptError + unit) option" where
  "VerifyScript scriptSig scriptPubKey witness flags C K =
     (let E = mk_env flags SIGVERSION_BASE C K in
      if flag flags SCRIPT_VERIFY_SIGPUSHONLY \<and> \<not> IsPushOnly scriptSig then Some (Inl SCRIPT_ERR_SIG_PUSHONLY)
      else case EvalScript E [] scriptSig of Inl e \<Rightarrow> Some (Inl e) | Inr stackCopy \<Rightarrow>
        (case sbind (EvalScript E stackCopy scriptPubKey) (\<lambda>stk.
              sbind (eval_true stk) (\<lambda>_.
                verify_witness scriptPubKey (length scriptSig = 0) SCRIPT_ERR_WITNESS_MALLEATED
                  witness flags C K stk False)) of
           Inl e \<Rightarrow> Some (Inl e)
         | Inr (stk, hadWitness) \<Rightarrow>
             if flag flags SCRIPT_VERIFY_P2SH \<and> IsPayToScriptHash scriptPubKey then
               (case verify_p2sh scriptSig stackCopy witness flags C K hadWitness of
                  None \<Rightarrow> None
                | Some (Inl e) \<Rightarrow> Some (Inl e)
                | Some (Inr (stk', hadWitness')) \<Rightarrow> verify_tail flags witness stk' hadWitness')
             else verify_tail flags witness stk hadWitness))"

section \<open>Witness signature operations\<close>

definition WitnessSigOps :: "int \<Rightarrow> bytes \<Rightarrow> stack \<Rightarrow> nat" where
  "WitnessSigOps witversion witprogram witness =
     (if witversion = 0 then
        (if length witprogram = 20 then 1
         else if length witprogram = 32 \<and> length witness > 0 then GetSigOpCount (hd witness) True
         else 0)
      else 0)"

lemma GetOp2_shorter_fail: "pc \<noteq> [] \<Longrightarrow> GetOp2 pc = (ok, pc', opcode, v) \<Longrightarrow> length pc' < length pc"
  by (cases pc) (auto split: if_splits option.splits prod.splits dest: GetOp_size_length)

function last_data :: "script \<Rightarrow> bytes \<Rightarrow> bytes" where
  "last_data pc data =
     (if pc = [] then data else case GetOp2 pc of (ok, pc', opcode, v) \<Rightarrow> last_data pc' v)"
  by pat_completeness auto
termination
  by (relation "measure (\<lambda>(pc, d). length pc)") (auto dest: GetOp2_shorter_fail [OF _ sym])

declare last_data.simps [simp del]

definition CountWitnessSigOps :: "script \<Rightarrow> script \<Rightarrow> stack \<Rightarrow> u32 \<Rightarrow> nat option" where
  "CountWitnessSigOps scriptSig scriptPubKey witness flags =
     (if \<not> flag flags SCRIPT_VERIFY_WITNESS then Some 0
      else if \<not> flag flags SCRIPT_VERIFY_P2SH then None
      else case IsWitnessProgram scriptPubKey of
        Some (v, p) \<Rightarrow> Some (WitnessSigOps v p witness)
      | None \<Rightarrow>
          if IsPayToScriptHash scriptPubKey \<and> IsPushOnly scriptSig then
            (case IsWitnessProgram (last_data scriptSig []) of
               Some (v, p) \<Rightarrow> Some (WitnessSigOps v p witness)
             | None \<Rightarrow> Some 0)
          else Some 0)"

section \<open>What a successful evaluation shows of the script\<close>

text \<open>
  \<open>decode s\<close> is the list of instructions of \<open>s\<close>, if the reader reaches its end; \<open>cond_depth\<close> follows the
  nesting of conditionals, which does not depend on what is executed.
\<close>

function decode :: "script \<Rightarrow> (byte \<times> bytes) list option" where
  "decode pc =
     (if pc = [] then Some []
      else case GetOp2 pc of
        (False, pc', opcode, v) \<Rightarrow> None
      | (True, pc', opcode, v) \<Rightarrow> map_option ((#) (opcode, v)) (decode pc'))"
  by pat_completeness auto
termination
  by (relation "measure length") (auto dest!: GetOp2_shorter_sym)

declare decode.simps [simp del]

lemma decode_simps [simp]:
  "decode [] = Some []"
  "pc \<noteq> [] \<Longrightarrow> GetOp2 pc = (False, q) \<Longrightarrow> decode pc = None"
  "pc \<noteq> [] \<Longrightarrow> GetOp2 pc = (True, pc', opcode, v) \<Longrightarrow> decode pc = map_option ((#) (opcode, v)) (decode pc')"
  by (auto simp: decode.simps [of pc] decode.simps [of "[]"])

lemma eval_loop_simps [simp]:
  "eval_loop E [] st = Inr st"
  "pc \<noteq> [] \<Longrightarrow> GetOp2 pc = (False, q) \<Longrightarrow> eval_loop E pc st = Inl SCRIPT_ERR_BAD_OPCODE"
  "pc \<noteq> [] \<Longrightarrow> GetOp2 pc = (True, pc', opcode, v) \<Longrightarrow>
     eval_loop E pc st = sbind (exec_instr E opcode v pc' st) (eval_loop E pc')"
  by (auto simp: eval_loop.simps [of E pc] eval_loop.simps [of E "[]"] sbind_def split: prod.splits)

fun cond_depth :: "(byte \<times> bytes) list \<Rightarrow> nat \<Rightarrow> nat option" where
  "cond_depth [] d = Some d"
| "cond_depth ((opcode, v) # is) d =
     (if opcode = OP_IF \<or> opcode = OP_NOTIF then cond_depth is (Suc d)
      else if opcode = OP_ELSE then (if d = 0 then None else cond_depth is d)
      else if opcode = OP_ENDIF then (if d = 0 then None else cond_depth is (d - 1))
      else cond_depth is d)"

definition non_push_ops :: "(byte \<times> bytes) list \<Rightarrow> nat" where
  "non_push_ops is = length (filter (\<lambda>(opcode, v). opcode > OP_16) is)"

definition instr_allowed :: "byte \<times> bytes \<Rightarrow> bool" where
  "instr_allowed i \<longleftrightarrow> length (snd i) \<le> MAX_SCRIPT_ELEMENT_SIZE \<and> \<not> op_disabled (fst i) \<and>
     fst i \<noteq> 0x65 \<and> fst i \<noteq> 0x66"

text \<open>The switch changes the conditional stack, the counter and the stacks in separate branches.\<close>

lemma op_checkmultisig_count:
  "op_checkmultisig E opcode p n stk = Inr (stk', n') \<Longrightarrow> n \<le> n' \<and> n' \<le> MAX_OPS_PER_SCRIPT"
  by (auto simp: op_checkmultisig_def sbind_Inr_iff Let_def split: if_splits)

lemma op_stack_None:
  "op_stack E OP_IF stk = None" "op_stack E OP_NOTIF stk = None" "op_stack E OP_ELSE stk = None"
  "op_stack E OP_ENDIF stk = None" "op_stack E 0x65 stk = None" "op_stack E 0x66 stk = None"
  "op_stack E OP_RETURN stk = None" "op_stack E OP_CHECKSIG stk = None" "op_stack E OP_BLKR_ASSET stk = None"
  by (simp_all add: op_stack_def)

lemma op_switch_frame:
  assumes "op_switch E f opcode pc st = Inr st'" "opcode \<noteq> OP_IF" "opcode \<noteq> OP_NOTIF"
    "opcode \<noteq> OP_ELSE" "opcode \<noteq> OP_ENDIF"
  shows "st_vfExec st' = st_vfExec st"
proof (cases "op_stack E opcode (st_stack st)")
  case None
  with assms show ?thesis by (auto simp: op_switch_def sbind_Inr_iff split: if_splits)
next
  case (Some r)
  with assms(1) show ?thesis by (auto simp: op_switch_def sbind_Inr_iff)
qed

lemma op_switch_cond:
  assumes "op_switch E f opcode pc st = Inr st'"
  shows "opcode = OP_IF \<or> opcode = OP_NOTIF \<Longrightarrow> length (st_vfExec st') = Suc (length (st_vfExec st))"
    and "opcode = OP_ELSE \<Longrightarrow> st_vfExec st \<noteq> [] \<and> length (st_vfExec st') = length (st_vfExec st)"
    and "opcode = OP_ENDIF \<Longrightarrow> st_vfExec st \<noteq> [] \<and> length (st_vfExec st') = length (st_vfExec st) - 1"
    and "opcode \<noteq> 0x65 \<and> opcode \<noteq> 0x66"
  using assms
  by (auto simp: op_switch_def op_stack_None sbind_Inr_iff op_if_def op_else_def op_endif_def
    split: if_splits list.splits)

lemma op_switch_count:
  assumes "op_switch E f opcode pc st = Inr st'"
  shows "st_nOpCount st \<le> st_nOpCount st'"
    and "st_nOpCount st \<le> MAX_OPS_PER_SCRIPT \<Longrightarrow> st_nOpCount st' \<le> MAX_OPS_PER_SCRIPT"
proof -
  have "st_nOpCount st \<le> st_nOpCount st' \<and>
    (st_nOpCount st \<le> MAX_OPS_PER_SCRIPT \<longrightarrow> st_nOpCount st' \<le> MAX_OPS_PER_SCRIPT)"
  proof (cases "op_stack E opcode (st_stack st)")
    case None
    with assms show ?thesis
      by (auto simp: op_switch_def sbind_Inr_iff dest: op_checkmultisig_count split: if_splits)
  next
    case (Some r)
    with assms(1) show ?thesis by (auto simp: op_switch_def sbind_Inr_iff)
  qed
  then show "st_nOpCount st \<le> st_nOpCount st'"
    and "st_nOpCount st \<le> MAX_OPS_PER_SCRIPT \<Longrightarrow> st_nOpCount st' \<le> MAX_OPS_PER_SCRIPT" by auto
qed

text \<open>What one round of the loop guarantees, whatever is executed.\<close>

definition counted :: "byte \<Rightarrow> eval_state \<Rightarrow> eval_state" where
  "counted opcode st = (if opcode > OP_16 then st \<lparr>st_nOpCount := st_nOpCount st + 1\<rparr> else st)"

lemma counted_simps [simp]:
  "st_stack (counted opcode st) = st_stack st"
  "st_altstack (counted opcode st) = st_altstack st"
  "st_vfExec (counted opcode st) = st_vfExec st"
  "st_nOpCount (counted opcode st) = (if opcode > OP_16 then st_nOpCount st + 1 else st_nOpCount st)"
  by (simp_all add: counted_def)

lemma counted_push: "opcode \<le> OP_PUSHDATA4 \<Longrightarrow> counted opcode st = st"
  using order_trans [of opcode OP_PUSHDATA4 OP_16] by (simp add: counted_def not_less)

lemma exec_instr_Inr:
  "exec_instr E opcode v pc st = Inr st' \<longleftrightarrow>
     length v \<le> MAX_SCRIPT_ELEMENT_SIZE \<and> \<not> op_disabled opcode \<and>
     (opcode > OP_16 \<longrightarrow> st_nOpCount st + 1 \<le> MAX_OPS_PER_SCRIPT) \<and>
     length (st_stack st') + length (st_altstack st') \<le> MAX_STACK_SIZE \<and>
     (if fExec_of (st_vfExec st) \<and> opcode \<le> OP_PUSHDATA4 then
        (env_flag E SCRIPT_VERIFY_MINIMALDATA \<longrightarrow> CheckMinimalPush v opcode) \<and>
        st' = st \<lparr>st_stack := v # st_stack st\<rparr>
      else if fExec_of (st_vfExec st) \<or> OP_IF \<le> opcode \<and> opcode \<le> OP_ENDIF
      then op_switch E (fExec_of (st_vfExec st)) opcode pc (counted opcode st) = Inr st'
      else st' = counted opcode st)"
  unfolding exec_instr_def counted_def [symmetric] Let_def guard_Inr sbind_guard_Inr
  using counted_push [of opcode st] by (auto simp: guard_Inr not_less)

lemma exec_instrE:
  assumes "exec_instr E opcode v pc st = Inr st'"
  obtains (push) "opcode \<le> OP_PUSHDATA4" "fExec_of (st_vfExec st)"
      "st' = st \<lparr>st_stack := v # st_stack st\<rparr>"
    | (switch) f where "op_switch E f opcode pc (counted opcode st) = Inr st'"
    | (skip) "st' = counted opcode st" "\<not> (OP_IF \<le> opcode \<and> opcode \<le> OP_ENDIF)"
  using assms unfolding exec_instr_Inr by (metis (full_types))

lemma exec_instr_count:
  assumes "exec_instr E opcode v pc st = Inr st'"
  shows "st_nOpCount st + (if opcode > OP_16 then 1 else 0) \<le> st_nOpCount st'"
    and "st_nOpCount st \<le> MAX_OPS_PER_SCRIPT \<Longrightarrow> st_nOpCount st' \<le> MAX_OPS_PER_SCRIPT"
proof -
  from assms have lim: "opcode > OP_16 \<longrightarrow> st_nOpCount st + 1 \<le> MAX_OPS_PER_SCRIPT"
    by (simp add: exec_instr_Inr)
  from assms show "st_nOpCount st + (if opcode > OP_16 then 1 else 0) \<le> st_nOpCount st'"
    by (cases rule: exec_instrE) (use counted_push [of opcode] counted_simps(4) [of opcode st] op_switch_count(1) in \<open>fastforce split: if_splits\<close>)+
  from assms show "st_nOpCount st \<le> MAX_OPS_PER_SCRIPT \<Longrightarrow> st_nOpCount st' \<le> MAX_OPS_PER_SCRIPT"
    by (cases rule: exec_instrE) (use lim op_switch_count(2) in \<open>fastforce split: if_splits\<close>)+
qed

lemma exec_instr_cond:
  assumes "exec_instr E opcode v pc st = Inr st'"
  shows "cond_depth ((opcode, v) # is) (length (st_vfExec st)) = cond_depth is (length (st_vfExec st'))"
  using assms
proof (cases rule: exec_instrE)
  case push
  then have "opcode \<noteq> OP_IF" "opcode \<noteq> OP_NOTIF" "opcode \<noteq> OP_ELSE" "opcode \<noteq> OP_ENDIF" by auto
  with push show ?thesis by simp
next
  case (switch f)
  show ?thesis
    using op_switch_cond(1-3) [OF switch] op_switch_frame [OF switch] by (auto simp del: counted_simps(4))
next
  case skip
  then have "opcode \<noteq> OP_IF" "opcode \<noteq> OP_NOTIF" "opcode \<noteq> OP_ELSE" "opcode \<noteq> OP_ENDIF" by auto
  with skip show ?thesis by simp
qed

lemma exec_instr_allowed:
  assumes "exec_instr E opcode v pc st = Inr st'"
  shows "instr_allowed (opcode, v)"
proof -
  have "opcode \<noteq> 0x65 \<and> opcode \<noteq> 0x66"
    using assms
  proof (cases rule: exec_instrE)
    case (switch f)
    then show ?thesis by (rule op_switch_cond(4))
  qed auto
  then show ?thesis using assms by (simp add: exec_instr_Inr instr_allowed_def)
qed

lemma eval_loop_static:
  assumes "eval_loop E pc st = Inr st'"
  shows "\<exists>is. decode pc = Some is \<and> list_all instr_allowed is \<and>
    st_nOpCount st + non_push_ops is \<le> st_nOpCount st' \<and>
    cond_depth is (length (st_vfExec st)) = Some (length (st_vfExec st'))"
  using assms
proof (induction pc arbitrary: st rule: script_induct)
  case Nil
  then show ?case by (simp add: non_push_ops_def)
next
  case (Fail pc q)
  then show ?case by simp
next
  case (Op pc pc' opcode v)
  then obtain st1 where 1: "exec_instr E opcode v pc' st = Inr st1" and "eval_loop E pc' st1 = Inr st'"
    by (auto simp: sbind_Inr_iff)
  from Op.IH [OF this(2)] obtain "is" where 2: "decode pc' = Some is" "list_all instr_allowed is"
    "st_nOpCount st1 + non_push_ops is \<le> st_nOpCount st'"
    "cond_depth is (length (st_vfExec st1)) = Some (length (st_vfExec st'))" by blast
  show ?case
  proof (intro exI [of _ "(opcode, v) # is"] conjI)
    show "decode pc = Some ((opcode, v) # is)" using Op.hyps 2(1) by simp
    show "list_all instr_allowed ((opcode, v) # is)" using 2(2) exec_instr_allowed [OF 1] by simp
    show "st_nOpCount st + non_push_ops ((opcode, v) # is) \<le> st_nOpCount st'"
      using 2(3) exec_instr_count(1) [OF 1] by (auto simp: non_push_ops_def split: if_splits)
    show "cond_depth ((opcode, v) # is) (length (st_vfExec st)) = Some (length (st_vfExec st'))"
      using 2(4) exec_instr_cond [OF 1] by simp
  qed
qed

lemma eval_loop_nOpCount:
  "eval_loop E pc st = Inr st' \<Longrightarrow> st_nOpCount st \<le> MAX_OPS_PER_SCRIPT \<Longrightarrow> st_nOpCount st' \<le> MAX_OPS_PER_SCRIPT"
  by (induction pc arbitrary: st rule: script_induct) (auto simp: sbind_Inr_iff dest: exec_instr_count(2))

definition init_state :: "stack \<Rightarrow> script \<Rightarrow> eval_state" where
  "init_state stk s =
     \<lparr>st_stack = stk, st_altstack = [], st_vfExec = [], st_nOpCount = 0, st_pbegincodehash = s\<rparr>"

lemma init_state_simps [simp]:
  "st_stack (init_state stk s) = stk" "st_altstack (init_state stk s) = []"
  "st_vfExec (init_state stk s) = []" "st_nOpCount (init_state stk s) = 0"
  "st_pbegincodehash (init_state stk s) = s"
  by (simp_all add: init_state_def)

lemma EvalScript_Inr:
  "EvalScript E stk s = Inr stk' \<longleftrightarrow> length s \<le> MAX_SCRIPT_SIZE \<and>
     (\<exists>st. eval_loop E s (init_state stk s) = Inr st \<and> st_vfExec st = [] \<and> st_stack st = stk')"
  unfolding EvalScript_def init_state_def [symmetric] by (auto split: sum.splits)

text \<open>
  What a successful evaluation shows of the script, whatever branch was executed and whatever the checker
  answers: it has at most 10000 bytes, the reader reaches its end, every push is within 520 bytes, no
  disabled or reserved-in-any-branch opcode occurs anywhere, at most 201 operations are counted and the
  conditionals are balanced.
\<close>

theorem EvalScript_only_valid_scripts:
  assumes "EvalScript E stk s = Inr stk'"
  shows "length s \<le> MAX_SCRIPT_SIZE \<and> (\<exists>is. decode s = Some is \<and> list_all instr_allowed is \<and>
    non_push_ops is \<le> MAX_OPS_PER_SCRIPT \<and> cond_depth is 0 = Some 0)"
proof -
  from assms obtain st where "length s \<le> MAX_SCRIPT_SIZE" and
    st: "eval_loop E s (init_state stk s) = Inr st" "st_vfExec st = []"
    by (auto simp: EvalScript_Inr)
  with eval_loop_static [OF st(1)] eval_loop_nOpCount [OF st(1)] show ?thesis by fastforce
qed

section \<open>Stack limits\<close>

text \<open>
  \<open>hash_sizes\<close> is what the code relies on of the hash objects: \<^verbatim>\<open>Finalize\<close> fills a buffer of the
  \<^verbatim>\<open>OUTPUT_SIZE\<close> of its class.
\<close>

definition hash_sizes :: "crypto \<Rightarrow> bool" where
  "hash_sizes C \<longleftrightarrow> (\<forall>m. length (RIPEMD160 C m) = 20 \<and> length (SHA1 C m) = 20 \<and> length (SHA256 C m) = 32)"

definition small :: "stack \<Rightarrow> bool" where
  "small stk \<longleftrightarrow> (\<forall>x \<in> set stk. length x \<le> MAX_SCRIPT_ELEMENT_SIZE)"

lemma small_simps [simp]:
  "small []" "small (x # s) \<longleftrightarrow> length x \<le> MAX_SCRIPT_ELEMENT_SIZE \<and> small s"
  by (auto simp: small_def)

lemma small_subset: "set s \<subseteq> set t \<Longrightarrow> small t \<Longrightarrow> small s"
  by (auto simp: small_def)

lemma script_num_range:
  assumes "script_num E 4 vch = Inr n"
  shows "\<bar>n\<bar> < 2 ^ 31"
proof -
  from assms have n: "n = set_vch vch" "length vch \<le> 4"
    by (auto simp: script_num_def CScriptNum_eq split: sum.splits if_splits)
  show ?thesis
  proof (cases vch rule: rev_cases)
    case (snoc b c)
    have "magnitude b c < 2 ^ (8 * length b + 7)" by (rule magnitude_less)
    also have "\<dots> \<le> 2 ^ 31" using n(2) snoc by (intro power_increasing) auto
    finally show ?thesis using n snoc set_vch_snoc [of b c] by auto
  qed (simp add: n)
qed

lemma length_num:
  assumes "\<bar>n\<bar> < 2 ^ 39" shows "length (scriptnum_serialize n) \<le> MAX_SCRIPT_ELEMENT_SIZE"
  using assms length_scriptnum_serialize_iff [of n 5] by (simp add: MAX_SCRIPT_ELEMENT_SIZE_def)

lemma op_constant_small: "small s \<Longrightarrow> small (op_constant opcode s)"
proof -
  assume "small s"
  moreover have "\<bar>uint opcode - 80\<bar> < 256" using uint_byte_less [of opcode] by linarith
  ultimately show ?thesis by (simp add: op_constant_def length_num)
qed

lemma unary_num_bound: "\<bar>n\<bar> < 2 ^ 31 \<Longrightarrow> \<bar>unary_num opcode n\<bar> < 2 ^ 39"
  by (auto simp: unary_num_def of_bool_num_def abs_if)

lemma binary_num_bound: "\<bar>m\<bar> < 2 ^ 31 \<Longrightarrow> \<bar>n\<bar> < 2 ^ 31 \<Longrightarrow> \<bar>binary_num opcode m n\<bar> < 2 ^ 39"
  by (auto simp: binary_num_def of_bool_num_def abs_if split: if_splits)

lemma op_rearrange_small:
  assumes "small s"
  shows "op_2drop s = Inr s' \<Longrightarrow> small s'" "op_2dup s = Inr s' \<Longrightarrow> small s'" "op_3dup s = Inr s' \<Longrightarrow> small s'"
    "op_2over s = Inr s' \<Longrightarrow> small s'" "op_2rot s = Inr s' \<Longrightarrow> small s'" "op_2swap s = Inr s' \<Longrightarrow> small s'"
    "op_ifdup s = Inr s' \<Longrightarrow> small s'" "op_drop s = Inr s' \<Longrightarrow> small s'" "op_dup s = Inr s' \<Longrightarrow> small s'"
    "op_nip s = Inr s' \<Longrightarrow> small s'" "op_over s = Inr s' \<Longrightarrow> small s'" "op_rot s = Inr s' \<Longrightarrow> small s'"
    "op_swap s = Inr s' \<Longrightarrow> small s'" "op_tuck s = Inr s' \<Longrightarrow> small s'" "op_verify s = Inr s' \<Longrightarrow> small s'"
  using assms
  by (auto elim!: op_2drop.elims op_2dup.elims op_3dup.elims op_2over.elims op_2rot.elims op_2swap.elims
    op_ifdup.elims op_drop.elims op_dup.elims op_nip.elims op_over.elims op_rot.elims op_swap.elims
    op_tuck.elims simp: op_verify_def split: list.splits if_splits)

lemma bool_small [simp]:
  "length vchTrue \<le> MAX_SCRIPT_ELEMENT_SIZE" "length vchFalse \<le> MAX_SCRIPT_ELEMENT_SIZE"
  "length (if b then vchTrue else vchFalse) \<le> MAX_SCRIPT_ELEMENT_SIZE"
  by (simp_all add: vchTrue_def vchFalse_def MAX_SCRIPT_ELEMENT_SIZE_def)

lemma op_num_small:
  assumes "small s"
  shows "op_unary E opcode s = Inr s' \<Longrightarrow> small s'" "op_binary E opcode s = Inr s' \<Longrightarrow> small s'"
    "op_within E s = Inr s' \<Longrightarrow> small s'" "op_equal opcode s = Inr s' \<Longrightarrow> small s'"
    "op_size s = Inr s' \<Longrightarrow> small s'"
proof -
  show "op_unary E opcode s = Inr s' \<Longrightarrow> small s'"
    using assms by (cases s) (auto simp: sbind_Inr_iff nDefaultMaxNumSize_def
      dest!: script_num_range unary_num_bound [of _ opcode] length_num)
  show "op_binary E opcode s = Inr s' \<Longrightarrow> small s'"
    using assms by (auto simp: Inr_sbind_iff sbind_Inr_iff nDefaultMaxNumSize_def Let_def elim!: op_binary.elims
      dest!: script_num_range intro!: length_num binary_num_bound split: if_splits)
  show "op_within E s = Inr s' \<Longrightarrow> small s'"
    using assms by (auto simp: Inr_sbind_iff sbind_Inr_iff simp del: if_split elim!: op_within.elims)
  show "op_equal opcode s = Inr s' \<Longrightarrow> small s'"
    using assms by (auto elim!: op_equal.elims split: if_splits)
  show "op_size s = Inr s' \<Longrightarrow> small s'"
    using assms length_num [of "int (length (hd s))"]
    by (cases s) (auto simp: MAX_SCRIPT_ELEMENT_SIZE_def)
qed

lemma op_hash_small: "hash_sizes (env_crypto E) \<Longrightarrow> small s \<Longrightarrow> op_hash E opcode s = Inr s' \<Longrightarrow> small s'"
  by (cases s) (auto simp: op_hash_of_def hash_sizes_def Hash160_def Hash256_def MAX_SCRIPT_ELEMENT_SIZE_def)

lemma op_pick_roll_small: "small s \<Longrightarrow> op_pick_roll E opcode s = Inr s' \<Longrightarrow> small s'"
proof (rule small_subset [of s' s])
  assume "op_pick_roll E opcode s = Inr s'"
  then obtain m where m: "\<not> getint m < 0" "\<not> getint m \<ge> int (length (tl s))" and s': "s' = tl s ! nat (getint m) #
      (if opcode = OP_ROLL then take (nat (getint m)) (tl s) @ drop (Suc (nat (getint m))) (tl s) else tl s)"
    unfolding op_pick_roll_def Let_def guard_Inr sbind_Inr_iff by blast
  from m have "nat (getint m) < length (tl s)" by linarith
  then have "set s' \<subseteq> set (tl s)" unfolding s' by (auto dest: in_set_takeD in_set_dropD)
  then show "set s' \<subseteq> set s" by (cases s) auto
qed

lemma op_stack_small:
  assumes "op_stack E opcode s = Some (Inr s')" "small s" "hash_sizes (env_crypto E)" "length s' \<le> MAX_STACK_SIZE"
  shows "small s'"
proof -
  have depth: "op_depth s = Inr s' \<Longrightarrow> small s'"
    using assms(2,4) length_num [of "int (length s)"] by (auto simp: op_depth_def MAX_STACK_SIZE_def)
  show ?thesis
    using assms(1) unfolding op_stack_def
    by (elim if_eqE) (simp_all only: option.inject option.distinct sum.inject, (metis op_constant_small op_rearrange_small
      op_num_small op_hash_small op_pick_roll_small depth assms(2,3))+)
qed

lemma multisig_cleanup_drop:
  "multisig_cleanup E f n k stk = Inr stk' \<Longrightarrow> stk' = drop n stk \<and> n \<le> length stk"
  by (induction E f n k stk rule: multisig_cleanup.induct) (auto split: if_splits)

lemma multisig_finish_set:
  "multisig_finish E opcode f stk = Inr stk' \<Longrightarrow>
   \<exists>b t. set t \<subseteq> set stk \<and> (stk' = t \<or> stk' = (if b then vchTrue else vchFalse) # t)"
  by (cases stk) (auto simp: multisig_finish_def split: if_splits)

lemma op_checkmultisig_small:
  assumes "op_checkmultisig E opcode p n stk = Inr (stk', n')" "small stk"
  shows "small stk'"
proof -
  obtain f k m stk1 where 1: "multisig_cleanup E f k m stk = Inr stk1" "multisig_finish E opcode f stk1 = Inr stk'"
    using assms(1) unfolding op_checkmultisig_def Let_def guard_Inr sbind_Inr_iff by blast
  then have "small stk1" using assms(2) multisig_cleanup_drop [OF 1(1)] small_subset [OF set_drop_subset]
    by blast
  then show ?thesis using multisig_finish_set [OF 1(2)] bool_small small_subset [of _ stk1] by auto
qed

lemma op_checksig_small:
  assumes "op_checksig E opcode p stk = Inr stk'" "small stk"
  shows "small stk'"
proof -
  obtain a b s where "stk = a # b # s" using assms(1) by (auto elim: op_checksig.elims)
  with assms show ?thesis
    by (auto simp: Let_def sbind_Inr_iff guard_Inr simp del: if_split elim!: if_eqE)
qed

definition wf_state :: "eval_state \<Rightarrow> bool" where
  "wf_state st \<longleftrightarrow> small (st_stack st) \<and> small (st_altstack st)"

lemma op_switch_wf:
  assumes "op_switch E f opcode pc st = Inr st'" "wf_state st" "hash_sizes (env_crypto E)"
    "length (st_stack st') \<le> MAX_STACK_SIZE"
  shows "wf_state st'"
proof (cases "op_stack E opcode (st_stack st)")
  case (Some r)
  with assms(1) obtain s where "r = Inr s" "st' = st \<lparr>st_stack := s\<rparr>"
    by (auto simp: op_switch_def sbind_Inr_iff)
  with Some assms show ?thesis using op_stack_small by (auto simp: wf_state_def)
next
  case None
  show ?thesis
    using assms(1,2) unfolding op_switch_def None option.case
    by (elim if_eqE) (auto simp: sbind_Inr_iff wf_state_def op_if_def op_toaltstack_def op_fromaltstack_def
      dest: op_checksig_small op_checkmultisig_small split: if_splits list.splits)
qed

lemma exec_instr_wf:
  assumes "exec_instr E opcode v pc st = Inr st'" "wf_state st" "hash_sizes (env_crypto E)"
  shows "wf_state st' \<and> length (st_stack st') + length (st_altstack st') \<le> MAX_STACK_SIZE"
proof -
  have lim: "length v \<le> MAX_SCRIPT_ELEMENT_SIZE"
    "length (st_stack st') + length (st_altstack st') \<le> MAX_STACK_SIZE"
    using assms(1) by (simp_all add: exec_instr_Inr)
  from assms(1) have "wf_state st'"
  proof (cases rule: exec_instrE)
    case (switch f)
    then show ?thesis using assms lim op_switch_wf by (simp add: wf_state_def)
  qed (use assms(2) lim in \<open>auto simp: wf_state_def\<close>)
  with lim show ?thesis by simp
qed

lemma eval_loop_wf:
  assumes "eval_loop E pc st = Inr st'" "wf_state st" "hash_sizes (env_crypto E)"
  shows "wf_state st' \<and> (pc \<noteq> [] \<longrightarrow> length (st_stack st') + length (st_altstack st') \<le> MAX_STACK_SIZE)"
  using assms(1,2)
proof (induction pc arbitrary: st rule: script_induct)
  case (Op pc pc' opcode v)
  then obtain st1 where 1: "exec_instr E opcode v pc' st = Inr st1" and 2: "eval_loop E pc' st1 = Inr st'"
    by (auto simp: sbind_Inr_iff)
  from exec_instr_wf [OF 1 Op.prems(2) assms(3)] Op.IH [OF 2] 2 show ?case by (cases "pc' = []") auto
qed auto

section \<open>Properties\<close>

text \<open>A checker that accepts every signature, and hash functions of the right sizes, for the witnesses.\<close>

definition ex_crypto :: crypto where
  "ex_crypto = \<lparr>RIPEMD160 = (\<lambda>m. replicate 20 7), SHA1 = (\<lambda>m. replicate 20 8), SHA256 = (\<lambda>m. replicate 32 9),
     CheckLowS = (\<lambda>_. True)\<rparr>"

definition ex_checker :: checker where
  "ex_checker = \<lparr>CheckSig = (\<lambda>_ _ _ _. True), CheckLockTime = (\<lambda>_. True), CheckSequence = (\<lambda>_. True)\<rparr>"

abbreviation ex_env :: eval_env where
  "ex_env \<equiv> mk_env 0 SIGVERSION_BASE ex_crypto ex_checker"

lemma EvalScript_ex: "EvalScript ex_env [] [1, 0x2a] = Inr [[0x2a]]"
  by (simp add: EvalScript_def MAX_SCRIPT_SIZE_def eval_loop.simps GetOp2.simps GetOp_size_def exec_instr_def Let_def
    fExec_of_def op_disabled_def MAX_SCRIPT_ELEMENT_SIZE_def MAX_STACK_SIZE_def mk_env_def flag_def)

theorem EvalScript_only_valid_scripts_witness:
  "EvalScript ex_env [] [1, 0x2a] = Inr [[0x2a]] \<and> (\<exists>is. decode [1, 0x2a] = Some is \<and> non_push_ops is \<le> 201)"
  using EvalScript_only_valid_scripts [OF EvalScript_ex] EvalScript_ex by (auto simp: MAX_OPS_PER_SCRIPT_def)

text \<open>
  C25. Resource limits. When the evaluation of a script succeeds, the script has at most 10000 bytes, it decodes to
  instructions whose pushes are within 520 bytes and of which none is disabled, and at most 201 of them are counted as operations. If
  the elements of the initial stack have at most 520 bytes, so have those of the stack that is left, given that the hash
  functions fill buffers of their sizes. That stack has at most 1000 elements, unless the script is empty: then no instruction
  runs, the size is never tested, and the stack is the initial one.
\<close>

theorem EvalScript_resource_limits:
  assumes "EvalScript E stk s = Inr stk'" "small stk" "hash_sizes (env_crypto E)"
  shows "length s \<le> MAX_SCRIPT_SIZE \<and>
    (\<exists>is. decode s = Some is \<and> list_all instr_allowed is \<and> non_push_ops is \<le> MAX_OPS_PER_SCRIPT) \<and>
    small stk' \<and> (if s = [] then stk' = stk else length stk' \<le> MAX_STACK_SIZE)"
proof -
  from assms(1) obtain st where st: "eval_loop E s (init_state stk s) = Inr st" "st_stack st = stk'"
    by (auto simp: EvalScript_Inr)
  have "wf_state (init_state stk s)" using assms(2) by (simp add: wf_state_def)
  from eval_loop_wf [OF st(1) this assms(3)] st assms(2) have "small stk' \<and> (if s = [] then stk' = stk else length stk' \<le> MAX_STACK_SIZE)"
    by (auto simp: wf_state_def)
  with EvalScript_only_valid_scripts [OF assms(1)] show ?thesis by blast
qed

theorem EvalScript_resource_limits_witness:
  "EvalScript ex_env [] [1, 0x2a] = Inr [[0x2a]] \<and> small [] \<and> hash_sizes (env_crypto ex_env) \<and>
   length [1, 0x2a :: byte] \<le> MAX_SCRIPT_SIZE \<and> (\<exists>is. decode [1, 0x2a] = Some is \<and> non_push_ops is \<le> MAX_OPS_PER_SCRIPT) \<and>
   small [[0x2a]] \<and> length [[0x2a :: byte]] \<le> MAX_STACK_SIZE"
proof -
  have "hash_sizes (env_crypto ex_env)" "small []" by (simp_all add: hash_sizes_def mk_env_def ex_crypto_def)
  with EvalScript_resource_limits [OF EvalScript_ex] EvalScript_ex show ?thesis by auto
qed

end
