(* ===== verification/ScriptExec.thy ===== *)
theory ScriptExec
  imports Interpreter
begin

text \<open>
  What the interpreter computes on the script forms the chain uses: multi-signature matching,
  pay-to-public-key-hash outputs with and without an asset suffix, pay-to-script-hash, push-only
  signature scripts, and the shape of the signatures that the encoding check accepts.
\<close>

section \<open>Multi-signature matching\<close>

text \<open>
  \<open>sig_matching\<close>: the signatures are verified, in order, by a subsequence of the keys. The loop is
  greedy and stops early; it finds a matching exactly when there is one.
\<close>

definition sig_matching :: "(valtype \<Rightarrow> valtype \<Rightarrow> bool) \<Rightarrow> valtype list \<Rightarrow> valtype list \<Rightarrow> bool" where
  "sig_matching ok sigs keys \<longleftrightarrow> (\<exists>ks. subseq ks keys \<and> list_all2 ok sigs ks)"

lemma sig_matching_Nil [simp]: "sig_matching ok [] keys"
  by (auto simp: sig_matching_def)

lemma sig_matching_length: "sig_matching ok sigs keys \<Longrightarrow> length sigs \<le> length keys"
  by (auto simp: sig_matching_def dest!: list_all2_lengthD list_emb_length)

lemma subseq_Cons_tail: "subseq (a # as) (b # bs) \<Longrightarrow> subseq as bs"
  by (auto simp: subseq_Cons2_iff split: if_splits dest: subseq_Cons')

lemma sig_matching_Cons_ok:
  assumes "ok s k" shows "sig_matching ok (s # sigs) (k # keys) \<longleftrightarrow> sig_matching ok sigs keys"
proof
  assume "sig_matching ok (s # sigs) (k # keys)"
  then show "sig_matching ok sigs keys"
    by (auto simp: sig_matching_def list_all2_Cons1 dest: subseq_Cons_tail)
next
  assume "sig_matching ok sigs keys"
  then obtain ks where "subseq ks keys" "list_all2 ok sigs ks" by (auto simp: sig_matching_def)
  then show "sig_matching ok (s # sigs) (k # keys)"
    using assms unfolding sig_matching_def by (intro exI [of _ "k # ks"]) simp
qed

lemma sig_matching_Cons_not_ok:
  assumes "\<not> ok s k" shows "sig_matching ok (s # sigs) (k # keys) \<longleftrightarrow> sig_matching ok (s # sigs) keys"
proof -
  have "subseq (k' # ks) (k # keys) \<longleftrightarrow> subseq (k' # ks) keys" if "ok s k'" for k' ks
    using that assms by (auto simp: subseq_Cons2_iff)
  then show ?thesis
    by (auto simp: sig_matching_def list_all2_Cons1)
qed

text \<open>
  C27. \<^verbatim>\<open>OP_CHECKMULTISIG\<close> against a reference definition. When the encodings pass, the greedy loop with its
  early exit succeeds exactly if there is an order-preserving assignment of the signatures to
  distinct keys under which every signature verifies.
\<close>

theorem multisig_greedy_complete:
  assumes "\<forall>s \<in> set sigs. \<forall>k \<in> set keys. check_encodings E s k = Inr ()"
  shows "multisig_loop E code sigs keys =
    Inr (sig_matching (\<lambda>s k. CheckSig (env_checker E) s k code (env_sigversion E)) sigs keys)"
  using assms
proof (induction E code sigs keys rule: multisig_loop.induct)
  case (2 E code s sigs)
  then show ?case using sig_matching_length by fastforce
next
  case (3 E code s sigs k keys)
  let ?ok = "\<lambda>s k. CheckSig (env_checker E) s k code (env_sigversion E)"
  show ?case
  proof (cases "?ok s k")
    case True
    then show ?thesis
      using 3 sig_matching_length [of ?ok sigs keys]
      by (auto simp: sig_matching_Cons_ok [of ?ok, OF True])
  next
    case False
    then show ?thesis
      using 3 sig_matching_length [of ?ok "s # sigs" keys]
      by (auto simp: sig_matching_Cons_not_ok [of ?ok, OF False])
  qed
qed simp

section \<open>Pay to public key hash, with an optional asset suffix\<close>

definition p2pkh_script :: "bytes \<Rightarrow> script" where
  "p2pkh_script h = [OP_DUP, OP_HASH160, 0x14] @ h @ [OP_EQUALVERIFY, OP_CHECKSIG]"

text \<open>The suffix that carries asset data: \<^verbatim>\<open>OP_BLKR_ASSET\<close> and a payload within the push limit.\<close>

definition asset_suffix :: "bytes \<Rightarrow> bool" where
  "asset_suffix t \<longleftrightarrow> t = [] \<or> (hd t = OP_BLKR_ASSET \<and> length t \<le> MAX_SCRIPT_ELEMENT_SIZE + 1)"

lemma p2wpkh_script_eq: "length h = 20 \<Longrightarrow> p2wpkh_script h = p2pkh_script h"
  by (simp add: p2wpkh_script_def p2pkh_script_def push_opcode_def push_data_def)

lemma exec_push:
  assumes "fExec_of (st_vfExec st)" "opcode \<le> OP_PUSHDATA4" "length v \<le> MAX_SCRIPT_ELEMENT_SIZE"
    "CheckMinimalPush v opcode" "length (st_stack st) + length (st_altstack st) < MAX_STACK_SIZE"
  shows "exec_instr E opcode v pc st = Inr (st \<lparr>st_stack := v # st_stack st\<rparr>)"
proof -
  have "\<not> op_disabled opcode" using assms(2) by (auto simp: op_disabled_def)
  moreover have "\<not> OP_16 < opcode" using order_trans [OF assms(2), of OP_16] by (simp add: not_less)
  ultimately show ?thesis using assms by (simp add: exec_instr_Inr)
qed

lemma exec_op:
  assumes "fExec_of (st_vfExec st)" "opcode > OP_16" "\<not> op_disabled opcode"
    "st_nOpCount st < MAX_OPS_PER_SCRIPT"
  shows "exec_instr E opcode [] pc st =
    sbind (op_switch E True opcode pc (st \<lparr>st_nOpCount := st_nOpCount st + 1\<rparr>))
      (\<lambda>st'. if length (st_stack st') + length (st_altstack st') > MAX_STACK_SIZE
             then Inl SCRIPT_ERR_STACK_SIZE else Inr st')"
proof -
  have "\<not> opcode \<le> OP_PUSHDATA4" using order.strict_trans2 [OF assms(2), of OP_PUSHDATA4] by auto
  then show ?thesis using assms by (simp add: exec_instr_def Let_def)
qed

lemma fExec_of_Nil [simp]: "fExec_of []"
  by (simp add: fExec_of_def)

lemma exec_asset:
  assumes "fExec_of (st_vfExec st)" "length v \<le> MAX_SCRIPT_ELEMENT_SIZE" "st_nOpCount st < MAX_OPS_PER_SCRIPT"
    "length (st_stack st) + length (st_altstack st) \<le> MAX_STACK_SIZE"
  shows "exec_instr E OP_BLKR_ASSET v pc st = Inr (st \<lparr>st_nOpCount := st_nOpCount st + 1\<rparr>)"
  using assms by (simp add: exec_instr_def Let_def op_disabled_def op_switch_def op_stack_None)

lemma eval_asset_suffix:
  assumes "asset_suffix t" "fExec_of (st_vfExec st)" "st_nOpCount st < MAX_OPS_PER_SCRIPT"
    "length (st_stack st) + length (st_altstack st) \<le> MAX_STACK_SIZE"
  shows "\<exists>st'. eval_loop E t st = Inr st' \<and> st_stack st' = st_stack st \<and> st_vfExec st' = st_vfExec st"
proof (cases t)
  case (Cons a v)
  with assms exec_asset [of st v E "[]"] show ?thesis by (simp add: asset_suffix_def)
qed simp

lemma GetOp2_p2pkh:
  "GetOp2 (OP_DUP # q) = (True, q, OP_DUP, [])"
  "GetOp2 (OP_HASH160 # q) = (True, q, OP_HASH160, [])"
  "GetOp2 (OP_EQUALVERIFY # q) = (True, q, OP_EQUALVERIFY, [])"
  "GetOp2 (OP_CHECKSIG # q) = (True, q, OP_CHECKSIG, [])"
  "length h = 20 \<Longrightarrow> GetOp2 (0x14 # h @ q) = (True, q, 0x14, h)"
  by (simp_all add: GetOp_size_def)

lemma op_p2pkh:
  "op_stack E OP_DUP stk = Some (op_dup stk)"
  "op_stack E OP_HASH160 stk = Some (op_hash E OP_HASH160 stk)"
  "op_stack E OP_EQUALVERIFY stk = Some (op_equal OP_EQUALVERIFY stk)"
  by (simp_all add: op_stack_def)

lemma op_checksig_length:
  "op_checksig E opcode p (a # b # s) = Inr s' \<Longrightarrow> length s' \<le> Suc (length s)"
  by (auto simp: Let_def sbind_Inr_iff split: if_splits)

definition plain_state :: "script \<Rightarrow> stack \<Rightarrow> nat \<Rightarrow> eval_state" where
  "plain_state p stk n =
     \<lparr>st_stack = stk, st_altstack = [], st_vfExec = [], st_nOpCount = n, st_pbegincodehash = p\<rparr>"

lemma eval_loop_p2pkh:
  assumes h: "length h = 20" and rest: "length rest + 4 \<le> MAX_STACK_SIZE"
  shows "eval_loop E (p2pkh_script h @ t) (plain_state p (vchPubKey # vchSig # rest) 0) =
    (if Hash160 (env_crypto E) vchPubKey \<noteq> h then Inl SCRIPT_ERR_EQUALVERIFY
     else sbind (op_checksig E OP_CHECKSIG p (vchPubKey # vchSig # rest)) (\<lambda>stk. eval_loop E t (plain_state p stk 4)))"
proof -
  have lim: "n < 5 \<Longrightarrow> n < MAX_OPS_PER_SCRIPT" for n by (simp add: MAX_OPS_PER_SCRIPT_def)
  have min: "CheckMinimalPush h 0x14" "length h \<le> MAX_SCRIPT_ELEMENT_SIZE"
    using h by (simp_all add: CheckMinimalPush_def MAX_SCRIPT_ELEMENT_SIZE_def)
  have four: "Suc (Suc (Suc (Suc 0))) = 4" by simp
  note step = four exec_op exec_push op_switch_def op_p2pkh op_stack_None op_disabled_def lim
    plain_state_def p2pkh_script_def GetOp2_p2pkh op_hash_of_def
  show ?thesis
  proof (cases "op_checksig E OP_CHECKSIG p (vchPubKey # vchSig # rest)")
    case (Inl e)
    then show ?thesis using h rest min by (simp add: step del: GetOp2.simps op_checksig.simps)
  next
    case (Inr stk)
    then have "length stk \<le> MAX_STACK_SIZE" using rest op_checksig_length [OF Inr] by simp
    then show ?thesis
      using h rest min Inr by (simp add: step del: GetOp2.simps op_checksig.simps)
  qed
qed

lemma EvalScript_p2pkh:
  assumes h: "length h = 20" and t: "asset_suffix t" and rest: "length rest + 4 \<le> MAX_STACK_SIZE"
  shows "EvalScript E (vchPubKey # vchSig # rest) (p2pkh_script h @ t) =
    (if Hash160 (env_crypto E) vchPubKey \<noteq> h then Inl SCRIPT_ERR_EQUALVERIFY
     else op_checksig E OP_CHECKSIG (p2pkh_script h @ t) (vchPubKey # vchSig # rest))"
proof -
  let ?p = "p2pkh_script h @ t"
  have size: "length ?p \<le> MAX_SCRIPT_SIZE"
    using h t by (auto simp: p2pkh_script_def asset_suffix_def MAX_SCRIPT_SIZE_def MAX_SCRIPT_ELEMENT_SIZE_def)
  have "\<exists>st. eval_loop E t (plain_state ?p stk 4) = Inr st \<and> st_stack st = stk \<and> st_vfExec st = []"
    if "op_checksig E OP_CHECKSIG ?p (vchPubKey # vchSig # rest) = Inr stk" for stk
    using eval_asset_suffix [OF t, of "plain_state ?p stk 4" E] op_checksig_length [OF that] rest
    by (auto simp: plain_state_def MAX_OPS_PER_SCRIPT_def)
  then show ?thesis
    unfolding EvalScript_def plain_state_def [symmetric] eval_loop_p2pkh [OF h rest]
    using size by (cases "op_checksig E OP_CHECKSIG ?p (vchPubKey # vchSig # rest)") fastforce+
qed

section \<open>Signature scripts that push\<close>

definition push_all :: "valtype list \<Rightarrow> script" where
  "push_all vs = concat (map (push_data []) vs)"

text \<open>The data for which \<^verbatim>\<open>CheckMinimalPush\<close> wants one of \<^verbatim>\<open>OP_1 .. OP_16\<close>, \<^verbatim>\<open>OP_1NEGATE\<close>.\<close>

definition has_short_opcode :: "valtype \<Rightarrow> bool" where
  "has_short_opcode v \<longleftrightarrow> length v = 1 \<and> (1 \<le> v ! 0 \<and> v ! 0 \<le> 16 \<or> v ! 0 = 0x81)"

lemma GetOp2_push_minimal:
  assumes "length v \<le> MAX_SCRIPT_ELEMENT_SIZE" "\<not> has_short_opcode v"
  obtains opcode where "GetOp2 (push_data [] v @ q) = (True, q, opcode, v)" "opcode \<le> OP_PUSHDATA4"
    "CheckMinimalPush v opcode"
proof -
  have len: "length v \<le> 520" using assms(1) by (simp add: MAX_SCRIPT_ELEMENT_SIZE_def)
  consider "length v < 76" | "76 \<le> length v" "length v \<le> 0xff" | "0xff < length v" by linarith
  then show thesis
  proof cases
    case 1
    then have u: "unat (of_nat (length v) :: byte) = length v" by (simp add: unat_of_nat)
    have "CheckMinimalPush v (of_nat (length v))"
      using 1 u assms(2) by (auto simp: CheckMinimalPush_def has_short_opcode_def)
    moreover have "(of_nat (length v) :: byte) \<le> OP_PUSHDATA4" using 1 u by (simp add: word_le_nat_alt)
    ultimately show thesis
      using that [of "of_nat (length v)"] 1 u
      by (simp add: push_data_def GetOp_size_def word_less_nat_alt word_le_nat_alt)
  next
    case 2
    then have "unat (of_nat (length v) :: byte) = length v" by (simp add: unat_of_nat)
    moreover have "CheckMinimalPush v OP_PUSHDATA1" using 2 by (auto simp: CheckMinimalPush_def)
    ultimately show thesis
      using 2 that [of OP_PUSHDATA1] by (simp add: push_data_def GetOp_size_def read_size_def)
  next
    case 3
    with len have "CheckMinimalPush v OP_PUSHDATA2" by (auto simp: CheckMinimalPush_def)
    with 3 len show thesis
      using that [of OP_PUSHDATA2]
      by (simp add: push_data_def GetOp_size_def read_size_def le_nat_le_bytes)
  qed
qed

lemma push_data_nonempty [simp]: "push_data [] v \<noteq> []"
  by (simp add: push_data_def)

lemma push_all_simps [simp]:
  "push_all [] = []" "push_all (v # vs) = push_data [] v @ push_all vs"
  by (simp_all add: push_all_def)

lemma eval_loop_push_all:
  assumes "\<forall>v \<in> set vs. length v \<le> MAX_SCRIPT_ELEMENT_SIZE \<and> \<not> has_short_opcode v"
    and "length vs + length stk \<le> MAX_STACK_SIZE"
  shows "eval_loop E (push_all vs) (plain_state p stk n) = Inr (plain_state p (rev vs @ stk) n)"
  using assms
proof (induction vs arbitrary: stk)
  case (Cons v vs)
  obtain opcode where g: "GetOp2 (push_data [] v @ push_all vs) = (True, push_all vs, opcode, v)"
    "opcode \<le> OP_PUSHDATA4" "CheckMinimalPush v opcode"
    using Cons.prems(1) by (auto intro: GetOp2_push_minimal [of v "push_all vs"])
  have "exec_instr E opcode v (push_all vs) (plain_state p stk n) = Inr (plain_state p (v # stk) n)"
    using exec_push [OF _ g(2) _ g(3)] Cons.prems by (auto simp: plain_state_def)
  with g(1) Cons show ?case by simp
qed simp

lemma EvalScript_push_all:
  assumes "\<forall>v \<in> set vs. length v \<le> MAX_SCRIPT_ELEMENT_SIZE \<and> \<not> has_short_opcode v"
    and "length vs + length stk \<le> MAX_STACK_SIZE" and "length (push_all vs) \<le> MAX_SCRIPT_SIZE"
  shows "EvalScript E stk (push_all vs) = Inr (rev vs @ stk)"
  unfolding EvalScript_def plain_state_def [symmetric] eval_loop_push_all [OF assms(1,2)]
  using assms(3) by (simp add: plain_state_def)

lemma IsPushOnly_push_all:
  "\<forall>v \<in> set vs. length v \<le> MAX_SCRIPT_ELEMENT_SIZE \<Longrightarrow> IsPushOnly (push_all vs)"
  by (induction vs) (auto simp: MAX_SCRIPT_ELEMENT_SIZE_def intro!: IsPushOnly_push_data)

lemma length_push_data: "length (push_data [] v) \<le> length v + 5"
  by (simp add: push_data_def)

section \<open>Spending\<close>

text \<open>The combinations of flags that the assertions of \<^verbatim>\<open>VerifyScript\<close> require.\<close>

definition flags_ok :: "u32 \<Rightarrow> bool" where
  "flags_ok flags \<longleftrightarrow>
     (flag flags SCRIPT_VERIFY_WITNESS \<longrightarrow> flag flags SCRIPT_VERIFY_P2SH) \<and>
     (flag flags SCRIPT_VERIFY_CLEANSTACK \<longrightarrow> flag flags SCRIPT_VERIFY_P2SH \<and> flag flags SCRIPT_VERIFY_WITNESS)"

lemma p2pkh_not_special:
  "length h = 20 \<Longrightarrow> IsWitnessProgram (p2pkh_script h @ t) = None"
  "length h = 20 \<Longrightarrow> \<not> IsPayToScriptHash (p2pkh_script h @ t)"
  by (auto simp: IsWitnessProgram_def IsPayToScriptHash_def p2pkh_script_def)

text \<open>
  C9. Spending a pay-to-public-key-hash output, with or without asset data behind it. \<^verbatim>\<open>VerifyScript\<close> accepts
  the signature and key exactly if the key hashes to the output's hash, both are well encoded under the
  flags, and the signature verifies on the script without the signature. Asset data never changes who can spend.
\<close>

theorem p2pkh_spend:
  assumes "length h = 20" "asset_suffix t" "flags_ok flags"
    and v: "\<forall>v \<in> {vchSig, vchPubKey}. length v \<le> MAX_SCRIPT_ELEMENT_SIZE \<and> \<not> has_short_opcode v"
  shows "VerifyScript (push_all [vchSig, vchPubKey]) (p2pkh_script h @ t) [] flags C K = Some (Inr ()) \<longleftrightarrow>
    Hash160 C vchPubKey = h \<and>
    check_encodings (mk_env flags SIGVERSION_BASE C K) vchSig vchPubKey = Inr () \<and>
    CheckSig K vchSig vchPubKey
      (drop_sig (mk_env flags SIGVERSION_BASE C K) (p2pkh_script h @ t) vchSig) SIGVERSION_BASE"
proof -
  let ?E = "mk_env flags SIGVERSION_BASE C K"
  have len: "length (push_all [vchSig, vchPubKey]) \<le> MAX_SCRIPT_SIZE"
    using v length_push_data [of vchSig] length_push_data [of vchPubKey]
    by (simp add: MAX_SCRIPT_SIZE_def MAX_SCRIPT_ELEMENT_SIZE_def)
  have sig: "EvalScript ?E [] (push_all [vchSig, vchPubKey]) = Inr [vchPubKey, vchSig]"
    using EvalScript_push_all [of "[vchSig, vchPubKey]" "[]" ?E] v len by (simp add: MAX_STACK_SIZE_def)
  have push: "IsPushOnly (push_all [vchSig, vchPubKey])"
    using v by (intro IsPushOnly_push_all) auto
  have pub: "EvalScript ?E [vchPubKey, vchSig] (p2pkh_script h @ t) =
    (if Hash160 C vchPubKey \<noteq> h then Inl SCRIPT_ERR_EQUALVERIFY
     else op_checksig ?E OP_CHECKSIG (p2pkh_script h @ t) [vchPubKey, vchSig])"
    using EvalScript_p2pkh [OF assms(1,2), of "[]" ?E] by (simp add: MAX_STACK_SIZE_def mk_env_def)
  have env [simp]: "env_checker ?E = K" "env_sigversion ?E = SIGVERSION_BASE" by (simp_all add: mk_env_def)
  show ?thesis
    using assms(1,3) push
    by (auto simp: VerifyScript_def sig pub Let_def verify_witness_def p2pkh_not_special verify_tail_def
      eval_true_def flags_ok_def vchTrue_def vchFalse_def sbind_Inr_iff simp del: push_all_simps
      split: sum.splits if_splits)
qed

text \<open>
  Pay to script hash: the assertion \<^verbatim>\<open>!stack.empty()\<close> of \<^verbatim>\<open>VerifyScript\<close> cannot fire, because the
  output script would have failed on the empty stack before.
\<close>

lemma EvalScript_hash160_empty: "EvalScript E [] (OP_HASH160 # q) \<noteq> Inr stk"
proof -
  have "eval_loop E (OP_HASH160 # q) (plain_state p [] 0) = Inl SCRIPT_ERR_INVALID_STACK_OPERATION" for p
    by (simp add: GetOp2_p2pkh exec_op plain_state_def op_switch_def op_p2pkh op_disabled_def
      MAX_OPS_PER_SCRIPT_def del: GetOp2.simps)
  then show ?thesis unfolding EvalScript_def plain_state_def [symmetric] by simp
qed

lemma IsPayToScriptHash_Cons: "IsPayToScriptHash s \<Longrightarrow> \<exists>q. s = OP_HASH160 # q"
  by (cases s) (auto simp: IsPayToScriptHash_def)

lemma verify_p2sh_None: "verify_p2sh scriptSig stk witness flags C K w = None \<Longrightarrow> stk = []"
  by (cases stk) (auto simp: verify_p2sh_def split: if_splits)

lemma verify_tail_None: "flags_ok flags \<Longrightarrow> verify_tail flags witness stk w \<noteq> None"
  by (auto simp: verify_tail_def flags_ok_def)

text \<open>
  No assertion of \<^verbatim>\<open>VerifyScript\<close> fires, on any scripts and witness and with any checker, for the
  flag combinations that the code uses (WITNESS only with P2SH, CLEANSTACK only with both).
\<close>

theorem VerifyScript_no_assert:
  assumes "flags_ok flags"
  shows "VerifyScript scriptSig scriptPubKey witness flags C K \<noteq> None"
proof
  assume n: "VerifyScript scriptSig scriptPubKey witness flags C K = None"
  let ?E = "mk_env flags SIGVERSION_BASE C K"
  from n obtain stackCopy stk w where "IsPayToScriptHash scriptPubKey"
    and "EvalScript ?E stackCopy scriptPubKey = Inr stk"
    and "verify_p2sh scriptSig stackCopy witness flags C K w = None"
    by (auto simp: VerifyScript_def Let_def sbind_Inr_iff verify_tail_None [OF assms]
      simp del: not_None_eq split: sum.splits option.splits if_splits)
  moreover from this have "stackCopy = []" by (auto dest: verify_p2sh_None)
  ultimately show False using IsPayToScriptHash_Cons EvalScript_hash160_empty by metis
qed

definition p2sh_script :: "bytes \<Rightarrow> script" where
  "p2sh_script h = [OP_HASH160, 0x14] @ h @ [OP_EQUAL]"

lemma op_p2sh: "GetOp2 [OP_EQUAL] = (True, [], OP_EQUAL, [])" "op_stack E OP_EQUAL stk = Some (op_equal OP_EQUAL stk)"
  by (simp_all add: op_stack_def)

lemma EvalScript_p2sh:
  assumes h: "length h = 20" and rest: "length rest + 2 \<le> MAX_STACK_SIZE"
  shows "EvalScript E (x # rest) (p2sh_script h) =
    Inr ((if Hash160 (env_crypto E) x = h then vchTrue else vchFalse) # rest)"
proof -
  have lim: "n < 5 \<Longrightarrow> n < MAX_OPS_PER_SCRIPT" for n by (simp add: MAX_OPS_PER_SCRIPT_def)
  have min: "CheckMinimalPush h 0x14" "length h \<le> MAX_SCRIPT_ELEMENT_SIZE"
    using h by (simp_all add: CheckMinimalPush_def MAX_SCRIPT_ELEMENT_SIZE_def)
  have "eval_loop E (p2sh_script h) (plain_state p (x # rest) 0) =
      Inr (plain_state p ((if Hash160 (env_crypto E) x = h then vchTrue else vchFalse) # rest) 2)" for p
    using h rest min
    by (simp add: p2sh_script_def plain_state_def GetOp2_p2pkh exec_op exec_push op_switch_def op_p2pkh op_p2sh
      op_disabled_def op_hash_of_def lim del: GetOp2.simps)
  then show ?thesis
    unfolding EvalScript_def plain_state_def [symmetric]
    using h by (simp add: plain_state_def p2sh_script_def MAX_SCRIPT_SIZE_def)
qed

lemma p2sh_script_special:
  "length h = 20 \<Longrightarrow> IsPayToScriptHash (p2sh_script h)"
  "length h = 20 \<Longrightarrow> IsWitnessProgram (p2sh_script h) = None"
  by (auto simp: IsPayToScriptHash_def IsWitnessProgram_def p2sh_script_def nth_append)

text \<open>
  A pay-to-script-hash output whose redeem script is not itself a witness program is spent exactly
  when the hash matches and the redeem script accepts the remaining pushes.
\<close>

text \<open>
  Spending a pay-to-script-hash output whose redeem script is no witness program: accepted exactly if
  the script hashes to the output's hash and evaluates to true on the pushed arguments (leaving nothing
  else, if CLEANSTACK is set).
\<close>

theorem p2sh_spend:
  assumes h: "length h = 20" and f: "flags_ok flags" "flag flags SCRIPT_VERIFY_P2SH"
    and w: "IsWitnessProgram redeem = None"
    and v: "\<forall>v \<in> set (args @ [redeem]). length v \<le> MAX_SCRIPT_ELEMENT_SIZE \<and> \<not> has_short_opcode v"
    and n: "length args + 2 \<le> MAX_STACK_SIZE" "length (push_all (args @ [redeem])) \<le> MAX_SCRIPT_SIZE"
  shows "VerifyScript (push_all (args @ [redeem])) (p2sh_script h) [] flags C K = Some (Inr ()) \<longleftrightarrow>
    Hash160 C redeem = h \<and>
    (\<exists>x stk. EvalScript (mk_env flags SIGVERSION_BASE C K) (rev args) redeem = Inr (x # stk) \<and> CastToBool x \<and>
      (flag flags SCRIPT_VERIFY_CLEANSTACK \<longrightarrow> stk = []))"
proof -
  let ?E = "mk_env flags SIGVERSION_BASE C K"
  have sig: "EvalScript ?E [] (push_all (args @ [redeem])) = Inr (redeem # rev args)"
    using EvalScript_push_all [OF v, of "[]" ?E] n by simp
  have push: "IsPushOnly (push_all (args @ [redeem]))"
    using v by (intro IsPushOnly_push_all) auto
  have pub: "EvalScript ?E (redeem # rev args) (p2sh_script h) =
    Inr ((if Hash160 C redeem = h then vchTrue else vchFalse) # rev args)"
    using EvalScript_p2sh [OF h, of "rev args" ?E redeem] n by (simp add: mk_env_def)
  show ?thesis
    using h f push w
    by (auto simp: VerifyScript_def sig pub Let_def verify_witness_def p2sh_script_special verify_tail_def
      verify_p2sh_def eval_true_def flags_ok_def vchTrue_def vchFalse_def sbind_Inr_iff
      split: sum.splits if_splits list.splits)
qed

section \<open>The DER shape of accepted signatures\<close>

text \<open>
  \<open>der_int b\<close>: a positive big-endian integer without superfluous leading zero byte; \<open>der_sig R S h\<close>:
  the layout of the comment above \<^verbatim>\<open>IsValidSignatureEncoding\<close>.
\<close>

definition der_int :: "bytes \<Rightarrow> bool" where
  "der_int b \<longleftrightarrow> b \<noteq> [] \<and> b ! 0 AND 0x80 = 0 \<and> \<not> (length b > 1 \<and> b ! 0 = 0 \<and> b ! 1 AND 0x80 = 0)"

definition der_sig :: "bytes \<Rightarrow> bytes \<Rightarrow> byte \<Rightarrow> bytes" where
  "der_sig R S h = [0x30, of_nat (length R + length S + 4), 0x02, of_nat (length R)] @ R @
     [0x02, of_nat (length S)] @ S @ [h]"

lemma unat_small: "n < 256 \<Longrightarrow> unat (of_nat n :: byte) = n"
  by (simp add: unat_of_nat)

lemma IsValidSignatureEncoding_der_sig:
  assumes "der_int R" "der_int S" "length R + length S \<le> 66"
  shows "IsValidSignatureEncoding (der_sig R S h)"
proof -
  let ?sig = "der_sig R S h"
  have R: "0 < length R" and S: "0 < length S" using assms by (auto simp: der_int_def)
  have len: "length ?sig = length R + length S + 7" by (simp add: der_sig_def)
  have idx: "?sig ! 0 = 0x30" "unat (?sig ! 1) = length R + length S + 4" "?sig ! 2 = 0x02"
    "unat (?sig ! 3) = length R" "?sig ! 4 = R ! 0" "length R > 1 \<Longrightarrow> ?sig ! 5 = R ! 1"
    "?sig ! (length R + 4) = 0x02" "unat (?sig ! (5 + length R)) = length S"
    "?sig ! (length R + 6) = S ! 0" "length S > 1 \<Longrightarrow> ?sig ! (length R + 7) = S ! 1"
    using R S assms(3) by (simp_all add: der_sig_def nth_append unat_small del: of_nat_add)
  have two: "\<not> length R + length S < 2" using R S by linarith
  show ?thesis
    using assms R S by (auto simp: two IsValidSignatureEncoding_def Let_def idx len der_int_def simp del: One_nat_def)
qed

lemma drop_split: "drop n xs = take k (drop n xs) @ drop (n + k) xs"
  by (metis append_take_drop_id drop_drop add.commute)

text \<open>
  \<^verbatim>\<open>IsValidSignatureEncoding\<close> against its grammar: it accepts exactly the sequences
  \<open>0x30 len 0x02 |R| R 0x02 |S| S hashtype\<close> with \<open>R\<close> and \<open>S\<close> minimal positive DER integers, of at most 73 bytes.
\<close>

theorem strict_der_signatures:
  "IsValidSignatureEncoding sig \<longleftrightarrow>
     (\<exists>R S h. sig = der_sig R S h \<and> der_int R \<and> der_int S \<and> length R + length S \<le> 66)"
proof
  assume v: "IsValidSignatureEncoding sig"
  define r where "r = unat (sig ! 3)"
  define t where "t = unat (sig ! (5 + r))"
  from v have len: "length sig = r + t + 7" "length sig \<le> 73" "r \<noteq> 0" "t \<noteq> 0"
    and b: "sig ! 0 = 0x30" "unat (sig ! 1) = length sig - 3" "sig ! 2 = 0x02" "sig ! (r + 4) = 0x02"
      "sig ! 4 AND 0x80 = 0" "\<not> (r > 1 \<and> sig ! 4 = 0 \<and> sig ! 5 AND 0x80 = 0)"
      "sig ! (r + 6) AND 0x80 = 0" "\<not> (t > 1 \<and> sig ! (r + 6) = 0 \<and> sig ! (r + 7) AND 0x80 = 0)"
    by (auto simp: IsValidSignatureEncoding_def Let_def r_def t_def split: if_splits)
  define R where "R = take r (drop 4 sig)"
  define S where "S = take t (drop (r + 6) sig)"
  have l: "length R = r" "length S = t" using len by (simp_all add: R_def S_def)
  have pre: "take 4 sig = [sig ! 0, sig ! 1, sig ! 2, sig ! 3]"
    using len by (simp add: take_Suc_conv_app_nth eval_nat_numeral)
  have mid: "take 2 (drop (r + 4) sig) = [sig ! (r + 4), sig ! (5 + r)]"
    using len by (simp add: take_Suc_conv_app_nth eval_nat_numeral add.commute)
  have tail: "drop (r + 6 + t) sig = [last sig]"
  proof -
    have "r + 6 + t = length (butlast sig)" "sig \<noteq> []" using len by auto
    then show ?thesis by (metis append_butlast_last_id append_eq_conv_conj)
  qed
  have word_bytes: "sig ! 1 = of_nat (length R + length S + 4)" "sig ! 3 = of_nat (length R)"
    "sig ! (5 + r) = of_nat (length S)"
    using b(2) len l r_def t_def by (simp_all add: word_unat_eq_iff unat_small del: of_nat_add)
  have "sig = take 4 sig @ drop 4 sig" by simp
  also have "drop 4 sig = R @ drop (r + 4) sig"
    using drop_split [of 4 sig r] by (simp add: R_def add.commute)
  also have "drop (r + 4) sig = take 2 (drop (r + 4) sig) @ drop (r + 6) sig"
    using drop_split [of "r + 4" sig 2] by (simp only: add.assoc) simp
  also have "drop (r + 6) sig = S @ drop (r + 6 + t) sig"
    using drop_split [of "r + 6" sig t] by (simp add: S_def)
  finally have "sig = der_sig R S (last sig)"
    using word_bytes by (simp add: der_sig_def pre mid tail b(1,3,4))
  moreover have "der_int R" "der_int S"
    using l len b by (auto simp: der_int_def R_def S_def add.commute)
  ultimately show "\<exists>R S h. sig = der_sig R S h \<and> der_int R \<and> der_int S \<and> length R + length S \<le> 66"
    using l len by (intro exI [of _ R] exI [of _ S] exI [of _ "last sig"]) simp
qed (auto intro: IsValidSignatureEncoding_der_sig)

section \<open>Decoding pushes, and witnesses\<close>

text \<open>
  Round trip of data pushes: decoding a script built with \<^verbatim>\<open>operator<<\<close> from byte vectors yields one push
  instruction per vector, with that vector.
\<close>

theorem push_all_roundtrip:
  assumes "\<forall>v \<in> set vs. length v < 2 ^ 32"
  shows "\<exists>is. decode (push_all vs) = Some is \<and> map snd is = vs \<and> (\<forall>i \<in> set is. fst i \<le> OP_PUSHDATA4)"
  using assms
proof (induction vs)
  case (Cons v vs)
  then obtain "is" where "decode (push_all vs) = Some is" "map snd is = vs" "\<forall>i \<in> set is. fst i \<le> OP_PUSHDATA4" by auto
  moreover from GetOp2_push_data [of v "push_all vs"] Cons.prems obtain opcode where
    "opcode \<le> OP_PUSHDATA4" "GetOp2 (push_data [] v @ push_all vs) = (True, push_all vs, opcode, v)" by auto
  ultimately show ?case by auto
qed simp

theorem push_all_roundtrip_witness:
  "\<exists>is. decode (push_all [[1, 2, 3], []]) = Some is \<and> map snd is = [[1, 2, 3], []]"
  using push_all_roundtrip [of "[[1, 2, 3], []]"] by auto

theorem multisig_greedy_complete_witness:
  "multisig_loop ex_env [] [[1, 1]] [[2], [3]] = Inr (sig_matching (\<lambda>s k. True) [[1, 1]] [[2], [3]])"
  using multisig_greedy_complete [of "[[1, 1]]" "[[2], [3]]" ex_env "[]"]
  by (simp add: check_encodings_def CheckSignatureEncoding_def CheckPubKeyEncoding_def mk_env_def flag_def ex_checker_def)

lemma flag_0 [simp]: "\<not> flag 0 f"
  by (simp add: flag_def)

theorem p2pkh_spend_witness:
  "VerifyScript (push_all [[0x30, 1], [2, 3]]) (p2pkh_script (replicate 20 7) @ [OP_BLKR_ASSET, 1, 2]) [] 0 ex_crypto ex_checker =
   Some (Inr ())"
  using p2pkh_spend [of "replicate 20 7" "[OP_BLKR_ASSET, 1, 2]" 0 "[0x30, 1]" "[2, 3]" ex_crypto ex_checker]
  by (simp add: asset_suffix_def flags_ok_def has_short_opcode_def MAX_SCRIPT_ELEMENT_SIZE_def Hash160_def ex_crypto_def ex_checker_def
    check_encodings_def CheckSignatureEncoding_def CheckPubKeyEncoding_def mk_env_def)

theorem VerifyScript_no_assert_witness:
  "VerifyScript [] [OP_HASH160, OP_EQUAL] [] (SCRIPT_VERIFY_P2SH OR SCRIPT_VERIFY_WITNESS OR SCRIPT_VERIFY_CLEANSTACK) ex_crypto ex_checker \<noteq> None"
  using VerifyScript_no_assert [of "SCRIPT_VERIFY_P2SH OR SCRIPT_VERIFY_WITNESS OR SCRIPT_VERIFY_CLEANSTACK"]
  by (simp add: flags_ok_def flag_def)

theorem p2sh_spend_witness:
  "VerifyScript (push_all [[OP_1]]) (p2sh_script (replicate 20 7)) [] SCRIPT_VERIFY_P2SH ex_crypto ex_checker = Some (Inr ())"
proof -
  have "EvalScript (mk_env SCRIPT_VERIFY_P2SH SIGVERSION_BASE ex_crypto ex_checker) [] [OP_1] = Inr [[1]]"
    by (simp add: EvalScript_def MAX_SCRIPT_SIZE_def eval_loop.simps GetOp2.simps exec_instr_def Let_def
      fExec_of_def op_disabled_def op_switch_def op_stack_def op_constant_def scriptnum_serialize_def absvalue_bytes.simps
      MAX_SCRIPT_ELEMENT_SIZE_def MAX_STACK_SIZE_def mk_env_def)
  moreover have "CastToBool [1]" by simp
  ultimately show ?thesis
    using p2sh_spend [of "replicate 20 7" SCRIPT_VERIFY_P2SH "[OP_1]" "[]" ex_crypto ex_checker]
    by (simp add: flags_ok_def flag_def has_short_opcode_def MAX_SCRIPT_ELEMENT_SIZE_def MAX_STACK_SIZE_def MAX_SCRIPT_SIZE_def
      IsWitnessProgram_def push_data_def Hash160_def ex_crypto_def)
qed

end
