(* ===== verification/Transaction.thy ===== *)
theory Transaction
  imports Script
begin

text \<open>
  Transactions (\<^verbatim>\<open>src/src/primitives/transaction.h\<close>, \<^verbatim>\<open>transaction.cpp\<close>, \<^verbatim>\<open>amount.h\<close>): outpoints, inputs,
  outputs, the wire format with and without witness data, and the value of the outputs. A
  \<^verbatim>\<open>uint256\<close> is a 256-bit word whose little-endian bytes are the array \<^verbatim>\<open>data\<close> of \<^verbatim>\<open>base_blob\<close>.
\<close>

section \<open>Data\<close>

record COutPoint =
  op_hash :: uint256
  op_n :: u32

record CTxIn =
  prevout :: COutPoint
  scriptSig :: script
  nSequence :: u32
  scriptWitness :: "bytes list"

record CTxOut =
  nValue :: int
  scriptPubKey :: script
  nRounds :: int

record CTransaction =
  nVersion :: int
  nType :: int
  vin :: "CTxIn list"
  vout :: "CTxOut list"
  nLockTime :: u32
  vExtraPayload :: bytes

definition TRANSACTION_NORMAL :: int where "TRANSACTION_NORMAL = 0"

definition COutPoint_IsNull :: "COutPoint \<Rightarrow> bool" where
  "COutPoint_IsNull o1 \<longleftrightarrow> op_hash o1 = 0 \<and> op_n o1 = 0xffffffff"

definition CTxOut_null :: CTxOut where
  "CTxOut_null = \<lparr>nValue = -1, scriptPubKey = [], nRounds = -10\<rparr>"

definition CTxOut_IsNull :: "CTxOut \<Rightarrow> bool" where
  "CTxOut_IsNull txout \<longleftrightarrow> nValue txout = -1"

definition IsCoinBase :: "CTransaction \<Rightarrow> bool" where
  "IsCoinBase tx \<longleftrightarrow> length (vin tx) = 1 \<and> COutPoint_IsNull (prevout (vin tx ! 0))"

definition HasWitness :: "CTransaction \<Rightarrow> bool" where
  "HasWitness tx \<longleftrightarrow> list_ex (\<lambda>txin. scriptWitness txin \<noteq> []) (vin tx)"

section \<open>Amounts\<close>

definition COIN :: int where "COIN = 100000000"
definition MAX_MONEY :: int where "MAX_MONEY = 21000000000 * COIN"

definition MoneyRange :: "int \<Rightarrow> bool" where
  "MoneyRange n \<longleftrightarrow> n \<ge> 0 \<and> n \<le> MAX_MONEY"

text \<open>\<open>None\<close> is the exception \<^verbatim>\<open>value out of range\<close>. The running sum wraps as \<^verbatim>\<open>int64_t\<close> does.\<close>

fun GetValueOut_loop :: "CTxOut list \<Rightarrow> int \<Rightarrow> int option" where
  "GetValueOut_loop [] nValueOut = Some nValueOut"
| "GetValueOut_loop (tx_out # outs) nValueOut =
     (let nValueOut' = int64 (nValueOut + nValue tx_out) in
      if \<not> MoneyRange (nValue tx_out) \<or> \<not> MoneyRange nValueOut' then None
      else GetValueOut_loop outs nValueOut')"

definition GetValueOut :: "CTransaction \<Rightarrow> int option" where
  "GetValueOut tx = GetValueOut_loop (vout tx) 0"

section \<open>Wire format\<close>

definition Serialize_uint256 :: "uint256 \<Rightarrow> bytes" where
  "Serialize_uint256 h = le_bytes 32 (unat h)"

definition Unserialize_uint256 :: "uint256 reader" where
  "Unserialize_uint256 = rbind (stream_read 32) (\<lambda>b. rret (of_nat (le_nat b)))"

definition Serialize_COutPoint :: "COutPoint \<Rightarrow> bytes" where
  "Serialize_COutPoint x = Serialize_uint256 (op_hash x) @ ser_writedata32 (op_n x)"

definition Unserialize_COutPoint :: "COutPoint reader" where
  "Unserialize_COutPoint =
     rbind Unserialize_uint256 (\<lambda>h. rbind ser_readdata32 (\<lambda>n. rret \<lparr>op_hash = h, op_n = n\<rparr>))"

text \<open>The witness of an input is not part of its own format: the reader leaves it empty.\<close>

definition Serialize_CTxIn :: "CTxIn \<Rightarrow> bytes" where
  "Serialize_CTxIn x = Serialize_COutPoint (prevout x) @ Serialize_bytes (scriptSig x) @ ser_writedata32 (nSequence x)"

definition Unserialize_CTxIn :: "CTxIn reader" where
  "Unserialize_CTxIn =
     rbind Unserialize_COutPoint (\<lambda>p. rbind Unserialize_bytes (\<lambda>s. rbind ser_readdata32 (\<lambda>n.
       rret \<lparr>prevout = p, scriptSig = s, nSequence = n, scriptWitness = []\<rparr>)))"

definition Serialize_CTxOut :: "CTxOut \<Rightarrow> bytes" where
  "Serialize_CTxOut x = Serialize_int64 (nValue x) @ Serialize_bytes (scriptPubKey x)"

definition Unserialize_CTxOut :: "CTxOut reader" where
  "Unserialize_CTxOut =
     rbind Unserialize_int64 (\<lambda>v. rbind Unserialize_bytes (\<lambda>s.
       rret \<lparr>nValue = v, scriptPubKey = s, nRounds = -10\<rparr>))"

definition Serialize_witness :: "bytes list \<Rightarrow> bytes" where
  "Serialize_witness w = Serialize_vector Serialize_bytes w"

definition Unserialize_witness :: "bytes list reader" where
  "Unserialize_witness = Unserialize_vector Unserialize_bytes"

text \<open>
  Version and type share one 32-bit word. \<open>n32bitVersion\<close> is computed on the two \<^verbatim>\<open>int16_t\<close> fields
  promoted to \<^verbatim>\<open>int\<close>; a negative version therefore sets every bit of the upper half.
\<close>

definition n32bitVersion :: "int \<Rightarrow> int \<Rightarrow> u32" where
  "n32bitVersion version type = word_of_int (version OR push_bit 16 type)"

definition version_of :: "u32 \<Rightarrow> int" where
  "version_of w = int16 (uint (w AND 0xffff))"

definition type_of :: "u32 \<Rightarrow> int" where
  "type_of w = int16 (uint (drop_bit 16 w AND 0xffff))"

definition has_payload :: "int \<Rightarrow> int \<Rightarrow> bool" where
  "has_payload version type \<longleftrightarrow> version = 3 \<and> type \<noteq> TRANSACTION_NORMAL"

definition SerializeTransaction :: "bool \<Rightarrow> CTransaction \<Rightarrow> bytes" where
  "SerializeTransaction fAllowWitness tx =
     (let flags = fAllowWitness \<and> HasWitness tx in
      ser_writedata32 (n32bitVersion (nVersion tx) (nType tx)) @
      (if flags then Serialize_vector Serialize_CTxIn [] @ ser_writedata8 1 else []) @
      Serialize_vector Serialize_CTxIn (vin tx) @
      Serialize_vector Serialize_CTxOut (vout tx) @
      (if flags then concat (map (\<lambda>txin. Serialize_witness (scriptWitness txin)) (vin tx)) else []) @
      ser_writedata32 (nLockTime tx) @
      (if has_payload (nVersion tx) (nType tx) then Serialize_bytes (vExtraPayload tx) else []))"

fun read_witnesses :: "CTxIn list \<Rightarrow> CTxIn list reader" where
  "read_witnesses [] = rret []"
| "read_witnesses (txin # txins) =
     rbind Unserialize_witness (\<lambda>w. rbind (read_witnesses txins) (\<lambda>rest.
       rret (txin \<lparr>scriptWitness := w\<rparr> # rest)))"

text \<open>The inputs, the outputs and the flag byte, which is zero in the basic format.\<close>

definition read_in_out :: "bool \<Rightarrow> (CTxIn list \<times> CTxOut list \<times> byte) reader" where
  "read_in_out fAllowWitness =
     rbind (Unserialize_vector Unserialize_CTxIn) (\<lambda>vin0.
       if length vin0 = 0 \<and> fAllowWitness then
         rbind ser_readdata8 (\<lambda>flags.
           if flags \<noteq> 0 then
             rbind (Unserialize_vector Unserialize_CTxIn) (\<lambda>vin1.
             rbind (Unserialize_vector Unserialize_CTxOut) (\<lambda>vout1. rret (vin1, vout1, flags)))
           else rret ([], [], 0))
       else rbind (Unserialize_vector Unserialize_CTxOut) (\<lambda>vout1. rret (vin0, vout1, 0)))"

definition UnserializeTransaction :: "bool \<Rightarrow> CTransaction reader" where
  "UnserializeTransaction fAllowWitness =
     rbind ser_readdata32 (\<lambda>w.
     rbind (read_in_out fAllowWitness) (\<lambda>(vin1, vout1, flags).
     rbind (if flags AND 1 \<noteq> 0 \<and> fAllowWitness
            then rbind (read_witnesses vin1) (\<lambda>v. rret (v, flags XOR 1))
            else rret (vin1, flags)) (\<lambda>(vin2, flags').
     if flags' \<noteq> 0 then rfail UnknownOptionalData
     else rbind ser_readdata32 (\<lambda>lock.
     rbind (if has_payload (version_of w) (type_of w) then Unserialize_bytes else rret []) (\<lambda>payload.
       rret \<lparr>nVersion = version_of w, nType = type_of w, vin = vin2, vout = vout1, nLockTime = lock,
         vExtraPayload = payload\<rparr>)))))"

section \<open>Codecs\<close>

definition in_int16 :: "int \<Rightarrow> bool" where "in_int16 x \<longleftrightarrow> - (2 ^ 15) \<le> x \<and> x < 2 ^ 15"

lemma int16_id: "in_int16 x \<Longrightarrow> int16 x = x"
  by (simp add: in_int16_def int16_def signed_take_bit_int_eq_self_iff)

lemma int16_of_mod: "int16 (x mod 65536) = int16 x"
  using signed_take_bit_mod_eq [of 15 x] by (simp add: int16_def)

lemma uint_and_ffff: "uint (w AND 0xffff :: u32) = uint w mod 65536"
  using take_bit_eq_mask [of 16 "uint w"]
  by (simp add: unsigned_and_eq take_bit_eq_mod mask_eq_exp_minus_1)

lemma uint_drop_16: "uint (drop_bit 16 w :: u32) = uint w div 65536"
proof -
  have "uint w < 2 ^ LENGTH(32)" by (rule unsigned_less)
  then show ?thesis unfolding unsigned_drop_bit_eq by (simp add: drop_bit_eq_div take_bit_int_eq_self)
qed

lemma n32bitVersion_eq:
  assumes "0 \<le> v" "v < 2 ^ 15"
  shows "uint (n32bitVersion v t) = (v + t * 65536) mod 2 ^ 32"
proof -
  have "v AND push_bit 16 t = 0"
  proof (rule bit_eqI)
    fix n
    have "bit v n \<Longrightarrow> n < 16"
      using assms bit_take_bit_iff [of 15 v n] take_bit_int_eq_self [of v 15] by auto
    then show "bit (v AND push_bit 16 t) n \<longleftrightarrow> bit (0 :: int) n" by (auto simp: bit_simps)
  qed
  then have "v OR push_bit 16 t = v + t * 65536"
    by (simp add: disjunctive_add_eq_or [symmetric] push_bit_eq_mult)
  then show ?thesis unfolding n32bitVersion_def by (simp only: uint_word_of_int) simp
qed

lemma version_type_roundtrip:
  assumes "0 \<le> v" "v < 2 ^ 15" "in_int16 t"
  shows "version_of (n32bitVersion v t) = v" "type_of (n32bitVersion v t) = t"
proof -
  have "(v + t * 65536) mod 2 ^ 32 mod 65536 = v"
    using assms by (simp add: mod_mod_cancel)
  then show "version_of (n32bitVersion v t) = v"
    using assms by (simp add: version_of_def uint_and_ffff n32bitVersion_eq int16_id in_int16_def)
  have "(v + t * 65536) mod 2 ^ 32 div 65536 mod 65536 = t mod 65536"
    using assms(1,2) zmod_zmult2_eq [of 65536 "v + t * 65536" 65536] by simp
  then show "type_of (n32bitVersion v t) = t"
    using assms by (simp add: type_of_def uint_and_ffff n32bitVersion_eq uint_drop_16 int16_of_mod int16_id
      del: drop_bit_numeral_bit0 drop_bit_numeral_bit1)
qed

text \<open>A negative version fills the upper half of the word with ones, so that the type is lost.\<close>

lemma n32bitVersion_neg:
  assumes "v < 0" "in_int16 v"
  shows "uint (n32bitVersion v t) = v mod 2 ^ 32"
proof -
  have "v OR push_bit 16 t = v"
  proof (rule bit_eqI)
    fix n
    have "\<not> bit (NOT v) n" if "16 \<le> n"
      using assms that bit_take_bit_iff [of 15 "NOT v" n] take_bit_int_eq_self [of "NOT v" 15]
      by (auto simp: not_int_def in_int16_def)
    then show "bit (v OR push_bit 16 t) n \<longleftrightarrow> bit v n" by (auto simp: bit_simps)
  qed
  then show ?thesis unfolding n32bitVersion_def by (simp only: uint_word_of_int) simp
qed

lemma version_type_read:
  assumes "in_int16 v" "in_int16 t"
  shows "version_of (n32bitVersion v t) = v" "type_of (n32bitVersion v t) = (if 0 \<le> v then t else -1)"
proof -
  have "version_of (n32bitVersion v t) = v \<and> type_of (n32bitVersion v t) = -1" if "v < 0"
  proof -
    have "v mod 2 ^ 32 mod 65536 = v mod 65536" by (simp add: mod_mod_cancel)
    moreover have "v mod 2 ^ 32 div 65536 mod 65536 = (v div 65536) mod 65536"
      using zmod_zmult2_eq [of 65536 v 65536] by simp
    moreover have "v div 65536 = -1" using assms that by (simp add: in_int16_def div_eq_minus1)
    moreover have "int16 (-1 mod 65536) = -1" using int16_of_mod [of "-1"] int16_id [of "-1"] by (simp add: in_int16_def)
    ultimately show ?thesis
      using int16_of_mod [of v] int16_id [OF assms(1)]
      by (simp only: version_of_def type_of_def uint_and_ffff n32bitVersion_neg [OF that assms(1)] uint_drop_16 simp_thms)
  qed
  moreover have "version_of (n32bitVersion v t) = v \<and> type_of (n32bitVersion v t) = t" if "0 \<le> v"
    using version_type_roundtrip [of v t] that assms by (simp add: in_int16_def)
  ultimately show "version_of (n32bitVersion v t) = v" "type_of (n32bitVersion v t) = (if 0 \<le> v then t else -1)"
    by (cases "0 \<le> v"; simp)+
qed

interpretation c256: canonical_serializer Serialize_uint256 Unserialize_uint256 "\<lambda>_. True"
  unfolding canonical_serializer_def serializer_def canonical_serializer_axioms_def
    Serialize_uint256_def Unserialize_uint256_def
  using le_word_roundtrip [where 'a = 256 and n = 32] le_word_canonical [where 'a = 256 and n = 32] by simp

lemmas codec_iffs = word_codec_iff c256.unser_iff [simplified] ci64.unser_iff cbytes.unser_iff
lemmas codec_read = c256.rbind_ser [simplified] ci64.rbind_ser cbytes.rbind_ser rret_def

interpretation coutpoint: canonical_serializer Serialize_COutPoint Unserialize_COutPoint "\<lambda>_. True"
proof unfold_locales
  fix x :: COutPoint and rest
  show "Unserialize_COutPoint (Serialize_COutPoint x @ rest) = Inr (x, rest)"
    by (simp add: Unserialize_COutPoint_def Serialize_COutPoint_def codec_read)
next
  fix bs rest :: bytes and x
  assume "Unserialize_COutPoint bs = Inr (x, rest)"
  then show "True \<and> bs = Serialize_COutPoint x @ rest"
    by (auto simp: Unserialize_COutPoint_def Serialize_COutPoint_def rbind_Inr_iff codec_iffs)
qed

definition valid_txin :: "CTxIn \<Rightarrow> bool" where
  "valid_txin x \<longleftrightarrow> length (scriptSig x) \<le> MAX_SIZE \<and> scriptWitness x = []"

definition valid_txout :: "CTxOut \<Rightarrow> bool" where
  "valid_txout x \<longleftrightarrow> in_int64 (nValue x) \<and> length (scriptPubKey x) \<le> MAX_SIZE \<and> nRounds x = -10"

interpretation ctxin: canonical_serializer Serialize_CTxIn Unserialize_CTxIn valid_txin
proof unfold_locales
  fix x rest
  show "valid_txin x \<Longrightarrow> Unserialize_CTxIn (Serialize_CTxIn x @ rest) = Inr (x, rest)"
    by (simp add: Unserialize_CTxIn_def Serialize_CTxIn_def codec_read coutpoint.rbind_ser valid_txin_def)
next
  fix bs rest x
  assume "Unserialize_CTxIn bs = Inr (x, rest)"
  then show "valid_txin x \<and> bs = Serialize_CTxIn x @ rest"
    by (auto simp: Unserialize_CTxIn_def Serialize_CTxIn_def rbind_Inr_iff codec_iffs coutpoint.unser_iff valid_txin_def)
qed

interpretation ctxout: canonical_serializer Serialize_CTxOut Unserialize_CTxOut valid_txout
proof unfold_locales
  fix x rest
  show "valid_txout x \<Longrightarrow> Unserialize_CTxOut (Serialize_CTxOut x @ rest) = Inr (x, rest)"
    by (simp add: Unserialize_CTxOut_def Serialize_CTxOut_def codec_read valid_txout_def)
next
  fix bs rest x
  assume "Unserialize_CTxOut bs = Inr (x, rest)"
  then show "valid_txout x \<and> bs = Serialize_CTxOut x @ rest"
    by (auto simp: Unserialize_CTxOut_def Serialize_CTxOut_def rbind_Inr_iff codec_iffs valid_txout_def)
qed

definition valid_witness :: "bytes list \<Rightarrow> bool" where
  "valid_witness w \<longleftrightarrow> length w \<le> MAX_SIZE \<and> list_all (\<lambda>v. length v \<le> MAX_SIZE) w"

text \<open>
  The fields of a transaction in the ranges the format has: version and type of 16 bits, every size within the limit of the reader,
  amounts of 64 bits, the in-memory count of rounds of every output unset, a payload only where the version and the type have one.
\<close>

definition tx_fields :: "CTransaction \<Rightarrow> bool" where
  "tx_fields tx \<longleftrightarrow> in_int16 (nVersion tx) \<and> in_int16 (nType tx) \<and>
     length (vin tx) \<le> MAX_SIZE \<and> length (vout tx) \<le> MAX_SIZE \<and>
     list_all (\<lambda>x. length (scriptSig x) \<le> MAX_SIZE \<and> valid_witness (scriptWitness x)) (vin tx) \<and>
     list_all valid_txout (vout tx) \<and> length (vExtraPayload tx) \<le> MAX_SIZE \<and>
     (\<not> has_payload (nVersion tx) (nType tx) \<longrightarrow> vExtraPayload tx = [])"

text \<open>
  What the two formats can tell apart: a negative version leaves no room for a type other than \<open>-1\<close>, and in the format with witnesses
  an empty list of inputs is the mark of the extended format, so that no outputs may follow it.
\<close>

definition representable :: "bool \<Rightarrow> CTransaction \<Rightarrow> bool" where
  "representable fAllowWitness tx \<longleftrightarrow> (0 \<le> nVersion tx \<or> nType tx = -1) \<and> (vin tx \<noteq> [] \<or> vout tx = [] \<or> \<not> fAllowWitness)"

definition strip_witness :: "CTransaction \<Rightarrow> CTransaction" where
  "strip_witness tx = tx \<lparr>vin := map (\<lambda>x. x \<lparr>scriptWitness := []\<rparr>) (vin tx)\<rparr>"

lemma Unserialize_witness_ser:
  "valid_witness w \<Longrightarrow> rbind Unserialize_witness f (Serialize_witness w @ rest) = f w rest"
  using cbytes.Unserialize_vector_Serialize_vector
  by (simp add: rbind_def Unserialize_witness_def Serialize_witness_def valid_witness_def)

lemma read_witnesses_ser:
  "list_all (\<lambda>x. valid_witness (scriptWitness x)) xs \<Longrightarrow>
   rbind (read_witnesses (map (\<lambda>x. x \<lparr>scriptWitness := []\<rparr>) xs)) f
     (concat (map (\<lambda>x. Serialize_witness (scriptWitness x)) xs) @ rest) = f xs rest"
  by (induction xs arbitrary: f) (simp_all add: Unserialize_witness_ser rbind_norm)

lemma Serialize_CTxIn_strip: "Serialize_CTxIn (x \<lparr>scriptWitness := w\<rparr>) = Serialize_CTxIn x"
  by (simp add: Serialize_CTxIn_def)

lemma read_txins:
  assumes "length xs \<le> MAX_SIZE" "list_all (\<lambda>x. length (scriptSig x) \<le> MAX_SIZE) xs"
  shows "rbind (Unserialize_vector Unserialize_CTxIn) f (Serialize_vector Serialize_CTxIn xs @ rest) =
    f (map (\<lambda>x. x \<lparr>scriptWitness := []\<rparr>) xs) rest"
proof -
  have "Serialize_vector Serialize_CTxIn xs = Serialize_vector Serialize_CTxIn (map (\<lambda>x. x \<lparr>scriptWitness := []\<rparr>) xs)"
    by (simp add: Serialize_vector_def comp_def Serialize_CTxIn_strip)
  moreover have "list_all valid_txin (map (\<lambda>x. x \<lparr>scriptWitness := []\<rparr>) xs)"
    using assms(2) by (simp add: list_all_iff valid_txin_def)
  ultimately show ?thesis
    using ctxin.Unserialize_vector_Serialize_vector [of "map (\<lambda>x. x \<lparr>scriptWitness := []\<rparr>) xs" rest] assms(1)
    by (simp add: rbind_def)
qed

lemma read_txouts:
  "length xs \<le> MAX_SIZE \<Longrightarrow> list_all valid_txout xs \<Longrightarrow>
   rbind (Unserialize_vector Unserialize_CTxOut) f (Serialize_vector Serialize_CTxOut xs @ rest) = f xs rest"
  by (simp add: rbind_def ctxout.Unserialize_vector_Serialize_vector)

lemma map_strip_id: "\<not> list_ex (\<lambda>x. scriptWitness x \<noteq> []) xs \<Longrightarrow> map (\<lambda>x. x \<lparr>scriptWitness := []\<rparr>) xs = xs"
  by (induction xs) auto

lemma if_fail_Inr: "(if c then rfail e else r) bs = Inr p \<longleftrightarrow> \<not> c \<and> r bs = Inr p"
  by simp

lemma ser_empty_vector: "Serialize_vector ser [] = ser_writedata8 0"
  by (simp add: Serialize_vector_def WriteCompactSize_def)

lemma read_witnesses_Nil: "read_witnesses xs bs = Inr ([], rest) \<longleftrightarrow> xs = [] \<and> rest = bs"
  by (cases xs) (auto simp: rbind_Inr_iff rret_def)

lemma tx_record:
  "tx = \<lparr>nVersion = a, nType = b, vin = c, vout = d, nLockTime = e, vExtraPayload = f\<rparr> \<Longrightarrow>
   a = nVersion tx \<and> b = nType tx \<and> c = vin tx \<and> d = vout tx \<and> e = nLockTime tx \<and> f = vExtraPayload tx"
  by simp

lemma read_tx_parts:
  assumes "UnserializeTransaction fAllowWitness (ser_writedata32 w @ bs1) = Inr (tx, rest)"
  obtains ins outs flags bs2 ins' flags' bs3 lock bs4 payload where
    "read_in_out fAllowWitness bs1 = Inr ((ins, outs, flags), bs2)"
    "(if flags AND 1 \<noteq> 0 \<and> fAllowWitness then rbind (read_witnesses ins) (\<lambda>v. rret (v, flags XOR 1)) else rret (ins, flags)) bs2
       = Inr ((ins', flags'), bs3)"
    "bs3 = ser_writedata32 lock @ bs4"
    "(if has_payload (version_of w) (type_of w) then Unserialize_bytes else rret []) bs4 = Inr (payload, rest)"
    "tx = \<lparr>nVersion = version_of w, nType = type_of w, vin = ins', vout = outs, nLockTime = lock, vExtraPayload = payload\<rparr>"
  using assms unfolding UnserializeTransaction_def
  by (auto simp: rbind_Inr_iff if_fail_Inr word_codec_iff c32.rbind_ser [simplified] split del: if_split)

lemma read_tx_type: "UnserializeTransaction fAllowWitness (ser_writedata32 w @ bs1) = Inr (tx, rest) \<Longrightarrow> nType tx = type_of w"
  by (erule read_tx_parts) simp

lemma tx_roundtrip:
  assumes "tx_fields tx" "representable fAllowWitness tx"
  shows "UnserializeTransaction fAllowWitness (SerializeTransaction fAllowWitness tx @ rest) =
    Inr (if fAllowWitness then tx else strip_witness tx, rest)"
proof -
  have v: "version_of (n32bitVersion (nVersion tx) (nType tx)) = nVersion tx"
    "type_of (n32bitVersion (nVersion tx) (nType tx)) = nType tx"
    using assms by (auto simp: tx_fields_def representable_def version_type_read)
  have ins: "length (vin tx) \<le> MAX_SIZE" "list_all (\<lambda>x. length (scriptSig x) \<le> MAX_SIZE) (vin tx)"
      "list_all (\<lambda>x. valid_witness (scriptWitness x)) (vin tx)"
    and outs: "length (vout tx) \<le> MAX_SIZE" "list_all valid_txout (vout tx)"
    and pay: "length (vExtraPayload tx) \<le> MAX_SIZE"
      "\<not> has_payload (nVersion tx) (nType tx) \<Longrightarrow> vExtraPayload tx = []"
    using assms by (auto simp: tx_fields_def list_all_iff)
  note rd = UnserializeTransaction_def SerializeTransaction_def read_in_out_def Let_def rbind_norm
    read_txins [OF ins(1,2)] read_txouts [OF outs] codec_read pay v read_txins [of "[]", simplified]
  show ?thesis
  proof (cases "fAllowWitness \<and> HasWitness tx")
    case True
    then show ?thesis
      by (simp add: rd read_witnesses_ser [OF ins(3)])
  next
    case False
    show ?thesis
    proof (cases "vin tx = [] \<and> fAllowWitness")
      case True
      then have "vout tx = []" using assms(2) by (simp add: representable_def)
      with True show ?thesis
        by (simp add: rd HasWitness_def ser_empty_vector [of Serialize_CTxOut])
    next
      case no_mark: False
      with False show ?thesis
        using map_strip_id [of "vin tx"] by (auto simp: rd HasWitness_def strip_witness_def)
    qed
  qed
qed

text \<open>
  A transaction without inputs and with outputs is not read back in the format with witnesses: the reader takes the count of its outputs
  for the flags, and what it would then have to read is two bytes longer than what was written.
\<close>

lemma no_inputs_misread:
  assumes "tx_fields tx" "vin tx = []" "vout tx \<noteq> []"
  shows "UnserializeTransaction True (SerializeTransaction True tx @ rest) \<noteq> Inr (tx, rest)"
proof
  let ?w = "n32bitVersion (nVersion tx) (nType tx)"
  let ?pay = "if has_payload (nVersion tx) (nType tx) then Serialize_bytes (vExtraPayload tx) else []"
  let ?tail = "Serialize_vector Serialize_CTxOut (vout tx) @ ser_writedata32 (nLockTime tx) @ ?pay @ rest"
  assume r: "UnserializeTransaction True (SerializeTransaction True tx @ rest) = Inr (tx, rest)"
  have "\<not> HasWitness tx" using assms(2) by (simp add: HasWitness_def)
  with assms(2) have "SerializeTransaction True tx @ rest = ser_writedata32 ?w @ Serialize_vector Serialize_CTxIn [] @ ?tail"
    by (simp add: SerializeTransaction_def)
  with r have "UnserializeTransaction True (ser_writedata32 ?w @ Serialize_vector Serialize_CTxIn [] @ ?tail) = Inr (tx, rest)" by simp
  then obtain ins outs flags bs2 ins' flags' bs3 lock bs4 payload where 1: "read_in_out True (Serialize_vector Serialize_CTxIn [] @ ?tail) = Inr ((ins, outs, flags), bs2)"
    "(if flags AND 1 \<noteq> 0 \<and> True then rbind (read_witnesses ins) (\<lambda>v. rret (v, flags XOR 1)) else rret (ins, flags)) bs2 = Inr ((ins', flags'), bs3)"
    "bs3 = ser_writedata32 lock @ bs4"
    "(if has_payload (version_of ?w) (type_of ?w) then Unserialize_bytes else rret []) bs4 = Inr (payload, rest)"
    and t: "tx = \<lparr>nVersion = version_of ?w, nType = type_of ?w, vin = ins', vout = outs, nLockTime = lock, vExtraPayload = payload\<rparr>"
    by (rule read_tx_parts)
  have f: "version_of ?w = nVersion tx" "type_of ?w = nType tx" "ins' = []" "outs = vout tx" "lock = nLockTime tx" "payload = vExtraPayload tx"
    using tx_record [OF t] assms(2) by simp_all
  note 1 = 1 [unfolded f]
  have 2: "bs3 = bs2"
    using 1(2) by (auto simp: rbind_Inr_iff read_witnesses_Nil rret_def split: if_splits)
  have ins: "ins = []"
    using 1(2) by (auto simp: rbind_Inr_iff read_witnesses_Nil rret_def split: if_splits)
  from 1(1) assms(3) ins obtain bs1 where "?tail = ser_writedata8 flags @ Serialize_vector Serialize_CTxIn [] @ bs1"
    "Unserialize_vector Unserialize_CTxOut bs1 = Inr (vout tx, bs2)"
    by (auto simp: read_in_out_def read_txins [of "[]", simplified] rbind_Inr_iff word_codec_iff rret_def split: if_splits
      dest!: ctxin.Unserialize_vector_canonical)
  with ctxout.Unserialize_vector_canonical have
    "?tail = ser_writedata8 flags @ Serialize_vector Serialize_CTxIn [] @ Serialize_vector Serialize_CTxOut (vout tx) @ bs2" by metis
  moreover have "bs4 = ?pay @ rest" using 1(4) by (auto simp: codec_iffs rret_def split: if_splits)
  ultimately have "length ?tail = 2 + length ?tail"
    using 1(3) 2 by (simp add: ser_empty_vector le_word_defs)
  then show False by simp
qed

lemma tx_roundtrip_iff:
  assumes "tx_fields tx"
  shows "UnserializeTransaction fAllowWitness (SerializeTransaction fAllowWitness tx @ rest) =
      Inr (if fAllowWitness then tx else strip_witness tx, rest) \<longleftrightarrow> representable fAllowWitness tx"
    (is "?read \<longleftrightarrow> _")
proof (cases "0 \<le> nVersion tx \<or> nType tx = -1")
  case True
  then show ?thesis
    using tx_roundtrip [OF assms] no_inputs_misread [OF assms] by (cases fAllowWitness) (auto simp: representable_def)
next
  case False
  let ?w = "n32bitVersion (nVersion tx) (nType tx)"
  obtain bs where "SerializeTransaction fAllowWitness tx @ rest = ser_writedata32 ?w @ bs"
    by (simp add: SerializeTransaction_def Let_def)
  then have "nType (if fAllowWitness then tx else strip_witness tx) = type_of ?w" if ?read
    using that read_tx_type [of fAllowWitness ?w bs] by simp
  then have "nType tx = -1" if ?read
    using that False assms by (auto simp: tx_fields_def version_type_read strip_witness_def split: if_splits)
  with False show ?thesis by (auto simp: representable_def)
qed

text \<open>
  C10. Round trip of transactions. What \<^verbatim>\<open>SerializeTransaction\<close> writes for a transaction whose fields are in the ranges of the format,
  \<^verbatim>\<open>UnserializeTransaction\<close> reads back, with the witnesses when both allow them and without them otherwise, and leaves the bytes that follow,
  exactly if the version is not negative or the type is \<open>-1\<close> (a negative 16-bit version overwrites the type in the 32-bit word they
  share), and the transaction has inputs, or no outputs, or the format has no witnesses (an empty list of inputs is read as the
  mark of the extended format). The ranges (\<^const>\<open>tx_fields\<close>): version and type of 16 bits, amounts of 64, sizes of at most
  \<^verbatim>\<open>MAX_SIZE\<close>, rounds of the outputs at their default, which is not written, and a payload only in version 3 with a special type.
\<close>

theorem transaction_roundtrip:
  assumes "tx_fields tx"
  shows "UnserializeTransaction fAllowWitness (SerializeTransaction fAllowWitness tx @ rest) =
      Inr (if fAllowWitness then tx else strip_witness tx, rest) \<longleftrightarrow>
    (0 \<le> nVersion tx \<or> nType tx = -1) \<and> (vin tx \<noteq> [] \<or> vout tx = [] \<or> \<not> fAllowWitness)"
  using tx_roundtrip_iff [OF assms] by (simp add: representable_def)

section \<open>Properties\<close>

definition ex_spend :: CTransaction where
  "ex_spend = \<lparr>nVersion = 2, nType = 0,
     vin = [\<lparr>prevout = \<lparr>op_hash = 5, op_n = 1\<rparr>, scriptSig = [1, 2], nSequence = 0xffffffff, scriptWitness = [[7]]\<rparr>],
     vout = [\<lparr>nValue = 3, scriptPubKey = [0x51], nRounds = -10\<rparr>], nLockTime = 9, vExtraPayload = []\<rparr>"

lemma ex_spend_fields: "tx_fields ex_spend" "tx_fields (ex_spend\<lparr>vin := []\<rparr>)"
  by (simp_all add: tx_fields_def ex_spend_def in_int16_def valid_txout_def valid_witness_def in_int64_def MAX_SIZE_def has_payload_def)

theorem transaction_roundtrip_witness:
  "UnserializeTransaction True (SerializeTransaction True ex_spend @ [1]) = Inr (ex_spend, [1]) \<and>
   UnserializeTransaction True (SerializeTransaction True (ex_spend\<lparr>vin := []\<rparr>) @ [1]) \<noteq> Inr (ex_spend\<lparr>vin := []\<rparr>, [1])"
  using transaction_roundtrip [OF ex_spend_fields(1), of True "[1]"] transaction_roundtrip [OF ex_spend_fields(2), of True "[1]"]
  by (simp add: ex_spend_def)

text \<open>What the reader returns is in the ranges of the fields of the class, and in the shape its formats can have.\<close>

definition typed_tx :: "bool \<Rightarrow> CTransaction \<Rightarrow> bool" where
  "typed_tx fAllowWitness tx \<longleftrightarrow> tx_fields tx \<and> (\<not> fAllowWitness \<longrightarrow> \<not> HasWitness tx)"

lemma int16_range: "in_int16 (int16 x)"
  unfolding in_int16_def int16_def
  using signed_take_bit_int_less_exp [of 15 x] signed_take_bit_int_greater_eq_minus_exp [of 15 x] by simp

lemma read_witnesses_typed:
  "read_witnesses xs bs = Inr (ys, rest) \<Longrightarrow> list_all valid_txin xs \<Longrightarrow>
   length ys = length xs \<and> list_all (\<lambda>x. length (scriptSig x) \<le> MAX_SIZE \<and> valid_witness (scriptWitness x)) ys"
proof (induction xs arbitrary: bs ys)
  case (Cons x xs)
  then obtain w bs1 zs where w: "Unserialize_witness bs = Inr (w, bs1)" "read_witnesses xs bs1 = Inr (zs, rest)"
    "ys = x\<lparr>scriptWitness := w\<rparr> # zs"
    by (auto simp: rbind_Inr_iff)
  have "valid_witness w"
    using cbytes.Unserialize_vector_canonical w(1) by (auto simp: Unserialize_witness_def valid_witness_def)
  then show ?case
    using Cons.IH [OF w(2)] Cons.prems(2) w(3) by (simp add: valid_txin_def)
qed (simp add: rret_def)

lemma read_in_out_typed:
  assumes "read_in_out fAllowWitness bs = Inr ((ins, outs, flags), rest)"
  shows "length ins \<le> MAX_SIZE \<and> list_all valid_txin ins \<and> length outs \<le> MAX_SIZE \<and> list_all valid_txout outs"
  using assms ctxin.Unserialize_vector_canonical ctxout.Unserialize_vector_canonical
  by (auto simp: read_in_out_def rbind_Inr_iff split: if_splits)

text \<open>
  C33. The reader of transactions is type safe: whatever bytes it accepts, the transaction it returns has every field in the
  range of its C++ type, sizes within the limit, a payload only in a version that has one and witnesses only in the
  extended format; and writing and reading it again, in either format \<open>g\<close>, gives it back (without its witnesses where \<open>g\<close> has none)
  exactly if its version is not negative or its type is \<open>-1\<close>, and it has inputs, or no outputs, or \<open>g\<close> has no witnesses.
\<close>

theorem parsed_transaction_typed:
  assumes "UnserializeTransaction fAllowWitness bs = Inr (tx, rest)"
  shows "typed_tx fAllowWitness tx \<and>
    (UnserializeTransaction g (SerializeTransaction g tx @ rest2) = Inr (if g then tx else strip_witness tx, rest2) \<longleftrightarrow>
      (0 \<le> nVersion tx \<or> nType tx = -1) \<and> (vin tx \<noteq> [] \<or> vout tx = [] \<or> \<not> g))"
proof -
  obtain w bs1 where "bs = ser_writedata32 w @ bs1"
    using assms by (auto simp: UnserializeTransaction_def rbind_Inr_iff word_codec_iff)
  with assms have "UnserializeTransaction fAllowWitness (ser_writedata32 w @ bs1) = Inr (tx, rest)" by simp
  then obtain ins outs flags bs2 ins' flags' bs3 lock bs4 payload where r:
    "read_in_out fAllowWitness bs1 = Inr ((ins, outs, flags), bs2)"
    "(if flags AND 1 \<noteq> 0 \<and> fAllowWitness then rbind (read_witnesses ins) (\<lambda>v. rret (v, flags XOR 1)) else rret (ins, flags)) bs2
       = Inr ((ins', flags'), bs3)"
    "(if has_payload (version_of w) (type_of w) then Unserialize_bytes else rret []) bs4 = Inr (payload, rest)"
    "tx = \<lparr>nVersion = version_of w, nType = type_of w, vin = ins', vout = outs, nLockTime = lock, vExtraPayload = payload\<rparr>"
    by (rule read_tx_parts)
  note io = read_in_out_typed [OF r(1)]
  have ins: "length ins' \<le> MAX_SIZE \<and> list_all (\<lambda>x. length (scriptSig x) \<le> MAX_SIZE \<and> valid_witness (scriptWitness x)) ins'
      \<and> (\<not> fAllowWitness \<longrightarrow> \<not> list_ex (\<lambda>x. scriptWitness x \<noteq> []) ins')"
  proof (cases "flags AND 1 \<noteq> 0 \<and> fAllowWitness")
    case True
    then obtain bs' where "read_witnesses ins bs2 = Inr (ins', bs')"
      using r(2) by (auto simp: rbind_Inr_iff)
    then show ?thesis
      using read_witnesses_typed io True by fastforce
  next
    case False
    then have "ins' = ins"
      using r(2) by (simp split: if_splits)
    then show ?thesis
      using io by (auto simp: valid_txin_def valid_witness_def list_all_iff list_ex_iff)
  qed
  have pay: "length payload \<le> MAX_SIZE \<and> (\<not> has_payload (version_of w) (type_of w) \<longrightarrow> payload = [])"
    using r(3) by (auto simp: codec_iffs split: if_splits)
  have "typed_tx fAllowWitness tx"
    using io ins pay by (simp add: typed_tx_def tx_fields_def r(4) version_of_def type_of_def int16_range HasWitness_def)
  then show ?thesis
    using tx_roundtrip_iff [of tx g rest2] by (simp add: typed_tx_def representable_def)
qed

theorem parsed_transaction_typed_witness:
  "typed_tx True ex_spend \<and> UnserializeTransaction True (SerializeTransaction True ex_spend @ [1]) = Inr (ex_spend, [1])"
proof -
  have "UnserializeTransaction True (SerializeTransaction True ex_spend @ []) = Inr (ex_spend, [])"
    using tx_roundtrip [OF ex_spend_fields(1), of True "[]"] by (simp add: representable_def ex_spend_def)
  from parsed_transaction_typed [OF this, of True "[1]"] show ?thesis
    by (simp add: ex_spend_def)
qed

text \<open>
  The wrap-around of \<^verbatim>\<open>GetValueOut\<close> is never reached: a value is checked before it is added to a sum that is in
  range.
\<close>

lemma GetValueOut_loop_eq:
  "MoneyRange n \<Longrightarrow> GetValueOut_loop outs n =
     (if (\<forall>x \<in> set outs. MoneyRange (nValue x)) \<and> MoneyRange (n + (\<Sum>x\<leftarrow>outs. nValue x))
      then Some (n + (\<Sum>x\<leftarrow>outs. nValue x)) else None)"
proof (induction outs arbitrary: n)
  case (Cons x outs)
  let ?n = "n + nValue x"
  have id: "MoneyRange (nValue x) \<Longrightarrow> int64 ?n = ?n"
    using Cons.prems by (intro int64_id) (auto simp: in_int64_def MoneyRange_def MAX_MONEY_def COIN_def)
  have "0 \<le> (\<Sum>y\<leftarrow>outs. nValue y)" if "\<forall>y \<in> set outs. MoneyRange (nValue y)"
    using that by (intro sum_list_nonneg) (auto simp: MoneyRange_def)
  then have big: "\<not> MoneyRange (?n + (\<Sum>y\<leftarrow>outs. nValue y))"
    if "\<forall>y \<in> set outs. MoneyRange (nValue y)" "MoneyRange (nValue x)" "\<not> MoneyRange ?n"
    using that Cons.prems by (auto simp: MoneyRange_def)
  show ?case
  proof (cases "MoneyRange (nValue x) \<and> MoneyRange ?n")
    case True
    with id Cons.IH [of ?n] show ?thesis by (auto simp: Let_def add.assoc)
  next
    case False
    with id big show ?thesis by (auto simp: Let_def add.assoc)
  qed
qed simp

text \<open>
  \<^verbatim>\<open>GetValueOut\<close> returns the exact sum of the outputs if every output and the sum are in the money range and
  throws otherwise; the 64-bit addition never wraps unnoticed.
\<close>

theorem GetValueOut_exact:
  "GetValueOut tx = (if (\<forall>x \<in> set (vout tx). MoneyRange (nValue x)) \<and> MoneyRange (\<Sum>x\<leftarrow>vout tx. nValue x)
     then Some (\<Sum>x\<leftarrow>vout tx. nValue x) else None)"
  using GetValueOut_loop_eq [of 0 "vout tx"] by (simp add: GetValueOut_def MoneyRange_def MAX_MONEY_def COIN_def)

theorem GetValueOut_exact_witness: "GetValueOut ex_spend = Some 3"
  using GetValueOut_exact [of ex_spend] by (simp add: ex_spend_def MoneyRange_def MAX_MONEY_def COIN_def)

text \<open>
  Transactions with a negative version do not survive the round trip: the version is sign-extended over the
  type, so the type read back is -1 whatever it was, and two different transactions have one serialization.
\<close>

theorem negative_version_collision:
  "SerializeTransaction f (ex_spend \<lparr>nVersion := -1\<rparr>) = SerializeTransaction f (ex_spend \<lparr>nVersion := -1, nType := 5\<rparr>) \<and>
   type_of (n32bitVersion (-1) 5) = -1"
  by (simp add: SerializeTransaction_def ex_spend_def n32bitVersion_def type_of_def has_payload_def Let_def HasWitness_def int16_def mask_eq_exp_minus_1)

end
