(* ===== verification/AssetTypes.thy ===== *)
theory AssetTypes
  imports Transaction
begin

text \<open>
  The asset payloads (\<^verbatim>\<open>src/src/assets/assettypes.h\<close>) and the functions of
  \<^verbatim>\<open>src/src/script/script.cpp\<close> that look inside an asset script: the wire formats of new assets,
  transfers, reissues, tags and verifier strings, the amount an asset script carries, and
  \<^verbatim>\<open>IsUnspendable\<close>. Strings are \<open>string\<close>, with raw bytes in them as in the code.
\<close>

section \<open>Data\<close>

datatype AssetType = ROOT | SUB | UNIQUE | MSGCHANNEL | QUALIFIER | SUB_QUALIFIER | RESTRICTED | VOTE
  | REISSUE | OWNER | NULL_ADD_QUALIFIER | INVALID

datatype QualifierType = REMOVE_QUALIFIER | ADD_QUALIFIER

datatype RestrictedType = UNFREEZE_ADDRESS | FREEZE_ADDRESS | GLOBAL_UNFREEZE | GLOBAL_FREEZE

record CNewAsset =
  na_strName :: string
  na_nAmount :: int
  na_units :: int
  na_nReissuable :: int
  na_nHasIPFS :: int
  na_strIPFSHash :: string

record CAssetTransfer =
  tr_strName :: string
  tr_nAmount :: int
  tr_message :: string
  tr_nExpireTime :: int

record CReissueAsset =
  re_strName :: string
  re_nAmount :: int
  re_nUnits :: int
  re_nReissuable :: int
  re_strIPFSHash :: string

record CNullAssetTxData =
  nd_asset_name :: string
  nd_flag :: int

definition OWNER_ASSET_AMOUNT :: int where "OWNER_ASSET_AMOUNT = 1 * COIN"
definition UNIQUE_ASSET_AMOUNT :: int where "UNIQUE_ASSET_AMOUNT = 1 * COIN"
definition QUALIFIER_ASSET_MIN_AMOUNT :: int where "QUALIFIER_ASSET_MIN_AMOUNT = 1 * COIN"
definition QUALIFIER_ASSET_MAX_AMOUNT :: int where "QUALIFIER_ASSET_MAX_AMOUNT = 10 * COIN"
definition MAX_UNIT :: int where "MAX_UNIT = 8"
definition MIN_UNIT :: int where "MIN_UNIT = 0"

section \<open>Wire formats\<close>

definition IPFS_SHA2_256 :: byte where "IPFS_SHA2_256 = 0x12"
definition TXID_NOTIFIER :: byte where "TXID_NOTIFIER = 0x54"
definition IPFS_SHA2_256_LEN :: byte where "IPFS_SHA2_256_LEN = 0x20"

text \<open>
  \<^verbatim>\<open>ReadWriteAssetHash\<close> for writing and for reading; the flag is its return value. Reading looks
  at the number of bytes left in the stream first.
\<close>

definition WriteAssetHash :: "string \<Rightarrow> bytes \<times> bool" where
  "WriteAssetHash strIPFSHash =
     (if length strIPFSHash = 34 then ([IPFS_SHA2_256] @ Serialize_string (drop 2 strIPFSHash), True)
      else if length strIPFSHash = 32 then ([TXID_NOTIFIER] @ Serialize_string strIPFSHash, True)
      else ([], False))"

definition ReadAssetHash :: "(string \<times> bool) reader" where
  "ReadAssetHash bs =
     (if length bs \<ge> 33 then
        rbind ser_readdata8 (\<lambda>sha2_256. rbind Unserialize_string (\<lambda>hash.
          rret ((if sha2_256 = IPFS_SHA2_256 then bytes_string [IPFS_SHA2_256, IPFS_SHA2_256_LEN] else []) @
                take 32 hash, True))) bs
      else rret ([], False) bs)"

definition Serialize_CNewAsset :: "CNewAsset \<Rightarrow> bytes" where
  "Serialize_CNewAsset a =
     Serialize_string (na_strName a) @ Serialize_int64 (na_nAmount a) @ Serialize_int8 (na_units a) @
     Serialize_int8 (na_nReissuable a) @ Serialize_int8 (na_nHasIPFS a) @
     (if na_nHasIPFS a = 1 then fst (WriteAssetHash (na_strIPFSHash a)) else [])"

definition Unserialize_CNewAsset :: "CNewAsset reader" where
  "Unserialize_CNewAsset =
     rbind Unserialize_string (\<lambda>name. rbind Unserialize_int64 (\<lambda>amount. rbind Unserialize_int8 (\<lambda>units.
     rbind Unserialize_int8 (\<lambda>reissuable. rbind Unserialize_int8 (\<lambda>hasipfs.
     rbind (if hasipfs = 1 then ReadAssetHash else rret ([], False)) (\<lambda>(hash, _).
       rret \<lparr>na_strName = name, na_nAmount = amount, na_units = units, na_nReissuable = reissuable,
         na_nHasIPFS = hasipfs, na_strIPFSHash = hash\<rparr>))))))"

definition Serialize_CAssetTransfer :: "CAssetTransfer \<Rightarrow> bytes" where
  "Serialize_CAssetTransfer t =
     Serialize_string (tr_strName t) @ Serialize_int64 (tr_nAmount t) @ fst (WriteAssetHash (tr_message t)) @
     (if snd (WriteAssetHash (tr_message t)) \<and> tr_nExpireTime t \<noteq> 0
      then Serialize_int64 (tr_nExpireTime t) else [])"

definition read_expire :: "bool \<Rightarrow> int reader" where
  "read_expire validIPFS bs =
     (if validIPFS \<and> length bs \<ge> 8 then Unserialize_int64 bs else rret 0 bs)"

definition Unserialize_CAssetTransfer :: "CAssetTransfer reader" where
  "Unserialize_CAssetTransfer =
     rbind Unserialize_string (\<lambda>name. rbind Unserialize_int64 (\<lambda>amount.
     rbind ReadAssetHash (\<lambda>(message, validIPFS). rbind (read_expire validIPFS) (\<lambda>expire.
       rret \<lparr>tr_strName = name, tr_nAmount = amount, tr_message = message, tr_nExpireTime = expire\<rparr>))))"

definition Serialize_CReissueAsset :: "CReissueAsset \<Rightarrow> bytes" where
  "Serialize_CReissueAsset r =
     Serialize_string (re_strName r) @ Serialize_int64 (re_nAmount r) @ Serialize_int8 (re_nUnits r) @
     Serialize_int8 (re_nReissuable r) @ fst (WriteAssetHash (re_strIPFSHash r))"

definition Unserialize_CReissueAsset :: "CReissueAsset reader" where
  "Unserialize_CReissueAsset =
     rbind Unserialize_string (\<lambda>name. rbind Unserialize_int64 (\<lambda>amount. rbind Unserialize_int8 (\<lambda>units.
     rbind Unserialize_int8 (\<lambda>reissuable. rbind ReadAssetHash (\<lambda>(hash, _).
       rret \<lparr>re_strName = name, re_nAmount = amount, re_nUnits = units, re_nReissuable = reissuable,
         re_strIPFSHash = hash\<rparr>)))))"

definition Serialize_CNullAssetTxData :: "CNullAssetTxData \<Rightarrow> bytes" where
  "Serialize_CNullAssetTxData d = Serialize_string (nd_asset_name d) @ Serialize_int8 (nd_flag d)"

definition Unserialize_CNullAssetTxData :: "CNullAssetTxData reader" where
  "Unserialize_CNullAssetTxData =
     rbind Unserialize_string (\<lambda>name. rbind Unserialize_int8 (\<lambda>flag.
       rret \<lparr>nd_asset_name = name, nd_flag = flag\<rparr>))"

section \<open>The amount that an asset script carries\<close>

text \<open>\<open>ScriptNewAsset\<close> and its siblings return the starting index when the code returns true.\<close>

definition ScriptNewAsset :: "script \<Rightarrow> nat option" where
  "ScriptNewAsset s = (case IsAssetScript s of
     Some (type, fIsOwner, nStartingIndex) \<Rightarrow>
       if type = TX_NEW_ASSET \<and> \<not> fIsOwner then Some nStartingIndex else None
   | None \<Rightarrow> None)"

definition ScriptTransferAsset :: "script \<Rightarrow> nat option" where
  "ScriptTransferAsset s = (case IsAssetScript s of
     Some (type, fIsOwner, nStartingIndex) \<Rightarrow> if type = TX_TRANSFER_ASSET then Some nStartingIndex else None
   | None \<Rightarrow> None)"

definition ScriptReissueAsset :: "script \<Rightarrow> nat option" where
  "ScriptReissueAsset s = (case IsAssetScript s of
     Some (type, fIsOwner, nStartingIndex) \<Rightarrow> if type = TX_REISSUE_ASSET then Some nStartingIndex else None
   | None \<Rightarrow> None)"

definition read_payload :: "'a reader \<Rightarrow> script \<Rightarrow> nat \<Rightarrow> 'a option" where
  "read_payload r s nStartingIndex = (case r (drop nStartingIndex s) of Inl _ \<Rightarrow> None | Inr (x, _) \<Rightarrow> Some x)"

definition AmountFromNewAssetScript :: "script \<Rightarrow> int option" where
  "AmountFromNewAssetScript s = (case ScriptNewAsset s of
     None \<Rightarrow> None | Some i \<Rightarrow> map_option na_nAmount (read_payload Unserialize_CNewAsset s i))"

definition AmountFromTransferScript :: "script \<Rightarrow> int option" where
  "AmountFromTransferScript s = (case ScriptTransferAsset s of
     None \<Rightarrow> None | Some i \<Rightarrow> map_option tr_nAmount (read_payload Unserialize_CAssetTransfer s i))"

definition AmountFromReissueScript :: "script \<Rightarrow> int option" where
  "AmountFromReissueScript s = (case ScriptReissueAsset s of
     None \<Rightarrow> None | Some i \<Rightarrow> map_option re_nAmount (read_payload Unserialize_CReissueAsset s i))"

definition GetAssetAmountFromScript :: "script \<Rightarrow> int option" where
  "GetAssetAmountFromScript s =
     (case IsAssetScript s of
        None \<Rightarrow> None
      | Some (type, fIsOwner, _) \<Rightarrow>
          if type = TX_NEW_ASSET \<and> \<not> fIsOwner then AmountFromNewAssetScript s
          else if type = TX_TRANSFER_ASSET then AmountFromTransferScript s
          else if type = TX_NEW_ASSET \<and> fIsOwner then Some OWNER_ASSET_AMOUNT
          else if type = TX_REISSUE_ASSET then AmountFromReissueScript s
          else None)"

definition IsUnspendable :: "script \<Rightarrow> bool" where
  "IsUnspendable s \<longleftrightarrow>
     length s > 0 \<and> hd s = OP_RETURN \<or> length s > 0 \<and> hd s = OP_BLKR_ASSET \<or>
     length s > MAX_SCRIPT_SIZE \<or> GetAssetAmountFromScript s = Some 0"

section \<open>Round trips of the payloads\<close>

text \<open>
  The hashes that survive a round trip: an IPFS hash with its two-byte prefix, which is not written
  but restored, or a 32-byte transaction id.
\<close>

definition valid_hash :: "string \<Rightarrow> bool" where
  "valid_hash h \<longleftrightarrow> length h = 32 \<or>
     length h = 34 \<and> take 2 h = bytes_string [IPFS_SHA2_256, IPFS_SHA2_256_LEN]"

lemma length_CompactSize_small: "n < 253 \<Longrightarrow> WriteCompactSize (of_nat n) = [of_nat n]"
  by (simp add: WriteCompactSize_def ser_writedata8_def word_less_nat_alt unat_of_nat word_unat_eq_iff
    unsigned_ucast_eq take_bit_nat_eq_self)

lemma length_Serialize_string: "length h < 253 \<Longrightarrow> length (Serialize_string h) = length h + 1"
  by (simp add: Serialize_string_def Serialize_bytes_def length_CompactSize_small)

lemmas asset_codecs = ci64.rbind_ser ci8.rbind_ser cstring.rbind_ser ci64.rbind_ser_end ci8.rbind_ser_end

lemma ReadAssetHash_Write:
  assumes "valid_hash h"
  shows "rbind ReadAssetHash f (fst (WriteAssetHash h) @ rest) = f (h, True) rest"
proof -
  have len: "length (fst (WriteAssetHash h) @ rest) \<ge> 33"
    using assms by (auto simp: WriteAssetHash_def valid_hash_def length_Serialize_string)
  have one: "[b] = ser_writedata8 b" for b by (simp add: ser_writedata8_def)
  have "ReadAssetHash (fst (WriteAssetHash h) @ rest) = Inr ((h, True), rest)"
  proof (cases "length h = 34")
    case True
    then have h: "bytes_string [IPFS_SHA2_256, IPFS_SHA2_256_LEN] @ drop 2 h = h"
      using assms by (metis append_take_drop_id valid_hash_def numeral_eq_iff semiring_norm(86,87,88,89))
    have w: "fst (WriteAssetHash h) = ser_writedata8 IPFS_SHA2_256 @ Serialize_string (drop 2 h)"
      using True by (simp add: WriteAssetHash_def one)
    show ?thesis
      using len True h unfolding ReadAssetHash_def w
      by (simp add: asset_codecs MAX_SIZE_def rret_def)
  next
    case False
    then have l: "length h = 32" using assms by (auto simp: valid_hash_def)
    have w: "fst (WriteAssetHash h) = ser_writedata8 TXID_NOTIFIER @ Serialize_string h"
      using l by (simp add: WriteAssetHash_def one)
    show ?thesis
      using len l unfolding ReadAssetHash_def w
      by (simp add: asset_codecs MAX_SIZE_def rret_def IPFS_SHA2_256_def TXID_NOTIFIER_def)
  qed
  then show ?thesis by (simp add: rbind_def)
qed

lemma ReadAssetHash_short: "length rest < 33 \<Longrightarrow> rbind ReadAssetHash f rest = f ([], False) rest"
  by (simp add: rbind_def ReadAssetHash_def rret_def)

lemma ReadAssetHash_end:
  "rbind ReadAssetHash f [] = f ([], False) []"
  "valid_hash h \<Longrightarrow> rbind ReadAssetHash f (fst (WriteAssetHash h)) = f (h, True) []"
  using ReadAssetHash_short [of "[]" f] ReadAssetHash_Write [of h f "[]"] by simp_all

definition valid_new_asset :: "CNewAsset \<Rightarrow> bool" where
  "valid_new_asset a \<longleftrightarrow> length (na_strName a) \<le> MAX_SIZE \<and> in_int64 (na_nAmount a) \<and> in_int8 (na_units a) \<and>
     in_int8 (na_nReissuable a) \<and> in_int8 (na_nHasIPFS a) \<and>
     (if na_nHasIPFS a = 1 then valid_hash (na_strIPFSHash a) else na_strIPFSHash a = [])"

lemma Unserialize_CNewAsset_ser:
  "valid_new_asset a \<Longrightarrow> Unserialize_CNewAsset (Serialize_CNewAsset a @ rest) = Inr (a, rest)"
  by (auto simp: valid_new_asset_def Unserialize_CNewAsset_def Serialize_CNewAsset_def asset_codecs
    ReadAssetHash_Write rret_def)

interpretation cnewasset: serializer Serialize_CNewAsset Unserialize_CNewAsset valid_new_asset
  by unfold_locales (rule Unserialize_CNewAsset_ser)

definition valid_transfer :: "CAssetTransfer \<Rightarrow> bool" where
  "valid_transfer t \<longleftrightarrow> length (tr_strName t) \<le> MAX_SIZE \<and> in_int64 (tr_nAmount t) \<and> in_int64 (tr_nExpireTime t) \<and>
     (valid_hash (tr_message t) \<or> tr_message t = [] \<and> tr_nExpireTime t = 0)"

lemma length_Serialize_int64 [simp]: "length (Serialize_int64 x) = 8"
  by (simp add: Serialize_int64_def ser_writedata64_def)

text \<open>The optional fields are read by the number of bytes left, so only a few bytes may follow.\<close>

lemma Unserialize_CAssetTransfer_ser:
  assumes "valid_transfer t" "length rest < 8"
  shows "Unserialize_CAssetTransfer (Serialize_CAssetTransfer t @ rest) = Inr (t, rest)"
proof (cases "valid_hash (tr_message t)")
  case True
  have w: "snd (WriteAssetHash (tr_message t))" using True by (auto simp: WriteAssetHash_def valid_hash_def)
  have e: "Unserialize_int64 (Serialize_int64 (tr_nExpireTime t) @ rest) = Inr (tr_nExpireTime t, rest)"
    using ci64.unser_ser [of "tr_nExpireTime t" rest] assms by (simp add: valid_transfer_def)
  show ?thesis
    using assms True w e
    by (auto simp: valid_transfer_def Unserialize_CAssetTransfer_def Serialize_CAssetTransfer_def asset_codecs
      ReadAssetHash_Write read_expire_def rbind_def [of "read_expire _"] rret_def)
next
  case False
  then show ?thesis
    using assms
    by (simp add: ReadAssetHash_short valid_transfer_def Unserialize_CAssetTransfer_def Serialize_CAssetTransfer_def asset_codecs
      WriteAssetHash_def read_expire_def rbind_def [of "read_expire _"] rret_def)
qed

definition valid_reissue :: "CReissueAsset \<Rightarrow> bool" where
  "valid_reissue r \<longleftrightarrow> length (re_strName r) \<le> MAX_SIZE \<and> in_int64 (re_nAmount r) \<and> in_int8 (re_nUnits r) \<and>
     in_int8 (re_nReissuable r) \<and> (valid_hash (re_strIPFSHash r) \<or> re_strIPFSHash r = [])"

lemma Unserialize_CReissueAsset_ser:
  assumes "valid_reissue r" "length rest < 33"
  shows "Unserialize_CReissueAsset (Serialize_CReissueAsset r @ rest) = Inr (r, rest)"
proof (cases "valid_hash (re_strIPFSHash r)")
  case True
  then show ?thesis
    using assms
    by (simp add: ReadAssetHash_Write valid_reissue_def Unserialize_CReissueAsset_def Serialize_CReissueAsset_def asset_codecs rret_def)
next
  case False
  then show ?thesis
    using assms
    by (simp add: ReadAssetHash_short valid_reissue_def Unserialize_CReissueAsset_def Serialize_CReissueAsset_def asset_codecs
      WriteAssetHash_def rret_def)
qed

section \<open>Properties\<close>

text \<open>
  Round trips of the asset payloads: a new asset, a transfer (with or without a message and an expiry time)
  and a reissue are read back as they were written, the hash's two-byte prefix being dropped and restored.
\<close>

theorem asset_payload_roundtrip:
  assumes "valid_new_asset a" "valid_transfer t" "valid_reissue r"
  shows "Unserialize_CNewAsset (Serialize_CNewAsset a @ rest) = Inr (a, rest) \<and>
    Unserialize_CAssetTransfer (Serialize_CAssetTransfer t) = Inr (t, []) \<and>
    Unserialize_CReissueAsset (Serialize_CReissueAsset r) = Inr (r, [])"
  using assms Unserialize_CAssetTransfer_ser [of t "[]"] Unserialize_CReissueAsset_ser [of r "[]"]
  by (simp add: Unserialize_CNewAsset_ser)

theorem asset_payload_roundtrip_witness:
  "Unserialize_CNewAsset (Serialize_CNewAsset \<lparr>na_strName = ''RAVEN'', na_nAmount = 100, na_units = 2, na_nReissuable = 1,
     na_nHasIPFS = 0, na_strIPFSHash = []\<rparr>) =
   Inr (\<lparr>na_strName = ''RAVEN'', na_nAmount = 100, na_units = 2, na_nReissuable = 1, na_nHasIPFS = 0, na_strIPFSHash = []\<rparr>, [])"
proof -
  have "valid_new_asset \<lparr>na_strName = ''RAVEN'', na_nAmount = 100, na_units = 2, na_nReissuable = 1, na_nHasIPFS = 0, na_strIPFSHash = []\<rparr>"
    "valid_transfer \<lparr>tr_strName = ''RAVEN'', tr_nAmount = 4, tr_message = replicate 32 CHR ''x'', tr_nExpireTime = 99\<rparr>"
    "valid_reissue \<lparr>re_strName = ''RAVEN'', re_nAmount = 4, re_nUnits = 3, re_nReissuable = 1, re_strIPFSHash = []\<rparr>"
    by (simp_all add: valid_new_asset_def valid_transfer_def valid_reissue_def in_int64_def in_int8_def MAX_SIZE_def valid_hash_def)
  from asset_payload_roundtrip [OF this, of "[]"] show ?thesis by simp
qed

end
