(* ===== verification/AssetNames.thy ===== *)
theory AssetNames
  imports AssetTypes
begin

text \<open>
  The names of assets (\<^verbatim>\<open>src/src/assets/assets.cpp\<close>, lines 43 to 438): which strings name an asset of which
  type, the parent of a name, and the name of the token that owns a restricted asset. The regular
  expressions of the code are all sequences of character classes, each single or repeated at least
  a number of times; \<open>regex_match\<close> runs such a sequence over the whole string as \<^verbatim>\<open>std::regex_match\<close> does.
\<close>

section \<open>Regular expressions and splitting\<close>

datatype regex_item = One "char \<Rightarrow> bool" | AtLeast "char \<Rightarrow> bool" nat

fun regex_match :: "string \<Rightarrow> regex_item list \<Rightarrow> bool" where
  "regex_match s [] \<longleftrightarrow> s = []"
| "regex_match s (One P # r) \<longleftrightarrow> (case s of [] \<Rightarrow> False | c # s' \<Rightarrow> P c \<and> regex_match s' r)"
| "regex_match s (AtLeast P (Suc n) # r) \<longleftrightarrow> (case s of [] \<Rightarrow> False | c # s' \<Rightarrow> P c \<and> regex_match s' (AtLeast P n # r))"
| "regex_match [] (AtLeast P 0 # r) \<longleftrightarrow> regex_match [] r"
| "regex_match (c # s') (AtLeast P 0 # r) \<longleftrightarrow> regex_match (c # s') r \<or> P c \<and> regex_match s' (AtLeast P 0 # r)"

text \<open>\<^verbatim>\<open>boost::split\<close> at one delimiter: always at least one part, empty parts are kept.\<close>

fun split_at :: "char \<Rightarrow> string \<Rightarrow> string list" where
  "split_at d [] = [[]]"
| "split_at d (c # s) =
     (if c = d then [] # split_at d s
      else case split_at d s of [] \<Rightarrow> [[c]] | p # ps \<Rightarrow> (c # p) # ps)"

text \<open>\<^verbatim>\<open>find_last_of\<close> for one character, and the text before that position.\<close>

definition before_last :: "char \<Rightarrow> string \<Rightarrow> string option" where
  "before_last d s = (if d \<in> set s then Some (rev (tl (dropWhile (\<lambda>c. c \<noteq> d) (rev s)))) else None)"

section \<open>The character classes and the expressions\<close>

definition between :: "char \<Rightarrow> char \<Rightarrow> char \<Rightarrow> bool" where
  "between a b c \<longleftrightarrow> (of_char a :: nat) \<le> of_char c \<and> (of_char c :: nat) \<le> of_char b"

definition upper_digit :: "char \<Rightarrow> bool" where
  "upper_digit c \<longleftrightarrow> between CHR ''A'' CHR ''Z'' c \<or> between CHR ''0'' CHR ''9'' c"

definition lower :: "char \<Rightarrow> bool" where
  "lower c \<longleftrightarrow> between CHR ''a'' CHR ''z'' c"

definition punct :: "char \<Rightarrow> bool" where
  "punct c \<longleftrightarrow> c = CHR ''.'' \<or> c = CHR ''_''"

definition name_char :: "char \<Rightarrow> bool" where
  "name_char c \<longleftrightarrow> upper_digit c \<or> punct c"

definition unique_char :: "char \<Rightarrow> bool" where
  "unique_char c \<longleftrightarrow> upper_digit c \<or> lower c \<or> c \<in> set ''-@$%&*()[]{}_.?:''"

definition channel_char :: "char \<Rightarrow> bool" where
  "channel_char c \<longleftrightarrow> upper_digit c \<or> lower c \<or> c = CHR ''_''"

text \<open>The dot of an expression: any character but a line terminator.\<close>

definition dot :: "char \<Rightarrow> bool" where
  "dot c \<longleftrightarrow> c \<noteq> CHR 0x0A \<and> c \<noteq> CHR 0x0D"

abbreviation (input) ch :: "char \<Rightarrow> regex_item" where
  "ch a \<equiv> One (\<lambda>c. c = a)"

definition ROOT_NAME_CHARACTERS :: "regex_item list" where
  "ROOT_NAME_CHARACTERS = [AtLeast name_char 3]"
definition SUB_NAME_CHARACTERS :: "regex_item list" where
  "SUB_NAME_CHARACTERS = [AtLeast name_char 1]"
definition UNIQUE_TAG_CHARACTERS :: "regex_item list" where
  "UNIQUE_TAG_CHARACTERS = [AtLeast unique_char 1]"
definition MSGCHANNEL_TAG_CHARACTERS :: "regex_item list" where
  "MSGCHANNEL_TAG_CHARACTERS = [AtLeast channel_char 1]"
definition VOTE_TAG_CHARACTERS :: "regex_item list" where
  "VOTE_TAG_CHARACTERS = [AtLeast name_char 1]"
definition QUALIFIER_NAME_CHARACTERS :: "regex_item list" where
  "QUALIFIER_NAME_CHARACTERS = [ch CHR ''#'', AtLeast name_char 3]"
definition SUB_QUALIFIER_NAME_CHARACTERS :: "regex_item list" where
  "SUB_QUALIFIER_NAME_CHARACTERS = [ch CHR ''#'', AtLeast name_char 1]"
definition RESTRICTED_NAME_CHARACTERS :: "regex_item list" where
  "RESTRICTED_NAME_CHARACTERS = [ch CHR ''$'', AtLeast name_char 3]"
definition DOUBLE_PUNCTUATION :: "regex_item list" where
  "DOUBLE_PUNCTUATION = [AtLeast dot 0, AtLeast punct 2, AtLeast dot 0]"
definition LEADING_PUNCTUATION :: "regex_item list" where
  "LEADING_PUNCTUATION = [One punct, AtLeast dot 0]"
definition TRAILING_PUNCTUATION :: "regex_item list" where
  "TRAILING_PUNCTUATION = [AtLeast dot 0, One punct]"
definition QUALIFIER_LEADING_PUNCTUATION :: "regex_item list" where
  "QUALIFIER_LEADING_PUNCTUATION = [One (\<lambda>c. c = CHR ''#'' \<or> c = CHR ''$''), One punct, AtLeast dot 0]"

definition before_tag :: "char \<Rightarrow> bool" where
  "before_tag c \<longleftrightarrow> c \<notin> set ''^~#!''"
definition after_tag :: "char \<Rightarrow> bool" where
  "after_tag c \<longleftrightarrow> c \<notin> set ''~#!/''"

definition UNIQUE_INDICATOR :: "regex_item list" where
  "UNIQUE_INDICATOR = [AtLeast before_tag 1, ch CHR ''#'', AtLeast after_tag 1]"
definition MSGCHANNEL_INDICATOR :: "regex_item list" where
  "MSGCHANNEL_INDICATOR = [AtLeast before_tag 1, ch CHR ''~'', AtLeast after_tag 1]"
definition OWNER_INDICATOR :: "regex_item list" where
  "OWNER_INDICATOR = [AtLeast before_tag 1, ch CHR ''!'']"
definition VOTE_INDICATOR :: "regex_item list" where
  "VOTE_INDICATOR = [AtLeast before_tag 1, ch CHR ''^'', AtLeast after_tag 1]"
definition QUALIFIER_INDICATOR :: "regex_item list" where
  "QUALIFIER_INDICATOR = [ch CHR ''#'', AtLeast name_char 3]"
definition SUB_QUALIFIER_INDICATOR :: "regex_item list" where
  "SUB_QUALIFIER_INDICATOR = [ch CHR ''#'', AtLeast name_char 1, ch CHR ''/'', ch CHR ''#'', AtLeast name_char 1]"
definition RESTRICTED_INDICATOR :: "regex_item list" where
  "RESTRICTED_INDICATOR = [ch CHR ''$'', AtLeast name_char 3]"

definition BLACKRAVEN_NAMES :: "string list" where
  "BLACKRAVEN_NAMES = [''RVN'', ''RAVEN'', ''RAVENCOIN'', ''#RVN'', ''#RAVEN'', ''#RAVENCOIN'', ''BLKR'', ''BLKR'',
     ''BLACKRAVEN'', ''BLACKRAVENCOIN'', ''#BLKR'', ''#BLACKRAVEN'', ''#BLACKRAVENCOIN'']"

definition MAX_NAME_LENGTH :: nat where "MAX_NAME_LENGTH = 31"
definition MAX_CHANNEL_NAME_LENGTH :: nat where "MAX_CHANNEL_NAME_LENGTH = 12"
definition MIN_ASSET_LENGTH :: nat where "MIN_ASSET_LENGTH = 3"
definition OWNER_TAG :: string where "OWNER_TAG = ''!''"

section \<open>Valid names\<close>

definition IsRootNameValid :: "string \<Rightarrow> bool" where
  "IsRootNameValid name \<longleftrightarrow> regex_match name ROOT_NAME_CHARACTERS \<and> \<not> regex_match name DOUBLE_PUNCTUATION \<and>
     \<not> regex_match name LEADING_PUNCTUATION \<and> \<not> regex_match name TRAILING_PUNCTUATION \<and> name \<notin> set BLACKRAVEN_NAMES"

definition IsQualifierNameValid :: "string \<Rightarrow> bool" where
  "IsQualifierNameValid name \<longleftrightarrow> regex_match name QUALIFIER_NAME_CHARACTERS \<and> \<not> regex_match name DOUBLE_PUNCTUATION \<and>
     \<not> regex_match name QUALIFIER_LEADING_PUNCTUATION \<and> \<not> regex_match name TRAILING_PUNCTUATION \<and>
     name \<notin> set BLACKRAVEN_NAMES"

definition IsRestrictedNameValid :: "string \<Rightarrow> bool" where
  "IsRestrictedNameValid name \<longleftrightarrow> regex_match name RESTRICTED_NAME_CHARACTERS \<and> \<not> regex_match name DOUBLE_PUNCTUATION \<and>
     \<not> regex_match name LEADING_PUNCTUATION \<and> \<not> regex_match name TRAILING_PUNCTUATION \<and> name \<notin> set BLACKRAVEN_NAMES"

definition IsSubQualifierNameValid :: "string \<Rightarrow> bool" where
  "IsSubQualifierNameValid name \<longleftrightarrow> regex_match name SUB_QUALIFIER_NAME_CHARACTERS \<and>
     \<not> regex_match name DOUBLE_PUNCTUATION \<and> \<not> regex_match name LEADING_PUNCTUATION \<and>
     \<not> regex_match name TRAILING_PUNCTUATION"

definition IsSubNameValid :: "string \<Rightarrow> bool" where
  "IsSubNameValid name \<longleftrightarrow> regex_match name SUB_NAME_CHARACTERS \<and> \<not> regex_match name DOUBLE_PUNCTUATION \<and>
     \<not> regex_match name LEADING_PUNCTUATION \<and> \<not> regex_match name TRAILING_PUNCTUATION"

definition IsUniqueTagValid :: "string \<Rightarrow> bool" where
  "IsUniqueTagValid tag \<longleftrightarrow> regex_match tag UNIQUE_TAG_CHARACTERS"

definition IsVoteTagValid :: "string \<Rightarrow> bool" where
  "IsVoteTagValid tag \<longleftrightarrow> regex_match tag VOTE_TAG_CHARACTERS"

definition IsMsgChannelTagValid :: "string \<Rightarrow> bool" where
  "IsMsgChannelTagValid tag \<longleftrightarrow> regex_match tag MSGCHANNEL_TAG_CHARACTERS \<and> \<not> regex_match tag DOUBLE_PUNCTUATION \<and>
     \<not> regex_match tag LEADING_PUNCTUATION \<and> \<not> regex_match tag TRAILING_PUNCTUATION"

definition IsNameValidBeforeTag :: "string \<Rightarrow> bool" where
  "IsNameValidBeforeTag name \<longleftrightarrow>
     (let parts = split_at CHR ''/'' name in
      IsRootNameValid (hd parts) \<and> list_all IsSubNameValid (tl parts))"

definition IsQualifierNameValidBeforeTag :: "string \<Rightarrow> bool" where
  "IsQualifierNameValidBeforeTag name \<longleftrightarrow>
     (let parts = split_at CHR ''/'' name in
      IsQualifierNameValid (hd parts) \<and> \<not> length parts > 2 \<and> list_all IsSubQualifierNameValid (tl parts))"

definition IsAssetNameASubasset :: "string \<Rightarrow> bool" where
  "IsAssetNameASubasset name \<longleftrightarrow>
     (let parts = split_at CHR ''/'' name in IsRootNameValid (hd parts) \<and> length parts > 1)"

definition IsAssetNameASubQualifier :: "string \<Rightarrow> bool" where
  "IsAssetNameASubQualifier name \<longleftrightarrow>
     (let parts = split_at CHR ''/'' name in IsQualifierNameValid (hd parts) \<and> length parts > 1)"

text \<open>The error messages, by their kind.\<close>

datatype name_error = NameOver40 | NameTooLong nat | ChannelTooLong | NameTooShort
  | BadUniqueName | BadChannelName | BadOwnerName | BadVoteName | BadQualifierName | BadRestrictedName
  | SubNameTooShort | BadName

definition IsTypeCheckNameValid :: "AssetType \<Rightarrow> string \<Rightarrow> name_error + unit" where
  "IsTypeCheckNameValid type name =
     (if type = UNIQUE then
        (if length name > MAX_NAME_LENGTH then Inl (NameTooLong MAX_NAME_LENGTH)
         else let parts = split_at CHR ''#'' name in
           if \<not> (IsNameValidBeforeTag (hd parts) \<and> IsUniqueTagValid (last parts)) then Inl BadUniqueName else Inr ())
      else if type = MSGCHANNEL then
        (if length name > MAX_NAME_LENGTH then Inl (NameTooLong MAX_NAME_LENGTH)
         else let parts = split_at CHR ''~'' name in
           if length (last parts) > MAX_CHANNEL_NAME_LENGTH then Inl ChannelTooLong
           else if \<not> (IsNameValidBeforeTag (hd parts) \<and> IsMsgChannelTagValid (last parts)) then Inl BadChannelName
           else Inr ())
      else if type = OWNER then
        (if length name > MAX_NAME_LENGTH then Inl (NameTooLong MAX_NAME_LENGTH)
         else if \<not> IsNameValidBeforeTag (take (length name - 1) name) then Inl BadOwnerName else Inr ())
      else if type = VOTE then
        (if length name > MAX_NAME_LENGTH then Inl (NameTooLong MAX_NAME_LENGTH)
         else let parts = split_at CHR ''^'' name in
           if \<not> (IsNameValidBeforeTag (hd parts) \<and> IsVoteTagValid (last parts)) then Inl BadVoteName else Inr ())
      else if type = QUALIFIER \<or> type = SUB_QUALIFIER then
        (if length name > MAX_NAME_LENGTH then Inl (NameTooLong MAX_NAME_LENGTH)
         else if \<not> IsQualifierNameValidBeforeTag name then Inl BadQualifierName else Inr ())
      else if type = RESTRICTED then
        (if length name > MAX_NAME_LENGTH then Inl (NameTooLong MAX_NAME_LENGTH)
         else if \<not> IsRestrictedNameValid name then Inl BadRestrictedName else Inr ())
      else
        (if length name > MAX_NAME_LENGTH - 1 then Inl (NameTooLong (MAX_NAME_LENGTH - 1))
         else if \<not> IsAssetNameASubasset name \<and> length name < MIN_ASSET_LENGTH then Inl NameTooShort
         else let valid = IsNameValidBeforeTag name in
           if \<not> valid \<and> IsAssetNameASubasset name \<and> length name < 3 then Inl SubNameTooShort
           else if \<not> valid then Inl BadName else Inr ()))"

text \<open>
  \<^verbatim>\<open>IsAssetNameValid\<close>: the flag and the type it reports. The code leaves the type variable as it was for a
  name of more than 40 characters; the flag is false then.
\<close>

definition IsAssetNameValid :: "string \<Rightarrow> name_error + AssetType" where
  "IsAssetNameValid name =
     (if length name > 40 then Inl NameOver40
      else if regex_match name UNIQUE_INDICATOR then sbind (IsTypeCheckNameValid UNIQUE name) (\<lambda>_. Inr UNIQUE)
      else if regex_match name MSGCHANNEL_INDICATOR then sbind (IsTypeCheckNameValid MSGCHANNEL name) (\<lambda>_. Inr MSGCHANNEL)
      else if regex_match name OWNER_INDICATOR then sbind (IsTypeCheckNameValid OWNER name) (\<lambda>_. Inr OWNER)
      else if regex_match name VOTE_INDICATOR then sbind (IsTypeCheckNameValid VOTE name) (\<lambda>_. Inr VOTE)
      else if regex_match name QUALIFIER_INDICATOR then
        sbind (IsTypeCheckNameValid QUALIFIER name) (\<lambda>_.
          Inr (if IsAssetNameASubQualifier name then SUB_QUALIFIER else QUALIFIER))
      else if regex_match name SUB_QUALIFIER_INDICATOR then
        sbind (IsTypeCheckNameValid SUB_QUALIFIER name) (\<lambda>_.
          Inr (if IsAssetNameASubQualifier name then SUB_QUALIFIER else INVALID))
      else if regex_match name RESTRICTED_INDICATOR then sbind (IsTypeCheckNameValid RESTRICTED name) (\<lambda>_. Inr RESTRICTED)
      else let type = (if IsAssetNameASubasset name then SUB else ROOT) in
        sbind (IsTypeCheckNameValid type name) (\<lambda>_. Inr type))"

definition name_valid :: "string \<Rightarrow> bool" where
  "name_valid name \<longleftrightarrow> (case IsAssetNameValid name of Inl _ \<Rightarrow> False | Inr _ \<Rightarrow> True)"

definition IsAssetNameARoot :: "string \<Rightarrow> bool" where
  "IsAssetNameARoot name \<longleftrightarrow> IsAssetNameValid name = Inr ROOT"

definition IsAssetNameAnOwner :: "string \<Rightarrow> bool" where
  "IsAssetNameAnOwner name \<longleftrightarrow> name_valid name \<and> regex_match name OWNER_INDICATOR"

definition IsAssetNameAnRestricted :: "string \<Rightarrow> bool" where
  "IsAssetNameAnRestricted name \<longleftrightarrow> name_valid name \<and> regex_match name RESTRICTED_INDICATOR"

definition IsAssetNameAQualifier :: "string \<Rightarrow> bool \<Rightarrow> bool" where
  "IsAssetNameAQualifier name fOnlyQualifiers \<longleftrightarrow>
     (if fOnlyQualifiers then name_valid name \<and> regex_match name QUALIFIER_INDICATOR
      else name_valid name \<and> (regex_match name QUALIFIER_INDICATOR \<or> regex_match name SUB_QUALIFIER_INDICATOR))"

definition IsAssetNameAnMsgChannel :: "string \<Rightarrow> bool" where
  "IsAssetNameAnMsgChannel name \<longleftrightarrow> name_valid name \<and> regex_match name MSGCHANNEL_INDICATOR"

definition RestrictedNameToOwnerName :: "string \<Rightarrow> string" where
  "RestrictedNameToOwnerName name = (if \<not> IsAssetNameAnRestricted name then [] else tl name @ OWNER_TAG)"

definition GetParentName :: "string \<Rightarrow> string" where
  "GetParentName name =
     (case IsAssetNameValid name of
        Inl _ \<Rightarrow> []
      | Inr type \<Rightarrow>
          let cut = (\<lambda>d. case before_last d name of None \<Rightarrow> name | Some p \<Rightarrow> p) in
          if type = SUB then cut CHR ''/''
          else if type = UNIQUE then cut CHR ''#''
          else if type = MSGCHANNEL then cut CHR ''~''
          else if type = VOTE then cut CHR ''^''
          else if type = SUB_QUALIFIER then cut CHR ''/''
          else name)"

definition GetUniqueAssetName :: "string \<Rightarrow> string \<Rightarrow> string" where
  "GetUniqueAssetName parent tag =
     (let unique = parent @ ''#'' @ tag in
      if IsAssetNameValid unique = Inr UNIQUE then unique else [])"

section \<open>Matching and splitting\<close>

lemma regex_One: "regex_match s (One P # r) \<longleftrightarrow> (\<exists>c b. s = c # b \<and> P c \<and> regex_match b r)"
  by (cases s) auto

lemma regex_AtLeast:
  "regex_match s (AtLeast P n # r) \<longleftrightarrow> (\<exists>a b. s = a @ b \<and> n \<le> length a \<and> list_all P a \<and> regex_match b r)"
proof (induction s arbitrary: n)
  case Nil
  then show ?case by (cases n) auto
next
  case (Cons c s)
  show ?case
  proof (cases n)
    case 0
    have "regex_match (c # s) (AtLeast P 0 # r) \<longleftrightarrow> regex_match (c # s) r \<or> P c \<and> (\<exists>a b. s = a @ b \<and> list_all P a \<and> regex_match b r)"
      using Cons.IH [of 0] by simp
    also have "\<dots> \<longleftrightarrow> (\<exists>a b. c # s = a @ b \<and> list_all P a \<and> regex_match b r)" (is "?L \<longleftrightarrow> ?R")
    proof
      assume ?L
      then show ?R
      proof
        assume "regex_match (c # s) r"
        then show ?R by - (rule exI [of _ "[]"], rule exI [of _ "c # s"], simp)
      next
        assume "P c \<and> (\<exists>a b. s = a @ b \<and> list_all P a \<and> regex_match b r)"
        then obtain a b where "s = a @ b" "list_all P (c # a)" "regex_match b r" by auto
        then show ?R by - (rule exI [of _ "c # a"], rule exI [of _ b], simp)
      qed
    next
      assume ?R
      then obtain a b where "c # s = a @ b" "list_all P a" "regex_match b r" by blast
      then show ?L by (cases a) auto
    qed
    finally show ?thesis using 0 by simp
  next
    case (Suc m)
    have "regex_match (c # s) (AtLeast P (Suc m) # r) \<longleftrightarrow> P c \<and> (\<exists>a b. s = a @ b \<and> m \<le> length a \<and> list_all P a \<and> regex_match b r)"
      using Cons.IH [of m] by simp
    also have "\<dots> \<longleftrightarrow> (\<exists>a b. c # s = a @ b \<and> Suc m \<le> length a \<and> list_all P a \<and> regex_match b r)" (is "?L \<longleftrightarrow> ?R")
    proof
      assume ?L
      then obtain a b where "s = a @ b" "m \<le> length a" "list_all P (c # a)" "regex_match b r" by auto
      then show ?R by - (rule exI [of _ "c # a"], rule exI [of _ b], simp)
    next
      assume ?R
      then obtain a b where "c # s = a @ b" "Suc m \<le> length a" "list_all P a" "regex_match b r" by blast
      then show ?L by (cases a) auto
    qed
    finally show ?thesis using Suc by simp
  qed
qed

declare regex_match.simps [simp del]

lemmas regex_sem = regex_One regex_AtLeast regex_match.simps(1)

lemma regex_class: "regex_match s [AtLeast P n] \<longleftrightarrow> n \<le> length s \<and> list_all P s"
  by (auto simp: regex_sem)

lemma regex_needs: "regex_match s r \<Longrightarrow> One (\<lambda>c. c = a) \<in> set r \<Longrightarrow> a \<in> set s"
proof (induction r arbitrary: s)
  case (Cons x r)
  then show ?case by (cases x) (auto simp: regex_sem)
qed simp

lemma split_at_nonempty [simp]: "split_at d s \<noteq> []"
  by (cases s) (auto split: list.split)

lemma split_at_append: "split_at d (a @ d # b) = split_at d a @ split_at d b"
  by (induction a) (auto split: list.split simp: append_eq_Cons_conv)

lemma split_at_single: "d \<notin> set s \<Longrightarrow> split_at d s = [s]"
  by (induction s) auto

lemma split_at_chars: "set s \<subseteq> insert d (\<Union>p \<in> set (split_at d s). set p)"
proof (induction s)
  case (Cons c s)
  then show ?case by (cases "split_at d s") auto
qed simp

lemma split_at_no_delim: "p \<in> set (split_at d s) \<Longrightarrow> d \<notin> set p"
  by (induction s arbitrary: p) (auto split: list.splits if_splits)

lemma length_split_at: "length (split_at d s) > 1 \<longleftrightarrow> d \<in> set s"
proof (cases "d \<in> set s")
  case True
  then obtain a b where "s = a @ d # b" by (auto simp: in_set_conv_decomp)
  then show ?thesis using True by (cases "split_at d a"; cases "split_at d b") (auto simp: split_at_append)
qed (simp add: split_at_single)

lemma before_last_append: "d \<notin> set b \<Longrightarrow> before_last d (a @ d # b) = Some a"
proof -
  assume "d \<notin> set b"
  then have "dropWhile (\<lambda>c. c \<noteq> d) (rev b @ d # rev a) = d # rev a"
    by (subst dropWhile_append2) auto
  then show ?thesis by (simp add: before_last_def)
qed

section \<open>Names without a tag\<close>

definition base_char :: "char \<Rightarrow> bool" where
  "base_char c \<longleftrightarrow> name_char c \<or> c = CHR ''/''"

lemma name_char_not: "name_char c \<Longrightarrow> c \<notin> set ''^~#!$/''"
  by (auto simp: name_char_def upper_digit_def between_def punct_def)

lemma valid_parts_chars:
  "IsRootNameValid p \<Longrightarrow> list_all name_char p" "IsSubNameValid p \<Longrightarrow> list_all name_char p"
  by (simp_all add: IsRootNameValid_def IsSubNameValid_def ROOT_NAME_CHARACTERS_def SUB_NAME_CHARACTERS_def regex_class)

lemma IsNameValidBeforeTag_chars: "IsNameValidBeforeTag name \<Longrightarrow> c \<in> set name \<Longrightarrow> base_char c"
proof -
  assume v: "IsNameValidBeforeTag name" and c: "c \<in> set name"
  obtain r ps where s: "split_at CHR ''/'' name = r # ps" by (cases "split_at CHR ''/'' name") auto
  with v have "\<forall>p \<in> set (r # ps). list_all name_char p"
    using valid_parts_chars by (auto simp: IsNameValidBeforeTag_def list_all_iff)
  with split_at_chars [of name "CHR ''/''"] c s show ?thesis
    by (auto simp: base_char_def list_all_iff)
qed

lemma base_char_not: "base_char c \<Longrightarrow> c \<notin> set ''^~#!$''"
  using name_char_not [of c] by (auto simp: base_char_def)

lemma IsNameValidBeforeTag_length: "IsNameValidBeforeTag name \<Longrightarrow> 3 \<le> length name"
proof -
  assume v: "IsNameValidBeforeTag name"
  have "length (hd (split_at CHR ''/'' name)) \<le> length name"
    by (induction name) (auto split: list.splits)
  with v show ?thesis
    by (auto simp: IsNameValidBeforeTag_def Let_def IsRootNameValid_def ROOT_NAME_CHARACTERS_def regex_class)
qed

lemmas indicator_defs = UNIQUE_INDICATOR_def MSGCHANNEL_INDICATOR_def OWNER_INDICATOR_def VOTE_INDICATOR_def
  QUALIFIER_INDICATOR_def SUB_QUALIFIER_INDICATOR_def RESTRICTED_INDICATOR_def

lemma no_indicator:
  assumes "\<And>c. c \<in> set name \<Longrightarrow> c \<notin> set ''^~#!$''" "One (\<lambda>c. c = a) \<in> set i" "a \<in> set ''^~#!$''"
  shows "\<not> regex_match name i"
  using assms regex_needs by blast

lemma base_no_indicator:
  assumes "IsNameValidBeforeTag name"
  shows "\<not> regex_match name UNIQUE_INDICATOR" "\<not> regex_match name MSGCHANNEL_INDICATOR"
    "\<not> regex_match name OWNER_INDICATOR" "\<not> regex_match name VOTE_INDICATOR" "\<not> regex_match name QUALIFIER_INDICATOR"
    "\<not> regex_match name SUB_QUALIFIER_INDICATOR" "\<not> regex_match name RESTRICTED_INDICATOR"
proof -
  have n: "c \<notin> set ''^~#!$''" if "c \<in> set name" for c
    using base_char_not IsNameValidBeforeTag_chars [OF assms that] by blast
  show "\<not> regex_match name UNIQUE_INDICATOR"
    by (rule no_indicator [OF n, where a = "CHR ''#''"]) (simp_all add: UNIQUE_INDICATOR_def)
  show "\<not> regex_match name MSGCHANNEL_INDICATOR"
    by (rule no_indicator [OF n, where a = "CHR ''~''"]) (simp_all add: MSGCHANNEL_INDICATOR_def)
  show "\<not> regex_match name OWNER_INDICATOR"
    by (rule no_indicator [OF n, where a = "CHR ''!''"]) (simp_all add: OWNER_INDICATOR_def)
  show "\<not> regex_match name VOTE_INDICATOR"
    by (rule no_indicator [OF n, where a = "CHR ''^''"]) (simp_all add: VOTE_INDICATOR_def)
  show "\<not> regex_match name QUALIFIER_INDICATOR"
    by (rule no_indicator [OF n, where a = "CHR ''#''"]) (simp_all add: QUALIFIER_INDICATOR_def)
  show "\<not> regex_match name SUB_QUALIFIER_INDICATOR"
    by (rule no_indicator [OF n, where a = "CHR ''#''"]) (simp_all add: SUB_QUALIFIER_INDICATOR_def)
  show "\<not> regex_match name RESTRICTED_INDICATOR"
    by (rule no_indicator [OF n, where a = "CHR ''$''"]) (simp_all add: RESTRICTED_INDICATOR_def)
qed

text \<open>A name of a root or sub asset: at most 30 characters, which leaves room for the owner's tag.\<close>

definition base_name :: "string \<Rightarrow> bool" where
  "base_name name \<longleftrightarrow> length name \<le> 30 \<and> IsNameValidBeforeTag name"

lemma type_check_base: "type = ROOT \<or> type = SUB \<Longrightarrow> IsTypeCheckNameValid type name = Inr () \<longleftrightarrow> base_name name"
proof (cases "IsNameValidBeforeTag name")
  case True
  then have "\<not> length name < 3" using IsNameValidBeforeTag_length by (simp add: not_less)
  then show "type = ROOT \<or> type = SUB \<Longrightarrow> ?thesis" using True
    by (elim disjE) (simp_all add: IsTypeCheckNameValid_def base_name_def MAX_NAME_LENGTH_def MIN_ASSET_LENGTH_def)
qed (elim disjE; simp add: IsTypeCheckNameValid_def base_name_def MIN_ASSET_LENGTH_def)

lemma sbind_const: "sbind m (\<lambda>_. Inr x) = Inr y \<longleftrightarrow> m = Inr () \<and> x = y"
  by (cases m) auto

lemma valid_base_iff:
  "IsAssetNameValid name = Inr ROOT \<or> IsAssetNameValid name = Inr SUB \<longleftrightarrow> base_name name"
proof
  assume "IsAssetNameValid name = Inr ROOT \<or> IsAssetNameValid name = Inr SUB"
  then have "\<exists>type. (type = ROOT \<or> type = SUB) \<and> IsTypeCheckNameValid type name = Inr ()"
    unfolding IsAssetNameValid_def Let_def by (elim disjE if_eqE) (auto simp: sbind_const split: if_splits)
  then show "base_name name" using type_check_base by blast
next
  assume b: "base_name name"
  then have "IsAssetNameValid name = (let type = (if IsAssetNameASubasset name then SUB else ROOT) in
        sbind (IsTypeCheckNameValid type name) (\<lambda>_. Inr type))"
    using base_no_indicator [of name] by (simp add: base_name_def IsAssetNameValid_def)
  with b type_check_base [of ROOT name] type_check_base [of SUB name]
  show "IsAssetNameValid name = Inr ROOT \<or> IsAssetNameValid name = Inr SUB"
    by (simp add: Let_def sbind_const)
qed

lemma tag_indicator:
  "regex_match s [AtLeast before_tag 1, One (\<lambda>c. c = d), AtLeast after_tag 1] \<longleftrightarrow>
     (\<exists>a b. s = a @ d # b \<and> a \<noteq> [] \<and> b \<noteq> [] \<and> list_all before_tag a \<and> list_all after_tag b)"
  by (auto simp: regex_sem Suc_le_eq)

lemma owner_indicator:
  "regex_match s OWNER_INDICATOR \<longleftrightarrow> (\<exists>a. s = a @ ''!'' \<and> a \<noteq> [] \<and> list_all before_tag a)"
  by (auto simp: regex_sem Suc_le_eq OWNER_INDICATOR_def)

lemma owner_no_tag: "\<not> regex_match (name @ ''!'') [AtLeast before_tag 1, One (\<lambda>c. c = d), AtLeast after_tag 1]"
proof
  assume "regex_match (name @ ''!'') [AtLeast before_tag 1, One (\<lambda>c. c = d), AtLeast after_tag 1]"
  then obtain a b where ab: "name @ ''!'' = a @ d # b" "b \<noteq> []" "list_all after_tag b"
    by (simp only: tag_indicator) blast
  have "last b = CHR ''!''" using arg_cong [OF ab(1), of last] ab(2) by simp
  moreover have "last b \<in> set b" using ab(2) by simp
  ultimately show False using ab(3) by (auto simp: list_all_iff after_tag_def)
qed

lemma valid_owner_iff: "IsAssetNameValid (name @ OWNER_TAG) = Inr OWNER \<longleftrightarrow> base_name name"
proof -
  have u: "\<not> regex_match (name @ ''!'') UNIQUE_INDICATOR" "\<not> regex_match (name @ ''!'') MSGCHANNEL_INDICATOR"
    using owner_no_tag by (simp_all add: UNIQUE_INDICATOR_def MSGCHANNEL_INDICATOR_def)
  have t: "IsTypeCheckNameValid OWNER (name @ ''!'') = Inr () \<longleftrightarrow> base_name name"
    by (auto simp: IsTypeCheckNameValid_def base_name_def MAX_NAME_LENGTH_def)
  show ?thesis
  proof
    assume "IsAssetNameValid (name @ OWNER_TAG) = Inr OWNER"
    then have "IsTypeCheckNameValid OWNER (name @ ''!'') = Inr ()"
      unfolding IsAssetNameValid_def Let_def OWNER_TAG_def by (elim if_eqE) (auto simp: sbind_const split: if_splits)
    then show "base_name name" using t by blast
  next
    assume b: "base_name name"
    then have "before_tag c" if "c \<in> set name" for c
      using base_char_not [of c] IsNameValidBeforeTag_chars [of name c] that by (auto simp: base_name_def before_tag_def)
    moreover have "name \<noteq> []" using b IsNameValidBeforeTag_length [of name] by (auto simp: base_name_def)
    ultimately have "regex_match (name @ ''!'') OWNER_INDICATOR" by (auto simp: owner_indicator list_all_iff)
    with b t u show "IsAssetNameValid (name @ OWNER_TAG) = Inr OWNER"
      by (simp add: IsAssetNameValid_def OWNER_TAG_def sbind_const base_name_def)
  qed
qed

section \<open>Parents\<close>

lemma valid_branches:
  "IsAssetNameValid name = Inr UNIQUE \<Longrightarrow> regex_match name UNIQUE_INDICATOR \<and> IsTypeCheckNameValid UNIQUE name = Inr ()"
  "IsAssetNameValid name = Inr MSGCHANNEL \<Longrightarrow> regex_match name MSGCHANNEL_INDICATOR \<and> IsTypeCheckNameValid MSGCHANNEL name = Inr ()"
  "IsAssetNameValid name = Inr SUB \<Longrightarrow> IsAssetNameASubasset name"
  "IsAssetNameValid name = Inr OWNER \<Longrightarrow> regex_match name OWNER_INDICATOR"
  unfolding IsAssetNameValid_def Let_def by (auto simp: sbind_const split: if_splits)

lemma base_name_parent:
  assumes "base_name (a @ CHR ''/'' # b)" "CHR ''/'' \<notin> set b"
  shows "base_name a"
proof -
  obtain r ps where "split_at CHR ''/'' a = r # ps" by (cases "split_at CHR ''/'' a") auto
  with assms show ?thesis
    by (simp add: base_name_def IsNameValidBeforeTag_def Let_def split_at_append)
qed

lemma tagged_parent:
  assumes "regex_match name [AtLeast before_tag 1, One (\<lambda>c. c = d), AtLeast after_tag 1]" "d \<in> set ''#~''"
    and "IsNameValidBeforeTag (hd (split_at d name))" "length name \<le> 31"
  shows "\<exists>p. before_last d name = Some p \<and> base_name p \<and> length p < length name"
proof -
  from assms(1) obtain a b where ab: "name = a @ d # b" "b \<noteq> []" "list_all before_tag a" "list_all after_tag b"
    unfolding tag_indicator by blast
  have "d \<notin> set a" "d \<notin> set b" using ab(3,4) assms(2) by (auto simp: list_all_iff before_tag_def after_tag_def)
  with ab assms(3,4) show ?thesis
    by (cases b) (auto simp: before_last_append split_at_append split_at_single base_name_def)
qed

lemma parent_of_tagged:
  assumes "IsAssetNameValid name = Inr type" "type \<in> {SUB, UNIQUE, MSGCHANNEL}"
  shows "base_name (GetParentName name) \<and> length (GetParentName name) < length name"
proof -
  consider "type = SUB" | "type = UNIQUE" | "type = MSGCHANNEL" using assms(2) by blast
  then show ?thesis
  proof cases
    case 1
    then have "base_name name" "CHR ''/'' \<in> set name"
      using assms(1) valid_base_iff [of name] valid_branches(3) [of name] length_split_at [of "CHR ''/''" name]
      by (auto simp: IsAssetNameASubasset_def Let_def)
    then obtain a b where "name = a @ CHR ''/'' # b" "CHR ''/'' \<notin> set b" by (metis split_list_last)
    with 1 assms(1) \<open>base_name name\<close> base_name_parent [of a b] show ?thesis
      by (simp add: GetParentName_def before_last_append)
  next
    case 2
    then have u: "regex_match name UNIQUE_INDICATOR" "IsTypeCheckNameValid UNIQUE name = Inr ()"
      using assms(1) valid_branches(1) [of name] by auto
    then have "\<exists>p. before_last CHR ''#'' name = Some p \<and> base_name p \<and> length p < length name"
      by (intro tagged_parent) (auto simp: UNIQUE_INDICATOR_def IsTypeCheckNameValid_def MAX_NAME_LENGTH_def Let_def split: if_splits)
    with 2 assms(1) show ?thesis by (auto simp: GetParentName_def)
  next
    case 3
    then have u: "regex_match name MSGCHANNEL_INDICATOR" "IsTypeCheckNameValid MSGCHANNEL name = Inr ()"
      using assms(1) valid_branches(2) [of name] by auto
    then have "\<exists>p. before_last CHR ''~'' name = Some p \<and> base_name p \<and> length p < length name"
      by (intro tagged_parent) (auto simp: MSGCHANNEL_INDICATOR_def IsTypeCheckNameValid_def MAX_NAME_LENGTH_def Let_def split: if_splits)
    with 3 assms(1) show ?thesis by (auto simp: GetParentName_def)
  qed
qed

section \<open>Properties\<close>

text \<open>
  Ownership tokens. A string with the owner's tag is a valid owner name exactly if the string without the
  tag is a valid name of a root or sub asset: every such asset has room for its owner token, and every owner token owns
  an asset name.
\<close>

theorem owner_names:
  "IsAssetNameValid (name @ OWNER_TAG) = Inr OWNER \<longleftrightarrow>
     IsAssetNameValid name = Inr ROOT \<or> IsAssetNameValid name = Inr SUB"
  unfolding valid_base_iff valid_owner_iff by (rule refl)

text \<open>
  Parents. The parent of a valid sub asset, unique asset or message channel is a valid, shorter name of a root or
  sub asset, so that walking up the parents of a sub asset ends at a root asset.
\<close>

theorem parent_names:
  assumes "IsAssetNameValid name = Inr type" "type \<in> {SUB, UNIQUE, MSGCHANNEL}"
  shows "(IsAssetNameValid (GetParentName name) = Inr ROOT \<or> IsAssetNameValid (GetParentName name) = Inr SUB) \<and>
    length (GetParentName name) < length name"
  using parent_of_tagged [OF assms] valid_base_iff by blast

lemma ex_unique: "IsAssetNameValid ''ABC/D#e'' = Inr UNIQUE"
  by code_simp

theorem parent_names_witness:
  "IsAssetNameValid (GetParentName ''ABC/D#e'') = Inr ROOT \<or> IsAssetNameValid (GetParentName ''ABC/D#e'') = Inr SUB"
  using parent_names [OF ex_unique] by simp

text \<open>
  The middle of a vote name is not checked. The expression for vote names lets the delimiter occur more than
  once, and the check looks at the first and the last part only: a name with blanks and lower case is
  valid, and its parent is not a valid name.
\<close>

theorem vote_name_unchecked_middle:
  "IsAssetNameValid ''ABC^a b^C'' = Inr VOTE \<and> GetParentName ''ABC^a b^C'' = ''ABC^a b'' \<and>
   \<not> name_valid ''ABC^a b''"
  by code_simp

text \<open>
  Restricted names may start with punctuation. The check that is meant for names behind a dollar sign is not the
  one used, so a restricted name is accepted whose owner token has no valid name.
\<close>

theorem restricted_name_leading_punctuation:
  "IsAssetNameValid ''$.ABC'' = Inr RESTRICTED \<and> RestrictedNameToOwnerName ''$.ABC'' = ''.ABC!'' \<and>
   \<not> name_valid ''.ABC!'' \<and> \<not> name_valid ''#.ABC''"
  by code_simp

end
