(* ===== verification/Base58.thy ===== *)
theory Base58
  imports Interpreter
begin

text \<open>
  Base 58 and addresses (\<^verbatim>\<open>src/src/base58.cpp\<close>, with the prefixes of \<^verbatim>\<open>chainparams.cpp\<close>). The digit buffers
  of the code are lists of digits, least significant first, of the size the code allocates; an
  assertion that fails is \<open>None\<close>. A \<^verbatim>\<open>const char*\<close> is the string up to its first zero character.
\<close>

section \<open>Encoding and decoding\<close>

definition pszBase58 :: string where
  "pszBase58 = ''123456789ABCDEFGHJKLMNPQRSTUVWXYZabcdefghijkmnopqrstuvwxyz''"

text \<open>
  The inner loop of both directions: \<open>buf = buf * m + carry\<close> in base \<open>b\<close>. It runs while there is a carry or
  the known length is not reached, and stops at the end of the buffer.
\<close>

fun digit_loop :: "nat \<Rightarrow> nat \<Rightarrow> nat \<Rightarrow> nat \<Rightarrow> nat \<Rightarrow> nat list \<Rightarrow> nat list \<times> nat \<times> nat" where
  "digit_loop m b carry i len [] = ([], carry, i)"
| "digit_loop m b carry i len (d # ds) =
     (if carry \<noteq> 0 \<or> i < len then
        let c = carry + m * d in
        case digit_loop m b (c div b) (Suc i) len ds of (ds', carry', i') \<Rightarrow> (c mod b # ds', carry', i')
      else (d # ds, carry, i))"

definition digit_step :: "nat \<Rightarrow> nat \<Rightarrow> nat list \<times> nat \<Rightarrow> nat \<Rightarrow> (nat list \<times> nat) option" where
  "digit_step m b st x =
     (case digit_loop m b x 0 (snd st) (fst st) of
        (buf, carry, i) \<Rightarrow> if carry = 0 then Some (buf, i) else None)"

fun digit_steps :: "nat \<Rightarrow> nat \<Rightarrow> nat list \<times> nat \<Rightarrow> nat list \<Rightarrow> (nat list \<times> nat) option" where
  "digit_steps m b st [] = Some st"
| "digit_steps m b st (x # xs) =
     (case digit_step m b st x of None \<Rightarrow> None | Some st' \<Rightarrow> digit_steps m b st' xs)"

text \<open>The digits from the most significant one on, without leading zeroes.\<close>

definition result_digits :: "nat list \<times> nat \<Rightarrow> nat list" where
  "result_digits st = dropWhile (\<lambda>d. d = 0) (rev (take (snd st) (fst st)))"

definition EncodeBase58 :: "bytes \<Rightarrow> string option" where
  "EncodeBase58 v =
     (let zeroes = length (takeWhile (\<lambda>x. x = 0) v);
          rest = dropWhile (\<lambda>x. x = 0) v;
          size = length rest * 138 div 100 + 1 in
      map_option (\<lambda>st. replicate zeroes CHR ''1'' @ map ((!) pszBase58) (result_digits st))
        (digit_steps 256 58 (replicate size 0, 0) (map unat rest)))"

definition isspace :: "char \<Rightarrow> bool" where
  "isspace c \<longleftrightarrow> c = CHR '' '' \<or> (9 \<le> (of_char c :: nat) \<and> (of_char c :: nat) \<le> 13)"

definition c_str :: "string \<Rightarrow> string" where
  "c_str s = takeWhile (\<lambda>c. c \<noteq> CHR 0x00) s"

fun find_index :: "char \<Rightarrow> string \<Rightarrow> nat option" where
  "find_index c [] = None"
| "find_index c (x # xs) = (if x = c then Some 0 else map_option Suc (find_index c xs))"

text \<open>
  The loop over the characters of \<^verbatim>\<open>DecodeBase58\<close>: the outer \<open>None\<close> is the failed assertion, the inner one
  \<^verbatim>\<open>return false\<close> for a character that is no base-58 digit. It returns the rest of the text.
\<close>

fun decode_loop :: "nat list \<times> nat \<Rightarrow> string \<Rightarrow> ((nat list \<times> nat) \<times> string) option option" where
  "decode_loop st [] = Some (Some (st, []))"
| "decode_loop st (c # s) =
     (if isspace c then Some (Some (st, c # s))
      else case find_index c pszBase58 of
        None \<Rightarrow> Some None
      | Some carry \<Rightarrow>
          (case digit_step 58 256 st carry of None \<Rightarrow> None | Some st' \<Rightarrow> decode_loop st' s))"

definition DecodeBase58 :: "string \<Rightarrow> bytes option option" where
  "DecodeBase58 str =
     (let psz = dropWhile isspace (c_str str);
          zeroes = length (takeWhile (\<lambda>c. c = CHR ''1'') psz);
          psz1 = dropWhile (\<lambda>c. c = CHR ''1'') psz;
          size = length psz1 * 733 div 1000 + 1 in
      case decode_loop (replicate size 0, 0) psz1 of
        None \<Rightarrow> None
      | Some None \<Rightarrow> Some None
      | Some (Some (st, rest)) \<Rightarrow>
          if dropWhile isspace rest \<noteq> [] then Some None
          else Some (Some (replicate zeroes 0 @ map of_nat (result_digits st))))"

section \<open>Checksums and addresses\<close>

definition EncodeBase58Check :: "crypto \<Rightarrow> bytes \<Rightarrow> string option" where
  "EncodeBase58Check C vchIn = EncodeBase58 (vchIn @ take 4 (Hash256 C vchIn))"

definition DecodeBase58Check :: "crypto \<Rightarrow> string \<Rightarrow> bytes option option" where
  "DecodeBase58Check C str =
     (case DecodeBase58 str of
        None \<Rightarrow> None
      | Some None \<Rightarrow> Some None
      | Some (Some vch) \<Rightarrow>
          if length vch < 4 then Some None
          else let data = take (length vch - 4) vch in
            if take 4 (Hash256 C data) \<noteq> drop (length vch - 4) vch then Some None
            else Some (Some data))"

datatype CTxDestination = CNoDestination | CKeyID bytes | CScriptID bytes

record base58_prefixes =
  PUBKEY_ADDRESS :: bytes
  SCRIPT_ADDRESS :: bytes

definition main_prefixes :: base58_prefixes where
  "main_prefixes = \<lparr>PUBKEY_ADDRESS = [25], SCRIPT_ADDRESS = [122]\<rparr>"

definition test_prefixes :: base58_prefixes where
  "test_prefixes = \<lparr>PUBKEY_ADDRESS = [42], SCRIPT_ADDRESS = [124]\<rparr>"

record CBase58Data =
  vchVersion :: bytes
  vchData :: bytes

definition SetString :: "crypto \<Rightarrow> string \<Rightarrow> CBase58Data option" where
  "SetString C str =
     (case DecodeBase58Check C str of
        None \<Rightarrow> None
      | Some None \<Rightarrow> Some \<lparr>vchVersion = [], vchData = []\<rparr>
      | Some (Some vchTemp) \<Rightarrow>
          if length vchTemp < 1 then Some \<lparr>vchVersion = [], vchData = []\<rparr>
          else Some \<lparr>vchVersion = take 1 vchTemp, vchData = drop 1 vchTemp\<rparr>)"

fun Set_address :: "base58_prefixes \<Rightarrow> CTxDestination \<Rightarrow> CBase58Data" where
  "Set_address P (CKeyID h) = \<lparr>vchVersion = PUBKEY_ADDRESS P, vchData = h\<rparr>"
| "Set_address P (CScriptID h) = \<lparr>vchVersion = SCRIPT_ADDRESS P, vchData = h\<rparr>"
| "Set_address P CNoDestination = \<lparr>vchVersion = [], vchData = []\<rparr>"

definition address_IsValid :: "base58_prefixes \<Rightarrow> CBase58Data \<Rightarrow> bool" where
  "address_IsValid P a \<longleftrightarrow> length (vchData a) = 20 \<and> (vchVersion a = PUBKEY_ADDRESS P \<or> vchVersion a = SCRIPT_ADDRESS P)"

definition address_Get :: "base58_prefixes \<Rightarrow> CBase58Data \<Rightarrow> CTxDestination" where
  "address_Get P a =
     (if \<not> address_IsValid P a then CNoDestination
      else if vchVersion a = PUBKEY_ADDRESS P then CKeyID (vchData a)
      else if vchVersion a = SCRIPT_ADDRESS P then CScriptID (vchData a)
      else CNoDestination)"

definition EncodeDestination :: "crypto \<Rightarrow> base58_prefixes \<Rightarrow> CTxDestination \<Rightarrow> string option" where
  "EncodeDestination C P dest =
     (let addr = Set_address P dest in
      if \<not> address_IsValid P addr then Some [] else EncodeBase58Check C (vchVersion addr @ vchData addr))"

definition DecodeDestination :: "crypto \<Rightarrow> base58_prefixes \<Rightarrow> string \<Rightarrow> CTxDestination option" where
  "DecodeDestination C P str = map_option (address_Get P) (SetString C str)"

definition IsValidDestinationString :: "crypto \<Rightarrow> base58_prefixes \<Rightarrow> string \<Rightarrow> bool option" where
  "IsValidDestinationString C P str = map_option (address_IsValid P) (SetString C str)"

section \<open>The digit loop\<close>

text \<open>\<open>digits_value\<close> reads a buffer; \<open>buf_ok\<close> says that its digits are digits and that none is set beyond the length.\<close>

fun digits_value :: "nat \<Rightarrow> nat list \<Rightarrow> nat" where
  "digits_value b [] = 0"
| "digits_value b (d # ds) = d + b * digits_value b ds"

definition buf_ok :: "nat \<Rightarrow> nat list \<times> nat \<Rightarrow> bool" where
  "buf_ok b st \<longleftrightarrow> (\<forall>d \<in> set (fst st). d < b) \<and> (\<forall>d \<in> set (drop (snd st) (fst st)). d = 0) \<and> snd st \<le> length (fst st)"

lemma digits_value_zero: "\<forall>d \<in> set ds. d = 0 \<Longrightarrow> digits_value b ds = 0"
  by (induction ds) auto

lemma digits_value_less: "\<forall>d \<in> set ds. d < b \<Longrightarrow> digits_value b ds < b ^ length ds"
proof (induction ds)
  case (Cons d ds)
  then have "d + b * digits_value b ds < b + b * digits_value b ds" "Suc (digits_value b ds) \<le> b ^ length ds"
    by (auto simp: Suc_le_eq)
  then have "d + b * digits_value b ds < b * Suc (digits_value b ds)" "b * Suc (digits_value b ds) \<le> b * b ^ length ds"
    using mult_le_mono2 by (auto simp del: mult_Suc_right simp add: mult_Suc_right [symmetric])
  then show ?case by simp
qed simp

text \<open>
  One run of the loop: nothing is lost between the buffer and the final carry, the digits beyond the new
  length stay zero.
\<close>

lemma digit_loop_correct:
  assumes "digit_loop m b carry i len ds = (ds', carry', i')" "0 < b" "\<forall>d \<in> set ds. d < b"
    and "\<forall>d \<in> set (drop (len - i) ds). d = 0"
  shows "digits_value b ds' + b ^ length ds * carry' = carry + m * digits_value b ds \<and> length ds' = length ds \<and>
    (\<forall>d \<in> set ds'. d < b) \<and> i \<le> i' \<and> i' \<le> i + length ds \<and> (\<forall>d \<in> set (drop (i' - i) ds'). d = 0)"
  using assms
proof (induction ds arbitrary: carry i ds' carry' i')
  case (Cons d ds)
  show ?case
  proof (cases "carry \<noteq> 0 \<or> i < len")
    case False
    then have "len - i = 0" by simp
    with Cons.prems(4) have z: "\<forall>x \<in> set (d # ds). x = 0" by simp
    with False Cons.prems digits_value_zero [OF z, of b] show ?thesis by auto
  next
    case True
    let ?c = "carry + m * d"
    obtain es where r: "digit_loop m b (?c div b) (Suc i) len ds = (es, carry', i')" and ds': "ds' = ?c mod b # es"
      using Cons.prems(1) True by (auto simp: Let_def split: prod.splits)
    have "\<forall>x \<in> set (drop (len - Suc i) ds). x = 0"
      using Cons.prems(4) by (cases "i < len") (auto simp: Suc_diff_Suc [symmetric] dest: in_set_dropD)
    from Cons.IH [OF r Cons.prems(2) _ this] Cons.prems(3)
    have IH: "digits_value b es + b ^ length ds * carry' = ?c div b + m * digits_value b ds" "length es = length ds"
      "\<forall>x \<in> set es. x < b" "Suc i \<le> i'" "i' \<le> Suc i + length ds" "\<forall>x \<in> set (drop (i' - Suc i) es). x = 0" by auto
    have "digits_value b ds' + b ^ length (d # ds) * carry' = ?c mod b + b * (digits_value b es + b ^ length ds * carry')"
      by (simp add: ds' algebra_simps)
    also have "\<dots> = (?c mod b + b * (?c div b)) + b * (m * digits_value b ds)"
      unfolding IH(1) by (simp add: algebra_simps)
    also have "\<dots> = carry + m * digits_value b (d # ds)" by (simp add: algebra_simps)
    finally have "digits_value b ds' + b ^ length (d # ds) * carry' = carry + m * digits_value b (d # ds)" .
    moreover have "i' - i = Suc (i' - Suc i)" using IH(4) by simp
    ultimately show ?thesis using IH ds' Cons.prems(2) by simp
  qed
qed auto

text \<open>One character: while the value fits in the buffer, the assertion on the carry holds.\<close>

lemma digit_step_correct:
  assumes ok: "buf_ok b st" and b: "0 < b"
    and fits: "x + m * digits_value b (fst st) < b ^ length (fst st)"
  obtains st' where "digit_step m b st x = Some st'" "buf_ok b st'" "length (fst st') = length (fst st)"
    "digits_value b (fst st') = x + m * digits_value b (fst st)"
proof -
  obtain ds' c' i' where l: "digit_loop m b x 0 (snd st) (fst st) = (ds', c', i')" by (metis prod_cases3)
  from digit_loop_correct [OF l b] ok have r: "digits_value b ds' + b ^ length (fst st) * c' = x + m * digits_value b (fst st)"
    "length ds' = length (fst st)" "\<forall>d \<in> set ds'. d < b" "i' \<le> length (fst st)" "\<forall>d \<in> set (drop i' ds'). d = 0"
    by (auto simp: buf_ok_def)
  from r(1) fits have "b ^ length (fst st) * c' < b ^ length (fst st)" by linarith
  then have "c' = 0" by (cases c') auto
  with l r show thesis by (intro that [of "(ds', i')"]) (auto simp: digit_step_def buf_ok_def)
qed

text \<open>A whole text, most significant digit first, in Horner form.\<close>

definition horner :: "nat \<Rightarrow> nat \<Rightarrow> nat list \<Rightarrow> nat" where
  "horner m v xs = foldl (\<lambda>v x. x + m * v) v xs"

lemma horner_simps [simp]: "horner m v [] = v" "horner m v (x # xs) = horner m (x + m * v) xs"
  by (simp_all add: horner_def)

lemma horner_digits: "horner m v xs = digits_value m (rev xs) + m ^ length xs * v"
proof -
  have "digits_value m (xs @ [x]) = digits_value m xs + m ^ length xs * x" for xs x
    by (induction xs) (auto simp: algebra_simps)
  then show ?thesis by (induction xs arbitrary: v) (auto simp: algebra_simps)
qed

lemma horner_mono: "0 < m \<Longrightarrow> v \<le> horner m v xs"
  by (auto simp: horner_digits intro: trans_le_add2)

lemma horner_less: "\<forall>x \<in> set xs. x < m \<Longrightarrow> horner m 0 xs < m ^ length xs"
  using digits_value_less [of "rev xs" m] by (simp add: horner_digits)

lemma digit_steps_correct:
  assumes "buf_ok b st" "0 < b" "0 < m" "horner m (digits_value b (fst st)) xs < b ^ length (fst st)"
  shows "\<exists>st'. digit_steps m b st xs = Some st' \<and> buf_ok b st' \<and> digits_value b (fst st') = horner m (digits_value b (fst st)) xs"
  using assms
proof (induction xs arbitrary: st)
  case (Cons x xs)
  have "x + m * digits_value b (fst st) < b ^ length (fst st)"
    using horner_mono [OF Cons.prems(3), of "x + m * digits_value b (fst st)" xs] Cons.prems(4) by simp
  from digit_step_correct [OF Cons.prems(1,2) this] obtain st' where
    st': "digit_step m b st x = Some st'" "buf_ok b st'" "length (fst st') = length (fst st)"
    "digits_value b (fst st') = x + m * digits_value b (fst st)" by metis
  with Cons.IH [OF st'(2) Cons.prems(2,3)] Cons.prems(4) show ?case by simp
qed auto

text \<open>The digits of the result are the canonical numeral of the value.\<close>

lemma digits_value_append: "digits_value b (xs @ ys) = digits_value b xs + b ^ length xs * digits_value b ys"
  by (induction xs) (auto simp: algebra_simps)

lemma result_digits_value:
  assumes "buf_ok b st"
  shows "horner b 0 (result_digits st) = digits_value b (fst st)"
proof -
  have dz: "horner b 0 (dropWhile (\<lambda>d. d = 0) xs) = horner b 0 xs" for xs by (induction xs) auto
  have "digits_value b (take (snd st) (fst st)) = digits_value b (fst st)"
    using digits_value_append [of b "take (snd st) (fst st)" "drop (snd st) (fst st)"] assms
      digits_value_zero [of "drop (snd st) (fst st)" b] by (simp add: buf_ok_def)
  then show ?thesis unfolding result_digits_def dz by (simp add: horner_digits)
qed

definition canonical_digits :: "nat \<Rightarrow> nat list \<Rightarrow> bool" where
  "canonical_digits b xs \<longleftrightarrow> (\<forall>d \<in> set xs. d < b) \<and> (xs \<noteq> [] \<longrightarrow> hd xs \<noteq> 0)"

lemma result_digits_canonical: "buf_ok b st \<Longrightarrow> canonical_digits b (result_digits st)"
  using hd_dropWhile [of "\<lambda>d. d = 0" "rev (take (snd st) (fst st))"]
  by (auto simp: canonical_digits_def result_digits_def buf_ok_def dest!: set_dropWhileD in_set_takeD)

lemma digits_value_nonzero: "xs \<noteq> [] \<Longrightarrow> last xs \<noteq> 0 \<Longrightarrow> 0 < b \<Longrightarrow> 0 < digits_value b xs"
  by (induction xs) (auto split: if_splits)

lemma digits_value_inj:
  assumes "digits_value b xs = digits_value b ys" "\<forall>d \<in> set xs. d < b" "\<forall>d \<in> set ys. d < b" "0 < b"
    and "xs \<noteq> [] \<longrightarrow> last xs \<noteq> 0" "ys \<noteq> [] \<longrightarrow> last ys \<noteq> 0"
  shows "xs = ys"
  using assms
proof (induction xs arbitrary: ys)
  case Nil
  with digits_value_nonzero [of ys b] show ?case by (cases "ys = []") simp_all
next
  case (Cons x xs)
  then have "0 < digits_value b (x # xs)" using digits_value_nonzero [of "x # xs" b] by simp
  with Cons.prems(1) obtain y zs where ys: "ys = y # zs" by (cases ys) simp_all
  have b: "x < b" "y < b" using Cons.prems(2,3) ys by simp_all
  from Cons.prems(1) ys have e: "x + b * digits_value b xs = y + b * digits_value b zs" by simp
  from arg_cong [OF e, of "\<lambda>n. n mod b"] b have xy: "x = y" by simp
  with e \<open>0 < b\<close> have "digits_value b xs = digits_value b zs" by simp
  then have "xs = zs"
    by (rule Cons.IH) (use Cons.prems ys in \<open>simp_all split: if_splits\<close>)
  with xy ys show ?case by simp
qed

lemma canonical_digits_unique:
  assumes "canonical_digits b xs" "canonical_digits b ys" "horner b 0 xs = horner b 0 ys" "0 < b"
  shows "xs = ys"
  using digits_value_inj [of b "rev xs" "rev ys"] assms
  by (simp add: canonical_digits_def horner_digits last_rev)

section \<open>The sizes of the buffers\<close>

text \<open>
  The code allocates \<open>log 256 / log 58\<close> and \<open>log 58 / log 256\<close> digits per digit, rounded up to \<open>138 / 100\<close> and
  \<open>733 / 1000\<close>: that is enough for every input.
\<close>

lemma power_size:
  assumes "a ^ q \<le> c ^ p" "0 < q" "1 \<le> (c :: nat)"
  shows "a ^ n \<le> c ^ (n * p div q + 1)"
proof -
  have "n * p \<le> q * (n * p div q + 1)"
    using mult_div_mod_eq [of q "n * p"] mod_less_divisor [OF assms(2), of "n * p"]
    unfolding distrib_left by linarith
  then have "c ^ (n * p) \<le> c ^ (q * (n * p div q + 1))" using assms(3) by (simp add: power_increasing)
  moreover have "(a ^ q) ^ n \<le> (c ^ p) ^ n" using assms(1) by (simp add: power_mono)
  ultimately have "(a ^ n) ^ q \<le> (c ^ (n * p div q + 1)) ^ q"
    by (simp add: power_mult [symmetric] mult.commute del: power_Suc)
  then show ?thesis using assms(2) power_mono_iff [of "a ^ n" "c ^ (n * p div q + 1)" q] by simp
qed

lemma encode_size: "(256 :: nat) ^ n \<le> 58 ^ (n * 138 div 100 + 1)"
  by (rule power_size) simp_all

lemma decode_size: "(58 :: nat) ^ n \<le> 256 ^ (n * 733 div 1000 + 1)"
proof (rule power_size)
  have step: "(a :: nat) ^ (k * j + l) \<le> 2 ^ (u * j + v)" if "a ^ k \<le> 2 ^ u" "a ^ l \<le> 2 ^ v" for a k j l u v
    using mult_le_mono [OF power_mono [OF that(1), of j] that(2)] by (simp add: power_add power_mult)
  have "(58 :: nat) ^ 57 \<le> 2 ^ 334" "(58 :: nat) ^ 31 \<le> 2 ^ 186" by simp_all
  from step [OF this, of 17] have "(58 :: nat) ^ 1000 \<le> 2 ^ (8 * 733)" by (simp del: power_numeral)
  moreover have "(256 :: nat) = 2 ^ 8" by simp
  ultimately show "(58 :: nat) ^ 1000 \<le> 256 ^ 733" by (simp only: power_mult)
qed simp_all

lemma buf_ok_empty: "0 < b \<Longrightarrow> buf_ok b (replicate n 0, 0)"
  by (simp add: buf_ok_def)

lemma digit_steps_base:
  assumes "0 < b" "0 < m" "\<forall>x \<in> set xs. x < m" "m ^ length xs \<le> b ^ n"
  obtains st where "digit_steps m b (replicate n 0, 0) xs = Some st" "canonical_digits b (result_digits st)"
    "horner b 0 (result_digits st) = horner m 0 xs"
proof -
  have z: "digits_value b (replicate n 0) = 0" by (rule digits_value_zero) simp
  have "horner m (digits_value b (fst (replicate n 0, 0 :: nat))) xs < b ^ length (fst (replicate n 0, 0 :: nat))"
    using horner_less [OF assms(3)] assms(4) by (simp add: z)
  from digit_steps_correct [OF buf_ok_empty [OF assms(1)] assms(1,2) this] obtain st where
    "digit_steps m b (replicate n 0, 0) xs = Some st" "buf_ok b st" "digits_value b (fst st) = horner m 0 xs"
    by (auto simp: z)
  then show thesis using that result_digits_canonical result_digits_value by metis
qed

section \<open>The round trip\<close>

text \<open>The decoder's loop on digits written with the alphabet is the digit loop.\<close>

lemma alphabet_digit:
  assumes "d < 58"
  shows "find_index (pszBase58 ! d) pszBase58 = Some d \<and> \<not> isspace (pszBase58 ! d) \<and> pszBase58 ! d \<noteq> CHR 0x00 \<and>
    (pszBase58 ! d = CHR ''1'' \<longleftrightarrow> d = 0)"
proof -
  have "\<forall>d \<in> set [0..<58]. find_index (pszBase58 ! d) pszBase58 = Some d \<and> \<not> isspace (pszBase58 ! d) \<and>
    pszBase58 ! d \<noteq> CHR 0x00 \<and> (pszBase58 ! d = CHR ''1'' \<longleftrightarrow> d = 0)" by code_simp
  with assms show ?thesis by simp
qed

lemma decode_loop_digits:
  "\<forall>d \<in> set ds. d < 58 \<Longrightarrow>
   decode_loop st (map ((!) pszBase58) ds) = map_option (\<lambda>st'. Some (st', [])) (digit_steps 58 256 st ds)"
  by (induction ds arbitrary: st) (auto simp: alphabet_digit split: option.splits)

lemma DecodeBase58_digits:
  assumes "canonical_digits 58 ds"
  shows "DecodeBase58 (replicate z CHR ''1'' @ map ((!) pszBase58) ds) =
    map_option (\<lambda>st. Some (replicate z 0 @ map of_nat (result_digits st)))
      (digit_steps 58 256 (replicate (length ds * 733 div 1000 + 1) 0, 0) ds)"
proof -
  let ?s = "map ((!) pszBase58) ds" and ?t = "replicate z CHR ''1'' @ map ((!) pszBase58) ds"
  have d: "\<forall>d \<in> set ds. d < 58" using assms by (simp add: canonical_digits_def)
  have nz: "c \<noteq> CHR 0x00" if "c \<in> set ?t" for c
  proof (cases "c = CHR ''1''")
    case False
    with that obtain x where "c = pszBase58 ! x" "x \<in> set ds" by auto
    with d alphabet_digit show ?thesis by metis
  qed simp
  then have nul: "c_str ?t = ?t" unfolding c_str_def takeWhile_eq_all_conv by blast
  have sp: "dropWhile isspace ?t = ?t"
    using d by (cases z; cases ds) (simp_all add: alphabet_digit, simp_all add: isspace_def)
  have tw: "takeWhile (\<lambda>c. c = CHR ''1'') ?s = []" and dw: "dropWhile (\<lambda>c. c = CHR ''1'') ?s = ?s"
    using assms by (cases ds; simp add: canonical_digits_def alphabet_digit)+
  have "takeWhile (\<lambda>c. c = CHR ''1'') ?t = replicate z CHR ''1''" "dropWhile (\<lambda>c. c = CHR ''1'') ?t = ?s"
    using tw dw by (simp_all add: takeWhile_append dropWhile_append)
  with d show ?thesis
    unfolding DecodeBase58_def Let_def nul sp by (simp add: decode_loop_digits split: option.split)
qed

lemma EncodeBase58_digits:
  obtains ds where "EncodeBase58 v = Some (replicate (length (takeWhile (\<lambda>x. x = 0) v)) CHR ''1'' @ map ((!) pszBase58) ds)"
    "canonical_digits 58 ds" "horner 58 0 ds = horner 256 0 (map unat (dropWhile (\<lambda>x. x = 0) v))"
proof -
  define rest where "rest = dropWhile (\<lambda>x. x = 0) v"
  have bytes: "\<forall>x \<in> set (map unat rest). x < 256" using unsigned_less [where 'b = 8 and 'a = nat] by auto
  have "(256 :: nat) ^ length (map unat rest) \<le> 58 ^ (length rest * 138 div 100 + 1)"
    using encode_size [of "length rest"] by simp
  from digit_steps_base [OF _ _ bytes this] obtain st where
    st: "digit_steps 256 58 (replicate (length rest * 138 div 100 + 1) 0, 0) (map unat rest) = Some st"
      "canonical_digits 58 (result_digits st)" "horner 58 0 (result_digits st) = horner 256 0 (map unat rest)"
    by auto
  have "EncodeBase58 v = Some (replicate (length (takeWhile (\<lambda>x. x = 0) v)) CHR ''1'' @ map ((!) pszBase58) (result_digits st))"
    using st(1) unfolding EncodeBase58_def Let_def rest_def by (simp only: option.map)
  from that [OF this st(2)] st(3) show thesis by (simp add: rest_def)
qed

lemma base58_roundtrip:
  obtains s where "EncodeBase58 v = Some s" "DecodeBase58 s = Some (Some v)"
proof -
  define rest where "rest = dropWhile (\<lambda>x. x = 0) v"
  define z where "z = length (takeWhile (\<lambda>x. x = 0) v)"
  have v: "v = replicate z 0 @ rest"
    unfolding rest_def z_def by (induction v) auto
  obtain ds where ds: "EncodeBase58 v = Some (replicate z CHR ''1'' @ map ((!) pszBase58) ds)"
    "canonical_digits 58 ds" "horner 58 0 ds = horner 256 0 (map unat rest)"
    using EncodeBase58_digits [of v] unfolding rest_def z_def by metis
  have "\<forall>d \<in> set ds. d < 58" using ds(2) by (simp add: canonical_digits_def)
  from digit_steps_base [OF _ _ this decode_size] obtain st' where
    st': "digit_steps 58 256 (replicate (length ds * 733 div 1000 + 1) 0, 0) ds = Some st'"
      "canonical_digits 256 (result_digits st')" "horner 256 0 (result_digits st') = horner 58 0 ds"
    by auto
  have "\<forall>x \<in> set (map unat rest). x < 256" using unsigned_less [where 'b = 8 and 'a = nat] by auto
  then have "canonical_digits 256 (map unat rest)"
    using hd_dropWhile [of "\<lambda>x. x = 0" v] unfolding canonical_digits_def rest_def
    by (auto simp: hd_map unat_eq_zero)
  then have "result_digits st' = map unat rest"
    using canonical_digits_unique [OF st'(2)] ds(3) st'(3) by simp
  then have "DecodeBase58 (replicate z CHR ''1'' @ map ((!) pszBase58) ds) = Some (Some v)"
    using st' v DecodeBase58_digits [OF ds(2), of z] by (simp add: comp_def)
  with ds(1) show thesis by (rule that)
qed

text \<open>Only a leading zero byte gives a leading digit one.\<close>

lemma EncodeBase58_leading:
  assumes "EncodeBase58 (x # v) = Some s" "x \<noteq> 0"
  shows "s = [] \<or> hd s \<noteq> CHR ''1''"
proof -
  obtain ds where ds: "EncodeBase58 (x # v) = Some (map ((!) pszBase58) ds)" "canonical_digits 58 ds"
    using EncodeBase58_digits [of "x # v"] assms(2) by auto
  show ?thesis
  proof (cases ds)
    case (Cons d es)
    with ds assms alphabet_digit [of d] show ?thesis by (auto simp: canonical_digits_def)
  qed (use ds assms in auto)
qed

text \<open>The decoder's assertion holds on every text.\<close>

lemma find_index_less: "find_index c xs = Some i \<Longrightarrow> i < length xs"
  by (induction xs arbitrary: i) (auto split: if_splits)

lemma decode_loop_no_assert:
  assumes "buf_ok 256 st" "Suc (digits_value 256 (fst st)) * 58 ^ length s \<le> 256 ^ length (fst st)"
  shows "decode_loop st s \<noteq> None"
  using assms
proof (induction s arbitrary: st)
  case (Cons c s)
  show ?case
  proof (cases "find_index c pszBase58")
    case (Some x)
    let ?v = "digits_value 256 (fst st)"
    have x: "x < 58" using find_index_less [OF Some] by (simp add: pszBase58_def)
    then have "Suc (x + 58 * ?v) * 58 ^ length s \<le> Suc ?v * 58 ^ length (c # s)"
      using mult_le_mono1 [of "Suc (x + 58 * ?v)" "58 * Suc ?v" "58 ^ length s"] by (simp add: algebra_simps)
    with Cons.prems(2) have bound: "Suc (x + 58 * ?v) * 58 ^ length s \<le> 256 ^ length (fst st)" by simp
    moreover have "Suc (x + 58 * ?v) * 1 \<le> Suc (x + 58 * ?v) * 58 ^ length s" by (rule mult_le_mono2) simp
    ultimately have "x + 58 * ?v < 256 ^ length (fst st)" unfolding Suc_le_eq [symmetric] mult_1_right by (rule order_trans [rotated])
    from digit_step_correct [OF Cons.prems(1) _ this] obtain st' where
      st': "digit_step 58 256 st x = Some st'" "buf_ok 256 st'" "length (fst st') = length (fst st)"
        "digits_value 256 (fst st') = x + 58 * ?v" by auto
    with Cons.IH [OF st'(2)] bound Some show ?thesis by simp
  qed auto
qed auto

lemma DecodeBase58_no_assert: "DecodeBase58 str \<noteq> None"
proof -
  have "decode_loop (replicate (length s * 733 div 1000 + 1) 0, 0) s \<noteq> None" for s
    by (rule decode_loop_no_assert [OF buf_ok_empty])
       (use decode_size [of "length s"] in \<open>simp_all add: digits_value_zero\<close>)
  then show ?thesis by (simp add: DecodeBase58_def Let_def split: option.split)
qed

lemma base58check_roundtrip:
  assumes "\<And>x. length (SHA256 C x) = 32"
  obtains s where "EncodeBase58Check C v = Some s" "DecodeBase58Check C s = Some (Some v)"
proof -
  obtain s where "EncodeBase58Check C v = Some s" "DecodeBase58 s = Some (Some (v @ take 4 (Hash256 C v)))"
    using base58_roundtrip [of "v @ take 4 (Hash256 C v)"] by (auto simp: EncodeBase58Check_def)
  then show thesis
    by (intro that) (auto simp: DecodeBase58Check_def Let_def Hash256_def assms)
qed

section \<open>Properties\<close>

text \<open>
  Base 58 is a faithful text form of byte strings. Every byte string, leading zero bytes included, is
  encoded without the encoder's assertion on the buffer size failing, and decoding gives it back; and on
  every text at all, well-formed or not, the decoder's assertion holds as well. So the two size estimates
  of the code, 138 / 100 and 733 / 1000 digits per digit, are always enough.
\<close>

theorem base58_codec:
  "(\<exists>s. EncodeBase58 v = Some s \<and> DecodeBase58 s = Some (Some v)) \<and> DecodeBase58 t \<noteq> None"
  using base58_roundtrip [of v] DecodeBase58_no_assert by metis

text \<open>
  Addresses. Where SHA-256 gives 32 bytes, every 20-byte key hash and every 20-byte script hash has an
  address text on the main network. It decodes to the same destination, of the same kind, and it is not an
  address of the test network.
\<close>

theorem address_roundtrip:
  assumes "\<And>x. length (SHA256 C x) = 32" "length h = 20" "dest = CKeyID h \<or> dest = CScriptID h"
  shows "\<exists>s. EncodeDestination C main_prefixes dest = Some s \<and>
    DecodeDestination C main_prefixes s = Some dest \<and>
    IsValidDestinationString C test_prefixes s = Some False"
proof -
  define a where "a = Set_address main_prefixes dest"
  have a: "length (vchVersion a) = 1" "address_IsValid main_prefixes a" "address_Get main_prefixes a = dest"
    "\<not> address_IsValid test_prefixes a"
    using assms(2,3) by (auto simp: a_def address_IsValid_def address_Get_def main_prefixes_def test_prefixes_def)
  obtain s where s: "EncodeBase58Check C (vchVersion a @ vchData a) = Some s"
    "DecodeBase58Check C s = Some (Some (vchVersion a @ vchData a))"
    using base58check_roundtrip [of C, OF assms(1)] by metis
  with a have "SetString C s = Some a" by (auto simp: SetString_def)
  with s a show ?thesis
    by (auto simp: EncodeDestination_def DecodeDestination_def IsValidDestinationString_def a_def [symmetric])
qed

theorem address_roundtrip_witness:
  "\<exists>s. EncodeDestination ex_crypto main_prefixes (CScriptID (replicate 20 7)) = Some s \<and>
    DecodeDestination ex_crypto main_prefixes s = Some (CScriptID (replicate 20 7)) \<and>
    IsValidDestinationString ex_crypto test_prefixes s = Some False"
  by (rule address_roundtrip [of ex_crypto "replicate 20 7"]) (simp_all add: ex_crypto_def)

end
