(* ===== verification/SigHash.thy ===== *)
theory SigHash
  imports Interpreter Transaction
begin

text \<open>
  Signature hashes and the transaction signature checker (\<^verbatim>\<open>src/src/script/interpreter.cpp\<close>:
  \<^verbatim>\<open>CTransactionSignatureSerializer\<close>, \<^verbatim>\<open>SignatureHash\<close>, \<^verbatim>\<open>TransactionSignatureChecker\<close>). A
  \<^verbatim>\<open>CHashWriter\<close> is the bytes written to it, hashed twice with SHA-256 by \<^verbatim>\<open>GetHash\<close>.
\<close>

section \<open>The legacy preimage\<close>

abbreviation (input) "SIGHASH_ALL \<equiv> (1 :: nat)"
abbreviation (input) "SIGHASH_NONE \<equiv> (2 :: nat)"
abbreviation (input) "SIGHASH_SINGLE \<equiv> (3 :: nat)"

definition fAnyoneCanPay :: "nat \<Rightarrow> bool" where
  "fAnyoneCanPay nHashType \<longleftrightarrow> nHashType AND 0x80 \<noteq> 0"

definition fHashSingle :: "nat \<Rightarrow> bool" where
  "fHashSingle nHashType \<longleftrightarrow> nHashType AND 0x1f = SIGHASH_SINGLE"

definition fHashNone :: "nat \<Rightarrow> bool" where
  "fHashNone nHashType \<longleftrightarrow> nHashType AND 0x1f = SIGHASH_NONE"

function nCodeSeparators :: "script \<Rightarrow> nat" where
  "nCodeSeparators it =
     (case GetOp2 it of
        (True, it', opcode, v) \<Rightarrow> (if opcode = OP_CODESEPARATOR then 1 else 0) + nCodeSeparators it'
      | (False, it', opcode, v) \<Rightarrow> 0)"
  by pat_completeness auto
termination
  by (relation "measure length") (auto dest!: GetOp2_shorter_sym)

function write_code :: "script \<Rightarrow> script \<Rightarrow> bytes" where
  "write_code itBegin it =
     (case GetOp2 it of
        (True, it', opcode, v) \<Rightarrow>
          if opcode = OP_CODESEPARATOR
          then take (length itBegin - length it' - 1) itBegin @ write_code it' it'
          else write_code itBegin it'
      | (False, it', opcode, v) \<Rightarrow>
          if itBegin \<noteq> [] then take (length itBegin - length it') itBegin else [])"
  by pat_completeness auto
termination
  by (relation "measure (\<lambda>(b, it). length it)") (auto dest!: GetOp2_shorter_sym)

declare nCodeSeparators.simps [simp del] write_code.simps [simp del]

definition SerializeScriptCode :: "script \<Rightarrow> bytes" where
  "SerializeScriptCode scriptCode =
     WriteCompactSize (of_nat (length scriptCode - nCodeSeparators scriptCode)) @ write_code scriptCode scriptCode"

definition SerializeInput :: "CTransaction \<Rightarrow> script \<Rightarrow> nat \<Rightarrow> nat \<Rightarrow> nat \<Rightarrow> bytes" where
  "SerializeInput txTo scriptCode nIn nHashType nInput0 =
     (let nInput = (if fAnyoneCanPay nHashType then nIn else nInput0) in
      Serialize_COutPoint (prevout (vin txTo ! nInput)) @
      (if nInput \<noteq> nIn then Serialize_bytes [] else SerializeScriptCode scriptCode) @
      (if nInput \<noteq> nIn \<and> (fHashSingle nHashType \<or> fHashNone nHashType) then ser_writedata32 0
       else ser_writedata32 (nSequence (vin txTo ! nInput))))"

definition SerializeOutput :: "CTransaction \<Rightarrow> nat \<Rightarrow> nat \<Rightarrow> nat \<Rightarrow> bytes" where
  "SerializeOutput txTo nIn nHashType nOutput =
     (if fHashSingle nHashType \<and> nOutput \<noteq> nIn then Serialize_CTxOut CTxOut_null
      else Serialize_CTxOut (vout txTo ! nOutput))"

definition SignatureSerializer :: "CTransaction \<Rightarrow> script \<Rightarrow> nat \<Rightarrow> nat \<Rightarrow> bytes" where
  "SignatureSerializer txTo scriptCode nIn nHashType =
     (let nInputs = (if fAnyoneCanPay nHashType then 1 else length (vin txTo));
          nOutputs = (if fHashNone nHashType then 0
                      else if fHashSingle nHashType then nIn + 1 else length (vout txTo)) in
      ser_writedata32 (n32bitVersion (nVersion txTo) (nType txTo)) @
      WriteCompactSize (of_nat nInputs) @
      concat (map (SerializeInput txTo scriptCode nIn nHashType) [0..<nInputs]) @
      WriteCompactSize (of_nat nOutputs) @
      concat (map (SerializeOutput txTo nIn nHashType) [0..<nOutputs]) @
      ser_writedata32 (nLockTime txTo) @
      (if has_payload (nVersion txTo) (nType txTo) then Serialize_bytes (vExtraPayload txTo) else []))"

section \<open>The hash\<close>

definition GetHash_writer :: "crypto \<Rightarrow> bytes \<Rightarrow> uint256" where
  "GetHash_writer C b = of_nat (le_nat (Hash256 C b))"

definition GetPrevoutHash :: "crypto \<Rightarrow> CTransaction \<Rightarrow> uint256" where
  "GetPrevoutHash C txTo = GetHash_writer C (concat (map (\<lambda>i. Serialize_COutPoint (prevout i)) (vin txTo)))"

definition GetSequenceHash :: "crypto \<Rightarrow> CTransaction \<Rightarrow> uint256" where
  "GetSequenceHash C txTo = GetHash_writer C (concat (map (\<lambda>i. ser_writedata32 (nSequence i)) (vin txTo)))"

definition GetOutputsHash :: "crypto \<Rightarrow> CTransaction \<Rightarrow> uint256" where
  "GetOutputsHash C txTo = GetHash_writer C (concat (map Serialize_CTxOut (vout txTo)))"

record PrecomputedTransactionData =
  hashPrevouts :: uint256
  hashSequence :: uint256
  hashOutputs :: uint256
  ready :: bool

definition PrecomputedTransactionData_of :: "crypto \<Rightarrow> CTransaction \<Rightarrow> PrecomputedTransactionData" where
  "PrecomputedTransactionData_of C txTo =
     (if HasWitness txTo
      then \<lparr>hashPrevouts = GetPrevoutHash C txTo, hashSequence = GetSequenceHash C txTo,
            hashOutputs = GetOutputsHash C txTo, ready = True\<rparr>
      else \<lparr>hashPrevouts = 0, hashSequence = 0, hashOutputs = 0, ready = False\<rparr>)"

definition witness_preimage ::
  "crypto \<Rightarrow> script \<Rightarrow> CTransaction \<Rightarrow> nat \<Rightarrow> nat \<Rightarrow> int \<Rightarrow> PrecomputedTransactionData option \<Rightarrow> bytes" where
  "witness_preimage C scriptCode txTo nIn nHashType amount cache =
     (let cached = (\<lambda>sel fresh. case cache of Some c \<Rightarrow> if ready c then sel c else fresh | None \<Rightarrow> fresh);
          hp = (if \<not> fAnyoneCanPay nHashType then cached hashPrevouts (GetPrevoutHash C txTo) else 0);
          hs = (if \<not> fAnyoneCanPay nHashType \<and> \<not> fHashSingle nHashType \<and> \<not> fHashNone nHashType
                then cached hashSequence (GetSequenceHash C txTo) else 0);
          ho = (if \<not> fHashSingle nHashType \<and> \<not> fHashNone nHashType
                then cached hashOutputs (GetOutputsHash C txTo)
                else if fHashSingle nHashType \<and> nIn < length (vout txTo)
                then GetHash_writer C (Serialize_CTxOut (vout txTo ! nIn)) else 0) in
      ser_writedata16 (word_of_int (nVersion txTo)) @
      Serialize_uint256 hp @ Serialize_uint256 hs @
      Serialize_COutPoint (prevout (vin txTo ! nIn)) @ Serialize_bytes scriptCode @
      Serialize_int64 amount @ ser_writedata32 (nSequence (vin txTo ! nIn)) @
      Serialize_uint256 ho @ ser_writedata32 (nLockTime txTo) @ ser_writedata32 (of_nat nHashType))"

text \<open>\<open>None\<close>: the assertion \<^verbatim>\<open>nIn < txTo.vin.size()\<close> fails.\<close>

definition SignatureHash ::
  "crypto \<Rightarrow> script \<Rightarrow> CTransaction \<Rightarrow> nat \<Rightarrow> nat \<Rightarrow> int \<Rightarrow> SigVersion \<Rightarrow>
   PrecomputedTransactionData option \<Rightarrow> uint256 option" where
  "SignatureHash C scriptCode txTo nIn nHashType amount sigversion cache =
     (if \<not> nIn < length (vin txTo) then None
      else if sigversion = SIGVERSION_WITNESS_V0 then
        Some (GetHash_writer C (witness_preimage C scriptCode txTo nIn nHashType amount cache))
      else if fHashSingle nHashType \<and> nIn \<ge> length (vout txTo) then Some 1
      else Some (GetHash_writer C
        (SignatureSerializer txTo scriptCode nIn nHashType @ ser_writedata32 (of_nat nHashType))))"

section \<open>The checker of a transaction input\<close>

text \<open>
  A checker is only built for an input of its transaction, so the case \<open>None\<close> does not occur.
  \<open>pubkey_valid\<close> is \<^verbatim>\<open>CPubKey::IsValid\<close> after construction from the bytes; \<open>Verify\<close> stands for
  \<^verbatim>\<open>CPubKey::Verify\<close>, which calls the curve library.
\<close>

definition pubkey_GetLen :: "byte \<Rightarrow> nat" where
  "pubkey_GetLen chHeader =
     (if chHeader = 2 \<or> chHeader = 3 then 33
      else if chHeader = 4 \<or> chHeader = 6 \<or> chHeader = 7 then 65
      else 0)"

definition pubkey_valid :: "valtype \<Rightarrow> bool" where
  "pubkey_valid v \<longleftrightarrow> v \<noteq> [] \<and> pubkey_GetLen (hd v) \<noteq> 0 \<and> pubkey_GetLen (hd v) = length v"

definition CheckSig_tx ::
  "(valtype \<Rightarrow> uint256 \<Rightarrow> bytes \<Rightarrow> bool) \<Rightarrow> crypto \<Rightarrow> CTransaction \<Rightarrow> nat \<Rightarrow> int \<Rightarrow>
   PrecomputedTransactionData option \<Rightarrow> valtype \<Rightarrow> valtype \<Rightarrow> script \<Rightarrow> SigVersion \<Rightarrow> bool" where
  "CheckSig_tx Verify C txTo nIn amount txdata vchSigIn vchPubKey scriptCode sigversion \<longleftrightarrow>
     (if \<not> pubkey_valid vchPubKey then False
      else if vchSigIn = [] then False
      else case SignatureHash C scriptCode txTo nIn (unat (last vchSigIn)) amount sigversion txdata of
        None \<Rightarrow> False
      | Some sighash \<Rightarrow> Verify vchPubKey sighash (butlast vchSigIn))"

definition LOCKTIME_THRESHOLD :: nat where "LOCKTIME_THRESHOLD = 500000000"

definition CheckLockTime_tx :: "CTransaction \<Rightarrow> nat \<Rightarrow> int \<Rightarrow> bool" where
  "CheckLockTime_tx txTo nIn n \<longleftrightarrow>
     (if \<not> (uint (nLockTime txTo) < int LOCKTIME_THRESHOLD \<and> n < int LOCKTIME_THRESHOLD \<or>
            uint (nLockTime txTo) \<ge> int LOCKTIME_THRESHOLD \<and> n \<ge> int LOCKTIME_THRESHOLD) then False
      else if n > uint (nLockTime txTo) then False
      else if SEQUENCE_FINAL = nSequence (vin txTo ! nIn) then False
      else True)"

definition CheckSequence_tx :: "CTransaction \<Rightarrow> nat \<Rightarrow> int \<Rightarrow> bool" where
  "CheckSequence_tx txTo nIn n \<longleftrightarrow>
     (let txToSequence = uint (nSequence (vin txTo ! nIn));
          nLockTimeMask = uint (SEQUENCE_LOCKTIME_TYPE_FLAG OR SEQUENCE_LOCKTIME_MASK);
          typeflag = uint SEQUENCE_LOCKTIME_TYPE_FLAG;
          txToSequenceMasked = txToSequence AND nLockTimeMask;
          nSequenceMasked = n AND nLockTimeMask in
      if (word_of_int (nVersion txTo) :: u32) < 2 then False
      else if txToSequence AND uint SEQUENCE_LOCKTIME_DISABLE_FLAG \<noteq> 0 then False
      else if \<not> (txToSequenceMasked < typeflag \<and> nSequenceMasked < typeflag \<or>
                 txToSequenceMasked \<ge> typeflag \<and> nSequenceMasked \<ge> typeflag) then False
      else \<not> nSequenceMasked > txToSequenceMasked)"

definition TransactionSignatureChecker ::
  "(valtype \<Rightarrow> uint256 \<Rightarrow> bytes \<Rightarrow> bool) \<Rightarrow> crypto \<Rightarrow> CTransaction \<Rightarrow> nat \<Rightarrow> int \<Rightarrow>
   PrecomputedTransactionData option \<Rightarrow> checker" where
  "TransactionSignatureChecker Verify C txTo nIn amount txdata =
     \<lparr>CheckSig = CheckSig_tx Verify C txTo nIn amount txdata,
      CheckLockTime = CheckLockTime_tx txTo nIn,
      CheckSequence = CheckSequence_tx txTo nIn\<rparr>"

section \<open>The preimage is a serialized transaction\<close>

text \<open>The script code without its code separators.\<close>

function strip_separators :: "script \<Rightarrow> script" where
  "strip_separators it =
     (case GetOp2 it of
        (True, it', opcode, v) \<Rightarrow>
          (if opcode = OP_CODESEPARATOR then [] else take (length it - length it') it) @ strip_separators it'
      | (False, it', opcode, v) \<Rightarrow> it)"
  by pat_completeness auto
termination
  by (relation "measure length") (auto dest!: GetOp2_shorter_sym)

declare strip_separators.simps [simp del]

lemma GetOp2_Nil_loops [simp]:
  "nCodeSeparators [] = 0" "strip_separators [] = []"
  by (simp_all add: nCodeSeparators.simps [of "[]"] strip_separators.simps [of "[]"])

lemma write_code_Nil [simp]: "write_code b [] = b"
  by (simp add: write_code.simps [of b "[]"])

lemma code_loops_Op [simp]:
  assumes "GetOp2 it = (True, it', opcode, v)"
  shows "nCodeSeparators it = (if opcode = OP_CODESEPARATOR then 1 else 0) + nCodeSeparators it'"
    "strip_separators it =
      (if opcode = OP_CODESEPARATOR then [] else take (length it - length it') it) @ strip_separators it'"
    "write_code b it = (if opcode = OP_CODESEPARATOR
      then take (length b - length it' - 1) b @ write_code it' it' else write_code b it')"
  using assms by (simp_all add: nCodeSeparators.simps [of it] strip_separators.simps [of it] write_code.simps [of b it])

lemma GetOp_size_suffix: "GetOp_size opcode pc = (r, pc') \<Longrightarrow> suffix pc' pc"
  by (auto simp: GetOp_size_def read_size_def suffix_drop split: if_splits)

lemma GetOp2_suffix: "GetOp2 it = (True, it', opcode, v) \<Longrightarrow> suffix it' it"
  by (cases it) (auto split: if_splits option.splits prod.splits dest!: GetOp_size_suffix
    intro: suffix_ConsI suffix_order.trans [OF suffix_drop])

lemma GetOp2_split:
  "GetOp2 it = (True, it', opcode, v) \<Longrightarrow> it = take (length it - length it') it @ it'"
  by (auto dest!: GetOp2_suffix simp: suffix_def)

lemma GetOp2_separator: "GetOp2 it = (True, it', OP_CODESEPARATOR, v) \<Longrightarrow> it = OP_CODESEPARATOR # it'"
  by (cases it) (auto split: if_splits option.splits prod.splits)

lemma write_code_strip:
  "decode it \<noteq> None \<Longrightarrow> write_code (p @ it) it = p @ strip_separators it"
proof (induction it arbitrary: p rule: script_induct)
  case (Op it it' opcode v)
  then have d: "decode it' \<noteq> None" by (cases "decode it'") auto
  show ?case
  proof (cases "opcode = OP_CODESEPARATOR")
    case True
    then have "it = OP_CODESEPARATOR # it'" using Op.hyps GetOp2_separator by simp
    with True Op.hyps Op.IH [OF d, of "[]"] show ?thesis by simp
  next
    case False
    have "p @ it = (p @ take (length it - length it') it) @ it'" using GetOp2_split [OF Op.hyps(2)] by simp
    then show ?thesis
      using False Op.hyps Op.IH [OF d, of "p @ take (length it - length it') it"] by simp
  qed
qed auto

lemma length_strip_separators:
  "decode it \<noteq> None \<Longrightarrow> length (strip_separators it) + nCodeSeparators it = length it"
proof (induction it rule: script_induct)
  case (Op it it' opcode v)
  then have d: "decode it' \<noteq> None" by (cases "decode it'") auto
  have "opcode = OP_CODESEPARATOR \<Longrightarrow> length it = Suc (length it')"
    using GetOp2_separator Op.hyps by fastforce
  moreover have "length it' < length it" using GetOp2_shorter Op.hyps by blast
  ultimately show ?case using Op.hyps Op.IH [OF d] by auto
qed auto

lemma SerializeScriptCode_eq:
  "decode code \<noteq> None \<Longrightarrow> SerializeScriptCode code = Serialize_bytes (strip_separators code)"
  using write_code_strip [of code "[]"] length_strip_separators [of code]
  by (simp add: SerializeScriptCode_def Serialize_bytes_def flip: length_strip_separators)

text \<open>
  The transaction that a signature signs: the other inputs lose their scripts (and, for the hash
  types that let them change, their sequence numbers), the signed input gets the script code, and
  the outputs are all, none, or the one at the input's index.
\<close>

definition signed_input :: "CTransaction \<Rightarrow> script \<Rightarrow> nat \<Rightarrow> nat \<Rightarrow> nat \<Rightarrow> CTxIn" where
  "signed_input tx code nIn nHashType i =
     (vin tx ! i) \<lparr>scriptSig := (if i = nIn then strip_separators code else []),
       nSequence := (if i \<noteq> nIn \<and> (fHashSingle nHashType \<or> fHashNone nHashType) then 0
                     else nSequence (vin tx ! i))\<rparr>"

definition signed_tx :: "CTransaction \<Rightarrow> script \<Rightarrow> nat \<Rightarrow> nat \<Rightarrow> CTransaction" where
  "signed_tx tx code nIn nHashType = tx
     \<lparr>vin := (if fAnyoneCanPay nHashType then [signed_input tx code nIn nHashType nIn]
              else map (signed_input tx code nIn nHashType) [0..<length (vin tx)]),
      vout := (if fHashNone nHashType then []
               else if fHashSingle nHashType then replicate nIn CTxOut_null @ [vout tx ! nIn]
               else vout tx)\<rparr>"

lemma signed_tx_fields:
  "nVersion (signed_tx tx code nIn ht) = nVersion tx" "nType (signed_tx tx code nIn ht) = nType tx"
  "nLockTime (signed_tx tx code nIn ht) = nLockTime tx"
  "vExtraPayload (signed_tx tx code nIn ht) = vExtraPayload tx"
  by (simp_all add: signed_tx_def)

lemma SerializeInput_eq:
  assumes "decode code \<noteq> None"
  shows "SerializeInput tx code nIn ht i =
    Serialize_CTxIn (signed_input tx code nIn ht (if fAnyoneCanPay ht then nIn else i))"
  using SerializeScriptCode_eq [OF assms]
  by (simp add: SerializeInput_def signed_input_def Serialize_CTxIn_def Let_def)

lemma SerializeOutput_single:
  assumes "fHashSingle ht"
  shows "map (SerializeOutput tx nIn ht) [0..<Suc nIn] =
    map Serialize_CTxOut (replicate nIn CTxOut_null @ [vout tx ! nIn])"
proof -
  have "map (SerializeOutput tx nIn ht) [0..<nIn] = map (\<lambda>_. Serialize_CTxOut CTxOut_null) [0..<nIn]"
    using assms by (intro map_cong) (auto simp: SerializeOutput_def)
  then show ?thesis using assms by (simp add: SerializeOutput_def map_replicate_const)
qed

lemma SerializeOutput_all:
  assumes "\<not> fHashSingle ht"
  shows "map (SerializeOutput tx nIn ht) [0..<length (vout tx)] = map Serialize_CTxOut (vout tx)"
  using assms by (intro nth_equalityI) (simp_all add: SerializeOutput_def)

lemma none_not_single: "fHashNone ht \<Longrightarrow> \<not> fHashSingle ht"
  by (simp add: fHashNone_def fHashSingle_def)

text \<open>
  C26. The signature hash against its specification. For a script code that parses, the bytes that
  \<^verbatim>\<open>CTransactionSignatureSerializer\<close> streams are the basic serialization of a transaction: the one in which the
  other inputs' scripts are blank, the signed input carries the code without its separators, and the inputs, sequence
  numbers and outputs that the hash type leaves open are dropped or cleared.
\<close>

theorem sighash_preimage_is_transaction:
  assumes "decode code \<noteq> None"
  shows "SignatureSerializer tx code nIn ht = SerializeTransaction False (signed_tx tx code nIn ht)"
proof -
  have ins: "map (SerializeInput tx code nIn ht) [0..<(if fAnyoneCanPay ht then 1 else length (vin tx))] =
      map Serialize_CTxIn (vin (signed_tx tx code nIn ht))"
    by (simp add: SerializeInput_eq [OF assms] signed_tx_def)
  have outs: "map (SerializeOutput tx nIn ht)
        [0..<(if fHashNone ht then 0 else if fHashSingle ht then nIn + 1 else length (vout tx))] =
      map Serialize_CTxOut (vout (signed_tx tx code nIn ht))"
    using SerializeOutput_single [of ht tx nIn] SerializeOutput_all [of ht tx nIn] by (auto simp: signed_tx_def)
  have len: "(if fAnyoneCanPay ht then 1 else length (vin tx)) = length (vin (signed_tx tx code nIn ht))"
    "(if fHashNone ht then 0 else if fHashSingle ht then nIn + 1 else length (vout tx)) =
      length (vout (signed_tx tx code nIn ht))"
    by (simp_all add: signed_tx_def)
  show ?thesis
    unfolding SignatureSerializer_def SerializeTransaction_def Serialize_vector_def Let_def
    unfolding ins outs unfolding len by (simp add: signed_tx_fields)
qed

text \<open>The cached hashes are those that the code would compute.\<close>

lemma witness_preimage_cache:
  "witness_preimage C code tx nIn ht amount (Some (PrecomputedTransactionData_of C tx)) =
   witness_preimage C code tx nIn ht amount None"
  by (simp add: witness_preimage_def PrecomputedTransactionData_of_def Let_def)

theorem sighash_preimage_is_transaction_witness:
  "SignatureSerializer ex_spend [OP_DUP, OP_CODESEPARATOR, OP_CHECKSIG] 0 1 =
   SerializeTransaction False (signed_tx ex_spend [OP_DUP, OP_CODESEPARATOR, OP_CHECKSIG] 0 1)"
  using sighash_preimage_is_transaction [of "[OP_DUP, OP_CODESEPARATOR, OP_CHECKSIG]" ex_spend 0 1]
  by (simp add: decode.simps)

end
