(* ===== verification/Standard.thy ===== *)
theory Standard
  imports Base58 SigHash ScriptExec
begin

text \<open>
  Standard output scripts (\<^verbatim>\<open>src/src/script/standard.cpp\<close>): the solver with its script templates, the
  destinations of an output, and the scripts built for a destination.
\<close>

section \<open>The solver\<close>

abbreviation (input) "OP_SMALLINTEGER \<equiv> (0xfa :: byte)"
abbreviation (input) "OP_PUBKEYS \<equiv> (0xfb :: byte)"
abbreviation (input) "OP_PUBKEYHASH \<equiv> (0xfd :: byte)"
abbreviation (input) "OP_PUBKEY \<equiv> (0xfe :: byte)"

text \<open>The templates, in the order of the map that holds them.\<close>

definition mTemplates :: "(txnouttype \<times> script) list" where
  "mTemplates =
     [(TX_PUBKEY, [OP_PUBKEY, OP_CHECKSIG]),
      (TX_PUBKEYHASH, [OP_DUP, OP_HASH160, OP_PUBKEYHASH, OP_EQUALVERIFY, OP_CHECKSIG]),
      (TX_MULTISIG, [OP_SMALLINTEGER, OP_PUBKEYS, OP_SMALLINTEGER, OP_CHECKMULTISIG])]"

text \<open>
  \<open>pubkeys_loop\<close> is the inner loop for \<^verbatim>\<open>OP_PUBKEYS\<close>: it collects keys and leaves the first instruction that is
  none, or the failed read, in \<open>opcode1\<close> and \<open>vch1\<close>. \<open>template_op\<close> compares one instruction with the template's;
  \<open>None\<close> leaves the comparison.
\<close>

function pubkeys_loop :: "bytes \<Rightarrow> byte \<Rightarrow> valtype \<Rightarrow> valtype list \<Rightarrow> bytes \<times> byte \<times> valtype \<times> valtype list" where
  "pubkeys_loop pc1 opcode1 vch1 sols =
     (if 33 \<le> length vch1 \<and> length vch1 \<le> 65 then
        (case GetOp2 pc1 of
           (True, pc1', opcode1', vch1') \<Rightarrow> pubkeys_loop pc1' opcode1' vch1' (sols @ [vch1])
         | (False, pc1', opcode1', vch1') \<Rightarrow> (pc1', opcode1', vch1', sols @ [vch1]))
      else (pc1, opcode1, vch1, sols))"
  by pat_completeness auto
termination
  by (relation "measure (\<lambda>(pc1, _). length pc1)") (auto dest!: GetOp2_shorter_sym)

declare pubkeys_loop.simps [simp del]

definition template_op :: "byte \<Rightarrow> valtype \<Rightarrow> byte \<Rightarrow> valtype \<Rightarrow> valtype list \<Rightarrow> valtype list option" where
  "template_op opcode1 vch1 opcode2 vch2 sols =
     (if opcode2 = OP_PUBKEY then
        (if length vch1 < 33 \<or> length vch1 > 65 then None else Some (sols @ [vch1]))
      else if opcode2 = OP_PUBKEYHASH then
        (if length vch1 \<noteq> 20 then None else Some (sols @ [vch1]))
      else if opcode2 = OP_SMALLINTEGER then
        (if opcode1 = OP_0 \<or> (opcode1 \<ge> OP_1 \<and> opcode1 \<le> OP_16)
         then Some (sols @ [[word_of_int (DecodeOP_N opcode1)]]) else None)
      else if opcode1 \<noteq> opcode2 \<or> vch1 \<noteq> vch2 then None
      else Some sols)"

function template_loop :: "bytes \<Rightarrow> bytes \<Rightarrow> valtype list \<Rightarrow> valtype list option" where
  "template_loop pc1 pc2 sols =
     (if pc1 = [] \<and> pc2 = [] then Some sols
      else case GetOp2 pc1 of
        (False, _) \<Rightarrow> None
      | (True, pc1', opcode1, vch1) \<Rightarrow>
          (case GetOp2 pc2 of
             (False, _) \<Rightarrow> None
           | (True, pc2', opcode2, vch2) \<Rightarrow>
               if opcode2 = OP_PUBKEYS then
                 (case pubkeys_loop pc1' opcode1 vch1 sols of
                    (pc1'', opcode1', vch1', sols') \<Rightarrow>
                      (case GetOp2 pc2' of
                         (False, _) \<Rightarrow> None
                       | (True, pc2'', opcode2', vch2') \<Rightarrow>
                           (case template_op opcode1' vch1' opcode2' vch2' sols' of
                              None \<Rightarrow> None
                            | Some sols'' \<Rightarrow> template_loop pc1'' pc2'' sols'')))
               else
                 (case template_op opcode1 vch1 opcode2 vch2 sols of
                    None \<Rightarrow> None
                  | Some sols' \<Rightarrow> template_loop pc1' pc2' sols')))"
  by pat_completeness auto
termination
  by (relation "measure (\<lambda>(pc1, pc2, _). length pc2)") (auto dest!: GetOp2_shorter_sym)

declare template_loop.simps [simp del]

fun scan_templates :: "script \<Rightarrow> (txnouttype \<times> script) list \<Rightarrow> (txnouttype \<times> valtype list) option" where
  "scan_templates script1 [] = None"
| "scan_templates script1 ((typ, script2) # ts) =
     (case template_loop script1 script2 [] of
        None \<Rightarrow> scan_templates script1 ts
      | Some sols \<Rightarrow>
          if typ = TX_MULTISIG then
            let m = unat (hd (hd sols)); n = unat (hd (last sols)) in
            if m < 1 \<or> n < 1 \<or> m > n \<or> length sols - 2 \<noteq> n then None else Some (typ, sols)
          else Some (typ, sols))"

text \<open>The type and the solutions when the code returns true; \<open>None\<close> when it returns false.\<close>

definition Solver :: "script \<Rightarrow> (txnouttype \<times> valtype list) option" where
  "Solver s =
     (if IsPayToScriptHash s then Some (TX_SCRIPTHASH, [take 20 (drop 2 s)])
      else case IsAssetScript s of
        Some (typ, fIsOwner, _) \<Rightarrow> Some (typ, [take 20 (drop 3 s)])
      | None \<Rightarrow>
          (case IsWitnessProgram s of
             Some (witnessversion, witnessprogram) \<Rightarrow>
               if witnessversion = 0 \<and> length witnessprogram = 20 then Some (TX_WITNESS_V0_KEYHASH, [witnessprogram])
               else if witnessversion = 0 \<and> length witnessprogram = 32 then Some (TX_WITNESS_V0_SCRIPTHASH, [witnessprogram])
               else None
           | None \<Rightarrow>
               if length s \<ge> 1 \<and> s ! 0 = OP_RETURN \<and> IsPushOnly (drop 1 s) then Some (TX_NULL_DATA, [])
               else if length s \<ge> 1 \<and> s ! 0 = OP_BLKR_ASSET \<and> IsPushOnly (drop 1 s) then
                 Some (TX_RESTRICTED_ASSET_DATA,
                   if length s \<ge> 23 \<and> s ! 1 \<noteq> OP_RESERVED then [take 20 (drop 2 s)] else [])
               else scan_templates s mTemplates))"

section \<open>Destinations\<close>

definition ExtractDestination :: "crypto \<Rightarrow> script \<Rightarrow> CTxDestination option" where
  "ExtractDestination C s =
     (case Solver s of
        None \<Rightarrow> None
      | Some (whichType, vSolutions) \<Rightarrow>
          if whichType = TX_PUBKEY then
            (if \<not> pubkey_valid (vSolutions ! 0) then None else Some (CKeyID (Hash160 C (vSolutions ! 0))))
          else if whichType = TX_PUBKEYHASH then Some (CKeyID (vSolutions ! 0))
          else if whichType = TX_SCRIPTHASH then Some (CScriptID (vSolutions ! 0))
          else if whichType = TX_NEW_ASSET \<or> whichType = TX_REISSUE_ASSET \<or> whichType = TX_TRANSFER_ASSET then
            Some (CKeyID (vSolutions ! 0))
          else if whichType = TX_RESTRICTED_ASSET_DATA \<and> vSolutions \<noteq> [] then Some (CKeyID (vSolutions ! 0))
          else None)"

definition ExtractDestinations :: "crypto \<Rightarrow> script \<Rightarrow> (txnouttype \<times> CTxDestination list \<times> nat) option" where
  "ExtractDestinations C s =
     (case Solver s of
        None \<Rightarrow> None
      | Some (typ, vSolutions) \<Rightarrow>
          if typ = TX_NULL_DATA then None
          else if typ = TX_MULTISIG then
            let addresses = map (\<lambda>k. CKeyID (Hash160 C k)) (filter pubkey_valid (butlast (tl vSolutions))) in
            if addresses = [] then None else Some (typ, addresses, unat (hd (hd vSolutions)))
          else map_option (\<lambda>address. (typ, [address], 1)) (ExtractDestination C s))"

fun GetScriptForDestination :: "CTxDestination \<Rightarrow> script" where
  "GetScriptForDestination CNoDestination = []"
| "GetScriptForDestination (CKeyID h) =
     push_opcode (push_opcode (push_data (push_opcode (push_opcode [] OP_DUP) OP_HASH160) h) OP_EQUALVERIFY) OP_CHECKSIG"
| "GetScriptForDestination (CScriptID h) = push_opcode (push_data (push_opcode [] OP_HASH160) h) OP_EQUAL"

definition GetScriptForRawPubKey :: "valtype \<Rightarrow> script" where
  "GetScriptForRawPubKey pubKey = push_opcode (push_data [] pubKey) OP_CHECKSIG"

text \<open>\<open>None\<close> is the assertion of \<^verbatim>\<open>EncodeOP_N\<close> on its range.\<close>

definition GetScriptForMultisig :: "nat \<Rightarrow> valtype list \<Rightarrow> script option" where
  "GetScriptForMultisig nRequired keys =
     (if nRequired > 16 \<or> length keys > 16 then None
      else Some (push_opcode (push_opcode (foldl push_data (push_opcode [] (EncodeOP_N nRequired)) keys)
        (EncodeOP_N (length keys))) OP_CHECKMULTISIG))"

fun GetScriptForNullAssetDataDestination :: "CTxDestination \<Rightarrow> script" where
  "GetScriptForNullAssetDataDestination CNoDestination = []"
| "GetScriptForNullAssetDataDestination (CKeyID h) = push_data (push_opcode [] OP_BLKR_ASSET) h"
| "GetScriptForNullAssetDataDestination (CScriptID h) = push_data (push_opcode [] OP_BLKR_ASSET) h"

definition GetScriptForWitness :: "crypto \<Rightarrow> script \<Rightarrow> script" where
  "GetScriptForWitness C redeemscript =
     (let scripthash = push_data (push_opcode [] OP_0) (SHA256 C redeemscript) in
      case Solver redeemscript of
        None \<Rightarrow> scripthash
      | Some (typ, vSolutions) \<Rightarrow>
          if typ = TX_PUBKEY then push_data (push_opcode [] OP_0) (Hash160 C (vSolutions ! 0))
          else if typ = TX_PUBKEYHASH then push_data (push_opcode [] OP_0) (vSolutions ! 0)
          else scripthash)"

fun IsValidDestination :: "CTxDestination \<Rightarrow> bool" where
  "IsValidDestination CNoDestination = False"
| "IsValidDestination _ = True"

section \<open>Scripts and their destinations\<close>

lemma GetOp2_op: "opcode > OP_PUSHDATA4 \<Longrightarrow> opcode \<noteq> OP_BLKR_ASSET \<Longrightarrow> GetOp2 (opcode # pc) = (True, pc, opcode, [])"
  by (auto simp: not_less [symmetric])

lemma GetOp2_push: "length v < 76 \<Longrightarrow> GetOp2 (of_nat (length v) # v @ pc) = (True, pc, of_nat (length v), v)"
proof -
  assume l: "length v < 76"
  then have n: "unat (of_nat (length v) :: byte) = length v" by (simp add: unat_of_nat)
  with l have "(of_nat (length v) :: byte) < OP_PUSHDATA1" by (simp add: word_less_nat_alt)
  moreover from this have "(of_nat (length v) :: byte) \<le> OP_PUSHDATA4"
    by (rule order.trans [OF order.strict_implies_order]) simp
  ultimately show ?thesis using n by (simp add: GetOp_size_def)
qed

lemma push_data_short: "length v < 76 \<Longrightarrow> push_data s v = s @ of_nat (length v) # v"
  by (simp add: push_data_def)

lemma template_loop_step:
  assumes "GetOp2 pc1 = (True, pc1', opcode1, vch1)" "GetOp2 pc2 = (True, pc2', opcode2, vch2)" "opcode2 \<noteq> OP_PUBKEYS"
  shows "template_loop pc1 pc2 sols =
    (case template_op opcode1 vch1 opcode2 vch2 sols of None \<Rightarrow> None | Some sols' \<Rightarrow> template_loop pc1' pc2' sols')"
  using assms by (subst template_loop.simps) auto

lemma template_loop_end [simp]: "template_loop [] [] sols = Some sols"
  by (simp add: template_loop.simps)

lemma p2pkh_templates:
  assumes "length h = 20"
  shows "scan_templates (p2pkh_script h) mTemplates = Some (TX_PUBKEYHASH, [h])"
proof -
  have hash: "GetOp2 (0x14 # h @ [OP_EQUALVERIFY, OP_CHECKSIG]) = (True, [OP_EQUALVERIFY, OP_CHECKSIG], 0x14, h)"
    using GetOp2_push [of h "[OP_EQUALVERIFY, OP_CHECKSIG]"] assms by simp
  show ?thesis
    using assms
    by (simp add: p2pkh_script_def mTemplates_def template_loop_step [OF GetOp2_op GetOp2_op] template_op_def
        template_loop_step [OF hash GetOp2_op])
qed

lemma Solver_p2pkh:
  assumes "length h = 20"
  shows "Solver (p2pkh_script h) = Some (TX_PUBKEYHASH, [h])"
proof -
  have "length (p2pkh_script h) = 25" "p2pkh_script h ! 0 = OP_DUP" using assms by (simp_all add: p2pkh_script_def)
  then show ?thesis
    by (simp add: Solver_def p2pkh_templates assms IsPayToScriptHash_def IsAssetScript_def IsWitnessProgram_def)
qed

lemma Solver_p2sh: "length h = 20 \<Longrightarrow> Solver ([OP_HASH160, 0x14] @ h @ [OP_EQUAL]) = Some (TX_SCRIPTHASH, [h])"
  by (simp add: Solver_def IsPayToScriptHash_def nth_append)

lemma Solver_asset:
  assumes "IsAssetScript (pre @ t) = Some (typ, fIsOwner, i)" "length pre = 25"
  shows "Solver (pre @ t) = Some (typ, [take 20 (drop 3 pre)])"
proof -
  have "length (pre @ t) > 31" using assms(1) by (auto simp: IsAssetScript_def split: if_splits)
  then show ?thesis using assms by (simp add: Solver_def IsPayToScriptHash_def)
qed

lemma asset_script_types:
  "IsAssetScript s = Some (typ, fIsOwner, i) \<Longrightarrow> typ \<in> {TX_NEW_ASSET, TX_REISSUE_ASSET, TX_TRANSFER_ASSET}"
  by (auto simp: IsAssetScript_def Let_def split: if_splits option.splits)

lemma ExtractDestination_asset:
  assumes "IsAssetScript (pre @ t) \<noteq> None" "length pre = 25"
  shows "ExtractDestination C (pre @ t) = Some (CKeyID (take 20 (drop 3 pre)))"
proof -
  obtain ty f i where a: "IsAssetScript (pre @ t) = Some (ty, f, i)" using assms(1) by auto
  from Solver_asset [OF a assms(2)] asset_script_types [OF a] show ?thesis
    by (auto simp: ExtractDestination_def)
qed

text \<open>Multi-signature scripts.\<close>

definition push_key :: "valtype \<Rightarrow> bytes" where
  "push_key k = of_nat (length k) # k"

lemma push_keys: "\<forall>k \<in> set keys. length k < 76 \<Longrightarrow> foldl push_data s keys = s @ concat (map push_key keys)"
  by (induction keys arbitrary: s) (auto simp: push_data_short push_key_def)

lemma pubkeys_loop_keys:
  assumes "33 \<le> length v \<and> length v \<le> 65" "\<forall>k \<in> set keys. 33 \<le> length k \<and> length k \<le> 65"
    and "GetOp2 rest = (True, rest', opcode', w)" "length w < 33"
  shows "pubkeys_loop (concat (map push_key keys) @ rest) opcode v sols = (rest', opcode', w, sols @ v # keys)"
  using assms(1,2)
proof (induction keys arbitrary: v opcode sols)
  case Nil
  then show ?case
    using assms(3,4) by (simp add: pubkeys_loop.simps [of rest] pubkeys_loop.simps [of rest'])
next
  case (Cons k keys)
  then have k: "GetOp2 (push_key k @ concat (map push_key keys) @ rest) =
      (True, concat (map push_key keys) @ rest, of_nat (length k), k)"
    by (simp add: push_key_def GetOp2_push del: GetOp2.simps)
  have "pubkeys_loop (push_key k @ concat (map push_key keys) @ rest) opcode v sols =
      pubkeys_loop (concat (map push_key keys) @ rest) (of_nat (length k)) k (sols @ [v])"
    using Cons.prems(1) k by (simp add: pubkeys_loop.simps [of "push_key k @ concat (map push_key keys) @ rest"])
  with Cons show ?case by simp
qed

lemma small_integers:
  assumes "1 \<le> n" "n \<le> 16"
  shows "EncodeOP_N n > OP_PUSHDATA4 \<and> EncodeOP_N n \<noteq> OP_BLKR_ASSET \<and> OP_1 \<le> EncodeOP_N n \<and> EncodeOP_N n \<le> OP_16 \<and>
    (word_of_int (DecodeOP_N (EncodeOP_N n)) :: byte) = of_nat n"
proof -
  have "\<forall>n \<in> set [1..<17]. EncodeOP_N n > OP_PUSHDATA4 \<and> EncodeOP_N n \<noteq> OP_BLKR_ASSET \<and> OP_1 \<le> EncodeOP_N n \<and>
    EncodeOP_N n \<le> OP_16 \<and> (word_of_int (DecodeOP_N (EncodeOP_N n)) :: byte) = of_nat n" by code_simp
  with assms show ?thesis by simp
qed

lemma pubkey_valid_length: "pubkey_valid k \<Longrightarrow> 33 \<le> length k \<and> length k \<le> 65"
  by (auto simp: pubkey_valid_def pubkey_GetLen_def split: if_splits)

lemma multisig_templates:
  assumes m: "1 \<le> m" "m \<le> length keys" "length keys \<le> 16" and keys: "\<forall>k \<in> set keys. pubkey_valid k"
  shows "scan_templates (EncodeOP_N m # concat (map push_key keys) @ [EncodeOP_N (length keys), OP_CHECKMULTISIG]) mTemplates =
    Some (TX_MULTISIG, [of_nat m] # keys @ [[of_nat (length keys)]])"
proof -
  let ?n = "EncodeOP_N (length keys)"
  note n = small_integers [of "length keys"] and em = small_integers [of m]
  obtain k ks where kk: "keys = k # ks" using m by (cases keys) auto
  have op: "GetOp2 (EncodeOP_N m # r) = (True, r, EncodeOP_N m, [])" for r using em m by (simp add: GetOp2_op del: GetOp2.simps)
  have opn: "GetOp2 [?n, OP_CHECKMULTISIG] = (True, [OP_CHECKMULTISIG], ?n, [])" using n m by (simp add: GetOp2_op del: GetOp2.simps)
  have k: "33 \<le> length k" "length k \<le> 65" "\<forall>k \<in> set ks. 33 \<le> length k \<and> length k \<le> 65"
    using keys kk pubkey_valid_length by auto
  have first: "GetOp2 (push_key k @ r) = (True, r, of_nat (length k), k)" for r
    using k by (simp add: push_key_def GetOp2_push del: GetOp2.simps)
  have "template_loop (concat (map push_key keys) @ [?n, OP_CHECKMULTISIG]) [OP_PUBKEYS, OP_SMALLINTEGER, OP_CHECKMULTISIG] sols =
      Some (sols @ keys @ [[of_nat (length keys)]])" for sols
    using first k n m kk pubkeys_loop_keys [of k ks, OF _ _ opn]
    by (subst template_loop.simps) (simp add: template_op_def template_loop_step [OF GetOp2_op GetOp2_op])
  moreover have "EncodeOP_N m \<noteq> OP_DUP" using em m by auto
  moreover have "unat (of_nat j :: byte) = j" if "j \<le> 16" for j using that by (simp add: unat_of_nat)
  moreover have "keys \<noteq> []" by (simp add: kk)
  ultimately show ?thesis
    using em m by (simp add: mTemplates_def template_loop_step [OF op GetOp2_op] template_op_def Let_def)
qed

lemma Solver_multisig:
  assumes m: "1 \<le> m" "m \<le> length keys" "length keys \<le> 16" and keys: "\<forall>k \<in> set keys. pubkey_valid k"
    and s: "GetScriptForMultisig m keys = Some s" and asset: "IsAssetScript s = None"
  shows "Solver s = Some (TX_MULTISIG, [of_nat m] # keys @ [[of_nat (length keys)]])"
proof -
  obtain k ks where kk: "keys = k # ks" using m by (cases keys) auto
  have k: "\<forall>k \<in> set keys. 33 \<le> length k \<and> length k \<le> 65" using keys pubkey_valid_length by blast
  then have "foldl push_data [EncodeOP_N m] keys = [EncodeOP_N m] @ concat (map push_key keys)"
    by (intro push_keys) auto
  then have eq: "s = EncodeOP_N m # concat (map push_key keys) @ [EncodeOP_N (length keys), OP_CHECKMULTISIG]"
    using s m by (simp add: GetScriptForMultisig_def push_opcode_def)
  have l: "33 \<le> length k" "length k \<le> 65" using k kk by simp_all
  have "length s > length k + 3" "s ! 1 = of_nat (length k)" "s ! 0 = EncodeOP_N m"
    using kk eq by (simp_all add: push_key_def)
  moreover have "unat (of_nat (length k) :: byte) = length k" using l by (simp add: unat_of_nat)
  ultimately have "IsWitnessProgram s = None" "\<not> IsPayToScriptHash s" "s ! 0 \<noteq> OP_RETURN" "s ! 0 \<noteq> OP_BLKR_ASSET"
    using l small_integers [of m] m by (auto simp: IsWitnessProgram_def IsPayToScriptHash_def)
  then show ?thesis
    using multisig_templates [OF m keys, folded eq] asset by (simp add: Solver_def)
qed

section \<open>Asset outputs that anyone can spend\<close>

text \<open>
  A script of the length of a pay-to-public-key-hash script that puts a hash where the solver looks for it, drops it
  and succeeds.
\<close>

definition decoy_script :: "bytes \<Rightarrow> script" where
  "decoy_script h = [OP_NOP, OP_NOP, 0x14] @ h @ [OP_DROP, OP_1]"

lemma scriptnum_one: "scriptnum_serialize 1 = [1]"
  by code_simp

lemma exec_decoy:
  assumes "n < 5" "length stk < 5"
  shows "exec_instr E OP_NOP [] pc (plain_state p stk n) = Inr (plain_state p stk (Suc n))"
    and "exec_instr E OP_DROP [] pc (plain_state p (v # stk) n) = Inr (plain_state p stk (Suc n))"
    and "exec_instr E OP_1 [] pc (plain_state p stk n) = Inr (plain_state p ([1] # stk) n)"
    and "length h = 20 \<Longrightarrow> exec_instr E 0x14 h pc (plain_state p stk n) = Inr (plain_state p (h # stk) n)"
  using assms
  by (simp_all add: exec_instr_def plain_state_def Let_def op_switch_def op_stack_def op_disabled_def
      MAX_OPS_PER_SCRIPT_def MAX_STACK_SIZE_def MAX_SCRIPT_ELEMENT_SIZE_def CheckMinimalPush_def op_constant_def scriptnum_one)

lemma EvalScript_decoy:
  assumes "length h = 20" "asset_suffix t"
  shows "EvalScript E [] (decoy_script h @ t) = Inr [[1]]"
proof -
  let ?p = "decoy_script h @ t"
  have size: "length ?p \<le> MAX_SCRIPT_SIZE"
    using assms by (auto simp: decoy_script_def asset_suffix_def MAX_SCRIPT_SIZE_def MAX_SCRIPT_ELEMENT_SIZE_def)
  have ops: "GetOp2 (OP_NOP # q) = (True, q, OP_NOP, [])" "GetOp2 (OP_DROP # q) = (True, q, OP_DROP, [])"
    "GetOp2 (OP_1 # q) = (True, q, OP_1, [])" for q by simp_all
  have "eval_loop E (decoy_script h @ t) (plain_state p [] 0) = eval_loop E t (plain_state p [[1]] 3)" for p
    using assms(1)
    by (simp add: decoy_script_def ops GetOp2_p2pkh exec_decoy numeral_3_eq_3 del: GetOp2.simps)
  moreover obtain st where "eval_loop E t (plain_state ?p [[1]] 3) = Inr st" "st_stack st = [[1]]" "st_vfExec st = []"
    using eval_asset_suffix [OF assms(2), of "plain_state ?p [[1]] 3" E]
    by (auto simp: plain_state_def MAX_OPS_PER_SCRIPT_def MAX_STACK_SIZE_def)
  ultimately show ?thesis
    unfolding EvalScript_def plain_state_def [symmetric] using size by simp
qed

section \<open>Properties\<close>

text \<open>
  Output scripts and destinations. The destination of the script built for a key hash or a script hash is that
  hash, and the destination of a pay-to-key-hash script stays the same when asset data is appended to it.
\<close>

theorem destination_roundtrip:
  assumes "length h = 20"
  shows "ExtractDestination C (GetScriptForDestination (CKeyID h)) = Some (CKeyID h) \<and>
    ExtractDestination C (GetScriptForDestination (CScriptID h)) = Some (CScriptID h) \<and>
    (IsAssetScript (GetScriptForDestination (CKeyID h) @ t) \<noteq> None \<longrightarrow>
     ExtractDestination C (GetScriptForDestination (CKeyID h) @ t) = Some (CKeyID h))"
proof -
  have k: "GetScriptForDestination (CKeyID h) = p2pkh_script h"
    using assms by (simp add: push_opcode_def push_data_def p2pkh_script_def)
  have s: "GetScriptForDestination (CScriptID h) = [OP_HASH160, 0x14] @ h @ [OP_EQUAL]"
    using assms by (simp add: push_opcode_def push_data_def)
  have "take 20 (drop 3 (p2pkh_script h)) = h" "length (p2pkh_script h) = 25" using assms by (simp_all add: p2pkh_script_def)
  moreover have "ExtractDestination C (p2pkh_script h) = Some (CKeyID h)"
    "ExtractDestination C ([OP_HASH160, 0x14] @ h @ [OP_EQUAL]) = Some (CScriptID h)"
    unfolding ExtractDestination_def Solver_p2pkh [OF assms] Solver_p2sh [OF assms] by simp_all
  ultimately show ?thesis
    unfolding k s using ExtractDestination_asset [of "p2pkh_script h" t C] by simp
qed

theorem destination_roundtrip_witness:
  "ExtractDestination ex_crypto (GetScriptForDestination (CKeyID (replicate 20 7)) @ [OP_BLKR_ASSET, 8, 114, 118, 110, 116, 1, 2, 3, 4]) =
     Some (CKeyID (replicate 20 7))"
proof -
  have "IsAssetScript (GetScriptForDestination (CKeyID (replicate 20 7)) @ [OP_BLKR_ASSET, 8, 114, 118, 110, 116, 1, 2, 3, 4]) \<noteq> None"
    by code_simp
  with destination_roundtrip [of "replicate 20 7" ex_crypto "[OP_BLKR_ASSET, 8, 114, 118, 110, 116, 1, 2, 3, 4]"]
  show ?thesis by simp
qed

text \<open>
  Multi-signature scripts. The solver reads back from the script for \<open>m\<close> of \<open>n\<close> valid keys, \<open>n\<close> at most 16, exactly
  \<open>m\<close>, the keys in order, and \<open>n\<close>, unless the bytes of the keys make the script look like an asset script.
\<close>

theorem multisig_solver:
  assumes "1 \<le> m" "m \<le> length keys" "length keys \<le> 16" "\<forall>k \<in> set keys. pubkey_valid k"
  shows "\<exists>s. GetScriptForMultisig m keys = Some s \<and>
    (IsAssetScript s = None \<longrightarrow> Solver s = Some (TX_MULTISIG, [of_nat m] # keys @ [[of_nat (length keys)]]))"
proof -
  obtain s where s: "GetScriptForMultisig m keys = Some s" using assms by (auto simp: GetScriptForMultisig_def)
  from Solver_multisig [OF assms s] show ?thesis by (intro exI [of _ s] conjI s impI)
qed

definition ex_keys :: "valtype list" where
  "ex_keys = [2 # replicate 32 1, 4 # replicate 64 5]"

theorem multisig_solver_witness:
  "\<exists>s. GetScriptForMultisig 1 ex_keys = Some s \<and>
    Solver s = Some (TX_MULTISIG, [[1], 2 # replicate 32 1, 4 # replicate 64 5, [2]])"
proof -
  have "IsAssetScript (the (GetScriptForMultisig 1 ex_keys)) = None"
    by (simp add: GetScriptForMultisig_def ex_keys_def push_data_short push_opcode_def IsAssetScript_def nth_append)
  moreover have "\<forall>k \<in> set ex_keys. pubkey_valid k" by code_simp
  ultimately show ?thesis using multisig_solver [of 1 ex_keys] by (auto simp: ex_keys_def)
qed

text \<open>
  C34. The address that the node reports for an asset output need not be able to spend it. For every hash there
  is a script with the data of any asset behind it whose destination is that hash, while an empty input
  script spends it under every combination of flags: freezing an address or checking its qualifiers says
  nothing about who holds such an output.
\<close>

theorem asset_address_decoy:
  assumes "length h = 20" "asset_suffix t" "IsAssetScript (decoy_script h @ t) \<noteq> None" "flags_ok flags"
  shows "ExtractDestination C (decoy_script h @ t) = Some (CKeyID h) \<and>
    VerifyScript [] (decoy_script h @ t) [] flags C K = Some (Inr ())"
proof -
  have dest: "length (decoy_script h) = 25" "take 20 (drop 3 (decoy_script h)) = h"
    using assms(1) by (simp_all add: decoy_script_def)
  have special: "IsWitnessProgram (decoy_script h @ t) = None" "\<not> IsPayToScriptHash (decoy_script h @ t)"
    using assms(1) by (simp_all add: IsWitnessProgram_def IsPayToScriptHash_def decoy_script_def)
  have empty: "EvalScript E [] [] = Inr []" "IsPushOnly []" for E by (simp_all add: EvalScript_def)
  show ?thesis
    using ExtractDestination_asset [OF assms(3) dest(1), of C] dest(2) assms(4)
    by (auto simp: VerifyScript_def empty EvalScript_decoy [OF assms(1,2)] special verify_witness_def verify_tail_def
        eval_true_def flags_ok_def Let_def)
qed

theorem asset_address_decoy_witness:
  "ExtractDestination ex_crypto (decoy_script (replicate 20 7) @ [OP_BLKR_ASSET, 8, 114, 118, 110, 116, 1, 2, 3, 4]) =
     Some (CKeyID (replicate 20 7)) \<and>
   VerifyScript [] (decoy_script (replicate 20 7) @ [OP_BLKR_ASSET, 8, 114, 118, 110, 116, 1, 2, 3, 4]) [] 0 ex_crypto ex_checker = Some (Inr ())"
proof (rule asset_address_decoy)
  show "IsAssetScript (decoy_script (replicate 20 7) @ [OP_BLKR_ASSET, 8, 114, 118, 110, 116, 1, 2, 3, 4]) \<noteq> None" by code_simp
qed (simp_all add: asset_suffix_def flags_ok_def flag_def MAX_SCRIPT_ELEMENT_SIZE_def)

end
