(* ===== verification/AssetScripts.thy ===== *)
theory AssetScripts
  imports AssetNames Standard
begin

text \<open>
  Asset data in output scripts (\<^verbatim>\<open>src/src/assets/assets.cpp\<close>): reading it with the address of the output, recognising
  the kinds of issue scripts, building the scripts, and the burn outputs that pay for an issue. The chain
  parameters are those of \<^verbatim>\<open>chainparams.cpp\<close>.
\<close>

section \<open>Parameters and deployments\<close>

record chain_params =
  strNetworkID :: string
  base58Prefixes :: base58_prefixes
  nIssueAssetBurnAmount :: int
  nReissueAssetBurnAmount :: int
  nIssueSubAssetBurnAmount :: int
  nIssueUniqueAssetBurnAmount :: int
  nIssueMsgChannelAssetBurnAmount :: int
  nIssueQualifierAssetBurnAmount :: int
  nIssueSubQualifierAssetBurnAmount :: int
  nIssueRestrictedAssetBurnAmount :: int
  nAddNullQualifierTagBurnAmount :: int
  strIssueAssetBurnAddress :: string
  strReissueAssetBurnAddress :: string
  strIssueSubAssetBurnAddress :: string
  strIssueUniqueAssetBurnAddress :: string
  strIssueMsgChannelAssetBurnAddress :: string
  strIssueQualifierAssetBurnAddress :: string
  strIssueSubQualifierAssetBurnAddress :: string
  strIssueRestrictedAssetBurnAddress :: string
  strAddNullQualifierTagBurnAddress :: string

definition main_params :: chain_params where
  "main_params =
     \<lparr>strNetworkID = ''main'', base58Prefixes = main_prefixes,
      nIssueAssetBurnAmount = 500 * COIN, nReissueAssetBurnAmount = 100 * COIN,
      nIssueSubAssetBurnAmount = 100 * COIN, nIssueUniqueAssetBurnAmount = 5 * COIN,
      nIssueMsgChannelAssetBurnAmount = 100 * COIN, nIssueQualifierAssetBurnAmount = 1000 * COIN,
      nIssueSubQualifierAssetBurnAmount = 100 * COIN, nIssueRestrictedAssetBurnAmount = 1500 * COIN,
      nAddNullQualifierTagBurnAmount = COIN div 10,
      strIssueAssetBurnAddress = ''1BSrfxDfwZaKp5ZccJTMSKERGzkZry8u5Ao'',
      strReissueAssetBurnAddress = ''BCuf7Zghzuca6V6xs1mbGXsia7tug15LTw'',
      strIssueSubAssetBurnAddress = ''B6hBVCpU3Tm2Lsg5WunE5HxNCEPt5cAkrr'',
      strIssueUniqueAssetBurnAddress = ''BR5Xm54JgcVxU8NAufKor91EAK4DUMLmB9'',
      strIssueMsgChannelAssetBurnAddress = ''B7HnraAtb8jbBwm3oVkLhSPZckCyT7h6Hr'',
      strIssueQualifierAssetBurnAddress = ''BGbX2cJk3vS4Wvrt8qmPCrfaApQNtK9dwu'',
      strIssueSubQualifierAssetBurnAddress = ''BE6rb2uC3vktwpvfxQz9ZbwseXoTbovjXP'',
      strIssueRestrictedAssetBurnAddress = ''BLU2iZqXgzksy7JHWwTkMmgD7cbGDuHdsa'',
      strAddNullQualifierTagBurnAddress = ''BBfeHERECJVoHjhEJNoZ6SAB12xwzkDsKw''\<rparr>"

definition test_params :: chain_params where
  "test_params =
     \<lparr>strNetworkID = ''test'', base58Prefixes = test_prefixes,
      nIssueAssetBurnAmount = 500 * COIN, nReissueAssetBurnAmount = 100 * COIN,
      nIssueSubAssetBurnAmount = 100 * COIN, nIssueUniqueAssetBurnAmount = 5 * COIN,
      nIssueMsgChannelAssetBurnAmount = 100 * COIN, nIssueQualifierAssetBurnAmount = 1000 * COIN,
      nIssueSubQualifierAssetBurnAmount = 100 * COIN, nIssueRestrictedAssetBurnAmount = 1500 * COIN,
      nAddNullQualifierTagBurnAmount = COIN div 10,
      strIssueAssetBurnAddress = ''J1VQJKLSLVZ4syiCAx5hEPq8BrkFaxAXAi'',
      strReissueAssetBurnAddress = ''J2yh4DiLETuVVDvpvBNSq3QCmHcdMmNEdp'',
      strIssueSubAssetBurnAddress = ''J3PE3FsHqfszvz7nhwK2Gc32wykrc7pNMA'',
      strIssueUniqueAssetBurnAddress = ''J4yKRTYF2nRryYEnupsNnQQmRKsQhdspYB'',
      strIssueMsgChannelAssetBurnAddress = ''J58ndjHjLYKHMszr4ehUg9YMWPAiXNEepa'',
      strIssueQualifierAssetBurnAddress = ''J68wpmVvdE6bMSkiCEDQWCHCKZs4VVdE2G'',
      strIssueSubQualifierAssetBurnAddress = ''J7MSidYgNJrPE15ouEsXPYXFYH2AAPXmhr'',
      strIssueRestrictedAssetBurnAddress = ''J8uX8jfZn14P1VNzh6YjSzLaRTQAdoFSHn'',
      strAddNullQualifierTagBurnAddress = ''J9CrKy8m548AvSbcv1mcn7tyJQkgcwVfj6''\<rparr>"

text \<open>
  The deployment flags of \<^verbatim>\<open>consensus.h\<close> start as true and nothing clears them, so the predicates of \<^verbatim>\<open>validation.cpp\<close>
  return before they look at the version bits of the tip.
\<close>

definition fAssetsIsActive :: bool where "fAssetsIsActive \<longleftrightarrow> True"
definition fRip5IsActive :: bool where "fRip5IsActive \<longleftrightarrow> True"
definition fTransferScriptIsActive :: bool where "fTransferScriptIsActive \<longleftrightarrow> True"
definition fCheckCoinbaseAssetsIsActive :: bool where "fCheckCoinbaseAssetsIsActive \<longleftrightarrow> True"

definition AreAssetsDeployed :: bool where "AreAssetsDeployed \<longleftrightarrow> fAssetsIsActive"
definition AreMessagesDeployed :: bool where "AreMessagesDeployed \<longleftrightarrow> fRip5IsActive"
definition AreRestrictedAssetsDeployed :: bool where "AreRestrictedAssetsDeployed \<longleftrightarrow> fRip5IsActive"
definition AreTransferScriptsSizeDeployed :: bool where "AreTransferScriptsSizeDeployed \<longleftrightarrow> fTransferScriptIsActive"
definition AreCoinbaseCheckAssetsDeployed :: bool where "AreCoinbaseCheckAssetsDeployed \<longleftrightarrow> fCheckCoinbaseAssetsIsActive"

lemmas deployed_defs = AreAssetsDeployed_def AreMessagesDeployed_def AreRestrictedAssetsDeployed_def
  AreTransferScriptsSizeDeployed_def AreCoinbaseCheckAssetsDeployed_def fAssetsIsActive_def fRip5IsActive_def
  fTransferScriptIsActive_def fCheckCoinbaseAssetsIsActive_def

section \<open>Reading asset data from a script\<close>

text \<open>
  The address text of an output. A script without a destination leaves the destination variable empty, which
  has the empty text. The text always exists: \<^verbatim>\<open>EncodeBase58\<close> cannot fail its assertion.
\<close>

definition dest_address :: "crypto \<Rightarrow> chain_params \<Rightarrow> CTxDestination \<Rightarrow> string" where
  "dest_address C P d = (case EncodeDestination C (base58Prefixes P) d of Some a \<Rightarrow> a | None \<Rightarrow> [])"

definition script_address :: "crypto \<Rightarrow> chain_params \<Rightarrow> script \<Rightarrow> string" where
  "script_address C P s =
     dest_address C P (case ExtractDestination C s of Some d \<Rightarrow> d | None \<Rightarrow> CNoDestination)"

definition IsScriptNewAsset :: "script \<Rightarrow> nat option" where
  "IsScriptNewAsset s = (case IsAssetScript s of
     Some (typ, fIsOwner, nStartingIndex) \<Rightarrow> if typ = TX_NEW_ASSET \<and> \<not> fIsOwner then Some nStartingIndex else None
   | None \<Rightarrow> None)"

definition IsScriptOwnerAsset :: "script \<Rightarrow> nat option" where
  "IsScriptOwnerAsset s = (case IsAssetScript s of
     Some (typ, fIsOwner, nStartingIndex) \<Rightarrow> if typ = TX_NEW_ASSET \<and> fIsOwner then Some nStartingIndex else None
   | None \<Rightarrow> None)"

definition IsScriptReissueAsset :: "script \<Rightarrow> nat option" where
  "IsScriptReissueAsset s = (case IsAssetScript s of
     Some (typ, fIsOwner, nStartingIndex) \<Rightarrow> if typ = TX_REISSUE_ASSET then Some nStartingIndex else None
   | None \<Rightarrow> None)"

definition IsScriptTransferAsset :: "script \<Rightarrow> nat option" where
  "IsScriptTransferAsset s = (case IsAssetScript s of
     Some (typ, fIsOwner, nStartingIndex) \<Rightarrow> if typ = TX_TRANSFER_ASSET then Some nStartingIndex else None
   | None \<Rightarrow> None)"

definition TransferAssetFromScript :: "crypto \<Rightarrow> chain_params \<Rightarrow> script \<Rightarrow> (CAssetTransfer \<times> string) option" where
  "TransferAssetFromScript C P s =
     (case IsScriptTransferAsset s of
        None \<Rightarrow> None
      | Some nStartingIndex \<Rightarrow>
          map_option (\<lambda>t. (t, script_address C P s))
            (read_payload Unserialize_CAssetTransfer s (if AreTransferScriptsSizeDeployed then nStartingIndex else 31)))"

definition AssetFromScript :: "crypto \<Rightarrow> chain_params \<Rightarrow> script \<Rightarrow> (CNewAsset \<times> string) option" where
  "AssetFromScript C P s =
     (case IsScriptNewAsset s of
        None \<Rightarrow> None
      | Some nStartingIndex \<Rightarrow>
          map_option (\<lambda>a. (a, script_address C P s)) (read_payload Unserialize_CNewAsset s nStartingIndex))"

definition OwnerAssetFromScript :: "crypto \<Rightarrow> chain_params \<Rightarrow> script \<Rightarrow> (string \<times> string) option" where
  "OwnerAssetFromScript C P s =
     (case IsScriptOwnerAsset s of
        None \<Rightarrow> None
      | Some nStartingIndex \<Rightarrow>
          map_option (\<lambda>a. (a, script_address C P s)) (read_payload Unserialize_string s nStartingIndex))"

definition ReissueAssetFromScript :: "crypto \<Rightarrow> chain_params \<Rightarrow> script \<Rightarrow> (CReissueAsset \<times> string) option" where
  "ReissueAssetFromScript C P s =
     (case IsScriptReissueAsset s of
        None \<Rightarrow> None
      | Some nStartingIndex \<Rightarrow>
          map_option (\<lambda>a. (a, script_address C P s)) (read_payload Unserialize_CReissueAsset s nStartingIndex))"

definition AssetNullDataFromScript :: "crypto \<Rightarrow> chain_params \<Rightarrow> script \<Rightarrow> (CNullAssetTxData \<times> string) option" where
  "AssetNullDataFromScript C P s =
     (if \<not> IsNullAssetTxDataScript s then None
      else map_option (\<lambda>a. (a, script_address C P s)) (read_payload Unserialize_CNullAssetTxData s 23))"

definition GlobalAssetNullDataFromScript :: "script \<Rightarrow> CNullAssetTxData option" where
  "GlobalAssetNullDataFromScript s =
     (if \<not> IsNullGlobalRestrictionAssetTxDataScript s then None else read_payload Unserialize_CNullAssetTxData s 4)"

definition AssetNullVerifierDataFromScript :: "script \<Rightarrow> string option" where
  "AssetNullVerifierDataFromScript s =
     (if \<not> IsNullAssetVerifierTxDataScript s then None else read_payload Unserialize_string s 3)"

text \<open>
  The kinds of issue scripts, by the type of the name. The type variable is not set for a name of more than 40
  characters; \<open>asset_type_of\<close> takes \<open>INVALID\<close> there, as for every other invalid name.
\<close>

definition asset_type_of :: "string \<Rightarrow> AssetType" where
  "asset_type_of name = (case IsAssetNameValid name of Inr type \<Rightarrow> type | Inl _ \<Rightarrow> INVALID)"

definition script_new_type :: "crypto \<Rightarrow> chain_params \<Rightarrow> script \<Rightarrow> AssetType option" where
  "script_new_type C P s =
     (case AssetFromScript C P s of
        None \<Rightarrow> None
      | Some (asset, address) \<Rightarrow> (case IsAssetNameValid (na_strName asset) of Inl _ \<Rightarrow> None | Inr type \<Rightarrow> Some type))"

definition IsScriptNewUniqueAsset :: "crypto \<Rightarrow> chain_params \<Rightarrow> script \<Rightarrow> bool" where
  "IsScriptNewUniqueAsset C P s \<longleftrightarrow> IsAssetScript s \<noteq> None \<and> script_new_type C P s = Some UNIQUE"

definition IsScriptNewMsgChannelAsset :: "crypto \<Rightarrow> chain_params \<Rightarrow> script \<Rightarrow> bool" where
  "IsScriptNewMsgChannelAsset C P s \<longleftrightarrow> IsAssetScript s \<noteq> None \<and> script_new_type C P s = Some MSGCHANNEL"

definition IsScriptNewQualifierAsset :: "crypto \<Rightarrow> chain_params \<Rightarrow> script \<Rightarrow> bool" where
  "IsScriptNewQualifierAsset C P s \<longleftrightarrow>
     IsAssetScript s \<noteq> None \<and> (script_new_type C P s = Some QUALIFIER \<or> script_new_type C P s = Some SUB_QUALIFIER)"

definition IsScriptNewRestrictedAsset :: "crypto \<Rightarrow> chain_params \<Rightarrow> script \<Rightarrow> bool" where
  "IsScriptNewRestrictedAsset C P s \<longleftrightarrow> IsAssetScript s \<noteq> None \<and> script_new_type C P s = Some RESTRICTED"

text \<open>The reading functions for one kind first recognise the script; they then read a new asset.\<close>

definition MsgChannelAssetFromScript :: "crypto \<Rightarrow> chain_params \<Rightarrow> script \<Rightarrow> (CNewAsset \<times> string) option" where
  "MsgChannelAssetFromScript C P s =
     (if \<not> IsScriptNewMsgChannelAsset C P s then None
      else case IsAssetScript s of
        None \<Rightarrow> None
      | Some (_, _, nStartingIndex) \<Rightarrow>
          map_option (\<lambda>a. (a, script_address C P s)) (read_payload Unserialize_CNewAsset s nStartingIndex))"

definition QualifierAssetFromScript :: "crypto \<Rightarrow> chain_params \<Rightarrow> script \<Rightarrow> (CNewAsset \<times> string) option" where
  "QualifierAssetFromScript C P s =
     (if \<not> IsScriptNewQualifierAsset C P s then None
      else case IsAssetScript s of
        None \<Rightarrow> None
      | Some (_, _, nStartingIndex) \<Rightarrow>
          map_option (\<lambda>a. (a, script_address C P s)) (read_payload Unserialize_CNewAsset s nStartingIndex))"

definition RestrictedAssetFromScript :: "crypto \<Rightarrow> chain_params \<Rightarrow> script \<Rightarrow> (CNewAsset \<times> string) option" where
  "RestrictedAssetFromScript C P s =
     (if \<not> IsScriptNewRestrictedAsset C P s then None
      else case IsAssetScript s of
        None \<Rightarrow> None
      | Some (_, _, nStartingIndex) \<Rightarrow>
          map_option (\<lambda>a. (a, script_address C P s)) (read_payload Unserialize_CNewAsset s nStartingIndex))"

section \<open>Building asset scripts\<close>

definition construct_asset :: "script \<Rightarrow> byte \<Rightarrow> bytes \<Rightarrow> script" where
  "construct_asset script kind payload =
     push_opcode (push_data (push_opcode script OP_BLKR_ASSET) ([BLKR_N, BLKR_E, BLKR_X, kind] @ payload)) OP_DROP"

definition ConstructTransaction_CNewAsset :: "CNewAsset \<Rightarrow> script \<Rightarrow> script" where
  "ConstructTransaction_CNewAsset a script = construct_asset script BLKR_Q (Serialize_CNewAsset a)"

definition ConstructOwnerTransaction :: "CNewAsset \<Rightarrow> script \<Rightarrow> script" where
  "ConstructOwnerTransaction a script = construct_asset script BLKR_O (Serialize_string (na_strName a @ OWNER_TAG))"

definition ConstructTransaction_CAssetTransfer :: "CAssetTransfer \<Rightarrow> script \<Rightarrow> script" where
  "ConstructTransaction_CAssetTransfer t script = construct_asset script BLKR_T (Serialize_CAssetTransfer t)"

definition ConstructTransaction_CReissueAsset :: "CReissueAsset \<Rightarrow> script \<Rightarrow> script" where
  "ConstructTransaction_CReissueAsset r script = construct_asset script BLKR_N (Serialize_CReissueAsset r)"

definition ConstructTransaction_CNullAssetTxData :: "CNullAssetTxData \<Rightarrow> script \<Rightarrow> script" where
  "ConstructTransaction_CNullAssetTxData d script = push_data script (Serialize_CNullAssetTxData d)"

definition ConstructGlobalRestrictionTransaction :: "CNullAssetTxData \<Rightarrow> script \<Rightarrow> script" where
  "ConstructGlobalRestrictionTransaction d script =
     push_data (push_opcode (push_opcode (push_opcode script OP_BLKR_ASSET) OP_RESERVED) OP_RESERVED) (Serialize_CNullAssetTxData d)"

definition ConstructTransaction_verifier :: "string \<Rightarrow> script \<Rightarrow> script" where
  "ConstructTransaction_verifier verifier script =
     push_data (push_opcode (push_opcode script OP_BLKR_ASSET) OP_RESERVED) (Serialize_string verifier)"

section \<open>Burn outputs\<close>

fun GetBurnAmount :: "chain_params \<Rightarrow> AssetType \<Rightarrow> int" where
  "GetBurnAmount P ROOT = nIssueAssetBurnAmount P"
| "GetBurnAmount P SUB = nIssueSubAssetBurnAmount P"
| "GetBurnAmount P MSGCHANNEL = nIssueMsgChannelAssetBurnAmount P"
| "GetBurnAmount P OWNER = 0"
| "GetBurnAmount P UNIQUE = nIssueUniqueAssetBurnAmount P"
| "GetBurnAmount P VOTE = 0"
| "GetBurnAmount P REISSUE = nReissueAssetBurnAmount P"
| "GetBurnAmount P QUALIFIER = nIssueQualifierAssetBurnAmount P"
| "GetBurnAmount P SUB_QUALIFIER = nIssueSubQualifierAssetBurnAmount P"
| "GetBurnAmount P RESTRICTED = nIssueRestrictedAssetBurnAmount P"
| "GetBurnAmount P NULL_ADD_QUALIFIER = nAddNullQualifierTagBurnAmount P"
| "GetBurnAmount P INVALID = 0"

fun GetBurnAddress :: "chain_params \<Rightarrow> AssetType \<Rightarrow> string" where
  "GetBurnAddress P ROOT = strIssueAssetBurnAddress P"
| "GetBurnAddress P SUB = strIssueSubAssetBurnAddress P"
| "GetBurnAddress P MSGCHANNEL = strIssueMsgChannelAssetBurnAddress P"
| "GetBurnAddress P OWNER = []"
| "GetBurnAddress P UNIQUE = strIssueUniqueAssetBurnAddress P"
| "GetBurnAddress P VOTE = []"
| "GetBurnAddress P REISSUE = strReissueAssetBurnAddress P"
| "GetBurnAddress P QUALIFIER = strIssueQualifierAssetBurnAddress P"
| "GetBurnAddress P SUB_QUALIFIER = strIssueSubQualifierAssetBurnAddress P"
| "GetBurnAddress P RESTRICTED = strIssueRestrictedAssetBurnAddress P"
| "GetBurnAddress P NULL_ADD_QUALIFIER = strAddNullQualifierTagBurnAddress P"
| "GetBurnAddress P INVALID = []"

definition burns_to :: "crypto \<Rightarrow> chain_params \<Rightarrow> CTxOut \<Rightarrow> int \<Rightarrow> string \<Rightarrow> bool" where
  "burns_to C P txOut amount address \<longleftrightarrow>
     (if nValue txOut \<noteq> amount then False
      else case ExtractDestination C (scriptPubKey txOut) of
        None \<Rightarrow> False
      | Some destination \<Rightarrow> IsValidDestination destination \<and> dest_address C P destination = address)"

definition CheckIssueBurnTx :: "crypto \<Rightarrow> chain_params \<Rightarrow> CTxOut \<Rightarrow> AssetType \<Rightarrow> nat \<Rightarrow> bool" where
  "CheckIssueBurnTx C P txOut type numberIssued \<longleftrightarrow>
     (if type = REISSUE \<or> type = VOTE \<or> type = OWNER \<or> type = INVALID then False
      else burns_to C P txOut (int64 (GetBurnAmount P type * int numberIssued)) (GetBurnAddress P type))"

definition CheckReissueBurnTx :: "crypto \<Rightarrow> chain_params \<Rightarrow> CTxOut \<Rightarrow> bool" where
  "CheckReissueBurnTx C P txOut \<longleftrightarrow> burns_to C P txOut (nReissueAssetBurnAmount P) (strReissueAssetBurnAddress P)"

definition CheckIssueDataTx :: "CTxOut \<Rightarrow> bool" where
  "CheckIssueDataTx txOut \<longleftrightarrow> IsScriptNewAsset (scriptPubKey txOut) \<noteq> None"

definition CheckReissueDataTx :: "CTxOut \<Rightarrow> bool" where
  "CheckReissueDataTx txOut \<longleftrightarrow> IsScriptReissueAsset (scriptPubKey txOut) \<noteq> None"

definition CheckOwnerDataTx :: "CTxOut \<Rightarrow> bool" where
  "CheckOwnerDataTx txOut \<longleftrightarrow> IsScriptOwnerAsset (scriptPubKey txOut) \<noteq> None"

section \<open>The asset data of an output\<close>

record CAssetOutputEntry =
  ao_type :: txnouttype
  ao_assetName :: string
  ao_destination :: CTxDestination
  ao_nAmount :: int
  ao_message :: string
  ao_expireTime :: int

text \<open>
  The destination goes through the address text and back. Only the first alternative for a new asset returns true;
  the three others fill the entry and then fall through to \<^verbatim>\<open>return false\<close>.
\<close>

definition address_dest :: "crypto \<Rightarrow> chain_params \<Rightarrow> string \<Rightarrow> CTxDestination" where
  "address_dest C P address =
     (case DecodeDestination C (base58Prefixes P) address of Some d \<Rightarrow> d | None \<Rightarrow> CNoDestination)"

definition GetAssetData :: "crypto \<Rightarrow> chain_params \<Rightarrow> script \<Rightarrow> CAssetOutputEntry option" where
  "GetAssetData C P s =
     (case IsAssetScript s of
        None \<Rightarrow> None
      | Some (typ, fIsOwner, _) \<Rightarrow>
          if typ = TX_NEW_ASSET \<and> \<not> fIsOwner then
            (case AssetFromScript C P s of
               None \<Rightarrow> None
             | Some (asset, address) \<Rightarrow>
                 Some \<lparr>ao_type = TX_NEW_ASSET, ao_assetName = na_strName asset, ao_destination = address_dest C P address,
                   ao_nAmount = na_nAmount asset, ao_message = [], ao_expireTime = 0\<rparr>)
          else if typ = TX_TRANSFER_ASSET then
            (case TransferAssetFromScript C P s of
               None \<Rightarrow> None
             | Some (transfer, address) \<Rightarrow>
                 Some \<lparr>ao_type = TX_TRANSFER_ASSET, ao_assetName = tr_strName transfer,
                   ao_destination = address_dest C P address, ao_nAmount = tr_nAmount transfer,
                   ao_message = tr_message transfer, ao_expireTime = tr_nExpireTime transfer\<rparr>)
          else if typ = TX_NEW_ASSET \<and> fIsOwner then
            (case OwnerAssetFromScript C P s of
               None \<Rightarrow> None
             | Some (assetName, address) \<Rightarrow>
                 Some \<lparr>ao_type = TX_NEW_ASSET, ao_assetName = assetName, ao_destination = address_dest C P address,
                   ao_nAmount = OWNER_ASSET_AMOUNT, ao_message = [], ao_expireTime = 0\<rparr>)
          else if typ = TX_REISSUE_ASSET then
            (case ReissueAssetFromScript C P s of
               None \<Rightarrow> None
             | Some (reissue, address) \<Rightarrow>
                 Some \<lparr>ao_type = TX_REISSUE_ASSET, ao_assetName = re_strName reissue,
                   ao_destination = address_dest C P address, ao_nAmount = re_nAmount reissue,
                   ao_message = [], ao_expireTime = 0\<rparr>)
          else None)"

text \<open>The numbers of issues, reissues, transfers and owner tokens among the outputs.\<close>

definition count_outputs :: "txnouttype \<Rightarrow> bool \<Rightarrow> CTxOut list \<Rightarrow> nat" where
  "count_outputs typ owner outs =
     length (filter (\<lambda>out. case IsAssetScript (scriptPubKey out) of
       None \<Rightarrow> False | Some (typ', fIsOwner, _) \<Rightarrow> typ' = typ \<and> (typ = TX_NEW_ASSET \<longrightarrow> fIsOwner = owner)) outs)"

definition GetTxOutAssetTypes :: "CTxOut list \<Rightarrow> nat \<times> nat \<times> nat \<times> nat" where
  "GetTxOutAssetTypes outs =
     (count_outputs TX_NEW_ASSET False outs, count_outputs TX_REISSUE_ASSET False outs,
      count_outputs TX_TRANSFER_ASSET False outs, count_outputs TX_NEW_ASSET True outs)"

section \<open>Recognising the scripts that are built\<close>

definition asset_kind :: "byte \<Rightarrow> txnouttype \<times> bool" where
  "asset_kind kind =
     (if kind = BLKR_T then TX_TRANSFER_ASSET else if kind = BLKR_N then TX_REISSUE_ASSET else TX_NEW_ASSET, kind = BLKR_O)"

lemma IsAssetScript_marker:
  assumes "asset_marker_index s = Some i" "length s > 31" "s ! 25 = OP_BLKR_ASSET" "s ! i = kind"
    and "kind \<in> {BLKR_T, BLKR_Q, BLKR_O, BLKR_N}" "kind = BLKR_Q \<longrightarrow> length s > 39"
  shows "IsAssetScript s = Some (fst (asset_kind kind), snd (asset_kind kind), i + 1)"
  using assms by (auto simp: IsAssetScript_def asset_kind_def Let_def BLKR_defs)

lemma asset_marker:
  assumes "length pre = 25" "kind \<in> {BLKR_T, BLKR_Q, BLKR_O, BLKR_N}" "kind = BLKR_Q \<longrightarrow> 8 \<le> length payload" "length payload \<le> 100"
  obtains i where "drop i (construct_asset pre kind payload) = payload @ [OP_DROP]"
    "IsAssetScript (construct_asset pre kind payload) = Some (fst (asset_kind kind), snd (asset_kind kind), i)"
proof (cases "length payload < 72")
  case True
  then obtain n where s: "construct_asset pre kind payload =
      pre @ OP_BLKR_ASSET # n # BLKR_N # BLKR_E # BLKR_X # kind # payload @ [OP_DROP]" (is "_ = ?s")
    by (simp add: construct_asset_def push_opcode_def push_data_short)
  have "asset_marker_index ?s = Some 30" "?s ! 25 = OP_BLKR_ASSET" "?s ! 30 = kind"
    using assms(1) by (simp_all add: asset_marker_index_def nth_append)
  moreover have "kind = BLKR_Q \<longrightarrow> length ?s > 39" using assms by auto
  ultimately show thesis
    unfolding s [symmetric] using assms(1,2) by (intro that [of "30 + 1"] IsAssetScript_marker) (simp_all add: s)
next
  case False
  define n :: byte where "n = of_nat (length payload + 4)"
  have "unat n = length payload + 4" unfolding n_def using assms(4) by (subst unat_of_nat) simp
  then have n: "n \<noteq> BLKR_N" using assms(4) by (auto simp: BLKR_N_def)
  have "\<not> length payload + 4 < 76" "length payload + 4 \<le> 255" using False assms(4) by simp_all
  then have s: "construct_asset pre kind payload =
      pre @ OP_BLKR_ASSET # OP_PUSHDATA1 # n # BLKR_N # BLKR_E # BLKR_X # kind # payload @ [OP_DROP]" (is "_ = ?s")
    by (simp add: construct_asset_def push_opcode_def push_data_def n_def)
  have "asset_marker_index ?s = Some 31" "?s ! 25 = OP_BLKR_ASSET" "?s ! 31 = kind"
    using assms(1) n by (simp_all add: asset_marker_index_def nth_append)
  moreover have "kind = BLKR_Q \<longrightarrow> length ?s > 39" using assms by auto
  ultimately show thesis
    unfolding s [symmetric] using assms(1,2) by (intro that [of "31 + 1"] IsAssetScript_marker) (simp_all add: s)
qed

text \<open>The sizes of the payloads.\<close>

lemma length_Serialize_int8 [simp]: "length (Serialize_int8 x) = 1"
  by (simp add: Serialize_int8_def ser_writedata8_def)

lemma length_WriteAssetHash: "length (fst (WriteAssetHash h)) \<le> 34"
  by (simp add: WriteAssetHash_def length_Serialize_string)

lemma size_CNewAsset: "length (na_strName a) \<le> 31 \<Longrightarrow> 8 \<le> length (Serialize_CNewAsset a) \<and> length (Serialize_CNewAsset a) \<le> 100"
  using length_WriteAssetHash [of "na_strIPFSHash a"] by (simp add: Serialize_CNewAsset_def length_Serialize_string)

lemma size_CAssetTransfer: "length (tr_strName t) \<le> 31 \<Longrightarrow> length (Serialize_CAssetTransfer t) \<le> 100"
  using length_WriteAssetHash [of "tr_message t"] by (simp add: Serialize_CAssetTransfer_def length_Serialize_string)

lemma size_CReissueAsset: "length (re_strName r) \<le> 31 \<Longrightarrow> length (Serialize_CReissueAsset r) \<le> 100"
  using length_WriteAssetHash [of "re_strIPFSHash r"] by (simp add: Serialize_CReissueAsset_def length_Serialize_string)

lemma construct_asset_append: "\<exists>t. construct_asset pre kind payload = pre @ t"
  by (simp add: construct_asset_def push_opcode_def push_data_def)

lemma script_address_construct:
  assumes "length pre = 25" "IsAssetScript (construct_asset pre kind payload) \<noteq> None"
  shows "script_address C P (construct_asset pre kind payload) = dest_address C P (CKeyID (take 20 (drop 3 pre)))"
proof -
  obtain t where t: "construct_asset pre kind payload = pre @ t" using construct_asset_append by blast
  with assms ExtractDestination_asset [of pre t C] show ?thesis by (simp add: script_address_def)
qed

lemma asset_kind_simps:
  "asset_kind BLKR_T = (TX_TRANSFER_ASSET, False)" "asset_kind BLKR_N = (TX_REISSUE_ASSET, False)"
  "asset_kind BLKR_Q = (TX_NEW_ASSET, False)" "asset_kind BLKR_O = (TX_NEW_ASSET, True)"
  by (simp_all add: asset_kind_def BLKR_defs)

lemma asset_kind_distinct: "BLKR_T \<noteq> BLKR_Q" "BLKR_N \<noteq> BLKR_Q" "BLKR_O \<noteq> BLKR_Q"
  by (simp_all add: BLKR_defs)

lemma read_construct:
  assumes "length pre = 25" "kind \<in> {BLKR_T, BLKR_Q, BLKR_O, BLKR_N}" "kind = BLKR_Q \<longrightarrow> 8 \<le> length payload" "length payload \<le> 100"
    and "unser (payload @ [OP_DROP]) = Inr (x, [OP_DROP])"
  shows "\<exists>i. IsAssetScript (construct_asset pre kind payload) = Some (fst (asset_kind kind), snd (asset_kind kind), i) \<and>
    read_payload unser (construct_asset pre kind payload) i = Some x \<and>
    script_address C P (construct_asset pre kind payload) = dest_address C P (CKeyID (take 20 (drop 3 pre)))"
proof -
  from asset_marker [OF assms(1-4)] obtain i where
    i: "drop i (construct_asset pre kind payload) = payload @ [OP_DROP]"
      "IsAssetScript (construct_asset pre kind payload) = Some (fst (asset_kind kind), snd (asset_kind kind), i)" .
  with script_address_construct [OF assms(1), of kind payload C P] assms(5) show ?thesis
    by (simp add: read_payload_def)
qed

lemma TransferAssetFromScript_construct:
  assumes "length pre = 25" "valid_transfer t" "length (tr_strName t) \<le> 31"
  shows "TransferAssetFromScript C P (ConstructTransaction_CAssetTransfer t pre) =
    Some (t, dest_address C P (CKeyID (take 20 (drop 3 pre))))"
  using read_construct [of pre BLKR_T "Serialize_CAssetTransfer t" Unserialize_CAssetTransfer t C P] assms
    size_CAssetTransfer [OF assms(3)] Unserialize_CAssetTransfer_ser [OF assms(2), of "[OP_DROP]"]
  by (auto simp: TransferAssetFromScript_def ConstructTransaction_CAssetTransfer_def IsScriptTransferAsset_def
      deployed_defs asset_kind_simps asset_kind_distinct)

lemma AssetFromScript_construct:
  assumes "length pre = 25" "valid_new_asset a" "length (na_strName a) \<le> 31"
  shows "AssetFromScript C P (ConstructTransaction_CNewAsset a pre) =
    Some (a, dest_address C P (CKeyID (take 20 (drop 3 pre))))"
  using read_construct [of pre BLKR_Q "Serialize_CNewAsset a" Unserialize_CNewAsset a C P] assms
    size_CNewAsset [OF assms(3)] Unserialize_CNewAsset_ser [OF assms(2), of "[OP_DROP]"]
  by (auto simp: AssetFromScript_def ConstructTransaction_CNewAsset_def IsScriptNewAsset_def asset_kind_simps)

lemma ReissueAssetFromScript_construct:
  assumes "length pre = 25" "valid_reissue r" "length (re_strName r) \<le> 31"
  shows "ReissueAssetFromScript C P (ConstructTransaction_CReissueAsset r pre) =
    Some (r, dest_address C P (CKeyID (take 20 (drop 3 pre))))"
  using read_construct [of pre BLKR_N "Serialize_CReissueAsset r" Unserialize_CReissueAsset r C P] assms
    size_CReissueAsset [OF assms(3)] Unserialize_CReissueAsset_ser [OF assms(2), of "[OP_DROP]"]
  by (auto simp: ReissueAssetFromScript_def ConstructTransaction_CReissueAsset_def IsScriptReissueAsset_def asset_kind_simps asset_kind_distinct)

lemma OwnerAssetFromScript_construct:
  assumes "length pre = 25" "length (na_strName a) \<le> 31"
  shows "OwnerAssetFromScript C P (ConstructOwnerTransaction a pre) =
    Some (na_strName a @ OWNER_TAG, dest_address C P (CKeyID (take 20 (drop 3 pre))))"
  using read_construct [of pre BLKR_O "Serialize_string (na_strName a @ OWNER_TAG)" Unserialize_string "na_strName a @ OWNER_TAG" C P]
    assms cstring.unser_ser [of "na_strName a @ OWNER_TAG" "[OP_DROP]"] length_Serialize_string [of "na_strName a @ OWNER_TAG"]
  by (auto simp: OwnerAssetFromScript_def ConstructOwnerTransaction_def IsScriptOwnerAsset_def asset_kind_simps asset_kind_distinct OWNER_TAG_def MAX_SIZE_def)

section \<open>Properties\<close>

text \<open>
  C30. Asset scripts. A transfer, a new asset, a reissue and an owner token, put behind any script of 25 bytes by the
  functions that build asset outputs, are recognised at their place and read back unchanged, together with the
  address whose hash stands in bytes 3 to 22 of the script. The names are at most 31 characters long, as valid names are.
\<close>

theorem asset_script_roundtrip:
  assumes "length pre = 25" "valid_transfer t" "valid_new_asset a" "valid_reissue r"
    and "length (tr_strName t) \<le> 31" "length (na_strName a) \<le> 31" "length (re_strName r) \<le> 31"
    and "address = dest_address C P (CKeyID (take 20 (drop 3 pre)))"
  shows "TransferAssetFromScript C P (ConstructTransaction_CAssetTransfer t pre) = Some (t, address) \<and>
    AssetFromScript C P (ConstructTransaction_CNewAsset a pre) = Some (a, address) \<and>
    ReissueAssetFromScript C P (ConstructTransaction_CReissueAsset r pre) = Some (r, address) \<and>
    OwnerAssetFromScript C P (ConstructOwnerTransaction a pre) = Some (na_strName a @ OWNER_TAG, address)"
  using assms by (simp add: TransferAssetFromScript_construct AssetFromScript_construct ReissueAssetFromScript_construct
      OwnerAssetFromScript_construct)

definition ex_new_asset :: CNewAsset where
  "ex_new_asset = \<lparr>na_strName = ''RAVEN'', na_nAmount = 100, na_units = 2, na_nReissuable = 1, na_nHasIPFS = 0, na_strIPFSHash = []\<rparr>"

definition ex_transfer :: CAssetTransfer where
  "ex_transfer = \<lparr>tr_strName = ''RAVEN'', tr_nAmount = 4, tr_message = replicate 32 CHR ''x'', tr_nExpireTime = 99\<rparr>"

definition ex_reissue :: CReissueAsset where
  "ex_reissue = \<lparr>re_strName = ''RAVEN'', re_nAmount = 4, re_nUnits = 3, re_nReissuable = 1, re_strIPFSHash = []\<rparr>"

lemma ex_payloads: "valid_transfer ex_transfer" "valid_new_asset ex_new_asset" "valid_reissue ex_reissue"
  by (simp_all add: valid_new_asset_def valid_transfer_def valid_reissue_def in_int64_def in_int8_def MAX_SIZE_def
      valid_hash_def ex_transfer_def ex_new_asset_def ex_reissue_def)

theorem asset_script_roundtrip_witness:
  "\<exists>address. TransferAssetFromScript ex_crypto main_params (ConstructTransaction_CAssetTransfer ex_transfer (replicate 25 1)) =
    Some (ex_transfer, address)"
  using asset_script_roundtrip [of "replicate 25 1" ex_transfer ex_new_asset ex_reissue _ ex_crypto main_params] ex_payloads
  by (simp add: ex_transfer_def ex_new_asset_def ex_reissue_def)

text \<open>
  The burn address for issuing root assets on the main network is not the address of any output. It starts with an
  extra digit one, which no address text of the network has, so no output ever pays the fee for a root asset.
\<close>

lemma root_burn_impossible: "\<not> CheckIssueBurnTx C main_params txOut ROOT n"
proof -
  have "dest_address C main_params d \<noteq> ''1BSrfxDfwZaKp5ZccJTMSKERGzkZry8u5Ao''" for d
  proof
    assume a: "dest_address C main_params d = ''1BSrfxDfwZaKp5ZccJTMSKERGzkZry8u5Ao''"
    then obtain s x v where "EncodeBase58 (x # v) = Some s" "x \<noteq> 0" "s = ''1BSrfxDfwZaKp5ZccJTMSKERGzkZry8u5Ao''"
      by (cases d) (auto simp: dest_address_def EncodeDestination_def EncodeBase58Check_def Let_def main_params_def
          main_prefixes_def address_IsValid_def split: if_splits option.splits)
    from EncodeBase58_leading [OF this(1,2)] this(3) show False by simp
  qed
  then show ?thesis
    by (auto simp: CheckIssueBurnTx_def burns_to_def main_params_def split: option.splits)
qed

end
