(* ===== verification/Verifier.thy ===== *)
theory Verifier
  imports AssetScripts "HOL-Library.List_Lexorder" "HOL-Library.Char_ord"
begin

text \<open>
  Verifier strings: the evaluator of boolean expressions (\<^verbatim>\<open>src/src/LibBoolEE.cpp\<close>) and the checks of the verifier string of
  a restricted asset (\<^verbatim>\<open>src/src/assets/assets.cpp\<close>). An exception is a value of \<open>bee_error\<close>.
\<close>

section \<open>The evaluator\<close>

datatype bee_error = UnknownOperator char | ParenthesisParity | EmptySubExpression | NoSubExpressions
  | VariableNotFound string

definition isalnum :: "char \<Rightarrow> bool" where
  "isalnum c \<longleftrightarrow> between CHR ''0'' CHR ''9'' c \<or> between CHR ''A'' CHR ''Z'' c \<or> between CHR ''a'' CHR ''z'' c"

definition belongsToName :: "char \<Rightarrow> bool" where
  "belongsToName c \<longleftrightarrow> isalnum c \<or> c = CHR ''_'' \<or> c = CHR ''#'' \<or> c = CHR ''.''"

definition removeWhitespaces :: "string \<Rightarrow> string" where
  "removeWhitespaces source = filter (\<lambda>c. \<not> isspace c) source"

definition removeCharacter :: "string \<Rightarrow> char \<Rightarrow> string" where
  "removeCharacter source x = filter (\<lambda>c. x \<noteq> c) source"

text \<open>
  The loop of \<^verbatim>\<open>singleParse\<close> over the characters that are left. \<open>cur\<close> is the text from \<^verbatim>\<open>start_pos\<close> to the current
  position, \<open>None\<close> while \<^verbatim>\<open>start_pos\<close> is -1.
\<close>

fun singleParse_loop :: "char \<Rightarrow> string \<Rightarrow> int \<Rightarrow> string option \<Rightarrow> string list \<Rightarrow> bee_error + string list" where
  "singleParse_loop op [] parity_count cur subs =
     (let subs' = (case cur of None \<Rightarrow> subs | Some s \<Rightarrow> subs @ [s]) in
      if parity_count \<noteq> 0 then Inl ParenthesisParity else Inr subs')"
| "singleParse_loop op (c # formula) parity_count cur subs =
     (let ext = map_option (\<lambda>s. s @ [c]) cur in
      if c = CHR '')'' then singleParse_loop op formula (parity_count - 1) ext subs
      else if c = CHR ''('' then
        singleParse_loop op formula (parity_count + 1) (if cur = None then Some [c] else ext) subs
      else if parity_count = 0 then
        (case cur of
           None \<Rightarrow>
             singleParse_loop op formula parity_count
               (if belongsToName c \<or> c = CHR ''!'' then Some [c] else None) subs
         | Some s \<Rightarrow>
             if \<not> (belongsToName c \<or> c = CHR ''!'') then
               (if op = c then singleParse_loop op formula parity_count (Some []) (subs @ [s])
                else if c \<noteq> CHR ''&'' \<and> c \<noteq> CHR ''|'' then Inl (UnknownOperator c)
                else singleParse_loop op formula parity_count ext subs)
             else singleParse_loop op formula parity_count ext subs)
      else singleParse_loop op formula parity_count ext subs)"

definition singleParse :: "string \<Rightarrow> char \<Rightarrow> bee_error + string list" where
  "singleParse formula op = singleParse_loop op formula 0 None []"

text \<open>The pieces are disjoint parts of the text, separated by operators: that bounds the recursion.\<close>

lemma singleParse_loop_length:
  "singleParse_loop op formula parity cur subs = Inr r \<Longrightarrow>
   (\<Sum>s \<leftarrow> r. Suc (length s)) \<le> (\<Sum>s \<leftarrow> subs. Suc (length s)) + length formula + (case cur of None \<Rightarrow> 1 | Some s \<Rightarrow> Suc (length s))"
proof (induction op formula parity cur subs rule: singleParse_loop.induct)
  case (1 op parity cur subs)
  then show ?case by (auto split: if_splits option.splits)
next
  case (2 op c formula parity cur subs)
  then show ?case by (cases cur) (fastforce simp: Let_def split: if_splits)+
qed

lemma singleParse_shorter:
  assumes "singleParse formula op = Inr r" "length r \<ge> 2" "s \<in> set r"
  shows "length s < length formula"
proof -
  have "(\<Sum>s \<leftarrow> r. Suc (length s)) \<le> length formula + 1"
    using singleParse_loop_length [of op formula 0 None "[]" r] assms(1) by (simp add: singleParse_def)
  moreover obtain xs ys where r: "r = xs @ s # ys" using assms(3) by (auto dest: split_list)
  moreover have "xs \<noteq> [] \<or> ys \<noteq> []" using r assms(2) by auto
  then have "(\<Sum>s \<leftarrow> r. Suc (length s)) \<ge> Suc (length s) + 1"
    unfolding r by (cases xs; cases ys) auto
  ultimately show ?thesis by simp
qed

lemma length_removeWhitespaces: "length (removeWhitespaces s) \<le> length s"
  by (simp add: removeWhitespaces_def)

lemmas shorter_pieces = order.strict_trans1 [OF length_removeWhitespaces]

text \<open>All operands are evaluated, in order; the first exception ends the evaluation.\<close>

fun collect :: "('e + 'a) list \<Rightarrow> 'e + 'a list" where
  "collect [] = Inr []"
| "collect (x # xs) = sbind x (\<lambda>a. sbind (collect xs) (\<lambda>as. Inr (a # as)))"

text \<open>The division by \<^verbatim>\<open>|\<close>, or by \<^verbatim>\<open>&\<close> when there is one part only, with the operator that was used last.\<close>

definition split_formula :: "string \<Rightarrow> bee_error + (char \<times> string list)" where
  "split_formula source =
     sbind (singleParse source CHR ''|'') (\<lambda>subs.
       if length subs = 1 then sbind (singleParse source CHR ''&'') (\<lambda>subs'. Inr (CHR ''&'', subs'))
       else Inr (CHR ''|'', subs))"

function resolveRec :: "string \<Rightarrow> (string \<rightharpoonup> bool) \<Rightarrow> bee_error + bool" where
  "resolveRec source valuation =
     (if source = [] then Inl EmptySubExpression
      else case split_formula source of
        Inl e \<Rightarrow> Inl e
      | Inr (current_op, subexpressions) \<Rightarrow>
          if length subexpressions = 0 then Inl NoSubExpressions
          else if length subexpressions = 1 then
            (if hd source = CHR ''!'' then
               sbind (resolveRec (removeWhitespaces (tl source)) valuation) (\<lambda>b. Inr (\<not> b))
             else if hd source = CHR ''('' then
               resolveRec (removeWhitespaces (take (length source - 2) (tl source))) valuation
             else if source = ''1'' then Inr True
             else if source = ''0'' then Inr False
             else case valuation source of None \<Rightarrow> Inl (VariableNotFound source) | Some b \<Rightarrow> Inr b)
          else
            sbind (collect (map (\<lambda>s. resolveRec (removeWhitespaces s) valuation) subexpressions)) (\<lambda>bs.
              Inr (if current_op = CHR ''|'' then \<exists>b \<in> set bs. b else \<forall>b \<in> set bs. b)))"
  by pat_completeness auto
termination
proof (relation "measure (\<lambda>(source, _). length source)", goal_cases)
  case (4 source valuation p current_op subexpressions s)
  then have "length subexpressions \<ge> 2" by (cases subexpressions; cases "tl subexpressions") auto
  with 4 have "length s < length source"
    using singleParse_shorter [of source] by (auto simp: split_formula_def sbind_def split: sum.splits if_splits)
  then show ?case by (simp add: shorter_pieces)
qed (auto intro!: shorter_pieces)

declare resolveRec.simps [simp del]

definition resolve :: "string \<Rightarrow> (string \<rightharpoonup> bool) \<Rightarrow> bee_error + bool" where
  "resolve source valuation = resolveRec (removeWhitespaces source) valuation"

section \<open>Exceptions do not depend on the values\<close>

text \<open>Two results that are the same exception or are both truth values.\<close>

definition same_error :: "'e + 'a \<Rightarrow> 'e + 'b \<Rightarrow> bool" where
  "same_error x y \<longleftrightarrow> (\<forall>e. x = Inl e \<longleftrightarrow> y = Inl e)"

lemma same_error_simps [simp]:
  "same_error (Inl e) y \<longleftrightarrow> y = Inl e" "same_error (Inr a) (Inr b)" "same_error (Inr a) (Inl e) \<longleftrightarrow> False"
  by (auto simp: same_error_def)

lemma same_error_sbind:
  assumes "same_error x y" "\<And>a b. same_error (f a) (g b)"
  shows "same_error (sbind x f) (sbind y g)"
  using assms by (cases x; cases y) auto

lemma same_error_collect:
  "(\<And>s. s \<in> set xs \<Longrightarrow> same_error (f s) (g s)) \<Longrightarrow> same_error (collect (map f xs)) (collect (map g xs))"
proof (induction xs)
  case (Cons x xs)
  then have "same_error (f x) (g x)" "same_error (collect (map f xs)) (collect (map g xs))" by simp_all
  then show ?case by (cases "f x"; cases "g x"; cases "collect (map f xs)"; cases "collect (map g xs)") simp_all
qed simp

lemma resolveRec_same_error:
  assumes "dom v = dom w"
  shows "same_error (resolveRec source v) (resolveRec source w)"
proof (induction "length source" arbitrary: source rule: less_induct)
  case less
  show ?case
  proof (cases "source = [] \<or> (\<exists>e. split_formula source = Inl e)")
    case True
    then show ?thesis by (auto simp: resolveRec.simps [of source])
  next
    case False
    then obtain op subs where d: "split_formula source = Inr (op, subs)" by (cases "split_formula source") auto
    have pieces: "same_error (resolveRec (removeWhitespaces s) v) (resolveRec (removeWhitespaces s) w)"
      if "s \<in> set subs" "length subs \<noteq> 0" "length subs \<noteq> 1" for s
    proof -
      have "length subs \<ge> 2" using that by (cases subs; cases "tl subs") auto
      then have "length s < length source"
        using d that(1) singleParse_shorter [of source] by (auto simp: split_formula_def sbind_def split: sum.splits if_splits)
      then show ?thesis by (intro less) (simp add: shorter_pieces)
    qed
    have one: "same_error (resolveRec (removeWhitespaces (tl source)) v) (resolveRec (removeWhitespaces (tl source)) w)"
      "same_error (resolveRec (removeWhitespaces (take (length source - 2) (tl source))) v)
        (resolveRec (removeWhitespaces (take (length source - 2) (tl source))) w)"
      using False by (auto intro!: less shorter_pieces)
    have "v source = None \<longleftrightarrow> w source = None" using assms by (metis domIff)
    then have var: "same_error (case v source of None \<Rightarrow> Inl (VariableNotFound source) | Some b \<Rightarrow> Inr b)
        (case w source of None \<Rightarrow> Inl (VariableNotFound source) | Some b \<Rightarrow> Inr b)" by (auto split: option.split)
    consider "length subs = 0" | "length subs = 1" | "length subs \<noteq> 0" "length subs \<noteq> 1" by blast
    then show ?thesis
    proof cases
      case 2
      then obtain s where "subs = [s]" by (auto simp: length_Suc_conv)
      with False d var one show ?thesis by (simp add: resolveRec.simps [of source] same_error_sbind del: same_error_simps(1,3))
    next
      case 3
      have "same_error (collect (map (\<lambda>s. resolveRec (removeWhitespaces s) v) subs))
          (collect (map (\<lambda>s. resolveRec (removeWhitespaces s) w) subs))"
        by (rule same_error_collect) (rule pieces [OF _ 3])
      with False d 3 show ?thesis by (simp add: resolveRec.simps [of source] same_error_sbind)
    qed (use False d in \<open>simp add: resolveRec.simps [of source]\<close>)
  qed
qed

section \<open>Formulas\<close>

text \<open>
  The formulas of the documentation, with \<^verbatim>\<open>!\<close> binding tighter than \<^verbatim>\<open>&\<close> and \<^verbatim>\<open>&\<close> tighter than \<^verbatim>\<open>|\<close>. \<open>pr n e\<close> prints \<open>e\<close> as a
  disjunction (\<open>n = 0\<close>), a conjunction (1) or an atom (2), with parentheses where they are needed.
\<close>

datatype bexp = Const bool | Name string | Neg bexp | Conj bexp bexp | Disj bexp bexp

fun bval :: "(string \<Rightarrow> bool) \<Rightarrow> bexp \<Rightarrow> bool" where
  "bval b (Const c) = c"
| "bval b (Name x) = b x"
| "bval b (Neg e) = (\<not> bval b e)"
| "bval b (Conj d e) = (bval b d \<and> bval b e)"
| "bval b (Disj d e) = (bval b d \<or> bval b e)"

fun pr :: "nat \<Rightarrow> bexp \<Rightarrow> string" where
  "pr n (Const c) = (if c then ''1'' else ''0'')"
| "pr n (Name x) = x"
| "pr n (Neg e) = CHR ''!'' # pr 2 e"
| "pr n (Conj d e) =
     (if n \<le> 1 then pr 1 d @ CHR ''&'' # pr 1 e else CHR ''('' # pr 1 d @ CHR ''&'' # pr 1 e @ [CHR '')''])"
| "pr n (Disj d e) =
     (if n = 0 then pr 0 d @ CHR ''|'' # pr 0 e else CHR ''('' # pr 0 d @ CHR ''|'' # pr 0 e @ [CHR '')''])"

fun names :: "bexp \<Rightarrow> string set" where
  "names (Const c) = {}"
| "names (Name x) = {x}"
| "names (Neg e) = names e"
| "names (Conj d e) = names d \<union> names e"
| "names (Disj d e) = names d \<union> names e"

definition is_name :: "string \<Rightarrow> bool" where
  "is_name x \<longleftrightarrow> x \<noteq> [] \<and> (\<forall>c \<in> set x. belongsToName c) \<and> x \<noteq> ''1'' \<and> x \<noteq> ''0''"

abbreviation well_named :: "bexp \<Rightarrow> bool" where
  "well_named e \<equiv> \<forall>x \<in> names e. is_name x"

lemma name_chars [simp]:
  "belongsToName c \<Longrightarrow> c \<noteq> CHR '')'' \<and> c \<noteq> CHR ''('' \<and> c \<noteq> CHR ''!'' \<and> c \<noteq> CHR ''&'' \<and> c \<noteq> CHR ''|''"
  "belongsToName c \<Longrightarrow> \<not> isspace c"
  "belongsToName CHR ''1''" "belongsToName CHR ''0''"
  "\<not> belongsToName CHR ''&''" "\<not> belongsToName CHR ''|''" "\<not> belongsToName CHR ''!''"
  by (auto simp: belongsToName_def isalnum_def between_def isspace_def)

text \<open>Inside parentheses every character of a formula is kept.\<close>

lemma loop_names:
  "\<forall>c \<in> set x. belongsToName c \<Longrightarrow>
   singleParse_loop op (x @ rest) k (Some t) subs = singleParse_loop op rest k (Some (t @ x)) subs"
  by (induction x arbitrary: t) (auto simp: Let_def)

lemma loop_inside:
  "well_named e \<Longrightarrow> k > 0 \<Longrightarrow>
   singleParse_loop op (pr n e @ rest) k (Some t) subs = singleParse_loop op rest k (Some (t @ pr n e)) subs"
proof (induction e arbitrary: n k rest t)
  case (Name x)
  then show ?case by (simp add: loop_names is_name_def)
qed (auto simp: Let_def)

text \<open>At the top level an atom is kept; a conjunction is kept when dividing by \<^verbatim>\<open>|\<close>.\<close>

lemma loop_atom:
  "well_named e \<Longrightarrow> singleParse_loop op (pr 2 e @ rest) 0 (Some t) subs = singleParse_loop op rest 0 (Some (t @ pr 2 e)) subs"
proof (induction e arbitrary: rest t)
  case (Name x)
  then show ?case by (simp add: loop_names is_name_def)
qed (auto simp: Let_def loop_inside)

lemma loop_conj:
  "well_named e \<Longrightarrow> singleParse_loop CHR ''|'' (pr 1 e @ rest) 0 (Some t) subs =
     singleParse_loop CHR ''|'' rest 0 (Some (t @ pr 1 e)) subs"
proof (induction e arbitrary: rest t)
  case (Name x)
  then show ?case by (simp add: loop_names is_name_def)
next
  case (Neg e)
  then show ?case by (simp add: Let_def loop_atom)
qed (auto simp: Let_def loop_inside)

lemma pr_first: "well_named e \<Longrightarrow> pr n e \<noteq> [] \<and> (belongsToName (hd (pr n e)) \<or> hd (pr n e) = CHR ''!'' \<or> hd (pr n e) = CHR ''('')"
proof (induction e arbitrary: n)
  case (Name x)
  then show ?case by (auto simp: is_name_def)
qed (auto simp: hd_append)

lemma loop_start:
  assumes "well_named e"
  shows "singleParse_loop op (pr n e @ rest) 0 None subs = singleParse_loop op (pr n e @ rest) 0 (Some []) subs"
proof (cases "pr n e")
  case (Cons c s)
  with pr_first [OF assms, of n] show ?thesis by (auto simp: Let_def)
qed (use pr_first [OF assms, of n] in simp)

fun disj_list :: "bexp \<Rightarrow> bexp list" where
  "disj_list (Disj d e) = disj_list d @ disj_list e"
| "disj_list e = [e]"

fun conj_list :: "bexp \<Rightarrow> bexp list" where
  "conj_list (Conj d e) = conj_list d @ conj_list e"
| "conj_list e = [e]"

lemma disj_list_nonempty [simp]: "disj_list e \<noteq> []"
  by (induction e rule: disj_list.induct) simp_all

lemma conj_list_nonempty [simp]: "conj_list e \<noteq> []"
  by (induction e rule: conj_list.induct) simp_all

lemma disj_list_eq: "(\<And>d c. e \<noteq> Disj d c) \<Longrightarrow> disj_list e = [e] \<and> pr 0 e = pr 1 e"
  by (cases e) auto

lemma conj_list_eq: "(\<And>d c. e \<noteq> Conj d c) \<Longrightarrow> conj_list e = [e] \<and> pr 1 e = pr 2 e"
  by (cases e) auto

lemma map_butlast_last: "xs \<noteq> [] \<Longrightarrow> map f (butlast xs) @ [f (last xs)] = map f xs"
  by (metis append_butlast_last_id list.simps(8,9) map_append)

lemma loop_disj_list:
  "well_named e \<Longrightarrow> singleParse_loop CHR ''|'' (pr 0 e @ rest) 0 (Some []) subs =
     singleParse_loop CHR ''|'' rest 0 (Some (pr 1 (last (disj_list e)))) (subs @ map (pr 1) (butlast (disj_list e)))"
proof (induction e arbitrary: rest subs rule: disj_list.induct)
  case (1 d e)
  from map_butlast_last [of "disj_list d" "pr 1"] 1 show ?case by (simp add: Let_def butlast_append)
qed (use loop_conj [of _ _ "[]"] in \<open>simp_all only: disj_list_eq [THEN conjunct1] disj_list_eq [THEN conjunct2] bexp.distinct
    disj_list.simps last.simps butlast.simps list.map append_Nil append_Nil2 simp_thms if_True\<close>)

lemma loop_conj_list:
  "well_named e \<Longrightarrow> singleParse_loop CHR ''&'' (pr 1 e @ rest) 0 (Some []) subs =
     singleParse_loop CHR ''&'' rest 0 (Some (pr 2 (last (conj_list e)))) (subs @ map (pr 2) (butlast (conj_list e)))"
proof (induction e arbitrary: rest subs rule: conj_list.induct)
  case (1 d e)
  from map_butlast_last [of "conj_list d" "pr 2"] 1 show ?case by (simp add: Let_def butlast_append)
qed (use loop_atom [of _ _ _ "[]"] in \<open>simp_all only: conj_list_eq [THEN conjunct2] bexp.distinct
    conj_list.simps last.simps butlast.simps list.map append_Nil append_Nil2 simp_thms if_True\<close>)

lemma singleParse_pr:
  assumes "well_named e"
  shows "singleParse (pr 0 e) CHR ''|'' = Inr (map (pr 1) (disj_list e))"
    and "singleParse (pr 1 e) CHR ''|'' = Inr [pr 1 e]"
    and "singleParse (pr 1 e) CHR ''&'' = Inr (map (pr 2) (conj_list e))"
    and "singleParse (pr 2 e) op = Inr [pr 2 e]"
proof -
  show "singleParse (pr 0 e) CHR ''|'' = Inr (map (pr 1) (disj_list e))"
    "singleParse (pr 1 e) CHR ''&'' = Inr (map (pr 2) (conj_list e))"
    using map_butlast_last [of "disj_list e" "pr 1"] map_butlast_last [of "conj_list e" "pr 2"] loop_start [OF assms, of _ _ "[]"] loop_disj_list [OF assms, of "[]"] loop_conj_list [OF assms, of "[]"]
    by (simp_all add: singleParse_def)
  show "singleParse (pr 1 e) CHR ''|'' = Inr [pr 1 e]" "singleParse (pr 2 e) op = Inr [pr 2 e]"
    using loop_start [OF assms, of _ _ "[]"] loop_conj [OF assms, of "[]"] loop_atom [OF assms, of _ "[]"]
    by (simp_all add: singleParse_def)
qed

lemma split_disj: "well_named (Disj d e) \<Longrightarrow>
    split_formula (pr 0 (Disj d e)) = Inr (CHR ''|'', map (pr 1) (disj_list (Disj d e)))"
  using singleParse_pr(1) [of "Disj d e"] disj_list_nonempty [of d] disj_list_nonempty [of e]
  by (cases "disj_list d"; cases "disj_list e") (simp_all add: split_formula_def)

lemma split_conj: "well_named e \<Longrightarrow> split_formula (pr 1 e) = Inr (CHR ''&'', map (pr 2) (conj_list e))"
  using singleParse_pr(2,3) [of e] by (simp add: split_formula_def)

lemma split_atom: "well_named e \<Longrightarrow> split_formula (pr 2 e) = Inr (CHR ''&'', [pr 2 e])"
  using singleParse_pr(4) [of e] by (simp add: split_formula_def)

lemma bval_disj_list: "bval b e \<longleftrightarrow> (\<exists>d \<in> set (disj_list e). bval b d)"
  by (induction e rule: disj_list.induct) auto

lemma bval_conj_list: "bval b e \<longleftrightarrow> (\<forall>d \<in> set (conj_list e). bval b d)"
  by (induction e rule: conj_list.induct) auto

lemma names_disj_list: "d \<in> set (disj_list e) \<Longrightarrow> names d \<subseteq> names e"
  by (induction e rule: disj_list.induct) auto

lemma names_conj_list: "d \<in> set (conj_list e) \<Longrightarrow> names d \<subseteq> names e"
  by (induction e rule: conj_list.induct) auto

lemma removeWhitespaces_pr: "well_named e \<Longrightarrow> removeWhitespaces (pr n e) = pr n e"
proof -
  assume "well_named e"
  then have "\<not> isspace c" if "c \<in> set (pr n e)" for c
    using that
  proof (induction e arbitrary: n)
    case (Name x)
    then show ?case by (auto simp: is_name_def)
  qed (auto simp: isspace_def split: if_splits)
  then show ?thesis by (auto simp: removeWhitespaces_def filter_id_conv)
qed

lemma collect_map: "(\<And>x. x \<in> set xs \<Longrightarrow> f x = Inr (g x)) \<Longrightarrow> collect (map f xs) = Inr (map g xs)"
  by (induction xs) auto

text \<open>A printed list of two or more operands is evaluated operand by operand.\<close>

lemma resolveRec_operands:
  assumes "split_formula src = Inr (op, map (pr n) es)" "length es \<ge> 2" "src \<noteq> []"
    and "\<And>d. d \<in> set es \<Longrightarrow> well_named d \<and> resolveRec (pr n d) v = Inr (bval b d)"
  shows "resolveRec src v = Inr (if op = CHR ''|'' then \<exists>d \<in> set es. bval b d else \<forall>d \<in> set es. bval b d)"
proof -
  have "collect (map ((\<lambda>s. resolveRec (removeWhitespaces s) v) \<circ> pr n) es) = Inr (map (bval b) es)"
    using assms(4) by (intro collect_map) (simp add: removeWhitespaces_pr)
  moreover have "length es \<noteq> 0" "length es \<noteq> 1" using assms(2) by auto
  ultimately show ?thesis
    using assms(1,3) by (simp add: resolveRec.simps [of src])
qed

lemma size_lists: "d \<in> set (disj_list e) \<Longrightarrow> size d \<le> size e" "d' \<in> set (conj_list e') \<Longrightarrow> size d' \<le> size e'"
  by (induction e rule: disj_list.induct; auto) (induction e' rule: conj_list.induct; auto)

lemma resolveRec_atom:
  assumes "well_named e"
  shows "resolveRec (pr 2 e) v =
    (if hd (pr 2 e) = CHR ''!'' then sbind (resolveRec (removeWhitespaces (tl (pr 2 e))) v) (\<lambda>b. Inr (\<not> b))
     else if hd (pr 2 e) = CHR ''('' then resolveRec (removeWhitespaces (take (length (pr 2 e) - 2) (tl (pr 2 e)))) v
     else if pr 2 e = ''1'' then Inr True
     else if pr 2 e = ''0'' then Inr False
     else case v (pr 2 e) of None \<Rightarrow> Inl (VariableNotFound (pr 2 e)) | Some b \<Rightarrow> Inr b)"
  using split_atom [OF assms] pr_first [OF assms, of 2] by (simp add: resolveRec.simps [of "pr 2 e"])

lemma resolveRec_pr:
  assumes "well_named e" "\<forall>x \<in> names e. v x = Some (b x)"
  shows "resolveRec (pr n e) v = Inr (bval b e)"
  using assms
proof (induction "size e" arbitrary: n e rule: less_induct)
  case less
  show ?case
  proof (cases e)
    case (Const c)
    with resolveRec_atom [of e v] show ?thesis by simp
  next
    case (Name x)
    with less.prems have "x \<noteq> []" "x \<noteq> ''1''" "x \<noteq> ''0''" "belongsToName (hd x)" "v x = Some (b x)"
      by (auto simp: is_name_def)
    with resolveRec_atom [of e v] Name less.prems show ?thesis by (auto dest: name_chars(1))
  next
    case (Neg f)
    with less resolveRec_atom [of e v] show ?thesis by (simp add: removeWhitespaces_pr)
  next
    case (Conj d f)
    have "length (conj_list e) \<ge> 2" "pr 1 e \<noteq> []"
      using Conj conj_list_nonempty [of d] conj_list_nonempty [of f] by (cases "conj_list d"; cases "conj_list f"; simp)+
    moreover have "well_named g \<and> resolveRec (pr 2 g) v = Inr (bval b g)" if "g \<in> set (conj_list e)" for g
    proof -
      have "size g < size e" using that Conj size_lists(2) [of g] by fastforce
      with less names_conj_list [OF that] show ?thesis by blast
    qed
    ultimately have one: "resolveRec (pr 1 e) v = Inr (bval b e)"
      using resolveRec_operands [OF split_conj [OF less.prems(1)]] bval_conj_list [of b e] by simp
    moreover have "removeWhitespaces (pr 1 e) = pr 1 e" by (rule removeWhitespaces_pr [OF less.prems(1)])
    ultimately have "resolveRec (pr 2 e) v = Inr (bval b e)" using resolveRec_atom [OF less.prems(1), of v] Conj by simp
    with one show ?thesis by (cases "n \<le> 1") (simp_all add: Conj)
  next
    case (Disj d f)
    have "length (disj_list e) \<ge> 2" "pr 0 e \<noteq> []"
      using Disj disj_list_nonempty [of d] disj_list_nonempty [of f] by (cases "disj_list d"; cases "disj_list f"; simp)+
    moreover have "well_named g \<and> resolveRec (pr 1 g) v = Inr (bval b g)" if "g \<in> set (disj_list e)" for g
    proof -
      have "size g < size e" using that Disj size_lists(1) [of g] by fastforce
      with less names_disj_list [OF that] show ?thesis by blast
    qed
    moreover have "split_formula (pr 0 e) = Inr (CHR ''|'', map (pr 1) (disj_list e))"
      unfolding Disj using less.prems(1) by (intro split_disj) (simp add: Disj)
    ultimately have zero: "resolveRec (pr 0 e) v = Inr (bval b e)"
      using resolveRec_operands [of "pr 0 e" _ 1 "disj_list e"] bval_disj_list [of b e] by simp
    moreover have "removeWhitespaces (pr 0 e) = pr 0 e" by (rule removeWhitespaces_pr [OF less.prems(1)])
    ultimately have "resolveRec (pr 2 e) v = Inr (bval b e)" using resolveRec_atom [OF less.prems(1), of v] Disj by simp
    with zero show ?thesis by (cases "n = 0") (simp_all add: Disj)
  qed
qed

section \<open>Verifier strings\<close>

text \<open>The runs of name characters, found one after the other from the left.\<close>

function name_runs :: "string \<Rightarrow> string list" where
  "name_runs s =
     (let s' = dropWhile (\<lambda>c. \<not> name_char c) s in
      if s' = [] then [] else takeWhile name_char s' # name_runs (dropWhile name_char s'))"
  by pat_completeness auto
termination
proof (relation "measure length", goal_cases)
  case (2 s s')
  then have "name_char (hd s')" using hd_dropWhile [of "\<lambda>c. \<not> name_char c" s] by simp
  moreover obtain c t where "s' = c # t" using 2(2) by (meson neq_Nil_conv)
  ultimately have "length (dropWhile name_char s') < length s'" by (simp add: le_imp_less_Suc length_dropWhile_le)
  also have "length s' \<le> length s" using 2 by (simp add: length_dropWhile_le)
  finally show ?case by simp
qed simp

declare name_runs.simps [simp del]

text \<open>The set of qualifiers, in the order of a \<^verbatim>\<open>std::set\<close>.\<close>

definition ExtractVerifierStringQualifiers :: "string \<Rightarrow> string list" where
  "ExtractVerifierStringQualifiers verifier = remdups (sort (name_runs verifier))"

definition GetStrippedVerifierString :: "string \<Rightarrow> string" where
  "GetStrippedVerifierString verifier = removeCharacter (removeWhitespaces verifier) CHR ''#''"

datatype verifier_error = VerifierEmpty | VerifierTooLong | VerifierInvalidName string | VerifierSyntax bee_error

definition valuation :: "string list \<Rightarrow> (string \<Rightarrow> bool) \<Rightarrow> string \<rightharpoonup> bool" where
  "valuation qs b = (\<lambda>x. if x \<in> set qs then Some (b x) else None)"

definition CheckVerifierString :: "string \<Rightarrow> verifier_error + string list" where
  "CheckVerifierString verifier =
     (if verifier = ''true'' then Inr []
      else if verifier = [] then Inl VerifierEmpty
      else let strippedVerifier = GetStrippedVerifierString verifier in
        if length strippedVerifier > 80 then Inl VerifierTooLong
        else let setFoundQualifiers = ExtractVerifierStringQualifiers strippedVerifier in
          case find (\<lambda>q. \<not> IsQualifierNameValid (CHR ''#'' # q)) setFoundQualifiers of
            Some q \<Rightarrow> Inl (VerifierInvalidName q)
          | None \<Rightarrow>
              (case resolve verifier (valuation setFoundQualifiers (\<lambda>_. True)) of
                 Inl e \<Rightarrow> Inl (VerifierSyntax e)
               | Inr _ \<Rightarrow> Inr setFoundQualifiers))"

lemma name_runs_skip: "\<not> name_char c \<Longrightarrow> name_runs (c # s) = name_runs s"
  by (simp add: name_runs.simps [of "c # s"] name_runs.simps [of s])

lemma name_runs_Nil [simp]: "name_runs [] = []"
  by (simp add: name_runs.simps)

lemma name_runs_name:
  assumes "x \<noteq> []" "\<forall>c \<in> set x. name_char c" "rest = [] \<or> \<not> name_char (hd rest)"
  shows "name_runs (x @ rest) = x # name_runs rest"
proof -
  obtain c x' where "x = c # x'" using assms(1) by (cases x) auto
  then have "dropWhile (\<lambda>c. \<not> name_char c) (x @ rest) = x @ rest" using assms(2) by simp
  moreover have "takeWhile name_char (x @ rest) = x" "dropWhile name_char (x @ rest) = rest"
    using assms(2,3) by (cases rest; simp add: takeWhile_append dropWhile_append)+
  ultimately show ?thesis using assms(1) by (simp add: name_runs.simps [of "x @ rest"])
qed

lemma operators_not_names [simp]: "\<not> name_char CHR ''!''" "\<not> name_char CHR ''&''" "\<not> name_char CHR ''|''" "\<not> name_char CHR ''(''" "\<not> name_char CHR '')''"
  by (simp_all add: name_char_def upper_digit_def punct_def between_def)

fun const_free :: "bexp \<Rightarrow> bool" where
  "const_free (Const c) = False"
| "const_free (Name x) = True"
| "const_free (Neg e) = const_free e"
| "const_free (Conj d e) = (const_free d \<and> const_free e)"
| "const_free (Disj d e) = (const_free d \<and> const_free e)"

lemma name_runs_pr:
  assumes "const_free e" "\<forall>x \<in> names e. x \<noteq> [] \<and> (\<forall>c \<in> set x. name_char c)" "rest = [] \<or> \<not> name_char (hd rest)"
  shows "set (name_runs (pr n e @ rest)) = names e \<union> set (name_runs rest)"
  using assms
proof (induction e arbitrary: n rest)
  case (Name x)
  then show ?case by (simp add: name_runs_name)
qed (simp_all add: ball_Un name_runs_skip Un_assoc)

lemma qualifier_chars: "IsQualifierNameValid (CHR ''#'' # x) \<Longrightarrow> 3 \<le> length x \<and> (\<forall>c \<in> set x. name_char c)"
  by (auto simp: IsQualifierNameValid_def QUALIFIER_NAME_CHARACTERS_def regex_One regex_class list_all_iff)

lemma name_char_belongs: "name_char c \<Longrightarrow> belongsToName c \<and> c \<noteq> CHR ''#''"
  by (auto simp: name_char_def upper_digit_def punct_def belongsToName_def isalnum_def between_def)

lemma qualifier_is_name: "IsQualifierNameValid (CHR ''#'' # x) \<Longrightarrow> is_name x"
  using qualifier_chars [of x] name_char_belongs by (auto simp: is_name_def)

lemma pr_no_hash:
  "\<forall>x \<in> names e. \<forall>c \<in> set x. name_char c \<Longrightarrow> c \<in> set (pr n e) \<Longrightarrow> c \<noteq> CHR ''#''"
proof (induction e arbitrary: n)
  case (Name x)
  then show ?case using name_char_belongs by auto
qed (auto split: if_splits)

lemma resolve_valuation:
  assumes "well_named e" "removeWhitespaces s = pr 0 e" "set qs = names e"
  shows "resolve s (valuation qs b) = Inr (bval b e)"
  unfolding resolve_def assms(2) by (rule resolveRec_pr) (use assms in \<open>auto simp: valuation_def\<close>)

section \<open>Properties\<close>

text \<open>
  C14. Verifier strings mean what they say. Every formula over valid qualifier names and without constants, with negation, conjunction and
  disjunction in the usual precedence and with any blanks, is accepted when it has at most 80 characters; the
  check finds exactly its names, and for every assignment of truth values the evaluator returns the formula's
  value.
\<close>

theorem verifier_evaluation:
  assumes "const_free e" "\<forall>x \<in> names e. IsQualifierNameValid (CHR ''#'' # x)" "length (pr 0 e) \<le> 80"
    and "removeWhitespaces s = pr 0 e" "s \<noteq> ''true''"
  shows "\<exists>qs. CheckVerifierString s = Inr qs \<and> set qs = names e \<and> (\<forall>b. resolve s (valuation qs b) = Inr (bval b e))"
proof -
  have chars: "\<forall>x \<in> names e. x \<noteq> [] \<and> (\<forall>c \<in> set x. name_char c)" and wn: "well_named e"
    using assms(2) qualifier_chars qualifier_is_name by fastforce+
  have strip: "GetStrippedVerifierString s = pr 0 e"
    unfolding GetStrippedVerifierString_def removeCharacter_def assms(4)
    by (rule filter_True) (use pr_no_hash [of e _ 0] chars in blast)
  define qs where "qs = ExtractVerifierStringQualifiers (pr 0 e)"
  have qs: "set qs = names e"
    using name_runs_pr [OF assms(1) chars, of "[]" 0] by (simp add: qs_def ExtractVerifierStringQualifiers_def)
  have "s \<noteq> []" using assms(4) pr_first [OF wn, of 0] by (auto simp: removeWhitespaces_def)
  moreover have "find (\<lambda>q. \<not> IsQualifierNameValid (CHR ''#'' # q)) qs = None"
    using qs assms(2) by (simp add: find_None_iff)
  ultimately have "CheckVerifierString s = Inr qs"
    using assms(3,5) resolve_valuation [OF wn assms(4) qs]
    by (simp add: CheckVerifierString_def strip Let_def qs_def [symmetric])
  with qs resolve_valuation [OF wn assms(4) qs] show ?thesis by blast
qed

definition ex_formula :: bexp where
  "ex_formula = Disj (Conj (Name ''KYC'') (Neg (Name ''BANNED''))) (Name ''ADMIN'')"

theorem verifier_evaluation_witness:
  "\<exists>qs. CheckVerifierString ''KYC & !BANNED | ADMIN'' = Inr qs \<and> set qs = {''KYC'', ''BANNED'', ''ADMIN''} \<and>
    (\<forall>b. resolve ''KYC & !BANNED | ADMIN'' (valuation qs b) = Inr (b ''KYC'' \<and> \<not> b ''BANNED'' \<or> b ''ADMIN''))"
proof -
  have "removeWhitespaces ''KYC & !BANNED | ADMIN'' = pr 0 ex_formula" by code_simp
  moreover have "IsQualifierNameValid ''#KYC''" "IsQualifierNameValid ''#BANNED''" "IsQualifierNameValid ''#ADMIN''" by code_simp+
  ultimately show ?thesis
    using verifier_evaluation [of ex_formula "''KYC & !BANNED | ADMIN''"] by (simp add: ex_formula_def insert_commute)
qed

text \<open>
  The check of a verifier string at issue time is enough: once a string has passed it with all qualifiers true,
  evaluating it for an address never raises an exception, whatever qualifiers the address has.
\<close>

theorem verifier_check_complete:
  assumes "CheckVerifierString s = Inr qs" "s \<noteq> ''true''"
  shows "\<exists>r. resolve s (valuation qs b) = Inr r"
proof -
  from assms obtain r where r: "resolve s (valuation qs (\<lambda>_. True)) = Inr r"
    by (auto simp: CheckVerifierString_def Let_def split: if_splits option.splits sum.splits)
  have "dom (valuation qs (\<lambda>_. True)) = dom (valuation qs b)" by (auto simp: valuation_def dom_def)
  from resolveRec_same_error [OF this, of "removeWhitespaces s"] r show ?thesis
    by (cases "resolve s (valuation qs b)") (auto simp: resolve_def)
qed

theorem verifier_check_complete_witness:
  "\<exists>r. resolve ''KYC&!BANNED'' (valuation [''BANNED'', ''KYC''] (\<lambda>_. False)) = Inr r"
proof (rule verifier_check_complete)
  show "CheckVerifierString ''KYC&!BANNED'' = Inr [''BANNED'', ''KYC'']" by code_simp
qed simp

text \<open>
  Characters in front of a formula are ignored when the formula has an operator at its top level: the
  check accepts this string, although no operator is written with a caret.
\<close>

theorem verifier_leading_garbage:
  "CheckVerifierString ''^&KYC|ADMIN'' = Inr [''ADMIN'', ''KYC''] \<and>
   CheckVerifierString ''^KYC'' = Inl (VerifierSyntax (VariableNotFound ''^KYC''))"
  by (rule conjI; code_simp)

end
