(* ===== verification/AssetTx.thy ===== *)
theory AssetTx
  imports Verifier
begin

text \<open>
  Transactions that issue or reissue assets (the members of \<^verbatim>\<open>CTransaction\<close> in \<^verbatim>\<open>src/src/assets/assets.cpp\<close>) and the checks of
  asset data that need no context. A check returns \<open>Inl\<close> of the reject reason; the reasons are the texts of the code.
\<close>

section \<open>Checks of asset data\<close>

type_synonym 'a check = "string + 'a"

definition CheckAmountWithUnits :: "int \<Rightarrow> int \<Rightarrow> bool" where
  "CheckAmountWithUnits nAmount nUnits \<longleftrightarrow> nAmount mod 10 ^ nat (MAX_UNIT - nUnits) = 0"

text \<open>
  The reasons of these checks are sentences for the user; the model keeps a short text for each. The units
  are in range when the amount is checked against them.
\<close>

definition CheckNewAsset :: "CNewAsset \<Rightarrow> unit check" where
  "CheckNewAsset asset =
     (case IsAssetNameValid (na_strName asset) of
        Inl _ \<Rightarrow> Inl ''asset_name''
      | Inr assetType \<Rightarrow>
          if (assetType = UNIQUE \<or> assetType = MSGCHANNEL) \<and> na_units asset \<noteq> 0 then Inl ''unique-units''
          else if (assetType = UNIQUE \<or> assetType = MSGCHANNEL) \<and> na_nAmount asset \<noteq> UNIQUE_ASSET_AMOUNT then Inl ''unique-amount''
          else if (assetType = UNIQUE \<or> assetType = MSGCHANNEL) \<and> na_nReissuable asset \<noteq> 0 then Inl ''unique-reissuable''
          else if (assetType = QUALIFIER \<or> assetType = SUB_QUALIFIER) \<and> na_units asset \<noteq> 0 then Inl ''qualifier-units''
          else if (assetType = QUALIFIER \<or> assetType = SUB_QUALIFIER) \<and>
              (na_nAmount asset < QUALIFIER_ASSET_MIN_AMOUNT \<or> na_nAmount asset > QUALIFIER_ASSET_MAX_AMOUNT) then Inl ''qualifier-amount''
          else if (assetType = QUALIFIER \<or> assetType = SUB_QUALIFIER) \<and> na_nReissuable asset \<noteq> 0 then Inl ''qualifier-reissuable''
          else if IsAssetNameAnOwner (na_strName asset) then Inl ''owner-name''
          else if na_nAmount asset \<le> 0 then Inl ''amount-not-positive''
          else if na_nAmount asset > MAX_MONEY then Inl ''amount-over-max-money''
          else if na_units asset < 0 \<or> na_units asset > 8 then Inl ''units-range''
          else if \<not> CheckAmountWithUnits (na_nAmount asset) (na_units asset) then Inl ''amount-units''
          else if na_nReissuable asset \<noteq> 0 \<and> na_nReissuable asset \<noteq> 1 then Inl ''reissuable''
          else if na_nHasIPFS asset \<noteq> 0 \<and> na_nHasIPFS asset \<noteq> 1 then Inl ''has_ipfs''
          else Inr ())"

definition CheckReissueAsset :: "chain_params \<Rightarrow> CReissueAsset \<Rightarrow> unit check" where
  "CheckReissueAsset P asset =
     (if re_nAmount asset < 0 \<or> re_nAmount asset \<ge> MAX_MONEY then Inl ''amount''
      else if re_nUnits asset > MAX_UNIT \<or> re_nUnits asset < -1 then Inl ''unit''
      else let fSkip = strNetworkID P = ''test'' \<and>
             (re_strName asset = ''GAMINGWEB'' \<and> re_nReissuable asset = 109 \<or>
              re_strName asset = ''UINT8'' \<and> re_nReissuable asset = -47) in
        if \<not> fSkip \<and> re_nReissuable asset \<noteq> 0 \<and> re_nReissuable asset \<noteq> 1 then Inl ''reissuable''
        else Inr ())"

definition VerifyNullAssetDataFlag :: "int \<Rightarrow> unit check" where
  "VerifyNullAssetDataFlag fl =
     (if fl \<noteq> 0 \<and> fl \<noteq> 1 then Inl ''bad-txns-null-data-flag-must-be-0-or-1'' else Inr ())"

fun verifier_text :: "verifier_error \<Rightarrow> string" where
  "verifier_text VerifierEmpty = ''Verifier string can not be empty''"
| "verifier_text VerifierTooLong = ''Verifier string has length greater than 80''"
| "verifier_text (VerifierInvalidName q) = ''bad-txns-null-verifier-invalid-asset-name-'' @ q"
| "verifier_text (VerifierSyntax _) = ''bad-txns-null-verifier-failed-syntax-check''"

definition CheckVerifierAssetTxOut :: "CTxOut \<Rightarrow> unit check" where
  "CheckVerifierAssetTxOut txout =
     (case AssetNullVerifierDataFromScript (scriptPubKey txout) of
        None \<Rightarrow> Inl ''bad-txns-null-verifier-data-serialization''
      | Some verifier \<Rightarrow>
          if CHR '' '' \<in> set verifier then Inl ''bad-txns-null-verifier-data-contained-whitespaces''
          else if CHR ''#'' \<in> set verifier then Inl ''bad-txns-null-verifier-data-contained-qualifier-character-#''
          else case CheckVerifierString verifier of Inl e \<Rightarrow> Inl (verifier_text e) | Inr _ \<Rightarrow> Inr ())"

section \<open>The kinds of transactions\<close>

definition last_out :: "CTransaction \<Rightarrow> CTxOut" where
  "last_out tx = last (vout tx)"

definition owner_out :: "CTransaction \<Rightarrow> CTxOut" where
  "owner_out tx = vout tx ! (length (vout tx) - 2)"

definition tx_IsNewAsset :: "crypto \<Rightarrow> chain_params \<Rightarrow> CTransaction \<Rightarrow> bool" where
  "tx_IsNewAsset C P tx \<longleftrightarrow>
     (if length (vout tx) < 3 then False
      else if \<not> CheckIssueDataTx (last_out tx) then False
      else if \<not> CheckOwnerDataTx (owner_out tx) then False
      else if IsScriptNewUniqueAsset C P (scriptPubKey (last_out tx)) \<or> IsScriptNewRestrictedAsset C P (scriptPubKey (last_out tx)) then False
      else True)"

definition tx_IsNewUniqueAsset :: "crypto \<Rightarrow> chain_params \<Rightarrow> CTransaction \<Rightarrow> bool" where
  "tx_IsNewUniqueAsset C P tx \<longleftrightarrow>
     vout tx \<noteq> [] \<and> CheckIssueDataTx (last_out tx) \<and> IsScriptNewUniqueAsset C P (scriptPubKey (last_out tx))"

definition tx_IsNewMsgChannelAsset :: "crypto \<Rightarrow> chain_params \<Rightarrow> CTransaction \<Rightarrow> bool" where
  "tx_IsNewMsgChannelAsset C P tx \<longleftrightarrow>
     vout tx \<noteq> [] \<and> CheckIssueDataTx (last_out tx) \<and> IsScriptNewMsgChannelAsset C P (scriptPubKey (last_out tx))"

definition tx_IsNewQualifierAsset :: "crypto \<Rightarrow> chain_params \<Rightarrow> CTransaction \<Rightarrow> bool" where
  "tx_IsNewQualifierAsset C P tx \<longleftrightarrow>
     vout tx \<noteq> [] \<and> CheckIssueDataTx (last_out tx) \<and> IsScriptNewQualifierAsset C P (scriptPubKey (last_out tx))"

definition tx_IsNewRestrictedAsset :: "crypto \<Rightarrow> chain_params \<Rightarrow> CTransaction \<Rightarrow> bool" where
  "tx_IsNewRestrictedAsset C P tx \<longleftrightarrow>
     vout tx \<noteq> [] \<and> CheckIssueDataTx (last_out tx) \<and> IsScriptNewRestrictedAsset C P (scriptPubKey (last_out tx))"

definition tx_IsReissueAsset :: "CTransaction \<Rightarrow> bool" where
  "tx_IsReissueAsset tx \<longleftrightarrow> vout tx \<noteq> [] \<and> CheckReissueDataTx (last_out tx)"

section \<open>Reading the asset of a transaction\<close>

definition AssetFromTransaction :: "crypto \<Rightarrow> chain_params \<Rightarrow> CTransaction \<Rightarrow> (CNewAsset \<times> string) option" where
  "AssetFromTransaction C P tx =
     (if \<not> tx_IsNewAsset C P tx then None else AssetFromScript C P (scriptPubKey (last_out tx)))"

definition OwnerFromTransaction :: "crypto \<Rightarrow> chain_params \<Rightarrow> CTransaction \<Rightarrow> (string \<times> string) option" where
  "OwnerFromTransaction C P tx =
     (if \<not> tx_IsNewAsset C P tx then None else OwnerAssetFromScript C P (scriptPubKey (owner_out tx)))"

definition MsgChannelAssetFromTransaction :: "crypto \<Rightarrow> chain_params \<Rightarrow> CTransaction \<Rightarrow> (CNewAsset \<times> string) option" where
  "MsgChannelAssetFromTransaction C P tx =
     (if \<not> tx_IsNewMsgChannelAsset C P tx then None else MsgChannelAssetFromScript C P (scriptPubKey (last_out tx)))"

definition QualifierAssetFromTransaction :: "crypto \<Rightarrow> chain_params \<Rightarrow> CTransaction \<Rightarrow> (CNewAsset \<times> string) option" where
  "QualifierAssetFromTransaction C P tx =
     (if \<not> tx_IsNewQualifierAsset C P tx then None else QualifierAssetFromScript C P (scriptPubKey (last_out tx)))"

definition RestrictedAssetFromTransaction :: "crypto \<Rightarrow> chain_params \<Rightarrow> CTransaction \<Rightarrow> (CNewAsset \<times> string) option" where
  "RestrictedAssetFromTransaction C P tx =
     (if \<not> tx_IsNewRestrictedAsset C P tx then None else RestrictedAssetFromScript C P (scriptPubKey (last_out tx)))"

definition UniqueAssetFromTransaction :: "crypto \<Rightarrow> chain_params \<Rightarrow> CTransaction \<Rightarrow> (CNewAsset \<times> string) option" where
  "UniqueAssetFromTransaction C P tx =
     (if \<not> tx_IsNewUniqueAsset C P tx then None else AssetFromScript C P (scriptPubKey (last_out tx)))"

definition ReissueAssetFromTransaction :: "crypto \<Rightarrow> chain_params \<Rightarrow> CTransaction \<Rightarrow> (CReissueAsset \<times> string) option" where
  "ReissueAssetFromTransaction C P tx =
     (if \<not> tx_IsReissueAsset tx then None else ReissueAssetFromScript C P (scriptPubKey (last_out tx)))"

definition OWNER_LENGTH :: nat where "OWNER_LENGTH = 1"

definition IsNewOwnerTxValid :: "crypto \<Rightarrow> chain_params \<Rightarrow> CTransaction \<Rightarrow> string \<Rightarrow> string \<Rightarrow> unit check" where
  "IsNewOwnerTxValid C P tx assetName address =
     (case OwnerFromTransaction C P tx of
        None \<Rightarrow> Inl ''bad-txns-bad-owner''
      | Some (ownerName, ownerAddress) \<Rightarrow>
          if ownerAddress \<noteq> address then Inl ''bad-txns-owner-address-mismatch''
          else if length ownerName < OWNER_LENGTH + MIN_ASSET_LENGTH then Inl ''bad-txns-owner-asset-length''
          else if ownerName \<noteq> assetName @ OWNER_TAG then Inl ''bad-txns-owner-name-mismatch''
          else Inr ())"

text \<open>
  The verifier string of a transaction: the string, or the reason why there is none; \<open>None\<close> of the reason is the
  case that the code reports in its third argument, no verifier output at all.
\<close>

fun verifier_loop :: "CTxOut list \<Rightarrow> string option \<Rightarrow> string option + string" where
  "verifier_loop [] found = (case found of None \<Rightarrow> Inl None | Some v \<Rightarrow> Inr v)"
| "verifier_loop (out # outs) found =
     (if IsNullAssetVerifierTxDataScript (scriptPubKey out) then
        (if found \<noteq> None then Inl (Some ''Multiple verifier strings found in transaction'')
         else case AssetNullVerifierDataFromScript (scriptPubKey out) of
           None \<Rightarrow> Inl (Some ''Failed to get verifier string from output: '')
         | Some v \<Rightarrow> verifier_loop outs (Some v))
      else verifier_loop outs found)"

definition GetVerifierStringFromTx :: "CTransaction \<Rightarrow> string option + string" where
  "GetVerifierStringFromTx tx = verifier_loop (vout tx) None"

section \<open>Verifying issues and reissues\<close>

definition BAD_HASH :: string where
  "BAD_HASH = ''e6cdd54445e6bf69710d54e4340a6486167f866575a878eaedecbb345da056ae''"

definition BAD_HASH2 :: string where
  "BAD_HASH2 = ''3ba63518dc12599f9b83449c8b5338e224caf363d0327f5156fa4b6efeca5724''"

definition hex_digit :: "nat \<Rightarrow> char" where
  "hex_digit n = ''0123456789abcdef'' ! n"

definition GetHex :: "bytes \<Rightarrow> string" where
  "GetHex h = concat (map (\<lambda>b. [hex_digit (unat b div 16), hex_digit (unat b mod 16)]) (rev h))"

definition GetHash :: "crypto \<Rightarrow> CTransaction \<Rightarrow> bytes" where
  "GetHash C tx = Hash256 C (SerializeTransaction False tx)"

text \<open>An output that transfers the asset \<open>name\<close>, which the owner of the token has to sign for.\<close>

definition transfers_asset :: "crypto \<Rightarrow> chain_params \<Rightarrow> CTransaction \<Rightarrow> string \<Rightarrow> bool" where
  "transfers_asset C P tx name \<longleftrightarrow>
     list_ex (\<lambda>out. case TransferAssetFromScript C P (scriptPubKey out) of
       None \<Rightarrow> False | Some (transfer, transferAddress) \<Rightarrow> name = tr_strName transfer) (vout tx)"

fun unique_loop ::
  "crypto \<Rightarrow> chain_params \<Rightarrow> CTxOut list \<Rightarrow> string \<Rightarrow> string list \<Rightarrow> nat \<Rightarrow> (string \<times> nat) check" where
  "unique_loop C P [] assetRoot setUniqueAssets assetOutpointCount = Inr (assetRoot, assetOutpointCount)"
| "unique_loop C P (out # outs) assetRoot setUniqueAssets assetOutpointCount =
     (if IsScriptNewUniqueAsset C P (scriptPubKey out) then
        (case AssetFromScript C P (scriptPubKey out) of
           None \<Rightarrow> Inl ''bad-txns-issue-unique-asset-from-script''
         | Some (asset, address) \<Rightarrow>
             let root = GetParentName (na_strName asset);
                 assetRoot = (if assetRoot = [] then root else assetRoot) in
             if assetRoot \<noteq> root then Inl ''bad-txns-issue-unique-asset-compare-failed''
             else if na_strName asset \<in> set setUniqueAssets then Inl ''bad-txns-issue-unique-duplicate-name-in-same-tx''
             else unique_loop C P outs assetRoot (na_strName asset # setUniqueAssets) (assetOutpointCount + 1))
      else unique_loop C P outs assetRoot setUniqueAssets assetOutpointCount)"

definition VerifyNewUniqueAsset :: "crypto \<Rightarrow> chain_params \<Rightarrow> CTransaction \<Rightarrow> unit check" where
  "VerifyNewUniqueAsset C P tx =
     (if length (vout tx) < 3 then Inl ''bad-txns-unique-vout-size-to-small''
      else case unique_loop C P (vout tx) [] [] 0 of
        Inl e \<Rightarrow> Inl e
      | Inr (assetRoot, assetOutpointCount) \<Rightarrow>
          if assetOutpointCount = 0 then Inl ''bad-txns-issue-unique-asset-bad-outpoint-count''
          else if \<not> list_ex (\<lambda>out. CheckIssueBurnTx C P out UNIQUE assetOutpointCount) (vout tx)
            then Inl ''bad-txns-issue-unique-asset-burn-outpoints-not-found''
          else if \<not> transfers_asset C P tx (assetRoot @ OWNER_TAG) then Inl ''bad-txns-issue-unique-asset-missing-owner-asset''
          else case GetTxOutAssetTypes (vout tx) of (nIssues, nReissues, nTransfers, nOwners) \<Rightarrow>
            if nOwners > 0 \<or> nReissues > 0 \<or> nIssues \<noteq> assetOutpointCount
              then Inl ''bad-txns-failed-unique-asset-formatting-check''
            else Inr ())"

definition VerifyNewAsset :: "crypto \<Rightarrow> chain_params \<Rightarrow> CTransaction \<Rightarrow> unit check" where
  "VerifyNewAsset C P tx =
     (if length (vout tx) < 3 then Inl ''bad-txns-issue-vout-size-to-small''
      else if \<not> CheckIssueDataTx (last_out tx) then Inl ''bad-txns-issue-data-not-found''
      else if \<not> CheckOwnerDataTx (owner_out tx) then Inl ''bad-txns-issue-owner-data-not-found''
      else case AssetFromScript C P (scriptPubKey (last_out tx)) of
        None \<Rightarrow> Inl ''bad-txns-issue-serialzation-failed''
      | Some (asset, address) \<Rightarrow>
          let assetType = asset_type_of (na_strName asset) in
          (case OwnerAssetFromScript C P (scriptPubKey (owner_out tx)) of
             None \<Rightarrow> Inl ''bad-txns-issue-owner-serialzation-failed''
           | Some (strOwnerName, address) \<Rightarrow>
               if strOwnerName \<noteq> na_strName asset @ OWNER_TAG then Inl ''bad-txns-issue-owner-name-doesn't-match''
               else if \<not> list_ex (\<lambda>out. GetHex (GetHash C tx) = BAD_HASH \<or> GetHex (GetHash C tx) = BAD_HASH2 \<or>
                   CheckIssueBurnTx C P out assetType 1) (vout tx) then Inl ''bad-txns-issue-burn-not-found''
               else if assetType = SUB \<and> \<not> transfers_asset C P tx (GetParentName (na_strName asset) @ OWNER_TAG)
                 then Inl ''bad-txns-issue-new-asset-missing-owner-asset''
               else case GetTxOutAssetTypes (vout tx) of (nIssues, nReissues, nTransfers, nOwners) \<Rightarrow>
                 if nOwners \<noteq> 1 \<or> nIssues \<noteq> 1 \<or> nReissues > 0 then Inl ''bad-txns-failed-issue-asset-formatting-check''
                 else Inr ()))"

definition VerifyNewMsgChannelAsset :: "crypto \<Rightarrow> chain_params \<Rightarrow> CTransaction \<Rightarrow> unit check" where
  "VerifyNewMsgChannelAsset C P tx =
     (if length (vout tx) < 3 then Inl ''bad-txns-issue-msgchannel-vout-size-to-small''
      else if \<not> CheckIssueDataTx (last_out tx) then Inl ''bad-txns-issue-data-not-found''
      else case MsgChannelAssetFromScript C P (scriptPubKey (last_out tx)) of
        None \<Rightarrow> Inl ''bad-txns-issue-msgchannel-serialzation-failed''
      | Some (asset, address) \<Rightarrow>
          if \<not> list_ex (\<lambda>out. CheckIssueBurnTx C P out MSGCHANNEL 1) (vout tx) then Inl ''bad-txns-issue-msgchannel-burn-not-found''
          else if \<not> transfers_asset C P tx (GetParentName (na_strName asset) @ OWNER_TAG)
            then Inl ''bad-txns-issue-msg-channel-asset-bad-owner-asset''
          else case GetTxOutAssetTypes (vout tx) of (nIssues, nReissues, nTransfers, nOwners) \<Rightarrow>
            if nOwners \<noteq> 0 \<or> nIssues \<noteq> 1 \<or> nReissues > 0 then Inl ''bad-txns-failed-issue-msgchannel-asset-formatting-check''
            else Inr ())"

definition VerifyNewQualfierAsset :: "crypto \<Rightarrow> chain_params \<Rightarrow> CTransaction \<Rightarrow> unit check" where
  "VerifyNewQualfierAsset C P tx =
     (if length (vout tx) < 2 then Inl ''bad-txns-issue-qualifier-vout-size-to-small''
      else if \<not> CheckIssueDataTx (last_out tx) then Inl ''bad-txns-issue-qualifider-data-not-found''
      else case QualifierAssetFromScript C P (scriptPubKey (last_out tx)) of
        None \<Rightarrow> Inl ''bad-txns-issue-qualifier-serialzation-failed''
      | Some (asset, address) \<Rightarrow>
          let assetType = asset_type_of (na_strName asset) in
          if \<not> list_ex (\<lambda>out. CheckIssueBurnTx C P out assetType 1) (vout tx) then Inl ''bad-txns-issue-qualifier-burn-not-found''
          else if assetType = SUB_QUALIFIER \<and> \<not> transfers_asset C P tx (GetParentName (na_strName asset))
            then Inl ''bad-txns-issue-sub-qualifier-parent-outpoint-not-found''
          else case GetTxOutAssetTypes (vout tx) of (nIssues, nReissues, nTransfers, nOwners) \<Rightarrow>
            if nOwners \<noteq> 0 \<or> nIssues \<noteq> 1 \<or> nReissues > 0 then Inl ''bad-txns-failed-issue-asset-formatting-check''
            else Inr ())"

text \<open>The reasons of \<^verbatim>\<open>GetVerifierStringFromTx\<close> pass through \<open>verifier_tx_text\<close>.\<close>

fun verifier_tx_text :: "string option \<Rightarrow> string" where
  "verifier_tx_text None = ''Verifier string not found''"
| "verifier_tx_text (Some e) = e"

definition VerifyNewRestrictedAsset :: "crypto \<Rightarrow> chain_params \<Rightarrow> CTransaction \<Rightarrow> unit check" where
  "VerifyNewRestrictedAsset C P tx =
     (if length (vout tx) < 4 then Inl ''bad-txns-issue-restricted-vout-size-to-small''
      else if \<not> CheckIssueDataTx (last_out tx) then Inl ''bad-txns-issue-restricted-data-not-found''
      else case RestrictedAssetFromScript C P (scriptPubKey (last_out tx)) of
        None \<Rightarrow> Inl ''bad-txns-issue-restricted-serialization-failed''
      | Some (asset, address) \<Rightarrow>
          let assetType = asset_type_of (na_strName asset);
              strippedRoot = tl (GetParentName (na_strName asset)) @ OWNER_TAG in
          if \<not> list_ex (\<lambda>out. CheckIssueBurnTx C P out assetType 1) (vout tx) then Inl ''bad-txns-issue-restricted-burn-not-found''
          else if \<not> transfers_asset C P tx strippedRoot
            then Inl ''bad-txns-issue-restricted-root-owner-token-outpoint-not-found''
          else case GetVerifierStringFromTx tx of
            Inl e \<Rightarrow> Inl (verifier_tx_text e)
          | Inr verifier \<Rightarrow>
              (case GetTxOutAssetTypes (vout tx) of (nIssues, nReissues, nTransfers, nOwners) \<Rightarrow>
                 if nOwners \<noteq> 0 \<or> nIssues \<noteq> 1 \<or> nReissues > 0 then Inl ''bad-txns-failed-issue-asset-formatting-check''
                 else Inr ()))"

definition VerifyReissueAsset :: "crypto \<Rightarrow> chain_params \<Rightarrow> CTransaction \<Rightarrow> unit check" where
  "VerifyReissueAsset C P tx =
     (if length (vout tx) < 3 then Inl ''bad-txns-vout-size-to-small''
      else if \<not> CheckReissueDataTx (last_out tx) then Inl ''bad-txns-reissue-data-not-found''
      else case ReissueAssetFromScript C P (scriptPubKey (last_out tx)) of
        None \<Rightarrow> Inl ''bad-txns-reissue-serialization-failed''
      | Some (reissue, address) \<Rightarrow>
          let asset_name_to_check =
            (if asset_type_of (re_strName reissue) = RESTRICTED then tl (re_strName reissue) else re_strName reissue) in
          if \<not> transfers_asset C P tx (asset_name_to_check @ OWNER_TAG) then Inl ''bad-txns-reissue-owner-outpoint-not-found''
          else if \<not> list_ex (CheckReissueBurnTx C P) (vout tx) then Inl ''bad-txns-reissue-burn-outpoint-not-found''
          else case GetTxOutAssetTypes (vout tx) of (nIssues, nReissues, nTransfers, nOwners) \<Rightarrow>
            if nOwners > 0 \<or> nReissues \<noteq> 1 \<or> nIssues > 0 then Inl ''bad-txns-failed-reissue-asset-formatting-check''
            else Inr ())"

definition CheckAddingTagBurnFee :: "crypto \<Rightarrow> chain_params \<Rightarrow> CTransaction \<Rightarrow> nat \<Rightarrow> bool" where
  "CheckAddingTagBurnFee C P tx count \<longleftrightarrow> list_ex (\<lambda>out. CheckIssueBurnTx C P out NULL_ADD_QUALIFIER count) (vout tx)"

end
