(* ===== verification/Compressor.thy ===== *)
theory Compressor
  imports AssetTypes "HOL-Library.Monad_Syntax"
begin

text \<open>
  Coins, the unspent outputs (the class \<^verbatim>\<open>Coin\<close> of \<^verbatim>\<open>src/src/coins.h\<close>), the form in which they are kept on disk (\<^verbatim>\<open>src/src/compressor.h\<close>, \<^verbatim>\<open>compressor.cpp\<close>, the serialization of
  \<^verbatim>\<open>Coin\<close> in \<^verbatim>\<open>coins.h\<close>) and the undo records of a block (\<^verbatim>\<open>undo.h\<close>). Amounts are 64-bit words, so that the
  arithmetic of the amount compression wraps where the compiled code wraps.
\<close>

section \<open>Coins\<close>

record Coin =
  coin_out :: CTxOut
  coin_fCoinBase :: bool
  coin_nHeight :: nat

definition mk_Coin :: "CTxOut \<Rightarrow> nat \<Rightarrow> bool \<Rightarrow> Coin" where
  "mk_Coin txout nHeightIn fCoinBaseIn =
     \<lparr>coin_out = txout, coin_fCoinBase = fCoinBaseIn, coin_nHeight = nHeightIn mod 2 ^ 31\<rparr>"

definition coinEmpty :: Coin where
  "coinEmpty = \<lparr>coin_out = CTxOut_null, coin_fCoinBase = False, coin_nHeight = 0\<rparr>"

definition IsSpent :: "Coin \<Rightarrow> bool" where
  "IsSpent c \<longleftrightarrow> CTxOut_IsNull (coin_out c)"

section \<open>Amounts\<close>

function strip_zeros :: "u64 \<Rightarrow> nat \<Rightarrow> u64 \<times> nat" where
  "strip_zeros n e = (if n mod 10 = 0 \<and> e < 9 then strip_zeros (n div 10) (e + 1) else (n, e))"
  by pat_completeness auto
termination
  by (relation "measure (\<lambda>(n, e). 9 - e)") auto

text \<open>The value \<open>None\<close> of \<^verbatim>\<open>CompressAmount\<close> is its failed assertion on the digit \<open>d\<close>.\<close>

definition CompressAmount :: "u64 \<Rightarrow> u64 option" where
  "CompressAmount n =
     (if n = 0 then Some 0
      else case strip_zeros n 0 of (n, e) \<Rightarrow>
        if e < 9 then
          let d = n mod 10 in
          if 1 \<le> d \<and> d \<le> 9 then Some (1 + (n div 10 * 9 + d - 1) * 10 + of_nat e) else None
        else Some (1 + (n - 1) * 10 + 9))"

primrec times10 :: "nat \<Rightarrow> u64 \<Rightarrow> u64" where
  "times10 0 n = n"
| "times10 (Suc e) n = times10 e (n * 10)"

definition DecompressAmount :: "u64 \<Rightarrow> u64" where
  "DecompressAmount x =
     (if x = 0 then 0
      else
        let x1 = x - 1; e = unat (x1 mod 10); x2 = x1 div 10 in
        times10 e (if e < 9 then x2 div 9 * 10 + (x2 mod 9 + 1) else x2 + 1))"

section \<open>Scripts\<close>

text \<open>
  The parameter \<open>ec\<close> is \<^verbatim>\<open>secp256k1_ec_pubkey_parse\<close> followed by the uncompressed
  \<^verbatim>\<open>secp256k1_ec_pubkey_serialize\<close>: the 65-byte form of a key, or \<open>None\<close> if the bytes are not a point of the
  curve. The keys it is called on have a header byte that fits their length.
\<close>

type_synonym ec_keys = "bytes \<Rightarrow> bytes option"

definition nSpecialScripts :: nat where "nSpecialScripts = 6"

definition IsToKeyID :: "script \<Rightarrow> bytes option" where
  "IsToKeyID s =
     (if length s = 25 \<and> s ! 0 = OP_DUP \<and> s ! 1 = OP_HASH160 \<and> s ! 2 = 20 \<and> s ! 23 = OP_EQUALVERIFY \<and> s ! 24 = OP_CHECKSIG
      then Some (take 20 (drop 3 s)) else None)"

definition IsToScriptID :: "script \<Rightarrow> bytes option" where
  "IsToScriptID s =
     (if length s = 23 \<and> s ! 0 = OP_HASH160 \<and> s ! 1 = 20 \<and> s ! 22 = OP_EQUAL then Some (take 20 (drop 2 s)) else None)"

definition IsToPubKey :: "ec_keys \<Rightarrow> script \<Rightarrow> bytes option" where
  "IsToPubKey ec s =
     (if length s = 35 \<and> s ! 0 = 33 \<and> s ! 34 = OP_CHECKSIG \<and> (s ! 1 = 2 \<or> s ! 1 = 3) then Some (take 33 (drop 1 s))
      else if length s = 67 \<and> s ! 0 = 65 \<and> s ! 66 = OP_CHECKSIG \<and> s ! 1 = 4 then
        (if ec (take 65 (drop 1 s)) \<noteq> None then Some (take 65 (drop 1 s)) else None)
      else None)"

definition Compress :: "ec_keys \<Rightarrow> script \<Rightarrow> bytes option" where
  "Compress ec s =
     (case IsToKeyID s of Some keyID \<Rightarrow> Some (0 # keyID)
      | None \<Rightarrow> case IsToScriptID s of Some scriptID \<Rightarrow> Some (1 # scriptID)
      | None \<Rightarrow> case IsToPubKey ec s of
          Some pubkey \<Rightarrow>
            if pubkey ! 0 = 2 \<or> pubkey ! 0 = 3 then Some (pubkey ! 0 # take 32 (drop 1 pubkey))
            else if pubkey ! 0 = 4 then Some ((4 OR (pubkey ! 64 AND 1)) # take 32 (drop 1 pubkey))
            else None
        | None \<Rightarrow> None)"

definition GetSpecialSize :: "nat \<Rightarrow> nat" where
  "GetSpecialSize nSize = (if nSize = 0 \<or> nSize = 1 then 20 else if nSize \<in> {2, 3, 4, 5} then 32 else 0)"

text \<open>The result of \<^verbatim>\<open>Decompress\<close> is the script, or \<open>None\<close> where it returns false and leaves the script as it was.\<close>

definition Decompress :: "ec_keys \<Rightarrow> nat \<Rightarrow> bytes \<Rightarrow> ser_error + script option" where
  "Decompress ec nSize v =
     (if nSize = 0 then Inr (Some ([OP_DUP, OP_HASH160, 20] @ take 20 v @ [OP_EQUALVERIFY, OP_CHECKSIG]))
      else if nSize = 1 then Inr (Some ([OP_HASH160, 20] @ take 20 v @ [OP_EQUAL]))
      else if nSize = 2 \<or> nSize = 3 then Inr (Some ([33, of_nat nSize] @ take 32 v @ [OP_CHECKSIG]))
      else if nSize = 4 \<or> nSize = 5 then
        (case ec (of_nat (nSize - 2) # take 32 v) of
           None \<Rightarrow> Inr None
         | Some pubkey \<Rightarrow> if length pubkey \<noteq> 65 then Inl ReaderAssert else Inr (Some ([65] @ pubkey @ [OP_CHECKSIG])))
      else Inr None)"

definition Serialize_CScriptCompressor :: "ec_keys \<Rightarrow> script \<Rightarrow> bytes" where
  "Serialize_CScriptCompressor ec s =
     (case Compress ec s of
        Some compr \<Rightarrow> compr
      | None \<Rightarrow> WriteVarInt (length s + nSpecialScripts) @ s)"

text \<open>The script is read into \<open>old\<close>, the script the output object holds before; it is empty for a new object.\<close>

definition Unserialize_CScriptCompressor :: "ec_keys \<Rightarrow> script \<Rightarrow> script reader" where
  "Unserialize_CScriptCompressor ec old =
     rbind (ReadVarInt 32) (\<lambda>nSize.
       if nSize < nSpecialScripts then
         rbind (stream_read (GetSpecialSize nSize)) (\<lambda>vch.
           case Decompress ec nSize vch of
             Inl e \<Rightarrow> rfail e
           | Inr None \<Rightarrow> rret old
           | Inr (Some s) \<Rightarrow> rret s)
       else
         let nSize = nSize - nSpecialScripts in
         if nSize > MAX_SCRIPT_SIZE then rbind (stream_read nSize) (\<lambda>_. rret (old @ [OP_RETURN]))
         else stream_read nSize)"

section \<open>Outputs, coins and undo records\<close>

text \<open>
  The writers return \<open>None\<close> for a failed assertion and for an overflow of the \<^verbatim>\<open>int\<close> product \<open>nHeight * 2\<close>
  (a 31-bit field is promoted to \<^verbatim>\<open>int\<close>), whose behaviour the language does not define.
\<close>

definition Serialize_CTxOutCompressor :: "ec_keys \<Rightarrow> CTxOut \<Rightarrow> bytes option" where
  "Serialize_CTxOutCompressor ec txout =
     map_option (\<lambda>nVal. WriteVarInt (unat nVal) @ Serialize_CScriptCompressor ec (scriptPubKey txout))
       (CompressAmount (word_of_int (nValue txout)))"

definition Unserialize_CTxOutCompressor :: "ec_keys \<Rightarrow> CTxOut \<Rightarrow> CTxOut reader" where
  "Unserialize_CTxOutCompressor ec old =
     rbind (ReadVarInt 64) (\<lambda>nVal.
     rbind (Unserialize_CScriptCompressor ec (scriptPubKey old)) (\<lambda>s.
     rret (old\<lparr>nValue := sint (DecompressAmount (of_nat nVal)), scriptPubKey := s\<rparr>)))"

definition coin_code :: "Coin \<Rightarrow> nat option" where
  "coin_code coin =
     (if coin_nHeight coin * 2 < 2 ^ 31 then Some (coin_nHeight coin * 2 + (if coin_fCoinBase coin then 1 else 0)) else None)"

definition Serialize_Coin :: "ec_keys \<Rightarrow> Coin \<Rightarrow> bytes option" where
  "Serialize_Coin ec coin =
     (if IsSpent coin then None
      else do {
        code \<leftarrow> coin_code coin;
        out \<leftarrow> Serialize_CTxOutCompressor ec (coin_out coin);
        Some (WriteVarInt code @ out)
      })"

definition Unserialize_Coin :: "ec_keys \<Rightarrow> Coin reader" where
  "Unserialize_Coin ec =
     rbind (ReadVarInt 32) (\<lambda>code.
     rbind (Unserialize_CTxOutCompressor ec (coin_out coinEmpty)) (\<lambda>out.
     rret \<lparr>coin_out = out, coin_fCoinBase = odd code, coin_nHeight = code div 2\<rparr>))"

definition TxInUndo_Serialize :: "ec_keys \<Rightarrow> Coin \<Rightarrow> bytes option" where
  "TxInUndo_Serialize ec coin =
     do {
       code \<leftarrow> coin_code coin;
       out \<leftarrow> Serialize_CTxOutCompressor ec (coin_out coin);
       Some (WriteVarInt code @ (if coin_nHeight coin > 0 then ser_writedata8 0 else []) @ out)
     }"

definition TxInUndo_Unserialize :: "ec_keys \<Rightarrow> Coin reader" where
  "TxInUndo_Unserialize ec =
     rbind (ReadVarInt 32) (\<lambda>nCode.
     rbind (if nCode div 2 > 0 then rbind (ReadVarInt 31) (\<lambda>_. rret ()) else rret ()) (\<lambda>_.
     rbind (Unserialize_CTxOutCompressor ec (coin_out coinEmpty)) (\<lambda>out.
     rret \<lparr>coin_out = out, coin_fCoinBase = odd nCode, coin_nHeight = nCode div 2\<rparr>)))"

primrec write_all :: "('a \<Rightarrow> bytes option) \<Rightarrow> 'a list \<Rightarrow> bytes option" where
  "write_all ser [] = Some []"
| "write_all ser (x # xs) = do { b \<leftarrow> ser x; bs \<leftarrow> write_all ser xs; Some (b @ bs) }"

definition MAX_BLOCK_WEIGHT :: nat where "MAX_BLOCK_WEIGHT = 4000000"

text \<open>The limit of \<^verbatim>\<open>CTxUndo\<close>: the block weight over the weight of an empty input, 4 times 41 bytes; \<open>fAssets\<close> is \<^verbatim>\<open>fAssetsIsActive\<close>.\<close>

definition max_undo_records :: "bool \<Rightarrow> nat" where
  "max_undo_records fAssets = (if fAssets then 8000000 else MAX_BLOCK_WEIGHT) div (4 * 41)"

definition Serialize_CTxUndo :: "ec_keys \<Rightarrow> Coin list \<Rightarrow> bytes option" where
  "Serialize_CTxUndo ec vprevout =
     map_option (\<lambda>bs. WriteCompactSize (of_nat (length vprevout)) @ bs) (write_all (TxInUndo_Serialize ec) vprevout)"

definition Unserialize_CTxUndo :: "ec_keys \<Rightarrow> bool \<Rightarrow> Coin list reader" where
  "Unserialize_CTxUndo ec fAssets =
     rbind ReadCompactSize (\<lambda>count.
       if unat count > max_undo_records fAssets then rfail TooManyUndoRecords
       else read_many (TxInUndo_Unserialize ec) (unat count))"

definition Serialize_CBlockUndo :: "ec_keys \<Rightarrow> Coin list list \<Rightarrow> bytes option" where
  "Serialize_CBlockUndo ec vtxundo =
     map_option (\<lambda>bs. WriteCompactSize (of_nat (length vtxundo)) @ bs) (write_all (Serialize_CTxUndo ec) vtxundo)"

definition Unserialize_CBlockUndo :: "ec_keys \<Rightarrow> bool \<Rightarrow> Coin list list reader" where
  "Unserialize_CBlockUndo ec fAssets = Unserialize_vector (Unserialize_CTxUndo ec fAssets)"

section \<open>The amount compression\<close>

declare strip_zeros.simps [simp del]

lemma unat_u64_less: "unat (x :: u64) < 18446744073709551616"
  using unsigned_less [of x] by simp

lemma of_nat_unatI: "unat x = k \<Longrightarrow> (x :: u64) = of_nat k"
  using of_nat_unat [of x, where 'a = u64] by simp

lemma strip_zeros_spec:
  "strip_zeros n e = (m, e') \<Longrightarrow> e \<le> 9 \<Longrightarrow>
     e \<le> e' \<and> e' \<le> 9 \<and> unat n = unat m * 10 ^ (e' - e) \<and> (e' < 9 \<longrightarrow> unat m mod 10 \<noteq> 0)"
proof (induction n e rule: strip_zeros.induct)
  case (1 n e)
  have mod: "unat (n mod 10) = unat n mod 10" and "div": "unat (n div 10) = unat n div 10"
    by (simp_all add: unat_mod unat_div)
  show ?case
  proof (cases "n mod 10 = 0 \<and> e < 9")
    case True
    then have rec: "strip_zeros (n div 10) (e + 1) = (m, e')" using 1 by (simp add: strip_zeros.simps [of n e])
    have IH: "e + 1 \<le> e'" "e' \<le> 9" "unat (n div 10) = unat m * 10 ^ (e' - (e + 1))" "e' < 9 \<longrightarrow> unat m mod 10 \<noteq> 0"
      using 1(1) [OF True rec] True by auto
    have "unat n mod 10 = 0" using True mod by simp
    then have "unat n = 10 * (unat n div 10)" by presburger
    also have "\<dots> = unat m * (10 * 10 ^ (e' - (e + 1)))" using IH(3) "div" by simp
    also have "\<dots> = unat m * 10 ^ Suc (e' - (e + 1))" by simp
    also have "Suc (e' - (e + 1)) = e' - e" using IH(1) by simp
    finally show ?thesis using IH by simp
  next
    case False
    then have "n = m" "e = e'" using 1(2) by (auto simp: strip_zeros.simps [of n e])
    moreover have "e < 9 \<Longrightarrow> unat n mod 10 \<noteq> 0" using False mod by (metis unat_eq_zero)
    ultimately show ?thesis using 1(3) by simp
  qed
qed

lemma times10_of_nat: "times10 e (of_nat k) = of_nat (k * 10 ^ e)"
proof (induction e arbitrary: k)
  case (Suc e)
  have "times10 (Suc e) (of_nat k) = times10 e (of_nat (k * 10))" by simp
  also have "\<dots> = of_nat (k * 10 * 10 ^ e)" by (rule Suc)
  finally show ?case by (simp only: power_Suc mult.assoc)
qed simp

lemma times10_numeral: "times10 (numeral k) n = times10 (pred_numeral k) (n * 10)"
  by (simp add: numeral_eq_Suc)

text \<open>The compressed amount as a natural number, for the stripped amount \<open>m\<close> and its exponent \<open>e\<close>.\<close>

definition amount_code :: "nat \<Rightarrow> nat \<Rightarrow> nat" where
  "amount_code m e = (if e < 9 then 1 + (m div 10 * 9 + (m mod 10 - 1)) * 10 + e else 1 + (m - 1) * 10 + 9)"

lemma CompressAmount_code:
  assumes "n \<noteq> 0" and "strip_zeros n 0 = (m, e)"
  shows "CompressAmount n = Some (of_nat (amount_code (unat m) e))" and "unat n = unat m * 10 ^ e" and "e \<le> 9"
    and "0 < unat m" and "e < 9 \<Longrightarrow> unat m mod 10 \<noteq> 0"
proof -
  from strip_zeros_spec [OF assms(2)] show n: "unat n = unat m * 10 ^ e" and e: "e \<le> 9"
    and d: "e < 9 \<Longrightarrow> unat m mod 10 \<noteq> 0"
    by auto
  show m: "0 < unat m" using n assms(1) by (metis gr0I mult_0 unat_eq_zero)
  have mod: "m mod 10 = of_nat (unat m mod 10)" and "div": "m div 10 = of_nat (unat m div 10)"
    using of_nat_unat [of "m mod 10", where 'a = u64] of_nat_unat [of "m div 10", where 'a = u64] by (simp_all add: unat_mod unat_div)
  show "CompressAmount n = Some (of_nat (amount_code (unat m) e))"
  proof (cases "e < 9")
    case True
    with d have "Suc (unat m mod 10 - 1) = unat m mod 10" by simp
    then have sub: "(of_nat (unat m mod 10) :: u64) = 1 + of_nat (unat m mod 10 - Suc 0)" by (metis of_nat_Suc One_nat_def)
    have "unat (m mod 10) = unat m mod 10" by (simp add: unat_mod)
    then have "1 \<le> m mod 10" "m mod 10 \<le> 9" using d [OF True] by (simp_all add: word_le_nat_alt)
    moreover have "1 + (m div 10 * 9 + m mod 10 - 1) * 10 + of_nat e = (of_nat (amount_code (unat m) e) :: u64)"
      using True by (simp add: amount_code_def mod "div" sub)
    ultimately show ?thesis using assms True by (simp add: CompressAmount_def Let_def)
  next
    case False
    have "m - 1 = of_nat (unat m - 1)" using m by (simp add: of_nat_diff)
    then show ?thesis using assms False by (simp add: CompressAmount_def amount_code_def)
  qed
qed

text \<open>
  The amounts that the format carries: valid amounts that are at most 20,496,382,304.12172402 coins or a multiple of ten base
  units. The code of every other valid amount needs more than 64 bits.
\<close>

definition amount_kept :: "int \<Rightarrow> bool" where
  "amount_kept n \<longleftrightarrow> MoneyRange n \<and> (n \<le> 2049638230412172402 \<or> 10 dvd n)"

lemma amount_code_fits:
  assumes "0 < m" "e \<le> 9" "e < 9 \<Longrightarrow> m mod 10 \<noteq> 0" "m * 10 ^ e \<le> 2100000000000000000" "m * 10 ^ e \<le> 2049638230412172402 \<or> 0 < e"
  shows "amount_code m e < 2 ^ 64"
proof -
  define q r where "q = m div 10" and "r = m mod 10"
  have m: "m = 10 * q + r" "r < 10" by (simp_all add: q_def r_def)
  show ?thesis
  proof (cases "e = 0")
    case True
    with assms m have "10 * q + r \<le> 2049638230412172402" "0 < r" by (simp_all flip: r_def)
    then have "q \<le> 204963823041217239 \<or> q = 204963823041217240 \<and> r \<le> 2" by linarith
    then have "90 * q + 10 * r \<le> 18446744073709551620" using m(2) by linarith
    then show ?thesis using True \<open>0 < r\<close> by (simp add: amount_code_def flip: q_def r_def)
  next
    case False
    have "(10 :: nat) ^ 1 \<le> 10 ^ e" by (rule power_increasing) (use False in simp_all)
    then have "m * 10 \<le> m * 10 ^ e" by simp
    then have "m * 10 \<le> 2100000000000000000" using assms(4) by linarith
    moreover have "amount_code m e \<le> 10 * m + 10"
      using m assms(1-3) by (cases "e < 9") (simp_all add: amount_code_def flip: q_def r_def)
    ultimately show ?thesis by simp
  qed
qed

lemma DecompressAmount_code:
  assumes "0 < m" and "e \<le> 9" and "e < 9 \<Longrightarrow> m mod 10 \<noteq> 0" and "amount_code m e < 2 ^ 64"
  shows "DecompressAmount (of_nat (amount_code m e)) = of_nat (m * 10 ^ e)"
proof -
  define v where "v = amount_code m e - 1"
  have "0 < amount_code m e" by (simp add: amount_code_def)
  then have code: "amount_code m e = Suc v" by (simp add: v_def)
  have v: "unat (of_nat v :: u64) = v" "unat (of_nat (Suc v) :: u64) = Suc v"
    using assms(4) code by (simp_all add: unat_of_nat_small del: of_nat_Suc)
  then have nz: "(of_nat (Suc v) :: u64) \<noteq> 0" by (metis unat_0 nat.distinct(1))
  have ve: "v mod 10 = e"
    and vm: "(if e < 9 then v div 10 div 9 * 10 + (v div 10 mod 9 + 1) else v div 10 + 1) = m"
  proof -
    define w where "w = (if e < 9 then m div 10 * 9 + (m mod 10 - 1) else m - 1)"
    have "v = w * 10 + e" using assms(2) by (simp add: v_def amount_code_def w_def)
    then have v10: "v mod 10 = e" "v div 10 = w" using assms(2) by simp_all
    have small: "w div 9 * 10 + (w mod 9 + 1) = m" if "e < 9"
    proof -
      have "m mod 10 - 1 < 9" by simp
      then have "w div 9 = m div 10" "w mod 9 = m mod 10 - 1" using that by (simp_all add: w_def)
      then show ?thesis using assms(3) [OF that] by simp
    qed
    have "w + 1 = m" if "\<not> e < 9" using assms(1) that by (simp add: w_def)
    with small v10 show "v mod 10 = e" "(if e < 9 then v div 10 div 9 * 10 + (v div 10 mod 9 + 1) else v div 10 + 1) = m"
      by presburger+
  qed
  have x: "(of_nat (Suc v) :: u64) - 1 = of_nat v" by simp
  have "unat ((of_nat v :: u64) mod 10) = v mod 10" "unat ((of_nat v :: u64) div 10) = v div 10"
    using v by (simp_all add: unat_mod unat_div)
  moreover have "unat ((of_nat v :: u64) div 10 div 9) = v div 10 div 9" "unat ((of_nat v :: u64) div 10 mod 9) = v div 10 mod 9"
    using calculation(2) by (simp_all add: unat_mod unat_div)
  ultimately have words: "unat ((of_nat v :: u64) mod 10) = e" "(of_nat v :: u64) div 10 = of_nat (v div 10)"
    "(of_nat v :: u64) div 10 div 9 = of_nat (v div 10 div 9)" "(of_nat v :: u64) div 10 mod 9 = of_nat (v div 10 mod 9)"
    using ve by (auto intro: of_nat_unatI)
  have "(if e < 9 then (of_nat v :: u64) div 10 div 9 * 10 + ((of_nat v :: u64) div 10 mod 9 + 1) else (of_nat v :: u64) div 10 + 1)
      = of_nat (if e < 9 then v div 10 div 9 * 10 + (v div 10 mod 9 + 1) else v div 10 + 1)"
    by (simp only: words(3,4)) (simp add: words(2))
  then show ?thesis using nz code
    by (simp only: DecompressAmount_def Let_def x words(1) vm times10_of_nat if_False)
qed

lemma CompressAmount_total: "CompressAmount n \<noteq> None"
proof (cases "n = 0")
  case False
  obtain m e where "strip_zeros n 0 = (m, e)" by fastforce
  from CompressAmount_code(1) [OF False this] show ?thesis by simp
qed (simp add: CompressAmount_def)

lemma amount_roundtrip:
  assumes "unat n \<le> 2100000000000000000" "unat n \<le> 2049638230412172402 \<or> 10 dvd unat n" and "CompressAmount n = Some c"
  shows "DecompressAmount c = n"
proof (cases "n = 0")
  case True
  then show ?thesis using assms by (simp add: CompressAmount_def DecompressAmount_def)
next
  case False
  obtain m e where me: "strip_zeros n 0 = (m, e)" by fastforce
  note code = CompressAmount_code [OF False me]
  have "10 dvd unat n \<Longrightarrow> 0 < e" using code(2,5) by (cases e) auto
  then have "amount_code (unat m) e < 2 ^ 64" using code assms(1,2) by (intro amount_code_fits) auto
  then have "DecompressAmount (of_nat (amount_code (unat m) e)) = of_nat (unat m * 10 ^ e)"
    using DecompressAmount_code code by blast
  also have "\<dots> = n" using of_nat_unatI [OF code(2)] by simp
  finally show ?thesis using code(1) assms(3) by simp
qed

text \<open>
  The other amounts: the code wraps to the code of a smaller number with four zeros, and those zeros overflow in turn without
  ever giving the amount again.
\<close>

lemma wrapped_code:
  assumes "2049638230412172402 < n" "n mod 10 \<noteq> 0"
  shows "\<exists>m c. c \<in> {2049638230412172402, 2049638230412172403} \<and> n = m + c \<and> m mod 10 \<noteq> 0 \<and>
    amount_code n 0 = amount_code m 4 + 2 ^ 64"
proof -
  define q d where "q = n div 10" and "d = n mod 10"
  have n: "n = 10 * q + d" "d < 10" "0 < d" using assms(2) by (simp_all add: q_def d_def)
  have c: "amount_code (10 * x + y) e = 1 + (x * 9 + (y - 1)) * 10 + e" if "e < 9" "y < 10" for x y e
    using that by (simp add: amount_code_def)
  note n0 = c [of 0 d q, folded n(1)]
  show ?thesis
  proof (cases "d < 3")
    case True
    define x where "x = q - 204963823041217241"
    have q: "q = x + 204963823041217241" using True n(1) assms(1) by (simp add: x_def)
    have "amount_code n 0 = amount_code (10 * x + (d + 7)) 4 + 2 ^ 64" using n0 c [of 4 "d + 7" x] True n(2,3) q by simp
    moreover have "n = 10 * x + (d + 7) + 2049638230412172403" using n(1) q by simp
    moreover have "(10 * x + (d + 7)) mod 10 \<noteq> 0" using True n(3) by simp
    ultimately show ?thesis by blast
  next
    case False
    define x where "x = q - 204963823041217240"
    have q: "q = x + 204963823041217240" using n(1,2) assms(1) by (simp add: x_def)
    have "amount_code n 0 = amount_code (10 * x + (d - 2)) 4 + 2 ^ 64" using n0 c [of 4 "d - 2" x] False n(2,3) q by simp
    moreover have "n = 10 * x + (d - 2) + 2049638230412172402" using n(1) q False by simp
    moreover have "(10 * x + (d - 2)) mod 10 = (d - 2) mod 10" by (rule mod_mult_self4)
    then have "(10 * x + (d - 2)) mod 10 \<noteq> 0" using False n(2) by simp
    ultimately show ?thesis by blast
  qed
qed

lemma no_such_multiple:
  fixes m j k :: int
  assumes "9999 * m = k + 18446744073709551616 * j" "k \<in> {2049638230412172402, 2049638230412172403}" "0 \<le> j" "j < 28"
  shows False
proof -
  define y where "y = 2704 * m - 4988498447375800337 * j"
  have "9999 * y = 2704 * (9999 * m) - 49879995975310627569663 * j" by (simp add: y_def algebra_simps)
  then have "9999 * y = 2704 * k + j" unfolding assms(1) by (simp add: algebra_simps)
  then have "554277605263977815 < y" "y < 554277605263977816" using assms(2-4) by auto
  then show False by simp
qed

lemma wrapped_amount_differs:
  assumes "2049638230412172402 < n" "n \<le> 2100000000000000000" "\<not> 10 dvd n" and c: "CompressAmount (of_nat n) = Some code"
  shows "DecompressAmount code \<noteq> of_nat n"
proof
  assume same: "DecompressAmount code = of_nat n"
  have n: "unat (of_nat n :: u64) = n" using assms(2) by (simp add: unat_of_nat_small)
  obtain m0 e where me: "strip_zeros (of_nat n) 0 = (m0, e)" by fastforce
  have nz: "(of_nat n :: u64) \<noteq> 0" using n assms(1) by (metis not_less_zero unat_0)
  note cc = CompressAmount_code [OF nz me]
  have "e = 0" using cc(2) n assms(3) by (cases e) auto
  then have code: "code = of_nat (amount_code n 0)" using cc(1,2) c n by simp
  have "n mod 10 \<noteq> 0" using assms(3) by (simp add: mod_eq_0_iff_dvd)
  from wrapped_code [OF assms(1) this] obtain m k where
    m: "k \<in> {2049638230412172402, 2049638230412172403}" "n = m + k" "m mod 10 \<noteq> 0" "amount_code n 0 = amount_code m 4 + 2 ^ 64" by blast
  have pos: "0 < m" using m(3) by (cases m) simp_all
  have small: "m \<le> 50361769587827598" using m(1,2) assms(2) by auto
  define q r where "q = m div 10" and "r = m mod 10"
  have "10 * q \<le> m" "r < 10" by (simp_all add: q_def r_def)
  then have "amount_code m 4 \<le> 10 * m + 100" by (simp add: amount_code_def flip: q_def r_def)
  then have "amount_code m 4 < 2 ^ 64" using small by simp
  from DecompressAmount_code [OF pos _ _ this] m(3) have "DecompressAmount (of_nat (amount_code m 4)) = of_nat (m * 10 ^ 4)" by simp
  moreover have "code = of_nat (amount_code m 4)" by (simp add: code m(4))
  ultimately have "(of_nat n :: u64) = of_nat (m * 10000)" using same by simp
  then have "unat (of_nat n :: u64) = unat (of_nat (m * 10000) :: u64)" by (simp only:)
  then have red: "n = m * 10000 mod 18446744073709551616" unfolding n by (simp only: unat_of_nat) (simp add: take_bit_eq_mod)
  define j where "j = m * 10000 div 18446744073709551616"
  have "m * 10000 = n + 18446744073709551616 * j" unfolding red j_def by (rule mod_mult_div_eq [symmetric])
  then have eq: "9999 * m = k + 18446744073709551616 * j" using m(2) by linarith
  have "j < 28" using small by (simp add: j_def)
  with eq m(1) show False by (intro no_such_multiple [of "int m" "int k" "int j"]) auto
qed

section \<open>Codecs of scripts, coins and undo records\<close>

text \<open>
  What the curve library promises: an uncompressed key that it accepts is what it returns for the compressed
  form of the key, the parity of the second coordinate and the first coordinate.
\<close>

definition ec_law :: "ec_keys \<Rightarrow> bool" where
  "ec_law ec \<longleftrightarrow>
     (\<forall>v. length v = 65 \<and> v ! 0 = 4 \<and> ec v \<noteq> None \<longrightarrow> ec ((2 + (v ! 64 AND 1)) # take 32 (drop 1 v)) = Some v)"

lemma split_middle:
  assumes "length s = k + n + j"
  shows "s = map ((!) s) [0..<k] @ take n (drop k s) @ map ((!) s) [k + n..<k + n + j]"
  by (rule nth_equalityI) (use assms in \<open>auto simp: nth_append\<close>)

lemma ReadVarInt_small: "unat b < 6 \<Longrightarrow> ReadVarInt 32 (b # bs) = Inr (unat b, bs)"
  by (simp add: ReadVarInt_def byte_low7 byte_high)

lemma read_short:
  assumes "GetSpecialSize (unat b) = length v" "unat b < 6" and "Decompress ec (unat b) v = Inr (Some s)"
  shows "Unserialize_CScriptCompressor ec old ((b # v) @ rest) = Inr (s, rest)"
  using assms by (simp add: Unserialize_CScriptCompressor_def rbind_def ReadVarInt_small nSpecialScripts_def rret_def)

lemma key_id_roundtrip:
  assumes "IsToKeyID s = Some h"
  shows "Unserialize_CScriptCompressor ec old ((0 # h) @ rest) = Inr (s, rest)"
proof (rule read_short)
  have "length s = 3 + 20 + 2" using assms by (simp add: IsToKeyID_def split: if_splits)
  from split_middle [OF this] assms show "Decompress ec (unat (0 :: byte)) h = Inr (Some s)"
    by (auto simp: IsToKeyID_def Decompress_def numeral_eq_Suc split: if_splits)
qed (use assms in \<open>auto simp: IsToKeyID_def GetSpecialSize_def split: if_splits\<close>)

lemma script_id_roundtrip:
  assumes "IsToScriptID s = Some h"
  shows "Unserialize_CScriptCompressor ec old ((1 # h) @ rest) = Inr (s, rest)"
proof (rule read_short)
  have "length s = 2 + 20 + 1" using assms by (simp add: IsToScriptID_def split: if_splits)
  from split_middle [OF this] assms show "Decompress ec (unat (1 :: byte)) h = Inr (Some s)"
    by (auto simp: IsToScriptID_def Decompress_def numeral_eq_Suc split: if_splits)
qed (use assms in \<open>auto simp: IsToScriptID_def GetSpecialSize_def split: if_splits\<close>)

lemma short_key_roundtrip:
  assumes "length s = 35" "s ! 0 = 33" "s ! 34 = OP_CHECKSIG" and b: "s ! 1 = 2 \<or> s ! 1 = 3"
  shows "Unserialize_CScriptCompressor ec old ((s ! 1 # take 32 (drop 2 s)) @ rest) = Inr (s, rest)"
proof (rule read_short)
  have "length s = 2 + 32 + 1" using assms by simp
  from split_middle [OF this] assms have "s = [33, s ! 1] @ take 32 (drop 2 s) @ [OP_CHECKSIG]"
    by (simp add: numeral_eq_Suc)
  then show "Decompress ec (unat (s ! 1)) (take 32 (drop 2 s)) = Inr (Some s)"
    using b by (auto simp: Decompress_def)
qed (use assms in \<open>auto simp: GetSpecialSize_def\<close>)

lemma parity_header: "unat (4 OR (b AND 1) :: byte) = 4 + unat (b AND 1)" "unat (b AND 1 :: byte) \<le> 1"
proof -
  have "b AND 1 = 0 \<or> b AND 1 = 1" by (cases "odd b") (simp_all add: and_one_eq odd_iff_mod_2_eq_one even_iff_mod_2_eq_zero)
  then show "unat (4 OR (b AND 1)) = 4 + unat (b AND 1)" "unat (b AND 1) \<le> 1" by auto
qed

lemma long_key_roundtrip:
  assumes "ec_law ec" "length s = 67" "s ! 0 = 65" "s ! 66 = OP_CHECKSIG" "s ! 1 = 4" "ec (take 65 (drop 1 s)) \<noteq> None"
  shows "Unserialize_CScriptCompressor ec old (((4 OR (s ! 65 AND 1)) # take 32 (drop 2 s)) @ rest) = Inr (s, rest)"
proof (rule read_short)
  define v where "v = take 65 (drop 1 s)"
  have "length s = 1 + 65 + 1" using assms by simp
  from split_middle [OF this] assms have s: "s = [65] @ v @ [OP_CHECKSIG]" by (simp add: v_def)
  have v: "length v = 65" "v ! 0 = 4" "v ! 64 = s ! 65" "take 32 (drop 1 v) = take 32 (drop 2 s)"
    using assms by (simp_all add: v_def drop_take numeral_2_eq_2)
  have "ec ((2 + (v ! 64 AND 1)) # take 32 (drop 1 v)) = Some v"
    using assms v unfolding ec_law_def v_def [symmetric] by blast
  moreover have "(of_nat (unat (4 OR (s ! 65 AND 1)) - 2) :: byte) = 2 + (s ! 65 AND 1)"
    using parity_header [of "s ! 65"] by (simp add: of_nat_diff)
  ultimately show "Decompress ec (unat (4 OR (s ! 65 AND 1))) (take 32 (drop 2 s)) = Inr (Some s)"
    using s v parity_header [of "s ! 65"] by (auto simp: Decompress_def)
next
  show "GetSpecialSize (unat (4 OR (s ! 65 AND 1))) = length (take 32 (drop 2 s))" "unat (4 OR (s ! 65 AND 1)) < 6"
    using assms parity_header [of "s ! 65"] by (auto simp: GetSpecialSize_def)
qed

lemma raw_script_roundtrip:
  assumes "length s \<le> MAX_SCRIPT_SIZE"
  shows "Unserialize_CScriptCompressor ec old ((WriteVarInt (length s + nSpecialScripts) @ s) @ rest) = Inr (s, rest)"
proof -
  have "length s + nSpecialScripts < 2 ^ 32" using assms by (simp add: MAX_SCRIPT_SIZE_def nSpecialScripts_def)
  from varint32.unser_ser [OF this] show ?thesis
    using assms by (simp add: Unserialize_CScriptCompressor_def rbind_def)
qed

lemma script_roundtrip:
  assumes "ec_law ec" and "length s \<le> MAX_SCRIPT_SIZE"
  shows "Unserialize_CScriptCompressor ec old (Serialize_CScriptCompressor ec s @ rest) = Inr (s, rest)"
proof (cases "Compress ec s")
  case None
  then show ?thesis using raw_script_roundtrip [OF assms(2)] by (simp add: Serialize_CScriptCompressor_def)
next
  case (Some compr)
  then have "Unserialize_CScriptCompressor ec old (compr @ rest) = Inr (s, rest)"
    using key_id_roundtrip [of s] script_id_roundtrip [of s] short_key_roundtrip [of s] long_key_roundtrip [OF assms(1), of s]
    by (auto simp: Compress_def IsToPubKey_def drop_take numeral_2_eq_2 split: option.splits if_splits)
  then show ?thesis using Some by (simp add: Serialize_CScriptCompressor_def)
qed

text \<open>
  A coin that the disk format carries: an amount whose compressed form does not overflow, a script of at most
  \<^verbatim>\<open>MAX_SCRIPT_SIZE\<close> bytes, a height below \<open>2 ^ 30\<close>, and no rounds, which the format leaves out.
\<close>

definition storable :: "Coin \<Rightarrow> bool" where
  "storable coin \<longleftrightarrow>
     amount_kept (nValue (coin_out coin)) \<and> nRounds (coin_out coin) = -10 \<and>
     length (scriptPubKey (coin_out coin)) \<le> MAX_SCRIPT_SIZE \<and> coin_nHeight coin < 2 ^ 30"

text \<open>What an amount is read back as.\<close>

definition amount_reread :: "int \<Rightarrow> int" where
  "amount_reread n = sint (DecompressAmount (case CompressAmount (word_of_int n) of Some c \<Rightarrow> c | None \<Rightarrow> 0))"

lemma amount_reread_kept:
  assumes "MoneyRange n"
  shows "amount_reread n = n \<longleftrightarrow> n \<le> 2049638230412172402 \<or> 10 dvd n"
proof -
  define k where "k = nat n"
  have n: "n = int k" "k \<le> 2100000000000000000" using assms by (auto simp: k_def MoneyRange_def MAX_MONEY_def COIN_def)
  let ?w = "of_nat k :: u64"
  have w: "word_of_int n = ?w" "unat ?w = k" using n by (simp_all add: unat_of_nat_small)
  have "sint (word_of_int n :: u64) = n" using assms
    by (simp add: sint_sbintrunc' signed_take_bit_int_eq_self MoneyRange_def MAX_MONEY_def COIN_def)
  then have s: "sint ?w = n" by (simp only: w(1))
  obtain c where c: "CompressAmount ?w = Some c" using CompressAmount_total by fastforce
  have r: "amount_reread n = sint (DecompressAmount c)" by (simp add: amount_reread_def w(1) c)
  have d: "10 dvd n \<longleftrightarrow> 10 dvd k" using n(1) int_dvd_int_iff [of 10 k] by simp
  show ?thesis
  proof (cases "n \<le> 2049638230412172402 \<or> 10 dvd n")
    case True
    then have "DecompressAmount c = ?w" using d n w(2) by (intro amount_roundtrip [OF _ _ c]) auto
    then show ?thesis using True r s by simp
  next
    case False
    then have "DecompressAmount c \<noteq> ?w" using d n by (intro wrapped_amount_differs [OF _ _ _ c]) auto
    then show ?thesis using False r s by (metis signed_word_eqI)
  qed
qed

lemma txout_written:
  assumes "Serialize_CTxOutCompressor ec out = Some bs"
  shows "Unserialize_CTxOutCompressor ec CTxOut_null (bs @ rest) =
    rbind (Unserialize_CScriptCompressor ec []) (\<lambda>s. rret \<lparr>nValue = amount_reread (nValue out), scriptPubKey = s, nRounds = -10\<rparr>)
      (Serialize_CScriptCompressor ec (scriptPubKey out) @ rest)"
proof -
  obtain nVal where c: "CompressAmount (word_of_int (nValue out)) = Some nVal"
    and bs: "bs = WriteVarInt (unat nVal) @ Serialize_CScriptCompressor ec (scriptPubKey out)"
    using assms by (auto simp: Serialize_CTxOutCompressor_def)
  have "unat nVal < 2 ^ 64" using unat_u64_less [of nVal] by simp
  then show ?thesis by (simp add: Unserialize_CTxOutCompressor_def bs varint64.rbind_ser CTxOut_null_def amount_reread_def c)
qed

lemma txout_roundtrip:
  assumes "ec_law ec" and "nRounds out = -10" "length (scriptPubKey out) \<le> MAX_SCRIPT_SIZE"
    and "Serialize_CTxOutCompressor ec out = Some bs"
  shows "Unserialize_CTxOutCompressor ec CTxOut_null (bs @ rest) = Inr (out\<lparr>nValue := amount_reread (nValue out)\<rparr>, rest)"
  using script_roundtrip [OF assms(1,3)] assms(2) by (simp add: txout_written [OF assms(4)] rbind_def rret_def)

lemma coin_code_roundtrip:
  assumes "coin_code coin = Some code"
  shows "code < 2 ^ 31" "odd code = coin_fCoinBase coin" "code div 2 = coin_nHeight coin"
  using assms by (auto simp: coin_code_def split: if_splits)

lemma Serialize_Coin_total: "storable coin \<Longrightarrow> \<exists>bs. TxInUndo_Serialize ec coin = Some bs"
  using CompressAmount_total [of "word_of_int (nValue (coin_out coin))"]
  by (auto simp: TxInUndo_Serialize_def storable_def coin_code_def Serialize_CTxOutCompressor_def)

lemma amount_kept_reread: "amount_kept n \<Longrightarrow> amount_reread n = n"
  by (simp add: amount_kept_def amount_reread_kept)

lemma coin_written:
  assumes "ec_law ec" "nRounds (coin_out coin) = -10" "length (scriptPubKey (coin_out coin)) \<le> MAX_SCRIPT_SIZE" "Serialize_Coin ec coin = Some bs"
  shows "Unserialize_Coin ec (bs @ rest) = Inr (coin\<lparr>coin_out := (coin_out coin)\<lparr>nValue := amount_reread (nValue (coin_out coin))\<rparr>\<rparr>, rest)"
proof -
  obtain code out where c: "coin_code coin = Some code" and out: "Serialize_CTxOutCompressor ec (coin_out coin) = Some out"
    and bs: "bs = WriteVarInt code @ out"
    using assms(4) by (auto simp: Serialize_Coin_def split: if_splits Option.bind_splits)
  show ?thesis
    using coin_code_roundtrip [OF c] varint32.unser_ser [of code] txout_roundtrip [OF assms(1-3) out]
    by (simp add: Unserialize_Coin_def bs rbind_def rret_def coinEmpty_def)
qed

lemma coin_roundtrip:
  assumes "ec_law ec" "storable coin" "Serialize_Coin ec coin = Some bs"
  shows "Unserialize_Coin ec (bs @ rest) = Inr (coin, rest)"
  using coin_written [OF assms(1) _ _ assms(3), of rest] assms(2) by (simp add: storable_def amount_kept_reread)

lemma coin_written_amount:
  assumes "Serialize_Coin ec coin = Some bs" "Unserialize_Coin ec bs = Inr (coin', rest)"
  shows "nValue (coin_out coin') = amount_reread (nValue (coin_out coin))"
proof -
  obtain code out where c: "coin_code coin = Some code" and out: "Serialize_CTxOutCompressor ec (coin_out coin) = Some out"
    and bs: "bs = WriteVarInt code @ out"
    using assms(1) by (auto simp: Serialize_Coin_def split: if_splits Option.bind_splits)
  have "code < 2 ^ 32" using coin_code_roundtrip(1) [OF c] by simp
  from varint32.unser_ser [OF this, of out] assms(2) txout_written [OF out, of "[]"] show ?thesis
    by (auto simp: Unserialize_Coin_def bs coinEmpty_def rbind_def rret_def split: sum.splits)
qed

lemma undo_roundtrip:
  assumes "ec_law ec" "storable coin" "TxInUndo_Serialize ec coin = Some bs"
  shows "TxInUndo_Unserialize ec (bs @ rest) = Inr (coin, rest)"
proof -
  obtain code out where c: "coin_code coin = Some code" and out: "Serialize_CTxOutCompressor ec (coin_out coin) = Some out"
    and bs: "bs = WriteVarInt code @ (if coin_nHeight coin > 0 then [0] else []) @ out"
    using assms(3) by (auto simp: TxInUndo_Serialize_def ser_writedata8_def split: if_splits Option.bind_splits)
  have "Unserialize_CTxOutCompressor ec CTxOut_null (out @ rest) = Inr (coin_out coin, rest)"
    using txout_roundtrip [OF assms(1) _ _ out] assms(2) by (simp add: storable_def amount_kept_reread)
  moreover have "ReadVarInt 31 (0 # out @ rest) = Inr (0, out @ rest)"
    by (simp add: ReadVarInt_def byte_low7 byte_high)
  ultimately show ?thesis
    using coin_code_roundtrip [OF c] varint32.unser_ser [of code]
    by (simp add: TxInUndo_Unserialize_def bs rbind_def rret_def coinEmpty_def)
qed

text \<open>
  The writers above are partial, which gives a second contract: a valid value is written, and what is written is
  read back. A counted list of such values keeps the contract.
\<close>

locale partial_serializer =
  fixes ser :: "'a \<Rightarrow> bytes option"
    and unser :: "'a reader"
    and valid :: "'a \<Rightarrow> bool"
  assumes carries: "valid x \<Longrightarrow> \<exists>bs. ser x = Some bs \<and> (\<forall>rest. unser (bs @ rest) = Inr (x, rest))"
begin

lemma write_all_carries:
  "list_all valid xs \<Longrightarrow> \<exists>bs. write_all ser xs = Some bs \<and> (\<forall>rest. read_many unser (length xs) (bs @ rest) = Inr (xs, rest))"
proof (induction xs)
  case (Cons x xs)
  then obtain b bs where "ser x = Some b" "\<And>rest. unser (b @ rest) = Inr (x, rest)"
    and "write_all ser xs = Some bs" "\<And>rest. read_many unser (length xs) (bs @ rest) = Inr (xs, rest)"
    using carries [of x] by auto
  then show ?case by (simp add: rbind_def rret_def)
qed simp

end

interpretation coin_record: partial_serializer "Serialize_Coin ec" "Unserialize_Coin ec" "\<lambda>c. ec_law ec \<and> storable c \<and> \<not> IsSpent c" for ec
proof
  fix x assume "ec_law ec \<and> storable x \<and> \<not> IsSpent x"
  moreover from this obtain bs where "Serialize_Coin ec x = Some bs"
    using CompressAmount_total [of "word_of_int (nValue (coin_out x))"]
    by (auto simp: Serialize_Coin_def storable_def coin_code_def Serialize_CTxOutCompressor_def)
  ultimately show "\<exists>bs. Serialize_Coin ec x = Some bs \<and> (\<forall>rest. Unserialize_Coin ec (bs @ rest) = Inr (x, rest))"
    using coin_roundtrip by blast
qed

interpretation txin_undo: partial_serializer "TxInUndo_Serialize ec" "TxInUndo_Unserialize ec" "\<lambda>c. ec_law ec \<and> storable c" for ec
  by standard (use Serialize_Coin_total undo_roundtrip in blast)

interpretation tx_undo: partial_serializer "Serialize_CTxUndo ec" "Unserialize_CTxUndo ec fAssets"
  "\<lambda>v. ec_law ec \<and> list_all storable v \<and> length v \<le> max_undo_records fAssets" for ec fAssets
proof
  fix v assume v: "ec_law ec \<and> list_all storable v \<and> length v \<le> max_undo_records fAssets"
  then have "list_all (\<lambda>c. ec_law ec \<and> storable c) v" by (simp add: list_all_iff)
  moreover have "length v \<le> MAX_SIZE"
    using v by (auto simp: max_undo_records_def MAX_SIZE_def MAX_BLOCK_WEIGHT_def split: if_splits)
  ultimately show "\<exists>bs. Serialize_CTxUndo ec v = Some bs \<and> (\<forall>rest. Unserialize_CTxUndo ec fAssets (bs @ rest) = Inr (v, rest))"
    using txin_undo.write_all_carries [of ec v] v
    by (auto simp: Serialize_CTxUndo_def Unserialize_CTxUndo_def csize.rbind_ser unat_size)
qed

interpretation block_undo: partial_serializer "Serialize_CBlockUndo ec" "Unserialize_CBlockUndo ec fAssets"
  "\<lambda>u. ec_law ec \<and> (\<forall>v \<in> set u. list_all storable v \<and> length v \<le> max_undo_records fAssets) \<and> length u \<le> MAX_SIZE" for ec fAssets
proof
  fix u assume u: "ec_law ec \<and> (\<forall>v \<in> set u. list_all storable v \<and> length v \<le> max_undo_records fAssets) \<and> length u \<le> MAX_SIZE"
  then have "list_all (\<lambda>v. ec_law ec \<and> list_all storable v \<and> length v \<le> max_undo_records fAssets) u" by (simp add: list_all_iff)
  from tx_undo.write_all_carries [OF this] u
  show "\<exists>bs. Serialize_CBlockUndo ec u = Some bs \<and> (\<forall>rest. Unserialize_CBlockUndo ec fAssets (bs @ rest) = Inr (u, rest))"
    by (auto simp: Serialize_CBlockUndo_def Unserialize_CBlockUndo_def Unserialize_vector_def csize.rbind_ser unat_size)
qed

section \<open>Properties\<close>

text \<open>
  C17. A coin written to the database is the coin read back: for every unspent coin with a valid amount that is
  at most 2,049,638,230,412,172,402 base units or a multiple of ten, the default number of rounds, a script of at most 10000 bytes and a
  height below \<open>2 ^ 30\<close>, the writer fails no assertion and the reader
  returns the coin and leaves the bytes that follow, whichever of the compressed forms the script takes.
\<close>

theorem disk_coin_roundtrip:
  assumes "ec_law ec" and "storable coin" and "\<not> IsSpent coin"
  shows "\<exists>bs. Serialize_Coin ec coin = Some bs \<and> (\<forall>rest. Unserialize_Coin ec (bs @ rest) = Inr (coin, rest))"
  by (rule coin_record.carries) (use assms in blast)

text \<open>A curve library whose points are the keys with second coordinate zero.\<close>

definition ex_keys :: ec_keys where
  "ex_keys v =
     (if length v = 65 \<and> v ! 0 = 4 \<and> drop 33 v = replicate 32 0 then Some v
      else if length v = 33 \<and> v ! 0 = 2 then Some (4 # drop 1 v @ replicate 32 0) else None)"

lemma ex_keys_law: "ec_law ex_keys"
  unfolding ec_law_def
proof (intro allI impI)
  fix v :: bytes assume v: "length v = 65 \<and> v ! 0 = 4 \<and> ex_keys v \<noteq> None"
  then have z: "drop 33 v = replicate 32 0" by (simp add: ex_keys_def split: if_splits)
  have "v ! 64 = drop 33 v ! 31" using v by simp
  then have "v ! 64 = 0" using z by simp
  moreover have "v = 4 # take 32 (drop 1 v) @ drop 33 v"
    using v by (cases v) (simp_all add: numeral_eq_Suc)
  ultimately show "ex_keys ((2 + (v ! 64 AND 1)) # take 32 (drop 1 v)) = Some v"
    using v z by (simp add: ex_keys_def)
qed

definition ex_key_coin :: Coin where
  "ex_key_coin = \<lparr>coin_out = \<lparr>nValue = 500000000000, scriptPubKey = [65, 4] @ replicate 32 7 @ replicate 32 0 @ [OP_CHECKSIG], nRounds = -10\<rparr>,
     coin_fCoinBase = True, coin_nHeight = 9\<rparr>"

theorem disk_coin_roundtrip_witness:
  "ec_law ex_keys \<and> storable ex_key_coin \<and> \<not> IsSpent ex_key_coin \<and>
   (\<exists>bs. Serialize_Coin ex_keys ex_key_coin = Some bs \<and> (\<forall>rest. Unserialize_Coin ex_keys (bs @ rest) = Inr (ex_key_coin, rest)))"
proof -
  have "storable ex_key_coin" "\<not> IsSpent ex_key_coin"
    by (simp_all add: storable_def amount_kept_def MoneyRange_def MAX_MONEY_def COIN_def ex_key_coin_def MAX_SCRIPT_SIZE_def IsSpent_def CTxOut_IsNull_def)
  then show ?thesis using disk_coin_roundtrip [OF ex_keys_law] ex_keys_law by blast
qed

text \<open>
  The undo record of a block is read back as it was written, for every number of transactions within the limits of the reader, each
  with at most as many spent coins as a block has room for inputs, all within the bounds of the format.
\<close>

theorem block_undo_roundtrip:
  assumes "ec_law ec" and "\<forall>v \<in> set u. list_all storable v \<and> length v \<le> max_undo_records fAssets" and "length u \<le> MAX_SIZE"
  shows "\<exists>bs. Serialize_CBlockUndo ec u = Some bs \<and> (\<forall>rest. Unserialize_CBlockUndo ec fAssets (bs @ rest) = Inr (u, rest))"
  by (rule block_undo.carries) (use assms in blast)

theorem block_undo_roundtrip_witness:
  "\<exists>bs. Serialize_CBlockUndo ex_keys [[ex_key_coin], []] = Some bs \<and>
     (\<forall>rest. Unserialize_CBlockUndo ex_keys True (bs @ rest) = Inr ([[ex_key_coin], []], rest))"
proof (rule block_undo_roundtrip [OF ex_keys_law])
  show "\<forall>v \<in> set [[ex_key_coin], []]. list_all storable v \<and> length v \<le> max_undo_records True"
    by (simp add: storable_def amount_kept_def MoneyRange_def MAX_MONEY_def COIN_def ex_key_coin_def MAX_SCRIPT_SIZE_def max_undo_records_def)
qed (simp add: MAX_SIZE_def)

text \<open>
  C39. Which amounts survive on disk. The arithmetic of \<^verbatim>\<open>CompressAmount\<close> wraps at 64 bits, while \<^verbatim>\<open>MAX_MONEY\<close> is \<open>2.1 \<cdot> 10 ^ 18\<close>
  base units. A coin with a valid amount, the default number of rounds, a script of at most 10000 bytes and a height below
  \<open>2 ^ 30\<close> is always written and read back without an error. It is read back with its own amount exactly when that amount is at most
  2,049,638,230,412,172,402 base units or a multiple of ten; any other amount silently becomes a different one, and nothing else
  of the coin changes.
\<close>

theorem large_amount_misread:
  assumes "ec_law ec" "\<not> IsSpent coin" "MoneyRange (nValue (coin_out coin))" "nRounds (coin_out coin) = -10"
    and "length (scriptPubKey (coin_out coin)) \<le> MAX_SCRIPT_SIZE" "coin_nHeight coin < 2 ^ 30"
  shows "\<exists>bs n. Serialize_Coin ec coin = Some bs \<and> Unserialize_Coin ec bs = Inr (coin\<lparr>coin_out := (coin_out coin)\<lparr>nValue := n\<rparr>\<rparr>, []) \<and>
    (n = nValue (coin_out coin) \<longleftrightarrow> nValue (coin_out coin) \<le> 2049638230412172402 \<or> 10 dvd nValue (coin_out coin))"
proof -
  obtain bs where bs: "Serialize_Coin ec coin = Some bs"
    using CompressAmount_total [of "word_of_int (nValue (coin_out coin))"] assms(2,6)
    by (auto simp: Serialize_Coin_def coin_code_def Serialize_CTxOutCompressor_def)
  with coin_written [OF assms(1,4,5) bs, of "[]"] amount_reread_kept [OF assms(3)] show ?thesis by auto
qed

definition ex_rich :: "int \<Rightarrow> Coin" where
  "ex_rich n = \<lparr>coin_out = \<lparr>nValue = n, scriptPubKey = [OP_1], nRounds = -10\<rparr>, coin_fCoinBase = False, coin_nHeight = 1\<rparr>"

text \<open>One base unit more than the bound is read back as 10000 units, and there are amounts that grow.\<close>

lemma wrapped_amounts: "amount_reread 2049638230412172403 = 10000" "amount_reread 2049844230412172406 = 2060000000000040000"
proof -
  have "strip_zeros 2049638230412172403 0 = (2049638230412172403, 0)" "strip_zeros 2049844230412172406 0 = (2049844230412172406, 0)"
    by (simp_all add: strip_zeros.simps)
  then have c: "CompressAmount 2049638230412172403 = Some 5" "CompressAmount 2049844230412172406 = Some 1854000000000035"
    by (simp_all add: CompressAmount_def)
  have "DecompressAmount 5 = 10000" "DecompressAmount 1854000000000035 = 2060000000000040000"
    by (simp_all add: DecompressAmount_def times10_numeral)
  with c show "amount_reread 2049638230412172403 = 10000" "amount_reread 2049844230412172406 = 2060000000000040000"
    by (simp_all add: amount_reread_def)
qed

theorem large_amount_misread_witness:
  "\<exists>bs. Serialize_Coin ex_keys (ex_rich 2049844230412172406) = Some bs \<and>
     Unserialize_Coin ex_keys bs = Inr (ex_rich 2060000000000040000, []) \<and> ex_rich 2060000000000040000 \<noteq> ex_rich 2049844230412172406"
proof -
  let ?c = "ex_rich 2049844230412172406"
  have "\<not> IsSpent ?c" "MoneyRange (nValue (coin_out ?c))"
    by (simp_all add: ex_rich_def IsSpent_def CTxOut_IsNull_def MoneyRange_def MAX_MONEY_def COIN_def)
  from large_amount_misread [OF ex_keys_law this] obtain bs n where
    bs: "Serialize_Coin ex_keys ?c = Some bs" "Unserialize_Coin ex_keys bs = Inr (ex_rich n, [])" "n \<noteq> 2049844230412172406"
    by (auto simp: ex_rich_def MAX_SCRIPT_SIZE_def)
  moreover from coin_written [OF ex_keys_law _ _ bs(1), of "[]"] bs(2) have "n = 2060000000000040000"
    by (simp add: ex_rich_def wrapped_amounts MAX_SCRIPT_SIZE_def)
  ultimately show ?thesis by (auto simp: ex_rich_def)
qed

end
