(* ===== verification/Coins.thy ===== *)
theory Coins
  imports Compressor "HOL-Library.AList"
begin

text \<open>
  The set of unspent outputs (\<^verbatim>\<open>src/src/coins.h\<close>, \<^verbatim>\<open>coins.cpp\<close>, and the database view of
  \<^verbatim>\<open>txdb.cpp\<close>). A view is a database or a cache on another view; reads fill the caches on the way, so
  every method returns the view it leaves behind. The hash map \<^verbatim>\<open>CCoinsMap\<close> is an association list
  with distinct keys, in an order about which nothing is assumed.
\<close>

section \<open>Cache entries\<close>

record CCoinsCacheEntry =
  ce_coin :: Coin
  DIRTY :: bool
  FRESH :: bool

type_synonym CCoinsMap = "(COutPoint \<times> CCoinsCacheEntry) list"

record CCoinsViewCache =
  hashBlock :: uint256
  cacheCoins :: CCoinsMap
  cachedCoinsUsage :: u64

datatype coins_error = NonPrunedOverwrite | AddingSpentCoin | FreshMisapplied | NullHashBlock | HeadMismatch | UnwritableCoin

section \<open>The database view\<close>

text \<open>
  The database holds a record of bytes for each coin, the best block and, during a flush, the two head blocks. The records are
  those of the compressed coin format, whose key library \<open>db_ec\<close> is carried with the database. A batch is
  the list of its writes, applied in order and at once by \<^verbatim>\<open>WriteBatch\<close>.
\<close>

record coins_db =
  db_ec :: ec_keys
  db_coins :: "COutPoint \<Rightarrow> bytes option"
  db_best :: "uint256 option"
  db_heads :: "uint256 list option"

datatype db_write = EraseCoin COutPoint | WriteCoin COutPoint bytes | EraseBest | WriteBest uint256
  | EraseHeads | WriteHeads "uint256 list"

text \<open>
  \<^verbatim>\<open>CCoinsViewDB::GetCoin\<close> reads the record of a coin: it finds none if there is no record or if the reader throws, which
  \<^verbatim>\<open>CDBWrapper::Read\<close> catches.
\<close>

definition db_decode :: "ec_keys \<Rightarrow> bytes \<Rightarrow> Coin option" where
  "db_decode ec bs = (case Unserialize_Coin ec bs of Inl _ \<Rightarrow> None | Inr (coin, _) \<Rightarrow> Some coin)"

definition db_coin :: "coins_db \<Rightarrow> COutPoint \<Rightarrow> Coin option" where
  "db_coin d p = (case db_coins d p of None \<Rightarrow> None | Some bs \<Rightarrow> db_decode (db_ec d) bs)"

fun apply_write :: "coins_db \<Rightarrow> db_write \<Rightarrow> coins_db" where
  "apply_write d (EraseCoin p) = d \<lparr>db_coins := (db_coins d)(p := None)\<rparr>"
| "apply_write d (WriteCoin p bs) = d \<lparr>db_coins := (db_coins d)(p := Some bs)\<rparr>"
| "apply_write d EraseBest = d \<lparr>db_best := None\<rparr>"
| "apply_write d (WriteBest h) = d \<lparr>db_best := Some h\<rparr>"
| "apply_write d EraseHeads = d \<lparr>db_heads := None\<rparr>"
| "apply_write d (WriteHeads hs) = d \<lparr>db_heads := Some hs\<rparr>"

definition WriteBatch :: "coins_db \<Rightarrow> db_write list \<Rightarrow> coins_db" where
  "WriteBatch d batch = foldl apply_write d batch"

definition db_GetBestBlock :: "coins_db \<Rightarrow> uint256" where
  "db_GetBestBlock d = (case db_best d of None \<Rightarrow> 0 | Some h \<Rightarrow> h)"

definition db_GetHeadBlocks :: "coins_db \<Rightarrow> uint256 list" where
  "db_GetHeadBlocks d = (case db_heads d of None \<Rightarrow> [] | Some hs \<Rightarrow> hs)"

text \<open>
  The loop of \<^verbatim>\<open>CCoinsViewDB::BatchWrite\<close>: \<open>full\<close> is the test of the batch's size estimate against
  \<^verbatim>\<open>-dbbatchsize\<close>. It returns the states that the partial writes leave on disk, the current
  state and the unwritten batch. \<open>UnwritableCoin\<close> is a height for which the writer's arithmetic is undefined.
\<close>

definition coin_write :: "ec_keys \<Rightarrow> COutPoint \<Rightarrow> Coin \<Rightarrow> coins_error + db_write" where
  "coin_write ec p coin =
     (if IsSpent coin then Inr (EraseCoin p)
      else case Serialize_Coin ec coin of None \<Rightarrow> Inl UnwritableCoin | Some bs \<Rightarrow> Inr (WriteCoin p bs))"

fun db_batch_loop ::
  "(db_write list \<Rightarrow> bool) \<Rightarrow> CCoinsMap \<Rightarrow> coins_db \<Rightarrow> db_write list \<Rightarrow>
   coins_error + (coins_db list \<times> coins_db \<times> db_write list)" where
  "db_batch_loop full [] d batch = Inr ([], d, batch)"
| "db_batch_loop full ((p, e) # m) d batch =
     sbind (if DIRTY e then sbind (coin_write (db_ec d) p (ce_coin e)) (\<lambda>w. Inr (batch @ [w])) else Inr batch) (\<lambda>batch'.
       if full batch' then
         sbind (db_batch_loop full m (WriteBatch d batch') []) (\<lambda>(ds, r). Inr (WriteBatch d batch' # ds, r))
       else db_batch_loop full m d batch')"

definition db_old_tip :: "coins_db \<Rightarrow> uint256 \<Rightarrow> coins_error + uint256" where
  "db_old_tip d hash =
     (let old_tip = db_GetBestBlock d; old_heads = db_GetHeadBlocks d in
      if old_tip = 0 \<and> length old_heads = 2 then
        (if old_heads ! 0 \<noteq> hash then Inl HeadMismatch else Inr (old_heads ! 1))
      else Inr old_tip)"

definition db_BatchWrite ::
  "(db_write list \<Rightarrow> bool) \<Rightarrow> coins_db \<Rightarrow> CCoinsMap \<Rightarrow> uint256 \<Rightarrow> coins_error + (coins_db list \<times> coins_db)" where
  "db_BatchWrite full d m hash =
     (if hash = 0 then Inl NullHashBlock
      else sbind (db_old_tip d hash) (\<lambda>old_tip.
        sbind (db_batch_loop full m d [EraseBest, WriteHeads [hash, old_tip]]) (\<lambda>(ds, d', batch).
          Inr (ds, WriteBatch d' (batch @ [EraseHeads, WriteBest hash])))))"

section \<open>Views\<close>

datatype coins_view = ViewDB coins_db | ViewCache CCoinsViewCache coins_view

text \<open>
  The parameter \<open>usage\<close> of the cache methods is \<^verbatim>\<open>memusage::DynamicUsage\<close> of a script: the heap
  memory behind it, which is none for an empty script (\<^verbatim>\<open>CScript::clear\<close> releases it).
\<close>

type_synonym usage = "script \<Rightarrow> u64"

definition coin_usage :: "usage \<Rightarrow> Coin \<Rightarrow> u64" where
  "coin_usage u c = u (scriptPubKey (coin_out c))"

text \<open>\<open>FetchCoin_from\<close>: \<^verbatim>\<open>FetchCoin\<close>, given what \<^verbatim>\<open>base->GetCoin\<close> returns if it is called.\<close>

definition FetchCoin_from ::
  "usage \<Rightarrow> CCoinsViewCache \<Rightarrow> coins_view \<Rightarrow> COutPoint \<Rightarrow> Coin option \<times> coins_view \<Rightarrow>
   CCoinsCacheEntry option \<times> CCoinsViewCache \<times> coins_view" where
  "FetchCoin_from u c base p r =
     (case map_of (cacheCoins c) p of
        Some e \<Rightarrow> (Some e, c, base)
      | None \<Rightarrow>
          (case r of
             (None, base') \<Rightarrow> (None, c, base')
           | (Some tmp, base') \<Rightarrow>
               let e = \<lparr>ce_coin = tmp, DIRTY = False, FRESH = IsSpent tmp\<rparr> in
               (Some e, c \<lparr>cacheCoins := AList.update p e (cacheCoins c),
                  cachedCoinsUsage := cachedCoinsUsage c + coin_usage u tmp\<rparr>, base')))"

fun GetCoin :: "usage \<Rightarrow> coins_view \<Rightarrow> COutPoint \<Rightarrow> Coin option \<times> coins_view" where
  "GetCoin u (ViewDB d) p = (db_coin d p, ViewDB d)"
| "GetCoin u (ViewCache c base) p =
     (case FetchCoin_from u c base p (GetCoin u base p) of
        (Some e, c', base') \<Rightarrow> (if IsSpent (ce_coin e) then None else Some (ce_coin e), ViewCache c' base')
      | (None, c', base') \<Rightarrow> (None, ViewCache c' base'))"

definition FetchCoin ::
  "usage \<Rightarrow> CCoinsViewCache \<Rightarrow> coins_view \<Rightarrow> COutPoint \<Rightarrow>
   CCoinsCacheEntry option \<times> CCoinsViewCache \<times> coins_view" where
  "FetchCoin u c base p = FetchCoin_from u c base p (GetCoin u base p)"

definition AddCoin ::
  "usage \<Rightarrow> CCoinsViewCache \<Rightarrow> COutPoint \<Rightarrow> Coin \<Rightarrow> bool \<Rightarrow> coins_error + CCoinsViewCache" where
  "AddCoin u c p coin possible_overwrite =
     (if IsSpent coin then Inl AddingSpentCoin
      else if IsUnspendable (scriptPubKey (coin_out coin)) then Inr c
      else
        let found = map_of (cacheCoins c) p;
            e = (case found of Some e \<Rightarrow> e | None \<Rightarrow> \<lparr>ce_coin = coinEmpty, DIRTY = False, FRESH = False\<rparr>);
            usage1 = (if found \<noteq> None then cachedCoinsUsage c - coin_usage u (ce_coin e) else cachedCoinsUsage c) in
        if \<not> possible_overwrite \<and> \<not> IsSpent (ce_coin e) then Inl NonPrunedOverwrite
        else
          let fresh = (\<not> possible_overwrite \<and> \<not> DIRTY e);
              e' = e \<lparr>ce_coin := coin, DIRTY := True, FRESH := FRESH e \<or> fresh\<rparr> in
          Inr (c \<lparr>cacheCoins := AList.update p e' (cacheCoins c),
                  cachedCoinsUsage := usage1 + coin_usage u coin\<rparr>))"

text \<open>
  \<^verbatim>\<open>SpendCoin\<close>: the flag and the coin moved out (\<open>None\<close> when the call returns before the move).
  \<open>try_spend\<close> is the result of \<^verbatim>\<open>assetsCache->TrySpendCoin\<close>, \<open>None\<close> when assets are not deployed
  or no asset cache is passed.
\<close>

definition SpendCoin ::
  "usage \<Rightarrow> CCoinsViewCache \<Rightarrow> coins_view \<Rightarrow> COutPoint \<Rightarrow> (Coin \<Rightarrow> bool option) \<Rightarrow>
   bool \<times> Coin option \<times> CCoinsViewCache \<times> coins_view" where
  "SpendCoin u c base p try_spend =
     (case FetchCoin u c base p of
        (None, c', base') \<Rightarrow> (False, None, c', base')
      | (Some e, c', base') \<Rightarrow>
          let m = (if FRESH e then AList.delete p (cacheCoins c')
                   else AList.update p (e \<lparr>ce_coin := coinEmpty, DIRTY := True\<rparr>) (cacheCoins c'));
              c'' = c' \<lparr>cacheCoins := m, cachedCoinsUsage := cachedCoinsUsage c' - coin_usage u (ce_coin e)\<rparr> in
          (try_spend (ce_coin e) \<noteq> Some False, Some (ce_coin e), c'', base'))"

definition AccessCoin ::
  "usage \<Rightarrow> CCoinsViewCache \<Rightarrow> coins_view \<Rightarrow> COutPoint \<Rightarrow> Coin \<times> CCoinsViewCache \<times> coins_view" where
  "AccessCoin u c base p =
     (case FetchCoin u c base p of
        (None, c', base') \<Rightarrow> (coinEmpty, c', base')
      | (Some e, c', base') \<Rightarrow> (ce_coin e, c', base'))"

definition HaveCoin ::
  "usage \<Rightarrow> CCoinsViewCache \<Rightarrow> coins_view \<Rightarrow> COutPoint \<Rightarrow> bool \<times> CCoinsViewCache \<times> coins_view" where
  "HaveCoin u c base p =
     (case FetchCoin u c base p of
        (None, c', base') \<Rightarrow> (False, c', base')
      | (Some e, c', base') \<Rightarrow> (\<not> IsSpent (ce_coin e), c', base'))"

definition HaveCoinInCache :: "CCoinsViewCache \<Rightarrow> COutPoint \<Rightarrow> bool" where
  "HaveCoinInCache c p =
     (case map_of (cacheCoins c) p of None \<Rightarrow> False | Some e \<Rightarrow> \<not> IsSpent (ce_coin e))"

fun GetBestBlock :: "coins_view \<Rightarrow> uint256 \<times> coins_view" where
  "GetBestBlock (ViewDB d) = (db_GetBestBlock d, ViewDB d)"
| "GetBestBlock (ViewCache c base) =
     (if hashBlock c = 0 then
        (case GetBestBlock base of (h, base') \<Rightarrow> (h, ViewCache (c \<lparr>hashBlock := h\<rparr>) base'))
      else (hashBlock c, ViewCache c base))"

definition SetBestBlock :: "CCoinsViewCache \<Rightarrow> uint256 \<Rightarrow> CCoinsViewCache" where
  "SetBestBlock c h = c \<lparr>hashBlock := h\<rparr>"

text \<open>One entry of \<^verbatim>\<open>CCoinsViewCache::BatchWrite\<close>, and the loop over the child's map.\<close>

definition batch_entry ::
  "usage \<Rightarrow> CCoinsViewCache \<Rightarrow> COutPoint \<Rightarrow> CCoinsCacheEntry \<Rightarrow> coins_error + CCoinsViewCache" where
  "batch_entry u c p e =
     (if DIRTY e then
        (case map_of (cacheCoins c) p of
           None \<Rightarrow>
             if \<not> (FRESH e \<and> IsSpent (ce_coin e)) then
               Inr (c \<lparr>cacheCoins := AList.update p \<lparr>ce_coin = ce_coin e, DIRTY = True, FRESH = FRESH e\<rparr> (cacheCoins c),
                       cachedCoinsUsage := cachedCoinsUsage c + coin_usage u (ce_coin e)\<rparr>)
             else Inr c
         | Some us \<Rightarrow>
             if FRESH e \<and> \<not> IsSpent (ce_coin us) then Inl FreshMisapplied
             else if FRESH us \<and> IsSpent (ce_coin e) then
               Inr (c \<lparr>cacheCoins := AList.delete p (cacheCoins c),
                       cachedCoinsUsage := cachedCoinsUsage c - coin_usage u (ce_coin us)\<rparr>)
             else
               Inr (c \<lparr>cacheCoins := AList.update p (us \<lparr>ce_coin := ce_coin e, DIRTY := True\<rparr>) (cacheCoins c),
                       cachedCoinsUsage := cachedCoinsUsage c - coin_usage u (ce_coin us) + coin_usage u (ce_coin e)\<rparr>))
      else Inr c)"

fun batch_loop :: "usage \<Rightarrow> CCoinsViewCache \<Rightarrow> CCoinsMap \<Rightarrow> coins_error + CCoinsViewCache" where
  "batch_loop u c [] = Inr c"
| "batch_loop u c ((p, e) # m) = sbind (batch_entry u c p e) (\<lambda>c'. batch_loop u c' m)"

fun BatchWrite ::
  "usage \<Rightarrow> (db_write list \<Rightarrow> bool) \<Rightarrow> coins_view \<Rightarrow> CCoinsMap \<Rightarrow> uint256 \<Rightarrow> coins_error + coins_view" where
  "BatchWrite u full (ViewDB d) m hash = sbind (db_BatchWrite full d m hash) (\<lambda>(_, d'). Inr (ViewDB d'))"
| "BatchWrite u full (ViewCache c base) m hash =
     sbind (batch_loop u c m) (\<lambda>c'. Inr (ViewCache (c' \<lparr>hashBlock := hash\<rparr>) base))"

definition Flush ::
  "usage \<Rightarrow> (db_write list \<Rightarrow> bool) \<Rightarrow> CCoinsViewCache \<Rightarrow> coins_view \<Rightarrow> coins_error + (CCoinsViewCache \<times> coins_view)" where
  "Flush u full c base =
     sbind (BatchWrite u full base (cacheCoins c) (hashBlock c)) (\<lambda>base'.
       Inr (c \<lparr>cacheCoins := [], cachedCoinsUsage := 0\<rparr>, base'))"

definition Uncache :: "usage \<Rightarrow> CCoinsViewCache \<Rightarrow> COutPoint \<Rightarrow> CCoinsViewCache" where
  "Uncache u c p =
     (case map_of (cacheCoins c) p of
        None \<Rightarrow> c
      | Some e \<Rightarrow>
          if \<not> DIRTY e \<and> \<not> FRESH e then
            c \<lparr>cacheCoins := AList.delete p (cacheCoins c),
               cachedCoinsUsage := cachedCoinsUsage c - coin_usage u (ce_coin e)\<rparr>
          else c)"

definition GetCacheSize :: "CCoinsViewCache \<Rightarrow> nat" where
  "GetCacheSize c = length (cacheCoins c)"

text \<open>The loops over the inputs and the outputs of a transaction.\<close>

fun GetValueIn_loop ::
  "usage \<Rightarrow> CCoinsViewCache \<Rightarrow> coins_view \<Rightarrow> CTxIn list \<Rightarrow> int \<Rightarrow> int \<times> CCoinsViewCache \<times> coins_view" where
  "GetValueIn_loop u c base [] nResult = (nResult, c, base)"
| "GetValueIn_loop u c base (txin # txins) nResult =
     (case AccessCoin u c base (prevout txin) of
        (coin, c', base') \<Rightarrow> GetValueIn_loop u c' base' txins (int64 (nResult + nValue (coin_out coin))))"

definition GetValueIn ::
  "usage \<Rightarrow> CCoinsViewCache \<Rightarrow> coins_view \<Rightarrow> CTransaction \<Rightarrow> int \<times> CCoinsViewCache \<times> coins_view" where
  "GetValueIn u c base tx = (if IsCoinBase tx then (0, c, base) else GetValueIn_loop u c base (vin tx) 0)"

fun HaveInputs_loop ::
  "usage \<Rightarrow> CCoinsViewCache \<Rightarrow> coins_view \<Rightarrow> CTxIn list \<Rightarrow> bool \<times> CCoinsViewCache \<times> coins_view" where
  "HaveInputs_loop u c base [] = (True, c, base)"
| "HaveInputs_loop u c base (txin # txins) =
     (case HaveCoin u c base (prevout txin) of
        (ok, c', base') \<Rightarrow> if \<not> ok then (False, c', base') else HaveInputs_loop u c' base' txins)"

definition HaveInputs ::
  "usage \<Rightarrow> CCoinsViewCache \<Rightarrow> coins_view \<Rightarrow> CTransaction \<Rightarrow> bool \<times> CCoinsViewCache \<times> coins_view" where
  "HaveInputs u c base tx = (if IsCoinBase tx then (True, c, base) else HaveInputs_loop u c base (vin tx))"

fun AddCoins_loop ::
  "usage \<Rightarrow> CCoinsViewCache \<Rightarrow> coins_view \<Rightarrow> uint256 \<Rightarrow> bool \<Rightarrow> nat \<Rightarrow> bool \<Rightarrow> nat \<Rightarrow> CTxOut list \<Rightarrow>
   coins_error + (CCoinsViewCache \<times> coins_view)" where
  "AddCoins_loop u c base txid fCoinbase nHeight check i [] = Inr (c, base)"
| "AddCoins_loop u c base txid fCoinbase nHeight check i (txout # txouts) =
     (let p = \<lparr>op_hash = txid, op_n = of_nat i\<rparr>;
          (overwrite, c1, base1) = (if check then HaveCoin u c base p else (fCoinbase, c, base)) in
      sbind (AddCoin u c1 p (mk_Coin txout nHeight fCoinbase) overwrite) (\<lambda>c2.
        AddCoins_loop u c2 base1 txid fCoinbase nHeight check (Suc i) txouts))"

definition AddCoins ::
  "usage \<Rightarrow> CCoinsViewCache \<Rightarrow> coins_view \<Rightarrow> uint256 \<Rightarrow> CTransaction \<Rightarrow> nat \<Rightarrow> bool \<Rightarrow>
   coins_error + (CCoinsViewCache \<times> coins_view)" where
  "AddCoins u c base txid tx nHeight check =
     AddCoins_loop u c base txid (IsCoinBase tx) nHeight check 0 (vout tx)"

section \<open>The set of unspent outputs and the cache invariant\<close>

text \<open>
  \<open>utxo\<close> is what a view stands for. The invariant says of every cache entry that FRESH is only set where
  the parent has no unspent output, that an entry that is not DIRTY agrees with the parent, that a
  spent entry is empty, and that the accounted memory is that of the entries.
\<close>

definition live :: "Coin \<Rightarrow> Coin option" where
  "live c = (if IsSpent c then None else Some c)"

fun utxo :: "coins_view \<Rightarrow> COutPoint \<Rightarrow> Coin option" where
  "utxo (ViewDB d) p = db_coin d p"
| "utxo (ViewCache c base) p = (case map_of (cacheCoins c) p of Some e \<Rightarrow> live (ce_coin e) | None \<Rightarrow> utxo base p)"

definition entry_ok :: "coins_view \<Rightarrow> COutPoint \<Rightarrow> CCoinsCacheEntry \<Rightarrow> bool" where
  "entry_ok base p e \<longleftrightarrow> (FRESH e \<longrightarrow> utxo base p = None) \<and> (\<not> DIRTY e \<longrightarrow> utxo base p = live (ce_coin e)) \<and>
     (IsSpent (ce_coin e) \<longrightarrow> ce_coin e = coinEmpty)"

definition map_usage :: "usage \<Rightarrow> CCoinsMap \<Rightarrow> u64" where
  "map_usage u m = (\<Sum>(p, e)\<leftarrow>m. coin_usage u (ce_coin e))"

definition cache_inv :: "usage \<Rightarrow> CCoinsViewCache \<Rightarrow> coins_view \<Rightarrow> bool" where
  "cache_inv u c base \<longleftrightarrow> distinct (map fst (cacheCoins c)) \<and>
     (\<forall>p e. map_of (cacheCoins c) p = Some e \<longrightarrow> entry_ok base p e) \<and>
     cachedCoinsUsage c = map_usage u (cacheCoins c)"

fun view_inv :: "usage \<Rightarrow> coins_view \<Rightarrow> bool" where
  "view_inv u (ViewDB d) \<longleftrightarrow> (\<forall>p c. db_coin d p = Some c \<longrightarrow> \<not> IsSpent c)"
| "view_inv u (ViewCache c base) \<longleftrightarrow> cache_inv u c base \<and> view_inv u base"

lemma live_simps [simp]: "\<not> IsSpent c \<Longrightarrow> live c = Some c" "IsSpent c \<Longrightarrow> live c = None" "IsSpent coinEmpty"
  by (simp_all add: live_def coinEmpty_def IsSpent_def CTxOut_IsNull_def CTxOut_null_def)

lemma utxo_unspent: "view_inv u v \<Longrightarrow> utxo v p = Some c \<Longrightarrow> \<not> IsSpent c"
  by (induction v) (auto simp: live_def split: option.splits if_splits)

lemma map_usage_update:
  "map_usage u (AList.update p e m) =
     map_usage u m - (case map_of m p of Some e0 \<Rightarrow> coin_usage u (ce_coin e0) | None \<Rightarrow> 0) + coin_usage u (ce_coin e)"
  by (induction m) (auto simp: map_usage_def split: option.splits)

lemma map_usage_delete:
  "distinct (map fst m) \<Longrightarrow> map_of m p = Some e0 \<Longrightarrow>
   map_usage u (AList.delete p m) = map_usage u m - coin_usage u (ce_coin e0)"
proof (induction m)
  case (Cons x m)
  then show ?case
    by (cases x; cases "fst x = p") (auto simp: map_usage_def delete_idem split: if_splits)
qed simp

lemmas amap_simps = update_conv' delete_conv' distinct_update distinct_delete fun_upd_apply restrict_map_def

text \<open>Updating and deleting one entry of a cache.\<close>

lemma cache_inv_update:
  assumes "cache_inv u c base" "entry_ok base p e"
    and "usage1 = cachedCoinsUsage c - (case map_of (cacheCoins c) p of Some e0 \<Rightarrow> coin_usage u (ce_coin e0) | None \<Rightarrow> 0)
      + coin_usage u (ce_coin e)"
  shows "cache_inv u (c \<lparr>cacheCoins := AList.update p e (cacheCoins c), cachedCoinsUsage := usage1\<rparr>) base"
  using assms by (auto simp: cache_inv_def amap_simps map_usage_update)

lemma cache_inv_delete:
  assumes "cache_inv u c base" "map_of (cacheCoins c) p = Some e0"
  shows "cache_inv u (c \<lparr>cacheCoins := AList.delete p (cacheCoins c),
    cachedCoinsUsage := cachedCoinsUsage c - coin_usage u (ce_coin e0)\<rparr>) base"
  using assms by (auto simp: cache_inv_def amap_simps map_usage_delete split: if_splits)

lemma utxo_cache_update:
  "utxo (ViewCache (c \<lparr>cacheCoins := AList.update p e (cacheCoins c), cachedCoinsUsage := n\<rparr>) base) =
   (utxo (ViewCache c base))(p := live (ce_coin e))"
  by (auto simp: fun_eq_iff amap_simps)

lemma utxo_cache_delete:
  "utxo (ViewCache (c \<lparr>cacheCoins := AList.delete p (cacheCoins c), cachedCoinsUsage := n\<rparr>) base) =
   (utxo (ViewCache c base))(p := utxo base p)"
  by (auto simp: fun_eq_iff amap_simps split: option.splits)

lemma entry_ok_cong: "utxo base' = utxo base \<Longrightarrow> entry_ok base' = entry_ok base"
  by (intro ext) (simp only: entry_ok_def)

lemma cache_inv_cong: "utxo base' = utxo base \<Longrightarrow> cache_inv u c base' \<longleftrightarrow> cache_inv u c base"
  by (simp only: cache_inv_def entry_ok_cong [of base' base])

section \<open>Reading does not change what a view stands for\<close>

text \<open>The result of a fetch: the entry shows the coin, and the caches filled on the way are sound.\<close>

definition fetched :: "usage \<Rightarrow> CCoinsViewCache \<Rightarrow> coins_view \<Rightarrow> COutPoint \<Rightarrow>
  CCoinsCacheEntry option \<Rightarrow> CCoinsViewCache \<Rightarrow> coins_view \<Rightarrow> bool" where
  "fetched u c base p r c' base' \<longleftrightarrow>
     view_inv u (ViewCache c' base') \<and> utxo (ViewCache c' base') = utxo (ViewCache c base) \<and> utxo base' = utxo base \<and>
     map_of (cacheCoins c') p = r \<and>
     utxo (ViewCache c base) p = (case r of None \<Rightarrow> None | Some e \<Rightarrow> live (ce_coin e))"

lemma FetchCoin_from_fetched:
  assumes inv: "view_inv u (ViewCache c base)"
    and get: "g = (utxo base p, b')" "utxo b' = utxo base" "view_inv u b'"
    and "FetchCoin_from u c base p g = (r, c', base')"
  shows "fetched u c base p r c' base'"
proof (cases "map_of (cacheCoins c) p")
  case (Some e)
  then have "r = Some e" "c' = c" "base' = base" using assms(5) by (auto simp: FetchCoin_from_def)
  then show ?thesis using inv Some by (simp add: fetched_def)
next
  case None
  show ?thesis
  proof (cases "utxo base p")
    case None': None
    with None assms(5) get(1) have "r = None" "c' = c" "base' = b'" by (auto simp: FetchCoin_from_def)
    moreover have "utxo (ViewCache c b') = utxo (ViewCache c base)" by (intro ext) (simp add: get(2) split: option.split)
    ultimately show ?thesis
      using None None' inv get(3) cache_inv_cong [OF get(2)] by (simp add: fetched_def get(2))
  next
    case (Some coin)
    define e where "e = \<lparr>ce_coin = coin, DIRTY = False, FRESH = IsSpent coin\<rparr>"
    have unspent: "\<not> IsSpent coin" using utxo_unspent [of u base p] inv Some by simp
    have ok: "entry_ok base p e" using Some unspent by (simp add: entry_ok_def e_def)
    have c': "c' = c \<lparr>cacheCoins := AList.update p e (cacheCoins c), cachedCoinsUsage := cachedCoinsUsage c + coin_usage u coin\<rparr>"
      and r: "r = Some e" and b: "base' = b'"
      using assms(5) None Some get(1) by (auto simp: FetchCoin_from_def e_def Let_def)
    have "cache_inv u c' b'"
      unfolding c' using inv ok None cache_inv_cong [OF get(2)] entry_ok_cong [OF get(2)]
      by (intro cache_inv_update) (simp_all add: e_def)
    moreover have "utxo (ViewCache c' b') = utxo (ViewCache c base)"
      unfolding c' utxo_cache_update using None Some unspent get(2) by (auto simp: e_def fun_eq_iff split: option.splits)
    ultimately show ?thesis
      using get(2,3) None Some unspent r b by (simp add: fetched_def c' amap_simps e_def)
  qed
qed

lemma GetCoin_correct:
  assumes "view_inv u v" "GetCoin u v p = (r, v')"
  shows "r = utxo v p \<and> utxo v' = utxo v \<and> view_inv u v'"
  using assms
proof (induction v arbitrary: r v')
  case (ViewCache c base)
  obtain g b' where g: "GetCoin u base p = (g, b')" by (cases "GetCoin u base p")
  with ViewCache.IH [of g b'] ViewCache.prems(1)
  have "GetCoin u base p = (utxo base p, b')" "utxo b' = utxo base" "view_inv u b'" by auto
  moreover obtain e c' base' where f: "FetchCoin_from u c base p (GetCoin u base p) = (e, c', base')"
    by (cases "FetchCoin_from u c base p (GetCoin u base p)") auto
  ultimately have "fetched u c base p e c' base'"
    using FetchCoin_from_fetched ViewCache.prems(1) by blast
  then show ?case
    using ViewCache.prems(2) f by (auto simp: fetched_def live_def split: option.splits if_splits)
qed auto

lemma FetchCoin_fetched:
  assumes "view_inv u (ViewCache c base)" "FetchCoin u c base p = (r, c', base')"
  shows "fetched u c base p r c' base'"
proof -
  obtain g b' where g: "GetCoin u base p = (g, b')" by (cases "GetCoin u base p")
  with GetCoin_correct [of u base p g b'] assms(1) have "GetCoin u base p = (utxo base p, b')"
    "utxo b' = utxo base" "view_inv u b'" by auto
  from FetchCoin_from_fetched [OF assms(1) this] assms(2) show ?thesis by (simp add: FetchCoin_def)
qed

section \<open>Every method refines an operation on the set of unspent outputs\<close>

abbreviation cache_view_inv :: "usage \<Rightarrow> CCoinsViewCache \<Rightarrow> coins_view \<Rightarrow> bool" where
  "cache_view_inv u c base \<equiv> view_inv u (ViewCache c base)"

lemma AccessCoin_correct:
  assumes "cache_view_inv u c base" "AccessCoin u c base p = (coin, c', base')"
  shows "coin = (case utxo (ViewCache c base) p of Some x \<Rightarrow> x | None \<Rightarrow> coinEmpty) \<and>
    utxo (ViewCache c' base') = utxo (ViewCache c base) \<and> cache_view_inv u c' base'"
proof -
  obtain r c1 b1 where f: "FetchCoin u c base p = (r, c1, b1)" by (cases "FetchCoin u c base p") auto
  with FetchCoin_fetched [OF assms(1)] have F: "fetched u c base p r c1 b1" by blast
  show ?thesis
  proof (cases r)
    case None
    then show ?thesis using assms(2) f F by (simp add: AccessCoin_def fetched_def)
  next
    case (Some e)
    then have "IsSpent (ce_coin e) \<Longrightarrow> ce_coin e = coinEmpty"
      using F by (auto simp: fetched_def cache_inv_def entry_ok_def)
    then show ?thesis using assms(2) f F Some by (cases "IsSpent (ce_coin e)") (auto simp: AccessCoin_def fetched_def)
  qed
qed

lemma HaveCoin_correct:
  assumes "cache_view_inv u c base" "HaveCoin u c base p = (b, c', base')"
  shows "b = (utxo (ViewCache c base) p \<noteq> None) \<and>
    utxo (ViewCache c' base') = utxo (ViewCache c base) \<and> cache_view_inv u c' base'"
proof -
  obtain r c1 b1 where f: "FetchCoin u c base p = (r, c1, b1)" by (cases "FetchCoin u c base p") auto
  with FetchCoin_fetched [OF assms(1)] have "fetched u c base p r c1 b1" by blast
  then show ?thesis
    using assms(2) f by (cases r) (auto simp: HaveCoin_def fetched_def live_def)
qed

text \<open>
  Adding a coin: the caller may leave \<open>possible_overwrite\<close> unset only where there is no unspent
  output, and then the entry is marked FRESH rightly.
\<close>

lemma AddCoin_correct:
  assumes inv: "cache_view_inv u c base"
    and unspent: "\<not> IsSpent coin" and spendable: "\<not> IsUnspendable (scriptPubKey (coin_out coin))"
    and ow: "possible_overwrite \<or> utxo (ViewCache c base) p = None"
  shows "\<exists>c'. AddCoin u c p coin possible_overwrite = Inr c' \<and> cache_view_inv u c' base \<and>
    utxo (ViewCache c' base) = (utxo (ViewCache c base))(p := Some coin)"
proof -
  define e where "e = (case map_of (cacheCoins c) p of Some e \<Rightarrow> e | None \<Rightarrow> \<lparr>ce_coin = coinEmpty, DIRTY = False, FRESH = False\<rparr>)"
  define e' where "e' = e \<lparr>ce_coin := coin, DIRTY := True, FRESH := FRESH e \<or> (\<not> possible_overwrite \<and> \<not> DIRTY e)\<rparr>"
  define n where "n = cachedCoinsUsage c - (case map_of (cacheCoins c) p of Some e0 \<Rightarrow> coin_usage u (ce_coin e0) | None \<Rightarrow> 0)
    + coin_usage u (ce_coin e')"
  have spent: "\<not> possible_overwrite \<Longrightarrow> IsSpent (ce_coin e)"
    using ow by (auto simp: e_def live_def split: option.splits if_splits)
  have fresh: "FRESH e' \<Longrightarrow> utxo base p = None"
    using inv ow spent by (auto simp: e'_def e_def cache_inv_def entry_ok_def split: option.splits if_splits)
  have "entry_ok base p e'" using fresh unspent by (auto simp: entry_ok_def e'_def)
  moreover have "AddCoin u c p coin possible_overwrite =
      Inr (c \<lparr>cacheCoins := AList.update p e' (cacheCoins c), cachedCoinsUsage := n\<rparr>)"
    using unspent spendable spent unfolding AddCoin_def Let_def e_def [symmetric] e'_def [symmetric]
    by (cases possible_overwrite) (auto simp: e_def n_def e'_def split: option.splits)
  ultimately show ?thesis
    using inv unspent cache_inv_update [OF _ _ n_def] by (auto simp: utxo_cache_update simp del: utxo.simps) (simp add: e'_def)
qed

lemma SpendCoin_correct:
  assumes "cache_view_inv u c base" "SpendCoin u c base p ts = (ok, out, c', base')" and u0: "u [] = 0"
  shows "utxo (ViewCache c' base') = (utxo (ViewCache c base))(p := None) \<and> cache_view_inv u c' base' \<and>
    (\<forall>coin. utxo (ViewCache c base) p = Some coin \<longrightarrow> out = Some coin \<and> ok = (ts coin \<noteq> Some False))"
proof -
  obtain r c1 b1 where f: "FetchCoin u c base p = (r, c1, b1)" by (cases "FetchCoin u c base p") auto
  with FetchCoin_fetched [OF assms(1)] have F: "fetched u c base p r c1 b1" by blast
  show ?thesis
  proof (cases r)
    case None
    then show ?thesis using assms(2) f F by (auto simp: SpendCoin_def fetched_def fun_eq_iff)
  next
    case (Some e)
    have ok: "entry_ok b1 p e" and inv: "cache_view_inv u c1 b1" using F Some by (auto simp: fetched_def cache_inv_def)
    have e0: "coin_usage u coinEmpty = 0" using u0 by (simp add: coin_usage_def coinEmpty_def CTxOut_null_def)
    show ?thesis
    proof (cases "FRESH e")
      case True
      then show ?thesis
        using assms(2) f F Some ok inv cache_inv_delete [of u c1 b1 p e] utxo_cache_delete [where c = c1 and base = b1]
        by (auto simp: SpendCoin_def Let_def fetched_def entry_ok_def live_def split: if_splits)
    next
      case False
      have "entry_ok b1 p (e \<lparr>ce_coin := coinEmpty, DIRTY := True\<rparr>)" using False by (simp add: entry_ok_def)
      then show ?thesis
        using assms(2) f F Some inv False e0 cache_inv_update [of u c1 b1 p "e \<lparr>ce_coin := coinEmpty, DIRTY := True\<rparr>"]
          utxo_cache_update [where c = c1 and base = b1]
        by (auto simp: SpendCoin_def Let_def fetched_def live_def split: if_splits)
    qed
  qed
qed

section \<open>Flushing\<close>

lemma batch_entry_correct:
  assumes inv: "cache_view_inv u c base" and ok: "entry_ok (ViewCache c base) p e"
  shows "\<exists>c'. batch_entry u c p e = Inr c' \<and> cache_view_inv u c' base \<and>
    utxo (ViewCache c' base) = (utxo (ViewCache c base))(p := live (ce_coin e))"
proof (cases "DIRTY e")
  case False
  with ok have "utxo (ViewCache c base) p = live (ce_coin e)" by (simp add: entry_ok_def)
  with False inv show ?thesis by (auto simp: batch_entry_def fun_eq_iff)
next
  case True
  show ?thesis
  proof (cases "map_of (cacheCoins c) p")
    case None
    let ?e = "\<lparr>ce_coin = ce_coin e, DIRTY = True, FRESH = FRESH e\<rparr>"
    have "entry_ok base p ?e" using ok None by (simp add: entry_ok_def)
    with None True inv ok show ?thesis
      using cache_inv_update [of u c base p ?e "cachedCoinsUsage c + coin_usage u (ce_coin e)"]
      by (auto simp: batch_entry_def utxo_cache_update entry_ok_def fun_eq_iff simp del: utxo.simps)
  next
    case (Some us)
    have us: "entry_ok base p us" using inv Some by (simp add: cache_inv_def)
    have nofresh: "\<not> (FRESH e \<and> \<not> IsSpent (ce_coin us))"
      using ok Some by (auto simp: entry_ok_def live_def split: if_splits)
    show ?thesis
    proof (cases "FRESH us \<and> IsSpent (ce_coin e)")
      case fresh: True
      with us have "utxo base p = live (ce_coin e)" by (simp add: entry_ok_def)
      with fresh True Some nofresh inv show ?thesis
        using cache_inv_delete [of u c base p us] by (auto simp: batch_entry_def utxo_cache_delete simp del: utxo.simps)
    next
      case False
      let ?e = "us \<lparr>ce_coin := ce_coin e, DIRTY := True\<rparr>"
      have "entry_ok base p ?e" using us ok False by (auto simp: entry_ok_def)
      with False True Some nofresh inv show ?thesis
        using cache_inv_update [of u c base p ?e "cachedCoinsUsage c - coin_usage u (ce_coin us) + coin_usage u (ce_coin e)"]
        by (auto simp: batch_entry_def utxo_cache_update simp del: utxo.simps)
    qed
  qed
qed

definition overlay :: "CCoinsMap \<Rightarrow> (COutPoint \<Rightarrow> Coin option) \<Rightarrow> COutPoint \<Rightarrow> Coin option" where
  "overlay m f p = (case map_of m p of Some e \<Rightarrow> live (ce_coin e) | None \<Rightarrow> f p)"

lemma overlay_Cons: "p \<notin> fst ` set m \<Longrightarrow> overlay ((p, e) # m) f = overlay m (f(p := live (ce_coin e)))"
proof -
  assume "p \<notin> fst ` set m"
  then have "map_of m p = None" by (simp add: map_of_eq_None_iff)
  then show ?thesis by (auto simp: overlay_def fun_eq_iff split: option.splits)
qed

lemma entry_ok_local: "utxo base' p = utxo base p \<Longrightarrow> entry_ok base' p e \<longleftrightarrow> entry_ok base p e"
  by (simp only: entry_ok_def)

lemma batch_loop_correct:
  assumes "cache_view_inv u c base" "distinct (map fst m)" "\<forall>(p, e) \<in> set m. entry_ok (ViewCache c base) p e"
  shows "\<exists>c'. batch_loop u c m = Inr c' \<and> cache_view_inv u c' base \<and>
    utxo (ViewCache c' base) = overlay m (utxo (ViewCache c base))"
  using assms
proof (induction m arbitrary: c)
  case Nil
  then show ?case by (auto simp: overlay_def fun_eq_iff)
next
  case (Cons pe m)
  obtain p e where pe: "pe = (p, e)" by fastforce
  from batch_entry_correct [of u c base p e] Cons.prems pe obtain c1 where
    1: "batch_entry u c p e = Inr c1" "cache_view_inv u c1 base"
      "utxo (ViewCache c1 base) = (utxo (ViewCache c base))(p := live (ce_coin e))" by auto
  have fresh: "p \<notin> fst ` set m" using Cons.prems(2) pe by simp
  have "\<forall>(q, e') \<in> set m. entry_ok (ViewCache c1 base) q e'"
  proof safe
    fix q e' assume q: "(q, e') \<in> set m"
    then have "q \<noteq> p" using fresh by force
    then have "utxo (ViewCache c1 base) q = utxo (ViewCache c base) q" using 1(3) by simp
    then show "entry_ok (ViewCache c1 base) q e'"
      using entry_ok_local Cons.prems(3) q by fastforce
  qed
  from Cons.IH [OF 1(2) _ this] Cons.prems(2) pe obtain c' where
    "batch_loop u c1 m = Inr c'" "cache_view_inv u c' base"
      "utxo (ViewCache c' base) = overlay m (utxo (ViewCache c1 base))" by (auto simp del: utxo.simps)
  then show ?case using pe 1 overlay_Cons [OF fresh] by (auto simp del: utxo.simps)
qed

text \<open>
  The database: \<open>coin_bytes\<close> is the record a coin leaves there, and \<open>reread\<close> the coin found in that record. A coin is \<open>kept\<close> if these are
  the same coin.
\<close>

definition coin_bytes :: "ec_keys \<Rightarrow> Coin \<Rightarrow> bytes option" where
  "coin_bytes ec coin = (if IsSpent coin then None else Serialize_Coin ec coin)"

definition reread :: "ec_keys \<Rightarrow> Coin \<Rightarrow> Coin option" where
  "reread ec coin = (case coin_bytes ec coin of None \<Rightarrow> None | Some bs \<Rightarrow> db_decode ec bs)"

definition writable :: "ec_keys \<Rightarrow> Coin \<Rightarrow> bool" where
  "writable ec coin \<longleftrightarrow> IsSpent coin \<or> Serialize_Coin ec coin \<noteq> None"

definition kept :: "ec_keys \<Rightarrow> Coin \<Rightarrow> bool" where
  "kept ec coin \<longleftrightarrow> writable ec coin \<and> reread ec coin = live coin"

lemma storable_kept: "ec_law ec \<Longrightarrow> storable coin \<Longrightarrow> kept ec coin"
proof -
  assume a: "ec_law ec" "storable coin"
  show ?thesis
  proof (cases "IsSpent coin")
    case False
    with a coin_record.carries [of ec coin] obtain bs where
      "Serialize_Coin ec coin = Some bs" "\<And>rest. Unserialize_Coin ec (bs @ rest) = Inr (coin, rest)" by blast
    from this(1) this(2) [of "[]"] False show ?thesis by (simp add: kept_def writable_def reread_def coin_bytes_def db_decode_def)
  qed (simp add: kept_def writable_def reread_def coin_bytes_def)
qed

definition apply_entry :: "coins_db \<Rightarrow> COutPoint \<times> CCoinsCacheEntry \<Rightarrow> coins_db" where
  "apply_entry d pe =
     (if DIRTY (snd pe) then d \<lparr>db_coins := (db_coins d)(fst pe := coin_bytes (db_ec d) (ce_coin (snd pe)))\<rparr> else d)"

lemma WriteBatch_append: "WriteBatch d (a @ b) = WriteBatch (WriteBatch d a) b"
  by (simp add: WriteBatch_def)

lemma apply_write_ec: "db_ec (apply_write d w) = db_ec d"
  by (cases w) simp_all

lemma WriteBatch_ec [simp]: "db_ec (WriteBatch d batch) = db_ec d"
  unfolding WriteBatch_def by (induction batch arbitrary: d) (simp_all add: apply_write_ec)

lemma coin_write_bytes: "coin_write (db_ec d) p coin = Inr w \<Longrightarrow> apply_write d w = d \<lparr>db_coins := (db_coins d)(p := coin_bytes (db_ec d) coin)\<rparr>"
  by (auto simp: coin_write_def coin_bytes_def split: if_splits option.splits)

lemma db_batch_step:
  assumes "(if DIRTY e then sbind (coin_write (db_ec d) p (ce_coin e)) (\<lambda>w. Inr (batch @ [w])) else Inr batch) = Inr batch'"
  shows "WriteBatch d batch' = apply_entry (WriteBatch d batch) (p, e)"
  using assms coin_write_bytes [of "WriteBatch d batch"]
  by (auto simp: apply_entry_def sbind_Inr_iff WriteBatch_append split: if_splits) (simp add: WriteBatch_def)

lemma db_batch_loop_correct:
  "db_batch_loop full m d batch = Inr (ds, d', batch') \<Longrightarrow>
   WriteBatch d' batch' = foldl apply_entry (WriteBatch d batch) m \<and>
   (\<forall>x \<in> set ds. \<exists>k \<le> length m. x = foldl apply_entry (WriteBatch d batch) (take k m))"
proof (induction m arbitrary: d batch ds)
  case (Cons pe m)
  obtain p e where pe: "pe = (p, e)" by fastforce
  with Cons.prems obtain b1 where
    s: "(if DIRTY e then sbind (coin_write (db_ec d) p (ce_coin e)) (\<lambda>w. Inr (batch @ [w])) else Inr batch) = Inr b1"
    and r: "(if full b1 then sbind (db_batch_loop full m (WriteBatch d b1) []) (\<lambda>(ds, r). Inr (WriteBatch d b1 # ds, r))
       else db_batch_loop full m d b1) = Inr (ds, d', batch')" by (auto simp: sbind_Inr_iff)
  note b1 = db_batch_step [OF s]
  show ?case
  proof (cases "full b1")
    case False
    then have "db_batch_loop full m d b1 = Inr (ds, d', batch')" using r by simp
    from Cons.IH [OF this] show ?thesis unfolding b1 pe by (metis Suc_le_mono foldl_Cons length_Cons take_Suc_Cons)
  next
    case True
    then obtain ds1 where l: "db_batch_loop full m (WriteBatch d b1) [] = Inr (ds1, d', batch')" and ds: "ds = WriteBatch d b1 # ds1"
      using r by (auto simp: sbind_Inr_iff)
    have IH: "WriteBatch d' batch' = foldl apply_entry (WriteBatch d b1) m"
      "\<forall>x \<in> set ds1. \<exists>k \<le> length m. x = foldl apply_entry (WriteBatch d b1) (take k m)"
      using Cons.IH [OF l] by (auto simp: WriteBatch_def)
    have "\<exists>k \<le> length (pe # m). x = foldl apply_entry (WriteBatch d batch) (take k (pe # m))" if "x \<in> set ds" for x
    proof (cases "x = WriteBatch d b1")
      case True
      then show ?thesis using b1 pe by (intro exI [of _ 1]) simp
    next
      case False
      with that ds IH(2) obtain k where "k \<le> length m" "x = foldl apply_entry (WriteBatch d b1) (take k m)" by auto
      then show ?thesis using b1 pe by (intro exI [of _ "Suc k"]) simp
    qed
    with IH(1) b1 pe show ?thesis by simp
  qed
qed simp

lemma db_batch_loop_total:
  "\<forall>(p, e) \<in> set m. DIRTY e \<longrightarrow> writable (db_ec d) (ce_coin e) \<Longrightarrow> \<exists>r. db_batch_loop full m d batch = Inr r"
proof (induction m arbitrary: d batch)
  case (Cons pe m)
  obtain p e where pe: "pe = (p, e)" by fastforce
  have "\<exists>b. (if DIRTY e then sbind (coin_write (db_ec d) p (ce_coin e)) (\<lambda>w. Inr (batch @ [w])) else Inr batch) = Inr b"
    using Cons.prems pe by (auto simp: coin_write_def writable_def)
  then obtain b where b: "(if DIRTY e then sbind (coin_write (db_ec d) p (ce_coin e)) (\<lambda>w. Inr (batch @ [w])) else Inr batch) = Inr b" by blast
  have "\<forall>(p, e) \<in> set m. DIRTY e \<longrightarrow> writable (db_ec d) (ce_coin e)" using Cons.prems by auto
  with Cons.IH [of "WriteBatch d b" "[]"] Cons.IH [of d b] obtain r r' where
    "db_batch_loop full m (WriteBatch d b) [] = Inr r" "db_batch_loop full m d b = Inr r'" by auto
  then show ?case using b pe by (cases r; cases r') simp
qed simp

lemma apply_entry_ec: "db_ec (foldl apply_entry d m) = db_ec d"
  by (induction m arbitrary: d) (simp_all add: apply_entry_def)

lemma apply_entries_header:
  "db_best (foldl apply_entry d m) = db_best d \<and> db_heads (foldl apply_entry d m) = db_heads d"
  by (induction m arbitrary: d) (auto simp: apply_entry_def)

text \<open>The records after the entries have been written: a dirty entry has the record of its coin.\<close>

lemma apply_entries_records:
  assumes "distinct (map fst m)"
  shows "db_coins (foldl apply_entry d m) p =
    (case map_of m p of Some e \<Rightarrow> if DIRTY e then coin_bytes (db_ec d) (ce_coin e) else db_coins d p | None \<Rightarrow> db_coins d p)"
  using assms
proof (induction m arbitrary: d)
  case (Cons pe m)
  have "map_of m (fst pe) = None" using Cons.prems by (simp add: map_of_eq_None_iff)
  then show ?case using Cons.IH [of "apply_entry d pe"] Cons.prems by (cases pe) (auto simp: apply_entry_def split: option.splits)
qed simp

lemma map_of_take: "distinct (map fst m) \<Longrightarrow> map_of (take k m) p = None \<or> map_of (take k m) p = map_of m p"
proof (induction m arbitrary: k)
  case (Cons pe m)
  then show ?case by (cases k; cases pe) auto
qed simp

lemma apply_entries_between:
  "db_coins (foldl apply_entry d (take k m)) p = db_coins d p \<or>
   db_coins (foldl apply_entry d (take k m)) p = db_coins (foldl apply_entry d m) p"
  if "distinct (map fst m)"
proof -
  have "distinct (map fst (take k m))" using that by (simp add: take_map [symmetric] distinct_take)
  then show ?thesis using map_of_take [OF that, of k p] by (auto simp: apply_entries_records that)
qed

text \<open>
  What a flush to the database leaves on disk: between the partial writes the database says that it
  is moving between two blocks, and every record is the old one or the new one.
\<close>

definition written :: "CCoinsMap \<Rightarrow> coins_db \<Rightarrow> coins_db \<Rightarrow> bool" where
  "written m d d' \<longleftrightarrow> db_ec d' = db_ec d \<and>
     (\<forall>p. db_coins d' p = (case map_of m p of Some e \<Rightarrow> if DIRTY e then coin_bytes (db_ec d) (ce_coin e) else db_coins d p | None \<Rightarrow> db_coins d p))"

lemma db_BatchWrite_Inr:
  assumes m: "distinct (map fst m)" and h: "db_BatchWrite full d m hash = Inr (ds, d')"
  obtains old where "db_old_tip d hash = Inr old" "written m d d'" "db_best d' = Some hash" "db_heads d' = None"
    "\<And>x. x \<in> set ds \<Longrightarrow> db_best x = None \<and> db_heads x = Some [hash, old] \<and> (\<forall>p. db_coins x p = db_coins d p \<or> db_coins x p = db_coins d' p)"
proof -
  from h obtain old d1 b1 where old: "db_old_tip d hash = Inr old"
    and r: "db_batch_loop full m d [EraseBest, WriteHeads [hash, old]] = Inr (ds, d1, b1)"
    and d1: "d' = WriteBatch d1 (b1 @ [EraseHeads, WriteBest hash])" by (auto simp: db_BatchWrite_def sbind_Inr_iff split: if_splits)
  define d0 where "d0 = WriteBatch d [EraseBest, WriteHeads [hash, old]]"
  have d0: "db_coins d0 = db_coins d" "db_best d0 = None" "db_heads d0 = Some [hash, old]" "db_ec d0 = db_ec d"
    by (simp_all add: d0_def WriteBatch_def)
  from db_batch_loop_correct [OF r] have
    1: "WriteBatch d1 b1 = foldl apply_entry d0 m"
       "\<forall>x \<in> set ds. \<exists>k \<le> length m. x = foldl apply_entry d0 (take k m)" by (auto simp: d0_def)
  have d': "d' = (foldl apply_entry d0 m) \<lparr>db_heads := None, db_best := Some hash\<rparr>"
    unfolding d1 WriteBatch_append 1(1) by (simp add: WriteBatch_def)
  show thesis
  proof (rule that [OF old])
    show "written m d d'" using d0 by (simp add: written_def d' apply_entries_records [OF m] apply_entry_ec split: option.split)
    show "db_best d' = Some hash" "db_heads d' = None" by (simp_all add: d')
    fix x assume "x \<in> set ds"
    with 1(2) obtain k where x: "x = foldl apply_entry d0 (take k m)" by blast
    show "db_best x = None \<and> db_heads x = Some [hash, old] \<and> (\<forall>p. db_coins x p = db_coins d p \<or> db_coins x p = db_coins d' p)"
      using apply_entries_header [of d0 "take k m"] apply_entries_between [OF m, of d0 k] d0 by (simp add: d' x)
  qed
qed

lemma db_BatchWrite_total:
  assumes "\<forall>(p, e) \<in> set m. DIRTY e \<longrightarrow> writable (db_ec d) (ce_coin e)" "hash \<noteq> 0" "db_old_tip d hash = Inr old"
  obtains ds d' where "db_BatchWrite full d m hash = Inr (ds, d')"
  using db_batch_loop_total [OF assms(1), of full "[EraseBest, WriteHeads [hash, old]]"] assms(2,3) that
  by (auto simp: db_BatchWrite_def)

text \<open>The coins that are found there afterwards.\<close>

lemma db_coin_written:
  "written m d d' \<Longrightarrow> db_coin d' p =
     (case map_of m p of Some e \<Rightarrow> if DIRTY e then reread (db_ec d) (ce_coin e) else db_coin d p | None \<Rightarrow> db_coin d p)"
  by (auto simp: written_def db_coin_def reread_def split: option.splits)

lemma db_coins_kept:
  assumes "written m d d'" "distinct (map fst m)" "\<forall>(p, e) \<in> set m. entry_ok (ViewDB d) p e \<and> (DIRTY e \<longrightarrow> kept (db_ec d) (ce_coin e))"
  shows "db_coin d' = overlay m (db_coin d)"
proof
  fix p
  have "entry_ok (ViewDB d) p e \<and> (DIRTY e \<longrightarrow> kept (db_ec d) (ce_coin e))" if "map_of m p = Some e" for e
    using assms(3) map_of_SomeD [OF that] by auto
  then show "db_coin d' p = overlay m (db_coin d) p"
    unfolding db_coin_written [OF assms(1)] overlay_def by (auto simp: entry_ok_def kept_def split: option.split)
qed

lemma overlay_utxo: "overlay (cacheCoins c) (utxo base) = utxo (ViewCache c base)"
  by (auto simp: overlay_def fun_eq_iff split: option.split)

text \<open>The condition under which the asserts of \<^verbatim>\<open>CCoinsViewDB::BatchWrite\<close> hold.\<close>

fun can_flush :: "coins_view \<Rightarrow> uint256 \<Rightarrow> bool" where
  "can_flush (ViewDB d) hash \<longleftrightarrow> hash \<noteq> 0 \<and> db_old_tip d hash \<noteq> Inl HeadMismatch"
| "can_flush (ViewCache c base) hash \<longleftrightarrow> True"

text \<open>What a flush onto the database needs of the entries: that the format of the records keeps their coins.\<close>

fun entries_kept :: "coins_view \<Rightarrow> CCoinsMap \<Rightarrow> bool" where
  "entries_kept (ViewDB d) m \<longleftrightarrow> (\<forall>(p, e) \<in> set m. DIRTY e \<longrightarrow> kept (db_ec d) (ce_coin e))"
| "entries_kept (ViewCache c base) m \<longleftrightarrow> True"

lemma BatchWrite_correct:
  assumes inv: "view_inv u v" and m: "distinct (map fst m)" "\<forall>(p, e) \<in> set m. entry_ok v p e" and ok: "can_flush v hash" "entries_kept v m"
  shows "\<exists>v'. BatchWrite u full v m hash = Inr v' \<and> view_inv u v' \<and> utxo v' = overlay m (utxo v)"
proof (cases v)
  case (ViewDB d)
  then obtain old where old: "hash \<noteq> 0" "db_old_tip d hash = Inr old"
    using ok by (cases "db_old_tip d hash") (auto simp: db_old_tip_def Let_def split: if_splits)
  have k: "\<forall>(p, e) \<in> set m. entry_ok (ViewDB d) p e \<and> (DIRTY e \<longrightarrow> kept (db_ec d) (ce_coin e))"
    using m(2) ok(2) ViewDB by (auto simp: entries_kept.simps)
  then have "\<forall>(p, e) \<in> set m. DIRTY e \<longrightarrow> writable (db_ec d) (ce_coin e)" by (auto simp: kept_def)
  from db_BatchWrite_total [OF this old] obtain ds d' where b: "db_BatchWrite full d m hash = Inr (ds, d')" by blast
  with m(1) have "written m d d'" by (rule db_BatchWrite_Inr)
  from db_coins_kept [OF this m(1) k] have "db_coin d' = overlay m (db_coin d)" .
  moreover have "utxo (ViewDB d) = db_coin d" "utxo (ViewDB d') = db_coin d'" by auto
  ultimately have "utxo (ViewDB d') = overlay m (utxo v)" using ViewDB by simp
  moreover have "view_inv u (ViewDB d')"
    using inv ViewDB \<open>db_coin d' = _\<close> by (auto simp: overlay_def live_def split: option.splits if_splits)
  ultimately show ?thesis using ViewDB b by simp
next
  case (ViewCache c base)
  from batch_loop_correct [of u c base m] inv m ViewCache obtain c' where
    b: "batch_loop u c m = Inr c'" "cache_view_inv u c' base" "utxo (ViewCache c' base) = overlay m (utxo v)" by blast
  have "utxo (ViewCache (c' \<lparr>hashBlock := hash\<rparr>) base) = utxo (ViewCache c' base)" by auto
  moreover have "cache_view_inv u (c' \<lparr>hashBlock := hash\<rparr>) base" using b(2) by (simp add: cache_inv_def)
  ultimately show ?thesis using ViewCache b by (simp del: utxo.simps view_inv.simps)
qed

lemma Flush_correct:
  assumes inv: "cache_view_inv u c base" and ok: "can_flush base (hashBlock c)" "entries_kept base (cacheCoins c)"
  shows "\<exists>c' base'. Flush u full c base = Inr (c', base') \<and> cache_view_inv u c' base' \<and> GetCacheSize c' = 0 \<and>
    utxo base' = utxo (ViewCache c base) \<and> utxo (ViewCache c' base') = utxo (ViewCache c base)"
proof -
  have d: "distinct (map fst (cacheCoins c))" using inv by (simp add: cache_inv_def)
  moreover have "\<forall>(p, e) \<in> set (cacheCoins c). entry_ok base p e"
    using inv d by (auto simp: cache_inv_def)
  ultimately obtain base' where b: "BatchWrite u full base (cacheCoins c) (hashBlock c) = Inr base'"
      "view_inv u base'" "utxo base' = utxo (ViewCache c base)"
    using BatchWrite_correct [of u base "cacheCoins c"] inv ok overlay_utxo by fastforce
  moreover have "utxo (ViewCache (c \<lparr>cacheCoins := [], cachedCoinsUsage := 0\<rparr>) base') = utxo base'" by auto
  ultimately show ?thesis
    by (auto simp: Flush_def GetCacheSize_def cache_inv_def map_usage_def simp del: utxo.simps)
qed

lemma Uncache_correct:
  assumes "cache_view_inv u c base"
  shows "cache_view_inv u (Uncache u c p) base \<and> utxo (ViewCache (Uncache u c p) base) = utxo (ViewCache c base)"
proof (cases "map_of (cacheCoins c) p")
  case (Some e)
  then have "entry_ok base p e" using assms by (simp add: cache_inv_def)
  then have "\<not> DIRTY e \<Longrightarrow> utxo base p = utxo (ViewCache c base) p" using Some by (simp add: entry_ok_def)
  then show ?thesis
    using assms Some cache_inv_delete [of u c base p e]
    by (auto simp: Uncache_def utxo_cache_delete simp del: utxo.simps)
qed (use assms in \<open>simp add: Uncache_def\<close>)

section \<open>Loops over a view\<close>

text \<open>
  The interface of a query that may fill caches: it answers from what the view stands for and
  leaves that as it was. A loop of queries then answers as if the view were a fixed function.
\<close>

fun visit :: "('v \<Rightarrow> 'p \<Rightarrow> 'r \<times> 'v) \<Rightarrow> 'v \<Rightarrow> 'p list \<Rightarrow> 'r list \<times> 'v" where
  "visit q v [] = ([], v)"
| "visit q v (p # ps) = (case q v p of (r, v') \<Rightarrow> case visit q v' ps of (rs, v'') \<Rightarrow> (r # rs, v''))"

locale view_query =
  fixes inv :: "'v \<Rightarrow> bool" and abs :: "'v \<Rightarrow> 'm" and query :: "'v \<Rightarrow> 'p \<Rightarrow> 'r \<times> 'v" and answer :: "'m \<Rightarrow> 'p \<Rightarrow> 'r"
  assumes query: "inv v \<Longrightarrow> query v p = (r, v') \<Longrightarrow> r = answer (abs v) p \<and> abs v' = abs v \<and> inv v'"
begin

lemma query_answer: "inv v \<Longrightarrow> \<exists>v'. query v p = (answer (abs v) p, v') \<and> abs v' = abs v \<and> inv v'"
  using query [of v p "fst (query v p)" "snd (query v p)"] by (metis prod.collapse)

lemma visit_answers: "inv v \<Longrightarrow> \<exists>v'. visit query v ps = (map (answer (abs v)) ps, v') \<and> abs v' = abs v \<and> inv v'"
proof (induction ps arbitrary: v)
  case (Cons p ps)
  then obtain v1 where "query v p = (answer (abs v) p, v1)" "abs v1 = abs v" "inv v1" using query_answer by blast
  with Cons.IH [of v1] show ?case by auto
qed simp

end

abbreviation cache_utxo :: "CCoinsViewCache \<times> coins_view \<Rightarrow> COutPoint \<Rightarrow> Coin option" where
  "cache_utxo v \<equiv> utxo (ViewCache (fst v) (snd v))"

definition coin_at :: "(COutPoint \<Rightarrow> Coin option) \<Rightarrow> COutPoint \<Rightarrow> Coin" where
  "coin_at m p = (case m p of Some x \<Rightarrow> x | None \<Rightarrow> coinEmpty)"

interpretation get_coin: view_query "view_inv u" utxo "GetCoin u" "\<lambda>m p. m p" for u
  by unfold_locales (use GetCoin_correct in blast)

interpretation access_coin: view_query "\<lambda>v. cache_view_inv u (fst v) (snd v)" cache_utxo
    "\<lambda>v p. AccessCoin u (fst v) (snd v) p" coin_at for u
proof unfold_locales
  fix v p r v' assume "cache_view_inv u (fst v) (snd v)" "AccessCoin u (fst v) (snd v) p = (r, v')"
  then show "r = coin_at (cache_utxo v) p \<and> cache_utxo v' = cache_utxo v \<and> cache_view_inv u (fst v') (snd v')"
    using AccessCoin_correct [of u "fst v" "snd v" p r "fst v'" "snd v'"] by (simp add: coin_at_def del: utxo.simps view_inv.simps)
qed

interpretation have_coin: view_query "\<lambda>v. cache_view_inv u (fst v) (snd v)" cache_utxo
    "\<lambda>v p. HaveCoin u (fst v) (snd v) p" "\<lambda>m p. m p \<noteq> None" for u
proof unfold_locales
  fix v p r v' assume "cache_view_inv u (fst v) (snd v)" "HaveCoin u (fst v) (snd v) p = (r, v')"
  then show "r = (cache_utxo v p \<noteq> None) \<and> cache_utxo v' = cache_utxo v \<and> cache_view_inv u (fst v') (snd v')"
    using HaveCoin_correct [of u "fst v" "snd v" p r "fst v'" "snd v'"] by (simp del: utxo.simps view_inv.simps)
qed

lemma HaveInputs_loop_correct:
  "cache_view_inv u c base \<Longrightarrow> \<exists>c' base'.
     HaveInputs_loop u c base txins = (\<forall>i \<in> set txins. utxo (ViewCache c base) (prevout i) \<noteq> None, c', base') \<and>
     utxo (ViewCache c' base') = utxo (ViewCache c base) \<and> cache_view_inv u c' base'"
proof (induction txins arbitrary: c base)
  case (Cons i txins)
  from have_coin.query_answer [of u "(c, base)" "prevout i"] Cons.prems obtain c1 base1 where
    1: "HaveCoin u c base (prevout i) = (utxo (ViewCache c base) (prevout i) \<noteq> None, c1, base1)"
      "utxo (ViewCache c1 base1) = utxo (ViewCache c base)" "cache_view_inv u c1 base1"
    by (auto simp del: utxo.simps view_inv.simps)
  show ?case
  proof (cases "utxo (ViewCache c base) (prevout i) = None")
    case True
    then show ?thesis using 1 by (simp del: utxo.simps view_inv.simps)
  next
    case False
    then show ?thesis using 1 Cons.IH [OF 1(3)] by (auto simp del: utxo.simps view_inv.simps)
  qed
qed simp

lemma GetValueIn_loop_correct:
  "cache_view_inv u c base \<Longrightarrow> \<exists>c' base'.
     GetValueIn_loop u c base txins n =
       (foldl (\<lambda>a i. int64 (a + nValue (coin_out (coin_at (utxo (ViewCache c base)) (prevout i))))) n txins, c', base') \<and>
     utxo (ViewCache c' base') = utxo (ViewCache c base) \<and> cache_view_inv u c' base'"
proof (induction txins arbitrary: c base n)
  case (Cons i txins)
  from access_coin.query_answer [of u "(c, base)" "prevout i"] Cons.prems obtain c1 base1 where
    1: "AccessCoin u c base (prevout i) = (coin_at (utxo (ViewCache c base)) (prevout i), c1, base1)"
      "utxo (ViewCache c1 base1) = utxo (ViewCache c base)" "cache_view_inv u c1 base1"
    by (auto simp del: utxo.simps view_inv.simps)
  then show ?case using Cons.IH [OF 1(3)] by (auto simp del: utxo.simps view_inv.simps)
qed simp

text \<open>The specification of \<^verbatim>\<open>AddCoins\<close>: the spendable outputs from index \<open>i\<close> on are unspent.\<close>

definition with_outputs ::
  "uint256 \<Rightarrow> bool \<Rightarrow> nat \<Rightarrow> nat \<Rightarrow> CTxOut list \<Rightarrow> (COutPoint \<Rightarrow> Coin option) \<Rightarrow> COutPoint \<Rightarrow> Coin option" where
  "with_outputs txid cb h i outs m p =
     (let j = unat (op_n p) in
      if op_hash p = txid \<and> i \<le> j \<and> j < i + length outs \<and> \<not> IsUnspendable (scriptPubKey (outs ! (j - i)))
      then Some (mk_Coin (outs ! (j - i)) h cb) else m p)"

lemma with_outputs_Cons:
  assumes "i + length (txout # outs) \<le> 2 ^ 32"
  shows "with_outputs txid cb h i (txout # outs) m = with_outputs txid cb h (Suc i) outs
    (if IsUnspendable (scriptPubKey txout) then m
     else m(\<lparr>op_hash = txid, op_n = of_nat i\<rparr> := Some (mk_Coin txout h cb)))"
proof
  fix p :: COutPoint
  have small: "i < 2 ^ 32" using assms by simp
  then have i: "unat (of_nat i :: u32) = i" by (simp add: unat_of_nat)
  have eq: "p = \<lparr>op_hash = txid, op_n = of_nat i\<rparr> \<longleftrightarrow> op_hash p = txid \<and> unat (op_n p) = i"
    using i by (cases p) (auto simp: word_unat_eq_iff)
  consider "unat (op_n p) = i" | "unat (op_n p) < i" | j where "unat (op_n p) - i = Suc j" "unat (op_n p) - Suc i = j" "Suc i \<le> unat (op_n p)"
    by (metis Suc_diff_Suc Suc_leI linorder_neqE_nat)
  then show "with_outputs txid cb h i (txout # outs) m p = with_outputs txid cb h (Suc i) outs
    (if IsUnspendable (scriptPubKey txout) then m
     else m(\<lparr>op_hash = txid, op_n = of_nat i\<rparr> := Some (mk_Coin txout h cb))) p"
    by cases (auto simp: with_outputs_def Let_def fun_upd_def eq)
qed

lemma AddCoins_loop_correct:
  assumes "cache_view_inv u c base" "\<forall>x \<in> set outs. \<not> CTxOut_IsNull x" "i + length outs \<le> 2 ^ 32"
    and "check \<or> cb \<or> (\<forall>j \<ge> i. j < i + length outs \<longrightarrow> utxo (ViewCache c base) \<lparr>op_hash = txid, op_n = of_nat j\<rparr> = None)"
  shows "\<exists>c' base'. AddCoins_loop u c base txid cb h check i outs = Inr (c', base') \<and> cache_view_inv u c' base' \<and>
    utxo (ViewCache c' base') = with_outputs txid cb h i outs (utxo (ViewCache c base))"
  using assms
proof (induction outs arbitrary: c base i)
  case Nil
  then show ?case by (auto simp: with_outputs_def Let_def fun_eq_iff)
next
  case (Cons txout outs)
  let ?p = "\<lparr>op_hash = txid, op_n = of_nat i\<rparr>" and ?coin = "mk_Coin txout h cb"
  let ?m = "utxo (ViewCache c base)"
  obtain ow c1 base1 where q: "(if check then HaveCoin u c base ?p else (cb, c, base)) = (ow, c1, base1)"
    by (cases "if check then HaveCoin u c base ?p else (cb, c, base)") auto
  have 1: "utxo (ViewCache c1 base1) = ?m" "cache_view_inv u c1 base1" "ow \<or> ?m ?p = None"
    using q HaveCoin_correct [OF Cons.prems(1), of ?p ow c1 base1] Cons.prems(1,4)
    by (auto split: if_splits simp del: utxo.simps view_inv.simps)
  have unspent: "\<not> IsSpent ?coin" using Cons.prems(2) by (simp add: IsSpent_def mk_Coin_def)
  have spk: "scriptPubKey (coin_out ?coin) = scriptPubKey txout" by (simp add: mk_Coin_def)
  let ?m2 = "if IsUnspendable (scriptPubKey txout) then ?m else ?m(?p := Some ?coin)"
  obtain c2 where 2: "AddCoin u c1 ?p ?coin ow = Inr c2" "cache_view_inv u c2 base1" "utxo (ViewCache c2 base1) = ?m2"
  proof (cases "IsUnspendable (scriptPubKey txout)")
    case True
    then have "AddCoin u c1 ?p ?coin ow = Inr c1" using unspent spk by (simp add: AddCoin_def)
    with True 1 that show thesis by simp
  next
    case False
    with AddCoin_correct [OF 1(2) unspent, of ow ?p] spk 1 that show thesis by auto
  qed
  have "\<lparr>op_hash = txid, op_n = of_nat j\<rparr> \<noteq> ?p" if "j \<ge> Suc i" "j < Suc i + length outs" for j
    using that Cons.prems(3) by (auto simp: word_unat_eq_iff unat_of_nat)
  then have "check \<or> cb \<or> (\<forall>j \<ge> Suc i. j < Suc i + length outs \<longrightarrow> utxo (ViewCache c2 base1) \<lparr>op_hash = txid, op_n = of_nat j\<rparr> = None)"
    using Cons.prems(4) unfolding 2(3) by (auto simp del: utxo.simps)
  from Cons.IH [OF 2(2) _ _ this] Cons.prems(2,3) obtain c' base' where
    "AddCoins_loop u c2 base1 txid cb h check (Suc i) outs = Inr (c', base')" "cache_view_inv u c' base'"
    "utxo (ViewCache c' base') = with_outputs txid cb h (Suc i) outs ?m2" using 2(3) by (auto simp del: utxo.simps view_inv.simps)
  then show ?case using q 2(1) with_outputs_Cons [OF Cons.prems(3)] by (auto simp: Let_def simp del: utxo.simps view_inv.simps)
qed

section \<open>Sequences of operations\<close>

text \<open>
  The operations of a cache as a state machine, and the set of unspent outputs as its specification.
  \<open>op_allowed\<close> is what the callers guarantee for \<^verbatim>\<open>AddCoin\<close>: the coin is not spent, the overwrite flag
  is unset only where nothing is unspent, and a spendable coin is one that the disk format carries.
\<close>

datatype coins_op = OpAdd COutPoint Coin bool | OpSpend COutPoint | OpAccess COutPoint | OpHave COutPoint
  | OpUncache COutPoint | OpFlush

fun run_op ::
  "usage \<Rightarrow> (db_write list \<Rightarrow> bool) \<Rightarrow> coins_op \<Rightarrow> CCoinsViewCache \<times> coins_view \<Rightarrow> coins_error + CCoinsViewCache \<times> coins_view" where
  "run_op u full (OpAdd p coin ow) (c, base) = sbind (AddCoin u c p coin ow) (\<lambda>c'. Inr (c', base))"
| "run_op u full (OpSpend p) (c, base) = Inr (snd (snd (SpendCoin u c base p (\<lambda>_. None))))"
| "run_op u full (OpAccess p) (c, base) = Inr (snd (AccessCoin u c base p))"
| "run_op u full (OpHave p) (c, base) = Inr (snd (HaveCoin u c base p))"
| "run_op u full (OpUncache p) (c, base) = Inr (Uncache u c p, base)"
| "run_op u full OpFlush (c, base) = Flush u full c base"

fun run_ops ::
  "usage \<Rightarrow> (db_write list \<Rightarrow> bool) \<Rightarrow> coins_op list \<Rightarrow> CCoinsViewCache \<times> coins_view \<Rightarrow> coins_error + CCoinsViewCache \<times> coins_view" where
  "run_ops u full [] v = Inr v"
| "run_ops u full (x # xs) v = sbind (run_op u full x v) (run_ops u full xs)"

fun spec_op :: "(COutPoint \<Rightarrow> Coin option) \<Rightarrow> coins_op \<Rightarrow> COutPoint \<Rightarrow> Coin option" where
  "spec_op m (OpAdd p coin ow) = (if IsUnspendable (scriptPubKey (coin_out coin)) then m else m(p := Some coin))"
| "spec_op m (OpSpend p) = m(p := None)"
| "spec_op m _ = m"

fun op_allowed :: "(COutPoint \<Rightarrow> Coin option) \<Rightarrow> coins_op \<Rightarrow> bool" where
  "op_allowed m (OpAdd p coin ow) \<longleftrightarrow> \<not> IsSpent coin \<and> (ow \<or> m p = None) \<and> (IsUnspendable (scriptPubKey (coin_out coin)) \<or> storable coin)"
| "op_allowed m _ \<longleftrightarrow> True"

fun ops_allowed :: "(COutPoint \<Rightarrow> Coin option) \<Rightarrow> coins_op list \<Rightarrow> bool" where
  "ops_allowed m [] \<longleftrightarrow> True"
| "ops_allowed m (x # xs) \<longleftrightarrow> op_allowed m x \<and> ops_allowed (spec_op m x) xs"

text \<open>The coins that a later flush writes to disk are coins that the disk format carries.\<close>

definition dirty_storable :: "CCoinsViewCache \<Rightarrow> bool" where
  "dirty_storable c \<longleftrightarrow> (\<forall>p e. map_of (cacheCoins c) p = Some e \<and> DIRTY e \<longrightarrow> IsSpent (ce_coin e) \<or> storable (ce_coin e))"

fun view_storable :: "coins_view \<Rightarrow> bool" where
  "view_storable (ViewDB d) \<longleftrightarrow> ec_law (db_ec d)"
| "view_storable (ViewCache c base) \<longleftrightarrow> dirty_storable c \<and> view_storable base"

definition good_view :: "usage \<Rightarrow> CCoinsViewCache \<times> coins_view \<Rightarrow> bool" where
  "good_view u v \<longleftrightarrow> cache_view_inv u (fst v) (snd v) \<and> can_flush (snd v) (hashBlock (fst v)) \<and> dirty_storable (fst v) \<and> view_storable (snd v)"

lemma dirty_storable_update:
  "dirty_storable c \<Longrightarrow> DIRTY e \<longrightarrow> IsSpent (ce_coin e) \<or> storable (ce_coin e) \<Longrightarrow>
   dirty_storable (c \<lparr>cacheCoins := AList.update p e (cacheCoins c), cachedCoinsUsage := n\<rparr>)"
  unfolding dirty_storable_def by (simp add: amap_simps) blast

lemma dirty_storable_delete:
  "dirty_storable c \<Longrightarrow> dirty_storable (c \<lparr>cacheCoins := AList.delete p (cacheCoins c), cachedCoinsUsage := n\<rparr>)"
  by (auto simp: dirty_storable_def amap_simps split: if_splits)

lemma FetchCoin_from_storable:
  "FetchCoin_from u c base p (g, b') = (r, c', base') \<Longrightarrow> dirty_storable c \<Longrightarrow> view_storable base \<Longrightarrow> view_storable b' \<Longrightarrow>
   dirty_storable c' \<and> view_storable base'"
  by (auto simp: FetchCoin_from_def Let_def intro: dirty_storable_update split: option.splits)

lemma GetCoin_storable: "view_storable v \<Longrightarrow> view_storable (snd (GetCoin u v p))"
proof (induction v)
  case (ViewCache c base)
  obtain g b' where g: "GetCoin u base p = (g, b')" by (cases "GetCoin u base p")
  obtain r c' base' where f: "FetchCoin_from u c base p (g, b') = (r, c', base')" by (cases "FetchCoin_from u c base p (g, b')") auto
  from FetchCoin_from_storable [OF f] ViewCache g f show ?case by (cases r) auto
qed simp

lemma FetchCoin_storable:
  "FetchCoin u c base p = (r, c', base') \<Longrightarrow> dirty_storable c \<Longrightarrow> view_storable base \<Longrightarrow> dirty_storable c' \<and> view_storable base'"
  using FetchCoin_from_storable [of u c base p "fst (GetCoin u base p)" "snd (GetCoin u base p)" r c' base'] GetCoin_storable [of base u p]
  by (simp add: FetchCoin_def)

lemma AddCoin_storable:
  assumes "AddCoin u c p coin ow = Inr c'" "dirty_storable c" "IsUnspendable (scriptPubKey (coin_out coin)) \<or> storable coin"
  shows "dirty_storable c'"
  using assms by (auto simp: AddCoin_def Let_def intro!: dirty_storable_update split: if_splits)

lemma batch_entry_storable:
  assumes "batch_entry u c p e = Inr c'" "dirty_storable c" "DIRTY e \<longrightarrow> IsSpent (ce_coin e) \<or> storable (ce_coin e)"
  shows "dirty_storable c'"
  using assms by (auto simp: batch_entry_def intro!: dirty_storable_update dirty_storable_delete split: if_splits option.splits)

lemma batch_loop_storable:
  "batch_loop u c m = Inr c' \<Longrightarrow> dirty_storable c \<Longrightarrow>
   \<forall>(p, e) \<in> set m. DIRTY e \<longrightarrow> IsSpent (ce_coin e) \<or> storable (ce_coin e) \<Longrightarrow> dirty_storable c'"
proof (induction m arbitrary: c)
  case (Cons pe m)
  then show ?case by (cases pe) (auto simp: sbind_Inr_iff dest: batch_entry_storable)
qed simp

lemma entries_storable:
  assumes "cache_inv u c base" "dirty_storable c"
  shows "\<forall>(p, e) \<in> set (cacheCoins c). DIRTY e \<longrightarrow> IsSpent (ce_coin e) \<or> storable (ce_coin e)"
  using assms by (auto simp: cache_inv_def dirty_storable_def)

lemma storable_entries_kept:
  assumes "cache_inv u c base" "dirty_storable c" "view_storable base"
  shows "entries_kept base (cacheCoins c)"
proof (cases base)
  case (ViewDB d)
  have "kept ec coin" if "IsSpent coin" for ec coin using that by (simp add: kept_def writable_def reread_def coin_bytes_def)
  then show ?thesis using entries_storable [OF assms(1,2)] assms(3) storable_kept ViewDB by fastforce
qed simp

lemma Flush_storable:
  assumes "Flush u full c base = Inr (c', base')" "cache_inv u c base" "dirty_storable c" "view_storable base"
  shows "dirty_storable c' \<and> view_storable base'"
proof (cases base)
  case (ViewDB d)
  then obtain ds d' where b: "db_BatchWrite full d (cacheCoins c) (hashBlock c) = Inr (ds, d')" and r: "base' = ViewDB d'"
    using assms(1) by (auto simp: Flush_def sbind_Inr_iff)
  from assms(2) have "distinct (map fst (cacheCoins c))" by (simp add: cache_inv_def)
  then have "written (cacheCoins c) d d'" using b by (rule db_BatchWrite_Inr)
  then show ?thesis using assms(1,4) ViewDB r by (auto simp: Flush_def sbind_Inr_iff dirty_storable_def written_def)
next
  case (ViewCache c1 b1)
  then obtain c2 where "batch_loop u c1 (cacheCoins c) = Inr c2" "base' = ViewCache (c2 \<lparr>hashBlock := hashBlock c\<rparr>) b1"
    using assms(1) by (auto simp: Flush_def sbind_Inr_iff)
  with batch_loop_storable [OF this(1) _ entries_storable [OF assms(2,3)]] assms(1,4) ViewCache show ?thesis
    by (auto simp: Flush_def sbind_Inr_iff dirty_storable_def)
qed

lemma can_flush_GetCoin: "can_flush (snd (GetCoin u v p)) h \<longleftrightarrow> can_flush v h"
  by (cases v) (auto split: prod.splits option.splits)

lemma FetchCoin_flush:
  "FetchCoin u c base p = (r, c', base') \<Longrightarrow> hashBlock c' = hashBlock c \<and> (can_flush base' h \<longleftrightarrow> can_flush base h)"
  using can_flush_GetCoin [of u base p h]
  by (auto simp: FetchCoin_def FetchCoin_from_def Let_def split: option.splits prod.splits)

lemma Flush_flush:
  assumes "Flush u full c base = Inr (c', base')" "can_flush base (hashBlock c)"
  shows "hashBlock c' = hashBlock c \<and> can_flush base' (hashBlock c)"
proof (cases base)
  case (ViewDB d)
  have "db_heads (WriteBatch x (b @ [EraseHeads, WriteBest h])) = None" for x b h
    by (simp add: WriteBatch_def)
  then show ?thesis using assms ViewDB
    by (auto simp: Flush_def db_BatchWrite_def sbind_Inr_iff db_old_tip_def db_GetHeadBlocks_def Let_def split: if_splits prod.splits)
next
  case (ViewCache c1 b1)
  then show ?thesis using assms by (auto simp: Flush_def sbind_Inr_iff)
qed

lemma run_op_refines:
  assumes good: "good_view u v" and "op_allowed (cache_utxo v) x" and u0: "u [] = 0"
  shows "\<exists>v'. run_op u full x v = Inr v' \<and> good_view u v' \<and> cache_utxo v' = spec_op (cache_utxo v) x"
proof -
  obtain c base where v: "v = (c, base)" by fastforce
  have inv: "cache_view_inv u c base" and fl: "can_flush base (hashBlock c)" and st: "dirty_storable c" "view_storable base"
    using good v by (simp_all add: good_view_def)
  note no_unfold = utxo.simps view_inv.simps can_flush.simps
  show ?thesis
  proof (cases x)
    case (OpAdd p coin ow)
    note al = assms(2) [unfolded OpAdd v op_allowed.simps fst_conv snd_conv]
    show ?thesis
    proof (cases "IsUnspendable (scriptPubKey (coin_out coin))")
      case True
      then have "AddCoin u c p coin ow = Inr c" using al by (simp add: AddCoin_def)
      then show ?thesis using True OpAdd v good by (simp del: no_unfold)
    next
      case False
      from al have "\<not> IsSpent coin" "ow \<or> utxo (ViewCache c base) p = None" by (simp_all only: simp_thms)
      from AddCoin_correct [OF inv this(1) False this(2)] obtain c' where 1: "AddCoin u c p coin ow = Inr c'" "cache_view_inv u c' base"
        "utxo (ViewCache c' base) = (utxo (ViewCache c base))(p := Some coin)" by blast
      moreover have "hashBlock c' = hashBlock c" using 1(1) by (auto simp: AddCoin_def Let_def split: if_splits)
      moreover have "dirty_storable c'" using AddCoin_storable [OF 1(1) st(1)] al by blast
      ultimately show ?thesis using False OpAdd v fl st by (simp add: good_view_def del: no_unfold)
    qed
  next
    case (OpSpend p)
    obtain ok out c' base' where s: "SpendCoin u c base p (\<lambda>_. None) = (ok, out, c', base')"
      by (cases "SpendCoin u c base p (\<lambda>_. None)") auto
    moreover have "hashBlock c' = hashBlock c \<and> can_flush base' (hashBlock c) \<and> dirty_storable c' \<and> view_storable base'"
      using s FetchCoin_flush [of u c base p _ _ _ "hashBlock c"] fl FetchCoin_storable [OF _ st, of u p]
      by (auto simp: SpendCoin_def Let_def intro!: dirty_storable_update dirty_storable_delete split: prod.splits option.splits simp del: no_unfold)
    ultimately show ?thesis using OpSpend v SpendCoin_correct [OF inv s u0] by (simp add: good_view_def del: no_unfold)
  next
    case (OpAccess p)
    obtain coin c' base' where s: "AccessCoin u c base p = (coin, c', base')" by (cases "AccessCoin u c base p") auto
    moreover have "hashBlock c' = hashBlock c \<and> can_flush base' (hashBlock c) \<and> dirty_storable c' \<and> view_storable base'"
      using s FetchCoin_flush [of u c base p _ _ _ "hashBlock c"] fl FetchCoin_storable [OF _ st, of u p]
      by (auto simp: AccessCoin_def split: prod.splits option.splits simp del: no_unfold)
    ultimately show ?thesis using OpAccess v AccessCoin_correct [OF inv s] by (simp add: good_view_def del: no_unfold)
  next
    case (OpHave p)
    obtain b c' base' where s: "HaveCoin u c base p = (b, c', base')" by (cases "HaveCoin u c base p") auto
    moreover have "hashBlock c' = hashBlock c \<and> can_flush base' (hashBlock c) \<and> dirty_storable c' \<and> view_storable base'"
      using s FetchCoin_flush [of u c base p _ _ _ "hashBlock c"] fl FetchCoin_storable [OF _ st, of u p]
      by (auto simp: HaveCoin_def split: prod.splits option.splits simp del: no_unfold)
    ultimately show ?thesis using OpHave v HaveCoin_correct [OF inv s] by (simp add: good_view_def del: no_unfold)
  next
    case (OpUncache p)
    moreover have "hashBlock (Uncache u c p) = hashBlock c \<and> dirty_storable (Uncache u c p)"
      using st(1) by (auto simp: Uncache_def intro: dirty_storable_delete split: option.splits)
    ultimately show ?thesis using v fl st Uncache_correct [OF inv] by (simp add: good_view_def del: no_unfold)
  next
    case OpFlush
    have ci: "cache_inv u c base" using inv by simp
    note k = storable_entries_kept [OF ci st]
    obtain c' base' where f: "Flush u full c base = Inr (c', base')" "cache_view_inv u c' base'"
        "utxo (ViewCache c' base') = utxo (ViewCache c base)" using Flush_correct [OF inv fl k, of full] by blast
    then show ?thesis using OpFlush v fl Flush_flush [OF f(1) fl] Flush_storable [OF f(1) ci st] by (simp add: good_view_def del: no_unfold)
  qed
qed

lemma run_ops_refines:
  "good_view u v \<Longrightarrow> ops_allowed (cache_utxo v) xs \<Longrightarrow> u [] = 0 \<Longrightarrow>
   \<exists>v'. run_ops u full xs v = Inr v' \<and> good_view u v' \<and> cache_utxo v' = foldl spec_op (cache_utxo v) xs"
proof (induction xs arbitrary: v)
  case (Cons x xs)
  from run_op_refines [OF Cons.prems(1), of x full] Cons.prems(2,3) obtain v1 where
    "run_op u full x v = Inr v1" "good_view u v1" "cache_utxo v1 = spec_op (cache_utxo v) x"
    by (auto simp del: utxo.simps)
  with Cons.IH [of v1] Cons.prems(2,3) show ?case by (auto simp del: utxo.simps)
qed auto

section \<open>Properties\<close>

text \<open>The records of a set of coins, and a small database and a cache on it, for the witnesses.\<close>

definition db_records :: "ec_keys \<Rightarrow> (COutPoint \<Rightarrow> Coin option) \<Rightarrow> COutPoint \<Rightarrow> bytes option" where
  "db_records ec m p = (case m p of None \<Rightarrow> None | Some coin \<Rightarrow> coin_bytes ec coin)"

lemma db_records_coin:
  assumes "\<And>p coin. m p = Some coin \<Longrightarrow> kept ec coin \<and> \<not> IsSpent coin"
  shows "db_coin \<lparr>db_ec = ec, db_coins = db_records ec m, db_best = h, db_heads = hs\<rparr> = m"
proof
  fix p
  show "db_coin \<lparr>db_ec = ec, db_coins = db_records ec m, db_best = h, db_heads = hs\<rparr> p = m p"
    using assms [of p] by (cases "m p") (auto simp: db_coin_def db_records_def kept_def reread_def split: option.splits)
qed

definition ex_coin :: Coin where
  "ex_coin = \<lparr>coin_out = \<lparr>nValue = 5, scriptPubKey = [OP_1], nRounds = -10\<rparr>, coin_fCoinBase = False, coin_nHeight = 12\<rparr>"

definition ex_point :: "u32 \<Rightarrow> COutPoint" where
  "ex_point n = \<lparr>op_hash = 99, op_n = n\<rparr>"

definition ex_view :: "CCoinsViewCache \<times> coins_view" where
  "ex_view = (\<lparr>hashBlock = 7, cacheCoins = [], cachedCoinsUsage = 0\<rparr>,
     ViewDB \<lparr>db_ec = ex_keys, db_coins = db_records ex_keys (\<lambda>p. if p = ex_point 4 then Some ex_coin else None),
       db_best = Some 3, db_heads = None\<rparr>)"

lemmas ex_view_defs = ex_view_def ex_coin_def ex_point_def IsSpent_def CTxOut_IsNull_def

lemma ex_coin_facts [simp]: "\<not> IsSpent ex_coin" "\<not> IsUnspendable (scriptPubKey (coin_out ex_coin))" "ex_point m = ex_point n \<longleftrightarrow> m = n"
  by (simp_all add: ex_view_defs IsUnspendable_def GetAssetAmountFromScript_def IsAssetScript_def MAX_SCRIPT_SIZE_def)

lemma ex_coin_storable: "storable ex_coin"
  by (simp add: storable_def amount_kept_def ex_coin_def MoneyRange_def MAX_MONEY_def COIN_def MAX_SCRIPT_SIZE_def)

lemma ex_view_db [simp]:
  "db_coin \<lparr>db_ec = ex_keys, db_coins = db_records ex_keys (\<lambda>p. if p = ex_point 4 then Some ex_coin else None), db_best = h, db_heads = hs\<rparr> =
   (\<lambda>p. if p = ex_point 4 then Some ex_coin else None)"
  by (rule db_records_coin) (use storable_kept [OF ex_keys_law ex_coin_storable] in \<open>auto split: if_splits\<close>)

lemma ex_view_empty: "cache_utxo ex_view p = (if p = ex_point 4 then Some ex_coin else None)"
  by (simp add: ex_view_def)

lemma ex_view_inv: "u [] = 0 \<Longrightarrow> cache_view_inv u (fst ex_view) (snd ex_view)"
  by (auto simp: ex_view_def cache_inv_def map_usage_def split: if_splits)

lemma ex_view_good: "good_view (\<lambda>s. of_nat (length s)) ex_view"
  using ex_view_inv [of "\<lambda>s. of_nat (length s)"] ex_keys_law
  by (simp add: good_view_def del: view_inv.simps) (simp add: ex_view_def dirty_storable_def db_old_tip_def db_GetHeadBlocks_def db_GetBestBlock_def Let_def)

text \<open>
  C4. Refinement of the coins cache. Any sequence of additions, spends, reads, evictions and flushes
  on a cache over any stack of views, down to a database of compressed records, raises no exception, keeps the cache invariant (FRESH and DIRTY
  flags, memory accounting), and leaves the set of unspent outputs that the same sequence of plain map
  updates leaves. The coins that are added are unspent, do not silently replace others, and are coins that the disk format carries
  (amounts at most 2,049,638,230,412,172,402 or a multiple of ten, default rounds, heights below \<open>2 ^ 30\<close>), or outputs that are never stored; a best block is set; an
  empty script uses no memory; and the curve library is lawful.
\<close>

theorem coins_cache_refines_utxo_set:
  assumes "good_view u v" "ops_allowed (cache_utxo v) xs" "u [] = 0"
  shows "\<exists>v'. run_ops u full xs v = Inr v' \<and> good_view u v' \<and> cache_utxo v' = foldl spec_op (cache_utxo v) xs"
  using assms by (rule run_ops_refines)

theorem coins_cache_refines_utxo_set_witness:
  "\<exists>v'. run_ops (\<lambda>s. of_nat (length s)) (\<lambda>b. 3 < length b)
     [OpAdd (ex_point 1) ex_coin False, OpSpend (ex_point 4), OpFlush, OpHave (ex_point 1), OpUncache (ex_point 1)] ex_view = Inr v' \<and>
   good_view (\<lambda>s. of_nat (length s)) v' \<and>
   cache_utxo v' = (cache_utxo ex_view)(ex_point 1 := Some ex_coin, ex_point 4 := None)"
  using coins_cache_refines_utxo_set [OF ex_view_good, of "[OpAdd (ex_point 1) ex_coin False, OpSpend (ex_point 4), OpFlush,
    OpHave (ex_point 1), OpUncache (ex_point 1)]" "\<lambda>b. 3 < length b"]
  by (simp add: ex_view_empty ex_coin_storable del: utxo.simps run_ops.simps)

text \<open>
  C32. Flushing to the database. If the dirty coins of the cache are ones that the disk format carries and the curve library is lawful, the
  final state of \<^verbatim>\<open>CCoinsViewDB::BatchWrite\<close> holds records from which exactly the coins the cache
  stood for are read back, with the new best block and no head blocks. Whatever the batch size, every state that a
  crash between two partial writes leaves on disk has no best block, names the two blocks it is between,
  and has the record of every coin as it was before or as it is after.
\<close>

theorem coins_db_flush_crash_states:
  assumes "cache_view_inv u c (ViewDB d)" "dirty_storable c" "ec_law (db_ec d)" "hashBlock c \<noteq> 0" "db_old_tip d (hashBlock c) = Inr old"
  shows "\<exists>ds d'. db_BatchWrite full d (cacheCoins c) (hashBlock c) = Inr (ds, d') \<and>
    db_coin d' = utxo (ViewCache c (ViewDB d)) \<and> db_best d' = Some (hashBlock c) \<and> db_heads d' = None \<and>
    (\<forall>x \<in> set ds. db_best x = None \<and> db_heads x = Some [hashBlock c, old] \<and>
       (\<forall>p. db_coins x p = db_coins d p \<or> db_coins x p = db_coins d' p))"
proof -
  have ci: "cache_inv u c (ViewDB d)" and m: "distinct (map fst (cacheCoins c))" using assms(1) by (simp_all add: cache_inv_def)
  have k: "\<forall>(p, e) \<in> set (cacheCoins c). entry_ok (ViewDB d) p e \<and> (DIRTY e \<longrightarrow> kept (db_ec d) (ce_coin e))"
    using storable_entries_kept [OF ci assms(2)] assms(3) ci by (auto simp: cache_inv_def)
  then have "\<forall>(p, e) \<in> set (cacheCoins c). DIRTY e \<longrightarrow> writable (db_ec d) (ce_coin e)" by (auto simp: kept_def)
  from db_BatchWrite_total [OF this assms(4,5)] obtain ds d' where b: "db_BatchWrite full d (cacheCoins c) (hashBlock c) = Inr (ds, d')" by blast
  from m b obtain old' where w: "db_old_tip d (hashBlock c) = Inr old'" "written (cacheCoins c) d d'" "db_best d' = Some (hashBlock c)" "db_heads d' = None"
    "\<And>x. x \<in> set ds \<Longrightarrow> db_best x = None \<and> db_heads x = Some [hashBlock c, old'] \<and> (\<forall>p. db_coins x p = db_coins d p \<or> db_coins x p = db_coins d' p)"
    by (rule db_BatchWrite_Inr) blast
  have "utxo (ViewDB d) = db_coin d" by auto
  then have "db_coin d' = utxo (ViewCache c (ViewDB d))"
    using db_coins_kept [OF w(2) m k] overlay_utxo [of c "ViewDB d"] by simp
  then show ?thesis using b w assms(5) by (intro exI [of _ ds] exI [of _ d']) (simp del: utxo.simps)
qed

theorem coins_db_flush_crash_states_witness:
  "\<exists>ds d'. db_BatchWrite (\<lambda>_. True) \<lparr>db_ec = ex_keys, db_coins = \<lambda>_. None, db_best = Some 3, db_heads = None\<rparr>
      [(ex_point 1, \<lparr>ce_coin = ex_coin, DIRTY = True, FRESH = True\<rparr>)] 7 = Inr (ds, d') \<and>
    db_coin d' (ex_point 1) = Some ex_coin \<and> db_best d' = Some 7 \<and> db_heads d' = None \<and>
    (\<forall>x \<in> set ds. db_best x = None \<and> db_heads x = Some [7, 3])"
proof -
  let ?d = "\<lparr>db_ec = ex_keys, db_coins = \<lambda>_. None, db_best = Some 3, db_heads = None\<rparr>"
  let ?c = "\<lparr>hashBlock = 7, cacheCoins = [(ex_point 1, \<lparr>ce_coin = ex_coin, DIRTY = True, FRESH = True\<rparr>)], cachedCoinsUsage = 0\<rparr>"
  have "cache_view_inv (\<lambda>_. 0) ?c (ViewDB ?d)" "dirty_storable ?c" "ec_law (db_ec ?d)" "hashBlock ?c \<noteq> 0" "db_old_tip ?d (hashBlock ?c) = Inr 3"
    using ex_keys_law by (simp_all add: cache_inv_def entry_ok_def map_usage_def coin_usage_def db_old_tip_def db_GetBestBlock_def
      db_GetHeadBlocks_def dirty_storable_def ex_coin_storable db_coin_def)
  from coins_db_flush_crash_states [OF this, of "\<lambda>_. True"] obtain ds d' where
    "db_BatchWrite (\<lambda>_. True) ?d (cacheCoins ?c) (hashBlock ?c) = Inr (ds, d')" "db_coin d' = utxo (ViewCache ?c (ViewDB ?d))"
    "db_best d' = Some 7" "db_heads d' = None" "\<forall>x \<in> set ds. db_best x = None \<and> db_heads x = Some [7, 3]" by auto
  then show ?thesis by (intro exI [of _ ds] exI [of _ d']) simp
qed

text \<open>
  \<^verbatim>\<open>AddCoins\<close> of a transaction whose outputs are not null (and which are new, unless the caller asks for
  the check or the transaction is a coinbase) raises no exception and makes exactly its spendable
  outputs unspent, at the right height and with the right coinbase flag.
\<close>

theorem AddCoins_adds_outputs:
  assumes "cache_view_inv u c base" "\<forall>x \<in> set (vout tx). \<not> CTxOut_IsNull x" "length (vout tx) \<le> 2 ^ 32"
    and "check \<or> IsCoinBase tx \<or> (\<forall>p. op_hash p = txid \<longrightarrow> utxo (ViewCache c base) p = None)"
  shows "\<exists>c' base'. AddCoins u c base txid tx h check = Inr (c', base') \<and> cache_view_inv u c' base' \<and>
    (\<forall>p. utxo (ViewCache c' base') p =
      (if op_hash p = txid \<and> unat (op_n p) < length (vout tx) \<and> \<not> IsUnspendable (scriptPubKey (vout tx ! unat (op_n p)))
       then Some (mk_Coin (vout tx ! unat (op_n p)) h (IsCoinBase tx)) else utxo (ViewCache c base) p))"
  using AddCoins_loop_correct [OF assms(1,2), of 0 check "IsCoinBase tx" txid h] assms(3,4)
  by (auto simp: AddCoins_def with_outputs_def Let_def simp del: utxo.simps view_inv.simps)

definition ex_tx :: CTransaction where
  "ex_tx = \<lparr>nVersion = 2, nType = 0, vin = [\<lparr>prevout = ex_point 4, scriptSig = [], nSequence = 0, scriptWitness = []\<rparr>],
     vout = [coin_out ex_coin], nLockTime = 0, vExtraPayload = []\<rparr>"

lemma ex_tx_simps [simp]: "\<not> IsCoinBase ex_tx" "vout ex_tx = [coin_out ex_coin]" "map prevout (vin ex_tx) = [ex_point 4]"
  by (simp_all add: ex_tx_def IsCoinBase_def COutPoint_IsNull_def ex_point_def)

theorem AddCoins_adds_outputs_witness:
  "\<exists>c' base'. AddCoins (\<lambda>_. 0) (fst ex_view) (snd ex_view) 42 ex_tx 12 False = Inr (c', base') \<and>
    utxo (ViewCache c' base') \<lparr>op_hash = 42, op_n = 0\<rparr> = Some ex_coin"
proof -
  have "cache_view_inv (\<lambda>_. 0) (fst ex_view) (snd ex_view)"
    by (rule ex_view_inv) simp
  moreover have "\<forall>x \<in> set (vout ex_tx). \<not> CTxOut_IsNull x" "length (vout ex_tx) \<le> 2 ^ 32"
    by (simp_all add: ex_tx_def ex_view_defs)
  moreover have "\<forall>p. op_hash p = 42 \<longrightarrow> cache_utxo ex_view p = None"
    by (auto simp: ex_view_empty ex_point_def simp del: utxo.simps)
  ultimately obtain c' base' where 1: "AddCoins (\<lambda>_. 0) (fst ex_view) (snd ex_view) 42 ex_tx 12 False = Inr (c', base')"
    "\<forall>p. utxo (ViewCache c' base') p =
      (if op_hash p = 42 \<and> unat (op_n p) < length (vout ex_tx) \<and> \<not> IsUnspendable (scriptPubKey (vout ex_tx ! unat (op_n p)))
       then Some (mk_Coin (vout ex_tx ! unat (op_n p)) 12 (IsCoinBase ex_tx)) else cache_utxo ex_view p)"
    using AddCoins_adds_outputs [of "\<lambda>_. 0" "fst ex_view" "snd ex_view" ex_tx False 42 12] by blast
  moreover have "mk_Coin (coin_out ex_coin) 12 False = ex_coin" by (simp add: mk_Coin_def ex_coin_def)
  ultimately show ?thesis using 1(2) [rule_format, of "\<lparr>op_hash = 42, op_n = 0\<rparr>"] by (auto simp del: utxo.simps)
qed

text \<open>
  Looking up the inputs of a transaction, through any stack of caches, finds them all exactly if
  all are unspent, and the value it reports is the (64-bit) sum of their values.
\<close>

theorem tx_inputs_looked_up:
  assumes "cache_view_inv u c base" "\<not> IsCoinBase tx"
  shows "fst (HaveInputs u c base tx) = (\<forall>i \<in> set (vin tx). utxo (ViewCache c base) (prevout i) \<noteq> None) \<and>
    fst (GetValueIn u c base tx) = int64 (\<Sum>i\<leftarrow>vin tx. nValue (coin_out (coin_at (utxo (ViewCache c base)) (prevout i))))"
proof -
  have "int64 0 = 0" by (simp add: int64_def)
  then show ?thesis
    using HaveInputs_loop_correct [OF assms(1), of "vin tx"] GetValueIn_loop_correct [OF assms(1), of "vin tx" 0] assms(2)
    by (auto simp: HaveInputs_def GetValueIn_def foldl_int64 simp del: utxo.simps view_inv.simps)
qed

theorem tx_inputs_looked_up_witness:
  "fst (HaveInputs (\<lambda>_. 0) (fst ex_view) (snd ex_view) ex_tx) \<and> fst (GetValueIn (\<lambda>_. 0) (fst ex_view) (snd ex_view) ex_tx) = 5"
proof -
  have "cache_view_inv (\<lambda>_. 0) (fst ex_view) (snd ex_view)"
    by (rule ex_view_inv) simp
  moreover have vin: "vin ex_tx = [\<lparr>prevout = ex_point 4, scriptSig = [], nSequence = 0, scriptWitness = []\<rparr>]"
    by (simp add: ex_tx_def)
  ultimately show ?thesis
    using tx_inputs_looked_up [of "\<lambda>_. 0" "fst ex_view" "snd ex_view" ex_tx]
    by (simp add: vin ex_view_empty coin_at_def int64_def del: utxo.simps view_inv.simps) (simp add: ex_coin_def)
qed

end
