(* ===== verification/TxVerify.thy ===== *)
theory TxVerify
  imports AssetTx Coins "HOL-Library.Product_Lexorder" "HOL-Library.Signed_Division"
begin

text \<open>
  The consensus checks of one transaction: \<^verbatim>\<open>CheckTransaction\<close>, \<^verbatim>\<open>CheckTxInputs\<close> and the counting of signature
  operations (\<^verbatim>\<open>src/src/consensus/tx_verify.cpp\<close>), with the founder payment (\<^verbatim>\<open>src/src/founder_payment.cpp\<close>).
\<close>

section \<open>The founder payment\<close>

record FounderRewardStructure =
  fr_blockHeight :: int
  fr_rewardBasisPoints :: int

record FounderPayment =
  founderAddress :: string
  startBlock :: int
  rewardStructures :: "FounderRewardStructure list"

record consensus_params =
  nFounderPayment :: FounderPayment
  DIP0003Height :: int

definition INT_MAX :: int where "INT_MAX = 2147483647"

definition main_consensus :: consensus_params where
  "main_consensus =
     \<lparr>nFounderPayment = \<lparr>founderAddress = ''B75r9F5RG37pDjKWumQyF7e8V5EDZXW7W2'', startBlock = 1,
        rewardStructures = [\<lparr>fr_blockHeight = INT_MAX, fr_rewardBasisPoints = 50\<rparr>]\<rparr>,
      DIP0003Height = INT_MAX\<rparr>"

fun founder_loop :: "FounderRewardStructure list \<Rightarrow> int \<Rightarrow> int \<Rightarrow> int" where
  "founder_loop [] blockHeight blockReward = 0"
| "founder_loop (r # rs) blockHeight blockReward =
     (if fr_blockHeight r = INT_MAX \<or> blockHeight \<le> fr_blockHeight r
      then int64 (blockReward * fr_rewardBasisPoints r) sdiv 10000
      else founder_loop rs blockHeight blockReward)"

definition getFounderPaymentAmount :: "FounderPayment \<Rightarrow> int \<Rightarrow> int \<Rightarrow> int" where
  "getFounderPaymentAmount fp blockHeight blockReward =
     (if blockHeight < startBlock fp then 0 else founder_loop (rewardStructures fp) blockHeight blockReward)"

definition founder_payee :: "crypto \<Rightarrow> chain_params \<Rightarrow> FounderPayment \<Rightarrow> script" where
  "founder_payee C P fp = GetScriptForDestination (address_dest C P (founderAddress fp))"

definition FillFounderPayment :: "crypto \<Rightarrow> chain_params \<Rightarrow> FounderPayment \<Rightarrow> CTransaction \<Rightarrow> int \<Rightarrow> int \<Rightarrow> CTransaction" where
  "FillFounderPayment C P fp txNew nBlockHeight blockReward =
     (let founderPayment = getFounderPaymentAmount fp nBlockHeight blockReward;
          out0 = vout txNew ! 0 in
      txNew \<lparr>vout := (vout txNew) [0 := out0 \<lparr>nValue := int64 (nValue out0 - founderPayment)\<rparr>] @
        [\<lparr>nValue = founderPayment, scriptPubKey = founder_payee C P fp, nRounds = -10\<rparr>]\<rparr>)"

definition IsBlockPayeeValid :: "crypto \<Rightarrow> chain_params \<Rightarrow> FounderPayment \<Rightarrow> CTransaction \<Rightarrow> int \<Rightarrow> int \<Rightarrow> bool" where
  "IsBlockPayeeValid C P fp txNew height blockReward \<longleftrightarrow>
     list_ex (\<lambda>out. scriptPubKey out = founder_payee C P fp \<and> nValue out \<ge> getFounderPaymentAmount fp height blockReward) (vout txNew)"

text \<open>The height \<open>-1\<close> stands for the height of the tip.\<close>

definition isDIPDIP0003Active :: "consensus_params \<Rightarrow> int \<Rightarrow> int \<Rightarrow> bool" where
  "isDIPDIP0003Active K tipHeight nHeight \<longleftrightarrow> (if nHeight = -1 then tipHeight else nHeight) \<ge> DIP0003Height K"

section \<open>Check of a transaction\<close>

text \<open>
  A check fails with the score and the reason that the code passes to \<^verbatim>\<open>state.DoS\<close> (\<^verbatim>\<open>state.Invalid\<close> is the score 0), at an
  assertion, with an exception, or where the code reads past the end of a container.
\<close>

datatype tx_error = DoS nat string | AssertFailed | Throws | Undefined

type_synonym 'a tx_check = "tx_error + 'a"

definition reject_if :: "bool \<Rightarrow> nat \<Rightarrow> string \<Rightarrow> unit tx_check" where
  "reject_if b n reason = (if b then Inl (DoS n reason) else Inr ())"

definition reject_none :: "'a option \<Rightarrow> nat \<Rightarrow> string \<Rightarrow> 'a tx_check" where
  "reject_none x n reason = (case x of None \<Rightarrow> Inl (DoS n reason) | Some y \<Rightarrow> Inr y)"

definition reject_check :: "'a check \<Rightarrow> nat \<Rightarrow> string \<Rightarrow> 'a tx_check" where
  "reject_check x n pre = (case x of Inl e \<Rightarrow> Inl (DoS n (pre @ e)) | Inr y \<Rightarrow> Inr y)"

definition TRANSACTION_COINBASE :: int where "TRANSACTION_COINBASE = 5"
definition TRANSACTION_QUORUM_COMMITMENT :: int where "TRANSACTION_QUORUM_COMMITMENT = 6"
definition MAX_BLOCK_WEIGHT_RIP2 :: nat where "MAX_BLOCK_WEIGHT_RIP2 = 8000000"
definition MAX_TX_EXTRA_PAYLOAD :: nat where "MAX_TX_EXTRA_PAYLOAD = 10000"
definition WITNESS_SCALE_FACTOR :: nat where "WITNESS_SCALE_FACTOR = 4"
definition COINBASE_MATURITY :: int where "COINBASE_MATURITY = 100"
definition GetMaxBlockWeight :: nat where "GetMaxBlockWeight = MAX_BLOCK_WEIGHT_RIP2"

definition check_sizes :: "CTransaction \<Rightarrow> unit tx_check" where
  "check_sizes tx =
     (let allowEmptyTxInOut = (nType tx = TRANSACTION_QUORUM_COMMITMENT) in
      sbind (reject_if (\<not> allowEmptyTxInOut \<and> vin tx = []) 10 ''bad-txns-vin-empty'') (\<lambda>_.
      sbind (reject_if (\<not> allowEmptyTxInOut \<and> vout tx = []) 10 ''bad-txns-vout-empty'') (\<lambda>_.
      sbind (reject_if (length (SerializeTransaction False tx) * WITNESS_SCALE_FACTOR > GetMaxBlockWeight) 100 ''bad-txns-oversize'') (\<lambda>_.
      reject_if (length (vExtraPayload tx) > MAX_TX_EXTRA_PAYLOAD) 100 ''bad-txns-payload-oversize''))))"

text \<open>
  The variables of the loop over the outputs. The map from an asset name and an address to a count is the list of
  its keys: the second occurrence of a key is an error.
\<close>

record vout_state =
  vs_nValueOut :: int
  setAssetTransferNames :: "string list"
  mapNullDataTxCount :: "(string \<times> string) list"
  setNullGlobalAssetChanges :: "string list"
  fContainsNullAssetVerifierTx :: bool
  nCountAddTagOuts :: nat

definition vout_state0 :: vout_state where
  "vout_state0 = \<lparr>vs_nValueOut = 0, setAssetTransferNames = [], mapNullDataTxCount = [], setNullGlobalAssetChanges = [],
     fContainsNullAssetVerifierTx = False, nCountAddTagOuts = 0\<rparr>"

definition check_value :: "CTxOut \<Rightarrow> vout_state \<Rightarrow> vout_state tx_check" where
  "check_value txout st =
     sbind (reject_if (nValue txout < 0) 100 ''bad-txns-vout-negative'') (\<lambda>_.
     sbind (reject_if (nValue txout > MAX_MONEY) 100 ''bad-txns-vout-toolarge'') (\<lambda>_.
     let nValueOut = int64 (vs_nValueOut st + nValue txout) in
     sbind (reject_if (\<not> MoneyRange nValueOut) 100 ''bad-txns-txouttotal-toolarge'') (\<lambda>_.
     Inr (st \<lparr>vs_nValueOut := nValueOut\<rparr>))))"

definition check_null_asset :: "crypto \<Rightarrow> chain_params \<Rightarrow> CTxOut \<Rightarrow> vout_state \<Rightarrow> vout_state tx_check" where
  "check_null_asset C P txout st =
     (if \<not> IsNullAsset (scriptPubKey txout) then Inr st
      else if IsNullAssetTxDataScript (scriptPubKey txout) then
        sbind (reject_none (AssetNullDataFromScript C P (scriptPubKey txout)) 100 ''bad-txns-null-asset-data-serialization'') (\<lambda>(data, address).
        sbind (reject_check (VerifyNullAssetDataFlag (nd_flag data)) 100 []) (\<lambda>_.
        sbind (reject_if ((nd_asset_name data, address) \<in> set (mapNullDataTxCount st)) 100
          ''bad-txns-null-data-only-one-change-per-asset-address'') (\<lambda>_.
        Inr (st \<lparr>mapNullDataTxCount := (nd_asset_name data, address) # mapNullDataTxCount st,
          nCountAddTagOuts := nCountAddTagOuts st +
            (if IsAssetNameAQualifier (nd_asset_name data) False \<and> nd_flag data = 1 then 1 else 0)\<rparr>))))
      else if IsNullGlobalRestrictionAssetTxDataScript (scriptPubKey txout) then
        sbind (reject_none (GlobalAssetNullDataFromScript (scriptPubKey txout)) 100 ''bad-txns-null-global-asset-data-serialization'') (\<lambda>data.
        sbind (reject_check (VerifyNullAssetDataFlag (nd_flag data)) 100 []) (\<lambda>_.
        sbind (reject_if (nd_asset_name data \<in> set (setNullGlobalAssetChanges st)) 100
          ''bad-txns-null-data-only-one-global-change-per-asset-name'') (\<lambda>_.
        Inr (st \<lparr>setNullGlobalAssetChanges := nd_asset_name data # setNullGlobalAssetChanges st\<rparr>))))
      else if IsNullAssetVerifierTxDataScript (scriptPubKey txout) then
        sbind (reject_check (CheckVerifierAssetTxOut txout) 100 []) (\<lambda>_.
        sbind (reject_if (fContainsNullAssetVerifierTx st) 100 ''bad-txns-null-data-only-one-verifier-per-tx'') (\<lambda>_.
        Inr (st \<lparr>fContainsNullAssetVerifierTx := True\<rparr>)))
      else Inr st)"

definition check_transfer :: "crypto \<Rightarrow> chain_params \<Rightarrow> CTxOut \<Rightarrow> vout_state \<Rightarrow> vout_state tx_check" where
  "check_transfer C P txout st =
     sbind (reject_none (TransferAssetFromScript C P (scriptPubKey txout)) 100 ''bad-txns-transfer-asset-bad-deserialize'') (\<lambda>(transfer, address).
     case IsAssetNameValid (tr_strName transfer) of
       Inl _ \<Rightarrow> Inl (DoS 100 ''bad-txns-transfer-asset-name-invalid'')
     | Inr assetType \<Rightarrow>
         sbind (reject_if (IsAssetNameAnOwner (tr_strName transfer) \<and> tr_nAmount transfer \<noteq> OWNER_ASSET_AMOUNT) 100
           ''bad-txns-transfer-owner-amount-was-not-1'') (\<lambda>_.
         sbind (reject_if (assetType = UNIQUE \<and> tr_nAmount transfer \<noteq> UNIQUE_ASSET_AMOUNT) 100
           ''bad-txns-transfer-unique-amount-was-not-1'') (\<lambda>_.
         sbind (reject_if ((assetType = QUALIFIER \<or> assetType = SUB_QUALIFIER) \<and>
             (tr_nAmount transfer < QUALIFIER_ASSET_MIN_AMOUNT \<or> tr_nAmount transfer > QUALIFIER_ASSET_MAX_AMOUNT)) 100
           ''bad-txns-transfer-qualifier-amount-must be between 1 - 100'') (\<lambda>_.
         sbind (reject_if (nValue txout \<noteq> 0) 100 ''bad-txns-asset-transfer-amount-isn't-zero'') (\<lambda>_.
         Inr (st \<lparr>setAssetTransferNames := tr_strName transfer # setAssetTransferNames st\<rparr>))))))"

definition check_asset_out ::
  "crypto \<Rightarrow> chain_params \<Rightarrow> bool \<Rightarrow> bool \<Rightarrow> CTxOut \<Rightarrow> vout_state \<Rightarrow> vout_state tx_check" where
  "check_asset_out C P fMempoolCheck fBlockCheck txout st =
     (case IsAssetScript (scriptPubKey txout) of
        None \<Rightarrow> Inr st
      | Some (nTyp, fIsOwner, _) \<Rightarrow>
          if nTyp = TX_TRANSFER_ASSET then check_transfer C P txout st
          else if nTyp = TX_NEW_ASSET then
            sbind (reject_if (nValue txout \<noteq> 0) 100 ''bad-txns-asset-issued-amount-isn't-zero'') (\<lambda>_. Inr st)
          else if nTyp = TX_REISSUE_ASSET then
            sbind (reject_if (fBlockCheck \<and> nValue txout \<noteq> 0) 0 ''bad-txns-asset-reissued-amount-isn't-zero'') (\<lambda>_.
            sbind (reject_if (fMempoolCheck \<and> nValue txout \<noteq> 0) 0 ''bad-mempool-txns-asset-reissued-amount-isn't-zero'') (\<lambda>_.
            Inr st))
          else Inl (DoS 0 ''bad-asset-type-not-any-of-the-main-three''))"

fun vout_loop ::
  "crypto \<Rightarrow> chain_params \<Rightarrow> bool \<Rightarrow> bool \<Rightarrow> CTxOut list \<Rightarrow> vout_state \<Rightarrow> vout_state tx_check" where
  "vout_loop C P fMempoolCheck fBlockCheck [] st = Inr st"
| "vout_loop C P fMempoolCheck fBlockCheck (txout # txouts) st =
     sbind (check_value txout st) (\<lambda>st1.
     sbind (check_null_asset C P txout st1) (\<lambda>st2.
     sbind (check_asset_out C P fMempoolCheck fBlockCheck txout st2) (\<lambda>st3.
     vout_loop C P fMempoolCheck fBlockCheck txouts st3)))"

text \<open>
  The null data of the outputs needs a transfer of the owner token, or of the qualifier, in the same transaction.
  The entries are visited in the order of the keys. \<^verbatim>\<open>front()\<close> of an empty name reads past its end.
\<close>

definition null_data_entry :: "string list \<Rightarrow> string \<times> string \<Rightarrow> unit tx_check" where
  "null_data_entry transfers entry =
     (case fst entry of
        [] \<Rightarrow> Inl Undefined
      | c # ownerToken \<Rightarrow>
          if c = CHR ''$'' then
            reject_if (ownerToken @ OWNER_TAG \<notin> set transfers) 100 ''bad-txns-tx-contains-restricted-asset-null-tx-without-asset-transfer''
          else reject_if (fst entry \<notin> set transfers) 100 ''bad-txns-tx-contains-qualifier-asset-null-tx-without-asset-transfer'')"

definition global_entry :: "string list \<Rightarrow> string \<Rightarrow> unit tx_check" where
  "global_entry transfers name =
     (case name of
        [] \<Rightarrow> Inl (DoS 100 ''bad-txns-tx-contains-global-asset-null-tx-with-null-asset-name'')
      | c # rootName \<Rightarrow>
          reject_if (rootName @ OWNER_TAG \<notin> set transfers) 100 ''bad-txns-tx-contains-global-asset-null-tx-without-asset-transfer'')"

fun check_all :: "('a \<Rightarrow> unit tx_check) \<Rightarrow> 'a list \<Rightarrow> unit tx_check" where
  "check_all f [] = Inr ()"
| "check_all f (x # xs) = sbind (f x) (\<lambda>_. check_all f xs)"

definition check_null_data :: "crypto \<Rightarrow> chain_params \<Rightarrow> CTransaction \<Rightarrow> vout_state \<Rightarrow> unit tx_check" where
  "check_null_data C P tx st =
     sbind (reject_if (nCountAddTagOuts st \<noteq> 0 \<and> \<not> CheckAddingTagBurnFee C P tx (nCountAddTagOuts st)) 100
       ''bad-txns-tx-doesn't-contain-required-burn-fee-for-adding-tags'') (\<lambda>_.
     sbind (check_all (null_data_entry (setAssetTransferNames st)) (sort (mapNullDataTxCount st))) (\<lambda>_.
     check_all (global_entry (setAssetTransferNames st)) (sort (setNullGlobalAssetChanges st))))"

definition check_coinbase ::
  "crypto \<Rightarrow> chain_params \<Rightarrow> consensus_params \<Rightarrow> int \<Rightarrow> CTransaction \<Rightarrow> int \<Rightarrow> int \<Rightarrow> unit tx_check" where
  "check_coinbase C P K tipHeight tx nHeight blockReward =
     (let minCbSize = (if nType tx = TRANSACTION_COINBASE then 1 else 2);
          cbSize = length (scriptSig (vin tx ! 0));
          founderPayment = nFounderPayment K;
          founderReward = getFounderPaymentAmount founderPayment nHeight blockReward;
          founderStartHeight = startBlock founderPayment in
      sbind (reject_if (cbSize < minCbSize \<or> cbSize > 100) 100 ''bad-cb-length'') (\<lambda>_.
      sbind (reject_if (AreCoinbaseCheckAssetsDeployed \<and>
          list_ex (\<lambda>out. IsAssetScript (scriptPubKey out) \<noteq> None \<or> IsNullAsset (scriptPubKey out)) (vout tx)) 0
        ''bad-txns-coinbase-contains-asset-txes'') (\<lambda>_.
      sbind (reject_if (nHeight > founderStartHeight \<and> founderReward \<noteq> 0 \<and>
          \<not> IsBlockPayeeValid C P founderPayment tx nHeight blockReward) 100 ''bad-cb-founder-payment-not-found'') (\<lambda>_.
      if nHeight > founderStartHeight \<and> \<not> isDIPDIP0003Active K tipHeight nHeight \<and> founderReward \<noteq> 0 then
        (if length (vout tx) < 2 then Inl Undefined
         else reject_if (nValue (vout tx ! 1) \<noteq> founderReward) 100 ''bad-cb-community-autonomous-amount'')
      else Inr ()))))"

text \<open>
  The kind of the transaction by its asset outputs; the result tells whether it issues and whether it reissues a
  restricted asset.
\<close>

definition check_new_asset :: "crypto \<Rightarrow> chain_params \<Rightarrow> CTransaction \<Rightarrow> unit tx_check" where
  "check_new_asset C P tx =
     sbind (reject_check (VerifyNewAsset C P tx) 100 []) (\<lambda>_.
     sbind (reject_none (AssetFromTransaction C P tx) 100 ''bad-txns-issue-asset-from-transaction'') (\<lambda>(asset, strAddress).
     sbind (reject_check (IsNewOwnerTxValid C P tx (na_strName asset) strAddress) 100 []) (\<lambda>_.
     reject_check (CheckNewAsset asset) 100 [])))"

definition check_reissue :: "crypto \<Rightarrow> chain_params \<Rightarrow> CTransaction \<Rightarrow> bool tx_check" where
  "check_reissue C P tx =
     sbind (reject_check (VerifyReissueAsset C P tx) 100 []) (\<lambda>_.
     sbind (reject_none (ReissueAssetFromTransaction C P tx) 100 ''bad-txns-reissue-asset'') (\<lambda>(reissue, strAddress).
     sbind (reject_check (CheckReissueAsset P reissue) 100 []) (\<lambda>_.
     if asset_type_of (re_strName reissue) = RESTRICTED then
       (case GetVerifierStringFromTx tx of
          Inl (Some strError) \<Rightarrow> Inl (DoS 100 (''bad-txns-reissue-restricted-verifier-'' @ strError))
        | _ \<Rightarrow> Inr True)
     else Inr False)))"

definition check_unique_out :: "crypto \<Rightarrow> chain_params \<Rightarrow> CTxOut \<Rightarrow> unit tx_check" where
  "check_unique_out C P out =
     (if IsScriptNewUniqueAsset C P (scriptPubKey out) then
        sbind (reject_none (AssetFromScript C P (scriptPubKey out)) 100
          ''bad-txns-check-transaction-issue-unique-asset-serialization'') (\<lambda>(asset, strAddress).
        reject_check (CheckNewAsset asset) 100 ''bad-txns-issue-unique'')
      else Inr ())"

definition check_msgchannel :: "crypto \<Rightarrow> chain_params \<Rightarrow> CTransaction \<Rightarrow> unit tx_check" where
  "check_msgchannel C P tx =
     sbind (reject_check (VerifyNewMsgChannelAsset C P tx) 100 []) (\<lambda>_.
     sbind (reject_none (MsgChannelAssetFromTransaction C P tx) 100 ''bad-txns-issue-msgchannel-from-transaction'') (\<lambda>(asset, strAddress).
     reject_check (CheckNewAsset asset) 100 ''bad-txns-issue-msgchannel''))"

definition check_qualifier :: "crypto \<Rightarrow> chain_params \<Rightarrow> CTransaction \<Rightarrow> unit tx_check" where
  "check_qualifier C P tx =
     sbind (reject_check (VerifyNewQualfierAsset C P tx) 100 []) (\<lambda>_.
     sbind (reject_none (QualifierAssetFromTransaction C P tx) 100 ''bad-txns-issue-qualifier-from-transaction'') (\<lambda>(asset, strAddress).
     reject_check (CheckNewAsset asset) 100 ''bad-txns-issue-qualfier''))"

definition check_restricted :: "crypto \<Rightarrow> chain_params \<Rightarrow> CTransaction \<Rightarrow> unit tx_check" where
  "check_restricted C P tx =
     sbind (reject_check (VerifyNewRestrictedAsset C P tx) 100 []) (\<lambda>_.
     sbind (reject_none (RestrictedAssetFromTransaction C P tx) 100 ''bad-txns-issue-restricted-from-transaction'') (\<lambda>(asset, strAddress).
     sbind (reject_check (CheckNewAsset asset) 100 ''bad-txns-issue-restricted'') (\<lambda>_.
     case GetVerifierStringFromTx tx of
       Inl e \<Rightarrow> Inl (DoS 100 (''bad-txns-issue-restricted-verifier-search-'' @ verifier_tx_text e))
     | Inr _ \<Rightarrow> Inr ())))"

definition check_plain_out :: "CTxOut \<Rightarrow> unit tx_check" where
  "check_plain_out out =
     (case IsAssetScript (scriptPubKey out) of
        Some (nTyp, _, _) \<Rightarrow> reject_if (nTyp \<noteq> TX_TRANSFER_ASSET) 100 ''bad-txns-bad-asset-transaction''
      | None \<Rightarrow>
          reject_if (Find (scriptPubKey out) OP_BLKR_ASSET > 0 \<and> scriptPubKey out ! 0 \<noteq> OP_BLKR_ASSET) 100
            ''bad-txns-op-BLKR-asset-not-in-right-script-location'')"

definition check_asset_tx :: "crypto \<Rightarrow> chain_params \<Rightarrow> CTransaction \<Rightarrow> (bool \<times> bool) tx_check" where
  "check_asset_tx C P tx =
     (if tx_IsNewAsset C P tx then sbind (check_new_asset C P tx) (\<lambda>_. Inr (False, False))
      else if tx_IsReissueAsset tx then sbind (check_reissue C P tx) (\<lambda>r. Inr (False, r))
      else if tx_IsNewUniqueAsset C P tx then
        sbind (reject_check (VerifyNewUniqueAsset C P tx) 100 []) (\<lambda>_.
        sbind (check_all (check_unique_out C P) (vout tx)) (\<lambda>_. Inr (False, False)))
      else if tx_IsNewMsgChannelAsset C P tx then sbind (check_msgchannel C P tx) (\<lambda>_. Inr (False, False))
      else if tx_IsNewQualifierAsset C P tx then sbind (check_qualifier C P tx) (\<lambda>_. Inr (False, False))
      else if tx_IsNewRestrictedAsset C P tx then sbind (check_restricted C P tx) (\<lambda>_. Inr (True, False))
      else sbind (check_all check_plain_out (vout tx)) (\<lambda>_. Inr (False, False)))"

definition CheckTransaction ::
  "crypto \<Rightarrow> chain_params \<Rightarrow> consensus_params \<Rightarrow> int \<Rightarrow> CTransaction \<Rightarrow> int \<Rightarrow> int \<Rightarrow> bool \<Rightarrow> bool \<Rightarrow> unit tx_check" where
  "CheckTransaction C P K tipHeight tx nHeight blockReward fMempoolCheck fBlockCheck =
     sbind (check_sizes tx) (\<lambda>_.
     sbind (vout_loop C P fMempoolCheck fBlockCheck (vout tx) vout_state0) (\<lambda>st.
     sbind (check_null_data C P tx st) (\<lambda>_.
     sbind (reject_if (\<not> distinct (map prevout (vin tx))) 100 ''bad-txns-inputs-duplicate'') (\<lambda>_.
     sbind (if IsCoinBase tx then check_coinbase C P K tipHeight tx nHeight blockReward
            else reject_if (list_ex (\<lambda>txin. COutPoint_IsNull (prevout txin)) (vin tx)) 10 ''bad-txns-prevout-null'') (\<lambda>_.
     sbind (check_asset_tx C P tx) (\<lambda>(fContainsNewRestrictedAsset, fContainsRestrictedAssetReissue).
     sbind (reject_if (fContainsNullAssetVerifierTx st \<and> \<not> fContainsRestrictedAssetReissue \<and> \<not> fContainsNewRestrictedAsset) 100
       ''bad-txns-tx-cointains-verifier-string-without-restricted-asset-issuance-or-reissuance'') (\<lambda>_.
     reject_if (fContainsNewRestrictedAsset \<and> \<not> fContainsNullAssetVerifierTx st) 100
       ''bad-txns-tx-cointains-restricted-asset-issuance-without-verifier'')))))))"

section \<open>Check of the inputs\<close>

fun inputs_loop ::
  "usage \<Rightarrow> CCoinsViewCache \<Rightarrow> coins_view \<Rightarrow> int \<Rightarrow> CTxIn list \<Rightarrow> int \<Rightarrow> (int \<times> CCoinsViewCache \<times> coins_view) tx_check" where
  "inputs_loop u c base nSpendHeight [] nValueIn = Inr (nValueIn, c, base)"
| "inputs_loop u c base nSpendHeight (txin # txins) nValueIn =
     (case AccessCoin u c base (prevout txin) of
        (coin, c', base') \<Rightarrow>
          if IsSpent coin then Inl AssertFailed
          else if coin_fCoinBase coin \<and> nSpendHeight - int (coin_nHeight coin) < COINBASE_MATURITY
            then Inl (DoS 0 ''bad-txns-premature-spend-of-coinbase'')
          else let nValueIn' = int64 (nValueIn + nValue (coin_out coin)) in
            if \<not> MoneyRange (nValue (coin_out coin)) \<or> \<not> MoneyRange nValueIn'
              then Inl (DoS 100 ''bad-txns-inputvalues-outofrange'')
            else inputs_loop u c' base' nSpendHeight txins nValueIn')"

definition CheckTxInputs ::
  "usage \<Rightarrow> CCoinsViewCache \<Rightarrow> coins_view \<Rightarrow> CTransaction \<Rightarrow> int \<Rightarrow> (int \<times> CCoinsViewCache \<times> coins_view) tx_check" where
  "CheckTxInputs u c base tx nSpendHeight =
     (case HaveInputs u c base tx of
        (False, c', base') \<Rightarrow> Inl (DoS 100 ''bad-txns-inputs-missingorspent'')
      | (True, c', base') \<Rightarrow>
          sbind (inputs_loop u c' base' nSpendHeight (vin tx) 0) (\<lambda>(nValueIn, c'', base'').
          case GetValueOut tx of
            None \<Rightarrow> Inl Throws
          | Some value_out \<Rightarrow>
              sbind (reject_if (nValueIn < value_out) 100 ''bad-txns-in-belowout'') (\<lambda>_.
              let txfee = int64 (nValueIn - value_out) in
              sbind (reject_if (\<not> MoneyRange txfee) 100 ''bad-txns-fee-outofrange'') (\<lambda>_.
              sbind (reject_if (txfee < 0) 100 ''bad-txns-fee-too-low'') (\<lambda>_.
              Inr (txfee, c'', base''))))))"

section \<open>Signature operations and finality\<close>

definition IsFinalTx :: "CTransaction \<Rightarrow> int \<Rightarrow> int \<Rightarrow> bool" where
  "IsFinalTx tx nBlockHeight nBlockTime \<longleftrightarrow>
     (if nLockTime tx = 0 then True
      else if uint (nLockTime tx) < (if uint (nLockTime tx) < int LOCKTIME_THRESHOLD then nBlockHeight else nBlockTime) then True
      else list_all (\<lambda>txin. nSequence txin = 0xffffffff) (vin tx))"

definition GetLegacySigOpCount :: "CTransaction \<Rightarrow> nat" where
  "GetLegacySigOpCount tx =
     sum_list (map (\<lambda>txin. GetSigOpCount (scriptSig txin) False) (vin tx)) +
     sum_list (map (\<lambda>txout. GetSigOpCount (scriptPubKey txout) False) (vout tx))"

fun p2sh_loop ::
  "usage \<Rightarrow> CCoinsViewCache \<Rightarrow> coins_view \<Rightarrow> CTxIn list \<Rightarrow> nat \<Rightarrow> (nat \<times> CCoinsViewCache \<times> coins_view) tx_check" where
  "p2sh_loop u c base [] nSigOps = Inr (nSigOps, c, base)"
| "p2sh_loop u c base (txin # txins) nSigOps =
     (case AccessCoin u c base (prevout txin) of
        (coin, c', base') \<Rightarrow>
          if IsSpent coin then Inl AssertFailed
          else p2sh_loop u c' base' txins
            (if IsPayToScriptHash (scriptPubKey (coin_out coin))
             then nSigOps + GetSigOpCount_P2SH (scriptPubKey (coin_out coin)) (scriptSig txin) else nSigOps))"

definition GetP2SHSigOpCount ::
  "usage \<Rightarrow> CCoinsViewCache \<Rightarrow> coins_view \<Rightarrow> CTransaction \<Rightarrow> (nat \<times> CCoinsViewCache \<times> coins_view) tx_check" where
  "GetP2SHSigOpCount u c base tx = (if IsCoinBase tx then Inr (0, c, base) else p2sh_loop u c base (vin tx) 0)"

text \<open>The witness of an input is kept front first, and the interpreter takes it with its back, the witness script, first.\<close>

fun witness_loop ::
  "usage \<Rightarrow> CCoinsViewCache \<Rightarrow> coins_view \<Rightarrow> u32 \<Rightarrow> CTxIn list \<Rightarrow> nat \<Rightarrow> (nat \<times> CCoinsViewCache \<times> coins_view) tx_check" where
  "witness_loop u c base flags [] nSigOps = Inr (nSigOps, c, base)"
| "witness_loop u c base flags (txin # txins) nSigOps =
     (case AccessCoin u c base (prevout txin) of
        (coin, c', base') \<Rightarrow>
          if IsSpent coin then Inl AssertFailed
          else case CountWitnessSigOps (scriptSig txin) (scriptPubKey (coin_out coin)) (rev (scriptWitness txin)) flags of
            None \<Rightarrow> Inl AssertFailed
          | Some n \<Rightarrow> witness_loop u c' base' flags txins (nSigOps + n))"

definition GetTransactionSigOpCost ::
  "usage \<Rightarrow> CCoinsViewCache \<Rightarrow> coins_view \<Rightarrow> CTransaction \<Rightarrow> u32 \<Rightarrow> (nat \<times> CCoinsViewCache \<times> coins_view) tx_check" where
  "GetTransactionSigOpCost u c base tx flags =
     (let nSigOps = GetLegacySigOpCount tx * WITNESS_SCALE_FACTOR in
      if IsCoinBase tx then Inr (nSigOps, c, base)
      else sbind (if flag flags SCRIPT_VERIFY_P2SH then GetP2SHSigOpCount u c base tx else Inr (0, c, base)) (\<lambda>(n, c1, base1).
        witness_loop u c1 base1 flags (vin tx) (nSigOps + n * WITNESS_SCALE_FACTOR)))"

section \<open>What an accepted transaction satisfies\<close>

lemma reject_simps [simp]:
  "reject_if b n r = Inr x \<longleftrightarrow> \<not> b"
  "reject_none y n r = Inr z \<longleftrightarrow> y = Some z"
  "reject_check k n r = Inr z \<longleftrightarrow> k = Inr z"
  by (auto simp: reject_if_def reject_none_def reject_check_def split: option.splits sum.splits)

lemma check_all_iff [simp]: "check_all f xs = Inr u \<longleftrightarrow> (\<forall>x \<in> set xs. f x = Inr ())"
  by (induction xs) (auto simp: sbind_Inr_iff)

lemma check_null_asset_keeps:
  "check_null_asset C P txout st = Inr st' \<Longrightarrow>
     vs_nValueOut st' = vs_nValueOut st \<and> setAssetTransferNames st' = setAssetTransferNames st"
  by (auto simp: check_null_asset_def sbind_Inr_iff split: if_splits prod.splits)

lemma check_transfer_adds:
  "check_transfer C P txout st = Inr st' \<longleftrightarrow>
     (\<exists>t a k. TransferAssetFromScript C P (scriptPubKey txout) = Some (t, a) \<and> IsAssetNameValid (tr_strName t) = Inr k \<and>
        (IsAssetNameAnOwner (tr_strName t) \<longrightarrow> tr_nAmount t = OWNER_ASSET_AMOUNT) \<and>
        (k = UNIQUE \<longrightarrow> tr_nAmount t = UNIQUE_ASSET_AMOUNT) \<and>
        (k = QUALIFIER \<or> k = SUB_QUALIFIER \<longrightarrow>
           QUALIFIER_ASSET_MIN_AMOUNT \<le> tr_nAmount t \<and> tr_nAmount t \<le> QUALIFIER_ASSET_MAX_AMOUNT) \<and>
        nValue txout = 0 \<and> st' = st \<lparr>setAssetTransferNames := tr_strName t # setAssetTransferNames st\<rparr>)"
proof (cases "TransferAssetFromScript C P (scriptPubKey txout)")
  case (Some ta)
  then show ?thesis
    by (cases ta; cases "IsAssetNameValid (tr_strName (fst ta))") (auto simp: check_transfer_def sbind_Inr_iff not_less)
qed (simp add: check_transfer_def sbind_Inr_iff)

lemma check_asset_out_keeps:
  "check_asset_out C P m b txout st = Inr st' \<Longrightarrow>
     vs_nValueOut st' = vs_nValueOut st \<and> mapNullDataTxCount st' = mapNullDataTxCount st \<and>
     setNullGlobalAssetChanges st' = setNullGlobalAssetChanges st"
  by (auto simp: check_asset_out_def sbind_Inr_iff check_transfer_adds split: option.splits if_splits)

lemma MoneyRange_add: "MoneyRange a \<Longrightarrow> MoneyRange b \<Longrightarrow> int64 (a + b) = a + b"
  by (rule int64_id) (simp add: MoneyRange_def in_int64_def MAX_MONEY_def COIN_def)

lemma check_value_iff:
  assumes "MoneyRange (vs_nValueOut st)"
  shows "check_value txout st = Inr st' \<longleftrightarrow>
    MoneyRange (nValue txout) \<and> MoneyRange (vs_nValueOut st + nValue txout) \<and>
    st' = st \<lparr>vs_nValueOut := vs_nValueOut st + nValue txout\<rparr>"
  using assms MoneyRange_add [OF assms, of "nValue txout"]
  by (auto simp: check_value_def sbind_Inr_iff Let_def MoneyRange_def)

lemma vout_loop_values:
  assumes "vout_loop C P m b outs st = Inr st'" "MoneyRange (vs_nValueOut st)"
  shows "(\<forall>out \<in> set outs. MoneyRange (nValue out)) \<and> MoneyRange (vs_nValueOut st') \<and>
    GetValueOut_loop outs (vs_nValueOut st) = Some (vs_nValueOut st') \<and>
    vs_nValueOut st' = vs_nValueOut st + sum_list (map nValue outs)"
  using assms
proof (induction outs arbitrary: st)
  case (Cons out outs)
  then obtain st1 st2 st3 where 1: "check_value out st = Inr st1" "check_null_asset C P out st1 = Inr st2"
      "check_asset_out C P m b out st2 = Inr st3" "vout_loop C P m b outs st3 = Inr st'"
    by (auto simp: sbind_Inr_iff)
  with check_value_iff [OF Cons.prems(2)] have "MoneyRange (nValue out)" "MoneyRange (vs_nValueOut st + nValue out)"
      "vs_nValueOut st3 = vs_nValueOut st + nValue out"
    using check_null_asset_keeps [OF 1(2)] check_asset_out_keeps [OF 1(3)] by auto
  with Cons.IH [OF 1(4)] MoneyRange_add [OF Cons.prems(2)] show ?case by (auto simp: Let_def)
qed simp

lemma CheckTransaction_parts:
  assumes "CheckTransaction C P K tip tx h r m b = Inr ()"
  obtains st new re where "check_sizes tx = Inr ()" "vout_loop C P m b (vout tx) vout_state0 = Inr st" "check_null_data C P tx st = Inr ()"
    "distinct (map prevout (vin tx))" "check_asset_tx C P tx = Inr (new, re)"
    "IsCoinBase tx \<longrightarrow> check_coinbase C P K tip tx h r = Inr ()"
    "\<not> IsCoinBase tx \<longrightarrow> (\<forall>i \<in> set (vin tx). \<not> COutPoint_IsNull (prevout i))"
    "fContainsNullAssetVerifierTx st \<longrightarrow> new \<or> re" "new \<longrightarrow> fContainsNullAssetVerifierTx st"
  using assms that by (auto simp: CheckTransaction_def sbind_Inr_iff list_ex_iff split: if_splits)

section \<open>Issues\<close>

lemma filter_eq_imp:
  assumes "length (filter p xs) = length (filter q xs)" "\<And>x. p x \<Longrightarrow> q x" "x \<in> set xs" "q x"
  shows "p x"
proof (rule ccontr)
  assume "\<not> p x"
  have "filter p xs = filter p (filter q xs)" using assms(2) by (auto intro: filter_cong)
  moreover have "length (filter p (filter q xs)) < length (filter q xs)"
    using assms(3,4) \<open>\<not> p x\<close> by (intro length_filter_less [of x]) auto
  ultimately show False using assms(1) by simp
qed

lemma length_filter_1:
  assumes "length (filter p xs) = 1" "x \<in> set xs" "p x" "y \<in> set xs" "p y"
  shows "x = y"
proof -
  from assms(1) obtain z where "filter p xs = [z]" by (auto simp: length_Suc_conv)
  moreover have "x \<in> set (filter p xs)" "y \<in> set (filter p xs)" using assms by auto
  ultimately show ?thesis by simp
qed

lemma count_issues: "count_outputs TX_NEW_ASSET False outs = length (filter CheckIssueDataTx outs)"
  unfolding count_outputs_def
  by (intro arg_cong [where f = length] filter_cong) (auto simp: CheckIssueDataTx_def IsScriptNewAsset_def split: option.splits)

lemma single_issue:
  assumes "count_outputs TX_NEW_ASSET False (vout tx) = 1" "CheckIssueDataTx (last_out tx)" "vout tx \<noteq> []"
    and "out \<in> set (vout tx)" "CheckIssueDataTx out"
  shows "out = last_out tx"
  using length_filter_1 [OF _ assms(4,5) _ assms(2)] assms(1,3) by (simp add: count_issues last_out_def)

lemma IsScriptNewUnique_issue: "IsScriptNewUniqueAsset C P (scriptPubKey out) \<Longrightarrow> CheckIssueDataTx out"
  by (auto simp: IsScriptNewUniqueAsset_def script_new_type_def AssetFromScript_def CheckIssueDataTx_def split: option.splits)

lemma IsScriptNewUnique_asset:
  assumes "IsScriptNewUniqueAsset C P s"
  obtains asset a where "AssetFromScript C P s = Some (asset, a)" "IsAssetNameValid (na_strName asset) = Inr UNIQUE"
    "GetParentName (na_strName asset) \<noteq> []"
proof -
  from assms obtain asset a where "AssetFromScript C P s = Some (asset, a)" "IsAssetNameValid (na_strName asset) = Inr UNIQUE"
    by (auto simp: IsScriptNewUniqueAsset_def script_new_type_def split: option.splits sum.splits)
  moreover have "GetParentName (na_strName asset) \<noteq> []"
    using parent_of_tagged [OF calculation(2)] IsNameValidBeforeTag_length [of "[]"] by (auto simp: base_name_def)
  ultimately show thesis by (rule that)
qed

lemma unique_loop_spec:
  "unique_loop C P outs root seen n = Inr (root', n') \<Longrightarrow>
     n' = n + length (filter (\<lambda>out. IsScriptNewUniqueAsset C P (scriptPubKey out)) outs) \<and> (root \<noteq> [] \<longrightarrow> root' = root) \<and>
     (\<forall>out \<in> set outs. \<forall>asset a. IsScriptNewUniqueAsset C P (scriptPubKey out) \<and> AssetFromScript C P (scriptPubKey out) = Some (asset, a) \<longrightarrow>
        GetParentName (na_strName asset) = root')"
proof (induction outs arbitrary: root seen n)
  case (Cons out outs)
  show ?case
  proof (cases "IsScriptNewUniqueAsset C P (scriptPubKey out)")
    case True
    then obtain asset a where a: "AssetFromScript C P (scriptPubKey out) = Some (asset, a)" "GetParentName (na_strName asset) \<noteq> []"
      by (rule IsScriptNewUnique_asset)
    with Cons.prems True have "unique_loop C P outs (GetParentName (na_strName asset)) (na_strName asset # seen) (n + 1) = Inr (root', n')"
        "root \<noteq> [] \<longrightarrow> GetParentName (na_strName asset) = root"
      by (auto simp: Let_def split: if_splits)
    with Cons.IH [OF this(1)] a True show ?thesis by auto
  qed (use Cons in auto)
qed simp

text \<open>What each way of verifying an issue shows of the outputs.\<close>

definition issue_ok :: "crypto \<Rightarrow> chain_params \<Rightarrow> CTransaction \<Rightarrow> CTxOut \<Rightarrow> bool" where
  "issue_ok C P tx out \<longleftrightarrow>
     (\<exists>asset a. AssetFromScript C P (scriptPubKey out) = Some (asset, a) \<and> CheckNewAsset asset = Inr () \<and>
        (GetHex (GetHash C tx) \<in> {BAD_HASH, BAD_HASH2} \<or>
         (\<exists>burn \<in> set (vout tx). CheckIssueBurnTx C P burn (asset_type_of (na_strName asset)) (count_outputs TX_NEW_ASSET False (vout tx)))) \<and>
        (asset_type_of (na_strName asset) \<in> {SUB, UNIQUE} \<longrightarrow> transfers_asset C P tx (GetParentName (na_strName asset) @ OWNER_TAG)) \<and>
        (asset_type_of (na_strName asset) = RESTRICTED \<longrightarrow> transfers_asset C P tx (tl (na_strName asset) @ OWNER_TAG)) \<and>
        (asset_type_of (na_strName asset) = MSGCHANNEL \<longrightarrow> tx_IsNewAsset C P tx \<or> transfers_asset C P tx (GetParentName (na_strName asset) @ OWNER_TAG)) \<and>
        (asset_type_of (na_strName asset) = SUB_QUALIFIER \<longrightarrow> tx_IsNewAsset C P tx \<or> transfers_asset C P tx (GetParentName (na_strName asset))))"

lemma new_asset_issue:
  assumes "check_new_asset C P tx = Inr ()" "out \<in> set (vout tx)" "CheckIssueDataTx out" "tx_IsNewAsset C P tx"
  shows "issue_ok C P tx out"
proof -
  from assms(1,4) obtain asset a where 1: "AssetFromScript C P (scriptPubKey (last_out tx)) = Some (asset, a)"
      "CheckNewAsset asset = Inr ()" "VerifyNewAsset C P tx = Inr ()"
    by (auto simp: check_new_asset_def sbind_Inr_iff AssetFromTransaction_def)
  have 2: "CheckIssueDataTx (last_out tx)" "vout tx \<noteq> []" "script_new_type C P (scriptPubKey (last_out tx)) \<noteq> Some UNIQUE"
      "script_new_type C P (scriptPubKey (last_out tx)) \<noteq> Some RESTRICTED"
    using assms(4) by (auto simp: tx_IsNewAsset_def IsScriptNewUniqueAsset_def IsScriptNewRestrictedAsset_def CheckIssueDataTx_def
        IsScriptNewAsset_def split: if_splits option.splits)
  from 1 have 3: "count_outputs TX_NEW_ASSET False (vout tx) = 1"
      "GetHex (GetHash C tx) \<in> {BAD_HASH, BAD_HASH2} \<or> (\<exists>burn \<in> set (vout tx). CheckIssueBurnTx C P burn (asset_type_of (na_strName asset)) 1)"
      "asset_type_of (na_strName asset) = SUB \<longrightarrow> transfers_asset C P tx (GetParentName (na_strName asset) @ OWNER_TAG)"
    by (auto simp: VerifyNewAsset_def Let_def GetTxOutAssetTypes_def list_ex_iff split: if_splits option.splits prod.splits)
  have "asset_type_of (na_strName asset) \<notin> {UNIQUE, RESTRICTED}"
    using 1(1) 2(3,4) by (auto simp: script_new_type_def asset_type_of_def split: sum.splits)
  with 1 3 single_issue [OF 3(1) 2(1,2) assms(2,3)] assms(4) show ?thesis by (auto simp: issue_ok_def)
qed

lemma unique_issue:
  assumes "VerifyNewUniqueAsset C P tx = Inr ()" "\<forall>out \<in> set (vout tx). check_unique_out C P out = Inr ()"
    and "out \<in> set (vout tx)" "CheckIssueDataTx out"
  shows "issue_ok C P tx out"
proof -
  from assms(1) obtain root n where 1: "unique_loop C P (vout tx) [] [] 0 = Inr (root, n)" "n = count_outputs TX_NEW_ASSET False (vout tx)"
      "\<exists>burn \<in> set (vout tx). CheckIssueBurnTx C P burn UNIQUE n" "transfers_asset C P tx (root @ OWNER_TAG)"
    by (auto simp: VerifyNewUniqueAsset_def GetTxOutAssetTypes_def list_ex_iff split: if_splits option.splits sum.splits prod.splits)
  have u: "IsScriptNewUniqueAsset C P (scriptPubKey out)"
    using unique_loop_spec [OF 1(1)] 1(2) assms(3,4) IsScriptNewUnique_issue
    by (intro filter_eq_imp [where p = "\<lambda>out. IsScriptNewUniqueAsset C P (scriptPubKey out)" and q = CheckIssueDataTx])
       (auto simp: count_issues)
  then obtain asset a where a: "AssetFromScript C P (scriptPubKey out) = Some (asset, a)" "IsAssetNameValid (na_strName asset) = Inr UNIQUE"
    by (rule IsScriptNewUnique_asset)
  with u assms(2) [rule_format, OF assms(3)] have "CheckNewAsset asset = Inr ()" by (simp add: check_unique_out_def sbind_Inr_iff)
  moreover have "GetParentName (na_strName asset) = root" using unique_loop_spec [OF 1(1)] u a assms(3) by blast
  ultimately show ?thesis using 1(2-4) a by (auto simp: issue_ok_def asset_type_of_def)
qed

lemma kind_issue:
  assumes "count_outputs TX_NEW_ASSET False (vout tx) = 1" "CheckIssueDataTx (last_out tx)" "vout tx \<noteq> []"
    and "AssetFromScript C P (scriptPubKey (last_out tx)) = Some (asset, a)" "CheckNewAsset asset = Inr ()"
    and "\<exists>burn \<in> set (vout tx). CheckIssueBurnTx C P burn (asset_type_of (na_strName asset)) 1"
    and "asset_type_of (na_strName asset) = RESTRICTED \<and> transfers_asset C P tx (tl (na_strName asset) @ OWNER_TAG) \<or>
      asset_type_of (na_strName asset) = MSGCHANNEL \<and> transfers_asset C P tx (GetParentName (na_strName asset) @ OWNER_TAG) \<or>
      asset_type_of (na_strName asset) = SUB_QUALIFIER \<and> transfers_asset C P tx (GetParentName (na_strName asset)) \<or>
      asset_type_of (na_strName asset) = QUALIFIER"
    and "out \<in> set (vout tx)" "CheckIssueDataTx out"
  shows "issue_ok C P tx out"
  using single_issue [OF assms(1-3,8,9)] assms(1,4-7) by (auto simp: issue_ok_def)

lemma kinds_read:
  "MsgChannelAssetFromScript C P s = Some (asset, a) \<Longrightarrow> AssetFromScript C P s = Some (asset, a) \<and> asset_type_of (na_strName asset) = MSGCHANNEL"
  "QualifierAssetFromScript C P s = Some (asset, a) \<Longrightarrow>
     AssetFromScript C P s = Some (asset, a) \<and> asset_type_of (na_strName asset) \<in> {QUALIFIER, SUB_QUALIFIER}"
  "RestrictedAssetFromScript C P s = Some (asset, a) \<Longrightarrow>
     AssetFromScript C P s = Some (asset, a) \<and> IsAssetNameValid (na_strName asset) = Inr RESTRICTED"
  by (auto simp: MsgChannelAssetFromScript_def QualifierAssetFromScript_def RestrictedAssetFromScript_def IsScriptNewMsgChannelAsset_def
      IsScriptNewQualifierAsset_def IsScriptNewRestrictedAsset_def script_new_type_def AssetFromScript_def IsScriptNewAsset_def
      asset_type_of_def split: if_splits option.splits sum.splits)

lemma msgchannel_issue:
  assumes "check_msgchannel C P tx = Inr ()" "out \<in> set (vout tx)" "CheckIssueDataTx out" "tx_IsNewMsgChannelAsset C P tx"
  shows "issue_ok C P tx out"
proof -
  from assms(1,4) obtain asset a where 1: "MsgChannelAssetFromScript C P (scriptPubKey (last_out tx)) = Some (asset, a)"
      "CheckNewAsset asset = Inr ()" "VerifyNewMsgChannelAsset C P tx = Inr ()"
    by (auto simp: check_msgchannel_def sbind_Inr_iff MsgChannelAssetFromTransaction_def)
  with kinds_read(1) [OF 1(1)] assms(4) show ?thesis
    by (intro kind_issue [OF _ _ _ _ 1(2) _ _ assms(2,3)])
       (auto simp: VerifyNewMsgChannelAsset_def tx_IsNewMsgChannelAsset_def GetTxOutAssetTypes_def list_ex_iff split: if_splits)
qed

lemma qualifier_issue:
  assumes "check_qualifier C P tx = Inr ()" "out \<in> set (vout tx)" "CheckIssueDataTx out" "tx_IsNewQualifierAsset C P tx"
  shows "issue_ok C P tx out"
proof -
  from assms(1,4) obtain asset a where 1: "QualifierAssetFromScript C P (scriptPubKey (last_out tx)) = Some (asset, a)"
      "CheckNewAsset asset = Inr ()" "VerifyNewQualfierAsset C P tx = Inr ()"
    by (auto simp: check_qualifier_def sbind_Inr_iff QualifierAssetFromTransaction_def)
  with kinds_read(2) [OF 1(1)] assms(4) show ?thesis
    by (intro kind_issue [OF _ _ _ _ 1(2) _ _ assms(2,3)])
       (auto simp: VerifyNewQualfierAsset_def tx_IsNewQualifierAsset_def GetTxOutAssetTypes_def list_ex_iff Let_def split: if_splits)
qed

lemma restricted_issue:
  assumes "check_restricted C P tx = Inr ()" "out \<in> set (vout tx)" "CheckIssueDataTx out" "tx_IsNewRestrictedAsset C P tx"
  shows "issue_ok C P tx out"
proof -
  from assms(1,4) obtain asset a where 1: "RestrictedAssetFromScript C P (scriptPubKey (last_out tx)) = Some (asset, a)"
      "CheckNewAsset asset = Inr ()" "VerifyNewRestrictedAsset C P tx = Inr ()"
    by (auto simp: check_restricted_def sbind_Inr_iff RestrictedAssetFromTransaction_def)
  from kinds_read(3) [OF 1(1)] have "GetParentName (na_strName asset) = na_strName asset" "asset_type_of (na_strName asset) = RESTRICTED"
    by (simp_all add: GetParentName_def asset_type_of_def)
  with 1 kinds_read(3) [OF 1(1)] assms(4) show ?thesis
    by (intro kind_issue [OF _ _ _ _ 1(2) _ _ assms(2,3)])
       (auto simp: VerifyNewRestrictedAsset_def tx_IsNewRestrictedAsset_def GetTxOutAssetTypes_def list_ex_iff Let_def split: if_splits sum.splits)
qed

lemma no_other_issue:
  assumes "check_reissue C P tx = Inr r \<or> (\<forall>out \<in> set (vout tx). check_plain_out out = Inr ())" "out \<in> set (vout tx)"
  shows "\<not> CheckIssueDataTx out"
proof
  assume i: "CheckIssueDataTx out"
  then have "\<not> check_plain_out out = Inr ()"
    by (auto simp: check_plain_out_def CheckIssueDataTx_def IsScriptNewAsset_def split: option.splits if_splits)
  with assms have "VerifyReissueAsset C P tx = Inr ()" by (auto simp: check_reissue_def sbind_Inr_iff)
  then have "count_outputs TX_NEW_ASSET False (vout tx) = 0"
    by (auto simp: VerifyReissueAsset_def GetTxOutAssetTypes_def Let_def split: if_splits option.splits)
  with i assms(2) show False by (auto simp: count_issues filter_empty_conv)
qed

text \<open>
  C24. Whatever asset an accepted transaction issues, in whatever output, its data are valid, a fee for its type is
  burnt (unless the hash of the transaction is one of two exempt ones), and the transaction moves the token that the type
  requires: the owner token of the parent for a sub or unique asset, that of the root for a restricted asset. For a message channel it
  moves the owner token of the parent, and for a sub qualifier the parent qualifier, except that neither is asked for when the transaction has the form
  of a new root or sub asset with an owner output: \<^verbatim>\<open>IsNewAsset\<close> accepts that form for these types too. Root assets and
  qualifiers need no token.
\<close>

theorem issue_authorised:
  assumes "CheckTransaction C P K tipHeight tx nHeight blockReward m b = Inr ()" "out \<in> set (vout tx)" "CheckIssueDataTx out"
  shows "\<exists>asset a. AssetFromScript C P (scriptPubKey out) = Some (asset, a) \<and> CheckNewAsset asset = Inr () \<and>
    (GetHex (GetHash C tx) \<in> {BAD_HASH, BAD_HASH2} \<or>
     (\<exists>burn \<in> set (vout tx). CheckIssueBurnTx C P burn (asset_type_of (na_strName asset)) (count_outputs TX_NEW_ASSET False (vout tx)))) \<and>
    (asset_type_of (na_strName asset) \<in> {SUB, UNIQUE} \<longrightarrow> transfers_asset C P tx (GetParentName (na_strName asset) @ OWNER_TAG)) \<and>
    (asset_type_of (na_strName asset) = RESTRICTED \<longrightarrow> transfers_asset C P tx (tl (na_strName asset) @ OWNER_TAG)) \<and>
    (asset_type_of (na_strName asset) = MSGCHANNEL \<longrightarrow> tx_IsNewAsset C P tx \<or> transfers_asset C P tx (GetParentName (na_strName asset) @ OWNER_TAG)) \<and>
    (asset_type_of (na_strName asset) = SUB_QUALIFIER \<longrightarrow> tx_IsNewAsset C P tx \<or> transfers_asset C P tx (GetParentName (na_strName asset)))"
proof -
  from assms(1) obtain new re where "check_asset_tx C P tx = Inr (new, re)" by (rule CheckTransaction_parts)
  then have "issue_ok C P tx out"
    using new_asset_issue [OF _ assms(2,3)] unique_issue [OF _ _ assms(2,3)] msgchannel_issue [OF _ assms(2,3)]
      qualifier_issue [OF _ assms(2,3)] restricted_issue [OF _ assms(2,3)] no_other_issue [of C P tx re, OF disjI1 assms(2)] no_other_issue [OF disjI2 assms(2)] assms(3)
    by (auto simp: check_asset_tx_def sbind_Inr_iff split: if_splits)
  then show ?thesis by (simp add: issue_ok_def)
qed

text \<open>Bounds on the size of a transaction.\<close>

lemma length_WriteCompactSize: "length (WriteCompactSize n) \<le> 9"
  by (simp add: WriteCompactSize_def ser_writedata8_def ser_writedata16_def ser_writedata32_def ser_writedata64_def)

lemma length_SerializeTransaction:
  "length (SerializeTransaction False tx) \<le> 35 + sum_list (map (\<lambda>i. 49 + length (scriptSig i)) (vin tx)) +
     sum_list (map (\<lambda>out. 17 + length (scriptPubKey out)) (vout tx)) + length (vExtraPayload tx)"
proof -
  have i: "length (Serialize_CTxIn i) \<le> 49 + length (scriptSig i)" for i
    using length_WriteCompactSize [of "of_nat (length (scriptSig i))"]
    by (simp add: Serialize_CTxIn_def Serialize_COutPoint_def Serialize_uint256_def Serialize_bytes_def ser_writedata32_def)
  have o: "length (Serialize_CTxOut out) \<le> 17 + length (scriptPubKey out)" for out
    using length_WriteCompactSize [of "of_nat (length (scriptPubKey out))"] by (simp add: Serialize_CTxOut_def Serialize_bytes_def)
  have "length (Serialize_vector Serialize_CTxIn (vin tx)) \<le> 9 + sum_list (map (\<lambda>i. 49 + length (scriptSig i)) (vin tx))"
    using length_WriteCompactSize [of "of_nat (length (vin tx))"] i
    by (simp add: Serialize_vector_def length_concat o_def add_mono sum_list_mono)
  moreover have "length (Serialize_vector Serialize_CTxOut (vout tx)) \<le> 9 + sum_list (map (\<lambda>out. 17 + length (scriptPubKey out)) (vout tx))"
    using length_WriteCompactSize [of "of_nat (length (vout tx))"] o
    by (simp add: Serialize_vector_def length_concat o_def add_mono sum_list_mono)
  moreover have "length (Serialize_bytes (vExtraPayload tx)) \<le> 9 + length (vExtraPayload tx)"
    using length_WriteCompactSize [of "of_nat (length (vExtraPayload tx))"] by (simp add: Serialize_bytes_def)
  ultimately show ?thesis by (simp add: SerializeTransaction_def ser_writedata32_def)
qed

lemma length_construct_asset: "length (construct_asset pre kind payload) \<le> length pre + length payload + 11"
  by (simp add: construct_asset_def push_opcode_def push_data_def)

text \<open>The issue of a sub asset on a network whose burn address for sub assets is the key hash of ones.\<close>

definition ex_params :: chain_params where
  "ex_params = test_params \<lparr>strIssueSubAssetBurnAddress := dest_address ex_crypto test_params (CKeyID (replicate 20 1))\<rparr>"

definition ex_pre :: script where
  "ex_pre = [OP_DUP, OP_HASH160, 20] @ replicate 20 1 @ [OP_EQUALVERIFY, OP_CHECKSIG]"

definition ex_sub :: CNewAsset where
  "ex_sub = \<lparr>na_strName = ''CROW/SUB'', na_nAmount = 100 * COIN, na_units = 2, na_nReissuable = 1, na_nHasIPFS = 0, na_strIPFSHash = []\<rparr>"

definition ex_owner :: CAssetTransfer where
  "ex_owner = \<lparr>tr_strName = ''CROW!'', tr_nAmount = COIN, tr_message = [], tr_nExpireTime = 0\<rparr>"

definition ex_transfer_script :: script where "ex_transfer_script = ConstructTransaction_CAssetTransfer ex_owner ex_pre"
definition ex_owner_script :: script where "ex_owner_script = ConstructOwnerTransaction ex_sub ex_pre"
definition ex_new_script :: script where "ex_new_script = ConstructTransaction_CNewAsset ex_sub ex_pre"

definition ex_issue :: CTransaction where
  "ex_issue = \<lparr>nVersion = 2, nType = 0,
     vin = [\<lparr>prevout = \<lparr>COutPoint.op_hash = 1, op_n = 0\<rparr>, scriptSig = [], nSequence = 0xffffffff, scriptWitness = []\<rparr>],
     vout = [\<lparr>nValue = 100 * COIN, scriptPubKey = ex_pre, nRounds = 0\<rparr>, \<lparr>nValue = 0, scriptPubKey = ex_transfer_script, nRounds = 0\<rparr>,
       \<lparr>nValue = 0, scriptPubKey = ex_owner_script, nRounds = 0\<rparr>, \<lparr>nValue = 0, scriptPubKey = ex_new_script, nRounds = 0\<rparr>],
     nLockTime = 0, vExtraPayload = []\<rparr>"

lemma asset_script_kinds:
  "TransferAssetFromScript C P s = Some x \<Longrightarrow> \<exists>b i. IsAssetScript s = Some (TX_TRANSFER_ASSET, b, i)"
  "AssetFromScript C P s = Some y \<Longrightarrow> \<exists>i. IsAssetScript s = Some (TX_NEW_ASSET, False, i)"
  "OwnerAssetFromScript C P s = Some z \<Longrightarrow> \<exists>i. IsAssetScript s = Some (TX_NEW_ASSET, True, i)"
  by (auto simp: TransferAssetFromScript_def IsScriptTransferAsset_def AssetFromScript_def IsScriptNewAsset_def
      OwnerAssetFromScript_def IsScriptOwnerAsset_def split: option.splits if_splits)

lemma ex_names [simp]:
  "IsAssetNameValid ''CROW/SUB'' = Inr SUB" "IsAssetNameValid ''CROW!'' = Inr OWNER" "GetParentName ''CROW/SUB'' = ''CROW''"
  "\<not> IsAssetNameAnOwner ''CROW/SUB''" "IsAssetNameAnOwner ''CROW!''" "asset_type_of ''CROW/SUB'' = SUB"
  by code_simp+

lemma ex_fields [simp]:
  "tr_strName ex_owner = ''CROW!''" "tr_nAmount ex_owner = COIN" "na_strName ex_sub = ''CROW/SUB''"
  by (simp_all add: ex_owner_def ex_sub_def)

lemma ex_from_scripts [simp]:
  "TransferAssetFromScript ex_crypto ex_params ex_transfer_script = Some (ex_owner, dest_address ex_crypto ex_params (CKeyID (replicate 20 1)))"
  "OwnerAssetFromScript ex_crypto ex_params ex_owner_script = Some (''CROW/SUB!'', dest_address ex_crypto ex_params (CKeyID (replicate 20 1)))"
  "AssetFromScript ex_crypto ex_params ex_new_script = Some (ex_sub, dest_address ex_crypto ex_params (CKeyID (replicate 20 1)))"
proof -
  have "length ex_pre = 25" "take 20 (drop 3 ex_pre) = replicate 20 1" by (simp_all add: ex_pre_def)
  moreover have "valid_transfer ex_owner" "valid_new_asset ex_sub"
    by (simp_all add: valid_new_asset_def valid_transfer_def in_int64_def in_int8_def MAX_SIZE_def valid_hash_def
        ex_owner_def ex_sub_def COIN_def)
  ultimately show
    "TransferAssetFromScript ex_crypto ex_params ex_transfer_script = Some (ex_owner, dest_address ex_crypto ex_params (CKeyID (replicate 20 1)))"
    "OwnerAssetFromScript ex_crypto ex_params ex_owner_script = Some (''CROW/SUB!'', dest_address ex_crypto ex_params (CKeyID (replicate 20 1)))"
    "AssetFromScript ex_crypto ex_params ex_new_script = Some (ex_sub, dest_address ex_crypto ex_params (CKeyID (replicate 20 1)))"
    using TransferAssetFromScript_construct [of ex_pre ex_owner] OwnerAssetFromScript_construct [of ex_pre ex_sub]
      AssetFromScript_construct [of ex_pre ex_sub]
    by (simp_all add: OWNER_TAG_def ex_transfer_script_def ex_owner_script_def ex_new_script_def)
qed

lemma ex_kinds:
  obtains b i j k where "IsAssetScript ex_transfer_script = Some (TX_TRANSFER_ASSET, b, i)"
    "IsAssetScript ex_owner_script = Some (TX_NEW_ASSET, True, j)" "IsAssetScript ex_new_script = Some (TX_NEW_ASSET, False, k)"
  using asset_script_kinds(1) [OF ex_from_scripts(1)] asset_script_kinds(2) [OF ex_from_scripts(3)]
    asset_script_kinds(3) [OF ex_from_scripts(2)] by auto

lemma ex_pre_plain [simp]: "IsAssetScript ex_pre = None" "ExtractDestination ex_crypto ex_pre = Some (CKeyID (replicate 20 1))"
  by code_simp+

lemma ex_not_null [simp]: "\<not> IsNullAsset ex_pre" "\<not> IsNullAsset ex_transfer_script" "\<not> IsNullAsset ex_owner_script" "\<not> IsNullAsset ex_new_script"
proof -
  have n: "\<not> IsNullAsset (ex_pre @ t)" for t
    by (simp add: IsNullAsset_def IsNullAssetTxDataScript_def IsNullGlobalRestrictionAssetTxDataScript_def
      IsNullAssetVerifierTxDataScript_def ex_pre_def)
  from n [of "[]"] show "\<not> IsNullAsset ex_pre" by simp
  from construct_asset_append n
  show "\<not> IsNullAsset ex_transfer_script" "\<not> IsNullAsset ex_owner_script" "\<not> IsNullAsset ex_new_script"
    unfolding ex_transfer_script_def ex_owner_script_def ex_new_script_def ConstructTransaction_CAssetTransfer_def
      ConstructOwnerTransaction_def ConstructTransaction_CNewAsset_def by metis+
qed

lemma ex_issue_sizes: "check_sizes ex_issue = Inr ()"
proof -
  have c: "length payload \<le> 100 \<Longrightarrow> length (construct_asset ex_pre kind payload) \<le> 136" for kind payload
    using length_construct_asset [of ex_pre kind payload] by (simp add: ex_pre_def)
  have "length ex_transfer_script \<le> 136" "length ex_owner_script \<le> 136" "length ex_new_script \<le> 136"
    using c size_CAssetTransfer [of ex_owner] size_CNewAsset [of ex_sub] length_Serialize_string [of "''CROW/SUB!''"]
    by (simp_all add: ex_transfer_script_def ex_owner_script_def ex_new_script_def ConstructTransaction_CAssetTransfer_def
      ConstructOwnerTransaction_def ConstructTransaction_CNewAsset_def OWNER_TAG_def)
  with length_SerializeTransaction [of ex_issue] have "length (SerializeTransaction False ex_issue) \<le> 1000"
    by (simp add: ex_issue_def ex_pre_def)
  then show ?thesis
    by (simp add: check_sizes_def reject_if_def GetMaxBlockWeight_def MAX_BLOCK_WEIGHT_RIP2_def WITNESS_SCALE_FACTOR_def
        MAX_TX_EXTRA_PAYLOAD_def) (simp add: ex_issue_def)
qed

lemma ex_issue_loop:
  "vout_loop ex_crypto ex_params m b (vout ex_issue) vout_state0 =
     Inr (vout_state0 \<lparr>vs_nValueOut := 100 * COIN, setAssetTransferNames := [''CROW!'']\<rparr>)"
  by (rule ex_kinds)
     (simp add: ex_issue_def check_value_def reject_if_def MoneyRange_def MAX_MONEY_def COIN_def int64_def vout_state0_def
       check_null_asset_def check_asset_out_def check_transfer_def reject_none_def Let_def OWNER_ASSET_AMOUNT_def)

lemma ex_issue_new: "tx_IsNewAsset ex_crypto ex_params ex_issue"
  by (rule ex_kinds)
     (simp add: tx_IsNewAsset_def last_out_def owner_out_def ex_issue_def CheckIssueDataTx_def CheckOwnerDataTx_def IsScriptNewAsset_def
       IsScriptOwnerAsset_def IsScriptNewUniqueAsset_def IsScriptNewRestrictedAsset_def script_new_type_def)

lemma ex_burn: "CheckIssueBurnTx ex_crypto ex_params \<lparr>nValue = 100 * COIN, scriptPubKey = ex_pre, nRounds = 0\<rparr> SUB 1"
proof -
  have "dest_address ex_crypto ex_params d = dest_address ex_crypto test_params d" for d
    by (simp add: dest_address_def ex_params_def)
  moreover have "GetBurnAmount ex_params SUB = 100 * COIN"
    "GetBurnAddress ex_params SUB = dest_address ex_crypto test_params (CKeyID (replicate 20 1))"
    by (simp_all add: ex_params_def) (simp add: test_params_def)
  ultimately show ?thesis by (simp add: CheckIssueBurnTx_def burns_to_def int64_def COIN_def)
qed

lemma ex_issue_asset: "check_new_asset ex_crypto ex_params ex_issue = Inr ()"
proof -
  have 1: "transfers_asset ex_crypto ex_params ex_issue ''CROW!''"
    by (simp add: transfers_asset_def ex_issue_def)
  have 2: "GetTxOutAssetTypes (vout ex_issue) = (1, 0, 1, 1)"
    by (rule ex_kinds) (simp add: GetTxOutAssetTypes_def count_outputs_def ex_issue_def)
  have 3: "CheckNewAsset ex_sub = Inr ()"
    by (simp add: CheckNewAsset_def) (simp add: ex_sub_def CheckAmountWithUnits_def MAX_MONEY_def COIN_def MAX_UNIT_def)
  have 4: "list_ex (\<lambda>out. CheckIssueBurnTx ex_crypto ex_params out SUB 1) (vout ex_issue)"
    using ex_burn by (simp add: ex_issue_def)
  have 5: "last_out ex_issue = \<lparr>nValue = 0, scriptPubKey = ex_new_script, nRounds = 0\<rparr>"
    "owner_out ex_issue = \<lparr>nValue = 0, scriptPubKey = ex_owner_script, nRounds = 0\<rparr>" "length (vout ex_issue) = 4"
    by (simp_all add: last_out_def owner_out_def ex_issue_def)
  from ex_issue_new have 6: "CheckIssueDataTx (last_out ex_issue)" "CheckOwnerDataTx (owner_out ex_issue)"
    by (auto simp: tx_IsNewAsset_def split: if_splits)
  have "VerifyNewAsset ex_crypto ex_params ex_issue = Inr ()"
    using 1 2 4 5 6 by (simp add: VerifyNewAsset_def OWNER_TAG_def list_ex_iff) blast
  then show ?thesis using 3 5 ex_issue_new
    by (simp add: check_new_asset_def sbind_Inr_iff AssetFromTransaction_def IsNewOwnerTxValid_def OwnerFromTransaction_def OWNER_TAG_def
        OWNER_LENGTH_def MIN_ASSET_LENGTH_def)
qed

lemma ex_issue_accepted: "CheckTransaction ex_crypto ex_params main_consensus 0 ex_issue 5 0 True True = Inr ()"
proof -
  have "check_null_data ex_crypto ex_params ex_issue (vout_state0 \<lparr>vs_nValueOut := 100 * COIN, setAssetTransferNames := [''CROW!'']\<rparr>) = Inr ()"
    by (simp add: check_null_data_def vout_state0_def sbind_Inr_iff)
  moreover have "distinct (map prevout (vin ex_issue))" "\<not> IsCoinBase ex_issue"
      "\<not> list_ex (\<lambda>txin. COutPoint_IsNull (prevout txin)) (vin ex_issue)" "\<not> fContainsNullAssetVerifierTx vout_state0"
    by (simp_all add: ex_issue_def IsCoinBase_def COutPoint_IsNull_def vout_state0_def)
  ultimately show ?thesis
    by (simp add: CheckTransaction_def sbind_Inr_iff ex_issue_sizes ex_issue_loop check_asset_tx_def ex_issue_new ex_issue_asset)
qed

theorem issue_authorised_witness:
  "transfers_asset ex_crypto ex_params ex_issue ''CROW!'' \<and> CheckNewAsset ex_sub = Inr ()"
proof -
  let ?out = "\<lparr>nValue = 0, scriptPubKey = ex_new_script, nRounds = 0\<rparr>"
  have "?out \<in> set (vout ex_issue)" by (simp add: ex_issue_def)
  moreover have "CheckIssueDataTx ?out" by (rule ex_kinds) (simp add: CheckIssueDataTx_def IsScriptNewAsset_def)
  ultimately show ?thesis using issue_authorised [OF ex_issue_accepted, of ?out] by (simp add: OWNER_TAG_def)
qed

text \<open>
  The amounts of an accepted transaction: every output lies between 0 and the money supply, the outputs sum to at
  most the money supply without wrapping, so \<^verbatim>\<open>GetValueOut\<close> returns their sum and does not throw, and no output is spent twice.
\<close>

theorem accepted_amounts:
  assumes "CheckTransaction C P K tipHeight tx nHeight blockReward m b = Inr ()"
  shows "(\<forall>out \<in> set (vout tx). 0 \<le> nValue out \<and> nValue out \<le> MAX_MONEY) \<and> sum_list (map nValue (vout tx)) \<le> MAX_MONEY \<and>
    GetValueOut tx = Some (sum_list (map nValue (vout tx))) \<and> distinct (map prevout (vin tx))"
proof -
  from assms obtain st where "vout_loop C P m b (vout tx) vout_state0 = Inr st" "distinct (map prevout (vin tx))"
    by (rule CheckTransaction_parts)
  with vout_loop_values [OF this(1)] show ?thesis
    by (auto simp: vout_state0_def MoneyRange_def GetValueOut_def MAX_MONEY_def COIN_def)
qed

theorem accepted_amounts_witness: "GetValueOut ex_issue = Some (100 * COIN)"
  using accepted_amounts [OF ex_issue_accepted] by (simp add: ex_issue_def)

text \<open>
  C35. Root assets cannot be issued on the main network: the burn address configured for them is not the address of any
  output, so a transaction that issues a root asset is rejected, unless its hash is one of the two exempt ones.
\<close>

theorem no_root_asset_on_main:
  assumes "tx_IsNewAsset C main_params tx" "AssetFromTransaction C main_params tx = Some (asset, a)"
    and "asset_type_of (na_strName asset) = ROOT" "GetHex (GetHash C tx) \<notin> {BAD_HASH, BAD_HASH2}"
  shows "\<exists>e. CheckTransaction C main_params K tipHeight tx nHeight blockReward m b = Inl e"
proof (cases "CheckTransaction C main_params K tipHeight tx nHeight blockReward m b")
  case (Inr u)
  then obtain new re where "check_asset_tx C main_params tx = Inr (new, re)" by (auto elim!: CheckTransaction_parts)
  with assms(1) have "VerifyNewAsset C main_params tx = Inr ()"
    by (auto simp: check_asset_tx_def check_new_asset_def sbind_Inr_iff)
  with assms root_burn_impossible show ?thesis
    by (auto simp: VerifyNewAsset_def AssetFromTransaction_def Let_def list_ex_iff split: if_splits option.splits)
qed simp

definition ex_root :: CNewAsset where
  "ex_root = ex_sub \<lparr>na_strName := ''CROW''\<rparr>"

definition ex_root_issue :: CTransaction where
  "ex_root_issue = ex_issue \<lparr>vout := [\<lparr>nValue = 500 * COIN, scriptPubKey = ex_pre, nRounds = 0\<rparr>,
     \<lparr>nValue = 0, scriptPubKey = ConstructOwnerTransaction ex_root ex_pre, nRounds = 0\<rparr>,
     \<lparr>nValue = 0, scriptPubKey = ConstructTransaction_CNewAsset ex_root ex_pre, nRounds = 0\<rparr>]\<rparr>"

theorem no_root_asset_on_main_witness:
  "\<exists>e. CheckTransaction ex_crypto main_params main_consensus 0 ex_root_issue 5 0 True True = Inl e"
proof -
  have "length ex_pre = 25" by (simp add: ex_pre_def)
  moreover have "valid_new_asset ex_root"
    by (simp add: valid_new_asset_def in_int64_def in_int8_def MAX_SIZE_def valid_hash_def ex_root_def ex_sub_def COIN_def)
  ultimately obtain a b where ab: "OwnerAssetFromScript ex_crypto main_params (ConstructOwnerTransaction ex_root ex_pre) = Some (''CROW!'', b)"
      "AssetFromScript ex_crypto main_params (ConstructTransaction_CNewAsset ex_root ex_pre) = Some (ex_root, a)"
    using OwnerAssetFromScript_construct [of ex_pre ex_root ex_crypto main_params] AssetFromScript_construct [of ex_pre ex_root ex_crypto main_params]
    by (simp add: ex_root_def OWNER_TAG_def)
  have r: "IsAssetNameValid ''CROW'' = Inr ROOT" by code_simp
  from ab have new: "tx_IsNewAsset ex_crypto main_params ex_root_issue"
    using asset_script_kinds(2) [OF ab(2)] asset_script_kinds(3) [OF ab(1)] r
    by (auto simp: tx_IsNewAsset_def last_out_def owner_out_def ex_root_issue_def CheckIssueDataTx_def CheckOwnerDataTx_def IsScriptNewAsset_def
        IsScriptOwnerAsset_def IsScriptNewUniqueAsset_def IsScriptNewRestrictedAsset_def script_new_type_def ex_root_def)
  moreover from new ab(2) have "AssetFromTransaction ex_crypto main_params ex_root_issue = Some (ex_root, a)"
    by (simp add: AssetFromTransaction_def last_out_def ex_root_issue_def)
  moreover have "asset_type_of (na_strName ex_root) = ROOT" using r by (simp add: asset_type_of_def ex_root_def)
  moreover have "GetHex (GetHash ex_crypto ex_root_issue) \<notin> {BAD_HASH, BAD_HASH2}"
    by (simp add: GetHash_def Hash256_def ex_crypto_def GetHex_def hex_digit_def BAD_HASH_def BAD_HASH2_def) code_simp
  ultimately show ?thesis by (rule no_root_asset_on_main)
qed

section \<open>Inputs\<close>

text \<open>\<open>input_ok\<close>: the coin that an input spends is unspent, mature and holds an amount in range.\<close>

definition input_ok :: "(COutPoint \<Rightarrow> Coin option) \<Rightarrow> int \<Rightarrow> CTxIn \<Rightarrow> bool" where
  "input_ok utxos nSpendHeight txin \<longleftrightarrow>
     (\<exists>coin. utxos (prevout txin) = Some coin \<and> MoneyRange (nValue (coin_out coin)) \<and>
        (coin_fCoinBase coin \<longrightarrow> nSpendHeight - int (coin_nHeight coin) \<ge> COINBASE_MATURITY))"

definition input_value :: "(COutPoint \<Rightarrow> Coin option) \<Rightarrow> CTxIn \<Rightarrow> int" where
  "input_value utxos txin = nValue (coin_out (coin_at utxos (prevout txin)))"

lemma inputs_loop_iff:
  assumes "cache_view_inv u c base" "MoneyRange n" "m = utxo (ViewCache c base)"
  shows "(\<exists>c' base'. inputs_loop u c base h ins n = Inr (v, c', base') \<and> utxo (ViewCache c' base') = m \<and> cache_view_inv u c' base') \<longleftrightarrow>
    (\<forall>i \<in> set ins. input_ok m h i) \<and> v = n + sum_list (map (input_value m) ins) \<and> MoneyRange v"
  using assms
proof (induction ins arbitrary: c base n)
  case (Cons i ins)
  from access_coin.query_answer [of u "(c, base)" "prevout i"] Cons.prems obtain c1 base1 where
    1: "AccessCoin u c base (prevout i) = (coin_at m (prevout i), c1, base1)"
      "utxo (ViewCache c1 base1) = m" "cache_view_inv u c1 base1"
    by (auto simp del: utxo.simps view_inv.simps)
  show ?case
  proof (cases "input_ok m h i \<and> MoneyRange (n + input_value m i)")
    case True
    then obtain coin where coin: "m (prevout i) = Some coin" "coin_at m (prevout i) = coin" "MoneyRange (nValue (coin_out coin))"
        "coin_fCoinBase coin \<longrightarrow> h - int (coin_nHeight coin) \<ge> COINBASE_MATURITY" "input_value m i = nValue (coin_out coin)"
      by (auto simp: input_ok_def coin_at_def input_value_def)
    then have "\<not> IsSpent coin" using utxo_unspent Cons.prems(1,3) by blast
    then have step: "inputs_loop u c base h (i # ins) n = inputs_loop u c1 base1 h ins (n + input_value m i)"
      using 1(1) coin True MoneyRange_add [OF Cons.prems(2) coin(3)] by (auto simp: Let_def)
    have "input_ok m h i" "MoneyRange (n + input_value m i)" using True by blast+
    with Cons.IH [OF 1(3) this(2) 1(2) [symmetric]] show ?thesis unfolding step by (simp only: list.set list.map sum_list.Cons add.assoc ball_simps simp_thms)
  next
    case False
    have f: "\<nexists>v c' base'. inputs_loop u c base h (i # ins) n = Inr (v, c', base')"
    proof (cases "m (prevout i)")
      case None
      then show ?thesis using 1(1) by (simp add: coin_at_def)
    next
      case (Some coin)
      then have "\<not> IsSpent coin" using utxo_unspent Cons.prems(1,3) by blast
      with Some False 1(1) MoneyRange_add [OF Cons.prems(2), of "nValue (coin_out coin)"] show ?thesis
        by (auto simp: coin_at_def input_ok_def input_value_def Let_def not_le split: if_splits)
    qed
    have nonneg: "0 \<le> sum_list (map (input_value m) ins)" if "\<forall>i \<in> set ins. input_ok m h i"
      using that by (intro sum_list_nonneg) (auto simp: input_ok_def input_value_def coin_at_def MoneyRange_def)
    show ?thesis
    proof
      assume r: "(\<forall>j \<in> set (i # ins). input_ok m h j) \<and> v = n + sum_list (map (input_value m) (i # ins)) \<and> MoneyRange v"
      then have "0 \<le> input_value m i" by (auto simp: input_ok_def input_value_def coin_at_def MoneyRange_def)
      with r nonneg Cons.prems(2) have "MoneyRange (n + input_value m i)" by (auto simp: MoneyRange_def)
      with r False show "\<exists>c' base'. inputs_loop u c base h (i # ins) n = Inr (v, c', base') \<and> utxo (ViewCache c' base') = m \<and> cache_view_inv u c' base'"
        by simp
    qed (use f in blast)
  qed
qed auto

lemma HaveInputs_cases:
  assumes "cache_view_inv u c base"
  obtains ok c' base' where "HaveInputs u c base tx = (ok, c', base')" "utxo (ViewCache c' base') = utxo (ViewCache c base)"
    "cache_view_inv u c' base'" "\<not> ok \<Longrightarrow> \<exists>i \<in> set (vin tx). utxo (ViewCache c base) (prevout i) = None"
  using HaveInputs_loop_correct [OF assms, of "vin tx"] assms that
  by (cases "IsCoinBase tx") (auto simp: HaveInputs_def simp del: utxo.simps view_inv.simps)

lemma GetValueOut_range: "GetValueOut tx = Some v \<Longrightarrow> MoneyRange v"
  using GetValueOut_loop_eq [of 0 "vout tx"] by (auto simp: GetValueOut_def MoneyRange_def MAX_MONEY_def COIN_def split: if_splits)

lemma CheckTxInputs_accepts:
  assumes "cache_view_inv u c base"
  shows "(\<exists>c' base'. CheckTxInputs u c base tx h = Inr (fee, c', base') \<and>
      utxo (ViewCache c' base') = utxo (ViewCache c base) \<and> cache_view_inv u c' base') \<longleftrightarrow>
    (\<forall>i \<in> set (vin tx). input_ok (utxo (ViewCache c base)) h i) \<and>
    MoneyRange (sum_list (map (input_value (utxo (ViewCache c base))) (vin tx))) \<and> fee \<ge> 0 \<and>
    (\<exists>value_out. GetValueOut tx = Some value_out \<and> sum_list (map (input_value (utxo (ViewCache c base))) (vin tx)) = value_out + fee)"
proof -
  define m where "m = utxo (ViewCache c base)"
  obtain ok c1 base1 where h: "HaveInputs u c base tx = (ok, c1, base1)" "utxo (ViewCache c1 base1) = m" "cache_view_inv u c1 base1"
      "\<not> ok \<Longrightarrow> \<exists>i \<in> set (vin tx). m (prevout i) = None"
    using HaveInputs_cases [OF assms, of tx] unfolding m_def by metis
  have 0: "MoneyRange 0" by (simp add: MoneyRange_def MAX_MONEY_def COIN_def)
  note loop = inputs_loop_iff [OF h(3) 0 h(2) [symmetric], where ins = "vin tx" and h = h]
  have fee: "int64 x = x" if "0 \<le> x" "x \<le> MAX_MONEY" for x
    using that by (intro int64_id) (simp add: in_int64_def MAX_MONEY_def COIN_def)
  show ?thesis
  proof (cases ok)
    case True
    have "(\<exists>c' base'. CheckTxInputs u c base tx h = Inr (fee, c', base') \<and> utxo (ViewCache c' base') = m \<and> cache_view_inv u c' base') \<longleftrightarrow>
      (\<exists>v out. (\<exists>c' base'. inputs_loop u c1 base1 h (vin tx) 0 = Inr (v, c', base') \<and> utxo (ViewCache c' base') = m \<and> cache_view_inv u c' base') \<and>
        GetValueOut tx = Some out \<and> out \<le> v \<and> fee = int64 (v - out) \<and> MoneyRange fee \<and> 0 \<le> fee)"
      using h(1) True
      by (auto simp: CheckTxInputs_def sbind_Inr_iff Let_def not_less simp del: utxo.simps view_inv.simps inputs_loop.simps split: option.splits)
    also have "\<dots> \<longleftrightarrow> (\<forall>i \<in> set (vin tx). input_ok m h i) \<and> MoneyRange (sum_list (map (input_value m) (vin tx))) \<and> fee \<ge> 0 \<and>
        (\<exists>out. GetValueOut tx = Some out \<and> sum_list (map (input_value m) (vin tx)) = out + fee)"
      unfolding loop using fee GetValueOut_range [of tx] by (auto simp: MoneyRange_def)
    finally show ?thesis by (simp only: m_def)
  next
    case False
    with h(4) have "\<not> (\<forall>i \<in> set (vin tx). input_ok m h i)" by (metis input_ok_def option.distinct(1))
    with h(1) False show ?thesis by (auto simp: CheckTxInputs_def m_def simp del: utxo.simps view_inv.simps)
  qed
qed

text \<open>
  C8. \<^verbatim>\<open>CheckTxInputs\<close> against the set of unspent outputs. On a view whose caches are sound it accepts with a fee exactly
  when every input spends an unspent, mature output with an amount in range, the inputs sum to at most the money supply, and
  the inputs are worth the outputs plus the fee, which is not negative; reading the inputs leaves the view as it was.
\<close>

theorem CheckTxInputs_exact:
  assumes "cache_view_inv u c base"
  shows "(\<exists>c' base'. CheckTxInputs u c base tx h = Inr (fee, c', base') \<and>
      utxo (ViewCache c' base') = utxo (ViewCache c base) \<and> cache_view_inv u c' base') \<longleftrightarrow>
    (\<forall>i \<in> set (vin tx). input_ok (utxo (ViewCache c base)) h i) \<and>
    MoneyRange (sum_list (map (input_value (utxo (ViewCache c base))) (vin tx))) \<and> fee \<ge> 0 \<and>
    (\<exists>value_out. GetValueOut tx = Some value_out \<and> sum_list (map (input_value (utxo (ViewCache c base))) (vin tx)) = value_out + fee)"
  by (rule CheckTxInputs_accepts [OF assms])

theorem CheckTxInputs_exact_witness:
  "\<exists>c' base'. CheckTxInputs (\<lambda>_. 0) (fst ex_view) (snd ex_view) ex_tx 20 = Inr (0, c', base')"
proof -
  have inv: "cache_view_inv (\<lambda>_. 0) (fst ex_view) (snd ex_view)"
    by (rule ex_view_inv) simp
  have m: "utxo (ViewCache (fst ex_view) (snd ex_view)) (ex_point 4) = Some ex_coin" by (simp add: ex_view_empty del: utxo.simps)
  have vin: "vin ex_tx = [\<lparr>prevout = ex_point 4, scriptSig = [], nSequence = 0, scriptWitness = []\<rparr>]" by (simp add: ex_tx_def)
  have "GetValueOut ex_tx = Some 5" by (simp add: GetValueOut_def ex_coin_def MoneyRange_def MAX_MONEY_def COIN_def int64_def)
  moreover have "MoneyRange 5" by (simp add: MoneyRange_def MAX_MONEY_def COIN_def)
  ultimately show ?thesis using CheckTxInputs_exact [OF inv, of ex_tx 20 0] m
    by (simp add: vin input_ok_def input_value_def coin_at_def ex_coin_def del: utxo.simps view_inv.simps) blast
qed

section \<open>The coinbase\<close>

lemma founder_payee_plain: "IsAssetScript (founder_payee C P fp) = None" "\<not> IsNullAsset (founder_payee C P fp)"
proof -
  consider "address_dest C P (founderAddress fp) = CNoDestination" | h where "address_dest C P (founderAddress fp) = CKeyID h" "length h = 20"
    | h where "address_dest C P (founderAddress fp) = CScriptID h" "length h = 20"
    by (cases "address_dest C P (founderAddress fp)")
       (auto simp: address_dest_def DecodeDestination_def address_Get_def address_IsValid_def split: option.splits if_splits)
  then have "IsAssetScript (founder_payee C P fp) = None \<and> \<not> IsNullAsset (founder_payee C P fp)"
    unfolding founder_payee_def
    by cases (simp_all add: push_opcode_def push_data_def IsAssetScript_def IsNullAsset_def IsNullAssetTxDataScript_def
        IsNullGlobalRestrictionAssetTxDataScript_def IsNullAssetVerifierTxDataScript_def)
  then show "IsAssetScript (founder_payee C P fp) = None" "\<not> IsNullAsset (founder_payee C P fp)" by blast+
qed

text \<open>
  The founder payment that the miner adds is the one that the check of the coinbase asks for. A coinbase with one output
  worth the block reward, after \<^verbatim>\<open>FillFounderPayment\<close>, pays 0.5 percent to the founder in its second output, still pays out the
  whole reward, and passes the check (the miner's script is not an asset script; the reward is at most a billion coins, which
  keeps the product with the basis points below the range of the type).
\<close>

theorem founder_payment_accepted:
  assumes "vout tx = [\<lparr>nValue = r, scriptPubKey = s, nRounds = -10\<rparr>]" "0 \<le> r" "r \<le> 1000000000 * COIN" "1 < h" "h < INT_MAX"
    and "IsAssetScript s = None" "\<not> IsNullAsset s" "2 \<le> length (scriptSig (vin tx ! 0))" "length (scriptSig (vin tx ! 0)) \<le> 100"
  shows "\<exists>payee. vout (FillFounderPayment C P (nFounderPayment main_consensus) tx h r) =
      [\<lparr>nValue = r - r div 200, scriptPubKey = s, nRounds = -10\<rparr>, \<lparr>nValue = r div 200, scriptPubKey = payee, nRounds = -10\<rparr>] \<and>
    check_coinbase C P main_consensus tip (FillFounderPayment C P (nFounderPayment main_consensus) tx h r) h r = Inr ()"
proof -
  let ?fp = "nFounderPayment main_consensus" and ?tx = "FillFounderPayment C P (nFounderPayment main_consensus) tx h r"
  have "in_int64 (r * 50)" "in_int64 (r - r div 200)"
    using assms(2,3) by (auto simp: in_int64_def COIN_def)
  then have amount: "getFounderPaymentAmount ?fp h r = r div 200" "int64 (r - r div 200) = r - r div 200"
    using assms(2,4) by (simp_all add: getFounderPaymentAmount_def main_consensus_def int64_id signed_divide_int_def sgn_if)
  then have vout: "vout ?tx = [\<lparr>nValue = r - r div 200, scriptPubKey = s, nRounds = -10\<rparr>,
      \<lparr>nValue = r div 200, scriptPubKey = founder_payee C P ?fp, nRounds = -10\<rparr>]" "vin ?tx = vin tx" "nType ?tx = nType tx"
    using assms(1) by (simp_all add: FillFounderPayment_def Let_def)
  have "startBlock ?fp = 1" "scriptSig (vin tx ! 0) \<noteq> []" using assms(8) by (auto simp: main_consensus_def)
  then have "check_coinbase C P main_consensus tip ?tx h r = Inr ()"
    using assms vout(2,3) founder_payee_plain [of C P ?fp]
    by (simp add: check_coinbase_def sbind_Inr_iff Let_def amount IsBlockPayeeValid_def vout(1))
  with vout(1) show ?thesis by blast
qed

definition ex_coinbase :: CTransaction where
  "ex_coinbase = \<lparr>nVersion = 2, nType = 0,
     vin = [\<lparr>prevout = \<lparr>COutPoint.op_hash = 0, op_n = 0xffffffff\<rparr>, scriptSig = [1, 5], nSequence = 0xffffffff, scriptWitness = []\<rparr>],
     vout = [\<lparr>nValue = 5000 * COIN, scriptPubKey = ex_pre, nRounds = -10\<rparr>], nLockTime = 0, vExtraPayload = []\<rparr>"

theorem founder_payment_accepted_witness:
  "check_coinbase ex_crypto main_params main_consensus 4
     (FillFounderPayment ex_crypto main_params (nFounderPayment main_consensus) ex_coinbase 5 (5000 * COIN)) 5 (5000 * COIN) = Inr ()"
  using founder_payment_accepted [of ex_coinbase "5000 * COIN" ex_pre 5 ex_crypto main_params 4]
  by (simp add: ex_coinbase_def COIN_def INT_MAX_def)

end
