(* ===== verification/AssetsCache.thy ===== *)
theory AssetsCache
  imports TxVerify
begin

text \<open>
  The cache of asset data (\<^verbatim>\<open>CAssetsCache\<close> in \<^verbatim>\<open>src/src/assets/assets.cpp\<close>): what blocks change in memory, how a block's cache is
  flushed into the global one, and how that is written to the two databases. A \<^verbatim>\<open>std::set\<close> whose order looks at a key only, and a
  \<^verbatim>\<open>std::map\<close>, are association lists from the key to the rest.
\<close>

section \<open>Least recently used caches\<close>

record 'v lru =
  lru_maxSize :: nat
  lru_items :: "(string \<times> 'v) list"

definition lru_Put :: "'v lru \<Rightarrow> string \<Rightarrow> 'v \<Rightarrow> 'v lru" where
  "lru_Put c key x =
     (let items = (key, x) # AList.delete key (lru_items c) in
      c \<lparr>lru_items := if length items > lru_maxSize c then butlast items else items\<rparr>)"

definition lru_Erase :: "'v lru \<Rightarrow> string \<Rightarrow> 'v lru" where
  "lru_Erase c key = c \<lparr>lru_items := AList.delete key (lru_items c)\<rparr>"

definition lru_Get :: "'v lru \<Rightarrow> string \<Rightarrow> ('v \<times> 'v lru) option" where
  "lru_Get c key =
     map_option (\<lambda>x. (x, c \<lparr>lru_items := (key, x) # AList.delete key (lru_items c)\<rparr>)) (map_of (lru_items c) key)"

definition lru_Exists :: "'v lru \<Rightarrow> string \<Rightarrow> bool" where
  "lru_Exists c key \<longleftrightarrow> map_of (lru_items c) key \<noteq> None"

section \<open>State\<close>

datatype QualifierType = REMOVE_QUALIFIER | ADD_QUALIFIER

datatype RestrictedType = UNFREEZE_ADDRESS | FREEZE_ADDRESS | GLOBAL_UNFREEZE | GLOBAL_FREEZE

text \<open>The height is \<open>None\<close> where the code stores a variable that it has not set.\<close>

record CAssetCacheNewAsset =
  ca_asset :: CNewAsset
  ca_address :: string
  ca_blockHeight :: int
  ca_blockHash :: uint256

record CAssetCacheReissueAsset =
  cr_reissue :: CReissueAsset
  cr_address :: string
  cr_blockHeight :: "int option"
  cr_blockHash :: uint256

record CAssetsCache =
  mapAssetsAddressAmount :: "((string \<times> string) \<times> int) list"
  mapReissuedAssetData :: "(string \<times> CNewAsset) list"
  vUndoAssetAmount :: "(string \<times> string \<times> int) list"
  vSpentAssets :: "(string \<times> string \<times> int) list"
  setNewAssetsToRemove :: "(string \<times> CAssetCacheNewAsset) list"
  setNewAssetsToAdd :: "(string \<times> CAssetCacheNewAsset) list"
  setNewReissueToRemove :: "(COutPoint \<times> CAssetCacheReissueAsset) list"
  setNewReissueToAdd :: "(COutPoint \<times> CAssetCacheReissueAsset) list"
  setNewOwnerAssetsToAdd :: "(string \<times> string) list"
  setNewOwnerAssetsToRemove :: "(string \<times> string) list"
  setNewTransferAssetsToAdd :: "(COutPoint \<times> CAssetTransfer \<times> string) list"
  setNewTransferAssetsToRemove :: "(COutPoint \<times> CAssetTransfer \<times> string) list"
  setNewQualifierAddressToAdd :: "((string \<times> string) \<times> QualifierType) list"
  setNewQualifierAddressToRemove :: "((string \<times> string) \<times> QualifierType) list"
  setNewRestrictedAddressToAdd :: "((string \<times> string) \<times> RestrictedType) list"
  setNewRestrictedAddressToRemove :: "((string \<times> string) \<times> RestrictedType) list"
  setNewRestrictedGlobalToAdd :: "(string \<times> RestrictedType) list"
  setNewRestrictedGlobalToRemove :: "(string \<times> RestrictedType) list"
  setNewRestrictedVerifierToAdd :: "(string \<times> string \<times> bool) list"
  setNewRestrictedVerifierToRemove :: "(string \<times> string \<times> bool) list"
  mapRootQualifierAddressesAdd :: "((string \<times> string) \<times> string list) list"
  mapRootQualifierAddressesRemove :: "((string \<times> string) \<times> string list) list"

definition ClearDirtyCache :: CAssetsCache where
  "ClearDirtyCache =
     \<lparr>mapAssetsAddressAmount = [], mapReissuedAssetData = [], vUndoAssetAmount = [], vSpentAssets = [], setNewAssetsToRemove = [],
      setNewAssetsToAdd = [], setNewReissueToRemove = [], setNewReissueToAdd = [], setNewOwnerAssetsToAdd = [],
      setNewOwnerAssetsToRemove = [], setNewTransferAssetsToAdd = [], setNewTransferAssetsToRemove = [],
      setNewQualifierAddressToAdd = [], setNewQualifierAddressToRemove = [], setNewRestrictedAddressToAdd = [],
      setNewRestrictedAddressToRemove = [], setNewRestrictedGlobalToAdd = [], setNewRestrictedGlobalToRemove = [],
      setNewRestrictedVerifierToAdd = [], setNewRestrictedVerifierToRemove = [], mapRootQualifierAddressesAdd = [],
      mapRootQualifierAddressesRemove = []\<rparr>"

text \<open>
  The two databases are maps from their keys: asset data, the two tables of quantities, the verifier strings, the tags of an address,
  the addresses of a tag, frozen addresses and globally frozen assets.
\<close>

record CAssetsDB =
  db_asset :: "string \<Rightarrow> (CNewAsset \<times> int option \<times> uint256) option"
  db_asset_address :: "string \<times> string \<Rightarrow> int option"
  db_address_asset :: "string \<times> string \<Rightarrow> int option"

record CRestrictedDB =
  db_verifier :: "string \<Rightarrow> string option"
  db_address_qualifier :: "(string \<times> string) list"
  db_qualifier_address :: "(string \<times> string) list"
  db_restricted_address :: "(string \<times> string) list"
  db_global_restriction :: "string list"

text \<open>The global variables that the cache refers to. The pointers are set while the node runs.\<close>

record assets_globals =
  fAssetIndex :: bool
  fReindex :: bool
  passets :: CAssetsCache
  passetsdb :: CAssetsDB
  prestricteddb :: CRestrictedDB
  passetsCache :: "(CNewAsset \<times> int option \<times> uint256) lru"
  passetsVerifierCache :: "string lru"
  passetsQualifierCache :: "unit lru"
  passetsRestrictionCache :: "unit lru"
  passetsGlobalRestrictionCache :: "unit lru"

text \<open>\<^verbatim>\<open>std::set::insert\<close> and \<^verbatim>\<open>std::map::insert\<close> keep an element with an equal key.\<close>

definition set_insert :: "'k \<Rightarrow> 'v \<Rightarrow> ('k \<times> 'v) list \<Rightarrow> ('k \<times> 'v) list" where
  "set_insert k x m = (if map_of m k = None then (k, x) # m else m)"

text \<open>The key of a name and an address in the caches is the hash of their concatenation.\<close>

definition pair_key :: "crypto \<Rightarrow> string \<Rightarrow> string \<Rightarrow> string" where
  "pair_key C name address = GetHex (Hash256 C (string_bytes name @ string_bytes address))"

section \<open>Questions\<close>

definition CheckIfAssetExists :: "CAssetsCache \<Rightarrow> assets_globals \<Rightarrow> string \<Rightarrow> bool \<Rightarrow> bool \<times> assets_globals" where
  "CheckIfAssetExists c G name fForceDuplicateCheck =
     (if fReindex G then (True, G)
      else if map_of (setNewAssetsToRemove c) name \<noteq> None then (False, G)
      else if map_of (setNewAssetsToRemove (passets G)) name \<noteq> None then (False, G)
      else if map_of (setNewAssetsToAdd c) name \<noteq> None \<and> fForceDuplicateCheck then (True, G)
      else if map_of (setNewAssetsToAdd (passets G)) name \<noteq> None \<and> fForceDuplicateCheck then (True, G)
      else if lru_Exists (passetsCache G) name then (fForceDuplicateCheck, G)
      else case db_asset (passetsdb G) name of
        Some d \<Rightarrow> (fForceDuplicateCheck, G \<lparr>passetsCache := lru_Put (passetsCache G) (na_strName (fst d)) d\<rparr>)
      | None \<Rightarrow> (False, G))"

text \<open>The height and the block hash are \<open>None\<close> where the code leaves the caller's variables alone.\<close>

definition GetAssetMetaDataIfExists ::
  "CAssetsCache \<Rightarrow> assets_globals \<Rightarrow> string \<Rightarrow> (CNewAsset \<times> (int option \<times> uint256) option) option \<times> assets_globals" where
  "GetAssetMetaDataIfExists c G name =
     (case map_of (mapReissuedAssetData c) name of
        Some asset \<Rightarrow> (Some (asset, None), G)
      | None \<Rightarrow>
     (case map_of (mapReissuedAssetData (passets G)) name of
        Some asset \<Rightarrow> (Some (asset, None), G)
      | None \<Rightarrow>
     if map_of (setNewAssetsToRemove c) name \<noteq> None then (None, G)
     else if map_of (setNewAssetsToRemove (passets G)) name \<noteq> None then (None, G)
     else case map_of (setNewAssetsToAdd c) name of
        Some e \<Rightarrow> (Some (ca_asset e, Some (Some (ca_blockHeight e), ca_blockHash e)), G)
      | None \<Rightarrow>
     (case map_of (setNewAssetsToAdd (passets G)) name of
        Some e \<Rightarrow> (Some (ca_asset e, Some (Some (ca_blockHeight e), ca_blockHash e)), G)
      | None \<Rightarrow>
     (case lru_Get (passetsCache G) name of
        Some (d, lru) \<Rightarrow> (Some (fst d, Some (snd d)), G \<lparr>passetsCache := lru\<rparr>)
      | None \<Rightarrow>
     (case db_asset (passetsdb G) name of
        Some d \<Rightarrow> (Some (fst d, Some (snd d)), G \<lparr>passetsCache := lru_Put (passetsCache G) (na_strName (fst d)) d\<rparr>)
      | None \<Rightarrow> (None, G))))))"

definition GetAssetVerifierStringIfExists ::
  "CAssetsCache \<Rightarrow> assets_globals \<Rightarrow> string \<Rightarrow> bool \<Rightarrow> string option \<times> assets_globals" where
  "GetAssetVerifierStringIfExists c G name fSkipTempCache =
     (let local = (\<lambda>m. if fSkipTempCache then None else map_of m name) in
      case local (setNewRestrictedVerifierToRemove c) of
        Some (verifier, fUndoingReissue) \<Rightarrow> (if fUndoingReissue then Some verifier else None, G)
      | None \<Rightarrow>
      case map_of (setNewRestrictedVerifierToRemove (passets G)) name of
        Some (verifier, fUndoingReissue) \<Rightarrow> (if fUndoingReissue then Some verifier else None, G)
      | None \<Rightarrow>
      case local (setNewRestrictedVerifierToAdd c) of
        Some (verifier, _) \<Rightarrow> (Some verifier, G)
      | None \<Rightarrow>
      case map_of (setNewRestrictedVerifierToAdd (passets G)) name of
        Some (verifier, _) \<Rightarrow> (Some verifier, G)
      | None \<Rightarrow>
      case lru_Get (passetsVerifierCache G) name of
        Some (verifier, lru) \<Rightarrow> (Some verifier, G \<lparr>passetsVerifierCache := lru\<rparr>)
      | None \<Rightarrow>
      case db_verifier (prestricteddb G) name of
        Some verifier \<Rightarrow> (Some verifier, G \<lparr>passetsVerifierCache := lru_Put (passetsVerifierCache G) name verifier\<rparr>)
      | None \<Rightarrow> (None, G))"

text \<open>The scan of the database for the tags of an address: the tag itself or one below it.\<close>

definition CheckForAddressRootQualifier :: "CRestrictedDB \<Rightarrow> string \<Rightarrow> string \<Rightarrow> bool" where
  "CheckForAddressRootQualifier d address qualifier \<longleftrightarrow>
     list_ex (\<lambda>(a, tag). a = address \<and> (tag = qualifier \<or> take (length qualifier + 1) tag = qualifier @ ''/'')) (db_address_qualifier d)"

definition CheckForAddressQualifier ::
  "crypto \<Rightarrow> CAssetsCache \<Rightarrow> assets_globals \<Rightarrow> string \<Rightarrow> string \<Rightarrow> bool \<Rightarrow> bool \<times> assets_globals" where
  "CheckForAddressQualifier C c G qualifier_name address fSkipTempCache =
     (let k = (qualifier_name, address); local = (\<lambda>m. if fSkipTempCache then None else map_of m k) in
      case local (setNewQualifierAddressToRemove c) of Some ty \<Rightarrow> (ty = REMOVE_QUALIFIER, G)
      | None \<Rightarrow>
      case map_of (setNewQualifierAddressToRemove (passets G)) k of Some ty \<Rightarrow> (ty = REMOVE_QUALIFIER, G)
      | None \<Rightarrow>
      case local (setNewQualifierAddressToAdd c) of Some ty \<Rightarrow> (ty = ADD_QUALIFIER, G)
      | None \<Rightarrow>
      case map_of (setNewQualifierAddressToAdd (passets G)) k of Some ty \<Rightarrow> (ty = ADD_QUALIFIER, G)
      | None \<Rightarrow>
      if \<not> fSkipTempCache \<and> (case map_of (mapRootQualifierAddressesAdd c) k of Some (_ # _) \<Rightarrow> True | _ \<Rightarrow> False) then (True, G)
      else if (case map_of (mapRootQualifierAddressesAdd (passets G)) k of Some (_ # _) \<Rightarrow> True | _ \<Rightarrow> False) then (True, G)
      else if lru_Exists (passetsQualifierCache G) (pair_key C qualifier_name address) then (True, G)
      else if (address, qualifier_name) \<in> set (db_address_qualifier (prestricteddb G)) then
        (True, G \<lparr>passetsQualifierCache := lru_Put (passetsQualifierCache G) (pair_key C qualifier_name address) ()\<rparr>)
      else (CheckForAddressRootQualifier (prestricteddb G) address qualifier_name, G))"

definition CheckForAddressRestriction ::
  "crypto \<Rightarrow> CAssetsCache \<Rightarrow> assets_globals \<Rightarrow> string \<Rightarrow> string \<Rightarrow> bool \<Rightarrow> bool \<times> assets_globals" where
  "CheckForAddressRestriction C c G restricted_name address fSkipTempCache =
     (let k = (restricted_name, address); local = (\<lambda>m. if fSkipTempCache then None else map_of m k) in
      case local (setNewRestrictedAddressToRemove c) of Some ty \<Rightarrow> (ty = UNFREEZE_ADDRESS, G)
      | None \<Rightarrow>
      case map_of (setNewRestrictedAddressToRemove (passets G)) k of Some ty \<Rightarrow> (ty = UNFREEZE_ADDRESS, G)
      | None \<Rightarrow>
      case local (setNewRestrictedAddressToAdd c) of Some ty \<Rightarrow> (ty = FREEZE_ADDRESS, G)
      | None \<Rightarrow>
      case map_of (setNewRestrictedAddressToAdd (passets G)) k of Some ty \<Rightarrow> (ty = FREEZE_ADDRESS, G)
      | None \<Rightarrow>
      if lru_Exists (passetsRestrictionCache G) (pair_key C restricted_name address) then (True, G)
      else if (address, restricted_name) \<in> set (db_restricted_address (prestricteddb G)) then
        (True, G \<lparr>passetsRestrictionCache := lru_Put (passetsRestrictionCache G) (pair_key C restricted_name address) ()\<rparr>)
      else (False, G))"

definition CheckForGlobalRestriction :: "CAssetsCache \<Rightarrow> assets_globals \<Rightarrow> string \<Rightarrow> bool \<Rightarrow> bool \<times> assets_globals" where
  "CheckForGlobalRestriction c G restricted_name fSkipTempCache =
     (let local = (\<lambda>m. if fSkipTempCache then None else map_of m restricted_name) in
      case local (setNewRestrictedGlobalToRemove c) of Some ty \<Rightarrow> (ty = GLOBAL_UNFREEZE, G)
      | None \<Rightarrow>
      case map_of (setNewRestrictedGlobalToRemove (passets G)) restricted_name of Some ty \<Rightarrow> (ty = GLOBAL_UNFREEZE, G)
      | None \<Rightarrow>
      case local (setNewRestrictedGlobalToAdd c) of Some ty \<Rightarrow> (ty = GLOBAL_FREEZE, G)
      | None \<Rightarrow>
      case map_of (setNewRestrictedGlobalToAdd (passets G)) restricted_name of Some ty \<Rightarrow> (ty = GLOBAL_FREEZE, G)
      | None \<Rightarrow>
      if lru_Exists (passetsGlobalRestrictionCache G) restricted_name then (True, G)
      else if restricted_name \<in> set (db_global_restriction (prestricteddb G)) then
        (True, G \<lparr>passetsGlobalRestrictionCache := lru_Put (passetsGlobalRestrictionCache G) restricted_name ()\<rparr>)
      else (False, G))"

section \<open>Balances\<close>

text \<open>Fills the balance of an asset at an address from the global cache or the database; false when there is none.\<close>

definition GetBestAssetAddressAmount :: "assets_globals \<Rightarrow> CAssetsCache \<Rightarrow> string \<Rightarrow> string \<Rightarrow> bool \<times> CAssetsCache" where
  "GetBestAssetAddressAmount G c assetName address =
     (if \<not> fAssetIndex G then (False, c)
      else if map_of (mapAssetsAddressAmount c) (assetName, address) \<noteq> None then (True, c)
      else case map_of (mapAssetsAddressAmount (passets G)) (assetName, address) of
        Some n \<Rightarrow> (True, c \<lparr>mapAssetsAddressAmount := AList.update (assetName, address) n (mapAssetsAddressAmount c)\<rparr>)
      | None \<Rightarrow> (case db_asset_address (passetsdb G) (assetName, address) of
          Some n \<Rightarrow> (True, c \<lparr>mapAssetsAddressAmount := set_insert (assetName, address) n (mapAssetsAddressAmount c)\<rparr>)
        | None \<Rightarrow> (False, c)))"

text \<open>\<open>with_balance\<close> is the entry after \<^verbatim>\<open>GetBestAssetAddressAmount\<close>, or zero inserted where there was none.\<close>

definition with_balance :: "assets_globals \<Rightarrow> CAssetsCache \<Rightarrow> string \<Rightarrow> string \<Rightarrow> CAssetsCache" where
  "with_balance G c name address =
     (case GetBestAssetAddressAmount G c name address of
        (True, c') \<Rightarrow> c'
      | (False, c') \<Rightarrow> c' \<lparr>mapAssetsAddressAmount := set_insert (name, address) 0 (mapAssetsAddressAmount c')\<rparr>)"

definition balance :: "CAssetsCache \<Rightarrow> string \<Rightarrow> string \<Rightarrow> int" where
  "balance c name address = (case map_of (mapAssetsAddressAmount c) (name, address) of Some n \<Rightarrow> n | None \<Rightarrow> 0)"

definition set_balance :: "CAssetsCache \<Rightarrow> string \<Rightarrow> string \<Rightarrow> int \<Rightarrow> CAssetsCache" where
  "set_balance c name address n = c \<lparr>mapAssetsAddressAmount := AList.update (name, address) n (mapAssetsAddressAmount c)\<rparr>"

definition AddToAssetBalance :: "assets_globals \<Rightarrow> CAssetsCache \<Rightarrow> string \<Rightarrow> string \<Rightarrow> int \<Rightarrow> CAssetsCache" where
  "AddToAssetBalance G c strName address nAmount =
     (if \<not> fAssetIndex G then c
      else let c1 = with_balance G c strName address in
        set_balance c1 strName address
          (if IsAssetNameAnOwner strName then OWNER_ASSET_AMOUNT else int64 (balance c1 strName address + nAmount)))"

definition AddTransferAsset ::
  "assets_globals \<Rightarrow> CAssetsCache \<Rightarrow> CAssetTransfer \<Rightarrow> string \<Rightarrow> COutPoint \<Rightarrow> CAssetsCache" where
  "AddTransferAsset G c transferAsset address out =
     (let c1 = AddToAssetBalance G c (tr_strName transferAsset) address (tr_nAmount transferAsset) in
      c1 \<lparr>setNewTransferAssetsToRemove := AList.delete out (setNewTransferAssetsToRemove c1),
          setNewTransferAssetsToAdd := set_insert out (transferAsset, address) (setNewTransferAssetsToAdd c1)\<rparr>)"

text \<open>
  Name, address and amount of the asset that an output holds, as \<^verbatim>\<open>TrySpendCoin\<close> and \<^verbatim>\<open>UndoAssetCoin\<close> read them. \<open>None\<close>
  stands for data that cannot be read: an early failure, or an empty name, which the two operations refuse below. An operation that
  fails leaves its cache to be dropped by the caller, so that a failure carries no cache.
\<close>

definition spent_asset :: "crypto \<Rightarrow> chain_params \<Rightarrow> script \<Rightarrow> (string \<times> string \<times> int) option" where
  "spent_asset C P s =
     (case IsAssetScript s of
        None \<Rightarrow> None
      | Some (nTyp, fIsOwner, _) \<Rightarrow>
          if nTyp = TX_NEW_ASSET \<and> \<not> fIsOwner then map_option (\<lambda>(asset, address). (na_strName asset, address, na_nAmount asset)) (AssetFromScript C P s)
          else if nTyp = TX_TRANSFER_ASSET then map_option (\<lambda>(t, address). (tr_strName t, address, tr_nAmount t)) (TransferAssetFromScript C P s)
          else if nTyp = TX_NEW_ASSET \<and> fIsOwner then map_option (\<lambda>(name, address). (name, address, OWNER_ASSET_AMOUNT)) (OwnerAssetFromScript C P s)
          else if nTyp = TX_REISSUE_ASSET then map_option (\<lambda>(r, address). (re_strName r, address, re_nAmount r)) (ReissueAssetFromScript C P s)
          else None)"

definition TrySpendCoin :: "crypto \<Rightarrow> chain_params \<Rightarrow> assets_globals \<Rightarrow> CAssetsCache \<Rightarrow> CTxOut \<Rightarrow> bool \<times> CAssetsCache" where
  "TrySpendCoin C P G c txOut =
     (if IsAssetScript (scriptPubKey txOut) = None then (True, c)
      else case spent_asset C P (scriptPubKey txOut) of
        None \<Rightarrow> (False, c)
      | Some (assetName, address, nAmount) \<Rightarrow>
          if address = [] \<or> assetName = [] then (False, c)
          else if \<not> (fAssetIndex G \<and> nAmount > 0) then (True, c)
          else case GetBestAssetAddressAmount G c assetName address of
            (False, c1) \<Rightarrow> (True, c1)
          | (True, c1) \<Rightarrow>
              let n = int64 (balance c1 assetName address - nAmount) in
              (True, (set_balance c1 assetName address (if n < 0 then 0 else n))
                 \<lparr>vSpentAssets := vSpentAssets c1 @ [(assetName, address, nAmount)]\<rparr>))"

definition AddBackSpentAsset :: "assets_globals \<Rightarrow> CAssetsCache \<Rightarrow> string \<Rightarrow> string \<Rightarrow> int \<Rightarrow> CAssetsCache" where
  "AddBackSpentAsset G c assetName address nAmount =
     (let c1 = (if fAssetIndex G then
          (let c0 = with_balance G c assetName address in
           set_balance c0 assetName address (int64 (balance c0 assetName address + nAmount)))
        else c) in
      c1 \<lparr>vUndoAssetAmount := vUndoAssetAmount c1 @ [(assetName, address, nAmount)]\<rparr>)"

text \<open>A script that is no asset script leaves the name empty, which is an error.\<close>

definition UndoAssetCoin :: "crypto \<Rightarrow> chain_params \<Rightarrow> assets_globals \<Rightarrow> CAssetsCache \<Rightarrow> Coin \<Rightarrow> CAssetsCache option" where
  "UndoAssetCoin C P G c coin =
     (case spent_asset C P (scriptPubKey (coin_out coin)) of
        None \<Rightarrow> None
      | Some (assetName, address, nAmount) \<Rightarrow>
          if assetName = [] \<or> address = [] \<or> nAmount = 0 then None
          else Some (AddBackSpentAsset G c assetName address nAmount))"

definition UndoTransfer :: "assets_globals \<Rightarrow> CAssetsCache \<Rightarrow> CAssetTransfer \<Rightarrow> string \<Rightarrow> CAssetsCache option" where
  "UndoTransfer G c transfer address =
     (if \<not> fAssetIndex G then Some c
      else case GetBestAssetAddressAmount G c (tr_strName transfer) address of
        (False, _) \<Rightarrow> None
      | (True, c1) \<Rightarrow>
          if balance c1 (tr_strName transfer) address < tr_nAmount transfer then None
          else Some (set_balance c1 (tr_strName transfer) address
            (int64 (balance c1 (tr_strName transfer) address - tr_nAmount transfer))))"

definition RemoveTransfer ::
  "assets_globals \<Rightarrow> CAssetsCache \<Rightarrow> CAssetTransfer \<Rightarrow> string \<Rightarrow> COutPoint \<Rightarrow> CAssetsCache option" where
  "RemoveTransfer G c transfer address out =
     map_option (\<lambda>c1. c1 \<lparr>setNewTransferAssetsToAdd := AList.delete out (setNewTransferAssetsToAdd c1),
        setNewTransferAssetsToRemove := set_insert out (transfer, address) (setNewTransferAssetsToRemove c1)\<rparr>)
       (UndoTransfer G c transfer address)"

section \<open>Issues and reissues\<close>

definition AddNewAsset ::
  "assets_globals \<Rightarrow> CAssetsCache \<Rightarrow> CNewAsset \<Rightarrow> string \<Rightarrow> int \<Rightarrow> uint256 \<Rightarrow> CAssetsCache option \<times> assets_globals" where
  "AddNewAsset G c asset address nHeight blockHash =
     (case CheckIfAssetExists c G (na_strName asset) True of
        (True, G') \<Rightarrow> (None, G')
      | (False, G') \<Rightarrow>
          let newAsset = \<lparr>ca_asset = asset, ca_address = address, ca_blockHeight = nHeight, ca_blockHash = blockHash\<rparr>;
              c1 = c \<lparr>setNewAssetsToRemove := AList.delete (na_strName asset) (setNewAssetsToRemove c),
                setNewAssetsToAdd := set_insert (na_strName asset) newAsset (setNewAssetsToAdd c)\<rparr> in
          (Some (if fAssetIndex G then set_balance c1 (na_strName asset) address (na_nAmount asset) else c1), G'))"

definition RemoveNewAsset ::
  "assets_globals \<Rightarrow> CAssetsCache \<Rightarrow> CNewAsset \<Rightarrow> string \<Rightarrow> CAssetsCache option \<times> assets_globals" where
  "RemoveNewAsset G c asset address =
     (case CheckIfAssetExists c G (na_strName asset) True of
        (False, G') \<Rightarrow> (None, G')
      | (True, G') \<Rightarrow>
          let newAsset = \<lparr>ca_asset = asset, ca_address = address, ca_blockHeight = 0, ca_blockHash = 0\<rparr>;
              c1 = c \<lparr>setNewAssetsToAdd := AList.delete (na_strName asset) (setNewAssetsToAdd c),
                setNewAssetsToRemove := set_insert (na_strName asset) newAsset (setNewAssetsToRemove c)\<rparr> in
          (Some (if fAssetIndex G then set_balance c1 (na_strName asset) address 0 else c1), G'))"

text \<open>The data of an asset after a reissue.\<close>

definition reissued :: "CNewAsset \<Rightarrow> CReissueAsset \<Rightarrow> CNewAsset" where
  "reissued asset reissue =
     (let a1 = asset \<lparr>na_nAmount := int64 (na_nAmount asset + re_nAmount reissue), na_nReissuable := re_nReissuable reissue\<rparr>;
          a2 = (if re_nUnits reissue \<noteq> -1 then a1 \<lparr>na_units := re_nUnits reissue\<rparr> else a1) in
      if re_strIPFSHash reissue \<noteq> [] then a2 \<lparr>na_nHasIPFS := 1, na_strIPFSHash := re_strIPFSHash reissue\<rparr> else a2)"

definition AddReissueAsset ::
  "assets_globals \<Rightarrow> CAssetsCache \<Rightarrow> CReissueAsset \<Rightarrow> string \<Rightarrow> COutPoint \<Rightarrow> CAssetsCache option \<times> assets_globals" where
  "AddReissueAsset G c reissue address out =
     (case GetAssetMetaDataIfExists c G (re_strName reissue) of
        (None, G') \<Rightarrow> (None, G')
      | (Some (asset, meta), G') \<Rightarrow>
          let name = re_strName reissue;
              old = (case map_of (mapReissuedAssetData c) name of None \<Rightarrow> asset | Some a \<Rightarrow> a);
              entry = \<lparr>cr_reissue = reissue, cr_address = address,
                cr_blockHeight = (case meta of None \<Rightarrow> None | Some (h, _) \<Rightarrow> h),
                cr_blockHash = (case meta of None \<Rightarrow> 0 | Some (_, h) \<Rightarrow> h)\<rparr>;
              c1 = c \<lparr>mapReissuedAssetData := AList.update name (reissued old reissue) (mapReissuedAssetData c),
                setNewReissueToRemove := AList.delete out (setNewReissueToRemove c),
                setNewReissueToAdd := set_insert out entry (setNewReissueToAdd c)\<rparr> in
          (Some (if fAssetIndex G then
              (let c2 = with_balance G c1 name address in
               set_balance c2 name address (int64 (balance c2 name address + re_nAmount reissue)))
            else c1), G'))"

record CBlockAssetUndo =
  bu_fChangedIPFS :: bool
  bu_fChangedUnits :: bool
  bu_strIPFS :: string
  bu_nUnits :: int
  bu_fChangedVerifierString :: bool
  bu_verifierString :: string

definition RemoveRestrictedVerifier :: "CAssetsCache \<Rightarrow> string \<Rightarrow> string \<Rightarrow> bool \<Rightarrow> CAssetsCache" where
  "RemoveRestrictedVerifier c assetName verifier fUndoingReissue =
     c \<lparr>setNewRestrictedVerifierToAdd := AList.delete assetName (setNewRestrictedVerifierToAdd c),
        setNewRestrictedVerifierToRemove := set_insert assetName (verifier, fUndoingReissue) (setNewRestrictedVerifierToRemove c)\<rparr>"

definition AddRestrictedVerifier :: "CAssetsCache \<Rightarrow> string \<Rightarrow> string \<Rightarrow> CAssetsCache" where
  "AddRestrictedVerifier c assetName verifier =
     c \<lparr>setNewRestrictedVerifierToRemove := AList.delete assetName (setNewRestrictedVerifierToRemove c),
        setNewRestrictedVerifierToAdd := set_insert assetName (verifier, False) (setNewRestrictedVerifierToAdd c)\<rparr>"

text \<open>The data of an asset with a reissue undone, from the first undo entry with its name.\<close>

definition undo_reissued :: "CNewAsset \<Rightarrow> CReissueAsset \<Rightarrow> CBlockAssetUndo option \<Rightarrow> CNewAsset" where
  "undo_reissued asset reissue undo =
     (let a1 = asset \<lparr>na_nAmount := int64 (na_nAmount asset - re_nAmount reissue), na_nReissuable := 1\<rparr> in
      case undo of
        None \<Rightarrow> a1
      | Some u \<Rightarrow>
          let a2 = (if bu_fChangedIPFS u then a1 \<lparr>na_strIPFSHash := bu_strIPFS u\<rparr> else a1);
              a3 = (if bu_fChangedUnits u then a2 \<lparr>na_units := bu_nUnits u\<rparr> else a2) in
          if na_strIPFSHash a3 = [] then a3 \<lparr>na_nHasIPFS := 0\<rparr> else a3)"

definition RemoveReissueAsset ::
  "assets_globals \<Rightarrow> CAssetsCache \<Rightarrow> CReissueAsset \<Rightarrow> string \<Rightarrow> COutPoint \<Rightarrow> (string \<times> CBlockAssetUndo) list \<Rightarrow>
   CAssetsCache option \<times> assets_globals" where
  "RemoveReissueAsset G c reissue address out vUndoIPFS =
     (case GetAssetMetaDataIfExists c G (re_strName reissue) of
        (None, G') \<Rightarrow> (None, G')
      | (Some (asset, meta), G') \<Rightarrow>
          let name = re_strName reissue;
              undo = map_of vUndoIPFS name;
              assetData = undo_reissued asset reissue undo;
              entry = \<lparr>cr_reissue = reissue, cr_address = address,
                cr_blockHeight = (case meta of None \<Rightarrow> None | Some (h, _) \<Rightarrow> h),
                cr_blockHash = (case meta of None \<Rightarrow> 0 | Some (_, h) \<Rightarrow> h)\<rparr>;
              c1 = c \<lparr>mapReissuedAssetData := AList.update (na_strName assetData) assetData (mapReissuedAssetData c),
                setNewReissueToAdd := AList.delete out (setNewReissueToAdd c),
                setNewReissueToRemove := set_insert out entry (setNewReissueToRemove c)\<rparr>;
              c2 = (case undo of
                  Some u \<Rightarrow> if bu_fChangedVerifierString u then RemoveRestrictedVerifier c1 (na_strName assetData) (bu_verifierString u) True else c1
                | None \<Rightarrow> c1) in
          if \<not> fAssetIndex G then (Some c2, G')
          else case GetBestAssetAddressAmount G c2 name address of (found, c3) \<Rightarrow>
            if \<not> found \<and> re_nAmount reissue \<noteq> 0 then (None, G')
            else let n = int64 (balance c3 name address - re_nAmount reissue) in
              (if n < 0 then None else Some (set_balance c3 name address n), G'))"

definition AddOwnerAsset :: "assets_globals \<Rightarrow> CAssetsCache \<Rightarrow> string \<Rightarrow> string \<Rightarrow> CAssetsCache" where
  "AddOwnerAsset G c assetsName address =
     (let c1 = c \<lparr>setNewOwnerAssetsToRemove := AList.delete assetsName (setNewOwnerAssetsToRemove c),
         setNewOwnerAssetsToAdd := set_insert assetsName address (setNewOwnerAssetsToAdd c)\<rparr> in
      if fAssetIndex G then set_balance c1 assetsName address OWNER_ASSET_AMOUNT else c1)"

definition RemoveOwnerAsset :: "assets_globals \<Rightarrow> CAssetsCache \<Rightarrow> string \<Rightarrow> string \<Rightarrow> CAssetsCache" where
  "RemoveOwnerAsset G c assetsName address =
     (let c1 = c \<lparr>setNewOwnerAssetsToAdd := AList.delete assetsName (setNewOwnerAssetsToAdd c),
         setNewOwnerAssetsToRemove := set_insert assetsName address (setNewOwnerAssetsToRemove c)\<rparr> in
      if fAssetIndex G then set_balance c1 assetsName address 0 else c1)"

section \<open>Qualifiers and restrictions\<close>

text \<open>
  A command of a block goes into the set to add, an undone command into the set to remove; both first erase the key from both
  sets. The three kinds of commands (tags of an address, frozen addresses, globally frozen assets) do the same.
\<close>

definition command :: "'k \<Rightarrow> 't \<Rightarrow> ('k \<times> 't) list \<Rightarrow> ('k \<times> 't) list \<Rightarrow> ('k \<times> 't) list \<times> ('k \<times> 't) list" where
  "command k ty into other = (set_insert k ty (AList.delete k into), AList.delete k other)"

text \<open>The sub qualifiers of a root qualifier at an address; \<open>map[key].insert\<close> and \<open>map[key].erase\<close>.\<close>

definition root_insert :: "string \<times> string \<Rightarrow> string \<Rightarrow> ((string \<times> string) \<times> string list) list \<Rightarrow> ((string \<times> string) \<times> string list) list" where
  "root_insert k x m = AList.update k (List.insert x (case map_of m k of None \<Rightarrow> [] | Some xs \<Rightarrow> xs)) m"

definition root_erase :: "string \<times> string \<Rightarrow> string \<Rightarrow> ((string \<times> string) \<times> string list) list \<Rightarrow> ((string \<times> string) \<times> string list) list" where
  "root_erase k x m = AList.update k (removeAll x (case map_of m k of None \<Rightarrow> [] | Some xs \<Rightarrow> xs)) m"

definition root_qualifier :: "CAssetsCache \<Rightarrow> string \<Rightarrow> string \<Rightarrow> bool \<Rightarrow> CAssetsCache" where
  "root_qualifier c assetName address adding =
     (let k = (GetParentName assetName, address) in
      if \<not> IsAssetNameASubQualifier assetName then c
      else if adding then c \<lparr>mapRootQualifierAddressesAdd := root_insert k assetName (mapRootQualifierAddressesAdd c),
        mapRootQualifierAddressesRemove := root_erase k assetName (mapRootQualifierAddressesRemove c)\<rparr>
      else c \<lparr>mapRootQualifierAddressesRemove := root_insert k assetName (mapRootQualifierAddressesRemove c),
        mapRootQualifierAddressesAdd := root_erase k assetName (mapRootQualifierAddressesAdd c)\<rparr>)"

definition AddQualifierAddress :: "CAssetsCache \<Rightarrow> string \<Rightarrow> string \<Rightarrow> QualifierType \<Rightarrow> CAssetsCache" where
  "AddQualifierAddress c assetName address ty =
     (case command (assetName, address) ty (setNewQualifierAddressToAdd c) (setNewQualifierAddressToRemove c) of
        (add, rem) \<Rightarrow> (root_qualifier c assetName address (ty = ADD_QUALIFIER))
          \<lparr>setNewQualifierAddressToAdd := add, setNewQualifierAddressToRemove := rem\<rparr>)"

definition RemoveQualifierAddress :: "CAssetsCache \<Rightarrow> string \<Rightarrow> string \<Rightarrow> QualifierType \<Rightarrow> CAssetsCache" where
  "RemoveQualifierAddress c assetName address ty =
     (case command (assetName, address) ty (setNewQualifierAddressToRemove c) (setNewQualifierAddressToAdd c) of
        (rem, add) \<Rightarrow> (root_qualifier c assetName address (ty \<noteq> ADD_QUALIFIER))
          \<lparr>setNewQualifierAddressToAdd := add, setNewQualifierAddressToRemove := rem\<rparr>)"

definition AddRestrictedAddress :: "CAssetsCache \<Rightarrow> string \<Rightarrow> string \<Rightarrow> RestrictedType \<Rightarrow> CAssetsCache" where
  "AddRestrictedAddress c assetName address ty =
     (case command (assetName, address) ty (setNewRestrictedAddressToAdd c) (setNewRestrictedAddressToRemove c) of
        (add, rem) \<Rightarrow> c \<lparr>setNewRestrictedAddressToAdd := add, setNewRestrictedAddressToRemove := rem\<rparr>)"

definition RemoveRestrictedAddress :: "CAssetsCache \<Rightarrow> string \<Rightarrow> string \<Rightarrow> RestrictedType \<Rightarrow> CAssetsCache" where
  "RemoveRestrictedAddress c assetName address ty =
     (case command (assetName, address) ty (setNewRestrictedAddressToRemove c) (setNewRestrictedAddressToAdd c) of
        (rem, add) \<Rightarrow> c \<lparr>setNewRestrictedAddressToAdd := add, setNewRestrictedAddressToRemove := rem\<rparr>)"

definition AddGlobalRestricted :: "CAssetsCache \<Rightarrow> string \<Rightarrow> RestrictedType \<Rightarrow> CAssetsCache" where
  "AddGlobalRestricted c assetName ty =
     (case command assetName ty (setNewRestrictedGlobalToAdd c) (setNewRestrictedGlobalToRemove c) of
        (add, rem) \<Rightarrow> c \<lparr>setNewRestrictedGlobalToAdd := add, setNewRestrictedGlobalToRemove := rem\<rparr>)"

definition RemoveGlobalRestricted :: "CAssetsCache \<Rightarrow> string \<Rightarrow> RestrictedType \<Rightarrow> CAssetsCache" where
  "RemoveGlobalRestricted c assetName ty =
     (case command assetName ty (setNewRestrictedGlobalToRemove c) (setNewRestrictedGlobalToAdd c) of
        (rem, add) \<Rightarrow> c \<lparr>setNewRestrictedGlobalToAdd := add, setNewRestrictedGlobalToRemove := rem\<rparr>)"

section \<open>Flushing\<close>

text \<open>
  One pair of loops of \<^verbatim>\<open>Flush\<close>: the items to add are erased from the global set to remove and inserted into the global set to add;
  then the items to remove, the other way round. For the commands, verifier strings and tags the item replaces one with its key.
\<close>

definition flush_item :: "bool \<Rightarrow> 'k \<times> 'v \<Rightarrow> ('k \<times> 'v) list \<times> ('k \<times> 'v) list \<Rightarrow> ('k \<times> 'v) list \<times> ('k \<times> 'v) list" where
  "flush_item replace item sets =
     (set_insert (fst item) (snd item) (if replace then AList.delete (fst item) (fst sets) else fst sets), AList.delete (fst item) (snd sets))"

definition flush_sets ::
  "bool \<Rightarrow> ('k \<times> 'v) list \<Rightarrow> ('k \<times> 'v) list \<Rightarrow> ('k \<times> 'v) list \<times> ('k \<times> 'v) list \<Rightarrow> ('k \<times> 'v) list \<times> ('k \<times> 'v) list" where
  "flush_sets replace add rem sets =
     prod.swap (fold (flush_item replace) rem (prod.swap (fold (flush_item replace) add sets)))"

definition flush_map :: "('k \<times> 'v) list \<Rightarrow> ('k \<times> 'v) list \<Rightarrow> ('k \<times> 'v) list" where
  "flush_map items m = fold (\<lambda>(k, x) m. AList.update k x m) items m"

text \<open>
  The last two loops of \<^verbatim>\<open>Flush\<close> both insert into the global map of added sub qualifiers.
\<close>

definition flush_roots :: "((string \<times> string) \<times> string list) list \<Rightarrow> ((string \<times> string) \<times> string list) list \<Rightarrow> ((string \<times> string) \<times> string list) list" where
  "flush_roots items m = fold (\<lambda>(k, xs) m. fold (root_insert k) xs m) items m"

definition assets_Flush :: "CAssetsCache \<Rightarrow> CAssetsCache \<Rightarrow> CAssetsCache" where
  "assets_Flush c p =
     (let assets = flush_sets False (setNewAssetsToAdd c) (setNewAssetsToRemove c) (setNewAssetsToAdd p, setNewAssetsToRemove p);
          owners = flush_sets False (setNewOwnerAssetsToAdd c) (setNewOwnerAssetsToRemove c) (setNewOwnerAssetsToAdd p, setNewOwnerAssetsToRemove p);
          reissues = flush_sets False (setNewReissueToAdd c) (setNewReissueToRemove c) (setNewReissueToAdd p, setNewReissueToRemove p);
          transfers = flush_sets False (setNewTransferAssetsToAdd c) (setNewTransferAssetsToRemove c)
            (setNewTransferAssetsToAdd p, setNewTransferAssetsToRemove p);
          qualifiers = flush_sets True (setNewQualifierAddressToAdd c) (setNewQualifierAddressToRemove c)
            (setNewQualifierAddressToAdd p, setNewQualifierAddressToRemove p);
          restricted = flush_sets True (setNewRestrictedAddressToAdd c) (setNewRestrictedAddressToRemove c)
            (setNewRestrictedAddressToAdd p, setNewRestrictedAddressToRemove p);
          globals = flush_sets True (setNewRestrictedGlobalToAdd c) (setNewRestrictedGlobalToRemove c)
            (setNewRestrictedGlobalToAdd p, setNewRestrictedGlobalToRemove p);
          verifiers = flush_sets True (setNewRestrictedVerifierToAdd c) (setNewRestrictedVerifierToRemove c)
            (setNewRestrictedVerifierToAdd p, setNewRestrictedVerifierToRemove p) in
      \<lparr>mapAssetsAddressAmount = flush_map (mapAssetsAddressAmount c) (mapAssetsAddressAmount p),
       mapReissuedAssetData = flush_map (mapReissuedAssetData c) (mapReissuedAssetData p),
       vUndoAssetAmount = vUndoAssetAmount p @ vUndoAssetAmount c, vSpentAssets = vSpentAssets p @ vSpentAssets c,
       setNewAssetsToRemove = snd assets, setNewAssetsToAdd = fst assets,
       setNewReissueToRemove = snd reissues, setNewReissueToAdd = fst reissues,
       setNewOwnerAssetsToAdd = fst owners, setNewOwnerAssetsToRemove = snd owners,
       setNewTransferAssetsToAdd = fst transfers, setNewTransferAssetsToRemove = snd transfers,
       setNewQualifierAddressToAdd = fst qualifiers, setNewQualifierAddressToRemove = snd qualifiers,
       setNewRestrictedAddressToAdd = fst restricted, setNewRestrictedAddressToRemove = snd restricted,
       setNewRestrictedGlobalToAdd = fst globals, setNewRestrictedGlobalToRemove = snd globals,
       setNewRestrictedVerifierToAdd = fst verifiers, setNewRestrictedVerifierToRemove = snd verifiers,
       mapRootQualifierAddressesAdd =
         flush_roots (mapRootQualifierAddressesRemove c) (flush_roots (mapRootQualifierAddressesAdd c) (mapRootQualifierAddressesAdd p)),
       mapRootQualifierAddressesRemove = mapRootQualifierAddressesRemove p\<rparr>)"

definition Flush_cache :: "CAssetsCache \<Rightarrow> assets_globals \<Rightarrow> assets_globals" where
  "Flush_cache c G = G \<lparr>passets := assets_Flush c (passets G)\<rparr>"

section \<open>Writing to the databases\<close>

text \<open>
  \<^verbatim>\<open>DumpCacheToDatabase\<close>, one definition per loop. A write to the database succeeds or throws; the model has the run in which all
  writes succeed. A loop over a set visits its elements in the order of their keys.
\<close>

definition in_order :: "('k::linorder \<times> 'v) list \<Rightarrow> ('k \<times> 'v) list" where
  "in_order m = sort_key fst m"

definition outs_in_order :: "(COutPoint \<times> 'v) list \<Rightarrow> (COutPoint \<times> 'v) list" where
  "outs_in_order m = sort_key (\<lambda>(out, _). (Serialize_uint256 (COutPoint.op_hash out), op_n out)) m"

definition write_quantity :: "string \<Rightarrow> string \<Rightarrow> int \<Rightarrow> assets_globals \<Rightarrow> assets_globals" where
  "write_quantity name address n G = G \<lparr>passetsdb := (passetsdb G)
     \<lparr>db_asset_address := (db_asset_address (passetsdb G))((name, address) \<mapsto> n),
      db_address_asset := (db_address_asset (passetsdb G))((address, name) \<mapsto> n)\<rparr>\<rparr>"

definition erase_quantity :: "string \<Rightarrow> string \<Rightarrow> assets_globals \<Rightarrow> assets_globals" where
  "erase_quantity name address G = G \<lparr>passetsdb := (passetsdb G)
     \<lparr>db_asset_address := (db_asset_address (passetsdb G))((name, address) := None),
      db_address_asset := (db_address_asset (passetsdb G))((address, name) := None)\<rparr>\<rparr>"

text \<open>Writing the balance of the cache, if it has one: erased when it is zero and \<open>erase\<close> is set, or only written when positive.\<close>

definition save_balance :: "bool \<Rightarrow> bool \<Rightarrow> CAssetsCache \<Rightarrow> string \<Rightarrow> string \<Rightarrow> assets_globals \<Rightarrow> assets_globals" where
  "save_balance erase positive c name address G =
     (if \<not> fAssetIndex G then G
      else case map_of (mapAssetsAddressAmount c) (name, address) of
        None \<Rightarrow> G
      | Some n \<Rightarrow>
          if erase \<and> n = 0 then erase_quantity name address G
          else if positive \<and> n \<le> 0 then G
          else write_quantity name address n G)"

definition WriteAssetData :: "CNewAsset \<Rightarrow> int option \<Rightarrow> uint256 \<Rightarrow> assets_globals \<Rightarrow> assets_globals" where
  "WriteAssetData asset nHeight blockHash G = G \<lparr>passetsdb := (passetsdb G)
     \<lparr>db_asset := (db_asset (passetsdb G))(na_strName asset \<mapsto> (asset, nHeight, blockHash))\<rparr>\<rparr>"

definition EraseAssetData :: "string \<Rightarrow> assets_globals \<Rightarrow> assets_globals" where
  "EraseAssetData name G = G \<lparr>passetsdb := (passetsdb G) \<lparr>db_asset := (db_asset (passetsdb G))(name := None)\<rparr>\<rparr>"

definition write_verifier :: "string \<Rightarrow> string option \<Rightarrow> assets_globals \<Rightarrow> assets_globals" where
  "write_verifier name v G = G \<lparr>prestricteddb := (prestricteddb G) \<lparr>db_verifier := (db_verifier (prestricteddb G))(name := v)\<rparr>\<rparr>"

definition dump_removed_asset :: "string \<times> CAssetCacheNewAsset \<Rightarrow> assets_globals \<Rightarrow> assets_globals" where
  "dump_removed_asset item G =
     (let name = fst item;
          G1 = write_verifier name None (EraseAssetData name (G \<lparr>passetsCache := lru_Erase (passetsCache G) name\<rparr>)) in
      if fAssetIndex G then erase_quantity name (ca_address (snd item)) G1 else G1)"

definition dump_added_asset :: "string \<times> CAssetCacheNewAsset \<Rightarrow> assets_globals \<Rightarrow> assets_globals" where
  "dump_added_asset item G =
     (let e = snd item; d = (ca_asset e, Some (ca_blockHeight e), ca_blockHash e);
          G1 = WriteAssetData (ca_asset e) (Some (ca_blockHeight e)) (ca_blockHash e)
            (G \<lparr>passetsCache := lru_Put (passetsCache G) (na_strName (ca_asset e)) d\<rparr>) in
      if fAssetIndex G then write_quantity (na_strName (ca_asset e)) (ca_address e) (na_nAmount (ca_asset e)) G1 else G1)"

definition dump_removed_owner :: "string \<times> string \<Rightarrow> assets_globals \<Rightarrow> assets_globals" where
  "dump_removed_owner item G = (if fAssetIndex G then erase_quantity (fst item) (snd item) G else G)"

definition dump_reissue :: "CAssetsCache \<Rightarrow> COutPoint \<times> CAssetCacheReissueAsset \<Rightarrow> assets_globals \<Rightarrow> assets_globals" where
  "dump_reissue c item G =
     (let e = snd item; name = re_strName (cr_reissue e) in
      case map_of (mapReissuedAssetData c) name of
        None \<Rightarrow> G
      | Some asset \<Rightarrow>
          let G1 = WriteAssetData asset (cr_blockHeight e) (cr_blockHash e) G in
          save_balance False True c name (cr_address e) (G1 \<lparr>passetsCache := lru_Erase (passetsCache G1) name\<rparr>))"

definition dump_undo_reissue :: "CAssetsCache \<Rightarrow> COutPoint \<times> CAssetCacheReissueAsset \<Rightarrow> assets_globals \<Rightarrow> assets_globals" where
  "dump_undo_reissue c item G =
     (let e = snd item; name = re_strName (cr_reissue e) in
      if map_of (setNewAssetsToRemove c) name \<noteq> None then G
      else case map_of (mapReissuedAssetData c) name of
        None \<Rightarrow> G
      | Some asset \<Rightarrow>
          let G1 = save_balance True False c name (cr_address e) (WriteAssetData asset (cr_blockHeight e) (cr_blockHash e) G) in
          G1 \<lparr>passetsCache := lru_Erase (passetsCache G1) name\<rparr>)"

definition dump_verifier :: "string \<times> string \<times> bool \<Rightarrow> assets_globals \<Rightarrow> assets_globals" where
  "dump_verifier item G =
     (let G1 = write_verifier (fst item) (Some (fst (snd item))) G in
      G1 \<lparr>passetsVerifierCache := lru_Erase (passetsVerifierCache G1) (fst item)\<rparr>)"

definition dump_undo_verifier :: "string \<times> string \<times> bool \<Rightarrow> assets_globals \<Rightarrow> assets_globals" where
  "dump_undo_verifier item G =
     (let G1 = write_verifier (fst item) (if snd (snd item) then Some (fst (snd item)) else None) G in
      G1 \<lparr>passetsVerifierCache := lru_Erase (passetsVerifierCache G1) (fst item)\<rparr>)"

definition write_tag :: "crypto \<Rightarrow> string \<times> string \<Rightarrow> bool \<Rightarrow> assets_globals \<Rightarrow> assets_globals" where
  "write_tag C k add G =
     (let d = prestricteddb G; name = fst k; address = snd k; key = pair_key C name address in
      if add then G \<lparr>passetsQualifierCache := lru_Put (passetsQualifierCache G) key (),
        prestricteddb := d \<lparr>db_address_qualifier := List.insert (address, name) (db_address_qualifier d),
          db_qualifier_address := if fAssetIndex G then List.insert (name, address) (db_qualifier_address d) else db_qualifier_address d\<rparr>\<rparr>
      else G \<lparr>passetsQualifierCache := lru_Erase (passetsQualifierCache G) key,
        prestricteddb := d \<lparr>db_address_qualifier := removeAll (address, name) (db_address_qualifier d),
          db_qualifier_address := if fAssetIndex G then removeAll (name, address) (db_qualifier_address d) else db_qualifier_address d\<rparr>\<rparr>)"

definition dump_qualifier :: "crypto \<Rightarrow> bool \<Rightarrow> (string \<times> string) \<times> QualifierType \<Rightarrow> assets_globals \<Rightarrow> assets_globals" where
  "dump_qualifier C undo item G = write_tag C (fst item) ((snd item = ADD_QUALIFIER) \<noteq> undo) G"

definition write_frozen :: "crypto \<Rightarrow> string \<times> string \<Rightarrow> bool \<Rightarrow> assets_globals \<Rightarrow> assets_globals" where
  "write_frozen C k freeze G =
     (let d = prestricteddb G; name = fst k; address = snd k; key = pair_key C name address in
      if freeze then G \<lparr>passetsRestrictionCache := lru_Put (passetsRestrictionCache G) key (),
        prestricteddb := d \<lparr>db_restricted_address := List.insert (address, name) (db_restricted_address d)\<rparr>\<rparr>
      else G \<lparr>passetsRestrictionCache := lru_Erase (passetsRestrictionCache G) key,
        prestricteddb := d \<lparr>db_restricted_address := removeAll (address, name) (db_restricted_address d)\<rparr>\<rparr>)"

definition dump_restricted :: "crypto \<Rightarrow> bool \<Rightarrow> (string \<times> string) \<times> RestrictedType \<Rightarrow> assets_globals \<Rightarrow> assets_globals" where
  "dump_restricted C undo item G =
     (if snd item = UNFREEZE_ADDRESS then write_frozen C (fst item) undo G
      else if snd item = FREEZE_ADDRESS then write_frozen C (fst item) (\<not> undo) G
      else G)"

definition write_global :: "string \<Rightarrow> bool \<Rightarrow> assets_globals \<Rightarrow> assets_globals" where
  "write_global name freeze G =
     (let d = prestricteddb G in
      if freeze then G \<lparr>passetsGlobalRestrictionCache := lru_Put (passetsGlobalRestrictionCache G) name (),
        prestricteddb := d \<lparr>db_global_restriction := List.insert name (db_global_restriction d)\<rparr>\<rparr>
      else G \<lparr>passetsGlobalRestrictionCache := lru_Erase (passetsGlobalRestrictionCache G) name,
        prestricteddb := d \<lparr>db_global_restriction := removeAll name (db_global_restriction d)\<rparr>\<rparr>)"

definition dump_global :: "bool \<Rightarrow> string \<times> RestrictedType \<Rightarrow> assets_globals \<Rightarrow> assets_globals" where
  "dump_global undo item G =
     (if snd item = GLOBAL_UNFREEZE then write_global (fst item) undo G
      else if snd item = GLOBAL_FREEZE then write_global (fst item) (\<not> undo) G
      else G)"

definition dump_issues :: "CAssetsCache \<Rightarrow> assets_globals \<Rightarrow> assets_globals" where
  "dump_issues c G =
     (let G1 = fold dump_removed_asset (in_order (setNewAssetsToRemove c)) G;
          G2 = fold dump_added_asset (in_order (setNewAssetsToAdd c)) G1;
          G3 = fold dump_removed_owner (in_order (setNewOwnerAssetsToRemove c)) G2;
          G4 = fold (\<lambda>(name, address). save_balance False True c name address) (in_order (setNewOwnerAssetsToAdd c)) G3;
          G5 = fold (\<lambda>(_, t, address). save_balance True False c (tr_strName t) address) (outs_in_order (setNewTransferAssetsToRemove c)) G4;
          G6 = fold (\<lambda>(_, t, address). save_balance False False c (tr_strName t) address) (outs_in_order (setNewTransferAssetsToAdd c)) G5;
          G7 = fold (dump_reissue c) (outs_in_order (setNewReissueToAdd c)) G6;
          G8 = fold (dump_undo_reissue c) (outs_in_order (setNewReissueToRemove c)) G7;
          G9 = fold dump_verifier (in_order (setNewRestrictedVerifierToAdd c)) G8 in
      fold dump_undo_verifier (in_order (setNewRestrictedVerifierToRemove c)) G9)"

definition dump_tags :: "crypto \<Rightarrow> CAssetsCache \<Rightarrow> assets_globals \<Rightarrow> assets_globals" where
  "dump_tags C c G =
     fold (dump_qualifier C True) (in_order (setNewQualifierAddressToRemove c))
       (fold (dump_qualifier C False) (in_order (setNewQualifierAddressToAdd c)) G)"

definition dump_addresses :: "crypto \<Rightarrow> CAssetsCache \<Rightarrow> assets_globals \<Rightarrow> assets_globals" where
  "dump_addresses C c G =
     fold (dump_restricted C True) (in_order (setNewRestrictedAddressToRemove c))
       (fold (dump_restricted C False) (in_order (setNewRestrictedAddressToAdd c)) G)"

definition dump_globals :: "CAssetsCache \<Rightarrow> assets_globals \<Rightarrow> assets_globals" where
  "dump_globals c G =
     fold (dump_global True) (in_order (setNewRestrictedGlobalToRemove c))
       (fold (dump_global False) (in_order (setNewRestrictedGlobalToAdd c)) G)"

definition dump_amounts :: "CAssetsCache \<Rightarrow> assets_globals \<Rightarrow> assets_globals" where
  "dump_amounts c G =
     fold (\<lambda>(name, address, _). save_balance True False c name address) (vSpentAssets c)
       (fold (\<lambda>(name, address, _). save_balance False False c name address) (vUndoAssetAmount c) G)"

definition DumpCacheToDatabase :: "crypto \<Rightarrow> CAssetsCache \<Rightarrow> assets_globals \<Rightarrow> CAssetsCache \<times> assets_globals" where
  "DumpCacheToDatabase C c G =
     (ClearDirtyCache, dump_amounts c (dump_globals c (dump_addresses C c (dump_tags C c (dump_issues c G)))))"

definition passets_DumpCacheToDatabase :: "crypto \<Rightarrow> assets_globals \<Rightarrow> assets_globals" where
  "passets_DumpCacheToDatabase C G = (case DumpCacheToDatabase C (passets G) G of (c, G') \<Rightarrow> G' \<lparr>passets := c\<rparr>)"

section \<open>Undoing changes of balances\<close>

text \<open>The balance a cache answers: its own, that of the global cache, that of the database, or zero.\<close>

definition best_balance :: "assets_globals \<Rightarrow> CAssetsCache \<Rightarrow> string \<Rightarrow> string \<Rightarrow> int" where
  "best_balance G c name address = balance (with_balance G c name address) name address"

lemma best_balance_alt:
  "best_balance G c name address =
     (case map_of (mapAssetsAddressAmount c) (name, address) of Some n \<Rightarrow> n
      | None \<Rightarrow> if \<not> fAssetIndex G then 0 else
      case map_of (mapAssetsAddressAmount (passets G)) (name, address) of Some n \<Rightarrow> n
      | None \<Rightarrow> case db_asset_address (passetsdb G) (name, address) of Some n \<Rightarrow> n | None \<Rightarrow> 0)"
  by (auto simp: best_balance_def with_balance_def GetBestAssetAddressAmount_def balance_def set_insert_def update_conv' split: option.splits)

lemma balance_with_balance: "balance (with_balance G c name address) name address = best_balance G c name address"
  by (simp add: best_balance_def)

lemma map_of_with_balance:
  "map_of (mapAssetsAddressAmount (with_balance G c name address)) k =
     (if k = (name, address) then Some (best_balance G c name address) else map_of (mapAssetsAddressAmount c) k)"
  unfolding best_balance_alt with_balance_def GetBestAssetAddressAmount_def
  by (simp add: set_insert_def update_conv' split: option.split)

lemma best_balance_with_balance [simp]: "best_balance G (with_balance G c name address) n a = best_balance G c n a"
  unfolding best_balance_alt[of G "with_balance G c name address"] map_of_with_balance
  by (cases "n = name \<and> a = address") (auto simp: best_balance_alt)

lemma best_balance_set_balance [simp]:
  "best_balance G (set_balance c name address x) n a = (if n = name \<and> a = address then x else best_balance G c n a)"
  by (auto simp: best_balance_alt set_balance_def update_conv')

lemma best_balance_cong: "mapAssetsAddressAmount c = mapAssetsAddressAmount d \<Longrightarrow> best_balance G c n a = best_balance G d n a"
  by (simp add: best_balance_alt)

lemma best_balance_updates [simp]:
  "best_balance G (vSpentAssets_update f c) = best_balance G c" "best_balance G (vUndoAssetAmount_update f2 c) = best_balance G c"
  "best_balance G (setNewTransferAssetsToAdd_update f3 c) = best_balance G c"
  "best_balance G (setNewTransferAssetsToRemove_update f3 c) = best_balance G c"
  by (simp_all add: fun_eq_iff best_balance_alt)

lemma GetBest_found:
  "fAssetIndex G \<Longrightarrow> map_of (mapAssetsAddressAmount c) (name, address) \<noteq> None \<Longrightarrow> GetBestAssetAddressAmount G c name address = (True, c)"
  by (simp add: GetBestAssetAddressAmount_def)

lemma GetBest_with_balance:
  assumes "GetBestAssetAddressAmount G c name address = (True, c1)"
  shows "with_balance G c name address = c1"
  using assms by (simp add: with_balance_def)

lemma map_of_set_balance: "map_of (mapAssetsAddressAmount (set_balance c name address x)) (name, address) = Some x"
  by (simp add: set_balance_def update_conv')

lemma balance_set_balance [simp]: "balance (set_balance c name address x) name address = x"
  by (simp add: balance_def map_of_set_balance)

lemma balance_of_map: "balance c name address = x" if "map_of (mapAssetsAddressAmount c) (name, address) = Some x"
  using that by (simp add: balance_def)

text \<open>
  C20. Disconnecting a transfer undoes connecting it. With the index of balances on, taking back a transfer that was just added succeeds
  and every balance the cache answers, of this asset at this address and of all others, is what it was before, provided the balance is
  not negative and is a 64-bit number before and with the amount added. The exception are owner tokens, whose balance is set and not added to.
\<close>

theorem transfer_undone:
  assumes "fAssetIndex G" "\<not> IsAssetNameAnOwner (tr_strName t)" "0 \<le> best_balance G c (tr_strName t) a"
    "in_int64 (best_balance G c (tr_strName t) a + tr_nAmount t)" "in_int64 (best_balance G c (tr_strName t) a)"
  shows "\<exists>c2. RemoveTransfer G (AddTransferAsset G c t a out) t a out = Some c2 \<and>
    (\<forall>m b. best_balance G c2 m b = best_balance G c m b)"
proof -
  let ?n = "tr_strName t" and ?x = "best_balance G c (tr_strName t) a + tr_nAmount t"
  let ?c1 = "AddTransferAsset G c t a out"
  have m: "mapAssetsAddressAmount ?c1 = mapAssetsAddressAmount (set_balance (with_balance G c ?n a) ?n a ?x)"
    using assms by (simp add: AddTransferAsset_def AddToAssetBalance_def balance_with_balance int64_id Let_def)
  then have k: "map_of (mapAssetsAddressAmount ?c1) (?n, a) = Some ?x"
    by (simp add: map_of_set_balance)
  have "UndoTransfer G ?c1 t a = Some (set_balance ?c1 ?n a (best_balance G c ?n a))"
    using assms k by (simp add: UndoTransfer_def GetBest_found balance_of_map[OF k] int64_id)
  then show ?thesis
    using best_balance_cong[OF m]
    by (auto simp: RemoveTransfer_def)
qed

definition ex_globals :: assets_globals where
  "ex_globals = \<lparr>fAssetIndex = True, fReindex = False, passets = ClearDirtyCache,
     passetsdb = \<lparr>db_asset = Map.empty, db_asset_address = Map.empty, db_address_asset = Map.empty\<rparr>,
     prestricteddb = \<lparr>db_verifier = Map.empty, db_address_qualifier = [], db_qualifier_address = [], db_restricted_address = [],
       db_global_restriction = []\<rparr>,
     passetsCache = \<lparr>lru_maxSize = 2, lru_items = []\<rparr>, passetsVerifierCache = \<lparr>lru_maxSize = 2, lru_items = []\<rparr>,
     passetsQualifierCache = \<lparr>lru_maxSize = 2, lru_items = []\<rparr>, passetsRestrictionCache = \<lparr>lru_maxSize = 2, lru_items = []\<rparr>,
     passetsGlobalRestrictionCache = \<lparr>lru_maxSize = 2, lru_items = []\<rparr>\<rparr>"

theorem transfer_undone_witness:
  "\<exists>c2. RemoveTransfer ex_globals (AddTransferAsset ex_globals ClearDirtyCache \<lparr>tr_strName = ''CROW/SUB'', tr_nAmount = 5, tr_message = [], tr_nExpireTime = 0\<rparr>
      ''B1'' \<lparr>COutPoint.op_hash = 1, op_n = 0\<rparr>) \<lparr>tr_strName = ''CROW/SUB'', tr_nAmount = 5, tr_message = [], tr_nExpireTime = 0\<rparr> ''B1''
      \<lparr>COutPoint.op_hash = 1, op_n = 0\<rparr> = Some c2 \<and> (\<forall>m b. best_balance ex_globals c2 m b = best_balance ex_globals ClearDirtyCache m b)"
  by (rule transfer_undone) (simp_all add: ex_globals_def best_balance_alt ClearDirtyCache_def in_int64_def)

text \<open>
  Disconnecting a spend undoes connecting it. When a coin with an asset output is spent and the cache knows a balance of at least
  the amount, giving the spent asset back succeeds and every balance the cache answers is what it was before.
\<close>

theorem spend_undone:
  assumes "spent_asset C P (scriptPubKey (coin_out coin)) = Some (name, address, n)" "name \<noteq> []" "address \<noteq> []" "0 < n"
    "fAssetIndex G" "fst (GetBestAssetAddressAmount G c name address)" "n \<le> best_balance G c name address"
    "in_int64 (best_balance G c name address)"
  shows "\<exists>c1 c2. TrySpendCoin C P G c (coin_out coin) = (True, c1) \<and> UndoAssetCoin C P G c1 coin = Some c2 \<and>
    best_balance G c1 name address = best_balance G c name address - n \<and> (\<forall>m b. best_balance G c2 m b = best_balance G c m b)"
proof -
  let ?w = "with_balance G c name address" and ?x = "best_balance G c name address - n"
  obtain k where s: "IsAssetScript (scriptPubKey (coin_out coin)) = Some k"
    using assms(1) by (auto simp: spent_asset_def split: option.splits)
  have g: "GetBestAssetAddressAmount G c name address = (True, ?w)"
    using assms(6) by (cases "GetBestAssetAddressAmount G c name address") (auto simp: GetBest_with_balance)
  have x: "in_int64 ?x" "\<not> ?x < 0"
    using assms(4,7,8) by (auto simp: in_int64_def)
  let ?c1 = "(set_balance ?w name address ?x) \<lparr>vSpentAssets := vSpentAssets ?w @ [(name, address, n)]\<rparr>"
  have t: "TrySpendCoin C P G c (coin_out coin) = (True, ?c1)"
    using assms s g x by (simp add: TrySpendCoin_def balance_with_balance int64_id Let_def)
  have u: "UndoAssetCoin C P G ?c1 coin = Some (AddBackSpentAsset G ?c1 name address n)"
    "best_balance G (AddBackSpentAsset G ?c1 name address n) m b = best_balance G c m b" for m b
    using assms by (auto simp: UndoAssetCoin_def AddBackSpentAsset_def Let_def balance_with_balance int64_id)
  then show ?thesis
    using t by simp
qed

lemma dest_address_nonempty:
  assumes "length h = 20"
  shows "dest_address C P (CKeyID h) \<noteq> []"
proof -
  define v where "v = vchVersion (Set_address (base58Prefixes P) (CKeyID h)) @ h @ take 4 (Hash256 C (PUBKEY_ADDRESS (base58Prefixes P) @ h))"
  obtain s where s: "EncodeBase58 v = Some s" "DecodeBase58 s = Some (Some v)"
    by (rule base58_roundtrip)
  have "DecodeBase58 [] = Some (Some [])" by code_simp
  moreover have "v \<noteq> []" using assms by (auto simp: v_def)
  ultimately have "s \<noteq> []" using s(2) by auto
  moreover have "EncodeDestination C (base58Prefixes P) (CKeyID h) = Some s"
    using s(1) assms by (simp add: EncodeDestination_def address_IsValid_def EncodeBase58Check_def v_def Let_def)
  ultimately show ?thesis by (simp add: dest_address_def)
qed

theorem spend_undone_witness:
  "\<exists>c1 c2. TrySpendCoin ex_crypto ex_params ex_globals (set_balance ClearDirtyCache ''CROW/SUB'' (dest_address ex_crypto ex_params (CKeyID (replicate 20 1))) (300 * COIN))
      \<lparr>nValue = 0, scriptPubKey = ex_new_script, nRounds = 0\<rparr> = (True, c1) \<and>
    UndoAssetCoin ex_crypto ex_params ex_globals c1 (mk_Coin \<lparr>nValue = 0, scriptPubKey = ex_new_script, nRounds = 0\<rparr> 5 False) = Some c2"
proof -
  let ?a = "dest_address ex_crypto ex_params (CKeyID (replicate 20 1))" and ?o = "\<lparr>nValue = 0, scriptPubKey = ex_new_script, nRounds = 0\<rparr>"
  let ?c = "set_balance ClearDirtyCache ''CROW/SUB'' ?a (300 * COIN)"
  have a: "?a \<noteq> []" by (rule dest_address_nonempty) simp
  have s: "spent_asset ex_crypto ex_params ex_new_script = Some (''CROW/SUB'', ?a, 100 * COIN)"
    by (rule ex_kinds) (simp add: spent_asset_def, simp add: ex_sub_def)
  show ?thesis
    using spend_undone[of ex_crypto ex_params "mk_Coin ?o 5 False" "''CROW/SUB''" ?a "100 * COIN" ex_globals ?c] a s
    by (auto simp: mk_Coin_def ex_globals_def COIN_def in_int64_def GetBest_found map_of_set_balance)
qed

end
