(* ===== verification/AssetCommands.thy ===== *)
theory AssetCommands
  imports AssetsCache "HOL-Library.Multiset"
begin

text \<open>
  The commands on restricted assets (freezing an asset or an address, tagging an address) as they go through the cache of a block,
  the global cache and the database: all of it implements a set that a command adds to or takes from.
\<close>

section \<open>Commands, flushed and written\<close>

text \<open>
  What a pair of sets of commands makes of a set: a command that is to be undone counts as its opposite, and the sets to remove are
  read first. \<open>on\<close> tells the commands that add from those that take away.
\<close>

definition overlay :: "('t \<Rightarrow> bool) \<Rightarrow> ('k \<times> 't) list \<times> ('k \<times> 't) list \<Rightarrow> ('k \<Rightarrow> bool) \<Rightarrow> 'k \<Rightarrow> bool" where
  "overlay on sets base k =
     (case map_of (snd sets) k of
        Some ty \<Rightarrow> \<not> on ty
      | None \<Rightarrow> (case map_of (fst sets) k of Some ty \<Rightarrow> on ty | None \<Rightarrow> base k))"

definition wf_sets :: "('k \<times> 't) list \<times> ('k \<times> 't) list \<Rightarrow> bool" where
  "wf_sets sets \<longleftrightarrow> distinct (map fst (fst sets)) \<and> distinct (map fst (snd sets)) \<and> fst ` set (fst sets) \<inter> fst ` set (snd sets) = {}"

lemma wf_sets_commute: "wf_sets (a, b) = wf_sets (b, a)"
  by (auto simp: wf_sets_def)

lemma wf_sets_Nil [simp]: "wf_sets ([], [])"
  by (simp add: wf_sets_def)

lemma wf_swap [simp]: "wf_sets (prod.swap s) = wf_sets s"
  by (auto simp: wf_sets_def)

lemma keys_delete [simp]: "fst ` set (AList.delete k m) = fst ` set m - {k}"
  by (auto simp: AList.delete_eq)

lemma map_of_keyD: "map_of m k = Some x \<Longrightarrow> k \<in> fst ` set m"
  by (force dest: map_of_SomeD)

lemma map_of_set_insert [simp]: "map_of (set_insert k x m) j = (case map_of m j of Some y \<Rightarrow> Some y | None \<Rightarrow> if j = k then Some x else None)"
  by (auto simp: set_insert_def split: option.splits)

lemma map_of_delete [simp]: "map_of (AList.delete k m) j = (if j = k then None else map_of m j)"
  by (simp add: AList.delete_conv')

lemma distinct_delete [simp]: "distinct (map fst m) \<Longrightarrow> distinct (map fst (AList.delete k m))"
  by (simp add: AList.distinct_delete)

lemma wf_flush_item [simp]: "wf_sets s \<Longrightarrow> wf_sets (flush_item r i s)"
  by (auto simp: wf_sets_def flush_item_def set_insert_def map_of_eq_None_iff)

lemma wf_flush_fold [simp]: "wf_sets s \<Longrightarrow> wf_sets (fold (flush_item r) xs s)"
  by (induction xs arbitrary: s) simp_all

lemma wf_flush [simp]: "wf_sets s \<Longrightarrow> wf_sets (flush_sets r add rem s)"
  by (simp add: flush_sets_def)

section \<open>The laws of one kind of command\<close>

lemma wf_command: "wf_sets (a, r) \<Longrightarrow> wf_sets (command k ty a r)"
  by (auto simp: wf_sets_def command_def set_insert_def map_of_eq_None_iff)

text \<open>A set is a map from the keys of the last item with each key: with distinct keys, of the only one.\<close>

lemma flush_items_into:
  "distinct (map fst xs) \<Longrightarrow> map_of (fst (fold (flush_item True) xs s)) k =
     (case map_of xs k of Some x \<Rightarrow> Some x | None \<Rightarrow> map_of (fst s) k)"
proof (induction xs arbitrary: s)
  case (Cons x xs)
  then have "map_of xs (fst x) = None"
    by (simp add: map_of_eq_None_iff)
  with Cons show ?case
    by (cases x) (auto simp: flush_item_def split: option.splits)
qed simp

lemma flush_items_other:
  "map_of (snd (fold (flush_item True) xs s)) k = (if map_of xs k = None then map_of (snd s) k else None)"
  by (induction xs arbitrary: s) (auto simp: flush_item_def)

lemma overlay_flush:
  assumes "wf_sets (add, rem)"
  shows "overlay on (flush_sets True add rem s) base = overlay on (add, rem) (overlay on s base)"
proof (rule ext)
  fix k
  have d: "distinct (map fst add)" "distinct (map fst rem)" "map_of add k = None \<or> map_of rem k = None"
    using assms by (auto simp: wf_sets_def map_of_eq_None_iff)
  show "overlay on (flush_sets True add rem s) base k = overlay on (add, rem) (overlay on s base) k"
    using d by (auto simp: overlay_def flush_sets_def flush_items_into flush_items_other split: option.splits)
qed

lemma set_in_order [simp]: "set (in_order m) = set m"
  by (simp add: in_order_def)

lemma distinct_in_order [simp]: "distinct (map fst (in_order m)) = distinct (map fst m)"
  by (rule mset_eq_imp_distinct_iff) (simp add: in_order_def)

lemma map_of_in_order [simp]: "distinct (map fst m) \<Longrightarrow> map_of (in_order m) = map_of m"
  by (rule map_of_inject_set[THEN iffD2]) simp_all

text \<open>Every item of the sets is one of the commands.\<close>

definition items_in :: "('k \<times> 't \<Rightarrow> bool) \<Rightarrow> ('k \<times> 't) list \<times> ('k \<times> 't) list \<Rightarrow> bool" where
  "items_in P s \<longleftrightarrow> list_all P (fst s) \<and> list_all P (snd s)"

locale command_store =
  fixes on :: "'t \<Rightarrow> bool" and valid :: "'k::linorder \<times> 't \<Rightarrow> bool"
    and good :: "'g \<Rightarrow> bool" and holds :: "'g \<Rightarrow> 'k \<Rightarrow> bool" and dump :: "bool \<Rightarrow> 'k \<times> 't \<Rightarrow> 'g \<Rightarrow> 'g"
  assumes dump_good: "good g \<Longrightarrow> valid item \<Longrightarrow> good (dump undo item g)"
    and dump_holds: "good g \<Longrightarrow> valid item \<Longrightarrow> holds (dump undo item g) = (holds g)(fst item := (on (snd item) \<noteq> undo))"
begin

lemma dump_all_good: "good g \<Longrightarrow> list_all valid xs \<Longrightarrow> good (fold (dump undo) xs g)"
  by (induction xs arbitrary: g) (simp_all add: dump_good)

lemma dump_all_holds:
  "good g \<Longrightarrow> list_all valid xs \<Longrightarrow> distinct (map fst xs) \<Longrightarrow>
   holds (fold (dump undo) xs g) k = (case map_of xs k of Some ty \<Rightarrow> on ty \<noteq> undo | None \<Rightarrow> holds g k)"
proof (induction xs arbitrary: g)
  case (Cons x xs)
  then have "map_of xs (fst x) = None"
    by (simp add: map_of_eq_None_iff)
  with Cons show ?case
    by (cases x) (auto simp: dump_good dump_holds split: option.splits)
qed simp

lemma dump_sets:
  assumes "good g" "wf_sets s" "items_in valid s"
  shows "good (fold (dump True) (in_order (snd s)) (fold (dump False) (in_order (fst s)) g))"
    and "holds (fold (dump True) (in_order (snd s)) (fold (dump False) (in_order (fst s)) g)) = overlay on s (holds g)"
proof -
  have v: "list_all valid (in_order (fst s))" "list_all valid (in_order (snd s))"
    using assms by (simp_all add: list_all_iff items_in_def)
  have d: "distinct (map fst (fst s))" "distinct (map fst (snd s))"
    using assms by (simp_all add: wf_sets_def)
  have g: "good (fold (dump False) (in_order (fst s)) g)"
    using assms v by (simp add: dump_all_good)
  show "good (fold (dump True) (in_order (snd s)) (fold (dump False) (in_order (fst s)) g))"
    using g v by (simp add: dump_all_good)
  show "holds (fold (dump True) (in_order (snd s)) (fold (dump False) (in_order (fst s)) g)) = overlay on s (holds g)"
    using assms(1) v d g by (auto simp: fun_eq_iff overlay_def dump_all_holds split: option.splits)
qed

end

section \<open>The stores of the program\<close>

lemma lru_Exists_Put: "lru_Exists (lru_Put c k x) j \<Longrightarrow> j = k \<or> lru_Exists c j"
  by (auto simp: lru_Exists_def lru_Put_def Let_def map_of_eq_None_iff AList.delete_eq dest!: in_set_butlastD split: if_splits)

lemma lru_Exists_Erase [simp]: "lru_Exists (lru_Erase c k) j \<longleftrightarrow> j \<noteq> k \<and> lru_Exists c j"
  by (simp add: lru_Exists_def lru_Erase_def)

definition freeze_type :: "RestrictedType \<Rightarrow> bool" where
  "freeze_type ty \<longleftrightarrow> ty = FREEZE_ADDRESS \<or> ty = GLOBAL_FREEZE"

definition global_command :: "string \<times> RestrictedType \<Rightarrow> bool" where
  "global_command item \<longleftrightarrow> snd item = GLOBAL_FREEZE \<or> snd item = GLOBAL_UNFREEZE"

definition global_coherent :: "assets_globals \<Rightarrow> bool" where
  "global_coherent G \<longleftrightarrow> (\<forall>n. lru_Exists (passetsGlobalRestrictionCache G) n \<longrightarrow> n \<in> set (db_global_restriction (prestricteddb G)))"

definition address_command :: "(string \<times> string) set \<Rightarrow> (string \<times> string) \<times> RestrictedType \<Rightarrow> bool" where
  "address_command K item \<longleftrightarrow> fst item \<in> K \<and> (snd item = FREEZE_ADDRESS \<or> snd item = UNFREEZE_ADDRESS)"

definition address_coherent :: "crypto \<Rightarrow> (string \<times> string) set \<Rightarrow> assets_globals \<Rightarrow> bool" where
  "address_coherent C K G \<longleftrightarrow> inj_on (case_prod (pair_key C)) K \<and>
     (\<forall>(n, a)\<in>K. lru_Exists (passetsRestrictionCache G) (pair_key C n a) \<longrightarrow> (a, n) \<in> set (db_restricted_address (prestricteddb G)))"

interpretation global_store: command_store freeze_type global_command global_coherent
  "\<lambda>G n. n \<in> set (db_global_restriction (prestricteddb G))" dump_global
  by unfold_locales
    (auto simp: global_coherent_def global_command_def dump_global_def write_global_def freeze_type_def fun_eq_iff Let_def dest!: lru_Exists_Put)

lemma address_coherent_freeze:
  assumes "address_coherent C K G" "k \<in> K"
  shows "address_coherent C K (write_frozen C k freeze G)"
proof -
  have "pair_key C n a \<noteq> pair_key C (fst k) (snd k)" if "(n, a) \<in> K" "(n, a) \<noteq> k" for n a
    using assms that inj_onD[of "case_prod (pair_key C)" K "(n, a)" k]
    by (cases k) (auto simp: address_coherent_def)
  then show ?thesis
    using assms by (cases k) (fastforce simp: address_coherent_def write_frozen_def Let_def dest!: lru_Exists_Put)
qed

interpretation address_store: command_store freeze_type "address_command K" "address_coherent C K"
  "\<lambda>G (n, a). (a, n) \<in> set (db_restricted_address (prestricteddb G))" "dump_restricted C" for C K
proof
  show "address_coherent C K (dump_restricted C undo item G)" if "address_coherent C K G" "address_command K item" for G item undo
    using that by (auto simp: dump_restricted_def address_command_def address_coherent_freeze)
  show "(\<lambda>(n, a). (a, n) \<in> set (db_restricted_address (prestricteddb (dump_restricted C undo item G)))) =
      (\<lambda>(n, a). (a, n) \<in> set (db_restricted_address (prestricteddb G)))(fst item := (freeze_type (snd item) \<noteq> undo))"
    if "address_coherent C K G" "address_command K item" for G item undo
    using that by (cases item) (auto simp: dump_restricted_def address_command_def write_frozen_def freeze_type_def fun_eq_iff Let_def)
qed

section \<open>Writing the whole cache\<close>

text \<open>Each of the other loops leaves alone what the commands of one kind read.\<close>

definition global_part :: "assets_globals \<Rightarrow> unit lru \<times> string list" where
  "global_part G = (passetsGlobalRestrictionCache G, db_global_restriction (prestricteddb G))"

definition address_part :: "assets_globals \<Rightarrow> unit lru \<times> (string \<times> string) list" where
  "address_part G = (passetsRestrictionCache G, db_restricted_address (prestricteddb G))"

lemma fold_frame: "(\<And>x g. x \<in> set xs \<Longrightarrow> f (h x g) = f g) \<Longrightarrow> f (fold h xs g) = f g"
  by (induction xs arbitrary: g) simp_all

lemmas dump_write_defs = write_quantity_def erase_quantity_def save_balance_def WriteAssetData_def EraseAssetData_def write_verifier_def
  dump_removed_asset_def dump_added_asset_def dump_removed_owner_def dump_reissue_def dump_undo_reissue_def dump_verifier_def
  dump_undo_verifier_def write_tag_def dump_qualifier_def Let_def

lemma dump_frames_global [simp]:
  "global_part (dump_removed_asset i1 G) = global_part G" "global_part (dump_added_asset i1 G) = global_part G"
  "global_part (dump_removed_owner i2 G) = global_part G" "global_part (save_balance e p c n a G) = global_part G"
  "global_part (dump_reissue c i3 G) = global_part G" "global_part (dump_undo_reissue c i3 G) = global_part G"
  "global_part (dump_verifier i4 G) = global_part G" "global_part (dump_undo_verifier i4 G) = global_part G"
  "global_part (dump_qualifier C u i5 G) = global_part G" "global_part (dump_restricted C u i6 G) = global_part G"
  by (simp_all add: global_part_def dump_write_defs dump_restricted_def write_frozen_def split: option.splits)

lemma dump_frames_address [simp]:
  "address_part (dump_removed_asset i1 G) = address_part G" "address_part (dump_added_asset i1 G) = address_part G"
  "address_part (dump_removed_owner i2 G) = address_part G" "address_part (save_balance e p c n a G) = address_part G"
  "address_part (dump_reissue c i3 G) = address_part G" "address_part (dump_undo_reissue c i3 G) = address_part G"
  "address_part (dump_verifier i4 G) = address_part G" "address_part (dump_undo_verifier i4 G) = address_part G"
  "address_part (dump_qualifier C u i5 G) = address_part G" "address_part (dump_global u i6 G) = address_part G"
  by (simp_all add: address_part_def dump_write_defs dump_global_def write_global_def split: option.splits)

lemma dump_parts_global [simp]:
  "global_part (dump_issues c G) = global_part G" "global_part (dump_tags C c G) = global_part G"
  "global_part (dump_addresses C c G) = global_part G" "global_part (dump_amounts c G) = global_part G"
  by (simp_all add: dump_issues_def dump_tags_def dump_addresses_def dump_amounts_def fold_frame[of _ global_part] split_beta)

lemma dump_parts_address [simp]:
  "address_part (dump_issues c G) = address_part G" "address_part (dump_tags C c G) = address_part G"
  "address_part (dump_globals c G) = address_part G" "address_part (dump_amounts c G) = address_part G"
  by (simp_all add: dump_issues_def dump_tags_def dump_globals_def dump_amounts_def fold_frame[of _ address_part] split_beta)

section \<open>Frozen assets and frozen addresses\<close>

text \<open>What a node answers between two blocks, with an empty cache of its own.\<close>

definition frozen_assets :: "assets_globals \<Rightarrow> string set" where
  "frozen_assets G = {n. fst (CheckForGlobalRestriction ClearDirtyCache G n False)}"

definition frozen_addresses :: "crypto \<Rightarrow> assets_globals \<Rightarrow> (string \<times> string) set" where
  "frozen_addresses C G = {(n, a). fst (CheckForAddressRestriction C ClearDirtyCache G n a False)}"

definition global_sets :: "CAssetsCache \<Rightarrow> (string \<times> RestrictedType) list \<times> (string \<times> RestrictedType) list" where
  "global_sets c = (setNewRestrictedGlobalToAdd c, setNewRestrictedGlobalToRemove c)"

definition address_sets :: "CAssetsCache \<Rightarrow> ((string \<times> string) \<times> RestrictedType) list \<times> ((string \<times> string) \<times> RestrictedType) list" where
  "address_sets c = (setNewRestrictedAddressToAdd c, setNewRestrictedAddressToRemove c)"

definition global_inv :: "assets_globals \<Rightarrow> bool" where
  "global_inv G \<longleftrightarrow> global_coherent G \<and> wf_sets (global_sets (passets G)) \<and> items_in global_command (global_sets (passets G))"

definition address_inv :: "crypto \<Rightarrow> (string \<times> string) set \<Rightarrow> assets_globals \<Rightarrow> bool" where
  "address_inv C K G \<longleftrightarrow> address_coherent C K G \<and> wf_sets (address_sets (passets G)) \<and> items_in (address_command K) (address_sets (passets G))"

lemma list_all_map_of: "list_all P m \<Longrightarrow> map_of m k = Some x \<Longrightarrow> P (k, x)"
  by (auto simp: list_all_iff dest: map_of_SomeD)

lemma frozen_assets_overlay:
  assumes "global_inv G"
  shows "n \<in> frozen_assets G \<longleftrightarrow>
    overlay freeze_type (global_sets (passets G)) (\<lambda>n. n \<in> set (db_global_restriction (prestricteddb G))) n"
  using assms list_all_map_of[of global_command "setNewRestrictedGlobalToAdd (passets G)" n]
    list_all_map_of[of global_command "setNewRestrictedGlobalToRemove (passets G)" n]
  by (auto simp: frozen_assets_def CheckForGlobalRestriction_def ClearDirtyCache_def overlay_def items_in_def global_sets_def global_inv_def
      global_coherent_def global_command_def freeze_type_def split: option.splits)

lemma frozen_addresses_overlay:
  assumes "address_inv C K G" "k \<in> K"
  shows "k \<in> frozen_addresses C G \<longleftrightarrow>
    overlay freeze_type (address_sets (passets G)) (\<lambda>(n, a). (a, n) \<in> set (db_restricted_address (prestricteddb G))) k"
  using assms list_all_map_of[of "address_command K" "setNewRestrictedAddressToAdd (passets G)" k]
    list_all_map_of[of "address_command K" "setNewRestrictedAddressToRemove (passets G)" k]
  by (cases k) (auto simp: frozen_addresses_def CheckForAddressRestriction_def ClearDirtyCache_def overlay_def items_in_def address_sets_def address_inv_def
      address_coherent_def address_command_def freeze_type_def split: option.splits)

subsection \<open>The commands of a block\<close>

text \<open>A command with its key, its type and whether it is undone; what a sequence of them makes of a cache, and of a set.\<close>

definition run_globals :: "(string \<times> RestrictedType \<times> bool) list \<Rightarrow> CAssetsCache \<Rightarrow> CAssetsCache" where
  "run_globals cmds c = fold (\<lambda>(n, ty, undo) c. if undo then RemoveGlobalRestricted c n ty else AddGlobalRestricted c n ty) cmds c"

definition run_addresses :: "((string \<times> string) \<times> RestrictedType \<times> bool) list \<Rightarrow> CAssetsCache \<Rightarrow> CAssetsCache" where
  "run_addresses cmds c =
     fold (\<lambda>((n, a), ty, undo) c. if undo then RemoveRestrictedAddress c n a ty else AddRestrictedAddress c n a ty) cmds c"

definition apply_commands :: "('k \<times> RestrictedType \<times> bool) list \<Rightarrow> 'k set \<Rightarrow> 'k set" where
  "apply_commands cmds S = fold (\<lambda>(k, ty, undo) S. if freeze_type ty \<noteq> undo then insert k S else S - {k}) cmds S"

lemma global_sets_command:
  "global_sets (AddGlobalRestricted c n ty) = command n ty (setNewRestrictedGlobalToAdd c) (setNewRestrictedGlobalToRemove c)"
  "global_sets (RemoveGlobalRestricted c n ty) = prod.swap (command n ty (setNewRestrictedGlobalToRemove c) (setNewRestrictedGlobalToAdd c))"
  by (simp_all add: global_sets_def AddGlobalRestricted_def RemoveGlobalRestricted_def command_def)

lemma address_sets_command:
  "address_sets (AddRestrictedAddress c n a ty) = command (n, a) ty (setNewRestrictedAddressToAdd c) (setNewRestrictedAddressToRemove c)"
  "address_sets (RemoveRestrictedAddress c n a ty) =
     prod.swap (command (n, a) ty (setNewRestrictedAddressToRemove c) (setNewRestrictedAddressToAdd c))"
  by (simp_all add: address_sets_def AddRestrictedAddress_def RemoveRestrictedAddress_def command_def)

text \<open>One step on any pair of sets, and what it keeps.\<close>

definition command_step :: "'k \<times> RestrictedType \<times> bool \<Rightarrow> ('k \<times> RestrictedType) list \<times> ('k \<times> RestrictedType) list \<Rightarrow>
    ('k \<times> RestrictedType) list \<times> ('k \<times> RestrictedType) list" where
  "command_step x s = (case x of (k, ty, undo) \<Rightarrow>
     if undo then prod.swap (command k ty (snd s) (fst s)) else command k ty (fst s) (snd s))"

lemma global_sets_run: "global_sets (run_globals cmds c) = fold command_step cmds (global_sets c)"
proof (induction cmds arbitrary: c)
  case (Cons x cmds)
  show ?case
    by (cases x) (auto simp: run_globals_def[of "_ # _"] Cons.IH[unfolded run_globals_def] global_sets_command command_step_def global_sets_def[of c])
qed (simp add: run_globals_def)

lemma address_sets_run: "address_sets (run_addresses cmds c) = fold command_step cmds (address_sets c)"
proof (induction cmds arbitrary: c)
  case (Cons x cmds)
  show ?case
    by (cases x) (auto simp: run_addresses_def[of "_ # _"] Cons.IH[unfolded run_addresses_def] address_sets_command command_step_def address_sets_def[of c])
qed (simp add: run_addresses_def)

lemma wf_command_step [simp]: "wf_sets s \<Longrightarrow> wf_sets (command_step x s)"
  by (cases x; cases s) (auto simp: command_step_def wf_command wf_sets_commute)

lemma wf_run [simp]: "wf_sets s \<Longrightarrow> wf_sets (fold command_step cmds s)"
  by (induction cmds arbitrary: s) simp_all

lemma overlay_run:
  "overlay freeze_type (fold command_step cmds s) base = (\<lambda>k. k \<in> apply_commands cmds {k. overlay freeze_type s base k})"
proof (induction cmds arbitrary: s)
  case (Cons x cmds)
  have "{k. overlay freeze_type (command_step x s) base k} =
      (case x of (k, ty, undo) \<Rightarrow> if freeze_type ty \<noteq> undo then insert k {k. overlay freeze_type s base k} else {k. overlay freeze_type s base k} - {k})"
    by (cases x; cases s) (auto simp: command_step_def overlay_def command_def split: option.splits)
  with Cons show ?case
    by (cases x) (simp add: apply_commands_def)
qed (simp add: apply_commands_def)

lemma list_all_set_insert [simp]: "P (k, x) \<Longrightarrow> list_all P m \<Longrightarrow> list_all P (set_insert k x m)"
  by (simp add: set_insert_def)

lemma list_all_delete [simp]: "list_all P m \<Longrightarrow> list_all P (AList.delete k m)"
  by (auto simp: list_all_iff AList.delete_eq)

lemma items_in_step: "items_in P s \<Longrightarrow> P (fst x, fst (snd x)) \<Longrightarrow> items_in P (command_step x s)"
  by (cases x) (auto simp: items_in_def command_step_def command_def)

lemma items_in_run: "items_in P s \<Longrightarrow> list_all (\<lambda>x. P (fst x, fst (snd x))) cmds \<Longrightarrow> items_in P (fold command_step cmds s)"
  by (induction cmds arbitrary: s) (simp_all add: items_in_step)

lemma items_in_flush_item: "items_in P s \<Longrightarrow> P i \<Longrightarrow> items_in P (flush_item r i s)"
  by (cases i) (auto simp: items_in_def flush_item_def)

lemma items_in_flush_fold: "items_in P s \<Longrightarrow> list_all P xs \<Longrightarrow> items_in P (fold (flush_item r) xs s)"
  by (induction xs arbitrary: s) (simp_all add: items_in_flush_item)

lemma items_in_swap [simp]: "items_in P (prod.swap s) = items_in P s"
  by (auto simp: items_in_def)

lemma items_in_flush: "items_in P s \<Longrightarrow> items_in P (add, rem) \<Longrightarrow> items_in P (flush_sets r add rem s)"
  by (simp add: flush_sets_def items_in_flush_fold items_in_def[of P "(add, rem)"])

subsection \<open>Runs of a node\<close>

lemma sets_ClearDirtyCache [simp]:
  "global_sets ClearDirtyCache = ([], [])" "address_sets ClearDirtyCache = ([], [])" "items_in P ([], [])"
  by (simp_all add: global_sets_def address_sets_def ClearDirtyCache_def items_in_def)

lemma overlay_Nil [simp]: "overlay on ([], []) base = base"
  by (simp add: overlay_def fun_eq_iff)

lemma sets_Flush:
  "global_sets (assets_Flush c p) = flush_sets True (fst (global_sets c)) (snd (global_sets c)) (global_sets p)"
  "address_sets (assets_Flush c p) = flush_sets True (fst (address_sets c)) (snd (address_sets c)) (address_sets p)"
  by (simp_all add: global_sets_def address_sets_def assets_Flush_def Let_def)

lemma flush_run:
  assumes "wf_sets s" "items_in P s" "list_all (\<lambda>x. P (fst x, fst (snd x))) cmds"
  defines "l \<equiv> fold command_step cmds ([], [])"
  shows "wf_sets (flush_sets True (fst l) (snd l) s)" "items_in P (flush_sets True (fst l) (snd l) s)"
    "overlay freeze_type (flush_sets True (fst l) (snd l) s) base = (\<lambda>k. k \<in> apply_commands cmds {k. overlay freeze_type s base k})"
proof -
  have l: "wf_sets l" "items_in P l"
    using assms by (simp_all add: items_in_run)
  show "wf_sets (flush_sets True (fst l) (snd l) s)" "items_in P (flush_sets True (fst l) (snd l) s)"
    using assms l by (simp_all add: items_in_flush)
  show "overlay freeze_type (flush_sets True (fst l) (snd l) s) base = (\<lambda>k. k \<in> apply_commands cmds {k. overlay freeze_type s base k})"
    using l by (simp add: overlay_flush l_def overlay_run)
qed

lemma part_simps:
  "global_part G = global_part H \<Longrightarrow> db_global_restriction (prestricteddb G) = db_global_restriction (prestricteddb H)"
  "global_part G = global_part H \<Longrightarrow> global_coherent G = global_coherent H"
  "address_part G = address_part H \<Longrightarrow> db_restricted_address (prestricteddb G) = db_restricted_address (prestricteddb H)"
  "address_part G = address_part H \<Longrightarrow> address_coherent C K G = address_coherent C K H"
  by (simp_all add: global_part_def address_part_def global_coherent_def address_coherent_def)

definition valid_commands :: "('k \<times> RestrictedType \<Rightarrow> bool) \<Rightarrow> ('k \<times> RestrictedType \<times> bool) list \<Rightarrow> bool" where
  "valid_commands P cmds \<longleftrightarrow> list_all (\<lambda>x. P (fst x, fst (snd x))) cmds"

lemma global_flush:
  assumes "global_inv G" "global_sets c = fold command_step cmds ([], [])" "valid_commands global_command cmds"
  shows "global_inv (Flush_cache c G)" "frozen_assets (Flush_cache c G) = apply_commands cmds (frozen_assets G)"
proof -
  note f = flush_run[of "global_sets (passets G)" global_command cmds]
  show i: "global_inv (Flush_cache c G)"
    using assms f by (simp add: global_inv_def Flush_cache_def sets_Flush valid_commands_def global_coherent_def)
  have "frozen_assets G = {n. overlay freeze_type (global_sets (passets G)) (\<lambda>n. n \<in> set (db_global_restriction (prestricteddb G))) n}"
    using frozen_assets_overlay[OF assms(1)] by auto
  then show "frozen_assets (Flush_cache c G) = apply_commands cmds (frozen_assets G)"
    using assms f frozen_assets_overlay[OF i] by (auto simp: global_inv_def Flush_cache_def sets_Flush valid_commands_def)
qed

lemma dump_of_sets:
  "dump_globals c G = fold (dump_global True) (in_order (snd (global_sets c))) (fold (dump_global False) (in_order (fst (global_sets c))) G)"
  "dump_addresses C c G =
     fold (dump_restricted C True) (in_order (snd (address_sets c))) (fold (dump_restricted C False) (in_order (fst (address_sets c))) G)"
  by (simp_all add: dump_globals_def dump_addresses_def global_sets_def address_sets_def)

lemma dumped_parts:
  "global_part (passets_DumpCacheToDatabase C G) =
     global_part (dump_globals (passets G) (dump_addresses C (passets G) (dump_tags C (passets G) (dump_issues (passets G) G))))"
  "address_part (passets_DumpCacheToDatabase C G) =
     address_part (dump_addresses C (passets G) (dump_tags C (passets G) (dump_issues (passets G) G)))"
  "passets (passets_DumpCacheToDatabase C G) = ClearDirtyCache"
proof -
  have u: "global_part (H \<lparr>passets := c\<rparr>) = global_part H" "address_part (H \<lparr>passets := c\<rparr>) = address_part H" for H c
    by (simp_all add: global_part_def address_part_def)
  show "global_part (passets_DumpCacheToDatabase C G) =
     global_part (dump_globals (passets G) (dump_addresses C (passets G) (dump_tags C (passets G) (dump_issues (passets G) G))))"
    "address_part (passets_DumpCacheToDatabase C G) =
     address_part (dump_addresses C (passets G) (dump_tags C (passets G) (dump_issues (passets G) G)))"
    "passets (passets_DumpCacheToDatabase C G) = ClearDirtyCache"
    by (simp_all add: passets_DumpCacheToDatabase_def DumpCacheToDatabase_def u)
qed

lemma global_dump:
  assumes "global_inv G"
  shows "global_inv (passets_DumpCacheToDatabase C G)" "frozen_assets (passets_DumpCacheToDatabase C G) = frozen_assets G"
proof -
  let ?H = "dump_addresses C (passets G) (dump_tags C (passets G) (dump_issues (passets G) G))"
  let ?D = "passets_DumpCacheToDatabase C G"
  have h: "global_part ?H = global_part G"
    by simp
  note d = dumped_parts(1)[of C G]
  note s = global_store.dump_sets[of ?H "global_sets (passets G)", folded dump_of_sets(1)]
  show i: "global_inv ?D"
    using assms s(1) by (simp add: global_inv_def part_simps(2)[OF d] part_simps(2)[OF h] dumped_parts(3))
  show "frozen_assets ?D = frozen_assets G"
    using assms s(2) frozen_assets_overlay[OF i] frozen_assets_overlay[OF assms]
    by (auto simp: global_inv_def part_simps(1,2)[OF d] part_simps(1,2)[OF h] dumped_parts(3))
qed

lemma apply_commands_Int:
  "valid_commands P cmds \<Longrightarrow> (\<And>x. P x \<Longrightarrow> fst x \<in> K) \<Longrightarrow> apply_commands cmds S \<inter> K = apply_commands cmds (S \<inter> K)"
proof (induction cmds arbitrary: S)
  case (Cons x cmds)
  obtain k ty undo where x: "x = (k, ty, undo)"
    by (cases x)
  have "k \<in> K"
    using Cons.prems(1) Cons.prems(2)[of "(k, ty)"] x by (simp add: valid_commands_def)
  then have "insert k S \<inter> K = insert k (S \<inter> K)" "(S - {k}) \<inter> K = S \<inter> K - {k}"
    by auto
  then show ?case
    using Cons x by (simp add: apply_commands_def valid_commands_def)
qed (simp add: apply_commands_def)

lemma address_flush:
  assumes "address_inv C K G" "address_sets c = fold command_step cmds ([], [])" "valid_commands (address_command K) cmds"
  shows "address_inv C K (Flush_cache c G)" "frozen_addresses C (Flush_cache c G) \<inter> K = apply_commands cmds (frozen_addresses C G \<inter> K)"
proof -
  note f = flush_run[of "address_sets (passets G)" "address_command K" cmds]
  show i: "address_inv C K (Flush_cache c G)"
    using assms f by (simp add: address_inv_def Flush_cache_def sets_Flush valid_commands_def address_coherent_def)
  let ?S = "{k. overlay freeze_type (address_sets (passets G)) (\<lambda>(n, a). (a, n) \<in> set (db_restricted_address (prestricteddb G))) k}"
  have "frozen_addresses C G \<inter> K = ?S \<inter> K"
    using frozen_addresses_overlay[OF assms(1)] by auto
  moreover have "frozen_addresses C (Flush_cache c G) \<inter> K = apply_commands cmds ?S \<inter> K"
    using assms f frozen_addresses_overlay[OF i] by (auto simp: address_inv_def Flush_cache_def sets_Flush valid_commands_def)
  ultimately show "frozen_addresses C (Flush_cache c G) \<inter> K = apply_commands cmds (frozen_addresses C G \<inter> K)"
    using apply_commands_Int[OF assms(3), of K ?S] by (simp add: address_command_def)
qed

lemma address_dump:
  assumes "address_inv C K G"
  shows "address_inv C K (passets_DumpCacheToDatabase C G)"
    "frozen_addresses C (passets_DumpCacheToDatabase C G) \<inter> K = frozen_addresses C G \<inter> K"
proof -
  let ?H = "dump_tags C (passets G) (dump_issues (passets G) G)"
  let ?D = "passets_DumpCacheToDatabase C G"
  have h: "address_part ?H = address_part G"
    by simp
  note d = dumped_parts(2)[of C G]
  note s = address_store.dump_sets[of C K ?H "address_sets (passets G)", folded dump_of_sets(2)]
  show i: "address_inv C K ?D"
    using assms s(1) by (simp add: address_inv_def part_simps(4)[OF d] part_simps(4)[OF h] dumped_parts(3))
  show "frozen_addresses C ?D \<inter> K = frozen_addresses C G \<inter> K"
    using assms s(2) frozen_addresses_overlay[OF i] frozen_addresses_overlay[OF assms]
    by (auto simp: address_inv_def part_simps(3,4)[OF d] part_simps(3,4)[OF h] dumped_parts(3))
qed

text \<open>
  A node starts with nothing frozen. It connects blocks or rolls them back on a cache that holds the applied or undone commands (among
  all else) and is flushed (by \<^verbatim>\<open>ConnectTip\<close> and \<^verbatim>\<open>ReplayBlocks\<close>; \<^verbatim>\<open>DisconnectTip\<close> drops its cache); it answers questions, which fill the caches; and it writes the global cache to the databases. \<open>K\<close> are the pairs
  of an asset and an address in use, no two of which have the same cache key.
\<close>

inductive freeze_run :: "crypto \<Rightarrow> (string \<times> string) set \<Rightarrow> (string \<times> RestrictedType \<times> bool) list \<Rightarrow>
    ((string \<times> string) \<times> RestrictedType \<times> bool) list \<Rightarrow> assets_globals \<Rightarrow> bool" for C K where
  start: "inj_on (case_prod (pair_key C)) K \<Longrightarrow> passets G = ClearDirtyCache \<Longrightarrow>
    lru_items (passetsGlobalRestrictionCache G) = [] \<Longrightarrow> lru_items (passetsRestrictionCache G) = [] \<Longrightarrow>
    db_global_restriction (prestricteddb G) = [] \<Longrightarrow> db_restricted_address (prestricteddb G) = [] \<Longrightarrow> freeze_run C K [] [] G"
| block: "freeze_run C K gs as G \<Longrightarrow> valid_commands global_command gs' \<Longrightarrow> valid_commands (address_command K) as' \<Longrightarrow>
    global_sets c = global_sets (run_globals gs' ClearDirtyCache) \<Longrightarrow>
    address_sets c = address_sets (run_addresses as' ClearDirtyCache) \<Longrightarrow>
    freeze_run C K (gs @ gs') (as @ as') (Flush_cache c G)"
| ask_global: "freeze_run C K gs as G \<Longrightarrow> freeze_run C K gs as (snd (CheckForGlobalRestriction c G n skip))"
| ask_address: "freeze_run C K gs as G \<Longrightarrow> (n, a) \<in> K \<Longrightarrow> freeze_run C K gs as (snd (CheckForAddressRestriction C c G n a skip))"
| save: "freeze_run C K gs as G \<Longrightarrow> freeze_run C K gs as (passets_DumpCacheToDatabase C G)"

definition freeze_inv :: "crypto \<Rightarrow> (string \<times> string) set \<Rightarrow> string set \<Rightarrow> (string \<times> string) set \<Rightarrow> assets_globals \<Rightarrow> bool" where
  "freeze_inv C K S T G \<longleftrightarrow> global_inv G \<and> address_inv C K G \<and> frozen_assets G = S \<and> frozen_addresses C G \<inter> K = T"

lemma apply_commands_append: "apply_commands (xs @ ys) S = apply_commands ys (apply_commands xs S)"
  by (simp add: apply_commands_def)

text \<open>A change of the caches alone that keeps them coherent keeps all of it.\<close>

lemma freeze_inv_caches:
  assumes "freeze_inv C K S T G" "passets H = passets G" "prestricteddb H = prestricteddb G" "global_coherent H" "address_coherent C K H"
  shows "freeze_inv C K S T H"
proof -
  have i: "global_inv H" "address_inv C K H"
    using assms by (simp_all add: freeze_inv_def global_inv_def address_inv_def)
  have "frozen_assets H = frozen_assets G" "frozen_addresses C H \<inter> K = frozen_addresses C G \<inter> K"
    using assms frozen_assets_overlay[OF i(1)] frozen_addresses_overlay[OF i(2)]
      frozen_assets_overlay[of G] frozen_addresses_overlay[of C K G] by (auto simp: freeze_inv_def)
  then show ?thesis
    using i assms(1) by (simp add: freeze_inv_def)
qed

lemma ask_global_cases:
  assumes "P G" "n \<in> set (db_global_restriction (prestricteddb G)) \<Longrightarrow>
    P (G \<lparr>passetsGlobalRestrictionCache := lru_Put (passetsGlobalRestrictionCache G) n ()\<rparr>)"
  shows "P (snd (CheckForGlobalRestriction c G n skip))"
  using assms unfolding CheckForGlobalRestriction_def Let_def by (simp split: option.split)

lemma ask_address_cases:
  assumes "P G" "(a, n) \<in> set (db_restricted_address (prestricteddb G)) \<Longrightarrow>
    P (G \<lparr>passetsRestrictionCache := lru_Put (passetsRestrictionCache G) (pair_key C n a) ()\<rparr>)"
  shows "P (snd (CheckForAddressRestriction C c G n a skip))"
  using assms unfolding CheckForAddressRestriction_def Let_def by (simp split: option.split)

lemma freeze_inv_ask_global:
  assumes "freeze_inv C K S T G"
  shows "freeze_inv C K S T (snd (CheckForGlobalRestriction c G n skip))"
proof (rule ask_global_cases)
  assume "n \<in> set (db_global_restriction (prestricteddb G))"
  then show "freeze_inv C K S T (G \<lparr>passetsGlobalRestrictionCache := lru_Put (passetsGlobalRestrictionCache G) n ()\<rparr>)"
    using assms by (intro freeze_inv_caches[OF assms])
      (auto simp: freeze_inv_def global_inv_def address_inv_def global_coherent_def address_coherent_def dest!: lru_Exists_Put)
qed (rule assms)

lemma address_coherent_put:
  assumes "address_coherent C K G" "(n, a) \<in> K" "(a, n) \<in> set (db_restricted_address (prestricteddb G))"
  shows "address_coherent C K (G \<lparr>passetsRestrictionCache := lru_Put (passetsRestrictionCache G) (pair_key C n a) ()\<rparr>)"
  unfolding address_coherent_def
proof (intro conjI ballI, goal_cases)
  case (2 x)
  have "fst x = n \<and> snd x = a" if "pair_key C (fst x) (snd x) = pair_key C n a"
    using assms that 2 inj_onD[of "case_prod (pair_key C)" K x "(n, a)"] by (auto simp: address_coherent_def split_beta)
  then show ?case
    using assms 2 by (cases x) (auto simp: address_coherent_def dest!: lru_Exists_Put)
qed (use assms(1) in \<open>simp add: address_coherent_def\<close>)

lemma freeze_inv_ask_address:
  assumes "freeze_inv C K S T G" "(n, a) \<in> K"
  shows "freeze_inv C K S T (snd (CheckForAddressRestriction C c G n a skip))"
proof (rule ask_address_cases)
  let ?H = "G \<lparr>passetsRestrictionCache := lru_Put (passetsRestrictionCache G) (pair_key C n a) ()\<rparr>"
  assume "(a, n) \<in> set (db_restricted_address (prestricteddb G))"
  then have "address_coherent C K ?H"
    using assms address_coherent_put by (simp add: freeze_inv_def address_inv_def)
  then show "freeze_inv C K S T ?H"
    using assms(1) by (intro freeze_inv_caches[OF assms(1)]) (simp_all add: freeze_inv_def global_inv_def global_coherent_def)
qed (rule assms(1))

lemma freeze_run_inv: "freeze_run C K gs as G \<Longrightarrow> freeze_inv C K (apply_commands gs {}) (apply_commands as {}) G"
proof (induction rule: freeze_run.induct)
  case (start G)
  then show ?case
    by (auto simp: freeze_inv_def global_inv_def address_inv_def global_coherent_def address_coherent_def lru_Exists_def apply_commands_def
        frozen_assets_def frozen_addresses_def CheckForGlobalRestriction_def CheckForAddressRestriction_def ClearDirtyCache_def
        global_sets_def address_sets_def items_in_def)
next
  case (block gs as G gs' as' c)
  then show ?case
    by (simp add: freeze_inv_def global_flush address_flush global_sets_run address_sets_run apply_commands_append)
next
  case (save gs as G)
  then show ?case
    by (simp add: freeze_inv_def global_dump address_dump)
qed (simp_all add: freeze_inv_ask_global freeze_inv_ask_address)

text \<open>
  C23. Freezing implements a set. After any sequence of flushed caches of connected or rolled back blocks, questions and writes to the database,
  the assets that the node reports as globally frozen are exactly those that the freezing, unfreezing and undone commands leave frozen in
  a plain set, and so are the frozen addresses of the pairs in use. Flushing, writing and the least recently used caches change nothing.
\<close>

theorem freezing_refines_sets:
  assumes "freeze_run C K gs as G"
  shows "frozen_assets G = apply_commands gs {} \<and> frozen_addresses C G \<inter> K = apply_commands as {}"
  using freeze_run_inv[OF assms] by (simp add: freeze_inv_def)

definition ex_block :: CAssetsCache where
  "ex_block = AddRestrictedAddress (AddGlobalRestricted (AddGlobalRestricted ClearDirtyCache ''$CROW'' GLOBAL_FREEZE) ''$JAY'' GLOBAL_FREEZE)
     ''$CROW'' ''B1'' FREEZE_ADDRESS"

definition ex_undo :: CAssetsCache where
  "ex_undo = RemoveGlobalRestricted ClearDirtyCache ''$JAY'' GLOBAL_FREEZE"

lemma ex_freeze_run:
  "freeze_run ex_crypto {(''$CROW'', ''B1'')} [(''$CROW'', GLOBAL_FREEZE, False), (''$JAY'', GLOBAL_FREEZE, False), (''$JAY'', GLOBAL_FREEZE, True)]
     [((''$CROW'', ''B1''), FREEZE_ADDRESS, False)]
     (Flush_cache ex_undo (passets_DumpCacheToDatabase ex_crypto (Flush_cache ex_block ex_globals)))"
proof -
  let ?K = "{(''$CROW'', ''B1'')}"
  have "freeze_run ex_crypto ?K [] [] ex_globals"
    by (rule freeze_run.start) (simp_all add: ex_globals_def)
  then have "freeze_run ex_crypto ?K ([] @ [(''$CROW'', GLOBAL_FREEZE, False), (''$JAY'', GLOBAL_FREEZE, False)])
      ([] @ [((''$CROW'', ''B1''), FREEZE_ADDRESS, False)]) (Flush_cache ex_block ex_globals)"
    by (rule freeze_run.block)
      (simp_all add: valid_commands_def global_command_def address_command_def global_sets_def address_sets_def run_globals_def
        run_addresses_def ex_block_def AddGlobalRestricted_def AddRestrictedAddress_def command_def)
  note freeze_run.save[OF this]
  from freeze_run.block[OF this, of "[(''$JAY'', GLOBAL_FREEZE, True)]" "[]" ex_undo] show ?thesis
    by (simp add: valid_commands_def global_command_def global_sets_def address_sets_def run_globals_def run_addresses_def ex_undo_def
        RemoveGlobalRestricted_def command_def)
qed

theorem freezing_refines_sets_witness:
  "frozen_assets (Flush_cache ex_undo (passets_DumpCacheToDatabase ex_crypto (Flush_cache ex_block ex_globals))) = {''$CROW''} \<and>
   frozen_addresses ex_crypto (Flush_cache ex_undo (passets_DumpCacheToDatabase ex_crypto (Flush_cache ex_block ex_globals)))
     \<inter> {(''$CROW'', ''B1'')} = {(''$CROW'', ''B1'')}"
  using freezing_refines_sets[OF ex_freeze_run] by (simp add: apply_commands_def freeze_type_def)

section \<open>Where the caches disagree\<close>

text \<open>
  The sets of undone commands of the global cache are read before the block's own commands. In the block after a disconnected freeze, a new
  freeze of the asset goes unnoticed until the block is flushed.
\<close>

lemma freeze_unnoticed_after_undo:
  defines "G \<equiv> Flush_cache (RemoveGlobalRestricted ClearDirtyCache ''$CROW'' GLOBAL_FREEZE) ex_globals"
    and "c \<equiv> AddGlobalRestricted ClearDirtyCache ''$CROW'' GLOBAL_FREEZE"
  shows "\<not> fst (CheckForGlobalRestriction c G ''$CROW'' False) \<and> fst (CheckForGlobalRestriction ClearDirtyCache (Flush_cache c G) ''$CROW'' False)"
  unfolding G_def c_def by code_simp

text \<open>For the same reason an asset whose issue was disconnected can be issued twice in the next block.\<close>

lemma duplicate_issue_after_undo:
  fixes asset :: CNewAsset
  assumes "na_strName asset = ''CROW''"
  defines "G \<equiv> ex_globals \<lparr>passets := ClearDirtyCache \<lparr>setNewAssetsToRemove :=
      [(''CROW'', \<lparr>ca_asset = asset, ca_address = ''B1'', ca_blockHeight = 0, ca_blockHash = 0\<rparr>)]\<rparr>\<rparr>"
  shows "\<exists>c1 c2. fst (AddNewAsset G ClearDirtyCache asset ''B1'' 5 7) = Some c1 \<and> fst (AddNewAsset G c1 asset ''B2'' 5 7) = Some c2 \<and>
     balance c2 ''CROW'' ''B1'' = na_nAmount asset \<and> balance c2 ''CROW'' ''B2'' = na_nAmount asset"
  by (simp add: assms AddNewAsset_def CheckIfAssetExists_def ex_globals_def ClearDirtyCache_def set_insert_def set_balance_def balance_def Let_def)

text \<open>
  Flushing adds the sub qualifiers that a block took away to the map of those added, so that taking a tag from an address gives it the
  root tag.
\<close>

lemma ex_sub_qualifier: "IsAssetNameASubQualifier ''#CROW/#SUB''" "GetParentName ''#CROW/#SUB'' = ''#CROW''"
  by code_simp+

lemma removed_tag_gives_root_tag:
  defines "c \<equiv> AddQualifierAddress ClearDirtyCache ''#CROW/#SUB'' ''B1'' REMOVE_QUALIFIER"
  shows "\<not> fst (CheckForAddressQualifier C c ex_globals ''#CROW'' ''B1'' False) \<and>
     fst (CheckForAddressQualifier C ClearDirtyCache (Flush_cache c ex_globals) ''#CROW'' ''B1'' False)"
  by (simp add: c_def AddQualifierAddress_def root_qualifier_def ex_sub_qualifier command_def set_insert_def root_insert_def root_erase_def
      ClearDirtyCache_def CheckForAddressQualifier_def ex_globals_def lru_Exists_def CheckForAddressRootQualifier_def Flush_cache_def
      assets_Flush_def flush_sets_def flush_item_def flush_roots_def List.insert_def)

end
