(* ===== verification/Hex.thy ===== *)
theory Hex
  imports AssetTx
begin

text \<open>
  Hexadecimal text (\<^verbatim>\<open>src/src/utilstrencodings.cpp\<close>, \<^verbatim>\<open>.h\<close>) and the texts of IPFS hashes and transaction ids that asset data carry
  (\<^verbatim>\<open>src/src/assets/assets.cpp\<close>).
\<close>

section \<open>Hexadecimal text\<close>

definition HexDigit :: "char \<Rightarrow> int" where
  "HexDigit c =
     (let n = of_char c in
      if 48 \<le> n \<and> n \<le> 57 then n - 48
      else if 65 \<le> n \<and> n \<le> 70 then n - 55
      else if 97 \<le> n \<and> n \<le> 102 then n - 87
      else -1)"

definition IsHex :: "string \<Rightarrow> bool" where
  "IsHex str \<longleftrightarrow> list_all (\<lambda>c. HexDigit c \<ge> 0) str \<and> length str > 0 \<and> length str mod 2 = 0"

definition IsHexNumber :: "string \<Rightarrow> bool" where
  "IsHexNumber str =
     (let starting_location = (if length str > 2 \<and> take 2 str = ''0x'' then 2 else 0) in
      list_all (\<lambda>c. HexDigit c \<ge> 0) (drop starting_location str) \<and> length str > starting_location)"

text \<open>
  The text ends at a null character, whose digit is \<open>-1\<close>; the loop stops there as at any character that is no digit. After the first
  digit of a byte no space is skipped.
\<close>

function ParseHex_loop :: "string \<Rightarrow> bytes" where
  "ParseHex_loop psz =
     (case dropWhile isspace psz of
        a # b # rest \<Rightarrow>
          if HexDigit a = -1 \<or> HexDigit b = -1 then []
          else word_of_int (HexDigit a * 16 + HexDigit b) # ParseHex_loop rest
      | _ \<Rightarrow> [])"
  by pat_completeness auto
termination
proof (relation "measure length")
  fix psz :: string and a x21a b rest
  assume "dropWhile isspace psz = a # x21a" "x21a = b # rest"
  then have "length (a # b # rest) \<le> length psz"
    using length_dropWhile_le[of isspace psz] by simp
  then show "(rest, psz) \<in> measure length"
    by simp
qed simp

declare ParseHex_loop.simps [simp del]

definition ParseHex :: "string \<Rightarrow> bytes" where
  "ParseHex str = ParseHex_loop (c_str str)"

definition HexStr :: "bytes \<Rightarrow> string" where
  "HexStr vch = concat (map (\<lambda>val. [hex_digit (unat (drop_bit 4 val)), hex_digit (unat (and val 15))]) vch)"

section \<open>Texts of asset data\<close>

text \<open>The data of an asset hold the bytes of an IPFS hash or of a transaction id as a string. \<open>[]\<close> stands for the assertion that cannot fail.\<close>

definition EncodeIPFS :: "string \<Rightarrow> string" where
  "EncodeIPFS decoded = (case EncodeBase58 (string_bytes decoded) of Some s \<Rightarrow> s | None \<Rightarrow> [])"

definition DecodeIPFS :: "string \<Rightarrow> string" where
  "DecodeIPFS encoded = (case DecodeBase58 encoded of Some (Some b) \<Rightarrow> bytes_string b | _ \<Rightarrow> [])"

definition DecodeAssetData :: "string \<Rightarrow> string" where
  "DecodeAssetData encoded =
     (if length encoded = 46 then DecodeIPFS encoded
      else if length encoded = 64 \<and> IsHex encoded then bytes_string (ParseHex encoded)
      else [])"

definition EncodeAssetData :: "string \<Rightarrow> string" where
  "EncodeAssetData decoded =
     (if length decoded = 34 then EncodeIPFS decoded
      else if length decoded = 32 then HexStr (string_bytes decoded)
      else [])"

definition CheckEncoded :: "string \<Rightarrow> unit check" where
  "CheckEncoded hash =
     (let encodedStr = EncodeAssetData hash in
      if take 2 encodedStr = ''Qm'' \<and> length encodedStr = 46 then Inr ()
      else if IsHex encodedStr \<and> length encodedStr = 64 then Inr ()
      else Inl ''Invalid parameter: ipfs_hash is not valid, or txid hash is not the right length'')"

section \<open>Round trips\<close>

lemma hex_digit_cases: "n < 16 \<Longrightarrow> HexDigit (hex_digit n) = int n \<and> \<not> isspace (hex_digit n) \<and> hex_digit n \<noteq> CHR 0x00"
proof -
  have "list_all (\<lambda>n. HexDigit (hex_digit n) = int n \<and> \<not> isspace (hex_digit n) \<and> hex_digit n \<noteq> CHR 0x00) [0..<16]"
    by code_simp
  then show "n < 16 \<Longrightarrow> ?thesis" by (simp add: list_all_iff)
qed

lemma nibbles: "unat (drop_bit 4 (v :: byte)) < 16" "unat (and v 15) < 16"
  "unat (drop_bit 4 v) * 16 + unat (and v 15) = unat v"
proof -
  have d: "unat (drop_bit 4 v) = unat v div 16"
    unfolding unat_drop_bit_eq by (simp add: drop_bit_eq_div)
  have t: "and v 15 = take_bit 4 v"
    by (simp add: take_bit_eq_mask mask_eq_exp_minus_1)
  have m: "unat (and v 15) = unat v mod 16"
    unfolding t unsigned_take_bit_eq by (simp add: take_bit_eq_mod)
  have "unat v < 256"
    using unsigned_less[of v, where 'a = nat] by simp
  then show "unat (drop_bit 4 v) < 16" "unat (and v 15) < 16" "unat (drop_bit 4 v) * 16 + unat (and v 15) = unat v"
    unfolding d m by (simp_all add: div_less_iff_less_mult)
qed

lemma uint_not_minus [simp]: "uint (w :: byte) \<noteq> - 1"
  using uint_ge_0[of w] by linarith

lemma ParseHex_HexStr: "ParseHex_loop (HexStr vch) = vch"
proof (induction vch)
  case (Cons v vch)
  have "word_of_int (int (unat (drop_bit 4 v)) * 16 + int (unat (and v 15))) = v"
    using arg_cong[OF nibbles(3)[of v], of "\<lambda>n. word_of_int (int n) :: byte"] by simp
  with Cons show ?case
    using hex_digit_cases[OF nibbles(1)[of v]] hex_digit_cases[OF nibbles(2)[of v]]
    by (simp add: HexStr_def ParseHex_loop.simps[of "_ # _"])
qed (simp add: HexStr_def ParseHex_loop.simps)

lemma length_HexStr [simp]: "length (HexStr vch) = 2 * length vch"
  by (induction vch) (simp_all add: HexStr_def)

lemma HexStr_chars: "c \<in> set (HexStr vch) \<Longrightarrow> HexDigit c \<ge> 0 \<and> c \<noteq> CHR 0x00"
  using hex_digit_cases[OF nibbles(1)] hex_digit_cases[OF nibbles(2)] by (auto simp: HexStr_def)

lemma IsHex_HexStr [simp]: "IsHex (HexStr vch) \<longleftrightarrow> vch \<noteq> []"
  using HexStr_chars[of _ vch] by (auto simp: IsHex_def list_all_iff)

lemma c_str_HexStr: "c_str (HexStr vch) = HexStr vch"
  using HexStr_chars[of _ vch] by (auto simp: c_str_def takeWhile_eq_all_conv)

text \<open>
  The text of an IPFS hash or a transaction id gives back its bytes: the 34 or 32 bytes that a valid asset carries decode from
  the text shown for them, and a transaction id always passes the check of encoded data.
\<close>

theorem asset_data_roundtrip:
  assumes "length decoded = 32 \<or> length decoded = 34 \<and> length (EncodeAssetData decoded) = 46"
  shows "DecodeAssetData (EncodeAssetData decoded) = decoded \<and> (length decoded = 32 \<longrightarrow> CheckEncoded decoded = Inr ())"
  using assms
proof
  assume l: "length decoded = 32"
  then have s: "length (string_bytes decoded) = 32"
    by (simp add: string_bytes_def)
  then have "string_bytes decoded \<noteq> []"
    by (cases "string_bytes decoded") simp_all
  with l s show ?thesis
    by (simp add: EncodeAssetData_def DecodeAssetData_def ParseHex_def c_str_HexStr ParseHex_HexStr bytes_string_inverse CheckEncoded_def Let_def)
next
  assume l: "length decoded = 34 \<and> length (EncodeAssetData decoded) = 46"
  obtain s where "EncodeBase58 (string_bytes decoded) = Some s" "DecodeBase58 s = Some (Some (string_bytes decoded))"
    by (rule base58_roundtrip)
  moreover from this l have "EncodeAssetData decoded = s" "length s = 46"
    by (auto simp: EncodeAssetData_def EncodeIPFS_def)
  ultimately show ?thesis
    using l by (simp add: DecodeAssetData_def DecodeIPFS_def bytes_string_inverse)
qed

theorem asset_data_roundtrip_witness:
  "DecodeAssetData (EncodeAssetData (replicate 32 CHR ''a'')) = replicate 32 CHR ''a'' \<and>
   CheckEncoded (replicate 32 CHR ''a'') = Inr ()"
  using asset_data_roundtrip[of "replicate 32 CHR ''a''"] by simp

end
