(* ===== verification/AssetsVerify.thy ===== *)
theory AssetsVerify
  imports AssetCommands Hex
begin

text \<open>
  The checks of a transaction against the asset data of the chain (\<^verbatim>\<open>CheckTxAssets\<close> in \<^verbatim>\<open>src/src/consensus/tx_verify.cpp\<close> and the
  \<^verbatim>\<open>ContextualCheck\<close> functions of \<^verbatim>\<open>src/src/assets/assets.cpp\<close>). A check reads the caches and databases, and reading fills the
  caches: it is a function from the global state to a result and the global state.
\<close>

section \<open>Checks that read the asset data\<close>

type_synonym ('e, 'a) gcheck = "assets_globals \<Rightarrow> ('e + 'a) \<times> assets_globals"

definition gret :: "'a \<Rightarrow> ('e, 'a) gcheck" where "gret x = (\<lambda>G. (Inr x, G))"

definition gfail :: "'e \<Rightarrow> ('e, 'a) gcheck" where "gfail e = (\<lambda>G. (Inl e, G))"

definition gbind :: "('e, 'a) gcheck \<Rightarrow> ('a \<Rightarrow> ('e, 'b) gcheck) \<Rightarrow> ('e, 'b) gcheck" where
  "gbind m f = (\<lambda>G. case m G of (Inl e, G') \<Rightarrow> (Inl e, G') | (Inr x, G') \<Rightarrow> f x G')"

definition gask :: "(assets_globals \<Rightarrow> 'a \<times> assets_globals) \<Rightarrow> ('e, 'a) gcheck" where
  "gask q = (\<lambda>G. case q G of (x, G') \<Rightarrow> (Inr x, G'))"

definition gpure :: "'e + 'a \<Rightarrow> ('e, 'a) gcheck" where "gpure r = (\<lambda>G. (r, G))"

definition gfail_if :: "bool \<Rightarrow> 'e \<Rightarrow> ('e, unit) gcheck" where
  "gfail_if b e = (if b then gfail e else gret ())"

text \<open>A failed check of asset data becomes a reject reason of the transaction.\<close>

definition reject_with :: "(string \<Rightarrow> string) \<Rightarrow> (string, 'a) gcheck \<Rightarrow> (tx_error, 'a) gcheck" where
  "reject_with f m = (\<lambda>G. case m G of (Inl e, G') \<Rightarrow> (Inl (DoS 100 (f e)), G') | (Inr x, G') \<Rightarrow> (Inr x, G'))"

fun gall :: "('x \<Rightarrow> ('e, unit) gcheck) \<Rightarrow> 'x list \<Rightarrow> ('e, unit) gcheck" where
  "gall f [] = gret ()"
| "gall f (x # xs) = gbind (f x) (\<lambda>_. gall f xs)"

fun gmap :: "('x \<Rightarrow> ('e, 'y) gcheck) \<Rightarrow> 'x list \<Rightarrow> ('e, 'y list) gcheck" where
  "gmap f [] = gret []"
| "gmap f (x # xs) = gbind (f x) (\<lambda>y. gbind (gmap f xs) (\<lambda>ys. gret (y # ys)))"

section \<open>Changes of restrictions and tags\<close>

definition VerifyQualifierChange :: "crypto \<Rightarrow> CAssetsCache \<Rightarrow> CNullAssetTxData \<Rightarrow> string \<Rightarrow> (string, unit) gcheck" where
  "VerifyQualifierChange C cache data address =
     gbind (gpure (VerifyNullAssetDataFlag (nd_flag data))) (\<lambda>_.
     gbind (gask (\<lambda>G. CheckForAddressQualifier C cache G (nd_asset_name data) address True)) (\<lambda>fHasQualifier.
     if nd_flag data \<noteq> 0 then gfail_if fHasQualifier ''bad-txns-null-data-add-qualifier-when-already-assigned''
     else gfail_if (\<not> fHasQualifier) ''bad-txns-null-data-removing-qualifier-when-not-assigned''))"

definition VerifyRestrictedAddressChange :: "crypto \<Rightarrow> CAssetsCache \<Rightarrow> CNullAssetTxData \<Rightarrow> string \<Rightarrow> (string, unit) gcheck" where
  "VerifyRestrictedAddressChange C cache data address =
     gbind (gpure (VerifyNullAssetDataFlag (nd_flag data))) (\<lambda>_.
     gbind (gask (\<lambda>G. CheckForAddressRestriction C cache G (nd_asset_name data) address True)) (\<lambda>fIsFrozen.
     if nd_flag data \<noteq> 0 then gfail_if fIsFrozen ''bad-txns-null-data-freeze-address-when-already-frozen''
     else gfail_if (\<not> fIsFrozen) ''bad-txns-null-data-unfreeze-address-when-not-frozen''))"

definition VerifyGlobalRestrictedChange :: "CAssetsCache \<Rightarrow> CNullAssetTxData \<Rightarrow> (string, unit) gcheck" where
  "VerifyGlobalRestrictedChange cache data =
     gbind (gpure (VerifyNullAssetDataFlag (nd_flag data))) (\<lambda>_.
     gbind (gask (\<lambda>G. CheckForGlobalRestriction cache G (nd_asset_name data) True)) (\<lambda>fIsGloballyFrozen.
     if nd_flag data \<noteq> 0 then gfail_if fIsGloballyFrozen ''bad-txns-null-data-global-freeze-when-already-frozen''
     else gfail_if (\<not> fIsGloballyFrozen) ''bad-txns-null-data-global-unfreeze-when-not-frozen''))"

text \<open>
  The verifier string against the tags of an address. With no address only the string is checked, and that its tags are issued.
\<close>

definition ContextualCheckVerifierString :: "crypto \<Rightarrow> CAssetsCache \<Rightarrow> string \<Rightarrow> string \<Rightarrow> (string, unit) gcheck" where
  "ContextualCheckVerifierString C cache verifier check_address =
     (if verifier = ''true'' then gret ()
      else case CheckVerifierString verifier of
        Inl e \<Rightarrow> gfail (verifier_text e)
      | Inr setFoundQualifiers \<Rightarrow>
          gbind (gall (\<lambda>q. gbind (gask (\<lambda>G. CheckIfAssetExists cache G (CHR ''#'' # q) True)) (\<lambda>exists.
            gfail_if (\<not> exists) ''bad-txns-null-verifier-contains-non-issued-qualifier'')) setFoundQualifiers) (\<lambda>_.
          if check_address = [] then gret ()
          else
          gbind (gmap (\<lambda>q. gbind (gask (\<lambda>G. CheckForAddressQualifier C cache G (CHR ''#'' # q) check_address True))
            (\<lambda>has_qualifier. gret (q, has_qualifier))) setFoundQualifiers) (\<lambda>vals.
          case resolve verifier (map_of vals) of
            Inl _ \<Rightarrow> gfail ''bad-txns-null-verifier-failed-contexual-syntax-check''
          | Inr ret \<Rightarrow> gfail_if (\<not> ret) ''bad-txns-null-verifier-address-failed-verification'')))"

definition ContextualCheckNullAssetTxOut :: "crypto \<Rightarrow> chain_params \<Rightarrow> CAssetsCache \<Rightarrow> CTxOut \<Rightarrow> (string, unit) gcheck" where
  "ContextualCheckNullAssetTxOut C P assetCache txout =
     (case AssetNullDataFromScript C P (scriptPubKey txout) of
        None \<Rightarrow> gfail ''bad-txns-null-asset-data-serialization''
      | Some (data, address) \<Rightarrow>
          if IsAssetNameAQualifier (nd_asset_name data) False then VerifyQualifierChange C assetCache data address
          else if IsAssetNameAnRestricted (nd_asset_name data) then VerifyRestrictedAddressChange C assetCache data address
          else gfail ''bad-txns-null-asset-data-on-non-restricted-or-qualifier-asset'')"

definition ContextualCheckGlobalAssetTxOut :: "CAssetsCache \<Rightarrow> CTxOut \<Rightarrow> (string, unit) gcheck" where
  "ContextualCheckGlobalAssetTxOut assetCache txout =
     (case GlobalAssetNullDataFromScript (scriptPubKey txout) of
        None \<Rightarrow> gfail ''bad-txns-null-global-asset-data-serialization''
      | Some data \<Rightarrow> VerifyGlobalRestrictedChange assetCache data)"

text \<open>A second variable with the name of the error text keeps the reason of a bad verifier string from the caller, here and for transfers.\<close>

definition drop_reason :: "(string, 'a) gcheck \<Rightarrow> (string, 'a) gcheck" where
  "drop_reason m = (\<lambda>G. case m G of (Inl e, G') \<Rightarrow> (Inl [], G') | (Inr x, G') \<Rightarrow> (Inr x, G'))"

definition ContextualCheckVerifierAssetTxOut :: "crypto \<Rightarrow> CAssetsCache \<Rightarrow> CTxOut \<Rightarrow> (string, unit) gcheck" where
  "ContextualCheckVerifierAssetTxOut C assetCache txout =
     (case AssetNullVerifierDataFromScript (scriptPubKey txout) of
        None \<Rightarrow> gfail ''bad-txns-null-verifier-data-serialization''
      | Some verifier \<Rightarrow> drop_reason (ContextualCheckVerifierString C assetCache verifier []))"

section \<open>Transfers, issues and reissues\<close>

definition ContextualCheckAgainstVerifyString :: "crypto \<Rightarrow> CAssetsCache \<Rightarrow> CAssetTransfer \<Rightarrow> string \<Rightarrow> (string, unit) gcheck" where
  "ContextualCheckAgainstVerifyString C assetCache transfer address =
     gbind (gask (\<lambda>G. GetAssetVerifierStringIfExists assetCache G (tr_strName transfer) True)) (\<lambda>v.
     case v of
       None \<Rightarrow> gfail (''Verifier String doesn't exist for asset: '' @ tr_strName transfer)
     | Some verifier \<Rightarrow> ContextualCheckVerifierString C assetCache verifier address)"

definition ContextualCheckTransferAsset :: "crypto \<Rightarrow> CAssetsCache \<Rightarrow> CAssetTransfer \<Rightarrow> string \<Rightarrow> (string, unit) gcheck" where
  "ContextualCheckTransferAsset C assetCache transfer address =
     (case IsAssetNameValid (tr_strName transfer) of
        Inl _ \<Rightarrow> gfail ''Invalid parameter: asset_name''
      | Inr assetType \<Rightarrow>
          gbind (gfail_if (tr_nAmount transfer \<le> 0) ''Invalid parameter: asset amount can't be equal to or less than zero.'') (\<lambda>_.
          gbind (gfail_if (tr_message transfer = [] \<and> tr_nExpireTime transfer > 0) ''Invalid parameter: asset transfer expiration time'') (\<lambda>_.
          gbind (gfail_if (tr_nExpireTime transfer < 0) ''Invalid parameter: expiration time must be a positive value'') (\<lambda>_.
          gbind (if tr_message transfer \<noteq> [] then gpure (CheckEncoded (tr_message transfer)) else gret ()) (\<lambda>_.
          if assetType \<noteq> RESTRICTED then gret ()
          else
          gbind (gask (\<lambda>G. CheckForGlobalRestriction assetCache G (tr_strName transfer) True)) (\<lambda>restricted.
          gbind (gfail_if restricted ''bad-txns-transfer-restricted-asset-that-is-globally-restricted'') (\<lambda>_.
          drop_reason (ContextualCheckAgainstVerifyString C assetCache transfer address))))))))"

text \<open>\<open>mempool\<close> are the names of the assets that a transaction in the memory pool issues.\<close>

definition ContextualCheckNewAsset :: "CAssetsCache \<Rightarrow> CNewAsset \<Rightarrow> bool \<Rightarrow> string list \<Rightarrow> (string, unit) gcheck" where
  "ContextualCheckNewAsset assetCache asset fCheckMempool mempool =
     gbind (gpure (CheckNewAsset asset)) (\<lambda>_.
     gbind (gask (\<lambda>G. CheckIfAssetExists assetCache G (na_strName asset) True)) (\<lambda>exists.
     gbind (gfail_if exists (''Invalid parameter: asset_name already used: '' @ na_strName asset)) (\<lambda>_.
     gbind (gfail_if (fCheckMempool \<and> na_strName asset \<in> set mempool) ''Asset with this name is already in the mempool'') (\<lambda>_.
     gbind (gfail_if (na_nHasIPFS asset \<noteq> 0 \<and> length (na_strIPFSHash asset) \<noteq> 34 \<and> length (na_strIPFSHash asset) \<noteq> 32)
       ''Invalid parameter: ipfs_hash must be 46 characters. Txid must be valid 64 character hash'') (\<lambda>_.
     if na_nHasIPFS asset \<noteq> 0 then gpure (CheckEncoded (na_strIPFSHash asset)) else gret ())))))"

text \<open>The checks of a reissue that both versions of the function share.\<close>

definition check_reissue_data :: "chain_params \<Rightarrow> CAssetsCache \<Rightarrow> CReissueAsset \<Rightarrow> (string, unit) gcheck" where
  "check_reissue_data P assetCache reissue_asset =
     gbind (gpure (CheckReissueAsset P reissue_asset)) (\<lambda>_.
     gbind (gask (\<lambda>G. GetAssetMetaDataIfExists assetCache G (re_strName reissue_asset))) (\<lambda>meta.
     case meta of
       None \<Rightarrow> gfail (''Unable to reissue asset: asset_name '' @ re_strName reissue_asset @ '' doesn't exist in the database'')
     | Some (prev_asset, _) \<Rightarrow>
         gbind (gfail_if (na_nReissuable prev_asset = 0) ''Unable to reissue asset: reissuable is set to false'') (\<lambda>_.
         gbind (gfail_if (int64 (na_nAmount prev_asset + re_nAmount reissue_asset) > MAX_MONEY) ''Unable to reissue asset: amount too large'') (\<lambda>_.
         gbind (gfail_if (\<not> CheckAmountWithUnits (re_nAmount reissue_asset) (na_units prev_asset)) ''Unable to reissue asset: amount must be divisible'') (\<lambda>_.
         gbind (gfail_if (re_nUnits reissue_asset < na_units prev_asset \<and> re_nUnits reissue_asset \<noteq> -1)
           ''Unable to reissue asset: unit must be larger than current unit selection'') (\<lambda>_.
         gbind (gfail_if (re_strIPFSHash reissue_asset \<noteq> [] \<and> length (re_strIPFSHash reissue_asset) \<noteq> 34 \<and> length (re_strIPFSHash reissue_asset) \<noteq> 32)
           ''Invalid parameter: ipfs_hash must be 34 bytes, Txid must be 32 bytes'') (\<lambda>_.
         if re_strIPFSHash reissue_asset \<noteq> [] then gpure (CheckEncoded (re_strIPFSHash reissue_asset)) else gret ()))))) ))"

definition ContextualCheckReissueAsset :: "crypto \<Rightarrow> chain_params \<Rightarrow> CAssetsCache \<Rightarrow> CReissueAsset \<Rightarrow> CTransaction \<Rightarrow> (string, unit) gcheck" where
  "ContextualCheckReissueAsset C P assetCache reissue_asset tx =
     (case ReissueAssetFromTransaction C P tx of
        None \<Rightarrow> gfail ''bad-txns-reissue-asset-contextual-check''
      | Some (_, strAddress) \<Rightarrow>
          gbind (check_reissue_data P assetCache reissue_asset) (\<lambda>_.
          if \<not> IsAssetNameAnRestricted (re_strName reissue_asset) then gret ()
          else case GetVerifierStringFromTx tx of
            Inl (Some e) \<Rightarrow> gfail e
          | Inl None \<Rightarrow>
              if re_nAmount reissue_asset \<le> 0 then gret ()
              else
              gbind (gask (\<lambda>G. GetAssetVerifierStringIfExists assetCache G (re_strName reissue_asset) False)) (\<lambda>v.
              case v of
                None \<Rightarrow> gfail ''failed to get verifier string from a restricted asset, database is out of sync.''
              | Some current_verifier \<Rightarrow> ContextualCheckVerifierString C assetCache current_verifier strAddress)
          | Inr new_verifier \<Rightarrow>
              if re_nAmount reissue_asset \<le> 0 then gret ()
              else ContextualCheckVerifierString C assetCache new_verifier strAddress))"

text \<open>The unique assets of a transaction, each against the cache and not against the memory pool.\<close>

definition ContextualCheckUniqueAssetTx :: "crypto \<Rightarrow> chain_params \<Rightarrow> CAssetsCache \<Rightarrow> CTransaction \<Rightarrow> (string, unit) gcheck" where
  "ContextualCheckUniqueAssetTx C P assetCache tx =
     gall (\<lambda>out. if IsScriptNewUniqueAsset C P (scriptPubKey out) then
         (case AssetFromScript C P (scriptPubKey out) of
            None \<Rightarrow> gfail ''bad-txns-issue-unique-serialization-failed''
          | Some (asset, strAddress) \<Rightarrow> ContextualCheckNewAsset assetCache asset False [])
       else gret ()) (vout tx)"

section \<open>The check of a transaction\<close>

text \<open>
  What \<^verbatim>\<open>CheckTxAssets\<close> is given besides the transaction, the coins and the cache: its arguments, the assets with a reissue in the
  memory pool, the assets that the pool issues, the clock and whether messages are collected (\<^verbatim>\<open>fMessaging\<close> and a set for them). The
  pointer to the asset cache is set. The list of tag changes for the user's wallet is not modelled.
\<close>

record tx_assets_env =
  te_crypto :: crypto
  te_params :: chain_params
  te_mapReissuedAssets :: "(string \<times> bytes) list"
  te_mapAssetToHash :: "string list"
  te_fCheckMempool :: bool
  te_fRunningUnitTests :: bool
  te_messages :: bool
  te_currentTime :: int
  te_nBlocktime :: int

datatype MessageStatus = MSG_READ | UNREAD | EXPIRED | SPAM | HIDDEN | ORPHAN | MSG_ERROR

record CMessage =
  msg_out :: "bytes \<times> nat"
  msg_strName :: string
  msg_ipfsHash :: string
  msg_time :: int
  msg_nExpiredTime :: int
  msg_status :: MessageStatus
  msg_nBlockHeight :: int

definition add_total :: "string \<Rightarrow> int \<Rightarrow> (string \<times> int) list \<Rightarrow> (string \<times> int) list" where
  "add_total name n m = (case map_of m name of Some k \<Rightarrow> AList.update name (int64 (k + n)) m | None \<Rightarrow> (name, n) # m)"

text \<open>One input: its total, its address for messages, and whether the sender is frozen.\<close>

definition check_asset_input ::
  "tx_assets_env \<Rightarrow> CAssetsCache \<Rightarrow> Coin \<Rightarrow> (string \<times> int) list \<times> (string \<times> string) list \<Rightarrow>
   (tx_error, (string \<times> int) list \<times> (string \<times> string) list) gcheck" where
  "check_asset_input E assetCache coin st =
     (let C = te_crypto E; P = te_params E; totalInputs = fst st; mapAddresses = snd st in
      if IsAssetScript (scriptPubKey (coin_out coin)) = None then gret st
      else case GetAssetData C P (scriptPubKey (coin_out coin)) of
        None \<Rightarrow> gfail (DoS 100 ''bad-txns-failed-to-get-asset-from-script'')
      | Some data \<Rightarrow>
          let name = ao_assetName data; address = dest_address C P (ao_destination data);
              st' = (add_total name (ao_nAmount data) totalInputs, set_insert name address mapAddresses) in
          if IsAssetNameAnRestricted name then
            gbind (gask (\<lambda>G. CheckForAddressRestriction C assetCache G name address True)) (\<lambda>frozen.
            if frozen then gfail (DoS 100 ''bad-txns-restricted-asset-transfer-from-frozen-address'') else gret st')
          else gret st')"

fun asset_inputs_loop ::
  "tx_assets_env \<Rightarrow> CAssetsCache \<Rightarrow> usage \<Rightarrow> CCoinsViewCache \<Rightarrow> coins_view \<Rightarrow> CTxIn list \<Rightarrow>
   (string \<times> int) list \<times> (string \<times> string) list \<Rightarrow>
   (tx_error, ((string \<times> int) list \<times> (string \<times> string) list) \<times> CCoinsViewCache \<times> coins_view) gcheck" where
  "asset_inputs_loop E assetCache u c base [] st = gret (st, c, base)"
| "asset_inputs_loop E assetCache u c base (txin # txins) st =
     (case AccessCoin u c base (prevout txin) of
        (coin, c', base') \<Rightarrow>
          if IsSpent coin then gfail AssertFailed
          else gbind (check_asset_input E assetCache coin st) (\<lambda>st'. asset_inputs_loop E assetCache u c' base' txins st'))"

definition check_null_asset_out :: "tx_assets_env \<Rightarrow> CAssetsCache \<Rightarrow> CTxOut \<Rightarrow> (tx_error, unit) gcheck" where
  "check_null_asset_out E assetCache txout =
     (let C = te_crypto E; P = te_params E; s = scriptPubKey txout in
      if \<not> IsNullAsset s then gret ()
      else if IsNullAssetTxDataScript s then reject_with id (ContextualCheckNullAssetTxOut C P assetCache txout)
      else if IsNullGlobalRestrictionAssetTxDataScript s then reject_with id (ContextualCheckGlobalAssetTxOut assetCache txout)
      else if IsNullAssetVerifierTxDataScript s then reject_with id (ContextualCheckVerifierAssetTxOut C assetCache txout)
      else gfail (DoS 100 ''bad-tx-null-asset-data-unknown-type''))"

definition check_transfer_units :: "tx_assets_env \<Rightarrow> CAssetsCache \<Rightarrow> CAssetTransfer \<Rightarrow> (tx_error, unit) gcheck" where
  "check_transfer_units E assetCache transfer =
     (if te_fRunningUnitTests E then gret ()
      else if IsAssetNameAnOwner (tr_strName transfer) then
        gfail_if (tr_nAmount transfer \<noteq> OWNER_ASSET_AMOUNT) (DoS 100 ''bad-txns-transfer-owner-amount-was-not-1'')
      else
        gbind (gask (\<lambda>G. GetAssetMetaDataIfExists assetCache G (tr_strName transfer))) (\<lambda>meta.
        case meta of
          None \<Rightarrow> gfail (DoS 100 ''bad-txns-transfer-asset-not-exist'')
        | Some (asset, _) \<Rightarrow>
            gbind (gfail_if (na_strName asset \<noteq> tr_strName transfer) (DoS 100 ''bad-txns-asset-database-corrupted'')) (\<lambda>_.
            gfail_if (\<not> CheckAmountWithUnits (tr_nAmount transfer) (na_units asset)) (DoS 100 ''bad-txns-transfer-asset-amount-not-match-units''))))"

text \<open>The totals, the messages and the reissues that the loop over the outputs collects.\<close>

record outs_state =
  os_totalOutputs :: "(string \<times> int) list"
  os_messages :: "CMessage list"
  os_vPairReissueAssets :: "(string \<times> bytes) list"

definition transfer_message ::
  "tx_assets_env \<Rightarrow> (string \<times> string) list \<Rightarrow> CTransaction \<Rightarrow> nat \<Rightarrow> CAssetTransfer \<Rightarrow> string \<Rightarrow> CMessage list" where
  "transfer_message E mapAddresses tx index transfer address =
     (if te_messages E \<and> (IsAssetNameAnOwner (tr_strName transfer) \<or> IsAssetNameAnMsgChannel (tr_strName transfer)) \<and>
        tr_message transfer \<noteq> [] \<and> (tr_nExpireTime transfer = 0 \<or> tr_nExpireTime transfer > te_currentTime E) \<and>
        map_of mapAddresses (tr_strName transfer) = Some address
      then [\<lparr>msg_out = (GetHash (te_crypto E) tx, index), msg_strName = tr_strName transfer, msg_ipfsHash = tr_message transfer,
        msg_time = te_nBlocktime E, msg_nExpiredTime = tr_nExpireTime transfer,
        msg_status = UNREAD, msg_nBlockHeight = 0\<rparr>]
      else [])"

definition check_asset_output ::
  "tx_assets_env \<Rightarrow> CAssetsCache \<Rightarrow> CTransaction \<Rightarrow> (string \<times> string) list \<Rightarrow> nat \<Rightarrow> CTxOut \<Rightarrow> outs_state \<Rightarrow> (tx_error, outs_state) gcheck" where
  "check_asset_output E assetCache tx mapAddresses index txout st =
     (let C = te_crypto E; P = te_params E; s = scriptPubKey txout in
      gbind (check_null_asset_out E assetCache txout) (\<lambda>_.
      case IsAssetScript s of
        None \<Rightarrow> gret st
      | Some (nTyp, fIsOwner, _) \<Rightarrow>
          if nTyp = TX_TRANSFER_ASSET then
            (case TransferAssetFromScript C P s of
               None \<Rightarrow> gfail (DoS 100 ''bad-tx-asset-transfer-bad-deserialize'')
             | Some (transfer, address) \<Rightarrow>
                 gbind (reject_with id (ContextualCheckTransferAsset C assetCache transfer address)) (\<lambda>_.
                 gbind (check_transfer_units E assetCache transfer) (\<lambda>_.
                 gret (st \<lparr>os_totalOutputs := add_total (tr_strName transfer) (tr_nAmount transfer) (os_totalOutputs st),
                   os_messages := os_messages st @ transfer_message E mapAddresses tx index transfer address\<rparr>))))
          else if nTyp = TX_REISSUE_ASSET then
            (case ReissueAssetFromScript C P s of
               None \<Rightarrow> gfail (DoS 100 ''bad-tx-asset-reissue-bad-deserialize'')
             | Some (reissue, address) \<Rightarrow>
                 (case map_of (te_mapReissuedAssets E) (re_strName reissue) of
                    Some h \<Rightarrow> if h \<noteq> GetHash C tx then gfail (DoS 100 ''bad-tx-reissue-chaining-not-allowed'') else gret st
                  | None \<Rightarrow> gret (st \<lparr>os_vPairReissueAssets := os_vPairReissueAssets st @ [(re_strName reissue, GetHash C tx)]\<rparr>)))
          else gret st))"

fun asset_outputs_loop ::
  "tx_assets_env \<Rightarrow> CAssetsCache \<Rightarrow> CTransaction \<Rightarrow> (string \<times> string) list \<Rightarrow> nat \<Rightarrow> CTxOut list \<Rightarrow> outs_state \<Rightarrow> (tx_error, outs_state) gcheck" where
  "asset_outputs_loop E assetCache tx mapAddresses index [] st = gret st"
| "asset_outputs_loop E assetCache tx mapAddresses index (txout # txouts) st =
     gbind (check_asset_output E assetCache tx mapAddresses index txout st)
       (asset_outputs_loop E assetCache tx mapAddresses (Suc index) txouts)"

text \<open>A transaction that issues nothing holds transfers only, and the asset opcode only where null data have it.\<close>

definition check_only_transfers :: "CTransaction \<Rightarrow> unit tx_check" where
  "check_only_transfers tx =
     check_all (\<lambda>out. case IsAssetScript (scriptPubKey out) of
         Some (nTyp, _, _) \<Rightarrow> reject_if (nTyp \<noteq> TX_TRANSFER_ASSET) 100 ''bad-txns-bad-asset-transaction''
       | None \<Rightarrow> reject_if (Find (scriptPubKey out) OP_BLKR_ASSET > 0 \<and> hd (scriptPubKey out) \<noteq> OP_BLKR_ASSET) 100
           ''bad-txns-op-neox-asset-not-in-right-script-location'') (vout tx)"

definition check_asset_kind :: "tx_assets_env \<Rightarrow> CAssetsCache \<Rightarrow> CTransaction \<Rightarrow> (tx_error, unit) gcheck" where
  "check_asset_kind E assetCache tx =
     (let C = te_crypto E; P = te_params E;
          new = (\<lambda>asset. ContextualCheckNewAsset assetCache asset (te_fCheckMempool E) (te_mapAssetToHash E)) in
      if tx_IsNewAsset C P tx then
        (case AssetFromScript C P (scriptPubKey (last_out tx)) of
           None \<Rightarrow> gfail (DoS 100 ''bad-txns-issue-serialzation-failed'')
         | Some (asset, address) \<Rightarrow> reject_with id (new asset))
      else if tx_IsReissueAsset tx then
        (case ReissueAssetFromScript C P (scriptPubKey (last_out tx)) of
           None \<Rightarrow> gfail (DoS 100 ''bad-txns-reissue-serialzation-failed'')
         | Some (reissue_asset, address) \<Rightarrow>
             reject_with ((@) ''bad-txns-reissue-contextual-'') (ContextualCheckReissueAsset C P assetCache reissue_asset tx))
      else if tx_IsNewUniqueAsset C P tx then
        reject_with ((@) ''bad-txns-issue-unique-contextual-'') (ContextualCheckUniqueAssetTx C P assetCache tx)
      else if tx_IsNewMsgChannelAsset C P tx then
        (case MsgChannelAssetFromTransaction C P tx of
           None \<Rightarrow> gfail (DoS 100 ''bad-txns-issue-msgchannel-serialzation-failed'')
         | Some (asset, address) \<Rightarrow> reject_with ((@) ''bad-txns-issue-msgchannel-contextual-'') (new asset))
      else if tx_IsNewQualifierAsset C P tx then
        (case QualifierAssetFromTransaction C P tx of
           None \<Rightarrow> gfail (DoS 100 ''bad-txns-issue-qualifier-serialzation-failed'')
         | Some (asset, address) \<Rightarrow> reject_with ((@) ''bad-txns-issue-qualfier-contextual'') (new asset))
      else if tx_IsNewRestrictedAsset C P tx then
        (case RestrictedAssetFromTransaction C P tx of
           None \<Rightarrow> gfail (DoS 100 ''bad-txns-issue-restricted-serialzation-failed'')
         | Some (asset, strAddress) \<Rightarrow>
             gbind (reject_with ((@) ''bad-txns-issue-restricted-contextual'') (new asset)) (\<lambda>_.
             case GetVerifierStringFromTx tx of
               Inl e \<Rightarrow> gfail (DoS 100 (''bad-txns-issue-restricted-verifier-search-'' @
                 (case e of None \<Rightarrow> ''Verifier string not found'' | Some t \<Rightarrow> t)))
             | Inr verifier \<Rightarrow> reject_with id (ContextualCheckVerifierString C assetCache verifier strAddress)))
      else gpure (check_only_transfers tx))"

text \<open>The totals must agree: each asset going out comes in with the same amount, and as many assets go out as come in.\<close>

definition check_totals :: "(string \<times> int) list \<Rightarrow> (string \<times> int) list \<Rightarrow> unit tx_check" where
  "check_totals totalInputs totalOutputs =
     sbind (check_all (\<lambda>(name, n). case map_of totalInputs name of
         None \<Rightarrow> Inl (DoS 100 (''bad-tx-inputs-outputs-mismatch Bad Transaction - Trying to create outpoint for asset that you don't have: '' @ name))
       | Some k \<Rightarrow> reject_if (k \<noteq> n) 100 (''bad-tx-inputs-outputs-mismatch Bad Transaction - Assets would be burnt '' @ name))
       (in_order totalOutputs)) (\<lambda>_.
     reject_if (length totalOutputs \<noteq> length totalInputs) 100 ''bad-tx-asset-inputs-size-does-not-match-outputs-size'')"

definition CheckTxAssets ::
  "tx_assets_env \<Rightarrow> CAssetsCache \<Rightarrow> usage \<Rightarrow> CCoinsViewCache \<Rightarrow> coins_view \<Rightarrow> CTransaction \<Rightarrow>
   (tx_error, outs_state \<times> CCoinsViewCache \<times> coins_view) gcheck" where
  "CheckTxAssets E assetCache u c base tx =
     (case HaveInputs u c base tx of
        (False, c', base') \<Rightarrow> gfail (DoS 100 ''bad-txns-inputs-missing-or-spent'')
      | (True, c', base') \<Rightarrow>
          gbind (asset_inputs_loop E assetCache u c' base' (vin tx) ([], [])) (\<lambda>((totalInputs, mapAddresses), c'', base'').
          gbind (asset_outputs_loop E assetCache tx mapAddresses 0 (vout tx)
            \<lparr>os_totalOutputs = [], os_messages = [], os_vPairReissueAssets = []\<rparr>) (\<lambda>st.
          gbind (check_asset_kind E assetCache tx) (\<lambda>_.
          gbind (gpure (check_totals totalInputs (os_totalOutputs st))) (\<lambda>_.
          gret (st, c'', base''))))))"

end
