(* ===== verification/AssetSafety.thy ===== *)
theory AssetSafety
  imports AssetsVerify
begin

text \<open>
  What an accepted transaction cannot do with assets: change their amounts, move a frozen asset, or move assets from a frozen address.
\<close>

section \<open>Checks in sequence\<close>

lemma gbind_Inr_iff: "gbind m f G = (Inr y, H) \<longleftrightarrow> (\<exists>x G1. m G = (Inr x, G1) \<and> f x G1 = (Inr y, H))"
  by (auto simp: gbind_def split: prod.splits sum.splits)

lemma gret_Inr_iff [simp]: "gret x G = (Inr y, H) \<longleftrightarrow> y = x \<and> H = G"
  by (auto simp: gret_def)

lemma gfail_Inr [simp]: "gfail e G \<noteq> (Inr y, H)"
  by (simp add: gfail_def)

lemma gfail_if_Inr_iff [simp]: "gfail_if b e G = (Inr y, H) \<longleftrightarrow> \<not> b \<and> H = G"
  by (simp add: gfail_if_def)

lemma gask_Inr_iff [simp]: "gask q G = (Inr y, H) \<longleftrightarrow> q G = (y, H)"
  by (auto simp: gask_def split: prod.splits)

lemma gpure_Inr_iff [simp]: "gpure r G = (Inr y, H) \<longleftrightarrow> r = Inr y \<and> H = G"
  by (auto simp: gpure_def)

lemma reject_with_Inr_iff [simp]: "reject_with f m G = (Inr y, H) \<longleftrightarrow> m G = (Inr y, H)"
  by (auto simp: reject_with_def split: prod.splits sum.splits)

lemma drop_reason_Inr_iff [simp]: "drop_reason m G = (Inr y, H) \<longleftrightarrow> m G = (Inr y, H)"
  by (auto simp: drop_reason_def split: prod.splits sum.splits)

lemmas gcheck_iff = gbind_Inr_iff

section \<open>Totals\<close>

definition total_of :: "(string \<times> int) list \<Rightarrow> string \<Rightarrow> int" where
  "total_of m name = (case map_of m name of Some n \<Rightarrow> n | None \<Rightarrow> 0)"

lemma map_of_add_total:
  "map_of (add_total name n m) k = (if k = name then Some (case map_of m name of Some x \<Rightarrow> int64 (x + n) | None \<Rightarrow> n) else map_of m k)"
  by (auto simp: add_total_def update_conv' split: option.splits)

lemma distinct_add_total: "distinct (map fst m) \<Longrightarrow> distinct (map fst (add_total name n m))"
  by (auto simp: add_total_def map_of_eq_None_iff distinct_update split: option.splits)

lemma total_add_total: "int64 (total_of (add_total name n m) k) = int64 (total_of m k + (if k = name then n else 0))"
  by (auto simp: total_of_def map_of_add_total int64_add_left[where b = 0, simplified] split: option.splits)

definition amount_in :: "tx_assets_env \<Rightarrow> string \<Rightarrow> Coin \<Rightarrow> int" where
  "amount_in E name coin =
     (case GetAssetData (te_crypto E) (te_params E) (scriptPubKey (coin_out coin)) of
        None \<Rightarrow> 0 | Some data \<Rightarrow> if ao_assetName data = name then ao_nAmount data else 0)"

definition amount_out :: "tx_assets_env \<Rightarrow> string \<Rightarrow> CTxOut \<Rightarrow> int" where
  "amount_out E name txout =
     (case TransferAssetFromScript (te_crypto E) (te_params E) (scriptPubKey txout) of
        None \<Rightarrow> 0 | Some (transfer, _) \<Rightarrow> if tr_strName transfer = name then tr_nAmount transfer else 0)"

lemma check_asset_input_total:
  assumes "check_asset_input E ac coin st G = (Inr st', H)" "distinct (map fst (fst st))"
  shows "distinct (map fst (fst st'))" "int64 (total_of (fst st') k) = int64 (total_of (fst st) k + amount_in E k coin)"
proof -
  consider "IsAssetScript (scriptPubKey (coin_out coin)) = None" "st' = st"
    | data where "GetAssetData (te_crypto E) (te_params E) (scriptPubKey (coin_out coin)) = Some data"
      "fst st' = add_total (ao_assetName data) (ao_nAmount data) (fst st)"
    using assms(1) by (auto simp: check_asset_input_def Let_def gcheck_iff split: if_splits option.splits)
  then have "distinct (map fst (fst st')) \<and> int64 (total_of (fst st') k) = int64 (total_of (fst st) k + amount_in E k coin)"
  proof cases
    case 1
    then show ?thesis using assms(2) by (simp add: amount_in_def GetAssetData_def)
  next
    case 2
    then show ?thesis using assms(2) by (simp add: amount_in_def distinct_add_total total_add_total)
  qed
  then show "distinct (map fst (fst st'))" "int64 (total_of (fst st') k) = int64 (total_of (fst st) k + amount_in E k coin)"
    by blast+
qed

lemma int64_step: "int64 a = int64 b \<Longrightarrow> int64 (a + c) = int64 (b + c)"
  by (metis int64_add_left)

lemma asset_inputs_total:
  assumes "asset_inputs_loop E ac u c base ins st G = (Inr (st', c', base'), H)" "cache_view_inv u c base" "distinct (map fst (fst st))"
    "m = utxo (ViewCache c base)"
  shows "distinct (map fst (fst st')) \<and>
    int64 (total_of (fst st') k) = int64 (total_of (fst st) k + (\<Sum>i\<leftarrow>ins. amount_in E k (coin_at m (prevout i))))"
  using assms
proof (induction ins arbitrary: c base st G)
  case (Cons i ins)
  from access_coin.query_answer [of u "(c, base)" "prevout i"] Cons.prems(2,4) obtain c1 base1 where
    1: "AccessCoin u c base (prevout i) = (coin_at m (prevout i), c1, base1)"
      "utxo (ViewCache c1 base1) = m" "cache_view_inv u c1 base1"
    by (auto simp del: utxo.simps view_inv.simps)
  from Cons.prems(1) 1(1) obtain st1 G1 where 2: "check_asset_input E ac (coin_at m (prevout i)) st G = (Inr st1, G1)"
      "asset_inputs_loop E ac u c1 base1 ins st1 G1 = (Inr (st', c', base'), H)"
    by (auto simp: gcheck_iff split: if_splits)
  note 3 = check_asset_input_total[OF 2(1) Cons.prems(3)]
  show ?case
    using Cons.IH[OF 2(2) 1(3) 3(1) 1(2)[symmetric]] int64_step[OF 3(2)[of k], of "\<Sum>i\<leftarrow>ins. amount_in E k (coin_at m (prevout i))"]
    by (simp add: add.assoc)
qed simp

lemma check_asset_output_total:
  assumes "check_asset_output E ac tx ma index txout st G = (Inr st', H)" "distinct (map fst (os_totalOutputs st))"
  shows "distinct (map fst (os_totalOutputs st'))"
    "int64 (total_of (os_totalOutputs st') k) = int64 (total_of (os_totalOutputs st) k + amount_out E k txout)"
proof -
  let ?t = "TransferAssetFromScript (te_crypto E) (te_params E) (scriptPubKey txout)"
  consider "?t = None" "os_totalOutputs st' = os_totalOutputs st"
    | transfer address where "?t = Some (transfer, address)"
      "os_totalOutputs st' = add_total (tr_strName transfer) (tr_nAmount transfer) (os_totalOutputs st)"
    using assms(1) asset_script_kinds(1)[of "te_crypto E" "te_params E" "scriptPubKey txout"]
    by (fastforce simp: check_asset_output_def Let_def gcheck_iff split: if_splits option.splits)
  then have "distinct (map fst (os_totalOutputs st')) \<and>
      int64 (total_of (os_totalOutputs st') k) = int64 (total_of (os_totalOutputs st) k + amount_out E k txout)"
    by cases (use assms(2) in \<open>auto simp: amount_out_def distinct_add_total total_add_total\<close>)
  then show "distinct (map fst (os_totalOutputs st'))"
    "int64 (total_of (os_totalOutputs st') k) = int64 (total_of (os_totalOutputs st) k + amount_out E k txout)"
    by blast+
qed

lemma asset_outputs_total:
  assumes "asset_outputs_loop E ac tx ma index outs st G = (Inr st', H)" "distinct (map fst (os_totalOutputs st))"
  shows "distinct (map fst (os_totalOutputs st')) \<and>
    int64 (total_of (os_totalOutputs st') k) = int64 (total_of (os_totalOutputs st) k + (\<Sum>out\<leftarrow>outs. amount_out E k out))"
  using assms
proof (induction outs arbitrary: index st G)
  case (Cons out outs)
  then obtain st1 G1 where 1: "check_asset_output E ac tx ma index out st G = (Inr st1, G1)"
      "asset_outputs_loop E ac tx ma (Suc index) outs st1 G1 = (Inr st', H)"
    by (auto simp: gcheck_iff)
  note 2 = check_asset_output_total[OF 1(1) Cons.prems(2)]
  show ?case
    using Cons.IH[OF 1(2) 2(1)] int64_step[OF 2(2)[of k], of "\<Sum>out\<leftarrow>outs. amount_out E k out"] by (simp add: add.assoc)
qed simp

text \<open>Equal totals for every asset going out, and equal numbers of assets, make the two totals the same map.\<close>

lemma check_totals_same:
  assumes "check_totals ti to = Inr ()" "distinct (map fst ti)" "distinct (map fst to)"
  shows "map_of ti = map_of to"
proof -
  have sub: "set to \<subseteq> set ti" and len: "length to = length ti"
    using assms(1,2) by (auto simp: check_totals_def sbind_Inr_iff check_all_iff reject_if_def split: option.splits if_splits dest: map_of_SomeD)
  have "card (set ti) = card (set to)"
    using len assms(2,3) by (simp add: distinct_card distinct_map)
  then have "set to = set ti"
    using sub by (simp add: card_subset_eq)
  then show ?thesis
    using assms(2,3) by (simp add: map_of_inject_set)
qed

section \<open>Conservation\<close>

definition assets_in :: "tx_assets_env \<Rightarrow> (COutPoint \<Rightarrow> Coin option) \<Rightarrow> CTransaction \<Rightarrow> string \<Rightarrow> int" where
  "assets_in E m tx name = (\<Sum>i\<leftarrow>vin tx. amount_in E name (coin_at m (prevout i)))"

definition assets_out :: "tx_assets_env \<Rightarrow> CTransaction \<Rightarrow> string \<Rightarrow> int" where
  "assets_out E tx name = (\<Sum>out\<leftarrow>vout tx. amount_out E name out)"

lemma CheckTxAssets_parts:
  assumes "CheckTxAssets E ac u c base tx G = (Inr r, H)" "cache_view_inv u c base"
  obtains c1 base1 ti ma c2 base2 G1 st G2 G3 where "cache_view_inv u c1 base1" "utxo (ViewCache c1 base1) = utxo (ViewCache c base)"
    "asset_inputs_loop E ac u c1 base1 (vin tx) ([], []) G = (Inr ((ti, ma), c2, base2), G1)"
    "asset_outputs_loop E ac tx ma 0 (vout tx) \<lparr>os_totalOutputs = [], os_messages = [], os_vPairReissueAssets = []\<rparr> G1 = (Inr st, G2)"
    "check_asset_kind E ac tx G2 = (Inr (), G3)" "check_totals ti (os_totalOutputs st) = Inr ()"
proof -
  obtain ok c1 base1 where h: "HaveInputs u c base tx = (ok, c1, base1)" "utxo (ViewCache c1 base1) = utxo (ViewCache c base)"
      "cache_view_inv u c1 base1"
    using HaveInputs_cases[OF assms(2), of tx] by metis
  with assms(1) show thesis
    by (cases ok) (auto simp: CheckTxAssets_def gcheck_iff intro!: that[OF h(3,2)] simp del: utxo.simps view_inv.simps)
qed

text \<open>
  C5. Conservation of assets. In an accepted transaction the amounts of every asset that the inputs hold and the amounts that its
  transfer outputs send agree modulo \<open>2\<^sup>6\<^sup>4\<close>, the width of the totals; they are equal when both sums fit in a signed 64-bit number.
\<close>

theorem assets_conserved:
  assumes "CheckTxAssets E ac u c base tx G = (Inr r, H)" "cache_view_inv u c base"
  shows "assets_in E (utxo (ViewCache c base)) tx name mod 2 ^ 64 = assets_out E tx name mod 2 ^ 64 \<and>
    (in_int64 (assets_in E (utxo (ViewCache c base)) tx name) \<longrightarrow> in_int64 (assets_out E tx name) \<longrightarrow>
     assets_in E (utxo (ViewCache c base)) tx name = assets_out E tx name)"
proof -
  obtain c1 base1 ti ma c2 base2 G1 st G2 where p: "cache_view_inv u c1 base1" "utxo (ViewCache c1 base1) = utxo (ViewCache c base)"
    "asset_inputs_loop E ac u c1 base1 (vin tx) ([], []) G = (Inr ((ti, ma), c2, base2), G1)"
    "asset_outputs_loop E ac tx ma 0 (vout tx) \<lparr>os_totalOutputs = [], os_messages = [], os_vPairReissueAssets = []\<rparr> G1 = (Inr st, G2)"
    "check_totals ti (os_totalOutputs st) = Inr ()"
    using CheckTxAssets_parts[OF assms] by metis
  have i: "distinct (map fst ti)" "int64 (total_of ti name) = int64 (assets_in E (utxo (ViewCache c base)) tx name)"
    using asset_inputs_total[OF p(3,1) _ p(2)[symmetric], of name] by (simp_all add: assets_in_def total_of_def)
  have o: "distinct (map fst (os_totalOutputs st))" "int64 (total_of (os_totalOutputs st) name) = int64 (assets_out E tx name)"
    using asset_outputs_total[OF p(4), of name] by (simp_all add: assets_out_def total_of_def)
  have "total_of ti name = total_of (os_totalOutputs st) name"
    using check_totals_same[OF p(5) i(1) o(1)] by (simp add: total_of_def)
  with i(2) o(2) have "int64 (assets_in E (utxo (ViewCache c base)) tx name) = int64 (assets_out E tx name)"
    by simp
  then show ?thesis
    by (metis int64_mod int64_id)
qed

subsection \<open>Transfers of one asset\<close>

text \<open>
  Two assets with eight decimals, a plain one and a restricted one with the verifier string \<open>true\<close>; a coin that holds 100 of the
  smallest units of one of them, and transactions that send given amounts.
\<close>

definition crow_name :: "bool \<Rightarrow> string" where
  "crow_name restricted = (if restricted then ''$CROW'' else ''CROW'')"

definition crow_asset :: "bool \<Rightarrow> CAssetCacheNewAsset" where
  "crow_asset x = \<lparr>ca_asset = \<lparr>na_strName = crow_name x, na_nAmount = 100, na_units = 8, na_nReissuable = 1, na_nHasIPFS = 0, na_strIPFSHash = []\<rparr>,
     ca_address = [], ca_blockHeight = 3, ca_blockHash = 0\<rparr>"

definition crow_transfer :: "bool \<Rightarrow> int \<Rightarrow> CAssetTransfer" where
  "crow_transfer x n = \<lparr>tr_strName = crow_name x, tr_nAmount = n, tr_message = [], tr_nExpireTime = 0\<rparr>"

definition crow_script :: "bool \<Rightarrow> int \<Rightarrow> script" where
  "crow_script x n = ConstructTransaction_CAssetTransfer (crow_transfer x n) ex_pre"

definition crow_out :: "bool \<Rightarrow> int \<Rightarrow> CTxOut" where
  "crow_out x n = \<lparr>nValue = 0, scriptPubKey = crow_script x n, nRounds = -10\<rparr>"

definition crow_coin :: "bool \<Rightarrow> Coin" where
  "crow_coin x = \<lparr>coin_out = crow_out x 100, coin_fCoinBase = False, coin_nHeight = 12\<rparr>"

definition crow_view :: "bool \<Rightarrow> CCoinsViewCache \<times> coins_view" where
  "crow_view x = (\<lparr>hashBlock = 7, cacheCoins = [], cachedCoinsUsage = 0\<rparr>,
     ViewDB \<lparr>db_ec = ex_keys, db_coins = db_records ex_keys (\<lambda>p. if p = ex_point 4 then Some (crow_coin x) else None), db_best = Some 3, db_heads = None\<rparr>)"

definition crow_tx :: "bool \<Rightarrow> int list \<Rightarrow> CTransaction" where
  "crow_tx x ns = \<lparr>nVersion = 2, nType = 0, vin = [\<lparr>prevout = ex_point 4, scriptSig = [], nSequence = 0, scriptWitness = []\<rparr>],
     vout = map (crow_out x) ns, nLockTime = 0, vExtraPayload = []\<rparr>"

definition crow_globals :: assets_globals where
  "crow_globals = ex_globals \<lparr>passets := ClearDirtyCache
     \<lparr>setNewAssetsToAdd := [(''CROW'', crow_asset False), (''$CROW'', crow_asset True)],
      setNewRestrictedVerifierToAdd := [(''$CROW'', ''true'', False)]\<rparr>\<rparr>"

definition crow_env :: tx_assets_env where
  "crow_env = \<lparr>te_crypto = ex_crypto, te_params = ex_params, te_mapReissuedAssets = [], te_mapAssetToHash = [], te_fCheckMempool = False,
     te_fRunningUnitTests = False, te_messages = False, te_currentTime = 9, te_nBlocktime = 8\<rparr>"

lemma crow_literals [simp]:
  "IsAssetNameValid ''CROW'' = Inr ROOT" "\<not> IsAssetNameAnOwner ''CROW''" "\<not> IsAssetNameAnRestricted ''CROW''"
  "IsAssetNameValid ''$CROW'' = Inr RESTRICTED" "\<not> IsAssetNameAnOwner ''$CROW''" "IsAssetNameAnRestricted ''$CROW''"
  by code_simp+

lemma crow_names [simp]:
  "IsAssetNameValid (crow_name x) = Inr (if x then RESTRICTED else ROOT)" "\<not> IsAssetNameAnOwner (crow_name x)"
  "IsAssetNameAnRestricted (crow_name x) = x"
  by (simp_all add: crow_name_def)

lemma crow_env_simps [simp]: "te_crypto crow_env = ex_crypto" "te_params crow_env = ex_params" "\<not> te_messages crow_env" "\<not> te_fRunningUnitTests crow_env"
  by (simp_all add: crow_env_def)

lemma crow_transfer_simps [simp]:
  "tr_strName (crow_transfer x n) = crow_name x" "tr_nAmount (crow_transfer x n) = n" "tr_message (crow_transfer x n) = []"
  "tr_nExpireTime (crow_transfer x n) = 0" "scriptPubKey (crow_out x n) = crow_script x n"
  by (simp_all add: crow_transfer_def crow_out_def)

abbreviation crow_address :: "crypto \<Rightarrow> chain_params \<Rightarrow> string" where
  "crow_address C P \<equiv> dest_address C P (CKeyID (replicate 20 1))"

lemma crow_from_script:
  assumes "in_int64 n"
  shows "TransferAssetFromScript C P (crow_script x n) = Some (crow_transfer x n, crow_address C P)"
proof -
  have "length ex_pre = 25" "take 20 (drop 3 ex_pre) = replicate 20 1" by (simp_all add: ex_pre_def)
  moreover have "valid_transfer (crow_transfer x n)" "length (crow_name x) \<le> 31"
    using assms by (simp_all add: valid_transfer_def crow_name_def MAX_SIZE_def in_int64_def valid_hash_def)
  ultimately show ?thesis
    using TransferAssetFromScript_construct[of ex_pre "crow_transfer x n" C P] by (simp add: crow_script_def)
qed

lemma crow_kind:
  assumes "in_int64 n"
  obtains b i where "IsAssetScript (crow_script x n) = Some (TX_TRANSFER_ASSET, b, i)"
  using asset_script_kinds(1)[OF crow_from_script[OF assms]] by blast

lemma crow_not_null: "\<not> IsNullAsset (crow_script x n)" "AssetNullDataFromScript C P (crow_script x n) = None"
proof -
  obtain t where "crow_script x n = ex_pre @ t"
    unfolding crow_script_def ConstructTransaction_CAssetTransfer_def using construct_asset_append by blast
  then show "\<not> IsNullAsset (crow_script x n)" "AssetNullDataFromScript C P (crow_script x n) = None"
    by (simp_all add: IsNullAsset_def IsNullAssetTxDataScript_def IsNullGlobalRestrictionAssetTxDataScript_def
        IsNullAssetVerifierTxDataScript_def ex_pre_def AssetNullDataFromScript_def)
qed

lemma crow_units: "check_transfer_units crow_env ClearDirtyCache (crow_transfer x n) crow_globals = (Inr (), crow_globals)"
  by (cases x) (simp_all add: check_transfer_units_def gbind_def gask_def gret_def gfail_if_def GetAssetMetaDataIfExists_def crow_globals_def
      ex_globals_def ClearDirtyCache_def crow_asset_def crow_name_def CheckAmountWithUnits_def MAX_UNIT_def)

lemma crow_transfer_ok:
  "0 < n \<Longrightarrow> ContextualCheckTransferAsset C ClearDirtyCache (crow_transfer x n) a crow_globals = (Inr (), crow_globals)"
  by (cases x) (simp_all add: ContextualCheckTransferAsset_def gbind_def gask_def gfail_if_def gret_def CheckForGlobalRestriction_def
      drop_reason_def ContextualCheckAgainstVerifyString_def GetAssetVerifierStringIfExists_def ContextualCheckVerifierString_def
      crow_globals_def ex_globals_def ClearDirtyCache_def crow_name_def lru_Exists_def)

lemma crow_output:
  assumes "0 < n" "n < 2 ^ 63"
  shows "check_asset_output crow_env ClearDirtyCache tx ma index (crow_out x n) st crow_globals =
    (Inr (st \<lparr>os_totalOutputs := add_total (crow_name x) n (os_totalOutputs st)\<rparr>), crow_globals)"
proof -
  have i: "in_int64 n" using assms by (simp add: in_int64_def)
  then obtain b j where "IsAssetScript (crow_script x n) = Some (TX_TRANSFER_ASSET, b, j)" by (rule crow_kind)
  then show ?thesis
    using assms by (simp add: check_asset_output_def check_null_asset_out_def crow_not_null crow_from_script[OF i] gbind_def gret_def
        reject_with_def crow_transfer_ok crow_units transfer_message_def)
qed

lemma crow_outputs:
  "\<forall>n\<in>set ns. 0 < n \<and> n < 2 ^ 63 \<Longrightarrow>
   asset_outputs_loop crow_env ClearDirtyCache tx ma index (map (crow_out x) ns) st crow_globals =
     (Inr (st \<lparr>os_totalOutputs := fold (add_total (crow_name x)) ns (os_totalOutputs st)\<rparr>), crow_globals)"
  by (induction ns arbitrary: index st) (simp_all add: crow_output gbind_def gret_def)

abbreviation crow_sender :: string where
  "crow_sender \<equiv> dest_address ex_crypto ex_params (address_dest ex_crypto ex_params (crow_address ex_crypto ex_params))"

lemma crow_data:
  obtains d where "GetAssetData ex_crypto ex_params (scriptPubKey (coin_out (crow_coin x))) = Some d"
    "IsAssetScript (scriptPubKey (coin_out (crow_coin x))) \<noteq> None"
    "ao_assetName d = crow_name x" "ao_nAmount d = 100" "dest_address ex_crypto ex_params (ao_destination d) = crow_sender"
proof -
  have i: "in_int64 100" by (simp add: in_int64_def)
  then obtain b j where "IsAssetScript (crow_script x 100) = Some (TX_TRANSFER_ASSET, b, j)" by (rule crow_kind)
  then show thesis
    using that by (simp add: crow_coin_def GetAssetData_def crow_from_script[OF i])
qed

lemma crow_input:
  "check_asset_input crow_env ClearDirtyCache (crow_coin x) ([], []) crow_globals = (Inr ([(crow_name x, 100)], [(crow_name x, crow_sender)]), crow_globals)"
proof -
  have "fst (CheckForAddressRestriction C ClearDirtyCache crow_globals n a True) = False"
    "snd (CheckForAddressRestriction C ClearDirtyCache crow_globals n a True) = crow_globals" for C n a
    by (simp_all add: CheckForAddressRestriction_def crow_globals_def ex_globals_def ClearDirtyCache_def lru_Exists_def)
  then have "CheckForAddressRestriction C ClearDirtyCache crow_globals n a True = (False, crow_globals)" for C n a
    by (metis prod.collapse)
  then show ?thesis
    by (rule_tac x = x in crow_data) (auto simp: check_asset_input_def gret_def gbind_def gask_def add_total_def set_insert_def Let_def)
qed

lemma crow_coin_storable: "storable (crow_coin x)"
proof -
  have "length (push_data s b) \<le> length s + length b + 5" for s b by (simp add: push_data_def)
  from this [of "push_opcode ex_pre OP_BLKR_ASSET" "[BLKR_N, BLKR_E, BLKR_X, BLKR_T] @ Serialize_CAssetTransfer (crow_transfer x 100)"]
    size_CAssetTransfer [of "crow_transfer x 100"]
  have "length (crow_script x 100) \<le> MAX_SCRIPT_SIZE"
    by (simp add: crow_script_def ConstructTransaction_CAssetTransfer_def construct_asset_def push_opcode_def ex_pre_def crow_transfer_def crow_name_def MAX_SCRIPT_SIZE_def split: if_splits)
  then show ?thesis by (simp add: storable_def amount_kept_def crow_coin_def crow_out_def MoneyRange_def MAX_MONEY_def COIN_def)
qed

lemma crow_view_facts:
  "cache_view_inv (\<lambda>_. 0) (fst (crow_view x)) (snd (crow_view x))" "cache_utxo (crow_view x) (ex_point 4) = Some (crow_coin x)"
  "\<not> IsSpent (crow_coin x)"
proof -
  show s: "\<not> IsSpent (crow_coin x)"
    by (simp add: IsSpent_def CTxOut_IsNull_def crow_coin_def crow_out_def)
  have d: "db_coin \<lparr>db_ec = ex_keys, db_coins = db_records ex_keys (\<lambda>p. if p = ex_point 4 then Some (crow_coin x) else None), db_best = Some 3, db_heads = None\<rparr> =
      (\<lambda>p. if p = ex_point 4 then Some (crow_coin x) else None)"
    by (rule db_records_coin) (use s storable_kept [OF ex_keys_law crow_coin_storable] in \<open>auto split: if_splits\<close>)
  show "cache_view_inv (\<lambda>_. 0) (fst (crow_view x)) (snd (crow_view x))"
    using s by (auto simp: crow_view_def d cache_inv_def map_usage_def split: if_splits)
  show "cache_utxo (crow_view x) (ex_point 4) = Some (crow_coin x)"
    by (simp add: crow_view_def d)
qed

lemma crow_inputs:
  obtains c1 base1 c2 base2 where "HaveInputs (\<lambda>_. 0) (fst (crow_view x)) (snd (crow_view x)) (crow_tx x ns) = (True, c1, base1)"
    "AccessCoin (\<lambda>_. 0) c1 base1 (ex_point 4) = (crow_coin x, c2, base2)"
proof -
  obtain ok c1 base1 where h: "HaveInputs (\<lambda>_. 0) (fst (crow_view x)) (snd (crow_view x)) (crow_tx x ns) = (ok, c1, base1)"
      "utxo (ViewCache c1 base1) = cache_utxo (crow_view x)" "cache_view_inv (\<lambda>_. 0) c1 base1"
      "\<not> ok \<Longrightarrow> \<exists>i \<in> set (vin (crow_tx x ns)). cache_utxo (crow_view x) (prevout i) = None"
    using HaveInputs_cases[OF crow_view_facts(1), of x "crow_tx x ns"] by metis
  moreover have "ok"
    using h(4) crow_view_facts(2)[of x] by (auto simp: crow_tx_def simp del: utxo.simps)
  moreover obtain c2 base2 where "AccessCoin (\<lambda>_. 0) c1 base1 (ex_point 4) = (crow_coin x, c2, base2)"
    using access_coin.query_answer[of "\<lambda>_. 0" "(c1, base1)" "ex_point 4"] h(2,3) crow_view_facts(2)[of x]
    by (auto simp: coin_at_def simp del: utxo.simps view_inv.simps)
  ultimately show thesis using that by simp
qed

lemma crow_tx_kind:
  assumes "ns \<noteq> []" "\<forall>n\<in>set ns. in_int64 n"
  shows "check_asset_kind crow_env ac (crow_tx x ns) G = (Inr (), G)"
proof -
  have k: "\<forall>n\<in>set ns. \<exists>b i. IsAssetScript (crow_script x n) = Some (TX_TRANSFER_ASSET, b, i)"
    using assms(2) crow_kind by metis
  then obtain b i where l: "IsAssetScript (crow_script x (last ns)) = Some (TX_TRANSFER_ASSET, b, i)"
    using assms(1) by (metis last_in_set)
  from k have "check_only_transfers (crow_tx x ns) = Inr ()"
    by (auto simp: check_only_transfers_def check_all_iff crow_tx_def reject_if_def dest!: bspec)
  with l assms(1) show ?thesis
    by (simp add: check_asset_kind_def tx_IsNewAsset_def tx_IsReissueAsset_def tx_IsNewUniqueAsset_def tx_IsNewMsgChannelAsset_def
        tx_IsNewQualifierAsset_def tx_IsNewRestrictedAsset_def last_out_def crow_tx_def last_map CheckIssueDataTx_def CheckReissueDataTx_def
        IsScriptNewAsset_def IsScriptReissueAsset_def gpure_def)
qed

lemma crow_accepted:
  assumes "ns \<noteq> []" "\<forall>n\<in>set ns. 0 < n \<and> n < 2 ^ 63" "fold (add_total (crow_name x)) ns [] = [(crow_name x, 100)]"
  shows "\<exists>r. CheckTxAssets crow_env ClearDirtyCache (\<lambda>_. 0) (fst (crow_view x)) (snd (crow_view x)) (crow_tx x ns) crow_globals = (Inr r, crow_globals)"
proof -
  obtain c1 base1 c2 base2 where i: "HaveInputs (\<lambda>_. 0) (fst (crow_view x)) (snd (crow_view x)) (crow_tx x ns) = (True, c1, base1)"
      "AccessCoin (\<lambda>_. 0) c1 base1 (ex_point 4) = (crow_coin x, c2, base2)"
    by (rule crow_inputs)
  have v: "vin (crow_tx x ns) = [\<lparr>prevout = ex_point 4, scriptSig = [], nSequence = 0, scriptWitness = []\<rparr>]"
    "vout (crow_tx x ns) = map (crow_out x) ns"
    by (simp_all add: crow_tx_def)
  have k: "check_asset_kind crow_env ClearDirtyCache (crow_tx x ns) crow_globals = (Inr (), crow_globals)"
    using assms by (intro crow_tx_kind) (auto simp: in_int64_def)
  have t: "check_totals [(crow_name x, 100)] [(crow_name x, 100)] = Inr ()"
    by (simp add: check_totals_def in_order_def reject_if_def sbind_Inr_iff)
  show ?thesis
    using i k t assms by (simp add: CheckTxAssets_def v crow_input crow_view_facts(3) crow_outputs gbind_def gret_def gpure_def)
qed

theorem assets_conserved_witness:
  "assets_in crow_env (cache_utxo (crow_view False)) (crow_tx False [60, 40]) ''CROW'' mod 2 ^ 64 =
   assets_out crow_env (crow_tx False [60, 40]) ''CROW'' mod 2 ^ 64"
proof -
  have "fold (add_total (crow_name False)) [60, 40] [] = [(crow_name False, 100)]" by code_simp
  then obtain r where "CheckTxAssets crow_env ClearDirtyCache (\<lambda>_. 0) (fst (crow_view False)) (snd (crow_view False)) (crow_tx False [60, 40]) crow_globals =
      (Inr r, crow_globals)"
    using crow_accepted[of "[60, 40]" False] by auto
  from assets_conserved[OF this crow_view_facts(1)] show ?thesis by blast
qed

text \<open>
  C36. The totals wrap. A transaction that spends a coin with 100 units of an asset and sends \<open>2\<^sup>6\<^sup>4 + 100\<close> units is accepted: the 64-bit total
  of the outputs comes round to 100, since only the single amounts and not their sum are bounded.
\<close>

theorem asset_inflation:
  "\<exists>r. CheckTxAssets crow_env ClearDirtyCache (\<lambda>_. 0) (fst (crow_view False)) (snd (crow_view False))
      (crow_tx False [2 ^ 63 - 1, 2 ^ 63 - 1, 102]) crow_globals = (Inr r, crow_globals) \<and>
   assets_in crow_env (cache_utxo (crow_view False)) (crow_tx False [2 ^ 63 - 1, 2 ^ 63 - 1, 102]) (crow_name False) = 100 \<and>
   assets_out crow_env (crow_tx False [2 ^ 63 - 1, 2 ^ 63 - 1, 102]) (crow_name False) = 2 ^ 64 + 100"
proof -
  have f: "fold (add_total (crow_name False)) [2 ^ 63 - 1, 2 ^ 63 - 1, 102] [] = [(crow_name False, 100)]" by code_simp
  have i: "in_int64 100" "in_int64 (2 ^ 63 - 1)" "in_int64 102" by (simp_all add: in_int64_def)
  have "amount_in crow_env (crow_name x) (crow_coin x) = 100" for x
    by (rule_tac x = x in crow_data) (simp add: amount_in_def)
  then have "assets_in crow_env (cache_utxo (crow_view False)) (crow_tx False ns) (crow_name False) = 100" for ns
    using crow_view_facts(2)[of False] by (simp add: assets_in_def crow_tx_def coin_at_def del: utxo.simps)
  moreover have "assets_out crow_env (crow_tx False [2 ^ 63 - 1, 2 ^ 63 - 1, 102]) (crow_name False) = 2 ^ 64 + 100"
    using crow_from_script[OF i(2)] crow_from_script[OF i(3)] by (simp add: assets_out_def crow_tx_def amount_out_def)
  ultimately show ?thesis
    using crow_accepted[OF _ _ f] by auto
qed

section \<open>Checks only fill caches\<close>

definition keeps :: "(assets_globals \<Rightarrow> bool) \<Rightarrow> ('e, 'a) gcheck \<Rightarrow> bool" where
  "keeps Q m \<longleftrightarrow> (\<forall>G. Q G \<longrightarrow> Q (snd (m G)))"

lemma keeps_gbind: "keeps Q m \<Longrightarrow> (\<And>x. keeps Q (f x)) \<Longrightarrow> keeps Q (gbind m f)"
  by (auto simp: keeps_def gbind_def split_beta split: sum.splits)

lemma keeps_gask: "(\<And>G. Q G \<Longrightarrow> Q (snd (q G))) \<Longrightarrow> keeps Q (gask q)"
  by (auto simp: keeps_def gask_def split_beta)

lemma keeps_simple: "keeps Q (gret x)" "keeps Q (gfail e)" "keeps Q (gfail_if b e)" "keeps Q (gpure r)"
  by (simp_all add: keeps_def gret_def gfail_def gfail_if_def gpure_def)

lemma keeps_reason: "keeps Q m \<Longrightarrow> keeps Q (reject_with f m)" "keeps Q m \<Longrightarrow> keeps Q (drop_reason m)"
  by (auto simp: keeps_def reject_with_def drop_reason_def split_beta split: sum.splits)

lemma keeps_gall: "(\<And>x. keeps Q (f x)) \<Longrightarrow> keeps Q (gall f xs)"
  by (induction xs) (simp_all add: keeps_simple keeps_gbind)

lemma keeps_gmap: "(\<And>x. keeps Q (f x)) \<Longrightarrow> keeps Q (gmap f xs)"
  by (induction xs) (simp_all add: keeps_simple keeps_gbind)

text \<open>What freezing depends on: the commands, the database, and coherent caches for it.\<close>

definition freeze_data :: "crypto \<Rightarrow> (string \<times> string) set \<Rightarrow> CAssetsCache \<Rightarrow> CRestrictedDB \<Rightarrow> assets_globals \<Rightarrow> bool" where
  "freeze_data C K A D H \<longleftrightarrow> passets H = A \<and> prestricteddb H = D \<and> global_coherent H \<and> address_coherent C K H"

lemma freeze_data_caches [simp]:
  "freeze_data C K A D (passetsCache_update f1 G) = freeze_data C K A D G"
  "freeze_data C K A D (passetsVerifierCache_update f2 G) = freeze_data C K A D G"
  "freeze_data C K A D (passetsQualifierCache_update f3 G) = freeze_data C K A D G"
  by (simp_all add: freeze_data_def global_coherent_def address_coherent_def)

lemma freeze_data_ask:
  assumes "freeze_data C K A D G"
  shows "freeze_data C K A D (snd (CheckIfAssetExists c G name b))" "freeze_data C K A D (snd (GetAssetMetaDataIfExists c G name))"
    "freeze_data C K A D (snd (GetAssetVerifierStringIfExists c G name b))"
    "freeze_data C K A D (snd (CheckForAddressQualifier C' c G name address b))"
  using assms unfolding CheckIfAssetExists_def GetAssetMetaDataIfExists_def GetAssetVerifierStringIfExists_def CheckForAddressQualifier_def Let_def
  by (simp_all split: option.split prod.split)

lemma freeze_data_ask_global:
  assumes "freeze_data C K A D G"
  shows "freeze_data C K A D (snd (CheckForGlobalRestriction c G n b))"
  by (rule ask_global_cases) (use assms in \<open>auto simp: freeze_data_def global_coherent_def address_coherent_def dest!: lru_Exists_Put\<close>)

lemma freeze_data_ask_address:
  assumes "freeze_data C K A D G" "(n, a) \<in> K"
  shows "freeze_data C K A D (snd (CheckForAddressRestriction C c G n a b))"
proof (rule ask_address_cases)
  assume "(a, n) \<in> set (db_restricted_address (prestricteddb G))"
  then show "freeze_data C K A D (G \<lparr>passetsRestrictionCache := lru_Put (passetsRestrictionCache G) (pair_key C n a) ()\<rparr>)"
    using assms address_coherent_put[of C K G n a] by (auto simp: freeze_data_def global_coherent_def)
qed (rule assms(1))

lemmas keeps_intros = keeps_gbind keeps_simple keeps_reason keeps_gall keeps_gmap keeps_gask freeze_data_ask freeze_data_ask_global

lemma keeps_ContextualCheckVerifierString: "keeps (freeze_data C K A D) (ContextualCheckVerifierString C' ac v a)"
  unfolding ContextualCheckVerifierString_def by (auto intro!: keeps_intros split: sum.split)

lemma keeps_ContextualCheckTransferAsset: "keeps (freeze_data C K A D) (ContextualCheckTransferAsset C' ac t a)"
  unfolding ContextualCheckTransferAsset_def ContextualCheckAgainstVerifyString_def
  by (auto intro!: keeps_intros keeps_ContextualCheckVerifierString split: sum.split option.split)

lemma keeps_check_transfer_units: "keeps (freeze_data C K A D) (check_transfer_units E ac t)"
  unfolding check_transfer_units_def by (auto intro!: keeps_intros split: option.split)

lemma keeps_changes:
  "keeps (freeze_data C K A D) (VerifyQualifierChange C' ac d a)" "keeps (freeze_data C K A D) (VerifyGlobalRestrictedChange ac d)"
  "(nd_asset_name d, a) \<in> K \<Longrightarrow> keeps (freeze_data C K A D) (VerifyRestrictedAddressChange C ac d a)"
  unfolding VerifyQualifierChange_def VerifyRestrictedAddressChange_def VerifyGlobalRestrictedChange_def
  by (auto intro!: keeps_intros freeze_data_ask_address)

lemma keeps_check_null_asset_out:
  assumes "\<And>d a. AssetNullDataFromScript (te_crypto E) (te_params E) (scriptPubKey out) = Some (d, a) \<Longrightarrow> (nd_asset_name d, a) \<in> K"
  shows "keeps (freeze_data (te_crypto E) K A D) (check_null_asset_out E ac out)"
proof -
  have "keeps (freeze_data (te_crypto E) K A D) (ContextualCheckNullAssetTxOut (te_crypto E) (te_params E) ac out)"
    unfolding ContextualCheckNullAssetTxOut_def using assms by (simp add: keeps_simple keeps_changes split: option.split)
  moreover have "keeps (freeze_data (te_crypto E) K A D) (ContextualCheckGlobalAssetTxOut ac out)"
    unfolding ContextualCheckGlobalAssetTxOut_def by (simp add: keeps_simple keeps_changes split: option.split)
  moreover have "keeps (freeze_data (te_crypto E) K A D) (ContextualCheckVerifierAssetTxOut (te_crypto E) ac out)"
    unfolding ContextualCheckVerifierAssetTxOut_def
    by (simp add: keeps_simple keeps_reason keeps_ContextualCheckVerifierString split: option.split)
  ultimately show ?thesis
    by (simp add: check_null_asset_out_def Let_def keeps_simple keeps_reason)
qed

section \<open>Frozen assets do not move\<close>

lemma freeze_data_answers:
  assumes "freeze_data C K A D G" "freeze_data C K A D H"
  shows "fst (CheckForGlobalRestriction c G n True) = fst (CheckForGlobalRestriction c H n True)"
    "(n, a) \<in> K \<Longrightarrow> fst (CheckForAddressRestriction C c G n a True) = fst (CheckForAddressRestriction C c H n a True)"
  using assms unfolding CheckForGlobalRestriction_def CheckForAddressRestriction_def Let_def
  by (auto simp: freeze_data_def global_coherent_def address_coherent_def split: option.split)

text \<open>The pairs of an asset and an address that the check of a transaction asks about.\<close>

definition input_pairs :: "tx_assets_env \<Rightarrow> Coin \<Rightarrow> (string \<times> string) set" where
  "input_pairs E coin =
     (case GetAssetData (te_crypto E) (te_params E) (scriptPubKey (coin_out coin)) of
        None \<Rightarrow> {} | Some d \<Rightarrow> {(ao_assetName d, dest_address (te_crypto E) (te_params E) (ao_destination d))})"

definition output_pairs :: "tx_assets_env \<Rightarrow> CTxOut \<Rightarrow> (string \<times> string) set" where
  "output_pairs E out =
     (case AssetNullDataFromScript (te_crypto E) (te_params E) (scriptPubKey out) of None \<Rightarrow> {} | Some (d, a) \<Rightarrow> {(nd_asset_name d, a)})"

definition asked_pairs :: "tx_assets_env \<Rightarrow> (COutPoint \<Rightarrow> Coin option) \<Rightarrow> CTransaction \<Rightarrow> (string \<times> string) set" where
  "asked_pairs E m tx = (\<Union>i\<in>set (vin tx). input_pairs E (coin_at m (prevout i))) \<union> (\<Union>out\<in>set (vout tx). output_pairs E out)"

lemma check_asset_input_frozen:
  assumes "check_asset_input E ac coin st G = (Inr st', H)" "freeze_data (te_crypto E) K A D G" "input_pairs E coin \<subseteq> K"
  shows "freeze_data (te_crypto E) K A D H"
    "(n, a) \<in> input_pairs E coin \<Longrightarrow> IsAssetNameAnRestricted n \<Longrightarrow> \<not> fst (CheckForAddressRestriction (te_crypto E) ac G n a True)"
proof -
  note q = freeze_data_ask_address[OF assms(2), of _ _ ac True]
  show "freeze_data (te_crypto E) K A D H"
    using assms q by (fastforce simp: check_asset_input_def input_pairs_def Let_def gcheck_iff split: if_splits option.splits)
  show "\<not> fst (CheckForAddressRestriction (te_crypto E) ac G n a True)" if "(n, a) \<in> input_pairs E coin" "IsAssetNameAnRestricted n"
    using assms(1) that by (auto simp: check_asset_input_def input_pairs_def Let_def gcheck_iff GetAssetData_def split: if_splits option.splits)
qed

lemma asset_inputs_frozen:
  assumes "asset_inputs_loop E ac u c base ins st G = (Inr r, H)" "cache_view_inv u c base" "m = utxo (ViewCache c base)"
    "freeze_data (te_crypto E) K A D G" "(\<Union>i\<in>set ins. input_pairs E (coin_at m (prevout i))) \<subseteq> K"
  shows "freeze_data (te_crypto E) K A D H \<and> (\<forall>i\<in>set ins. \<forall>(n, a)\<in>input_pairs E (coin_at m (prevout i)).
    IsAssetNameAnRestricted n \<longrightarrow> \<not> fst (CheckForAddressRestriction (te_crypto E) ac G n a True))"
  using assms
proof (induction ins arbitrary: c base st G)
  case (Cons i ins)
  from access_coin.query_answer [of u "(c, base)" "prevout i"] Cons.prems(2,3) obtain c1 base1 where
    1: "AccessCoin u c base (prevout i) = (coin_at m (prevout i), c1, base1)"
      "utxo (ViewCache c1 base1) = m" "cache_view_inv u c1 base1"
    by (auto simp del: utxo.simps view_inv.simps)
  from Cons.prems(1) 1(1) obtain st1 G1 where 2: "check_asset_input E ac (coin_at m (prevout i)) st G = (Inr st1, G1)"
      "asset_inputs_loop E ac u c1 base1 ins st1 G1 = (Inr r, H)"
    by (auto simp: gcheck_iff split: if_splits)
  have k: "input_pairs E (coin_at m (prevout i)) \<subseteq> K" "(\<Union>i\<in>set ins. input_pairs E (coin_at m (prevout i))) \<subseteq> K"
    using Cons.prems(5) by auto
  note 3 = check_asset_input_frozen[OF 2(1) Cons.prems(4) k(1)]
  note 4 = Cons.IH[OF 2(2) 1(3) 1(2)[symmetric] 3(1) k(2)]
  show ?case
    using 3(2) 4 freeze_data_answers(2)[OF Cons.prems(4) 3(1)] k(2) by fastforce
qed auto

lemma transfer_not_frozen:
  assumes "ContextualCheckTransferAsset C' ac t a G = (Inr (), H)" "IsAssetNameValid (tr_strName t) = Inr RESTRICTED"
  shows "\<not> fst (CheckForGlobalRestriction ac G (tr_strName t) True)"
  using assms by (auto simp: ContextualCheckTransferAsset_def gcheck_iff split: if_splits)

lemma keepsD: "keeps Q m \<Longrightarrow> Q G \<Longrightarrow> m G = (r, H) \<Longrightarrow> Q H"
  unfolding keeps_def by (metis snd_conv)

lemma check_asset_output_frozen:
  assumes "check_asset_output E ac tx ma index out st G = (Inr st', H)" "freeze_data (te_crypto E) K A D G" "output_pairs E out \<subseteq> K"
  shows "freeze_data (te_crypto E) K A D H"
    "TransferAssetFromScript (te_crypto E) (te_params E) (scriptPubKey out) = Some (t, a) \<Longrightarrow> IsAssetNameValid (tr_strName t) = Inr RESTRICTED \<Longrightarrow>
     \<not> fst (CheckForGlobalRestriction ac G (tr_strName t) True)"
proof -
  obtain G1 where 1: "check_null_asset_out E ac out G = (Inr (), G1)"
    using assms(1) by (auto simp: check_asset_output_def Let_def gcheck_iff)
  have n: "keeps (freeze_data (te_crypto E) K A D) (check_null_asset_out E ac out)"
    by (rule keeps_check_null_asset_out) (use assms(3) in \<open>auto simp: output_pairs_def\<close>)
  from n assms(2) 1 have f1: "freeze_data (te_crypto E) K A D G1"
    by (rule keepsD)
  have "keeps (freeze_data (te_crypto E) K A D) (check_asset_output E ac tx ma index out st)"
    unfolding check_asset_output_def Let_def
    by (rule keeps_gbind[OF n])
      (simp add: keeps_simple keeps_reason keeps_gbind keeps_ContextualCheckTransferAsset keeps_check_transfer_units split: option.split prod.split)
  from this assms(2,1) show "freeze_data (te_crypto E) K A D H"
    by (rule keepsD)
  show "\<not> fst (CheckForGlobalRestriction ac G (tr_strName t) True)"
    if t: "TransferAssetFromScript (te_crypto E) (te_params E) (scriptPubKey out) = Some (t, a)" "IsAssetNameValid (tr_strName t) = Inr RESTRICTED"
  proof -
    obtain b i where "IsAssetScript (scriptPubKey out) = Some (TX_TRANSFER_ASSET, b, i)"
      using asset_script_kinds(1)[OF t(1)] by blast
    then obtain G2 where "ContextualCheckTransferAsset (te_crypto E) ac t a G1 = (Inr (), G2)"
      using assms(1) 1 t(1) by (auto simp: check_asset_output_def Let_def gcheck_iff)
    from transfer_not_frozen[OF this t(2)] show ?thesis
      using freeze_data_answers(1)[OF assms(2) f1] by simp
  qed
qed

lemma asset_outputs_frozen:
  assumes "asset_outputs_loop E ac tx ma index outs st G = (Inr st', H)" "freeze_data (te_crypto E) K A D G"
    "(\<Union>out\<in>set outs. output_pairs E out) \<subseteq> K"
  shows "\<forall>out\<in>set outs. \<forall>t a. TransferAssetFromScript (te_crypto E) (te_params E) (scriptPubKey out) = Some (t, a) \<longrightarrow>
    IsAssetNameValid (tr_strName t) = Inr RESTRICTED \<longrightarrow> \<not> fst (CheckForGlobalRestriction ac G (tr_strName t) True)"
  using assms
proof (induction outs arbitrary: index st G)
  case (Cons out outs)
  then obtain st1 G1 where 1: "check_asset_output E ac tx ma index out st G = (Inr st1, G1)"
      "asset_outputs_loop E ac tx ma (Suc index) outs st1 G1 = (Inr st', H)"
    by (auto simp: gcheck_iff)
  have k: "output_pairs E out \<subseteq> K" "(\<Union>out\<in>set outs. output_pairs E out) \<subseteq> K"
    using Cons.prems(3) by auto
  note 2 = check_asset_output_frozen[OF 1(1) Cons.prems(2) k(1)]
  show ?case
    using 2(2) Cons.IH[OF 1(2) 2(1) k(2)] freeze_data_answers(1)[OF Cons.prems(2) 2(1)] by auto
qed simp

text \<open>
  C12. Frozen assets do not move. When the caches hold nothing that the databases do not, an accepted transaction spends no restricted asset
  from an address that is frozen for it, and has no output that transfers a restricted asset which is frozen globally, both by the
  state before the block.
\<close>

theorem frozen_assets_do_not_move:
  assumes "CheckTxAssets E ac u c base tx G = (Inr r, H)" "cache_view_inv u c base" "m = utxo (ViewCache c base)"
    "global_coherent G" "address_coherent (te_crypto E) (asked_pairs E m tx) G"
  shows "(\<forall>i\<in>set (vin tx). \<forall>(n, a)\<in>input_pairs E (coin_at m (prevout i)).
      IsAssetNameAnRestricted n \<longrightarrow> \<not> fst (CheckForAddressRestriction (te_crypto E) ac G n a True)) \<and>
    (\<forall>out\<in>set (vout tx). \<forall>t a. TransferAssetFromScript (te_crypto E) (te_params E) (scriptPubKey out) = Some (t, a) \<longrightarrow>
      IsAssetNameValid (tr_strName t) = Inr RESTRICTED \<longrightarrow> \<not> fst (CheckForGlobalRestriction ac G (tr_strName t) True))"
proof -
  obtain c1 base1 ti ma c2 base2 G1 st G2 where p: "cache_view_inv u c1 base1" "utxo (ViewCache c1 base1) = m"
    "asset_inputs_loop E ac u c1 base1 (vin tx) ([], []) G = (Inr ((ti, ma), c2, base2), G1)"
    "asset_outputs_loop E ac tx ma 0 (vout tx) \<lparr>os_totalOutputs = [], os_messages = [], os_vPairReissueAssets = []\<rparr> G1 = (Inr st, G2)"
    using CheckTxAssets_parts[OF assms(1,2)] assms(3) by metis
  have f: "freeze_data (te_crypto E) (asked_pairs E m tx) (passets G) (prestricteddb G) G"
    using assms(4,5) by (simp add: freeze_data_def)
  have i: "freeze_data (te_crypto E) (asked_pairs E m tx) (passets G) (prestricteddb G) G1 \<and> (\<forall>i\<in>set (vin tx).
      \<forall>(n, a)\<in>input_pairs E (coin_at m (prevout i)). IsAssetNameAnRestricted n \<longrightarrow> \<not> fst (CheckForAddressRestriction (te_crypto E) ac G n a True))"
    by (rule asset_inputs_frozen[OF p(3,1) p(2)[symmetric] f]) (simp add: asked_pairs_def)
  then have "\<forall>out\<in>set (vout tx). \<forall>t a. TransferAssetFromScript (te_crypto E) (te_params E) (scriptPubKey out) = Some (t, a) \<longrightarrow>
      IsAssetNameValid (tr_strName t) = Inr RESTRICTED \<longrightarrow> \<not> fst (CheckForGlobalRestriction ac G1 (tr_strName t) True)"
    by (intro asset_outputs_frozen[OF p(4)]) (auto simp: asked_pairs_def)
  with i freeze_data_answers(1)[OF f conjunct1[OF i]] show ?thesis by simp
qed

theorem frozen_assets_do_not_move_witness:
  "\<not> fst (CheckForAddressRestriction ex_crypto ClearDirtyCache crow_globals ''$CROW'' crow_sender True) \<and>
   \<not> fst (CheckForGlobalRestriction ClearDirtyCache crow_globals ''$CROW'' True)"
proof -
  let ?tx = "crow_tx True [60, 40]"
  have n: "crow_name True = ''$CROW''" by (simp add: crow_name_def)
  have "fold (add_total (crow_name True)) [60, 40] [] = [(crow_name True, 100)]" by code_simp
  then obtain r where acc: "CheckTxAssets crow_env ClearDirtyCache (\<lambda>_. 0) (fst (crow_view True)) (snd (crow_view True)) ?tx crow_globals = (Inr r, crow_globals)"
    using crow_accepted[of "[60, 40]" True] by auto
  have i: "input_pairs crow_env (crow_coin True) = {(''$CROW'', crow_sender)}"
    by (rule_tac x = True in crow_data) (simp add: input_pairs_def n)
  have a: "asked_pairs crow_env (cache_utxo (crow_view True)) ?tx = {(''$CROW'', crow_sender)}"
    using i crow_view_facts(2)[of True]
    by (simp add: asked_pairs_def crow_tx_def coin_at_def output_pairs_def crow_not_null del: utxo.simps)
  have c: "global_coherent crow_globals" "address_coherent ex_crypto {(''$CROW'', crow_sender)} crow_globals"
    by (simp_all add: global_coherent_def address_coherent_def crow_globals_def ex_globals_def lru_Exists_def)
  note t = frozen_assets_do_not_move[OF acc crow_view_facts(1) refl c(1), unfolded a, simplified, OF c(2)]
  have "in_int64 60" by (simp add: in_int64_def)
  then show ?thesis
    using t i crow_view_facts(2)[of True] crow_from_script[of 60 ex_crypto ex_params True]
    by (auto simp: crow_tx_def coin_at_def n simp del: utxo.simps)
qed

end
