(* ===== verification/ArithUint.thy ===== *)
theory ArithUint
  imports Prelude
begin

text \<open>
  The 256-bit numbers of the proof of work (\<^verbatim>\<open>base_uint<256>\<close> and \<^verbatim>\<open>arith_uint256\<close> in \<^verbatim>\<open>src/src/arith_uint256.h\<close>, \<^verbatim>\<open>.cpp\<close>): an array of eight
  32-bit limbs, lowest first, with the loops of the code, and what they compute on natural numbers.
\<close>

section \<open>Limbs\<close>

definition WIDTH :: nat where "WIDTH = 8"

type_synonym limbs = "u32 list"

fun limbs_val :: "limbs \<Rightarrow> nat" where
  "limbs_val [] = 0"
| "limbs_val (x # xs) = unat x + 2 ^ 32 * limbs_val xs"

definition wf_limbs :: "limbs \<Rightarrow> bool" where
  "wf_limbs a \<longleftrightarrow> length a = WIDTH"

definition of_uint64 :: "u64 \<Rightarrow> limbs" where
  "of_uint64 b = [ucast b, ucast (drop_bit 32 b)] @ replicate (WIDTH - 2) 0"

definition limbs_compl :: "limbs \<Rightarrow> limbs" where
  "limbs_compl a = map not a"

text \<open>The loops with a 64-bit carry: sum, product with a 32-bit number, and the row \<open>pn[i + j] += a * b.pn[i]\<close> of the long product.\<close>

fun add_loop :: "u64 \<Rightarrow> limbs \<Rightarrow> limbs \<Rightarrow> limbs" where
  "add_loop carry (x # xs) (y # ys) =
     (let n = carry + ucast x + ucast y in ucast (and n 0xffffffff) # add_loop (drop_bit 32 n) xs ys)"
| "add_loop carry xs ys = []"

definition limbs_add :: "limbs \<Rightarrow> limbs \<Rightarrow> limbs" where
  "limbs_add a b = add_loop 0 a b"

fun limbs_inc :: "limbs \<Rightarrow> limbs" where
  "limbs_inc [] = []"
| "limbs_inc (x # xs) = (if x + 1 = 0 then (x + 1) # limbs_inc xs else (x + 1) # xs)"

definition limbs_neg :: "limbs \<Rightarrow> limbs" where
  "limbs_neg a = limbs_inc (limbs_compl a)"

definition limbs_sub :: "limbs \<Rightarrow> limbs \<Rightarrow> limbs" where
  "limbs_sub a b = limbs_add a (limbs_neg b)"

fun mul32_loop :: "u32 \<Rightarrow> u64 \<Rightarrow> limbs \<Rightarrow> limbs" where
  "mul32_loop b carry [] = []"
| "mul32_loop b carry (x # xs) =
     (let n = carry + ucast b * ucast x in ucast (and n 0xffffffff) # mul32_loop b (drop_bit 32 n) xs)"

definition limbs_mul32 :: "limbs \<Rightarrow> u32 \<Rightarrow> limbs" where
  "limbs_mul32 a b = mul32_loop b 0 a"

fun mul_row :: "u32 \<Rightarrow> u64 \<Rightarrow> limbs \<Rightarrow> limbs \<Rightarrow> limbs" where
  "mul_row a carry (p # ps) (b # bs) =
     (let n = carry + ucast p + ucast a * ucast b in ucast (and n 0xffffffff) # mul_row a (drop_bit 32 n) ps bs)"
| "mul_row a carry ps bs = []"

text \<open>Row \<open>j\<close> changes the limbs from \<open>j\<close> on; the loop runs over the limbs of the first factor.\<close>

fun mul_rows :: "nat \<Rightarrow> limbs \<Rightarrow> limbs \<Rightarrow> limbs \<Rightarrow> limbs" where
  "mul_rows j [] b p = p"
| "mul_rows j (x # xs) b p = mul_rows (Suc j) xs b (take j p @ mul_row x 0 (drop j p) b)"

definition limbs_mul :: "limbs \<Rightarrow> limbs \<Rightarrow> limbs" where
  "limbs_mul a b = mul_rows 0 a b (replicate WIDTH 0)"

text \<open>Comparison from the highest limb down.\<close>

fun compare_loop :: "limbs \<Rightarrow> limbs \<Rightarrow> int" where
  "compare_loop (x # xs) (y # ys) = (if x < y then -1 else if x > y then 1 else compare_loop xs ys)"
| "compare_loop xs ys = 0"

definition CompareTo :: "limbs \<Rightarrow> limbs \<Rightarrow> int" where
  "CompareTo a b = compare_loop (rev a) (rev b)"

definition EqualTo :: "limbs \<Rightarrow> u64 \<Rightarrow> bool" where
  "EqualTo a b \<longleftrightarrow> list_all (\<lambda>x. x = 0) (drop 2 a) \<and> ucast (a ! 1) = drop_bit 32 b \<and> ucast (a ! 0) = and b 0xffffffff"

text \<open>The highest set bit of a limb, and of the number.\<close>

fun nbits_loop :: "u32 \<Rightarrow> nat \<Rightarrow> nat" where
  "nbits_loop x 0 = 1"
| "nbits_loop x (Suc n) = (if and x (push_bit (Suc n) 1) \<noteq> 0 then Suc n + 1 else nbits_loop x n)"

fun bits_loop :: "limbs \<Rightarrow> nat" where
  "bits_loop [] = 0"
| "bits_loop (x # xs) = (if x \<noteq> 0 then 32 * length xs + nbits_loop x 31 else bits_loop xs)"

definition limbs_bits :: "limbs \<Rightarrow> nat" where
  "limbs_bits a = bits_loop (rev a)"

text \<open>Shifts: limb \<open>i\<close> of the result is put together from two limbs of the argument.\<close>

definition limb_at :: "limbs \<Rightarrow> int \<Rightarrow> u32" where
  "limb_at a i = (if 0 \<le> i \<and> i < int (length a) then a ! nat i else 0)"

definition limbs_shl :: "limbs \<Rightarrow> nat \<Rightarrow> limbs" where
  "limbs_shl a shift =
     (let k = shift div 32; s = shift mod 32 in
      map (\<lambda>i. or (if s \<noteq> 0 then drop_bit (32 - s) (limb_at a (int i - int k - 1)) else 0) (push_bit s (limb_at a (int i - int k)))) [0..<length a])"

definition limbs_shr :: "limbs \<Rightarrow> nat \<Rightarrow> limbs" where
  "limbs_shr a shift =
     (let k = shift div 32; s = shift mod 32 in
      map (\<lambda>i. or (if s \<noteq> 0 then push_bit (32 - s) (limb_at a (int i + int k + 1)) else 0) (drop_bit s (limb_at a (int i + int k)))) [0..<length a])"

text \<open>Division by shifted subtraction; \<open>None\<close> is the exception for a division by zero.\<close>

fun div_loop :: "nat \<Rightarrow> limbs \<Rightarrow> limbs \<Rightarrow> limbs \<Rightarrow> limbs" where
  "div_loop shift num dv q =
     (let ge = CompareTo num dv \<ge> 0;
          num' = (if ge then limbs_sub num dv else num);
          q' = (if ge then q[shift div 32 := or (q ! (shift div 32)) (push_bit (shift mod 32) 1)] else q) in
      case shift of 0 \<Rightarrow> q' | Suc s \<Rightarrow> div_loop s num' (limbs_shr dv 1) q')"

declare div_loop.simps [simp del]

definition limbs_div :: "limbs \<Rightarrow> limbs \<Rightarrow> limbs option" where
  "limbs_div a b =
     (let num_bits = limbs_bits a; div_bits = limbs_bits b; zero = replicate WIDTH 0 in
      if div_bits = 0 then None
      else if div_bits > num_bits then Some zero
      else Some (div_loop (num_bits - div_bits) a (limbs_shl b (num_bits - div_bits)) zero))"

definition GetLow64 :: "limbs \<Rightarrow> u64" where
  "GetLow64 a = or (ucast (a ! 0)) (push_bit 32 (ucast (a ! 1)))"

section \<open>The compact form\<close>

definition SetCompact :: "u32 \<Rightarrow> limbs \<times> bool \<times> bool" where
  "SetCompact nCompact =
     (let nSize = unat (drop_bit 24 nCompact); nWord0 = and nCompact 0x007fffff;
          nWord = (if nSize \<le> 3 then drop_bit (8 * (3 - nSize)) nWord0 else nWord0) in
      (if nSize \<le> 3 then of_uint64 (ucast nWord) else limbs_shl (of_uint64 (ucast nWord)) (8 * (nSize - 3)),
       nWord \<noteq> 0 \<and> and nCompact 0x00800000 \<noteq> 0,
       nWord \<noteq> 0 \<and> (nSize > 34 \<or> nWord > 0xff \<and> nSize > 33 \<or> nWord > 0xffff \<and> nSize > 32)))"

text \<open>\<open>None\<close> is a failed assertion.\<close>

definition GetCompact :: "limbs \<Rightarrow> bool \<Rightarrow> u32 option" where
  "GetCompact a fNegative =
     (let nSize0 = (limbs_bits a + 7) div 8;
          nCompact0 = (if nSize0 \<le> 3 then ucast (push_bit (8 * (3 - nSize0)) (GetLow64 a)) else ucast (GetLow64 (limbs_shr a (8 * (nSize0 - 3))))) :: u32;
          big = and nCompact0 0x00800000 \<noteq> 0;
          nCompact1 = (if big then drop_bit 8 nCompact0 else nCompact0);
          nSize = (if big then nSize0 + 1 else nSize0) in
      if and nCompact1 (not 0x007fffff) \<noteq> 0 \<or> \<not> nSize < 256 then None
      else let nCompact2 = or nCompact1 (push_bit 24 (of_nat nSize)) in
        Some (or nCompact2 (if fNegative \<and> and nCompact2 0x007fffff \<noteq> 0 then 0x00800000 else 0)))"

section \<open>What the loops compute\<close>

lemma limbs_val_less: "limbs_val a < 2 ^ (32 * length a)"
proof (induction a)
  case (Cons x a)
  have "unat x < 2 ^ 32"
    using unsigned_less[of x, where 'a = nat] by simp
  then have "unat x + 2 ^ 32 * limbs_val a < 2 ^ 32 * (limbs_val a + 1)"
    by simp
  also have "\<dots> \<le> 2 ^ 32 * 2 ^ (32 * length a)"
    using Cons by (intro mult_le_mono2) simp
  also have "\<dots> = 2 ^ (32 * length (x # a))"
    by (simp add: power_add)
  finally show ?case
    by simp
qed simp

lemma limbs_val_append: "limbs_val (a @ b) = limbs_val a + 2 ^ (32 * length a) * limbs_val b"
  by (induction a) (simp_all add: algebra_simps power_add)

lemma limbs_val_zero [simp]: "limbs_val (replicate n 0) = 0"
  by (induction n) simp_all

lemma u32_less: "unat (x :: u32) < 2 ^ 32"
  using unsigned_less[of x, where 'a = nat] by simp

text \<open>A 64-bit sum split into a limb and a carry.\<close>

lemma low_limb: "unat (ucast (and n 0xffffffff) :: u32) = unat (n :: u64) mod 2 ^ 32"
proof -
  have "and n 0xffffffff = take_bit 32 n"
    by (simp add: take_bit_eq_mask mask_eq_exp_minus_1)
  then show ?thesis
    by (simp only: unsigned_ucast_eq unsigned_take_bit_eq take_bit_take_bit)
      (simp add: take_bit_eq_mod)
qed

lemma high_limb: "unat (drop_bit 32 (n :: u64)) = unat n div 2 ^ 32"
  unfolding unat_drop_bit_eq by (simp add: drop_bit_eq_div)

lemma carry_step: "x mod B + B * ((x div B + Y) mod M) = (x + B * Y) mod (B * M)" for x B Y M :: nat
proof (cases "B = 0")
  case False
  then have "(x + B * Y) div B = x div B + Y" "(x + B * Y) mod B = x mod B"
    by simp_all
  then show ?thesis
    by (simp add: mod_mult2_eq)
qed simp

lemma unat_limb_sum:
  assumes "unat c < 2 ^ 32"
  shows "unat (c + ucast (x :: u32) + ucast (y :: u32) :: u64) = unat c + unat x + unat y"
proof -
  have "unat c + unat x + unat y < 2 ^ 64"
    using assms u32_less[of x] u32_less[of y] by simp
  then show ?thesis
    by (simp add: unat_word_ariths unsigned_ucast_eq take_bit_eq_mod u32_less)
qed

lemma unat_limb_product:
  assumes "unat c < 2 ^ 32"
  shows "unat (c + ucast (p :: u32) + ucast (a :: u32) * ucast (b :: u32) :: u64) = unat c + unat p + unat a * unat b"
proof -
  have "unat a * unat b \<le> (2 ^ 32 - 1) * (2 ^ 32 - 1)"
    using u32_less[of a] u32_less[of b] by (intro mult_mono) auto
  then have "unat c + unat p + unat a * unat b < 2 ^ 64"
    using assms u32_less[of p] by simp
  then show ?thesis
    by (simp add: unat_word_ariths unsigned_ucast_eq take_bit_eq_mod u32_less mod_simps)
qed

lemma add_loop_val:
  assumes "length a = length b" "unat c < 2 ^ 32"
  shows "limbs_val (add_loop c a b) = (unat c + limbs_val a + limbs_val b) mod 2 ^ (32 * length a)"
  using assms
proof (induction c a b rule: add_loop.induct)
  case (1 c x xs y ys)
  let ?n = "c + ucast x + ucast y :: u64"
  have n: "unat ?n = unat c + unat x + unat y"
    using 1 by (intro unat_limb_sum) simp
  moreover have "unat (drop_bit 32 ?n) < 2 ^ 32"
    unfolding high_limb using unsigned_less[of ?n, where 'a = nat] by simp
  ultimately have "limbs_val (add_loop c (x # xs) (y # ys)) = unat ?n mod 2 ^ 32
      + 2 ^ 32 * ((unat ?n div 2 ^ 32 + (limbs_val xs + limbs_val ys)) mod 2 ^ (32 * length xs))"
    using 1 by (simp add: Let_def low_limb high_limb add.assoc del: One_nat_def)
  also have "\<dots> = (unat ?n + 2 ^ 32 * (limbs_val xs + limbs_val ys)) mod 2 ^ (32 * length (x # xs))"
    unfolding carry_step by (simp add: power_add)
  finally show ?case
    unfolding n by (simp add: algebra_simps)
qed auto

lemma add_loop_length [simp]: "length (add_loop c a b) = min (length a) (length b)"
  by (induction c a b rule: add_loop.induct) (simp_all add: Let_def)

lemma mul32_loop_val:
  assumes "unat c < 2 ^ 32"
  shows "limbs_val (mul32_loop b c a) = (unat c + unat b * limbs_val a) mod 2 ^ (32 * length a)"
  using assms
proof (induction b c a rule: mul32_loop.induct)
  case (2 b c x xs)
  let ?n = "c + ucast b * ucast x :: u64"
  have n: "unat ?n = unat c + unat b * unat x"
    using unat_limb_product[of c 0 b x] 2 by simp
  moreover have "unat (drop_bit 32 ?n) < 2 ^ 32"
    unfolding high_limb using unsigned_less[of ?n, where 'a = nat] by simp
  ultimately have "limbs_val (mul32_loop b c (x # xs)) = unat ?n mod 2 ^ 32
      + 2 ^ 32 * ((unat ?n div 2 ^ 32 + unat b * limbs_val xs) mod 2 ^ (32 * length xs))"
    using 2 by (simp add: Let_def low_limb high_limb)
  also have "\<dots> = (unat ?n + 2 ^ 32 * (unat b * limbs_val xs)) mod 2 ^ (32 * length (x # xs))"
    unfolding carry_step by (simp add: power_add)
  finally show ?case
    unfolding n by (simp add: algebra_simps)
qed simp

lemma mul32_loop_length [simp]: "length (mul32_loop b c a) = length a"
  by (induction b c a rule: mul32_loop.induct) (simp_all add: Let_def)

lemma mul_row_val:
  assumes "length p \<le> length b" "unat c < 2 ^ 32"
  shows "limbs_val (mul_row a c p b) = (unat c + limbs_val p + unat a * limbs_val b) mod 2 ^ (32 * length p)"
  using assms
proof (induction a c p b rule: mul_row.induct)
  case (1 a c x xs y ys)
  let ?n = "c + ucast x + ucast a * ucast y :: u64"
  have n: "unat ?n = unat c + unat x + unat a * unat y"
    using 1 by (intro unat_limb_product) simp
  moreover have "unat (drop_bit 32 ?n) < 2 ^ 32"
    unfolding high_limb using unsigned_less[of ?n, where 'a = nat] by simp
  ultimately have "limbs_val (mul_row a c (x # xs) (y # ys)) = unat ?n mod 2 ^ 32
      + 2 ^ 32 * ((unat ?n div 2 ^ 32 + (limbs_val xs + unat a * limbs_val ys)) mod 2 ^ (32 * length xs))"
    using 1 by (simp add: Let_def low_limb high_limb add.assoc)
  also have "\<dots> = (unat ?n + 2 ^ 32 * (limbs_val xs + unat a * limbs_val ys)) mod 2 ^ (32 * length (x # xs))"
    unfolding carry_step by (simp add: power_add)
  finally show ?case
    unfolding n by (simp add: algebra_simps)
qed auto

lemma mul_row_length [simp]: "length (mul_row a c p b) = min (length p) (length b)"
  by (induction a c p b rule: mul_row.induct) (simp_all add: Let_def)

lemma mul_rows_length [simp]: "length p = length b \<Longrightarrow> length (mul_rows j xs b p) = length p"
  by (induction j xs b p rule: mul_rows.induct) simp_all

lemma shifted_mod: "x + 2 ^ k * (y mod 2 ^ m) = (x + 2 ^ k * y) mod 2 ^ (k + m)" if "x < 2 ^ k" for x y :: nat
  using carry_step[of x "2 ^ k" y "2 ^ m"] that by (simp add: power_add)

lemma mul_rows_val:
  assumes "length p = length b" "j + length xs \<le> length b"
  shows "limbs_val (mul_rows j xs b p)
    = (limbs_val p + 2 ^ (32 * j) * limbs_val xs * limbs_val b) mod 2 ^ (32 * length b)"
  using assms
proof (induction j xs b p rule: mul_rows.induct)
  case (1 j b p)
  then show ?case
    using limbs_val_less[of p] by simp
next
  case (2 j x xs b p)
  let ?q = "take j p @ mul_row x 0 (drop j p) b"
  have lo: "limbs_val (take j p) < 2 ^ (32 * j)"
    using limbs_val_less[of "take j p"] 2 by simp
  have p: "limbs_val p = limbs_val (take j p) + 2 ^ (32 * j) * limbs_val (drop j p)"
    using limbs_val_append[of "take j p" "drop j p"] 2 by simp
  have "limbs_val ?q = limbs_val (take j p)
      + 2 ^ (32 * j) * ((limbs_val (drop j p) + unat x * limbs_val b) mod 2 ^ (32 * (length b - j)))"
    using 2 by (simp add: limbs_val_append mul_row_val)
  also have "\<dots> = (limbs_val p + 2 ^ (32 * j) * unat x * limbs_val b) mod 2 ^ (32 * length b)"
    using 2 lo by (simp add: shifted_mod p algebra_simps flip: power_add)
  finally have q: "limbs_val ?q = \<dots>" .
  have "limbs_val (mul_rows j (x # xs) b p)
      = (limbs_val ?q + 2 ^ (32 * Suc j) * limbs_val xs * limbs_val b) mod 2 ^ (32 * length b)"
    using 2 by simp
  also have "\<dots> = (limbs_val p + 2 ^ (32 * j) * unat x * limbs_val b
      + 2 ^ (32 * Suc j) * limbs_val xs * limbs_val b) mod 2 ^ (32 * length b)"
    unfolding q by (rule mod_add_left_eq)
  finally show ?case
    by (simp add: algebra_simps power_add)
qed

lemma limbs_compl_val: "limbs_val (limbs_compl a) + limbs_val a + 1 = 2 ^ (32 * length a)"
proof (induction a)
  case (Cons x a)
  have "unat (not x) + unat x + 1 = 2 ^ 32"
    using u32_less[of x] by (simp add: not_eq_complement unat_sub word_order.extremum unsigned_minus_1_eq_mask mask_eq_exp_minus_1 flip: minus_diff_commute)
  then have "limbs_val (limbs_compl (x # a)) + limbs_val (x # a) + 1
      = 2 ^ 32 * (limbs_val (limbs_compl a) + limbs_val a + 1)"
    by (simp add: limbs_compl_def algebra_simps)
  then show ?case
    unfolding Cons by (simp add: power_add)
qed (simp add: limbs_compl_def)

lemma limbs_inc_val: "limbs_val (limbs_inc a) = (limbs_val a + 1) mod 2 ^ (32 * length a)"
proof (induction a)
  case (Cons x a)
  have x: "unat (x + 1) = (unat x + 1) mod 2 ^ 32"
    by (simp add: unat_word_ariths)
  have "limbs_val (limbs_inc (x # a))
      = (unat x + 1) mod 2 ^ 32 + 2 ^ 32 * (((unat x + 1) div 2 ^ 32 + limbs_val a) mod 2 ^ (32 * length a))"
  proof (cases "x + 1 = 0")
    case True
    with x have "unat x + 1 = 2 ^ 32"
      using u32_less[of x] by (metis Suc_eq_plus1 Suc_leI le_neq_implies_less mod_less nat.simps(3) unsigned_0)
    then show ?thesis
      using True Cons by (simp add: add.commute)
  next
    case False
    with x have "unat x + 1 < 2 ^ 32"
      using u32_less[of x] by (metis Suc_eq_plus1 Suc_leI le_neq_implies_less mod_self unat_eq_zero)
    then show ?thesis
      using False x limbs_val_less[of a] by simp
  qed
  also have "\<dots> = (unat x + 1 + 2 ^ 32 * limbs_val a) mod 2 ^ (32 * length (x # a))"
    unfolding carry_step by (simp add: power_add)
  finally show ?case
    by (simp add: algebra_simps)
qed simp

lemma compare_loop_val:
  "length a = length b \<Longrightarrow>
   compare_loop a b = (if limbs_val (rev a) < limbs_val (rev b) then -1
                       else if limbs_val (rev a) > limbs_val (rev b) then 1 else 0)"
proof (induction a b rule: compare_loop.induct)
  case (1 x xs y ys)
  have lt: "limbs_val (rev (x # xs)) < limbs_val (rev (y # ys))"
    if "unat x < unat y" "length xs = length ys" for x y xs ys
  proof -
    have "limbs_val (rev (x # xs)) < 2 ^ (32 * length xs) * (unat x + 1)"
      using limbs_val_less[of "rev xs"] by (simp add: limbs_val_append)
    also have "\<dots> \<le> 2 ^ (32 * length xs) * unat y"
      using that by (intro mult_le_mono2) simp
    also have "\<dots> \<le> limbs_val (rev (y # ys))"
      using that by (simp add: limbs_val_append)
    finally show ?thesis .
  qed
  consider "unat x < unat y" | "unat y < unat x" | "x = y"
    by (metis linorder_neqE_nat word_unat_eq_iff)
  then show ?case
  proof cases
    case 1
    then show ?thesis
      using lt[OF 1, of xs ys] "1.prems" by (simp add: word_less_nat_alt del: rev.simps)
  next
    case 2
    then show ?thesis
      using lt[OF 2, of ys xs] "1.prems" by (simp add: word_less_nat_alt del: rev.simps)
  next
    case 3
    then show ?thesis
      using 1 by (simp add: limbs_val_append)
  qed
qed auto

text \<open>The bits of a number are the bits of its limbs, which gives the shifts.\<close>

lemma bit_split: "bit (x + 2 ^ k * v) n \<longleftrightarrow> (if n < k then bit x n else bit v (n - k))"
  if "x < 2 ^ k" for x v :: nat
proof -
  have "take_bit k (x + 2 ^ k * v) = x" "drop_bit k (x + 2 ^ k * v) = v"
    using that by (simp_all add: take_bit_eq_mod drop_bit_eq_div)
  then have "bit x n \<longleftrightarrow> n < k \<and> bit (x + 2 ^ k * v) n" "bit v (n - k) \<longleftrightarrow> bit (x + 2 ^ k * v) (k + (n - k))"
    by (metis bit_take_bit_iff, metis bit_drop_bit_eq comp_apply)
  then show ?thesis
    by auto
qed

lemma limb_at_Cons: "limb_at (x # a) i = (if i = 0 then x else limb_at a (i - 1))"
  by (auto simp: limb_at_def nth_Cons' nat_diff_distrib)

lemma limbs_val_bit: "bit (limbs_val a) n \<longleftrightarrow> bit (limb_at a (int (n div 32))) (n mod 32)"
proof (induction a arbitrary: n)
  case Nil
  then show ?case
    by (simp add: limb_at_def)
next
  case (Cons x a)
  have "n div 32 = Suc ((n - 32) div 32)" "n mod 32 = (n - 32) mod 32" if "\<not> n < 32"
    using that by (simp_all add: le_div_geq le_mod_geq)
  then show ?case
    using bit_split[OF u32_less[of x], of "limbs_val a" n] Cons[of "n - 32"]
    by (auto simp: limb_at_Cons bit_unsigned_iff)
qed

lemma bit_limb: "bit (limb_at a i) m \<longleftrightarrow> 0 \<le> i \<and> m < 32 \<and> bit (limbs_val a) (32 * nat i + m)"
proof (cases "0 \<le> i \<and> m < 32")
  case True
  then have "(32 * nat i + m) div 32 = nat i" "(32 * nat i + m) mod 32 = m"
    by simp_all
  then show ?thesis
    using True by (simp add: limbs_val_bit)
next
  case False
  then show ?thesis
    using bit_imp_le_length[of "limb_at a i" m] by (auto simp: limb_at_def)
qed

lemma limb_at_map: "limb_at (map f [0..<n]) i = (if 0 \<le> i \<and> i < int n then f (nat i) else 0)"
  by (auto simp: limb_at_def nat_less_iff)

lemma shl_bit: "bit (limbs_val (limbs_shl a s)) n \<longleftrightarrow> n < 32 * length a \<and> s \<le> n \<and> bit (limbs_val a) (n - s)"
proof -
  define i m where "i = n div 32" and "m = n mod 32"
  then have n: "n = 32 * i + m" "m < 32"
    by simp_all
  define k r where "k = s div 32" and "r = s mod 32"
  then have s: "s = 32 * k + r" "r < 32"
    by simp_all
  have len: "n < 32 * length a \<longleftrightarrow> i < length a"
    using n by linarith
  have bits: "bit (limbs_val (limbs_shl a s)) n \<longleftrightarrow> i < length a \<and>
      (r \<noteq> 0 \<and> 32 - r + m < 32 \<and> k < i \<and> bit (limbs_val a) (32 * nat (int i - int k - 1) + (32 - r + m)) \<or>
       r \<le> m \<and> k \<le> i \<and> bit (limbs_val a) (32 * nat (int i - int k) + (m - r)))"
    using n(2) unfolding limbs_val_bit[of "limbs_shl a s"]
    by (auto simp: limbs_shl_def limb_at_map bit_limb bit_simps Let_def simp flip: i_def m_def k_def r_def)
  show ?thesis
  proof (cases "r \<le> m")
    case True
    then have "s \<le> n \<longleftrightarrow> k \<le> i" "k \<le> i \<Longrightarrow> 32 * nat (int i - int k) + (m - r) = n - s"
      using n s by linarith+
    then show ?thesis
      using True n s unfolding bits len by auto
  next
    case False
    then have "s \<le> n \<longleftrightarrow> k < i" "k < i \<Longrightarrow> 32 * nat (int i - int k - 1) + (32 - r + m) = n - s"
      using n s by linarith+
    then show ?thesis
      using False n s unfolding bits len by auto
  qed
qed

lemma shr_bit: "bit (limbs_val (limbs_shr a s)) n \<longleftrightarrow> n < 32 * length a \<and> bit (limbs_val a) (n + s)"
proof -
  define i m where "i = n div 32" and "m = n mod 32"
  then have n: "n = 32 * i + m" "m < 32"
    by simp_all
  define k r where "k = s div 32" and "r = s mod 32"
  then have s: "s = 32 * k + r" "r < 32"
    by simp_all
  have len: "n < 32 * length a \<longleftrightarrow> i < length a"
    using n by linarith
  have bits: "bit (limbs_val (limbs_shr a s)) n \<longleftrightarrow> i < length a \<and>
      (r \<noteq> 0 \<and> 32 - r \<le> m \<and> bit (limbs_val a) (32 * nat (int i + int k + 1) + (m - (32 - r))) \<or>
       m + r < 32 \<and> bit (limbs_val a) (32 * nat (int i + int k) + (m + r)))"
    using n(2) unfolding limbs_val_bit[of "limbs_shr a s"]
    by (auto simp: limbs_shr_def limb_at_map bit_limb bit_simps Let_def add.commute simp flip: i_def m_def k_def r_def)
  show ?thesis
  proof (cases "m + r < 32")
    case True
    then have "32 * nat (int i + int k) + (m + r) = n + s" "\<not> 32 - r \<le> m"
      using n s by linarith+
    then show ?thesis
      using True unfolding bits len by (simp only: simp_thms)
  next
    case False
    then have "32 * nat (int i + int k + 1) + (m - (32 - r)) = n + s" "32 - r \<le> m" "r \<noteq> 0"
      using n s by linarith+
    then show ?thesis
      using False unfolding bits len by (simp only: simp_thms)
  qed
qed

lemma limbs_shl_val: "limbs_val (limbs_shl a s) = (limbs_val a * 2 ^ s) mod 2 ^ (32 * length a)"
proof -
  have "limbs_val (limbs_shl a s) = take_bit (32 * length a) (push_bit s (limbs_val a))"
    by (rule bit_eqI) (auto simp: shl_bit bit_simps)
  then show ?thesis
    by (simp add: take_bit_eq_mod push_bit_eq_mult)
qed

lemma limbs_shr_val: "limbs_val (limbs_shr a s) = limbs_val a div 2 ^ s"
proof -
  have "n + s < 32 * length a" if "bit (limbs_val a) (n + s)" for n
    using limbs_val_less[of a] that by (metis bit_take_bit_iff take_bit_nat_eq_self)
  then have "limbs_val (limbs_shr a s) = drop_bit s (limbs_val a)"
    by (intro bit_eqI) (auto simp: shr_bit bit_simps add.commute intro: add_lessD1)
  then show ?thesis
    by (simp add: drop_bit_eq_div)
qed

text \<open>The number of bits.\<close>

lemma top_bit: "bit r n \<longleftrightarrow> 2 ^ n \<le> r" if "r < 2 ^ Suc n" for r :: nat
proof -
  have "r div 2 ^ n < 2"
    using that by (simp add: div_less_iff_less_mult mult.commute)
  then have "odd (r div 2 ^ n) \<longleftrightarrow> 0 < r div 2 ^ n"
    by (auto simp: less_2_cases_iff)
  then show ?thesis
    by (simp only: bit_iff_odd div_greater_zero_iff) simp
qed

lemma nbits_loop_bounds:
  assumes "x \<noteq> 0" "unat x < 2 ^ (Suc n)" "n < 32"
  shows "2 ^ (nbits_loop x n - 1) \<le> unat x \<and> unat x < 2 ^ nbits_loop x n \<and> 0 < nbits_loop x n \<and> nbits_loop x n \<le> Suc n"
  using assms
proof (induction n)
  case 0
  then show ?case
    by (simp add: unat_gt_0 Suc_leI)
next
  case (Suc n)
  have b: "and x (push_bit (Suc n) 1) \<noteq> 0 \<longleftrightarrow> bit (unat x) (Suc n)"
    unfolding bit_unsigned_iff by (simp only: bit_iff_and_push_bit_not_eq_0 possible_bit_nat simp_thms)
  have "bit (unat x) (Suc n) \<longleftrightarrow> 2 ^ Suc n \<le> unat x"
    using Suc.prems by (intro top_bit) simp
  then show ?case
    using Suc b by (auto simp del: push_bit_Suc)
qed

lemma limbs_bits_bounds:
  "if limbs_val a = 0 then limbs_bits a = 0
   else 0 < limbs_bits a \<and> 2 ^ (limbs_bits a - 1) \<le> limbs_val a \<and> limbs_val a < 2 ^ limbs_bits a \<and> limbs_bits a \<le> 32 * length a"
proof (induction a rule: rev_induct)
  case (snoc x a)
  show ?case
  proof (cases "x = 0")
    case True
    then show ?thesis
      using snoc by (auto simp: limbs_bits_def limbs_val_append)
  next
    case False
    let ?b = "nbits_loop x 31" and ?L = "32 * length a"
    have b: "2 ^ (?b - 1) \<le> unat x" "unat x < 2 ^ ?b" "0 < ?b" "?b \<le> 32"
      using nbits_loop_bounds[of x 31] False u32_less[of x] by simp_all
    have v: "limbs_val (a @ [x]) = limbs_val a + 2 ^ ?L * unat x" "limbs_bits (a @ [x]) = ?L + ?b"
      using False by (simp_all add: limbs_bits_def limbs_val_append)
    have "2 ^ (?L + ?b - 1) \<le> limbs_val (a @ [x])"
    proof -
      have "(2 :: nat) ^ (?L + ?b - 1) = 2 ^ ?L * 2 ^ (?b - 1)"
        using b by (simp flip: power_add)
      then show ?thesis
        unfolding v using b by (simp add: trans_le_add2)
    qed
    moreover have "limbs_val (a @ [x]) < 2 ^ (?L + ?b)"
    proof -
      have "limbs_val (a @ [x]) < 2 ^ ?L * (unat x + 1)"
        unfolding v using limbs_val_less[of a] by simp
      also have "\<dots> \<le> 2 ^ ?L * 2 ^ ?b"
        using b by (intro mult_le_mono2) simp
      finally show ?thesis
        by (simp add: power_add)
    qed
    moreover have "limbs_val (a @ [x]) \<noteq> 0"
      using False by (simp add: v unat_eq_0)
    ultimately show ?thesis
      using b v by simp
  qed
qed (simp add: limbs_bits_def)

text \<open>The operations keep the width.\<close>

lemma limbs_compl_length [simp]: "length (limbs_compl a) = length a"
  by (simp add: limbs_compl_def)

lemma limbs_inc_length [simp]: "length (limbs_inc a) = length a"
  by (induction a) simp_all

lemma limbs_neg_length [simp]: "length (limbs_neg a) = length a"
  by (simp add: limbs_neg_def)

lemma limbs_shl_length [simp]: "length (limbs_shl a s) = length a"
  by (simp add: limbs_shl_def Let_def)

lemma limbs_shr_length [simp]: "length (limbs_shr a s) = length a"
  by (simp add: limbs_shr_def Let_def)

lemma limbs_sub_length [simp]: "length a = length b \<Longrightarrow> length (limbs_sub a b) = length a"
  by (simp add: limbs_sub_def limbs_add_def)

lemma limbs_neg_val: "limbs_val (limbs_neg a) = (2 ^ (32 * length a) - limbs_val a) mod 2 ^ (32 * length a)"
proof -
  have "limbs_val (limbs_compl a) + 1 = 2 ^ (32 * length a) - limbs_val a"
    using limbs_compl_val[of a] by simp
  then show ?thesis
    by (simp only: limbs_neg_def limbs_inc_val limbs_compl_length)
qed

lemma limbs_sub_val:
  assumes "length a = length b"
  shows "limbs_val (limbs_sub a b) = (limbs_val a + (2 ^ (32 * length a) - limbs_val b)) mod 2 ^ (32 * length a)"
  using assms by (simp add: limbs_sub_def limbs_add_def add_loop_val limbs_neg_val mod_add_right_eq)

lemma limbs_sub_exact:
  assumes "length a = length b" "limbs_val b \<le> limbs_val a"
  shows "limbs_val (limbs_sub a b) = limbs_val a - limbs_val b"
proof -
  have "limbs_val a + (2 ^ (32 * length a) - limbs_val b) = 2 ^ (32 * length a) + (limbs_val a - limbs_val b)"
    using assms limbs_val_less[of b] by simp
  then show ?thesis
    unfolding limbs_sub_val[OF assms(1)] using limbs_val_less[of a]
    by (simp only: mod_add_self1) (simp add: less_imp_diff_less)
qed

lemma CompareTo_val:
  "length a = length b \<Longrightarrow> CompareTo a b =
    (if limbs_val a < limbs_val b then -1 else if limbs_val a > limbs_val b then 1 else 0)"
  by (simp add: CompareTo_def compare_loop_val)

lemma set_bit_val:
  assumes "2 ^ Suc s dvd limbs_val q" "s div 32 < length q"
  shows "limbs_val (q[s div 32 := or (q ! (s div 32)) (push_bit (s mod 32) 1)]) = limbs_val q + 2 ^ s"
proof -
  have l: "limb_at (q[s div 32 := x]) (int i) = (if i = s div 32 then x else limb_at q (int i))" for x i
    using assms by (auto simp: limb_at_def)
  have q: "q ! (s div 32) = limb_at q (int (s div 32))"
    using assms by (simp add: limb_at_def)
  have "limbs_val (q[s div 32 := or (q ! (s div 32)) (push_bit (s mod 32) 1)]) = or (limbs_val q) (2 ^ s)"
    by (rule bit_eqI) (auto simp: limbs_val_bit l q bit_simps, metis div_mult_mod_eq)
  also have "\<dots> = limbs_val q + 2 ^ s"
  proof -
    obtain k where "limbs_val q = 2 ^ Suc s * k"
      using assms by auto
    then have "\<not> bit (limbs_val q) s"
      by (simp add: bit_iff_odd)
    then show ?thesis
      by (intro disjunctive_add[symmetric]) (auto simp: bit_simps)
  qed
  finally show ?thesis .
qed

lemma div_loop_val:
  assumes "length num = WIDTH" "length dv = WIDTH" "length q = WIDTH"
    and "limbs_val dv = D * 2 ^ s" "limbs_val num < 2 * (D * 2 ^ s)"
    and "2 ^ Suc s dvd limbs_val q" "s < 32 * WIDTH"
  shows "limbs_val (div_loop s num dv q) = limbs_val q + limbs_val num div D \<and> length (div_loop s num dv q) = WIDTH"
  using assms
proof (induction s arbitrary: num dv q)
  case 0
  then have D: "D > 0" "limbs_val dv = D"
    by (simp_all add: gr_zeroI)
  have "limbs_val num div D = 1" if "D \<le> limbs_val num"
    using 0 that by (simp add: div_nat_eqI)
  then show ?case
    using 0 D set_bit_val[of 0 q] by (simp add: div_loop.simps CompareTo_val WIDTH_def Let_def)
next
  case (Suc s)
  define ge where "ge \<longleftrightarrow> limbs_val dv \<le> limbs_val num"
  define num' where "num' = (if ge then limbs_sub num dv else num)"
  define q' where "q' = (if ge then q[Suc s div 32 := or (q ! (Suc s div 32)) (push_bit (Suc s mod 32) 1)] else q)"
  have step: "div_loop (Suc s) num dv q = div_loop s num' (limbs_shr dv 1) q'"
    using Suc.prems by (simp add: div_loop.simps[of "Suc s"] CompareTo_val num'_def q'_def ge_def Let_def)
  have D: "D > 0"
    using Suc.prems by (cases D) auto
  have num': "limbs_val num' = limbs_val num - (if ge then D * 2 ^ Suc s else 0)" "length num' = WIDTH"
    using Suc.prems by (simp_all add: num'_def limbs_sub_exact ge_def)
  have q': "limbs_val q' = limbs_val q + (if ge then 2 ^ Suc s else 0)" "length q' = WIDTH"
    using Suc.prems set_bit_val[of "Suc s" q] by (simp_all add: q'_def WIDTH_def div_less_iff_less_mult)
  have "limbs_val (div_loop s num' (limbs_shr dv 1) q') = limbs_val q' + limbs_val num' div D \<and>
      length (div_loop s num' (limbs_shr dv 1) q') = WIDTH"
  proof (rule Suc.IH)
    show "limbs_val (limbs_shr dv 1) = D * 2 ^ s"
      using Suc.prems by (simp add: limbs_shr_val)
    show "limbs_val num' < 2 * (D * 2 ^ s)"
      using Suc.prems num' by (auto simp: ge_def)
    show "2 ^ Suc s dvd limbs_val q'"
      using Suc.prems q' by (auto intro: dvd_mult_right)
  qed (use Suc.prems num' q' in simp_all)
  moreover have "limbs_val num' div D + (if ge then 2 ^ Suc s else 0) = limbs_val num div D"
  proof (cases ge)
    case True
    then have "limbs_val num = limbs_val num' + D * 2 ^ Suc s"
      using num' Suc.prems by (simp add: ge_def)
    then show ?thesis
      using True D by simp
  qed (use num' in simp)
  ultimately show ?case
    unfolding step using q' by simp
qed

lemma limbs_div_val:
  assumes "wf_limbs a" "wf_limbs b"
  shows "limbs_div a b = None \<longleftrightarrow> limbs_val b = 0"
    and "limbs_div a b = Some q \<Longrightarrow> wf_limbs q \<and> limbs_val q = limbs_val a div limbs_val b"
proof -
  let ?nb = "limbs_bits a" and ?db = "limbs_bits b"
  show "limbs_div a b = None \<longleftrightarrow> limbs_val b = 0"
    using limbs_bits_bounds[of b] by (auto simp: limbs_div_def Let_def split: if_splits)
  assume q: "limbs_div a b = Some q"
  then have b: "0 < ?db" "2 ^ (?db - 1) \<le> limbs_val b" "limbs_val b < 2 ^ ?db"
    using limbs_bits_bounds[of b] by (auto simp: limbs_div_def Let_def split: if_splits)
  have a: "limbs_val a < 2 ^ ?nb" "?nb \<le> 256"
    using limbs_bits_bounds[of a] assms by (auto simp: wf_limbs_def WIDTH_def split: if_splits)
  show "wf_limbs q \<and> limbs_val q = limbs_val a div limbs_val b"
  proof (cases "?db > ?nb")
    case True
    then have "(2 :: nat) ^ ?nb \<le> 2 ^ (?db - 1)"
      by (intro power_increasing) simp_all
    then have "limbs_val a < limbs_val b"
      using a b by linarith
    then show ?thesis
      using q b True by (auto simp: limbs_div_def Let_def wf_limbs_def)
  next
    case False
    let ?s = "?nb - ?db"
    have s: "limbs_val b * 2 ^ ?s < 2 ^ 256"
    proof -
      have "limbs_val b * 2 ^ ?s < 2 ^ ?db * 2 ^ ?s"
        using b by simp
      also have "\<dots> = 2 ^ ?nb"
        using False by (simp flip: power_add)
      also have "\<dots> \<le> 2 ^ 256"
        using a by (intro power_increasing) simp_all
      finally show ?thesis .
    qed
    have "limbs_val a < 2 * (limbs_val b * 2 ^ ?s)"
    proof -
      have "(2 :: nat) ^ ?nb = 2 * (2 ^ (?db - 1) * 2 ^ ?s)"
        using b False by (simp flip: power_add power_Suc)
      also have "\<dots> \<le> 2 * (limbs_val b * 2 ^ ?s)"
        using b by simp
      finally show ?thesis
        using a by simp
    qed
    then show ?thesis
      using div_loop_val[of a "limbs_shl b ?s" "replicate WIDTH 0" "limbs_val b" ?s] q a b False s assms
      by (simp add: limbs_div_def Let_def wf_limbs_def limbs_shl_val WIDTH_def)
  qed
qed

section \<open>What the compact form denotes\<close>

lemma of_uint64_val: "limbs_val (of_uint64 b) = unat b"
proof -
  have "unat (ucast b :: u32) = unat b mod 2 ^ 32"
    by (simp add: unsigned_ucast_eq take_bit_eq_mod)
  moreover have "unat (ucast (drop_bit 32 b) :: u32) = unat b div 2 ^ 32"
    using high_limb[of b] unsigned_less[of b, where 'a = nat]
    by (simp add: unsigned_ucast_eq take_bit_eq_mod)
  ultimately show ?thesis
    by (simp add: of_uint64_def)
qed

lemma of_uint64_wf: "wf_limbs (of_uint64 b)"
  by (simp add: of_uint64_def wf_limbs_def WIDTH_def)

lemma mask_23: "mask 23 = (0x007fffff :: u32)"
  by (simp add: mask_eq_exp_minus_1)

lemma mantissa_less: "unat (and c 0x007fffff :: u32) < 2 ^ 23"
proof -
  have "and c 0x007fffff = take_bit 23 c"
    by (simp add: take_bit_eq_mask mask_23)
  then show ?thesis
    by (simp only: unsigned_take_bit_eq take_bit_nat_less_exp)
qed

lemma compact_overflow:
  assumes "w < 2 ^ 23"
  shows "(w \<noteq> 0 \<and> (nSize > 34 \<or> w > 0xff \<and> nSize > 33 \<or> w > 0xffff \<and> nSize > 32)) \<longleftrightarrow> w * 256 ^ (nSize - 3) \<ge> (2 :: nat) ^ 256"
proof -
  have e: "w * 256 ^ (nSize - 3) \<ge> (2 :: nat) ^ 256 \<longleftrightarrow> w \<ge> 2 ^ (256 - 8 * (nSize - 3))" if "nSize - 3 \<le> 32"
  proof -
    have "(256 :: nat) ^ (nSize - 3) = 2 ^ (8 * (nSize - 3))"
      by (simp add: power_mult)
    moreover have "(2 :: nat) ^ 256 = 2 ^ (256 - 8 * (nSize - 3)) * 2 ^ (8 * (nSize - 3))"
      using that unfolding power_add[symmetric] by simp
    ultimately show ?thesis
      by (simp only: mult_le_cancel2) simp
  qed
  consider "nSize > 34" | "nSize = 34" | "nSize = 33" | "nSize \<le> 32"
    by linarith
  then show ?thesis
  proof cases
    case 1
    have "(2 :: nat) ^ 256 = 256 ^ 32"
      by simp
    also have "\<dots> \<le> 256 ^ (nSize - 3)"
      using 1 by (intro power_increasing) simp_all
    also have "\<dots> \<le> w * 256 ^ (nSize - 3)" if "w \<noteq> 0"
      using that by simp
    finally show ?thesis
      using 1 by (cases "w = 0") simp_all
  next
    case 2
    then show ?thesis
      using e by auto
  next
    case 3
    then show ?thesis
      using e by auto
  next
    case 4
    then have "(2 :: nat) ^ 24 \<le> 2 ^ (256 - 8 * (nSize - 3))"
      by (intro power_increasing) simp_all
    then show ?thesis
      using e assms 4 by auto
  qed
qed

lemma SetCompact_val:
  fixes c :: u32
  defines "nSize \<equiv> unat (drop_bit 24 c)" and "w \<equiv> unat (and c 0x007fffff)"
  assumes "SetCompact c = (a, neg, over)"
  shows "wf_limbs a"
    and "limbs_val a = (if nSize \<le> 3 then w div 256 ^ (3 - nSize) else w * 256 ^ (nSize - 3) mod 2 ^ 256)"
    and "over \<longleftrightarrow> nSize > 3 \<and> w * 256 ^ (nSize - 3) \<ge> 2 ^ 256"
    and "neg \<longleftrightarrow> bit c 23 \<and> (if nSize \<le> 3 then w div 256 ^ (3 - nSize) else w) \<noteq> 0"
proof -
  have w: "w < 2 ^ 23"
    unfolding w_def by (rule mantissa_less)
  define wd where "wd = (if nSize \<le> 3 then drop_bit (8 * (3 - nSize)) (and c 0x007fffff) else and c 0x007fffff)"
  have wd: "unat wd = (if nSize \<le> 3 then w div 256 ^ (3 - nSize) else w)"
    unfolding wd_def w_def if_distrib[of unat] unat_drop_bit_eq by (simp add: drop_bit_eq_div power_mult)
  have a: "a = (if nSize \<le> 3 then of_uint64 (ucast wd) else limbs_shl (of_uint64 (ucast wd)) (8 * (nSize - 3)))"
    and neg: "neg \<longleftrightarrow> wd \<noteq> 0 \<and> and c 0x00800000 \<noteq> 0"
    and over: "over \<longleftrightarrow> wd \<noteq> 0 \<and> (nSize > 34 \<or> wd > 0xff \<and> nSize > 33 \<or> wd > 0xffff \<and> nSize > 32)"
    using assms(3) unfolding SetCompact_def Let_def nSize_def[symmetric] wd_def by auto
  show "wf_limbs a"
    using of_uint64_wf[of "ucast wd"] by (simp add: a wf_limbs_def)
  have "unat (ucast wd :: u64) = unat wd"
    using u32_less[of wd] by (simp add: unsigned_ucast_eq take_bit_eq_mod)
  then show "limbs_val a = (if nSize \<le> 3 then w div 256 ^ (3 - nSize) else w * 256 ^ (nSize - 3) mod 2 ^ 256)"
    using of_uint64_wf[of "ucast wd"]
    by (simp add: a wd of_uint64_val limbs_shl_val power_mult wf_limbs_def WIDTH_def)
  show "neg \<longleftrightarrow> bit c 23 \<and> (if nSize \<le> 3 then w div 256 ^ (3 - nSize) else w) \<noteq> 0"
    unfolding neg wd[symmetric] by (auto simp: unat_eq_0 bit_iff_and_push_bit_not_eq_0)
  show "over \<longleftrightarrow> nSize > 3 \<and> w * 256 ^ (nSize - 3) \<ge> 2 ^ 256"
  proof (cases "nSize \<le> 3")
    case False
    then have "over \<longleftrightarrow> w \<noteq> 0 \<and> (nSize > 34 \<or> w > 0xff \<and> nSize > 33 \<or> w > 0xffff \<and> nSize > 32)"
      unfolding over word_less_nat_alt using wd by (auto simp: unat_eq_0[symmetric])
    then show ?thesis
      unfolding compact_overflow[OF w] using False by simp
  qed (simp add: over)
qed

text \<open>The encoder: \<open>compact_size\<close> and \<open>compact_mantissa\<close> describe the two fields that it writes.\<close>

definition compact_raw :: "nat \<Rightarrow> nat \<Rightarrow> nat" where
  "compact_raw N S = (if S \<le> 3 then N * 256 ^ (3 - S) else N div 256 ^ (S - 3))"

definition compact_size :: "nat \<Rightarrow> nat \<Rightarrow> nat" where
  "compact_size N S = (if bit (compact_raw N S) 23 then S + 1 else S)"

definition compact_mantissa :: "nat \<Rightarrow> nat \<Rightarrow> nat" where
  "compact_mantissa N S = (if bit (compact_raw N S) 23 then compact_raw N S div 256 else compact_raw N S)"

lemma GetLow64_val:
  assumes "wf_limbs a"
  shows "unat (GetLow64 a) = limbs_val a mod 2 ^ 64"
proof -
  obtain x y r where a: "a = x # y # r"
    using assms by (auto simp: wf_limbs_def WIDTH_def length_Suc_conv numeral_eq_Suc)
  have "unat (GetLow64 a) = or (unat x) (push_bit 32 (unat y))"
    by (rule bit_eqI)
      (auto simp: GetLow64_def a unsigned_or_eq bit_simps bit_unsigned_iff dest: bit_imp_le_length)
  also have "\<dots> = unat x + push_bit 32 (unat y)"
    by (intro disjunctive_add[symmetric]) (auto simp: bit_simps bit_unsigned_iff dest: bit_imp_le_length)
  also have "\<dots> = limbs_val a mod 2 ^ 64"
  proof -
    have "limbs_val a = unat x + 2 ^ 32 * unat y + 2 ^ 64 * limbs_val r"
      by (simp add: a algebra_simps)
    moreover have "unat x + 2 ^ 32 * unat y < 2 ^ 64"
      using u32_less[of x] u32_less[of y] by simp
    ultimately show ?thesis
      by (simp add: push_bit_eq_mult mult.commute)
  qed
  finally show ?thesis .
qed

lemma compact_raw_less:
  assumes "N < 2 ^ B" "S = (B + 7) div 8"
  shows "compact_raw N S < 2 ^ 24"
proof -
  have "(2 :: nat) ^ B \<le> 2 ^ (8 * S)"
    using assms by (intro power_increasing) simp_all
  then have N: "N < 256 ^ S"
    using assms by (simp add: power_mult)
  show ?thesis
  proof (cases "S \<le> 3")
    case True
    have "N * 256 ^ (3 - S) < 256 ^ S * 256 ^ (3 - S)"
      using N by simp
    then show ?thesis
      using True by (simp add: compact_raw_def flip: power_add)
  next
    case False
    then have "(256 :: nat) ^ S = 256 ^ 3 * 256 ^ (S - 3)"
      by (simp only: power_add[symmetric]) simp
    then show ?thesis
      using False N by (simp add: compact_raw_def div_less_iff_less_mult)
  qed
qed

lemma raw_word:
  assumes "wf_limbs a" "S = (limbs_bits a + 7) div 8"
  shows "unat (if S \<le> 3 then ucast (push_bit (8 * (3 - S)) (GetLow64 a)) else ucast (GetLow64 (limbs_shr a (8 * (S - 3)))) :: u32)
    = compact_raw (limbs_val a) S"
proof -
  have N: "limbs_val a < 2 ^ limbs_bits a"
    using limbs_bits_bounds[of a] by (auto split: if_splits)
  have r: "compact_raw (limbs_val a) S < 2 ^ 24"
    using compact_raw_less[OF N assms(2)] .
  show ?thesis
  proof (cases "S \<le> 3")
    case True
    have "limbs_val a \<le> compact_raw (limbs_val a) S"
      using True by (simp add: compact_raw_def)
    then have "unat (GetLow64 a) = limbs_val a"
      using r by (simp add: GetLow64_val[OF assms(1)])
    then have "unat (push_bit (8 * (3 - S)) (GetLow64 a)) = compact_raw (limbs_val a) S"
      using True r unfolding unsigned_push_bit_eq
      by (simp add: compact_raw_def push_bit_eq_mult take_bit_eq_mod power_mult)
    then show ?thesis
      using True r by (simp only: if_True unsigned_ucast_eq) (simp add: take_bit_eq_mod)
  next
    case False
    have "wf_limbs (limbs_shr a (8 * (S - 3)))"
      using assms by (simp add: wf_limbs_def)
    then have "unat (GetLow64 (limbs_shr a (8 * (S - 3)))) = compact_raw (limbs_val a) S"
      using False r by (simp add: GetLow64_val limbs_shr_val compact_raw_def power_mult)
    then show ?thesis
      using False r by (simp add: unsigned_ucast_eq take_bit_eq_mod)
  qed
qed

lemma compact_mantissa_less:
  assumes "compact_raw N S < 2 ^ 24"
  shows "compact_mantissa N S < 2 ^ 23"
proof (cases "bit (compact_raw N S) 23")
  case True
  then show ?thesis
    using assms by (simp add: compact_mantissa_def)
next
  case False
  then show ?thesis
    using assms top_bit[of "compact_raw N S" 23] by (simp add: compact_mantissa_def)
qed

lemma bit_less: "m < 2 ^ k \<Longrightarrow> bit m i \<Longrightarrow> i < k" for m :: nat
  by (metis bit_take_bit_iff take_bit_nat_eq_self)

lemma compact_word:
  assumes "m < 2 ^ 23" "n < 256"
  defines "c \<equiv> or (of_nat m) (push_bit 24 (of_nat n)) :: u32"
  shows "unat (drop_bit 24 c) = n" "unat (and c 0x007fffff) = m" "\<not> bit c 23"
proof -
  note m = bit_less[OF assms(1)] and n = bit_less[of n 8]
  have c: "bit c i \<longleftrightarrow> (if i < 24 then bit m i else i < 32 \<and> bit n (i - 24))" for i
    using m[of i] by (auto simp: c_def bit_simps bit_of_nat_iff)
  show "\<not> bit c 23"
    unfolding c using m[of 23] by auto
  show "unat (drop_bit 24 c) = n"
    by (rule bit_eqI) (use n assms(2) in \<open>auto simp: bit_unsigned_iff bit_drop_bit_eq c dest!: n\<close>)
  have "and c 0x007fffff = take_bit 23 c"
    by (simp add: take_bit_eq_mask mask_23)
  then show "unat (and c 0x007fffff) = m"
    by (intro bit_eqI) (auto simp: bit_unsigned_iff bit_take_bit_iff c dest: m)
qed

lemma GetCompact_val:
  assumes "wf_limbs a"
  defines "S \<equiv> (limbs_bits a + 7) div 8" and "N \<equiv> limbs_val a"
  shows "GetCompact a False = Some (or (of_nat (compact_mantissa N S)) (push_bit 24 (of_nat (compact_size N S))))"
    and "compact_mantissa N S < 2 ^ 23" "compact_size N S \<le> 33"
proof -
  define x where "x = (if S \<le> 3 then ucast (push_bit (8 * (3 - S)) (GetLow64 a)) else ucast (GetLow64 (limbs_shr a (8 * (S - 3)))) :: u32)"
  have x: "unat x = compact_raw N S"
    unfolding x_def N_def by (rule raw_word[OF assms(1)]) (simp add: S_def)
  have B: "limbs_val a < 2 ^ limbs_bits a" "limbs_bits a \<le> 256"
    using limbs_bits_bounds[of a] assms by (auto simp: wf_limbs_def WIDTH_def split: if_splits)
  show S: "compact_size N S \<le> 33"
    using B div_le_mono[of "limbs_bits a + 7" 263 8] by (simp add: compact_size_def S_def)
  show m: "compact_mantissa N S < 2 ^ 23"
    using compact_raw_less[OF B(1)] by (intro compact_mantissa_less) (simp add: S_def N_def)
  have big: "and x 0x00800000 \<noteq> 0 \<longleftrightarrow> bit (compact_raw N S) 23"
    unfolding x[symmetric] by (simp add: bit_unsigned_iff bit_iff_and_push_bit_not_eq_0[of x])
  have x1: "unat (if bit (compact_raw N S) 23 then drop_bit 8 x else x) = compact_mantissa N S"
    unfolding if_distrib[of unat] unat_drop_bit_eq by (simp add: compact_mantissa_def x drop_bit_eq_div)
  then have w1: "(if bit (compact_raw N S) 23 then drop_bit 8 x else x) = of_nat (compact_mantissa N S)"
    unfolding x1[symmetric] by simp
  have "and (of_nat (compact_mantissa N S)) (not 0x007fffff :: u32) = 0"
    by (rule bit_eqI) (auto simp: bit_simps bit_of_nat_iff bit_mask_iff simp flip: mask_23 dest: bit_less[OF m])
  then show "GetCompact a False = Some (or (of_nat (compact_mantissa N S)) (push_bit 24 (of_nat (compact_size N S))))"
    using S unfolding GetCompact_def Let_def S_def[symmetric] x_def[symmetric] big w1
    by (simp add: compact_size_def)
qed

text \<open>Decoding what the encoder wrote drops the bytes below the mantissa.\<close>

definition compact_unit :: "nat \<Rightarrow> nat \<Rightarrow> nat" where
  "compact_unit N S = 256 ^ (compact_size N S - 3)"

lemma compact_mantissa_unit:
  "compact_size N S > 3 \<Longrightarrow> compact_mantissa N S = N div compact_unit N S"
  "compact_size N S \<le> 3 \<Longrightarrow> compact_mantissa N S = N * 256 ^ (3 - compact_size N S)"
proof -
  let ?big = "bit (compact_raw N S) 23"
  show "compact_mantissa N S = N div compact_unit N S" if "compact_size N S > 3"
  proof (cases "S \<le> 3")
    case True
    then have "S = 3" ?big
      using that by (auto simp: compact_size_def split: if_splits)
    then show ?thesis
      by (simp add: compact_mantissa_def compact_unit_def compact_size_def) (simp add: compact_raw_def)
  next
    case False
    then have "Suc S - 3 = Suc (S - 3)"
      by simp
    then show ?thesis
      using False
      by (simp add: compact_mantissa_def compact_unit_def compact_size_def compact_raw_def div_mult2_eq[symmetric] mult.commute)
  qed
  show "compact_mantissa N S = N * 256 ^ (3 - compact_size N S)" if "compact_size N S \<le> 3"
  proof (cases ?big)
    case True
    then have "3 - S = Suc (3 - Suc S)"
      using that by (simp add: compact_size_def)
    then show ?thesis
      using True that by (simp add: compact_mantissa_def compact_size_def compact_raw_def)
  next
    case False
    then show ?thesis
      using that by (simp add: compact_mantissa_def compact_size_def compact_raw_def)
  qed
qed

lemma compact_mantissa_large:
  assumes "2 ^ (B - 1) \<le> N" "N < 2 ^ B" "0 < B" "S = (B + 7) div 8" "compact_size N S > 3"
  shows "2 ^ 15 \<le> compact_mantissa N S" "8 * (compact_size N S - 3) \<le> B - 1"
proof -
  have S: "8 * (S - 1) \<le> B - 1"
    using assms(3,4) by linarith
  have "2 ^ 15 \<le> compact_mantissa N S \<and> 8 * (compact_size N S - 3) \<le> B - 1"
  proof (cases "bit (compact_raw N S) 23")
    case True
    then have "2 ^ 23 \<le> compact_raw N S"
      using top_bit[of "compact_raw N S" 23] compact_raw_less[OF assms(2,4)] by simp
    then show ?thesis
      using True S div_le_mono[of "2 ^ 23" "compact_raw N S" 256] by (simp add: compact_mantissa_def compact_size_def)
  next
    case False
    then have "S > 3"
      using assms by (simp add: compact_size_def)
    have "(2 :: nat) ^ 16 * 256 ^ (S - 3) = 2 ^ (8 * (S - 1))"
    proof -
      have "S - 1 = 2 + (S - 3)"
        using \<open>S > 3\<close> by simp
      then show ?thesis
        by (simp only: power_mult power_add) simp
    qed
    also have "\<dots> \<le> N"
      using S by (intro order_trans[OF power_increasing assms(1)]) simp_all
    finally have "2 ^ 16 \<le> compact_raw N S"
      using \<open>S > 3\<close> by (simp add: compact_raw_def less_eq_div_iff_mult_less_eq)
    then show ?thesis
      using False S \<open>S > 3\<close> by (simp add: compact_mantissa_def compact_size_def)
  qed
  then show "2 ^ 15 \<le> compact_mantissa N S" "8 * (compact_size N S - 3) \<le> B - 1"
    by simp_all
qed

lemma compact_decode:
  assumes "wf_limbs a"
  defines "N \<equiv> limbs_val a"
  obtains c a' where "GetCompact a False = Some c" "SetCompact c = (a', False, False)" "wf_limbs a'"
    "limbs_val a' = N div compact_unit N ((limbs_bits a + 7) div 8) * compact_unit N ((limbs_bits a + 7) div 8)"
proof -
  let ?S = "(limbs_bits a + 7) div 8"
  let ?m = "compact_mantissa N ?S" and ?s = "compact_size N ?S" and ?u = "compact_unit N ?S"
  define c :: u32 where "c = or (of_nat ?m) (push_bit 24 (of_nat ?s))"
  have g: "GetCompact a False = Some c" "?m < 2 ^ 23" "?s < 256"
    using GetCompact_val[OF assms(1)] by (simp_all add: c_def N_def)
  obtain a' neg over where d: "SetCompact c = (a', neg, over)"
    by (cases "SetCompact c") auto
  have w: "unat (drop_bit 24 c) = ?s" "unat (and c 0x007fffff) = ?m" "\<not> bit c 23"
    unfolding c_def by (rule compact_word[OF g(2,3)])+
  have N: "N < 2 ^ 256"
    using limbs_val_less[of a] assms by (simp add: wf_limbs_def WIDTH_def)
  have lt: "N div ?u * ?u < 2 ^ 256"
    by (rule le_less_trans[OF _ N]) simp
  have "limbs_val a' = N div ?u * ?u"
    using SetCompact_val(2)[OF d] compact_mantissa_unit[of N ?S] lt
    by (cases "?s \<le> 3") (simp_all add: w compact_unit_def)
  moreover have "\<not> over"
    using SetCompact_val(3)[OF d] compact_mantissa_unit(1)[of N ?S] lt by (auto simp: w compact_unit_def)
  moreover have "\<not> neg"
    using SetCompact_val(4)[OF d] by (simp add: w)
  ultimately show thesis
    using that g d SetCompact_val(1)[OF d] by simp
qed

lemma limbs_bits_unique:
  assumes "2 ^ (B - 1) \<le> limbs_val a" "limbs_val a < 2 ^ B" "0 < B"
  shows "limbs_bits a = B"
proof -
  have "limbs_val a \<noteq> 0"
    using assms(1) by (metis less_le_not_le not_less_zero power_eq_0_iff le_zero_eq numeral_eq_iff zero_neq_numeral)
  then have b: "0 < limbs_bits a" "2 ^ (limbs_bits a - 1) \<le> limbs_val a" "limbs_val a < 2 ^ limbs_bits a"
    using limbs_bits_bounds[of a] by simp_all
  have "B - 1 < limbs_bits a" "limbs_bits a - 1 < B"
    using assms b by (auto intro: nat_power_less_imp_less[of 2] le_less_trans)
  then show ?thesis
    using assms b by simp
qed

lemma compact_rounded:
  assumes "2 ^ (B - 1) \<le> N" "N < 2 ^ B" "0 < B" "S = (B + 7) div 8"
  defines "N' \<equiv> N div compact_unit N S * compact_unit N S"
  shows "2 ^ (B - 1) \<le> N'" "(N - N') * 2 ^ 15 \<le> N'"
    "compact_mantissa N' S = compact_mantissa N S" "compact_size N' S = compact_size N S"
proof -
  let ?u = "compact_unit N S"
  have u: "?u > 0"
    by (simp add: compact_unit_def)
  show "2 ^ (B - 1) \<le> N'"
  proof (cases "compact_size N S > 3")
    case True
    have "?u = 2 ^ (8 * (compact_size N S - 3))"
      by (simp add: compact_unit_def power_mult)
    then have "?u dvd 2 ^ (B - 1)"
      using compact_mantissa_large(2)[OF assms(1-4) True] by (simp only: le_imp_power_dvd)
    then obtain k where k: "2 ^ (B - 1) = ?u * k"
      by auto
    then have "k \<le> N div ?u"
      using assms(1) u by (simp add: less_eq_div_iff_mult_less_eq mult.commute)
    then show ?thesis
      unfolding N'_def k by (simp add: mult.commute)
  qed (use assms(1) in \<open>simp add: N'_def compact_unit_def\<close>)
  show "(N - N') * 2 ^ 15 \<le> N'"
  proof (cases "compact_size N S > 3")
    case True
    have "N - N' = N mod ?u"
      by (simp add: N'_def minus_div_mult_eq_mod)
    then have "(N - N') * 2 ^ 15 \<le> ?u * 2 ^ 15"
      using u by (intro mult_le_mono1) simp
    also have "\<dots> \<le> N'"
      using compact_mantissa_large(1)[OF assms(1-4) True] compact_mantissa_unit(1)[OF True]
      by (simp add: N'_def)
    finally show ?thesis .
  qed (simp add: N'_def compact_unit_def)
  have raw: "compact_raw N' S = (if compact_size N S > 3 \<and> bit (compact_raw N S) 23
      then compact_raw N S div 256 * 256 else compact_raw N S)"
  proof (cases "compact_size N S > 3")
    case True
    then have "S \<ge> 3" "S = 3 \<longrightarrow> bit (compact_raw N S) 23"
      by (auto simp: compact_size_def split: if_splits)
    moreover from this have "bit (compact_raw N S) 23 \<Longrightarrow> ?u = 256 ^ (S - 3) * 256"
      using power_Suc2[of "256 :: nat" "S - 3"] by (simp add: compact_unit_def compact_size_def Suc_diff_le[symmetric] del: power_Suc power_Suc2)
    ultimately show ?thesis
      using True by (cases "S = 3") (auto simp: N'_def compact_raw_def div_mult2_eq compact_unit_def compact_size_def)
  qed (simp add: N'_def compact_unit_def)
  have "bit (x div 256 * 256) 23 \<longleftrightarrow> bit x 23" for x :: nat
    using bit_push_bit_iff_nat[of 8 "drop_bit 8 x" 23]
    by (simp add: bit_drop_bit_eq) (simp add: push_bit_eq_mult drop_bit_eq_div)
  then show "compact_mantissa N' S = compact_mantissa N S" "compact_size N' S = compact_size N S"
    by (simp_all add: compact_mantissa_def compact_size_def raw)
qed

text \<open>Comparison with a 64-bit number.\<close>

lemma EqualTo_val:
  assumes "wf_limbs a"
  shows "EqualTo a b \<longleftrightarrow> limbs_val a = unat b"
proof -
  obtain x y r where a: "a = x # y # r"
    using assms by (auto simp: wf_limbs_def WIDTH_def length_Suc_conv numeral_eq_Suc)
  have r: "list_all (\<lambda>x. unat x = 0) r \<longleftrightarrow> limbs_val r = 0" for r
    by (induction r) auto
  have b: "and b 0xffffffff = take_bit 32 b"
    by (simp add: take_bit_eq_mask mask_eq_exp_minus_1)
  have u: "unat (ucast x :: u64) = unat x" for x :: u32
    using u32_less[of x] by (simp add: unsigned_ucast_eq take_bit_eq_mod)
  have "EqualTo a b \<longleftrightarrow> limbs_val r = 0 \<and> unat y = unat b div 2 ^ 32 \<and> unat x = unat b mod 2 ^ 32"
    unfolding EqualTo_def a b by (simp only: r u word_unat_eq_iff high_limb unsigned_take_bit_eq list.sel nth_Cons_0)
      (simp add: r u high_limb take_bit_eq_mod)
  also have "\<dots> \<longleftrightarrow> limbs_val a = unat b"
  proof
    assume "limbs_val a = unat b"
    moreover from this have "limbs_val r = 0"
      using unsigned_less[of b, where 'a = nat] by (simp add: a)
    ultimately have "unat b = unat x + 2 ^ 32 * unat y" "limbs_val r = 0"
      by (simp_all add: a)
    then show "limbs_val r = 0 \<and> unat y = unat b div 2 ^ 32 \<and> unat x = unat b mod 2 ^ 32"
      using u32_less[of x] by simp
  qed (simp add: a)
  finally show ?thesis .
qed

section \<open>The number type and its compact form\<close>

text \<open>C22. The arithmetic on \<open>arith_uint256\<close>, eight 32-bit limbs with carries, long multiplication and
  shift-and-subtract division, is arithmetic on the natural numbers modulo \<open>2 ^ 256\<close>: sums,
  differences and products wrap, shifts and division round down, the comparison is that of the
  numbers, and division fails exactly for a zero divisor.\<close>

theorem arith_uint256_refines_naturals:
  assumes "wf_limbs a" "wf_limbs b"
  shows "limbs_val (limbs_add a b) = (limbs_val a + limbs_val b) mod 2 ^ 256
    \<and> limbs_val (limbs_sub a b) = (limbs_val a + (2 ^ 256 - limbs_val b)) mod 2 ^ 256
    \<and> limbs_val (limbs_mul a b) = limbs_val a * limbs_val b mod 2 ^ 256
    \<and> limbs_val (limbs_mul32 a n) = limbs_val a * unat n mod 2 ^ 256
    \<and> limbs_val (limbs_shl a s) = limbs_val a * 2 ^ s mod 2 ^ 256
    \<and> limbs_val (limbs_shr a s) = limbs_val a div 2 ^ s
    \<and> CompareTo a b = sgn (int (limbs_val a) - int (limbs_val b))
    \<and> map_option limbs_val (limbs_div a b) = (if limbs_val b = 0 then None else Some (limbs_val a div limbs_val b))
    \<and> list_all wf_limbs [limbs_add a b, limbs_sub a b, limbs_mul a b, limbs_mul32 a n, limbs_shl a s, limbs_shr a s]"
proof (intro conjI)
  have l: "length a = 8" "length b = 8"
    using assms by (simp_all add: wf_limbs_def WIDTH_def)
  show "limbs_val (limbs_add a b) = (limbs_val a + limbs_val b) mod 2 ^ 256"
    using l by (simp add: limbs_add_def add_loop_val)
  show "limbs_val (limbs_sub a b) = (limbs_val a + (2 ^ 256 - limbs_val b)) mod 2 ^ 256"
    using l by (simp add: limbs_sub_val)
  show "limbs_val (limbs_mul a b) = limbs_val a * limbs_val b mod 2 ^ 256"
    using l by (simp add: limbs_mul_def mul_rows_val WIDTH_def)
  show "limbs_val (limbs_mul32 a n) = limbs_val a * unat n mod 2 ^ 256"
    using l by (simp add: limbs_mul32_def mul32_loop_val mult.commute)
  show "limbs_val (limbs_shl a s) = limbs_val a * 2 ^ s mod 2 ^ 256" "limbs_val (limbs_shr a s) = limbs_val a div 2 ^ s"
    using l by (simp_all add: limbs_shl_val limbs_shr_val)
  show "CompareTo a b = sgn (int (limbs_val a) - int (limbs_val b))"
    using l by (simp add: CompareTo_val)
  show "map_option limbs_val (limbs_div a b) = (if limbs_val b = 0 then None else Some (limbs_val a div limbs_val b))"
    using limbs_div_val[OF assms] by (cases "limbs_div a b") auto
  show "list_all wf_limbs [limbs_add a b, limbs_sub a b, limbs_mul a b, limbs_mul32 a n, limbs_shl a s, limbs_shr a s]"
    using l by (simp add: wf_limbs_def WIDTH_def limbs_add_def limbs_mul_def limbs_mul32_def)
qed

theorem arith_uint256_refines_naturals_witness:
  "wf_limbs (of_uint64 7) \<and> wf_limbs (of_uint64 2) \<and> limbs_val (limbs_mul (of_uint64 7) (of_uint64 2)) = 14
    \<and> map_option limbs_val (limbs_div (of_uint64 7) (of_uint64 2)) = Some 3"
  using arith_uint256_refines_naturals[OF of_uint64_wf[of 7] of_uint64_wf[of 2], of 0 0] of_uint64_wf
  by (simp add: of_uint64_val)

lemma compact_round:
  assumes "wf_limbs a"
  shows "\<exists>c a'. GetCompact a False = Some c \<and> SetCompact c = (a', False, False)
    \<and> limbs_val a' \<le> limbs_val a \<and> (limbs_val a - limbs_val a') * 2 ^ 15 \<le> limbs_val a'
    \<and> GetCompact a' False = Some c"
proof -
  let ?N = "limbs_val a" and ?S = "(limbs_bits a + 7) div 8"
  obtain c a' where c: "GetCompact a False = Some c" "SetCompact c = (a', False, False)" "wf_limbs a'"
    and a': "limbs_val a' = ?N div compact_unit ?N ?S * compact_unit ?N ?S"
    using compact_decode[OF assms] by blast
  have le: "limbs_val a' \<le> ?N"
    unfolding a' by simp
  have "(?N - limbs_val a') * 2 ^ 15 \<le> limbs_val a' \<and> GetCompact a' False = Some c"
  proof (cases "?N = 0")
    case True
    then have "limbs_val a' = 0" "limbs_bits a' = limbs_bits a"
      using le limbs_bits_bounds[of a] limbs_bits_bounds[of a'] by simp_all
    then show ?thesis
      using GetCompact_val(1)[OF assms] GetCompact_val(1)[OF c(3)] c(1) True by simp
  next
    case False
    then have b: "2 ^ (limbs_bits a - 1) \<le> ?N" "?N < 2 ^ limbs_bits a" "0 < limbs_bits a"
      using limbs_bits_bounds[of a] by simp_all
    note r = compact_rounded[OF b refl, folded a']
    have "limbs_bits a' = limbs_bits a"
      using r(1) le b by (intro limbs_bits_unique) simp_all
    then show ?thesis
      using GetCompact_val(1)[OF assms] GetCompact_val(1)[OF c(3)] c(1) r(2-4) by simp
  qed
  then show ?thesis
    using c le by blast
qed

text \<open>\<open>GetCompact\<close> never fails its assertion. Reading its result back with \<open>SetCompact\<close> gives a number
  without sign and without overflow, at most the original and below it by at most one part in
  \<open>2 ^ 15\<close>, which has the same compact form: a target in a block header is the target rounded down.\<close>

theorem compact_rounds_down:
  assumes "wf_limbs a"
  shows "\<exists>c a'. GetCompact a False = Some c \<and> SetCompact c = (a', False, False)
    \<and> limbs_val a' \<le> limbs_val a \<and> (limbs_val a - limbs_val a') * 2 ^ 15 \<le> limbs_val a'
    \<and> GetCompact a' False = Some c"
  using compact_round[OF assms] by blast

theorem compact_rounds_down_witness:
  "wf_limbs (of_uint64 0x123456789a) \<and> (\<exists>c. GetCompact (of_uint64 0x123456789a) False = Some c)"
  using compact_rounds_down[OF of_uint64_wf[of "0x123456789a"]] of_uint64_wf by blast

end
