(* ===== verification/BlockIndex.thy ===== *)
theory BlockIndex
  imports ArithUint "HOL-Library.AList" "HOL-Library.Monad_Syntax"
begin

text \<open>
  The tree of block headers (\<^verbatim>\<open>src/src/chain.h\<close>, \<^verbatim>\<open>src/src/chain.cpp\<close>). The entries \<^verbatim>\<open>CBlockIndex\<close> refer to
  each other by pointers, which are addresses into a store here; \<open>None\<close> as a pointer is \<^verbatim>\<open>nullptr\<close>. A
  function that may fail an assertion or follow a pointer that is not in the store returns an option,
  with \<open>None\<close> for that case. The theory has the search for an ancestor through the skip pointers, the
  active chain \<^verbatim>\<open>CChain\<close> with its fork searches and locators, the median time of a block and the work
  that its target stands for.
\<close>

section \<open>Entries and their store\<close>

type_synonym ptr = nat

record CBlockHeader =
  hd_nVersion :: u32
  hd_hashPrevBlock :: uint256
  hd_hashMerkleRoot :: uint256
  hd_nTime :: u32
  hd_nBits :: u32
  hd_nNonce :: u32
  hd_nHeight :: u32
  hd_nNonce64 :: u64
  hd_mix_hash :: uint256

record CBlockIndex =
  phashBlock :: "uint256 option"
  pprev :: "ptr option"
  pskip :: "ptr option"
  nHeight :: int
  nFile :: int
  nDataPos :: u32
  nUndoPos :: u32
  nChainWork :: limbs
  nTx :: u32
  nChainTx :: u32
  nStatus :: u32
  bi_nVersion :: u32
  hashMerkleRoot :: uint256
  nTime :: u32
  nBits :: u32
  nNonce :: u32
  nNonce64 :: u64
  mix_hash :: uint256
  nSequenceId :: int
  nTimeMax :: u32

type_synonym index_store = "ptr \<Rightarrow> CBlockIndex option"

definition CBlockIndex_of_header :: "CBlockHeader \<Rightarrow> CBlockIndex" where
  "CBlockIndex_of_header block =
     \<lparr>phashBlock = None, pprev = None, pskip = None, nHeight = sint (hd_nHeight block), nFile = 0, nDataPos = 0,
      nUndoPos = 0, nChainWork = of_uint64 0, nTx = 0, nChainTx = 0, nStatus = 0, bi_nVersion = hd_nVersion block,
      hashMerkleRoot = hd_hashMerkleRoot block, nTime = hd_nTime block, nBits = hd_nBits block,
      nNonce = hd_nNonce block, nNonce64 = hd_nNonce64 block, mix_hash = hd_mix_hash block, nSequenceId = 0,
      nTimeMax = 0\<rparr>"

definition GetBlockTime :: "CBlockIndex \<Rightarrow> int" where
  "GetBlockTime b = uint (nTime b)"

definition GetBlockTimeMax :: "CBlockIndex \<Rightarrow> int" where
  "GetBlockTimeMax b = uint (nTimeMax b)"

definition GetBlockHash :: "CBlockIndex \<Rightarrow> uint256" where
  "GetBlockHash b = (case phashBlock b of None \<Rightarrow> 0 | Some h \<Rightarrow> h)"

definition GetBlockHeader :: "index_store \<Rightarrow> CBlockIndex \<Rightarrow> CBlockHeader option" where
  "GetBlockHeader st b =
     do {
       hashPrevBlock \<leftarrow> (case pprev b of None \<Rightarrow> Some 0 | Some q \<Rightarrow> map_option GetBlockHash (st q));
       Some \<lparr>hd_nVersion = bi_nVersion b, hd_hashPrevBlock = hashPrevBlock, hd_hashMerkleRoot = hashMerkleRoot b,
             hd_nTime = nTime b, hd_nBits = nBits b, hd_nNonce = nNonce b, hd_nHeight = of_int (nHeight b),
             hd_nNonce64 = nNonce64 b, hd_mix_hash = mix_hash b\<rparr>
     }"

text \<open>The status flags: \<open>BLOCK_VALID_MASK\<close> is 7, \<open>BLOCK_FAILED_MASK\<close> is 96; \<open>None\<close> is a failed assertion.\<close>

definition IsValid :: "CBlockIndex \<Rightarrow> u32 \<Rightarrow> bool option" where
  "IsValid b nUpTo =
     (if and nUpTo (not 7) \<noteq> 0 then None
      else if and (nStatus b) 96 \<noteq> 0 then Some False
      else Some (and (nStatus b) 7 \<ge> nUpTo))"

definition RaiseValidity :: "CBlockIndex \<Rightarrow> u32 \<Rightarrow> (bool \<times> CBlockIndex) option" where
  "RaiseValidity b nUpTo =
     (if and nUpTo (not 7) \<noteq> 0 then None
      else if and (nStatus b) 96 \<noteq> 0 then Some (False, b)
      else if and (nStatus b) 7 < nUpTo
        then Some (True, b\<lparr>nStatus := or (and (nStatus b) (not 7)) nUpTo\<rparr>)
        else Some (False, b))"

section \<open>Ancestors\<close>

text \<open>The loop runs on heights that are not negative, which are natural numbers here.\<close>

definition InvertLowestOne :: "nat \<Rightarrow> nat" where
  "InvertLowestOne n = and n (n - 1)"

definition GetSkipHeight :: "nat \<Rightarrow> nat" where
  "GetSkipHeight height =
     (if height < 2 then 0
      else if odd height then InvertLowestOne (InvertLowestOne (height - 1)) + 1
      else InvertLowestOne height)"

lemma and_le_nat: "and m n \<le> (n :: nat)"
proof -
  have "int (and m n) \<le> int n"
    unfolding of_nat_and_eq by (rule AND_upper2) simp
  then show ?thesis
    by simp
qed

lemma InvertLowestOne_le: "InvertLowestOne n \<le> n - 1"
  by (simp add: InvertLowestOne_def and_le_nat)

lemma GetSkipHeight_less: "0 < h \<Longrightarrow> GetSkipHeight h < h"
  using InvertLowestOne_le[of h] InvertLowestOne_le[of "h - 1"] InvertLowestOne_le[of "InvertLowestOne (h - 1)"]
  by (auto simp: GetSkipHeight_def)

function ancestor_walk :: "index_store \<Rightarrow> nat \<Rightarrow> ptr \<Rightarrow> nat \<Rightarrow> ptr option" where
  "ancestor_walk st height pindexWalk heightWalk =
     (if heightWalk > height then
        let heightSkip = GetSkipHeight heightWalk; heightSkipPrev = GetSkipHeight (heightWalk - 1) in
        do {
          b \<leftarrow> st pindexWalk;
          case pskip b of
            Some q \<Rightarrow>
              if heightSkip = height \<or> heightSkip > height \<and> \<not> (heightSkipPrev < heightSkip - 2 \<and> heightSkipPrev \<ge> height)
              then ancestor_walk st height q heightSkip
              else pprev b \<bind> (\<lambda>q'. ancestor_walk st height q' (heightWalk - 1))
          | None \<Rightarrow> pprev b \<bind> (\<lambda>q'. ancestor_walk st height q' (heightWalk - 1))
        }
      else Some pindexWalk)"
  by pat_completeness auto
termination
  by (relation "measure (\<lambda>(st, height, pindexWalk, heightWalk). heightWalk)") (auto intro: GetSkipHeight_less)

declare ancestor_walk.simps [simp del]

text \<open>The inner option of the result is the pointer that \<^verbatim>\<open>GetAncestor\<close> returns.\<close>

definition GetAncestor :: "index_store \<Rightarrow> ptr \<Rightarrow> int \<Rightarrow> ptr option option" where
  "GetAncestor st p height =
     do {
       b \<leftarrow> st p;
       if height > nHeight b \<or> height < 0 then Some None
       else map_option Some (ancestor_walk st (nat height) p (nat (nHeight b)))
     }"

definition BuildSkip :: "index_store \<Rightarrow> CBlockIndex \<Rightarrow> CBlockIndex option" where
  "BuildSkip st b =
     (case pprev b of
        None \<Rightarrow> Some b
      | Some q \<Rightarrow> map_option (\<lambda>r. b\<lparr>pskip := r\<rparr>) (GetAncestor st q (int (GetSkipHeight (nat (nHeight b))))))"

section \<open>Times and work\<close>

fun times_back :: "index_store \<Rightarrow> nat \<Rightarrow> ptr option \<Rightarrow> int list option" where
  "times_back st 0 p = Some []"
| "times_back st (Suc n) None = Some []"
| "times_back st (Suc n) (Some p) =
     do { b \<leftarrow> st p; ts \<leftarrow> times_back st n (pprev b); Some (GetBlockTime b # ts) }"

definition GetMedianTimePast :: "index_store \<Rightarrow> ptr \<Rightarrow> int option" where
  "GetMedianTimePast st p =
     do { ts \<leftarrow> times_back st 11 (Some p); Some (sort ts ! (length ts div 2)) }"

definition GetBlockProof :: "u32 \<Rightarrow> limbs option" where
  "GetBlockProof bits =
     (let (bnTarget, fNegative, fOverflow) = SetCompact bits in
      if fNegative \<or> fOverflow \<or> EqualTo bnTarget 0 then Some (of_uint64 0)
      else map_option (\<lambda>q. limbs_add q (of_uint64 1)) (limbs_div (limbs_compl bnTarget) (limbs_add bnTarget (of_uint64 1))))"

definition GetBlockProofEquivalentTime :: "CBlockIndex \<Rightarrow> CBlockIndex \<Rightarrow> CBlockIndex \<Rightarrow> int \<Rightarrow> int option" where
  "GetBlockProofEquivalentTime to from tip nPowTargetSpacing =
     (let (r, sign) = (if CompareTo (nChainWork to) (nChainWork from) > 0
            then (limbs_sub (nChainWork to) (nChainWork from), 1)
            else (limbs_sub (nChainWork from) (nChainWork to), -1)) in
      do {
        proof \<leftarrow> GetBlockProof (nBits tip);
        r \<leftarrow> limbs_div (limbs_mul r (of_uint64 (of_int nPowTargetSpacing))) proof;
        Some (if limbs_bits r > 63 then sign * (2 ^ 63 - 1) else int64 (sign * uint (GetLow64 r)))
      })"

section \<open>The active chain\<close>

type_synonym CChain = "ptr option list"

definition Genesis :: "CChain \<Rightarrow> ptr option" where
  "Genesis v = (if length v > 0 then v ! 0 else None)"

definition Tip :: "CChain \<Rightarrow> ptr option" where
  "Tip v = (if length v > 0 then v ! (length v - 1) else None)"

definition chain_at :: "CChain \<Rightarrow> int \<Rightarrow> ptr option" where
  "chain_at v h = (if h < 0 \<or> h \<ge> int (length v) then None else v ! nat h)"

definition Height :: "CChain \<Rightarrow> int" where
  "Height v = int (length v) - 1"

definition Contains :: "index_store \<Rightarrow> CChain \<Rightarrow> ptr \<Rightarrow> bool option" where
  "Contains st v p = map_option (\<lambda>b. chain_at v (nHeight b) = Some p) (st p)"

definition Next :: "index_store \<Rightarrow> CChain \<Rightarrow> ptr \<Rightarrow> ptr option option" where
  "Next st v p = do { b \<leftarrow> st p; c \<leftarrow> Contains st v p; Some (if c then chain_at v (nHeight b + 1) else None) }"

text \<open>
  The loops that follow \<^verbatim>\<open>pprev\<close> are bounded by the height they start from, plus one; running out gives \<open>None\<close>.
  On a well-formed store they end before that.
\<close>

fun set_tip_loop :: "index_store \<Rightarrow> nat \<Rightarrow> CChain \<Rightarrow> ptr option \<Rightarrow> CChain option" where
  "set_tip_loop st n v None = Some v"
| "set_tip_loop st 0 v (Some p) = None"
| "set_tip_loop st (Suc n) v (Some p) =
     do {
       b \<leftarrow> st p;
       if nHeight b < 0 \<or> nHeight b \<ge> int (length v) then None
       else if v ! nat (nHeight b) = Some p then Some v
       else set_tip_loop st n (v[nat (nHeight b) := Some p]) (pprev b)
     }"

definition resize :: "nat \<Rightarrow> 'a option list \<Rightarrow> 'a option list" where
  "resize n v = take n v @ replicate (n - length v) None"

definition SetTip :: "index_store \<Rightarrow> CChain \<Rightarrow> ptr option \<Rightarrow> CChain option" where
  "SetTip st v pindex =
     (case pindex of
        None \<Rightarrow> Some []
      | Some p \<Rightarrow> do { b \<leftarrow> st p; set_tip_loop st (nat (nHeight b) + 1) (resize (nat (nHeight b + 1)) v) (Some p) })"

fun fork_loop :: "index_store \<Rightarrow> CChain \<Rightarrow> nat \<Rightarrow> ptr option \<Rightarrow> ptr option option" where
  "fork_loop st v n None = Some None"
| "fork_loop st v 0 (Some p) = None"
| "fork_loop st v (Suc n) (Some p) =
     do { c \<leftarrow> Contains st v p; if c then Some (Some p) else st p \<bind> (\<lambda>b. fork_loop st v n (pprev b)) }"

definition FindFork :: "index_store \<Rightarrow> CChain \<Rightarrow> ptr option \<Rightarrow> ptr option option" where
  "FindFork st v pindex =
     (case pindex of
        None \<Rightarrow> Some None
      | Some p \<Rightarrow> do {
          b \<leftarrow> st p;
          q \<leftarrow> (if nHeight b > Height v then GetAncestor st p (Height v) else Some (Some p));
          fork_loop st v (nat (nHeight b) + 1) q
        })"

fun locator_loop :: "index_store \<Rightarrow> CChain \<Rightarrow> nat \<Rightarrow> uint256 list \<Rightarrow> int \<Rightarrow> ptr option \<Rightarrow> uint256 list option" where
  "locator_loop st v n vHave nStep None = Some vHave"
| "locator_loop st v 0 vHave nStep (Some p) = None"
| "locator_loop st v (Suc n) vHave nStep (Some p) =
     do {
       b \<leftarrow> st p;
       let vHave' = vHave @ [GetBlockHash b] in
       if nHeight b = 0 then Some vHave'
       else do {
         let h = max (nHeight b - nStep) 0;
         c \<leftarrow> Contains st v p;
         q \<leftarrow> (if c then Some (chain_at v h) else GetAncestor st p h);
         locator_loop st v n vHave' (if length vHave' > 10 then nStep * 2 else nStep) q
       }
     }"

definition GetLocator :: "index_store \<Rightarrow> CChain \<Rightarrow> ptr option \<Rightarrow> uint256 list option" where
  "GetLocator st v pindex =
     (let q = (case pindex of None \<Rightarrow> Tip v | Some p \<Rightarrow> Some p) in
      case q of
        None \<Rightarrow> Some []
      | Some p \<Rightarrow> do { b \<leftarrow> st p; locator_loop st v (nat (nHeight b) + 1) [] 1 (Some p) })"

definition FindForkInGlobalIndex ::
  "index_store \<Rightarrow> (uint256 \<times> ptr) list \<Rightarrow> CChain \<Rightarrow> uint256 list \<Rightarrow> ptr option option" where
  "FindForkInGlobalIndex st mapBlockIndex chain vHave =
     foldr (\<lambda>hash rest.
       case map_of mapBlockIndex hash of
         None \<Rightarrow> rest
       | Some p \<Rightarrow> do { c \<leftarrow> Contains st chain p; if c then Some (Some p) else rest })
     vHave (Some (Genesis chain))"

fun common_loop :: "index_store \<Rightarrow> nat \<Rightarrow> ptr option \<Rightarrow> ptr option \<Rightarrow> ptr option option" where
  "common_loop st n pa pb =
     (case (pa, pb, n) of
        (Some a, Some b, Suc m) \<Rightarrow>
          if a = b then Some pa
          else do { ea \<leftarrow> st a; eb \<leftarrow> st b; common_loop st m (pprev ea) (pprev eb) }
      | (Some a, Some b, 0) \<Rightarrow> None
      | _ \<Rightarrow> if pa = pb then Some pa else None)"

declare common_loop.simps [simp del]

definition LastCommonAncestor :: "index_store \<Rightarrow> ptr \<Rightarrow> ptr \<Rightarrow> ptr option option" where
  "LastCommonAncestor st pa pb =
     do {
       a \<leftarrow> st pa;
       b \<leftarrow> st pb;
       pa' \<leftarrow> (if nHeight a > nHeight b then GetAncestor st pa (nHeight b) else Some (Some pa));
       pb' \<leftarrow> (if nHeight b > nHeight a then GetAncestor st pb (nHeight a) else Some (Some pb));
       common_loop st (nat (min (nHeight a) (nHeight b)) + 1) pa' pb'
     }"

text \<open>The proof of a block is the expected number of hashes, \<open>2 ^ 256 / (target + 1)\<close>.\<close>

lemma SetCompact_not_max:
  assumes "SetCompact c = (a, neg, over)"
  shows "limbs_val a + 1 < 2 ^ 256"
proof (cases "unat (drop_bit 24 c) \<le> 3")
  case True
  then have "limbs_val a \<le> unat (and c 0x007fffff)"
    using SetCompact_val(2)[OF assms] by simp
  then show ?thesis
    using mantissa_less[of c] by simp
next
  case False
  then have v: "limbs_val a = unat (and c 0x007fffff) * 256 ^ (unat (drop_bit 24 c) - 3) mod 2 ^ 256"
    using SetCompact_val(2)[OF assms] by simp
  have "even (limbs_val a)"
    unfolding v using False by (subst dvd_mod_iff) simp_all
  moreover have "limbs_val a < 2 ^ 256"
    unfolding v by simp
  moreover have "odd ((2 :: nat) ^ 256 - 1)"
    by simp
  ultimately have "limbs_val a < 2 ^ 256 - 1"
    by (metis Suc_leI Suc_pred' le_neq_implies_less less_Suc_eq_le zero_less_numeral zero_less_power diff_Suc_1)
  then show ?thesis
    by simp
qed

lemma GetBlockProof_val:
  assumes "SetCompact bits = (a, neg, over)"
  obtains r where "GetBlockProof bits = Some r" "wf_limbs r"
    "limbs_val r = (if neg \<or> over \<or> limbs_val a = 0 then 0 else 2 ^ 256 div (limbs_val a + 1))"
proof (cases "neg \<or> over \<or> limbs_val a = 0")
  case True
  then show thesis
    using that[of "of_uint64 0"] assms SetCompact_val(1)[OF assms] of_uint64_wf
    by (simp add: GetBlockProof_def EqualTo_val of_uint64_val)
next
  case False
  let ?t = "limbs_val a" and ?n = "limbs_add a (of_uint64 1)"
  have w: "wf_limbs a"
    by (rule SetCompact_val(1)[OF assms])
  have lt: "?t + 1 < 2 ^ 256"
    by (rule SetCompact_not_max[OF assms])
  have n: "wf_limbs ?n" "limbs_val ?n = ?t + 1"
    using w of_uint64_wf[of 1] lt by (simp_all add: wf_limbs_def WIDTH_def limbs_add_def add_loop_val of_uint64_val)
  have c: "wf_limbs (limbs_compl a)" "limbs_val (limbs_compl a) = 2 ^ 256 - (?t + 1)"
    using w limbs_compl_val[of a] by (simp_all add: wf_limbs_def WIDTH_def)
  obtain q where q: "limbs_div (limbs_compl a) ?n = Some q"
    using limbs_div_val(1)[OF c(1) n(1)] n(2) by (cases "limbs_div (limbs_compl a) ?n") auto
  then have qv: "wf_limbs q" "limbs_val q = (2 ^ 256 - (?t + 1)) div (?t + 1)"
    using limbs_div_val(2)[OF c(1) n(1) q] c(2) n(2) by simp_all
  have e: "(2 ^ 256 - (?t + 1)) div (?t + 1) + 1 = 2 ^ 256 div (?t + 1)"
    using lt le_div_geq[of "?t + 1" "2 ^ 256"] by simp
  have "2 ^ 256 div (?t + 1) \<le> 2 ^ 256 div (2 :: nat)"
    using False by (intro div_le_mono2) simp_all
  then have "limbs_val q + 1 < 2 ^ 256"
    unfolding qv(2) e by simp
  then have "wf_limbs (limbs_add q (of_uint64 1))" "limbs_val (limbs_add q (of_uint64 1)) = 2 ^ 256 div (?t + 1)"
    using qv e of_uint64_wf[of 1] by (simp_all add: wf_limbs_def WIDTH_def limbs_add_def add_loop_val of_uint64_val)
  then show thesis
    using that[of "limbs_add q (of_uint64 1)"] False assms q w by (simp add: GetBlockProof_def EqualTo_val)
qed

section \<open>Well-formed trees\<close>

text \<open>Going back \<open>n\<close> entries, and the reference notion of an ancestor: the entry at a height on the path to the root.\<close>

primrec prev_n :: "index_store \<Rightarrow> nat \<Rightarrow> ptr \<Rightarrow> ptr option" where
  "prev_n st 0 p = Some p"
| "prev_n st (Suc n) p = do { b \<leftarrow> st p; q \<leftarrow> pprev b; prev_n st n q }"

lemma prev_n_numeral:
  "prev_n st (numeral k) p = do { b \<leftarrow> st p; q \<leftarrow> pprev b; prev_n st (pred_numeral k) q }"
  by (simp add: numeral_eq_Suc)

definition height_at :: "index_store \<Rightarrow> ptr \<Rightarrow> nat" where
  "height_at st p = (case st p of None \<Rightarrow> 0 | Some b \<Rightarrow> nat (nHeight b))"

definition ancestor_at :: "index_store \<Rightarrow> ptr \<Rightarrow> nat \<Rightarrow> ptr option" where
  "ancestor_at st p h = (if h \<le> height_at st p then prev_n st (height_at st p - h) p else None)"

text \<open>Heights count the entries back to the root, and a skip pointer leads to the ancestor at the skip height.\<close>

definition wf_entry :: "index_store \<Rightarrow> ptr \<Rightarrow> CBlockIndex \<Rightarrow> bool" where
  "wf_entry st p b \<longleftrightarrow> nHeight b \<ge> 0
     \<and> (case pprev b of
          None \<Rightarrow> nHeight b = 0
        | Some q \<Rightarrow> (case st q of None \<Rightarrow> False | Some c \<Rightarrow> nHeight b = nHeight c + 1))
     \<and> (case pskip b of
          None \<Rightarrow> True
        | Some q \<Rightarrow> nHeight b > 0 \<and> ancestor_at st p (GetSkipHeight (nat (nHeight b))) = Some q)"

definition wf_store :: "index_store \<Rightarrow> bool" where
  "wf_store st \<longleftrightarrow> (\<forall>p b. st p = Some b \<longrightarrow> wf_entry st p b)"

lemma height_at_eq: "st p = Some b \<Longrightarrow> height_at st p = nat (nHeight b)"
  by (simp add: height_at_def)

lemma wf_prev:
  assumes "wf_store st" "st p = Some b"
  obtains "pprev b = None" "nHeight b = 0"
  | q c where "pprev b = Some q" "st q = Some c" "nHeight b = nHeight c + 1" "nHeight c \<ge> 0"
proof -
  have w: "wf_entry st p b"
    using assms by (simp add: wf_store_def)
  show thesis
  proof (cases "pprev b")
    case None
    then show thesis
      using that(1) w by (simp add: wf_entry_def)
  next
    case (Some q)
    then obtain c where c: "st q = Some c" "nHeight b = nHeight c + 1"
      using w by (auto simp: wf_entry_def split: option.splits)
    moreover have "nHeight c \<ge> 0"
      using assms(1) c(1) by (simp add: wf_store_def wf_entry_def)
    ultimately show thesis
      using that(2) Some by blast
  qed
qed

lemma wf_height: "wf_store st \<Longrightarrow> st p = Some b \<Longrightarrow> nHeight b \<ge> 0"
  by (simp add: wf_store_def wf_entry_def)

lemma wf_skip:
  "wf_store st \<Longrightarrow> st p = Some b \<Longrightarrow> pskip b = Some q \<Longrightarrow>
   nHeight b > 0 \<and> ancestor_at st p (GetSkipHeight (nat (nHeight b))) = Some q"
  by (fastforce simp: wf_store_def wf_entry_def)

lemma prev_n_exists:
  assumes "wf_store st"
  shows "st p = Some b \<Longrightarrow> n \<le> nat (nHeight b) \<Longrightarrow>
    \<exists>q c. prev_n st n p = Some q \<and> st q = Some c \<and> nHeight c = nHeight b - int n"
proof (induction n arbitrary: p b)
  case (Suc n)
  from assms Suc.prems(1) show ?case
  proof (cases rule: wf_prev)
    case (2 q c)
    then show ?thesis
      using Suc.IH[of q c] Suc.prems by auto
  qed (use Suc.prems in simp)
qed simp

lemma prev_n_add: "prev_n st (m + n) p = prev_n st m p \<bind> prev_n st n"
  by (induction m arbitrary: p) (auto simp: Option.bind_assoc intro!: bind_option_cong)

lemma ancestor_at_exists:
  assumes "wf_store st" "st p = Some b" "h \<le> nat (nHeight b)"
  obtains q c where "ancestor_at st p h = Some q" "st q = Some c" "nHeight c = int h" "height_at st q = h"
  using prev_n_exists[OF assms(1,2), of "nat (nHeight b) - h"] assms(3) wf_height[OF assms(1,2)]
  by (auto simp: ancestor_at_def height_at_def assms(2))

lemma ancestor_at_trans:
  assumes "wf_store st" "st p = Some b" "ancestor_at st p h = Some q" "k \<le> h"
  shows "ancestor_at st q k = ancestor_at st p k"
proof -
  have h: "h \<le> nat (nHeight b)" "prev_n st (nat (nHeight b) - h) p = Some q"
    using assms by (auto simp: ancestor_at_def height_at_eq split: if_splits)
  then have q: "height_at st q = h"
    using ancestor_at_exists[OF assms(1,2), of h] assms(3) by auto
  have "nat (nHeight b) - k = (nat (nHeight b) - h) + (h - k)"
    using h assms(4) by simp
  then have "prev_n st (nat (nHeight b) - k) p = prev_n st (h - k) q"
    using h(2) by (simp only: prev_n_add) simp
  then show ?thesis
    using h(1) assms(2,4) by (simp add: ancestor_at_def q height_at_eq)
qed

lemma ancestor_at_self: "st p = Some b \<Longrightarrow> ancestor_at st p (nat (nHeight b)) = Some p"
  by (simp add: ancestor_at_def height_at_def)

lemma ancestor_at_prev:
  assumes "wf_store st" "st p = Some b" "pprev b = Some q" "k < nat (nHeight b)"
  shows "ancestor_at st q k = ancestor_at st p k"
proof -
  from assms(1,2) have "ancestor_at st p (nat (nHeight b) - 1) = Some q"
    by (cases rule: wf_prev) (use assms in \<open>auto simp: ancestor_at_def height_at_def\<close>)
  then show ?thesis
    using ancestor_at_trans[OF assms(1,2)] assms(4) by simp
qed

text \<open>The walk with skip pointers finds the same entry as the walk through all the predecessors.\<close>

lemma ancestor_walk_correct:
  assumes "wf_store st"
  shows "st p = Some b \<Longrightarrow> nHeight b = int w \<Longrightarrow> h \<le> w \<Longrightarrow> ancestor_walk st h p w = ancestor_at st p h"
proof (induction w arbitrary: p b rule: less_induct)
  case (less w)
  show ?case
  proof (cases "w > h")
    case False
    then show ?thesis
      using less.prems ancestor_at_self[of st p b] by (simp add: ancestor_walk.simps)
  next
    case True
    then obtain q c where q: "pprev b = Some q" "st q = Some c" "nHeight c = int (w - 1)"
      using less.prems assms by (cases rule: wf_prev[OF assms less.prems(1)]) auto
    have step: "ancestor_walk st h q (w - 1) = ancestor_at st p h"
      using less.IH[of "w - 1" q c] q True less.prems ancestor_at_prev[OF assms less.prems(1) q(1)] by simp
    have skip: "ancestor_walk st h r (GetSkipHeight w) = ancestor_at st p h"
      if r: "pskip b = Some r" and "h \<le> GetSkipHeight w" for r
    proof -
      have a: "ancestor_at st p (GetSkipHeight w) = Some r"
        using wf_skip[OF assms less.prems(1) r] less.prems(2) by simp
      then obtain d where "st r = Some d" "nHeight d = int (GetSkipHeight w)"
        using ancestor_at_exists[OF assms less.prems(1), of "GetSkipHeight w"] less.prems(2) GetSkipHeight_less[of w] True
        by auto
      then show ?thesis
        using less.IH[of "GetSkipHeight w" r d] that True GetSkipHeight_less[of w]
          ancestor_at_trans[OF assms less.prems(1) a] by simp
    qed
    show ?thesis
      using True less.prems(1) q(1) step skip
      by (subst ancestor_walk.simps) (auto simp: Let_def split: option.split)
  qed
qed

lemma GetAncestor_correct:
  assumes "wf_store st" "st p = Some b"
  shows "GetAncestor st p h = Some (if 0 \<le> h then ancestor_at st p (nat h) else None)"
proof -
  have "\<exists>q. ancestor_at st p (nat h) = Some q" if "0 \<le> h" "h \<le> nHeight b"
    by (rule ancestor_at_exists[OF assms, of "nat h"]) (use that in auto)
  moreover have "ancestor_at st p (nat h) = None" if "h > nHeight b" "0 \<le> h"
    using that assms(2) wf_height[OF assms] by (simp add: ancestor_at_def height_at_def)
  ultimately show ?thesis
    using assms ancestor_walk_correct[OF assms, of "nat (nHeight b)" "nat h"] wf_height[OF assms]
    by (auto simp: GetAncestor_def)
qed

section \<open>The active chain is the path to its tip\<close>

definition path :: "index_store \<Rightarrow> ptr \<Rightarrow> CChain" where
  "path st p = map (ancestor_at st p) [0..<Suc (height_at st p)]"

definition active :: "index_store \<Rightarrow> CChain \<Rightarrow> bool" where
  "active st v \<longleftrightarrow> v = [] \<or> (\<exists>p b. st p = Some b \<and> v = path st p)"

definition closed_upto :: "index_store \<Rightarrow> CChain \<Rightarrow> nat \<Rightarrow> bool" where
  "closed_upto st w i \<longleftrightarrow> (\<forall>k q. k < i \<longrightarrow> k < length w \<longrightarrow> w ! k = Some q \<longrightarrow> (\<forall>j\<le>k. w ! j = ancestor_at st q j))"

lemma length_path [simp]: "length (path st p) = Suc (height_at st p)"
  by (simp add: path_def)

lemma path_nth: "i \<le> height_at st p \<Longrightarrow> path st p ! i = ancestor_at st p i"
  by (simp add: path_def del: upt_Suc)

lemma path_closed:
  assumes "wf_store st" "st p = Some b"
  shows "closed_upto st (path st p) i"
  using ancestor_at_trans[OF assms] by (auto simp: closed_upto_def path_nth)

lemma closed_take: "closed_upto st w i \<Longrightarrow> closed_upto st (resize n w) i"
  by (auto simp: closed_upto_def resize_def nth_append split: if_splits)

lemma closed_update:
  assumes "closed_upto st w (Suc (Suc i))"
  shows "closed_upto st (w[Suc i := x]) (Suc i)"
  unfolding closed_upto_def
proof (intro allI impI)
  fix k q j
  assume k: "k < Suc i" "k < length (w[Suc i := x])" "w[Suc i := x] ! k = Some q" and j: "j \<le> k"
  then have "w ! j = ancestor_at st q j"
    using assms[unfolded closed_upto_def, rule_format, of k q j] by simp
  then show "w[Suc i := x] ! j = ancestor_at st q j"
    using k j by simp
qed

lemma active_closed: "wf_store st \<Longrightarrow> active st v \<Longrightarrow> closed_upto st (resize n v) i"
  by (auto simp: active_def intro!: closed_take path_closed) (simp add: closed_upto_def)

lemma set_tip_loop_correct:
  assumes "wf_store st" "st P = Some B" "length w = Suc (nat (nHeight B))"
  shows "ancestor_at st P i = Some q \<Longrightarrow> i \<le> nat (nHeight B) \<Longrightarrow> i < n \<Longrightarrow> length w = Suc (nat (nHeight B)) \<Longrightarrow>
    (\<forall>j. i < j \<and> j \<le> nat (nHeight B) \<longrightarrow> w ! j = ancestor_at st P j) \<Longrightarrow> closed_upto st w (Suc i) \<Longrightarrow>
    set_tip_loop st n w (Some q) = Some (path st P)"
proof (induction i arbitrary: n w q)
  case (0 n w q)
  note H = height_at_eq[of st P B, OF assms(2)]
  obtain m where n: "n = Suc m"
    using 0 by (cases n) auto
  obtain c where c: "st q = Some c" "nHeight c = 0"
    using ancestor_at_exists[OF assms(1,2), of 0] 0 by auto
  then have "pprev c = None"
    using wf_prev[OF assms(1) c(1)] by force
  moreover have "w[0 := Some q] = path st P"
    using 0 H by (intro nth_equalityI) (auto simp: path_nth nth_list_update)
  moreover have "w = w[0 := Some q]" if "w ! 0 = Some q"
    by (rule sym) (use that in \<open>simp add: list_update_same_conv 0\<close>)
  ultimately show ?case
    using c 0 by (auto simp: n)
next
  case (Suc i n w q)
  note H = height_at_eq[of st P B, OF assms(2)]
  obtain m where n: "n = Suc m"
    using Suc.prems by (cases n) auto
  obtain c where c: "st q = Some c" "nHeight c = int (Suc i)"
    using ancestor_at_exists[OF assms(1,2), of "Suc i"] Suc.prems by auto
  then have hc: "nat (nHeight c) = Suc i"
    by simp
  have len: "nHeight c < int (length w)" "\<not> nHeight c < 0"
    using c(2) Suc.prems(2,4) by linarith+
  obtain q' where q': "pprev c = Some q'"
    by (rule wf_prev[OF assms(1) c(1)]) (use c in auto)
  have anc: "ancestor_at st P i = Some q'"
  proof -
    have "ancestor_at st q i = Some q'"
      using c q' by (simp add: ancestor_at_def height_at_def nat_add_distrib)
    then show ?thesis
      using ancestor_at_trans[OF assms(1,2) Suc.prems(1), of i] by simp
  qed
  show ?case
  proof (cases "w ! Suc i = Some q")
    case True
    then have "w ! j = ancestor_at st P j" if "j \<le> Suc i" for j
      using Suc.prems that ancestor_at_trans[OF assms(1,2) Suc.prems(1), of j] by (auto simp: closed_upto_def)
    then have "w ! j = ancestor_at st P j" if "j \<le> nat (nHeight B)" for j
      using Suc.prems(5) that by (cases "j \<le> Suc i") simp_all
    then have "w = path st P"
      using Suc.prems(4) H by (intro nth_equalityI) (simp_all add: path_nth)
    then show ?thesis
      using True c(1) hc len by (simp add: n)
  next
    case False
    have "set_tip_loop st m (w[Suc i := Some q]) (Some q') = Some (path st P)"
    proof (rule Suc.IH[OF anc])
      show "\<forall>j. i < j \<and> j \<le> nat (nHeight B) \<longrightarrow> w[Suc i := Some q] ! j = ancestor_at st P j"
        using Suc.prems by (auto simp: nth_list_update)
      show "closed_upto st (w[Suc i := Some q]) (Suc i)"
        using Suc.prems(6) by (rule closed_update)
    qed (use Suc.prems n in auto)
    then show ?thesis
      using False c(1) q' hc len by (simp add: n)
  qed
qed

lemma SetTip_correct:
  assumes "wf_store st" "active st v" "st p = Some b"
  shows "SetTip st v (Some p) = Some (path st p)"
proof -
  have h: "nat (nHeight b + 1) = Suc (nat (nHeight b))"
    using wf_height[OF assms(1,3)] by simp
  have len: "length (resize (nat (nHeight b + 1)) v) = Suc (nat (nHeight b))"
    by (simp add: h resize_def)
  have "set_tip_loop st (nat (nHeight b) + 1) (resize (nat (nHeight b + 1)) v) (Some p) = Some (path st p)"
    by (rule set_tip_loop_correct[OF assms(1,3) _ ancestor_at_self[of st p b, OF assms(3)]])
      (use active_closed[OF assms(1,2)] len in auto)
  then show ?thesis
    using assms(3) by (simp add: SetTip_def)
qed

text \<open>The fork search and the last common ancestor: where two branches part.\<close>

lemma chain_at_path:
  assumes "k \<le> height_at st t"
  shows "chain_at (path st t) (int k) = ancestor_at st t k"
  using assms by (simp add: chain_at_def path_nth)

lemma agree_below:
  assumes "wf_store st" "st t = Some b" "st p = Some c"
    and "ancestor_at st t i = Some q" "ancestor_at st p i = Some q" "k \<le> i"
  shows "ancestor_at st t k = ancestor_at st p k"
  using ancestor_at_trans[OF assms(1,2,4,6)] ancestor_at_trans[OF assms(1,3,5,6)] by simp

definition forks_at :: "index_store \<Rightarrow> ptr \<Rightarrow> ptr \<Rightarrow> nat \<Rightarrow> ptr option \<Rightarrow> bool" where
  "forks_at st t p i r \<longleftrightarrow>
     (\<forall>k\<le>i. ancestor_at st t k = ancestor_at st p k \<longleftrightarrow> (\<exists>q. r = Some q \<and> k \<le> height_at st q))
     \<and> (\<forall>q. r = Some q \<longrightarrow> height_at st q \<le> i \<and> ancestor_at st p (height_at st q) = Some q)"

lemma forks_at_found:
  assumes "wf_store st" "st t = Some b" "st p = Some c"
    and "ancestor_at st t i = Some p" "nHeight c = int i"
  shows "forks_at st t p i (Some p)"
  using agree_below[OF assms(1-4) _, of _] ancestor_at_self[of st p c, OF assms(3)] assms(3,5)
  by (auto simp: forks_at_def height_at_def)

lemma fork_loop_correct:
  assumes "wf_store st" "st t = Some b"
  shows "st p = Some c \<Longrightarrow> nHeight c = int i \<Longrightarrow> i < n \<Longrightarrow> i \<le> height_at st t \<Longrightarrow>
    \<exists>r. fork_loop st (path st t) n (Some p) = Some r \<and> forks_at st t p i r"
proof (induction i arbitrary: n p c)
  case (0 n p c)
  then obtain m where n: "n = Suc m"
    by (cases n) auto
  have pp: "pprev c = None"
    using wf_prev[OF assms(1) 0(1)] 0(2) by force
  have a: "ancestor_at st p 0 = Some p"
    using 0 by (simp add: ancestor_at_def height_at_def)
  show ?case
    using 0 pp a chain_at_path[of 0 st t] forks_at_found[OF assms 0(1), of 0]
    by (auto simp: n Contains_def forks_at_def)
next
  case (Suc i n p c)
  then obtain m where n: "n = Suc m"
    by (cases n) auto
  obtain q d where q: "pprev c = Some q" "st q = Some d" "nHeight d = int i"
    by (rule wf_prev[OF assms(1) Suc.prems(1)]) (use Suc.prems in auto)
  have a: "ancestor_at st p (Suc i) = Some p"
    using ancestor_at_self[of st p c] Suc.prems by (simp del: of_nat_Suc)
  show ?case
  proof (cases "ancestor_at st t (Suc i) = Some p")
    case True
    then show ?thesis
      using Suc.prems chain_at_path[of "Suc i" st t] forks_at_found[OF assms Suc.prems(1) True Suc.prems(2)]
      by (auto simp: n Contains_def)
  next
    case False
    obtain r where r: "fork_loop st (path st t) m (Some q) = Some r" "forks_at st t q i r"
      using Suc.IH[OF q(2,3), of m] Suc.prems n by auto
    have up: "ancestor_at st q k = ancestor_at st p k" if "k \<le> i" for k
      using ancestor_at_prev[OF assms(1) Suc.prems(1) q(1)] Suc.prems(2) that by simp
    have "forks_at st t p (Suc i) r"
      using r(2) up a False by (fastforce simp: forks_at_def le_Suc_eq)
    then show ?thesis
      using False Suc.prems q r chain_at_path[of "Suc i" st t] by (auto simp: n Contains_def)
  qed
qed

lemma FindFork_correct:
  assumes "wf_store st" "st t = Some b" "st p = Some c"
  obtains r where "FindFork st (path st t) (Some p) = Some r"
    "\<And>k. k \<le> height_at st t \<Longrightarrow> k \<le> height_at st p \<Longrightarrow>
      ancestor_at st t k = ancestor_at st p k \<longleftrightarrow> (\<exists>q. r = Some q \<and> k \<le> height_at st q)"
    "\<And>q. r = Some q \<Longrightarrow> height_at st q \<le> height_at st t \<and> height_at st q \<le> height_at st p
      \<and> ancestor_at st p (height_at st q) = Some q"
proof -
  let ?h = "min (height_at st t) (height_at st p)"
  have hp: "nHeight c = int (height_at st p)"
    using wf_height[OF assms(1,3)] assms(3) by (simp add: height_at_def)
  obtain q d where q: "ancestor_at st p ?h = Some q" "st q = Some d" "nHeight d = int ?h"
    by (rule ancestor_at_exists[OF assms(1,3), of ?h]) (use assms(3) in \<open>auto simp: height_at_def\<close>)
  obtain n where n: "n = nat (nHeight c) + 1" "?h < n"
    using hp by simp
  obtain r where r: "fork_loop st (path st t) n (Some q) = Some r" "forks_at st t q ?h r"
    using fork_loop_correct[OF assms(1,2) q(2,3) n(2)] by auto
  have start: "(if nHeight c > Height (path st t) then GetAncestor st p (Height (path st t)) else Some (Some p)) = Some (Some q)"
  proof (cases "height_at st p > height_at st t")
    case True
    then show ?thesis
      using q(1) hp by (simp add: Height_def GetAncestor_correct[OF assms(1,3)])
  next
    case False
    then show ?thesis
      using q(1) ancestor_at_self[of st p c, OF assms(3)] hp by (simp add: Height_def)
  qed
  have "FindFork st (path st t) (Some p) = Some r"
    unfolding FindFork_def option.case assms(3) bind.bind_lunit start n(1)[symmetric] by (rule r(1))
  moreover have "ancestor_at st t k = ancestor_at st p k \<longleftrightarrow> (\<exists>q. r = Some q \<and> k \<le> height_at st q)" if k: "k \<le> ?h" for k
    using r(2)[unfolded forks_at_def, THEN conjunct1, rule_format, OF k]
    unfolding ancestor_at_trans[OF assms(1,3) q(1) k] .
  moreover have "height_at st f \<le> ?h \<and> ancestor_at st p (height_at st f) = Some f" if "r = Some f" for f
    using r(2)[unfolded forks_at_def, THEN conjunct2, rule_format, OF that] ancestor_at_trans[OF assms(1,3) q(1), of "height_at st f"]
    by simp
  ultimately show thesis
    using that by simp
qed

lemma common_loop_correct:
  assumes "wf_store st"
  shows "st a = Some ea \<Longrightarrow> st b = Some eb \<Longrightarrow> nHeight ea = int i \<Longrightarrow> nHeight eb = int i \<Longrightarrow> i < n \<Longrightarrow>
    ancestor_at st a 0 = ancestor_at st b 0 \<Longrightarrow>
    \<exists>r. common_loop st n (Some a) (Some b) = Some (Some r) \<and> forks_at st a b i (Some r)"
proof (induction i arbitrary: n a b ea eb)
  case (0 n a b ea eb)
  then have "a = b"
    by (simp add: ancestor_at_def height_at_def)
  then show ?case
    using 0 forks_at_found[OF assms 0(1,1), of 0]
    by (cases n) (auto simp: common_loop.simps ancestor_at_def height_at_def)
next
  case (Suc i n a b ea eb)
  then obtain m where n: "n = Suc m"
    by (cases n) auto
  have self: "ancestor_at st a (Suc i) = Some a" "ancestor_at st b (Suc i) = Some b"
    using ancestor_at_self[of st a ea] ancestor_at_self[of st b eb] Suc.prems by (simp_all del: of_nat_Suc)
  show ?case
  proof (cases "a = b")
    case True
    then show ?thesis
      using Suc.prems forks_at_found[OF assms Suc.prems(1,1) self(1)] by (auto simp: n common_loop.simps)
  next
    case False
    obtain a' ea' where a': "pprev ea = Some a'" "st a' = Some ea'" "nHeight ea' = int i"
      by (rule wf_prev[OF assms Suc.prems(1)]) (use Suc.prems in auto)
    obtain b' eb' where b': "pprev eb = Some b'" "st b' = Some eb'" "nHeight eb' = int i"
      by (rule wf_prev[OF assms Suc.prems(2)]) (use Suc.prems in auto)
    have up: "ancestor_at st a' k = ancestor_at st a k" "ancestor_at st b' k = ancestor_at st b k" if "k \<le> i" for k
      using ancestor_at_prev[OF assms Suc.prems(1) a'(1)] ancestor_at_prev[OF assms Suc.prems(2) b'(1)]
        Suc.prems(3,4) that by simp_all
    obtain r where r: "common_loop st m (Some a') (Some b') = Some (Some r)" "forks_at st a' b' i (Some r)"
      using Suc.IH[OF a'(2) b'(2) a'(3) b'(3), of m] Suc.prems(5,6) up[of 0] n by auto
    have "forks_at st a b (Suc i) (Some r)"
      using r(2) up self False by (fastforce simp: forks_at_def le_Suc_eq)
    then show ?thesis
      using r(1) a' b' Suc.prems False by (auto simp: n common_loop.simps[of st "Suc m"])
  qed
qed

lemma LastCommonAncestor_correct:
  assumes "wf_store st" "st a = Some ea" "st b = Some eb" "ancestor_at st a 0 = ancestor_at st b 0"
  obtains r where "LastCommonAncestor st a b = Some (Some r)"
    "\<And>k. k \<le> height_at st a \<Longrightarrow> k \<le> height_at st b \<Longrightarrow>
      ancestor_at st a k = ancestor_at st b k \<longleftrightarrow> k \<le> height_at st r"
    "ancestor_at st a (height_at st r) = Some r" "ancestor_at st b (height_at st r) = Some r"
proof -
  let ?h = "min (height_at st a) (height_at st b)"
  have h: "nHeight ea = int (height_at st a)" "nHeight eb = int (height_at st b)"
    using wf_height[OF assms(1,2)] wf_height[OF assms(1,3)] assms(2,3) by (simp_all add: height_at_def)
  obtain a' ea' where a': "ancestor_at st a ?h = Some a'" "st a' = Some ea'" "nHeight ea' = int ?h"
    by (rule ancestor_at_exists[OF assms(1,2), of ?h]) (use h in auto)
  obtain b' eb' where b': "ancestor_at st b ?h = Some b'" "st b' = Some eb'" "nHeight eb' = int ?h"
    by (rule ancestor_at_exists[OF assms(1,3), of ?h]) (use h in auto)
  note down = ancestor_at_trans[OF assms(1,2) a'(1)] ancestor_at_trans[OF assms(1,3) b'(1)]
  obtain n where n: "n = nat (min (nHeight ea) (nHeight eb)) + 1" "?h < n"
    using h by (simp add: min_def)
  have eq0: "ancestor_at st a' 0 = ancestor_at st b' 0"
    using down[of 0] assms(4) by simp
  obtain r where r: "common_loop st n (Some a') (Some b') = Some (Some r)" "forks_at st a' b' ?h (Some r)"
    using common_loop_correct[OF assms(1) a'(2) b'(2) a'(3) b'(3) n(2) eq0] by blast
  have sa: "(if nHeight ea > nHeight eb then GetAncestor st a (nHeight eb) else Some (Some a)) = Some (Some a')"
    using a'(1) h ancestor_at_self[of st a ea, OF assms(2)]
    by (cases "nHeight ea > nHeight eb") (simp_all add: GetAncestor_correct[OF assms(1,2)])
  have sb: "(if nHeight eb > nHeight ea then GetAncestor st b (nHeight ea) else Some (Some b)) = Some (Some b')"
    using b'(1) h ancestor_at_self[of st b eb, OF assms(3)]
    by (cases "nHeight eb > nHeight ea") (simp_all add: GetAncestor_correct[OF assms(1,3)])
  have l: "LastCommonAncestor st a b = Some (Some r)"
    unfolding LastCommonAncestor_def assms(2,3) bind.bind_lunit sa sb n(1)[symmetric] by (rule r(1))
  have agree: "ancestor_at st a k = ancestor_at st b k \<longleftrightarrow> k \<le> height_at st r" if k: "k \<le> ?h" for k
    using r(2)[unfolded forks_at_def, THEN conjunct1, rule_format, OF k]
    unfolding down(1)[OF k] down(2)[OF k] by simp
  have hr: "height_at st r \<le> ?h" "ancestor_at st b' (height_at st r) = Some r"
    using r(2) by (simp_all add: forks_at_def)
  then have "ancestor_at st b (height_at st r) = Some r" "ancestor_at st a (height_at st r) = Some r"
    using down(2)[OF hr(1)] agree[OF hr(1)] by simp_all
  with l agree show thesis
    by (intro that) auto
qed

definition hash_at :: "index_store \<Rightarrow> ptr \<Rightarrow> nat \<Rightarrow> uint256" where
  "hash_at st p h = (case ancestor_at st p h \<bind> st of None \<Rightarrow> 0 | Some b \<Rightarrow> GetBlockHash b)"

lemma locator_loop_correct:
  assumes "wf_store st" "active st v"
  shows "st p = Some c \<Longrightarrow> nHeight c = int i \<Longrightarrow> i < n \<Longrightarrow> 0 < nStep \<Longrightarrow>
    \<exists>ks. locator_loop st v n vHave nStep (Some p) = Some (vHave @ map (hash_at st p) ks)
      \<and> ks \<noteq> [] \<and> hd ks = i \<and> last ks = 0 \<and> sorted_wrt (>) ks"
proof (induction i arbitrary: p c n vHave nStep rule: less_induct)
  case (less i p c n vHave nStep)
  then obtain m where n: "n = Suc m"
    by (cases n) auto
  have self: "ancestor_at st p i = Some p" "hash_at st p i = GetBlockHash c"
    using ancestor_at_self[of st p c] less.prems by (simp_all add: hash_at_def)
  show ?case
  proof (cases "i = 0")
    case True
    then show ?thesis
      using less.prems self by (intro exI[of _ "[0]"]) (simp add: n)
  next
    case False
    define h where "h = nat (max (int i - nStep) 0)"
    have h: "h < i" "max (nHeight c - nStep) 0 = int h"
      using False less.prems by (auto simp: h_def)
    obtain q d where q: "ancestor_at st p h = Some q" "st q = Some d" "nHeight d = int h"
      by (rule ancestor_at_exists[OF assms(1) less.prems(1), of h]) (use h less.prems in auto)
    have chain: "chain_at v (int h) = Some q" if "chain_at v (int i) = Some p"
    proof -
      obtain t b where t: "st t = Some b" "v = path st t" "i \<le> height_at st t"
      proof (cases "v = []")
        case False
        then obtain t b where "st t = Some b" "v = path st t"
          using assms(2) by (auto simp: active_def)
        then show thesis
          using \<open>chain_at v (int i) = Some p\<close> that by (auto simp: chain_at_def split: if_splits)
      qed (use \<open>chain_at v (int i) = Some p\<close> in \<open>simp add: chain_at_def\<close>)
      then have "ancestor_at st t i = Some p"
        using that chain_at_path[of i st t] by simp
      then show ?thesis
        using ancestor_at_trans[OF assms(1) t(1), of i p h] h(1) t chain_at_path[of h st t] q by simp
    qed
    let ?s = "if length vHave + 1 > 10 then nStep * 2 else nStep"
    have "0 < ?s" "h < m"
      using less.prems(3,4) h(1) n by simp_all
    then obtain ks where ks: "locator_loop st v m (vHave @ [GetBlockHash c]) ?s (Some q)
        = Some ((vHave @ [GetBlockHash c]) @ map (hash_at st q) ks)"
      "ks \<noteq> []" "hd ks = h" "last ks = 0" "sorted_wrt (>) ks"
      using less.IH[OF h(1) q(2,3), of m ?s "vHave @ [GetBlockHash c]"] by auto
    have le: "k \<le> h" if "k \<in> set ks" for k
      using ks(2,3,5) that by (cases ks) auto
    have "map (hash_at st q) ks = map (hash_at st p) ks"
      using ancestor_at_trans[OF assms(1) less.prems(1) q(1)] le by (simp add: hash_at_def)
    moreover have "locator_loop st v n vHave nStep (Some p)
        = locator_loop st v m (vHave @ [GetBlockHash c]) ?s (Some q)"
      using less.prems(1,2) False h chain q(1)
      by (simp add: n Contains_def GetAncestor_correct[OF assms(1) less.prems(1)] Let_def)
    ultimately show ?thesis
      using ks self le h(1) by (intro exI[of _ "i # ks"]) force
  qed
qed

text \<open>A small tree: three entries on one branch, and a second entry at height 1.\<close>

definition ex_entry :: "ptr option \<Rightarrow> ptr option \<Rightarrow> int \<Rightarrow> uint256 \<Rightarrow> CBlockIndex" where
  "ex_entry prv skp h hash =
     (CBlockIndex_of_header \<lparr>hd_nVersion = 0x20000000, hd_hashPrevBlock = 0, hd_hashMerkleRoot = 0, hd_nTime = of_int (60 * h),
        hd_nBits = 0x2000ffff, hd_nNonce = 0, hd_nHeight = of_int h, hd_nNonce64 = 0, hd_mix_hash = 0\<rparr>)
     \<lparr>phashBlock := Some hash, pprev := prv, pskip := skp, nHeight := h\<rparr>"

definition ex_store :: index_store where
  "ex_store = [0 \<mapsto> ex_entry None None 0 10, 1 \<mapsto> ex_entry (Some 0) (Some 0) 1 11,
     2 \<mapsto> ex_entry (Some 1) (Some 0) 2 12, 3 \<mapsto> ex_entry (Some 0) (Some 0) 1 13]"

lemma ex_entry_simps [simp]:
  "nHeight (ex_entry p s h x) = h" "pprev (ex_entry p s h x) = p" "pskip (ex_entry p s h x) = s"
  "phashBlock (ex_entry p s h x) = Some x"
  by (simp_all add: ex_entry_def)

lemma ex_store_wf: "wf_store ex_store"
  by (auto simp: wf_store_def wf_entry_def ex_store_def ancestor_at_def height_at_def prev_n_numeral GetSkipHeight_def InvertLowestOne_def
      split: if_splits)

section \<open>The searches in the tree\<close>

text \<open>C15. \<open>GetAncestor\<close>, which jumps over skip pointers, finds the same entry as walking back one predecessor at a
  time, for every height; outside the range of heights it returns a null pointer. It never follows a
  bad pointer and its assertion never fails.\<close>

theorem GetAncestor_is_walk_back:
  assumes "wf_store st" "st p = Some b"
  shows "GetAncestor st p h = Some (if 0 \<le> h \<and> h \<le> nHeight b then prev_n st (nat (nHeight b - h)) p else None)
    \<and> (0 \<le> h \<and> h \<le> nHeight b \<longrightarrow> (\<exists>q c. GetAncestor st p h = Some (Some q) \<and> st q = Some c \<and> nHeight c = h))"
proof -
  have "ancestor_at st p (nat h) = prev_n st (nat (nHeight b - h)) p" if "0 \<le> h" "h \<le> nHeight b"
    using that assms(2) by (simp add: ancestor_at_def height_at_def nat_diff_distrib)
  moreover have "ancestor_at st p (nat h) = None" if "h > nHeight b"
    using that assms(2) wf_height[OF assms] by (simp add: ancestor_at_def height_at_def)
  moreover have "\<exists>q c. ancestor_at st p (nat h) = Some q \<and> st q = Some c \<and> nHeight c = h" if "0 \<le> h" "h \<le> nHeight b"
    by (rule ancestor_at_exists[OF assms, of "nat h"]) (use that in auto)
  ultimately show ?thesis
    unfolding GetAncestor_correct[OF assms] by auto
qed

theorem GetAncestor_is_walk_back_witness:
  "wf_store ex_store \<and> GetAncestor ex_store 2 0 = Some (prev_n ex_store 2 2)"
  using GetAncestor_is_walk_back[OF ex_store_wf, of 2 "ex_entry (Some 1) (Some 0) 2 12" 0] ex_store_wf
  by (simp add: ex_store_def prev_n_numeral)

text \<open>C31. The loops of the active chain end on a well-formed tree, within as many steps as there are blocks below
  their start: \<open>SetTip\<close> leaves exactly the path from the root to the new tip whatever the chain was
  before, \<open>FindFork\<close> and \<open>LastCommonAncestor\<close> return the entry up to which two branches agree, and a
  locator lists ancestors in falling height from its start down to the root.\<close>

theorem chain_searches_end:
  assumes "wf_store st" "st t = Some bt" "st p = Some bp" "active st v" "ancestor_at st t 0 = ancestor_at st p 0"
  shows "SetTip st v (Some t) = Some (path st t)
    \<and> (\<exists>f. FindFork st (path st t) (Some p) = Some (Some f) \<and> LastCommonAncestor st t p = Some (Some f)
        \<and> (\<forall>k. k \<le> height_at st t \<and> k \<le> height_at st p \<longrightarrow>
              ancestor_at st t k = ancestor_at st p k \<longleftrightarrow> k \<le> height_at st f))
    \<and> (\<exists>ks. GetLocator st v (Some p) = Some (map (hash_at st p) ks) \<and> ks \<noteq> [] \<and> hd ks = height_at st p
        \<and> last ks = 0 \<and> sorted_wrt (>) ks)"
proof (intro conjI)
  show "SetTip st v (Some t) = Some (path st t)"
    using SetTip_correct[OF assms(1,4,2)] .
  show "\<exists>ks. GetLocator st v (Some p) = Some (map (hash_at st p) ks) \<and> ks \<noteq> [] \<and> hd ks = height_at st p
        \<and> last ks = 0 \<and> sorted_wrt (>) ks"
    using locator_loop_correct[OF assms(1,4,3), of "nat (nHeight bp)" "nat (nHeight bp) + 1" 1 "[]"]
      wf_height[OF assms(1,3)] assms(3)
    by (simp add: GetLocator_def height_at_def del: locator_loop.simps)
  obtain r where r: "FindFork st (path st t) (Some p) = Some r"
    "\<And>k. k \<le> height_at st t \<Longrightarrow> k \<le> height_at st p \<Longrightarrow>
      ancestor_at st t k = ancestor_at st p k \<longleftrightarrow> (\<exists>q. r = Some q \<and> k \<le> height_at st q)"
    "\<And>q. r = Some q \<Longrightarrow> height_at st q \<le> height_at st t \<and> height_at st q \<le> height_at st p
      \<and> ancestor_at st p (height_at st q) = Some q"
    using FindFork_correct[OF assms(1-3)] by blast
  obtain f where f: "LastCommonAncestor st t p = Some (Some f)"
    "\<And>k. k \<le> height_at st t \<Longrightarrow> k \<le> height_at st p \<Longrightarrow>
      ancestor_at st t k = ancestor_at st p k \<longleftrightarrow> k \<le> height_at st f"
    "ancestor_at st t (height_at st f) = Some f" "ancestor_at st p (height_at st f) = Some f"
    using LastCommonAncestor_correct[OF assms(1-3,5)] by blast
  obtain q where q: "r = Some q"
    using r(2)[of 0] assms(5) by auto
  have fh: "height_at st f \<le> height_at st t" "height_at st f \<le> height_at st p"
    using f(3,4) by (simp_all add: ancestor_at_def split: if_splits)
  have qh: "height_at st q \<le> height_at st t" "height_at st q \<le> height_at st p" "ancestor_at st p (height_at st q) = Some q"
    using r(3)[OF q] by simp_all
  have "height_at st f \<le> height_at st q"
    using r(2)[OF fh] f(3,4) q by simp
  moreover have "height_at st q \<le> height_at st f"
    using f(2)[OF qh(1,2)] r(2)[OF qh(1,2)] q by simp
  ultimately have "q = f"
    using qh(3) f(4) by simp
  show "\<exists>f. FindFork st (path st t) (Some p) = Some (Some f) \<and> LastCommonAncestor st t p = Some (Some f)
        \<and> (\<forall>k. k \<le> height_at st t \<and> k \<le> height_at st p \<longrightarrow>
              ancestor_at st t k = ancestor_at st p k \<longleftrightarrow> k \<le> height_at st f)"
    using r(1) q \<open>q = f\<close> f(1,2) by auto
qed

theorem chain_searches_end_witness:
  "wf_store ex_store \<and> active ex_store [] \<and> ancestor_at ex_store 2 0 = ancestor_at ex_store 3 0
    \<and> SetTip ex_store [] (Some 2) = Some (path ex_store 2)"
proof -
  have e: "ex_store 2 = Some (ex_entry (Some 1) (Some 0) 2 12)" "ex_store 3 = Some (ex_entry (Some 0) (Some 0) 1 13)"
    by (simp_all add: ex_store_def)
  have root: "ancestor_at ex_store 2 0 = ancestor_at ex_store 3 0"
    by (simp add: ex_store_def ancestor_at_def height_at_def prev_n_numeral)
  have nil: "active ex_store []"
    by (simp add: active_def)
  show ?thesis
    by (intro conjI ex_store_wf nil root chain_searches_end[OF ex_store_wf e nil root, THEN conjunct1])
qed

end
