(* ===== verification/Pow.thy ===== *)
theory Pow
  imports BlockIndex
begin

text \<open>
  The target that a new block has to meet (\<^verbatim>\<open>src/src/pow.cpp\<close>): Dark Gravity Wave over the last 180 blocks, the
  older rule with one adjustment per interval, and the check of a hash against its compact target.
  The chain parameters are positive, so that the divisions and remainders of the code round down.
\<close>

section \<open>Parameters\<close>

record pow_params =
  powLimit :: uint256
  fPowAllowMinDifficultyBlocks :: bool
  fPowNoRetargeting :: bool
  nPowTargetSpacing :: int
  nPowTargetTimespan :: int
  nPowDGWHeight :: int
  nMinimumDifficultyBlocks :: int

definition DifficultyAdjustmentInterval :: "pow_params \<Rightarrow> int" where
  "DifficultyAdjustmentInterval P = nPowTargetTimespan P div nPowTargetSpacing P"

definition main_pow :: pow_params where
  "main_pow =
     \<lparr>powLimit = 0x00ffffffffffffffffffffffffffffffffffffffffffffffffffffffffffffff,
      fPowAllowMinDifficultyBlocks = False, fPowNoRetargeting = False, nPowTargetSpacing = 60,
      nPowTargetTimespan = 2016 * 60, nPowDGWHeight = 1, nMinimumDifficultyBlocks = 0\<rparr>"

definition KAWPOW_TIME :: u32 where "KAWPOW_TIME = 1651444217"

definition UintToArith256 :: "uint256 \<Rightarrow> limbs" where
  "UintToArith256 a = map (\<lambda>x. ucast (drop_bit (32 * x) a)) [0..<WIDTH]"

section \<open>The next target\<close>

text \<open>
  The walk back over blocks with the minimum difficulty is bounded by the height it starts from, plus one. All the
  results are options, with \<open>None\<close> for a failed assertion and for the exception of a division by zero.
\<close>

fun last_regular_bits :: "index_store \<Rightarrow> nat \<Rightarrow> int \<Rightarrow> u32 \<Rightarrow> ptr \<Rightarrow> u32 option" where
  "last_regular_bits st 0 interval limit p = None"
| "last_regular_bits st (Suc n) interval limit p =
     do {
       b \<leftarrow> st p;
       case pprev b of
         None \<Rightarrow> Some (nBits b)
       | Some q \<Rightarrow>
           if nHeight b mod interval \<noteq> 0 \<and> nBits b = limit then last_regular_bits st n interval limit q
           else Some (nBits b)
     }"

definition nPastBlocks :: nat where "nPastBlocks = 180"

definition dgw_avg :: "nat \<Rightarrow> limbs \<Rightarrow> u32 \<Rightarrow> limbs option" where
  "dgw_avg c avg bits =
     (let bnTarget = fst (SetCompact bits) in
      if c = 1 then Some bnTarget
      else limbs_div (limbs_add (limbs_mul32 avg (of_nat c)) bnTarget) (of_uint64 (of_nat (c + 1))))"

text \<open>\<open>dgw_loop st c n p avg k\<close> makes the last \<open>n\<close> rounds of the loop, with \<open>c\<close> as \<^verbatim>\<open>nCountBlocks\<close>.\<close>

fun dgw_loop :: "index_store \<Rightarrow> nat \<Rightarrow> nat \<Rightarrow> ptr \<Rightarrow> limbs \<Rightarrow> nat \<Rightarrow> (ptr \<times> limbs \<times> nat) option" where
  "dgw_loop st c 0 p avg found = Some (p, avg, found)"
| "dgw_loop st c (Suc n) p avg found =
     do {
       b \<leftarrow> st p;
       avg' \<leftarrow> dgw_avg c avg (nBits b);
       let found' = (if nTime b \<ge> KAWPOW_TIME then found + 1 else found);
       if c \<noteq> nPastBlocks then pprev b \<bind> (\<lambda>q. dgw_loop st (c + 1) n q avg' found')
       else dgw_loop st (c + 1) n p avg' found'
     }"

definition clamp_timespan :: "int \<Rightarrow> int \<Rightarrow> int \<Rightarrow> int" where
  "clamp_timespan nActualTimespan lo hi =
     (let t = (if nActualTimespan < lo then lo else nActualTimespan) in if t > hi then hi else t)"

definition retarget :: "pow_params \<Rightarrow> limbs \<Rightarrow> int \<Rightarrow> int \<Rightarrow> u32 option" where
  "retarget P bn nActualTimespan nTargetTimespan =
     (let bnPowLimit = UintToArith256 (powLimit P) in
      do {
        bnNew \<leftarrow> limbs_div (limbs_mul32 bn (of_int nActualTimespan)) (of_uint64 (of_int nTargetTimespan));
        GetCompact (if CompareTo bnNew bnPowLimit > 0 then bnPowLimit else bnNew) False
      })"

definition DarkGravityWave :: "index_store \<Rightarrow> pow_params \<Rightarrow> ptr option \<Rightarrow> CBlockHeader \<Rightarrow> u32 option" where
  "DarkGravityWave st P pindexLast pblock =
     do {
       p \<leftarrow> pindexLast;
       nProofOfWorkLimit \<leftarrow> GetCompact (UintToArith256 (powLimit P)) False;
       b \<leftarrow> st p;
       if nHeight b < int nPastBlocks then Some nProofOfWorkLimit
       else if fPowAllowMinDifficultyBlocks P \<and> fPowNoRetargeting P then
         if uint (hd_nTime pblock) > GetBlockTime b + nPowTargetSpacing P * 2 then Some nProofOfWorkLimit
         else last_regular_bits st (nat (nHeight b) + 1) (DifficultyAdjustmentInterval P) nProofOfWorkLimit p
       else do {
         (q, avg, nKAWPOWBlocksFound) \<leftarrow> dgw_loop st 1 nPastBlocks p (of_uint64 0) 0;
         if hd_nTime pblock \<ge> KAWPOW_TIME \<and> nKAWPOWBlocksFound \<noteq> nPastBlocks then Some nProofOfWorkLimit
         else do {
           c \<leftarrow> st q;
           let nTargetTimespan = int nPastBlocks * nPowTargetSpacing P;
           retarget P avg
             (clamp_timespan (GetBlockTime b - GetBlockTime c) (nTargetTimespan div 3) (nTargetTimespan * 3)) nTargetTimespan
         }
       }
     }"

definition CalculateNextWorkRequired :: "index_store \<Rightarrow> pow_params \<Rightarrow> ptr \<Rightarrow> int \<Rightarrow> u32 option" where
  "CalculateNextWorkRequired st P pindexLast nFirstBlockTime =
     do {
       b \<leftarrow> st pindexLast;
       if fPowNoRetargeting P then Some (nBits b)
       else retarget P (fst (SetCompact (nBits b)))
         (clamp_timespan (GetBlockTime b - nFirstBlockTime) (nPowTargetTimespan P div 4) (nPowTargetTimespan P * 4))
         (nPowTargetTimespan P)
     }"

definition GetNextWorkRequiredBTC :: "index_store \<Rightarrow> pow_params \<Rightarrow> ptr option \<Rightarrow> CBlockHeader \<Rightarrow> u32 option" where
  "GetNextWorkRequiredBTC st P pindexLast pblock =
     do {
       p \<leftarrow> pindexLast;
       nProofOfWorkLimit \<leftarrow> GetCompact (UintToArith256 (powLimit P)) False;
       b \<leftarrow> st p;
       if (nHeight b + 1) mod DifficultyAdjustmentInterval P \<noteq> 0 then
         if fPowAllowMinDifficultyBlocks P then
           if uint (hd_nTime pblock) > GetBlockTime b + nPowTargetSpacing P * 2 then Some nProofOfWorkLimit
           else last_regular_bits st (nat (nHeight b) + 1) (DifficultyAdjustmentInterval P) nProofOfWorkLimit p
         else Some (nBits b)
       else
         let nHeightFirst = nHeight b - (DifficultyAdjustmentInterval P - 1) in
         if nHeightFirst < 0 then None
         else do {
           r \<leftarrow> GetAncestor st p nHeightFirst;
           pindexFirst \<leftarrow> r;
           c \<leftarrow> st pindexFirst;
           CalculateNextWorkRequired st P p (GetBlockTime c)
         }
     }"

definition GetNextWorkRequired :: "index_store \<Rightarrow> pow_params \<Rightarrow> ptr option \<Rightarrow> CBlockHeader \<Rightarrow> u32 option" where
  "GetNextWorkRequired st P pindexLast pblock =
     do {
       p \<leftarrow> pindexLast;
       b \<leftarrow> st p;
       if nHeight b < nMinimumDifficultyBlocks P then GetCompact (UintToArith256 (powLimit P)) False
       else if nHeight b + 1 < nPowDGWHeight P then GetNextWorkRequiredBTC st P pindexLast pblock
       else DarkGravityWave st P pindexLast pblock
     }"

definition CheckProofOfWork :: "uint256 \<Rightarrow> u32 \<Rightarrow> pow_params \<Rightarrow> bool" where
  "CheckProofOfWork hash bits P =
     (let (bnTarget, fNegative, fOverflow) = SetCompact bits in
      if fNegative \<or> EqualTo bnTarget 0 \<or> fOverflow \<or> CompareTo bnTarget (UintToArith256 (powLimit P)) > 0 then False
      else if CompareTo (UintToArith256 hash) bnTarget > 0 then False
      else True)"

section \<open>Values\<close>

lemma UintToArith256_wf [simp]: "wf_limbs (UintToArith256 a)"
  by (simp add: UintToArith256_def wf_limbs_def)

lemma UintToArith256_val [simp]: "limbs_val (UintToArith256 a) = unat a"
proof (rule bit_eqI)
  fix n :: nat
  have "n div 32 < 8 \<longleftrightarrow> n < 256"
    by (simp add: div_less_iff_less_mult)
  moreover have "n div 32 * 32 + n mod 32 = n"
    by simp
  ultimately show "bit (limbs_val (UintToArith256 a)) n = bit (unat a) n"
    using bit_imp_le_length[of a n]
    by (auto simp: limbs_val_bit UintToArith256_def limb_at_map WIDTH_def bit_simps bit_unsigned_iff mult.commute)
qed

definition target :: "u32 \<Rightarrow> nat" where
  "target bits = limbs_val (fst (SetCompact bits))"

lemma SetCompact_wf [simp]: "wf_limbs (fst (SetCompact c))"
  using SetCompact_val(1)[of c] by (cases "SetCompact c") auto

lemma target_val:
  "target c = (if unat (drop_bit 24 c) \<le> 3 then unat (and c 0x007fffff) div 256 ^ (3 - unat (drop_bit 24 c))
     else unat (and c 0x007fffff) * 256 ^ (unat (drop_bit 24 c) - 3) mod 2 ^ 256)"
  using SetCompact_val(2)[of c] by (cases "SetCompact c") (simp add: target_def)

lemma wf_limbs_less: "wf_limbs a \<Longrightarrow> limbs_val a < 2 ^ 256"
  using limbs_val_less[of a] by (simp add: wf_limbs_def WIDTH_def)

lemma CompareTo_gt: "wf_limbs a \<Longrightarrow> wf_limbs b \<Longrightarrow> CompareTo a b > 0 \<longleftrightarrow> limbs_val b < limbs_val a"
  by (simp add: CompareTo_val wf_limbs_def)

lemma CheckProofOfWork_iff:
  "CheckProofOfWork hash bits P \<longleftrightarrow> snd (SetCompact bits) = (False, False) \<and> 0 < target bits
     \<and> target bits \<le> unat (powLimit P) \<and> unat hash \<le> target bits"
  using SetCompact_wf[of bits]
  by (cases "SetCompact bits") (auto simp: CheckProofOfWork_def target_def EqualTo_val CompareTo_gt)

lemma limbs_mul32_val: "wf_limbs a \<Longrightarrow> limbs_val (limbs_mul32 a n) = limbs_val a * unat n mod 2 ^ 256 \<and> wf_limbs (limbs_mul32 a n)"
  by (simp add: limbs_mul32_def mul32_loop_val wf_limbs_def WIDTH_def mult.commute)

lemma limbs_add_val:
  "wf_limbs a \<Longrightarrow> wf_limbs b \<Longrightarrow>
   limbs_val (limbs_add a b) = (limbs_val a + limbs_val b) mod 2 ^ 256 \<and> wf_limbs (limbs_add a b)"
  by (simp add: limbs_add_def add_loop_val wf_limbs_def WIDTH_def)

lemma limbs_div_some:
  assumes "wf_limbs a" "wf_limbs b" "limbs_val b \<noteq> 0"
  obtains q where "limbs_div a b = Some q" "wf_limbs q" "limbs_val q = limbs_val a div limbs_val b"
proof -
  obtain q where "limbs_div a b = Some q"
    using limbs_div_val(1)[OF assms(1,2)] assms(3) by (cases "limbs_div a b") simp_all
  then show thesis
    using that limbs_div_val(2)[OF assms(1,2)] by blast
qed

lemma compact_of:
  assumes "wf_limbs a"
  obtains c where "GetCompact a False = Some c" "snd (SetCompact c) = (False, False)" "target c \<le> limbs_val a"
    "(limbs_val a - target c) * 2 ^ 15 \<le> target c"
  using compact_round[OF assms] that by (auto simp: target_def)

lemma retarget_val:
  fixes P :: pow_params
  assumes "wf_limbs bn" "0 \<le> t" "t < 2 ^ 32" "0 < T" "T < 2 ^ 64"
  defines "new \<equiv> min (unat (powLimit P)) (limbs_val bn * nat t mod 2 ^ 256 div nat T)"
  obtains c where "retarget P bn t T = Some c" "snd (SetCompact c) = (False, False)" "target c \<le> new"
    "(new - target c) * 2 ^ 15 \<le> target c"
proof -
  have t: "unat (of_int t :: u32) = nat t"
    using assms(2,3) by (simp add: unat_eq_nat_uint uint_word_of_int take_bit_eq_mod)
  have T: "limbs_val (of_uint64 (of_int T)) = nat T"
    using assms(4,5) by (simp add: of_uint64_val unat_eq_nat_uint uint_word_of_int take_bit_eq_mod)
  obtain q where q: "limbs_div (limbs_mul32 bn (of_int t)) (of_uint64 (of_int T)) = Some q" "wf_limbs q"
    "limbs_val q = limbs_val bn * nat t mod 2 ^ 256 div nat T"
    using limbs_div_some[of "limbs_mul32 bn (of_int t)" "of_uint64 (of_int T)"] limbs_mul32_val[OF assms(1), of "of_int t"] T t
      of_uint64_wf assms(4) by auto
  define r where "r = (if CompareTo q (UintToArith256 (powLimit P)) > 0 then UintToArith256 (powLimit P) else q)"
  have r: "wf_limbs r" "limbs_val r = new"
    using q by (auto simp: r_def new_def CompareTo_gt)
  obtain c where "GetCompact r False = Some c" "snd (SetCompact c) = (False, False)" "target c \<le> new"
    "(new - target c) * 2 ^ 15 \<le> target c"
    using compact_of[OF r(1)] r(2) by metis
  then show thesis
    using that q(1) by (simp add: retarget_def r_def)
qed

section \<open>The window of the last blocks\<close>

definition window_all :: "index_store \<Rightarrow> ptr \<Rightarrow> nat \<Rightarrow> (CBlockIndex \<Rightarrow> bool) \<Rightarrow> bool" where
  "window_all st p n Q \<longleftrightarrow> (\<forall>i<n. \<forall>q c. prev_n st i p = Some q \<longrightarrow> st q = Some c \<longrightarrow> Q c)"

lemma window_all_first: "window_all st p (Suc n) Q \<Longrightarrow> st p = Some b \<Longrightarrow> Q b"
  by (force simp: window_all_def)

lemma window_all_prev:
  assumes "window_all st p (Suc n) Q" "st p = Some b" "pprev b = Some q"
  shows "window_all st q n Q"
  unfolding window_all_def
proof (intro allI impI)
  fix i r c
  assume "i < n" "prev_n st i q = Some r" "st r = Some c"
  then show "Q c"
    using assms unfolding window_all_def by (auto dest: spec[of _ "Suc i"])
qed

lemma average_between:
  fixes lo hi :: nat
  assumes "lo \<le> a" "a \<le> hi" "lo \<le> t" "t \<le> hi"
  shows "lo \<le> (a * c + t) div (c + 1) \<and> (a * c + t) div (c + 1) \<le> hi"
proof -
  have "lo * c + lo \<le> a * c + t" "a * c + t \<le> hi * c + hi"
    using assms by (simp_all add: add_mono)
  then have "lo * (c + 1) \<le> a * c + t" "a * c + t \<le> hi * (c + 1)"
    by (simp_all add: algebra_simps)
  then show ?thesis
    by (metis Suc_eq_plus1 div_le_mono div_mult_self_is_m zero_less_Suc)
qed

lemma dgw_average:
  assumes "c = 1 \<or> wf_limbs avg \<and> lo \<le> limbs_val avg \<and> limbs_val avg \<le> hi"
    and "lo \<le> target bits" "target bits \<le> hi" "hi * (nPastBlocks + 1) < 2 ^ 256" "c \<le> nPastBlocks"
  obtains avg' where "dgw_avg c avg bits = Some avg'" "wf_limbs avg'" "lo \<le> limbs_val avg'" "limbs_val avg' \<le> hi"
proof (cases "c = 1")
  case True
  then show thesis
    using that[of "fst (SetCompact bits)"] assms(2,3) by (simp add: dgw_avg_def target_def)
next
  case False
  then have a: "wf_limbs avg" "lo \<le> limbs_val avg" "limbs_val avg \<le> hi"
    using assms(1) by simp_all
  have c: "unat (of_nat c :: u32) = c" "unat (of_nat (c + 1) :: u64) = c + 1"
    unfolding unat_of_nat using assms(5) by (simp_all add: take_bit_eq_mod nPastBlocks_def)
  have "limbs_val avg * c \<le> hi * c"
    using a(3) by simp
  moreover have "hi * c + hi \<le> hi * (nPastBlocks + 1)"
    using assms(5) by (simp add: algebra_simps)
  ultimately have lt: "limbs_val avg * c + target bits < 2 ^ 256" "limbs_val avg * c < 2 ^ 256"
    using assms(3,4) by linarith+
  let ?sum = "limbs_add (limbs_mul32 avg (of_nat c)) (fst (SetCompact bits))"
  have "wf_limbs ?sum" "limbs_val ?sum = limbs_val avg * c + target bits"
    using limbs_mul32_val[OF a(1), of "of_nat c"] limbs_add_val[of "limbs_mul32 avg (of_nat c)" "fst (SetCompact bits)"] lt
    by (simp_all only: c target_def SetCompact_wf mod_less simp_thms)
  then obtain q where "limbs_div ?sum (of_uint64 (of_nat (c + 1))) = Some q" "wf_limbs q"
    "limbs_val q = (limbs_val avg * c + target bits) div (c + 1)"
    using limbs_div_some[of ?sum "of_uint64 (of_nat (c + 1))"] of_uint64_wf c(2) of_uint64_val by (metis add_is_0 one_neq_zero)
  then show thesis
    using that False average_between[OF a(2,3) assms(2,3), of c] by (simp add: dgw_avg_def Let_def)
qed

lemma dgw_avg_some:
  assumes "wf_limbs avg" "c \<le> nPastBlocks"
  obtains avg' where "dgw_avg c avg bits = Some avg'" "wf_limbs avg'"
proof (cases "c = 1")
  case True
  then show thesis
    using that[of "fst (SetCompact bits)"] by (simp add: dgw_avg_def)
next
  case False
  have "unat (of_nat (c + 1) :: u64) = c + 1"
    unfolding unat_of_nat using assms(2) by (simp add: take_bit_eq_mod nPastBlocks_def)
  then have nz: "limbs_val (of_uint64 (of_nat (c + 1))) \<noteq> 0"
    by (simp only: of_uint64_val)
  have eq: "dgw_avg c avg bits = limbs_div (limbs_add (limbs_mul32 avg (of_nat c)) (fst (SetCompact bits))) (of_uint64 (of_nat (c + 1)))"
    using False by (simp add: dgw_avg_def Let_def)
  have "wf_limbs (limbs_add (limbs_mul32 avg (of_nat c)) (fst (SetCompact bits)))"
    using limbs_add_val limbs_mul32_val[OF assms(1)] SetCompact_wf by blast
  then obtain q where "dgw_avg c avg bits = Some q" "wf_limbs q"
    unfolding eq by (rule limbs_div_some[OF _ of_uint64_wf nz])
  then show thesis
    by (rule that)
qed

lemma dgw_loop_val:
  assumes wf: "wf_store st" and big: "hi * (nPastBlocks + 1) < 2 ^ 256"
  shows "st p = Some b \<Longrightarrow> c + n = nPastBlocks \<Longrightarrow> 1 \<le> c \<Longrightarrow> int n \<le> nHeight b \<Longrightarrow>
    window_all st p (Suc n) (\<lambda>b. lo \<le> target (nBits b) \<and> target (nBits b) \<le> hi) \<Longrightarrow>
    c = 1 \<or> wf_limbs avg \<and> lo \<le> limbs_val avg \<and> limbs_val avg \<le> hi \<Longrightarrow>
    \<exists>q avg' k. dgw_loop st c (Suc n) p avg found = Some (q, avg', k) \<and> prev_n st n p = Some q
      \<and> wf_limbs avg' \<and> lo \<le> limbs_val avg' \<and> limbs_val avg' \<le> hi
      \<and> (window_all st p (Suc n) (\<lambda>b. nTime b \<ge> KAWPOW_TIME) \<longrightarrow> k = found + Suc n)"
proof (induction n arbitrary: c p b avg found)
  case (0 c p b avg found)
  have t: "lo \<le> target (nBits b)" "target (nBits b) \<le> hi" "c \<le> nPastBlocks"
    using window_all_first[OF 0(5,1)] 0(2) by simp_all
  obtain avg' where "dgw_avg c avg (nBits b) = Some avg'" "wf_limbs avg'" "lo \<le> limbs_val avg'" "limbs_val avg' \<le> hi"
    using dgw_average[OF 0(6) t(1,2) big t(3)] by blast
  then show ?case
    using 0(1,2) by (auto simp: Let_def dest: window_all_first)
next
  case (Suc n c p b avg found)
  have t: "lo \<le> target (nBits b)" "target (nBits b) \<le> hi" "c \<le> nPastBlocks" "c \<noteq> nPastBlocks"
    using window_all_first[OF Suc.prems(5,1)] Suc.prems(2) by simp_all
  obtain avg' where avg': "dgw_avg c avg (nBits b) = Some avg'"
    "wf_limbs avg' \<and> lo \<le> limbs_val avg' \<and> limbs_val avg' \<le> hi"
    using dgw_average[OF Suc.prems(6) t(1,2) big t(3)] by blast
  obtain q d where q: "pprev b = Some q" "st q = Some d" "nHeight b = nHeight d + 1"
    by (rule wf_prev[OF wf Suc.prems(1)]) (use Suc.prems in auto)
  let ?f = "if nTime b \<ge> KAWPOW_TIME then found + 1 else found"
  have "\<exists>r avg'' k. dgw_loop st (c + 1) (Suc n) q avg' ?f = Some (r, avg'', k) \<and> prev_n st n q = Some r
      \<and> wf_limbs avg'' \<and> lo \<le> limbs_val avg'' \<and> limbs_val avg'' \<le> hi
      \<and> (window_all st q (Suc n) (\<lambda>b. nTime b \<ge> KAWPOW_TIME) \<longrightarrow> k = ?f + Suc n)"
    by (rule Suc.IH[OF q(2) _ _ _ window_all_prev[OF Suc.prems(5,1) q(1)]]) (use Suc.prems q avg' in auto)
  then obtain r avg'' k where r: "dgw_loop st (c + 1) (Suc n) q avg' ?f = Some (r, avg'', k)" "prev_n st n q = Some r"
    "wf_limbs avg''" "lo \<le> limbs_val avg''" "limbs_val avg'' \<le> hi"
    and k: "window_all st q (Suc n) (\<lambda>b. nTime b \<ge> KAWPOW_TIME) \<longrightarrow> k = ?f + Suc n"
    by blast
  have "dgw_loop st c (Suc (Suc n)) p avg found = Some (r, avg'', k)"
    using Suc.prems(1) t(4) avg'(1) q(1) r(1) by (simp add: Let_def del: dgw_loop.simps(2) add: dgw_loop.simps(2)[of st c "Suc n"])
  moreover have "k = found + Suc (Suc n)" if "window_all st p (Suc (Suc n)) (\<lambda>b. nTime b \<ge> KAWPOW_TIME)"
    using k window_all_prev[OF that Suc.prems(1) q(1)] window_all_first[OF that Suc.prems(1)] by simp
  ultimately show ?case
    using r Suc.prems(1) q(1) by auto
qed

lemma dgw_loop_some:
  assumes wf: "wf_store st"
  shows "st p = Some b \<Longrightarrow> c + n = nPastBlocks \<Longrightarrow> int n \<le> nHeight b \<Longrightarrow> wf_limbs avg \<Longrightarrow>
    \<exists>q avg' k. dgw_loop st c (Suc n) p avg found = Some (q, avg', k) \<and> prev_n st n p = Some q \<and> wf_limbs avg'"
proof (induction n arbitrary: c p b avg found)
  case (0 c p b avg found)
  obtain avg' where "dgw_avg c avg (nBits b) = Some avg'" "wf_limbs avg'"
    using dgw_avg_some[OF 0(4), of c "nBits b"] 0(2) by auto
  then show ?case
    using 0(1,2) by (auto simp: Let_def)
next
  case (Suc n c p b avg found)
  obtain avg' where avg': "dgw_avg c avg (nBits b) = Some avg'" "wf_limbs avg'"
    using dgw_avg_some[OF Suc.prems(4), of c "nBits b"] Suc.prems(2) by auto
  obtain q d where q: "pprev b = Some q" "st q = Some d" "nHeight b = nHeight d + 1"
    by (rule wf_prev[OF wf Suc.prems(1)]) (use Suc.prems in auto)
  let ?f = "if nTime b \<ge> KAWPOW_TIME then found + 1 else found"
  obtain r avg'' k where r: "dgw_loop st (c + 1) (Suc n) q avg' ?f = Some (r, avg'', k)" "prev_n st n q = Some r" "wf_limbs avg''"
    using Suc.IH[OF q(2), of "c + 1" avg' ?f] Suc.prems q avg' by auto
  have "dgw_loop st c (Suc (Suc n)) p avg found = Some (r, avg'', k)"
    using Suc.prems(1,2) avg'(1) q(1) r(1) by (simp add: Let_def del: dgw_loop.simps(2) add: dgw_loop.simps(2)[of st c "Suc n"])
  then show ?case
    using r Suc.prems(1) q(1) by auto
qed

section \<open>The next target\<close>

text \<open>The parameters of a network that always retargets with Dark Gravity Wave.\<close>

definition dgw_params :: "pow_params \<Rightarrow> bool" where
  "dgw_params P \<longleftrightarrow> \<not> (fPowAllowMinDifficultyBlocks P \<and> fPowNoRetargeting P) \<and> 0 < nPowTargetSpacing P
     \<and> nPowTargetSpacing P < 2 ^ 20 \<and> nPowDGWHeight P \<le> 1"

lemma main_pow_dgw: "dgw_params main_pow"
  by (simp add: dgw_params_def main_pow_def)

lemma clamp_timespan_bounds: "lo \<le> hi \<Longrightarrow> lo \<le> clamp_timespan t lo hi \<and> clamp_timespan t lo hi \<le> hi"
  by (simp add: clamp_timespan_def)

lemma dgw_retarget:
  assumes "dgw_params P" "wf_limbs avg"
  defines "T \<equiv> int nPastBlocks * nPowTargetSpacing P"
  defines "new t \<equiv> min (unat (powLimit P)) (limbs_val avg * nat (clamp_timespan t (T div 3) (T * 3)) mod 2 ^ 256 div nat T)"
  obtains c where "retarget P avg (clamp_timespan t (T div 3) (T * 3)) T = Some c"
    "snd (SetCompact c) = (False, False)" "target c \<le> new t" "(new t - target c) * 2 ^ 15 \<le> target c"
proof -
  have T: "0 < T" "T < 2 ^ 28"
    using assms(1) by (simp_all add: T_def dgw_params_def nPastBlocks_def)
  have "T div 3 \<le> T * 3" "0 \<le> T div 3"
    using T by linarith+
  then have t: "0 \<le> clamp_timespan t (T div 3) (T * 3)" "clamp_timespan t (T div 3) (T * 3) < 2 ^ 32"
    using clamp_timespan_bounds[of "T div 3" "T * 3" t] T(2) by simp_all
  have T64: "T < 2 ^ 64"
    using T(2) by simp
  show thesis
    using retarget_val[OF assms(2) t T(1) T64, of P, folded new_def] that by blast
qed

lemma limit_bits:
  obtains c where "GetCompact (UintToArith256 (powLimit P)) False = Some c" "snd (SetCompact c) = (False, False)"
    "target c \<le> unat (powLimit P)"
  using compact_of[OF UintToArith256_wf[of "powLimit P"]] by auto

lemma DarkGravityWave_eq:
  assumes "st p = Some b" "nHeight b \<ge> int nPastBlocks" "dgw_params P"
    and "GetCompact (UintToArith256 (powLimit P)) False = Some lim"
    and "dgw_loop st 1 nPastBlocks p (of_uint64 0) 0 = Some (q, avg, k)" "st q = Some c"
  defines "T \<equiv> int nPastBlocks * nPowTargetSpacing P"
  shows "DarkGravityWave st P (Some p) pblock =
    (if hd_nTime pblock \<ge> KAWPOW_TIME \<and> k \<noteq> nPastBlocks then Some lim
     else retarget P avg (clamp_timespan (GetBlockTime b - GetBlockTime c) (T div 3) (T * 3)) T)"
proof -
  have "\<not> fPowAllowMinDifficultyBlocks P \<or> \<not> fPowNoRetargeting P"
    using assms(3) by (simp add: dgw_params_def)
  then show ?thesis
    using assms(2) by (elim disjE) (simp_all add: DarkGravityWave_def assms(1,4,5,6) T_def Let_def del: dgw_loop.simps One_nat_def)
qed

lemma dgw_window:
  assumes "wf_store st" "st p = Some b" "nHeight b \<ge> int nPastBlocks"
  obtains q c where "prev_n st (nPastBlocks - 1) p = Some q" "st q = Some c"
  using prev_n_exists[OF assms(1,2), of "nPastBlocks - 1"] assms(3) by force

lemma GetNextWorkRequired_some:
  assumes "dgw_params P" "wf_store st" "st p = Some b"
  obtains bits where "GetNextWorkRequired st P (Some p) pblock = Some bits" "snd (SetCompact bits) = (False, False)"
    "target bits \<le> unat (powLimit P)"
proof -
  obtain lim where lim: "GetCompact (UintToArith256 (powLimit P)) False = Some lim" "snd (SetCompact lim) = (False, False)"
    "target lim \<le> unat (powLimit P)"
    by (rule limit_bits)
  have no: "(nHeight b + 1 < nPowDGWHeight P) = False"
    using assms(1) wf_height[OF assms(2,3)] by (simp add: dgw_params_def)
  show thesis
  proof (cases "nHeight b < nMinimumDifficultyBlocks P \<or> nHeight b < int nPastBlocks")
    case True
    then show thesis
      using that[of lim] lim no assms(3) by (auto simp: GetNextWorkRequired_def DarkGravityWave_def)
  next
    case False
    then have h: "int (nPastBlocks - 1) \<le> nHeight b" "nHeight b \<ge> int nPastBlocks"
      by linarith+
    obtain q avg k where q: "dgw_loop st 1 nPastBlocks p (of_uint64 0) 0 = Some (q, avg, k)"
      "prev_n st (nPastBlocks - 1) p = Some q" "wf_limbs avg"
      using dgw_loop_some[OF assms(2,3) _ h(1) of_uint64_wf, of 1 0 0] by (auto simp: nPastBlocks_def)
    obtain c where c: "st q = Some c"
      using dgw_window[OF assms(2,3) h(2)] q(2) by auto
    note eq = DarkGravityWave_eq[OF assms(3) h(2) assms(1) lim(1) q(1) c]
    obtain bits where "snd (SetCompact bits) = (False, False)" "target bits \<le> unat (powLimit P)"
      "DarkGravityWave st P (Some p) pblock = Some bits"
      using dgw_retarget[OF assms(1) q(3), of "GetBlockTime b - GetBlockTime c"] lim eq by (metis min.bounded_iff)
    then show thesis
      using that[of bits] False no assms(3) by (simp add: GetNextWorkRequired_def)
  qed
qed

text \<open>Without overflow the next target stays within a factor of three of the targets of the window.\<close>

lemma timespan_quotient:
  fixes avg T t lo hi s :: nat
  assumes "lo \<le> avg" "avg \<le> hi" "T = 3 * s" "0 < s" "s \<le> t" "t \<le> 3 * T" "hi * (3 * T) < M"
  shows "lo div 3 \<le> avg * t mod M div T \<and> avg * t mod M div T \<le> 3 * hi"
proof -
  have "avg * t \<le> hi * (3 * T)" "lo * s \<le> avg * t"
    using assms by (auto intro: mult_mono)
  then have m: "avg * t mod M = avg * t"
    using assms(7) by simp
  have "avg * t div T \<le> hi * (3 * T) div T"
    using \<open>avg * t \<le> hi * (3 * T)\<close> by (rule div_le_mono)
  also have "\<dots> = 3 * hi"
    using assms(3,4) by simp
  finally have "avg * t div T \<le> 3 * hi" .
  moreover have "lo div 3 = lo * s div T"
    using assms(3,4) by (simp add: mult.commute)
  moreover have "lo * s div T \<le> avg * t div T"
    using \<open>lo * s \<le> avg * t\<close> by (rule div_le_mono)
  ultimately show ?thesis
    using m by simp
qed

lemma rounded_min:
  fixes L X t lo hi :: nat
  assumes "t \<le> min L X" "(min L X - t) * 2 ^ 15 \<le> t" "lo \<le> X \<and> X \<le> hi"
  shows "t \<le> L \<and> t \<le> hi \<and> min L lo * 2 ^ 15 \<le> t * (2 ^ 15 + 1)"
proof -
  have "min L lo * 2 ^ 15 \<le> min L X * 2 ^ 15"
    using assms(3) by (intro mult_le_mono1) (auto simp: min_le_iff_disj)
  also have "\<dots> = (min L X - t) * 2 ^ 15 + t * 2 ^ 15"
    using assms(1) by (simp add: diff_mult_distrib)
  also have "\<dots> \<le> t * (2 ^ 15 + 1)"
    using assms(2) by simp
  finally show ?thesis
    using assms(1,3) by simp
qed

lemma dgw_result:
  assumes "dgw_params P" "wf_store st" "st p = Some b" "nHeight b \<ge> int nPastBlocks"
    and "window_all st p nPastBlocks (\<lambda>b. lo \<le> target (nBits b) \<and> target (nBits b) \<le> hi)"
    and "hd_nTime pblock < KAWPOW_TIME \<or> window_all st p nPastBlocks (\<lambda>b. nTime b \<ge> KAWPOW_TIME)"
    and "hi * (nPastBlocks + 1) < 2 ^ 256"
    and "prev_n st (nPastBlocks - 1) p = Some q" "st q = Some c"
  defines "T \<equiv> int nPastBlocks * nPowTargetSpacing P"
  defines "t \<equiv> clamp_timespan (GetBlockTime b - GetBlockTime c) (T div 3) (T * 3)"
  obtains avg bits where "lo \<le> avg" "avg \<le> hi" "DarkGravityWave st P (Some p) pblock = Some bits"
    "snd (SetCompact bits) = (False, False)"
    "target bits \<le> min (unat (powLimit P)) (avg * nat t mod 2 ^ 256 div nat T)"
    "(min (unat (powLimit P)) (avg * nat t mod 2 ^ 256 div nat T) - target bits) * 2 ^ 15 \<le> target bits"
proof -
  obtain lim where lim: "GetCompact (UintToArith256 (powLimit P)) False = Some lim"
    by (rule limit_bits)
  have S: "Suc (nPastBlocks - 1) = nPastBlocks" "1 + (nPastBlocks - 1) = nPastBlocks"
    by (simp_all add: nPastBlocks_def)
  have h: "int (nPastBlocks - 1) \<le> nHeight b"
    using assms(4) by linarith
  obtain avg k where avg: "dgw_loop st 1 nPastBlocks p (of_uint64 0) 0 = Some (q, avg, k)" "wf_limbs avg"
    "lo \<le> limbs_val avg" "limbs_val avg \<le> hi"
    "window_all st p nPastBlocks (\<lambda>b. nTime b \<ge> KAWPOW_TIME) \<longrightarrow> k = nPastBlocks"
    using dgw_loop_val[OF assms(2,7,3) S(2) _ h, of lo "of_uint64 0" 0, unfolded S(1)] assms(5,8) by auto
  have "\<not> (hd_nTime pblock \<ge> KAWPOW_TIME \<and> k \<noteq> nPastBlocks)"
    using assms(6) avg(5) by auto
  then have eq: "DarkGravityWave st P (Some p) pblock = retarget P avg t T"
    unfolding t_def T_def DarkGravityWave_eq[OF assms(3,4,1) lim avg(1) assms(9)] by (rule if_not_P)
  obtain bits where bits: "retarget P avg t T = Some bits" "snd (SetCompact bits) = (False, False)"
    "target bits \<le> min (unat (powLimit P)) (limbs_val avg * nat t mod 2 ^ 256 div nat T)"
    "(min (unat (powLimit P)) (limbs_val avg * nat t mod 2 ^ 256 div nat T) - target bits) * 2 ^ 15 \<le> target bits"
    unfolding t_def T_def by (rule dgw_retarget[OF assms(1) avg(2)])
  show thesis
    by (rule that[OF avg(3,4) eq[unfolded bits(1)] bits(2-4)])
qed

text \<open>A chain without forks, for the examples: block \<open>p\<close> has height \<open>p\<close> and the given bits and time.\<close>

definition line_entry :: "(nat \<Rightarrow> u32) \<Rightarrow> (nat \<Rightarrow> u32) \<Rightarrow> nat \<Rightarrow> CBlockIndex" where
  "line_entry bits time p = (ex_entry (if p = 0 then None else Some (p - 1)) None (int p) (of_nat p))\<lparr>nBits := bits p, nTime := time p\<rparr>"

definition line_store :: "nat \<Rightarrow> (nat \<Rightarrow> u32) \<Rightarrow> (nat \<Rightarrow> u32) \<Rightarrow> index_store" where
  "line_store n bits time p = (if p \<le> n then Some (line_entry bits time p) else None)"

lemma line_entry_simps [simp]:
  "nHeight (line_entry bits time p) = int p" "pskip (line_entry bits time p) = None"
  "pprev (line_entry bits time p) = (if p = 0 then None else Some (p - 1))"
  "nBits (line_entry bits time p) = bits p" "nTime (line_entry bits time p) = time p"
  by (simp_all add: line_entry_def)

lemma line_store_wf: "wf_store (line_store n bits time)"
  by (auto simp: wf_store_def wf_entry_def line_store_def)

lemma line_store_prev: "i \<le> p \<Longrightarrow> p \<le> n \<Longrightarrow> prev_n (line_store n bits time) i p = Some (p - i)"
  by (induction i arbitrary: p) (auto simp: line_store_def)

lemma line_store_window:
  assumes "p \<le> n" "m \<le> Suc p" "\<And>q. q \<le> p \<Longrightarrow> Q (line_entry bits time q)"
  shows "window_all (line_store n bits time) p m Q"
  using assms line_store_prev[of _ p n bits time] by (auto simp: window_all_def line_store_def)

text \<open>C19. Dark Gravity Wave neither fails an assertion nor divides by zero on a chain of more than 180 blocks. When
  the targets of the last 180 blocks lie between two bounds that are far enough from \<open>2 ^ 256\<close>, the
  next target is valid, at most the limit of the network, at most three times the upper bound and, up
  to the rounding of the compact form, at least a third of the lower bound.\<close>

theorem dark_gravity_wave_bounds:
  assumes "dgw_params P" "wf_store st" "st p = Some b" "nHeight b \<ge> 180"
    and "window_all st p 180 (\<lambda>b. lo \<le> target (nBits b) \<and> target (nBits b) \<le> hi)"
    and "hd_nTime pblock < KAWPOW_TIME \<or> window_all st p 180 (\<lambda>b. nTime b \<ge> KAWPOW_TIME)"
    and "hi * (540 * nat (nPowTargetSpacing P)) < 2 ^ 256"
  shows "\<exists>bits. DarkGravityWave st P (Some p) pblock = Some bits \<and> snd (SetCompact bits) = (False, False)
    \<and> target bits \<le> unat (powLimit P) \<and> target bits \<le> 3 * hi
    \<and> min (unat (powLimit P)) (lo div 3) * 2 ^ 15 \<le> target bits * (2 ^ 15 + 1)"
proof -
  let ?s = "nat (nPowTargetSpacing P)"
  have s: "0 < ?s" "nPowTargetSpacing P = int ?s"
    using assms(1) by (simp_all add: dgw_params_def)
  have "hi * (nPastBlocks + 1) \<le> hi * (540 * ?s)"
    using s(1) by (intro mult_le_mono2) (simp add: nPastBlocks_def)
  then have big: "hi * (nPastBlocks + 1) < 2 ^ 256"
    using assms(7) by (rule le_less_trans)
  have n: "nPastBlocks = 180"
    by (simp add: nPastBlocks_def)
  have h: "nHeight b \<ge> int nPastBlocks"
    using assms(4) by (simp add: n)
  obtain q c where q: "prev_n st (nPastBlocks - 1) p = Some q" "st q = Some c"
    using dgw_window[OF assms(2,3) h] .
  let ?T = "int nPastBlocks * nPowTargetSpacing P"
  let ?t = "clamp_timespan (GetBlockTime b - GetBlockTime c) (?T div 3) (?T * 3)"
  obtain avg bits where r: "lo \<le> avg" "avg \<le> hi" "DarkGravityWave st P (Some p) pblock = Some bits"
    "snd (SetCompact bits) = (False, False)"
    "target bits \<le> min (unat (powLimit P)) (avg * nat ?t mod 2 ^ 256 div nat ?T)"
    "(min (unat (powLimit P)) (avg * nat ?t mod 2 ^ 256 div nat ?T) - target bits) * 2 ^ 15 \<le> target bits"
    by (rule dgw_result[OF assms(1-3) h _ _ big q, of lo pblock]) (use assms(5,6) in \<open>simp_all only: n\<close>)
  have T: "nat ?T = 3 * (60 * ?s)" "?T div 3 = int (60 * ?s)"
    using s(2) by (simp_all add: n nat_mult_distrib)
  have t: "60 * ?s \<le> nat ?t" "nat ?t \<le> 3 * nat ?T"
    using clamp_timespan_bounds[of "?T div 3" "?T * 3" "GetBlockTime b - GetBlockTime c"] s T by (auto simp: n)
  have "lo div 3 \<le> avg * nat ?t mod 2 ^ 256 div nat ?T \<and> avg * nat ?t mod 2 ^ 256 div nat ?T \<le> 3 * hi"
    by (rule timespan_quotient[OF r(1,2) T(1) _ t]) (use s assms(7) T in \<open>simp_all add: algebra_simps\<close>)
  then show ?thesis
    using r(3,4) rounded_min[OF r(5,6), of "lo div 3" "3 * hi"] by blast
qed

definition ex_header :: "u32 \<Rightarrow> CBlockHeader" where
  "ex_header time = \<lparr>hd_nVersion = 0x20000000, hd_hashPrevBlock = 0, hd_hashMerkleRoot = 0, hd_nTime = time, hd_nBits = 0,
     hd_nNonce = 0, hd_nHeight = 0, hd_nNonce64 = 0, hd_mix_hash = 0\<rparr>"

theorem dark_gravity_wave_bounds_witness:
  "\<exists>bits. DarkGravityWave (line_store 200 (\<lambda>_. 0x1c00ffff) (\<lambda>p. of_nat (60 * p))) main_pow (Some 200) (ex_header 12060) = Some bits
     \<and> target bits \<le> 3 * target 0x1c00ffff"
proof -
  let ?st = "line_store 200 (\<lambda>_. 0x1c00ffff) (\<lambda>p. of_nat (60 * p))" and ?b = "line_entry (\<lambda>_. 0x1c00ffff) (\<lambda>p. of_nat (60 * p)) 200"
  have e: "?st 200 = Some ?b" "nHeight ?b \<ge> 180"
    by (simp_all add: line_store_def)
  have t: "target 0x1c00ffff = 65535 * 2 ^ 200"
    by (simp add: target_val)
  have w: "window_all ?st 200 180 (\<lambda>b. target 0x1c00ffff \<le> target (nBits b) \<and> target (nBits b) \<le> target 0x1c00ffff)"
    by (rule line_store_window) simp_all
  have k: "hd_nTime (ex_header 12060) < KAWPOW_TIME \<or> window_all ?st 200 180 (\<lambda>b. nTime b \<ge> KAWPOW_TIME)"
    by (simp add: ex_header_def KAWPOW_TIME_def)
  have "target 0x1c00ffff * (540 * nat (nPowTargetSpacing main_pow)) < 2 ^ 256"
    unfolding t by (simp add: main_pow_def)
  from dark_gravity_wave_bounds[OF main_pow_dgw line_store_wf e w k this] show ?thesis
    by blast
qed

lemma dgw_constant_window:
  assumes "wf_store st" "st p = Some b" "nHeight b \<ge> 180" "window_all st p 180 (\<lambda>b. nBits b = B)"
    and "hd_nTime pblock < KAWPOW_TIME \<or> window_all st p 180 (\<lambda>b. nTime b \<ge> KAWPOW_TIME)"
    and "prev_n st 179 p = Some q" "st q = Some c" "target B * 181 < 2 ^ 256"
    and "GetBlockTime b - GetBlockTime c = t" "3600 \<le> t" "t \<le> 32400"
  obtains bits where "DarkGravityWave st main_pow (Some p) pblock = Some bits"
    "target bits \<le> target B * nat t mod 2 ^ 256 div 10800"
proof -
  have n: "nPastBlocks = 180"
    by (simp add: nPastBlocks_def)
  have w: "window_all st p nPastBlocks (\<lambda>b. target B \<le> target (nBits b) \<and> target (nBits b) \<le> target B)"
    using assms(4) by (simp add: n window_all_def)
  have h: "nHeight b \<ge> int nPastBlocks"
    using assms(3) by (simp add: n)
  have t: "clamp_timespan (GetBlockTime b - GetBlockTime c) (int nPastBlocks * nPowTargetSpacing main_pow div 3)
      (int nPastBlocks * nPowTargetSpacing main_pow * 3) = t" "nat (int nPastBlocks * nPowTargetSpacing main_pow) = 10800"
    using assms(9-11) by (simp_all add: n main_pow_def clamp_timespan_def)
  have big: "target B * (nPastBlocks + 1) < 2 ^ 256" and q: "prev_n st (nPastBlocks - 1) p = Some q"
    using assms(6,8) by (simp_all add: n)
  obtain avg bits where r: "target B \<le> avg" "avg \<le> target B" "DarkGravityWave st main_pow (Some p) pblock = Some bits"
    "snd (SetCompact bits) = (False, False)"
    "target bits \<le> min (unat (powLimit main_pow)) (avg * nat t mod 2 ^ 256 div 10800)"
    "(min (unat (powLimit main_pow)) (avg * nat t mod 2 ^ 256 div 10800) - target bits) * 2 ^ 15 \<le> target bits"
    by (rule dgw_result[OF main_pow_dgw assms(1,2) h w _ big q assms(7), of pblock, unfolded t]) (use assms(5) in \<open>simp only: n\<close>)
  have "avg = target B"
    using r(1,2) by simp
  with r(5) have "target bits \<le> target B * nat t mod 2 ^ 256 div 10800"
    by simp
  with r(3) show thesis
    by (rule that)
qed

lemma main_limit_bits: "GetCompact (UintToArith256 (powLimit main_pow)) False = Some 0x2000ffff"
proof -
  let ?a = "UintToArith256 (powLimit main_pow)"
  have N: "limbs_val ?a = 2 ^ 248 - 1"
    by (simp add: main_pow_def)
  have "limbs_bits ?a = 248"
    by (rule limbs_bits_unique) (simp_all add: N del: UintToArith256_val)
  then have S: "(limbs_bits ?a + 7) div 8 = 31"
    by simp
  have r: "compact_raw (2 ^ 248 - 1) 31 = 0xffffff"
    by (simp add: compact_raw_def)
  have "bit (0xffffff :: nat) 23"
    by (simp add: bit_iff_odd)
  then have "compact_size (2 ^ 248 - 1) 31 = 32" "compact_mantissa (2 ^ 248 - 1) 31 = 0xffff"
    unfolding compact_size_def compact_mantissa_def r by simp_all
  then show ?thesis
    using GetCompact_val(1)[of ?a] unfolding S N by (simp only: UintToArith256_wf simp_thms) simp
qed

text \<open>C37. The product of target and time span in Dark Gravity Wave wraps at 256 bits. On the main network the limit of
  the targets, where the chain starts, is too large for the product: after 180 blocks at that target
  that arrive exactly on schedule the next target is more than 40 times smaller. With another target
  below the limit and a time span of 16384 seconds the next target is zero, which no hash meets, so
  that the chain cannot be continued.\<close>

theorem dark_gravity_wave_overflow:
  assumes "wf_store st" "st p = Some b" "nHeight b \<ge> 180" "window_all st p 180 (\<lambda>b. nBits b = B)"
    and "hd_nTime pblock < KAWPOW_TIME \<or> window_all st p 180 (\<lambda>b. nTime b \<ge> KAWPOW_TIME)"
    and "prev_n st 179 p = Some q" "st q = Some c"
  shows "(GetCompact (UintToArith256 (powLimit main_pow)) False = Some B \<and> GetBlockTime b - GetBlockTime c = 179 * 60 \<longrightarrow>
      (\<exists>bits. DarkGravityWave st main_pow (Some p) pblock = Some bits \<and> 40 * target bits < target B))
    \<and> (B = 0x1f200000 \<and> GetBlockTime b - GetBlockTime c = 16384 \<longrightarrow>
      (\<exists>bits. DarkGravityWave st main_pow (Some p) pblock = Some bits \<and> (\<forall>hash. \<not> CheckProofOfWork hash bits main_pow)))"
proof (intro conjI impI)
  assume a: "GetCompact (UintToArith256 (powLimit main_pow)) False = Some B \<and> GetBlockTime b - GetBlockTime c = 179 * 60"
  then have "B = 0x2000ffff"
    using main_limit_bits by simp
  then have T: "target B = 65535 * 2 ^ 232"
    by (simp add: target_val)
  have l: "target B * 181 < 2 ^ 256" "GetBlockTime b - GetBlockTime c = 10740" "3600 \<le> (10740 :: int)" "10740 \<le> (32400 :: int)"
    unfolding T using a by simp_all
  obtain bits where "DarkGravityWave st main_pow (Some p) pblock = Some bits"
    "target bits \<le> target B * nat 10740 mod 2 ^ 256 div 10800"
    by (rule dgw_constant_window[OF assms l])
  then show "\<exists>bits. DarkGravityWave st main_pow (Some p) pblock = Some bits \<and> 40 * target bits < target B"
    by (intro exI[of _ bits]) (simp add: T)
next
  assume a: "B = 0x1f200000 \<and> GetBlockTime b - GetBlockTime c = 16384"
  then have T: "target B = 2 ^ 245"
    by (simp add: target_val)
  have l: "target B * 181 < 2 ^ 256" "GetBlockTime b - GetBlockTime c = 16384" "3600 \<le> (16384 :: int)" "16384 \<le> (32400 :: int)"
    unfolding T using a by simp_all
  obtain bits where "DarkGravityWave st main_pow (Some p) pblock = Some bits"
    "target bits \<le> target B * nat 16384 mod 2 ^ 256 div 10800"
    by (rule dgw_constant_window[OF assms l])
  then show "\<exists>bits. DarkGravityWave st main_pow (Some p) pblock = Some bits \<and> (\<forall>hash. \<not> CheckProofOfWork hash bits main_pow)"
    by (intro exI[of _ bits]) (simp add: T CheckProofOfWork_iff)
qed

theorem dark_gravity_wave_overflow_witness:
  "\<exists>bits. DarkGravityWave (line_store 200 (\<lambda>_. 0x1f200000) (\<lambda>p. if p = 200 then 16444 else 60)) main_pow (Some 200) (ex_header 16500)
     = Some bits \<and> (\<forall>hash. \<not> CheckProofOfWork hash bits main_pow)"
proof -
  let ?bits = "\<lambda>_. 0x1f200000 :: u32" and ?time = "\<lambda>p. if p = 200 then 16444 else 60 :: u32"
  let ?st = "line_store 200 ?bits ?time"
  have e: "?st 200 = Some (line_entry ?bits ?time 200)" "nHeight (line_entry ?bits ?time 200) \<ge> 180"
    by (simp_all add: line_store_def)
  have w: "window_all ?st 200 180 (\<lambda>b. nBits b = 0x1f200000)"
    by (rule line_store_window) simp_all
  have k: "hd_nTime (ex_header 16500) < KAWPOW_TIME \<or> window_all ?st 200 180 (\<lambda>b. nTime b \<ge> KAWPOW_TIME)"
    by (simp add: ex_header_def KAWPOW_TIME_def)
  have q: "prev_n ?st 179 200 = Some 21"
    by (simp add: line_store_prev)
  have c: "?st 21 = Some (line_entry ?bits ?time 21)"
    by (simp add: line_store_def)
  have "GetBlockTime (line_entry ?bits ?time 200) - GetBlockTime (line_entry ?bits ?time 21) = 16384"
    by (simp add: GetBlockTime_def)
  then show ?thesis
    using dark_gravity_wave_overflow[OF line_store_wf e w k q c, THEN conjunct2] by blast
qed

end
