(* ===== verification/Headers.thy ===== *)
theory Headers
  imports Pow
begin

text \<open>
  How block headers enter the tree (\<^verbatim>\<open>src/src/validation.cpp\<close>: \<^verbatim>\<open>CheckBlockHeader\<close>, \<^verbatim>\<open>ContextualCheckBlockHeader\<close>,
  \<^verbatim>\<open>AcceptBlockHeader\<close>, \<^verbatim>\<open>AddToBlockIndex\<close>, \<^verbatim>\<open>ProcessNewBlockHeaders\<close>; \<^verbatim>\<open>src/src/checkpoints.cpp\<close>;
  \<^verbatim>\<open>src/src/primitives/block.cpp\<close>). The hash functions X16R and KAWPOW, the clock and the chain locks are
  parameters of the environment. The tree is the store of entries with the index by hash and the
  bookkeeping around it; a new entry takes the next address.
\<close>

section \<open>The environment and the tree\<close>

record header_env =
  he_pow :: pow_params
  hashGenesisBlock :: uint256
  mapCheckpoints :: "(int \<times> uint256) list"
  fCheckpointsEnabled :: bool
  HashX16R :: "CBlockHeader \<Rightarrow> uint256"
  KAWPOWHash :: "CBlockHeader \<Rightarrow> uint256 \<times> uint256"
  KAWPOWHash_OnlyMix :: "CBlockHeader \<Rightarrow> uint256"
  nAdjustedTime :: int
  HasConflictingChainLock :: "int \<Rightarrow> uint256 \<Rightarrow> bool"

record block_tree =
  bt_store :: index_store
  bt_next :: ptr
  mapBlockIndex :: "(uint256 \<times> ptr) list"
  pindexBestHeader :: "ptr option"
  setDirtyBlockIndex :: "ptr list"
  mapPrevBlockIndex :: "(uint256 \<times> ptr) list"
  g_failed_blocks :: "ptr list"
  setBlockIndexCandidates :: "ptr list"
  pindexBestInvalid :: "ptr option"

definition empty_tree :: block_tree where
  "empty_tree = \<lparr>bt_store = Map.empty, bt_next = 0, mapBlockIndex = [], pindexBestHeader = None, setDirtyBlockIndex = [],
     mapPrevBlockIndex = [], g_failed_blocks = [], setBlockIndexCandidates = [], pindexBestInvalid = None\<rparr>"

datatype header_error = HDoS nat string | HInvalid string | HAssert

text \<open>A failed assertion, or a pointer outside the store, as an error.\<close>

definition asserted :: "'a option \<Rightarrow> header_error + 'a" where
  "asserted r = (case r of None \<Rightarrow> Inl HAssert | Some x \<Rightarrow> Inr x)"

definition GetHash :: "header_env \<Rightarrow> CBlockHeader \<Rightarrow> uint256" where
  "GetHash E block = (if hd_nTime block < KAWPOW_TIME then HashX16R E block else KAWPOWHash_OnlyMix E block)"

text \<open>The second component is the mix hash; the older branch leaves it null.\<close>

definition GetHashFull :: "header_env \<Rightarrow> CBlockHeader \<Rightarrow> uint256 \<times> uint256" where
  "GetHashFull E block = (if hd_nTime block < KAWPOW_TIME then (HashX16R E block, 0) else KAWPOWHash E block)"

fun last_checkpoint :: "(int \<times> uint256) list \<Rightarrow> (uint256 \<times> ptr) list \<Rightarrow> ptr option" where
  "last_checkpoint [] m = None"
| "last_checkpoint ((h, hash) # cs) m = (case map_of m hash of None \<Rightarrow> last_checkpoint cs m | Some p \<Rightarrow> Some p)"

definition GetLastCheckpoint :: "header_env \<Rightarrow> block_tree \<Rightarrow> ptr option" where
  "GetLastCheckpoint E bt = last_checkpoint (rev (mapCheckpoints E)) (mapBlockIndex bt)"

section \<open>Checks\<close>

definition check_full_pow :: "header_env \<Rightarrow> CBlockHeader \<Rightarrow> bool \<Rightarrow> header_error + unit" where
  "check_full_pow E block fCheckPOW =
     (let (hash, mix) = GetHashFull E block in
      if fCheckPOW \<and> \<not> CheckProofOfWork hash (hd_nBits block) (he_pow E) then Inl (HDoS 50 ''high-hash'')
      else if fCheckPOW \<and> hd_nTime block \<ge> KAWPOW_TIME \<and> mix \<noteq> hd_mix_hash block then Inl (HDoS 50 ''invalid-mix-hash'')
      else Inr ())"

definition CheckBlockHeader :: "header_env \<Rightarrow> block_tree \<Rightarrow> CBlockHeader \<Rightarrow> bool \<Rightarrow> header_error + unit" where
  "CheckBlockHeader E bt block fCheckPOW =
     (if fCheckPOW \<and> hd_nTime block \<ge> KAWPOW_TIME then
        case GetLastCheckpoint E bt of
          None \<Rightarrow> check_full_pow E block fCheckPOW
        | Some p \<Rightarrow>
            sbind (asserted (bt_store bt p)) (\<lambda>c.
            if hd_nHeight block \<le> of_int (nHeight c) then
              if \<not> CheckProofOfWork (GetHash E block) (hd_nBits block) (he_pow E) then Inl (HDoS 50 ''high-hash'')
              else Inr ()
            else check_full_pow E block fCheckPOW)
      else check_full_pow E block fCheckPOW)"

definition MAX_FUTURE_BLOCK_TIME :: int where "MAX_FUTURE_BLOCK_TIME = 15 * 60"

definition check_checkpoint :: "header_env \<Rightarrow> block_tree \<Rightarrow> int \<Rightarrow> header_error + unit" where
  "check_checkpoint E bt h =
     (if fCheckpointsEnabled E then
        case GetLastCheckpoint E bt of
          None \<Rightarrow> Inr ()
        | Some p \<Rightarrow> sbind (asserted (bt_store bt p)) (\<lambda>c.
            if h < nHeight c then Inl (HDoS 100 ''bad-fork-prior-to-checkpoint'') else Inr ())
      else Inr ())"

definition ContextualCheckBlockHeader :: "header_env \<Rightarrow> block_tree \<Rightarrow> CBlockHeader \<Rightarrow> ptr \<Rightarrow> header_error + unit" where
  "ContextualCheckBlockHeader E bt block pindexPrev =
     sbind (asserted (bt_store bt pindexPrev)) (\<lambda>b.
     sbind (asserted (GetNextWorkRequired (bt_store bt) (he_pow E) (Some pindexPrev) block)) (\<lambda>bits.
     if hd_nBits block \<noteq> bits then Inl (HDoS 100 ''bad-diffbits'')
     else
       sbind (check_checkpoint E bt (nHeight b + 1)) (\<lambda>_.
       sbind (asserted (GetMedianTimePast (bt_store bt) pindexPrev)) (\<lambda>mtp.
       if uint (hd_nTime block) \<le> mtp then Inl (HInvalid ''time-too-old'')
       else if uint (hd_nTime block) > nAdjustedTime E + MAX_FUTURE_BLOCK_TIME then Inl (HInvalid ''time-too-new'')
       else Inr ()))))"

section \<open>New entries\<close>

text \<open>The new entry is in the store and in the index before its parent is looked up.\<close>

definition link_entry :: "index_store \<Rightarrow> ptr \<Rightarrow> CBlockIndex \<Rightarrow> ptr option \<Rightarrow> CBlockIndex option" where
  "link_entry st p b prv =
     (case prv of
        None \<Rightarrow> Some b
      | Some q \<Rightarrow> do {
          c \<leftarrow> (st(p \<mapsto> b)) q;
          let b' = b\<lparr>pprev := Some q, nHeight := nHeight c + 1\<rparr>;
          BuildSkip (st(p \<mapsto> b')) b'
        })"

definition work_entry :: "index_store \<Rightarrow> CBlockIndex \<Rightarrow> CBlockIndex option" where
  "work_entry st b =
     do {
       (tmax, work) \<leftarrow> (case pprev b of
           None \<Rightarrow> Some (nTime b, of_uint64 0)
         | Some q \<Rightarrow> map_option (\<lambda>c. (max (nTimeMax c) (nTime b), nChainWork c)) (st q));
       prf \<leftarrow> GetBlockProof (nBits b);
       Some (b\<lparr>nTimeMax := tmax, nChainWork := limbs_add work prf\<rparr>)
     }"

definition better_header :: "index_store \<Rightarrow> ptr option \<Rightarrow> CBlockIndex \<Rightarrow> bool option" where
  "better_header st best b =
     (case best of
        None \<Rightarrow> Some True
      | Some q \<Rightarrow> map_option (\<lambda>c. CompareTo (nChainWork c) (nChainWork b) < 0) (st q))"

definition set_insert_ptr :: "ptr \<Rightarrow> ptr list \<Rightarrow> ptr list" where
  "set_insert_ptr p ps = (if p \<in> set ps then ps else ps @ [p])"

definition AddToBlockIndex :: "header_env \<Rightarrow> block_tree \<Rightarrow> CBlockHeader \<Rightarrow> u32 \<Rightarrow> (ptr \<times> block_tree) option" where
  "AddToBlockIndex E bt block status =
     (let hash = GetHash E block in
      case map_of (mapBlockIndex bt) hash of
        Some p \<Rightarrow> Some (p, bt)
      | None \<Rightarrow>
          let p = bt_next bt; st = bt_store bt;
              b0 = (CBlockIndex_of_header block)\<lparr>nSequenceId := 0, phashBlock := Some hash\<rparr>;
              m = AList.update hash p (mapBlockIndex bt) in
          do {
            b1 \<leftarrow> link_entry st p b0 (map_of m (hd_hashPrevBlock block));
            b2 \<leftarrow> work_entry (st(p \<mapsto> b1)) b1;
            (b3, best) \<leftarrow> (if and status 7 \<noteq> 0 then do {
                (_, b) \<leftarrow> RaiseValidity b2 status;
                better \<leftarrow> better_header (st(p \<mapsto> b)) (pindexBestHeader bt) b;
                Some (b, if better then Some p else pindexBestHeader bt)
              } else do {
                (_, b) \<leftarrow> RaiseValidity b2 2;
                Some (b\<lparr>nStatus := or (nStatus b) status\<rparr>, pindexBestHeader bt)
              });
            prevs \<leftarrow> (case pprev b3 of
                None \<Rightarrow> Some (mapPrevBlockIndex bt)
              | Some q \<Rightarrow> map_option (\<lambda>c. mapPrevBlockIndex bt @ [(GetBlockHash c, p)]) ((st(p \<mapsto> b3)) q));
            Some (p, bt\<lparr>bt_store := st(p \<mapsto> b3), bt_next := p + 1, mapBlockIndex := m, pindexBestHeader := best,
              setDirtyBlockIndex := set_insert_ptr p (setDirtyBlockIndex bt), mapPrevBlockIndex := prevs\<rparr>)
          })"

section \<open>Accepting a header\<close>

text \<open>The walk that marks the descendants of a failed block is bounded by the height of its start, plus one.\<close>

fun mark_failed :: "nat \<Rightarrow> ptr \<Rightarrow> ptr \<Rightarrow> block_tree \<Rightarrow> block_tree option" where
  "mark_failed n failedit p bt =
     (if p = failedit then Some bt
      else case n of
        0 \<Rightarrow> None
      | Suc m \<Rightarrow> do {
          b \<leftarrow> bt_store bt p;
          q \<leftarrow> pprev b;
          mark_failed m failedit q
            (bt\<lparr>bt_store := (bt_store bt)(p \<mapsto> b\<lparr>nStatus := or (nStatus b) 64\<rparr>),
                setDirtyBlockIndex := set_insert_ptr p (setDirtyBlockIndex bt)\<rparr>)
        })"

declare mark_failed.simps [simp del]

fun failed_ancestor :: "index_store \<Rightarrow> ptr \<Rightarrow> ptr list \<Rightarrow> ptr option option" where
  "failed_ancestor st p [] = Some None"
| "failed_ancestor st p (f # fs) =
     do {
       b \<leftarrow> st f;
       a \<leftarrow> GetAncestor st p (nHeight b);
       if a = Some f then if and (nStatus b) 32 = 0 then None else Some (Some f)
       else failed_ancestor st p fs
     }"

definition check_failed_ancestors :: "block_tree \<Rightarrow> ptr \<Rightarrow> (header_error + unit) \<times> block_tree" where
  "check_failed_ancestors bt p =
     (case (do { b \<leftarrow> bt_store bt p; IsValid b 5 }) of
        None \<Rightarrow> (Inl HAssert, bt)
      | Some True \<Rightarrow> (Inr (), bt)
      | Some False \<Rightarrow>
          (case failed_ancestor (bt_store bt) p (g_failed_blocks bt) of
             None \<Rightarrow> (Inl HAssert, bt)
           | Some None \<Rightarrow> (Inr (), bt)
           | Some (Some f) \<Rightarrow>
               (case mark_failed (height_at (bt_store bt) p + 1) f p bt of
                  None \<Rightarrow> (Inl HAssert, bt)
                | Some bt' \<Rightarrow> (Inl (HDoS 100 ''bad-prevblk''), bt'))))"

definition check_new_header :: "header_env \<Rightarrow> block_tree \<Rightarrow> CBlockHeader \<Rightarrow> header_error + ptr" where
  "check_new_header E bt block =
     sbind (CheckBlockHeader E bt block True) (\<lambda>_.
     case map_of (mapBlockIndex bt) (hd_hashPrevBlock block) of
       None \<Rightarrow> Inl (HDoS 10 ''prev-blk-not-found'')
     | Some p \<Rightarrow>
         sbind (asserted (bt_store bt p)) (\<lambda>b.
         if and (nStatus b) 96 \<noteq> 0 then Inl (HDoS 100 ''bad-prevblk'')
         else if and (nStatus b) 256 \<noteq> 0 then Inl (HDoS 10 ''bad-prevblk-chainlock'')
         else sbind (ContextualCheckBlockHeader E bt block p) (\<lambda>_. Inr p)))"

definition add_checked :: "header_env \<Rightarrow> block_tree \<Rightarrow> CBlockHeader \<Rightarrow> (header_error + ptr) \<times> block_tree" where
  "add_checked E bt block =
     (case AddToBlockIndex E bt block 2 of None \<Rightarrow> (Inl HAssert, bt) | Some (p, bt') \<Rightarrow> (Inr p, bt'))"

definition AcceptBlockHeader :: "header_env \<Rightarrow> block_tree \<Rightarrow> CBlockHeader \<Rightarrow> (header_error + ptr) \<times> block_tree" where
  "AcceptBlockHeader E bt block =
     (let hash = GetHash E block in
      if hash = hashGenesisBlock E then add_checked E bt block
      else
        case map_of (mapBlockIndex bt) hash of
          Some p \<Rightarrow>
            (case bt_store bt p of
               None \<Rightarrow> (Inl HAssert, bt)
             | Some b \<Rightarrow> (if and (nStatus b) 96 \<noteq> 0 then Inl (HInvalid ''duplicate'') else Inr p, bt))
        | None \<Rightarrow>
            (case check_new_header E bt block of
               Inl e \<Rightarrow> (Inl e, bt)
             | Inr prv \<Rightarrow>
                 (case check_failed_ancestors bt prv of
                    (Inl e, bt') \<Rightarrow> (Inl e, bt')
                  | (Inr _, bt') \<Rightarrow>
                      if HasConflictingChainLock E (int (height_at (bt_store bt) prv) + 1) hash then
                        (case AddToBlockIndex E bt block 256 of
                           None \<Rightarrow> (Inl HAssert, bt)
                         | Some (_, bt'') \<Rightarrow> (Inl (HDoS 10 ''bad-chainlock''), bt''))
                      else add_checked E bt block)))"

fun ProcessNewBlockHeaders :: "header_env \<Rightarrow> block_tree \<Rightarrow> CBlockHeader list \<Rightarrow> (header_error \<times> CBlockHeader) option \<times> ptr option \<times> block_tree" where
  "ProcessNewBlockHeaders E bt [] = (None, None, bt)"
| "ProcessNewBlockHeaders E bt (header # headers) =
     (case AcceptBlockHeader E bt header of
        (Inl e, bt') \<Rightarrow> (Some (e, header), None, bt')
      | (Inr p, bt') \<Rightarrow>
          (case ProcessNewBlockHeaders E bt' headers of
             (err, None, bt'') \<Rightarrow> (err, Some p, bt'')
           | r \<Rightarrow> r))"

text \<open>What a block that failed to connect leaves in the tree; the log messages and warnings are left out.\<close>

definition InvalidChainFound :: "CChain \<Rightarrow> block_tree \<Rightarrow> ptr \<Rightarrow> block_tree option" where
  "InvalidChainFound chainActive bt pindexNew =
     do {
       b \<leftarrow> bt_store bt pindexNew;
       worse \<leftarrow> (case pindexBestInvalid bt of
           None \<Rightarrow> Some True
         | Some q \<Rightarrow> map_option (\<lambda>c. CompareTo (nChainWork b) (nChainWork c) > 0) (bt_store bt q));
       tip \<leftarrow> Tip chainActive;
       Some (if worse then bt\<lparr>pindexBestInvalid := Some pindexNew\<rparr> else bt)
     }"

definition InvalidBlockFound :: "CChain \<Rightarrow> block_tree \<Rightarrow> ptr \<Rightarrow> bool \<Rightarrow> block_tree option" where
  "InvalidBlockFound chainActive bt p corruptionPossible =
     (if corruptionPossible then Some bt
      else do {
        b \<leftarrow> bt_store bt p;
        InvalidChainFound chainActive
          (bt\<lparr>bt_store := (bt_store bt)(p \<mapsto> b\<lparr>nStatus := or (nStatus b) 32\<rparr>),
              g_failed_blocks := set_insert_ptr p (g_failed_blocks bt),
              setDirtyBlockIndex := set_insert_ptr p (setDirtyBlockIndex bt),
              setBlockIndexCandidates := removeAll p (setBlockIndexCandidates bt)\<rparr>) p
      })"

text \<open>
  \<^verbatim>\<open>ResetBlockFailureFlags\<close>: an operator, or a chain lock, asks to reconsider a block. The first loop clears the flags of the block and of its descendants, as
  far as they are not valid, and takes them out of the set of failed blocks; the second clears the flags of the ancestors and leaves that
  set as it is. The order of addresses, the last resort of the comparison of two blocks, is the order of their numbers.
\<close>

definition CBlockIndexWorkComparator :: "index_store \<Rightarrow> ptr \<Rightarrow> ptr \<Rightarrow> bool option" where
  "CBlockIndexWorkComparator st pa pb =
     do {
       a \<leftarrow> st pa;
       b \<leftarrow> st pb;
       Some (if CompareTo (nChainWork a) (nChainWork b) > 0 then False
         else if CompareTo (nChainWork a) (nChainWork b) < 0 then True
         else if nSequenceId a < nSequenceId b then False
         else if nSequenceId a > nSequenceId b then True
         else pa > pb)
     }"

definition reset_entry :: "CChain \<Rightarrow> ptr \<Rightarrow> int \<Rightarrow> ptr \<Rightarrow> block_tree \<Rightarrow> block_tree option" where
  "reset_entry chainActive pindex height q bt =
     do {
       b \<leftarrow> bt_store bt q;
       valid \<leftarrow> IsValid b 3;
       if valid then Some bt
       else do {
         a \<leftarrow> GetAncestor (bt_store bt) q height;
         if a \<noteq> Some pindex then Some bt
         else do {
           let b' = b\<lparr>nStatus := and (nStatus b) (not 96)\<rparr>;
           let st = (bt_store bt)(q \<mapsto> b');
           valid' \<leftarrow> IsValid b' 3;
           candidate \<leftarrow> (if valid' \<and> nChainTx b' \<noteq> 0 then do { tip \<leftarrow> Tip chainActive; CBlockIndexWorkComparator st tip q } else Some False);
           Some (bt\<lparr>bt_store := st, setDirtyBlockIndex := set_insert_ptr q (setDirtyBlockIndex bt),
             setBlockIndexCandidates := (if candidate then set_insert_ptr q (setBlockIndexCandidates bt) else setBlockIndexCandidates bt),
             pindexBestInvalid := (if pindexBestInvalid bt = Some q then None else pindexBestInvalid bt),
             g_failed_blocks := removeAll q (g_failed_blocks bt)\<rparr>)
         }
       }
     }"

fun reset_entries :: "CChain \<Rightarrow> ptr \<Rightarrow> int \<Rightarrow> (uint256 \<times> ptr) list \<Rightarrow> block_tree \<Rightarrow> block_tree option" where
  "reset_entries chainActive pindex height [] bt = Some bt"
| "reset_entries chainActive pindex height ((h, q) # m) bt =
     do { bt' \<leftarrow> reset_entry chainActive pindex height q bt; reset_entries chainActive pindex height m bt' }"

text \<open>The walk to the root is bounded by the height of its start, plus one.\<close>

fun reset_ancestors :: "nat \<Rightarrow> ptr option \<Rightarrow> block_tree \<Rightarrow> block_tree option" where
  "reset_ancestors n None bt = Some bt"
| "reset_ancestors 0 (Some p) bt = None"
| "reset_ancestors (Suc n) (Some p) bt =
     do {
       b \<leftarrow> bt_store bt p;
       reset_ancestors n (pprev b)
         (if and (nStatus b) 96 \<noteq> 0
          then bt\<lparr>bt_store := (bt_store bt)(p \<mapsto> b\<lparr>nStatus := and (nStatus b) (not 96)\<rparr>),
                 setDirtyBlockIndex := set_insert_ptr p (setDirtyBlockIndex bt)\<rparr>
          else bt)
     }"

definition ResetBlockFailureFlags :: "CChain \<Rightarrow> block_tree \<Rightarrow> ptr \<Rightarrow> block_tree option" where
  "ResetBlockFailureFlags chainActive bt pindex =
     do {
       b \<leftarrow> bt_store bt pindex;
       bt' \<leftarrow> reset_entries chainActive pindex (nHeight b) (mapBlockIndex bt) bt;
       reset_ancestors (nat (nHeight b) + 1) (Some pindex) bt'
     }"

section \<open>Growing stores\<close>

text \<open>A later store has the entries of an earlier one, up to their status.\<close>

definition sub_tree :: "index_store \<Rightarrow> index_store \<Rightarrow> bool" where
  "sub_tree st st' \<longleftrightarrow> (\<forall>p b. st p = Some b \<longrightarrow> (\<exists>s. st' p = Some (b\<lparr>nStatus := s\<rparr>)))"

lemma sub_treeD: "sub_tree st st' \<Longrightarrow> st p = Some b \<Longrightarrow> \<exists>s. st' p = Some (b\<lparr>nStatus := s\<rparr>)"
  by (simp add: sub_tree_def)

lemma sub_tree_refl: "sub_tree st st"
proof -
  have "\<exists>s. b = b\<lparr>nStatus := s\<rparr>" for b :: CBlockIndex
    by (rule exI[of _ "nStatus b"]) simp
  then show ?thesis
    by (simp add: sub_tree_def)
qed

lemma sub_tree_trans:
  assumes "sub_tree a b" "sub_tree b c"
  shows "sub_tree a c"
  unfolding sub_tree_def
proof (intro allI impI)
  fix p x
  assume "a p = Some x"
  then obtain s where "b p = Some (x\<lparr>nStatus := s\<rparr>)"
    using sub_treeD[OF assms(1)] by blast
  then obtain t where "c p = Some (x\<lparr>nStatus := s\<rparr>\<lparr>nStatus := t\<rparr>)"
    using sub_treeD[OF assms(2)] by blast
  then show "\<exists>s. c p = Some (x\<lparr>nStatus := s\<rparr>)"
    by auto
qed

lemma sub_tree_fresh: "st p = None \<Longrightarrow> sub_tree st (st(p \<mapsto> b))"
  using sub_tree_refl[of st] by (auto simp: sub_tree_def)

lemma sub_tree_status:
  assumes "st p = Some b"
  shows "sub_tree st (st(p \<mapsto> b\<lparr>nStatus := s\<rparr>))"
  unfolding sub_tree_def
proof (intro allI impI)
  fix q c
  assume q: "st q = Some c"
  show "\<exists>t. (st(p \<mapsto> b\<lparr>nStatus := s\<rparr>)) q = Some (c\<lparr>nStatus := t\<rparr>)"
  proof (cases "q = p")
    case True
    then show ?thesis
      using assms q by (intro exI[of _ s]) simp
  next
    case False
    then show ?thesis
      using q by (intro exI[of _ "nStatus c"]) simp
  qed
qed

lemma prev_n_sub:
  assumes "sub_tree st st'"
  shows "prev_n st n p = Some q \<Longrightarrow> prev_n st' n p = Some q"
proof (induction n arbitrary: p)
  case (Suc n)
  then obtain b r where "st p = Some b" "pprev b = Some r" "prev_n st n r = Some q"
    by (auto simp: bind_eq_Some_conv)
  then show ?case
    using Suc.IH sub_treeD[OF assms] by force
qed simp

lemma height_at_sub: "sub_tree st st' \<Longrightarrow> st p = Some b \<Longrightarrow> height_at st' p = height_at st p"
  using sub_treeD[of st st' p b] by (auto simp: height_at_def)

lemma ancestor_at_sub:
  "sub_tree st st' \<Longrightarrow> st p = Some b \<Longrightarrow> ancestor_at st p h = Some q \<Longrightarrow> ancestor_at st' p h = Some q"
  by (auto simp: ancestor_at_def height_at_sub prev_n_sub split: if_splits)

lemma wf_entry_sub:
  assumes "sub_tree st st'" "st p = Some b" "wf_entry st p b"
  shows "wf_entry st' p (b\<lparr>nStatus := s\<rparr>)"
proof -
  have "\<exists>c'. st' q = Some c' \<and> nHeight c' = nHeight c" if "st q = Some c" for q c
    using sub_treeD[OF assms(1) that] by auto
  then show ?thesis
    using assms(3) ancestor_at_sub[OF assms(1,2)] by (fastforce simp: wf_entry_def split: option.splits)
qed

lemma wf_store_extend:
  assumes "wf_store st" "st p = None" "wf_entry (st(p \<mapsto> b)) p b"
  shows "wf_store (st(p \<mapsto> b))"
  unfolding wf_store_def
proof (intro allI impI)
  fix q c
  assume q: "(st(p \<mapsto> b)) q = Some c"
  show "wf_entry (st(p \<mapsto> b)) q c"
  proof (cases "q = p")
    case False
    then have "st q = Some c"
      using q by simp
    then show ?thesis
      using wf_entry_sub[OF sub_tree_fresh[of st p, OF assms(2)], of q c b "nStatus c"] assms(1) by (simp add: wf_store_def)
  qed (use q assms(3) in simp)
qed

text \<open>Well-formedness is about the links of the entries only.\<close>

definition links :: "CBlockIndex \<Rightarrow> ptr option \<times> ptr option \<times> int" where
  "links b = (pprev b, pskip b, nHeight b)"

definition same_links :: "index_store \<Rightarrow> index_store \<Rightarrow> bool" where
  "same_links st st' \<longleftrightarrow> (\<forall>p. map_option links (st p) = map_option links (st' p))"

lemma same_links_entry:
  assumes "same_links st st'" "st' p = Some b'"
  obtains b where "st p = Some b" "pprev b = pprev b'" "pskip b = pskip b'" "nHeight b = nHeight b'"
proof -
  have "map_option links (st p) = map_option links (st' p)"
    using assms(1) by (simp add: same_links_def)
  then show thesis
    using that assms(2) by (auto simp: links_def)
qed

lemma same_links_sym: "same_links st st' \<Longrightarrow> same_links st' st"
  by (simp add: same_links_def)

lemma prev_n_same:
  assumes "same_links st st'"
  shows "prev_n st n p = prev_n st' n p"
proof (induction n arbitrary: p)
  case (Suc n)
  have "map_option links (st p) = map_option links (st' p)"
    using assms by (simp add: same_links_def)
  then show ?case
    using Suc.IH by (cases "st p"; cases "st' p") (auto simp: links_def)
qed simp

lemma height_at_same:
  assumes "same_links st st'"
  shows "height_at st p = height_at st' p"
proof -
  have "map_option links (st p) = map_option links (st' p)"
    using assms by (simp add: same_links_def)
  then show ?thesis
    by (cases "st p"; cases "st' p") (auto simp: links_def height_at_def)
qed

lemma wf_store_same:
  assumes "same_links st st'" "wf_store st"
  shows "wf_store st'"
  unfolding wf_store_def
proof (intro allI impI)
  fix p b'
  assume "st' p = Some b'"
  then obtain b where b: "st p = Some b" "pprev b = pprev b'" "pskip b = pskip b'" "nHeight b = nHeight b'"
    using same_links_entry[OF assms(1)] by blast
  have "ancestor_at st p h = ancestor_at st' p h" for h
    by (simp add: ancestor_at_def prev_n_same[OF assms(1)] height_at_same[OF assms(1)])
  moreover have "\<exists>c'. st' q = Some c' \<and> nHeight c' = nHeight c" if "st q = Some c" for q c
    using same_links_entry[OF same_links_sym[OF assms(1)] that] by metis
  moreover have "wf_entry st p b"
    using assms(2) b(1) by (simp add: wf_store_def)
  ultimately show "wf_entry st' p b'"
    using b(2-4) by (fastforce simp: wf_entry_def split: option.splits)
qed

lemma same_links_update: "links b = links b' \<Longrightarrow> same_links (st(p \<mapsto> b)) (st(p \<mapsto> b'))"
  by (simp add: same_links_def)

lemma wf_store_status:
  assumes "wf_store st" "st p = Some b"
  shows "wf_store (st(p \<mapsto> b\<lparr>nStatus := s\<rparr>))"
  by (rule wf_store_same[OF _ assms(1)]) (use assms(2) in \<open>auto simp: same_links_def links_def\<close>)

text \<open>Linking a new entry gives a well-formed entry, and its skip pointer is found without a failure.\<close>

lemma link_entry_wf:
  assumes "wf_store st" "st p = None" "st q = Some c" "pskip b = None"
  obtains b' r where "link_entry st p b (Some q) = Some b'" "b' = b\<lparr>pprev := Some q, nHeight := nHeight c + 1, pskip := Some r\<rparr>"
    "wf_store (st(p \<mapsto> b'))"
proof -
  let ?b = "b\<lparr>pprev := Some q, nHeight := nHeight c + 1\<rparr>"
  have h: "nHeight c \<ge> 0"
    using wf_height[OF assms(1,3)] .
  have "q \<noteq> p"
    using assms by auto
  have wb: "wf_store (st(p \<mapsto> ?b))"
    using assms h \<open>q \<noteq> p\<close> by (intro wf_store_extend) (auto simp: wf_entry_def)
  let ?k = "GetSkipHeight (nat (nHeight c + 1))"
  have k: "?k \<le> nat (nHeight c)"
    using GetSkipHeight_less[of "nat (nHeight c + 1)"] h by (simp add: nat_add_distrib)
  obtain r where r: "ancestor_at st q ?k = Some r"
    using ancestor_at_exists[OF assms(1,3) k] .
  have "GetAncestor (st(p \<mapsto> ?b)) q (int ?k) = Some (Some r)"
    using GetAncestor_correct[OF wb, of q c] ancestor_at_sub[OF sub_tree_fresh[of st p, OF assms(2)] assms(3) r] assms(3) \<open>q \<noteq> p\<close> by simp
  then have l: "link_entry st p b (Some q) = Some (?b\<lparr>pskip := Some r\<rparr>)"
    using assms(3) \<open>q \<noteq> p\<close> by (simp add: link_entry_def BuildSkip_def)
  let ?st = "st(p \<mapsto> ?b\<lparr>pskip := Some r\<rparr>)"
  have "ancestor_at ?st q ?k = Some r"
    using ancestor_at_sub[OF sub_tree_fresh[of st p, OF assms(2)] assms(3) r] .
  then have "ancestor_at ?st p ?k = Some r"
    using assms(3) h k \<open>q \<noteq> p\<close> by (auto simp: ancestor_at_def height_at_def nat_add_distrib Suc_diff_le split: if_splits)
  then have "wf_store ?st"
    using assms h \<open>q \<noteq> p\<close> by (intro wf_store_extend) (auto simp: wf_entry_def)
  then show thesis
    using that[OF l] by simp
qed

section \<open>The invariant of the tree\<close>

definition proof_val :: "u32 \<Rightarrow> nat" where
  "proof_val bits = (case GetBlockProof bits of None \<Rightarrow> 0 | Some r \<Rightarrow> limbs_val r)"

lemma GetBlockProof_some:
  obtains r where "GetBlockProof bits = Some r" "wf_limbs r" "limbs_val r = proof_val bits"
proof -
  obtain a neg over where "SetCompact bits = (a, neg, over)"
    by (cases "SetCompact bits") auto
  then obtain r where "GetBlockProof bits = Some r" "wf_limbs r"
    using GetBlockProof_val by metis
  then show thesis
    using that by (simp add: proof_val_def)
qed

text \<open>The accumulated work and the latest time of an entry, given those of its parent.\<close>

definition sums_ok :: "index_store \<Rightarrow> CBlockIndex \<Rightarrow> bool" where
  "sums_ok st b \<longleftrightarrow> wf_limbs (nChainWork b)
     \<and> (case pprev b of
          None \<Rightarrow> limbs_val (nChainWork b) = proof_val (nBits b) \<and> nTimeMax b = nTime b
        | Some q \<Rightarrow> (case st q of None \<Rightarrow> False | Some c \<Rightarrow>
            limbs_val (nChainWork b) = (limbs_val (nChainWork c) + proof_val (nBits b)) mod 2 ^ 256
            \<and> nTimeMax b = max (nTimeMax c) (nTime b)))"

text \<open>An entry without a chain lock conflict does not have more work than the best header.\<close>

definition best_ok :: "block_tree \<Rightarrow> bool" where
  "best_ok bt \<longleftrightarrow> (\<forall>p b. bt_store bt p = Some b \<longrightarrow> and (nStatus b) 256 = 0 \<longrightarrow>
     (\<exists>q c. pindexBestHeader bt = Some q \<and> bt_store bt q = Some c \<and> limbs_val (nChainWork b) \<le> limbs_val (nChainWork c)))
     \<and> (\<forall>q. pindexBestHeader bt = Some q \<longrightarrow> bt_store bt q \<noteq> None)"

definition tree_inv :: "block_tree \<Rightarrow> bool" where
  "tree_inv bt \<longleftrightarrow> wf_store (bt_store bt)
     \<and> (\<forall>p. bt_store bt p \<noteq> None \<longrightarrow> p < bt_next bt)
     \<and> (\<forall>p h. map_of (mapBlockIndex bt) h = Some p \<longleftrightarrow> (\<exists>b. bt_store bt p = Some b \<and> phashBlock b = Some h))
     \<and> (\<forall>p b. bt_store bt p = Some b \<longrightarrow> sums_ok (bt_store bt) b)
     \<and> best_ok bt"

lemma empty_tree_inv: "tree_inv empty_tree"
  by (simp add: tree_inv_def empty_tree_def wf_store_def best_ok_def)

lemma sums_ok_sub:
  assumes "sub_tree st st'" "sums_ok st b"
  shows "sums_ok st' (b\<lparr>nStatus := s\<rparr>)"
proof (cases "pprev b")
  case None
  then show ?thesis
    using assms(2) by (simp add: sums_ok_def)
next
  case (Some q)
  then obtain c where c: "st q = Some c"
    using assms(2) by (auto simp: sums_ok_def split: option.splits)
  then obtain t where "st' q = Some (c\<lparr>nStatus := t\<rparr>)"
    using sub_treeD[OF assms(1)] by blast
  then show ?thesis
    using assms(2) Some c by (simp add: sums_ok_def)
qed

lemma work_entry_sums:
  assumes "pprev b = None \<or> (\<exists>q c. pprev b = Some q \<and> st q = Some c \<and> wf_limbs (nChainWork c))"
  obtains b' tmax work where "work_entry st b = Some b'" "b' = b\<lparr>nTimeMax := tmax, nChainWork := work\<rparr>" "sums_ok st b'"
proof -
  obtain r where r: "GetBlockProof (nBits b) = Some r" "wf_limbs r" "limbs_val r = proof_val (nBits b)"
    by (rule GetBlockProof_some)
  show thesis
  proof (cases "pprev b")
    case None
    show thesis
      by (rule that[OF _ refl, of "limbs_add (of_uint64 0) r" "nTime b"])
        (use r(1,3) None limbs_add_val[OF of_uint64_wf[of 0] r(2)] wf_limbs_less[OF r(2)]
          in \<open>simp_all add: work_entry_def sums_ok_def of_uint64_val\<close>)
  next
    case (Some q)
    then obtain c where c: "st q = Some c" "wf_limbs (nChainWork c)"
      using assms by auto
    show thesis
      by (rule that[OF _ refl, of "limbs_add (nChainWork c) r" "max (nTimeMax c) (nTime b)"])
        (use r(1,3) Some c(1) limbs_add_val[OF c(2) r(2)] in \<open>simp_all add: work_entry_def sums_ok_def\<close>)
  qed
qed

text \<open>The entry that \<open>AddToBlockIndex\<close> adds, and what it leaves as it was.\<close>

definition adds_entry :: "block_tree \<Rightarrow> CBlockHeader \<Rightarrow> uint256 \<Rightarrow> block_tree \<Rightarrow> CBlockIndex \<Rightarrow> bool" where
  "adds_entry bt block hash bt' b \<longleftrightarrow>
     bt_store bt' = (bt_store bt)(bt_next bt \<mapsto> b) \<and> g_failed_blocks bt' = g_failed_blocks bt
     \<and> phashBlock b = Some hash \<and> pprev b = map_of (mapBlockIndex bt) (hd_hashPrevBlock block)
     \<and> nBits b = hd_nBits block \<and> nTime b = hd_nTime block \<and> bi_nVersion b = hd_nVersion block"

definition header_fields :: "CBlockIndex \<Rightarrow> uint256 option \<times> u32 \<times> u32 \<times> u32" where
  "header_fields b = (phashBlock b, nBits b, nTime b, bi_nVersion b)"

lemma link_step:
  assumes "wf_store st" "st p = None" "pprev b0 = None" "pskip b0 = None" "nStatus b0 = 0"
    and "prv = None \<Longrightarrow> nHeight b0 = 0" "\<And>q. prv = Some q \<Longrightarrow> st q \<noteq> None"
  obtains b1 where "link_entry st p b0 prv = Some b1" "wf_store (st(p \<mapsto> b1))" "pprev b1 = prv" "nStatus b1 = 0"
    "header_fields b1 = header_fields b0"
proof (cases prv)
  case None
  have "wf_store (st(p \<mapsto> b0))"
    using assms None by (intro wf_store_extend) (auto simp: wf_entry_def)
  then show thesis
    using that[of b0] assms None by (simp add: link_entry_def)
next
  case (Some q)
  then obtain c where c: "st q = Some c"
    using assms(7) by blast
  obtain b' r where b': "link_entry st p b0 (Some q) = Some b'" "b' = b0\<lparr>pprev := Some q, nHeight := nHeight c + 1, pskip := Some r\<rparr>"
    "wf_store (st(p \<mapsto> b'))"
    by (rule link_entry_wf[OF assms(1,2) c assms(4)])
  show thesis
    by (rule that[of b']) (use b' Some assms(5) in \<open>simp_all add: header_fields_def\<close>)
qed

lemma raise_new: "nStatus b = 0 \<Longrightarrow> RaiseValidity b 2 = Some (True, b\<lparr>nStatus := 2\<rparr>)"
  by (simp add: RaiseValidity_def)

text \<open>The status and the best header for the two ways in which an entry is added.\<close>

definition new_status :: "u32 \<Rightarrow> u32" where
  "new_status status = (if status = 2 then 2 else or 2 status)"

definition new_best :: "block_tree \<Rightarrow> u32 \<Rightarrow> CBlockIndex \<Rightarrow> ptr option" where
  "new_best bt status b =
     (if status = 2 \<and> (case pindexBestHeader bt \<bind> bt_store bt of None \<Rightarrow> True
          | Some c \<Rightarrow> CompareTo (nChainWork c) (nChainWork b) < 0)
      then Some (bt_next bt) else pindexBestHeader bt)"

lemma CompareTo_lt: "wf_limbs a \<Longrightarrow> wf_limbs b \<Longrightarrow> CompareTo a b < 0 \<longleftrightarrow> limbs_val a < limbs_val b"
  by (simp add: CompareTo_val wf_limbs_def)

lemma new_best_ok:
  assumes inv: "tree_inv bt" and fresh: "bt_store bt (bt_next bt) = None" and wf: "wf_limbs (nChainWork b)"
    and st: "nStatus b = new_status status" and status: "status = 2 \<or> status = 256"
    and bt': "bt_store bt' = (bt_store bt)(bt_next bt \<mapsto> b)" "pindexBestHeader bt' = new_best bt status b"
  shows "best_ok bt'"
proof -
  let ?p = "bt_next bt"
  have old: "best_ok bt"
    using inv by (simp add: tree_inv_def)
  have work: "wf_limbs (nChainWork c)" if "bt_store bt q = Some c" for q c
    using inv that by (auto simp: tree_inv_def sums_ok_def)
  have new: "and (nStatus b) 256 = 0 \<longleftrightarrow> status = 2"
    using st status by (auto simp: new_status_def)
  show ?thesis
  proof (cases "pindexBestHeader bt")
    case None
    then have "and (nStatus d) 256 \<noteq> 0" if "bt_store bt q = Some d" for q d
      using old that by (auto simp: best_ok_def)
    then show ?thesis
      using None new by (auto simp: best_ok_def bt' new_best_def)
  next
    case (Some r)
    then obtain c where c: "bt_store bt r = Some c"
      using old by (auto simp: best_ok_def)
    then have rp: "r \<noteq> ?p"
      using fresh by auto
    have le: "limbs_val (nChainWork d) \<le> limbs_val (nChainWork c)" if "bt_store bt q = Some d" "and (nStatus d) 256 = 0" for q d
      using old that Some c by (auto simp: best_ok_def)
    have nb: "new_best bt status b = (if status = 2 \<and> limbs_val (nChainWork c) < limbs_val (nChainWork b) then Some ?p else Some r)"
      using Some c CompareTo_lt[OF work[OF c] wf] by (simp add: new_best_def)
    show ?thesis
    proof (cases "status = 2 \<and> limbs_val (nChainWork c) < limbs_val (nChainWork b)")
      case True
      have "limbs_val (nChainWork d) \<le> limbs_val (nChainWork b)" if "bt_store bt q = Some d" "and (nStatus d) 256 = 0" for q d
        using le[OF that] True by simp
      moreover have "pindexBestHeader bt' = Some ?p"
        unfolding bt'(2) nb using True by (rule if_P)
      ultimately show ?thesis
        by (auto simp: best_ok_def bt'(1))
    next
      case False
      then have "pindexBestHeader bt' = Some r" "and (nStatus b) 256 = 0 \<Longrightarrow> limbs_val (nChainWork b) \<le> limbs_val (nChainWork c)"
        using new nb by (auto simp: bt'(2))
      then show ?thesis
        using le c rp by (auto simp: best_ok_def bt'(1))
    qed
  qed
qed

lemma AddToBlockIndex_eq:
  assumes inv: "tree_inv bt" and new: "map_of (mapBlockIndex bt) (GetHash E block) = None"
    and prv: "hd_hashPrevBlock block \<noteq> GetHash E block"
    and root: "map_of (mapBlockIndex bt) (hd_hashPrevBlock block) = None \<Longrightarrow> hd_nHeight block = 0"
    and status: "status = 2 \<or> status = 256"
  obtains b prevs where "AddToBlockIndex E bt block status = Some (bt_next bt,
      bt\<lparr>bt_store := (bt_store bt)(bt_next bt \<mapsto> b), bt_next := bt_next bt + 1,
         mapBlockIndex := AList.update (GetHash E block) (bt_next bt) (mapBlockIndex bt), pindexBestHeader := new_best bt status b,
         setDirtyBlockIndex := set_insert_ptr (bt_next bt) (setDirtyBlockIndex bt), mapPrevBlockIndex := prevs\<rparr>)"
    "wf_store ((bt_store bt)(bt_next bt \<mapsto> b))" "sums_ok (bt_store bt) b" "nStatus b = new_status status"
    "pprev b = map_of (mapBlockIndex bt) (hd_hashPrevBlock block)"
    "header_fields b = (Some (GetHash E block), hd_nBits block, hd_nTime block, hd_nVersion block)"
proof -
  define p where "p = bt_next bt"
  define st where "st = bt_store bt"
  define prv where "prv = map_of (mapBlockIndex bt) (hd_hashPrevBlock block)"
  define b0 where "b0 = (CBlockIndex_of_header block)\<lparr>nSequenceId := 0, phashBlock := Some (GetHash E block)\<rparr>"
  define m where "m = AList.update (GetHash E block) p (mapBlockIndex bt)"
  have fresh: "st p = None" and wf: "wf_store st"
    using inv by (auto simp: tree_inv_def st_def p_def)
  have lookup: "map_of m (hd_hashPrevBlock block) = prv"
    using prv by (simp add: m_def update_conv prv_def)
  have parent: "st q \<noteq> None" "q \<noteq> p" if "prv = Some q" for q
    using inv that fresh by (auto simp: tree_inv_def st_def prv_def)
  have b0: "pprev b0 = None" "pskip b0 = None" "nStatus b0 = 0" "prv = None \<Longrightarrow> nHeight b0 = 0"
    using root by (simp_all add: b0_def CBlockIndex_of_header_def prv_def)
  obtain b1 where b1: "link_entry st p b0 prv = Some b1" "wf_store (st(p \<mapsto> b1))" "pprev b1 = prv" "nStatus b1 = 0"
    "header_fields b1 = header_fields b0"
    using link_step[OF wf fresh b0] parent(1) by blast
  have parent_ok: "\<exists>c. (st(p \<mapsto> x)) q = Some c \<and> st q = Some c \<and> wf_limbs (nChainWork c)" if q: "prv = Some q" for q x
  proof -
    obtain c where "st q = Some c"
      using parent(1)[OF q] by blast
    moreover from this have "sums_ok st c"
      using inv by (simp add: tree_inv_def st_def)
    ultimately show ?thesis
      using parent(2)[OF q] by (auto simp: sums_ok_def)
  qed
  have "pprev b1 = None \<or> (\<exists>q c. pprev b1 = Some q \<and> (st(p \<mapsto> b1)) q = Some c \<and> wf_limbs (nChainWork c))"
    using parent_ok by (cases prv) (auto simp: b1(3))
  then obtain b2 tmax work where b2: "work_entry (st(p \<mapsto> b1)) b1 = Some b2" "b2 = b1\<lparr>nTimeMax := tmax, nChainWork := work\<rparr>"
    "sums_ok (st(p \<mapsto> b1)) b2"
    by (rule work_entry_sums)
  define b where "b = b2\<lparr>nStatus := new_status status\<rparr>"
  have f: "pprev b = prv" "nStatus b = new_status status" "nStatus b2 = 0" "header_fields b = header_fields b0"
    "pprev b2 = prv" "links b1 = links b"
    using b1 by (simp_all add: b_def b2(2) header_fields_def links_def)
  have wfb: "wf_store (st(p \<mapsto> b))"
    using wf_store_same[OF same_links_update[OF f(6)] b1(2)] .
  have sums: "sums_ok st b"
    using b2(3) parent(2) f(5) by (cases prv) (auto simp: sums_ok_def b_def split: option.splits)
  have best: "better_header (st(p \<mapsto> x)) (pindexBestHeader bt) x = Some (case pindexBestHeader bt \<bind> st of None \<Rightarrow> True
      | Some c \<Rightarrow> CompareTo (nChainWork c) (nChainWork x) < 0)" for x
  proof (cases "pindexBestHeader bt")
    case (Some q)
    then obtain c where "st q = Some c"
      using inv by (auto simp: tree_inv_def best_ok_def st_def)
    moreover have "q \<noteq> p"
      using \<open>st q = Some c\<close> fresh by auto
    ultimately show ?thesis
      using Some by (simp add: better_header_def)
  qed (simp add: better_header_def)
  obtain prevs where prevs: "(case pprev b of None \<Rightarrow> Some (mapPrevBlockIndex bt)
      | Some q \<Rightarrow> map_option (\<lambda>c. mapPrevBlockIndex bt @ [(GetBlockHash c, p)]) ((st(p \<mapsto> b)) q)) = Some prevs"
    using parent_ok[of _ b] by (cases prv) (auto simp: f(1))
  have "AddToBlockIndex E bt block status = Some (p, bt\<lparr>bt_store := st(p \<mapsto> b), bt_next := p + 1, mapBlockIndex := m,
      pindexBestHeader := new_best bt status b, setDirtyBlockIndex := set_insert_ptr p (setDirtyBlockIndex bt), mapPrevBlockIndex := prevs\<rparr>)"
  proof (cases "status = 2")
    case True
    then have "RaiseValidity b2 status = Some (True, b)"
      using raise_new[OF f(3)] by (simp add: b_def new_status_def)
    then show ?thesis
      unfolding AddToBlockIndex_def Let_def new option.case p_def[symmetric] st_def[symmetric] b0_def[symmetric] m_def[symmetric]
        lookup b1(1) Option.bind.bind_lunit b2(1)
      using True prevs by (simp add: best new_best_def) (simp add: st_def p_def)
  next
    case False
    then have "status = 256" "b2\<lparr>nStatus := 258\<rparr> = b"
      using status by (simp_all add: b_def new_status_def)
    then show ?thesis
      unfolding AddToBlockIndex_def Let_def new option.case p_def[symmetric] st_def[symmetric] b0_def[symmetric] m_def[symmetric]
        lookup b1(1) Option.bind.bind_lunit b2(1)
      using prevs raise_new[OF f(3)] by (simp add: new_best_def)
  qed
  then show thesis
    using that wfb sums f(1,2,4) unfolding p_def st_def m_def prv_def
    by (simp add: header_fields_def b0_def CBlockIndex_of_header_def)
qed

lemma AddToBlockIndex_inv:
  assumes inv: "tree_inv bt" and new: "map_of (mapBlockIndex bt) (GetHash E block) = None"
    and prv: "hd_hashPrevBlock block \<noteq> GetHash E block"
    and root: "map_of (mapBlockIndex bt) (hd_hashPrevBlock block) = None \<Longrightarrow> hd_nHeight block = 0"
    and status: "status = 2 \<or> status = 256"
  obtains bt' b where "AddToBlockIndex E bt block status = Some (bt_next bt, bt')" "tree_inv bt'"
    "adds_entry bt block (GetHash E block) bt' b"
proof -
  obtain b prevs where a: "AddToBlockIndex E bt block status = Some (bt_next bt,
      bt\<lparr>bt_store := (bt_store bt)(bt_next bt \<mapsto> b), bt_next := bt_next bt + 1,
         mapBlockIndex := AList.update (GetHash E block) (bt_next bt) (mapBlockIndex bt), pindexBestHeader := new_best bt status b,
         setDirtyBlockIndex := set_insert_ptr (bt_next bt) (setDirtyBlockIndex bt), mapPrevBlockIndex := prevs\<rparr>)"
    and wf: "wf_store ((bt_store bt)(bt_next bt \<mapsto> b))" and sums: "sums_ok (bt_store bt) b" and st: "nStatus b = new_status status"
    and f: "pprev b = map_of (mapBlockIndex bt) (hd_hashPrevBlock block)"
      "header_fields b = (Some (GetHash E block), hd_nBits block, hd_nTime block, hd_nVersion block)"
    by (rule AddToBlockIndex_eq[OF inv new prv root status])
  let ?p = "bt_next bt"
  let ?st = "(bt_store bt)(?p \<mapsto> b)"
  let ?bt = "bt\<lparr>bt_store := ?st, bt_next := ?p + 1,
         mapBlockIndex := AList.update (GetHash E block) ?p (mapBlockIndex bt), pindexBestHeader := new_best bt status b,
         setDirtyBlockIndex := set_insert_ptr ?p (setDirtyBlockIndex bt), mapPrevBlockIndex := prevs\<rparr>"
  have fresh: "bt_store bt ?p = None"
    using inv by (auto simp: tree_inv_def)
  note sub = sub_tree_fresh[of "bt_store bt" ?p b, OF fresh]
  have sums': "sums_ok ?st c" if c: "?st q = Some c" for q c
  proof -
    have "sums_ok (bt_store bt) c"
      using c sums inv by (cases "q = ?p") (auto simp: tree_inv_def)
    then show ?thesis
      using sums_ok_sub[OF sub, of c "nStatus c"] by simp
  qed
  have index: "map_of (mapBlockIndex ?bt) h = Some q \<longleftrightarrow> (\<exists>c. ?st q = Some c \<and> phashBlock c = Some h)" for q h
  proof -
    have old: "map_of (mapBlockIndex bt) h = Some q \<longleftrightarrow> (\<exists>c. bt_store bt q = Some c \<and> phashBlock c = Some h)" for q h
      using inv by (simp add: tree_inv_def)
    have "phashBlock b = Some (GetHash E block)"
      using f(2) by (simp add: header_fields_def)
    then show ?thesis
      using old[of h q] old[of "GetHash E block"] new fresh by (cases "h = GetHash E block"; cases "q = ?p") (auto simp: update_conv)
  qed
  have "best_ok ?bt"
    by (rule new_best_ok[OF inv fresh _ st status]) (use sums in \<open>simp_all add: sums_ok_def\<close>)
  then have "tree_inv ?bt"
    using wf sums' index inv by (auto simp: tree_inv_def less_Suc_eq)
  moreover have "adds_entry bt block (GetHash E block) ?bt b"
    using f by (simp add: adds_entry_def header_fields_def)
  ultimately show thesis
    by (rule that[OF a])
qed

section \<open>Every header keeps the invariant\<close>

text \<open>
  The invariant with the blocks that are known to be invalid. They are entries of the tree; the strict form, for \<open>k\<close>, says that they are also marked, which
  holds as long as no flags are reset.
\<close>

definition failed_ok :: "bool \<Rightarrow> block_tree \<Rightarrow> bool" where
  "failed_ok k bt \<longleftrightarrow> (\<forall>f\<in>set (g_failed_blocks bt). \<exists>b. bt_store bt f = Some b \<and> (k \<longrightarrow> and (nStatus b) 32 \<noteq> 0))"

definition headers_inv :: "bool \<Rightarrow> block_tree \<Rightarrow> bool" where
  "headers_inv k bt \<longleftrightarrow> tree_inv bt \<and> failed_ok k bt \<and> map_of (mapBlockIndex bt) 0 = None"

text \<open>Fields outside the invariant.\<close>

lemma headers_inv_cong:
  assumes "headers_inv k bt" "bt_store bt' = bt_store bt" "bt_next bt' = bt_next bt" "mapBlockIndex bt' = mapBlockIndex bt"
    "pindexBestHeader bt' = pindexBestHeader bt" "g_failed_blocks bt' = g_failed_blocks bt"
  shows "headers_inv k bt'"
  using assms by (simp add: headers_inv_def tree_inv_def best_ok_def failed_ok_def)

lemma headers_inv_status:
  assumes inv: "headers_inv k bt" and b: "bt_store bt p = Some b"
    and s: "and s 256 = and (nStatus b) 256" "k \<Longrightarrow> and (nStatus b) 32 \<noteq> 0 \<Longrightarrow> and s 32 \<noteq> 0"
    and g: "\<And>f. f \<in> set g \<Longrightarrow> f \<in> set (g_failed_blocks bt) \<or> f = p \<and> and s 32 \<noteq> 0"
  shows "headers_inv k (bt\<lparr>bt_store := (bt_store bt)(p \<mapsto> b\<lparr>nStatus := s\<rparr>), g_failed_blocks := g\<rparr>)" (is "headers_inv k ?bt")
proof -
  let ?st = "(bt_store bt)(p \<mapsto> b\<lparr>nStatus := s\<rparr>)"
  have t: "tree_inv bt" "failed_ok k bt" "map_of (mapBlockIndex bt) 0 = None"
    using inv by (simp_all add: headers_inv_def)
  have old: "\<exists>c'. bt_store bt q = Some c' \<and> c = c'\<lparr>nStatus := nStatus c\<rparr> \<and> and (nStatus c) 256 = and (nStatus c') 256"
    if c: "?st q = Some c" for q c
    using c b s(1) by (cases "q = p") auto
  have wf: "wf_store ?st"
    using t(1) b by (intro wf_store_status) (auto simp: tree_inv_def)
  have sums: "sums_ok ?st c" if c: "?st q = Some c" for q c
  proof -
    obtain c' where c': "bt_store bt q = Some c'" "c = c'\<lparr>nStatus := nStatus c\<rparr>"
      using old[OF c] by blast
    then have "sums_ok (bt_store bt) c'"
      using t(1) by (simp add: tree_inv_def)
    then show ?thesis
      by (subst c'(2)) (rule sums_ok_sub[OF sub_tree_status[of "bt_store bt" p b s, OF b]])
  qed
  have "best_ok bt"
    using t(1) by (simp add: tree_inv_def)
  then have best: "best_ok ?bt"
    using b s(1) by (auto simp: best_ok_def) force+
  have index: "(\<exists>c. ?st q = Some c \<and> phashBlock c = Some h) \<longleftrightarrow> (\<exists>c. bt_store bt q = Some c \<and> phashBlock c = Some h)" for q h
    using b by auto
  have "tree_inv ?bt"
    using t(1) wf sums best index b by (auto simp: tree_inv_def)
  moreover have "failed_ok k ?bt"
    unfolding failed_ok_def
  proof
    fix f
    assume f: "f \<in> set (g_failed_blocks ?bt)"
    show "\<exists>c. bt_store ?bt f = Some c \<and> (k \<longrightarrow> and (nStatus c) 32 \<noteq> 0)"
    proof (cases "f = p")
      case True
      have "k \<longrightarrow> and s 32 \<noteq> 0"
        using g[of f] f s(2) t(2) b True by (auto simp: failed_ok_def)
      then show ?thesis
        using True by simp
    next
      case False
      then show ?thesis
        using g[of f] f t(2) by (auto simp: failed_ok_def)
    qed
  qed
  ultimately show ?thesis
    using t(3) by (simp add: headers_inv_def)
qed

lemma or_64_bits: "and (or s 64) 256 = and s 256" "and (or s 64) 32 = and s 32" for s :: u32
  by (simp_all add: and.assoc bit.conj_disj_distrib2)

lemma or_32_bits: "and (or s 32) 256 = and s 256" "and (or s 32) 32 = 32" for s :: u32
  by (simp_all add: bit.conj_disj_distrib2)

lemma mark_failed_inv:
  assumes "headers_inv k bt" "mark_failed n f p bt = Some bt'"
  shows "headers_inv k bt' \<and> mapBlockIndex bt' = mapBlockIndex bt \<and> bt_next bt' = bt_next bt \<and> sub_tree (bt_store bt) (bt_store bt')
    \<and> dom (bt_store bt') = dom (bt_store bt)"
  using assms
proof (induction n arbitrary: p bt)
  case 0
  then show ?case
    by (auto simp: mark_failed.simps[of 0] sub_tree_refl split: if_splits)
next
  case (Suc n)
  show ?case
  proof (cases "p = f")
    case True
    then show ?thesis
      using Suc.prems by (simp add: mark_failed.simps[of "Suc n"] sub_tree_refl)
  next
    case False
    let ?bt = "\<lambda>b. bt\<lparr>bt_store := (bt_store bt)(p \<mapsto> b\<lparr>nStatus := or (nStatus b) 64\<rparr>),
                setDirtyBlockIndex := set_insert_ptr p (setDirtyBlockIndex bt)\<rparr>"
    obtain b q where b: "bt_store bt p = Some b" "pprev b = Some q" "mark_failed n f q (?bt b) = Some bt'"
      using Suc.prems(2) False by (auto simp: mark_failed.simps[of "Suc n"] bind_eq_Some_conv)
    have "headers_inv k (bt\<lparr>bt_store := (bt_store bt)(p \<mapsto> b\<lparr>nStatus := or (nStatus b) 64\<rparr>), g_failed_blocks := g_failed_blocks bt\<rparr>)"
      using b(1) by (intro headers_inv_status[OF Suc.prems(1)]) (simp_all add: or_64_bits)
    then have "headers_inv k (?bt b)"
      by (rule headers_inv_cong) simp_all
    from Suc.IH[OF this b(3)] show ?thesis
      using sub_tree_trans[OF sub_tree_status[of "bt_store bt" p b "or (nStatus b) 64", OF b(1)]]
        insert_absorb[of p "dom (bt_store bt)"] b(1) by (auto simp del: fun_upd_apply)
  qed
qed

lemma InvalidChainFound_cases:
  "InvalidChainFound chain bt p = Some bt' \<Longrightarrow> bt' = bt \<or> bt' = bt\<lparr>pindexBestInvalid := Some p\<rparr>"
  by (auto simp: InvalidChainFound_def bind_eq_Some_conv)

lemma InvalidBlockFound_inv:
  assumes "headers_inv k bt" "InvalidBlockFound chain bt p corr = Some bt'"
  shows "headers_inv k bt'"
proof (cases corr)
  case True
  then show ?thesis
    using assms by (simp add: InvalidBlockFound_def)
next
  case False
  then obtain b where b: "bt_store bt p = Some b"
    using assms(2) by (auto simp: InvalidBlockFound_def bind_eq_Some_conv)
  let ?bt = "bt\<lparr>bt_store := (bt_store bt)(p \<mapsto> b\<lparr>nStatus := or (nStatus b) 32\<rparr>),
              g_failed_blocks := set_insert_ptr p (g_failed_blocks bt)\<rparr>"
  have "headers_inv k ?bt"
    using b by (intro headers_inv_status[OF assms(1)]) (auto simp: or_32_bits set_insert_ptr_def split: if_splits)
  moreover have "InvalidChainFound chain (?bt\<lparr>setDirtyBlockIndex := set_insert_ptr p (setDirtyBlockIndex bt),
      setBlockIndexCandidates := removeAll p (setBlockIndexCandidates bt)\<rparr>) p = Some bt'"
    using assms(2) False b by (simp add: InvalidBlockFound_def)
  ultimately show ?thesis
    by (elim headers_inv_cong) (auto dest: InvalidChainFound_cases)
qed

text \<open>Resetting flags keeps the invariant without its strict part.\<close>

lemma clear_96_bits: "and (and s (- 97)) 256 = and s 256" "and (and s (- 97)) 96 = 0" "and (and s (- 97)) 32 = 0" "and (and s (- 97)) 7 = and s 7"
  for s :: u32
  by (simp_all add: and.assoc)

lemma and_96_32: "and s 96 = 0 \<Longrightarrow> and s 32 = 0" for s :: u32
proof -
  assume "and s 96 = 0"
  then have "and (and s 96) 32 = 0" by simp
  then show ?thesis by (simp add: and.assoc)
qed

lemma reset_entry_cases:
  assumes "reset_entry chain p h q bt = Some bt'"
  obtains "bt' = bt" | b dirty cands best where "bt_store bt q = Some b" "GetAncestor (bt_store bt) q h = Some (Some p)"
    "bt' = bt\<lparr>bt_store := (bt_store bt)(q \<mapsto> b\<lparr>nStatus := and (nStatus b) (not 96)\<rparr>), setDirtyBlockIndex := dirty,
        setBlockIndexCandidates := cands, pindexBestInvalid := best, g_failed_blocks := removeAll q (g_failed_blocks bt)\<rparr>"
proof -
  obtain b v where b: "bt_store bt q = Some b" "IsValid b 3 = Some v"
    using assms by (auto simp: reset_entry_def bind_eq_Some_conv)
  show thesis
  proof (cases "v \<or> GetAncestor (bt_store bt) q h \<noteq> Some (Some p)")
    case True
    then have "bt' = bt"
      using assms b by (auto simp: reset_entry_def bind_eq_Some_conv split: if_splits)
    then show thesis
      by (rule that(1))
  next
    case False
    then have "\<exists>cand. bt' = bt\<lparr>bt_store := (bt_store bt)(q \<mapsto> b\<lparr>nStatus := and (nStatus b) (not 96)\<rparr>),
        setDirtyBlockIndex := set_insert_ptr q (setDirtyBlockIndex bt),
        setBlockIndexCandidates := (if cand then set_insert_ptr q (setBlockIndexCandidates bt) else setBlockIndexCandidates bt),
        pindexBestInvalid := (if pindexBestInvalid bt = Some q then None else pindexBestInvalid bt),
        g_failed_blocks := removeAll q (g_failed_blocks bt)\<rparr>"
      using assms b unfolding reset_entry_def Let_def by (auto simp: bind_eq_Some_conv simp del: fun_upd_apply split del: if_split)
    then show thesis
      using False b(1) that(2) by blast
  qed
qed

lemma reset_entry_inv:
  assumes "headers_inv False bt" "reset_entry chain p h q bt = Some bt'"
  shows "headers_inv False bt' \<and> mapBlockIndex bt' = mapBlockIndex bt"
  using assms(2)
proof (cases rule: reset_entry_cases)
  case (2 b dirty cands best)
  have inv: "headers_inv False (bt\<lparr>bt_store := (bt_store bt)(q \<mapsto> b\<lparr>nStatus := and (nStatus b) (not 96)\<rparr>), g_failed_blocks := removeAll q (g_failed_blocks bt)\<rparr>)"
    using 2(1) by (intro headers_inv_status[OF assms(1)]) (auto simp: clear_96_bits)
  then show ?thesis
    using 2(3) by (auto intro: headers_inv_cong[OF inv])
qed (use assms(1) in simp)

lemma reset_entries_inv:
  "headers_inv False bt \<Longrightarrow> reset_entries chain p h m bt = Some bt' \<Longrightarrow> headers_inv False bt' \<and> mapBlockIndex bt' = mapBlockIndex bt"
proof (induction m arbitrary: bt)
  case (Cons e m)
  obtain hq q where e: "e = (hq, q)" by (cases e)
  then obtain bt1 where "reset_entry chain p h q bt = Some bt1" "reset_entries chain p h m bt1 = Some bt'"
    using Cons.prems(2) by (auto simp: bind_eq_Some_conv)
  then show ?case
    using Cons.IH[of bt1] reset_entry_inv[OF Cons.prems(1)] by auto
qed simp

lemma reset_ancestors_inv:
  "headers_inv False bt \<Longrightarrow> reset_ancestors n p bt = Some bt' \<Longrightarrow> headers_inv False bt' \<and> mapBlockIndex bt' = mapBlockIndex bt"
proof (induction n p bt rule: reset_ancestors.induct)
  case (3 n p bt)
  then obtain b where b: "bt_store bt p = Some b" by (auto simp: bind_eq_Some_conv)
  let ?bt = "if and (nStatus b) 96 \<noteq> 0 then bt\<lparr>bt_store := (bt_store bt)(p \<mapsto> b\<lparr>nStatus := and (nStatus b) (not 96)\<rparr>),
                 setDirtyBlockIndex := set_insert_ptr p (setDirtyBlockIndex bt)\<rparr> else bt"
  have "headers_inv False (bt\<lparr>bt_store := (bt_store bt)(p \<mapsto> b\<lparr>nStatus := and (nStatus b) (not 96)\<rparr>), g_failed_blocks := g_failed_blocks bt\<rparr>)"
    using b by (intro headers_inv_status[OF 3(2)]) (auto simp: clear_96_bits)
  then have "headers_inv False (bt\<lparr>bt_store := (bt_store bt)(p \<mapsto> b\<lparr>nStatus := and (nStatus b) (not 96)\<rparr>),
                 setDirtyBlockIndex := set_insert_ptr p (setDirtyBlockIndex bt)\<rparr>)"
    by (rule headers_inv_cong) simp_all
  then have "headers_inv False ?bt" using 3(2) by simp
  moreover have "reset_ancestors n (pprev b) ?bt = Some bt'" using 3(3) b by (simp split: if_splits)
  ultimately show ?case using 3(1)[OF b] by (simp split: if_splits)
qed simp_all

lemma ResetBlockFailureFlags_inv:
  assumes "headers_inv False bt" "ResetBlockFailureFlags chain bt p = Some bt'"
  shows "headers_inv False bt'"
proof -
  obtain b :: CBlockIndex and bt1 where "reset_entries chain p (nHeight b) (mapBlockIndex bt) bt = Some bt1" "reset_ancestors (nat (nHeight b) + 1) (Some p) bt1 = Some bt'"
    using assms(2) unfolding ResetBlockFailureFlags_def bind_eq_Some_conv by (elim exE conjE) (rule that)
  then show ?thesis
    using reset_entries_inv[OF assms(1)] reset_ancestors_inv by blast
qed

text \<open>
  What the hash of headers is trusted for: only the genesis block, which has height 0 and no parent, has the hash of the genesis block,
  and no header has the null hash.
\<close>

definition genesis_ok :: "header_env \<Rightarrow> bool" where
  "genesis_ok E \<longleftrightarrow> (\<forall>block. GetHash E block = hashGenesisBlock E \<longrightarrow> hd_nHeight block = 0 \<and> hd_hashPrevBlock block = 0)
     \<and> (\<forall>block. GetHash E block \<noteq> 0)"

lemma AddToBlockIndex_headers_inv:
  assumes "headers_inv k bt" "genesis_ok E" "map_of (mapBlockIndex bt) (GetHash E block) = None"
    and "GetHash E block = hashGenesisBlock E \<or> map_of (mapBlockIndex bt) (hd_hashPrevBlock block) \<noteq> None"
    and "status = 2 \<or> status = 256"
  obtains bt' b where "AddToBlockIndex E bt block status = Some (bt_next bt, bt')" "headers_inv k bt'"
    "adds_entry bt block (GetHash E block) bt' b"
proof -
  have prv: "hd_hashPrevBlock block \<noteq> GetHash E block"
    using assms(2-4) by (auto simp: genesis_ok_def)
  have root: "hd_nHeight block = 0" if "map_of (mapBlockIndex bt) (hd_hashPrevBlock block) = None"
    using assms(2,4) that by (auto simp: genesis_ok_def)
  have inv: "tree_inv bt"
    using assms(1) by (simp add: headers_inv_def)
  obtain bt' b where a: "AddToBlockIndex E bt block status = Some (bt_next bt, bt')" "tree_inv bt'"
    "adds_entry bt block (GetHash E block) bt' b"
    by (rule AddToBlockIndex_inv[OF inv assms(3) prv root assms(5)])
  have "bt_store bt (bt_next bt) = None"
    using inv by (auto simp: tree_inv_def)
  then have "failed_ok k bt'"
    using assms(1) a(3) by (fastforce simp: headers_inv_def failed_ok_def adds_entry_def)
  moreover have "map_of (mapBlockIndex bt') 0 = None"
  proof (rule ccontr)
    assume "map_of (mapBlockIndex bt') 0 \<noteq> None"
    then obtain q c where q: "bt_store bt' q = Some c" "phashBlock c = Some 0"
      using a(2) by (auto simp: tree_inv_def)
    show False
    proof (cases "q = bt_next bt")
      case True
      then show False
        using q a(3) assms(2) by (auto simp: adds_entry_def genesis_ok_def)
    next
      case False
      then have "map_of (mapBlockIndex bt) 0 = Some q"
        using q a(3) inv by (auto simp: adds_entry_def tree_inv_def)
      then show False
        using assms(1) by (simp add: headers_inv_def)
    qed
  qed
  ultimately have "headers_inv k bt'"
    using a(2) by (simp add: headers_inv_def)
  then show thesis
    using that a(1,3) by blast
qed

lemma check_new_header_parent:
  assumes "check_new_header E bt block = Inr prv"
  shows "map_of (mapBlockIndex bt) (hd_hashPrevBlock block) = Some prv"
  using assms by (auto simp: check_new_header_def sbind_Inr_iff guard_Inr split: option.splits)

lemma check_failed_ancestors_inv:
  assumes "headers_inv k bt" "check_failed_ancestors bt p = (r, bt')"
  shows "headers_inv k bt' \<and> (r = Inr () \<longrightarrow> bt' = bt)"
proof -
  define v where "v = do { b \<leftarrow> bt_store bt p; IsValid b 5 }"
  define a where "a = failed_ancestor (bt_store bt) p (g_failed_blocks bt)"
  consider "v = None" | "v = Some True" | "v = Some False" "a = None" | "v = Some False" "a = Some None"
    | f where "v = Some False" "a = Some (Some f)"
    by (cases v; cases a; cases "the a") auto
  then show ?thesis
  proof cases
    case 5
    then show ?thesis
      using assms mark_failed_inv[OF assms(1)] unfolding check_failed_ancestors_def v_def[symmetric] a_def[symmetric]
      by (cases "mark_failed (height_at (bt_store bt) p + 1) f p bt") auto
  qed (use assms in \<open>auto simp: check_failed_ancestors_def simp flip: v_def a_def\<close>)
qed

lemma AcceptBlockHeader_inv:
  assumes "headers_inv k bt" "genesis_ok E" "AcceptBlockHeader E bt block = (r, bt')"
  shows "headers_inv k bt'"
proof -
  have add: "headers_inv k bt'" if "add_checked E bt block = (r, bt')"
    "GetHash E block = hashGenesisBlock E \<or> map_of (mapBlockIndex bt) (hd_hashPrevBlock block) \<noteq> None"
  proof (cases "map_of (mapBlockIndex bt) (GetHash E block)")
    case None
    have "(2 :: u32) = 2 \<or> (2 :: u32) = 256"
      by simp
    with None that(2) obtain bt2 b2 where "AddToBlockIndex E bt block 2 = Some (bt_next bt, bt2)" "headers_inv k bt2"
      by (rule AddToBlockIndex_headers_inv[OF assms(1,2)])
    then show ?thesis
      using that(1) by (simp add: add_checked_def)
  next
    case (Some p)
    then show ?thesis
      using assms(1) that(1) by (simp add: add_checked_def AddToBlockIndex_def)
  qed
  have conflict: "headers_inv k bt''" if "AddToBlockIndex E bt block 256 = Some (p, bt'')"
    "map_of (mapBlockIndex bt) (hd_hashPrevBlock block) \<noteq> None" "map_of (mapBlockIndex bt) (GetHash E block) = None" for p bt''
  proof -
    have "(256 :: u32) = 2 \<or> (256 :: u32) = 256" "GetHash E block = hashGenesisBlock E \<or> map_of (mapBlockIndex bt) (hd_hashPrevBlock block) \<noteq> None"
      using that(2) by simp_all
    with that(3) obtain bt2 b2 where "AddToBlockIndex E bt block 256 = Some (bt_next bt, bt2)" "headers_inv k bt2"
      using AddToBlockIndex_headers_inv[OF assms(1,2)] by metis
    then show ?thesis
      using that(1) by simp
  qed
  show ?thesis
  proof (cases "GetHash E block = hashGenesisBlock E")
    case True
    then show ?thesis
      using add assms(3) by (simp add: AcceptBlockHeader_def)
  next
    case new: False
    show ?thesis
    proof (cases "map_of (mapBlockIndex bt) (GetHash E block)")
      case (Some p)
      then have "bt' = bt"
        using assms(3) new by (auto simp: AcceptBlockHeader_def split: option.splits)
      then show ?thesis
        using assms(1) by simp
    next
      case None
      show ?thesis
      proof (cases "check_new_header E bt block")
        case (Inl e)
        then show ?thesis
          using assms new None by (simp add: AcceptBlockHeader_def)
      next
        case (Inr prv)
        note parent = check_new_header_parent[OF Inr]
        obtain r1 bt1 where c: "check_failed_ancestors bt prv = (r1, bt1)"
          by (cases "check_failed_ancestors bt prv") auto
        note c' = check_failed_ancestors_inv[OF assms(1) c]
        show ?thesis
          using assms(1,3) new None Inr c c' parent add conflict
          by (cases r1) (auto simp: AcceptBlockHeader_def split: if_splits option.splits)
      qed
    qed
  qed
qed

text \<open>How the store can change: marks of failed blocks, or one new entry that passed the checks.\<close>

definition marked :: "block_tree \<Rightarrow> block_tree \<Rightarrow> bool" where
  "marked bt bt' \<longleftrightarrow> sub_tree (bt_store bt) (bt_store bt') \<and> dom (bt_store bt') = dom (bt_store bt)"

lemma marked_refl [simp]: "marked bt bt"
  by (simp add: marked_def sub_tree_refl)

lemma check_failed_ancestors_marked:
  assumes "headers_inv k bt" "check_failed_ancestors bt p = (r, bt')"
  shows "marked bt bt'"
proof (cases "bt' = bt")
  case False
  define v where "v = do { b \<leftarrow> bt_store bt p; IsValid b 5 }"
  define a where "a = failed_ancestor (bt_store bt) p (g_failed_blocks bt)"
  have "\<exists>f. mark_failed (height_at (bt_store bt) p + 1) f p bt = Some bt'"
    using assms(2) False unfolding check_failed_ancestors_def v_def[symmetric] a_def[symmetric]
    by (cases v; cases "the v"; cases a; cases "the a") (auto split: option.splits)
  then show ?thesis
    unfolding marked_def using mark_failed_inv[OF assms(1)] by blast
qed simp

definition checked_entry :: "header_env \<Rightarrow> block_tree \<Rightarrow> CBlockHeader \<Rightarrow> block_tree \<Rightarrow> bool" where
  "checked_entry E bt block bt' \<longleftrightarrow> (\<exists>b. adds_entry bt block (GetHash E block) bt' b
     \<and> (pprev b = None \<or> check_new_header E bt block = Inr (the (pprev b))))"

lemma AddToBlockIndex_entry:
  assumes "headers_inv k bt" "genesis_ok E" "map_of (mapBlockIndex bt) (GetHash E block) = None" "status = 2 \<or> status = 256"
    and "AddToBlockIndex E bt block status = Some (p, bt')"
    and "GetHash E block = hashGenesisBlock E \<or> check_new_header E bt block = Inr prv"
  shows "p = bt_next bt \<and> checked_entry E bt block bt'"
proof -
  have par: "GetHash E block = hashGenesisBlock E \<or> map_of (mapBlockIndex bt) (hd_hashPrevBlock block) \<noteq> None"
    using assms(6) check_new_header_parent[of E bt block prv] by auto
  obtain bt2 b where a: "AddToBlockIndex E bt block status = Some (bt_next bt, bt2)" "adds_entry bt block (GetHash E block) bt2 b"
    by (rule AddToBlockIndex_headers_inv[OF assms(1-3) par assms(4)])
  have "pprev b = None \<or> check_new_header E bt block = Inr (the (pprev b))"
  proof (cases "GetHash E block = hashGenesisBlock E")
    case True
    then have "pprev b = None"
      using assms(1,2) a(2) by (simp add: adds_entry_def genesis_ok_def headers_inv_def)
    then show ?thesis
      by simp
  next
    case False
    then show ?thesis
      using assms(6) check_new_header_parent[of E bt block prv] a(2) by (simp add: adds_entry_def)
  qed
  then show ?thesis
    using a assms(5) by (auto simp: checked_entry_def)
qed

lemma AcceptBlockHeader_cases:
  assumes "headers_inv k bt" "genesis_ok E" "AcceptBlockHeader E bt block = (r, bt')"
  shows "marked bt bt' \<or> checked_entry E bt block bt'"
proof (cases "map_of (mapBlockIndex bt) (GetHash E block)")
  case (Some p)
  then have "bt' = bt"
    using assms(3) by (auto simp: AcceptBlockHeader_def Let_def add_checked_def AddToBlockIndex_def split: option.splits if_splits)
  then show ?thesis
    by simp
next
  case None
  note entry = AddToBlockIndex_entry[OF assms(1,2) None]
  have add: "marked bt bt' \<or> checked_entry E bt block bt'"
    if "add_checked E bt block = (r, bt')" "GetHash E block = hashGenesisBlock E \<or> check_new_header E bt block = Inr prv" for prv
    using that entry[of 2 _ _ prv] by (cases "AddToBlockIndex E bt block 2") (auto simp: add_checked_def)
  show ?thesis
  proof (cases "GetHash E block = hashGenesisBlock E")
    case True
    then show ?thesis
      using add assms(3) by (simp add: AcceptBlockHeader_def)
  next
    case new: False
    show ?thesis
    proof (cases "check_new_header E bt block")
      case (Inl e)
      then show ?thesis
        using assms(3) new None by (simp add: AcceptBlockHeader_def)
    next
      case (Inr prv)
      obtain r1 bt1 where c: "check_failed_ancestors bt prv = (r1, bt1)"
        by (cases "check_failed_ancestors bt prv") auto
      then show ?thesis
        using assms(3) new None Inr add[OF _ disjI2[OF Inr]] entry[of 256 _ _ prv] check_failed_ancestors_marked[OF assms(1) c]
        by (cases r1) (auto simp: AcceptBlockHeader_def split: if_splits option.splits)
    qed
  qed
qed

section \<open>No assertion fails\<close>

lemma times_back_some:
  assumes "wf_store st"
  shows "st p = Some b \<Longrightarrow> \<exists>ts. times_back st n (Some p) = Some ts \<and> (0 < n \<longrightarrow> ts \<noteq> [])"
proof (induction n arbitrary: p b)
  case (Suc n)
  from assms Suc.prems show ?case
  proof (cases rule: wf_prev)
    case 1
    then show ?thesis
      using Suc.prems by (cases n) auto
  next
    case (2 q c)
    then show ?thesis
      using Suc.IH[of q c] Suc.prems by auto
  qed
qed simp

lemma GetMedianTimePast_some: "wf_store st \<Longrightarrow> st p = Some b \<Longrightarrow> \<exists>t. GetMedianTimePast st p = Some t"
  using times_back_some[of st p b 11] by (auto simp: GetMedianTimePast_def)

lemma last_checkpoint_in: "last_checkpoint cs m = Some p \<Longrightarrow> \<exists>h. map_of m h = Some p"
  by (induction cs m rule: last_checkpoint.induct) (auto split: option.splits)

lemma indexed_entry: "headers_inv k bt \<Longrightarrow> map_of (mapBlockIndex bt) h = Some p \<Longrightarrow> \<exists>b. bt_store bt p = Some b"
  by (auto simp: headers_inv_def tree_inv_def)

lemma checkpoint_entry: "headers_inv k bt \<Longrightarrow> GetLastCheckpoint E bt = Some p \<Longrightarrow> \<exists>b. bt_store bt p = Some b"
  unfolding GetLastCheckpoint_def by (metis last_checkpoint_in indexed_entry)

text \<open>
  The loop over the failed blocks. A failed block that is an ancestor of \<open>p\<close> and is no longer marked is stale: the loop stops at
  its assertion if it meets one.
\<close>

definition stale :: "index_store \<Rightarrow> ptr \<Rightarrow> ptr \<Rightarrow> bool" where
  "stale st p f \<longleftrightarrow> (\<exists>c. st f = Some c \<and> and (nStatus c) 32 = 0) \<and> ancestor_at st p (height_at st f) = Some f"

lemma failed_ancestor_Cons:
  assumes "wf_store st" "st p = Some b" "st f = Some c"
  shows "failed_ancestor st p (f # fs) =
    (if ancestor_at st p (height_at st f) = Some f then if stale st p f then None else Some (Some f) else failed_ancestor st p fs)"
proof -
  have h: "nHeight c = int (height_at st f)"
    using wf_height[OF assms(1,3)] assms(3) by (simp add: height_at_def)
  show ?thesis
    using assms(3) h by (auto simp: GetAncestor_correct[OF assms(1,2)] stale_def)
qed

declare failed_ancestor.simps(2) [simp del]

lemma failed_ancestor_some:
  assumes "wf_store st" "st p = Some b"
  shows "\<forall>f\<in>set fs. \<exists>c. st f = Some c \<Longrightarrow>
    (\<exists>f\<in>set fs. stale st p f) \<or>
    (\<exists>r. failed_ancestor st p fs = Some r \<and> (\<forall>f. r = Some f \<longrightarrow> ancestor_at st p (height_at st f) = Some f))"
proof (induction fs)
  case (Cons f fs)
  then obtain c where "st f = Some c" by auto
  then show ?case
    using Cons by (auto simp: failed_ancestor_Cons[OF assms])
qed simp

lemma failed_ancestor_stale:
  assumes "wf_store st" "st p = Some b"
  shows "\<forall>f\<in>set fs. (\<exists>c. st f = Some c) \<and> (ancestor_at st p (height_at st f) = Some f \<longrightarrow> stale st p f) \<Longrightarrow>
    \<exists>f\<in>set fs. stale st p f \<Longrightarrow> failed_ancestor st p fs = None"
proof (induction fs)
  case (Cons f fs)
  then obtain c where "st f = Some c" by auto
  then show ?case
    using Cons by (auto simp: failed_ancestor_Cons[OF assms] stale_def)
qed simp

lemma mark_failed_some:
  assumes "wf_store (bt_store bt)" "bt_store bt p = Some b" "prev_n (bt_store bt) k p = Some f" "k \<le> n"
  shows "\<exists>bt'. mark_failed n f p bt = Some bt'"
  using assms
proof (induction n arbitrary: bt p b k)
  case 0
  then show ?case
    by (simp add: mark_failed.simps)
next
  case (Suc n)
  show ?case
  proof (cases "p = f")
    case True
    then show ?thesis
      by (simp add: mark_failed.simps)
  next
    case False
    then obtain k' where k: "k = Suc k'"
      using Suc.prems(3) by (cases k) auto
    then obtain q where q: "pprev b = Some q" "prev_n (bt_store bt) k' q = Some f"
      using Suc.prems(2,3) by (auto simp: bind_eq_Some_conv)
    let ?bt = "bt\<lparr>bt_store := (bt_store bt)(p \<mapsto> b\<lparr>nStatus := or (nStatus b) 64\<rparr>),
                setDirtyBlockIndex := set_insert_ptr p (setDirtyBlockIndex bt)\<rparr>"
    note sub = sub_tree_status[of "bt_store bt" p b "or (nStatus b) 64", OF Suc.prems(2)]
    obtain c where "bt_store bt q = Some c"
      by (rule wf_prev[OF Suc.prems(1,2)]) (use q in auto)
    then obtain c' where c': "bt_store ?bt q = Some c'"
      using sub_treeD[OF sub] by fastforce
    have "\<exists>bt'. mark_failed n f q ?bt = Some bt'"
      by (rule Suc.IH[OF _ c']) (use wf_store_status[OF Suc.prems(1,2)] prev_n_sub[OF sub q(2)] Suc.prems(4) k in \<open>auto simp del: fun_upd_apply\<close>)
    then show ?thesis
      using False Suc.prems(2) q(1) by (simp add: mark_failed.simps[of "Suc n"])
  qed
qed

lemma asserted_some [simp]: "asserted (Some x) = Inr x"
  by (simp add: asserted_def)

lemma check_full_pow_no_assert: "check_full_pow E block f \<noteq> Inl HAssert"
  by (simp add: check_full_pow_def split: prod.split)

lemma CheckBlockHeader_no_assert:
  assumes "headers_inv k bt"
  shows "CheckBlockHeader E bt block f \<noteq> Inl HAssert"
  using checkpoint_entry[OF assms, of E] check_full_pow_no_assert[of E block f]
  by (cases "GetLastCheckpoint E bt") (auto simp: CheckBlockHeader_def split: if_splits)

lemma check_checkpoint_no_assert: "headers_inv k bt \<Longrightarrow> check_checkpoint E bt h \<noteq> Inl HAssert"
  using checkpoint_entry[of k bt E] by (cases "GetLastCheckpoint E bt") (auto simp: check_checkpoint_def split: if_splits)

lemma ContextualCheckBlockHeader_no_assert:
  assumes "headers_inv k bt" "dgw_params (he_pow E)" "bt_store bt p = Some b"
  shows "ContextualCheckBlockHeader E bt block p \<noteq> Inl HAssert"
proof -
  have wf: "wf_store (bt_store bt)"
    using assms(1) by (simp add: headers_inv_def tree_inv_def)
  obtain bits where "GetNextWorkRequired (bt_store bt) (he_pow E) (Some p) block = Some bits"
    by (rule GetNextWorkRequired_some[OF assms(2) wf assms(3)])
  moreover obtain t where "GetMedianTimePast (bt_store bt) p = Some t"
    using GetMedianTimePast_some[OF wf assms(3)] by blast
  ultimately show ?thesis
    using assms(3) check_checkpoint_no_assert[OF assms(1), of E "nHeight b + 1"]
    by (cases "check_checkpoint E bt (nHeight b + 1)") (auto simp: ContextualCheckBlockHeader_def)
qed

lemma check_new_header_no_assert:
  assumes "headers_inv k bt" "dgw_params (he_pow E)"
  shows "check_new_header E bt block \<noteq> Inl HAssert"
proof (cases "map_of (mapBlockIndex bt) (hd_hashPrevBlock block)")
  case None
  then show ?thesis
    using CheckBlockHeader_no_assert[OF assms(1), of E block True]
    by (cases "CheckBlockHeader E bt block True") (auto simp: check_new_header_def)
next
  case (Some p)
  then obtain b where b: "bt_store bt p = Some b"
    using indexed_entry[OF assms(1)] by blast
  show ?thesis
    using Some b CheckBlockHeader_no_assert[OF assms(1), of E block True]
      ContextualCheckBlockHeader_no_assert[OF assms b, of block]
    by (cases "CheckBlockHeader E bt block True"; cases "ContextualCheckBlockHeader E bt block p") (auto simp: check_new_header_def)
qed

lemma check_failed_ancestors_no_assert:
  assumes "headers_inv k bt" "bt_store bt p = Some b" "\<not> (\<exists>f\<in>set (g_failed_blocks bt). stale (bt_store bt) p f)"
  shows "fst (check_failed_ancestors bt p) \<noteq> Inl HAssert"
proof -
  have wf: "wf_store (bt_store bt)" and fails: "\<forall>f\<in>set (g_failed_blocks bt). \<exists>c. bt_store bt f = Some c"
    using assms(1) by (auto simp: headers_inv_def tree_inv_def failed_ok_def)
  obtain r where r: "failed_ancestor (bt_store bt) p (g_failed_blocks bt) = Some r"
    "\<forall>f. r = Some f \<longrightarrow> ancestor_at (bt_store bt) p (height_at (bt_store bt) f) = Some f"
    using failed_ancestor_some[OF wf assms(2) fails] assms(3) by blast
  have "\<exists>v. do { b \<leftarrow> bt_store bt p; IsValid b 5 } = Some v"
    using assms(2) by (auto simp: IsValid_def)
  then obtain v where v: "do { b \<leftarrow> bt_store bt p; IsValid b 5 } = Some v"
    by blast
  show ?thesis
  proof (cases r)
    case None
    then show ?thesis
      unfolding check_failed_ancestors_def v r(1) by (cases v) auto
  next
    case (Some f)
    then have "ancestor_at (bt_store bt) p (height_at (bt_store bt) f) = Some f"
      using r(2) by simp
    then have "prev_n (bt_store bt) (height_at (bt_store bt) p - height_at (bt_store bt) f) p = Some f"
      by (simp add: ancestor_at_def split: if_splits)
    then obtain bt' where "mark_failed (height_at (bt_store bt) p + 1) f p bt = Some bt'"
      using mark_failed_some[OF wf assms(2), of _ f "height_at (bt_store bt) p + 1"] by fastforce
    then show ?thesis
      unfolding check_failed_ancestors_def v r(1) Some by (cases v) auto
  qed
qed

lemma add_checked_no_assert:
  assumes "headers_inv k bt" "genesis_ok E"
    and "GetHash E block = hashGenesisBlock E \<or> map_of (mapBlockIndex bt) (hd_hashPrevBlock block) \<noteq> None"
  shows "fst (add_checked E bt block) \<noteq> Inl HAssert"
proof (cases "map_of (mapBlockIndex bt) (GetHash E block)")
  case None
  have "(2 :: u32) = 2 \<or> (2 :: u32) = 256"
    by simp
  with None assms(3) obtain bt2 where "AddToBlockIndex E bt block 2 = Some (bt_next bt, bt2)"
    using AddToBlockIndex_headers_inv[OF assms(1,2)] by metis
  then show ?thesis
    by (simp add: add_checked_def)
qed (simp add: add_checked_def AddToBlockIndex_def)

section \<open>Runs\<close>

text \<open>
  The trees that a node can reach: headers arrive in any order, at any time and with any state of the chain locks, blocks turn
  out to be invalid, and blocks are reconsidered, which resets their flags.
\<close>

inductive header_run :: "header_env \<Rightarrow> block_tree \<Rightarrow> bool" for E where
  start: "header_run E empty_tree"
| accept: "header_run E bt \<Longrightarrow>
    AcceptBlockHeader (E\<lparr>nAdjustedTime := t, HasConflictingChainLock := c\<rparr>) bt block = (r, bt') \<Longrightarrow> header_run E bt'"
| invalid: "header_run E bt \<Longrightarrow> InvalidBlockFound chain bt p corruption = Some bt' \<Longrightarrow> header_run E bt'"
| reset: "header_run E bt \<Longrightarrow> ResetBlockFailureFlags chain bt p = Some bt' \<Longrightarrow> header_run E bt'"

text \<open>The runs in which no block is reconsidered.\<close>

inductive unreset_run :: "header_env \<Rightarrow> block_tree \<Rightarrow> bool" for E where
  start: "unreset_run E empty_tree"
| accept: "unreset_run E bt \<Longrightarrow>
    AcceptBlockHeader (E\<lparr>nAdjustedTime := t, HasConflictingChainLock := c\<rparr>) bt block = (r, bt') \<Longrightarrow> unreset_run E bt'"
| invalid: "unreset_run E bt \<Longrightarrow> InvalidBlockFound chain bt p corruption = Some bt' \<Longrightarrow> unreset_run E bt'"

lemma unreset_run_header_run: "unreset_run E bt \<Longrightarrow> header_run E bt"
  by (induction rule: unreset_run.induct) (auto intro: header_run.intros)

lemma genesis_ok_env [simp]: "genesis_ok (E\<lparr>nAdjustedTime := t, HasConflictingChainLock := c\<rparr>) = genesis_ok E"
  by (simp add: genesis_ok_def GetHash_def)

lemma empty_tree_headers_inv: "headers_inv k empty_tree"
  using empty_tree_inv by (simp add: headers_inv_def failed_ok_def) (simp add: empty_tree_def)

lemma header_run_inv: "header_run E bt \<Longrightarrow> genesis_ok E \<Longrightarrow> headers_inv False bt"
proof (induction rule: header_run.induct)
  case start
  show ?case
    by (rule empty_tree_headers_inv)
next
  case (accept bt t c block r bt')
  then show ?case
    using AcceptBlockHeader_inv by (metis genesis_ok_env)
qed (use InvalidBlockFound_inv ResetBlockFailureFlags_inv in blast)+

lemma unreset_run_inv: "unreset_run E bt \<Longrightarrow> genesis_ok E \<Longrightarrow> headers_inv True bt"
proof (induction rule: unreset_run.induct)
  case start
  show ?case
    by (rule empty_tree_headers_inv)
next
  case (accept bt t c block r bt')
  then show ?case
    using AcceptBlockHeader_inv by (metis genesis_ok_env)
qed (use InvalidBlockFound_inv in blast)




lemma AcceptBlockHeader_no_assert:
  assumes "headers_inv k bt" "genesis_ok E" "dgw_params (he_pow E)"
    and "\<And>prv. check_new_header E bt block = Inr prv \<Longrightarrow> \<not> (\<exists>f\<in>set (g_failed_blocks bt). stale (bt_store bt) prv f)"
  shows "fst (AcceptBlockHeader E bt block) \<noteq> Inl HAssert"
proof (cases "GetHash E block = hashGenesisBlock E")
  case True
  then show ?thesis
    using add_checked_no_assert[OF assms(1,2)] by (simp add: AcceptBlockHeader_def)
next
  case new: False
  show ?thesis
  proof (cases "map_of (mapBlockIndex bt) (GetHash E block)")
    case (Some p)
    then obtain b where "bt_store bt p = Some b"
      using indexed_entry[OF assms(1)] by blast
    then show ?thesis
      using new Some by (simp add: AcceptBlockHeader_def)
  next
    case None
    show ?thesis
    proof (cases "check_new_header E bt block")
      case (Inl e)
      then show ?thesis
        using check_new_header_no_assert[OF assms(1,3), of block] new None by (simp add: AcceptBlockHeader_def)
    next
      case (Inr prv)
      note parent = check_new_header_parent[OF Inr]
      then obtain b where b: "bt_store bt prv = Some b"
        using indexed_entry[OF assms(1)] by blast
      obtain r1 bt1 where c: "check_failed_ancestors bt prv = (r1, bt1)"
        by (cases "check_failed_ancestors bt prv") auto
      have r1: "r1 \<noteq> Inl HAssert"
        using check_failed_ancestors_no_assert[OF assms(1) b assms(4)[OF Inr]] c by simp
      have "\<exists>q bt''. AddToBlockIndex E bt block 256 = Some (q, bt'')"
        using AddToBlockIndex_headers_inv[OF assms(1,2) None, of 256] parent by (metis option.distinct(1))
      moreover have "fst (add_checked E bt block) \<noteq> Inl HAssert"
        using add_checked_no_assert[OF assms(1,2)] parent by simp
      ultimately show ?thesis
        using new None Inr c r1 by (cases r1) (auto simp: AcceptBlockHeader_def Let_def)
    qed
  qed
qed

text \<open>C29. When the header code can abort. Take any tree that headers, invalid blocks and reconsidered blocks can lead to, on a network that
  retargets with Dark Gravity Wave and whose genesis hash and null hash belong to no other header. If no block was reconsidered, no
  assertion of the header code fails and no null pointer is followed. In general the only assertion that can fail is
  the one in the loop over the failed blocks, and only for a header whose parent descends from a block of that set
  that is no longer marked as failed: \<^verbatim>\<open>ResetBlockFailureFlags\<close> clears the marks of ancestors and leaves them in the set.\<close>

theorem headers_never_assert:
  assumes "header_run E bt" "genesis_ok E" "dgw_params (he_pow E)"
  shows "(unreset_run E bt \<longrightarrow> fst (AcceptBlockHeader (E\<lparr>nAdjustedTime := t, HasConflictingChainLock := c\<rparr>) bt block) \<noteq> Inl HAssert) \<and>
    (fst (AcceptBlockHeader (E\<lparr>nAdjustedTime := t, HasConflictingChainLock := c\<rparr>) bt block) = Inl HAssert \<longrightarrow>
      (\<exists>prv f. map_of (mapBlockIndex bt) (hd_hashPrevBlock block) = Some prv \<and> f \<in> set (g_failed_blocks bt) \<and> stale (bt_store bt) prv f))"
proof -
  let ?E = "E\<lparr>nAdjustedTime := t, HasConflictingChainLock := c\<rparr>"
  have gen: "genesis_ok ?E" and P: "dgw_params (he_pow ?E)"
    using assms(2,3) by simp_all
  have "fst (AcceptBlockHeader ?E bt block) \<noteq> Inl HAssert" if "unreset_run E bt"
  proof (rule AcceptBlockHeader_no_assert[OF unreset_run_inv[OF that assms(2)] gen P])
    show "\<not> (\<exists>f\<in>set (g_failed_blocks bt). stale (bt_store bt) prv f)" for prv
      using unreset_run_inv[OF that assms(2)] by (auto simp: headers_inv_def failed_ok_def stale_def)
  qed
  moreover have "\<exists>prv f. check_new_header ?E bt block = Inr prv \<and> f \<in> set (g_failed_blocks bt) \<and> stale (bt_store bt) prv f"
    if "fst (AcceptBlockHeader ?E bt block) = Inl HAssert"
    using AcceptBlockHeader_no_assert[OF header_run_inv[OF assms(1,2)] gen P, of block] that by blast
  ultimately show ?thesis
    using check_new_header_parent by blast
qed

section \<open>The rules for an accepted header\<close>

text \<open>The median time of a block does not change when the tree grows.\<close>

lemma times_back_sub:
  assumes "sub_tree st st'"
  shows "times_back st n p = Some ts \<Longrightarrow> times_back st' n p = Some ts"
proof (induction n arbitrary: p ts)
  case (Suc n)
  show ?case
  proof (cases p)
    case (Some q)
    then obtain b us where b: "st q = Some b" "times_back st n (pprev b) = Some us" "ts = GetBlockTime b # us"
      using Suc.prems by (auto simp: bind_eq_Some_conv)
    then obtain s where "st' q = Some (b\<lparr>nStatus := s\<rparr>)"
      using sub_treeD[OF assms] by blast
    then show ?thesis
      using Some b Suc.IH[OF b(2)] by (simp add: GetBlockTime_def)
  qed (use Suc.prems in simp)
qed simp

lemma GetMedianTimePast_sub: "sub_tree st st' \<Longrightarrow> GetMedianTimePast st p = Some t \<Longrightarrow> GetMedianTimePast st' p = Some t"
  unfolding GetMedianTimePast_def by (auto simp: bind_eq_Some_conv simp del: times_back.simps dest: times_back_sub)

text \<open>Every block is later than the median time of its parent.\<close>

definition times_rule :: "index_store \<Rightarrow> bool" where
  "times_rule st \<longleftrightarrow> (\<forall>p b q t. st p = Some b \<longrightarrow> pprev b = Some q \<longrightarrow> GetMedianTimePast st q = Some t \<longrightarrow> t < GetBlockTime b)"

lemma times_rule_grow:
  assumes wf: "wf_store st" "wf_store st'" and sub: "sub_tree st st'" and rule: "times_rule st"
    and new: "\<And>p b q. st' p = Some b \<Longrightarrow> st p = None \<Longrightarrow> pprev b = Some q \<Longrightarrow>
      \<exists>t. GetMedianTimePast st q = Some t \<and> t < GetBlockTime b"
  shows "times_rule st'"
  unfolding times_rule_def
proof (intro allI impI)
  fix p b q t
  assume p: "st' p = Some b" "pprev b = Some q" "GetMedianTimePast st' q = Some t"
  show "t < GetBlockTime b"
  proof (cases "st p")
    case None
    then show ?thesis
      using new[OF p(1) None p(2)] GetMedianTimePast_sub[OF sub, of q] p(3) by auto
  next
    case (Some c)
    then obtain s where c: "b = c\<lparr>nStatus := s\<rparr>"
      using sub_treeD[OF sub Some] p(1) by auto
    obtain d where "st q = Some d"
      by (rule wf_prev[OF wf(1) Some]) (use p(2) c in auto)
    then obtain u where u: "GetMedianTimePast st q = Some u"
      using GetMedianTimePast_some[OF wf(1)] by blast
    then show ?thesis
      using rule Some p GetMedianTimePast_sub[OF sub u] by (auto simp: times_rule_def c GetBlockTime_def)
  qed
qed

lemma times_rule_marked:
  assumes "wf_store (bt_store bt)" "wf_store (bt_store bt')" "marked bt bt'" "times_rule (bt_store bt)"
  shows "times_rule (bt_store bt')"
proof (rule times_rule_grow[OF assms(1,2) _ assms(4)])
  show "sub_tree (bt_store bt) (bt_store bt')"
    using assms(3) by (simp add: marked_def)
  fix p b q
  assume "bt_store bt' p = Some b" "bt_store bt p = None"
  then have "p \<in> dom (bt_store bt')" "p \<notin> dom (bt_store bt)"
    by auto
  then show "\<exists>t. GetMedianTimePast (bt_store bt) q = Some t \<and> t < GetBlockTime b"
    using assms(3) by (simp add: marked_def)
qed

lemma InvalidBlockFound_marked:
  assumes "InvalidBlockFound chain bt p corr = Some bt'"
  shows "marked bt bt'"
proof (cases corr)
  case False
  then obtain b where b: "bt_store bt p = Some b" "bt_store bt' = (bt_store bt)(p \<mapsto> b\<lparr>nStatus := or (nStatus b) 32\<rparr>)"
    using assms by (auto simp: InvalidBlockFound_def InvalidChainFound_def bind_eq_Some_conv)
  then show ?thesis
    using sub_tree_status[of "bt_store bt" p b, OF b(1)] by (auto simp: marked_def)
qed (use assms in \<open>simp add: InvalidBlockFound_def\<close>)

lemma marked_trans: "marked a b \<Longrightarrow> marked b c \<Longrightarrow> marked a c"
  by (auto simp: marked_def intro: sub_tree_trans)

lemma marked_status: "bt_store bt q = Some b \<Longrightarrow> bt_store bt' = (bt_store bt)(q \<mapsto> b\<lparr>nStatus := s\<rparr>) \<Longrightarrow> marked bt bt'"
  using sub_tree_status[of "bt_store bt" q b s] by (auto simp: marked_def)

lemma reset_entry_marked: "reset_entry chain p h q bt = Some bt' \<Longrightarrow> marked bt bt'"
  by (erule reset_entry_cases) (auto simp del: fun_upd_apply intro: marked_status)

lemma reset_entries_marked: "reset_entries chain p h m bt = Some bt' \<Longrightarrow> marked bt bt'"
  by (induction chain p h m bt rule: reset_entries.induct) (auto simp: bind_eq_Some_conv intro: marked_trans dest: reset_entry_marked)

lemma reset_ancestors_marked: "reset_ancestors n p bt = Some bt' \<Longrightarrow> marked bt bt'"
proof (induction n p bt rule: reset_ancestors.induct)
  case (3 n p bt)
  then obtain b where b: "bt_store bt p = Some b" by (auto simp: bind_eq_Some_conv)
  let ?bt = "if and (nStatus b) 96 \<noteq> 0 then bt\<lparr>bt_store := (bt_store bt)(p \<mapsto> b\<lparr>nStatus := and (nStatus b) (not 96)\<rparr>),
                 setDirtyBlockIndex := set_insert_ptr p (setDirtyBlockIndex bt)\<rparr> else bt"
  have "marked bt ?bt" using marked_status[OF b] by (simp del: fun_upd_apply)
  moreover have "marked ?bt bt'" using 3(1)[OF b] 3(2) b by (simp del: fun_upd_apply)
  ultimately show ?case by (rule marked_trans)
qed simp_all

lemma ResetBlockFailureFlags_marked: "ResetBlockFailureFlags chain bt p = Some bt' \<Longrightarrow> marked bt bt'"
  unfolding ResetBlockFailureFlags_def bind_eq_Some_conv
  by (elim exE conjE) (rule marked_trans[OF reset_entries_marked reset_ancestors_marked])

lemma contextual_rules:
  assumes "ContextualCheckBlockHeader E bt block q = Inr ()"
  obtains b t where "bt_store bt q = Some b" "GetNextWorkRequired (bt_store bt) (he_pow E) (Some q) block = Some (hd_nBits block)"
    "GetMedianTimePast (bt_store bt) q = Some t" "t < uint (hd_nTime block)" "uint (hd_nTime block) \<le> nAdjustedTime E + 15 * 60"
  using assms
  by (auto simp: ContextualCheckBlockHeader_def sbind_Inr_iff guard_Inr asserted_def MAX_FUTURE_BLOCK_TIME_def split: option.splits if_splits)

lemma check_new_header_rules:
  assumes "check_new_header E bt block = Inr q"
  shows "CheckBlockHeader E bt block True = Inr () \<and> ContextualCheckBlockHeader E bt block q = Inr ()
    \<and> (\<exists>b. bt_store bt q = Some b \<and> and (nStatus b) 96 = 0)"
  using assms by (auto simp: check_new_header_def sbind_Inr_iff guard_Inr asserted_def split: option.splits if_splits)

lemma header_run_times: "header_run E bt \<Longrightarrow> genesis_ok E \<Longrightarrow> times_rule (bt_store bt)"
proof (induction rule: header_run.induct)
  case start
  then show ?case
    by (simp add: times_rule_def empty_tree_def)
next
  case (accept bt c t block r bt')
  let ?E = "E\<lparr>nAdjustedTime := t, HasConflictingChainLock := c\<rparr>"
  have inv: "headers_inv False bt" "headers_inv False bt'"
    using header_run_inv accept.hyps header_run.accept accept.prems by blast+
  then have wf: "wf_store (bt_store bt)" "wf_store (bt_store bt')"
    by (simp_all add: headers_inv_def tree_inv_def)
  have fresh: "bt_store bt (bt_next bt) = None"
    using inv(1) by (auto simp: headers_inv_def tree_inv_def)
  have "marked bt bt' \<or> checked_entry ?E bt block bt'"
    by (rule AcceptBlockHeader_cases[OF inv(1) _ accept.hyps(2)]) (simp add: accept.prems)
  then show ?case
  proof
    assume "marked bt bt'"
    then show ?thesis
      using times_rule_marked[OF wf _ accept.IH[OF accept.prems]] by blast
  next
    assume "checked_entry ?E bt block bt'"
    then obtain b where b: "bt_store bt' = (bt_store bt)(bt_next bt \<mapsto> b)" "nTime b = hd_nTime block"
      "pprev b = None \<or> check_new_header ?E bt block = Inr (the (pprev b))"
      by (auto simp: checked_entry_def adds_entry_def)
    show ?thesis
    proof (rule times_rule_grow[OF wf _ accept.IH[OF accept.prems]])
      show "sub_tree (bt_store bt) (bt_store bt')"
        unfolding b(1) using fresh by (rule sub_tree_fresh)
      fix p d q
      assume p: "bt_store bt' p = Some d" "bt_store bt p = None" "pprev d = Some q"
      then have "check_new_header ?E bt block = Inr q" "d = b"
        using b by (auto split: if_splits)
      then show "\<exists>t. GetMedianTimePast (bt_store bt) q = Some t \<and> t < GetBlockTime d"
        using check_new_header_rules[of ?E bt block q] contextual_rules[of ?E bt block q] b(2) by (metis GetBlockTime_def)
    qed
  qed
next
  case (invalid bt chain p corruption bt')
  have inv: "headers_inv False bt" "headers_inv False bt'"
    using header_run_inv invalid.hyps header_run.invalid invalid.prems by blast+
  then have wf: "wf_store (bt_store bt)" "wf_store (bt_store bt')"
    by (simp_all add: headers_inv_def tree_inv_def)
  show ?case
    by (rule times_rule_marked[OF wf InvalidBlockFound_marked[OF invalid.hyps(2)] invalid.IH[OF invalid.prems]])
next
  case (reset bt chain p bt')
  have inv: "headers_inv False bt" "headers_inv False bt'"
    using header_run_inv reset.hyps header_run.reset reset.prems by blast+
  then have wf: "wf_store (bt_store bt)" "wf_store (bt_store bt')"
    by (simp_all add: headers_inv_def tree_inv_def)
  show ?case
    by (rule times_rule_marked[OF wf ResetBlockFailureFlags_marked[OF reset.hyps(2)] reset.IH[OF reset.prems]])
qed

definition pow_accepted :: "header_env \<Rightarrow> block_tree \<Rightarrow> CBlockHeader \<Rightarrow> bool" where
  "pow_accepted E bt block \<longleftrightarrow>
     CheckProofOfWork (fst (GetHashFull E block)) (hd_nBits block) (he_pow E)
       \<and> (hd_nTime block \<ge> KAWPOW_TIME \<longrightarrow> snd (GetHashFull E block) = hd_mix_hash block)
     \<or> hd_nTime block \<ge> KAWPOW_TIME \<and> CheckProofOfWork (GetHash E block) (hd_nBits block) (he_pow E)
       \<and> (\<exists>p c. GetLastCheckpoint E bt = Some p \<and> bt_store bt p = Some c \<and> hd_nHeight block \<le> of_int (nHeight c))"

lemma CheckBlockHeader_pow: "CheckBlockHeader E bt block True = Inr () \<Longrightarrow> pow_accepted E bt block"
  by (auto simp: CheckBlockHeader_def pow_accepted_def check_full_pow_def asserted_def split_def Let_def
      split: option.splits if_splits)

lemma AcceptBlockHeader_fresh:
  assumes "headers_inv k bt" "genesis_ok E" "AcceptBlockHeader E bt block = (Inr p, bt')"
    and "GetHash E block \<noteq> hashGenesisBlock E" "map_of (mapBlockIndex bt) (GetHash E block) = None"
  shows "p = bt_next bt \<and> checked_entry E bt block bt' \<and> headers_inv k bt'"
proof -
  obtain prv where prv: "check_new_header E bt block = Inr prv"
    using assms(3-5) by (auto simp: AcceptBlockHeader_def split: sum.splits prod.splits if_splits option.splits)
  have "add_checked E bt block = (Inr p, bt')"
    using assms(3-5) prv by (auto simp: AcceptBlockHeader_def split: sum.splits prod.splits if_splits option.splits)
  then have "AddToBlockIndex E bt block 2 = Some (p, bt')"
    by (auto simp: add_checked_def split: option.splits prod.splits)
  then show ?thesis
    using AddToBlockIndex_entry[OF assms(1,2,5) _ _ disjI2[OF prv], of 2 p bt'] AcceptBlockHeader_inv[OF assms(1,2,3)] by simp
qed

text \<open>C6. A header that is accepted and was not known has a parent in the tree that is not marked invalid; its target is
  the one the difficulty rule asks for, its time is after the median time of its parent and not more
  than 15 minutes in the future, its work was checked, and it becomes the one new entry of the tree, one
  above its parent.\<close>

theorem accepted_header_rules:
  assumes "header_run E bt" "genesis_ok E" "AcceptBlockHeader E bt block = (Inr p, bt')"
    and "GetHash E block \<noteq> hashGenesisBlock E" "map_of (mapBlockIndex bt) (GetHash E block) = None"
  shows "\<exists>b q c t. bt_store bt' = (bt_store bt)(p \<mapsto> b) \<and> bt_store bt p = None \<and> phashBlock b = Some (GetHash E block)
    \<and> map_of (mapBlockIndex bt) (hd_hashPrevBlock block) = Some q \<and> pprev b = Some q \<and> bt_store bt q = Some c
    \<and> and (nStatus c) 96 = 0 \<and> nHeight b = nHeight c + 1
    \<and> GetNextWorkRequired (bt_store bt) (he_pow E) (Some q) block = Some (nBits b) \<and> pow_accepted E bt block
    \<and> GetMedianTimePast (bt_store bt) q = Some t \<and> t < GetBlockTime b \<and> GetBlockTime b \<le> nAdjustedTime E + 15 * 60"
proof -
  have inv: "headers_inv False bt"
    using header_run_inv[OF assms(1,2)] .
  note fresh = AcceptBlockHeader_fresh[OF inv assms(2-5)]
  then obtain b where b: "adds_entry bt block (GetHash E block) bt' b"
    "pprev b = None \<or> check_new_header E bt block = Inr (the (pprev b))"
    by (auto simp: checked_entry_def)
  have new: "\<exists>q. check_new_header E bt block = Inr q"
    using assms(3-5) by (auto simp: AcceptBlockHeader_def split: sum.splits prod.splits if_splits option.splits)
  then obtain q where q: "check_new_header E bt block = Inr q" "map_of (mapBlockIndex bt) (hd_hashPrevBlock block) = Some q" "pprev b = Some q"
    using check_new_header_parent b by (fastforce simp: adds_entry_def)
  obtain c where c: "bt_store bt q = Some c" "and (nStatus c) 96 = 0"
    and chk: "CheckBlockHeader E bt block True = Inr ()" "ContextualCheckBlockHeader E bt block q = Inr ()"
    using check_new_header_rules[OF q(1)] by blast
  obtain t where t: "GetNextWorkRequired (bt_store bt) (he_pow E) (Some q) block = Some (hd_nBits block)"
    "GetMedianTimePast (bt_store bt) q = Some t" "t < uint (hd_nTime block)" "uint (hd_nTime block) \<le> nAdjustedTime E + 15 * 60"
    by (rule contextual_rules[OF chk(2)])
  have free: "bt_store bt (bt_next bt) = None" and wf: "wf_store (bt_store bt')"
    using inv fresh by (auto simp: headers_inv_def tree_inv_def)
  have st: "bt_store bt' = (bt_store bt)(p \<mapsto> b)"
    using fresh b(1) by (simp add: adds_entry_def)
  obtain q' c' where "pprev b = Some q'" "bt_store bt' q' = Some c'" "nHeight b = nHeight c' + 1"
    by (rule wf_prev[OF wf, of p b]) (use st q in auto)
  moreover have "q \<noteq> p"
    using c(1) free fresh by auto
  ultimately have "nHeight b = nHeight c + 1"
    using q c st by auto
  then show ?thesis
    using b(1) fresh free q c t CheckBlockHeader_pow[OF chk(1)] by (intro exI[of _ b] exI[of _ q] exI[of _ c] exI[of _ t]) (auto simp: adds_entry_def GetBlockTime_def)
qed

text \<open>C38. The field \<open>nHeight\<close> of a header is what decides whether a KAWPOW header is below the last checkpoint, and no
  check compares it with the height of the parent. A header that claims a height at or below the
  checkpoint, wherever it stands in the tree, is accepted or refused without its full KAWPOW hash:
  whatever that hash is, the result is the same.\<close>

theorem kawpow_height_bypass:
  assumes "hd_nTime block \<ge> KAWPOW_TIME" "GetLastCheckpoint E bt = Some p" "bt_store bt p = Some c"
    and "hd_nHeight block \<le> of_int (nHeight c)"
  shows "AcceptBlockHeader (E\<lparr>KAWPOWHash := f\<rparr>) bt block = AcceptBlockHeader E bt block"
proof -
  let ?E = "E\<lparr>KAWPOWHash := f\<rparr>"
  have env: "he_pow ?E = he_pow E" "hashGenesisBlock ?E = hashGenesisBlock E" "fCheckpointsEnabled ?E = fCheckpointsEnabled E"
    "nAdjustedTime ?E = nAdjustedTime E" "HasConflictingChainLock ?E = HasConflictingChainLock E" "GetHash ?E = GetHash E"
    "GetLastCheckpoint ?E = GetLastCheckpoint E"
    by (simp_all add: GetHash_def GetLastCheckpoint_def fun_eq_iff)
  have ctx: "ContextualCheckBlockHeader ?E bt block q = ContextualCheckBlockHeader E bt block q" for q
    unfolding ContextualCheckBlockHeader_def check_checkpoint_def env ..
  have "CheckBlockHeader ?E bt block True = CheckBlockHeader E bt block True"
    using assms by (simp add: CheckBlockHeader_def env asserted_def)
  then have "check_new_header ?E bt block = check_new_header E bt block"
    unfolding check_new_header_def ctx by simp
  moreover have "AddToBlockIndex ?E bt block s = AddToBlockIndex E bt block s" for s
    unfolding AddToBlockIndex_def env ..
  ultimately show ?thesis
    unfolding AcceptBlockHeader_def add_checked_def env by presburger
qed

section \<open>Reconsidered blocks\<close>

text \<open>After a reset the entry and all its ancestors are clear, and only entries that descend from it have left the set of failed blocks.\<close>

lemma reset_ancestors_clear:
  assumes "wf_store (bt_store bt)" "bt_store bt p = Some b" "reset_ancestors n (Some p) bt = Some bt'" "ancestor_at (bt_store bt) p h = Some q"
  shows "\<exists>c. bt_store bt' q = Some c \<and> and (nStatus c) 96 = 0"
  using assms
proof (induction n arbitrary: bt p b)
  case (Suc n)
  let ?bt = "if and (nStatus b) 96 \<noteq> 0 then bt\<lparr>bt_store := (bt_store bt)(p \<mapsto> b\<lparr>nStatus := and (nStatus b) (not 96)\<rparr>),
                 setDirtyBlockIndex := set_insert_ptr p (setDirtyBlockIndex bt)\<rparr> else bt"
  have r: "reset_ancestors n (pprev b) ?bt = Some bt'"
    using Suc.prems(2,3) by (simp del: fun_upd_apply)
  have m: "marked bt ?bt"
    using marked_status[OF Suc.prems(2)] by (simp del: fun_upd_apply)
  have "\<exists>b'. bt_store ?bt p = Some b' \<and> and (nStatus b') 96 = 0"
    using Suc.prems(2) by (simp add: clear_96_bits)
  then obtain b' where b': "bt_store ?bt p = Some b'" "and (nStatus b') 96 = 0"
    by blast
  have keep: "and (nStatus c') 96 = 0" if "bt_store a x = Some c" "and (nStatus c) 96 = 0" "bt_store a' x = Some c'" "reset_ancestors k pp a = Some a'" for a a' x c c' k pp
    using that(4,1-3)
  proof (induction k pp a arbitrary: c rule: reset_ancestors.induct)
    case (3 k y a)
    obtain d where d: "bt_store a y = Some d"
      using 3(2) by (auto simp: bind_eq_Some_conv)
    let ?a = "if and (nStatus d) 96 \<noteq> 0 then a\<lparr>bt_store := (bt_store a)(y \<mapsto> d\<lparr>nStatus := and (nStatus d) (not 96)\<rparr>),
                 setDirtyBlockIndex := set_insert_ptr y (setDirtyBlockIndex a)\<rparr> else a"
    have "reset_ancestors k (pprev d) ?a = Some a'"
      using 3(2) d by (simp del: fun_upd_apply)
    moreover have "\<exists>c1. bt_store ?a x = Some c1 \<and> and (nStatus c1) 96 = 0"
      using 3(3,4) d by (auto simp: clear_96_bits)
    ultimately show ?case
      using 3(1)[OF d] 3(5) by blast
  qed auto
  show ?case
  proof (cases "q = p")
    case True
    obtain c where "bt_store bt' p = Some c"
      using reset_ancestors_marked[OF r] b'(1) by (auto simp: marked_def dest: sub_treeD)
    then show ?thesis
      using keep[OF b' _ r] True by blast
  next
    case False
    have h: "h \<le> nat (nHeight b)"
      using Suc.prems(4) height_at_eq[of "bt_store bt" p b, OF Suc.prems(2)] by (auto simp: ancestor_at_def split: if_splits)
    moreover have "h \<noteq> nat (nHeight b)"
      using False Suc.prems(4) ancestor_at_self[of "bt_store bt" p b, OF Suc.prems(2)] by auto
    ultimately have lt: "h < nat (nHeight b)" by simp
    then obtain y d where y: "pprev b = Some y" "bt_store bt y = Some d"
      by (cases rule: wf_prev[OF Suc.prems(1,2)]) auto
    then have a: "ancestor_at (bt_store bt) y h = Some q"
      using ancestor_at_prev[OF Suc.prems(1,2) y(1) lt] Suc.prems(4) by simp
    obtain d' where d': "bt_store ?bt y = Some d'"
      using m y(2) by (auto simp: marked_def dest: sub_treeD)
    have "wf_store (bt_store ?bt)"
      using Suc.prems(1) wf_store_status[OF Suc.prems(1,2)] by (simp del: fun_upd_apply)
    moreover have "ancestor_at (bt_store ?bt) y h = Some q"
      using ancestor_at_sub[OF _ y(2) a] m by (simp add: marked_def)
    ultimately show ?thesis
      using Suc.IH[of ?bt y d'] d' r y(1) by simp
  qed
qed simp

lemma ancestor_at_sub_back:
  assumes "wf_store st" "sub_tree st st'" "st p = Some b" "ancestor_at st' p h = Some q"
  shows "ancestor_at st p h = Some q"
proof -
  have "h \<le> nat (nHeight b)"
    using assms(4) height_at_sub[OF assms(2,3)] height_at_eq[of st p b, OF assms(3)] by (auto simp: ancestor_at_def split: if_splits)
  then obtain r where "ancestor_at st p h = Some r"
    using ancestor_at_exists[OF assms(1,3)] by metis
  then show ?thesis
    using ancestor_at_sub[OF assms(2,3), of h r] assms(4) by simp
qed

lemma reset_entries_failed:
  "reset_entries chain p h m bt = Some bt' \<Longrightarrow> f \<in> set (g_failed_blocks bt) \<Longrightarrow> GetAncestor (bt_store bt) f h \<noteq> Some (Some p) \<Longrightarrow>
   wf_store (bt_store bt) \<Longrightarrow> bt_store bt f \<noteq> None \<Longrightarrow> f \<in> set (g_failed_blocks bt')"
proof (induction m arbitrary: bt)
  case (Cons e m)
  obtain hq q where e: "e = (hq, q)" by (cases e)
  then obtain bt1 where 1: "reset_entry chain p h q bt = Some bt1" "reset_entries chain p h m bt1 = Some bt'"
    using Cons.prems(1) by (auto simp: bind_eq_Some_conv)
  have m: "marked bt bt1"
    by (rule reset_entry_marked[OF 1(1)])
  have wf: "wf_store (bt_store bt1)"
    using 1(1) by (cases rule: reset_entry_cases) (use Cons.prems(4) wf_store_status[OF Cons.prems(4)] in \<open>auto simp del: fun_upd_apply\<close>)
  obtain c where c: "bt_store bt f = Some c"
    using Cons.prems(5) by blast
  then obtain c1 where c1: "bt_store bt1 f = Some c1" "nHeight c1 = nHeight c"
    using m by (auto simp: marked_def dest!: sub_treeD)
  have "ancestor_at (bt_store bt1) f (nat h) = Some p \<Longrightarrow> ancestor_at (bt_store bt) f (nat h) = Some p"
    using ancestor_at_sub_back[OF Cons.prems(4) _ c] m unfolding marked_def by blast
  then have "GetAncestor (bt_store bt1) f h \<noteq> Some (Some p)"
    using Cons.prems(3) by (auto simp: GetAncestor_correct[OF wf c1(1)] GetAncestor_correct[OF Cons.prems(4) c] split: if_splits)
  moreover have "f \<in> set (g_failed_blocks bt1)"
    using 1(1) by (cases rule: reset_entry_cases) (use Cons.prems(2,3) in auto)
  ultimately show ?case
    using Cons.IH[OF 1(2)] wf c1(1) by simp
qed simp

lemma reset_ancestors_failed: "reset_ancestors n p bt = Some bt' \<Longrightarrow> g_failed_blocks bt' = g_failed_blocks bt"
  by (induction n p bt rule: reset_ancestors.induct) (auto simp: bind_eq_Some_conv split: if_splits)

text \<open>
  The assertion does fail: when a descendant \<open>p\<close> of a failed block \<open>f\<close> is reconsidered and a valid header on \<open>p\<close>, which is not fully
  validated, arrives, the node aborts.
\<close>

theorem reset_then_abort:
  assumes "header_run E bt" "genesis_ok E" "ResetBlockFailureFlags chain bt p = Some bt'"
    and "f \<in> set (g_failed_blocks bt)" "f \<noteq> p" "bt_store bt f = Some c" "ancestor_at (bt_store bt) p (nat (nHeight c)) = Some f"
    and "GetHash E block \<noteq> hashGenesisBlock E" "map_of (mapBlockIndex bt') (GetHash E block) = None"
    and "check_new_header E bt' block = Inr p" "bt_store bt' p = Some b" "and (nStatus b) 7 < 5"
  shows "fst (AcceptBlockHeader E bt' block) = Inl HAssert"
proof -
  have inv: "headers_inv False bt" "headers_inv False bt'"
    using header_run_inv[OF _ assms(2)] assms(1) header_run.reset[OF assms(1,3)] by blast+
  then have wf: "wf_store (bt_store bt)" "wf_store (bt_store bt')"
    and ex: "\<forall>g\<in>set (g_failed_blocks bt'). \<exists>d. bt_store bt' g = Some d"
    by (auto simp: headers_inv_def tree_inv_def failed_ok_def)
  obtain b0 :: CBlockIndex and bt1 where 1: "bt_store bt p = Some b0" "reset_entries chain p (nHeight b0) (mapBlockIndex bt) bt = Some bt1"
      "reset_ancestors (nat (nHeight b0) + 1) (Some p) bt1 = Some bt'"
    using assms(3) unfolding ResetBlockFailureFlags_def bind_eq_Some_conv by (elim exE conjE) (rule that)
  note m = reset_entries_marked[OF 1(2)] reset_ancestors_marked[OF 1(3)]
  have wf1: "wf_store (bt_store bt1)"
    using reset_entries_inv[OF inv(1) 1(2)] by (simp add: headers_inv_def tree_inv_def)
  obtain b1 where b1: "bt_store bt1 p = Some b1"
    using m(1) 1(1) by (auto simp: marked_def dest!: sub_treeD)
  have clear: "\<exists>d. bt_store bt' q = Some d \<and> and (nStatus d) 96 = 0" if "ancestor_at (bt_store bt1) p h = Some q" for q h
    by (rule reset_ancestors_clear[OF wf1 b1 1(3) that])
  have h: "nHeight c < nHeight b0"
    using assms(5,7) 1(1) wf_height[OF wf(1) 1(1)] wf_height[OF wf(1) assms(6)] ancestor_at_self[of "bt_store bt" p b0, OF 1(1)]
    by (cases "nat (nHeight c) = nat (nHeight b0)") (auto simp: ancestor_at_def height_at_def split: if_splits)
  then have "GetAncestor (bt_store bt) f (nHeight b0) \<noteq> Some (Some p)"
    using wf_height[OF wf(1) assms(6)] by (auto simp: GetAncestor_correct[OF wf(1) assms(6)] ancestor_at_def height_at_def assms(6))
  then have f: "f \<in> set (g_failed_blocks bt')"
    using reset_entries_failed[OF 1(2) assms(4) _ wf(1)] reset_ancestors_failed[OF 1(3)] assms(6) by simp
  have up: "ancestor_at (bt_store bt1) p h = Some q" if "ancestor_at (bt_store bt') p h = Some q" for h q
    using ancestor_at_sub_back[OF wf1 _ b1 that] m(2) by (simp add: marked_def)
  have stale: "stale (bt_store bt') p g" if "ancestor_at (bt_store bt') p (height_at (bt_store bt') g) = Some g" for g
    using clear[OF up[OF that]] that and_96_32 by (auto simp: stale_def)
  have "ancestor_at (bt_store bt') p (height_at (bt_store bt') f) = Some f"
    using ancestor_at_sub[of "bt_store bt" "bt_store bt'", OF _ 1(1) assms(7)] marked_trans[OF m] height_at_sub[of "bt_store bt" "bt_store bt'" f c] assms(6)
    by (simp add: marked_def height_at_def)
  then have "failed_ancestor (bt_store bt') p (g_failed_blocks bt') = None"
    using failed_ancestor_stale[OF wf(2) assms(11), of "g_failed_blocks bt'"] ex f stale by blast
  moreover have "IsValid b 5 = Some False"
    using assms(12) by (simp add: IsValid_def linorder_not_le)
  ultimately have "check_failed_ancestors bt' p = (Inl HAssert, bt')"
    using assms(11) by (simp add: check_failed_ancestors_def)
  then show ?thesis
    using assms(8-10) by (simp add: AcceptBlockHeader_def)
qed

section \<open>A network and its first two headers\<close>

definition ex_genesis :: CBlockHeader where
  "ex_genesis = ex_header 1651444200"

text \<open>The second header comes after the change to KAWPOW and claims the height of the genesis block.\<close>

definition ex_block :: CBlockHeader where
  "ex_block = (ex_header 1651444300)\<lparr>hd_hashPrevBlock := 1, hd_nBits := 0x2000ffff\<rparr>"

text \<open>The only checkpoint is the genesis block, as on the main network; no full KAWPOW hash meets a target.\<close>

definition ex_net :: header_env where
  "ex_net = \<lparr>he_pow = main_pow, hashGenesisBlock = 1, mapCheckpoints = [(0, 1)], fCheckpointsEnabled = True,
     HashX16R = (\<lambda>b. if b = ex_genesis then 1 else 2), KAWPOWHash = (\<lambda>_. (- 1, 0)),
     KAWPOWHash_OnlyMix = (\<lambda>_. 2), nAdjustedTime = 1651444400, HasConflictingChainLock = (\<lambda>_ _. False)\<rparr>"

definition ex_tree :: block_tree where
  "ex_tree = snd (AcceptBlockHeader ex_net empty_tree ex_genesis)"

lemma ex_hash [simp]: "GetHash ex_net ex_genesis = 1" "GetHash ex_net ex_block = 2"
  by (simp_all add: GetHash_def ex_net_def ex_genesis_def ex_block_def ex_header_def KAWPOW_TIME_def)

lemma ex_genesis_ok: "genesis_ok ex_net"
  by (auto simp: genesis_ok_def GetHash_def ex_net_def ex_genesis_def ex_header_def)

lemma ex_unreset_run: "unreset_run ex_net ex_tree"
proof -
  have "AcceptBlockHeader (ex_net\<lparr>nAdjustedTime := nAdjustedTime ex_net, HasConflictingChainLock := HasConflictingChainLock ex_net\<rparr>)
      empty_tree ex_genesis = (fst (AcceptBlockHeader ex_net empty_tree ex_genesis), ex_tree)"
    by (simp add: ex_tree_def)
  then show ?thesis
    by (rule unreset_run.accept[OF unreset_run.start])
qed

lemma ex_run: "header_run ex_net ex_tree"
  by (rule unreset_run_header_run[OF ex_unreset_run])

lemma ex_tree_entries:
  obtains b where "bt_store ex_tree = [0 \<mapsto> b]" "mapBlockIndex ex_tree = [(1, 0)]" "g_failed_blocks ex_tree = []"
    "pprev b = None" "nHeight b = 0" "nTime b = 1651444200" "nStatus b = 2" "bt_next ex_tree = 1"
proof -
  obtain w where w: "GetBlockProof 0 = Some w"
    by (cases "SetCompact 0") (rule GetBlockProof_val)
  define b where "b = (CBlockIndex_of_header ex_genesis)\<lparr>phashBlock := Some 1, nChainWork := limbs_add (of_uint64 0) w,
    nTimeMax := 1651444200, nStatus := 2\<rparr>"
  have "bt_store ex_tree = [0 \<mapsto> b]" "mapBlockIndex ex_tree = [(1, 0)]" "g_failed_blocks ex_tree = []" "bt_next ex_tree = 1"
    using w
    by (simp_all add: b_def ex_tree_def AcceptBlockHeader_def ex_net_def AddToBlockIndex_def add_checked_def empty_tree_def GetHash_def
        link_entry_def work_entry_def ex_genesis_def ex_header_def CBlockIndex_of_header_def KAWPOW_TIME_def RaiseValidity_def
        better_header_def Let_def set_insert_ptr_def)
  moreover have "pprev b = None" "nHeight b = 0" "nTime b = 1651444200" "nStatus b = 2"
    by (simp_all add: b_def CBlockIndex_of_header_def ex_genesis_def ex_header_def)
  ultimately show thesis
    using that by blast
qed

lemma ex_median: "pprev b = None \<Longrightarrow> GetMedianTimePast [0 \<mapsto> b] 0 = Some (uint (nTime b))"
  by (simp add: GetMedianTimePast_def eval_nat_numeral GetBlockTime_def)

lemma ex_block_checked: "check_new_header ex_net ex_tree ex_block = Inr 0"
proof -
  obtain b where b: "bt_store ex_tree = [0 \<mapsto> b]" "mapBlockIndex ex_tree = [(1, 0)]" "pprev b = None" "nHeight b = 0"
    "nTime b = 1651444200" "nStatus b = 2"
    by (rule ex_tree_entries)
  have fields: "hd_nBits ex_block = 0x2000ffff" "hd_nTime ex_block = 1651444300" "hd_hashPrevBlock ex_block = 1"
    "hd_nHeight ex_block = 0" "he_pow ex_net = main_pow" "nAdjustedTime ex_net = 1651444400"
    by (simp_all add: ex_block_def ex_header_def ex_net_def)
  have ckpt: "GetLastCheckpoint ex_net ex_tree = Some 0"
    by (simp add: GetLastCheckpoint_def ex_net_def b)
  have pow: "CheckProofOfWork 2 0x2000ffff main_pow"
    by (simp add: CheckProofOfWork_iff SetCompact_def) (simp add: target_val main_pow_def)
  have "CheckBlockHeader ex_net ex_tree ex_block True = Inr ()"
    by (simp add: CheckBlockHeader_def ckpt b asserted_def fields KAWPOW_TIME_def pow)
  moreover have "GetNextWorkRequired (bt_store ex_tree) main_pow (Some 0) ex_block = Some 0x2000ffff"
    by (simp add: GetNextWorkRequired_def DarkGravityWave_def b main_limit_bits nPastBlocks_def) (simp add: main_pow_def)
  then have "ContextualCheckBlockHeader ex_net ex_tree ex_block 0 = Inr ()"
    using ex_median[OF b(3)]
    by (simp add: ContextualCheckBlockHeader_def asserted_def fields b check_checkpoint_def ckpt MAX_FUTURE_BLOCK_TIME_def)
  ultimately show ?thesis
    by (simp add: check_new_header_def b fields asserted_def)
qed

lemma ex_accept: "\<exists>bt. AcceptBlockHeader ex_net ex_tree ex_block = (Inr 1, bt)"
proof -
  obtain b where b: "bt_store ex_tree = [0 \<mapsto> b]" "mapBlockIndex ex_tree = [(1, 0)]" "g_failed_blocks ex_tree = []" "pprev b = None" "nHeight b = 0"
    "nTime b = 1651444200" "nStatus b = 2" "bt_next ex_tree = 1"
    by (rule ex_tree_entries)
  have "map_of (mapBlockIndex ex_tree) (GetHash ex_net ex_block) = None" "map_of (mapBlockIndex ex_tree) (hd_hashPrevBlock ex_block) \<noteq> None"
    by (simp add: b) (simp add: b ex_block_def)
  then obtain bt where bt: "AddToBlockIndex ex_net ex_tree ex_block 2 = Some (1, bt)"
    using AddToBlockIndex_headers_inv[OF header_run_inv[OF ex_run ex_genesis_ok] ex_genesis_ok, of ex_block 2] b(8) by auto
  have "hashGenesisBlock ex_net = 1" "HasConflictingChainLock ex_net = (\<lambda>_ _. False)"
    by (simp_all add: ex_net_def)
  moreover have "check_failed_ancestors ex_tree 0 = (Inr (), ex_tree)"
    by (simp add: check_failed_ancestors_def b IsValid_def)
  ultimately show ?thesis
    using bt by (simp add: AcceptBlockHeader_def b ex_block_checked add_checked_def)
qed


theorem headers_never_assert_witness:
  "header_run ex_net ex_tree \<and> genesis_ok ex_net \<and> dgw_params (he_pow ex_net) \<and> unreset_run ex_net ex_tree \<and>
   fst (AcceptBlockHeader (ex_net\<lparr>nAdjustedTime := 0, HasConflictingChainLock := \<lambda>_ _. True\<rparr>) ex_tree ex_block) \<noteq> Inl HAssert"
proof -
  have "dgw_params (he_pow ex_net)"
    by (simp add: ex_net_def main_pow_dgw)
  then show ?thesis
    using headers_never_assert[OF ex_run ex_genesis_ok, of "\<lambda>_ _. True" 0 ex_block] ex_run ex_genesis_ok ex_unreset_run by blast
qed

theorem accepted_header_rules_witness:
  "\<exists>bt b. AcceptBlockHeader ex_net ex_tree ex_block = (Inr 1, bt) \<and> bt_store bt 1 = Some b \<and> GetBlockTime b \<le> 1651445300"
proof -
  obtain bt where bt: "AcceptBlockHeader ex_net ex_tree ex_block = (Inr 1, bt)"
    using ex_accept by blast
  have "mapBlockIndex ex_tree = [(1, 0)]"
    by (rule ex_tree_entries)
  then have new: "GetHash ex_net ex_block \<noteq> hashGenesisBlock ex_net" "map_of (mapBlockIndex ex_tree) (GetHash ex_net ex_block) = None"
    unfolding ex_hash by (simp_all add: ex_net_def)
  from accepted_header_rules[OF ex_run ex_genesis_ok bt new]
  obtain b where "bt_store bt = (bt_store ex_tree)(1 \<mapsto> b)" "GetBlockTime b \<le> nAdjustedTime ex_net + 15 * 60"
    by (elim exE conjE) (rule that)
  then show ?thesis
    using bt by (intro exI[of _ bt] exI[of _ b]) (simp add: ex_net_def)
qed

theorem kawpow_height_bypass_witness:
  "fst (AcceptBlockHeader (ex_net\<lparr>KAWPOWHash := \<lambda>_. (- 1, 5)\<rparr>) ex_tree ex_block) = Inr 1"
proof -
  obtain b where b: "bt_store ex_tree = [0 \<mapsto> b]" "mapBlockIndex ex_tree = [(1, 0)]" "nHeight b = 0"
    by (rule ex_tree_entries)
  have "hd_nTime ex_block \<ge> KAWPOW_TIME" "GetLastCheckpoint ex_net ex_tree = Some 0" "bt_store ex_tree 0 = Some b"
    "hd_nHeight ex_block \<le> of_int (nHeight b)"
    by (simp_all add: ex_block_def ex_header_def KAWPOW_TIME_def GetLastCheckpoint_def ex_net_def b)
  from kawpow_height_bypass[OF this] show ?thesis
    using ex_accept by auto
qed

end
