(* ===== verification/VersionBits.thy ===== *)
theory VersionBits
  imports Headers "HOL-Library.Signed_Division"
begin

text \<open>
  Deployments by version bits (\<^verbatim>\<open>src/src/versionbits.h\<close>, \<^verbatim>\<open>src/src/versionbits.cpp\<close>). The abstract class of checkers is a record of its virtual functions; a cache is a map
  from parent blocks, \<open>None\<close> being the null pointer, to states. As in the block index, \<open>None\<close> as the result of an
  operation is a null pointer that was followed or a division by zero.
\<close>

section \<open>Checkers\<close>

datatype ThresholdState = THRESHOLD_DEFINED | THRESHOLD_STARTED | THRESHOLD_LOCKED_IN | THRESHOLD_ACTIVE | THRESHOLD_FAILED

type_synonym ThresholdConditionCache = "ptr option \<Rightarrow> ThresholdState option"

record checker =
  Condition :: "CBlockIndex \<Rightarrow> bool"
  BeginTime :: int
  EndTime :: int
  Period :: int
  Threshold :: int

record BIP9Stats =
  stats_period :: int
  stats_threshold :: int
  stats_elapsed :: int
  stats_count :: int
  stats_possible :: bool

definition period_parent :: "index_store \<Rightarrow> checker \<Rightarrow> ptr option \<Rightarrow> ptr option option" where
  "period_parent st K pindexPrev =
     (case pindexPrev of
        None \<Rightarrow> Some None
      | Some p \<Rightarrow> do {
          b \<leftarrow> st p;
          if Period K = 0 then None else GetAncestor st p (nHeight b - (nHeight b + 1) smod Period K)
        })"

text \<open>
  The walk back to a known state. The head of the list is the back of \<^verbatim>\<open>vToCompute\<close>. A step leads at least one
  block down or to the null pointer, so that the height of the start plus two bounds the number of steps.
\<close>

fun find_known :: "index_store \<Rightarrow> checker \<Rightarrow> nat \<Rightarrow> ptr option \<Rightarrow> ThresholdConditionCache \<Rightarrow> ptr list \<Rightarrow>
    (ptr option \<times> ThresholdConditionCache \<times> ptr list) option" where
  "find_known st K n pindexPrev cache vToCompute =
     (if cache pindexPrev \<noteq> None then Some (pindexPrev, cache, vToCompute)
      else case n of
        0 \<Rightarrow> None
      | Suc m \<Rightarrow>
          (case pindexPrev of
             None \<Rightarrow> Some (None, cache(None \<mapsto> THRESHOLD_DEFINED), vToCompute)
           | Some p \<Rightarrow> do {
               t \<leftarrow> GetMedianTimePast st p;
               if t < BeginTime K then Some (Some p, cache(Some p \<mapsto> THRESHOLD_DEFINED), vToCompute)
               else do {
                 b \<leftarrow> st p;
                 q \<leftarrow> GetAncestor st p (nHeight b - Period K);
                 find_known st K m q cache (p # vToCompute)
               }
             }))"

declare find_known.simps [simp del]

fun count_signals :: "index_store \<Rightarrow> checker \<Rightarrow> nat \<Rightarrow> ptr option \<Rightarrow> int option" where
  "count_signals st K 0 pindexCount = Some 0"
| "count_signals st K (Suc n) None = None"
| "count_signals st K (Suc n) (Some p) =
     do {
       b \<leftarrow> st p;
       count \<leftarrow> count_signals st K n (pprev b);
       Some (count + (if Condition K b then 1 else 0))
     }"

definition state_next :: "index_store \<Rightarrow> checker \<Rightarrow> ThresholdState \<Rightarrow> ptr \<Rightarrow> ThresholdState option" where
  "state_next st K state p =
     (case state of
        THRESHOLD_DEFINED \<Rightarrow> do {
          t \<leftarrow> GetMedianTimePast st p;
          Some (if t \<ge> EndTime K then THRESHOLD_FAILED else if t \<ge> BeginTime K then THRESHOLD_STARTED else THRESHOLD_DEFINED)
        }
      | THRESHOLD_STARTED \<Rightarrow> do {
          t \<leftarrow> GetMedianTimePast st p;
          if t \<ge> EndTime K then Some THRESHOLD_FAILED
          else do {
            count \<leftarrow> count_signals st K (nat (Period K)) (Some p);
            Some (if count \<ge> Threshold K then THRESHOLD_LOCKED_IN else THRESHOLD_STARTED)
          }
        }
      | THRESHOLD_LOCKED_IN \<Rightarrow> Some THRESHOLD_ACTIVE
      | THRESHOLD_ACTIVE \<Rightarrow> Some THRESHOLD_ACTIVE
      | THRESHOLD_FAILED \<Rightarrow> Some THRESHOLD_FAILED)"

fun compute_forward :: "index_store \<Rightarrow> checker \<Rightarrow> ptr list \<Rightarrow> ThresholdState \<Rightarrow> ThresholdConditionCache \<Rightarrow>
    (ThresholdState \<times> ThresholdConditionCache) option" where
  "compute_forward st K [] state cache = Some (state, cache)"
| "compute_forward st K (p # vToCompute) state cache =
     do {
       stateNext \<leftarrow> state_next st K state p;
       compute_forward st K vToCompute stateNext (cache(Some p \<mapsto> stateNext))
     }"

definition walk_bound :: "index_store \<Rightarrow> ptr option \<Rightarrow> nat" where
  "walk_bound st p = (case p of None \<Rightarrow> 1 | Some q \<Rightarrow> height_at st q + 2)"

definition GetStateFor :: "index_store \<Rightarrow> checker \<Rightarrow> ptr option \<Rightarrow> ThresholdConditionCache \<Rightarrow>
    (ThresholdState \<times> ThresholdConditionCache) option" where
  "GetStateFor st K pindexPrev cache =
     do {
       p \<leftarrow> period_parent st K pindexPrev;
       (q, cache, vToCompute) \<leftarrow> find_known st K (walk_bound st p) p cache [];
       state \<leftarrow> cache q;
       compute_forward st K vToCompute state cache
     }"

text \<open>The count from a block down to, but without, the block at a height.\<close>

fun count_down_to :: "index_store \<Rightarrow> checker \<Rightarrow> nat \<Rightarrow> int \<Rightarrow> ptr option \<Rightarrow> int option" where
  "count_down_to st K n height currentIndex =
     do {
       p \<leftarrow> currentIndex;
       b \<leftarrow> st p;
       if height = nHeight b then Some 0
       else case n of
         0 \<Rightarrow> None
       | Suc m \<Rightarrow> do {
           count \<leftarrow> count_down_to st K m height (pprev b);
           Some (count + (if Condition K b then 1 else 0))
         }
     }"

declare count_down_to.simps [simp del]

definition GetStateStatisticsFor :: "index_store \<Rightarrow> checker \<Rightarrow> ptr option \<Rightarrow> BIP9Stats option" where
  "GetStateStatisticsFor st K pindex =
     (let stats = \<lparr>stats_period = Period K, stats_threshold = Threshold K, stats_elapsed = 0, stats_count = 0, stats_possible = False\<rparr> in
      case pindex of
        None \<Rightarrow> Some stats
      | Some p \<Rightarrow> do {
          b \<leftarrow> st p;
          parent \<leftarrow> period_parent st K pindex;
          q \<leftarrow> parent;
          c \<leftarrow> st q;
          let elapsed = nHeight b - nHeight c;
          count \<leftarrow> count_down_to st K (nat (nHeight b) + 1) (nHeight c) pindex;
          Some (stats\<lparr>stats_elapsed := elapsed, stats_count := count,
            stats_possible := Period K - Threshold K \<ge> elapsed - count\<rparr>)
        })"

text \<open>The loop of \<^verbatim>\<open>GetStateSinceHeightFor\<close> goes down a period in every step.\<close>

fun since_loop :: "index_store \<Rightarrow> checker \<Rightarrow> nat \<Rightarrow> ThresholdState \<Rightarrow> ptr \<Rightarrow> ptr option \<Rightarrow> ThresholdConditionCache \<Rightarrow>
    (ptr \<times> ThresholdConditionCache) option" where
  "since_loop st K n initialState pindexPrev previousPeriodParent cache =
     (case previousPeriodParent of
        None \<Rightarrow> Some (pindexPrev, cache)
      | Some q \<Rightarrow>
          (case n of
             0 \<Rightarrow> None
           | Suc m \<Rightarrow> do {
               (state, cache) \<leftarrow> GetStateFor st K (Some q) cache;
               if state = initialState then do {
                 c \<leftarrow> st q;
                 r \<leftarrow> GetAncestor st q (nHeight c - Period K);
                 since_loop st K m initialState q r cache
               } else Some (pindexPrev, cache)
             }))"

declare since_loop.simps [simp del]

definition GetStateSinceHeightFor :: "index_store \<Rightarrow> checker \<Rightarrow> ptr option \<Rightarrow> ThresholdConditionCache \<Rightarrow>
    (int \<times> ThresholdConditionCache) option" where
  "GetStateSinceHeightFor st K pindexPrev cache =
     do {
       (initialState, cache) \<leftarrow> GetStateFor st K pindexPrev cache;
       if initialState = THRESHOLD_DEFINED then Some (0, cache)
       else do {
         p0 \<leftarrow> pindexPrev;
         parent \<leftarrow> period_parent st K (Some p0);
         p \<leftarrow> parent;
         b \<leftarrow> st p;
         previousPeriodParent \<leftarrow> GetAncestor st p (nHeight b - Period K);
         (q, cache) \<leftarrow> since_loop st K (nat (nHeight b) + 1) initialState p previousPeriodParent cache;
         c \<leftarrow> st q;
         Some (nHeight c + 1, cache)
       }
     }"

section \<open>Deployments\<close>

datatype DeploymentPos = DEPLOYMENT_TESTDUMMY | DEPLOYMENT_ASSETS | DEPLOYMENT_MSG_REST_ASSETS
  | DEPLOYMENT_TRANSFER_SCRIPT_SIZE | DEPLOYMENT_ENFORCE_VALUE | DEPLOYMENT_COINBASE_ASSETS | DEPLOYMENT_DIP0003

record BIP9Deployment =
  dep_bit :: nat
  nStartTime :: int
  nTimeout :: int
  nWindowSize :: int
  nThreshold :: int

record vb_params =
  vDeployments :: "DeploymentPos \<Rightarrow> BIP9Deployment"
  nMinerConfirmationWindow :: int
  nRuleChangeActivationThreshold :: int

definition VERSIONBITS_TOP_BITS :: u32 where "VERSIONBITS_TOP_BITS = 0x20000000"
definition VERSIONBITS_TOP_BITS_ASSETS :: u32 where "VERSIONBITS_TOP_BITS_ASSETS = 0x30000000"
definition VERSIONBITS_TOP_MASK :: u32 where "VERSIONBITS_TOP_MASK = 0xE0000000"

definition VersionBitsMask :: "vb_params \<Rightarrow> DeploymentPos \<Rightarrow> u32" where
  "VersionBitsMask P pos = push_bit (dep_bit (vDeployments P pos)) 1"

definition VersionBitsConditionChecker :: "vb_params \<Rightarrow> DeploymentPos \<Rightarrow> checker" where
  "VersionBitsConditionChecker P pos =
     (let d = vDeployments P pos in
      \<lparr>Condition = (\<lambda>b. and (bi_nVersion b) VERSIONBITS_TOP_MASK = VERSIONBITS_TOP_BITS
          \<and> and (bi_nVersion b) (VersionBitsMask P pos) \<noteq> 0),
       BeginTime = nStartTime d, EndTime = nTimeout d,
       Period = (if nWindowSize d \<noteq> 0 then nWindowSize d else nMinerConfirmationWindow P),
       Threshold = (if nThreshold d \<noteq> 0 then nThreshold d else nRuleChangeActivationThreshold P)\<rparr>)"

type_synonym VersionBitsCache = "DeploymentPos \<Rightarrow> ThresholdConditionCache"

definition VersionBitsCache_Clear :: VersionBitsCache where
  "VersionBitsCache_Clear = (\<lambda>_. Map.empty)"

definition VersionBitsState :: "index_store \<Rightarrow> vb_params \<Rightarrow> ptr option \<Rightarrow> DeploymentPos \<Rightarrow> VersionBitsCache \<Rightarrow>
    (ThresholdState \<times> VersionBitsCache) option" where
  "VersionBitsState st P pindexPrev pos cache =
     map_option (\<lambda>(s, c). (s, cache(pos := c))) (GetStateFor st (VersionBitsConditionChecker P pos) pindexPrev (cache pos))"

definition VersionBitsStatistics :: "index_store \<Rightarrow> vb_params \<Rightarrow> ptr option \<Rightarrow> DeploymentPos \<Rightarrow> BIP9Stats option" where
  "VersionBitsStatistics st P pindexPrev pos = GetStateStatisticsFor st (VersionBitsConditionChecker P pos) pindexPrev"

definition VersionBitsStateSinceHeight :: "index_store \<Rightarrow> vb_params \<Rightarrow> ptr option \<Rightarrow> DeploymentPos \<Rightarrow> VersionBitsCache \<Rightarrow>
    (int \<times> VersionBitsCache) option" where
  "VersionBitsStateSinceHeight st P pindexPrev pos cache =
     map_option (\<lambda>(h, c). (h, cache(pos := c))) (GetStateSinceHeightFor st (VersionBitsConditionChecker P pos) pindexPrev (cache pos))"

definition main_deployment :: "nat \<Rightarrow> BIP9Deployment" where
  "main_deployment b = \<lparr>dep_bit = b, nStartTime = 1653004800, nTimeout = 1653264000, nWindowSize = 0, nThreshold = 0\<rparr>"

definition main_vb :: vb_params where
  "main_vb =
     \<lparr>vDeployments = (\<lambda>pos. case pos of
          DEPLOYMENT_TESTDUMMY \<Rightarrow> main_deployment 28
        | DEPLOYMENT_ASSETS \<Rightarrow> main_deployment 6
        | DEPLOYMENT_MSG_REST_ASSETS \<Rightarrow> main_deployment 7
        | DEPLOYMENT_TRANSFER_SCRIPT_SIZE \<Rightarrow> main_deployment 8
        | DEPLOYMENT_ENFORCE_VALUE \<Rightarrow> main_deployment 9
        | DEPLOYMENT_COINBASE_ASSETS \<Rightarrow> main_deployment 10
        | DEPLOYMENT_DIP0003 \<Rightarrow>
            \<lparr>dep_bit = 3, nStartTime = 1688961600, nTimeout = 1720584000, nWindowSize = 4032, nThreshold = 3226\<rparr>),
      nMinerConfirmationWindow = 2016, nRuleChangeActivationThreshold = 1916\<rparr>"

section \<open>The median time never goes back\<close>

lemma sorted_below_iff:
  fixes ys :: "int list"
  assumes "sorted ys" "k < length ys"
  shows "length (filter (\<lambda>x. x < m) ys) \<le> k \<longleftrightarrow> m \<le> ys ! k"
proof
  assume le: "m \<le> ys ! k"
  have "\<not> x < m" if "x \<in> set (drop k ys)" for x
  proof -
    obtain i where "x = ys ! (k + i)" "k + i < length ys"
      using \<open>x \<in> set (drop k ys)\<close> by (auto simp: in_set_conv_nth)
    then show ?thesis
      using sorted_nth_mono[OF assms(1), of k "k + i"] le by simp
  qed
  then have "filter (\<lambda>x. x < m) (drop k ys) = []"
    by (simp add: filter_empty_conv)
  then have "filter (\<lambda>x. x < m) ys = filter (\<lambda>x. x < m) (take k ys)"
    by (metis append_take_drop_id filter_append append_Nil2)
  then show "length (filter (\<lambda>x. x < m) ys) \<le> k"
    using length_filter_le[of "\<lambda>x. x < m" "take k ys"] by simp
next
  assume le: "length (filter (\<lambda>x. x < m) ys) \<le> k"
  show "m \<le> ys ! k"
  proof (rule ccontr)
    assume less: "\<not> m \<le> ys ! k"
    have "x < m" if "x \<in> set (take (Suc k) ys)" for x
    proof -
      obtain i where "x = ys ! i" "i \<le> k"
        using \<open>x \<in> set (take (Suc k) ys)\<close> by (auto simp: in_set_conv_nth)
      then show ?thesis
        using sorted_nth_mono[OF assms(1), of i k] assms(2) less by simp
    qed
    then have "filter (\<lambda>x. x < m) (take (Suc k) ys) = take (Suc k) ys"
      by (simp add: filter_id_conv)
    then have "Suc k \<le> length (filter (\<lambda>x. x < m) ys)"
      using assms(2) by (metis append_take_drop_id filter_append length_append le_add1 length_take min.absorb2 Suc_leI)
    then show False
      using le by simp
  qed
qed

lemma sort_below_iff:
  fixes xs :: "int list"
  assumes "k < length xs"
  shows "length (filter (\<lambda>x. x < m) xs) \<le> k \<longleftrightarrow> m \<le> sort xs ! k"
proof -
  have "length (filter (\<lambda>x. x < m) (sort xs)) = length (filter (\<lambda>x. x < m) xs)"
    by (simp add: filter_sort)
  then show ?thesis
    using sorted_below_iff[of "sort xs" k m] assms by simp
qed

lemma times_back_take: "times_back st n p = Some ts \<Longrightarrow> k \<le> n \<Longrightarrow> times_back st k p = Some (take k ts)"
proof (induction n arbitrary: p ts k)
  case (Suc n)
  show ?case
  proof (cases k)
    case (Suc j)
    then show ?thesis
      using Suc.prems by (cases p) (auto simp: bind_eq_Some_conv Suc.IH)
  qed simp
qed simp

lemma median_step:
  fixes ts :: "int list"
  assumes "ts \<noteq> []" "length ts \<le> 11" "sort ts ! (length ts div 2) < t"
  shows "sort ts ! (length ts div 2) \<le> sort (t # take 10 ts) ! (length (t # take 10 ts) div 2)"
proof -
  define m where "m = sort ts ! (length ts div 2)"
  let ?us = "t # take 10 ts" and ?below = "filter (\<lambda>x. x < m)"
  have "length (?below ts) \<le> length ts div 2"
    using sort_below_iff[of "length ts div 2" ts m] assms(1) by (simp add: m_def)
  moreover have "length (?below (take 10 ts)) \<le> length (?below ts)"
    by (metis append_take_drop_id filter_append length_append le_add1)
  ultimately have "length (?below ?us) \<le> length ts div 2"
    using assms(3) by (simp add: m_def)
  also have "\<dots> \<le> length ?us div 2"
    using assms(2) by (cases "length ts = 11") (simp_all add: min_def)
  finally show ?thesis
    using sort_below_iff[of "length ?us div 2" ?us m] by (simp add: m_def)
qed

lemma times_back_length: "times_back st n p = Some ts \<Longrightarrow> length ts \<le> n"
proof (induction n arbitrary: p ts)
  case (Suc n)
  then show ?case
    by (cases p) (auto simp: bind_eq_Some_conv)
qed simp

lemma times_back_11:
  "times_back st 11 (Some p) = do { b \<leftarrow> st p; ts \<leftarrow> times_back st 10 (pprev b); Some (GetBlockTime b # ts) }"
  using times_back.simps(3)[of st 10 p] by simp

lemma median_mono_prev:
  assumes "times_rule st" "st p = Some b" "pprev b = Some q"
    and "GetMedianTimePast st q = Some s" "GetMedianTimePast st p = Some t"
  shows "s \<le> t"
proof -
  obtain ts where ts: "times_back st 11 (Some q) = Some ts" "s = sort ts ! (length ts div 2)"
    using assms(4) by (auto simp: GetMedianTimePast_def bind_eq_Some_conv)
  have "times_back st 10 (Some q) = Some (take 10 ts)"
    using times_back_take[OF ts(1), of 10] by simp
  then have "times_back st 11 (Some p) = Some (GetBlockTime b # take 10 ts)"
    using assms(2,3) by (simp add: times_back_11)
  then have t: "t = sort (GetBlockTime b # take 10 ts) ! (length (GetBlockTime b # take 10 ts) div 2)"
    using assms(5) unfolding GetMedianTimePast_def by (simp del: length_Cons)
  have "ts \<noteq> []"
    using ts(1) by (auto simp: times_back_11 bind_eq_Some_conv)
  moreover have "s < GetBlockTime b"
    using assms by (simp add: times_rule_def)
  ultimately show ?thesis
    using median_step[of ts "GetBlockTime b"] times_back_length[OF ts(1)] ts(2) t by simp
qed

section \<open>The states as a function of the path\<close>

text \<open>
  What the deployment rules say, on the path to a block and without caches: the median time at the last block of
  a period and the number of its blocks that signal decide the state of the next period.
\<close>

fun bip9 :: "checker \<Rightarrow> (nat \<Rightarrow> int) \<Rightarrow> (nat \<Rightarrow> int) \<Rightarrow> nat \<Rightarrow> ThresholdState" where
  "bip9 K mtp count 0 = THRESHOLD_DEFINED"
| "bip9 K mtp count (Suc k) =
     (case bip9 K mtp count k of
        THRESHOLD_DEFINED \<Rightarrow>
          if mtp k \<ge> EndTime K then THRESHOLD_FAILED
          else if mtp k \<ge> BeginTime K then THRESHOLD_STARTED else THRESHOLD_DEFINED
      | THRESHOLD_STARTED \<Rightarrow>
          if mtp k \<ge> EndTime K then THRESHOLD_FAILED
          else if count k \<ge> Threshold K then THRESHOLD_LOCKED_IN else THRESHOLD_STARTED
      | THRESHOLD_LOCKED_IN \<Rightarrow> THRESHOLD_ACTIVE
      | s \<Rightarrow> s)"

definition entry_at :: "index_store \<Rightarrow> ptr \<Rightarrow> nat \<Rightarrow> CBlockIndex option" where
  "entry_at st p h = ancestor_at st p h \<bind> st"

definition mtp_at :: "index_store \<Rightarrow> ptr \<Rightarrow> nat \<Rightarrow> int" where
  "mtp_at st p h = (case ancestor_at st p h \<bind> GetMedianTimePast st of None \<Rightarrow> 0 | Some t \<Rightarrow> t)"

definition signalling :: "index_store \<Rightarrow> checker \<Rightarrow> ptr \<Rightarrow> nat set \<Rightarrow> int" where
  "signalling st K p hs = int (card {h \<in> hs. \<exists>b. entry_at st p h = Some b \<and> Condition K b})"

definition period_len :: "checker \<Rightarrow> nat" where
  "period_len K = nat (Period K)"

definition path_mtp :: "index_store \<Rightarrow> checker \<Rightarrow> ptr \<Rightarrow> nat \<Rightarrow> int" where
  "path_mtp st K p j = mtp_at st p (period_len K * Suc j - 1)"

definition path_count :: "index_store \<Rightarrow> checker \<Rightarrow> ptr \<Rightarrow> nat \<Rightarrow> int" where
  "path_count st K p j = signalling st K p {period_len K * j..<period_len K * Suc j}"

definition periods :: "index_store \<Rightarrow> checker \<Rightarrow> ptr \<Rightarrow> nat" where
  "periods st K p = (height_at st p + 1) div period_len K"

definition path_state :: "index_store \<Rightarrow> checker \<Rightarrow> ptr option \<Rightarrow> ThresholdState" where
  "path_state st K pp = (case pp of None \<Rightarrow> THRESHOLD_DEFINED | Some p \<Rightarrow> bip9 K (path_mtp st K p) (path_count st K p) (periods st K p))"

lemma bip9_cong:
  assumes "\<And>j. j < k \<Longrightarrow> m j = m' j \<and> c j = c' j"
  shows "bip9 K m c k = bip9 K m' c' k"
  using assms by (induction k) (auto split: ThresholdState.splits)

text \<open>States are ordered as the enumeration lists them; a deployment only moves forward in this order.\<close>

fun state_rank :: "ThresholdState \<Rightarrow> nat" where
  "state_rank THRESHOLD_DEFINED = 0"
| "state_rank THRESHOLD_STARTED = 1"
| "state_rank THRESHOLD_LOCKED_IN = 2"
| "state_rank THRESHOLD_ACTIVE = 3"
| "state_rank THRESHOLD_FAILED = 4"

lemma state_rank_inject [simp]: "state_rank s = state_rank t \<longleftrightarrow> s = t"
  by (cases s; cases t) simp_all

instantiation ThresholdState :: linorder
begin

definition less_eq_ThresholdState :: "ThresholdState \<Rightarrow> ThresholdState \<Rightarrow> bool" where
  "s \<le> t \<longleftrightarrow> state_rank s \<le> state_rank t"

definition less_ThresholdState :: "ThresholdState \<Rightarrow> ThresholdState \<Rightarrow> bool" where
  "s < t \<longleftrightarrow> state_rank s < state_rank t"

instance
  by standard (auto simp: less_eq_ThresholdState_def less_ThresholdState_def)

end

lemma bip9_step: "bip9 K m c k \<le> bip9 K m c (Suc k)"
  by (cases "bip9 K m c k") (auto simp: less_eq_ThresholdState_def)

lemma bip9_mono: "i \<le> j \<Longrightarrow> bip9 K m c i \<le> bip9 K m c j"
  by (rule lift_Suc_mono_le[of "bip9 K m c"]) (rule bip9_step)

text \<open>Before the start time nothing happens; a deployment past its timeout is settled.\<close>

lemma bip9_defined:
  "BeginTime K \<le> EndTime K \<Longrightarrow> (\<And>j. j < k \<Longrightarrow> m j < BeginTime K) \<Longrightarrow> bip9 K m c k = THRESHOLD_DEFINED"
  by (induction k) (fastforce simp: not_le)+

lemma bip9_settled_stays:
  "bip9 K m c k = s \<Longrightarrow> s = THRESHOLD_ACTIVE \<or> s = THRESHOLD_FAILED \<Longrightarrow> bip9 K m c (k + n) = s"
  by (induction n) auto

lemma bip9_timeout: "m k \<ge> EndTime K \<Longrightarrow> bip9 K m c (Suc k) \<in> {THRESHOLD_ACTIVE, THRESHOLD_FAILED}"
  by (auto split: ThresholdState.splits)

lemma bip9_not_failed: "(\<And>j. j < k \<Longrightarrow> m j < EndTime K) \<Longrightarrow> bip9 K m c k \<noteq> THRESHOLD_FAILED"
proof (induction k)
  case (Suc k)
  then have "bip9 K m c k \<noteq> THRESHOLD_FAILED" "m k < EndTime K"
    by simp_all
  then show ?case
    by (cases "bip9 K m c k") auto
qed simp

lemma bip9_started:
  "bip9 K m c k = THRESHOLD_STARTED \<Longrightarrow> (\<And>i j. i \<le> j \<Longrightarrow> j < k \<Longrightarrow> m i \<le> m j) \<Longrightarrow> 0 < k \<and> BeginTime K \<le> m (k - 1)"
proof (induction k)
  case (Suc k)
  consider "bip9 K m c k = THRESHOLD_DEFINED" "m k \<ge> BeginTime K" | "bip9 K m c k = THRESHOLD_STARTED"
    using Suc.prems(1) by (auto split: ThresholdState.splits if_splits)
  then show ?case
  proof cases
    case 2
    then have "0 < k \<and> BeginTime K \<le> m (k - 1)"
      by (rule Suc.IH) (simp add: Suc.prems(2))
    then show ?thesis
      using Suc.prems(2)[of "k - 1" k] by simp
  qed simp
qed simp

lemma bip9_locked_in:
  "bip9 K m c k = THRESHOLD_LOCKED_IN \<Longrightarrow> (\<And>i j. i \<le> j \<Longrightarrow> j < k \<Longrightarrow> m i \<le> m j) \<Longrightarrow>
   \<exists>j. 0 < j \<and> k = Suc j \<and> BeginTime K \<le> m (j - 1) \<and> m j < EndTime K \<and> Threshold K \<le> c j"
  using bip9_started[of K m c "k - 1"] by (cases k) (auto split: ThresholdState.splits if_splits)

lemma bip9_active_iff:
  assumes mono: "\<And>i j. i \<le> j \<Longrightarrow> j < k \<Longrightarrow> m i \<le> m j"
  shows "bip9 K m c k = THRESHOLD_ACTIVE \<longleftrightarrow>
    (\<exists>j. 0 < j \<and> j + 2 \<le> k \<and> BeginTime K \<le> m (j - 1) \<and> m j < EndTime K \<and> Threshold K \<le> c j)"
proof
  show "bip9 K m c k = THRESHOLD_ACTIVE \<Longrightarrow>
    \<exists>j. 0 < j \<and> j + 2 \<le> k \<and> BeginTime K \<le> m (j - 1) \<and> m j < EndTime K \<and> Threshold K \<le> c j"
    using mono
  proof (induction k)
    case (Suc k)
    consider "bip9 K m c k = THRESHOLD_ACTIVE" | "bip9 K m c k = THRESHOLD_LOCKED_IN"
      using Suc.prems(1) by (auto split: ThresholdState.splits if_splits)
    then show ?case
    proof cases
      case 1
      from Suc.IH[OF this] Suc.prems(2) show ?thesis
        by (meson le_SucI less_SucI)
    next
      case 2
      from bip9_locked_in[OF this] Suc.prems(2) show ?thesis
        by (metis add_2_eq_Suc' less_SucI order_refl)
    qed
  qed simp
next
  assume "\<exists>j. 0 < j \<and> j + 2 \<le> k \<and> BeginTime K \<le> m (j - 1) \<and> m j < EndTime K \<and> Threshold K \<le> c j"
  then obtain j where j: "0 < j" "j + 2 \<le> k" "BeginTime K \<le> m (j - 1)" "m j < EndTime K" "Threshold K \<le> c j"
    by blast
  have early: "m i < EndTime K" if "i \<le> j" for i
    using mono[of i j] that j by simp
  have "bip9 K m c j \<noteq> THRESHOLD_FAILED"
    by (rule bip9_not_failed) (simp add: early)
  moreover have "bip9 K m c j \<noteq> THRESHOLD_DEFINED"
    using j early[of "j - 1"] by (cases j) (auto split: ThresholdState.splits)
  ultimately have "bip9 K m c (Suc (Suc j)) = THRESHOLD_ACTIVE"
    using j(4,5) by (cases "bip9 K m c j") auto
  moreover obtain n where "k = Suc (Suc j) + n"
    using j(2) by (auto simp: le_iff_add)
  ultimately show "bip9 K m c k = THRESHOLD_ACTIVE"
    using bip9_settled_stays by blast
qed

section \<open>States along a path\<close>

definition vb_ok :: "index_store \<Rightarrow> checker \<Rightarrow> bool" where
  "vb_ok st K \<longleftrightarrow> wf_store st \<and> times_rule st \<and> 0 < Period K \<and> BeginTime K \<le> EndTime K"

lemma vb_okD:
  assumes "vb_ok st K"
  shows "wf_store st" "times_rule st" "0 < Period K" "BeginTime K \<le> EndTime K" "0 < period_len K" "Period K = int (period_len K)"
  using assms by (auto simp: vb_ok_def period_len_def)

text \<open>The state that holds after \<open>k\<close> periods on the path to \<open>p\<close>, and the last block of these periods.\<close>

definition state_at :: "index_store \<Rightarrow> checker \<Rightarrow> ptr \<Rightarrow> nat \<Rightarrow> ThresholdState" where
  "state_at st K p k = bip9 K (path_mtp st K p) (path_count st K p) k"

definition parent_at :: "index_store \<Rightarrow> checker \<Rightarrow> ptr \<Rightarrow> nat \<Rightarrow> ptr option" where
  "parent_at st K p k = (if k = 0 then None else ancestor_at st p (period_len K * k - 1))"

lemma entry_at_trans:
  assumes "wf_store st" "st p = Some b" "ancestor_at st p h = Some q" "k \<le> h"
  shows "entry_at st q k = entry_at st p k" "mtp_at st q k = mtp_at st p k"
  using ancestor_at_trans[OF assms] by (simp_all add: entry_at_def mtp_at_def)

lemma state_at_trans:
  assumes "vb_ok st K" "st p = Some b" "ancestor_at st p h = Some q" "period_len K * k \<le> Suc h"
  shows "state_at st K q k = state_at st K p k"
  unfolding state_at_def
proof (rule bip9_cong)
  fix j
  assume "j < k"
  then have "period_len K * Suc j \<le> period_len K * k"
    by (intro mult_le_mono2) simp
  then have le: "period_len K * Suc j \<le> Suc h"
    using assms(4) by simp
  note same = entry_at_trans[OF vb_okD(1)[OF assms(1)] assms(2,3)]
  have "path_mtp st K q j = path_mtp st K p j"
    unfolding path_mtp_def by (rule same) (use le vb_okD(5)[OF assms(1)] in simp)
  moreover have "path_count st K q j = path_count st K p j"
    unfolding path_count_def signalling_def using same(1) le by (intro arg_cong[of _ _ "\<lambda>x. int (card x)"]) auto
  ultimately show "path_mtp st K q j = path_mtp st K p j \<and> path_count st K q j = path_count st K p j"
    by simp
qed

lemma periods_le: "period_len K * periods st K p \<le> Suc (height_at st p)"
  by (simp add: periods_def)

lemma parent_at_exists:
  assumes "vb_ok st K" "st p = Some b" "Suc k \<le> periods st K p"
  obtains q c where "parent_at st K p (Suc k) = Some q" "st q = Some c" "nHeight c = int (period_len K * Suc k) - 1"
    "height_at st q = period_len K * Suc k - 1" "periods st K q = Suc k" "ancestor_at st p (period_len K * Suc k - 1) = Some q"
proof -
  note ok = vb_okD[OF assms(1)]
  have pos: "0 < period_len K * Suc k"
    using ok(5) by simp
  have "period_len K * Suc k \<le> period_len K * periods st K p"
    using assms(3) by (rule mult_le_mono2)
  then have "period_len K * Suc k - 1 \<le> nat (nHeight b)"
    using periods_le[of K st p] by (simp add: height_at_eq[of st p b, OF assms(2)])
  then obtain q c where q: "ancestor_at st p (period_len K * Suc k - 1) = Some q" "st q = Some c"
    "nHeight c = int (period_len K * Suc k - 1)" "height_at st q = period_len K * Suc k - 1"
    by (rule ancestor_at_exists[OF ok(1) assms(2)])
  moreover have "periods st K q = Suc k"
    using ok(5) pos q(4) by (simp add: periods_def del: mult_Suc_right)
  moreover have "int (period_len K * Suc k - 1) = int (period_len K * Suc k) - 1"
    using pos by (simp add: of_nat_diff del: mult_Suc_right)
  ultimately show thesis
    using that by (simp add: parent_at_def del: mult_Suc_right)
qed

lemma path_state_parent:
  assumes "vb_ok st K" "st p = Some b" "k \<le> periods st K p"
  shows "path_state st K (parent_at st K p k) = state_at st K p k"
proof (cases k)
  case 0
  then show ?thesis
    by (simp add: parent_at_def path_state_def state_at_def)
next
  case (Suc j)
  obtain q where q: "parent_at st K p k = Some q" "periods st K q = k" "ancestor_at st p (period_len K * k - 1) = Some q"
    using parent_at_exists[OF assms(1,2)] assms(3) Suc by metis
  then have "path_state st K (parent_at st K p k) = state_at st K q k"
    by (simp add: path_state_def state_at_def)
  then show ?thesis
    using state_at_trans[OF assms(1,2) q(3), of k] by simp
qed

lemma path_state_self: "path_state st K (Some p) = state_at st K p (periods st K p)"
  by (simp add: path_state_def state_at_def)

lemma GetAncestor_parent:
  assumes "vb_ok st K" "st p = Some b"
  shows "GetAncestor st p (int (period_len K * k) - 1) = Some (parent_at st K p k)"
proof (cases "period_len K * k")
  case 0
  then show ?thesis
    using vb_okD[OF assms(1)] by (simp add: GetAncestor_correct[OF vb_okD(1)[OF assms(1)] assms(2)] parent_at_def)
next
  case (Suc n)
  then have "k \<noteq> 0"
    by (cases k) auto
  then show ?thesis
    by (simp add: GetAncestor_correct[OF vb_okD(1)[OF assms(1)] assms(2)] parent_at_def Suc)
qed

lemma period_parent_eq:
  assumes "vb_ok st K" "st p = Some b"
  shows "period_parent st K (Some p) = Some (parent_at st K p (periods st K p))"
proof -
  note ok = vb_okD[OF assms(1)]
  define P h where "P = period_len K" and "h = nat (nHeight b)"
  have h: "nHeight b = int h" "height_at st p = h"
    using wf_height[OF ok(1) assms(2)] by (simp_all add: h_def height_at_eq[of st p b, OF assms(2)])
  have "(int h + 1) smod int P = int (Suc h mod P)"
    by (simp add: signed_modulo_int_def signed_divide_int_def zmod_int minus_div_mult_eq_mod sgn_if add.commute)
  moreover have "int h - int (Suc h mod P) = int (P * (Suc h div P)) - 1"
    using mult_div_mod_eq[of P "Suc h"] by linarith
  ultimately have "period_parent st K (Some p) = GetAncestor st p (int (P * (Suc h div P)) - 1)"
    using ok assms(2) by (simp add: period_parent_def h P_def)
  also have "\<dots> = Some (parent_at st K p (Suc h div P))"
    unfolding P_def by (rule GetAncestor_parent[OF assms])
  finally show ?thesis
    by (simp add: periods_def h P_def)
qed

lemma previous_parent:
  assumes "vb_ok st K" "st p = Some b" "Suc k \<le> periods st K p" "parent_at st K p (Suc k) = Some q" "st q = Some c"
  shows "GetAncestor st q (nHeight c - Period K) = Some (parent_at st K p k)"
proof -
  note ok = vb_okD[OF assms(1)]
  have q: "nHeight c = int (period_len K * Suc k) - 1" "ancestor_at st p (period_len K * Suc k - 1) = Some q"
    using parent_at_exists[OF assms(1-3)] assms(4,5) by (metis option.inject)+
  have "nHeight c - Period K = int (period_len K * k) - 1"
    using q(1) ok(6) by (simp add: algebra_simps)
  moreover have "parent_at st K q k = parent_at st K p k"
    unfolding parent_at_def using ancestor_at_trans[OF ok(1) assms(2) q(2), of "period_len K * k - 1"] by simp
  ultimately show ?thesis
    using GetAncestor_parent[OF assms(1,5), of k] by simp
qed

lemma count_signals_eq:
  assumes "wf_store st"
  shows "st p = Some b \<Longrightarrow> n \<le> Suc (nat (nHeight b)) \<Longrightarrow>
    count_signals st K n (Some p) = Some (signalling st K p {Suc (nat (nHeight b)) - n..<Suc (nat (nHeight b))})"
proof (induction n arbitrary: p b)
  case 0
  then show ?case
    by (simp add: signalling_def)
next
  case (Suc n)
  let ?h = "nat (nHeight b)"
  let ?S = "\<lambda>a. {x \<in> {a..<?h}. \<exists>d. entry_at st p x = Some d \<and> Condition K d}"
  have self: "entry_at st p ?h = Some b"
    using ancestor_at_self[of st p b] Suc.prems by (simp add: entry_at_def)
  have "{x \<in> {?h - n..<Suc ?h}. \<exists>d. entry_at st p x = Some d \<and> Condition K d}
      = ?S (?h - n) \<union> (if Condition K b then {?h} else {})"
    using self Suc.prems(2) by (auto simp: less_Suc_eq)
  then have split: "signalling st K p {?h - n..<Suc ?h} = int (card (?S (?h - n))) + (if Condition K b then 1 else 0)"
    by (simp add: signalling_def)
  from assms Suc.prems(1) show ?case
  proof (cases rule: wf_prev)
    case 1
    then show ?thesis
      using Suc.prems split by simp
  next
    case (2 q c)
    then have h: "?h = Suc (nat (nHeight c))"
      by simp
    have "entry_at st q x = entry_at st p x" if "x < ?h" for x
      using ancestor_at_prev[OF assms Suc.prems(1) 2(1) that] by (simp add: entry_at_def)
    then have "{x \<in> {?h - n..<?h}. \<exists>d. entry_at st q x = Some d \<and> Condition K d} = ?S (?h - n)"
      by auto
    then show ?thesis
      using Suc.IH[OF 2(2)] Suc.prems 2 h split by (simp add: signalling_def)
  qed
qed

lemma path_mtp_parent:
  assumes "vb_ok st K" "st p = Some b" "Suc k \<le> periods st K p" "parent_at st K p (Suc k) = Some q"
  shows "GetMedianTimePast st q = Some (path_mtp st K p k)"
proof -
  obtain c where c: "st q = Some c" "ancestor_at st p (period_len K * Suc k - 1) = Some q"
    using parent_at_exists[OF assms(1-3)] assms(4) by (metis option.inject)
  then obtain t where "GetMedianTimePast st q = Some t"
    using GetMedianTimePast_some[OF vb_okD(1)[OF assms(1)]] by blast
  then show ?thesis
    using c(2) by (simp add: path_mtp_def mtp_at_def)
qed

lemma path_count_parent:
  assumes "vb_ok st K" "st p = Some b" "Suc k \<le> periods st K p" "parent_at st K p (Suc k) = Some q"
  shows "count_signals st K (nat (Period K)) (Some q) = Some (path_count st K p k)"
proof -
  note ok = vb_okD[OF assms(1)]
  obtain c where c: "st q = Some c" "height_at st q = period_len K * Suc k - 1" "ancestor_at st p (period_len K * Suc k - 1) = Some q"
    using parent_at_exists[OF assms(1-3)] assms(4) by (metis option.inject)
  have h: "Suc (nat (nHeight c)) = period_len K * Suc k"
    using c(2) ok(5) by (simp add: height_at_eq[of st q c, OF c(1)])
  have "count_signals st K (period_len K) (Some q) = Some (signalling st K q {period_len K * k..<period_len K * Suc k})"
    using count_signals_eq[OF ok(1) c(1), of "period_len K" K] h by simp
  also have "signalling st K q {period_len K * k..<period_len K * Suc k} = path_count st K p k"
    unfolding path_count_def signalling_def using entry_at_trans(1)[OF ok(1) assms(2) c(3)]
    by (intro arg_cong[of _ _ "\<lambda>x. int (card x)"]) auto
  finally show ?thesis
    by (simp add: period_len_def)
qed

lemma state_next_eq:
  assumes "vb_ok st K" "st p = Some b" "Suc k \<le> periods st K p" "parent_at st K p (Suc k) = Some q"
  shows "state_next st K (state_at st K p k) q = Some (state_at st K p (Suc k))"
  using path_mtp_parent[OF assms] path_count_parent[OF assms]
  by (auto simp: state_next_def state_at_def split: ThresholdState.splits)

lemma mtp_at_mono:
  assumes "wf_store st" "times_rule st" "st p = Some b"
  shows "h \<le> h' \<Longrightarrow> h' \<le> nat (nHeight b) \<Longrightarrow> mtp_at st p h \<le> mtp_at st p h'"
proof (induction h' rule: dec_induct)
  case (step n)
  obtain q c where q: "ancestor_at st p (Suc n) = Some q" "st q = Some c" "nHeight c = int (Suc n)"
    using ancestor_at_exists[OF assms(1,3), of "Suc n"] step.prems by metis
  from assms(1) q(2) obtain r d where r: "pprev c = Some r" "st r = Some d"
    by (cases rule: wf_prev) (use q(3) in auto)
  have "ancestor_at st q n = ancestor_at st p n"
    using ancestor_at_trans[OF assms(1,3) q(1)] by simp
  moreover have "height_at st q = Suc n"
    unfolding height_at_eq[of st q c, OF q(2)] q(3) nat_int ..
  then have "ancestor_at st q n = Some r"
    using q(2) r by (simp add: ancestor_at_def Suc_diff_le)
  ultimately have n: "ancestor_at st p n = Some r"
    by simp
  obtain s t where st: "GetMedianTimePast st r = Some s" "GetMedianTimePast st q = Some t"
    using GetMedianTimePast_some[OF assms(1)] q(2) r(2) by metis
  then have "s \<le> t"
    by (rule median_mono_prev[OF assms(2) q(2) r(1)])
  then have "mtp_at st p n \<le> mtp_at st p (Suc n)"
    using n q(1) st by (simp add: mtp_at_def)
  then show ?case
    using step by simp
qed simp

lemma path_mtp_mono:
  assumes "vb_ok st K" "st p = Some b" "i \<le> j" "j < periods st K p"
  shows "path_mtp st K p i \<le> path_mtp st K p j"
  unfolding path_mtp_def
proof (rule mtp_at_mono[OF vb_okD(1,2)[OF assms(1)] assms(2)])
  show "period_len K * Suc i - 1 \<le> period_len K * Suc j - 1"
    using assms(3) by (intro diff_le_mono mult_le_mono2) simp
  have "period_len K * Suc j \<le> period_len K * periods st K p"
    using assms(4) by (intro mult_le_mono2) simp
  then show "period_len K * Suc j - 1 \<le> nat (nHeight b)"
    using periods_le[of K st p] by (simp add: height_at_eq[of st p b, OF assms(2)])
qed

section \<open>The cache\<close>

definition cache_ok :: "index_store \<Rightarrow> checker \<Rightarrow> ThresholdConditionCache \<Rightarrow> bool" where
  "cache_ok st K cache \<longleftrightarrow> (\<forall>pp s. cache pp = Some s \<longrightarrow> s = path_state st K pp
     \<and> (\<forall>q. pp = Some q \<longrightarrow> st q \<noteq> None \<and> period_len K dvd Suc (height_at st q)))"

lemma cache_ok_empty [simp]: "cache_ok st K Map.empty"
  by (simp add: cache_ok_def)

lemma cache_ok_parent:
  assumes "vb_ok st K" "st p = Some b" "k \<le> periods st K p" "cache_ok st K cache"
  shows "cache_ok st K (cache(parent_at st K p k \<mapsto> state_at st K p k))"
proof -
  have "st q \<noteq> None \<and> period_len K dvd Suc (height_at st q)" if "parent_at st K p k = Some q" for q
  proof (cases k)
    case (Suc j)
    obtain q' c where "parent_at st K p (Suc j) = Some q'" "st q' = Some c" "height_at st q' = period_len K * Suc j - 1"
      using parent_at_exists[OF assms(1,2), of j] assms(3) Suc by metis
    then have "st q = Some c" "height_at st q = period_len K * k - 1"
      using that Suc by simp_all
    moreover have "Suc (period_len K * k - 1) = period_len K * k"
      using vb_okD(5)[OF assms(1)] Suc by simp
    ultimately show ?thesis
      by simp
  qed (use that in \<open>simp add: parent_at_def\<close>)
  then show ?thesis
    using assms(4) path_state_parent[OF assms(1-3)] by (auto simp: cache_ok_def)
qed

lemma cache_ok_value:
  assumes "vb_ok st K" "st p = Some b" "k \<le> periods st K p" "cache_ok st K cache" "cache (parent_at st K p k) = Some s"
  shows "s = state_at st K p k"
  using assms(4,5) path_state_parent[OF assms(1-3)] by (simp add: cache_ok_def)

definition todo_from :: "index_store \<Rightarrow> checker \<Rightarrow> ptr \<Rightarrow> nat \<Rightarrow> nat \<Rightarrow> ptr list" where
  "todo_from st K p j k = map (\<lambda>i. the (parent_at st K p (Suc i))) [j..<k]"

lemma state_before_start:
  assumes "vb_ok st K" "st p = Some b" "Suc k \<le> periods st K p" "path_mtp st K p k < BeginTime K"
  shows "state_at st K p (Suc k) = THRESHOLD_DEFINED"
  unfolding state_at_def
proof (rule bip9_defined[OF vb_okD(4)[OF assms(1)]])
  fix j
  assume "j < Suc k"
  then show "path_mtp st K p j < BeginTime K"
    using path_mtp_mono[OF assms(1,2), of j k] assms(3,4) by simp
qed

lemma find_known_eq:
  assumes "vb_ok st K" "st p = Some b" "cache_ok st K cache"
  shows "k \<le> periods st K p \<Longrightarrow> k < n \<Longrightarrow> \<exists>j cache'. j \<le> k
    \<and> find_known st K n (parent_at st K p k) cache todo = Some (parent_at st K p j, cache', todo_from st K p j k @ todo)
    \<and> cache_ok st K cache' \<and> cache' (parent_at st K p j) = Some (state_at st K p j)"
proof (induction k arbitrary: n todo)
  case 0
  show ?case
  proof (cases "cache None")
    case None
    obtain m where "n = Suc m"
      using 0 by (cases n) auto
    then have "find_known st K n None cache todo = Some (None, cache(None \<mapsto> THRESHOLD_DEFINED), todo)"
      using None by (simp add: find_known.simps)
    then show ?thesis
      using cache_ok_parent[OF assms(1,2) _ assms(3), of 0] by (simp add: parent_at_def todo_from_def state_at_def)
  next
    case (Some s)
    then show ?thesis
      using assms(3) cache_ok_value[OF assms(1,2) _ assms(3), of 0 s]
      by (simp add: find_known.simps parent_at_def todo_from_def)
  qed
next
  case (Suc k)
  obtain q c where q: "parent_at st K p (Suc k) = Some q" "st q = Some c"
    using parent_at_exists[OF assms(1,2) Suc.prems(1)] by metis
  show ?case
  proof (cases "cache (Some q)")
    case None
    obtain m where m: "n = Suc m" "k < m"
      using Suc.prems by (cases n) auto
    have mtp: "GetMedianTimePast st q = Some (path_mtp st K p k)"
      by (rule path_mtp_parent[OF assms(1,2) Suc.prems(1) q(1)])
    show ?thesis
    proof (cases "path_mtp st K p k < BeginTime K")
      case True
      then have "find_known st K n (Some q) cache todo = Some (Some q, cache(Some q \<mapsto> THRESHOLD_DEFINED), todo)"
        using None m mtp by (simp add: find_known.simps)
      then show ?thesis
        using cache_ok_parent[OF assms(1,2) Suc.prems(1) assms(3)] state_before_start[OF assms(1,2) Suc.prems(1) True] q(1)
        by (intro exI[of _ "Suc k"]) (simp add: todo_from_def)
    next
      case False
      then have "find_known st K n (Some q) cache todo = find_known st K m (parent_at st K p k) cache (q # todo)"
        using None m mtp q previous_parent[OF assms(1,2) Suc.prems(1) q] by (simp add: find_known.simps[of st K "Suc m"])
      moreover obtain j cache' where j: "j \<le> k"
        "find_known st K m (parent_at st K p k) cache (q # todo) = Some (parent_at st K p j, cache', todo_from st K p j k @ q # todo)"
        "cache_ok st K cache'" "cache' (parent_at st K p j) = Some (state_at st K p j)"
        using Suc.IH[of m "q # todo"] Suc.prems(1) m(2) by auto
      moreover have "todo_from st K p j (Suc k) = todo_from st K p j k @ [q]"
        using j(1) q(1) by (simp add: todo_from_def)
      ultimately show ?thesis
        using q(1) by (intro exI[of _ j] exI[of _ cache']) simp
    qed
  next
    case (Some s)
    then show ?thesis
      using assms(3) cache_ok_value[OF assms(1,2) Suc.prems(1) assms(3), of s] q
      by (intro exI[of _ "Suc k"] exI[of _ cache]) (simp add: find_known.simps todo_from_def)
  qed
qed

lemma compute_forward_eq:
  assumes "vb_ok st K" "st p = Some b"
  shows "k \<le> periods st K p \<Longrightarrow> j \<le> k \<Longrightarrow> cache_ok st K cache \<Longrightarrow> \<exists>cache'.
    compute_forward st K (todo_from st K p j k) (state_at st K p j) cache = Some (state_at st K p k, cache') \<and> cache_ok st K cache'"
proof (induction "k - j" arbitrary: j cache)
  case 0
  then show ?case
    by (simp add: todo_from_def)
next
  case (Suc n)
  then have j: "Suc j \<le> periods st K p" "j < k"
    by simp_all
  obtain q where q: "parent_at st K p (Suc j) = Some q"
    using parent_at_exists[OF assms j(1)] by metis
  have "todo_from st K p j k = q # todo_from st K p (Suc j) k"
    using j(2) q by (simp add: todo_from_def upt_conv_Cons)
  moreover have "cache_ok st K (cache(Some q \<mapsto> state_at st K p (Suc j)))"
    using cache_ok_parent[OF assms j(1) Suc.prems(3)] q by simp
  ultimately show ?case
    using Suc.hyps(1)[of "Suc j" "cache(Some q \<mapsto> state_at st K p (Suc j))"] Suc.hyps(2) Suc.prems(1) j(2)
      state_next_eq[OF assms j(1) q] by simp
qed

lemma GetStateFor_eq:
  assumes "vb_ok st K" "cache_ok st K cache" "pp = None \<or> (\<exists>p b. pp = Some p \<and> st p = Some b)"
  shows "\<exists>cache'. GetStateFor st K pp cache = Some (path_state st K pp, cache') \<and> cache_ok st K cache'"
proof (cases pp)
  case None
  have "cache None = None \<or> cache None = Some (path_state st K None)"
    using assms(2) by (cases "cache None") (simp_all add: cache_ok_def)
  then have "cache None = None \<or> cache None = Some THRESHOLD_DEFINED"
    by (simp add: path_state_def)
  moreover have "cache_ok st K (cache(None \<mapsto> THRESHOLD_DEFINED))"
    using assms(2) by (auto simp: cache_ok_def path_state_def)
  ultimately show ?thesis
    using None assms(2) by (auto simp: GetStateFor_def period_parent_def walk_bound_def find_known.simps path_state_def)
next
  case (Some p)
  then obtain b where b: "st p = Some b"
    using assms(3) by auto
  let ?k = "periods st K p" and ?n = "walk_bound st (parent_at st K p (periods st K p))"
  have "?k < ?n"
  proof (cases ?k)
    case (Suc j)
    then obtain q where q: "parent_at st K p ?k = Some q" "height_at st q = period_len K * ?k - 1"
      using parent_at_exists[OF assms(1) b, of j] by auto
    have "1 * ?k \<le> period_len K * ?k"
      using vb_okD(5)[OF assms(1)] by (intro mult_le_mono1) simp
    then show ?thesis
      unfolding walk_bound_def q(1) option.case q(2) by linarith
  qed (simp add: walk_bound_def parent_at_def)
  then obtain j cache1 where j: "j \<le> ?k"
    "find_known st K ?n (parent_at st K p ?k) cache [] = Some (parent_at st K p j, cache1, todo_from st K p j ?k)"
    "cache_ok st K cache1" "cache1 (parent_at st K p j) = Some (state_at st K p j)"
    using find_known_eq[OF assms(1) b assms(2), of ?k ?n "[]"] by auto
  obtain cache' where "compute_forward st K (todo_from st K p j ?k) (state_at st K p j) cache1 = Some (state_at st K p ?k, cache')"
    "cache_ok st K cache'"
    using compute_forward_eq[OF assms(1) b _ j(1,3)] by auto
  then show ?thesis
    using j period_parent_eq[OF assms(1) b] by (simp add: GetStateFor_def Some path_state_self)
qed

section \<open>Growing trees\<close>

text \<open>The conditions look at the version only, and the tree keeps the versions of its entries.\<close>

definition cond_ok :: "checker \<Rightarrow> bool" where
  "cond_ok K \<longleftrightarrow> (\<forall>b s. Condition K (b\<lparr>nStatus := s\<rparr>) = Condition K b)"

lemma ancestor_at_sub_eq:
  assumes "wf_store st" "sub_tree st st'" "st p = Some b"
  shows "ancestor_at st' p h = ancestor_at st p h"
proof (cases "h \<le> nat (nHeight b)")
  case True
  then obtain q where "ancestor_at st p h = Some q"
    using ancestor_at_exists[OF assms(1,3)] by metis
  then show ?thesis
    using ancestor_at_sub[OF assms(2,3)] by simp
next
  case False
  then show ?thesis
    using height_at_sub[OF assms(2,3)] by (simp add: ancestor_at_def height_at_eq[of st p b, OF assms(3)])
qed

lemma ancestor_at_store:
  assumes "wf_store st" "st p = Some b" "ancestor_at st p h = Some q"
  obtains c where "st q = Some c"
proof -
  have "h \<le> nat (nHeight b)"
    using assms(2,3) by (auto simp: ancestor_at_def height_at_def split: if_splits)
  then show thesis
    using ancestor_at_exists[OF assms(1,2), of h] assms(3) that by (metis option.inject)
qed

lemma path_state_sub:
  assumes "wf_store st" "sub_tree st st'" "st p = Some b" "cond_ok K"
  shows "path_state st' K (Some p) = path_state st K (Some p)"
proof -
  note same = ancestor_at_sub_eq[OF assms(1-3)]
  have mtp: "mtp_at st' p h = mtp_at st p h" for h
  proof (cases "ancestor_at st p h")
    case (Some q)
    then obtain t where "GetMedianTimePast st q = Some t"
      using ancestor_at_store[OF assms(1,3)] GetMedianTimePast_some[OF assms(1)] by metis
    then show ?thesis
      using GetMedianTimePast_sub[OF assms(2)] Some by (simp add: mtp_at_def same)
  qed (simp add: mtp_at_def same)
  have "(\<exists>d. entry_at st' p h = Some d \<and> Condition K d) \<longleftrightarrow> (\<exists>d. entry_at st p h = Some d \<and> Condition K d)" for h
  proof (cases "ancestor_at st p h")
    case (Some q)
    then obtain c where c: "st q = Some c"
      by (rule ancestor_at_store[OF assms(1,3)])
    then show ?thesis
      using sub_treeD[OF assms(2) c] assms(4) Some by (auto simp: entry_at_def same cond_ok_def)
  qed (simp add: entry_at_def same)
  then have "path_count st' K p = path_count st K p" "path_mtp st' K p = path_mtp st K p"
    by (simp_all add: fun_eq_iff path_count_def signalling_def path_mtp_def mtp)
  then show ?thesis
    using height_at_sub[OF assms(2,3)] by (simp add: path_state_def periods_def)
qed

lemma cache_okD:
  assumes "cache_ok st K cache" "cache pp = Some s"
  shows "s = path_state st K pp" "pp = Some q \<Longrightarrow> \<exists>b. st q = Some b" "pp = Some q \<Longrightarrow> period_len K dvd Suc (height_at st q)"
  using assms unfolding cache_ok_def by blast+

lemma cache_ok_sub:
  assumes "wf_store st" "sub_tree st st'" "cond_ok K" "cache_ok st K cache"
  shows "cache_ok st' K cache"
  unfolding cache_ok_def
proof (intro allI impI)
  fix pp s
  assume c: "cache pp = Some s"
  show "s = path_state st' K pp \<and> (\<forall>q. pp = Some q \<longrightarrow> st' q \<noteq> None \<and> period_len K dvd Suc (height_at st' q))"
  proof (cases pp)
    case None
    then show ?thesis
      using cache_okD(1)[OF assms(4) c] by (simp add: path_state_def)
  next
    case (Some q)
    then obtain b where b: "st q = Some b"
      using cache_okD(2)[OF assms(4) c] by blast
    then have "st' q \<noteq> None"
      using sub_treeD[OF assms(2) b] by auto
    then show ?thesis
      using cache_okD[OF assms(4) c] Some path_state_sub[OF assms(1,2) b assms(3)] height_at_sub[OF assms(2) b] by simp
  qed
qed

section \<open>When a state began\<close>

lemma since_loop_eq:
  assumes "vb_ok st K" "st p = Some b"
  shows "k < periods st K p \<Longrightarrow> k < n \<Longrightarrow> parent_at st K p (Suc k) = Some q \<Longrightarrow> state_at st K p (Suc k) = s \<Longrightarrow> cache_ok st K cache \<Longrightarrow>
    s \<noteq> THRESHOLD_DEFINED \<Longrightarrow> \<exists>j r cache'. j \<le> k \<and> since_loop st K n s q (parent_at st K p k) cache = Some (r, cache') \<and> cache_ok st K cache'
      \<and> parent_at st K p (Suc j) = Some r \<and> (\<forall>i\<in>{Suc j..Suc k}. state_at st K p i = s) \<and> state_at st K p j \<noteq> s"
proof (induction k arbitrary: n q cache)
  case 0
  then show ?case
    by (intro exI[of _ 0] exI[of _ q] exI[of _ cache]) (auto simp: since_loop.simps parent_at_def state_at_def)
next
  case (Suc k)
  obtain m where m: "n = Suc m" "k < m"
    using Suc.prems(2) by (cases n) auto
  have k: "Suc k \<le> periods st K p"
    using Suc.prems(1) by simp
  obtain r c where r: "parent_at st K p (Suc k) = Some r" "st r = Some c"
    using parent_at_exists[OF assms k] by metis
  obtain cache1 where g: "GetStateFor st K (Some r) cache = Some (state_at st K p (Suc k), cache1)" "cache_ok st K cache1"
    using GetStateFor_eq[OF assms(1) Suc.prems(5), of "Some r"] path_state_parent[OF assms k] r by auto
  show ?case
  proof (cases "state_at st K p (Suc k) = s")
    case True
    have "since_loop st K n s q (parent_at st K p (Suc k)) cache = since_loop st K m s r (parent_at st K p k) cache1"
      using m(1) g(1) r True previous_parent[OF assms k r] by (simp add: since_loop.simps[of st K "Suc m"])
    moreover obtain j r' cache' where j: "j \<le> k" "since_loop st K m s r (parent_at st K p k) cache1 = Some (r', cache')"
      "cache_ok st K cache'" "parent_at st K p (Suc j) = Some r'" "\<forall>i\<in>{Suc j..Suc k}. state_at st K p i = s" "state_at st K p j \<noteq> s"
      using Suc.IH[OF _ m(2) r(1) True g(2) Suc.prems(6)] k by auto
    moreover have "\<forall>i\<in>{Suc j..Suc (Suc k)}. state_at st K p i = s"
      using j(5) Suc.prems(4) by (auto simp: le_Suc_eq)
    ultimately show ?thesis
      by (intro exI[of _ j] exI[of _ r'] exI[of _ cache']) simp
  next
    case False
    then have "since_loop st K n s q (parent_at st K p (Suc k)) cache = Some (q, cache1)"
      using m(1) g(1) r by (simp add: since_loop.simps[of st K "Suc m"])
    then show ?thesis
      using False g(2) Suc.prems(3,4) by (intro exI[of _ "Suc k"] exI[of _ q] exI[of _ cache1]) auto
  qed
qed

lemma GetStateSinceHeightFor_eq:
  assumes "vb_ok st K" "st p = Some b" "cache_ok st K cache"
  shows "\<exists>j cache'. GetStateSinceHeightFor st K (Some p) cache = Some (int (period_len K * j), cache') \<and> cache_ok st K cache'
    \<and> j \<le> periods st K p \<and> state_at st K p j = path_state st K (Some p) \<and> (\<forall>i<j. state_at st K p i \<noteq> path_state st K (Some p))"
proof -
  let ?s = "path_state st K (Some p)"
  obtain cache1 where g: "GetStateFor st K (Some p) cache = Some (?s, cache1)" "cache_ok st K cache1"
    using GetStateFor_eq[OF assms(1,3), of "Some p"] assms(2) by auto
  show ?thesis
  proof (cases "?s = THRESHOLD_DEFINED")
    case True
    then show ?thesis
      using g by (intro exI[of _ 0] exI[of _ cache1]) (simp add: GetStateSinceHeightFor_def state_at_def)
  next
    case False
    then obtain k where k: "periods st K p = Suc k"
      using path_state_self[of st K p] by (cases "periods st K p") (auto simp: state_at_def)
    then have le: "Suc k \<le> periods st K p"
      by simp
    obtain q c where q: "parent_at st K p (Suc k) = Some q" "st q = Some c" "nHeight c = int (period_len K * Suc k) - 1"
      "height_at st q = period_len K * Suc k - 1"
      using parent_at_exists[OF assms(1,2) le] by metis
    define N where "N = period_len K * Suc k"
    have "1 * Suc k \<le> N"
      unfolding N_def using vb_okD(5)[OF assms(1)] by (intro mult_le_mono1) simp
    then have n: "k < nat (nHeight c) + 1"
      using q(4) unfolding height_at_eq[of st q c, OF q(2)] N_def[symmetric] by simp
    have s: "state_at st K p (Suc k) = ?s" "k < periods st K p"
      using path_state_self[of st K p] k by simp_all
    obtain j r cache' where j: "j \<le> k" "since_loop st K (nat (nHeight c) + 1) ?s q (parent_at st K p k) cache1 = Some (r, cache')"
      "cache_ok st K cache'" "parent_at st K p (Suc j) = Some r" "\<forall>i\<in>{Suc j..Suc k}. state_at st K p i = ?s" "state_at st K p j \<noteq> ?s"
      using since_loop_eq[OF assms(1,2) s(2) n q(1) s(1) g(2) False] by blast
    obtain d where d: "st r = Some d" "nHeight d = int (period_len K * Suc j) - 1"
      using parent_at_exists[OF assms(1,2), of j] j(1,4) k by (metis Suc_le_mono option.inject)
    have "GetStateSinceHeightFor st K (Some p) cache = Some (int (period_len K * Suc j), cache')"
      using g(1) False period_parent_eq[OF assms(1,2)] k q previous_parent[OF assms(1,2) le q(1,2)] j(2) d
      by (simp add: GetStateSinceHeightFor_def)
    moreover have "state_at st K p i \<noteq> ?s" if "i < Suc j" for i
    proof -
      have "state_at st K p i \<le> state_at st K p j" "state_at st K p j \<le> state_at st K p (Suc j)"
        using that by (simp_all add: state_at_def bip9_mono del: bip9.simps)
      moreover have "state_at st K p (Suc j) = ?s"
        using j(1,5) by simp
      ultimately show ?thesis
        using j(6) by auto
    qed
    ultimately show ?thesis
      using j k by (intro exI[of _ "Suc j"] exI[of _ cache']) simp
  qed
qed

section \<open>The statistics of the current period\<close>

lemma count_down_to_eq:
  assumes "wf_store st"
  shows "st p = Some b \<Longrightarrow> h \<le> nat (nHeight b) \<Longrightarrow> nat (nHeight b) - h \<le> n \<Longrightarrow>
    count_down_to st K n (int h) (Some p) = count_signals st K (nat (nHeight b) - h) (Some p)"
proof (induction n arbitrary: p b)
  case 0
  then show ?case
    using wf_height[OF assms 0(1)] by (simp add: count_down_to.simps)
next
  case (Suc n)
  show ?case
  proof (cases "nat (nHeight b) = h")
    case True
    then show ?thesis
      using Suc.prems(1) wf_height[OF assms Suc.prems(1)] by (auto simp: count_down_to.simps)
  next
    case False
    from assms Suc.prems(1) obtain q c where q: "pprev b = Some q" "st q = Some c" "nHeight b = nHeight c + 1" "nHeight c \<ge> 0"
      by (cases rule: wf_prev) (use False Suc.prems(2) in auto)
    then have "nat (nHeight b) - h = Suc (nat (nHeight c) - h)" "int h \<noteq> nHeight b"
      using False Suc.prems(2) by auto
    then show ?thesis
      using Suc.IH[OF q(2)] q Suc.prems False by (subst count_down_to.simps) auto
  qed
qed

lemma GetStateStatisticsFor_eq:
  assumes "vb_ok st K" "st p = Some b"
  shows "GetStateStatisticsFor st K (Some p) =
    (if periods st K p = 0 then None
     else let begin = period_len K * periods st K p; elapsed = int (Suc (height_at st p) - begin);
              count = signalling st K p {begin..<Suc (height_at st p)} in
       Some \<lparr>stats_period = Period K, stats_threshold = Threshold K, stats_elapsed = elapsed, stats_count = count,
         stats_possible = (Period K - Threshold K \<ge> elapsed - count)\<rparr>)"
proof (cases "periods st K p")
  case 0
  then show ?thesis
    using assms(2) period_parent_eq[OF assms] by (simp add: GetStateStatisticsFor_def parent_at_def)
next
  case (Suc k)
  note ok = vb_okD[OF assms(1)]
  define N h where "N = period_len K * Suc k" and "h = nat (nHeight b)"
  have k: "Suc k \<le> periods st K p"
    using Suc by simp
  obtain q c where q: "parent_at st K p (Suc k) = Some q" "st q = Some c" "nHeight c = int N - 1"
    unfolding N_def by (rule parent_at_exists[OF assms k])
  have h: "nHeight b = int h" "height_at st p = h"
    using wf_height[OF ok(1) assms(2)] by (simp_all add: h_def height_at_eq[of st p b, OF assms(2)])
  have N: "0 < N" "N \<le> Suc h"
    using periods_le[of K st p] ok(5) by (simp_all add: N_def Suc h del: mult_Suc_right)
  have c: "nHeight c = int (N - 1)"
    using q(3) N(1) by simp
  have "count_down_to st K (h + 1) (nHeight c) (Some p) = count_signals st K (Suc h - N) (Some p)"
    using count_down_to_eq[OF ok(1) assms(2), of "N - 1" "h + 1" K] N unfolding c h_def[symmetric] by simp
  also have "\<dots> = Some (signalling st K p {N..<Suc h})"
    using count_signals_eq[OF ok(1) assms(2), of "Suc h - N" K] N(2) by (simp add: h_def)
  finally have "count_down_to st K (h + 1) (nHeight c) (Some p) = Some (signalling st K p {N..<Suc h})" .
  moreover have "period_len K * periods st K p = N"
    by (simp only: N_def Suc)
  moreover have "int h - (int N - 1) = int (Suc h - N)"
    using N(2) by simp
  ultimately show ?thesis
    using assms(2) period_parent_eq[OF assms] Suc q h by (simp add: GetStateStatisticsFor_def Let_def)
qed

section \<open>Deployments in a running node\<close>

definition vb_params_ok :: "vb_params \<Rightarrow> bool" where
  "vb_params_ok P \<longleftrightarrow> (\<forall>pos. 0 < Period (VersionBitsConditionChecker P pos)
     \<and> BeginTime (VersionBitsConditionChecker P pos) \<le> EndTime (VersionBitsConditionChecker P pos))"

lemma main_vb_ok: "vb_params_ok main_vb"
proof -
  have "0 < Period (VersionBitsConditionChecker main_vb pos)
     \<and> BeginTime (VersionBitsConditionChecker main_vb pos) \<le> EndTime (VersionBitsConditionChecker main_vb pos)" for pos
    by (cases pos) (simp_all add: VersionBitsConditionChecker_def main_vb_def main_deployment_def)
  then show ?thesis
    by (simp add: vb_params_ok_def)
qed

text \<open>Headers arrive, blocks turn out to be invalid or are reconsidered, and the states are asked for with the one global cache.\<close>

inductive vb_run :: "header_env \<Rightarrow> vb_params \<Rightarrow> block_tree \<Rightarrow> VersionBitsCache \<Rightarrow> bool" for E P where
  start: "vb_run E P empty_tree VersionBitsCache_Clear"
| accept: "vb_run E P bt cache \<Longrightarrow>
    AcceptBlockHeader (E\<lparr>nAdjustedTime := t, HasConflictingChainLock := c\<rparr>) bt block = (r, bt') \<Longrightarrow> vb_run E P bt' cache"
| invalid: "vb_run E P bt cache \<Longrightarrow> InvalidBlockFound chain bt p corruption = Some bt' \<Longrightarrow> vb_run E P bt' cache"
| reset: "vb_run E P bt cache \<Longrightarrow> ResetBlockFailureFlags chain bt p = Some bt' \<Longrightarrow> vb_run E P bt' cache"
| ask: "vb_run E P bt cache \<Longrightarrow> pp = None \<or> (\<exists>p b. pp = Some p \<and> bt_store bt p = Some b) \<Longrightarrow>
    VersionBitsState (bt_store bt) P pp pos cache = Some (s, cache') \<Longrightarrow> vb_run E P bt cache'"
| since: "vb_run E P bt cache \<Longrightarrow> bt_store bt p = Some b \<Longrightarrow>
    VersionBitsStateSinceHeight (bt_store bt) P (Some p) pos cache = Some (h, cache') \<Longrightarrow> vb_run E P bt cache'"
| clear: "vb_run E P bt cache \<Longrightarrow> vb_run E P bt VersionBitsCache_Clear"

lemma vb_run_headers: "vb_run E P bt cache \<Longrightarrow> header_run E bt"
  by (induction rule: vb_run.induct) (auto intro: header_run.intros)

lemma cond_ok_version_bits [simp]: "cond_ok (VersionBitsConditionChecker P pos)"
  by (simp add: cond_ok_def VersionBitsConditionChecker_def Let_def)

lemma header_run_vb_ok:
  assumes "header_run E bt" "genesis_ok E" "vb_params_ok P"
  shows "vb_ok (bt_store bt) (VersionBitsConditionChecker P pos)"
  using header_run_inv[OF assms(1,2)] header_run_times[OF assms(1,2)] assms(3)
  by (simp add: vb_ok_def headers_inv_def tree_inv_def vb_params_ok_def)

lemma accept_sub:
  assumes "header_run E bt" "genesis_ok E"
    and "AcceptBlockHeader (E\<lparr>nAdjustedTime := t, HasConflictingChainLock := c\<rparr>) bt block = (r, bt')"
  shows "sub_tree (bt_store bt) (bt_store bt')"
proof -
  have inv: "headers_inv False bt"
    using header_run_inv[OF assms(1,2)] .
  have "bt_store bt (bt_next bt) = None"
    using inv by (auto simp: headers_inv_def tree_inv_def)
  then show ?thesis
    using AcceptBlockHeader_cases[OF inv _ assms(3)] assms(2)
    by (auto simp: marked_def checked_entry_def adds_entry_def sub_tree_fresh)
qed

definition caches_ok :: "index_store \<Rightarrow> vb_params \<Rightarrow> VersionBitsCache \<Rightarrow> bool" where
  "caches_ok st P cache \<longleftrightarrow> (\<forall>pos. cache_ok st (VersionBitsConditionChecker P pos) (cache pos))"

lemma caches_okD: "caches_ok st P cache \<Longrightarrow> cache_ok st (VersionBitsConditionChecker P pos) (cache pos)"
  by (simp add: caches_ok_def)

lemma caches_ok_update:
  "caches_ok st P cache \<Longrightarrow> cache_ok st (VersionBitsConditionChecker P pos) c \<Longrightarrow> caches_ok st P (cache(pos := c))"
  by (simp add: caches_ok_def)

lemma vb_run_caches: "vb_run E P bt cache \<Longrightarrow> genesis_ok E \<Longrightarrow> vb_params_ok P \<Longrightarrow> caches_ok (bt_store bt) P cache"
proof (induction rule: vb_run.induct)
  case start
  then show ?case
    by (simp add: caches_ok_def VersionBitsCache_Clear_def)
next
  case (accept bt cache c t block r bt')
  note run = vb_run_headers[OF accept.hyps(1)]
  then show ?case
    using accept.IH[OF accept.prems] accept_sub[OF run accept.prems(1) accept.hyps(2)]
      header_run_inv[OF run accept.prems(1)] cache_ok_sub
    by (auto simp: caches_ok_def headers_inv_def tree_inv_def)
next
  case (invalid bt cache chain p corruption bt')
  then show ?case
    using header_run_inv[OF vb_run_headers[OF invalid.hyps(1)] invalid.prems(1)] InvalidBlockFound_marked[OF invalid.hyps(2)] cache_ok_sub
    by (auto simp: caches_ok_def headers_inv_def tree_inv_def marked_def)
next
  case (reset bt cache chain p bt')
  then show ?case
    using header_run_inv[OF vb_run_headers[OF reset.hyps(1)] reset.prems(1)] ResetBlockFailureFlags_marked[OF reset.hyps(2)] cache_ok_sub
    by (auto simp: caches_ok_def headers_inv_def tree_inv_def marked_def)
next
  case (ask bt cache pp pos s cache')
  let ?K = "VersionBitsConditionChecker P pos"
  obtain c where "GetStateFor (bt_store bt) ?K pp (cache pos) = Some (path_state (bt_store bt) ?K pp, c)" "cache_ok (bt_store bt) ?K c"
    using GetStateFor_eq[OF header_run_vb_ok[OF vb_run_headers[OF ask.hyps(1)] ask.prems] caches_okD[OF ask.IH[OF ask.prems]] ask.hyps(2)]
    by blast
  then show ?case
    using ask.IH[OF ask.prems] ask.hyps(3) by (auto simp: VersionBitsState_def intro: caches_ok_update)
next
  case (since bt cache p b pos h cache')
  let ?K = "VersionBitsConditionChecker P pos"
  obtain h' c where "GetStateSinceHeightFor (bt_store bt) ?K (Some p) (cache pos) = Some (h', c)" "cache_ok (bt_store bt) ?K c"
    using GetStateSinceHeightFor_eq[OF header_run_vb_ok[OF vb_run_headers[OF since.hyps(1)] since.prems] since.hyps(2)
        caches_okD[OF since.IH[OF since.prems]]]
    by blast
  then show ?case
    using since.IH[OF since.prems] since.hyps(3) by (auto simp: VersionBitsStateSinceHeight_def intro: caches_ok_update)
next
  case (clear bt cache)
  then show ?case
    by (simp add: caches_ok_def VersionBitsCache_Clear_def)
qed

lemma VersionBitsState_eq:
  assumes "vb_run E P bt cache" "genesis_ok E" "vb_params_ok P" "bt_store bt p = Some b"
  shows "\<exists>cache'. VersionBitsState (bt_store bt) P (Some p) pos cache =
    Some (path_state (bt_store bt) (VersionBitsConditionChecker P pos) (Some p), cache')"
proof -
  let ?K = "VersionBitsConditionChecker P pos"
  obtain c where "GetStateFor (bt_store bt) ?K (Some p) (cache pos) = Some (path_state (bt_store bt) ?K (Some p), c)"
    using GetStateFor_eq[OF header_run_vb_ok[OF vb_run_headers[OF assms(1)] assms(2,3)] caches_okD[OF vb_run_caches[OF assms(1-3)]],
        of "Some p" pos] assms(4) by blast
  then show ?thesis
    by (simp add: VersionBitsState_def)
qed

text \<open>C16. Whatever headers have arrived and whatever was asked before, \<open>VersionBitsState\<close> returns, and with the state that the
  deployment rules prescribe on the path to the block: the cache, the walk back to a known state and the
  shortcut for blocks before the start time change nothing.\<close>

theorem version_bits_follow_the_rules:
  assumes "vb_run E P bt cache" "genesis_ok E" "vb_params_ok P" "bt_store bt p = Some b"
  shows "map_option fst (VersionBitsState (bt_store bt) P (Some p) pos cache) =
    Some (let K = VersionBitsConditionChecker P pos in
      bip9 K (path_mtp (bt_store bt) K p) (path_count (bt_store bt) K p) (Suc (nat (nHeight b)) div nat (Period K)))"
  using VersionBitsState_eq[OF assms, of pos] height_at_eq[of "bt_store bt" p b, OF assms(4)]
  by (auto simp: path_state_def periods_def period_len_def Let_def)

text \<open>The state for a block and for one of its descendants.\<close>

lemma ancestor_state:
  assumes "vb_ok st K" "st p = Some b" "ancestor_at st p h = Some q"
  shows "path_state st K (Some q) = state_at st K p (periods st K q)" "periods st K q \<le> periods st K p" "height_at st q = h"
proof -
  note ok = vb_okD[OF assms(1)]
  have le: "h \<le> nat (nHeight b)"
    using assms(2,3) by (auto simp: ancestor_at_def height_at_def split: if_splits)
  then obtain q' where "ancestor_at st p h = Some q'" "height_at st q' = h"
    by (rule ancestor_at_exists[OF ok(1) assms(2)])
  then show h: "height_at st q = h"
    using assms(3) by simp
  then show "periods st K q \<le> periods st K p"
    using le by (simp add: periods_def height_at_eq[of st p b, OF assms(2)] div_le_mono)
  have "period_len K * periods st K q \<le> Suc h"
    using periods_le[of K st q] by (simp add: h)
  then show "path_state st K (Some q) = state_at st K p (periods st K q)"
    using state_at_trans[OF assms] by (simp add: path_state_self)
qed

text \<open>C28. A deployment does not hang: it is active for a block exactly if, at least two periods before, in some period whose
  predecessor ended after the start time and that ended before the timeout, enough blocks signalled; once a
  completed period ends after the timeout it is active or failed; locked in becomes active with the next
  period; and active and failed stay.\<close>

theorem deployments_settle:
  assumes "vb_run E P bt cache" "genesis_ok E" "vb_params_ok P" "bt_store bt p = Some b" "ancestor_at (bt_store bt) p h = Some q"
    and "VersionBitsState (bt_store bt) P (Some p) pos cache = Some (s, cache')"
    and "VersionBitsState (bt_store bt) P (Some q) pos cache = Some (r, cache'')"
    and "K = VersionBitsConditionChecker P pos" "N = nat (Period K)" "k = Suc (nat (nHeight b)) div N"
  shows "(s = THRESHOLD_ACTIVE \<longleftrightarrow> (\<exists>j. 0 < j \<and> j + 2 \<le> k \<and> BeginTime K \<le> mtp_at (bt_store bt) p (N * j - 1)
        \<and> mtp_at (bt_store bt) p (N * Suc j - 1) < EndTime K \<and> Threshold K \<le> signalling (bt_store bt) K p {N * j..<N * Suc j}))
    \<and> (0 < k \<and> EndTime K \<le> mtp_at (bt_store bt) p (N * k - 1) \<longrightarrow> s = THRESHOLD_ACTIVE \<or> s = THRESHOLD_FAILED)
    \<and> (r = THRESHOLD_LOCKED_IN \<and> Suc h div N < k \<longrightarrow> s = THRESHOLD_ACTIVE)
    \<and> (r = THRESHOLD_ACTIVE \<or> r = THRESHOLD_FAILED \<longrightarrow> s = r)"
proof -
  let ?st = "bt_store bt" and ?m = "path_mtp (bt_store bt) K p" and ?c = "path_count (bt_store bt) K p"
  have ok: "vb_ok ?st K"
    unfolding assms(8) by (rule header_run_vb_ok[OF vb_run_headers[OF assms(1)] assms(2,3)])
  obtain d where d: "?st q = Some d"
    using ancestor_at_store[OF vb_okD(1)[OF ok] assms(4,5)] by blast
  note anc = ancestor_state[OF ok assms(4,5)]
  have k: "periods ?st K p = k" "periods ?st K q = Suc h div N" and N: "period_len K = N"
    using anc(3) by (simp_all add: periods_def period_len_def assms(9,10) height_at_eq[of ?st p b, OF assms(4)])
  have s: "s = bip9 K ?m ?c k"
    using VersionBitsState_eq[OF assms(1-4), of pos] assms(6,8) k(1) by (auto simp: path_state_self state_at_def)
  have r: "r = bip9 K ?m ?c (Suc h div N)"
    using VersionBitsState_eq[OF assms(1-3) d, of pos] assms(7,8) anc(1) k(2) by (auto simp: state_at_def)
  have le: "Suc h div N \<le> k"
    using anc(2) k by simp
  have act: "s = THRESHOLD_ACTIVE \<longleftrightarrow> (\<exists>j. 0 < j \<and> j + 2 \<le> k \<and> BeginTime K \<le> ?m (j - 1) \<and> ?m j < EndTime K \<and> Threshold K \<le> ?c j)"
    unfolding s by (rule bip9_active_iff) (use path_mtp_mono[OF ok assms(4)] k(1) in auto)
  have m: "?m (j - 1) = mtp_at ?st p (N * j - 1)" if "0 < j" for j
    using that by (simp add: path_mtp_def N)
  have "(0 < j \<and> j + 2 \<le> k \<and> BeginTime K \<le> ?m (j - 1) \<and> ?m j < EndTime K \<and> Threshold K \<le> ?c j)
      = (0 < j \<and> j + 2 \<le> k \<and> BeginTime K \<le> mtp_at ?st p (N * j - 1)
        \<and> mtp_at ?st p (N * Suc j - 1) < EndTime K \<and> Threshold K \<le> signalling ?st K p {N * j..<N * Suc j})" for j
    using m[of j] unfolding path_mtp_def[of _ _ _ j] path_count_def N by (intro conj_cong refl) simp_all
  note act = act[unfolded this]
  have settled: "s = THRESHOLD_ACTIVE \<or> s = THRESHOLD_FAILED" if "0 < k \<and> EndTime K \<le> mtp_at ?st p (N * k - 1)"
    using bip9_timeout[of K ?m "k - 1" ?c] that m[of k] unfolding s by (simp del: bip9.simps)
  have locked: "s = THRESHOLD_ACTIVE" if l: "r = THRESHOLD_LOCKED_IN \<and> Suc h div N < k"
  proof -
    obtain n where "k = Suc (Suc h div N + n)"
      using less_imp_Suc_add[OF conjunct2[OF l]] by blast
    then show ?thesis
      using bip9_settled_stays[of K ?m ?c "Suc (Suc h div N)" THRESHOLD_ACTIVE n] l unfolding s r by simp
  qed
  have "s = r" if "r = THRESHOLD_ACTIVE \<or> r = THRESHOLD_FAILED"
    using bip9_settled_stays[of K ?m ?c "Suc h div N" r "k - Suc h div N"] that le unfolding s r by simp
  with act settled locked show ?thesis
    by blast
qed

text \<open>\<open>VersionBitsStateSinceHeight\<close> returns the height of the first block, on the path to the given one, that has the state
  of the block after it.\<close>

theorem state_since_is_first_height:
  assumes "vb_run E P bt cache" "genesis_ok E" "vb_params_ok P" "bt_store bt p = Some b"
    and "K = VersionBitsConditionChecker P pos"
  shows "\<exists>j cache'. VersionBitsStateSinceHeight (bt_store bt) P (Some p) pos cache = Some (Period K * int j, cache')
    \<and> Period K * int j \<le> nHeight b + 1
    \<and> map_option fst (VersionBitsState (bt_store bt) P (Some p) pos cache) = Some (bip9 K (path_mtp (bt_store bt) K p) (path_count (bt_store bt) K p) j)
    \<and> (\<forall>i<j. bip9 K (path_mtp (bt_store bt) K p) (path_count (bt_store bt) K p) i \<noteq> bip9 K (path_mtp (bt_store bt) K p) (path_count (bt_store bt) K p) j)"
proof -
  let ?st = "bt_store bt"
  have ok: "vb_ok ?st K" and c: "cache_ok ?st K (cache pos)"
    unfolding assms(5) by (rule header_run_vb_ok[OF vb_run_headers[OF assms(1)] assms(2,3)]) (rule caches_okD[OF vb_run_caches[OF assms(1-3)]])
  obtain j c' where j: "GetStateSinceHeightFor ?st K (Some p) (cache pos) = Some (int (period_len K * j), c')" "j \<le> periods ?st K p"
    "state_at ?st K p j = path_state ?st K (Some p)" "\<forall>i<j. state_at ?st K p i \<noteq> path_state ?st K (Some p)"
    using GetStateSinceHeightFor_eq[OF ok assms(4) c] by blast
  have P: "Period K = int (period_len K)" "nHeight b \<ge> 0"
    using vb_okD[OF ok] wf_height[OF vb_okD(1)[OF ok] assms(4)] by simp_all
  have "period_len K * j \<le> Suc (height_at ?st p)"
    by (rule le_trans[OF mult_le_mono2[OF j(2)] periods_le])
  then have "int (period_len K * j) \<le> int (Suc (nat (nHeight b)))"
    unfolding height_at_eq[of ?st p b, OF assms(4)] by (rule of_nat_mono)
  then have "Period K * int j \<le> nHeight b + 1"
    using P by simp
  moreover have "VersionBitsStateSinceHeight ?st P (Some p) pos cache = Some (Period K * int j, cache(pos := c'))"
    using j(1) P(1) unfolding VersionBitsStateSinceHeight_def assms(5) by simp
  moreover have "map_option fst (VersionBitsState ?st P (Some p) pos cache) = Some (state_at ?st K p j)"
    using VersionBitsState_eq[OF assms(1-4), of pos] j(3) unfolding assms(5) by auto
  ultimately show ?thesis
    using j(4) unfolding state_at_def[symmetric] j(3) by (intro exI[of _ j] exI[of _ "cache(pos := c')"]) (simp add: j(3))
qed

text \<open>\<open>VersionBitsStatistics\<close> follows a null pointer exactly if the block is in the first period and not its last; that
  never happens for a deployment that has started. Otherwise it counts the blocks of the current period so far and
  those that signal, and tells whether the threshold can still be reached.\<close>

theorem statistics_of_started_deployment:
  assumes "vb_run E P bt cache" "genesis_ok E" "vb_params_ok P" "bt_store bt p = Some b"
    and "K = VersionBitsConditionChecker P pos" "begin = nat (Period K) * (Suc (nat (nHeight b)) div nat (Period K))"
    and "elapsed = Suc (nat (nHeight b)) - begin" "count = signalling (bt_store bt) K p {begin..<Suc (nat (nHeight b))}"
  shows "(VersionBitsStatistics (bt_store bt) P (Some p) pos = None \<longleftrightarrow> nHeight b + 1 < Period K)
    \<and> (map_option fst (VersionBitsState (bt_store bt) P (Some p) pos cache) = Some THRESHOLD_STARTED \<longrightarrow> Period K \<le> nHeight b + 1)
    \<and> (Period K \<le> nHeight b + 1 \<longrightarrow> VersionBitsStatistics (bt_store bt) P (Some p) pos =
        Some \<lparr>stats_period = Period K, stats_threshold = Threshold K, stats_elapsed = int elapsed, stats_count = count,
          stats_possible = (Threshold K \<le> count + (Period K - int elapsed))\<rparr>)"
proof -
  let ?st = "bt_store bt"
  have ok: "vb_ok ?st K"
    unfolding assms(5) by (rule header_run_vb_ok[OF vb_run_headers[OF assms(1)] assms(2,3)])
  note P = vb_okD(5,6)[OF ok]
  have h: "height_at ?st p = nat (nHeight b)" "nHeight b \<ge> 0"
    using height_at_eq[of ?st p b, OF assms(4)] wf_height[OF vb_okD(1)[OF ok] assms(4)] by simp_all
  have zero: "periods ?st K p = 0 \<longleftrightarrow> nHeight b + 1 < Period K"
    using P h by (auto simp: periods_def div_eq_0_iff)
  have started: "periods ?st K p \<noteq> 0" if "path_state ?st K (Some p) = THRESHOLD_STARTED"
    using that by (cases "periods ?st K p") (simp_all add: path_state_def)
  have b: "begin = period_len K * periods ?st K p"
    by (simp add: assms(6) periods_def h period_len_def)
  have stat: "VersionBitsStatistics ?st P (Some p) pos =
    (if periods ?st K p = 0 then None
     else Some \<lparr>stats_period = Period K, stats_threshold = Threshold K, stats_elapsed = int elapsed, stats_count = count,
         stats_possible = (Period K - Threshold K \<ge> int elapsed - count)\<rparr>)"
    unfolding VersionBitsStatistics_def assms(5)[symmetric] GetStateStatisticsFor_eq[OF ok assms(4)] Let_def
    by (simp only: b[symmetric] h(1) assms(7)[symmetric] assms(8)[symmetric])
  moreover have "(Period K - Threshold K \<ge> int elapsed - count) = (Threshold K \<le> count + (Period K - int elapsed))"
    by linarith
  moreover have "map_option fst (VersionBitsState ?st P (Some p) pos cache) = Some (path_state ?st K (Some p))"
    using VersionBitsState_eq[OF assms(1-4), of pos] unfolding assms(5) by auto
  ultimately show ?thesis
    using zero started by auto
qed

section \<open>An example\<close>

text \<open>Periods of one block and a timeout before the first block: the deployments fail with the genesis block.\<close>

definition ex_vb :: vb_params where
  "ex_vb = \<lparr>vDeployments = (\<lambda>_. \<lparr>dep_bit = 0, nStartTime = 0, nTimeout = 1000, nWindowSize = 1, nThreshold = 1\<rparr>),
     nMinerConfirmationWindow = 2016, nRuleChangeActivationThreshold = 1916\<rparr>"

lemma ex_vb_ok: "vb_params_ok ex_vb"
  by (simp add: vb_params_ok_def ex_vb_def VersionBitsConditionChecker_def)

lemma ex_checker: "Period (VersionBitsConditionChecker ex_vb pos) = 1" "EndTime (VersionBitsConditionChecker ex_vb pos) = 1000"
  "BeginTime (VersionBitsConditionChecker ex_vb pos) = 0"
  by (simp_all add: ex_vb_def VersionBitsConditionChecker_def)

lemma ex_vb_run: "vb_run ex_net P ex_tree VersionBitsCache_Clear"
proof -
  have "AcceptBlockHeader (ex_net\<lparr>nAdjustedTime := nAdjustedTime ex_net, HasConflictingChainLock := HasConflictingChainLock ex_net\<rparr>)
      empty_tree ex_genesis = (fst (AcceptBlockHeader ex_net empty_tree ex_genesis), ex_tree)"
    by (simp add: ex_tree_def)
  then show ?thesis
    by (rule vb_run.accept[OF vb_run.start])
qed

lemma ex_genesis_entry:
  obtains b where "bt_store ex_tree 0 = Some b" "nHeight b = 0" "ancestor_at (bt_store ex_tree) 0 0 = Some 0"
    "mtp_at (bt_store ex_tree) 0 0 = 1651444200"
proof -
  obtain b where b: "bt_store ex_tree = [0 \<mapsto> b]" "pprev b = None" "nHeight b = 0" "nTime b = 1651444200"
    by (rule ex_tree_entries)
  then have "ancestor_at (bt_store ex_tree) 0 0 = Some 0"
    by (simp add: ancestor_at_def height_at_def)
  moreover have "mtp_at (bt_store ex_tree) 0 0 = 1651444200"
    unfolding mtp_at_def calculation by (simp add: b ex_median)
  ultimately show thesis
    using that b by simp
qed

theorem version_bits_follow_the_rules_witness:
  "map_option fst (VersionBitsState (bt_store ex_tree) ex_vb (Some 0) DEPLOYMENT_ASSETS VersionBitsCache_Clear) = Some THRESHOLD_FAILED"
proof -
  obtain b where b: "bt_store ex_tree 0 = Some b" "nHeight b = 0" "mtp_at (bt_store ex_tree) 0 0 = 1651444200"
    by (rule ex_genesis_entry)
  then show ?thesis
    using version_bits_follow_the_rules[OF ex_vb_run ex_genesis_ok ex_vb_ok b(1), of DEPLOYMENT_ASSETS]
    by (simp add: Let_def ex_checker path_mtp_def period_len_def)
qed

theorem deployments_settle_witness:
  "\<exists>s cache. VersionBitsState (bt_store ex_tree) ex_vb (Some 0) DEPLOYMENT_ASSETS VersionBitsCache_Clear = Some (s, cache)
     \<and> (s = THRESHOLD_ACTIVE \<or> s = THRESHOLD_FAILED)"
proof -
  obtain b where b: "bt_store ex_tree 0 = Some b" "nHeight b = 0" "ancestor_at (bt_store ex_tree) 0 0 = Some 0"
    "mtp_at (bt_store ex_tree) 0 0 = 1651444200"
    by (rule ex_genesis_entry)
  obtain s cache where s: "VersionBitsState (bt_store ex_tree) ex_vb (Some 0) DEPLOYMENT_ASSETS VersionBitsCache_Clear = Some (s, cache)"
    using VersionBitsState_eq[OF ex_vb_run ex_genesis_ok ex_vb_ok b(1)] by blast
  have "s = THRESHOLD_ACTIVE \<or> s = THRESHOLD_FAILED"
    using deployments_settle[OF ex_vb_run ex_genesis_ok ex_vb_ok b(1,3) s s refl refl refl] b(2,4) by (auto simp: ex_checker)
  then show ?thesis
    using s by blast
qed

theorem state_since_is_first_height_witness:
  "\<exists>cache. VersionBitsStateSinceHeight (bt_store ex_tree) ex_vb (Some 0) DEPLOYMENT_ASSETS VersionBitsCache_Clear = Some (1, cache)"
proof -
  obtain b where b: "bt_store ex_tree 0 = Some b" "nHeight b = 0" "mtp_at (bt_store ex_tree) 0 0 = 1651444200"
    by (rule ex_genesis_entry)
  define K where "K = VersionBitsConditionChecker ex_vb DEPLOYMENT_ASSETS"
  obtain j cache where j: "VersionBitsStateSinceHeight (bt_store ex_tree) ex_vb (Some 0) DEPLOYMENT_ASSETS VersionBitsCache_Clear = Some (int j, cache)"
    "int j \<le> 1" "map_option fst (VersionBitsState (bt_store ex_tree) ex_vb (Some 0) DEPLOYMENT_ASSETS VersionBitsCache_Clear) =
      Some (bip9 K (path_mtp (bt_store ex_tree) K 0) (path_count (bt_store ex_tree) K 0) j)"
    using state_since_is_first_height[OF ex_vb_run ex_genesis_ok ex_vb_ok b(1) K_def] b(2) by (auto simp: K_def ex_checker)
  have "path_state (bt_store ex_tree) K (Some 0) = THRESHOLD_FAILED"
    using b by (simp add: path_state_def periods_def period_len_def K_def ex_checker path_mtp_def height_at_def)
  then have "j \<noteq> 0"
    using j(3) VersionBitsState_eq[OF ex_vb_run ex_genesis_ok ex_vb_ok b(1), of DEPLOYMENT_ASSETS] by (cases j) (auto simp: K_def)
  then have "j = 1"
    using j(2) by simp
  then show ?thesis
    using j(1) by auto
qed

theorem statistics_of_started_deployment_witness:
  "VersionBitsStatistics (bt_store ex_tree) main_vb (Some 0) DEPLOYMENT_ASSETS = None
   \<and> (\<exists>stats. VersionBitsStatistics (bt_store ex_tree) ex_vb (Some 0) DEPLOYMENT_ASSETS = Some stats \<and> stats_elapsed stats = 0)"
proof -
  obtain b where b: "bt_store ex_tree 0 = Some b" "nHeight b = 0"
    by (rule ex_genesis_entry)
  have "Period (VersionBitsConditionChecker main_vb DEPLOYMENT_ASSETS) = 2016"
    by (simp add: VersionBitsConditionChecker_def main_vb_def main_deployment_def)
  then show ?thesis
    using statistics_of_started_deployment[OF ex_vb_run ex_genesis_ok main_vb_ok b(1) refl refl refl refl, of DEPLOYMENT_ASSETS]
      statistics_of_started_deployment[OF ex_vb_run ex_genesis_ok ex_vb_ok b(1) refl refl refl refl, of DEPLOYMENT_ASSETS] b(2)
    by (simp add: ex_checker)
qed

end
