(* ===== verification/BlockVersion.thy ===== *)
theory BlockVersion
  imports VersionBits AssetScripts
begin

text \<open>
  The version of a block that is being mined (\<^verbatim>\<open>ComputeBlockVersion\<close> of \<^verbatim>\<open>src/src/validation.cpp\<close>). The branch on
  the upgrade of smart nodes is empty in the code.
\<close>

definition all_deployments :: "DeploymentPos list" where
  "all_deployments = [DEPLOYMENT_TESTDUMMY, DEPLOYMENT_ASSETS, DEPLOYMENT_MSG_REST_ASSETS, DEPLOYMENT_TRANSFER_SCRIPT_SIZE,
     DEPLOYMENT_ENFORCE_VALUE, DEPLOYMENT_COINBASE_ASSETS, DEPLOYMENT_DIP0003]"

fun version_loop :: "index_store \<Rightarrow> vb_params \<Rightarrow> ptr option \<Rightarrow> DeploymentPos list \<Rightarrow> u32 \<Rightarrow> VersionBitsCache \<Rightarrow>
    (u32 \<times> VersionBitsCache) option" where
  "version_loop st P pindexPrev [] version cache = Some (version, cache)"
| "version_loop st P pindexPrev (pos # ps) version cache =
     do {
       (state, cache) \<leftarrow> VersionBitsState st P pindexPrev pos cache;
       version_loop st P pindexPrev ps
         (if state = THRESHOLD_LOCKED_IN \<or> state = THRESHOLD_STARTED then or version (VersionBitsMask P pos) else version) cache
     }"

definition ComputeBlockVersion :: "index_store \<Rightarrow> vb_params \<Rightarrow> ptr option \<Rightarrow> VersionBitsCache \<Rightarrow> (u32 \<times> VersionBitsCache) option" where
  "ComputeBlockVersion st P pindexPrev cache =
     version_loop st P pindexPrev all_deployments
       (if AreAssetsDeployed then VERSIONBITS_TOP_BITS_ASSETS else VERSIONBITS_TOP_BITS) cache"

section \<open>Which deployments a block signals\<close>

lemma mask_bit: "and (v :: u32) (push_bit n 1) \<noteq> 0 \<longleftrightarrow> bit v n"
  by (simp add: push_bit_of_1 and_exp_eq_0_iff_not_bit)

lemma mask_bits: "n < 32 \<Longrightarrow> bit (VersionBitsMask P pos) n \<longleftrightarrow> dep_bit (vDeployments P pos) = n"
  unfolding VersionBitsMask_def bit_push_bit_iff by (auto simp: bit_1_iff)

lemma version_condition:
  "Condition (VersionBitsConditionChecker P pos) block \<longleftrightarrow>
   and (bi_nVersion block) VERSIONBITS_TOP_MASK = VERSIONBITS_TOP_BITS \<and> bit (bi_nVersion block) (dep_bit (vDeployments P pos))"
  by (simp add: VersionBitsConditionChecker_def Let_def VersionBitsMask_def mask_bit del: push_bit_of_1)

lemma assets_bits: "bit (0x30000000 :: u32) n \<longleftrightarrow> n = 28 \<or> n = 29"
proof -
  have "(0x30000000 :: u32) = or (2 ^ 28) (2 ^ 29)"
    by simp
  then show ?thesis
    by (auto simp only: bit_or_iff bit_exp_iff) auto
qed

lemma top_bits:
  assumes "bit v 29" "\<not> bit v 30" "\<not> bit v 31"
  shows "and v VERSIONBITS_TOP_MASK = VERSIONBITS_TOP_BITS"
proof (rule bit_word_eqI)
  fix n
  assume "n < LENGTH(32)"
  have m: "VERSIONBITS_TOP_MASK = push_bit 29 (mask 3)" "VERSIONBITS_TOP_BITS = 2 ^ 29"
    by (simp_all add: VERSIONBITS_TOP_MASK_def VERSIONBITS_TOP_BITS_def mask_eq_decr_exp)
  have top: "bit VERSIONBITS_TOP_BITS n \<longleftrightarrow> n = 29"
    unfolding m(2) bit_exp_iff by auto
  have "29 \<le> n \<longleftrightarrow> n = 29 \<or> n = 30 \<or> n = 31"
    using \<open>n < LENGTH(32)\<close> by auto
  then show "bit (and v VERSIONBITS_TOP_MASK) n \<longleftrightarrow> bit VERSIONBITS_TOP_BITS n"
    using assms unfolding top m(1) by (auto simp: bit_and_iff bit_push_bit_iff bit_mask_iff)
qed

lemma version_loop_bits:
  assumes "vb_run E P bt cache0" "genesis_ok E" "vb_params_ok P" "bt_store bt p = Some b"
  shows "caches_ok (bt_store bt) P cache \<Longrightarrow> \<exists>v cache'. version_loop (bt_store bt) P (Some p) ps version cache = Some (v, cache')
    \<and> (\<forall>n<32. bit v n \<longleftrightarrow> bit version n \<or> (\<exists>pos\<in>set ps. dep_bit (vDeployments P pos) = n
        \<and> path_state (bt_store bt) (VersionBitsConditionChecker P pos) (Some p) \<in> {THRESHOLD_STARTED, THRESHOLD_LOCKED_IN}))"
proof (induction ps arbitrary: version cache)
  case (Cons pos ps)
  let ?K = "VersionBitsConditionChecker P pos"
  let ?s = "path_state (bt_store bt) ?K (Some p)"
  let ?v = "if ?s = THRESHOLD_LOCKED_IN \<or> ?s = THRESHOLD_STARTED then or version (VersionBitsMask P pos) else version"
  obtain c where c: "GetStateFor (bt_store bt) ?K (Some p) (cache pos) = Some (?s, c)" "cache_ok (bt_store bt) ?K c"
    using GetStateFor_eq[OF header_run_vb_ok[OF vb_run_headers[OF assms(1)] assms(2,3)] caches_okD[OF Cons.prems], of "Some p" pos] assms(4)
    by blast
  obtain v cache' where v: "version_loop (bt_store bt) P (Some p) ps ?v (cache(pos := c)) = Some (v, cache')"
    "\<forall>n<32. bit v n \<longleftrightarrow> bit ?v n \<or> (\<exists>pos\<in>set ps. dep_bit (vDeployments P pos) = n
        \<and> path_state (bt_store bt) (VersionBitsConditionChecker P pos) (Some p) \<in> {THRESHOLD_STARTED, THRESHOLD_LOCKED_IN})"
    using Cons.IH[OF caches_ok_update[OF Cons.prems c(2)], of ?v] by blast
  have "bit ?v n \<longleftrightarrow> bit version n \<or> dep_bit (vDeployments P pos) = n \<and> ?s \<in> {THRESHOLD_STARTED, THRESHOLD_LOCKED_IN}" if "n < 32" for n
    using that by (auto simp: bit_or_iff mask_bits)
  then show ?case
    using v c(1) by (auto simp: VersionBitsState_def)
qed simp

text \<open>On the main network a new block signals exactly the deployments that have started or are locked in at its parent, with
  one exception: the version starts from \<open>VERSIONBITS_TOP_BITS_ASSETS\<close>, which contains bit 28, so that every block
  signals the test deployment, whatever its state.\<close>

theorem block_version_signals:
  assumes "vb_run E main_vb bt cache" "genesis_ok E" "bt_store bt p = Some b"
  shows "\<exists>v cache'. ComputeBlockVersion (bt_store bt) main_vb (Some p) cache = Some (v, cache')
    \<and> (\<forall>pos block. bi_nVersion block = v \<longrightarrow> (Condition (VersionBitsConditionChecker main_vb pos) block \<longleftrightarrow>
        pos = DEPLOYMENT_TESTDUMMY \<or> map_option fst (VersionBitsState (bt_store bt) main_vb (Some p) pos cache) \<in>
          {Some THRESHOLD_STARTED, Some THRESHOLD_LOCKED_IN}))"
proof -
  let ?s = "\<lambda>pos. path_state (bt_store bt) (VersionBitsConditionChecker main_vb pos) (Some p)"
  obtain v cache' where v: "ComputeBlockVersion (bt_store bt) main_vb (Some p) cache = Some (v, cache')"
    "\<And>n. n < 32 \<Longrightarrow> bit v n \<longleftrightarrow> bit (0x30000000 :: u32) n \<or> (\<exists>pos\<in>set all_deployments. dep_bit (vDeployments main_vb pos) = n
        \<and> ?s pos \<in> {THRESHOLD_STARTED, THRESHOLD_LOCKED_IN})"
    using version_loop_bits[OF assms(1,2) main_vb_ok assms(3) vb_run_caches[OF assms(1,2) main_vb_ok], of all_deployments VERSIONBITS_TOP_BITS_ASSETS]
    by (auto simp: ComputeBlockVersion_def deployed_defs VERSIONBITS_TOP_BITS_ASSETS_def)
  have bits: "dep_bit (vDeployments main_vb pos) = (case pos of DEPLOYMENT_TESTDUMMY \<Rightarrow> 28 | DEPLOYMENT_ASSETS \<Rightarrow> 6
    | DEPLOYMENT_MSG_REST_ASSETS \<Rightarrow> 7 | DEPLOYMENT_TRANSFER_SCRIPT_SIZE \<Rightarrow> 8 | DEPLOYMENT_ENFORCE_VALUE \<Rightarrow> 9
    | DEPLOYMENT_COINBASE_ASSETS \<Rightarrow> 10 | DEPLOYMENT_DIP0003 \<Rightarrow> 3)" for pos
    by (cases pos) (simp_all add: main_vb_def main_deployment_def)
  have "bit v 29" "\<not> bit v 30" "\<not> bit v 31"
    using v(2) by (simp_all add: assets_bits bits all_deployments_def)
  then have top: "and v VERSIONBITS_TOP_MASK = VERSIONBITS_TOP_BITS"
    by (rule top_bits)
  have signal: "bit v (dep_bit (vDeployments main_vb pos)) \<longleftrightarrow>
      pos = DEPLOYMENT_TESTDUMMY \<or> ?s pos \<in> {THRESHOLD_STARTED, THRESHOLD_LOCKED_IN}" for pos
    by (cases pos) (simp_all add: v(2) bits assets_bits all_deployments_def)
  have state: "map_option fst (VersionBitsState (bt_store bt) main_vb (Some p) pos cache) = Some (?s pos)" for pos
    using VersionBitsState_eq[OF assms(1,2) main_vb_ok assms(3), of pos] by auto
  show ?thesis
    unfolding state version_condition using v(1) top signal by (intro exI[of _ v] exI[of _ cache']) simp
qed

theorem block_version_signals_witness:
  "\<exists>v cache. ComputeBlockVersion (bt_store ex_tree) main_vb (Some 0) VersionBitsCache_Clear = Some (v, cache)"
proof -
  obtain b where "bt_store ex_tree 0 = Some b"
    by (rule ex_genesis_entry)
  from block_version_signals[OF ex_vb_run ex_genesis_ok this] show ?thesis
    by blast
qed

end
