(* ===== verification/SequenceLocks.thy ===== *)
theory SequenceLocks
  imports VersionBits Coins Interpreter
begin

text \<open>
  Absolute and relative lock times of transactions (\<^verbatim>\<open>IsFinalTx\<close>, \<^verbatim>\<open>CalculateSequenceLocks\<close>,
  \<^verbatim>\<open>EvaluateSequenceLocks\<close>, \<^verbatim>\<open>SequenceLocks\<close> of \<^verbatim>\<open>src/src/consensus/tx_verify.cpp\<close>; \<^verbatim>\<open>CheckFinalTx\<close>,
  \<^verbatim>\<open>TestLockPointValidity\<close>, \<^verbatim>\<open>CheckSequenceLocks\<close> of \<^verbatim>\<open>src/src/validation.cpp\<close>; \<^verbatim>\<open>CCoinsViewMemPool::GetCoin\<close> of
  \<^verbatim>\<open>src/src/txmempool.cpp\<close>). \<open>None\<close> is a failed assertion, a null pointer that was followed, or a signed overflow.
\<close>

section \<open>Lock times\<close>

definition LOCKTIME_THRESHOLD_int :: int where "LOCKTIME_THRESHOLD_int = 500000000"
definition SEQUENCE_FINAL :: u32 where "SEQUENCE_FINAL = 0xffffffff"
definition SEQUENCE_LOCKTIME_GRANULARITY :: nat where "SEQUENCE_LOCKTIME_GRANULARITY = 9"

definition IsFinalTx :: "CTransaction \<Rightarrow> int \<Rightarrow> int \<Rightarrow> bool" where
  "IsFinalTx tx nBlockHeight nBlockTime =
     (if nLockTime tx = 0 then True
      else if uint (nLockTime tx) < (if uint (nLockTime tx) < LOCKTIME_THRESHOLD_int then nBlockHeight else nBlockTime) then True
      else list_all (\<lambda>txin. nSequence txin = SEQUENCE_FINAL) (vin tx))"

definition CheckFinalTx :: "index_store \<Rightarrow> CChain \<Rightarrow> int \<Rightarrow> CTransaction \<Rightarrow> int \<Rightarrow> bool option" where
  "CheckFinalTx st chainActive adjustedTime tx flags =
     do {
       nBlockTime \<leftarrow> (if and (max flags 0) 2 \<noteq> 0 then Tip chainActive \<bind> GetMedianTimePast st else Some adjustedTime);
       Some (IsFinalTx tx (Height chainActive + 1) nBlockTime)
     }"

section \<open>Relative locks\<close>

text \<open>One round of the loop: the new lower bounds and the height that is left in \<^verbatim>\<open>prevHeights\<close>.\<close>

definition lock_step :: "index_store \<Rightarrow> ptr \<Rightarrow> CTxIn \<Rightarrow> int \<Rightarrow> int \<times> int \<Rightarrow> ((int \<times> int) \<times> int) option" where
  "lock_step st p txin nCoinHeight m =
     (case m of (nMinHeight, nMinTime) \<Rightarrow>
      if and (nSequence txin) SEQUENCE_LOCKTIME_DISABLE_FLAG \<noteq> 0 then Some (m, 0)
      else if and (nSequence txin) SEQUENCE_LOCKTIME_TYPE_FLAG \<noteq> 0 then do {
        a \<leftarrow> GetAncestor st p (max (nCoinHeight - 1) 0);
        q \<leftarrow> a;
        nCoinTime \<leftarrow> GetMedianTimePast st q;
        Some ((nMinHeight, max nMinTime
          (nCoinTime + uint (push_bit SEQUENCE_LOCKTIME_GRANULARITY (and (nSequence txin) SEQUENCE_LOCKTIME_MASK)) - 1)), nCoinHeight)
      }
      else
        let sum = nCoinHeight + sint (and (nSequence txin) SEQUENCE_LOCKTIME_MASK) in
        if sum \<ge> 2 ^ 31 then None else Some ((max nMinHeight (sum - 1), nMinTime), nCoinHeight))"

fun lock_loop :: "index_store \<Rightarrow> ptr \<Rightarrow> CTxIn list \<Rightarrow> int list \<Rightarrow> int \<times> int \<Rightarrow> ((int \<times> int) \<times> int list) option" where
  "lock_loop st p [] prevHeights m = Some (m, prevHeights)"
| "lock_loop st p (txin # txins) [] m = None"
| "lock_loop st p (txin # txins) (h # hs) m =
     do {
       (m', h') \<leftarrow> lock_step st p txin h m;
       (m'', hs') \<leftarrow> lock_loop st p txins hs m';
       Some (m'', h' # hs')
     }"

definition enforces_bip68 :: "CTransaction \<Rightarrow> int \<Rightarrow> bool" where
  "enforces_bip68 tx flags \<longleftrightarrow> nVersion tx mod 2 ^ 32 \<ge> 2 \<and> and flags 1 \<noteq> 0"

definition CalculateSequenceLocks :: "index_store \<Rightarrow> CTransaction \<Rightarrow> int \<Rightarrow> int list \<Rightarrow> ptr \<Rightarrow> ((int \<times> int) \<times> int list) option" where
  "CalculateSequenceLocks st tx flags prevHeights p =
     (if length prevHeights \<noteq> length (vin tx) then None
      else if \<not> enforces_bip68 tx flags then Some ((- 1, - 1), prevHeights)
      else lock_loop st p (vin tx) prevHeights (- 1, - 1))"

definition EvaluateSequenceLocks :: "index_store \<Rightarrow> ptr \<Rightarrow> int \<times> int \<Rightarrow> bool option" where
  "EvaluateSequenceLocks st p lockPair =
     do {
       b \<leftarrow> st p;
       q \<leftarrow> pprev b;
       nBlockTime \<leftarrow> GetMedianTimePast st q;
       Some (\<not> (fst lockPair \<ge> nHeight b \<or> snd lockPair \<ge> nBlockTime))
     }"

definition SequenceLocks :: "index_store \<Rightarrow> CTransaction \<Rightarrow> int \<Rightarrow> int list \<Rightarrow> ptr \<Rightarrow> bool option" where
  "SequenceLocks st tx flags prevHeights p =
     do { (lockPair, _) \<leftarrow> CalculateSequenceLocks st tx flags prevHeights p; EvaluateSequenceLocks st p lockPair }"

section \<open>Lock points of the memory pool\<close>

definition MEMPOOL_HEIGHT :: nat where "MEMPOOL_HEIGHT = 0x7FFFFFFF"

text \<open>The pool is a map from transaction ids, the view below it a lookup function.\<close>

definition mempool_GetCoin :: "(uint256 \<rightharpoonup> CTransaction) \<Rightarrow> (COutPoint \<rightharpoonup> Coin) \<Rightarrow> COutPoint \<Rightarrow> Coin option" where
  "mempool_GetCoin mempool base outpoint =
     (case mempool (COutPoint.op_hash outpoint) of
        Some ptx \<Rightarrow>
          if unat (COutPoint.op_n outpoint) < length (vout ptx) then Some (mk_Coin (vout ptx ! unat (COutPoint.op_n outpoint)) MEMPOOL_HEIGHT False) else None
      | None \<Rightarrow> base outpoint)"

record LockPoints =
  lp_height :: int
  lp_time :: int
  lp_maxInputBlock :: "ptr option"

definition TestLockPointValidity :: "index_store \<Rightarrow> CChain \<Rightarrow> LockPoints \<Rightarrow> bool option" where
  "TestLockPointValidity st chainActive lp =
     (case lp_maxInputBlock lp of None \<Rightarrow> Some True | Some q \<Rightarrow> Contains st chainActive q)"

fun prev_heights :: "(COutPoint \<Rightarrow> Coin option) \<Rightarrow> int \<Rightarrow> CTxIn list \<Rightarrow> int list option" where
  "prev_heights view tipHeight [] = Some []"
| "prev_heights view tipHeight (txin # txins) =
     do {
       coin \<leftarrow> view (prevout txin);
       hs \<leftarrow> prev_heights view tipHeight txins;
       Some ((if coin_nHeight coin = MEMPOOL_HEIGHT then tipHeight + 1 else int (coin_nHeight coin)) # hs)
     }"

definition max_input_height :: "int \<Rightarrow> int list \<Rightarrow> int" where
  "max_input_height tipHeight prevheights = foldl (\<lambda>m h. if h \<noteq> tipHeight + 1 then max m h else m) 0 prevheights"

text \<open>
  The entry for the next block is a local object; \<open>d\<close> is its address. The result has the updated lock points if some
  are passed; without useful lock points the inputs are looked up.
\<close>

definition next_entry :: "CBlockIndex \<Rightarrow> ptr \<Rightarrow> CBlockIndex" where
  "next_entry b tip =
     \<lparr>phashBlock = None, pprev = Some tip, pskip = None, nHeight = nHeight b + 1, nFile = 0, nDataPos = 0, nUndoPos = 0,
      nChainWork = of_uint64 0, nTx = 0, nChainTx = 0, nStatus = 0, bi_nVersion = 0, hashMerkleRoot = 0, nTime = 0, nBits = 0,
      nNonce = 0, nNonce64 = 0, mix_hash = 0, nSequenceId = 0, nTimeMax = 0\<rparr>"

definition CheckSequenceLocks :: "index_store \<Rightarrow> ptr \<Rightarrow> CChain \<Rightarrow> (COutPoint \<Rightarrow> Coin option) \<Rightarrow> CTransaction \<Rightarrow> int \<Rightarrow>
    LockPoints option \<Rightarrow> bool \<Rightarrow> (bool \<times> LockPoints option) option" where
  "CheckSequenceLocks st d chainActive view tx flags lp useExistingLockPoints =
     do {
       tip \<leftarrow> Tip chainActive;
       b \<leftarrow> st tip;
       let st' = st(d \<mapsto> next_entry b tip);
       if useExistingLockPoints then do {
         l \<leftarrow> lp;
         r \<leftarrow> EvaluateSequenceLocks st' d (lp_height l, lp_time l);
         Some (r, lp)
       }
       else
         case prev_heights view (nHeight b) (vin tx) of
           None \<Rightarrow> Some (False, lp)
         | Some prevheights \<Rightarrow> do {
             (lockPair, prevheights) \<leftarrow> CalculateSequenceLocks st' tx flags prevheights d;
             lp' \<leftarrow> (case lp of
                 None \<Rightarrow> Some None
               | Some l \<Rightarrow> do {
                   a \<leftarrow> GetAncestor st tip (max_input_height (nHeight b) prevheights);
                   Some (Some (l\<lparr>lp_height := fst lockPair, lp_time := snd lockPair, lp_maxInputBlock := a\<rparr>))
                 });
             r \<leftarrow> EvaluateSequenceLocks st' d lockPair;
             Some (r, lp')
           }
     }"

section \<open>What the locks mean\<close>

text \<open>
  An input is open for a block at height \<open>H\<close> whose parent has the median time \<open>T\<close> if its relative lock, counted from
  the height of the coin or from the median time of the block before it, has passed.
\<close>

definition input_open :: "index_store \<Rightarrow> ptr \<Rightarrow> int \<Rightarrow> int \<Rightarrow> CTxIn \<Rightarrow> int \<Rightarrow> bool" where
  "input_open st p H T txin h \<longleftrightarrow>
     (let n = uint (nSequence txin) mod 2 ^ 16 in
      bit (nSequence txin) 31
      \<or> (if bit (nSequence txin) 22 then mtp_at st p (nat (h - 1)) + 512 * n \<le> T else h + n \<le> H))"

lemma sequence_flags:
  "and v SEQUENCE_LOCKTIME_DISABLE_FLAG \<noteq> 0 \<longleftrightarrow> bit v 31" "and v SEQUENCE_LOCKTIME_TYPE_FLAG \<noteq> 0 \<longleftrightarrow> bit v 22"
proof -
  have "SEQUENCE_LOCKTIME_DISABLE_FLAG = 2 ^ 31" "SEQUENCE_LOCKTIME_TYPE_FLAG = 2 ^ 22"
    by (simp_all add: SEQUENCE_LOCKTIME_DISABLE_FLAG_def SEQUENCE_LOCKTIME_TYPE_FLAG_def)
  note flags = this
  show "and v SEQUENCE_LOCKTIME_DISABLE_FLAG \<noteq> 0 \<longleftrightarrow> bit v 31" "and v SEQUENCE_LOCKTIME_TYPE_FLAG \<noteq> 0 \<longleftrightarrow> bit v 22"
    unfolding flags and_exp_eq_0_iff_not_bit by simp_all
qed

lemma uint_sequence_mask: "uint (and v SEQUENCE_LOCKTIME_MASK) = uint v mod 2 ^ 16"
proof -
  have mask: "SEQUENCE_LOCKTIME_MASK = mask 16"
    by (simp add: SEQUENCE_LOCKTIME_MASK_def mask_eq_decr_exp)
  show ?thesis
    unfolding mask take_bit_eq_mask[symmetric] unsigned_take_bit_eq by (rule take_bit_eq_mod)
qed

lemma sint_sequence_mask: "sint (and v SEQUENCE_LOCKTIME_MASK) = uint v mod 2 ^ 16"
proof -
  have "uint (and v SEQUENCE_LOCKTIME_MASK) < 2 ^ 31"
    unfolding uint_sequence_mask using pos_mod_bound[of "2 ^ 16" "uint v"] by simp
  moreover have "- (2 ^ 31) \<le> uint (and v SEQUENCE_LOCKTIME_MASK)"
    by (rule order_trans[of _ 0]) simp_all
  ultimately show ?thesis
    unfolding uint_sequence_mask[symmetric] sint_uint by (simp add: signed_take_bit_int_eq_self)
qed

lemma uint_sequence_time:
  "uint (push_bit SEQUENCE_LOCKTIME_GRANULARITY (and v SEQUENCE_LOCKTIME_MASK)) = 512 * (uint v mod 2 ^ 16)"
proof -
  have "uint v mod 2 ^ 16 < 2 ^ 16"
    by simp
  then show ?thesis
    unfolding unsigned_push_bit_eq uint_sequence_mask
    by (simp add: SEQUENCE_LOCKTIME_GRANULARITY_def push_bit_eq_mult take_bit_int_eq_self mult.commute)
qed

lemma ancestor_median:
  assumes "wf_store st" "st p = Some b" "0 \<le> h" "h \<le> nHeight b + 1"
  obtains q where "GetAncestor st p (max (h - 1) 0) = Some (Some q)" "GetMedianTimePast st q = Some (mtp_at st p (nat (h - 1)))"
    "ancestor_at st p (nat (h - 1)) = Some q"
proof -
  have "nat (h - 1) \<le> nat (nHeight b)"
    using assms(4) by simp
  then obtain q c where q: "ancestor_at st p (nat (h - 1)) = Some q" "st q = Some c"
    by (rule ancestor_at_exists[OF assms(1,2)])
  moreover obtain t where "GetMedianTimePast st q = Some t"
    using GetMedianTimePast_some[OF assms(1) q(2)] by blast
  moreover have "nat (max (h - 1) 0) = nat (h - 1)"
    by simp
  ultimately show thesis
    using that GetAncestor_correct[OF assms(1,2), of "max (h - 1) 0"] by (simp add: mtp_at_def)
qed

lemma lock_step_open:
  assumes "wf_store st" "st p = Some b" "nHeight b < 2 ^ 31 - 2 ^ 16" "0 \<le> h" "h \<le> nHeight b"
  obtains m' h' where "lock_step st p txin h m = Some (m', h')"
    "\<And>H T. fst m' < H \<and> snd m' < T \<longleftrightarrow> (fst m < H \<and> snd m < T) \<and> input_open st p H T txin h"
proof -
  obtain q where q: "GetAncestor st p (max (h - 1) 0) = Some (Some q)" "GetMedianTimePast st q = Some (mtp_at st p (nat (h - 1)))"
    by (rule ancestor_median[OF assms(1,2,4)]) (use assms(5) in auto)
  define n where "n = uint (nSequence txin) mod 2 ^ 16"
  have n: "uint (push_bit SEQUENCE_LOCKTIME_GRANULARITY (and (nSequence txin) SEQUENCE_LOCKTIME_MASK)) = 512 * n"
    "sint (and (nSequence txin) SEQUENCE_LOCKTIME_MASK) = n" "n < 2 ^ 16"
    unfolding n_def by (rule uint_sequence_time, rule sint_sequence_mask) simp
  have open_iff: "input_open st p H T txin h \<longleftrightarrow> bit (nSequence txin) 31
      \<or> (if bit (nSequence txin) 22 then mtp_at st p (nat (h - 1)) + 512 * n \<le> T else h + n \<le> H)" for H T
    by (simp only: input_open_def Let_def n_def)
  have "\<exists>m' h'. lock_step st p txin h m = Some (m', h')
      \<and> (\<forall>H T. fst m' < H \<and> snd m' < T \<longleftrightarrow> (fst m < H \<and> snd m < T) \<and> input_open st p H T txin h)"
  proof (cases "bit (nSequence txin) 31")
    case True
    then show ?thesis
      by (auto simp: lock_step_def sequence_flags open_iff split: prod.split)
  next
    case False
    show ?thesis
    proof (cases "bit (nSequence txin) 22")
      case True
      then have "lock_step st p txin h m = Some ((fst m, max (snd m) (mtp_at st p (nat (h - 1)) + 512 * n - 1)), h)"
        using False q n(1) by (cases m) (simp add: lock_step_def sequence_flags)
      then show ?thesis
        using True False by (auto simp: open_iff)
    next
      case type: False
      have "\<not> 2 ^ 31 \<le> h + n"
        using n(3) assms(3,5) by simp
      then have "lock_step st p txin h m = Some ((max (fst m) (h + n - 1), snd m), h)"
        using False type n(2) by (cases m) (simp add: lock_step_def sequence_flags)
      then show ?thesis
        using type False by (auto simp: open_iff)
    qed
  qed
  then show thesis
    using that by blast
qed

lemma lock_loop_open:
  assumes "wf_store st" "st p = Some b" "nHeight b < 2 ^ 31 - 2 ^ 16"
  shows "length txins = length hs \<Longrightarrow> (\<And>h. h \<in> set hs \<Longrightarrow> 0 \<le> h \<and> h \<le> nHeight b) \<Longrightarrow>
    \<exists>m' hs'. lock_loop st p txins hs m = Some (m', hs')
      \<and> (\<forall>H T. fst m' < H \<and> snd m' < T \<longleftrightarrow> (fst m < H \<and> snd m < T) \<and> list_all2 (input_open st p H T) txins hs)"
proof (induction txins hs arbitrary: m rule: list_induct2)
  case (Cons txin txins h hs)
  have h: "0 \<le> h \<and> h \<le> nHeight b"
    using Cons.prems by simp
  obtain m1 h1 where 1: "lock_step st p txin h m = Some (m1, h1)"
    "\<And>H T. fst m1 < H \<and> snd m1 < T \<longleftrightarrow> (fst m < H \<and> snd m < T) \<and> input_open st p H T txin h"
    using lock_step_open[OF assms conjunct1[OF h] conjunct2[OF h], of txin m] by blast
  obtain m2 hs2 where "lock_loop st p txins hs m1 = Some (m2, hs2)"
    "\<And>H T. fst m2 < H \<and> snd m2 < T \<longleftrightarrow> (fst m1 < H \<and> snd m1 < T) \<and> list_all2 (input_open st p H T) txins hs"
    using Cons.IH[of m1] Cons.prems by auto
  then show ?case
    using 1 by (intro exI[of _ m2] exI[of _ "h1 # hs2"]) auto
qed simp

lemma median_nonneg:
  assumes "GetMedianTimePast st p = Some t"
  shows "0 \<le> t"
proof -
  obtain ts where ts: "times_back st 11 (Some p) = Some ts" "t = sort ts ! (length ts div 2)"
    using assms by (auto simp: GetMedianTimePast_def bind_eq_Some_conv)
  have "times_back st n pp = Some us \<Longrightarrow> u \<in> set us \<Longrightarrow> 0 \<le> u" for n pp us u
  proof (induction n arbitrary: pp us)
    case (Suc n)
    then show ?case
      by (cases pp) (auto simp: bind_eq_Some_conv GetBlockTime_def)
  qed simp
  moreover have "ts \<noteq> []"
    using ts(1) by (auto simp: times_back_11 bind_eq_Some_conv)
  then have "t \<in> set ts"
    using nth_mem[of "length ts div 2" "sort ts"] ts(2) by simp
  ultimately show ?thesis
    using ts(1) by blast
qed

lemma parent_median:
  assumes "wf_store st" "st p = Some b" "0 < nHeight b"
  obtains q where "pprev b = Some q" "GetMedianTimePast st q = Some (mtp_at st p (nat (nHeight b - 1)))"
proof -
  obtain q c where q: "pprev b = Some q" "st q = Some c" "nHeight b = nHeight c + 1" "nHeight c \<ge> 0"
    using assms(3) by (cases rule: wf_prev[OF assms(1,2)]) auto
  then have "ancestor_at st p (nat (nHeight b - 1)) = Some q"
    using assms(2) by (simp add: ancestor_at_def height_at_def nat_add_distrib)
  moreover obtain t where "GetMedianTimePast st q = Some t"
    using GetMedianTimePast_some[OF assms(1) q(2)] by blast
  ultimately show thesis
    using that q(1) by (simp add: mtp_at_def)
qed

lemma SequenceLocks_iff:
  assumes "wf_store st" "st p = Some b" "pprev b = Some q" "nHeight b < 2 ^ 31 - 2 ^ 16"
    and "length prevHeights = length (vin tx)" "\<And>h. h \<in> set prevHeights \<Longrightarrow> 0 \<le> h \<and> h \<le> nHeight b"
    and "GetMedianTimePast st q = Some T"
  shows "SequenceLocks st tx flags prevHeights p =
    Some (enforces_bip68 tx flags \<longrightarrow> list_all2 (input_open st p (nHeight b) T) (vin tx) prevHeights)"
proof -
  have base: "(- 1 :: int) < nHeight b" "- 1 < T"
    using wf_height[OF assms(1,2)] median_nonneg[OF assms(7)] by simp_all
  obtain m hs where m: "lock_loop st p (vin tx) prevHeights (- 1, - 1) = Some (m, hs)"
    "\<And>H T. fst m < H \<and> snd m < T \<longleftrightarrow> ((- 1 :: int) < H \<and> - 1 < T) \<and> list_all2 (input_open st p H T) (vin tx) prevHeights"
    using lock_loop_open[OF assms(1,2,4) assms(5)[symmetric], of "(- 1, - 1)"] assms(6) by auto
  have "EvaluateSequenceLocks st p l = Some (fst l < nHeight b \<and> snd l < T)" for l
    using assms(2,3,7) by (auto simp: EvaluateSequenceLocks_def)
  then show ?thesis
    using m(1) m(2)[of "nHeight b" T] base assms(5) by (auto simp: SequenceLocks_def CalculateSequenceLocks_def)
qed

text \<open>C18. \<open>SequenceLocks\<close> returns for a block exactly whether every input whose lock is not disabled has waited long enough:
  that many blocks since the block of its coin, or that many times 512 seconds since the median time before that
  block.\<close>

theorem sequence_locks_exact:
  assumes "header_run E bt" "genesis_ok E" "bt_store bt p = Some b" "0 < nHeight b" "nHeight b < 2 ^ 31 - 2 ^ 16"
    and "length prevHeights = length (vin tx)" "\<forall>h\<in>set prevHeights. 0 \<le> h \<and> h \<le> nHeight b"
  shows "SequenceLocks (bt_store bt) tx flags prevHeights p =
    Some (enforces_bip68 tx flags \<longrightarrow> (\<forall>i<length (vin tx).
      let n = uint (nSequence (vin tx ! i)) mod 2 ^ 16; h = prevHeights ! i in
      bit (nSequence (vin tx ! i)) 31
      \<or> (if bit (nSequence (vin tx ! i)) 22 then mtp_at (bt_store bt) p (nat (h - 1)) + 512 * n \<le> mtp_at (bt_store bt) p (nat (nHeight b - 1))
         else h + n \<le> nHeight b)))"
proof -
  have wf: "wf_store (bt_store bt)"
    using header_run_inv[OF assms(1,2)] by (simp add: headers_inv_def tree_inv_def)
  obtain q where "pprev b = Some q" "GetMedianTimePast (bt_store bt) q = Some (mtp_at (bt_store bt) p (nat (nHeight b - 1)))"
    by (rule parent_median[OF wf assms(3,4)])
  then show ?thesis
    using SequenceLocks_iff[OF wf assms(3) _ assms(5,6), of q] assms(6,7)
    by (simp only: list_all2_conv_all_nth input_open_def simp_thms Let_def)
qed

text \<open>Locks only open: a transaction whose relative locks allow it in a block is also allowed, as far as they are concerned, in
  every block that descends from it.\<close>

theorem sequence_locks_stay_open:
  assumes "header_run E bt" "genesis_ok E" "bt_store bt p = Some b" "0 < nHeight b" "nHeight b < 2 ^ 31 - 2 ^ 16"
    and "length prevHeights = length (vin tx)" "\<forall>h\<in>set prevHeights. 0 \<le> h \<and> h \<le> nHeight b"
    and "SequenceLocks (bt_store bt) tx flags prevHeights p = Some True"
    and "bt_store bt p' = Some b'" "nHeight b' < 2 ^ 31 - 2 ^ 16" "ancestor_at (bt_store bt) p' h = Some p"
  shows "SequenceLocks (bt_store bt) tx flags prevHeights p' = Some True"
proof -
  let ?st = "bt_store bt"
  have wf: "wf_store ?st" and rule: "times_rule ?st"
    using header_run_inv[OF assms(1,2)] header_run_times[OF assms(1,2)] by (simp_all add: headers_inv_def tree_inv_def)
  have "h \<le> nat (nHeight b')"
    using assms(9,11) by (auto simp: ancestor_at_def height_at_def split: if_splits)
  then obtain p2 b2 where "ancestor_at ?st p' h = Some p2" "?st p2 = Some b2" "nHeight b2 = int h"
    by (rule ancestor_at_exists[OF wf assms(9)])
  then have h: "nHeight b = int h" "h \<le> nat (nHeight b')"
    using assms(3,11) \<open>h \<le> nat (nHeight b')\<close> by simp_all
  then have le: "nHeight b \<le> nHeight b'"
    using wf_height[OF wf assms(9)] by simp
  obtain q where q: "pprev b = Some q" "GetMedianTimePast ?st q = Some (mtp_at ?st p (nat (nHeight b - 1)))"
    by (rule parent_median[OF wf assms(3,4)])
  obtain q' where q': "pprev b' = Some q'" "GetMedianTimePast ?st q' = Some (mtp_at ?st p' (nat (nHeight b' - 1)))"
    by (rule parent_median[OF wf assms(9)]) (use assms(4) le in auto)
  have same: "mtp_at ?st p k = mtp_at ?st p' k" if "k \<le> h" for k
    by (rule entry_at_trans(2)[OF wf assms(9,11) that])
  have "mtp_at ?st p (nat (nHeight b - 1)) = mtp_at ?st p' (nat (nHeight b - 1))"
    by (rule same) (simp add: h)
  also have "\<dots> \<le> mtp_at ?st p' (nat (nHeight b' - 1))"
    by (rule mtp_at_mono[OF wf rule assms(9)]) (use le in auto)
  finally have T: "mtp_at ?st p (nat (nHeight b - 1)) \<le> mtp_at ?st p' (nat (nHeight b' - 1))" .
  have "input_open ?st p' (nHeight b') (mtp_at ?st p' (nat (nHeight b' - 1))) txin k"
    if "input_open ?st p (nHeight b) (mtp_at ?st p (nat (nHeight b - 1))) txin k" "k \<le> nHeight b" for txin k
    using that T le same[of "nat (k - 1)"] h(1) by (auto simp: input_open_def Let_def split: if_splits)
  then have "list_all2 (input_open ?st p' (nHeight b') (mtp_at ?st p' (nat (nHeight b' - 1)))) (vin tx) prevHeights"
    if "list_all2 (input_open ?st p (nHeight b) (mtp_at ?st p (nat (nHeight b - 1)))) (vin tx) prevHeights"
    using that assms(7) by (auto simp: list_all2_conv_all_nth)
  moreover have "0 \<le> k \<and> k \<le> nHeight b'" if "k \<in> set prevHeights" for k
    using assms(7) le that by force
  ultimately show ?thesis
    using SequenceLocks_iff[OF wf assms(3) q(1) assms(5,6) _ q(2), of flags] assms(7,8)
      SequenceLocks_iff[OF wf assms(9) q'(1) assms(10,6) _ q'(2), of flags] by auto
qed

section \<open>Lock points and reorganisations\<close>

text \<open>What the loop computes depends on the path only up to the highest coin.\<close>

lemma lock_loop_path:
  assumes "wf_store st" "st p = Some b" "wf_store st'" "st' p' = Some b'"
    and "\<And>q t. GetMedianTimePast st q = Some t \<Longrightarrow> GetMedianTimePast st' q = Some t"
  shows "(\<And>txin h. (txin, h) \<in> set (zip txins hs) \<Longrightarrow> \<not> bit (nSequence txin) 31 \<Longrightarrow> 0 \<le> h \<and> h \<le> nHeight b + 1 \<and> h \<le> nHeight b' + 1
      \<and> ancestor_at st p (nat (h - 1)) = ancestor_at st' p' (nat (h - 1))) \<Longrightarrow>
    lock_loop st p txins hs m = lock_loop st' p' txins hs m"
proof (induction txins arbitrary: hs m)
  case (Cons txin txins)
  show ?case
  proof (cases hs)
    case hs: (Cons h hs')
    have "lock_step st p txin h m = lock_step st' p' txin h m"
    proof (cases "bit (nSequence txin) 31")
      case True
      then show ?thesis
        by (simp add: lock_step_def sequence_flags)
    next
      case False
      then have h: "0 \<le> h" "h \<le> nHeight b + 1" "h \<le> nHeight b' + 1" "ancestor_at st p (nat (h - 1)) = ancestor_at st' p' (nat (h - 1))"
        using Cons.prems[of txin h] hs by auto
      obtain q where q: "GetAncestor st p (max (h - 1) 0) = Some (Some q)" "GetMedianTimePast st q = Some (mtp_at st p (nat (h - 1)))"
        "ancestor_at st p (nat (h - 1)) = Some q"
        by (rule ancestor_median[OF assms(1,2) h(1,2)])
      obtain q' where q': "GetAncestor st' p' (max (h - 1) 0) = Some (Some q')" "ancestor_at st' p' (nat (h - 1)) = Some q'"
        by (rule ancestor_median[OF assms(3,4) h(1,3)])
      show ?thesis
        using q q' h(4) assms(5)[OF q(2)] by (cases m) (simp add: lock_step_def)
    qed
    moreover have "lock_loop st p txins hs' m' = lock_loop st' p' txins hs' m'" for m'
      by (rule Cons.IH) (use Cons.prems hs in auto)
    ultimately show ?thesis
      by (simp add: hs)
  qed simp
qed simp

lemma lock_loop_heights:
  "lock_loop st p txins hs m = Some (m', hs') \<Longrightarrow> length hs = length txins \<Longrightarrow>
   hs' = map2 (\<lambda>txin h. if bit (nSequence txin) 31 then 0 else h) txins hs"
proof (induction st p txins hs m arbitrary: m' hs' rule: lock_loop.induct)
  case (3 st p txin txins h hs m)
  then obtain m1 h1 m2 hs2 where 1: "lock_step st p txin h m = Some (m1, h1)" "lock_loop st p txins hs m1 = Some (m2, hs2)" "hs' = h1 # hs2"
    by (auto simp: bind_eq_Some_conv)
  have "h1 = (if bit (nSequence txin) 31 then 0 else h)"
    using 1(1) by (auto simp: lock_step_def sequence_flags bind_eq_Some_conv Let_def split: prod.splits if_splits)
  then show ?case
    using 3 1 by auto
qed simp_all

lemma max_fold_start: "m \<le> foldl (\<lambda>m h. if h \<noteq> H + 1 then max m h else m) (m :: int) hs"
proof (induction hs arbitrary: m)
  case (Cons a hs)
  show ?case
    using Cons.IH[of "if a \<noteq> H + 1 then max m a else m"] by (cases "a = H + 1") simp_all
qed simp

lemma max_fold_elem: "h \<in> set hs \<Longrightarrow> h \<noteq> H + 1 \<Longrightarrow> h \<le> foldl (\<lambda>m h. if h \<noteq> H + 1 then max m h else m) (m :: int) hs"
proof (induction hs arbitrary: m)
  case (Cons a hs)
  then show ?case
    using max_fold_start[of "max m a" H hs] by (cases "h = a") simp_all
qed simp

lemma max_input_height_ge: "h \<in> set hs \<Longrightarrow> h \<noteq> H + 1 \<Longrightarrow> h \<le> max_input_height H hs"
  unfolding max_input_height_def by (rule max_fold_elem)

lemma max_input_height_nonneg: "0 \<le> max_input_height H hs"
  unfolding max_input_height_def by (rule max_fold_start)

lemma max_input_height_le: "0 \<le> B \<Longrightarrow> (\<And>h. h \<in> set hs \<Longrightarrow> h \<le> B) \<Longrightarrow> max_input_height H hs \<le> B"
proof -
  have "m \<le> B \<Longrightarrow> (\<And>h. h \<in> set hs \<Longrightarrow> h \<le> B) \<Longrightarrow> foldl (\<lambda>m h. if h \<noteq> H + 1 then max m h else m) m hs \<le> B" for m
    by (induction hs arbitrary: m) auto
  then show "0 \<le> B \<Longrightarrow> (\<And>h. h \<in> set hs \<Longrightarrow> h \<le> B) \<Longrightarrow> max_input_height H hs \<le> B"
    by (simp add: max_input_height_def)
qed

lemma CalculateSequenceLocks_heights:
  assumes "CalculateSequenceLocks st tx flags hs t = Some (l, hs')"
  shows "set hs' \<subseteq> insert 0 (set hs)"
proof (cases "enforces_bip68 tx flags")
  case True
  then have "hs' = map2 (\<lambda>txin h. if bit (nSequence txin) 31 then 0 else h) (vin tx) hs"
    using assms lock_loop_heights by (fastforce simp: CalculateSequenceLocks_def split: if_splits)
  then show ?thesis
    using set_zip_rightD by fastforce
qed (use assms in \<open>auto simp: CalculateSequenceLocks_def split: if_splits\<close>)

lemma next_store:
  assumes "wf_store st" "st t = Some b" "st d = None"
  defines "st' \<equiv> st(d \<mapsto> next_entry b t)"
  shows "wf_store st'" "st' d = Some (next_entry b t)" "sub_tree st st'"
    "k \<le> nat (nHeight b) \<Longrightarrow> ancestor_at st' d k = ancestor_at st t k"
proof -
  have ne: "t \<noteq> d"
    using assms(2,3) by auto
  have fields: "pprev (next_entry b t) = Some t" "pskip (next_entry b t) = None" "nHeight (next_entry b t) = nHeight b + 1"
    by (simp_all add: next_entry_def)
  show wf: "wf_store st'"
    unfolding st'_def by (rule wf_store_extend[OF assms(1,3)])
      (use ne assms(2) wf_height[OF assms(1,2)] in \<open>simp add: wf_entry_def fields\<close>)
  show d: "st' d = Some (next_entry b t)"
    by (simp add: st'_def)
  show sub: "sub_tree st st'"
    unfolding st'_def using assms(3) by (rule sub_tree_fresh)
  assume "k \<le> nat (nHeight b)"
  then show "ancestor_at st' d k = ancestor_at st t k"
    using ancestor_at_prev[OF wf d fields(1), of k] ancestor_at_sub_eq[OF assms(1) sub assms(2), of k] wf_height[OF assms(1,2)]
    by (simp add: fields)
qed

lemma CalculateSequenceLocks_next:
  assumes "wf_store st" "st t = Some b" "st d = None"
    and "\<And>txin h. (txin, h) \<in> set (zip (vin tx) hs) \<Longrightarrow> \<not> bit (nSequence txin) 31 \<Longrightarrow> 0 \<le> h \<and> h \<le> nHeight b + 1"
  shows "CalculateSequenceLocks (st(d \<mapsto> next_entry b t)) tx flags hs d = CalculateSequenceLocks st tx flags hs t"
proof -
  let ?st = "st(d \<mapsto> next_entry b t)"
  note nx = next_store[OF assms(1-3)]
  have "lock_loop st t (vin tx) hs m = lock_loop ?st d (vin tx) hs m" for m
  proof (rule lock_loop_path[OF assms(1,2) nx(1,2)])
    show "GetMedianTimePast ?st q = Some u" if "GetMedianTimePast st q = Some u" for q u
      by (rule GetMedianTimePast_sub[OF nx(3) that])
    fix txin h
    assume "(txin, h) \<in> set (zip (vin tx) hs)" "\<not> bit (nSequence txin) 31"
    from assms(4)[OF this] have h: "0 \<le> h" "h \<le> nHeight b + 1" "nat (h - 1) \<le> nat (nHeight b)" "nHeight (next_entry b t) = nHeight b + 1"
      by (auto simp: next_entry_def)
    then show "0 \<le> h \<and> h \<le> nHeight b + 1 \<and> h \<le> nHeight (next_entry b t) + 1
        \<and> ancestor_at st t (nat (h - 1)) = ancestor_at ?st d (nat (h - 1))"
      using nx(4)[OF h(3)] by simp
  qed
  then show ?thesis
    by (simp add: CalculateSequenceLocks_def)
qed

lemma EvaluateSequenceLocks_next:
  assumes "wf_store st" "st t = Some b" "st d = None"
  shows "\<exists>r. EvaluateSequenceLocks (st(d \<mapsto> next_entry b t)) d l = Some r"
proof -
  obtain u where "GetMedianTimePast st t = Some u"
    using GetMedianTimePast_some[OF assms(1,2)] by blast
  then show ?thesis
    using GetMedianTimePast_sub[OF next_store(3)[OF assms]] by (simp add: EvaluateSequenceLocks_def next_entry_def)
qed

lemma Tip_path: "st t = Some b \<Longrightarrow> Tip (path st t) = Some t"
  by (simp add: Tip_def path_nth ancestor_at_def)

lemma prev_heights_length: "prev_heights view H txins = Some hs \<Longrightarrow> length hs = length txins"
  by (induction txins arbitrary: hs) (auto simp: bind_eq_Some_conv)

lemma prev_heights_nonneg: "prev_heights view H txins = Some hs \<Longrightarrow> 0 \<le> H \<Longrightarrow> h \<in> set hs \<Longrightarrow> 0 \<le> h"
  by (induction txins arbitrary: hs) (auto simp: bind_eq_Some_conv split: if_splits)

lemma CheckSequenceLocks_fresh:
  assumes "wf_store st" "st t = Some b" "st d = None" "prev_heights view (nHeight b) (vin tx) = Some hs"
    and "\<And>h. h \<in> set hs \<Longrightarrow> h \<le> nHeight b + 1"
  shows "CheckSequenceLocks st d (path st t) view tx flags lp False =
    do {
      (lockPair, hs') \<leftarrow> CalculateSequenceLocks st tx flags hs t;
      r \<leftarrow> EvaluateSequenceLocks (st(d \<mapsto> next_entry b t)) d lockPair;
      Some (r, map_option (\<lambda>l. l\<lparr>lp_height := fst lockPair, lp_time := snd lockPair,
        lp_maxInputBlock := ancestor_at st t (nat (max_input_height (nHeight b) hs'))\<rparr>) lp)
    }"
proof -
  have "0 \<le> h \<and> h \<le> nHeight b + 1" if "(txin, h) \<in> set (zip (vin tx) hs)" for txin h
    using set_zip_rightD[OF that] prev_heights_nonneg[OF assms(4) wf_height[OF assms(1,2)]] assms(5) by blast
  then have "CalculateSequenceLocks (st(d \<mapsto> next_entry b t)) tx flags hs d = CalculateSequenceLocks st tx flags hs t"
    by (intro CalculateSequenceLocks_next[OF assms(1-3)])
  then show ?thesis
    using assms(2,4) Tip_path[of st t b, OF assms(2)] GetAncestor_correct[OF assms(1,2)] max_input_height_nonneg
    by (cases lp) (auto simp: CheckSequenceLocks_def intro!: bind_option_cong)
qed

lemma lock_pair_same:
  assumes "wf_store st" "st t = Some b" "wf_store st2" "st2 t2 = Some b2" "sub_tree st st2"
    and "CalculateSequenceLocks st tx flags hs t = Some (l, hs')" "\<And>h. h \<in> set hs \<Longrightarrow> 0 \<le> h \<and> h \<le> nHeight b"
    and "ancestor_at st t (nat (max_input_height (nHeight b) hs')) = Some a" "ancestor_at st2 t2 k = Some a"
  shows "CalculateSequenceLocks st2 tx flags hs t2 = Some (l, hs')"
proof (cases "length hs = length (vin tx) \<and> enforces_bip68 tx flags")
  case False
  then show ?thesis
    using assms(6) by (auto simp: CalculateSequenceLocks_def split: if_splits)
next
  case True
  then have l: "lock_loop st t (vin tx) hs (- 1, - 1) = Some (l, hs')"
    using assms(6) by (simp add: CalculateSequenceLocks_def)
  let ?M = "max_input_height (nHeight b) hs'"
  have le: "nat ?M \<le> nat (nHeight b)"
    using assms(2,8) by (auto simp: ancestor_at_def height_at_def split: if_splits)
  obtain c where c: "st a = Some c" "height_at st a = nat ?M"
    using ancestor_at_exists[OF assms(1,2) le] assms(8) by (metis option.inject)
  have k: "k \<le> nat (nHeight b2)"
    using assms(4,9) by (auto simp: ancestor_at_def height_at_def split: if_splits)
  then have "height_at st2 a = k"
    using ancestor_at_exists[OF assms(3,4)] assms(9) by (metis option.inject)
  then have kM: "k = nat ?M"
    using height_at_sub[OF assms(5) c(1)] c(2) by simp
  have "lock_loop st t (vin tx) hs (- 1, - 1) = lock_loop st2 t2 (vin tx) hs (- 1, - 1)"
  proof (rule lock_loop_path[OF assms(1-4)])
    show "GetMedianTimePast st2 q = Some u" if "GetMedianTimePast st q = Some u" for q u
      by (rule GetMedianTimePast_sub[OF assms(5) that])
    fix txin h
    assume h: "(txin, h) \<in> set (zip (vin tx) hs)" "\<not> bit (nSequence txin) 31"
    then have "h \<in> set hs'"
      using lock_loop_heights[OF l] True by (force simp: image_iff)
    moreover have hb: "0 \<le> h" "h \<le> nHeight b"
      using assms(7) set_zip_rightD[OF h(1)] by auto
    ultimately have "h \<le> ?M"
      by (intro max_input_height_ge) auto
    then have "nat (h - 1) \<le> nat ?M" "h \<le> nHeight b2 + 1"
      using k kM hb wf_height[OF assms(3,4)] by auto
    then show "0 \<le> h \<and> h \<le> nHeight b + 1 \<and> h \<le> nHeight b2 + 1 \<and> ancestor_at st t (nat (h - 1)) = ancestor_at st2 t2 (nat (h - 1))"
      using hb ancestor_at_trans[OF assms(1,2,8), of "nat (h - 1)"] ancestor_at_trans[OF assms(3,4,9), of "nat (h - 1)"] kM
        ancestor_at_sub_eq[OF assms(1,5) c(1), of "nat (h - 1)"] by simp
  qed
  then show ?thesis
    using True l by (simp add: CalculateSequenceLocks_def)
qed

text \<open>The comment on \<open>LockPoints\<close> is right for confirmed inputs: after a reorganisation, when the block that the lock points
  name is still on the active chain and the coins are where they were, the cached values give the answer that a new
  computation gives.\<close>

theorem lock_points_survive_reorganisation:
  assumes "header_run E bt" "header_run E bt2" "genesis_ok E" "sub_tree (bt_store bt) (bt_store bt2)"
    and "bt_store bt t = Some b" "bt_store bt2 t2 = Some b2" "bt_store bt d = None" "bt_store bt2 d2 = None"
    and "prev_heights view (nHeight b) (vin tx) = Some hs" "prev_heights view2 (nHeight b2) (vin tx) = Some hs"
    and "\<forall>h\<in>set hs. h \<le> nHeight b \<and> h \<le> nHeight b2 + 1"
    and "CheckSequenceLocks (bt_store bt) d (path (bt_store bt) t) view tx flags (Some l0) False = Some (r, Some lp)"
    and "TestLockPointValidity (bt_store bt2) (path (bt_store bt2) t2) lp = Some True"
  shows "\<exists>r2. CheckSequenceLocks (bt_store bt2) d2 (path (bt_store bt2) t2) view2 tx flags (Some lp) True = Some (r2, Some lp)
    \<and> CheckSequenceLocks (bt_store bt2) d2 (path (bt_store bt2) t2) view2 tx flags None False = Some (r2, None)"
proof -
  let ?st = "bt_store bt" and ?st2 = "bt_store bt2"
  have wf: "wf_store ?st" "wf_store ?st2"
    using header_run_inv[OF assms(1,3)] header_run_inv[OF assms(2,3)] by (simp_all add: headers_inv_def tree_inv_def)
  have hs: "0 \<le> h \<and> h \<le> nHeight b" if "h \<in> set hs" for h
    using prev_heights_nonneg[OF assms(9) wf_height[OF wf(1) assms(5)] that] assms(11) that by simp
  have le: "\<And>h. h \<in> set hs \<Longrightarrow> h \<le> nHeight b + 1"
    using assms(11) by force
  obtain l hs' where l: "CalculateSequenceLocks ?st tx flags hs t = Some (l, hs')"
    "lp_height lp = fst l" "lp_time lp = snd l" "lp_maxInputBlock lp = ancestor_at ?st t (nat (max_input_height (nHeight b) hs'))"
    using assms(12) CheckSequenceLocks_fresh[OF wf(1) assms(5,7,9) le] by (auto simp: bind_eq_Some_conv)
  have "max_input_height (nHeight b) hs' \<le> nHeight b"
    using CalculateSequenceLocks_heights[OF l(1)] hs wf_height[OF wf(1) assms(5)] by (intro max_input_height_le) auto
  then obtain a where a: "ancestor_at ?st t (nat (max_input_height (nHeight b) hs')) = Some a" "lp_maxInputBlock lp = Some a"
    using ancestor_at_exists[OF wf(1) assms(5), of "nat (max_input_height (nHeight b) hs')"] l(4) by (metis nat_mono)
  obtain c where "?st2 a = Some c" "chain_at (path ?st2 t2) (nHeight c) = Some a"
    using assms(13) a(2) by (auto simp: TestLockPointValidity_def Contains_def)
  then have "ancestor_at ?st2 t2 (nat (nHeight c)) = Some a"
    by (auto simp: chain_at_def path_nth split: if_splits)
  then have calc: "CalculateSequenceLocks ?st2 tx flags hs t2 = Some (l, hs')"
    using lock_pair_same[OF wf(1) assms(5) wf(2) assms(6,4) l(1) hs a(1)] by simp
  obtain r2 where r2: "EvaluateSequenceLocks (?st2(d2 \<mapsto> next_entry b2 t2)) d2 l = Some r2"
    using EvaluateSequenceLocks_next[OF wf(2) assms(6,8)] by blast
  have "CheckSequenceLocks ?st2 d2 (path ?st2 t2) view2 tx flags None False = Some (r2, None)"
    using CheckSequenceLocks_fresh[OF wf(2) assms(6,8,10), of flags None] assms(11) calc r2 by simp
  moreover have "CheckSequenceLocks ?st2 d2 (path ?st2 t2) view2 tx flags (Some lp) True = Some (r2, Some lp)"
    using assms(6) Tip_path[of ?st2 t2 b2, OF assms(6)] r2 l(2,3) by (simp add: CheckSequenceLocks_def)
  ultimately show ?thesis
    by blast
qed

section \<open>An example\<close>

text \<open>A transaction that spends a coin of the genesis block and has to wait one block.\<close>

definition ex_locked_tx :: CTransaction where
  "ex_locked_tx =
     \<lparr>nVersion = 2, nType = 0, vin = [\<lparr>prevout = \<lparr>COutPoint.op_hash = 7, op_n = 0\<rparr>, scriptSig = [], nSequence = 1, scriptWitness = []\<rparr>],
      vout = [], nLockTime = 0, vExtraPayload = []\<rparr>"

definition ex_view :: "COutPoint \<Rightarrow> Coin option" where
  "ex_view = (\<lambda>_. Some (mk_Coin \<lparr>nValue = 5, scriptPubKey = [], nRounds = -10\<rparr> 0 False))"

lemma ex_second:
  obtains bt b where "header_run ex_net bt" "bt_store bt 1 = Some b" "nHeight b = 1" "bt_store bt 5 = None"
proof -
  obtain bt where bt: "AcceptBlockHeader ex_net ex_tree ex_block = (Inr 1, bt)"
    using ex_accept by blast
  have run: "header_run ex_net bt"
    by (rule header_run.accept[OF ex_run, of "HasConflictingChainLock ex_net" "nAdjustedTime ex_net" ex_block "Inr 1"]) (simp add: bt)
  obtain g where g: "bt_store ex_tree = [0 \<mapsto> g]" "mapBlockIndex ex_tree = [(1, 0)]" "nHeight g = 0" "bt_next ex_tree = 1"
    by (rule ex_tree_entries)
  have new: "GetHash ex_net ex_block \<noteq> hashGenesisBlock ex_net" "map_of (mapBlockIndex ex_tree) (GetHash ex_net ex_block) = None"
    unfolding ex_hash g(2) by (simp_all add: ex_net_def)
  note fresh = AcceptBlockHeader_fresh[OF header_run_inv[OF ex_run ex_genesis_ok] ex_genesis_ok bt new]
  then obtain b where b: "bt_store bt = [0 \<mapsto> g, 1 \<mapsto> b]" "pprev b = Some 0"
    by (auto simp: checked_entry_def adds_entry_def g ex_block_def)
  have wf: "wf_store (bt_store bt)"
    using fresh by (simp add: headers_inv_def tree_inv_def)
  have "bt_store bt 1 = Some b"
    by (simp add: b)
  from wf this have "nHeight b = 1"
    by (cases rule: wf_prev) (use b g in auto)
  then show thesis
    using that[OF run] b by simp
qed

theorem sequence_locks_exact_witness: "\<exists>bt. header_run ex_net bt \<and> SequenceLocks (bt_store bt) ex_locked_tx 1 [0] 1 = Some True"
proof -
  obtain bt b where b: "header_run ex_net bt" "bt_store bt 1 = Some b" "nHeight b = 1"
    by (rule ex_second)
  have "SequenceLocks (bt_store bt) ex_locked_tx 1 [0] 1 = Some True"
    using sequence_locks_exact[OF b(1) ex_genesis_ok b(2), of "[0]" ex_locked_tx 1] b(3) by (simp add: ex_locked_tx_def bit_1_iff)
  then show ?thesis
    using b(1) by blast
qed

lemma ex_locks_open:
  assumes "header_run ex_net bt" "bt_store bt 1 = Some b" "nHeight b = 1"
  shows "SequenceLocks (bt_store bt) ex_locked_tx 1 [0] 1 = Some True"
proof -
  have wf: "wf_store (bt_store bt)"
    using header_run_inv[OF assms(1) ex_genesis_ok] by (simp add: headers_inv_def tree_inv_def)
  obtain q where "pprev b = Some q" "GetMedianTimePast (bt_store bt) q = Some (mtp_at (bt_store bt) 1 (nat (nHeight b - 1)))"
    by (rule parent_median[OF wf assms(2)]) (use assms(3) in auto)
  then show ?thesis
    using SequenceLocks_iff[OF wf assms(2), of q "[0]" ex_locked_tx _ 1] assms(3) by (simp add: ex_locked_tx_def input_open_def bit_1_iff)
qed

theorem sequence_locks_stay_open_witness: "\<exists>bt. header_run ex_net bt \<and> SequenceLocks (bt_store bt) ex_locked_tx 1 [0] 1 = Some True"
proof -
  obtain bt b where b: "header_run ex_net bt" "bt_store bt 1 = Some b" "nHeight b = 1"
    by (rule ex_second)
  have "SequenceLocks (bt_store bt) ex_locked_tx 1 [0] 1 = Some True"
    by (rule sequence_locks_stay_open[OF b(1) ex_genesis_ok b(2) _ _ _ _ ex_locks_open[OF b] b(2), of 1])
      (use b(3) ancestor_at_self[of "bt_store bt" 1 b, OF b(2)] in \<open>simp_all add: ex_locked_tx_def\<close>)
  then show ?thesis
    using b(1) by blast
qed

lemma TestLockPointValidity_same:
  assumes "wf_store st" "st t = Some b" "lp_maxInputBlock lp = ancestor_at st t k"
  shows "TestLockPointValidity st (path st t) lp = Some True"
proof (cases "ancestor_at st t k")
  case (Some a)
  have k: "k \<le> nat (nHeight b)"
    using assms(2) Some by (auto simp: ancestor_at_def height_at_def split: if_splits)
  obtain c where "st a = Some c" "nHeight c = int k"
    using ancestor_at_exists[OF assms(1,2) k] Some by (metis option.inject)
  then show ?thesis
    using Some assms(2,3) k wf_height[OF assms(1,2)] by (simp add: TestLockPointValidity_def Contains_def chain_at_def path_nth height_at_def)
qed (use assms(3) in \<open>simp add: TestLockPointValidity_def\<close>)

theorem lock_points_survive_reorganisation_witness:
  "\<exists>bt lp r. header_run ex_net bt
     \<and> CheckSequenceLocks (bt_store bt) 5 (path (bt_store bt) 1) ex_view ex_locked_tx 1 (Some lp) True = Some (r, Some lp)"
proof -
  obtain bt b where b: "header_run ex_net bt" "bt_store bt 1 = Some b" "nHeight b = 1" "bt_store bt 5 = None"
    by (rule ex_second)
  let ?st = "bt_store bt" and ?l0 = "\<lparr>lp_height = 0, lp_time = 0, lp_maxInputBlock = None\<rparr>"
  have wf: "wf_store ?st"
    using header_run_inv[OF b(1) ex_genesis_ok] by (simp add: headers_inv_def tree_inv_def)
  have hs: "prev_heights ex_view (nHeight b) (vin ex_locked_tx) = Some [0]"
    by (simp add: ex_locked_tx_def ex_view_def mk_Coin_def MEMPOOL_HEIGHT_def)
  have len: "length (vin ex_locked_tx) = 1"
    by (simp add: ex_locked_tx_def)
  have "\<exists>m hs'. lock_loop ?st 1 (vin ex_locked_tx) [0] (- 1, - 1) = Some (m, hs')"
    using lock_loop_open[OF wf b(2), of "vin ex_locked_tx" "[0]" "(- 1, - 1)"] b(3) len by auto
  then obtain l hs' where "CalculateSequenceLocks ?st ex_locked_tx 1 [0] 1 = Some (l, hs')"
    by (cases "enforces_bip68 ex_locked_tx 1") (auto simp: CalculateSequenceLocks_def len)
  moreover obtain r where "EvaluateSequenceLocks (?st(5 \<mapsto> next_entry b 1)) 5 l = Some r"
    using EvaluateSequenceLocks_next[OF wf b(2,4)] by blast
  ultimately obtain lp where lp: "CheckSequenceLocks ?st 5 (path ?st 1) ex_view ex_locked_tx 1 (Some ?l0) False = Some (r, Some lp)"
    "lp_maxInputBlock lp = ancestor_at ?st 1 (nat (max_input_height (nHeight b) hs'))"
    using CheckSequenceLocks_fresh[OF wf b(2,4) hs, of 1 "Some ?l0"] b(3) by simp
  have "TestLockPointValidity ?st (path ?st 1) lp = Some True"
    by (rule TestLockPointValidity_same[OF wf b(2) lp(2)])
  from lock_points_survive_reorganisation[OF b(1,1) ex_genesis_ok sub_tree_refl b(2,2,4,4) hs hs _ lp(1) this] show ?thesis
    using b(1,3) by auto
qed

end
