(* ===== verification/Merkle.thy ===== *)
theory Merkle
  imports Prelude "HOL-Library.Monad_Syntax"
begin

text \<open>
  Merkle trees of blocks (\<^verbatim>\<open>src/src/consensus/merkle.cpp\<close>): the constant-space calculator of roots and branches, the
  root from a branch. The parameter \<open>H\<close> is \<^verbatim>\<open>CHash256\<close> over the 64 bytes of two hashes. The reference is the tree
  itself: a node of a level hashes its two halves, or its only half twice.
\<close>

section \<open>The calculator\<close>

type_synonym hash2 = "uint256 \<Rightarrow> uint256 \<Rightarrow> uint256"

text \<open>
  The variables of \<^verbatim>\<open>MerkleComputation\<close>; \<open>pbranch\<close> is \<open>None\<close> for a null pointer. The counter is a \<^verbatim>\<open>uint32_t\<close>, kept below \<open>2 ^ 32\<close>
  by the reductions written out at its increments.
\<close>

record merkle_state =
  ms_inner :: "uint256 list"
  ms_count :: nat
  ms_mutated :: bool
  ms_matchlevel :: int
  ms_branch :: "uint256 list option"

definition branch_step :: "uint256 \<Rightarrow> uint256 \<Rightarrow> bool \<Rightarrow> bool \<Rightarrow> uint256 list option \<Rightarrow> bool \<times> uint256 list option" where
  "branch_step inner h matchh atlevel pbranch =
     (case pbranch of
        None \<Rightarrow> (matchh, None)
      | Some b \<Rightarrow> if matchh then (True, Some (b @ [inner])) else if atlevel then (True, Some (b @ [h])) else (False, Some b))"

text \<open>
  The loop over the levels whose bit in the counter is zero. It appears twice, for a new leaf and in the final sweep;
  only the first use keeps \<open>mutated\<close>. \<open>None\<close> is an access beyond the 32 levels.
\<close>

function combine :: "hash2 \<Rightarrow> merkle_state \<Rightarrow> nat \<Rightarrow> uint256 \<Rightarrow> bool \<Rightarrow> (nat \<times> uint256 \<times> bool \<times> merkle_state) option" where
  "combine H s level h matchh =
     (if level \<ge> 32 then None
      else if bit (ms_count s) level then Some (level, h, matchh, s)
      else
        let x = ms_inner s ! level;
            (matchh', pbranch) = branch_step x h matchh (ms_matchlevel s = int level) (ms_branch s) in
        combine H (s\<lparr>ms_branch := pbranch, ms_mutated := ms_mutated s \<or> x = h\<rparr>) (level + 1) (H x h) matchh')"
  by pat_completeness auto
termination
  by (relation "measure (\<lambda>(H, s, level, h, matchh). 32 - level)") auto

definition add_leaf :: "hash2 \<Rightarrow> nat \<Rightarrow> merkle_state \<Rightarrow> uint256 \<Rightarrow> merkle_state option" where
  "add_leaf H branchpos s h =
     do {
       (level, h', matchh, s') \<leftarrow>
         combine H (s\<lparr>ms_count := (ms_count s + 1) mod 2 ^ 32\<rparr>) 0 h (ms_count s = branchpos);
       Some (s'\<lparr>ms_inner := (ms_inner s')[level := h'], ms_matchlevel := (if matchh then int level else ms_matchlevel s')\<rparr>)
     }"

fun leaf_loop :: "hash2 \<Rightarrow> nat \<Rightarrow> merkle_state \<Rightarrow> uint256 list \<Rightarrow> merkle_state option" where
  "leaf_loop H branchpos s [] = Some s"
| "leaf_loop H branchpos s (h # leaves) = add_leaf H branchpos s h \<bind> (\<lambda>s'. leaf_loop H branchpos s' leaves)"

function lowest_level :: "nat \<Rightarrow> nat \<Rightarrow> nat option" where
  "lowest_level count level = (if level \<ge> 32 then None else if bit count level then Some level else lowest_level count (level + 1))"
  by pat_completeness auto
termination
  by (relation "measure (\<lambda>(count, level). 32 - level)") auto

fun sweep :: "nat \<Rightarrow> hash2 \<Rightarrow> merkle_state \<Rightarrow> nat \<Rightarrow> uint256 \<Rightarrow> bool \<Rightarrow> (uint256 \<times> merkle_state) option" where
  "sweep 0 H s level h matchh = None"
| "sweep (Suc fuel) H s level h matchh =
     (if ms_count s = 2 ^ level then Some (h, s)
      else
        let pbranch = (if matchh then map_option (\<lambda>b. b @ [h]) (ms_branch s) else ms_branch s) in
        do {
          (level', h', matchh', s') \<leftarrow>
            combine H (s\<lparr>ms_count := (ms_count s + 2 ^ level) mod 2 ^ 32, ms_branch := pbranch\<rparr>) (level + 1) (H h h) matchh;
          sweep fuel H (s'\<lparr>ms_mutated := ms_mutated s\<rparr>) level' h' matchh'
        })"

definition MerkleComputation :: "hash2 \<Rightarrow> uint256 list \<Rightarrow> nat \<Rightarrow> bool \<Rightarrow> (uint256 \<times> bool \<times> uint256 list option) option" where
  "MerkleComputation H leaves branchpos want =
     (let pbranch = (if want then Some [] else None) in
      if length leaves = 0 then Some (0, False, pbranch)
      else do {
        s \<leftarrow> leaf_loop H branchpos
          \<lparr>ms_inner = replicate 32 0, ms_count = 0, ms_mutated = False, ms_matchlevel = -1, ms_branch = pbranch\<rparr> leaves;
        level \<leftarrow> lowest_level (ms_count s) 0;
        (h, s') \<leftarrow> sweep 33 H s level (ms_inner s ! level) (ms_matchlevel s = int level);
        Some (h, ms_mutated s', ms_branch s')
      })"

definition ComputeMerkleRoot :: "hash2 \<Rightarrow> uint256 list \<Rightarrow> (uint256 \<times> bool) option" where
  "ComputeMerkleRoot H leaves = map_option (\<lambda>(root, mutated, _). (root, mutated)) (MerkleComputation H leaves (2 ^ 32 - 1) False)"

definition ComputeMerkleBranch :: "hash2 \<Rightarrow> uint256 list \<Rightarrow> nat \<Rightarrow> uint256 list option" where
  "ComputeMerkleBranch H leaves position = MerkleComputation H leaves position True \<bind> (\<lambda>(_, _, pbranch). pbranch)"

fun ComputeMerkleRootFromBranch :: "hash2 \<Rightarrow> uint256 \<Rightarrow> uint256 list \<Rightarrow> nat \<Rightarrow> uint256" where
  "ComputeMerkleRootFromBranch H hash [] nIndex = hash"
| "ComputeMerkleRootFromBranch H hash (b # branch) nIndex =
     ComputeMerkleRootFromBranch H (if odd nIndex then H b hash else H hash b) branch (nIndex div 2)"

section \<open>The tree\<close>

text \<open>The node of a level over one to \<open>2 ^ level\<close> leaves; whether two complete neighbours below it are equal; the branch of a leaf.\<close>

fun node :: "hash2 \<Rightarrow> nat \<Rightarrow> uint256 list \<Rightarrow> uint256" where
  "node H 0 xs = hd xs"
| "node H (Suc k) xs =
     (let l = node H k (take (2 ^ k) xs) in H l (if length xs \<le> 2 ^ k then l else node H k (drop (2 ^ k) xs)))"

fun twins :: "hash2 \<Rightarrow> nat \<Rightarrow> uint256 list \<Rightarrow> bool" where
  "twins H 0 xs \<longleftrightarrow> False"
| "twins H (Suc k) xs \<longleftrightarrow>
     (if length xs \<le> 2 ^ k then twins H k xs
      else twins H k (take (2 ^ k) xs) \<or> twins H k (drop (2 ^ k) xs) \<or>
        length xs = 2 ^ Suc k \<and> node H k (take (2 ^ k) xs) = node H k (drop (2 ^ k) xs))"

fun branch :: "hash2 \<Rightarrow> nat \<Rightarrow> uint256 list \<Rightarrow> nat \<Rightarrow> uint256 list" where
  "branch H 0 xs pos = []"
| "branch H (Suc k) xs pos =
     (if pos < 2 ^ k
      then branch H k (take (2 ^ k) xs) pos @ [node H k (if length xs \<le> 2 ^ k then take (2 ^ k) xs else drop (2 ^ k) xs)]
      else branch H k (drop (2 ^ k) xs) (pos - 2 ^ k) @ [node H k (take (2 ^ k) xs)])"

fun depth :: "nat \<Rightarrow> nat" where
  "depth n = (if n \<le> 1 then 0 else Suc (depth ((n + 1) div 2)))"

declare combine.simps [simp del] lowest_level.simps [simp del] depth.simps [simp del]

section \<open>What the calculator knows\<close>

text \<open>
  In the middle of the work, the leaves are split into \<open>A\<close> complete nodes of level \<open>l\<close> and one node more, complete or not, whose
  hash is \<open>h\<close>. The first part is a forest with one tree for every bit of \<open>A\<close>: bit \<open>j\<close> stands for the complete node of level
  \<open>l + j\<close> over the segment \<open>tree l A j\<close>, whose hash is in \<open>inner\<close>.
\<close>

definition offset :: "nat \<Rightarrow> nat \<Rightarrow> nat \<Rightarrow> nat" where
  "offset l A j = A div 2 ^ Suc j * 2 ^ Suc j * 2 ^ l"

definition tree :: "nat \<Rightarrow> nat \<Rightarrow> nat \<Rightarrow> uint256 list \<Rightarrow> uint256 list" where
  "tree l A j xs = take (2 ^ (l + j)) (drop (offset l A j) xs)"

definition rest_of :: "nat \<Rightarrow> nat \<Rightarrow> uint256 list \<Rightarrow> uint256 list" where
  "rest_of l A xs = drop (A * 2 ^ l) xs"

definition forest_twins :: "hash2 \<Rightarrow> nat \<Rightarrow> nat \<Rightarrow> uint256 list \<Rightarrow> bool" where
  "forest_twins H l A xs \<longleftrightarrow> (\<exists>j. bit A j \<and> twins H (l + j) (tree l A j xs)) \<or> twins H l (rest_of l A xs)"

definition hashes_ok :: "hash2 \<Rightarrow> uint256 list \<Rightarrow> nat \<Rightarrow> nat \<Rightarrow> uint256 list \<Rightarrow> bool" where
  "hashes_ok H inner l A xs \<longleftrightarrow> (\<forall>j. bit A j \<longrightarrow> inner ! (l + j) = node H (l + j) (tree l A j xs))"

definition branch_ok :: "hash2 \<Rightarrow> nat \<Rightarrow> nat \<Rightarrow> nat \<Rightarrow> int \<Rightarrow> bool \<Rightarrow> uint256 list \<Rightarrow> uint256 list \<Rightarrow> bool" where
  "branch_ok H pos l A matchlevel matchh b xs \<longleftrightarrow>
     (if pos < A * 2 ^ l then
        \<not> matchh \<and> (\<exists>j. bit A j \<and> matchlevel = int (l + j) \<and> offset l A j \<le> pos \<and> pos < offset l A j + 2 ^ (l + j) \<and>
          b = branch H (l + j) (tree l A j xs) (pos - offset l A j))
      else if pos < length xs then matchh \<and> b = branch H l (rest_of l A xs) (pos - A * 2 ^ l)
      else \<not> matchh \<and> matchlevel = -1 \<and> b = [])"

definition knows :: "hash2 \<Rightarrow> nat \<Rightarrow> nat \<Rightarrow> nat \<Rightarrow> uint256 \<Rightarrow> bool \<Rightarrow> merkle_state \<Rightarrow> uint256 list \<Rightarrow> bool" where
  "knows H pos l A h matchh s xs \<longleftrightarrow>
     length (ms_inner s) = 32 \<and> hashes_ok H (ms_inner s) l A xs \<and> h = node H l (rest_of l A xs) \<and>
     A * 2 ^ l < length xs \<and> length xs \<le> (A + 1) * 2 ^ l \<and> ms_count s = (A + 1) * 2 ^ l \<and>
     (\<forall>b. ms_branch s = Some b \<longrightarrow> branch_ok H pos l A (ms_matchlevel s) matchh b xs)"

lemma bit_low_split: "(\<exists>j. bit (A :: nat) j \<and> P j) \<longleftrightarrow> odd A \<and> P 0 \<or> (\<exists>j. bit (A div 2) j \<and> P (Suc j))"
  by (metis bit_0 bit_Suc not0_implies_Suc)

lemma offset_Suc: "offset l A (Suc j) = offset (Suc l) (A div 2) j"
  using div_mult2_eq [of A 2 "2 ^ Suc j"] by (simp add: offset_def)

lemma tree_Suc: "tree l A (Suc j) xs = tree (Suc l) (A div 2) j xs"
  by (simp add: tree_def offset_Suc)

lemma offset_odd: "offset l (2 * B + 1) 0 = B * 2 ^ Suc l"
  by (simp add: offset_def)

lemma rest_odd:
  "tree l (2 * B + 1) 0 xs = take (2 ^ l) (rest_of (Suc l) B xs)"
  "rest_of l (2 * B + 1) xs = drop (2 ^ l) (rest_of (Suc l) B xs)"
  by (simp add: tree_def rest_of_def offset_odd [simplified]) (simp add: rest_of_def algebra_simps)

lemma rest_even: "rest_of (Suc l) B xs = rest_of l (2 * B) xs"
  by (simp add: rest_of_def algebra_simps)

lemma hashes_ok_Suc: "hashes_ok H inner l A xs \<Longrightarrow> hashes_ok H inner (Suc l) (A div 2) xs"
  unfolding hashes_ok_def by (metis add_Suc_shift bit_Suc tree_Suc)

lemma hashes_ok_odd: "hashes_ok H inner l (2 * B + 1) xs \<Longrightarrow> inner ! l = node H l (take (2 ^ l) (rest_of (Suc l) B xs))"
  unfolding hashes_ok_def by (metis Nat.add_0_right bit_0 odd_two_times_div_two_succ rest_odd(1) even_plus_one_iff dvd_triv_left)

lemma forest_twins_odd:
  assumes "(2 * B + 1) * 2 ^ l < length xs"
  shows "forest_twins H (Suc l) B xs \<longleftrightarrow> forest_twins H l (2 * B + 1) xs \<or>
     length xs = (2 * B + 2) * 2 ^ l \<and> node H l (take (2 ^ l) (rest_of (Suc l) B xs)) = node H l (rest_of l (2 * B + 1) xs)"
proof -
  have len: "length (rest_of (Suc l) B xs) > 2 ^ l"
    using assms by (simp add: rest_of_def algebra_simps)
  have full: "length (rest_of (Suc l) B xs) = 2 ^ Suc l \<longleftrightarrow> length xs = (2 * B + 2) * 2 ^ l"
    using assms by (auto simp: rest_of_def algebra_simps)
  have "forest_twins H l (2 * B + 1) xs \<longleftrightarrow>
      twins H l (tree l (2 * B + 1) 0 xs) \<or> (\<exists>j. bit B j \<and> twins H (Suc l + j) (tree (Suc l) B j xs)) \<or> twins H l (rest_of l (2 * B + 1) xs)"
    unfolding forest_twins_def by (subst bit_low_split) (simp add: tree_Suc)
  then show ?thesis using len full rest_odd [of l B xs] by (auto simp: forest_twins_def)
qed

lemma forest_twins_even:
  assumes "length xs \<le> (2 * B + 1) * 2 ^ l"
  shows "forest_twins H (Suc l) B xs \<longleftrightarrow> forest_twins H l (2 * B) xs"
proof -
  have len: "length (rest_of (Suc l) B xs) \<le> 2 ^ l"
    using assms by (simp add: rest_of_def algebra_simps)
  have "forest_twins H l (2 * B) xs \<longleftrightarrow>
      (\<exists>j. bit B j \<and> twins H (Suc l + j) (tree (Suc l) B j xs)) \<or> twins H l (rest_of l (2 * B) xs)"
    unfolding forest_twins_def by (subst bit_low_split) (simp add: tree_Suc)
  then show ?thesis using len rest_even [of l B xs] by (auto simp: forest_twins_def)
qed

lemma tree_below: "bit A j \<Longrightarrow> offset l A j + 2 ^ (l + j) \<le> A * 2 ^ l"
proof -
  assume "bit A j"
  then have "A div 2 ^ j = 2 * (A div 2 ^ Suc j) + 1"
    by (metis bit_iff_odd div_exp_eq odd_two_times_div_two_succ plus_1_eq_Suc add.commute power_one_right)
  moreover have "A div 2 ^ j * 2 ^ j \<le> A" by simp
  ultimately have "(2 * (A div 2 ^ Suc j) + 1) * 2 ^ j \<le> A" by simp
  then have "(2 * (A div 2 ^ Suc j) + 1) * 2 ^ j * 2 ^ l \<le> A * 2 ^ l" by (rule mult_le_mono1)
  then show ?thesis by (simp add: offset_def power_add algebra_simps)
qed

text \<open>Joining the node at hand with its left neighbour.\<close>

lemma branch_ok_join:
  assumes "branch_ok H pos l (2 * B + 1) ml matchh b xs" and "(2 * B + 1) * 2 ^ l < length xs" and "length xs \<le> (2 * B + 2) * 2 ^ l"
    and "branch_step x h matchh (ml = int l) (Some b) = (matchh', Some b')"
    and "x = node H l (take (2 ^ l) (rest_of (Suc l) B xs))" and "h = node H l (rest_of l (2 * B + 1) xs)"
  shows "branch_ok H pos (Suc l) B ml matchh' b' xs"
proof -
  have len: "\<not> length (rest_of (Suc l) B xs) \<le> 2 ^ l"
    using assms(2) by (simp add: rest_of_def algebra_simps)
  consider "pos < B * 2 ^ Suc l" | "B * 2 ^ Suc l \<le> pos" "pos < (2 * B + 1) * 2 ^ l" | "(2 * B + 1) * 2 ^ l \<le> pos" "pos < length xs"
    | "length xs \<le> pos" by linarith
  then show ?thesis
  proof cases
    case 1
    then have "pos < (2 * B + 1) * 2 ^ l" by (simp add: algebra_simps)
    then obtain j where m: "\<not> matchh" and j: "bit (2 * B + 1) j" "ml = int (l + j)" "offset l (2 * B + 1) j \<le> pos"
      "pos < offset l (2 * B + 1) j + 2 ^ (l + j)" "b = branch H (l + j) (tree l (2 * B + 1) j xs) (pos - offset l (2 * B + 1) j)"
      using assms(1) by (auto simp: branch_ok_def)
    have "j \<noteq> 0" using j(3) 1 offset_odd [of l B] by (metis not_le)
    then obtain i where i: "j = Suc i" by (cases j) auto
    have "matchh' = False" "b' = b" using assms(4) m j(2) i by (auto simp: branch_step_def)
    moreover have "bit B i" using j(1) i by (simp add: bit_Suc)
    ultimately show ?thesis using 1 j i by (auto simp: branch_ok_def offset_Suc tree_Suc)
  next
    case 2
    then obtain j where m: "\<not> matchh" and j: "bit (2 * B + 1) j" "ml = int (l + j)" "offset l (2 * B + 1) j \<le> pos"
      "pos < offset l (2 * B + 1) j + 2 ^ (l + j)" "b = branch H (l + j) (tree l (2 * B + 1) j xs) (pos - offset l (2 * B + 1) j)"
      using assms(1) by (auto simp: branch_ok_def)
    have "j = 0"
    proof (cases j)
      case (Suc i)
      then have "bit B i" using j(1) by (simp add: bit_Suc)
      from tree_below [OF this, of "Suc l"] j(4) 2 Suc show ?thesis by (simp add: offset_Suc)
    qed simp
    then have "ml = int l" "b = branch H l (take (2 ^ l) (rest_of (Suc l) B xs)) (pos - B * 2 ^ Suc l)"
      using j rest_odd(1) [of l B xs] offset_odd [of l B] by simp_all
    moreover have "pos - B * 2 ^ Suc l < 2 ^ l" using 2 by (simp add: algebra_simps)
    ultimately show ?thesis
      using assms(2,4,6) m 2 len rest_odd(2) [of l B xs] by (auto simp: branch_ok_def branch_step_def)
  next
    case 3
    then have "matchh" "b = branch H l (drop (2 ^ l) (rest_of (Suc l) B xs)) (pos - (2 * B + 1) * 2 ^ l)"
      using assms(1) rest_odd(2) [of l B xs] by (auto simp: branch_ok_def)
    moreover have "\<not> pos - B * 2 ^ Suc l < 2 ^ l" "\<not> pos < B * 2 ^ Suc l" "pos - B * 2 ^ Suc l - 2 ^ l = pos - (2 * B + 1) * 2 ^ l"
      using 3 by (simp_all add: algebra_simps)
    ultimately show ?thesis using assms(4,5) 3 by (auto simp: branch_ok_def branch_step_def)
  next
    case 4
    then have p: "\<not> pos < (2 * B + 1) * 2 ^ l" "\<not> pos < length xs" "\<not> pos < B * 2 ^ Suc l" using assms(2) by (simp_all add: algebra_simps)
    then have "\<not> matchh" "ml = -1" "b = []" using assms(1) by (auto simp: branch_ok_def)
    then show ?thesis using assms(4) p by (auto simp: branch_ok_def branch_step_def)
  qed
qed

text \<open>Joining the node at hand with itself.\<close>

lemma branch_ok_double:
  assumes "branch_ok H pos l (2 * B) ml matchh b xs" and "2 * B * 2 ^ l < length xs" and "length xs \<le> (2 * B + 1) * 2 ^ l"
    and "h = node H l (rest_of l (2 * B) xs)"
  shows "branch_ok H pos (Suc l) B ml matchh (if matchh then b @ [h] else b) xs"
proof -
  have len: "length (rest_of (Suc l) B xs) \<le> 2 ^ l" using assms(3) by (simp add: rest_of_def algebra_simps)
  consider "pos < B * 2 ^ Suc l" | "\<not> pos < B * 2 ^ Suc l" "pos < length xs" | "\<not> pos < B * 2 ^ Suc l" "\<not> pos < length xs" by linarith
  then show ?thesis
  proof cases
    case 1
    then obtain j where m: "\<not> matchh" and j: "bit (2 * B) j" "ml = int (l + j)" "offset l (2 * B) j \<le> pos"
      "pos < offset l (2 * B) j + 2 ^ (l + j)" "b = branch H (l + j) (tree l (2 * B) j xs) (pos - offset l (2 * B) j)"
      using assms(1) by (auto simp: branch_ok_def algebra_simps)
    then obtain i where i: "j = Suc i" by (cases j) (auto simp: bit_0)
    then have "bit B i" using j(1) by (simp add: bit_Suc)
    then show ?thesis using 1 m j i by (auto simp: branch_ok_def offset_Suc tree_Suc)
  next
    case 2
    then have "matchh" "b = branch H l (rest_of (Suc l) B xs) (pos - B * 2 ^ Suc l)"
      using assms(1) rest_even [of l B xs] by (auto simp: branch_ok_def algebra_simps)
    moreover have "pos - B * 2 ^ Suc l < 2 ^ l" using 2 assms(3) by (simp add: algebra_simps)
    ultimately show ?thesis using 2 len assms(4) rest_even [of l B xs] by (simp add: branch_ok_def)
  next
    case 3
    then show ?thesis using assms(1) by (auto simp: branch_ok_def algebra_simps)
  qed
qed

lemma knows_join:
  assumes k: "knows H pos l (2 * B + 1) h matchh s xs"
    and step: "branch_step (ms_inner s ! l) h matchh (ms_matchlevel s = int l) (ms_branch s) = (matchh', pbranch)"
  shows "knows H pos (Suc l) B (H (ms_inner s ! l) h) matchh' (s\<lparr>ms_branch := pbranch, ms_mutated := m\<rparr>) xs"
    and "forest_twins H (Suc l) B xs \<longleftrightarrow>
      forest_twins H l (2 * B + 1) xs \<or> length xs = (2 * B + 2) * 2 ^ l \<and> ms_inner s ! l = h"
proof -
  have hs: "hashes_ok H (ms_inner s) l (2 * B + 1) xs" and h: "h = node H l (rest_of l (2 * B + 1) xs)"
    and lo: "(2 * B + 1) * 2 ^ l < length xs" and hi: "length xs \<le> (2 * B + 2) * 2 ^ l" and c: "ms_count s = (2 * B + 2) * 2 ^ l"
    using k by (simp_all add: knows_def)
  have x: "ms_inner s ! l = node H l (take (2 ^ l) (rest_of (Suc l) B xs))" by (rule hashes_ok_odd [OF hs])
  have len: "\<not> length (rest_of (Suc l) B xs) \<le> 2 ^ l" using lo by (simp add: rest_of_def algebra_simps)
  have "branch_ok H pos (Suc l) B (ms_matchlevel s) matchh' b' xs" if p: "pbranch = Some b'" for b'
  proof -
    obtain b where b: "ms_branch s = Some b" using step p by (auto simp: branch_step_def split: option.splits)
    with k have "branch_ok H pos l (2 * B + 1) (ms_matchlevel s) matchh b xs" by (simp add: knows_def)
    from branch_ok_join [OF this lo hi _ x h] step b p show ?thesis by simp
  qed
  moreover have "H (ms_inner s ! l) h = node H (Suc l) (rest_of (Suc l) B xs)" using len x h rest_odd(2) [of l B xs] by simp
  moreover have "hashes_ok H (ms_inner s) (Suc l) B xs" using hashes_ok_Suc [OF hs] by simp
  ultimately show "knows H pos (Suc l) B (H (ms_inner s ! l) h) matchh' (s\<lparr>ms_branch := pbranch, ms_mutated := m\<rparr>) xs"
    using k lo hi c by (simp add: knows_def algebra_simps)
  show "forest_twins H (Suc l) B xs \<longleftrightarrow>
      forest_twins H l (2 * B + 1) xs \<or> length xs = (2 * B + 2) * 2 ^ l \<and> ms_inner s ! l = h"
    using forest_twins_odd [OF lo] x h by simp
qed

lemma knows_double:
  assumes k: "knows H pos l (2 * B) h matchh s xs" and B: "ms_count s \<noteq> 2 ^ l" and small: "ms_count s + 2 ^ l < 2 ^ 32"
  shows "knows H pos (Suc l) B (H h h) matchh (s\<lparr>ms_count := (ms_count s + 2 ^ l) mod 2 ^ 32,
      ms_branch := (if matchh then map_option (\<lambda>b. b @ [h]) (ms_branch s) else ms_branch s)\<rparr>) xs"
    and "forest_twins H (Suc l) B xs \<longleftrightarrow> forest_twins H l (2 * B) xs"
proof -
  have hs: "hashes_ok H (ms_inner s) l (2 * B) xs" and h: "h = node H l (rest_of l (2 * B) xs)"
    and lo: "2 * B * 2 ^ l < length xs" and hi: "length xs \<le> (2 * B + 1) * 2 ^ l" and c: "ms_count s = (2 * B + 1) * 2 ^ l"
    using k by (simp_all add: knows_def)
  have len: "length (rest_of (Suc l) B xs) \<le> 2 ^ l" using hi by (simp add: rest_of_def algebra_simps)
  have "branch_ok H pos (Suc l) B (ms_matchlevel s) matchh (if matchh then b @ [h] else b) xs" if "ms_branch s = Some b" for b
    using k that by (intro branch_ok_double [OF _ lo hi h]) (simp add: knows_def)
  moreover have "H h h = node H (Suc l) (rest_of (Suc l) B xs)" using len h rest_even [of l B xs] by (simp add: Let_def)
  moreover have "hashes_ok H (ms_inner s) (Suc l) B xs" using hashes_ok_Suc [OF hs] by simp
  moreover have "(ms_count s + 2 ^ l) mod 2 ^ 32 = (B + 1) * 2 ^ Suc l" using small c by (simp add: algebra_simps)
  moreover have "B * 2 ^ Suc l < length xs" "length xs \<le> (B + 1) * 2 ^ Suc l" using lo hi by (simp_all add: algebra_simps)
  ultimately show "knows H pos (Suc l) B (H h h) matchh (s\<lparr>ms_count := (ms_count s + 2 ^ l) mod 2 ^ 32,
      ms_branch := (if matchh then map_option (\<lambda>b. b @ [h]) (ms_branch s) else ms_branch s)\<rparr>) xs"
    using k unfolding knows_def by (cases matchh) (auto simp del: power_Suc)
  show "forest_twins H (Suc l) B xs \<longleftrightarrow> forest_twins H l (2 * B) xs" by (rule forest_twins_even [OF hi])
qed

lemma bit_count: "bit ((A + 1) * 2 ^ l) l \<longleftrightarrow> even (A :: nat)"
  by (simp add: bit_iff_odd)

lemma level_small: "(A + 1) * 2 ^ l < (2 :: nat) ^ 32 \<Longrightarrow> l < 32"
proof (rule ccontr)
  assume a: "(A + 1) * 2 ^ l < (2 :: nat) ^ 32" and "\<not> l < 32"
  then have "(2 :: nat) ^ 32 \<le> 2 ^ l" by (intro power_increasing) simp_all
  also have "\<dots> \<le> (A + 1) * 2 ^ l" by simp
  finally show False using a by simp
qed

text \<open>
  What the loop over the zero bits keeps, when it goes from node \<open>A\<close> of level \<open>l\<close> to node \<open>2 * B\<close> of level \<open>l'\<close>: the array, the counter and the
  level of the match; the flag is right if it was and the last node is complete.
\<close>

definition combined :: "hash2 \<Rightarrow> nat \<Rightarrow> nat \<Rightarrow> merkle_state \<Rightarrow> uint256 list \<Rightarrow> nat \<Rightarrow> nat \<Rightarrow> merkle_state \<Rightarrow> bool" where
  "combined H l A s xs l' A' s' \<longleftrightarrow>
     l \<le> l' \<and> (l' = l \<or> 2 ^ l' < 2 * length xs) \<and> ms_inner s' = ms_inner s \<and> ms_count s' = ms_count s \<and> ms_matchlevel s' = ms_matchlevel s \<and>
     (ms_branch s' = None \<longleftrightarrow> ms_branch s = None) \<and>
     (length xs = ms_count s \<longrightarrow> ms_mutated s = forest_twins H l A xs \<longrightarrow> ms_mutated s' = forest_twins H l' A' xs) \<and>
     (length xs < ms_count s \<longrightarrow> forest_twins H l' A' xs = forest_twins H l A xs)"

lemma combined_refl: "combined H l A s xs l A s"
  by (simp add: combined_def)

lemma combined_trans: "combined H l A s xs l1 A1 s1 \<Longrightarrow> combined H l1 A1 s1 xs l2 A2 s2 \<Longrightarrow> combined H l A s xs l2 A2 s2"
  unfolding combined_def by auto

lemma combine_knows:
  "knows H pos l A h matchh s xs \<Longrightarrow> (A + 1) * 2 ^ l < 2 ^ 32 \<Longrightarrow>
   \<exists>l' B h' matchh' s'. combine H s l h matchh = Some (l', h', matchh', s') \<and> knows H pos l' (2 * B) h' matchh' s' xs \<and>
     combined H l A s xs l' (2 * B) s'"
proof (induction H s l h matchh arbitrary: A rule: combine.induct)
  case (1 H s l h matchh)
  have c: "ms_count s = (A + 1) * 2 ^ l" using 1(2) by (simp add: knows_def)
  have l: "\<not> l \<ge> 32" using level_small [OF 1(3)] by simp
  show ?case
  proof (cases "even A")
    case True
    then obtain B where "A = 2 * B" by blast
    moreover have "bit (ms_count s) l" using bit_count True c by simp
    ultimately show ?thesis using 1(2) l combined_refl by (auto simp: combine.simps [of H s l])
  next
    case False
    then obtain B where A: "A = 2 * B + 1" by (elim oddE)
    obtain matchh' pbranch where st: "branch_step (ms_inner s ! l) h matchh (ms_matchlevel s = int l) (ms_branch s) = (matchh', pbranch)" by fastforce
    have nb: "\<not> bit (ms_count s) l" using bit_count False c by simp
    define s1 where "s1 = s\<lparr>ms_branch := pbranch, ms_mutated := ms_mutated s \<or> ms_inner s ! l = h\<rparr>"
    have k: "knows H pos (Suc l) B (H (ms_inner s ! l) h) matchh' s1 xs" and ft: "forest_twins H (Suc l) B xs \<longleftrightarrow>
      forest_twins H l A xs \<or> length xs = (A + 1) * 2 ^ l \<and> ms_inner s ! l = h"
      using knows_join [OF 1(2) [unfolded A] st] by (simp_all add: s1_def A)
    have "ms_branch s1 = None \<longleftrightarrow> ms_branch s = None"
      using st by (cases "ms_branch s") (auto simp: s1_def branch_step_def split: if_splits dest: sym)
    moreover have "2 ^ Suc l < 2 * length xs" using 1(2) by (simp add: knows_def A)
    ultimately have join: "combined H l A s xs (Suc l) B s1" using ft c by (auto simp: combined_def s1_def)
    have eq: "combine H s l h matchh = combine H s1 (l + 1) (H (ms_inner s ! l) h) matchh'"
      using l nb st by (simp add: combine.simps [of H s l] s1_def Let_def)
    have "(B + 1) * 2 ^ (l + 1) < 2 ^ 32" using 1(3) by (simp add: A algebra_simps)
    from 1(1) [OF l nb refl st [symmetric] refl, folded s1_def, of B, OF _ this] k
    obtain l' C h' mh' s' where r: "combine H s1 (l + 1) (H (ms_inner s ! l) h) matchh' = Some (l', h', mh', s')"
      "knows H pos l' (2 * C) h' mh' s' xs" and "combined H (Suc l) B s1 xs l' (2 * C) s'"
      unfolding Suc_eq_plus1 by blast
    from combined_trans [OF join this(3)] r eq show ?thesis by auto
  qed
qed

section \<open>Between two leaves\<close>

text \<open>After the leaves \<open>xs\<close>, the array holds the trees of the binary form of their number.\<close>

definition located :: "hash2 \<Rightarrow> nat \<Rightarrow> nat \<Rightarrow> nat \<Rightarrow> int \<Rightarrow> uint256 list \<Rightarrow> uint256 list \<Rightarrow> bool" where
  "located H pos l A ml b xs \<longleftrightarrow>
     (\<exists>j. bit A j \<and> ml = int (l + j) \<and> offset l A j \<le> pos \<and> pos < offset l A j + 2 ^ (l + j) \<and>
        b = branch H (l + j) (tree l A j xs) (pos - offset l A j))"

definition tree_twins :: "hash2 \<Rightarrow> nat \<Rightarrow> nat \<Rightarrow> uint256 list \<Rightarrow> bool" where
  "tree_twins H l A xs \<longleftrightarrow> (\<exists>j. bit A j \<and> twins H (l + j) (tree l A j xs))"

definition stored :: "hash2 \<Rightarrow> nat \<Rightarrow> nat \<Rightarrow> nat \<Rightarrow> merkle_state \<Rightarrow> uint256 list \<Rightarrow> bool" where
  "stored H pos l A s xs \<longleftrightarrow>
     length (ms_inner s) = 32 \<and> length xs = A * 2 ^ l \<and> ms_count s = length xs \<and> hashes_ok H (ms_inner s) l A xs \<and>
     (ms_mutated s \<longleftrightarrow> tree_twins H l A xs) \<and>
     (\<forall>b. ms_branch s = Some b \<longrightarrow>
        (if pos < length xs then located H pos l A (ms_matchlevel s) b xs else ms_matchlevel s = -1 \<and> b = []))"

lemma bit_shift: "bit (A * 2 ^ l :: nat) j \<longleftrightarrow> l \<le> j \<and> bit A (j - l)"
  using bit_push_bit_iff_nat [of l A j] by (simp add: push_bit_eq_mult)

lemma bit_shift_ex: "(\<exists>j. bit (A * 2 ^ l :: nat) j \<and> P j) \<longleftrightarrow> (\<exists>j. bit A j \<and> P (l + j))"
  unfolding bit_shift by (metis add_diff_cancel_left' le_add1 le_add_diff_inverse)

lemma offset_shift: "offset 0 (A * 2 ^ l) (l + j) = offset l A j"
proof -
  have "A * 2 ^ l div 2 ^ Suc (l + j) = A div 2 ^ Suc j"
    using div_mult2_eq [of "A * 2 ^ l" "2 ^ l" "2 ^ Suc j"] by (simp add: power_add)
  then show ?thesis by (simp add: offset_def power_add)
qed

lemma tree_shift: "tree 0 (A * 2 ^ l) (l + j) xs = tree l A j xs"
  by (simp add: tree_def offset_shift)

lemma stored_shift: "stored H pos 0 (A * 2 ^ l) s xs \<longleftrightarrow> stored H pos l A s xs"
proof -
  have "hashes_ok H (ms_inner s) 0 (A * 2 ^ l) xs \<longleftrightarrow> hashes_ok H (ms_inner s) l A xs"
    using bit_shift_ex [of A l "\<lambda>j. ms_inner s ! j \<noteq> node H j (tree 0 (A * 2 ^ l) j xs)"] by (auto simp: hashes_ok_def tree_shift)
  moreover have "tree_twins H 0 (A * 2 ^ l) xs \<longleftrightarrow> tree_twins H l A xs"
    unfolding tree_twins_def add_0 by (simp only: bit_shift_ex tree_shift)
  moreover have "located H pos 0 (A * 2 ^ l) ml b xs \<longleftrightarrow> located H pos l A ml b xs" for ml b
    unfolding located_def add_0 by (simp only: bit_shift_ex tree_shift offset_shift)
  ultimately show ?thesis by (simp add: stored_def)
qed

lemma depth_unique: "0 < n \<Longrightarrow> n \<le> 2 ^ l \<Longrightarrow> 2 ^ l < 2 * n \<Longrightarrow> depth n = l"
proof (induction l arbitrary: n)
  case 0
  then show ?case by (simp add: depth.simps)
next
  case (Suc l)
  have "(2 :: nat) ^ l \<ge> 1" by simp
  with Suc have "depth ((n + 1) div 2) = l" by (intro Suc.IH) auto
  moreover have "\<not> n \<le> 1" using Suc.prems \<open>(2 :: nat) ^ l \<ge> 1\<close> by simp
  ultimately show ?case by (simp add: depth.simps [of n])
qed

text \<open>The lowest tree of an odd number of nodes, and the trees above it.\<close>

lemma located_split:
  "located H pos l (Suc (2 * B)) ml b xs \<longleftrightarrow>
     ml = int l \<and> B * 2 ^ Suc l \<le> pos \<and> pos < B * 2 ^ Suc l + 2 ^ l \<and> b = branch H l (take (2 ^ l) (rest_of (Suc l) B xs)) (pos - B * 2 ^ Suc l) \<or>
     located H pos (Suc l) B ml b xs"
  "located H pos l (2 * B) ml b xs \<longleftrightarrow> located H pos (Suc l) B ml b xs"
proof -
  have A: "odd (Suc (2 * B))" "Suc (2 * B) div 2 = B" by simp_all
  have o: "offset l (Suc (2 * B)) 0 = B * 2 ^ Suc l" and t: "tree l (Suc (2 * B)) 0 xs = take (2 ^ l) (rest_of (Suc l) B xs)"
    using offset_odd [of l B] rest_odd(1) [of l B xs] by simp_all
  show "located H pos l (Suc (2 * B)) ml b xs \<longleftrightarrow>
     ml = int l \<and> B * 2 ^ Suc l \<le> pos \<and> pos < B * 2 ^ Suc l + 2 ^ l \<and> b = branch H l (take (2 ^ l) (rest_of (Suc l) B xs)) (pos - B * 2 ^ Suc l) \<or>
     located H pos (Suc l) B ml b xs"
    unfolding located_def by (subst bit_low_split) (simp only: A o t offset_Suc tree_Suc add_0_right add_Suc_right add_Suc HOL.simp_thms)
  show "located H pos l (2 * B) ml b xs \<longleftrightarrow> located H pos (Suc l) B ml b xs"
    unfolding located_def by (subst bit_low_split) (simp add: offset_Suc tree_Suc)
qed

lemma tree_twins_split:
  "tree_twins H l (Suc (2 * B)) xs \<longleftrightarrow> twins H l (take (2 ^ l) (rest_of (Suc l) B xs)) \<or> tree_twins H (Suc l) B xs"
  "tree_twins H l (2 * B) xs \<longleftrightarrow> tree_twins H (Suc l) B xs"
  unfolding tree_twins_def by (subst bit_low_split, simp add: rest_odd(1) [simplified] tree_Suc)+

lemma hashes_ok_split:
  "hashes_ok H inner l (Suc (2 * B)) xs \<longleftrightarrow> inner ! l = node H l (take (2 ^ l) (rest_of (Suc l) B xs)) \<and> hashes_ok H inner (Suc l) B xs"
  "hashes_ok H inner l (2 * B) xs \<longleftrightarrow> hashes_ok H inner (Suc l) B xs"
  using bit_low_split [of "Suc (2 * B)" "\<lambda>j. inner ! (l + j) \<noteq> node H (l + j) (tree l (Suc (2 * B)) j xs)"]
    bit_low_split [of "2 * B" "\<lambda>j. inner ! (l + j) \<noteq> node H (l + j) (tree l (2 * B) j xs)"]
  by (auto simp: hashes_ok_def rest_odd(1) [simplified] tree_Suc)

lemma forest_twins_split: "forest_twins H l A xs \<longleftrightarrow> tree_twins H l A xs \<or> twins H l (rest_of l A xs)"
  by (simp add: forest_twins_def tree_twins_def)

lemma located_below: "located H pos l A ml b xs \<Longrightarrow> pos < A * 2 ^ l \<and> int l \<le> ml"
  unfolding located_def using tree_below order_less_le_trans by fastforce

lemma stored_knows:
  assumes "stored H pos l (Suc (2 * B)) s xs"
  shows "knows H pos l (2 * B) (ms_inner s ! l) (ms_matchlevel s = int l) s xs" and "ms_mutated s \<longleftrightarrow> forest_twins H l (2 * B) xs"
proof -
  have len: "length xs = (2 * B + 1) * 2 ^ l" using assms by (simp add: stored_def)
  then have rest: "take (2 ^ l) (rest_of (Suc l) B xs) = rest_of l (2 * B) xs" by (simp add: rest_of_def algebra_simps)
  show "ms_mutated s \<longleftrightarrow> forest_twins H l (2 * B) xs"
    using assms rest by (auto simp: stored_def forest_twins_split tree_twins_split)
  have "branch_ok H pos l (2 * B) (ms_matchlevel s) (ms_matchlevel s = int l) b xs" if b: "ms_branch s = Some b" for b
  proof (cases "pos < length xs")
    case True
    then have "located H pos l (Suc (2 * B)) (ms_matchlevel s) b xs" using assms b by (simp add: stored_def)
    then consider "ms_matchlevel s = int l" "\<not> pos < 2 * B * 2 ^ l" "b = branch H l (rest_of l (2 * B) xs) (pos - 2 * B * 2 ^ l)"
      | "located H pos (Suc l) B (ms_matchlevel s) b xs"
      unfolding located_split rest by (auto simp: algebra_simps)
    then show ?thesis
    proof cases
      case 1
      then show ?thesis using True by (simp add: branch_ok_def)
    next
      case 2
      have "pos < 2 * B * 2 ^ l" "ms_matchlevel s \<noteq> int l" using located_below [OF 2] by (auto simp: algebra_simps)
      moreover have "located H pos l (2 * B) (ms_matchlevel s) b xs" using 2 located_split(2) by simp
      ultimately show ?thesis by (simp add: branch_ok_def located_def)
    qed
  next
    case False
    then show ?thesis using assms b len by (simp add: stored_def branch_ok_def algebra_simps)
  qed
  then show "knows H pos l (2 * B) (ms_inner s ! l) (ms_matchlevel s = int l) s xs"
    using assms len rest by (simp add: knows_def stored_def hashes_ok_split)
qed

lemma knows_stored:
  assumes "knows H pos l (2 * B) h matchh s xs" "length xs = ms_count s" "ms_mutated s \<longleftrightarrow> forest_twins H l (2 * B) xs" "l < 32"
  shows "stored H pos l (Suc (2 * B)) (s\<lparr>ms_inner := (ms_inner s)[l := h], ms_matchlevel := (if matchh then int l else ms_matchlevel s)\<rparr>) xs"
proof -
  have len: "length xs = (2 * B + 1) * 2 ^ l" using assms by (simp add: knows_def)
  then have rest: "take (2 ^ l) (rest_of (Suc l) B xs) = rest_of l (2 * B) xs" by (simp add: rest_of_def algebra_simps)
  have "hashes_ok H ((ms_inner s)[l := h]) l (Suc (2 * B)) xs"
  proof -
    have "hashes_ok H (ms_inner s) (Suc l) B xs" "h = node H l (rest_of l (2 * B) xs)" "length (ms_inner s) = 32"
      using assms(1) by (simp_all add: knows_def hashes_ok_split)
    then show ?thesis using assms(4) rest unfolding hashes_ok_split by (auto simp: hashes_ok_def)
  qed
  moreover have "tree_twins H l (Suc (2 * B)) xs \<longleftrightarrow> ms_mutated s"
    using assms(3) rest by (auto simp: forest_twins_split tree_twins_split)
  moreover have "if pos < length xs then located H pos l (Suc (2 * B)) (if matchh then int l else ms_matchlevel s) b xs
      else (if matchh then int l else ms_matchlevel s) = -1 \<and> b = []" if b: "ms_branch s = Some b" for b
  proof -
    have "branch_ok H pos l (2 * B) (ms_matchlevel s) matchh b xs" using assms(1) b by (simp add: knows_def)
    then show ?thesis
      using len rest unfolding branch_ok_def located_split(1) located_def [symmetric] located_split(2)
      by (auto simp: algebra_simps split: if_splits)
  qed
  ultimately show ?thesis using assms len unfolding stored_def knows_def by auto
qed

lemma branch_ok_located:
  "branch_ok H pos l A ml matchh b xs \<longleftrightarrow>
     (if pos < A * 2 ^ l then \<not> matchh \<and> located H pos l A ml b xs
      else if pos < length xs then matchh \<and> b = branch H l (rest_of l A xs) (pos - A * 2 ^ l)
      else \<not> matchh \<and> ml = -1 \<and> b = [])"
  by (simp add: branch_ok_def located_def)

text \<open>A new leaf joins the trees, and the result is the trees of one leaf more.\<close>

lemma tree_append: "bit (length xs) j \<Longrightarrow> tree 0 (length xs) j (xs @ ys) = tree 0 (length xs) j xs"
  using tree_below [of "length xs" j 0] by (simp add: tree_def)

lemma located_append: "located H pos 0 (length xs) ml b (xs @ ys) \<longleftrightarrow> located H pos 0 (length xs) ml b xs"
  unfolding located_def using tree_append [of xs _ ys] by auto

lemma stored_new_leaf:
  assumes "stored H pos 0 (length xs) s xs"
  shows "knows H pos 0 (length xs) x (length xs = pos) (s\<lparr>ms_count := length xs + 1\<rparr>) (xs @ [x])"
    and "ms_mutated s \<longleftrightarrow> forest_twins H 0 (length xs) (xs @ [x])"
proof -
  have rest: "rest_of 0 (length xs) (xs @ [x]) = [x]" by (simp add: rest_of_def)
  have "hashes_ok H (ms_inner s) 0 (length xs) (xs @ [x])"
    using assms tree_append by (simp add: stored_def hashes_ok_def)
  moreover have "branch_ok H pos 0 (length xs) (ms_matchlevel s) (length xs = pos) b (xs @ [x])" if b: "ms_branch s = Some b" for b
  proof -
    have "if pos < length xs then located H pos 0 (length xs) (ms_matchlevel s) b (xs @ [x]) else ms_matchlevel s = -1 \<and> b = []"
      using assms b located_append by (simp add: stored_def)
    then show ?thesis by (auto simp: branch_ok_located rest split: if_splits)
  qed
  ultimately show "knows H pos 0 (length xs) x (length xs = pos) (s\<lparr>ms_count := length xs + 1\<rparr>) (xs @ [x])"
    using assms by (simp add: knows_def stored_def rest)
  show "ms_mutated s \<longleftrightarrow> forest_twins H 0 (length xs) (xs @ [x])"
    using assms tree_append [of xs _ "[x]"] by (auto simp: stored_def tree_twins_def forest_twins_def rest)
qed

lemma add_leaf_stored:
  assumes st: "stored H pos 0 (length xs) s xs" and small: "length xs + 1 < 2 ^ 32"
  shows "\<exists>s'. add_leaf H pos s x = Some s' \<and> stored H pos 0 (length (xs @ [x])) s' (xs @ [x]) \<and> (ms_branch s' = None \<longleftrightarrow> ms_branch s = None)"
proof -
  define s0 where "s0 = s\<lparr>ms_count := length xs + 1\<rparr>"
  have k: "knows H pos 0 (length xs) x (length xs = pos) s0 (xs @ [x])" and m: "ms_mutated s0 \<longleftrightarrow> forest_twins H 0 (length xs) (xs @ [x])"
    using stored_new_leaf [OF st, of x] by (simp_all add: s0_def)
  obtain l B h mh s1 where c: "combine H s0 0 x (length xs = pos) = Some (l, h, mh, s1)" and k1: "knows H pos l (2 * B) h mh s1 (xs @ [x])"
    and cb: "combined H 0 (length xs) s0 (xs @ [x]) l (2 * B) s1"
    using combine_knows [OF k] small by auto
  have cnt: "length (xs @ [x]) = ms_count s1" using cb by (simp add: combined_def s0_def)
  then have len: "length (xs @ [x]) = (2 * B + 1) * 2 ^ l" using k1 by (simp add: knows_def)
  then have "l < 32" using small by (intro level_small [of "2 * B"]) simp
  moreover have "ms_mutated s1 \<longleftrightarrow> forest_twins H l (2 * B) (xs @ [x])" using cb m by (simp add: combined_def s0_def)
  ultimately have "stored H pos 0 (Suc (2 * B) * 2 ^ l) (s1\<lparr>ms_inner := (ms_inner s1)[l := h], ms_matchlevel := (if mh then int l else ms_matchlevel s1)\<rparr>) (xs @ [x])"
    unfolding stored_shift using knows_stored [OF k1 cnt] by blast
  then have "stored H pos 0 (length (xs @ [x])) (s1\<lparr>ms_inner := (ms_inner s1)[l := h], ms_matchlevel := (if mh then int l else ms_matchlevel s1)\<rparr>) (xs @ [x])"
    using len by (simp only: Suc_eq_plus1)
  moreover have "ms_count s = length xs" using st by (simp add: stored_def)
  moreover from this have "add_leaf H pos s x = Some (s1\<lparr>ms_inner := (ms_inner s1)[l := h], ms_matchlevel := (if mh then int l else ms_matchlevel s1)\<rparr>)"
    using c small by (simp add: add_leaf_def s0_def)
  moreover have "ms_branch s1 = None \<longleftrightarrow> ms_branch s = None" using cb by (simp add: combined_def s0_def)
  ultimately show ?thesis by simp
qed

lemma leaf_loop_stored:
  "stored H pos 0 (length xs) s xs \<Longrightarrow> length xs + length ys < 2 ^ 32 \<Longrightarrow>
   \<exists>s'. leaf_loop H pos s ys = Some s' \<and> stored H pos 0 (length (xs @ ys)) s' (xs @ ys) \<and> (ms_branch s' = None \<longleftrightarrow> ms_branch s = None)"
proof (induction ys arbitrary: xs s)
  case (Cons y ys)
  then obtain s1 where a: "add_leaf H pos s y = Some s1" and st: "stored H pos 0 (length (xs @ [y])) s1 (xs @ [y])"
    and b: "ms_branch s1 = None \<longleftrightarrow> ms_branch s = None"
    using add_leaf_stored [OF Cons.prems(1), of y] by auto
  show ?case using Cons.IH [OF st] Cons.prems(2) a b by simp
qed simp

lemma lowest_level_spec: "lowest_level ((2 * B + 1) * 2 ^ k) l = Some k" if "l \<le> k" "k < 32"
  using that
proof (induction "(2 * B + 1) * 2 ^ k :: nat" l rule: lowest_level.induct)
  case (1 l)
  have "bit ((2 * B + 1) * 2 ^ k) l \<longleftrightarrow> l = k"
    unfolding bit_shift using 1(2) by (cases "l = k") (auto simp: bit_0)
  then show ?case using 1 by (simp add: lowest_level.simps [of _ l] split: if_splits)
qed

section \<open>The final sweep\<close>

lemma knows_mutated: "knows H pos l A h mh (s\<lparr>ms_mutated := m\<rparr>) xs \<longleftrightarrow> knows H pos l A h mh s xs"
  by (simp add: knows_def)

lemma round_up: "B * 2 ^ k < (2 :: nat) ^ 31 \<Longrightarrow> k \<le> 31 \<Longrightarrow> (B + 1) * 2 ^ k \<le> 2 ^ 31"
proof -
  assume B: "B * 2 ^ k < (2 :: nat) ^ 31" and k: "k \<le> 31"
  have p: "(2 :: nat) ^ 31 = 2 ^ (31 - k) * 2 ^ k" using k by (simp flip: power_add)
  then have "B < 2 ^ (31 - k)" using B by (metis mult_less_cancel2)
  then have "(B + 1) * 2 ^ k \<le> 2 ^ (31 - k) * 2 ^ k" by (intro mult_le_mono1) simp
  then show ?thesis using p by simp
qed

lemma odd_part: "0 < n \<Longrightarrow> \<exists>k B. n = (2 * B + 1) * 2 ^ k" for n :: nat
proof (induction n rule: less_induct)
  case (less n)
  show ?case
  proof (cases "even n")
    case True
    then obtain m where m: "n = 2 * m" by blast
    with less.IH [of m] less.prems obtain k B where "m = (2 * B + 1) * 2 ^ k" by auto
    then have "n = (2 * B + 1) * 2 ^ Suc k" using m by simp
    then show ?thesis by blast
  next
    case False
    then obtain B where "n = (2 * B + 1) * 2 ^ 0" by (auto elim: oddE)
    then show ?thesis by blast
  qed
qed

lemma sweep_knows:
  assumes "length xs \<le> 2 ^ 31"
  shows "knows H pos l (2 * B) h mh s xs \<Longrightarrow> l \<le> 31 \<Longrightarrow> 33 \<le> fuel + l \<Longrightarrow> 2 ^ l < 2 * length xs \<Longrightarrow>
     ms_mutated s = forest_twins H l (2 * B) xs \<Longrightarrow>
     \<exists>s'. sweep fuel H s l h mh = Some (node H (depth (length xs)) xs, s') \<and> ms_mutated s' = twins H (depth (length xs)) xs \<and>
       (ms_branch s' = None \<longleftrightarrow> ms_branch s = None) \<and>
       (pos < length xs \<longrightarrow> (\<forall>b. ms_branch s' = Some b \<longrightarrow> b = branch H (depth (length xs)) xs pos))"
proof (induction fuel arbitrary: l B h mh s)
  case (Suc fuel)
  note k = Suc.prems(1)
  have h: "h = node H l (rest_of l (2 * B) xs)" and lo: "2 * B * 2 ^ l < length xs" and hi: "length xs \<le> (2 * B + 1) * 2 ^ l"
    and c: "ms_count s = (2 * B + 1) * 2 ^ l"
    using k by (simp_all add: knows_def)
  show ?case
  proof (cases "B = 0")
    case True
    then have "depth (length xs) = l" using lo hi Suc.prems(4) by (intro depth_unique) simp_all
    moreover have "rest_of l 0 xs = xs" by (simp add: rest_of_def)
    moreover have "forest_twins H l 0 xs \<longleftrightarrow> twins H l xs" by (simp add: forest_twins_def rest_of_def)
    ultimately show ?thesis
      using True k c h Suc.prems(5) by (auto simp: knows_def branch_ok_located)
  next
    case False
    then have "2 * 2 ^ l \<le> 2 * B * 2 ^ l" by simp
    with lo assms have "(2 :: nat) ^ Suc l < 2 ^ 31" by (metis order_le_less_trans order_less_le_trans power_Suc)
    from power_less_imp_less_exp [OF _ this] have l: "Suc l \<le> 31" by simp
    have "(B + 1) * 2 ^ Suc l \<le> 2 ^ 31" using lo assms l by (intro round_up) (simp_all add: algebra_simps)
    then have size: "ms_count s + 2 ^ l < 2 ^ 32" "(B + 1) * 2 ^ Suc l < 2 ^ 32" using c by (simp_all add: algebra_simps)
    have nc: "ms_count s \<noteq> 2 ^ l" using c False by simp
    define s1 where "s1 = s\<lparr>ms_count := (ms_count s + 2 ^ l) mod 2 ^ 32,
      ms_branch := (if mh then map_option (\<lambda>b. b @ [h]) (ms_branch s) else ms_branch s)\<rparr>"
    have k1: "knows H pos (Suc l) B (H h h) mh s1 xs" and ft: "forest_twins H (Suc l) B xs \<longleftrightarrow> forest_twins H l (2 * B) xs"
      using knows_double [OF k nc size(1)] by (simp_all add: s1_def)
    obtain l' C h' mh' s' where r: "combine H s1 (Suc l) (H h h) mh = Some (l', h', mh', s')" "knows H pos l' (2 * C) h' mh' s' xs"
      and cb: "combined H (Suc l) B s1 xs l' (2 * C) s'"
      using combine_knows [OF k1 size(2)] by blast
    have "ms_count s1 = (B + 1) * 2 ^ Suc l" using k1 by (simp add: knows_def)
    moreover have "length xs < (B + 1) * 2 ^ Suc l" using order_le_less_trans [OF hi] by (simp add: algebra_simps)
    ultimately have ft': "forest_twins H l' (2 * C) xs \<longleftrightarrow> ms_mutated s" using cb ft Suc.prems(5) by (simp add: combined_def)
    have "2 ^ Suc l < 2 * length xs" using lo False by (metis \<open>2 * 2 ^ l \<le> 2 * B * 2 ^ l\<close> order_le_less_trans power_Suc trans_less_add1 mult_2)
    then have l': "2 ^ l' < 2 * length xs" using cb by (auto simp: combined_def)
    then have "(2 :: nat) ^ l' < 2 ^ 32" using assms by simp
    from power_less_imp_less_exp [OF _ this] have "l' \<le> 31" by simp
    moreover have "Suc l \<le> l'" "ms_branch s' = None \<longleftrightarrow> ms_branch s = None" using cb by (auto simp: combined_def s1_def)
    moreover have "sweep (Suc fuel) H s l h mh = sweep fuel H (s'\<lparr>ms_mutated := ms_mutated s\<rparr>) l' h' mh'"
      using nc r(1) unfolding s1_def by (simp add: Let_def split del: if_split)
    ultimately show ?thesis
      using Suc.IH [of l' C h' mh' "s'\<lparr>ms_mutated := ms_mutated s\<rparr>"] r(2) l' ft' Suc.prems(3)
      by (simp add: knows_mutated del: sweep.simps)
  qed
qed simp

lemma MerkleComputation_tree:
  assumes "0 < length xs" and "length xs \<le> 2 ^ 31"
  shows "\<exists>b. MerkleComputation H xs pos want = Some (node H (depth (length xs)) xs, twins H (depth (length xs)) xs, b) \<and>
     (b = None \<longleftrightarrow> \<not> want) \<and> (want \<longrightarrow> pos < length xs \<longrightarrow> b = Some (branch H (depth (length xs)) xs pos))"
proof -
  define s0 where "s0 = \<lparr>ms_inner = replicate 32 0, ms_count = 0, ms_mutated = False, ms_matchlevel = -1, ms_branch = (if want then Some [] else None)\<rparr>"
  have "stored H pos 0 (length ([] :: uint256 list)) s0 []" by (simp add: stored_def s0_def hashes_ok_def tree_twins_def)
  moreover have "ms_branch s0 = None \<longleftrightarrow> \<not> want" by (simp add: s0_def)
  ultimately obtain s where s: "leaf_loop H pos s0 xs = Some s" and st: "stored H pos 0 (length xs) s xs"
    and b: "ms_branch s = None \<longleftrightarrow> \<not> want"
    using leaf_loop_stored [of H pos "[]" s0 xs] assms by auto
  obtain k B where len: "length xs = (2 * B + 1) * 2 ^ k"
    using odd_part [OF assms(1)] by blast
  have k: "k \<le> 31" using level_small [of "2 * B" k] assms(2) len by simp
  have "stored H pos k (Suc (2 * B)) s xs" using st len stored_shift [of H pos "Suc (2 * B)" k s xs] by simp
  note kn = stored_knows [OF this]
  have "2 ^ k < 2 * length xs" using len by (simp add: algebra_simps)
  from sweep_knows [OF assms(2) kn(1) k _ this kn(2), of 33] obtain s' where
    "sweep 33 H s k (ms_inner s ! k) (ms_matchlevel s = int k) = Some (node H (depth (length xs)) xs, s')"
    "ms_mutated s' = twins H (depth (length xs)) xs" "ms_branch s' = None \<longleftrightarrow> ms_branch s = None"
    "pos < length xs \<longrightarrow> (\<forall>b. ms_branch s' = Some b \<longrightarrow> b = branch H (depth (length xs)) xs pos)"
    by auto
  moreover have "lowest_level (ms_count s) 0 = Some k"
    using lowest_level_spec [of 0 k B] k st len by (simp add: stored_def)
  ultimately show ?thesis
    using assms(1) s b by (auto simp: MerkleComputation_def s0_def [symmetric] Let_def)
qed

section \<open>Branches\<close>

lemma length_branch [simp]: "length (branch H k xs pos) = k"
  by (induction k arbitrary: xs pos) auto

lemma from_branch_snoc:
  "ComputeMerkleRootFromBranch H h (bs @ [b]) i =
     (let r = ComputeMerkleRootFromBranch H h bs i in if odd (i div 2 ^ length bs) then H b r else H r b)"
  by (induction bs arbitrary: h i) (simp_all add: Let_def div_mult2_eq)

lemma from_branch_high: "ComputeMerkleRootFromBranch H h bs (i + j * 2 ^ length bs) = ComputeMerkleRootFromBranch H h bs i"
proof (induction bs arbitrary: h i)
  case (Cons b bs)
  have "(i + j * 2 ^ length (b # bs)) div 2 = i div 2 + j * 2 ^ length bs" by simp
  then show ?case using Cons by simp
qed simp

lemma branch_root: "pos < length xs \<Longrightarrow> length xs \<le> 2 ^ k \<Longrightarrow> ComputeMerkleRootFromBranch H (xs ! pos) (branch H k xs pos) pos = node H k xs"
proof (induction k arbitrary: xs pos)
  case 0
  then show ?case by (cases xs) auto
next
  case (Suc k)
  show ?case
  proof (cases "pos < 2 ^ k")
    case True
    then have "ComputeMerkleRootFromBranch H (xs ! pos) (branch H k (take (2 ^ k) xs) pos) pos = node H k (take (2 ^ k) xs)"
      using Suc.IH [of pos "take (2 ^ k) xs"] Suc.prems by simp
    then show ?thesis using True by (simp add: from_branch_snoc Let_def)
  next
    case False
    define q where "q = pos - 2 ^ k"
    have pos: "pos = q + 1 * 2 ^ k" "q < 2 ^ k" using False Suc.prems by (auto simp: q_def)
    then have "ComputeMerkleRootFromBranch H (drop (2 ^ k) xs ! q) (branch H k (drop (2 ^ k) xs) q) q = node H k (drop (2 ^ k) xs)"
      using Suc.prems by (intro Suc.IH) auto
    moreover have "drop (2 ^ k) xs ! q = xs ! pos" using pos Suc.prems by (simp add: add.commute)
    ultimately have "ComputeMerkleRootFromBranch H (xs ! pos) (branch H k (drop (2 ^ k) xs) q) pos = node H k (drop (2 ^ k) xs)"
      using from_branch_high [of H "xs ! pos" "branch H k (drop (2 ^ k) xs) q" q 1] pos by simp
    moreover have "pos div 2 ^ k = 1" using pos div_mult_self1 [of "2 ^ k" q 1] by simp
    moreover have "\<not> length xs \<le> 2 ^ k" using False Suc.prems by simp
    ultimately show ?thesis using False by (simp add: from_branch_snoc Let_def q_def [symmetric])
  qed
qed

section \<open>Equal roots\<close>

text \<open>The pairs that are hashed for a node.\<close>

fun hashed :: "hash2 \<Rightarrow> nat \<Rightarrow> uint256 list \<Rightarrow> (uint256 \<times> uint256) list" where
  "hashed H 0 xs = []"
| "hashed H (Suc k) xs =
     (let l = node H k (take (2 ^ k) xs) in
      if length xs \<le> 2 ^ k then (l, l) # hashed H k (take (2 ^ k) xs)
      else (l, node H k (drop (2 ^ k) xs)) # hashed H k (take (2 ^ k) xs) @ hashed H k (drop (2 ^ k) xs))"

definition no_collision :: "hash2 \<Rightarrow> (uint256 \<times> uint256) set \<Rightarrow> bool" where
  "no_collision H P \<longleftrightarrow> (\<forall>a b c d. (a, b) \<in> P \<longrightarrow> (c, d) \<in> P \<longrightarrow> H a b = H c d \<longrightarrow> a = c \<and> b = d)"

lemma no_collision_mono: "no_collision H P \<Longrightarrow> Q \<subseteq> P \<Longrightarrow> no_collision H Q"
  unfolding no_collision_def by blast

lemma hashed_sub:
  "set (hashed H k (take (2 ^ k) xs)) \<subseteq> set (hashed H (Suc k) xs)"
  "\<not> length xs \<le> 2 ^ k \<Longrightarrow> set (hashed H k (drop (2 ^ k) xs)) \<subseteq> set (hashed H (Suc k) xs)"
  by (auto simp: Let_def)

lemma node_eqD:
  assumes "no_collision H (set (hashed H (Suc k) xs) \<union> set (hashed H (Suc j) ys))" and "node H (Suc k) xs = node H (Suc j) ys"
  shows "node H k (take (2 ^ k) xs) = node H j (take (2 ^ j) ys)"
    and "(if length xs \<le> 2 ^ k then node H k (take (2 ^ k) xs) else node H k (drop (2 ^ k) xs)) =
      (if length ys \<le> 2 ^ j then node H j (take (2 ^ j) ys) else node H j (drop (2 ^ j) ys))"
proof -
  define right where "right k xs = (if length xs \<le> 2 ^ k then node H k (take (2 ^ k) xs) else node H k (drop (2 ^ k) xs))" for k xs
  have "(node H k (take (2 ^ k) xs), right k xs) \<in> set (hashed H (Suc k) xs)" for k xs by (simp add: right_def Let_def)
  moreover have "node H (Suc k) xs = H (node H k (take (2 ^ k) xs)) (right k xs)" for k xs by (simp add: right_def Let_def)
  ultimately have "node H k (take (2 ^ k) xs) = node H j (take (2 ^ j) ys) \<and> right k xs = right j ys"
    using assms unfolding no_collision_def by (metis UnI1 UnI2)
  then show "node H k (take (2 ^ k) xs) = node H j (take (2 ^ j) ys)"
    and "(if length xs \<le> 2 ^ k then node H k (take (2 ^ k) xs) else node H k (drop (2 ^ k) xs)) =
      (if length ys \<le> 2 ^ j then node H j (take (2 ^ j) ys) else node H j (drop (2 ^ j) ys))"
    by (simp_all add: right_def)
qed

lemma node_inj:
  "no_collision H (set (hashed H k xs) \<union> set (hashed H k ys)) \<Longrightarrow> 0 < length xs \<Longrightarrow> length xs \<le> 2 ^ k \<Longrightarrow> 0 < length ys \<Longrightarrow>
   length ys \<le> 2 ^ k \<Longrightarrow> \<not> twins H k xs \<Longrightarrow> \<not> twins H k ys \<Longrightarrow> node H k xs = node H k ys \<Longrightarrow> xs = ys"
proof (induction k arbitrary: xs ys)
  case 0
  then show ?case by (cases xs; cases ys) auto
next
  case (Suc k)
  have mixed: False if short: "length as \<le> 2 ^ k" and long: "\<not> length bs \<le> 2 ^ k" "length bs \<le> 2 ^ Suc k"
    and nc: "no_collision H (set (hashed H (Suc k) as) \<union> set (hashed H (Suc k) bs))" and tw: "\<not> twins H (Suc k) bs"
    and eq: "node H (Suc k) as = node H (Suc k) bs" for as bs
  proof -
    have "node H k (take (2 ^ k) bs) = node H k (drop (2 ^ k) bs)"
      using node_eqD [OF nc eq] short long(1) by simp
    moreover have "no_collision H (set (hashed H k (take (2 ^ k) bs)) \<union> set (hashed H k (drop (2 ^ k) bs)))"
      by (rule no_collision_mono [OF nc]) (use hashed_sub [where H = H and k = k and xs = bs] long(1) in blast)
    ultimately have "take (2 ^ k) bs = drop (2 ^ k) bs" using long tw by (intro Suc.IH) auto
    then have "length (take (2 ^ k) bs) = length (drop (2 ^ k) bs)" by simp
    then have "length bs = 2 ^ Suc k" using long by simp
    then show False using tw \<open>node H k (take (2 ^ k) bs) = node H k (drop (2 ^ k) bs)\<close> by simp
  qed
  show ?case
  proof (cases "length xs \<le> 2 ^ k"; cases "length ys \<le> 2 ^ k")
    assume l: "length xs \<le> 2 ^ k" "length ys \<le> 2 ^ k"
    have "node H k xs = node H k ys"
      using node_eqD(1) [OF Suc.prems(1,8)] l by simp
    moreover have "no_collision H (set (hashed H k xs) \<union> set (hashed H k ys))"
      by (rule no_collision_mono [OF Suc.prems(1)]) (use hashed_sub(1) [of H k xs] hashed_sub(1) [of H k ys] l in auto)
    ultimately show ?thesis using Suc.prems l by (intro Suc.IH) auto
  next
    assume "length xs \<le> 2 ^ k" "\<not> length ys \<le> 2 ^ k"
    then show ?thesis using mixed [of xs ys] Suc.prems by blast
  next
    assume "\<not> length xs \<le> 2 ^ k" "length ys \<le> 2 ^ k"
    then show ?thesis using mixed [of ys xs] Suc.prems by (metis Un_commute)
  next
    assume l: "\<not> length xs \<le> 2 ^ k" "\<not> length ys \<le> 2 ^ k"
    have "node H k (take (2 ^ k) xs) = node H k (take (2 ^ k) ys)" "node H k (drop (2 ^ k) xs) = node H k (drop (2 ^ k) ys)"
      using node_eqD [OF Suc.prems(1,8)] l by simp_all
    moreover have "no_collision H (set (hashed H k (take (2 ^ k) xs)) \<union> set (hashed H k (take (2 ^ k) ys)))"
      "no_collision H (set (hashed H k (drop (2 ^ k) xs)) \<union> set (hashed H k (drop (2 ^ k) ys)))"
      by (rule no_collision_mono [OF Suc.prems(1)]; use hashed_sub [where H = H and k = k and xs = xs] hashed_sub [where H = H and k = k and xs = ys] l in blast)+
    moreover have "\<not> twins H k (take (2 ^ k) zs)" "\<not> twins H k (drop (2 ^ k) zs)"
      if "\<not> twins H (Suc k) zs" "\<not> length zs \<le> 2 ^ k" for zs
      using that by simp_all
    moreover have "0 < length (take (2 ^ k) zs)" "length (take (2 ^ k) zs) \<le> 2 ^ k" "0 < length (drop (2 ^ k) zs)" "length (drop (2 ^ k) zs) \<le> 2 ^ k"
      if "\<not> length zs \<le> 2 ^ k" "length zs \<le> 2 ^ Suc k" for zs :: "uint256 list"
      using that by auto
    ultimately have "take (2 ^ k) xs = take (2 ^ k) ys" "drop (2 ^ k) xs = drop (2 ^ k) ys"
      using Suc.IH [of "take (2 ^ k) xs" "take (2 ^ k) ys"] Suc.IH [of "drop (2 ^ k) xs" "drop (2 ^ k) ys"] Suc.prems(3,5,6,7) l by blast+
    then show ?thesis by (metis append_take_drop_id)
  qed
qed

lemma leaf_is_hash:
  "no_collision H (set (hashed H k xs) \<union> set (hashed H (k + Suc m) ys)) \<Longrightarrow> 0 < length xs \<Longrightarrow> node H k xs = node H (k + Suc m) ys \<Longrightarrow>
   \<exists>x \<in> set xs. \<exists>(a, b) \<in> set (hashed H (k + Suc m) ys). x = H a b"
proof (induction k arbitrary: xs ys)
  case 0
  then show ?case by (cases xs) (auto simp: Let_def)
next
  case (Suc k)
  have "node H k (take (2 ^ k) xs) = node H (k + Suc m) (take (2 ^ (k + Suc m)) ys)"
    by (rule node_eqD(1) [OF Suc.prems(1) [unfolded add_Suc] Suc.prems(3) [unfolded add_Suc]])
  moreover have "no_collision H (set (hashed H k (take (2 ^ k) xs)) \<union> set (hashed H (k + Suc m) (take (2 ^ (k + Suc m)) ys)))"
    using hashed_sub(1) [of H k xs] hashed_sub(1) [of H "k + Suc m" ys] unfolding add_Suc
    by (intro no_collision_mono [OF Suc.prems(1) [unfolded add_Suc]]) blast
  moreover have "0 < length (take (2 ^ k) xs)" using Suc.prems(2) by simp
  ultimately obtain x a b where "x \<in> set (take (2 ^ k) xs)" "(a, b) \<in> set (hashed H (k + Suc m) (take (2 ^ (k + Suc m)) ys))" "x = H a b"
    using Suc.IH by blast
  moreover from this have "(a, b) \<in> set (hashed H (Suc k + Suc m) ys)"
    unfolding add_Suc using hashed_sub(1) [of H "k + Suc m" ys] by blast
  ultimately show ?case using in_set_takeD by fastforce
qed

lemma depth_bounds: "0 < n \<Longrightarrow> n \<le> 2 ^ depth n"
proof (induction n rule: depth.induct)
  case (1 n)
  show ?case
  proof (cases "n \<le> 1")
    case False
    then have "(n + 1) div 2 \<le> 2 ^ depth ((n + 1) div 2)" using 1 by simp
    then show ?thesis using False by (simp add: depth.simps [of n])
  qed (use 1 in \<open>simp add: depth.simps [of n]\<close>)
qed

lemma ComputeMerkleRoot_tree:
  assumes "0 < length xs" and "length xs \<le> 2 ^ 31"
  shows "ComputeMerkleRoot H xs = Some (node H (depth (length xs)) xs, twins H (depth (length xs)) xs)"
  using MerkleComputation_tree [OF assms, of H "2 ^ 32 - 1" False] by (auto simp: ComputeMerkleRoot_def)

lemma ComputeMerkleBranch_tree:
  assumes "pos < length xs" and "length xs \<le> 2 ^ 31"
  shows "ComputeMerkleBranch H xs pos = Some (branch H (depth (length xs)) xs pos)"
proof -
  have "0 < length xs" using assms(1) by linarith
  from MerkleComputation_tree [OF this assms(2), of H pos True] assms(1) show ?thesis
    by (auto simp: ComputeMerkleBranch_def)
qed

section \<open>Properties\<close>

text \<open>
  C13. The constant-space calculator computes the root of the Merkle tree, for every list of one to \<open>2 ^ 31\<close> leaves: no access leaves the array of
  32 levels, the root is the top node of the tree in which a node without a right neighbour is hashed with itself, and the flag \<^verbatim>\<open>mutated\<close>
  is set exactly if two complete neighbours somewhere in the tree are equal.
\<close>

theorem merkle_root_of_tree:
  assumes "0 < length leaves" and "length leaves \<le> 2 ^ 31"
  shows "ComputeMerkleRoot H leaves = Some (node H (depth (length leaves)) leaves, twins H (depth (length leaves)) leaves)"
  by (rule ComputeMerkleRoot_tree [OF assms])

definition ex_hash :: hash2 where "ex_hash a b = 3 * a + 5 * b + 1"

theorem merkle_root_of_tree_witness:
  "ComputeMerkleRoot ex_hash [1, 2, 3, 4, 5, 6] = Some (2425, False) \<and> ComputeMerkleRoot ex_hash [1, 2, 3, 4, 5, 6, 5, 6] = Some (2425, True)"
proof -
  have "node ex_hash 3 [1, 2, 3, 4, 5, 6] = 2425" "\<not> twins ex_hash 3 [1, 2, 3, 4, 5, 6]"
    "node ex_hash 3 [1, 2, 3, 4, 5, 6, 5, 6] = 2425" "twins ex_hash 3 [1, 2, 3, 4, 5, 6, 5, 6]"
    by code_simp+
  moreover have d: "depth (length [1, 2, 3, 4, 5, 6 :: uint256]) = 3" "depth (length [1, 2, 3, 4, 5, 6, 5, 6 :: uint256]) = 3"
    by code_simp+
  ultimately show ?thesis
    using merkle_root_of_tree [of "[1, 2, 3, 4, 5, 6]" ex_hash, unfolded d] merkle_root_of_tree [of "[1, 2, 3, 4, 5, 6, 5, 6]" ex_hash, unfolded d]
    by simp
qed

text \<open>
  A Merkle branch proves its leaf: for every position in a list of at most \<open>2 ^ 31\<close> leaves, the branch that \<^verbatim>\<open>ComputeMerkleBranch\<close> returns has one
  hash per level, and \<^verbatim>\<open>ComputeMerkleRootFromBranch\<close> applied to the leaf, the branch and the position gives the root.
\<close>

theorem merkle_branch_proves_leaf:
  assumes "pos < length leaves" and "length leaves \<le> 2 ^ 31"
  shows "\<exists>b root mutated. ComputeMerkleBranch H leaves pos = Some b \<and> length b = depth (length leaves) \<and>
     ComputeMerkleRoot H leaves = Some (root, mutated) \<and> ComputeMerkleRootFromBranch H (leaves ! pos) b pos = root"
proof -
  have n: "0 < length leaves" using assms(1) by linarith
  show ?thesis
    using ComputeMerkleBranch_tree [OF assms] ComputeMerkleRoot_tree [OF n assms(2)] branch_root [OF assms(1) depth_bounds [OF n]] by simp
qed

theorem merkle_branch_proves_leaf_witness:
  "\<exists>b root mutated. ComputeMerkleBranch ex_hash [1, 2, 3] 2 = Some b \<and> length b = depth (length [1, 2, 3 :: uint256]) \<and>
     ComputeMerkleRoot ex_hash [1, 2, 3] = Some (root, mutated) \<and> ComputeMerkleRootFromBranch ex_hash ([1, 2, 3] ! 2) b 2 = root"
  by (rule merkle_branch_proves_leaf) simp_all

text \<open>
  A root commits to the leaves. If two lists of leaves have the same root and the calculator flags neither of them, then the
  lists are equal, or two different pairs among those hashed for the roots have the same hash, or a leaf is the hash of one of
  these pairs. Without the flag this fails: the lists of the comment in the source differ only by repeated leaves.
\<close>

theorem merkle_root_binding:
  assumes "0 < length xs" "length xs \<le> 2 ^ 31" "0 < length ys" "length ys \<le> 2 ^ 31"
    and "ComputeMerkleRoot H xs = Some (root, False)" and "ComputeMerkleRoot H ys = Some (root, False)"
    and "P = set (hashed H (depth (length xs)) xs) \<union> set (hashed H (depth (length ys)) ys)"
  shows "xs = ys \<or> (\<exists>a b c d. (a, b) \<in> P \<and> (c, d) \<in> P \<and> (a, b) \<noteq> (c, d) \<and> H a b = H c d) \<or>
     (\<exists>x \<in> set xs \<union> set ys. \<exists>(a, b) \<in> P. x = H a b)"
proof -
  let ?m = "depth (length xs)" and ?n = "depth (length ys)"
  have eq: "node H ?m xs = node H ?n ys" and tw: "\<not> twins H ?m xs" "\<not> twins H ?n ys"
    using assms ComputeMerkleRoot_tree by simp_all
  show ?thesis
  proof (cases "no_collision H P")
    case True
    consider "?m = ?n" | k where "?n = ?m + Suc k" | k where "?m = ?n + Suc k"
      by (metis less_imp_Suc_add linorder_neqE_nat add_Suc_right)
    then show ?thesis
    proof cases
      case 1
      then have "xs = ys"
        using node_inj [of H ?m xs ys] True assms eq tw depth_bounds [of "length xs"] depth_bounds [of "length ys"] by simp
      then show ?thesis by blast
    next
      case 2
      then show ?thesis using leaf_is_hash [of H ?m xs k ys] True assms(1,7) eq by fastforce
    next
      case 3
      then show ?thesis using leaf_is_hash [of H ?n ys k xs] True assms(3,7) eq by (fastforce simp: Un_commute)
    qed
  next
    case False
    then show ?thesis unfolding no_collision_def by auto
  qed
qed

theorem merkle_root_binding_witness:
  "\<exists>P. ([1, 4] :: uint256 list) = [2, 3] \<or> (\<exists>a b c d. (a, b) \<in> P \<and> (c, d) \<in> P \<and> (a, b) \<noteq> (c, d) \<and> a + b = c + d) \<or>
     (\<exists>x \<in> set [1, 4] \<union> set [2, 3 :: uint256]. \<exists>(a, b) \<in> P. x = a + b)"
proof -
  have "ComputeMerkleRoot (+) [1, 4] = Some (5, False)" "ComputeMerkleRoot (+) [2, 3] = Some (5, False)"
    by (simp_all add: ComputeMerkleRoot_tree depth.simps)
  then show ?thesis by (intro exI) (rule merkle_root_binding [OF _ _ _ _ _ _ refl]; simp)
qed

end
