(* ===== verification/Blocks.thy ===== *)
theory Blocks
  imports TxVerify SequenceLocks SigHash Merkle
begin

text \<open>
  Blocks (\<^verbatim>\<open>CBlock\<close> in \<^verbatim>\<open>src/src/primitives/block.h\<close>): their wire format, weight, Merkle roots and subsidy, and the checks that
  need no coins, \<^verbatim>\<open>CheckBlock\<close> and \<^verbatim>\<open>ContextualCheckBlock\<close> of \<^verbatim>\<open>src/src/validation.cpp\<close>. A block extends the record of its
  header by the transactions and by the flag that a check has passed.
\<close>

section \<open>Blocks and their wire format\<close>

record CBlock = CBlockHeader +
  vtx :: "CTransaction list"
  fChecked :: bool

definition GetBlockHeader :: "CBlock \<Rightarrow> CBlockHeader" where
  "GetBlockHeader block = CBlockHeader.truncate block"

text \<open>Headers before and after the switch to KAWPOW have different tails; the reader leaves the other fields null.\<close>

definition Serialize_CBlockHeader :: "CBlockHeader \<Rightarrow> bytes" where
  "Serialize_CBlockHeader h =
     ser_writedata32 (hd_nVersion h) @ Serialize_uint256 (hd_hashPrevBlock h) @ Serialize_uint256 (hd_hashMerkleRoot h) @
     ser_writedata32 (hd_nTime h) @ ser_writedata32 (hd_nBits h) @
     (if hd_nTime h < KAWPOW_TIME then ser_writedata32 (hd_nNonce h)
      else ser_writedata32 (hd_nHeight h) @ ser_writedata64 (hd_nNonce64 h) @ Serialize_uint256 (hd_mix_hash h))"

definition Unserialize_CBlockHeader :: "CBlockHeader reader" where
  "Unserialize_CBlockHeader =
     rbind ser_readdata32 (\<lambda>version.
     rbind Unserialize_uint256 (\<lambda>prev.
     rbind Unserialize_uint256 (\<lambda>root.
     rbind ser_readdata32 (\<lambda>time.
     rbind ser_readdata32 (\<lambda>bits.
     if time < KAWPOW_TIME then
       rbind ser_readdata32 (\<lambda>nonce.
       rret \<lparr>hd_nVersion = version, hd_hashPrevBlock = prev, hd_hashMerkleRoot = root, hd_nTime = time, hd_nBits = bits,
         hd_nNonce = nonce, hd_nHeight = 0, hd_nNonce64 = 0, hd_mix_hash = 0\<rparr>)
     else
       rbind ser_readdata32 (\<lambda>height.
       rbind ser_readdata64 (\<lambda>nonce64.
       rbind Unserialize_uint256 (\<lambda>mix.
       rret \<lparr>hd_nVersion = version, hd_hashPrevBlock = prev, hd_hashMerkleRoot = root, hd_nTime = time, hd_nBits = bits,
         hd_nNonce = 0, hd_nHeight = height, hd_nNonce64 = nonce64, hd_mix_hash = mix\<rparr>))))))))"

definition CBlock_of_header :: "CBlockHeader \<Rightarrow> CTransaction list \<Rightarrow> CBlock" where
  "CBlock_of_header h txs = CBlockHeader.extend h \<lparr>vtx = txs, fChecked = False\<rparr>"

definition SerializeBlock :: "bool \<Rightarrow> CBlock \<Rightarrow> bytes" where
  "SerializeBlock fAllowWitness block =
     Serialize_CBlockHeader (GetBlockHeader block) @ Serialize_vector (SerializeTransaction fAllowWitness) (vtx block)"

definition UnserializeBlock :: "bool \<Rightarrow> CBlock reader" where
  "UnserializeBlock fAllowWitness =
     rbind Unserialize_CBlockHeader (\<lambda>h.
     rbind (Unserialize_vector (UnserializeTransaction fAllowWitness)) (\<lambda>txs. rret (CBlock_of_header h txs)))"

definition GetTransactionWeight :: "CTransaction \<Rightarrow> nat" where
  "GetTransactionWeight tx =
     length (SerializeTransaction False tx) * (WITNESS_SCALE_FACTOR - 1) + length (SerializeTransaction True tx)"

definition GetBlockWeight :: "CBlock \<Rightarrow> nat" where
  "GetBlockWeight block = length (SerializeBlock False block) * (WITNESS_SCALE_FACTOR - 1) + length (SerializeBlock True block)"

section \<open>Hashes and Merkle roots\<close>

definition tx_hash :: "crypto \<Rightarrow> CTransaction \<Rightarrow> uint256" where
  "tx_hash C tx = GetHash_writer C (SerializeTransaction False tx)"

definition GetWitnessHash :: "crypto \<Rightarrow> CTransaction \<Rightarrow> uint256" where
  "GetWitnessHash C tx =
     (if \<not> HasWitness tx then tx_hash C tx else GetHash_writer C (SerializeTransaction True tx))"

definition merkle_pair :: "crypto \<Rightarrow> hash2" where
  "merkle_pair C a b = GetHash_writer C (Serialize_uint256 a @ Serialize_uint256 b)"

definition BlockMerkleRoot :: "crypto \<Rightarrow> CBlock \<Rightarrow> (uint256 \<times> bool) option" where
  "BlockMerkleRoot C block = ComputeMerkleRoot (merkle_pair C) (map (tx_hash C) (vtx block))"

text \<open>The witness hash of the coinbase is null. An empty block has no first leaf to write to.\<close>

definition BlockWitnessMerkleRoot :: "crypto \<Rightarrow> CBlock \<Rightarrow> (uint256 \<times> bool) option" where
  "BlockWitnessMerkleRoot C block =
     (case vtx block of
        [] \<Rightarrow> None
      | _ # txs \<Rightarrow> ComputeMerkleRoot (merkle_pair C) (0 # map (GetWitnessHash C) txs))"

definition BlockMerkleBranch :: "crypto \<Rightarrow> CBlock \<Rightarrow> nat \<Rightarrow> uint256 list option" where
  "BlockMerkleBranch C block position = ComputeMerkleBranch (merkle_pair C) (map (tx_hash C) (vtx block)) position"

section \<open>Parameters and subsidy\<close>

record block_params =
  bp_consensus :: consensus_params
  nSubsidyHalvingInterval :: int
  fSmartnodesEnabled :: bool
  nBudgetPaymentsStartBlock :: int
  nBudgetPaymentsCycleBlocks :: int
  nBudgetPaymentsWindowBlocks :: int
  nSuperblockStartBlock :: int
  nSuperblockStartHash :: uint256
  nSuperblockCycle :: int
  smartnodePaymentFixedBlock :: int
  BIPCSVEnabled :: bool
  BIP65Enabled :: bool
  BIP66Enabled :: bool
  nSegwitEnabled :: bool

definition main_block_params :: block_params where
  "main_block_params =
     \<lparr>bp_consensus = main_consensus, nSubsidyHalvingInterval = 3200000, fSmartnodesEnabled = False,
      nBudgetPaymentsStartBlock = INT_MAX, nBudgetPaymentsCycleBlocks = 16616, nBudgetPaymentsWindowBlocks = 100,
      nSuperblockStartBlock = INT_MAX,
      nSuperblockStartHash = 0x0000000000020cb27c7ef164d21003d5d20cdca2f54dd9a9ca6d45f4d47f8aa3,
      nSuperblockCycle = 16616, smartnodePaymentFixedBlock = INT_MAX,
      BIPCSVEnabled = True, BIP65Enabled = True, BIP66Enabled = True, nSegwitEnabled = True\<rparr>"

text \<open>
  The height is at least \<open>-1\<close> in every call, so the number of halvings is not negative. The bits of the previous block and the
  superblock flag are arguments that the code does not use.
\<close>

definition GetBlockSubsidy :: "block_params \<Rightarrow> int \<Rightarrow> int" where
  "GetBlockSubsidy K nPrevHeight =
     (let halvings = nPrevHeight sdiv nSubsidyHalvingInterval K in
      if halvings \<ge> 64 then 0 else drop_bit (nat halvings) (5000 * COIN))"

definition IsWitnessEnabled :: "block_params \<Rightarrow> bool" where
  "IsWitnessEnabled K \<longleftrightarrow> nSegwitEnabled K"

text \<open>The hash functions, address prefixes, rules, header checks and the height of the active chain's tip.\<close>

record block_env =
  be_crypto :: crypto
  be_chain :: chain_params
  be_params :: block_params
  be_header :: header_env
  be_tipHeight :: int

section \<open>Checks without context\<close>

text \<open>
  A rejected block carries the score, the reason and whether the block may have been corrupted on the way (then its header is not
  marked as invalid). Errors of header and transaction checks and exceptions of the coins view are passed on. The code that
  changes the asset data ignores payloads that it cannot read and goes on with half-filled variables; such a payload, which
  \<^verbatim>\<open>CheckTransaction\<close> excludes, is the error \<open>UnreadablePayload\<close> here.
\<close>

datatype block_error = Rejected nat string bool | TxError tx_error | HeaderError header_error | CoinsError coins_error
  | BlockAssert | NodeAborted | UnreadablePayload

definition MAX_BLOCK_SIGOPS_COST :: int where "MAX_BLOCK_SIGOPS_COST = 80000"

definition block_if :: "bool \<Rightarrow> nat \<Rightarrow> string \<Rightarrow> bool \<Rightarrow> block_error + unit" where
  "block_if b n reason corrupt = (if b then Inl (Rejected n reason corrupt) else Inr ())"

definition block_some :: "'a option \<Rightarrow> block_error + 'a" where
  "block_some x = (case x of None \<Rightarrow> Inl BlockAssert | Some y \<Rightarrow> Inr y)"

definition block_tx :: "'a tx_check \<Rightarrow> block_error + 'a" where
  "block_tx x = (case x of Inl e \<Rightarrow> Inl (TxError e) | Inr y \<Rightarrow> Inr y)"

definition block_header :: "header_error + 'a \<Rightarrow> block_error + 'a" where
  "block_header x = (case x of Inl e \<Rightarrow> Inl (HeaderError e) | Inr y \<Rightarrow> Inr y)"

definition check_merkle_root :: "crypto \<Rightarrow> CBlock \<Rightarrow> block_error + unit" where
  "check_merkle_root C block =
     sbind (block_some (BlockMerkleRoot C block)) (\<lambda>(hashMerkleRoot2, mutated).
     sbind (block_if (hd_hashMerkleRoot block \<noteq> hashMerkleRoot2) 100 ''bad-txnmrklroot'' True) (\<lambda>_.
     block_if mutated 100 ''bad-txns-duplicate'' True))"

definition block_too_long :: "CBlock \<Rightarrow> bool" where
  "block_too_long block \<longleftrightarrow> vtx block = [] \<or> length (vtx block) * WITNESS_SCALE_FACTOR > GetMaxBlockWeight \<or>
     length (SerializeBlock False block) * WITNESS_SCALE_FACTOR > GetMaxBlockWeight"

text \<open>The counter of signature operations and its product with the scale factor are 32-bit numbers.\<close>

definition block_sigops :: "CTransaction list \<Rightarrow> u32" where
  "block_sigops txs = foldl (\<lambda>nSigOps tx. nSigOps + of_nat (GetLegacySigOpCount tx)) 0 txs"

definition too_many_sigops :: "CTransaction list \<Rightarrow> bool" where
  "too_many_sigops txs \<longleftrightarrow> uint (block_sigops txs * of_nat WITNESS_SCALE_FACTOR) > MAX_BLOCK_SIGOPS_COST"

fun check_block_txs :: "block_env \<Rightarrow> int \<Rightarrow> int \<Rightarrow> bool \<Rightarrow> CTransaction list \<Rightarrow> block_error + unit" where
  "check_block_txs E h blockReward fCheckBlock [] = Inr ()"
| "check_block_txs E h blockReward fCheckBlock (tx # txs) =
     sbind (block_tx (CheckTransaction (be_crypto E) (be_chain E) (bp_consensus (be_params E)) (be_tipHeight E) tx (h - 1)
       blockReward False fCheckBlock)) (\<lambda>_.
     check_block_txs E h blockReward fCheckBlock txs)"

text \<open>The result is the block with its flag.\<close>

definition CheckBlock :: "block_env \<Rightarrow> block_tree \<Rightarrow> CBlock \<Rightarrow> int \<Rightarrow> bool \<Rightarrow> bool \<Rightarrow> bool \<Rightarrow> block_error + CBlock" where
  "CheckBlock E bt block h fCheckPOW fCheckMerkleRoot fDBCheck =
     (if fChecked block then Inr block
      else
        sbind (block_header (CheckBlockHeader (be_header E) bt (GetBlockHeader block) fCheckPOW)) (\<lambda>_.
        sbind (if fCheckMerkleRoot then check_merkle_root (be_crypto E) block else Inr ()) (\<lambda>_.
        sbind (block_if (block_too_long block) 100 ''bad-blk-length'' False) (\<lambda>_.
        sbind (block_if (vtx block = [] \<or> \<not> IsCoinBase (vtx block ! 0)) 100 ''bad-cb-missing'' False) (\<lambda>_.
        sbind (block_if (list_ex IsCoinBase (tl (vtx block))) 100 ''bad-cb-multiple'' False) (\<lambda>_.
        let blockReward = GetBlockSubsidy (be_params E) (h - 1) in
        sbind (check_block_txs E h blockReward (\<not> fDBCheck) (vtx block)) (\<lambda>_.
        sbind (block_if (too_many_sigops (vtx block)) 100 ''bad-blk-sigops'' False) (\<lambda>_.
        Inr (if fCheckPOW \<and> fCheckMerkleRoot then block \<lparr>fChecked := True\<rparr> else block)))))))))"

section \<open>Checks in context\<close>

fun commitment_loop :: "nat \<Rightarrow> CTxOut list \<Rightarrow> nat option \<Rightarrow> nat option" where
  "commitment_loop n [] commitpos = commitpos"
| "commitment_loop n (out # outs) commitpos =
     (let s = scriptPubKey out in
      commitment_loop (Suc n) outs
        (if length s \<ge> 38 \<and> s ! 0 = OP_RETURN \<and> s ! 1 = 0x24 \<and> s ! 2 = 0xaa \<and> s ! 3 = 0x21 \<and> s ! 4 = 0xa9 \<and> s ! 5 = 0xed
         then Some n else commitpos))"

definition GetWitnessCommitmentIndex :: "CBlock \<Rightarrow> nat option" where
  "GetWitnessCommitmentIndex block = (case vtx block of [] \<Rightarrow> None | tx # _ \<Rightarrow> commitment_loop 0 (vout tx) None)"

definition ContextualCheckTransaction :: "block_env \<Rightarrow> CTransaction \<Rightarrow> CBlockIndex option \<Rightarrow> unit tx_check" where
  "ContextualCheckTransaction E tx pindexPrev =
     (let h = (case pindexPrev of None \<Rightarrow> 0 | Some b \<Rightarrow> nHeight b + 1) in
      sbind (if isDIPDIP0003Active (bp_consensus (be_params E)) (be_tipHeight E) h then
          (if nVersion tx \<ge> 3 then
             sbind (reject_if (nType tx \<notin> {0, 1, 2, 3, 4, TRANSACTION_COINBASE, TRANSACTION_QUORUM_COMMITMENT}) 100 ''bad-txns-type'') (\<lambda>_.
             reject_if (IsCoinBase tx \<and> nType tx \<noteq> TRANSACTION_COINBASE) 100 ''bad-txns-cb-type'')
           else reject_if (nType tx \<noteq> TRANSACTION_NORMAL) 100 ''bad-txns-type'')
        else Inr ()) (\<lambda>_.
      reject_if (length (SerializeTransaction False tx) * WITNESS_SCALE_FACTOR > GetMaxBlockWeight) 100 ''bad-txns-oversize''))"

fun contextual_txs :: "block_env \<Rightarrow> int \<Rightarrow> int \<Rightarrow> CBlockIndex option \<Rightarrow> CTransaction list \<Rightarrow> block_error + unit" where
  "contextual_txs E h nLockTimeCutoff pindexPrev [] = Inr ()"
| "contextual_txs E h nLockTimeCutoff pindexPrev (tx # txs) =
     sbind (block_if (\<not> TxVerify.IsFinalTx tx h nLockTimeCutoff) 10 ''bad-txns-nonfinal'' False) (\<lambda>_.
     sbind (block_tx (ContextualCheckTransaction E tx pindexPrev)) (\<lambda>_.
     contextual_txs E h nLockTimeCutoff pindexPrev txs))"

text \<open>Whether the block commits to its witnesses.\<close>

definition check_commitment :: "block_env \<Rightarrow> CBlock \<Rightarrow> block_error + bool" where
  "check_commitment E block =
     (if \<not> IsWitnessEnabled (be_params E) then Inr False
      else case GetWitnessCommitmentIndex block of
        None \<Rightarrow> Inr False
      | Some commitpos \<Rightarrow>
          sbind (block_some (BlockWitnessMerkleRoot (be_crypto E) block)) (\<lambda>(hashWitness, _).
          let stack = scriptWitness (vin (vtx block ! 0) ! 0) in
          sbind (block_if (length stack \<noteq> 1 \<or> length (stack ! 0) \<noteq> 32) 100 ''bad-witness-nonce-size'' True) (\<lambda>_.
          sbind (block_if (Hash256 (be_crypto E) (Serialize_uint256 hashWitness @ stack ! 0) \<noteq>
              take 32 (drop 6 (scriptPubKey (vout (vtx block ! 0) ! commitpos)))) 100 ''bad-witness-merkle-match'' True) (\<lambda>_.
          Inr True))))"

definition ContextualCheckBlock :: "block_env \<Rightarrow> index_store \<Rightarrow> CBlock \<Rightarrow> ptr option \<Rightarrow> block_error + unit" where
  "ContextualCheckBlock E st block pindexPrev =
     sbind (case pindexPrev of None \<Rightarrow> Inr None | Some p \<Rightarrow> sbind (block_some (st p)) (\<lambda>b. Inr (Some b))) (\<lambda>prv.
     let h = (case prv of None \<Rightarrow> 0 | Some b \<Rightarrow> nHeight b + 1);
         dip3 = isDIPDIP0003Active (bp_consensus (be_params E)) (be_tipHeight E) (case prv of None \<Rightarrow> 0 | Some b \<Rightarrow> nHeight b) in
     sbind (if BIPCSVEnabled (be_params E) \<and> h > 0 then block_some (pindexPrev \<bind> GetMedianTimePast st)
            else Inr (uint (hd_nTime block))) (\<lambda>nLockTimeCutoff.
     sbind (block_if (block_too_long block) 10 ''bad-blk-length'' False) (\<lambda>_.
     sbind (contextual_txs E h nLockTimeCutoff prv (vtx block)) (\<lambda>_.
     sbind (block_if (too_many_sigops (vtx block)) 10 ''bad-blk-sigops'' False) (\<lambda>_.
     sbind (block_if (h \<ge> 6048 \<and> \<not> dip3 \<and>
         (let expect = push_int64 [] h; s = scriptSig (vin (vtx block ! 0) ! 0) in
          length s < length expect \<or> take (length expect) s \<noteq> expect)) 100 ''bad-cb-height'' False) (\<lambda>_.
     sbind (block_if (dip3 \<and> h \<noteq> 0 \<and> nType (vtx block ! 0) \<noteq> TRANSACTION_COINBASE) 100 ''bad-cb-type'' False) (\<lambda>_.
     sbind (check_commitment E block) (\<lambda>fHaveWitness.
     sbind (block_if (\<not> fHaveWitness \<and> list_ex HasWitness (vtx block)) 100 ''unexpected-witness'' True) (\<lambda>_.
     block_if (GetBlockWeight block > GetMaxBlockWeight) 100 ''bad-blk-weight'' False)))))))))"

end
