(* ===== verification/BlockChecks.thy ===== *)
theory BlockChecks
  imports Blocks
begin

text \<open>
  The checks of a block on its own: what \<^verbatim>\<open>CheckBlock\<close> decides, with the counters of the code shown not to wrap, and that the
  header commits to the transactions.
\<close>

section \<open>Sizes\<close>

lemma sum_list_le: "(\<And>x. f x \<le> g x) \<Longrightarrow> sum_list (map f xs) \<le> sum_list (map g xs)" for f g :: "'a \<Rightarrow> nat"
  by (induction xs) (simp_all add: add_mono)

lemma SerializeTransaction_scripts:
  "sum_list (map (length \<circ> scriptSig) (vin tx)) + sum_list (map (length \<circ> scriptPubKey) (vout tx)) \<le> length (SerializeTransaction False tx)"
proof -
  have "sum_list (map (length \<circ> scriptSig) ins) \<le> length (concat (map Serialize_CTxIn ins))" for ins
    unfolding length_concat map_map by (rule sum_list_le) (simp add: Serialize_CTxIn_def Serialize_bytes_def)
  moreover have "sum_list (map (length \<circ> scriptPubKey) outs) \<le> length (concat (map Serialize_CTxOut outs))" for outs
    unfolding length_concat map_map by (rule sum_list_le) (simp add: Serialize_CTxOut_def Serialize_bytes_def)
  ultimately show ?thesis
    using add_mono [of _ "length (concat (map Serialize_CTxIn (vin tx)))" _ "length (concat (map Serialize_CTxOut (vout tx)))"]
    by (fastforce simp: SerializeTransaction_def Serialize_vector_def Let_def)
qed

lemma SerializeBlock_txs: "sum_list (map (\<lambda>tx. length (SerializeTransaction False tx)) (vtx block)) \<le> length (SerializeBlock False block)"
  by (simp add: SerializeBlock_def Serialize_vector_def length_concat o_def)

section \<open>Signature operations\<close>

lemma sigops_loop_bound: "GetSigOpCount_loop False l pc n \<le> n + 20 * length pc"
proof (induction "length pc" arbitrary: l pc n rule: less_induct)
  case less
  show ?case
  proof (cases "pc = []")
    case False
    obtain ok pc' opcode v where g: "GetOp2 pc = (ok, pc', opcode, v)" by (rule prod_cases4)
    show ?thesis
    proof (cases ok)
      case True
      with g have sh: "length pc' < length pc" by (auto dest: GetOp2_shorter)
      have "sigops_of False l opcode \<le> 20" by (simp add: sigops_of_def MAX_PUBKEYS_PER_MULTISIG_def)
      with less [OF sh, of opcode "n + sigops_of False l opcode"] sh g True False show ?thesis by simp
    qed (use g False in simp)
  qed simp
qed

lemma GetLegacySigOpCount_bound: "GetLegacySigOpCount tx \<le> 20 * length (SerializeTransaction False tx)"
proof -
  have "sum_list (map (\<lambda>i. GetSigOpCount (scriptSig i) False) ins) \<le> 20 * sum_list (map (length \<circ> scriptSig) ins)" for ins
    unfolding sum_list_const_mult [symmetric] by (rule sum_list_le) (simp add: GetSigOpCount_def sigops_loop_bound [of _ _ 0, simplified])
  moreover have "sum_list (map (\<lambda>x. GetSigOpCount (scriptPubKey x) False) outs) \<le> 20 * sum_list (map (length \<circ> scriptPubKey) outs)" for outs
    unfolding sum_list_const_mult [symmetric] by (rule sum_list_le) (simp add: GetSigOpCount_def sigops_loop_bound [of _ _ 0, simplified])
  ultimately have "GetLegacySigOpCount tx \<le> 20 * (sum_list (map (length \<circ> scriptSig) (vin tx)) + sum_list (map (length \<circ> scriptPubKey) (vout tx)))"
    unfolding GetLegacySigOpCount_def distrib_left by (rule add_mono)
  with mult_le_mono2 [OF SerializeTransaction_scripts, of 20 tx] show ?thesis by (rule order_trans [rotated])
qed

lemma block_sigops_sum: "block_sigops txs = of_nat (sum_list (map GetLegacySigOpCount txs))"
proof -
  have "foldl (\<lambda>n tx. n + of_nat (GetLegacySigOpCount tx)) k txs = k + of_nat (sum_list (map GetLegacySigOpCount txs))" for k :: u32
    by (induction txs arbitrary: k) (simp_all add: add.assoc)
  then show ?thesis by (simp add: block_sigops_def)
qed

lemma too_many_sigops_exact:
  assumes "\<not> block_too_long block"
  shows "too_many_sigops (vtx block) \<longleftrightarrow> 4 * sum_list (map GetLegacySigOpCount (vtx block)) > 80000"
proof -
  let ?n = "sum_list (map GetLegacySigOpCount (vtx block))"
  have "?n \<le> sum_list (map (\<lambda>tx. 20 * length (SerializeTransaction False tx)) (vtx block))"
    by (rule sum_list_le) (rule GetLegacySigOpCount_bound)
  also have "\<dots> = 20 * sum_list (map (\<lambda>tx. length (SerializeTransaction False tx)) (vtx block))" by (rule sum_list_const_mult)
  also have "\<dots> \<le> 20 * 2000000"
    using SerializeBlock_txs [of block] assms
    by (simp add: block_too_long_def GetMaxBlockWeight_def MAX_BLOCK_WEIGHT_RIP2_def WITNESS_SCALE_FACTOR_def)
  finally have "4 * ?n < 2 ^ 32" by simp
  then have "unat (of_nat (4 * ?n) :: u32) = 4 * ?n" by (simp add: unat_of_nat del: of_nat_mult)
  moreover have "block_sigops (vtx block) * of_nat WITNESS_SCALE_FACTOR = of_nat (4 * ?n)"
    by (simp add: block_sigops_sum WITNESS_SCALE_FACTOR_def)
  ultimately show ?thesis
    unfolding too_many_sigops_def MAX_BLOCK_SIGOPS_COST_def by (simp add: uint_nat del: of_nat_mult)
qed

section \<open>The decision of CheckBlock\<close>

lemma check_block_txs_exact:
  "check_block_txs E h reward a txs = Inr () \<longleftrightarrow>
     list_all (\<lambda>tx. CheckTransaction (be_crypto E) (be_chain E) (bp_consensus (be_params E)) (be_tipHeight E) tx (h - 1) reward False a = Inr ()) txs"
  by (induction txs) (simp_all add: sbind_Inr_iff block_tx_def split: sum.splits)

lemma check_merkle_root_exact: "check_merkle_root C block = Inr () \<longleftrightarrow> BlockMerkleRoot C block = Some (hd_hashMerkleRoot block, False)"
  by (auto simp: check_merkle_root_def sbind_Inr_iff block_some_def block_if_def split: option.splits)

lemma block_too_long_exact:
  "block_too_long block \<longleftrightarrow> vtx block = [] \<or> length (vtx block) > 2000000 \<or> length (SerializeBlock False block) > 2000000"
  by (auto simp: block_too_long_def GetMaxBlockWeight_def MAX_BLOCK_WEIGHT_RIP2_def WITNESS_SCALE_FACTOR_def)

lemma CheckBlock_unchecked:
  assumes "\<not> fChecked block"
  shows "(\<exists>block1. CheckBlock E bt block h pow True db = Inr block1) \<longleftrightarrow>
     CheckBlockHeader (be_header E) bt (GetBlockHeader block) pow = Inr () \<and>
     BlockMerkleRoot (be_crypto E) block = Some (hd_hashMerkleRoot block, False) \<and> \<not> block_too_long block \<and>
     vtx block \<noteq> [] \<and> IsCoinBase (vtx block ! 0) \<and> \<not> list_ex IsCoinBase (tl (vtx block)) \<and>
     list_all (\<lambda>tx. CheckTransaction (be_crypto E) (be_chain E) (bp_consensus (be_params E)) (be_tipHeight E) tx (h - 1)
       (GetBlockSubsidy (be_params E) (h - 1)) False (\<not> db) = Inr ()) (vtx block) \<and> \<not> too_many_sigops (vtx block)"
  using assms unfolding check_block_txs_exact [symmetric] check_merkle_root_exact [symmetric]
  by (auto simp: CheckBlock_def sbind_Inr_iff block_header_def block_if_def Let_def split: sum.splits)

text \<open>
  C7. \<^verbatim>\<open>CheckBlock\<close> with the check of the Merkle root accepts a block exactly if it was accepted before, or: its header passes the
  header check, its header has the Merkle root of its transactions and their tree has no equal neighbours, it has between one and
  2,000,000 transactions in at most 2,000,000 bytes, the first transaction and no other is a coinbase, every transaction passes
  \<^verbatim>\<open>CheckTransaction\<close> with the subsidy of the block, and the inputs and outputs have at most 20,000 signature operations. In
  particular the 32-bit counter of the operations and its product with the scale factor do not wrap.
\<close>

theorem CheckBlock_exact:
  "(\<exists>block1. CheckBlock E bt block h pow True db = Inr block1) \<longleftrightarrow>
     fChecked block \<or>
     CheckBlockHeader (be_header E) bt (GetBlockHeader block) pow = Inr () \<and>
     BlockMerkleRoot (be_crypto E) block = Some (hd_hashMerkleRoot block, False) \<and>
     0 < length (vtx block) \<and> length (vtx block) \<le> 2000000 \<and> length (SerializeBlock False block) \<le> 2000000 \<and>
     IsCoinBase (hd (vtx block)) \<and> list_all (\<lambda>tx. \<not> IsCoinBase tx) (tl (vtx block)) \<and>
     list_all (\<lambda>tx. CheckTransaction (be_crypto E) (be_chain E) (bp_consensus (be_params E)) (be_tipHeight E) tx (h - 1)
       (GetBlockSubsidy (be_params E) (h - 1)) False (\<not> db) = Inr ()) (vtx block) \<and>
     sum_list (map GetLegacySigOpCount (vtx block)) \<le> 20000"
proof (cases "fChecked block")
  case True
  then show ?thesis by (simp add: CheckBlock_def)
next
  case False
  then show ?thesis unfolding CheckBlock_unchecked [OF False]
    by (cases "block_too_long block") (auto simp: too_many_sigops_exact block_too_long_exact hd_conv_nth list_ex_iff list_all_iff)
qed

section \<open>What a header commits to\<close>

text \<open>The strings that are hashed for the Merkle root of a block.\<close>

definition root_strings :: "crypto \<Rightarrow> CBlock \<Rightarrow> bytes list" where
  "root_strings C block =
     (let leaves = map (tx_hash C) (vtx block) in
      map (SerializeTransaction False) (vtx block) @
      map (\<lambda>(a, b). Serialize_uint256 a @ Serialize_uint256 b) (hashed (merkle_pair C) (depth (length leaves)) leaves))"

lemma Serialize_uint256_length [simp]: "length (Serialize_uint256 x) = 32"
  by (simp add: Serialize_uint256_def)

lemma Serialize_uint256_inj: "Serialize_uint256 x = Serialize_uint256 y \<Longrightarrow> x = y"
  using c256.ser_inj [of x y] by simp

text \<open>
  C11. The Merkle root of a header commits to the transactions. If \<^verbatim>\<open>CheckBlock\<close> accepts two blocks whose headers have the same Merkle
  root, then the blocks have the same transactions (their serialisations without witnesses are equal), or two different strings
  among those hashed for the two roots have the same double hash, or a transaction of one of the blocks has exactly 64 bytes, so
  that it can stand for an inner node of the tree. The rejection of equal neighbours, \<^verbatim>\<open>bad-txns-duplicate\<close>, is what excludes the
  block with repeated transactions.
\<close>

theorem block_commits_to_transactions:
  assumes "CheckBlock E bt block h pow True db = Inr block1" "\<not> fChecked block"
    and "CheckBlock E bt' block' h' pow' True db' = Inr block1'" "\<not> fChecked block'"
    and "hd_hashMerkleRoot block = hd_hashMerkleRoot block'"
    and "S = set (root_strings (be_crypto E) block) \<union> set (root_strings (be_crypto E) block')"
  shows "map (SerializeTransaction False) (vtx block) = map (SerializeTransaction False) (vtx block') \<or>
     (\<exists>s t. s \<in> S \<and> t \<in> S \<and> s \<noteq> t \<and> GetHash_writer (be_crypto E) s = GetHash_writer (be_crypto E) t) \<or>
     (\<exists>tx \<in> set (vtx block) \<union> set (vtx block'). length (SerializeTransaction False tx) = 64)"
proof -
  let ?C = "be_crypto E" and ?H = "merkle_pair (be_crypto E)"
  let ?xs = "map (tx_hash ?C) (vtx block)" and ?ys = "map (tx_hash ?C) (vtx block')"
  let ?P = "set (hashed ?H (depth (length ?xs)) ?xs) \<union> set (hashed ?H (depth (length ?ys)) ?ys)"
  have root: "BlockMerkleRoot ?C block = Some (hd_hashMerkleRoot block, False)" "\<not> block_too_long block"
    "BlockMerkleRoot ?C block' = Some (hd_hashMerkleRoot block', False)" "\<not> block_too_long block'"
    using CheckBlock_unchecked [of block E bt h pow db] CheckBlock_unchecked [of block' E bt' h' pow' db'] assms(1-4) by auto
  have pair: "Serialize_uint256 a @ Serialize_uint256 b \<in> S" if "(a, b) \<in> ?P" for a b
    using that assms(6) by (force simp: root_strings_def Let_def)
  have leaf: "SerializeTransaction False tx \<in> S" if "tx \<in> set (vtx block) \<union> set (vtx block')" for tx
    using that assms(6) by (auto simp: root_strings_def Let_def)
  consider "?xs = ?ys" | a b c d where "(a, b) \<in> ?P" "(c, d) \<in> ?P" "(a, b) \<noteq> (c, d)" "?H a b = ?H c d"
    | tx a b where "tx \<in> set (vtx block) \<union> set (vtx block')" "(a, b) \<in> ?P" "tx_hash ?C tx = ?H a b"
  proof -
    have len: "0 < length ?xs" "length ?xs \<le> 2 ^ 31" "0 < length ?ys" "length ?ys \<le> 2 ^ 31" using root by (simp_all add: block_too_long_exact)
    have "ComputeMerkleRoot ?H ?xs = Some (hd_hashMerkleRoot block, False)" "ComputeMerkleRoot ?H ?ys = Some (hd_hashMerkleRoot block, False)"
      using root assms(5) by (simp_all add: BlockMerkleRoot_def)
    from merkle_root_binding [OF len this refl] that show thesis unfolding set_map by blast
  qed
  then show ?thesis
  proof cases
    case 1
    show ?thesis
    proof (rule ccontr)
      assume no: "\<not> ?thesis"
      have "length (vtx block) = length (vtx block')" using 1 map_eq_imp_length_eq by blast
      moreover have "SerializeTransaction False (vtx block ! i) = SerializeTransaction False (vtx block' ! i)" if "i < length (vtx block)" for i
        using no 1 that leaf nth_mem [of i "vtx block"] nth_mem [of i "vtx block'"] calculation
        by (metis UnI1 UnI2 nth_map tx_hash_def)
      ultimately show False using no by (simp add: list_eq_iff_nth_eq)
    qed
  next
    case 2
    then have "Serialize_uint256 a @ Serialize_uint256 b \<noteq> Serialize_uint256 c @ Serialize_uint256 d"
      by (auto dest: Serialize_uint256_inj)
    then show ?thesis using 2 pair unfolding merkle_pair_def by blast
  next
    case 3
    show ?thesis
    proof (cases "SerializeTransaction False tx = Serialize_uint256 a @ Serialize_uint256 b")
      case True
      then have "length (SerializeTransaction False tx) = 64" by simp
      then show ?thesis using 3(1) by blast
    next
      case False
      then show ?thesis using 3 pair leaf unfolding merkle_pair_def tx_hash_def by blast
    qed
  qed
qed

text \<open>Two blocks of one coinbase each, whose transactions have the same toy hash.\<close>

definition ex_mint :: "byte \<Rightarrow> CTransaction" where
  "ex_mint n = \<lparr>nVersion = 2, nType = 0,
     vin = [\<lparr>prevout = \<lparr>COutPoint.op_hash = 0, op_n = 0xffffffff\<rparr>, scriptSig = [1, n], nSequence = 0xffffffff, scriptWitness = []\<rparr>],
     vout = [\<lparr>nValue = 5000 * COIN, scriptPubKey = [OP_1], nRounds = -10\<rparr>], nLockTime = 0, vExtraPayload = []\<rparr>"

definition ex_minted :: "byte \<Rightarrow> CBlock" where
  "ex_minted n = CBlock_of_header (Headers.ex_block \<lparr>hd_hashMerkleRoot := tx_hash ex_crypto (ex_mint n)\<rparr>) [ex_mint n]"

definition ex_checks :: block_env where
  "ex_checks = \<lparr>be_crypto = ex_crypto, be_chain = ex_params, be_params = main_block_params, be_header = ex_net, be_tipHeight = 19\<rparr>"

lemma ex_mint_script: "IsAssetScript [OP_1] = None" "\<not> IsNullAsset [OP_1]" "Find [OP_1] OP_BLKR_ASSET = 0"
  by code_simp+

lemma ex_mint_loop: "vout_loop ex_crypto ex_params a b (vout (ex_mint n)) vout_state0 = Inr (vout_state0\<lparr>vs_nValueOut := 5000 * COIN\<rparr>)"
  by (simp add: ex_mint_def check_value_def reject_if_def MoneyRange_def MAX_MONEY_def COIN_def int64_def vout_state0_def check_null_asset_def
      check_asset_out_def ex_mint_script)

lemma ex_mint_assets: "check_asset_tx ex_crypto ex_params (ex_mint n) = Inr (False, False)"
  by (simp add: check_asset_tx_def tx_IsNewAsset_def tx_IsReissueAsset_def tx_IsNewUniqueAsset_def tx_IsNewMsgChannelAsset_def tx_IsNewQualifierAsset_def
      tx_IsNewRestrictedAsset_def last_out_def CheckIssueDataTx_def CheckReissueDataTx_def IsScriptNewAsset_def IsScriptReissueAsset_def ex_mint_def
      ex_mint_script check_plain_out_def reject_if_def)

lemma ex_mint_coinbase: "check_coinbase ex_crypto ex_params main_consensus 19 (ex_mint n) 1 reward = Inr ()"
  by (simp add: check_coinbase_def ex_mint_def ex_mint_script reject_if_def main_consensus_def)

lemma ex_mint_coin: "IsCoinBase (ex_mint n)"
  by (simp add: ex_mint_def IsCoinBase_def COutPoint_IsNull_def)

lemma ex_mint_size: "length (SerializeTransaction False (ex_mint n)) \<le> 200"
  using length_SerializeTransaction [of "ex_mint n"] by (simp add: ex_mint_def)

lemma ex_mint_sigops: "GetLegacySigOpCount (ex_mint 5) = 0" "GetLegacySigOpCount (ex_mint 6) = 0"
  by code_simp+

lemma ex_minted_facts:
  "vtx (ex_minted n) = [ex_mint n]" "\<not> fChecked (ex_minted n)" "hd_hashMerkleRoot (ex_minted n) = hd_hashMerkleRoot (ex_minted m)"
  "root_strings ex_crypto (ex_minted n) = [SerializeTransaction False (ex_mint n)]" "be_crypto ex_checks = ex_crypto"
  by (simp_all add: ex_minted_def ex_checks_def CBlock_of_header_def CBlockHeader.defs tx_hash_def GetHash_writer_def Hash256_def ex_crypto_def
      root_strings_def depth.simps)

lemma ex_minted_size: "length (SerializeBlock False (ex_minted n)) \<le> 2000000"
  using ex_mint_size [of n] length_WriteCompactSize [of 1]
  by (simp add: SerializeBlock_def Serialize_vector_def ex_minted_facts(1) Serialize_CBlockHeader_def ser_writedata32_def ser_writedata64_def)

lemma ex_mint_accepted: "CheckTransaction ex_crypto ex_params main_consensus 19 (ex_mint n) 1 reward a b = Inr ()"
proof -
  have "check_sizes (ex_mint n) = Inr ()" using ex_mint_size [of n]
    by (simp add: check_sizes_def reject_if_def GetMaxBlockWeight_def MAX_BLOCK_WEIGHT_RIP2_def WITNESS_SCALE_FACTOR_def MAX_TX_EXTRA_PAYLOAD_def) (simp add: ex_mint_def)
  moreover have "check_null_data ex_crypto ex_params (ex_mint n) (vout_state0\<lparr>vs_nValueOut := 5000 * COIN\<rparr>) = Inr ()"
    by (simp add: check_null_data_def vout_state0_def reject_if_def)
  moreover have "distinct (map prevout (vin (ex_mint n)))" "\<not> fContainsNullAssetVerifierTx (vout_state0\<lparr>vs_nValueOut := 5000 * COIN\<rparr>)"
    by (simp_all add: ex_mint_def vout_state0_def)
  ultimately show ?thesis
    by (simp add: CheckTransaction_def ex_mint_loop ex_mint_assets ex_mint_coinbase ex_mint_coin reject_if_def)
qed

lemma ex_minted_accepted:
  assumes "n \<in> {5, 6}"
  shows "\<exists>b. CheckBlock ex_checks empty_tree (ex_minted n) 2 False True False = Inr b"
proof -
  have "CheckBlockHeader (be_header ex_checks) empty_tree (GetBlockHeader (ex_minted n)) False = Inr ()"
    by (simp add: CheckBlockHeader_def check_full_pow_def split_def)
  moreover have "BlockMerkleRoot ex_crypto (ex_minted n) = Some (hd_hashMerkleRoot (ex_minted n), False)"
    by (simp add: BlockMerkleRoot_def ComputeMerkleRoot_tree depth.simps ex_minted_def CBlock_of_header_def CBlockHeader.defs)
  moreover have "\<not> block_too_long (ex_minted n)" by (simp add: block_too_long_exact ex_minted_facts(1) ex_minted_size linorder_not_less)
  moreover from this assms have "\<not> too_many_sigops [ex_mint n]"
    using too_many_sigops_exact [of "ex_minted n"] ex_mint_sigops by (auto simp: ex_minted_facts(1))
  ultimately show ?thesis
    unfolding CheckBlock_unchecked [OF ex_minted_facts(2)]
    by (simp add: ex_minted_facts(1,5) ex_mint_coin) (simp add: ex_checks_def main_block_params_def ex_mint_accepted)
qed

theorem block_commits_to_transactions_witness:
  "let S = {SerializeTransaction False (ex_mint 5), SerializeTransaction False (ex_mint 6)} in
   SerializeTransaction False (ex_mint 5) = SerializeTransaction False (ex_mint 6) \<or>
     (\<exists>s t. s \<in> S \<and> t \<in> S \<and> s \<noteq> t \<and> GetHash_writer ex_crypto s = GetHash_writer ex_crypto t) \<or>
     (\<exists>tx \<in> {ex_mint 5, ex_mint 6}. length (SerializeTransaction False tx) = 64)"
proof -
  obtain b b' where "CheckBlock ex_checks empty_tree (ex_minted 5) 2 False True False = Inr b"
    "CheckBlock ex_checks empty_tree (ex_minted 6) 2 False True False = Inr b'" using ex_minted_accepted by fastforce
  from block_commits_to_transactions [OF this(1) ex_minted_facts(2) this(2) ex_minted_facts(2) ex_minted_facts(3) refl] show ?thesis
    by (simp add: ex_minted_facts(1,4,5) insert_commute)
qed

end
