(* ===== verification/Connect.thy ===== *)
theory Connect
  imports Blocks AssetSafety Compressor
begin

text \<open>
  Connecting and disconnecting blocks (\<^verbatim>\<open>src/src/validation.cpp\<close>: \<^verbatim>\<open>UpdateCoins\<close>, \<^verbatim>\<open>CheckInputs\<close>, \<^verbatim>\<open>ConnectBlock\<close>,
  \<^verbatim>\<open>ApplyTxInUndo\<close>, \<^verbatim>\<open>DisconnectBlock\<close>, \<^verbatim>\<open>ConnectTip\<close>, \<^verbatim>\<open>DisconnectTip\<close>; \<^verbatim>\<open>AddCoins\<close> of \<^verbatim>\<open>src/src/coins.cpp\<close> with an asset cache; the
  value rules of \<^verbatim>\<open>src/src/smartnode/smartnode-payments.cpp\<close>). An operation is a function from the global asset state to a result
  and that state, as in the asset checks. The pointers to the asset cache are set in every call of the code. Left out are the optional
  indexes of addresses, transactions and times, the messages to the wallet, and logging.
\<close>

section \<open>Adding the coins and assets of a transaction\<close>

type_synonym asset_undo = "string \<times> CBlockAssetUndo"

definition empty_undo :: asset_undo where
  "empty_undo = ([], \<lparr>bu_fChangedIPFS = False, bu_fChangedUnits = False, bu_strIPFS = [], bu_nUnits = 0,
     bu_fChangedVerifierString = False, bu_verifierString = []\<rparr>)"

definition CNewAsset_null :: CNewAsset where
  "CNewAsset_null = \<lparr>na_strName = [], na_nAmount = 0, na_units = MAX_UNIT, na_nReissuable = 0, na_nHasIPFS = 0, na_strIPFSHash = []\<rparr>"

definition gread :: "(assets_globals \<Rightarrow> 'a) \<Rightarrow> ('e, 'a) gcheck" where
  "gread f = (\<lambda>G. (Inr (f G), G))"

definition readable :: "'a option \<Rightarrow> (block_error, 'a) gcheck" where
  "readable x = gpure (case x of None \<Rightarrow> Inl UnreadablePayload | Some y \<Rightarrow> Inr y)"

text \<open>A failed change of the asset cache is only logged.\<close>

definition add_issue :: "CAssetsCache \<Rightarrow> CNewAsset \<Rightarrow> string \<Rightarrow> int \<Rightarrow> uint256 \<Rightarrow> (block_error, CAssetsCache) gcheck" where
  "add_issue c asset address h blockHash =
     gbind (gask (\<lambda>G. AddNewAsset G c asset address h blockHash)) (\<lambda>r. gret (case r of None \<Rightarrow> c | Some c' \<Rightarrow> c'))"

definition add_issue_and_owner ::
  "crypto \<Rightarrow> chain_params \<Rightarrow> CAssetsCache \<Rightarrow> CTransaction \<Rightarrow> int \<Rightarrow> uint256 \<Rightarrow> (block_error, CAssetsCache) gcheck" where
  "add_issue_and_owner C P c tx h blockHash =
     gbind (readable (AssetFromTransaction C P tx)) (\<lambda>(asset, strAddress).
     gbind (readable (OwnerFromTransaction C P tx)) (\<lambda>(ownerName, ownerAddress).
     gbind (add_issue c asset strAddress h blockHash) (\<lambda>c1.
     gread (\<lambda>G. AddOwnerAsset G c1 ownerName ownerAddress))))"

definition verifier_out :: "CTransaction \<Rightarrow> CTxOut option" where
  "verifier_out tx = find (\<lambda>out. IsNullAssetVerifierTxDataScript (scriptPubKey out)) (vout tx)"

definition add_reissue ::
  "crypto \<Rightarrow> chain_params \<Rightarrow> CAssetsCache \<Rightarrow> CTransaction \<Rightarrow> uint256 \<Rightarrow> asset_undo \<Rightarrow> (block_error, CAssetsCache \<times> asset_undo) gcheck" where
  "add_reissue C P c tx txid undo =
     gbind (readable (ReissueAssetFromTransaction C P tx)) (\<lambda>(reissue, strAddress).
     gbind (gask (\<lambda>G. GetAssetMetaDataIfExists c G (re_strName reissue))) (\<lambda>meta.
     let asset = (case meta of None \<Rightarrow> CNewAsset_null | Some (a, _) \<Rightarrow> a) in
     gbind (gask (\<lambda>G. AddReissueAsset G c reissue strAddress \<lparr>COutPoint.op_hash = txid, op_n = of_nat (length (vout tx) - 1)\<rparr>)) (\<lambda>r.
     let c1 = (case r of None \<Rightarrow> c | Some c' \<Rightarrow> c');
         verifier = (if asset_type_of (na_strName asset) = RESTRICTED
           then verifier_out tx \<bind> (\<lambda>out. AssetNullVerifierDataFromScript (scriptPubKey out)) else None) in
     gbind (if verifier \<noteq> None then gask (\<lambda>G. GetAssetVerifierStringIfExists c1 G (na_strName asset) False) else gret None) (\<lambda>_.
     let c2 = (case verifier of None \<Rightarrow> c1 | Some v \<Rightarrow> AddRestrictedVerifier c1 (na_strName asset) v);
         fIPFSChanged = (re_strIPFSHash reissue \<noteq> []);
         fUnitsChanged = (re_nUnits reissue \<noteq> -1) in
     gret (c2,
       if fIPFSChanged \<or> fUnitsChanged \<or> verifier \<noteq> None then
         (re_strName reissue, \<lparr>bu_fChangedIPFS = fIPFSChanged, bu_fChangedUnits = fUnitsChanged, bu_strIPFS = na_strIPFSHash asset,
            bu_nUnits = na_units asset, bu_fChangedVerifierString = False, bu_verifierString = []\<rparr>)
       else undo)))))"

fun add_unique_issues ::
  "crypto \<Rightarrow> chain_params \<Rightarrow> CAssetsCache \<Rightarrow> CTxOut list \<Rightarrow> int \<Rightarrow> uint256 \<Rightarrow> (block_error, CAssetsCache) gcheck" where
  "add_unique_issues C P c [] h blockHash = gret c"
| "add_unique_issues C P c (out # outs) h blockHash =
     (if IsScriptNewUniqueAsset C P (scriptPubKey out) then
        gbind (readable (AssetFromScript C P (scriptPubKey out))) (\<lambda>(asset, strAddress).
        gbind (add_issue c asset strAddress h blockHash) (\<lambda>c1.
        add_unique_issues C P c1 outs h blockHash))
      else add_unique_issues C P c outs h blockHash)"

definition add_restricted_issue ::
  "crypto \<Rightarrow> chain_params \<Rightarrow> CAssetsCache \<Rightarrow> CTransaction \<Rightarrow> int \<Rightarrow> uint256 \<Rightarrow> (block_error, CAssetsCache) gcheck" where
  "add_restricted_issue C P c tx h blockHash =
     gbind (readable (RestrictedAssetFromTransaction C P tx)) (\<lambda>(asset, strAddress).
     gbind (add_issue c asset strAddress h blockHash) (\<lambda>c1.
     case verifier_out tx of
       None \<Rightarrow> gret c1
     | Some out \<Rightarrow>
         gbind (readable (AssetNullVerifierDataFromScript (scriptPubKey out))) (\<lambda>v.
         gret (AddRestrictedVerifier c1 (na_strName asset) v))))"

definition AddCoins_issues ::
  "crypto \<Rightarrow> chain_params \<Rightarrow> CAssetsCache \<Rightarrow> CTransaction \<Rightarrow> uint256 \<Rightarrow> int \<Rightarrow> uint256 \<Rightarrow> asset_undo \<Rightarrow>
   (block_error, CAssetsCache \<times> asset_undo) gcheck" where
  "AddCoins_issues C P c tx txid h blockHash undo =
     (let keep = (\<lambda>m. gbind m (\<lambda>c'. gret (c', undo))) in
      if \<not> AreAssetsDeployed then gret (c, undo)
      else if tx_IsNewAsset C P tx then keep (add_issue_and_owner C P c tx h blockHash)
      else if tx_IsReissueAsset tx then add_reissue C P c tx txid undo
      else if tx_IsNewUniqueAsset C P tx then keep (add_unique_issues C P c (vout tx) h blockHash)
      else if tx_IsNewMsgChannelAsset C P tx then
        keep (gbind (readable (MsgChannelAssetFromTransaction C P tx)) (\<lambda>(asset, strAddress). add_issue c asset strAddress h blockHash))
      else if tx_IsNewQualifierAsset C P tx then
        keep (gbind (readable (QualifierAssetFromTransaction C P tx)) (\<lambda>(asset, strAddress). add_issue c asset strAddress h blockHash))
      else if tx_IsNewRestrictedAsset C P tx then keep (add_restricted_issue C P c tx h blockHash)
      else gret (c, undo))"

definition add_transfer_of_output ::
  "crypto \<Rightarrow> chain_params \<Rightarrow> CAssetsCache \<Rightarrow> COutPoint \<Rightarrow> script \<Rightarrow> (block_error, CAssetsCache) gcheck" where
  "add_transfer_of_output C P c p s =
     gread (\<lambda>G. case GetAssetData C P s of
        None \<Rightarrow> c
      | Some d \<Rightarrow>
          if ao_type d = TX_TRANSFER_ASSET \<and> ao_nAmount d > 0 then
            AddTransferAsset G c
              \<lparr>tr_strName = ao_assetName d, tr_nAmount = ao_nAmount d, tr_message = ao_message d,
               tr_nExpireTime = (if ao_message d = [] then 0 else ao_expireTime d)\<rparr>
              (dest_address C P (ao_destination d)) p
          else c)"

definition add_commands_of_output ::
  "crypto \<Rightarrow> chain_params \<Rightarrow> CAssetsCache \<Rightarrow> script \<Rightarrow> (block_error, CAssetsCache) gcheck" where
  "add_commands_of_output C P c s =
     (if \<not> IsNullAsset s then gret c
      else if IsNullAssetTxDataScript s then
        gbind (readable (AssetNullDataFromScript C P s)) (\<lambda>(data, address).
        let type = asset_type_of (nd_asset_name data) in
        gret (if type = RESTRICTED then
            AddRestrictedAddress c (nd_asset_name data) address (if nd_flag data \<noteq> 0 then FREEZE_ADDRESS else UNFREEZE_ADDRESS)
          else if type = QUALIFIER \<or> type = SUB_QUALIFIER then
            AddQualifierAddress c (nd_asset_name data) address (if nd_flag data \<noteq> 0 then ADD_QUALIFIER else REMOVE_QUALIFIER)
          else c))
      else if IsNullGlobalRestrictionAssetTxDataScript s then
        gbind (readable (GlobalAssetNullDataFromScript s)) (\<lambda>data.
        gret (AddGlobalRestricted c (nd_asset_name data) (if nd_flag data \<noteq> 0 then GLOBAL_FREEZE else GLOBAL_UNFREEZE)))
      else gret c)"

type_synonym view = "CCoinsViewCache \<times> coins_view"

fun add_outputs ::
  "crypto \<Rightarrow> chain_params \<Rightarrow> usage \<Rightarrow> view \<Rightarrow> CAssetsCache \<Rightarrow> uint256 \<Rightarrow> bool \<Rightarrow> nat \<Rightarrow> bool \<Rightarrow> nat \<Rightarrow> CTxOut list \<Rightarrow>
   (block_error, view \<times> CAssetsCache) gcheck" where
  "add_outputs C P u v ac txid fCoinbase h check i [] = gret (v, ac)"
| "add_outputs C P u v ac txid fCoinbase h check i (txout # txouts) =
     (let p = \<lparr>COutPoint.op_hash = txid, op_n = of_nat i\<rparr>;
          (overwrite, c1, base1) = (if check then HaveCoin u (fst v) (snd v) p else (fCoinbase, v)) in
      case AddCoin u c1 p (mk_Coin txout h fCoinbase) overwrite of
        Inl e \<Rightarrow> gfail (CoinsError e)
      | Inr c2 \<Rightarrow>
          gbind (if AreAssetsDeployed then
              gbind (add_transfer_of_output C P ac p (scriptPubKey txout)) (\<lambda>ac1.
              add_commands_of_output C P ac1 (scriptPubKey txout))
            else gret ac) (\<lambda>ac2.
          add_outputs C P u (c2, base1) ac2 txid fCoinbase h check (Suc i) txouts))"

definition AddCoins_with_assets ::
  "crypto \<Rightarrow> chain_params \<Rightarrow> usage \<Rightarrow> view \<Rightarrow> CAssetsCache \<Rightarrow> CTransaction \<Rightarrow> nat \<Rightarrow> uint256 \<Rightarrow> bool \<Rightarrow> asset_undo \<Rightarrow>
   (block_error, view \<times> CAssetsCache \<times> asset_undo) gcheck" where
  "AddCoins_with_assets C P u v ac tx h blockHash check undo =
     (let txid = tx_hash C tx in
      gbind (AddCoins_issues C P ac tx txid (int h) blockHash undo) (\<lambda>(ac1, undo1).
      gbind (add_outputs C P u v ac1 txid (IsCoinBase tx) h check 0 (vout tx)) (\<lambda>(v2, ac2).
      gret (v2, ac2, undo1))))"

section \<open>Spending the inputs of a transaction\<close>

text \<open>\<^verbatim>\<open>SpendCoin\<close> with an asset cache: the flag, the coin moved out, the view and the cache.\<close>

definition spend_coin ::
  "crypto \<Rightarrow> chain_params \<Rightarrow> usage \<Rightarrow> view \<Rightarrow> CAssetsCache \<Rightarrow> COutPoint \<Rightarrow> assets_globals \<Rightarrow> bool \<times> Coin \<times> view \<times> CAssetsCache" where
  "spend_coin C P u v ac p G =
     (case SpendCoin u (fst v) (snd v) p
          (\<lambda>coin. if AreAssetsDeployed then Some (fst (TrySpendCoin C P G ac (coin_out coin))) else None) of
        (is_spent, moveout, c', base') \<Rightarrow>
          (case moveout of
             None \<Rightarrow> (is_spent, coinEmpty, (c', base'), ac)
           | Some coin \<Rightarrow>
               (is_spent, coin, (c', base'),
                if AreAssetsDeployed then snd (TrySpendCoin C P G ac (coin_out coin)) else ac)))"

fun spend_inputs ::
  "crypto \<Rightarrow> chain_params \<Rightarrow> usage \<Rightarrow> view \<Rightarrow> CAssetsCache \<Rightarrow> CTxIn list \<Rightarrow> Coin list \<Rightarrow>
   (block_error, view \<times> CAssetsCache \<times> Coin list) gcheck" where
  "spend_inputs C P u v ac [] vprevout = gret (v, ac, vprevout)"
| "spend_inputs C P u v ac (txin # txins) vprevout =
     gbind (gread (spend_coin C P u v ac (prevout txin))) (\<lambda>(is_spent, coin, v', ac').
     if \<not> is_spent then gfail BlockAssert
     else spend_inputs C P u v' ac' txins (vprevout @ [coin]))"

definition UpdateCoins ::
  "crypto \<Rightarrow> chain_params \<Rightarrow> usage \<Rightarrow> view \<Rightarrow> CAssetsCache \<Rightarrow> CTransaction \<Rightarrow> nat \<Rightarrow> uint256 \<Rightarrow> asset_undo \<Rightarrow>
   (block_error, view \<times> CAssetsCache \<times> Coin list \<times> asset_undo) gcheck" where
  "UpdateCoins C P u v ac tx h blockHash undo =
     gbind (if IsCoinBase tx then gret (v, ac, []) else spend_inputs C P u v ac (vin tx) []) (\<lambda>(v1, ac1, vprevout).
     gbind (AddCoins_with_assets C P u v1 ac1 tx h blockHash False undo) (\<lambda>(v2, ac2, undo2).
     gret (v2, ac2, vprevout, undo2)))"

section \<open>Script checks\<close>

definition GetBlockScriptFlags :: "block_params \<Rightarrow> CBlockIndex \<Rightarrow> u32" where
  "GetBlockScriptFlags K b =
     (if GetBlockTime b \<ge> 1333238400 then SCRIPT_VERIFY_P2SH else 0) OR
     (if BIP66Enabled K then SCRIPT_VERIFY_DERSIG else 0) OR
     (if BIP65Enabled K then SCRIPT_VERIFY_CHECKLOCKTIMEVERIFY else 0) OR
     (if BIPCSVEnabled K then SCRIPT_VERIFY_CHECKSEQUENCEVERIFY else 0) OR
     (if IsWitnessEnabled K then SCRIPT_VERIFY_WITNESS OR SCRIPT_VERIFY_NULLDUMMY else 0)"

definition STANDARD_NOT_MANDATORY_VERIFY_FLAGS :: u32 where
  "STANDARD_NOT_MANDATORY_VERIFY_FLAGS =
     SCRIPT_VERIFY_DERSIG OR SCRIPT_VERIFY_STRICTENC OR SCRIPT_VERIFY_MINIMALDATA OR SCRIPT_VERIFY_NULLDUMMY OR
     SCRIPT_VERIFY_DISCOURAGE_UPGRADABLE_NOPS OR SCRIPT_VERIFY_CLEANSTACK OR SCRIPT_VERIFY_MINIMALIF OR SCRIPT_VERIFY_NULLFAIL OR
     SCRIPT_VERIFY_CHECKLOCKTIMEVERIFY OR SCRIPT_VERIFY_CHECKSEQUENCEVERIFY OR SCRIPT_VERIFY_LOW_S OR SCRIPT_VERIFY_WITNESS OR
     SCRIPT_VERIFY_DISCOURAGE_UPGRADABLE_WITNESS_PROGRAM OR SCRIPT_VERIFY_WITNESS_PUBKEYTYPE"

text \<open>
  One script check; the signature cache of the checker only remembers results, so the checker here is the plain one. The result
  is \<open>None\<close> for a failed assertion of the interpreter. A transaction keeps its witness in the order of the wire, front first; the
  interpreter takes a stack with its back first, so the list is reversed here.
\<close>

record CScriptCheck =
  ck_out :: CTxOut
  ck_tx :: CTransaction
  ck_nIn :: nat
  ck_flags :: u32

type_synonym sig_verify = "valtype \<Rightarrow> uint256 \<Rightarrow> bytes \<Rightarrow> bool"

definition run_check :: "sig_verify \<Rightarrow> crypto \<Rightarrow> CScriptCheck \<Rightarrow> (ScriptError + unit) option" where
  "run_check Verify C ck =
     (let txin = vin (ck_tx ck) ! ck_nIn ck in
      VerifyScript (scriptSig txin) (scriptPubKey (ck_out ck)) (rev (scriptWitness txin)) (ck_flags ck) C
        (TransactionSignatureChecker Verify C (ck_tx ck) (ck_nIn ck) (nValue (ck_out ck))
          (Some (PrecomputedTransactionData_of C (ck_tx ck)))))"

text \<open>A version 0 witness program of 32 bytes: the script that hashes to it is the last element of the input's witness.\<close>

lemma run_check_p2wsh:
  assumes "run_check Verify C ck = Some (Inr ())" "flag (ck_flags ck) SCRIPT_VERIFY_WITNESS"
    and "IsWitnessProgram (scriptPubKey (ck_out ck)) = Some (0, program)" "length program = 32"
  shows "\<exists>args script. scriptWitness (vin (ck_tx ck) ! ck_nIn ck) = args @ [script] \<and> SHA256 C script = program"
proof -
  from assms obtain script args where "rev (scriptWitness (vin (ck_tx ck) ! ck_nIn ck)) = script # args" "SHA256 C script = program"
    by (auto simp: run_check_def Let_def VerifyScript_def verify_witness_def VerifyWitnessProgram_def witness_script_def sbind_Inr_iff
        split: if_splits sum.splits list.splits prod.splits)
  then show ?thesis by (metis rev.simps(2) rev_swap)
qed

definition check_inline :: "sig_verify \<Rightarrow> crypto \<Rightarrow> CScriptCheck \<Rightarrow> block_error + unit" where
  "check_inline Verify C ck =
     (case run_check Verify C ck of
        None \<Rightarrow> Inl BlockAssert
      | Some (Inr _) \<Rightarrow> Inr ()
      | Some (Inl _) \<Rightarrow>
          if ck_flags ck AND STANDARD_NOT_MANDATORY_VERIFY_FLAGS \<noteq> 0 then
            (case run_check Verify C (ck\<lparr>ck_flags := ck_flags ck AND NOT STANDARD_NOT_MANDATORY_VERIFY_FLAGS\<rparr>) of
               None \<Rightarrow> Inl BlockAssert
             | Some (Inr _) \<Rightarrow> Inl (Rejected 0 ''non-mandatory-script-verify-flag'' False)
             | Some (Inl _) \<Rightarrow> Inl (Rejected 100 ''mandatory-script-verify-flag-failed'' False))
          else Inl (Rejected 100 ''mandatory-script-verify-flag-failed'' False))"

text \<open>The checks of the inputs: with threads they are collected, without them they run at once.\<close>

fun check_input_scripts ::
  "sig_verify \<Rightarrow> crypto \<Rightarrow> usage \<Rightarrow> bool \<Rightarrow> u32 \<Rightarrow> CTransaction \<Rightarrow> view \<Rightarrow> nat \<Rightarrow> CTxIn list \<Rightarrow> CScriptCheck list \<Rightarrow>
   block_error + (CScriptCheck list \<times> view)" where
  "check_input_scripts Verify C u threads flags tx v i [] vChecks = Inr (vChecks, v)"
| "check_input_scripts Verify C u threads flags tx v i (txin # txins) vChecks =
     (case AccessCoin u (fst v) (snd v) (prevout txin) of
        (coin, v') \<Rightarrow>
          if IsSpent coin then Inl BlockAssert
          else let ck = \<lparr>ck_out = coin_out coin, ck_tx = tx, ck_nIn = i, ck_flags = flags\<rparr> in
            if threads then check_input_scripts Verify C u threads flags tx v' (Suc i) txins (vChecks @ [ck])
            else sbind (check_inline Verify C ck) (\<lambda>_. check_input_scripts Verify C u threads flags tx v' (Suc i) txins vChecks))"

text \<open>
  The cache of transactions whose scripts have been run is a list of entries; the code's cache may also forget entries. Its
  key is the hash of a random nonce, the witness hash and the flags.
\<close>

definition script_cache_entry :: "crypto \<Rightarrow> bytes \<Rightarrow> CTransaction \<Rightarrow> u32 \<Rightarrow> bytes" where
  "script_cache_entry C nonce tx flags =
     SHA256 C (take 19 nonce @ Serialize_uint256 (GetWitnessHash C tx) @ ser_writedata32 flags)"

definition CheckInputs ::
  "sig_verify \<Rightarrow> crypto \<Rightarrow> bytes \<Rightarrow> usage \<Rightarrow> bool \<Rightarrow> CTransaction \<Rightarrow> view \<Rightarrow> bool \<Rightarrow> u32 \<Rightarrow> bool \<Rightarrow> bytes list \<Rightarrow>
   block_error + (CScriptCheck list \<times> view \<times> bytes list)" where
  "CheckInputs Verify C nonce u threads tx v fScriptChecks flags cacheFullScriptStore cache =
     (if IsCoinBase tx \<or> \<not> fScriptChecks then Inr ([], v, cache)
      else
        let entry = script_cache_entry C nonce tx flags in
        if entry \<in> set cache then Inr ([], v, cache)
        else sbind (check_input_scripts Verify C u threads flags tx v 0 (vin tx) []) (\<lambda>(vChecks, v').
          Inr (vChecks, v', if cacheFullScriptStore \<and> \<not> threads then entry # cache else cache)))"

fun run_queue :: "sig_verify \<Rightarrow> crypto \<Rightarrow> CScriptCheck list \<Rightarrow> block_error + unit" where
  "run_queue Verify C [] = Inr ()"
| "run_queue Verify C (ck # cks) =
     (case run_check Verify C ck of
        None \<Rightarrow> Inl BlockAssert
      | Some (Inl _) \<Rightarrow> Inl (Rejected 100 ''block-validation-failed'' False)
      | Some (Inr _) \<Rightarrow> run_queue Verify C cks)"

section \<open>The value of the coinbase\<close>

text \<open>The state of smartnode synchronisation, the switch for superblocks, and the answers of the payment managers.\<close>

record payment_env =
  pe_IsSynced :: bool
  pe_fLiteMode :: bool
  pe_superblocks :: bool
  pe_IsSuperblockTriggered :: "int \<Rightarrow> bool"
  pe_SuperblockIsValid :: "CTransaction \<Rightarrow> int \<Rightarrow> int \<Rightarrow> bool"
  pe_IsTransactionValid :: "CTransaction \<Rightarrow> int \<Rightarrow> int \<Rightarrow> int \<Rightarrow> bool"

definition IsValidBlockHeight :: "block_params \<Rightarrow> int \<Rightarrow> bool" where
  "IsValidBlockHeight K nBlockHeight \<longleftrightarrow> nBlockHeight \<ge> nSuperblockStartBlock K \<and> nBlockHeight smod nSuperblockCycle K = 0"

definition GetPaymentsLimit :: "block_params \<Rightarrow> int \<Rightarrow> int" where
  "GetPaymentsLimit K nBlockHeight =
     (if \<not> IsValidBlockHeight K nBlockHeight then 0 else int64 (GetBlockSubsidy K (nBlockHeight - 1) * nSuperblockCycle K))"

definition IsOldBudgetBlockValueValid :: "block_params \<Rightarrow> payment_env \<Rightarrow> bool \<Rightarrow> int \<Rightarrow> bool" where
  "IsOldBudgetBlockValueValid K R isBlockRewardValueMet nBlockHeight \<longleftrightarrow>
     (if nBlockHeight < nBudgetPaymentsStartBlock K then False
      else if nBlockHeight \<ge> nSuperblockStartBlock K then False
      else if nBlockHeight smod nBudgetPaymentsCycleBlocks K < nBudgetPaymentsWindowBlocks K then
        (if pe_IsSynced R then isBlockRewardValueMet else True)
      else isBlockRewardValueMet)"

text \<open>\<open>None\<close> is the exception of \<^verbatim>\<open>GetValueOut\<close>.\<close>

definition IsBlockValueValid :: "block_params \<Rightarrow> payment_env \<Rightarrow> CTransaction \<Rightarrow> int \<Rightarrow> int \<Rightarrow> bool option" where
  "IsBlockValueValid K R coinbase nBlockHeight blockReward =
     map_option (\<lambda>valueOut.
       let isBlockRewardValueMet = (valueOut \<le> blockReward);
           nSuperblockMaxValue = int64 (blockReward + GetPaymentsLimit K nBlockHeight) in
       if nBlockHeight < nBudgetPaymentsStartBlock K then isBlockRewardValueMet
       else if nBlockHeight < nSuperblockStartBlock K then IsOldBudgetBlockValueValid K R isBlockRewardValueMet nBlockHeight
       else if \<not> IsValidBlockHeight K nBlockHeight then isBlockRewardValueMet
       else if \<not> valueOut \<le> nSuperblockMaxValue then False
       else if \<not> pe_IsSynced R \<or> pe_fLiteMode R then True
       else if \<not> pe_superblocks R then isBlockRewardValueMet
       else if \<not> pe_IsSuperblockTriggered R nBlockHeight then isBlockRewardValueMet
       else pe_SuperblockIsValid R coinbase nBlockHeight blockReward) (GetValueOut coinbase)"

definition IsBlockPayeeValid_payments :: "block_params \<Rightarrow> payment_env \<Rightarrow> CTransaction \<Rightarrow> int \<Rightarrow> int \<Rightarrow> int \<Rightarrow> bool option" where
  "IsBlockPayeeValid_payments K R txNew nBlockHeight blockReward specialTxFees =
     (if pe_fLiteMode R then Some True
      else if \<not> fSmartnodesEnabled K then
        map_option (\<lambda>valueOut. \<not> valueOut > int64 (blockReward + specialTxFees)) (GetValueOut txNew)
      else if nBlockHeight < smartnodePaymentFixedBlock K \<and> nBlockHeight < nSuperblockStartBlock K then Some True
      else if pe_superblocks R \<and> pe_IsSuperblockTriggered R nBlockHeight \<and> \<not> pe_SuperblockIsValid R txNew nBlockHeight blockReward
        then Some False
      else Some (pe_IsTransactionValid R txNew nBlockHeight blockReward specialTxFees))"

section \<open>Connecting a block\<close>

text \<open>
  What \<^verbatim>\<open>ConnectBlock\<close> reads besides its arguments: the environment of the checks, the verification of signatures, the curve library
  of the disk format, the payment managers, whether script checks run on threads, the nonce of the script cache, the
  configured trust in a block, and the answers of the layers that are not modelled (the database of special transactions,
  instant-send locks and chain locks).
\<close>

record connect_env =
  ce_block :: block_env
  ce_assets :: tx_assets_env
  ce_usage :: usage
  ce_full :: "db_write list \<Rightarrow> bool"
  ce_Verify :: sig_verify
  ce_ec :: ec_keys
  ce_payments :: payment_env
  ce_threads :: bool
  ce_nonce :: bytes
  ce_hashAssumeValid :: uint256
  ce_nMinimumChainWork :: limbs
  ce_VerifyBestBlock :: "uint256 \<Rightarrow> bool"
  ce_ProcessSpecialTxs :: "CBlock \<Rightarrow> ptr \<Rightarrow> bool \<Rightarrow> bool \<Rightarrow> block_error + unit"
  ce_UndoSpecialTxs :: "CBlock \<Rightarrow> ptr \<Rightarrow> bool"
  ce_instantsend :: bool
  ce_ConflictingLock :: "CTransaction \<Rightarrow> bool"
  ce_HasChainLock :: "int \<Rightarrow> uint256 \<Rightarrow> bool"

abbreviation ce_crypto :: "connect_env \<Rightarrow> crypto" where "ce_crypto E \<equiv> be_crypto (ce_block E)"
abbreviation ce_params :: "connect_env \<Rightarrow> block_params" where "ce_params E \<equiv> be_params (ce_block E)"

definition assets_env :: "connect_env \<Rightarrow> CBlock \<Rightarrow> tx_assets_env" where
  "assets_env E block = (ce_assets E)
     \<lparr>te_crypto := ce_crypto E, te_params := be_chain (ce_block E), te_fCheckMempool := False, te_fRunningUnitTests := False,
      te_nBlocktime := uint (hd_nTime block)\<rparr>"

text \<open>
  The state of the node: the tree of headers, the active chain, the undo files (by the block they belong to), the coins view of
  the tip, the script cache, the asset undo data of the database, which no function writes, and the pending reissues of the memory
  pool by transaction and by asset name.
\<close>

record node =
  nd_tree :: block_tree
  nd_chain :: CChain
  nd_rev :: "ptr \<Rightarrow> bytes option"
  nd_coins :: view
  nd_script_cache :: "bytes list"
  nd_asset_undo :: "uint256 \<Rightarrow> asset_undo list option"
  mapReissuedTx :: "(uint256 \<times> string) list"
  mapReissuedAssets :: "(string \<times> uint256) list"

text \<open>Scripts are not run below a block that the node is configured to trust, if it is two weeks of work below the best header.\<close>

definition script_checks :: "connect_env \<Rightarrow> block_tree \<Rightarrow> ptr \<Rightarrow> CBlockIndex \<Rightarrow> bool option" where
  "script_checks E bt p b =
     (if ce_hashAssumeValid E = 0 then Some True
      else case map_of (mapBlockIndex bt) (ce_hashAssumeValid E) of
        None \<Rightarrow> Some True
      | Some q \<Rightarrow> do {
          a \<leftarrow> GetAncestor (bt_store bt) q (nHeight b);
          if a \<noteq> Some p then Some True
          else do {
            best \<leftarrow> pindexBestHeader bt;
            a2 \<leftarrow> GetAncestor (bt_store bt) best (nHeight b);
            bb \<leftarrow> bt_store bt best;
            if a2 \<noteq> Some p \<or> CompareTo (nChainWork bb) (ce_nMinimumChainWork E) < 0 then Some True
            else do {
              t \<leftarrow> GetBlockProofEquivalentTime bb b bb (nPowTargetSpacing (he_pow (be_header (ce_block E))));
              Some (t \<le> 60 * 60 * 24 * 7 * 2)
            }
          }
        })"

record connect_state =
  cs_view :: view
  cs_assets :: CAssetsCache
  cs_nFees :: int
  cs_nSigOpsCost :: nat
  cs_vtxundo :: "Coin list list"
  cs_checks :: "CScriptCheck list"
  cs_script_cache :: "bytes list"

definition gerror :: "('d \<Rightarrow> 'e) \<Rightarrow> ('d, 'a) gcheck \<Rightarrow> ('e, 'a) gcheck" where
  "gerror f m = (\<lambda>G. case m G of (Inl e, G') \<Rightarrow> (Inl (f e), G') | (Inr x, G') \<Rightarrow> (Inr x, G'))"

definition access_height :: "usage \<Rightarrow> view \<Rightarrow> COutPoint \<Rightarrow> int \<times> view" where
  "access_height u v p = (case AccessCoin u (fst v) (snd v) p of (coin, v') \<Rightarrow> (int (coin_nHeight coin), v'))"

definition check_tx_assets ::
  "connect_env \<Rightarrow> CBlock \<Rightarrow> CTransaction \<Rightarrow> view \<Rightarrow> CAssetsCache \<Rightarrow> (block_error, view) gcheck" where
  "check_tx_assets E block tx v ac =
     (if \<not> AreAssetsDeployed then
        gpure (case find (\<lambda>out. IsAssetScript (scriptPubKey out) \<noteq> None \<or> IsNullAsset (scriptPubKey out)) (vout tx) of
            None \<Rightarrow> Inr v
          | Some out \<Rightarrow> Inl (Rejected 100 (if IsAssetScript (scriptPubKey out) \<noteq> None then ''bad-txns-assets-not-active''
              else ''bad-txns-null-data-assets-not-active'') False))
      else gerror TxError (gbind (CheckTxAssets (assets_env E block) ac (ce_usage E) (fst v) (snd v) tx) (\<lambda>(_, v'). gret v')))"

text \<open>The checks of a transaction that is no coinbase: values, assets and relative lock times. No transaction pays a special fee.\<close>

definition connect_inputs ::
  "connect_env \<Rightarrow> index_store \<Rightarrow> ptr \<Rightarrow> CBlockIndex \<Rightarrow> CBlock \<Rightarrow> CTransaction \<Rightarrow> connect_state \<Rightarrow> (block_error, connect_state) gcheck" where
  "connect_inputs E st p b block tx s =
     (let u = ce_usage E in
      gbind (gpure (block_tx (CheckTxInputs u (fst (cs_view s)) (snd (cs_view s)) tx (nHeight b)))) (\<lambda>(txfee, v1).
      let nFees = int64 (cs_nFees s + txfee) in
      gbind (gpure (block_if (\<not> MoneyRange nFees) 100 ''bad-txns-accumulated-fee-outofrange'' False)) (\<lambda>_.
      gbind (check_tx_assets E block tx v1 (cs_assets s)) (\<lambda>v2.
      case visit (access_height u) v2 (map prevout (vin tx)) of
        (prevheights, v3) \<Rightarrow>
          gbind (gpure (block_some (SequenceLocks st tx (if BIPCSVEnabled (ce_params E) then 1 else 0) prevheights p))) (\<lambda>final.
          gbind (gpure (block_if (\<not> final) 100 ''bad-txns-nonfinal'' False)) (\<lambda>_.
          gret (s\<lparr>cs_view := v3, cs_nFees := nFees\<rparr>)))))))"

definition connect_tx ::
  "connect_env \<Rightarrow> index_store \<Rightarrow> ptr \<Rightarrow> CBlockIndex \<Rightarrow> CBlock \<Rightarrow> bool \<Rightarrow> bool \<Rightarrow> nat \<Rightarrow> CTransaction \<Rightarrow> connect_state \<Rightarrow>
   (block_error, connect_state) gcheck" where
  "connect_tx E st p b block fScriptChecks fJustCheck i tx s =
     (let u = ce_usage E; C = ce_crypto E; flags = GetBlockScriptFlags (ce_params E) b in
      gbind (if IsCoinBase tx then gret s else connect_inputs E st p b block tx s) (\<lambda>s1.
      gbind (gpure (block_tx (GetTransactionSigOpCost u (fst (cs_view s1)) (snd (cs_view s1)) tx flags))) (\<lambda>(cost, v2).
      let nSigOpsCost = cs_nSigOpsCost s1 + cost in
      gbind (gpure (block_if (int nSigOpsCost > MAX_BLOCK_SIGOPS_COST) 100 ''bad-blk-sigops'' False)) (\<lambda>_.
      gbind (gpure (CheckInputs (ce_Verify E) C (ce_nonce E) u (ce_threads E) tx v2 fScriptChecks flags fJustCheck (cs_script_cache s1)))
        (\<lambda>(vChecks, v3, cache).
      gbind (UpdateCoins C (be_chain (ce_block E)) u v3 (cs_assets s1) tx (nat (nHeight b))
          (Headers.GetHash (be_header (ce_block E)) (GetBlockHeader block)) empty_undo) (\<lambda>(v4, ac, vprevout, _).
      gret (s1\<lparr>cs_view := v4, cs_assets := ac, cs_nSigOpsCost := nSigOpsCost,
        cs_vtxundo := (if i > 0 then cs_vtxundo s1 @ [vprevout] else cs_vtxundo s1),
        cs_checks := cs_checks s1 @ vChecks, cs_script_cache := cache\<rparr>)))))))"

fun connect_txs ::
  "connect_env \<Rightarrow> index_store \<Rightarrow> ptr \<Rightarrow> CBlockIndex \<Rightarrow> CBlock \<Rightarrow> bool \<Rightarrow> bool \<Rightarrow> nat \<Rightarrow> CTransaction list \<Rightarrow> connect_state \<Rightarrow>
   (block_error, connect_state) gcheck" where
  "connect_txs E st p b block fScriptChecks fJustCheck i [] s = gret s"
| "connect_txs E st p b block fScriptChecks fJustCheck i (tx # txs) s =
     gbind (connect_tx E st p b block fScriptChecks fJustCheck i tx s)
       (connect_txs E st p b block fScriptChecks fJustCheck (Suc i) txs)"

text \<open>The filter of instant-send locks; a lock that a chain lock overrules is removed.\<close>

definition instantsend_filter :: "connect_env \<Rightarrow> CBlockIndex \<Rightarrow> CTransaction list \<Rightarrow> block_error + unit" where
  "instantsend_filter E b txs =
     (if ce_instantsend E \<and> list_ex (\<lambda>tx. vin tx \<noteq> [] \<and> ce_ConflictingLock E tx) txs then
        sbind (block_some (phashBlock b)) (\<lambda>hash.
        block_if (\<not> ce_HasChainLock E (nHeight b) hash) 10 ''conflict-tx-lock'' False)
      else Inr ())"

definition check_reward :: "connect_env \<Rightarrow> CBlockIndex \<Rightarrow> CBlockIndex \<Rightarrow> CTransaction \<Rightarrow> int \<Rightarrow> block_error + unit" where
  "check_reward E b prv coinbase nFees =
     (let K = ce_params E; R = ce_payments E; specialTxFees = 0;
          blockReward = int64 (nFees + GetBlockSubsidy K (nHeight prv)) in
      sbind (case IsBlockValueValid K R coinbase (nHeight b) (int64 (blockReward + specialTxFees)) of
          None \<Rightarrow> Inl (TxError Throws) | Some ok \<Rightarrow> block_if (\<not> ok) 0 ''bad-cb-amount'' False) (\<lambda>_.
      case IsBlockPayeeValid_payments K R coinbase (nHeight b) blockReward specialTxFees of
          None \<Rightarrow> Inl (TxError Throws) | Some ok \<Rightarrow> block_if (\<not> ok) 0 ''bad-cb-payee'' False))"

text \<open>An undo file holds the undo data and a checksum that covers the hash of the previous block.\<close>

definition UndoWriteToDisk :: "ec_keys \<Rightarrow> crypto \<Rightarrow> Coin list list \<Rightarrow> uint256 \<Rightarrow> bytes option" where
  "UndoWriteToDisk ec C blockundo hashPrev =
     map_option (\<lambda>bs. bs @ Serialize_uint256 (GetHash_writer C (Serialize_uint256 hashPrev @ bs))) (Serialize_CBlockUndo ec blockundo)"

definition UndoReadFromDisk :: "ec_keys \<Rightarrow> crypto \<Rightarrow> bytes \<Rightarrow> uint256 \<Rightarrow> Coin list list option" where
  "UndoReadFromDisk ec C file hashPrev =
     (case Unserialize_CBlockUndo ec fAssetsIsActive file of
        Inl _ \<Rightarrow> None
      | Inr (blockundo, rest) \<Rightarrow>
          (case Unserialize_uint256 rest of
             Inl _ \<Rightarrow> None
           | Inr (hashChecksum, _) \<Rightarrow>
               if hashChecksum \<noteq> GetHash_writer C (Serialize_uint256 hashPrev @ take (length file - length rest) file) then None
               else Some blockundo))"

definition write_undo :: "connect_env \<Rightarrow> node \<Rightarrow> ptr \<Rightarrow> CBlockIndex \<Rightarrow> uint256 \<Rightarrow> Coin list list \<Rightarrow> node option" where
  "write_undo E N p b hashPrev vtxundo =
     do {
       valid \<leftarrow> IsValid b 5;
       if nStatus b AND 16 \<noteq> 0 \<and> valid then Some N
       else do {
         (b1, rev1) \<leftarrow> (if nStatus b AND 16 = 0 then do {
             file \<leftarrow> UndoWriteToDisk (ce_ec E) (ce_crypto E) vtxundo hashPrev;
             Some (b\<lparr>nStatus := nStatus b OR 16\<rparr>, (nd_rev N)(p \<mapsto> file))
           } else Some (b, nd_rev N));
         (_, b2) \<leftarrow> RaiseValidity b1 5;
         Some (N\<lparr>nd_rev := rev1, nd_tree := (nd_tree N)\<lparr>bt_store := (bt_store (nd_tree N))(p \<mapsto> b2),
           setDirtyBlockIndex := set_insert_ptr p (setDirtyBlockIndex (nd_tree N))\<rparr>\<rparr>)
       }
     }"

text \<open>The checks before the transactions: the entry of the block, its hash, the hash of its parent and the coins view.\<close>

definition connect_entry ::
  "connect_env \<Rightarrow> node \<Rightarrow> CBlock \<Rightarrow> ptr \<Rightarrow> view \<Rightarrow> bool \<Rightarrow> block_error + (CBlockIndex \<times> uint256 \<times> uint256 \<times> CBlock \<times> view)" where
  "connect_entry E N block p v fJustCheck =
     (let bt = nd_tree N; B = ce_block E; hash = Headers.GetHash (be_header B) (GetBlockHeader block) in
      sbind (block_some (bt_store bt p)) (\<lambda>b.
      sbind (if phashBlock b = None \<or> phashBlock b = Some hash then Inr () else Inl BlockAssert) (\<lambda>_.
      sbind (CheckBlock B bt block (nHeight b) (\<not> fJustCheck) (\<not> fJustCheck) False) (\<lambda>block1.
      sbind (block_if (pprev b \<noteq> None \<and> phashBlock b \<noteq> None \<and> HasConflictingChainLock (be_header B) (nHeight b) hash)
        10 ''bad-chainlock'' False) (\<lambda>_.
      sbind (case pprev b of None \<Rightarrow> Inr 0 | Some q \<Rightarrow> block_some (bt_store bt q \<bind> phashBlock)) (\<lambda>hashPrevBlock.
      sbind (case GetBestBlock (ViewCache (fst v) (snd v)) of
          (best, ViewCache c base) \<Rightarrow> if hashPrevBlock = best then Inr (c, base) else Inl BlockAssert
        | _ \<Rightarrow> Inl BlockAssert) (\<lambda>v1.
      sbind (if pprev b \<noteq> None \<and> isDIPDIP0003Active (bp_consensus (be_params B)) (be_tipHeight B) (nHeight b) \<and>
          \<not> ce_VerifyBestBlock E hashPrevBlock then Inl NodeAborted else Inr ()) (\<lambda>_.
      Inr (b, hash, hashPrevBlock, block1, v1)))))))))"

definition connect_block_txs ::
  "connect_env \<Rightarrow> node \<Rightarrow> CBlock \<Rightarrow> ptr \<Rightarrow> CBlockIndex \<Rightarrow> uint256 \<Rightarrow> view \<Rightarrow> CAssetsCache \<Rightarrow> bool \<Rightarrow> (block_error, connect_state) gcheck" where
  "connect_block_txs E N block p b hash v ac fJustCheck =
     (let bt = nd_tree N; K = ce_params E in
      gbind (gpure (block_some (script_checks E bt p b))) (\<lambda>fScriptChecks.
      gbind (gpure (block_if (nHeight b = nSuperblockStartBlock K \<and> nSuperblockStartHash K \<noteq> 0 \<and> hash \<noteq> nSuperblockStartHash K)
        100 ''bad-sb-start'' False)) (\<lambda>_.
      gbind (connect_txs E (bt_store bt) p b block fScriptChecks fJustCheck 0 (vtx block)
        \<lparr>cs_view = v, cs_assets = ac, cs_nFees = 0, cs_nSigOpsCost = 0, cs_vtxundo = [], cs_checks = [],
         cs_script_cache = nd_script_cache N\<rparr>) (\<lambda>s.
      gbind (gpure (run_queue (ce_Verify E) (ce_crypto E) (cs_checks s))) (\<lambda>_.
      gbind (gpure (instantsend_filter E b (vtx block))) (\<lambda>_.
      gbind (gpure (block_some (pprev b \<bind> bt_store bt))) (\<lambda>prv.
      gbind (gpure (check_reward E b prv (hd (vtx block)) (cs_nFees s))) (\<lambda>_.
      gbind (gpure (ce_ProcessSpecialTxs E block p fJustCheck fScriptChecks)) (\<lambda>_.
      gret s)))))))))"

definition ConnectBlock ::
  "connect_env \<Rightarrow> node \<Rightarrow> CBlock \<Rightarrow> ptr \<Rightarrow> view \<Rightarrow> CAssetsCache \<Rightarrow> bool \<Rightarrow> (block_error, node \<times> view \<times> CAssetsCache) gcheck" where
  "ConnectBlock E N block p v ac fJustCheck =
     gbind (gpure (connect_entry E N block p v fJustCheck)) (\<lambda>(b, hash, hashPrevBlock, block1, v1).
     if hash = hashGenesisBlock (be_header (ce_block E)) then
       (if fJustCheck then gret (N, v1, ac)
        else gbind (gpure (block_some (phashBlock b))) (\<lambda>h. gret (N, (SetBestBlock (fst v1) h, snd v1), ac)))
     else
       gbind (connect_block_txs E N block1 p b hash v1 ac fJustCheck) (\<lambda>s.
       let N1 = N\<lparr>nd_script_cache := cs_script_cache s\<rparr> in
       if fJustCheck then gret (N1, cs_view s, cs_assets s)
       else
         gbind (gpure (block_some (write_undo E N1 p b hashPrevBlock (cs_vtxundo s)))) (\<lambda>N2.
         gbind (gpure (block_some (phashBlock b))) (\<lambda>h.
         gret (N2, (SetBestBlock (fst (cs_view s)) h, snd (cs_view s)), cs_assets s)))))"

section \<open>Disconnecting a block\<close>

datatype disconnect_error = DISCONNECT_FAILED | DisconnectThrows coins_error

text \<open>The flag is set for \<^verbatim>\<open>DISCONNECT_OK\<close> and cleared for \<^verbatim>\<open>DISCONNECT_UNCLEAN\<close>.\<close>

fun access_by_txid :: "usage \<Rightarrow> view \<Rightarrow> uint256 \<Rightarrow> nat \<Rightarrow> nat \<Rightarrow> Coin \<times> view" where
  "access_by_txid u v txid n 0 = (coinEmpty, v)"
| "access_by_txid u v txid n (Suc k) =
     (case AccessCoin u (fst v) (snd v) \<lparr>COutPoint.op_hash = txid, op_n = of_nat n\<rparr> of
        (alternate, v') \<Rightarrow> if \<not> IsSpent alternate then (alternate, v') else access_by_txid u v' txid (Suc n) k)"

text \<open>The weight of an empty output is four times nine bytes.\<close>

definition AccessByTxid :: "usage \<Rightarrow> view \<Rightarrow> uint256 \<Rightarrow> Coin \<times> view" where
  "AccessByTxid u v txid = access_by_txid u v txid 0 (GetMaxBlockWeight div (WITNESS_SCALE_FACTOR * 9))"

definition ApplyTxInUndo ::
  "crypto \<Rightarrow> chain_params \<Rightarrow> usage \<Rightarrow> Coin \<Rightarrow> view \<Rightarrow> COutPoint \<Rightarrow> CAssetsCache \<Rightarrow>
   (disconnect_error, bool \<times> view \<times> CAssetsCache) gcheck" where
  "ApplyTxInUndo C P u undo v out ac =
     (case HaveCoin u (fst v) (snd v) out of
        (have, v1) \<Rightarrow>
          (case (if coin_nHeight undo = 0 then
               (case AccessByTxid u v1 (COutPoint.op_hash out) of
                  (alternate, v2) \<Rightarrow>
                    (if IsSpent alternate then None
                     else Some (undo\<lparr>coin_nHeight := coin_nHeight alternate, coin_fCoinBase := coin_fCoinBase alternate\<rparr>), v2))
             else (Some undo, v1)) of
             (None, _) \<Rightarrow> gfail DISCONNECT_FAILED
           | (Some coin, v2) \<Rightarrow>
               (case AddCoin u (fst v2) out coin have of
                  Inl e \<Rightarrow> gfail (DisconnectThrows e)
                | Inr c3 \<Rightarrow>
                    gread (\<lambda>G.
                      if AreAssetsDeployed \<and> IsAssetScript (scriptPubKey (coin_out undo)) \<noteq> None then
                        (case UndoAssetCoin C P G ac undo of
                           None \<Rightarrow> (False, (c3, snd v2), ac)
                         | Some ac' \<Rightarrow> (\<not> have, (c3, snd v2), ac'))
                      else (\<not> have, (c3, snd v2), ac)))))"

text \<open>
  The outputs of a transaction are spent against a copy of the asset cache, so only the flag depends on it. The lists are the
  positions of transfers and of commands, and the position of the last verifier string.
\<close>

record output_undo =
  ou_view :: view
  ou_tempCache :: CAssetsCache
  ou_fClean :: bool
  ou_vAssetTxIndex :: "nat list"
  ou_vNullAssetTxIndex :: "nat list"
  ou_verifier :: "nat option"

definition undo_output ::
  "crypto \<Rightarrow> chain_params \<Rightarrow> usage \<Rightarrow> uint256 \<Rightarrow> bool \<Rightarrow> int \<Rightarrow> nat \<Rightarrow> CTxOut \<Rightarrow> output_undo \<Rightarrow> assets_globals \<Rightarrow> output_undo" where
  "undo_output C P u hash is_coinbase h i out s G =
     (let script = scriptPubKey out in
      if \<not> IsUnspendable script then
        (case spend_coin C P u (ou_view s) (ou_tempCache s) \<lparr>COutPoint.op_hash = hash, op_n = of_nat i\<rparr> G of
           (is_spent, coin, v', temp') \<Rightarrow>
             s\<lparr>ou_view := v', ou_tempCache := temp',
               ou_fClean := ou_fClean s \<and> \<not> (\<not> is_spent \<or> out \<noteq> coin_out coin \<or> h \<noteq> int (coin_nHeight coin) \<or> is_coinbase \<noteq> coin_fCoinBase coin),
               ou_vAssetTxIndex := (if AreAssetsDeployed \<and> IsScriptTransferAsset script \<noteq> None then ou_vAssetTxIndex s @ [i]
                 else ou_vAssetTxIndex s)\<rparr>)
      else if AreRestrictedAssetsDeployed \<and> IsNullAsset script then
        (if IsNullAssetVerifierTxDataScript script then s\<lparr>ou_verifier := Some i\<rparr>
         else s\<lparr>ou_vNullAssetTxIndex := ou_vNullAssetTxIndex s @ [i]\<rparr>)
      else s)"

fun undo_outputs ::
  "crypto \<Rightarrow> chain_params \<Rightarrow> usage \<Rightarrow> uint256 \<Rightarrow> bool \<Rightarrow> int \<Rightarrow> nat \<Rightarrow> CTxOut list \<Rightarrow> output_undo \<Rightarrow> assets_globals \<Rightarrow> output_undo" where
  "undo_outputs C P u hash is_coinbase h i [] s G = s"
| "undo_outputs C P u hash is_coinbase h i (out # outs) s G =
     undo_outputs C P u hash is_coinbase h (Suc i) outs (undo_output C P u hash is_coinbase h i out s G) G"

definition or_failed :: "'a option \<Rightarrow> (disconnect_error, 'a) gcheck" where
  "or_failed x = gpure (case x of None \<Rightarrow> Inl DISCONNECT_FAILED | Some y \<Rightarrow> Inr y)"

text \<open>Removing an issue: only if the cache or the database has the asset.\<close>

definition remove_issue :: "CAssetsCache \<Rightarrow> CNewAsset \<times> string \<Rightarrow> (disconnect_error, CAssetsCache) gcheck" where
  "remove_issue c issue =
     gbind (gask (\<lambda>G. CheckIfAssetExists c G (na_strName (fst issue)) True)) (\<lambda>contains.
     if contains then gbind (gask (\<lambda>G. RemoveNewAsset G c (fst issue) (snd issue))) or_failed else gret c)"

definition remove_issue_and_owner ::
  "crypto \<Rightarrow> chain_params \<Rightarrow> CAssetsCache \<Rightarrow> CTransaction \<Rightarrow> (disconnect_error, CAssetsCache) gcheck" where
  "remove_issue_and_owner C P c tx =
     gbind (or_failed (AssetFromTransaction C P tx)) (\<lambda>issue.
     gbind (remove_issue c issue) (\<lambda>c1.
     gbind (or_failed (OwnerFromTransaction C P tx)) (\<lambda>(ownerName, ownerAddress).
     gread (\<lambda>G. RemoveOwnerAsset G c1 ownerName ownerAddress))))"

definition remove_reissue ::
  "crypto \<Rightarrow> chain_params \<Rightarrow> CAssetsCache \<Rightarrow> CTransaction \<Rightarrow> uint256 \<Rightarrow> asset_undo list \<Rightarrow> (disconnect_error, CAssetsCache) gcheck" where
  "remove_reissue C P c tx hash vUndoData =
     gbind (or_failed (ReissueAssetFromTransaction C P tx)) (\<lambda>(reissue, strAddress).
     gbind (gask (\<lambda>G. CheckIfAssetExists c G (re_strName reissue) True)) (\<lambda>contains.
     if contains then
       gbind (gask (\<lambda>G. RemoveReissueAsset G c reissue strAddress
         \<lparr>COutPoint.op_hash = hash, op_n = of_nat (length (vout tx) - 1)\<rparr> vUndoData)) or_failed
     else gret c))"

fun remove_unique_issues ::
  "crypto \<Rightarrow> chain_params \<Rightarrow> CAssetsCache \<Rightarrow> CTxOut list \<Rightarrow> (disconnect_error, CAssetsCache) gcheck" where
  "remove_unique_issues C P c [] = gret c"
| "remove_unique_issues C P c (out # outs) =
     gbind (if IsScriptNewUniqueAsset C P (scriptPubKey out)
            then gbind (or_failed (AssetFromScript C P (scriptPubKey out))) (remove_issue c) else gret c) (\<lambda>c1.
     remove_unique_issues C P c1 outs)"

definition remove_restricted_issue ::
  "crypto \<Rightarrow> chain_params \<Rightarrow> CAssetsCache \<Rightarrow> CTransaction \<Rightarrow> nat option \<Rightarrow> (disconnect_error, CAssetsCache) gcheck" where
  "remove_restricted_issue C P c tx verifier =
     gbind (or_failed (RestrictedAssetFromTransaction C P tx)) (\<lambda>issue.
     gbind (remove_issue c issue) (\<lambda>c1.
     gbind (or_failed verifier) (\<lambda>i.
     gbind (or_failed (AssetNullVerifierDataFromScript (scriptPubKey (vout tx ! i)))) (\<lambda>v.
     gret (RemoveRestrictedVerifier c1 (na_strName (fst issue)) v False)))))"

fun remove_transfers ::
  "crypto \<Rightarrow> chain_params \<Rightarrow> CAssetsCache \<Rightarrow> CTransaction \<Rightarrow> uint256 \<Rightarrow> nat list \<Rightarrow> (disconnect_error, CAssetsCache) gcheck" where
  "remove_transfers C P c tx hash [] = gret c"
| "remove_transfers C P c tx hash (i # is) =
     gbind (or_failed (TransferAssetFromScript C P (scriptPubKey (vout tx ! i)))) (\<lambda>(transfer, strAddress).
     gbind (gread (\<lambda>G. RemoveTransfer G c transfer strAddress \<lparr>COutPoint.op_hash = hash, op_n = of_nat i\<rparr>)) (\<lambda>r.
     gbind (or_failed r) (\<lambda>c1.
     remove_transfers C P c1 tx hash is)))"

definition remove_command :: "crypto \<Rightarrow> chain_params \<Rightarrow> CAssetsCache \<Rightarrow> script \<Rightarrow> (disconnect_error, CAssetsCache) gcheck" where
  "remove_command C P c s =
     (if IsNullAssetTxDataScript s then
        gbind (or_failed (AssetNullDataFromScript C P s)) (\<lambda>(data, address).
        let type = asset_type_of (nd_asset_name data) in
        gret (if type = QUALIFIER \<or> type = SUB_QUALIFIER then
            RemoveQualifierAddress c (nd_asset_name data) address (if nd_flag data \<noteq> 0 then ADD_QUALIFIER else REMOVE_QUALIFIER)
          else if type = RESTRICTED then
            RemoveRestrictedAddress c (nd_asset_name data) address (if nd_flag data \<noteq> 0 then FREEZE_ADDRESS else UNFREEZE_ADDRESS)
          else c))
      else if IsNullGlobalRestrictionAssetTxDataScript s then
        gbind (or_failed (GlobalAssetNullDataFromScript s)) (\<lambda>data.
        gret (RemoveGlobalRestricted c (nd_asset_name data) (if nd_flag data \<noteq> 0 then GLOBAL_FREEZE else GLOBAL_UNFREEZE)))
      else gret c)"

fun remove_commands ::
  "crypto \<Rightarrow> chain_params \<Rightarrow> CAssetsCache \<Rightarrow> CTransaction \<Rightarrow> nat list \<Rightarrow> (disconnect_error, CAssetsCache) gcheck" where
  "remove_commands C P c tx [] = gret c"
| "remove_commands C P c tx (i # is) =
     gbind (remove_command C P c (scriptPubKey (vout tx ! i))) (\<lambda>c1. remove_commands C P c1 tx is)"

definition undo_assets ::
  "crypto \<Rightarrow> chain_params \<Rightarrow> CAssetsCache \<Rightarrow> CTransaction \<Rightarrow> uint256 \<Rightarrow> asset_undo list \<Rightarrow> output_undo \<Rightarrow> (disconnect_error, CAssetsCache) gcheck" where
  "undo_assets C P c tx hash vUndoData s =
     (if \<not> AreAssetsDeployed then gret c
      else
        gbind (if tx_IsNewAsset C P tx then remove_issue_and_owner C P c tx
          else if tx_IsReissueAsset tx then remove_reissue C P c tx hash vUndoData
          else if tx_IsNewUniqueAsset C P tx then remove_unique_issues C P c (vout tx)
          else if tx_IsNewMsgChannelAsset C P tx then gbind (or_failed (MsgChannelAssetFromTransaction C P tx)) (remove_issue c)
          else if tx_IsNewQualifierAsset C P tx then gbind (or_failed (QualifierAssetFromTransaction C P tx)) (remove_issue c)
          else if tx_IsNewRestrictedAsset C P tx then remove_restricted_issue C P c tx (ou_verifier s)
          else gret c) (\<lambda>c1.
        gbind (remove_transfers C P c1 tx hash (ou_vAssetTxIndex s)) (\<lambda>c2.
        if AreRestrictedAssetsDeployed then remove_commands C P c2 tx (ou_vNullAssetTxIndex s) else gret c2)))"

text \<open>The inputs are restored from the last to the first: the argument is the list of inputs and coins in that order.\<close>

fun restore_inputs ::
  "crypto \<Rightarrow> chain_params \<Rightarrow> usage \<Rightarrow> (CTxIn \<times> Coin) list \<Rightarrow> view \<Rightarrow> CAssetsCache \<Rightarrow> bool \<Rightarrow>
   (disconnect_error, bool \<times> view \<times> CAssetsCache) gcheck" where
  "restore_inputs C P u [] v ac fClean = gret (fClean, v, ac)"
| "restore_inputs C P u ((txin, coin) # rest) v ac fClean =
     gbind (ApplyTxInUndo C P u coin v (prevout txin) ac) (\<lambda>(ok, v', ac').
     restore_inputs C P u rest v' ac' (fClean \<and> ok))"

text \<open>One transaction; \<open>txundo\<close> is \<open>None\<close> for the first one.\<close>

definition disconnect_tx ::
  "crypto \<Rightarrow> chain_params \<Rightarrow> usage \<Rightarrow> int \<Rightarrow> asset_undo list \<Rightarrow> CTransaction \<Rightarrow> Coin list option \<Rightarrow>
   bool \<times> view \<times> CAssetsCache \<times> CAssetsCache \<Rightarrow> (disconnect_error, bool \<times> view \<times> CAssetsCache \<times> CAssetsCache) gcheck" where
  "disconnect_tx C P u h vUndoData tx txundo state =
     (case state of (fClean, v, ac, tempCache) \<Rightarrow>
      let hash = tx_hash C tx in
      gbind (gread (undo_outputs C P u hash (IsCoinBase tx) h 0 (vout tx)
        \<lparr>ou_view = v, ou_tempCache = tempCache, ou_fClean = fClean, ou_vAssetTxIndex = [], ou_vNullAssetTxIndex = [], ou_verifier = None\<rparr>)) (\<lambda>s.
      gbind (undo_assets C P ac tx hash vUndoData s) (\<lambda>ac1.
      case txundo of
        None \<Rightarrow> gret (ou_fClean s, ou_view s, ac1, ou_tempCache s)
      | Some vprevout \<Rightarrow>
          if length vprevout \<noteq> length (vin tx) then gfail DISCONNECT_FAILED
          else gbind (restore_inputs C P u (rev (zip (vin tx) vprevout)) (ou_view s) ac1 (ou_fClean s)) (\<lambda>(fClean', v', ac2).
            gret (fClean', v', ac2, ou_tempCache s)))))"

text \<open>The transactions with their undo data, from the last to the first.\<close>

fun disconnect_txs ::
  "crypto \<Rightarrow> chain_params \<Rightarrow> usage \<Rightarrow> int \<Rightarrow> asset_undo list \<Rightarrow> (CTransaction \<times> Coin list option) list \<Rightarrow>
   bool \<times> view \<times> CAssetsCache \<times> CAssetsCache \<Rightarrow> (disconnect_error, bool \<times> view \<times> CAssetsCache \<times> CAssetsCache) gcheck" where
  "disconnect_txs C P u h vUndoData [] s = gret s"
| "disconnect_txs C P u h vUndoData ((tx, txundo) # rest) s =
     gbind (disconnect_tx C P u h vUndoData tx txundo s) (disconnect_txs C P u h vUndoData rest)"

definition DisconnectBlock ::
  "connect_env \<Rightarrow> node \<Rightarrow> CBlock \<Rightarrow> ptr \<Rightarrow> view \<Rightarrow> CAssetsCache \<Rightarrow> (disconnect_error, bool \<times> view \<times> CAssetsCache) gcheck" where
  "DisconnectBlock E N block p v ac =
     (let B = ce_block E; C = be_crypto B; st = bt_store (nd_tree N);
          hash = Headers.GetHash (be_header B) (GetBlockHeader block) in
      gbind (or_failed (st p)) (\<lambda>b.
      gbind (or_failed (phashBlock b)) (\<lambda>h.
      gbind (if isDIPDIP0003Active (bp_consensus (be_params B)) (be_tipHeight B) (nHeight b) \<and> \<not> ce_VerifyBestBlock E h
        then gfail DISCONNECT_FAILED else gret ()) (\<lambda>_.
      gbind (or_failed (if nStatus b AND 16 = 0 then None else nd_rev N p)) (\<lambda>file.
      gbind (or_failed (pprev b \<bind> st \<bind> phashBlock)) (\<lambda>hashPrev.
      gbind (or_failed (UndoReadFromDisk (ce_ec E) C file hashPrev)) (\<lambda>vtxundo.
      gbind (if length vtxundo + 1 \<noteq> length (vtx block) then gfail DISCONNECT_FAILED else gret ()) (\<lambda>_.
      let vUndoData = (case nd_asset_undo N hash of None \<Rightarrow> [] | Some d \<Rightarrow> d) in
      gbind (if \<not> ce_UndoSpecialTxs E block p then gfail DISCONNECT_FAILED else gret ()) (\<lambda>_.
      gbind (disconnect_txs C (be_chain B) (ce_usage E) (nHeight b) vUndoData
        (rev (zip (vtx block) (None # map Some vtxundo))) (True, v, ac, ac)) (\<lambda>(fClean, v1, ac1, _).
      gret (fClean, (SetBestBlock (fst v1) hashPrev, snd v1), ac1)))))))))))"

section \<open>The tip of the active chain\<close>

datatype tip_error = TipRejected block_error | TipDisconnect disconnect_error | TipUnclean | TipAssert | TipThrows coins_error

definition new_view :: "view \<Rightarrow> view" where
  "new_view v = (\<lparr>hashBlock = 0, cacheCoins = [], cachedCoinsUsage = 0\<rparr>, ViewCache (fst v) (snd v))"

definition flush_view :: "connect_env \<Rightarrow> view \<Rightarrow> (tip_error, view) gcheck" where
  "flush_view E v =
     gpure (case Flush (ce_usage E) (ce_full E) (fst v) (snd v) of
        Inl e \<Rightarrow> Inl (TipThrows e)
      | Inr (_, ViewCache c base) \<Rightarrow> Inr (c, base)
      | Inr (_, ViewDB d) \<Rightarrow> Inl TipAssert)"

definition tip_some :: "'a option \<Rightarrow> (tip_error, 'a) gcheck" where
  "tip_some x = gpure (case x of None \<Rightarrow> Inl TipAssert | Some y \<Rightarrow> Inr y)"

text \<open>A reissue that is in the block is no longer pending.\<close>

fun erase_reissues :: "crypto \<Rightarrow> CTransaction list \<Rightarrow> node \<Rightarrow> node" where
  "erase_reissues C [] N = N"
| "erase_reissues C (tx # txs) N =
     erase_reissues C txs
       (case map_of (mapReissuedTx N) (tx_hash C tx) of
          None \<Rightarrow> N
        | Some name \<Rightarrow> N\<lparr>mapReissuedAssets := filter (\<lambda>(n, _). n \<noteq> name) (mapReissuedAssets N),
            mapReissuedTx := filter (\<lambda>(h, _). h \<noteq> tx_hash C tx) (mapReissuedTx N)\<rparr>)"

text \<open>
  \<open>block\<close> is the block that the code has in hand or reads from disk. The flush of the node's state to disk, the transactions of the
  memory pool, snapshots and the listeners are left out.
\<close>

definition ConnectTip :: "connect_env \<Rightarrow> node \<Rightarrow> CBlock \<Rightarrow> ptr \<Rightarrow> (tip_error, node) gcheck" where
  "ConnectTip E N block p =
     gbind (tip_some (bt_store (nd_tree N) p)) (\<lambda>b.
     if pprev b \<noteq> Tip (nd_chain N) then gfail TipAssert
     else
       gbind (gerror TipRejected (ConnectBlock E N block p (new_view (nd_coins N)) ClearDirtyCache False)) (\<lambda>(N1, v, ac).
       gbind (flush_view E v) (\<lambda>coins.
       gbind (\<lambda>G. (Inr (), Flush_cache ac G)) (\<lambda>_.
       gbind (tip_some (SetTip (bt_store (nd_tree N1)) (nd_chain N1) (Some p))) (\<lambda>chain.
       gret (erase_reissues (ce_crypto E) (vtx block) (N1\<lparr>nd_coins := coins, nd_chain := chain\<rparr>)))))))"

definition DisconnectTip :: "connect_env \<Rightarrow> node \<Rightarrow> CBlock \<Rightarrow> (tip_error, node) gcheck" where
  "DisconnectTip E N block =
     gbind (tip_some (Tip (nd_chain N))) (\<lambda>p.
     gbind (tip_some (bt_store (nd_tree N) p)) (\<lambda>b.
     let v = new_view (nd_coins N) in
     case GetBestBlock (ViewCache (fst v) (snd v)) of
       (best, ViewCache c base) \<Rightarrow>
         if phashBlock b \<noteq> Some best then gfail TipAssert
         else
           gbind (gerror TipDisconnect (DisconnectBlock E N block p (c, base) ClearDirtyCache)) (\<lambda>(ok, v1, _).
           if \<not> ok then gfail TipUnclean
           else
             gbind (flush_view E v1) (\<lambda>coins.
             gbind (tip_some (SetTip (bt_store (nd_tree N)) (nd_chain N) (pprev b))) (\<lambda>chain.
             gret (N\<lparr>nd_coins := coins, nd_chain := chain\<rparr>))))
     | _ \<Rightarrow> gfail TipAssert))"

end
