(* ===== verification/ConnectSafety.thy ===== *)
theory ConnectSafety
  imports Connect
begin

text \<open>
  What connecting and disconnecting a block does to the set of unspent outputs. A view with sound caches \<open>stands\<close> for a map of
  unspent outputs; each operation of \<^verbatim>\<open>ConnectBlock\<close> and \<^verbatim>\<open>DisconnectBlock\<close> is described by what it does to that map.
\<close>

declare utxo.simps [simp del] view_inv.simps [simp del]

section \<open>Views and the maps they stand for\<close>

type_synonym utxo_map = "COutPoint \<Rightarrow> Coin option"

definition stands :: "usage \<Rightarrow> view \<Rightarrow> utxo_map \<Rightarrow> bool" where
  "stands u v m \<longleftrightarrow> cache_view_inv u (fst v) (snd v) \<and> cache_utxo v = m \<and> u [] = 0"

lemma stands_unspent: "stands u v m \<Longrightarrow> m p = Some coin \<Longrightarrow> \<not> IsSpent coin"
  using utxo_unspent [of u "ViewCache (fst v) (snd v)"] by (auto simp: stands_def)

lemma stands_AccessCoin:
  assumes "stands u v m" "AccessCoin u (fst v) (snd v) p = (coin, v')"
  shows "coin = coin_at m p \<and> stands u v' m"
  using access_coin.query [of u v p coin v'] assms by (auto simp: stands_def)

lemma stands_HaveCoin:
  assumes "stands u v m" "HaveCoin u (fst v) (snd v) p = (b, v')"
  shows "b = (m p \<noteq> None) \<and> stands u v' m"
  using have_coin.query [of u v p b v'] assms by (auto simp: stands_def)

lemma stands_AddCoin:
  assumes "stands u v m" "\<not> IsSpent coin" "ow \<or> m p = None"
  shows "\<exists>c'. AddCoin u (fst v) p coin ow = Inr c' \<and>
    stands u (c', snd v) (if IsUnspendable (scriptPubKey (coin_out coin)) then m else m(p := Some coin))"
proof (cases "IsUnspendable (scriptPubKey (coin_out coin))")
  case True
  then show ?thesis using assms by (simp add: AddCoin_def stands_def)
next
  case False
  then show ?thesis using AddCoin_correct [of u "fst v" "snd v" coin ow p] assms by (auto simp: stands_def)
qed

lemma AddCoin_not_spent: "AddCoin u c p coin ow = Inr c' \<Longrightarrow> \<not> IsSpent coin"
  by (auto simp: AddCoin_def)

lemma stands_spend_coin:
  assumes "stands u v m" "spend_coin C P u v ac p G = (ok, coin, v', ac')"
  shows "stands u v' (m(p := None))"
    and "m p = Some x \<Longrightarrow> coin = x \<and> ok = fst (TrySpendCoin C P G ac (coin_out x)) \<and> ac' = snd (TrySpendCoin C P G ac (coin_out x))"
proof -
  let ?attempt = "\<lambda>coin. if AreAssetsDeployed then Some (fst (TrySpendCoin C P G ac (coin_out coin))) else None"
  obtain ok1 out c1 base1 where s: "SpendCoin u (fst v) (snd v) p ?attempt = (ok1, out, c1, base1)"
    by (cases "SpendCoin u (fst v) (snd v) p ?attempt") auto
  have dep: "AreAssetsDeployed" by (simp add: deployed_defs)
  from SpendCoin_correct [OF _ s] assms(1) have
    1: "utxo (ViewCache c1 base1) = m(p := None)" "cache_view_inv u c1 base1" "\<forall>coin. m p = Some coin \<longrightarrow> out = Some coin \<and> ok1 = (?attempt coin \<noteq> Some False)"
    by (auto simp: stands_def)
  have 2: "(ok, coin, v', ac') = (case out of None \<Rightarrow> (ok1, coinEmpty, (c1, base1), ac)
      | Some coin \<Rightarrow> (ok1, coin, (c1, base1), snd (TrySpendCoin C P G ac (coin_out coin))))"
    using assms(2) unfolding spend_coin_def s by (cases out) (simp_all add: dep)
  then have "v' = (c1, base1)" by (cases out) auto
  with 1 assms(1) show "stands u v' (m(p := None))" by (simp add: stands_def)
  show "coin = x \<and> ok = fst (TrySpendCoin C P G ac (coin_out x)) \<and> ac' = snd (TrySpendCoin C P G ac (coin_out x))" if "m p = Some x"
    using 1(3) that 2 dep by auto
qed

section \<open>Checks leave the map alone\<close>

lemma stands_HaveInputs: "stands u v m \<Longrightarrow> HaveInputs u (fst v) (snd v) tx = (ok, v') \<Longrightarrow> stands u v' m"
  using HaveInputs_cases [of u "fst v" "snd v" tx] by (fastforce simp: stands_def)

lemma stands_inputs_loop:
  "stands u v m \<Longrightarrow> inputs_loop u (fst v) (snd v) h ins n = Inr (n', v') \<Longrightarrow> stands u v' m"
proof (induction ins arbitrary: v n)
  case (Cons i ins)
  obtain coin v1 where a: "AccessCoin u (fst v) (snd v) (prevout i) = (coin, v1)" by (cases "AccessCoin u (fst v) (snd v) (prevout i)") auto
  from stands_AccessCoin [OF Cons.prems(1) a] Cons.prems(2) a Cons.IH [of v1] show ?case
    by (auto simp: Let_def split: if_splits prod.splits)
qed auto

lemma stands_CheckTxInputs:
  assumes "stands u v m" "CheckTxInputs u (fst v) (snd v) tx h = Inr (fee, v')"
  shows "stands u v' m"
proof -
  obtain ok v1 where h: "HaveInputs u (fst v) (snd v) tx = (ok, v1)" by (cases "HaveInputs u (fst v) (snd v) tx") auto
  with assms(2) have "ok" by (cases ok) (auto simp: CheckTxInputs_def split: prod.splits)
  with h assms(2) obtain n v2 where "inputs_loop u (fst v1) (snd v1) h (vin tx) 0 = Inr (n, v2)" "v' = v2"
    by (auto simp: CheckTxInputs_def sbind_Inr_iff Let_def split: prod.splits option.splits)
  with stands_inputs_loop stands_HaveInputs [OF assms(1) h] show ?thesis by blast
qed

lemma CheckTxInputs_spends:
  assumes "stands u v m" "CheckTxInputs u (fst v) (snd v) tx h = Inr (fee, v')"
  shows "\<forall>i \<in> set (vin tx). input_ok m h i" "0 \<le> fee" "fee \<le> MAX_MONEY"
    "\<exists>value_out. GetValueOut tx = Some value_out \<and> sum_list (map (input_value m) (vin tx)) = value_out + fee"
proof -
  note inv = assms(1) [unfolded stands_def]
  from stands_CheckTxInputs [OF assms] assms(2) inv have
    "\<exists>c' base'. CheckTxInputs u (fst v) (snd v) tx h = Inr (fee, c', base') \<and> utxo (ViewCache c' base') = cache_utxo v \<and> cache_view_inv u c' base'"
    by (cases v') (auto simp: stands_def)
  with CheckTxInputs_accepts [of u "fst v" "snd v" tx h fee] inv
  have 1: "(\<forall>i \<in> set (vin tx). input_ok m h i) \<and> MoneyRange (sum_list (map (input_value m) (vin tx))) \<and> fee \<ge> 0 \<and>
    (\<exists>value_out. GetValueOut tx = Some value_out \<and> sum_list (map (input_value m) (vin tx)) = value_out + fee)" by auto
  then show "\<forall>i \<in> set (vin tx). input_ok m h i" "0 \<le> fee"
    "\<exists>value_out. GetValueOut tx = Some value_out \<and> sum_list (map (input_value m) (vin tx)) = value_out + fee" by blast+
  from 1 GetValueOut_range [of tx] show "fee \<le> MAX_MONEY" by (auto simp: MoneyRange_def)
qed

lemma stands_asset_inputs:
  "stands u v m \<Longrightarrow> asset_inputs_loop E ac u (fst v) (snd v) ins st G = (Inr (st', v'), H) \<Longrightarrow> stands u v' m"
proof (induction ins arbitrary: v st G)
  case (Cons i ins)
  obtain coin v1 where a: "AccessCoin u (fst v) (snd v) (prevout i) = (coin, v1)" by (cases "AccessCoin u (fst v) (snd v) (prevout i)") auto
  from stands_AccessCoin [OF Cons.prems(1) a] Cons.prems(2) a Cons.IH [of v1] show ?case
    by (auto simp: gcheck_iff split: if_splits prod.splits)
qed (auto simp: gret_def)

lemma stands_CheckTxAssets:
  assumes "stands u v m" "CheckTxAssets E ac u (fst v) (snd v) tx G = (Inr (st, v'), H)"
  shows "stands u v' m"
proof -
  obtain ok v1 where h: "HaveInputs u (fst v) (snd v) tx = (ok, v1)" by (cases "HaveInputs u (fst v) (snd v) tx") auto
  with assms(2) have "ok" by (cases ok) (auto simp: CheckTxAssets_def gfail_def split: prod.splits)
  with h assms(2) obtain r v2 G1 where "asset_inputs_loop E ac u (fst v1) (snd v1) (vin tx) ([], []) G = (Inr (r, v2), G1)" "v' = v2"
    by (auto simp: CheckTxAssets_def gcheck_iff split: prod.splits)
  with stands_asset_inputs stands_HaveInputs [OF assms(1) h] show ?thesis by blast
qed

lemma stands_p2sh_loop: "stands u v m \<Longrightarrow> p2sh_loop u (fst v) (snd v) ins n = Inr (n', v') \<Longrightarrow> stands u v' m"
proof (induction ins arbitrary: v n)
  case (Cons i ins)
  obtain coin v1 where a: "AccessCoin u (fst v) (snd v) (prevout i) = (coin, v1)" by (cases "AccessCoin u (fst v) (snd v) (prevout i)") auto
  from stands_AccessCoin [OF Cons.prems(1) a] Cons.prems(2) a Cons.IH [of v1] show ?case by (auto split: if_splits prod.splits)
qed auto

lemma stands_witness_loop: "stands u v m \<Longrightarrow> witness_loop u (fst v) (snd v) flags ins n = Inr (n', v') \<Longrightarrow> stands u v' m"
proof (induction ins arbitrary: v n)
  case (Cons i ins)
  obtain coin v1 where a: "AccessCoin u (fst v) (snd v) (prevout i) = (coin, v1)" by (cases "AccessCoin u (fst v) (snd v) (prevout i)") auto
  from stands_AccessCoin [OF Cons.prems(1) a] Cons.prems(2) a Cons.IH [of v1] show ?case by (auto split: if_splits prod.splits option.splits)
qed auto

lemma stands_SigOpCost:
  assumes "stands u v m" "GetTransactionSigOpCost u (fst v) (snd v) tx flags = Inr (cost, v')"
  shows "stands u v' m"
proof (cases "IsCoinBase tx")
  case True
  then show ?thesis using assms by (cases v) (auto simp: GetTransactionSigOpCost_def)
next
  case False
  then have "GetTransactionSigOpCost u (fst v) (snd v) tx flags =
      sbind (if flag flags SCRIPT_VERIFY_P2SH then p2sh_loop u (fst v) (snd v) (vin tx) 0 else Inr (0, v)) (\<lambda>(n, w).
        witness_loop u (fst w) (snd w) flags (vin tx) (GetLegacySigOpCount tx * WITNESS_SCALE_FACTOR + n * WITNESS_SCALE_FACTOR))"
    by (simp add: GetTransactionSigOpCost_def GetP2SHSigOpCount_def case_prod_unfold)
  with assms(2) obtain n w where 1: "(if flag flags SCRIPT_VERIFY_P2SH then p2sh_loop u (fst v) (snd v) (vin tx) 0 else Inr (0, v)) = Inr (n, w)"
    and 2: "witness_loop u (fst w) (snd w) flags (vin tx) (GetLegacySigOpCount tx * WITNESS_SCALE_FACTOR + n * WITNESS_SCALE_FACTOR) = Inr (cost, v')"
    by (auto simp: sbind_Inr_iff)
  from 1 assms(1) have "stands u w m" by (auto split: if_splits dest: stands_p2sh_loop)
  with 2 stands_witness_loop show ?thesis by blast
qed

text \<open>The checks that are collected, or that have run: one for each input, for the coin it spends.\<close>

definition input_checks :: "utxo_map \<Rightarrow> u32 \<Rightarrow> CTransaction \<Rightarrow> nat \<Rightarrow> CTxIn list \<Rightarrow> CScriptCheck list" where
  "input_checks m flags tx i ins =
     map (\<lambda>(k, txin). \<lparr>ck_out = coin_out (coin_at m (prevout txin)), ck_tx = tx, ck_nIn = i + k, ck_flags = flags\<rparr>) (enumerate 0 ins)"

lemma input_checks_Cons:
  "input_checks m flags tx i (txin # ins) =
     \<lparr>ck_out = coin_out (coin_at m (prevout txin)), ck_tx = tx, ck_nIn = i, ck_flags = flags\<rparr> # input_checks m flags tx (Suc i) ins"
  by (auto simp: input_checks_def enumerate_eq_zip upt_conv_Cons simp flip: map_Suc_upt simp: zip_map1 simp del: upt_Suc)

definition passes :: "sig_verify \<Rightarrow> crypto \<Rightarrow> CScriptCheck \<Rightarrow> bool" where
  "passes Verify C ck \<longleftrightarrow> run_check Verify C ck = Some (Inr ())"

lemma check_inline_passes: "check_inline Verify C ck = Inr x \<Longrightarrow> passes Verify C ck"
  by (auto simp: check_inline_def passes_def split: option.splits sum.splits if_splits)

lemma run_queue_passes: "run_queue Verify C cks = Inr x \<longleftrightarrow> list_all (passes Verify C) cks"
  by (induction cks) (auto simp: passes_def split: option.splits sum.splits)

lemma check_input_scripts_checks:
  "stands u v m \<Longrightarrow> check_input_scripts Verify C u threads flags tx v i ins cks = Inr (cks', v') \<Longrightarrow> stands u v' m \<and>
     (if threads then cks' = cks @ input_checks m flags tx i ins
      else cks' = cks \<and> list_all (passes Verify C) (input_checks m flags tx i ins))"
proof (induction ins arbitrary: v i cks)
  case Nil
  then show ?case by (auto simp: input_checks_def)
next
  case (Cons txin ins)
  obtain coin v1 where a: "AccessCoin u (fst v) (snd v) (prevout txin) = (coin, v1)"
    by (cases "AccessCoin u (fst v) (snd v) (prevout txin)") auto
  note s = stands_AccessCoin [OF Cons.prems(1) a]
  show ?case
  proof (cases threads)
    case True
    let ?ck = "\<lparr>ck_out = coin_out (coin_at m (prevout txin)), ck_tx = tx, ck_nIn = i, ck_flags = flags\<rparr>"
    from True Cons.prems(2) a s have "check_input_scripts Verify C u threads flags tx v1 (Suc i) ins (cks @ [?ck]) = Inr (cks', v')"
      by (auto simp: Let_def split: if_splits)
    with Cons.IH [OF _ this] True s show ?thesis by (simp add: input_checks_Cons)
  next
    case False
    with Cons.prems(2) a s Cons.IH [of v1] check_inline_passes show ?thesis
      by (auto simp: input_checks_Cons Let_def sbind_Inr_iff split: if_splits)
  qed
qed

text \<open>What \<^verbatim>\<open>CheckInputs\<close> leaves to be done: the scripts are run, or queued, or remembered as run.\<close>

lemma CheckInputs_checks:
  assumes "stands u v m" "CheckInputs Verify C nonce u threads tx v fScriptChecks flags store cache = Inr (cks, v', cache')"
    and "\<not> IsCoinBase tx" "fScriptChecks" "list_all (passes Verify C) cks"
  shows "list_all (passes Verify C) (input_checks m flags tx 0 (vin tx)) \<or> script_cache_entry C nonce tx flags \<in> set cache"
  using assms check_input_scripts_checks [OF assms(1), of Verify C threads flags tx 0 "vin tx" "[]"]
  by (auto simp: CheckInputs_def Let_def sbind_Inr_iff split: if_splits)

lemma stands_CheckInputs:
  assumes "stands u v m" "CheckInputs Verify C nonce u threads tx v fScriptChecks flags store cache = Inr (cks, v', cache')"
  shows "stands u v' m"
  using assms check_input_scripts_checks [OF assms(1), of Verify C threads flags tx 0 "vin tx" "[]"]
  by (auto simp: CheckInputs_def Let_def sbind_Inr_iff split: if_splits)

interpretation access_heights: view_query "\<lambda>v. cache_view_inv u (fst v) (snd v)" cache_utxo
    "access_height u" "\<lambda>m p. int (coin_nHeight (coin_at m p))" for u
proof unfold_locales
  fix v p r v' assume v: "cache_view_inv u (fst v) (snd v)" and a: "access_height u v p = (r, v')"
  obtain coin w where "AccessCoin u (fst v) (snd v) p = (coin, w)" by (cases "AccessCoin u (fst v) (snd v) p") auto
  with access_coin.query [OF v this] a
  show "r = int (coin_nHeight (coin_at (cache_utxo v) p)) \<and> cache_utxo v' = cache_utxo v \<and> cache_view_inv u (fst v') (snd v')"
    by (simp add: access_height_def)
qed

lemma stands_heights:
  assumes "stands u v m" "visit (access_height u) v ps = (hs, v')"
  shows "stands u v' m" "hs = map (\<lambda>p. int (coin_nHeight (coin_at m p))) ps"
  using access_heights.visit_answers [of u v ps] assms by (auto simp: stands_def)

section \<open>Spending and adding\<close>

definition without :: "COutPoint list \<Rightarrow> utxo_map \<Rightarrow> utxo_map" where
  "without ps m p = (if p \<in> set ps then None else m p)"

lemma without_simps [simp]: "without [] m = m" "without (p # ps) m = without ps (m(p := None))"
  by (auto simp: without_def fun_eq_iff)

definition tx_effect :: "crypto \<Rightarrow> nat \<Rightarrow> CTransaction \<Rightarrow> utxo_map \<Rightarrow> utxo_map" where
  "tx_effect C h tx m = with_outputs (tx_hash C tx) (IsCoinBase tx) h 0 (vout tx)
     (if IsCoinBase tx then m else without (map prevout (vin tx)) m)"

lemma spend_inputs_effect:
  assumes "stands u v m" "spend_inputs C P u v ac ins acc G = (Inr (v', ac', acc'), H)"
    and "distinct (map prevout ins)" "\<forall>i \<in> set ins. m (prevout i) \<noteq> None"
  shows "stands u v' (without (map prevout ins) m) \<and> acc' = acc @ map (\<lambda>i. coin_at m (prevout i)) ins"
  using assms
proof (induction ins arbitrary: v m ac acc)
  case Nil
  then show ?case by (simp add: gret_def)
next
  case (Cons i ins)
  obtain ok coin v1 ac1 where s: "spend_coin C P u v ac (prevout i) G = (ok, coin, v1, ac1)"
    by (cases "spend_coin C P u v ac (prevout i) G") auto
  from Cons.prems(4) obtain x where x: "m (prevout i) = Some x" by auto
  note 1 = stands_spend_coin [OF Cons.prems(1) s]
  from Cons.prems(2) s have 2: "spend_inputs C P u v1 ac1 ins (acc @ [coin]) G = (Inr (v', ac', acc'), H)"
    by (auto simp: gbind_def gread_def gfail_def split: if_splits)
  have ne: "\<forall>j \<in> set ins. prevout j \<noteq> prevout i" using Cons.prems(3) by (auto simp: image_iff)
  then have 3: "map (\<lambda>j. coin_at (m(prevout i := None)) (prevout j)) ins = map (\<lambda>j. coin_at m (prevout j)) ins"
    by (simp add: coin_at_def)
  from ne Cons.prems(4) have n: "\<forall>j \<in> set ins. (m(prevout i := None)) (prevout j) \<noteq> None" by simp
  have d: "distinct (map prevout ins)" using Cons.prems(3) by simp
  from Cons.IH [OF 1(1) 2 d n] have
    "stands u v' (without (map prevout ins) (m(prevout i := None))) \<and> acc' = (acc @ [coin]) @ map (\<lambda>j. coin_at (m(prevout i := None)) (prevout j)) ins" .
  with 1(2) [OF x] x show ?case unfolding 3 by (simp add: coin_at_def)
qed

lemma add_outputs_AddCoins:
  "add_outputs C P u v ac txid cb h check i outs G = (Inr (v', ac'), H) \<Longrightarrow>
     AddCoins_loop u (fst v) (snd v) txid cb h check i outs = Inr v' \<and> (\<forall>x \<in> set outs. \<not> CTxOut_IsNull x)"
proof (induction outs arbitrary: v ac i G)
  case Nil
  then show ?case by (simp add: gret_def)
next
  case (Cons txout outs)
  let ?p = "\<lparr>COutPoint.op_hash = txid, op_n = of_nat i\<rparr>"
  obtain ow c1 base1 where q: "(if check then HaveCoin u (fst v) (snd v) ?p else (cb, v)) = (ow, c1, base1)"
    by (cases "if check then HaveCoin u (fst v) (snd v) ?p else (cb, v)") auto
  with Cons.prems obtain c2 where c2: "AddCoin u c1 ?p (mk_Coin txout h cb) ow = Inr c2"
    by (auto simp: gfail_def Let_def split: sum.splits)
  with q Cons.prems obtain ac2 G2 where "add_outputs C P u (c2, base1) ac2 txid cb h check (Suc i) outs G2 = (Inr (v', ac'), H)"
    by (auto simp: gcheck_iff split: if_splits)
  with Cons.IH [OF this] q c2 AddCoin_not_spent [OF c2] show ?case
    by (auto simp: IsSpent_def mk_Coin_def split: if_splits prod.splits)
qed

definition fresh :: "crypto \<Rightarrow> CTransaction list \<Rightarrow> utxo_map \<Rightarrow> bool" where
  "fresh C txs m \<longleftrightarrow> distinct (map (tx_hash C) txs) \<and> (\<forall>tx \<in> set txs. \<forall>q. COutPoint.op_hash q = tx_hash C tx \<longrightarrow> m q = None)"

text \<open>What the transactions of a checked block satisfy, one by one.\<close>

definition tx_shape :: "CTransaction \<Rightarrow> bool" where
  "tx_shape tx \<longleftrightarrow> length (vout tx) \<le> 2 ^ 32 \<and> distinct (map prevout (vin tx))"

definition spent_coins :: "utxo_map \<Rightarrow> CTransaction \<Rightarrow> Coin list" where
  "spent_coins m tx = (if IsCoinBase tx then [] else map (\<lambda>i. coin_at m (prevout i)) (vin tx))"

lemma UpdateCoins_effect:
  assumes "stands u v m" "UpdateCoins C P u v ac tx h blockHash undo G = (Inr (v', ac', vprevout, undo'), H)"
    and "fresh C [tx] m" "tx_shape tx" "\<not> IsCoinBase tx \<Longrightarrow> \<forall>i \<in> set (vin tx). m (prevout i) \<noteq> None"
  shows "stands u v' (tx_effect C h tx m) \<and> vprevout = spent_coins m tx \<and> (\<forall>x \<in> set (vout tx). \<not> CTxOut_IsNull x)"
proof -
  let ?m = "if IsCoinBase tx then m else without (map prevout (vin tx)) m"
  from assms(2) obtain v1 ac1 G1 where
    1: "(if IsCoinBase tx then gret (v, ac, []) else spend_inputs C P u v ac (vin tx) []) G = (Inr (v1, ac1, vprevout), G1)"
    and 2: "AddCoins_with_assets C P u v1 ac1 tx h blockHash False undo G1 = (Inr (v', ac', undo'), H)"
    by (auto simp: UpdateCoins_def gcheck_iff gret_def)
  have 3: "stands u v1 ?m \<and> vprevout = spent_coins m tx"
  proof (cases "IsCoinBase tx")
    case True
    then show ?thesis using 1 assms(1) by (simp add: gret_def spent_coins_def)
  next
    case False
    with spend_inputs_effect [OF assms(1), of C P ac "vin tx" "[]" G v1 ac1 vprevout G1] 1 assms(4,5) show ?thesis
      by (simp add: tx_shape_def spent_coins_def)
  qed
  from 2 obtain ac2 G2 where "add_outputs C P u v1 ac2 (tx_hash C tx) (IsCoinBase tx) h False 0 (vout tx) G2 = (Inr (v', ac'), H)"
    by (auto simp: AddCoins_with_assets_def gcheck_iff gret_def Let_def)
  from add_outputs_AddCoins [OF this] have 4: "AddCoins_loop u (fst v1) (snd v1) (tx_hash C tx) (IsCoinBase tx) h False 0 (vout tx) = Inr v'"
    "\<forall>x \<in> set (vout tx). \<not> CTxOut_IsNull x" by auto
  have "?m q = None" if "COutPoint.op_hash q = tx_hash C tx" for q using assms(3) that by (simp add: fresh_def without_def)
  with AddCoins_loop_correct [of u "fst v1" "snd v1" "vout tx" 0 False "IsCoinBase tx" "tx_hash C tx" h] 3 4 assms(4)
  have "stands u v' (with_outputs (tx_hash C tx) (IsCoinBase tx) h 0 (vout tx) ?m)"
    by (fastforce simp: stands_def tx_shape_def)
  with 3 4 show ?thesis by (simp add: tx_effect_def)
qed

definition value_in :: "utxo_map \<Rightarrow> CTransaction \<Rightarrow> int" where
  "value_in m tx = (if IsCoinBase tx then 0 else sum_list (map (input_value m) (vin tx)))"

definition value_out :: "CTransaction \<Rightarrow> int" where
  "value_out tx = sum_list (map nValue (vout tx))"

definition tx_fee :: "utxo_map \<Rightarrow> CTransaction \<Rightarrow> int" where
  "tx_fee m tx = (if IsCoinBase tx then 0 else value_in m tx - value_out tx)"

text \<open>What the checks of a transaction that is no coinbase guarantee against the unspent outputs at its place in the block.\<close>

definition tx_valid :: "connect_env \<Rightarrow> index_store \<Rightarrow> ptr \<Rightarrow> CBlockIndex \<Rightarrow> utxo_map \<Rightarrow> CTransaction \<Rightarrow> bool" where
  "tx_valid E st p b m tx \<longleftrightarrow> IsCoinBase tx \<or>
     (\<forall>i \<in> set (vin tx). input_ok m (nHeight b) i) \<and> value_out tx \<le> value_in m tx \<and> (\<forall>x \<in> set (vout tx). MoneyRange (nValue x)) \<and>
     SequenceLocks st tx (if BIPCSVEnabled (ce_params E) then 1 else 0) (map (\<lambda>i. int (coin_nHeight (coin_at m (prevout i)))) (vin tx)) p
       = Some True"

lemma connect_inputs_effect:
  assumes "stands (ce_usage E) (cs_view s) m" "connect_inputs E st p b block tx s G = (Inr s', H)" "\<not> IsCoinBase tx" "MoneyRange (cs_nFees s)"
  shows "stands (ce_usage E) (cs_view s') m \<and> tx_valid E st p b m tx \<and> cs_nFees s' = cs_nFees s + tx_fee m tx \<and> 0 \<le> tx_fee m tx \<and>
    MoneyRange (cs_nFees s') \<and> s' = s\<lparr>cs_view := cs_view s', cs_nFees := cs_nFees s'\<rparr>"
proof -
  let ?u = "ce_usage E"
  from assms(2) obtain fee v1 v2 G1 where
    1: "CheckTxInputs ?u (fst (cs_view s)) (snd (cs_view s)) tx (nHeight b) = Inr (fee, v1)"
      "MoneyRange (int64 (cs_nFees s + fee))" "check_tx_assets E block tx v1 (cs_assets s) G = (Inr v2, G1)"
    by (simp add: connect_inputs_def gbind_def gpure_def block_tx_def block_if_def Let_def case_prod_unfold
        split: sum.splits if_splits) (metis surjective_pairing)+
  obtain hs v3 where visit: "visit (access_height ?u) v2 (map prevout (vin tx)) = (hs, v3)" by (rule prod.exhaust)
  have 4: "SequenceLocks st tx (if BIPCSVEnabled (ce_params E) then 1 else 0) hs p = Some True"
    "s' = s\<lparr>cs_view := v3, cs_nFees := int64 (cs_nFees s + fee)\<rparr>"
    using assms(2) 1 visit
    by (auto simp: connect_inputs_def gbind_def gpure_def gret_def block_tx_def block_if_def block_some_def Let_def case_prod_unfold
        split: sum.splits if_splits option.splits)
  note 2 = CheckTxInputs_spends [OF assms(1) 1(1)] stands_CheckTxInputs [OF assms(1) 1(1)]
  have "stands ?u v2 m"
    using 1(3) stands_CheckTxAssets [OF 2(5)]
    by (auto simp: check_tx_assets_def deployed_defs gerror_def gcheck_iff gret_def split: prod.splits sum.splits)
  from stands_heights [OF this visit] have 3: "stands ?u v3 m" "hs = map (\<lambda>i. int (coin_nHeight (coin_at m (prevout i)))) (vin tx)"
    by (simp_all add: o_def)
  from 2(4) obtain w where w: "GetValueOut tx = Some w" "value_in m tx = w + fee" using assms(3) by (auto simp: value_in_def)
  then have out: "w = value_out tx" "\<forall>x \<in> set (vout tx). MoneyRange (nValue x)"
    using GetValueOut_loop_eq [of 0 "vout tx"]
    by (auto simp: GetValueOut_def value_out_def MoneyRange_def MAX_MONEY_def COIN_def split: if_splits)
  have "in_int64 (cs_nFees s + fee)" using assms(4) 2(2,3) by (simp add: in_int64_def MoneyRange_def MAX_MONEY_def COIN_def)
  then have "int64 (cs_nFees s + fee) = cs_nFees s + fee" by (rule int64_id)
  with 1 2 3 4 w out assms(3) show ?thesis by (simp add: tx_valid_def tx_fee_def)
qed

lemma connect_tx_effect:
  assumes "stands (ce_usage E) (cs_view s) m" "connect_tx E st p b block fsc fjc i tx s G = (Inr s', H)" "MoneyRange (cs_nFees s)"
    and "fresh (ce_crypto E) [tx] m" "tx_shape tx"
  shows "stands (ce_usage E) (cs_view s') (tx_effect (ce_crypto E) (nat (nHeight b)) tx m) \<and> tx_valid E st p b m tx \<and>
    (\<forall>x \<in> set (vout tx). \<not> CTxOut_IsNull x) \<and>
    cs_nFees s' = cs_nFees s + tx_fee m tx \<and> 0 \<le> tx_fee m tx \<and> MoneyRange (cs_nFees s') \<and>
    cs_vtxundo s' = cs_vtxundo s @ (if 0 < i then [spent_coins m tx] else [])"
proof -
  let ?u = "ce_usage E" and ?C = "ce_crypto E" and ?flags = "GetBlockScriptFlags (ce_params E) b"
  let ?hash = "Headers.GetHash (be_header (ce_block E)) (GetBlockHeader block)"
  from assms(2) obtain s1 G1 cost v2 chk v3 cache v4 ac vprevout au where
    1: "(if IsCoinBase tx then gret s else connect_inputs E st p b block tx s) G = (Inr s1, G1)"
      "GetTransactionSigOpCost ?u (fst (cs_view s1)) (snd (cs_view s1)) tx ?flags = Inr (cost, v2)"
      "CheckInputs (ce_Verify E) ?C (ce_nonce E) ?u (ce_threads E) tx v2 fsc ?flags fjc (cs_script_cache s1) = Inr (chk, v3, cache)"
      "UpdateCoins ?C (be_chain (ce_block E)) ?u v3 (cs_assets s1) tx (nat (nHeight b)) ?hash empty_undo G1 = (Inr (v4, ac, vprevout, au), H)"
      "s' = s1\<lparr>cs_view := v4, cs_assets := ac, cs_nSigOpsCost := cs_nSigOpsCost s1 + cost,
        cs_vtxundo := (if i > 0 then cs_vtxundo s1 @ [vprevout] else cs_vtxundo s1), cs_checks := cs_checks s1 @ chk, cs_script_cache := cache\<rparr>"
    by (simp add: connect_tx_def gbind_def gpure_def gret_def block_tx_def block_if_def Let_def case_prod_unfold
        split: sum.splits if_splits) (metis surjective_pairing)+
  have 2: "stands ?u (cs_view s1) m \<and> tx_valid E st p b m tx \<and> cs_nFees s1 = cs_nFees s + tx_fee m tx \<and> 0 \<le> tx_fee m tx \<and>
    MoneyRange (cs_nFees s1) \<and> cs_vtxundo s1 = cs_vtxundo s"
  proof (cases "IsCoinBase tx")
    case True
    then show ?thesis using 1(1) assms(1,3) by (auto simp: gret_def tx_valid_def tx_fee_def)
  next
    case False
    then have "connect_inputs E st p b block tx s G = (Inr s1, G1)" using 1(1) by simp
    from connect_inputs_effect [OF assms(1) this False assms(3)] show ?thesis by (metis connect_state.ext_inject connect_state.surjective connect_state.update_convs(1,3))
  qed
  have "stands ?u v3 m" using 2 1(2,3) stands_SigOpCost stands_CheckInputs by metis
  from UpdateCoins_effect [OF this 1(4) assms(4,5)] 2
  have "stands ?u v4 (tx_effect ?C (nat (nHeight b)) tx m) \<and> vprevout = spent_coins m tx \<and> (\<forall>x \<in> set (vout tx). \<not> CTxOut_IsNull x)"
    by (auto simp: tx_valid_def input_ok_def)
  with 1(5) 2 show ?thesis by (elim conjE) simp
qed

text \<open>The unspent outputs after the transactions of a block, the coins each spends, and the fees.\<close>

fun block_effect :: "crypto \<Rightarrow> nat \<Rightarrow> CTransaction list \<Rightarrow> utxo_map \<Rightarrow> utxo_map" where
  "block_effect C h [] m = m"
| "block_effect C h (tx # txs) m = block_effect C h txs (tx_effect C h tx m)"

fun block_spends :: "crypto \<Rightarrow> nat \<Rightarrow> CTransaction list \<Rightarrow> utxo_map \<Rightarrow> Coin list list" where
  "block_spends C h [] m = []"
| "block_spends C h (tx # txs) m = spent_coins m tx # block_spends C h txs (tx_effect C h tx m)"

fun block_fees :: "crypto \<Rightarrow> nat \<Rightarrow> CTransaction list \<Rightarrow> utxo_map \<Rightarrow> int" where
  "block_fees C h [] m = 0"
| "block_fees C h (tx # txs) m = tx_fee m tx + block_fees C h txs (tx_effect C h tx m)"

fun block_valid :: "connect_env \<Rightarrow> index_store \<Rightarrow> ptr \<Rightarrow> CBlockIndex \<Rightarrow> CTransaction list \<Rightarrow> utxo_map \<Rightarrow> bool" where
  "block_valid E st p b [] m \<longleftrightarrow> True"
| "block_valid E st p b (tx # txs) m \<longleftrightarrow> tx_valid E st p b m tx \<and> (\<forall>x \<in> set (vout tx). \<not> CTxOut_IsNull x) \<and>
     block_valid E st p b txs (tx_effect (ce_crypto E) (nat (nHeight b)) tx m)"

lemma tx_effect_other: "COutPoint.op_hash q \<noteq> tx_hash C tx \<Longrightarrow> m q = None \<Longrightarrow> tx_effect C h tx m q = None"
  by (simp add: tx_effect_def with_outputs_def without_def)

lemma fresh_Cons: "fresh C (tx # txs) m \<longleftrightarrow> fresh C [tx] m \<and> tx_hash C tx \<notin> tx_hash C ` set txs \<and> fresh C txs m"
  by (auto simp: fresh_def)

lemma fresh_step: "fresh C (tx # txs) m \<Longrightarrow> fresh C txs (tx_effect C h tx m)"
  unfolding fresh_def by (auto intro!: tx_effect_other)

lemma connect_txs_effect:
  assumes "stands (ce_usage E) (cs_view s) m" "connect_txs E st p b block fsc fjc i txs s G = (Inr s', H)" "MoneyRange (cs_nFees s)"
    and "fresh (ce_crypto E) txs m" "list_all tx_shape txs"
  shows "stands (ce_usage E) (cs_view s') (block_effect (ce_crypto E) (nat (nHeight b)) txs m) \<and> block_valid E st p b txs m \<and>
    cs_nFees s' = cs_nFees s + block_fees (ce_crypto E) (nat (nHeight b)) txs m \<and> MoneyRange (cs_nFees s') \<and>
    cs_vtxundo s' = cs_vtxundo s @ drop (1 - i) (block_spends (ce_crypto E) (nat (nHeight b)) txs m)"
  using assms
proof (induction txs arbitrary: s m i G)
  case Nil
  then show ?case by (simp add: gret_def)
next
  case (Cons tx txs)
  from Cons.prems(2) obtain s1 G1 where 1: "connect_tx E st p b block fsc fjc i tx s G = (Inr s1, G1)"
    and 2: "connect_txs E st p b block fsc fjc (Suc i) txs s1 G1 = (Inr s', H)" by (auto simp: gcheck_iff)
  from Cons.prems(4) have f: "fresh (ce_crypto E) [tx] m" by (subst (asm) fresh_Cons) simp
  from Cons.prems(5) have "tx_shape tx" "list_all tx_shape txs" by auto
  note a = connect_tx_effect [OF Cons.prems(1) 1 Cons.prems(3) f this(1)]
  from a have "stands (ce_usage E) (cs_view s1) (tx_effect (ce_crypto E) (nat (nHeight b)) tx m)" "MoneyRange (cs_nFees s1)" by auto
  from Cons.IH [OF this(1) 2 this(2) fresh_step [OF Cons.prems(4)] \<open>list_all tx_shape txs\<close>] a
  show ?case by (cases i) auto
qed

section \<open>Undoing\<close>

fun output_points :: "uint256 \<Rightarrow> nat \<Rightarrow> CTxOut list \<Rightarrow> COutPoint list" where
  "output_points txid i [] = []"
| "output_points txid i (out # outs) =
     (if IsUnspendable (scriptPubKey out) then [] else [\<lparr>COutPoint.op_hash = txid, op_n = of_nat i\<rparr>]) @ output_points txid (Suc i) outs"

lemma output_points_hash: "q \<in> set (output_points txid i outs) \<Longrightarrow> COutPoint.op_hash q = txid"
  by (induction outs arbitrary: i) (auto split: if_splits)

lemma without_append: "without (ps @ qs) m = without qs (without ps m)"
  by (auto simp: without_def fun_eq_iff)

lemma undo_outputs_view:
  "stands u (ou_view s) m \<Longrightarrow> stands u (ou_view (undo_outputs C P u txid cb h i outs s G)) (without (output_points txid i outs) m)"
proof (induction outs arbitrary: i s m)
  case (Cons out outs)
  let ?p = "\<lparr>COutPoint.op_hash = txid, op_n = of_nat i\<rparr>"
  obtain ok coin v' temp' where sp: "spend_coin C P u (ou_view s) (ou_tempCache s) ?p G = (ok, coin, v', temp')"
    by (cases "spend_coin C P u (ou_view s) (ou_tempCache s) ?p G") auto
  have "stands u (ou_view (undo_output C P u txid cb h i out s G)) (if IsUnspendable (scriptPubKey out) then m else m(?p := None))"
    using Cons.prems stands_spend_coin(1) [OF Cons.prems sp] sp by (auto simp: undo_output_def Let_def)
  from Cons.IH [OF this, of "Suc i"] show ?case by (cases "IsUnspendable (scriptPubKey out)") (simp_all add: without_append fun_upd_def)
qed simp

lemma with_outputs_undone:
  assumes "i + length outs \<le> 2 ^ 32" "\<And>q. COutPoint.op_hash q = txid \<Longrightarrow> m q = None"
  shows "without (output_points txid i outs) (with_outputs txid cb h i outs m) = m"
proof -
  have "without (output_points txid i outs) (with_outputs txid cb h i outs m') = without (output_points txid i outs) m'"
    if "i + length outs \<le> 2 ^ 32" for m'
    using that
  proof (induction outs arbitrary: i m')
    case Nil
    show ?case by (auto simp: with_outputs_def fun_eq_iff without_def Let_def)
  next
    case (Cons out outs)
    let ?m = "if IsUnspendable (scriptPubKey out) then m' else m'(\<lparr>COutPoint.op_hash = txid, op_n = of_nat i\<rparr> := Some (mk_Coin out h cb))"
    have "without (output_points txid (Suc i) outs) (with_outputs txid cb h (Suc i) outs ?m) = without (output_points txid (Suc i) outs) ?m"
      by (rule Cons.IH) (use Cons.prems in simp)
    note IH = fun_cong [OF this]
    show ?case
    proof (rule ext)
      fix x
      show "without (output_points txid i (out # outs)) (with_outputs txid cb h i (out # outs) m') x
        = without (output_points txid i (out # outs)) m' x"
        unfolding with_outputs_Cons [OF Cons.prems] using IH [of x]
        by (cases "IsUnspendable (scriptPubKey out)"; cases "x = \<lparr>COutPoint.op_hash = txid, op_n = of_nat i\<rparr>") (simp_all add: without_def split: if_splits)
    qed
  qed
  with assms show ?thesis by (auto simp: without_def fun_eq_iff dest: output_points_hash)
qed

text \<open>
  A coin that undo data restores: it is spendable, the disk format carries it, and it is not of the block at height 0, whose
  outputs are never added.
\<close>

definition restorable :: "Coin \<Rightarrow> bool" where
  "restorable coin \<longleftrightarrow> \<not> IsSpent coin \<and> \<not> IsUnspendable (scriptPubKey (coin_out coin)) \<and> 0 < coin_nHeight coin \<and> storable coin"

definition plain_coin :: "Coin \<Rightarrow> bool" where
  "plain_coin coin \<longleftrightarrow> IsAssetScript (scriptPubKey (coin_out coin)) = None"

lemma ApplyTxInUndo_effect:
  assumes "stands u v m" "restorable coin" "m out = None"
  shows "\<exists>ok v' ac'. ApplyTxInUndo C P u coin v out ac G = (Inr (ok, v', ac'), G) \<and> stands u v' (m(out := Some coin)) \<and>
    (plain_coin coin \<longrightarrow> ok \<and> ac' = ac)"
proof -
  obtain hv v1 where h: "HaveCoin u (fst v) (snd v) out = (hv, v1)" by (cases "HaveCoin u (fst v) (snd v) out") auto
  from stands_HaveCoin [OF assms(1) h] assms(3) have 1: "\<not> hv" "stands u v1 m" by auto
  with stands_AddCoin [OF 1(2), of coin hv out] assms obtain c where
    "AddCoin u (fst v1) out coin hv = Inr c" "stands u (c, snd v1) (m(out := Some coin))" by (auto simp: restorable_def)
  note a = this
  let ?X = "if AreAssetsDeployed \<and> IsAssetScript (scriptPubKey (coin_out coin)) \<noteq> None
    then (case UndoAssetCoin C P G ac coin of None \<Rightarrow> (False, (c, snd v1), ac) | Some ac' \<Rightarrow> (\<not> hv, (c, snd v1), ac'))
    else (\<not> hv, (c, snd v1), ac)"
  obtain ok w ac' where X: "?X = (ok, w, ac')" by (rule prod_cases3)
  have "w = (c, snd v1)" using X by (simp split: if_splits option.splits)
  moreover have "plain_coin coin \<longrightarrow> ok \<and> ac' = ac" using X 1(1) by (auto simp: plain_coin_def)
  moreover have "ApplyTxInUndo C P u coin v out ac G = (Inr ?X, G)"
    using h a(1) assms(2) by (simp add: ApplyTxInUndo_def restorable_def gread_def)
  ultimately show ?thesis using a(2) unfolding X by blast
qed

definition restored :: "(CTxIn \<times> Coin) list \<Rightarrow> utxo_map \<Rightarrow> utxo_map" where
  "restored ps m q = (case map_of (map (\<lambda>(i, c). (prevout i, c)) ps) q of None \<Rightarrow> m q | Some c \<Rightarrow> Some c)"

lemma restore_inputs_effect:
  assumes "stands u v m" "distinct (map (\<lambda>(i, c). prevout i) ps)" "\<forall>(i, c) \<in> set ps. restorable c \<and> m (prevout i) = None"
  shows "\<exists>ok v' ac'. restore_inputs C P u ps v ac f G = (Inr (ok, v', ac'), G) \<and> stands u v' (restored ps m) \<and>
    (list_all (plain_coin \<circ> snd) ps \<longrightarrow> ok = f \<and> ac' = ac)"
  using assms
proof (induction ps arbitrary: v m ac f)
  case Nil
  then show ?case by (simp add: gret_def restored_def)
next
  case (Cons q ps)
  obtain i c where q: "q = (i, c)" by (cases q)
  with Cons.prems(3) have "restorable c" "m (prevout i) = None" by auto
  from ApplyTxInUndo_effect [OF Cons.prems(1) this, of C P ac G] obtain ok v1 ac1 where
    1: "ApplyTxInUndo C P u c v (prevout i) ac G = (Inr (ok, v1, ac1), G)" "stands u v1 (m(prevout i := Some c))"
      "plain_coin c \<longrightarrow> ok \<and> ac1 = ac" by blast
  have d: "distinct (map (\<lambda>(i, c). prevout i) ps)" using Cons.prems(2) by simp
  have n: "\<forall>(j, d) \<in> set ps. restorable d \<and> (m(prevout i := Some c)) (prevout j) = None" using Cons.prems(2,3) q by force
  have r: "restored ps (m(prevout i := Some c)) = restored (q # ps) m"
  proof
    fix x
    have "map_of (map (\<lambda>(i, c). (prevout i, c)) ps) (prevout i) = None"
      using Cons.prems(2) q by (force simp: map_of_eq_None_iff)
    then show "restored ps (m(prevout i := Some c)) x = restored (q # ps) m x" by (simp add: restored_def q split: option.split)
  qed
  from Cons.IH [OF 1(2) d n, of ac1 "f \<and> ok"] obtain ok' v' ac' where
    "restore_inputs C P u ps v1 ac1 (f \<and> ok) G = (Inr (ok', v', ac'), G)" "stands u v' (restored (q # ps) m)"
    "list_all (plain_coin \<circ> snd) ps \<longrightarrow> ok' = (f \<and> ok) \<and> ac' = ac1" unfolding r by blast
  with 1 q show ?case by (auto simp: gbind_def o_def)
qed

text \<open>The inputs of a transaction are back when its coins are put back in reverse order.\<close>

lemma restored_without:
  assumes "\<forall>i \<in> set (vin tx). m (prevout i) \<noteq> None" "\<not> IsCoinBase tx"
  shows "restored (rev (zip (vin tx) (spent_coins m tx))) (without (map prevout (vin tx)) m) = m"
proof
  fix q
  have z: "zip (vin tx) (spent_coins m tx) = map (\<lambda>i. (i, coin_at m (prevout i))) (vin tx)"
    using assms(2) by (simp add: spent_coins_def zip_map2 zip_same_conv_map)
  have "map_of (map (\<lambda>i. (prevout i, coin_at m (prevout i))) ins) q = (if q \<in> prevout ` set ins then Some (coin_at m q) else None)" for ins
    by (induction ins) auto
  from this [of "rev (vin tx)"] assms(1)
  show "restored (rev (zip (vin tx) (spent_coins m tx))) (without (map prevout (vin tx)) m) q = m q"
    unfolding restored_def z rev_map map_map o_def case_prod_conv by (auto simp: without_def coin_at_def)
qed

text \<open>The asset side of undoing reports failure and nothing else.\<close>

definition soft :: "(disconnect_error, 'a) gcheck \<Rightarrow> bool" where
  "soft m \<longleftrightarrow> (\<forall>G e H. m G = (Inl e, H) \<longrightarrow> e = DISCONNECT_FAILED)"

lemma soft_basic: "soft (gret x)" "soft (gread f)" "soft (gask g)" "soft (or_failed y)" "soft (gfail DISCONNECT_FAILED)"
  by (simp_all add: soft_def gret_def gread_def gask_def or_failed_def gpure_def gfail_def split: option.splits prod.splits)

lemma soft_gbind: "soft m \<Longrightarrow> (\<And>x. soft (f x)) \<Longrightarrow> soft (gbind m f)"
  unfolding soft_def gbind_def by (fastforce split: sum.splits prod.splits)

lemma soft_if: "(b \<Longrightarrow> soft m) \<Longrightarrow> (\<not> b \<Longrightarrow> soft n) \<Longrightarrow> soft (if b then m else n)" by simp

lemma soft_case_prod: "(\<And>a b. x = (a, b) \<Longrightarrow> soft (f a b)) \<Longrightarrow> soft (case x of (a, b) \<Rightarrow> f a b)" by (cases x) simp

lemmas soft_intros = soft_basic soft_gbind soft_if soft_case_prod

lemma soft_remove_issue: "soft (remove_issue c issue)"
  unfolding remove_issue_def by (intro soft_intros)

lemma soft_remove_unique_issues: "soft (remove_unique_issues C P c outs)"
  by (induction outs arbitrary: c) (auto intro!: soft_intros soft_remove_issue)

lemma soft_remove_transfers: "soft (remove_transfers C P c tx txid is)"
  by (induction "is" arbitrary: c) (auto intro!: soft_intros)

lemma soft_remove_commands: "soft (remove_commands C P c tx is)"
  by (induction "is" arbitrary: c) (auto simp: remove_command_def Let_def intro!: soft_intros)

lemma soft_undo_assets: "soft (undo_assets C P c tx txid d s)"
  unfolding undo_assets_def remove_issue_and_owner_def remove_reissue_def remove_restricted_issue_def
  by (intro soft_intros soft_remove_issue soft_remove_unique_issues soft_remove_transfers soft_remove_commands)

definition plain_out :: "CTxOut \<Rightarrow> bool" where
  "plain_out out \<longleftrightarrow> IsAssetScript (scriptPubKey out) = None \<and> \<not> IsNullAsset (scriptPubKey out)"

lemma plain_kind:
  assumes "list_all plain_out (vout tx)"
  shows "\<not> tx_IsNewAsset C P tx" "\<not> tx_IsReissueAsset tx" "\<not> tx_IsNewUniqueAsset C P tx" "\<not> tx_IsNewMsgChannelAsset C P tx"
    "\<not> tx_IsNewQualifierAsset C P tx" "\<not> tx_IsNewRestrictedAsset C P tx"
proof -
  have "IsAssetScript (scriptPubKey (last_out tx)) = None" if "vout tx \<noteq> []"
    using assms(1) that by (auto simp: list_all_iff plain_out_def last_out_def)
  then show "\<not> tx_IsNewAsset C P tx" "\<not> tx_IsReissueAsset tx" "\<not> tx_IsNewUniqueAsset C P tx" "\<not> tx_IsNewMsgChannelAsset C P tx"
    "\<not> tx_IsNewQualifierAsset C P tx" "\<not> tx_IsNewRestrictedAsset C P tx"
    by (cases "vout tx = []"; simp add: tx_IsNewAsset_def tx_IsReissueAsset_def tx_IsNewUniqueAsset_def tx_IsNewMsgChannelAsset_def
        tx_IsNewQualifierAsset_def tx_IsNewRestrictedAsset_def CheckIssueDataTx_def CheckReissueDataTx_def IsScriptNewAsset_def
        IsScriptReissueAsset_def IsScriptNewUniqueAsset_def IsScriptNewMsgChannelAsset_def IsScriptNewQualifierAsset_def
        IsScriptNewRestrictedAsset_def)+
qed

lemma plain_undo_assets:
  assumes "list_all plain_out (vout tx)" "ou_vAssetTxIndex s = []" "ou_vNullAssetTxIndex s = []"
  shows "undo_assets C P c tx txid d s = gret c"
  using assms(2,3) by (simp add: undo_assets_def plain_kind [OF assms(1)] gbind_def gret_def fun_eq_iff)

lemma undo_outputs_plain:
  assumes "stands u (ou_view s) m" "list_all plain_out outs" "i + length outs \<le> 2 ^ 32" "0 \<le> h" "h < 2 ^ 30"
    and "\<forall>j < length outs. \<not> IsUnspendable (scriptPubKey (outs ! j)) \<longrightarrow>
      m \<lparr>COutPoint.op_hash = txid, op_n = of_nat (i + j)\<rparr> = Some (mk_Coin (outs ! j) (nat h) cb)"
  shows "\<exists>w. undo_outputs C P u txid cb h i outs s G = s\<lparr>ou_view := w\<rparr>"
  using assms
proof (induction outs arbitrary: i s m)
  case Nil
  then show ?case by (intro exI [of _ "ou_view s"]) simp
next
  case (Cons out outs)
  let ?p = "\<lambda>j. \<lparr>COutPoint.op_hash = txid, op_n = (of_nat j :: u32)\<rparr>"
  let ?m = "if IsUnspendable (scriptPubKey out) then m else m(?p i := None)"
  have 1: "\<exists>w. undo_output C P u txid cb h i out s G = s\<lparr>ou_view := w\<rparr> \<and> stands u w ?m"
  proof (cases "IsUnspendable (scriptPubKey out)")
    case True
    then show ?thesis using Cons.prems(1,2) by (intro exI [of _ "ou_view s"]) (simp add: undo_output_def Let_def plain_out_def)
  next
    case False
    obtain ok coin v' temp' where sp: "spend_coin C P u (ou_view s) (ou_tempCache s) (?p i) G = (ok, coin, v', temp')"
      by (cases "spend_coin C P u (ou_view s) (ou_tempCache s) (?p i) G") auto
    have "m (?p i) = Some (mk_Coin out (nat h) cb)" using Cons.prems(6) False by (auto dest: spec [of _ 0])
    from stands_spend_coin [OF Cons.prems(1) sp] this Cons.prems(2) have
      "stands u v' (m(?p i := None))" "coin = mk_Coin out (nat h) cb" "ok" "temp' = ou_tempCache s"
      by (auto simp: TrySpendCoin_def plain_out_def mk_Coin_def)
    then show ?thesis using sp False Cons.prems(2,4,5)
      by (intro exI [of _ v']) (simp add: undo_output_def Let_def plain_out_def IsScriptTransferAsset_def mk_Coin_def)
  qed
  then obtain w where w: "undo_output C P u txid cb h i out s G = s\<lparr>ou_view := w\<rparr>" "stands u w ?m" by blast
  have "?m (?p (Suc i + j)) = Some (mk_Coin (outs ! j) (nat h) cb)" if "j < length outs" "\<not> IsUnspendable (scriptPubKey (outs ! j))" for j
  proof -
    have "m (?p (Suc i + j)) = Some (mk_Coin (outs ! j) (nat h) cb)"
      using Cons.prems(6) [rule_format, of "Suc j"] that unfolding add_Suc_shift by (simp del: of_nat_add of_nat_Suc)
    moreover have "(of_nat (Suc i + j) :: u32) \<noteq> of_nat i" using Cons.prems(3) that
      by (simp add: word_of_nat_eq_iff take_bit_nat_eq_self del: of_nat_add of_nat_Suc)
    ultimately show ?thesis by (simp del: of_nat_add of_nat_Suc)
  qed
  with Cons.IH [of "s\<lparr>ou_view := w\<rparr>" ?m "Suc i"] w Cons.prems(2-5) show ?case by (auto simp del: of_nat_add of_nat_Suc)
qed

lemma gbind_gread: "gbind (gread f) k G = k (f G) G"
  by (simp add: gbind_def gread_def)

definition undo_of :: "utxo_map \<Rightarrow> CTransaction \<Rightarrow> Coin list option" where
  "undo_of m tx = (if IsCoinBase tx then None else Some (spent_coins m tx))"

definition plain_tx :: "utxo_map \<Rightarrow> CTransaction \<Rightarrow> bool" where
  "plain_tx m tx \<longleftrightarrow> list_all plain_out (vout tx) \<and> list_all plain_coin (spent_coins m tx)"

definition inputs_unspent :: "utxo_map \<Rightarrow> CTransaction \<Rightarrow> bool" where
  "inputs_unspent m tx \<longleftrightarrow> IsCoinBase tx \<or> (\<forall>i \<in> set (vin tx). m (prevout i) \<noteq> None)"

definition restorable_map :: "utxo_map \<Rightarrow> bool" where
  "restorable_map m \<longleftrightarrow> (\<forall>q c. m q = Some c \<longrightarrow> restorable c)"

lemma undo_inputs:
  assumes "stands u v (without (map prevout (vin tx)) m)" "tx_shape tx" "inputs_unspent m tx" "restorable_map m" "\<not> IsCoinBase tx"
  shows "\<exists>ok v' ac'. restore_inputs C P u (rev (zip (vin tx) (spent_coins m tx))) v ac f G = (Inr (ok, v', ac'), G) \<and> stands u v' m \<and>
    (list_all plain_coin (spent_coins m tx) \<longrightarrow> ok = f \<and> ac' = ac)"
proof -
  let ?m = "without (map prevout (vin tx)) m" and ?ps = "rev (zip (vin tx) (spent_coins m tx))"
  have z: "zip (vin tx) (spent_coins m tx) = map (\<lambda>i. (i, coin_at m (prevout i))) (vin tx)"
    using assms(5) by (simp add: spent_coins_def zip_map2 zip_same_conv_map)
  have "distinct (map (\<lambda>(i, c). prevout i) ?ps)" using assms(2) by (simp add: z tx_shape_def o_def flip: rev_map)
  moreover have "\<forall>(i, c) \<in> set ?ps. restorable c \<and> ?m (prevout i) = None"
    using assms(3-5) by (auto simp: z without_def inputs_unspent_def restorable_map_def coin_at_def)
  moreover have "restored ?ps ?m = m" using restored_without [of tx m] assms(3,5) by (simp add: inputs_unspent_def)
  moreover have "list_all (plain_coin \<circ> snd) ?ps = list_all plain_coin (spent_coins m tx)"
    unfolding z using assms(5) by (auto simp: list_all_iff spent_coins_def)
  ultimately show ?thesis using restore_inputs_effect [OF assms(1), of ?ps C P ac f G] by simp
qed

text \<open>A result of undoing: the only error is a failure, and otherwise the view stands for the earlier map.\<close>

definition undone :: "usage \<Rightarrow> utxo_map \<Rightarrow> disconnect_error + (bool \<times> view \<times> 'a) \<Rightarrow> bool" where
  "undone u m r \<longleftrightarrow> (case r of Inl e \<Rightarrow> e = DISCONNECT_FAILED | Inr (_, v, _) \<Rightarrow> stands u v m)"

lemma disconnect_tx_effect:
  assumes "stands u v (tx_effect C (nat h) tx m)" "fresh C [tx] m" "tx_shape tx" "inputs_unspent m tx" "restorable_map m"
    and "0 \<le> h" "h < 2 ^ 30"
  shows "undone u m (fst (disconnect_tx C P u h d tx (undo_of m tx) (f, v, ac, tc) G)) \<and>
    (plain_tx m tx \<longrightarrow> (\<exists>v'. disconnect_tx C P u h d tx (undo_of m tx) (f, v, ac, tc) G = (Inr (f, v', ac, tc), G)))"
proof -
  let ?m = "if IsCoinBase tx then m else without (map prevout (vin tx)) m"
  let ?s0 = "\<lparr>ou_view = v, ou_tempCache = tc, ou_fClean = f, ou_vAssetTxIndex = [], ou_vNullAssetTxIndex = [], ou_verifier = None\<rparr>"
  define s where "s = undo_outputs C P u (tx_hash C tx) (IsCoinBase tx) h 0 (vout tx) ?s0 G"
  have s0: "stands u (ou_view ?s0) (with_outputs (tx_hash C tx) (IsCoinBase tx) (nat h) 0 (vout tx) ?m)"
    using assms(1) by (simp add: tx_effect_def)
  have None: "?m q = None" if "COutPoint.op_hash q = tx_hash C tx" for q using assms(2) that by (simp add: fresh_def without_def)
  have st: "stands u (ou_view s) ?m"
    using undo_outputs_view [OF s0, of C P "tx_hash C tx" "IsCoinBase tx" h 0 "vout tx" G]
      with_outputs_undone [of 0 "vout tx" "tx_hash C tx" ?m] None assms(3) by (simp add: s_def tx_shape_def)
  have plain: "\<exists>w. s = ?s0\<lparr>ou_view := w\<rparr>" if "plain_tx m tx"
  proof (unfold s_def, rule undo_outputs_plain [OF s0])
    show "\<forall>j<length (vout tx). \<not> IsUnspendable (scriptPubKey (vout tx ! j)) \<longrightarrow>
      with_outputs (tx_hash C tx) (IsCoinBase tx) (nat h) 0 (vout tx) ?m \<lparr>COutPoint.op_hash = tx_hash C tx, op_n = of_nat (0 + j)\<rparr>
        = Some (mk_Coin (vout tx ! j) (nat h) (IsCoinBase tx))"
      using assms(3) by (auto simp: with_outputs_def Let_def tx_shape_def unat_of_nat)
  qed (use that assms in \<open>simp_all add: plain_tx_def tx_shape_def\<close>)
  have D: "disconnect_tx C P u h d tx (undo_of m tx) (f, v, ac, tc) G = gbind (undo_assets C P ac tx (tx_hash C tx) d s) (\<lambda>ac1.
      case undo_of m tx of None \<Rightarrow> gret (ou_fClean s, ou_view s, ac1, ou_tempCache s)
      | Some vprevout \<Rightarrow> if length vprevout \<noteq> length (vin tx) then gfail DISCONNECT_FAILED
          else gbind (restore_inputs C P u (rev (zip (vin tx) vprevout)) (ou_view s) ac1 (ou_fClean s)) (\<lambda>(fClean', v', ac2).
            gret (fClean', v', ac2, ou_tempCache s))) G"
    unfolding s_def disconnect_tx_def by (simp add: Let_def gbind_gread)
  obtain a G1 where A: "undo_assets C P ac tx (tx_hash C tx) d s G = (a, G1)" by (rule prod.exhaust)
  have pa: "a = Inr ac \<and> G1 = G \<and> ou_fClean s = f \<and> ou_tempCache s = tc" if p: "plain_tx m tx"
  proof -
    from plain [OF p] obtain w where "s = ?s0\<lparr>ou_view := w\<rparr>" by blast
    with plain_undo_assets [of tx s C P ac] p A show ?thesis by (simp add: plain_tx_def gret_def)
  qed
  show ?thesis
  proof (cases a)
    case (Inl e)
    then have "e = DISCONNECT_FAILED" using A soft_undo_assets [of C P ac tx "tx_hash C tx" d s, unfolded soft_def] by blast
    moreover have "\<not> plain_tx m tx" using pa Inl by auto
    ultimately show ?thesis using A Inl by (simp add: D gbind_def undone_def)
  next
    case (Inr ac1)
    show ?thesis
    proof (cases "IsCoinBase tx")
      case True
      then show ?thesis unfolding D using A Inr st pa by (auto simp: gbind_def undone_def undo_of_def gret_def)
    next
      case False
      let ?ps = "rev (zip (vin tx) (spent_coins m tx))"
      from undo_inputs [OF st [simplified False if_False] assms(3-5) False, of C P ac1 "ou_fClean s" G1]
      obtain ok v' ac2 where "restore_inputs C P u ?ps (ou_view s) ac1 (ou_fClean s) G1 = (Inr (ok, v', ac2), G1)" "stands u v' m"
        "list_all plain_coin (spent_coins m tx) \<longrightarrow> ok = ou_fClean s \<and> ac2 = ac1" by blast
      then show ?thesis unfolding D using A Inr False pa by (auto simp: gbind_def undone_def undo_of_def gret_def spent_coins_def plain_tx_def)
    qed
  qed
qed

text \<open>All transactions of a block, from the last to the first.\<close>

fun block_undo_of :: "crypto \<Rightarrow> nat \<Rightarrow> CTransaction list \<Rightarrow> utxo_map \<Rightarrow> (CTransaction \<times> Coin list option) list" where
  "block_undo_of C h [] m = []"
| "block_undo_of C h (tx # txs) m = (tx, undo_of m tx) # block_undo_of C h txs (tx_effect C h tx m)"

fun block_plain :: "crypto \<Rightarrow> nat \<Rightarrow> CTransaction list \<Rightarrow> utxo_map \<Rightarrow> bool" where
  "block_plain C h [] m \<longleftrightarrow> True"
| "block_plain C h (tx # txs) m \<longleftrightarrow> plain_tx m tx \<and> block_plain C h txs (tx_effect C h tx m)"

fun block_unspent :: "crypto \<Rightarrow> nat \<Rightarrow> CTransaction list \<Rightarrow> utxo_map \<Rightarrow> bool" where
  "block_unspent C h [] m \<longleftrightarrow> True"
| "block_unspent C h (tx # txs) m \<longleftrightarrow> inputs_unspent m tx \<and> (\<forall>x \<in> set (vout tx). \<not> CTxOut_IsNull x) \<and>
     block_unspent C h txs (tx_effect C h tx m)"

definition outputs_storable :: "CTransaction \<Rightarrow> bool" where
  "outputs_storable tx \<longleftrightarrow> (\<forall>x \<in> set (vout tx). amount_kept (nValue x) \<and> nRounds x = -10)"

lemma restorable_step:
  assumes "restorable_map m" "outputs_storable tx" "\<forall>x \<in> set (vout tx). \<not> CTxOut_IsNull x" "0 < h" "h < 2 ^ 30"
  shows "restorable_map (tx_effect C h tx m)"
  using assms nth_mem
  by (fastforce simp: restorable_map_def restorable_def tx_effect_def with_outputs_def without_def Let_def mk_Coin_def storable_def
      outputs_storable_def IsSpent_def IsUnspendable_def not_less split: if_splits)

lemma disconnect_txs_append:
  "disconnect_txs C P u h d (xs @ ys) s = gbind (disconnect_txs C P u h d xs s) (disconnect_txs C P u h d ys)"
  by (induction xs arbitrary: s) (auto simp: gbind_def gret_def fun_eq_iff split: sum.splits prod.splits)

lemma disconnect_txs_effect:
  assumes "stands u v (block_effect C (nat h) txs m)" "fresh C txs m" "list_all tx_shape txs" "list_all outputs_storable txs"
    and "block_unspent C (nat h) txs m" "restorable_map m" "0 < h" "h < 2 ^ 30"
  shows "undone u m (fst (disconnect_txs C P u h d (rev (block_undo_of C (nat h) txs m)) (f, v, ac, tc) G)) \<and>
    (block_plain C (nat h) txs m \<longrightarrow>
      (\<exists>v'. disconnect_txs C P u h d (rev (block_undo_of C (nat h) txs m)) (f, v, ac, tc) G = (Inr (f, v', ac, tc), G)))"
  using assms
proof (induction txs arbitrary: m)
  case Nil
  then show ?case by (simp add: gret_def undone_def)
next
  case (Cons tx txs)
  let ?m = "tx_effect C (nat h) tx m"
  have "restorable_map ?m" using Cons.prems(4-8) by (intro restorable_step) auto
  with Cons.IH [of ?m] fresh_step [OF Cons.prems(2)] Cons.prems obtain r G1 where
    1: "disconnect_txs C P u h d (rev (block_undo_of C (nat h) txs ?m)) (f, v, ac, tc) G = (r, G1)" "undone u ?m r"
      "block_plain C (nat h) txs ?m \<longrightarrow> (\<exists>v'. r = Inr (f, v', ac, tc) \<and> G1 = G)"
    by (cases "disconnect_txs C P u h d (rev (block_undo_of C (nat h) txs ?m)) (f, v, ac, tc) G") auto
  show ?case
  proof (cases r)
    case (Inl e)
    with 1 show ?thesis by (auto simp: disconnect_txs_append gbind_def undone_def)
  next
    case (Inr x)
    obtain f1 v1 ac1 tc1 where x: "x = (f1, v1, ac1, tc1)" by (rule prod_cases4)
    with 1(2) Inr have "stands u v1 ?m" by (simp add: undone_def)
    moreover have "fresh C [tx] m" using Cons.prems(2) by (subst (asm) fresh_Cons) simp
    ultimately have 2: "undone u m (fst (disconnect_tx C P u h d tx (undo_of m tx) (f1, v1, ac1, tc1) G1)) \<and>
      (plain_tx m tx \<longrightarrow> (\<exists>v'. disconnect_tx C P u h d tx (undo_of m tx) (f1, v1, ac1, tc1) G1 = (Inr (f1, v', ac1, tc1), G1)))"
      using Cons.prems by (intro disconnect_tx_effect) auto
    obtain r2 G2 where r2: "disconnect_tx C P u h d tx (undo_of m tx) (f1, v1, ac1, tc1) G1 = (r2, G2)" by (rule prod.exhaust)
    have "disconnect_txs C P u h d (rev (block_undo_of C (nat h) (tx # txs) m)) (f, v, ac, tc) G = (r2, G2)"
      using 1(1) Inr x r2 by (cases r2) (simp_all add: disconnect_txs_append gbind_def gret_def)
    with 2 r2 1(3) Inr x show ?thesis by auto
  qed
qed

section \<open>Transactions without assets\<close>

text \<open>A transaction that neither creates nor spends asset outputs leaves the asset data alone and is never refused for them.\<close>

lemma plain_issues:
  assumes "list_all plain_out (vout tx)"
  shows "AddCoins_issues C P c tx txid h bh undo = gret (c, undo)"
  by (simp add: AddCoins_issues_def plain_kind [OF assms] Let_def)

lemma GetAssetData_plain: "IsAssetScript s = None \<Longrightarrow> GetAssetData C P s = None"
  by (simp add: GetAssetData_def)

lemma add_outputs_plain:
  "list_all plain_out outs \<Longrightarrow> add_outputs C P u v ac txid cb h check i outs G =
     (case AddCoins_loop u (fst v) (snd v) txid cb h check i outs of Inl e \<Rightarrow> (Inl (CoinsError e), G) | Inr v' \<Rightarrow> (Inr (v', ac), G))"
proof (induction outs arbitrary: v i)
  case (Cons out outs)
  obtain ow c1 base1 where q: "(if check then HaveCoin u (fst v) (snd v) \<lparr>COutPoint.op_hash = txid, op_n = of_nat i\<rparr> else (cb, v)) = (ow, c1, base1)"
    by (cases "if check then HaveCoin u (fst v) (snd v) \<lparr>COutPoint.op_hash = txid, op_n = of_nat i\<rparr> else (cb, v)") auto
  show ?case using Cons q
    by (cases "AddCoin u c1 \<lparr>COutPoint.op_hash = txid, op_n = of_nat i\<rparr> (mk_Coin out h cb) ow")
      (auto simp: Let_def gbind_def gret_def gfail_def gread_def add_transfer_of_output_def add_commands_of_output_def plain_out_def GetAssetData_plain)
qed (simp add: gret_def)

lemma spend_inputs_plain:
  assumes "stands u v m" "distinct (map prevout ins)" "\<forall>i \<in> set ins. \<exists>c. m (prevout i) = Some c \<and> plain_coin c"
  shows "\<exists>v'. spend_inputs C P u v ac ins acc G = (Inr (v', ac, acc @ map (\<lambda>i. coin_at m (prevout i)) ins), G)"
  using assms
proof (induction ins arbitrary: v m acc)
  case (Cons i ins)
  obtain ok coin v1 ac1 where s: "spend_coin C P u v ac (prevout i) G = (ok, coin, v1, ac1)"
    by (cases "spend_coin C P u v ac (prevout i) G") auto
  from Cons.prems(3) obtain x where x: "m (prevout i) = Some x" "plain_coin x" by auto
  from stands_spend_coin [OF Cons.prems(1) s] x have 1: "stands u v1 (m(prevout i := None))" "coin = x" "ok" "ac1 = ac"
    by (auto simp: TrySpendCoin_def plain_coin_def)
  have ne: "\<forall>j \<in> set ins. prevout j \<noteq> prevout i" using Cons.prems(2) by (auto simp: image_iff)
  then have 3: "map (\<lambda>j. coin_at (m(prevout i := None)) (prevout j)) ins = map (\<lambda>j. coin_at m (prevout j)) ins"
    by (simp add: coin_at_def)
  from ne Cons.prems(3) have n: "\<forall>j \<in> set ins. \<exists>c. (m(prevout i := None)) (prevout j) = Some c \<and> plain_coin c" by simp
  have d: "distinct (map prevout ins)" using Cons.prems(2) by simp
  from Cons.IH [OF 1(1) d n, of "acc @ [coin]"] s 1 x show ?case unfolding 3 by (simp add: gbind_def gread_def coin_at_def)
qed (simp add: gret_def)

lemma UpdateCoins_plain:
  assumes "stands u v m" "fresh C [tx] m" "tx_shape tx" "inputs_unspent m tx" "plain_tx m tx" "\<forall>x \<in> set (vout tx). \<not> CTxOut_IsNull x"
  shows "\<exists>v'. UpdateCoins C P u v ac tx h bh undo G = (Inr (v', ac, spent_coins m tx, undo), G)"
proof -
  let ?m = "if IsCoinBase tx then m else without (map prevout (vin tx)) m"
  have "\<exists>v1. (if IsCoinBase tx then gret (v, ac, []) else spend_inputs C P u v ac (vin tx) []) G = (Inr (v1, ac, spent_coins m tx), G) \<and> stands u v1 ?m"
  proof (cases "IsCoinBase tx")
    case True
    then show ?thesis using assms(1) by (simp add: gret_def spent_coins_def)
  next
    case False
    have "\<forall>i \<in> set (vin tx). \<exists>c. m (prevout i) = Some c \<and> plain_coin c" "distinct (map prevout (vin tx))"
      using False assms(3-5) by (auto simp: tx_shape_def inputs_unspent_def plain_tx_def spent_coins_def list_all_iff coin_at_def split: option.splits)
    from spend_inputs_plain [OF assms(1) this(2,1), of C P ac "[]" G] obtain v1 where
      s: "spend_inputs C P u v ac (vin tx) [] G = (Inr (v1, ac, map (\<lambda>i. coin_at m (prevout i)) (vin tx)), G)" by auto
    from spend_inputs_effect [OF assms(1) s] False assms(3,4) s show ?thesis by (auto simp: tx_shape_def inputs_unspent_def spent_coins_def)
  qed
  then obtain v1 where 1: "(if IsCoinBase tx then gret (v, ac, []) else spend_inputs C P u v ac (vin tx) []) G = (Inr (v1, ac, spent_coins m tx), G)"
    "stands u v1 ?m" by blast
  have None: "?m q = None" if "COutPoint.op_hash q = tx_hash C tx" for q using assms(2) that by (simp add: fresh_def without_def)
  obtain c' base' where "AddCoins_loop u (fst v1) (snd v1) (tx_hash C tx) (IsCoinBase tx) h False 0 (vout tx) = Inr (c', base')"
    using AddCoins_loop_correct [of u "fst v1" "snd v1" "vout tx" 0 False "IsCoinBase tx" "tx_hash C tx" h] 1(2) None assms(3,6)
    by (fastforce simp: stands_def tx_shape_def)
  moreover have "list_all plain_out (vout tx)" using assms(5) by (simp add: plain_tx_def)
  ultimately show ?thesis using 1(1)
    by (simp add: UpdateCoins_def AddCoins_with_assets_def Let_def plain_issues add_outputs_plain gbind_def gret_def)
qed

end
