(* ===== verification/Reorg.thy ===== *)
theory Reorg
  imports ConnectSafety
begin

text \<open>
  Whole blocks: what the checks of a block guarantee, the effect of connecting it, and that disconnecting it brings back the
  unspent outputs, with the undo data read back from the file that connecting wrote.
\<close>

section \<open>The shape of a checked block\<close>

lemma concat_size: "(\<And>x. k \<le> length (f x)) \<Longrightarrow> k * length xs \<le> length (concat (map f xs))"
  by (induction xs) (simp_all add: add_mono)

lemma tx_size_bounds:
  "41 * length (vin tx) \<le> length (SerializeTransaction False tx)" "9 * length (vout tx) \<le> length (SerializeTransaction False tx)"
proof -
  have c: "1 \<le> length (WriteCompactSize n)" for n by (simp add: WriteCompactSize_def ser_writedata8_def)
  have "41 \<le> length (Serialize_CTxIn x)" for x
    using c [of "of_nat (length (scriptSig x))"]
    by (simp add: Serialize_CTxIn_def Serialize_COutPoint_def Serialize_uint256_def Serialize_bytes_def ser_writedata32_def)
  from concat_size [of 41 Serialize_CTxIn, OF this]
  show "41 * length (vin tx) \<le> length (SerializeTransaction False tx)"
    by (simp add: SerializeTransaction_def Serialize_vector_def Let_def trans_le_add1 trans_le_add2)
  have "9 \<le> length (Serialize_CTxOut x)" for x
    using c [of "of_nat (length (scriptPubKey x))"] by (simp add: Serialize_CTxOut_def Serialize_bytes_def)
  from concat_size [of 9 Serialize_CTxOut, OF this]
  show "9 * length (vout tx) \<le> length (SerializeTransaction False tx)"
    by (simp add: SerializeTransaction_def Serialize_vector_def Let_def trans_le_add1 trans_le_add2)
qed

definition block_wf :: "CTransaction list \<Rightarrow> bool" where
  "block_wf txs \<longleftrightarrow> txs \<noteq> [] \<and> IsCoinBase (hd txs) \<and> list_all (\<lambda>tx. \<not> IsCoinBase tx) (tl txs) \<and>
     list_all (\<lambda>tx. tx_shape tx \<and> length (vin tx) \<le> max_undo_records fAssetsIsActive) txs \<and> length txs \<le> MAX_SIZE"

lemma CheckTransaction_shape:
  assumes "CheckTransaction C P K tip tx h reward a b = Inr ()"
  shows "tx_shape tx \<and> length (vin tx) \<le> max_undo_records fAssetsIsActive"
proof -
  from assms have "length (SerializeTransaction False tx) \<le> 2000000" "distinct (map prevout (vin tx))"
    by (auto simp: CheckTransaction_def check_sizes_def sbind_Inr_iff reject_if_def GetMaxBlockWeight_def MAX_BLOCK_WEIGHT_RIP2_def
        WITNESS_SCALE_FACTOR_def Let_def split: if_splits)
  with tx_size_bounds [of tx] show ?thesis
    by (simp add: tx_shape_def max_undo_records_def fAssetsIsActive_def)
qed

lemma check_block_txs_shape:
  "check_block_txs E h reward a txs = Inr () \<Longrightarrow> list_all (\<lambda>tx. tx_shape tx \<and> length (vin tx) \<le> max_undo_records fAssetsIsActive) txs"
  by (induction txs) (auto simp: sbind_Inr_iff block_tx_def CheckTransaction_shape split: sum.splits)

lemma CheckBlock_wf:
  assumes "CheckBlock B bt block h a b c = Inr block1" "fChecked block \<longrightarrow> block_wf (vtx block)"
  shows "block_wf (vtx block)" "vtx block1 = vtx block" "GetBlockHeader block1 = GetBlockHeader block"
proof -
  show "vtx block1 = vtx block" "GetBlockHeader block1 = GetBlockHeader block"
    using assms(1) by (auto simp: CheckBlock_def sbind_Inr_iff Let_def GetBlockHeader_def CBlockHeader.defs split: if_splits)
  show "block_wf (vtx block)"
  proof (cases "fChecked block")
    case True
    then show ?thesis using assms(2) by simp
  next
    case False
    with assms(1) have "check_block_txs B h (GetBlockSubsidy (be_params B) (h - 1)) (\<not> c) (vtx block) = Inr ()"
      "\<not> block_too_long block" "vtx block \<noteq> []" "IsCoinBase (vtx block ! 0)" "\<not> list_ex IsCoinBase (tl (vtx block))"
      by (auto simp: CheckBlock_def sbind_Inr_iff block_if_def Let_def split: if_splits)
    then show ?thesis using check_block_txs_shape
      by (simp add: block_wf_def block_too_long_def hd_conv_nth list_ex_iff list_all_iff MAX_SIZE_def GetMaxBlockWeight_def
          MAX_BLOCK_WEIGHT_RIP2_def WITNESS_SCALE_FACTOR_def)
  qed
qed

section \<open>Best blocks\<close>

definition best_of :: "view \<Rightarrow> uint256" where
  "best_of v = fst (GetBestBlock (ViewCache (fst v) (snd v)))"

lemma GetBestBlock_view: "GetBestBlock w = (h, w') \<Longrightarrow> utxo w' = utxo w \<and> (view_inv u w \<longrightarrow> view_inv u w')"
proof (induction w arbitrary: h w' rule: GetBestBlock.induct)
  case (1 d)
  then show ?case by simp
next
  case (2 c base)
  show ?case
  proof (cases "hashBlock c = 0")
    case True
    obtain h1 base1 where b: "GetBestBlock base = (h1, base1)" by (rule prod.exhaust)
    with 2 True have e: "utxo base1 = utxo base" "view_inv u base \<longrightarrow> view_inv u base1" "w' = ViewCache (c\<lparr>hashBlock := h1\<rparr>) base1" by auto
    then have "utxo w' = utxo (ViewCache c base)" by (auto simp: utxo.simps split: option.split)
    moreover have "cache_inv u c base \<longrightarrow> cache_inv u (c\<lparr>hashBlock := h1\<rparr>) base1" using e(1) by (simp add: cache_inv_def entry_ok_def)
    ultimately show ?thesis using e by (simp add: view_inv.simps)
  next
    case False
    then show ?thesis using 2 by simp
  qed
qed

lemma stands_GetBestBlock:
  assumes "stands u v m" "snd (GetBestBlock (ViewCache (fst v) (snd v))) = ViewCache c base"
  shows "stands u (c, base) m"
  using assms GetBestBlock_view [of "ViewCache (fst v) (snd v)" "best_of v" "ViewCache c base" u]
  by (auto simp: stands_def best_of_def prod_eq_iff)

lemma new_view_stands: "stands u v m \<Longrightarrow> stands u (new_view v) m"
  by (auto simp: stands_def new_view_def view_inv.simps utxo.simps cache_inv_def map_usage_def fun_eq_iff)

lemma stands_SetBestBlock: "stands u (SetBestBlock c h, base) m \<longleftrightarrow> stands u (c, base) m"
  by (simp add: stands_def SetBestBlock_def view_inv.simps utxo.simps cache_inv_def fun_eq_iff)

lemma hashBlock_SetBestBlock [simp]: "hashBlock (SetBestBlock c h) = h"
  by (simp add: SetBestBlock_def)

section \<open>Connecting a block\<close>

lemma connect_entry_accepts:
  assumes "connect_entry E N block p v False = Inr (b, hash, hashPrev, block1, v1)" "stands (ce_usage E) v m"
    and "fChecked block \<longrightarrow> block_wf (vtx block)"
  shows "bt_store (nd_tree N) p = Some b" "hash = Headers.GetHash (be_header (ce_block E)) (GetBlockHeader block)"
    "pprev b = Some q \<Longrightarrow> bt_store (nd_tree N) q \<bind> phashBlock = Some hashPrev"
    "block_wf (vtx block)" "vtx block1 = vtx block" "GetBlockHeader block1 = GetBlockHeader block" "stands (ce_usage E) v1 m"
    "hashPrev = best_of v"
proof -
  have 1: "bt_store (nd_tree N) p = Some b" "hash = Headers.GetHash (be_header (ce_block E)) (GetBlockHeader block)"
      "CheckBlock (ce_block E) (nd_tree N) block (nHeight b) True True False = Inr block1"
      "pprev b = Some q \<longrightarrow> bt_store (nd_tree N) q \<bind> phashBlock = Some hashPrev"
      "snd (GetBestBlock (ViewCache (fst v) (snd v))) = ViewCache (fst v1) (snd v1)"
      "hashPrev = best_of v"
    using assms(1) unfolding connect_entry_def best_of_def Let_def sbind_Inr_iff block_some_def block_if_def prod.inject sum.inject
    by (auto split: option.splits if_splits prod.splits coins_view.splits)
  then show "bt_store (nd_tree N) p = Some b" "hash = Headers.GetHash (be_header (ce_block E)) (GetBlockHeader block)"
    "pprev b = Some q \<Longrightarrow> bt_store (nd_tree N) q \<bind> phashBlock = Some hashPrev"
    "hashPrev = best_of v" by simp_all
  show "block_wf (vtx block)" "vtx block1 = vtx block" "GetBlockHeader block1 = GetBlockHeader block"
    using CheckBlock_wf [OF 1(3) assms(3)] by simp_all
  show "stands (ce_usage E) v1 m" using stands_GetBestBlock [OF assms(2) 1(5)] by simp
qed

lemma ConnectBlock_effect:
  assumes "ConnectBlock E N block p v ac False G = (Inr (N', v', ac'), H)" "stands (ce_usage E) v m"
    and "fChecked block \<longrightarrow> block_wf (vtx block)" "fresh (ce_crypto E) (vtx block) m"
    and "Headers.GetHash (be_header (ce_block E)) (GetBlockHeader block) \<noteq> hashGenesisBlock (be_header (ce_block E))"
  obtains b q prv hp sc where "bt_store (nd_tree N) p = Some b" "pprev b = Some q" "bt_store (nd_tree N) q = Some prv" "phashBlock prv = Some hp"
    "hp = best_of v" "block_wf (vtx block)" "block_valid E (bt_store (nd_tree N)) p b (vtx block) m"
    "stands (ce_usage E) v' (block_effect (ce_crypto E) (nat (nHeight b)) (vtx block) m)" "phashBlock b = Some (hashBlock (fst v'))"
    "check_reward E b prv (hd (vtx block)) (block_fees (ce_crypto E) (nat (nHeight b)) (vtx block) m) = Inr ()"
    "MoneyRange (block_fees (ce_crypto E) (nat (nHeight b)) (vtx block) m)"
    "write_undo E (N\<lparr>nd_script_cache := sc\<rparr>) p b hp (tl (block_spends (ce_crypto E) (nat (nHeight b)) (vtx block) m)) = Some N'"
proof -
  from assms(1) obtain b hash hashPrev block1 v1 where
    e: "connect_entry E N block p v False = Inr (b, hash, hashPrev, block1, v1)"
    by (auto simp: ConnectBlock_def gcheck_iff gpure_def)
  note a = connect_entry_accepts [OF e assms(2,3)]
  from assms(1) e a(2) assms(5) obtain s G1 h where
    1: "connect_block_txs E N block1 p b hash v1 ac False G = (Inr s, G1)" "phashBlock b = Some h"
      "write_undo E (N\<lparr>nd_script_cache := cs_script_cache s\<rparr>) p b hashPrev (cs_vtxundo s) = Some N'"
      "v' = (SetBestBlock (fst (cs_view s)) h, snd (cs_view s))"
    by (auto simp: ConnectBlock_def gcheck_iff gpure_def gret_def Let_def block_some_def split: option.splits)
  from 1(1) obtain fsc q prv G2 where
    2: "connect_txs E (bt_store (nd_tree N)) p b block1 fsc False 0 (vtx block1)
        \<lparr>cs_view = v1, cs_assets = ac, cs_nFees = 0, cs_nSigOpsCost = 0, cs_vtxundo = [], cs_checks = [],
         cs_script_cache = nd_script_cache N\<rparr> G = (Inr s, G2)"
      "pprev b = Some q" "bt_store (nd_tree N) q = Some prv" "check_reward E b prv (hd (vtx block1)) (cs_nFees s) = Inr ()"
    by (auto simp: connect_block_txs_def gcheck_iff gpure_def gret_def Let_def block_some_def bind_eq_Some_conv split: option.splits)
  from a(4) have "list_all tx_shape (vtx block1)" using a(5) by (simp add: block_wf_def list_all_iff)
  from connect_txs_effect [OF _ 2(1) _ _ this, of m] a(5,7) assms(4)
  have 3: "stands (ce_usage E) (cs_view s) (block_effect (ce_crypto E) (nat (nHeight b)) (vtx block) m)"
      "block_valid E (bt_store (nd_tree N)) p b (vtx block) m" "cs_nFees s = block_fees (ce_crypto E) (nat (nHeight b)) (vtx block) m"
      "MoneyRange (cs_nFees s)" "cs_vtxundo s = tl (block_spends (ce_crypto E) (nat (nHeight b)) (vtx block) m)"
    by (simp_all add: MoneyRange_def MAX_MONEY_def COIN_def drop_Suc)
  from a(3) [OF 2(2)] 2(3) have "phashBlock prv = Some hashPrev" by simp
  with that [of b q prv hashPrev "cs_script_cache s"] a(1,4,5,8) 1 2 3 show thesis
    by (simp add: stands_SetBestBlock)
qed

lemma ConnectBlock_stands:
  assumes "ConnectBlock E N block p v ac False G = (Inr (N', v', ac'), H)" "stands (ce_usage E) v m"
    and "fChecked block \<longrightarrow> block_wf (vtx block)" "fresh (ce_crypto E) (vtx block) m"
    and "Headers.GetHash (be_header (ce_block E)) (GetBlockHeader block) \<noteq> hashGenesisBlock (be_header (ce_block E))"
  shows "stands (ce_usage E) v' (cache_utxo v')"
  using assms by (rule ConnectBlock_effect) (simp add: stands_def)

section \<open>The undo file\<close>

lemma UndoReadFromDisk_written:
  assumes "ec_law ec" "\<forall>v \<in> set u. list_all storable v \<and> length v \<le> max_undo_records fAssetsIsActive" "length u \<le> MAX_SIZE"
    and "UndoWriteToDisk ec C u hashPrev = Some file"
  shows "UndoReadFromDisk ec C file hashPrev = Some u"
proof -
  from block_undo.carries [of ec u fAssetsIsActive] assms(1-3) obtain bs where
    "Serialize_CBlockUndo ec u = Some bs" "\<And>rest. Unserialize_CBlockUndo ec fAssetsIsActive (bs @ rest) = Inr (u, rest)" by blast
  with assms(4) c256.unser_ser [where rest = "[]"] show ?thesis by (auto simp: UndoWriteToDisk_def UndoReadFromDisk_def)
qed

text \<open>The entry of the block gets a new status and nothing else.\<close>

lemma write_undo_file:
  assumes "write_undo E N p b hp u = Some N'" "nStatus b AND 16 = 0"
  obtains rv s where "UndoWriteToDisk (ce_ec E) (ce_crypto E) u hp = Some rv" "nd_rev N' p = Some rv"
    "bt_store (nd_tree N') = (bt_store (nd_tree N))(p \<mapsto> b\<lparr>nStatus := s\<rparr>)" "s AND 16 \<noteq> 0" "nd_asset_undo N' = nd_asset_undo N"
proof -
  from assms obtain rv b1 where rv: "UndoWriteToDisk (ce_ec E) (ce_crypto E) u hp = Some rv"
    "b1 = b\<lparr>nStatus := nStatus b OR 16\<rparr>" and
    "\<exists>r b2. RaiseValidity b1 5 = Some (r, b2) \<and> N' = N\<lparr>nd_rev := (nd_rev N)(p \<mapsto> rv), nd_tree := (nd_tree N)\<lparr>bt_store := (bt_store (nd_tree N))(p \<mapsto> b2),
           setDirtyBlockIndex := set_insert_ptr p (setDirtyBlockIndex (nd_tree N))\<rparr>\<rparr>"
    by (auto simp: write_undo_def bind_eq_Some_conv split: if_splits)
  then obtain r b2 where b2: "RaiseValidity b1 5 = Some (r, b2)" and N': "N' = N\<lparr>nd_rev := (nd_rev N)(p \<mapsto> rv),
      nd_tree := (nd_tree N)\<lparr>bt_store := (bt_store (nd_tree N))(p \<mapsto> b2), setDirtyBlockIndex := set_insert_ptr p (setDirtyBlockIndex (nd_tree N))\<rparr>\<rparr>"
    by blast
  from b2 have "b2 = b\<lparr>nStatus := nStatus b2\<rparr>" by (auto simp: RaiseValidity_def rv(2) split: if_splits)
  moreover have "nStatus b2 AND 16 \<noteq> 0"
    using b2 and_exp_eq_0_iff_not_bit [of "nStatus b2" 4] by (auto simp: RaiseValidity_def rv(2) bit_simps split: if_splits)
  ultimately show thesis using that [of rv "nStatus b2"] rv(1) N' by simp
qed

section \<open>Disconnecting it\<close>

lemma block_valid_unspent: "block_valid E st p b txs m \<Longrightarrow> block_unspent (ce_crypto E) (nat (nHeight b)) txs m"
  by (induction txs arbitrary: m) (auto simp: tx_valid_def inputs_unspent_def input_ok_def)

lemma length_block_spends [simp]: "length (block_spends C h txs m) = length txs"
  by (induction txs arbitrary: m) auto

lemma block_undo_of_zip:
  "list_all (\<lambda>tx. \<not> IsCoinBase tx) txs \<Longrightarrow> block_undo_of C h txs m = zip txs (map Some (block_spends C h txs m))"
  by (induction txs arbitrary: m) (auto simp: undo_of_def)

lemma in_tl: "x \<in> set (tl xs) \<Longrightarrow> x \<in> set xs" by (cases xs) auto

lemma block_spends_storable:
  assumes "block_unspent C h txs m" "restorable_map m" "list_all outputs_storable txs" "0 < h" "h < 2 ^ 30"
    and "list_all (\<lambda>tx. length (vin tx) \<le> n) txs"
  shows "\<forall>v \<in> set (block_spends C h txs m). list_all storable v \<and> length v \<le> n"
  using assms
proof (induction txs arbitrary: m)
  case (Cons tx txs)
  have "restorable_map (tx_effect C h tx m)" using Cons.prems by (intro restorable_step) auto
  with Cons.IH [of "tx_effect C h tx m"] Cons.prems have "\<forall>v \<in> set (block_spends C h txs (tx_effect C h tx m)). list_all storable v \<and> length v \<le> n" by simp
  moreover have "list_all storable (spent_coins m tx) \<and> length (spent_coins m tx) \<le> n"
    using Cons.prems(1,2,6) by (auto simp: spent_coins_def list_all_iff inputs_unspent_def restorable_map_def restorable_def coin_at_def)
  ultimately show ?case by simp
qed simp

lemma DisconnectBlock_effect:
  assumes "bt_store (nd_tree N) p = Some b" "phashBlock b = Some h" "nStatus b AND 16 \<noteq> 0" "nd_rev N p = Some rv" "pprev b = Some q"
    and "bt_store (nd_tree N) q \<bind> phashBlock = Some hp"
    and "UndoReadFromDisk (ce_ec E) (ce_crypto E) rv hp = Some (tl (block_spends (ce_crypto E) (nat (nHeight b)) (vtx block) m))"
    and "block_wf (vtx block)" "list_all outputs_storable (vtx block)" "fresh (ce_crypto E) (vtx block) m"
    and "block_unspent (ce_crypto E) (nat (nHeight b)) (vtx block) m" "restorable_map m" "0 < nHeight b" "nHeight b < 2 ^ 30"
    and "stands (ce_usage E) v (block_effect (ce_crypto E) (nat (nHeight b)) (vtx block) m)"
  shows "case fst (DisconnectBlock E N block p v ac G) of Inl e \<Rightarrow> e = DISCONNECT_FAILED
    | Inr (ok, v', ac') \<Rightarrow> stands (ce_usage E) v' m \<and> hashBlock (fst v') = hp"
    and "block_plain (ce_crypto E) (nat (nHeight b)) (vtx block) m \<Longrightarrow> ce_UndoSpecialTxs E block p \<Longrightarrow> ce_VerifyBestBlock E h \<Longrightarrow>
      \<exists>v'. DisconnectBlock E N block p v ac G = (Inr (True, v', ac), G)"
proof -
  let ?C = "ce_crypto E" and ?h = "nat (nHeight b)"
  obtain tx txs where vtx: "vtx block = tx # txs" using assms(8) by (cases "vtx block") (auto simp: block_wf_def)
  with assms(8) have "IsCoinBase tx" "list_all (\<lambda>tx. \<not> IsCoinBase tx) txs" by (auto simp: block_wf_def)
  then have z: "zip (vtx block) (None # map Some (tl (block_spends ?C ?h (vtx block) m))) = block_undo_of ?C ?h (vtx block) m"
    by (simp add: vtx undo_of_def block_undo_of_zip)
  have len: "length (tl (block_spends ?C ?h (vtx block) m)) + 1 = length (vtx block)" by (simp add: vtx)
  define d where "d = (case nd_asset_undo N (Headers.GetHash (be_header (ce_block E)) (GetBlockHeader block)) of None \<Rightarrow> [] | Some d \<Rightarrow> d)"
  obtain r G1 where r: "disconnect_txs ?C (be_chain (ce_block E)) (ce_usage E) (nHeight b) d (rev (block_undo_of ?C ?h (vtx block) m)) (True, v, ac, ac) G = (r, G1)"
    by (rule prod.exhaust)
  have "list_all tx_shape (vtx block)" using assms(8) by (simp add: block_wf_def list_all_iff)
  from disconnect_txs_effect [OF assms(15,10) this assms(9,11,12,13,14), of "be_chain (ce_block E)" d True ac ac G] r
  have u: "undone (ce_usage E) m r" "block_plain ?C ?h (vtx block) m \<Longrightarrow> \<exists>v'. r = Inr (True, v', ac, ac) \<and> G1 = G" by auto
  have D: "DisconnectBlock E N block p v ac G =
     (if isDIPDIP0003Active (bp_consensus (ce_params E)) (be_tipHeight (ce_block E)) (nHeight b) \<and> \<not> ce_VerifyBestBlock E h \<or>
        \<not> ce_UndoSpecialTxs E block p then (Inl DISCONNECT_FAILED, G)
      else (case r of Inl e \<Rightarrow> (Inl e, G1) | Inr (fClean, v1, ac1, _) \<Rightarrow> (Inr (fClean, (SetBestBlock (fst v1) hp, snd v1), ac1), G1)))"
    using r assms(1-7) len z
    by (cases r) (auto simp: DisconnectBlock_def Let_def gbind_def or_failed_def gpure_def gret_def gfail_def d_def)
  show "case fst (DisconnectBlock E N block p v ac G) of Inl e \<Rightarrow> e = DISCONNECT_FAILED
    | Inr (ok, v', ac') \<Rightarrow> stands (ce_usage E) v' m \<and> hashBlock (fst v') = hp"
    using u(1) by (auto simp: D undone_def stands_SetBestBlock split: sum.splits)
  show "\<exists>v'. DisconnectBlock E N block p v ac G = (Inr (True, v', ac), G)"
    if "block_plain ?C ?h (vtx block) m" "ce_UndoSpecialTxs E block p" "ce_VerifyBestBlock E h"
    using u(2) [OF that(1)] that(2,3) by (auto simp: D)
qed

lemma connect_then_disconnect:
  assumes "ConnectBlock E N block p v ac False G = (Inr (N', v', ac'), H)" and "stands (ce_usage E) v m" and "restorable_map m"
    and "fresh (ce_crypto E) (vtx block) m" and "list_all outputs_storable (vtx block)" and "ec_law (ce_ec E)"
    and "fChecked block \<longrightarrow> block_wf (vtx block)"
    and "Headers.GetHash (be_header (ce_block E)) (GetBlockHeader block) \<noteq> hashGenesisBlock (be_header (ce_block E))"
    and "bt_store (nd_tree N) p = Some b" and "0 < nHeight b" and "nHeight b < 2 ^ 30" and "nStatus b AND 16 = 0" and "pprev b \<noteq> Some p"
    and "ce_ec E' = ce_ec E" and "ce_crypto E' = ce_crypto E" and "ce_usage E' = ce_usage E"
    and "stands (ce_usage E) w (cache_utxo v')" and "DisconnectBlock E' N' block p w ac2 G2 = (r, H2)"
  shows "cache_utxo v' = block_effect (ce_crypto E) (nat (nHeight b)) (vtx block) m \<and>
    (case r of Inl e \<Rightarrow> e = DISCONNECT_FAILED
     | Inr (ok, w', _) \<Rightarrow> stands (ce_usage E) w' m \<and> hashBlock (fst w') = best_of v) \<and>
    (block_plain (ce_crypto E) (nat (nHeight b)) (vtx block) m \<and> ce_UndoSpecialTxs E' block p \<and> ce_VerifyBestBlock E' (hashBlock (fst v')) \<longrightarrow>
      (\<exists>w'. r = Inr (True, w', ac2)) \<and> H2 = G2)"
proof -
  let ?C = "ce_crypto E"
  from assms(1,2,7,4,8) obtain b1 q prv hp sc where
    "bt_store (nd_tree N) p = Some b1" "pprev b1 = Some q" "bt_store (nd_tree N) q = Some prv" "phashBlock prv = Some hp" "hp = best_of v"
    "block_wf (vtx block)" "block_valid E (bt_store (nd_tree N)) p b1 (vtx block) m"
    "stands (ce_usage E) v' (block_effect ?C (nat (nHeight b1)) (vtx block) m)" "phashBlock b1 = Some (hashBlock (fst v'))"
    "write_undo E (N\<lparr>nd_script_cache := sc\<rparr>) p b1 hp (tl (block_spends ?C (nat (nHeight b1)) (vtx block) m)) = Some N'"
    by (rule ConnectBlock_effect)
  then have c: "pprev b = Some q" "bt_store (nd_tree N) q = Some prv" "phashBlock prv = Some (best_of v)"
      "block_wf (vtx block)" "block_valid E (bt_store (nd_tree N)) p b (vtx block) m"
      "stands (ce_usage E) v' (block_effect ?C (nat (nHeight b)) (vtx block) m)" "phashBlock b = Some (hashBlock (fst v'))"
      "write_undo E (N\<lparr>nd_script_cache := sc\<rparr>) p b (best_of v) (tl (block_spends ?C (nat (nHeight b)) (vtx block) m)) = Some N'"
    using assms(9) by simp_all
  note un = block_valid_unspent [OF c(5)]
  from c(8) assms(12) obtain rv s where
    rv: "UndoWriteToDisk (ce_ec E) ?C (tl (block_spends ?C (nat (nHeight b)) (vtx block) m)) (best_of v) = Some rv"
      "nd_rev N' p = Some rv" "bt_store (nd_tree N') = (bt_store (nd_tree (N\<lparr>nd_script_cache := sc\<rparr>)))(p \<mapsto> b\<lparr>nStatus := s\<rparr>)" "s AND 16 \<noteq> 0"
    by (rule write_undo_file)
  have lim: "list_all (\<lambda>tx. length (vin tx) \<le> max_undo_records fAssetsIsActive) (vtx block)" "length (vtx block) \<le> MAX_SIZE"
    using c(4) by (auto simp: block_wf_def list_all_iff)
  have "\<forall>v \<in> set (block_spends ?C (nat (nHeight b)) (vtx block) m). list_all storable v \<and> length v \<le> max_undo_records fAssetsIsActive"
    by (rule block_spends_storable [OF un assms(3,5) _ _ lim(1)]) (use assms(10,11) in simp_all)
  then have "UndoReadFromDisk (ce_ec E) ?C rv (best_of v) = Some (tl (block_spends ?C (nat (nHeight b)) (vtx block) m))"
    by (intro UndoReadFromDisk_written [OF assms(6) _ _ rv(1)]) (use lim(2) in \<open>auto dest: in_tl\<close>)
  moreover have u: "cache_utxo v' = block_effect ?C (nat (nHeight b)) (vtx block) m" using c(6) by (simp add: stands_def)
  ultimately have D: "case fst (DisconnectBlock E' N' block p w ac2 G2) of Inl e \<Rightarrow> e = DISCONNECT_FAILED
      | Inr (ok, w', _) \<Rightarrow> stands (ce_usage E') w' m \<and> hashBlock (fst w') = best_of v"
    "block_plain ?C (nat (nHeight b)) (vtx block) m \<Longrightarrow> ce_UndoSpecialTxs E' block p \<Longrightarrow> ce_VerifyBestBlock E' (hashBlock (fst v')) \<Longrightarrow>
      \<exists>w'. DisconnectBlock E' N' block p w ac2 G2 = (Inr (True, w', ac2), G2)"
    using DisconnectBlock_effect [of N' p "b\<lparr>nStatus := s\<rparr>" "hashBlock (fst v')" rv q "best_of v" E' block m w ac2 G2]
      assms(3-6,10,11,13-17) c rv(2-4) un by simp_all
  from D(1) [unfolded assms(16)] assms(18) have "case r of Inl e \<Rightarrow> e = DISCONNECT_FAILED
    | Inr (ok, w', _) \<Rightarrow> stands (ce_usage E) w' m \<and> hashBlock (fst w') = best_of v" by simp
  with u D(2) assms(18) show ?thesis by auto
qed

text \<open>
  C2. Disconnecting a block undoes connecting it. A block that is not the genesis block has been connected to a view that stands for the
  unspent outputs \<open>m\<close>: the new view stands for \<open>m\<close> with the effect of each transaction in turn, and the undo file is
  written. Then \<^verbatim>\<open>DisconnectBlock\<close>, on any view of the new outputs and in any later state of the node's other data, reads the
  undo file back and never throws; unless it reports a failure, the view that it leaves stands for \<open>m\<close> again and its best block is the one
  before. For a block without asset outputs that spends no asset coin it reports a clean result and does not touch the asset data.
  Coins are spendable, of a height above 0 and within the bounds of the disk format, which carries amounts of at most
  2,049,638,230,412,172,402 base units or divisible by ten; transaction hashes are new.
\<close>

theorem disconnect_undoes_connect:
  assumes "ConnectBlock E N block p v ac False G = (Inr (N', v', ac'), H)" and "stands (ce_usage E) v m" and "restorable_map m"
    and "fresh (ce_crypto E) (vtx block) m" and "list_all outputs_storable (vtx block)" and "ec_law (ce_ec E)"
    and "fChecked block \<longrightarrow> block_wf (vtx block)"
    and "Headers.GetHash (be_header (ce_block E)) (GetBlockHeader block) \<noteq> hashGenesisBlock (be_header (ce_block E))"
    and "bt_store (nd_tree N) p = Some b" and "0 < nHeight b" and "nHeight b < 2 ^ 30" and "nStatus b AND 16 = 0" and "pprev b \<noteq> Some p"
    and "ce_ec E' = ce_ec E" and "ce_crypto E' = ce_crypto E" and "ce_usage E' = ce_usage E"
    and "stands (ce_usage E) w (cache_utxo v')" and "DisconnectBlock E' N' block p w ac2 G2 = (r, H2)"
  shows "cache_utxo v' = block_effect (ce_crypto E) (nat (nHeight b)) (vtx block) m \<and>
    (case r of Inl e \<Rightarrow> e = DISCONNECT_FAILED
     | Inr (ok, w', _) \<Rightarrow> stands (ce_usage E) w' m \<and> hashBlock (fst w') = best_of v) \<and>
    (block_plain (ce_crypto E) (nat (nHeight b)) (vtx block) m \<and> ce_UndoSpecialTxs E' block p \<and> ce_VerifyBestBlock E' (hashBlock (fst v')) \<longrightarrow>
      (\<exists>w'. r = Inr (True, w', ac2)) \<and> H2 = G2)"
  using assms by (rule connect_then_disconnect)

end
