(* ===== verification/ConnectExample.thy ===== *)
theory ConnectExample
  imports Reorg
begin

text \<open>
  A node, two blocks and their unspent outputs, on which the checks and the connection of a block are evaluated: one block of a
  coinbase alone, one of a coinbase and a transaction that spends a coin. They show that the hypotheses of the theorems on
  connected blocks can hold.
\<close>

section \<open>A node and a block, for the witnesses\<close>

text \<open>A toy hash function: the length of the message.\<close>

definition ex_hashes :: crypto where
  "ex_hashes = ex_crypto\<lparr>SHA256 := (\<lambda>m. if length m = 32 then m else of_nat (length m) # replicate 31 0)\<rparr>"

definition ex_connect :: connect_env where
  "ex_connect =
     \<lparr>ce_block = \<lparr>be_crypto = ex_hashes, be_chain = ex_params, be_params = main_block_params, be_header = ex_net, be_tipHeight = 19\<rparr>,
      ce_assets = \<lparr>te_crypto = ex_hashes, te_params = ex_params, te_mapReissuedAssets = [], te_mapAssetToHash = [], te_fCheckMempool = False,
        te_fRunningUnitTests = False, te_messages = False, te_currentTime = 0, te_nBlocktime = 0\<rparr>,
      ce_usage = (\<lambda>_. 0), ce_full = (\<lambda>_. False), ce_Verify = (\<lambda>_ _ _. False), ce_ec = ex_keys,
      ce_payments = \<lparr>pe_IsSynced = True, pe_fLiteMode = False, pe_superblocks = False, pe_IsSuperblockTriggered = (\<lambda>_. False),
        pe_SuperblockIsValid = (\<lambda>_ _ _. False), pe_IsTransactionValid = (\<lambda>_ _ _ _. True)\<rparr>,
      ce_threads = False, ce_nonce = [], ce_hashAssumeValid = 0, ce_nMinimumChainWork = [], ce_VerifyBestBlock = (\<lambda>_. True),
      ce_ProcessSpecialTxs = (\<lambda>_ _ _ _. Inr ()), ce_UndoSpecialTxs = (\<lambda>_ _. True), ce_instantsend = False,
      ce_ConflictingLock = (\<lambda>_. False), ce_HasChainLock = (\<lambda>_ _. False)\<rparr>"

definition ex_index :: "int \<Rightarrow> CBlockIndex" where
  "ex_index h = (CBlockIndex_of_header Headers.ex_block)\<lparr>phashBlock := Some 2, pprev := Some 0, nHeight := h\<rparr>"

text \<open>The entry \<open>1\<close> at height \<open>h\<close> on the entry \<open>0\<close>.\<close>

definition ex_node :: "int \<Rightarrow> node" where
  "ex_node h =
     \<lparr>nd_tree = empty_tree\<lparr>bt_store := [0 \<mapsto> (CBlockIndex_of_header ex_genesis)\<lparr>phashBlock := Some 1, nHeight := h - 1\<rparr>, 1 \<mapsto> ex_index h],
        mapBlockIndex := [(1, 0), (2, 1)]\<rparr>,
      nd_chain = [Some 0], nd_rev = Map.empty, nd_coins = (\<lparr>hashBlock = 0, cacheCoins = [], cachedCoinsUsage = 0\<rparr>, ViewDB \<lparr>db_ec = ex_keys, db_coins = Map.empty, db_best = None, db_heads = None\<rparr>),
      nd_script_cache = [], nd_asset_undo = Map.empty, mapReissuedTx = [], mapReissuedAssets = []\<rparr>"

definition ex_block_of :: "CTransaction list \<Rightarrow> CBlock" where
  "ex_block_of txs = (CBlock_of_header Headers.ex_block txs)\<lparr>fChecked := True\<rparr>"

definition ex_db_view :: "(COutPoint \<Rightarrow> Coin option) \<Rightarrow> view" where
  "ex_db_view m = (\<lparr>hashBlock = 0, cacheCoins = [], cachedCoinsUsage = 0\<rparr>, ViewDB \<lparr>db_ec = ex_keys, db_coins = db_records ex_keys m, db_best = Some 1, db_heads = None\<rparr>)"

definition ex_outputs :: utxo_map where
  "ex_outputs = (\<lambda>p. if p = ex_point 4 then Some Coins.ex_coin else None)"

definition ex_reward :: CTransaction where
  "ex_reward = \<lparr>nVersion = 2, nType = 0,
     vin = [\<lparr>prevout = \<lparr>COutPoint.op_hash = 0, op_n = 0xffffffff\<rparr>, scriptSig = [1, 5], nSequence = 0xffffffff, scriptWitness = []\<rparr>],
     vout = [\<lparr>nValue = 5000 * COIN, scriptPubKey = [OP_1], nRounds = -10\<rparr>], nLockTime = 0, vExtraPayload = []\<rparr>"

definition ex_spending :: CTransaction where
  "ex_spending = \<lparr>nVersion = 2, nType = 0,
     vin = [\<lparr>prevout = ex_point 4, scriptSig = [], nSequence = 0xffffffff, scriptWitness = []\<rparr>],
     vout = [\<lparr>nValue = 3, scriptPubKey = [OP_1], nRounds = -10\<rparr>], nLockTime = 0, vExtraPayload = []\<rparr>"

lemma ex_plain_script [simp]: "IsAssetScript [OP_1] = None" "\<not> IsUnspendable [OP_1]" "\<not> IsNullAsset [OP_1]" 
  by (simp_all add: IsAssetScript_def IsUnspendable_def GetAssetAmountFromScript_def MAX_SCRIPT_SIZE_def IsNullAsset_def IsNullAssetTxDataScript_def IsNullGlobalRestrictionAssetTxDataScript_def IsNullAssetVerifierTxDataScript_def)

lemma ex_block_header: "GetBlockHeader (ex_block_of txs) = Headers.ex_block"
  by (simp add: ex_block_of_def GetBlockHeader_def CBlock_of_header_def CBlockHeader.defs)

lemma ex_env_simps:
  "ce_usage ex_connect = (\<lambda>_. 0)" "ce_crypto ex_connect = ex_hashes" "ce_ec ex_connect = ex_keys" "ce_params ex_connect = main_block_params"
  "ce_UndoSpecialTxs ex_connect = (\<lambda>_ _. True)" "ce_VerifyBestBlock ex_connect = (\<lambda>_. True)" "be_header (ce_block ex_connect) = ex_net"
  "hashGenesisBlock ex_net = 1" "vtx (ex_block_of txs) = txs" "bt_store (nd_tree (ex_node h)) 1 = Some (ex_index h)"
  "nHeight (the (bt_store (nd_tree (ex_node h)) 0)) = h - 1" "bt_store (nd_tree (ex_node h)) 0 \<noteq> None"
  by (simp_all add: ex_connect_def ex_block_of_def CBlock_of_header_def CBlockHeader.defs ex_net_def ex_node_def)

lemma ex_parent: "bt_store (nd_tree (ex_node h)) 0 = Some prv \<Longrightarrow> nHeight prv = h - 1"
  by (auto simp: ex_node_def)

lemma ex_entry_checked:
  assumes "GetBestBlock (ViewCache (fst v) (snd v)) = (1, ViewCache c base)"
  shows "connect_entry ex_connect (ex_node h) (ex_block_of txs) 1 v False = Inr (ex_index h, 2, 1, ex_block_of txs, (c, base))"
proof -
  have "HasConflictingChainLock ex_net = (\<lambda>_ _. False)" "fChecked (ex_block_of txs)" by (simp_all add: ex_net_def ex_block_of_def)
  then show ?thesis using assms
    by (simp add: connect_entry_def ex_connect_def ex_node_def ex_index_def CheckBlock_def Let_def ex_block_header block_some_def block_if_def del: GetBestBlock.simps)
qed

lemma ex_sigops [simp]: "GetSigOpCount [] False = 0" "GetSigOpCount [OP_1] False = 0" "GetSigOpCount [1, 5] False = 0"
  by code_simp+

lemma ex_spending_facts: "\<not> IsCoinBase ex_spending" "tx_shape ex_spending" "list_all plain_out (vout ex_spending)" "GetLegacySigOpCount ex_spending = 0"
  "vin ex_spending = [\<lparr>prevout = ex_point 4, scriptSig = [], nSequence = 0xffffffff, scriptWitness = []\<rparr>]" "plain_coin Coins.ex_coin"
  "vout ex_spending = [\<lparr>nValue = 3, scriptPubKey = [OP_1], nRounds = -10\<rparr>]"
  by (simp_all add: IsCoinBase_def ex_spending_def COutPoint_IsNull_def ex_point_def tx_shape_def plain_out_def GetLegacySigOpCount_def plain_coin_def Coins.ex_coin_def)

lemma ex_locks: "SequenceLocks (bt_store (nd_tree (ex_node 20))) ex_spending 1 [12] 1 = Some True"
proof -
  let ?st = "bt_store (nd_tree (ex_node 20))"
  obtain b where b: "?st 0 = Some b" "pprev b = None" "nTime b = 1651444200"
    by (simp add: ex_node_def CBlockIndex_of_header_def ex_genesis_def ex_header_def)
  from b(1,2) have "GetMedianTimePast ?st 0 = Some (uint (nTime b))" by (simp add: GetMedianTimePast_def eval_nat_numeral GetBlockTime_def)
  with b(3) have "GetMedianTimePast ?st 0 = Some 1651444200" by simp
  moreover have "?st 1 = Some (ex_index 20)" "pprev (ex_index 20) = Some 0" "nHeight (ex_index 20) = 20" by (simp_all add: ex_node_def ex_index_def)
  ultimately show ?thesis
    by (simp add: SequenceLocks_def CalculateSequenceLocks_def EvaluateSequenceLocks_def ex_spending_facts(5) lock_step_def
        SEQUENCE_LOCKTIME_DISABLE_FLAG_def enforces_bip68_def ex_spending_def)
qed

lemma ex_passes: "passes (\<lambda>_ _ _. False) ex_hashes \<lparr>ck_out = coin_out Coins.ex_coin, ck_tx = ex_spending, ck_nIn = 0, ck_flags = GetBlockScriptFlags main_block_params (ex_index 20)\<rparr>"
  by code_simp

lemma ex_flags: "CountWitnessSigOps [] (scriptPubKey (coin_out Coins.ex_coin)) [] (GetBlockScriptFlags main_block_params (ex_index 20)) = Some 0"
  "\<not> IsPayToScriptHash (scriptPubKey (coin_out Coins.ex_coin))"
  by code_simp+

lemma ex_asset_checks:
  assumes "stands (\<lambda>_. 0) v m" "m (ex_point 4) = Some Coins.ex_coin"
  shows "\<exists>v'. check_tx_assets ex_connect blk ex_spending v ac G = (Inr v', G) \<and> stands (\<lambda>_. 0) v' m"
proof -
  obtain ok v1 where h: "HaveInputs (\<lambda>_. 0) (fst v) (snd v) ex_spending = (ok, v1)" by (rule prod.exhaust)
  from HaveInputs_cases [of "\<lambda>_. 0" "fst v" "snd v" ex_spending] assms h have "ok" by (auto simp: ex_spending_facts(5) stands_def)
  note 1 = this stands_HaveInputs [OF assms(1) h]
  obtain coin v2 where a: "AccessCoin (\<lambda>_. 0) (fst v1) (snd v1) (ex_point 4) = (coin, v2)" by (rule prod.exhaust)
  from stands_AccessCoin [OF 1(2) a] assms(2) have 2: "coin = Coins.ex_coin" "stands (\<lambda>_. 0) v2 m" by (auto simp: coin_at_def)
  have k: "check_only_transfers ex_spending = Inr ()" by code_simp
  show ?thesis using h 1 a 2 ex_spending_facts(6)
    by (cases v1; cases v2) (simp add: check_tx_assets_def deployed_defs gerror_def CheckTxAssets_def gbind_def gret_def ex_connect_def ex_spending_facts(5,7)
      check_asset_input_def plain_coin_def Let_def check_asset_output_def check_null_asset_out_def check_asset_kind_def plain_kind [OF ex_spending_facts(3)] k gpure_def check_totals_def in_order_def reject_if_def)
qed

lemma ex_spend_connected:
  assumes "stands (\<lambda>_. 0) (cs_view s) m" "m (ex_point 4) = Some Coins.ex_coin" "fresh ex_hashes [ex_spending] m" "cs_nFees s = 0"
    "cs_nSigOpsCost s = 0" "cs_script_cache s = []"
  shows "\<exists>s'. connect_tx ex_connect (bt_store (nd_tree (ex_node 20))) 1 (ex_index 20) blk True False 1 ex_spending s G = (Inr s', G) \<and>
    cs_nFees s' = 2 \<and> cs_checks s' = cs_checks s"
proof -
  let ?u = "\<lambda>_. 0 :: u64" and ?flags = "GetBlockScriptFlags main_block_params (ex_index 20)"
  have E: "ce_usage ex_connect = ?u" "ce_params ex_connect = main_block_params" "ce_crypto ex_connect = ex_hashes" "\<not> ce_threads ex_connect" "nHeight (ex_index 20) = 20"
    "ce_Verify ex_connect = (\<lambda>_ _ _. False)" by (simp_all add: ex_connect_def ex_index_def)
  have m: "m = utxo (ViewCache (fst (cs_view s)) (snd (cs_view s)))" "cache_view_inv ?u (fst (cs_view s)) (snd (cs_view s))"
    using assms(1) by (simp_all add: stands_def)
  have "\<exists>v1. CheckTxInputs ?u (fst (cs_view s)) (snd (cs_view s)) ex_spending 20 = Inr (2, v1)"
    using CheckTxInputs_accepts [OF m(2), of ex_spending 20 2] assms(2) unfolding m(1) [symmetric]
    by (auto simp: ex_spending_facts(5,7) input_ok_def input_value_def coin_at_def Coins.ex_coin_def GetValueOut_def MoneyRange_def MAX_MONEY_def COIN_def int64_id in_int64_def)
  then obtain v1 where 1: "CheckTxInputs ?u (fst (cs_view s)) (snd (cs_view s)) ex_spending 20 = Inr (2, v1)" by blast
  from stands_CheckTxInputs [OF assms(1) 1] ex_asset_checks [of v1 m blk "cs_assets s" G] assms(2) obtain v2 where
    2: "check_tx_assets ex_connect blk ex_spending v1 (cs_assets s) G = (Inr v2, G)" "stands ?u v2 m" by blast
  obtain hs v3 where 3: "visit (access_height ?u) v2 [ex_point 4] = (hs, v3)" by (rule prod.exhaust)
  from stands_heights [OF 2(2) 3] assms(2) have h: "hs = [12]" "stands ?u v3 m" by (auto simp: coin_at_def Coins.ex_coin_def)
  have ci: "connect_inputs ex_connect (bt_store (nd_tree (ex_node 20))) 1 (ex_index 20) blk ex_spending s G = (Inr (s\<lparr>cs_view := v3, cs_nFees := 2\<rparr>), G)"
    using 1 2 3 h ex_locks assms(4) 
    by (simp add: connect_inputs_def E gbind_def gpure_def gret_def block_tx_def block_if_def block_some_def ex_spending_facts(5) Let_def main_block_params_def
      MoneyRange_def MAX_MONEY_def COIN_def int64_id in_int64_def)
  obtain c4 v4 where a4: "AccessCoin ?u (fst v3) (snd v3) (ex_point 4) = (c4, v4)" by (rule prod.exhaust)
  from stands_AccessCoin [OF h(2) a4] assms(2) have 4: "c4 = Coins.ex_coin" "stands ?u v4 m" by (auto simp: coin_at_def)
  obtain c5 v5 where a5: "AccessCoin ?u (fst v4) (snd v4) (ex_point 4) = (c5, v5)" by (rule prod.exhaust)
  from stands_AccessCoin [OF 4(2) a5] assms(2) have 5: "c5 = Coins.ex_coin" "stands ?u v5 m" by (auto simp: coin_at_def)
  obtain c6 v6 where a6: "AccessCoin ?u (fst v5) (snd v5) (ex_point 4) = (c6, v6)" by (rule prod.exhaust)
  from stands_AccessCoin [OF 5(2) a6] assms(2) have 6: "c6 = Coins.ex_coin" "stands ?u v6 m" by (auto simp: coin_at_def)
  have P2SH: "flag ?flags SCRIPT_VERIFY_P2SH" by code_simp
  have so: "GetTransactionSigOpCost ?u (fst v3) (snd v3) ex_spending ?flags = Inr (0, v5)"
    using a4 4 a5 5 ex_flags P2SH by (cases v4) (simp add: GetTransactionSigOpCost_def GetP2SHSigOpCount_def ex_spending_facts(1,4,5) Let_def)
  have ck: "CheckInputs (\<lambda>_ _ _. False) ex_hashes (ce_nonce ex_connect) ?u False ex_spending v5 True ?flags False [] = Inr ([], v6, [])"
    using a6 6 ex_passes by (simp add: CheckInputs_def ex_spending_facts(1,5) Let_def passes_def check_inline_def)
  have "plain_tx m ex_spending" "inputs_unspent m ex_spending" "\<forall>x \<in> set (vout ex_spending). \<not> CTxOut_IsNull x"
    using assms(2) by (auto simp: plain_tx_def ex_spending_facts spent_coins_def coin_at_def inputs_unspent_def CTxOut_IsNull_def plain_out_def)
  from UpdateCoins_plain [OF 6(2) assms(3) ex_spending_facts(2) this(2,1,3)] obtain v7 where
    "UpdateCoins ex_hashes (be_chain (ce_block ex_connect)) ?u v6 (cs_assets s) ex_spending 20 
      (Headers.GetHash (be_header (ce_block ex_connect)) (GetBlockHeader blk)) empty_undo G = (Inr (v7, cs_assets s, spent_coins m ex_spending, empty_undo), G)"
    by blast
  then show ?thesis using ci so ck assms(5,6)
    by (simp add: connect_tx_def E ex_spending_facts(1) gbind_def gpure_def gret_def block_tx_def block_if_def Let_def MAX_BLOCK_SIGOPS_COST_def)
qed

lemma ex_reward_facts: "IsCoinBase ex_reward" "tx_shape ex_reward" "plain_tx m ex_reward" "\<forall>x \<in> set (vout ex_reward). \<not> CTxOut_IsNull x" "GetLegacySigOpCount ex_reward = 0"
  "vout ex_reward = [\<lparr>nValue = 5000 * COIN, scriptPubKey = [OP_1], nRounds = -10\<rparr>]"
  by (simp_all add: IsCoinBase_def ex_reward_def COutPoint_IsNull_def tx_shape_def plain_tx_def plain_out_def spent_coins_def CTxOut_IsNull_def COIN_def GetLegacySigOpCount_def)

lemma ex_reward_connected:
  assumes "stands (\<lambda>_. 0) (cs_view s) m" "fresh ex_hashes [ex_reward] m" "cs_nSigOpsCost s = 0"
  shows "\<exists>s'. connect_tx ex_connect st 1 (ex_index h) blk True False 0 ex_reward s G = (Inr s', G) \<and>
    cs_nFees s' = cs_nFees s \<and> cs_checks s' = cs_checks s \<and> cs_nSigOpsCost s' = 0 \<and> cs_script_cache s' = cs_script_cache s \<and> stands (\<lambda>_. 0) (cs_view s') (tx_effect ex_hashes (nat h) ex_reward m)"
proof -
  let ?u = "\<lambda>_. 0 :: u64"
  have E: "ce_usage ex_connect = ?u" "ce_crypto ex_connect = ex_hashes" "nHeight (ex_index h) = h" by (simp_all add: ex_connect_def ex_index_def)
  have "inputs_unspent m ex_reward" by (simp add: inputs_unspent_def ex_reward_facts)
  from UpdateCoins_plain [OF assms(1,2) ex_reward_facts(2) this ex_reward_facts(3,4)] obtain v where
    v: "UpdateCoins ex_hashes (be_chain (ce_block ex_connect)) ?u (cs_view s) (cs_assets s) ex_reward (nat h) 
      (Headers.GetHash (be_header (ce_block ex_connect)) (GetBlockHeader blk)) empty_undo G = (Inr (v, cs_assets s, spent_coins m ex_reward, empty_undo), G)"
    by blast
  have "stands ?u v (tx_effect ex_hashes (nat h) ex_reward m)" using UpdateCoins_effect [OF assms(1) v assms(2) ex_reward_facts(2)] ex_reward_facts(1) by auto
  with v assms(3) show ?thesis
    by (simp add: connect_tx_def E ex_reward_facts(1,5) gbind_def gpure_def gret_def block_tx_def block_if_def Let_def MAX_BLOCK_SIGOPS_COST_def GetTransactionSigOpCost_def CheckInputs_def)
qed

lemma le_nat_zeros: "le_nat (replicate n 0) = 0"
  by (induction n) simp_all

lemma ex_hash_values: "tx_hash ex_hashes ex_spending = 61" "tx_hash ex_hashes ex_reward = 63"
  by (simp_all add: tx_hash_def GetHash_writer_def Hash256_def ex_hashes_def ex_spending_def ex_reward_def SerializeTransaction_def Serialize_vector_def
   Serialize_CTxIn_def Serialize_CTxOut_def Serialize_COutPoint_def Serialize_bytes_def Serialize_uint256_def ser_writedata32_def WriteCompactSize_def ser_writedata8_def has_payload_def le_nat_zeros)

lemma ex_fresh: "fresh ex_hashes [ex_reward, ex_spending] ex_outputs" "fresh ex_hashes [ex_reward] Map.empty"
  by (auto simp: fresh_def ex_hash_values ex_outputs_def ex_point_def)

lemma ex_value: "GetValueOut ex_reward = Some 500000000000"
  by (simp add: ex_reward_def GetValueOut_def MoneyRange_def MAX_MONEY_def COIN_def int64_id in_int64_def)

lemma ex_rewarded: "check_reward ex_connect (ex_index 20) prv ex_reward 2 = Inr ()" if "nHeight prv = 19"
  using that by (simp add: check_reward_def ex_connect_def main_block_params_def GetBlockSubsidy_def IsBlockValueValid_def Let_def ex_index_def INT_MAX_def ex_value
   COIN_def int64_id in_int64_def block_if_def IsBlockPayeeValid_payments_def GetPaymentsLimit_def IsValidBlockHeight_def signed_divide_int_def)

lemma ex_rewarded1: "check_reward ex_connect (ex_index 1) prv ex_reward 0 = Inr ()" if "nHeight prv = 0"
  using that by (simp add: check_reward_def ex_connect_def main_block_params_def GetBlockSubsidy_def IsBlockValueValid_def Let_def ex_index_def INT_MAX_def ex_value
   COIN_def int64_id in_int64_def block_if_def IsBlockPayeeValid_payments_def GetPaymentsLimit_def IsValidBlockHeight_def signed_divide_int_def)

lemma ex_db_stands:
  assumes "\<forall>p c. m p = Some c \<longrightarrow> \<not> IsSpent c \<and> storable c"
  shows "stands (\<lambda>_. 0) (ex_db_view m) m" "stands (\<lambda>_. 0) (\<lparr>hashBlock = h, cacheCoins = [], cachedCoinsUsage = 0\<rparr>, snd (ex_db_view m)) m"
  using assms db_records_coin [of m ex_keys "Some 1" None] storable_kept [OF ex_keys_law] by (simp_all add: stands_def ex_db_view_def view_inv.simps utxo.simps cache_inv_def map_usage_def fun_eq_iff)

lemma ex_best: "best_of (ex_db_view m) = 1"
  by (simp add: best_of_def ex_db_view_def db_GetBestBlock_def)

abbreviation ex_start :: "view \<Rightarrow> CAssetsCache \<Rightarrow> connect_state" where
  "ex_start v ac \<equiv> \<lparr>cs_view = v, cs_assets = ac, cs_nFees = 0, cs_nSigOpsCost = 0, cs_vtxundo = [], cs_checks = [], cs_script_cache = []\<rparr>"

lemma ex_first_effect: "tx_effect ex_hashes (nat 20) ex_reward ex_outputs (ex_point 4) = Some Coins.ex_coin"
  by (simp add: tx_effect_def with_outputs_def ex_hash_values ex_point_def ex_outputs_def ex_reward_facts(1))

lemma ex_txs_connected:
  assumes "stands (\<lambda>_. 0) v ex_outputs"
  shows "\<exists>s. connect_txs ex_connect (bt_store (nd_tree (ex_node 20))) 1 (ex_index 20) blk True False 0 [ex_reward, ex_spending] (ex_start v ac) G = (Inr s, G) \<and>
    cs_nFees s = 2 \<and> cs_checks s = []"
proof -
  let ?m = "tx_effect ex_hashes (nat 20) ex_reward ex_outputs"
  have "fresh ex_hashes [ex_reward] ex_outputs" using ex_fresh(1) by (subst (asm) fresh_Cons) simp
  from ex_reward_connected [of "ex_start v ac" ex_outputs, OF _ this, of "bt_store (nd_tree (ex_node 20))" 20 blk G] assms obtain s1 where
    1: "connect_tx ex_connect (bt_store (nd_tree (ex_node 20))) 1 (ex_index 20) blk True False 0 ex_reward (ex_start v ac) G = (Inr s1, G)"
      "cs_nFees s1 = 0" "cs_checks s1 = []" "cs_nSigOpsCost s1 = 0" "cs_script_cache s1 = []" "stands (\<lambda>_. 0) (cs_view s1) ?m" by auto
  have "fresh ex_hashes [ex_spending] ?m" by (rule fresh_step [OF ex_fresh(1)])
  with ex_first_effect obtain s2 where "connect_tx ex_connect (bt_store (nd_tree (ex_node 20))) 1 (ex_index 20) blk True False 1 ex_spending s1 G = (Inr s2, G)"
    "cs_nFees s2 = 2" "cs_checks s2 = []" using ex_spend_connected [OF 1(6), of blk G] 1 by auto
  with 1(1) show ?thesis by (simp add: gbind_def gret_def)
qed

lemma ex_status: "nStatus (ex_index h) = 0" "pprev (ex_index h) = Some 0" "nHeight (ex_index h) = h" "phashBlock (ex_index h) = Some 2"
  by (simp_all add: ex_index_def CBlockIndex_of_header_def)

lemma write_undo_total:
  assumes "nStatus b = 0" "UndoWriteToDisk (ce_ec E) (ce_crypto E) u hp \<noteq> None"
  shows "write_undo E N p b hp u \<noteq> None"
  using assms by (auto simp: write_undo_def IsValid_def RaiseValidity_def)

lemma UndoWriteToDisk_total:
  assumes "ec_law ec" "\<forall>v \<in> set u. list_all storable v \<and> length v \<le> max_undo_records fAssetsIsActive" "length u \<le> MAX_SIZE"
  shows "UndoWriteToDisk ec C u hp \<noteq> None"
  using block_undo.carries [of ec u fAssetsIsActive] assms by (auto simp: UndoWriteToDisk_def)

lemma ex_outputs_restorable: "restorable_map ex_outputs"
  using ex_coin_storable ex_coin_facts(1)
  by (auto simp: restorable_map_def ex_outputs_def restorable_def split: if_splits) (simp_all add: Coins.ex_coin_def)

lemma ex_wf: "block_wf [ex_reward, ex_spending]" "block_wf [ex_reward]" "list_all outputs_storable [ex_reward, ex_spending]"
proof -
  have "length (vin ex_reward) = 1" "length (vin ex_spending) = 1" by (simp_all add: ex_reward_def ex_spending_def)
  then show "block_wf [ex_reward, ex_spending]" "block_wf [ex_reward]"
    by (simp_all add: block_wf_def ex_reward_facts ex_spending_facts max_undo_records_def MAX_BLOCK_WEIGHT_def MAX_SIZE_def)
  show "list_all outputs_storable [ex_reward, ex_spending]"
    by (simp add: outputs_storable_def amount_kept_def ex_reward_facts(6) ex_spending_facts(7) MoneyRange_def MAX_MONEY_def COIN_def)
qed

lemma ex_genesis_hash: "hashGenesisBlock (be_header (ce_block ex_connect)) = 1"
  by (simp add: ex_connect_def ex_net_def)

lemma ex_block_txs:
  assumes "connect_txs ex_connect (bt_store (nd_tree (ex_node h))) 1 (ex_index h) (ex_block_of txs) True False 0 txs (ex_start v ac) G = (Inr s, G)" "cs_checks s = []"
    and "\<And>prv. nHeight prv = h - 1 \<Longrightarrow> check_reward ex_connect (ex_index h) prv (hd txs) (cs_nFees s) = Inr ()" "h < INT_MAX"
  shows "connect_block_txs ex_connect (ex_node h) (ex_block_of txs) 1 (ex_index h) 2 v ac False G = (Inr s, G)"
proof -
  have "script_checks ex_connect (nd_tree (ex_node h)) 1 (ex_index h) = Some True" by (simp add: script_checks_def ex_connect_def)
  moreover have "instantsend_filter ex_connect (ex_index h) txs = Inr ()" by (simp add: instantsend_filter_def ex_connect_def)
  moreover have "vtx (ex_block_of txs) = txs" by (simp add: ex_block_of_def CBlock_of_header_def CBlockHeader.defs)
  moreover have "\<exists>prv. bt_store (nd_tree (ex_node h)) 0 = Some prv \<and> nHeight prv = h - 1" by (simp add: ex_node_def)
  moreover have "ce_ProcessSpecialTxs ex_connect = (\<lambda>_ _ _ _. Inr ())" "nSuperblockStartBlock (ce_params ex_connect) = INT_MAX" "nd_script_cache (ex_node h) = []"
    by (simp_all add: ex_connect_def main_block_params_def ex_node_def)
  ultimately show ?thesis using assms
    by (auto simp: connect_block_txs_def gbind_def gpure_def gret_def Let_def block_some_def block_if_def ex_status simp del: connect_txs.simps One_nat_def)
qed

lemma ex_connected:
  assumes "\<And>v. stands (\<lambda>_. 0) v m \<Longrightarrow> \<exists>s. connect_txs ex_connect (bt_store (nd_tree (ex_node h))) 1 (ex_index h) (ex_block_of txs) True False 0 txs
      (ex_start v ac) G = (Inr s, G) \<and> cs_nFees s = fees \<and> cs_checks s = []"
    and "\<And>prv. nHeight prv = h - 1 \<Longrightarrow> check_reward ex_connect (ex_index h) prv (hd txs) fees = Inr ()" "0 < h" "h < 2 ^ 30"
    and "block_wf txs" "list_all outputs_storable txs" "restorable_map m" "fresh ex_hashes txs m" "stands (\<lambda>_. 0) v m" "best_of v = 1"
  shows "\<exists>N' v' ac' H. ConnectBlock ex_connect (ex_node h) (ex_block_of txs) 1 v ac False G = (Inr (N', v', ac'), H)"
proof -
  have E: "ce_usage ex_connect = (\<lambda>_. 0)" "ce_crypto ex_connect = ex_hashes" "ce_ec ex_connect = ex_keys" by (simp_all add: ex_connect_def)
  obtain c base where g: "GetBestBlock (ViewCache (fst v) (snd v)) = (1, ViewCache c base)"
    using assms(10) by (cases "GetBestBlock (snd v)") (auto simp: best_of_def split: if_splits)
  then have v: "stands (\<lambda>_. 0) (c, base) m" by (intro stands_GetBestBlock [OF assms(9)]) simp
  from assms(1) [OF this] obtain s where s: "connect_txs ex_connect (bt_store (nd_tree (ex_node h))) 1 (ex_index h) (ex_block_of txs) True False 0 txs
      (ex_start (c, base) ac) G = (Inr s, G)" "cs_nFees s = fees" "cs_checks s = []" by blast
  have "list_all tx_shape txs" using assms(5) by (auto simp: block_wf_def list_all_iff)
  from connect_txs_effect [OF _ s(1) _ _ this, of m] v assms(8)
  have x: "block_valid ex_connect (bt_store (nd_tree (ex_node h))) 1 (ex_index h) txs m" "cs_vtxundo s = tl (block_spends ex_hashes (nat h) txs m)"
    by (simp_all add: E ex_status MoneyRange_def MAX_MONEY_def COIN_def drop_Suc)
  from block_valid_unspent [OF x(1)] have un: "block_unspent ex_hashes (nat h) txs m" by (simp add: E ex_status)
  have "\<forall>v \<in> set (block_spends ex_hashes (nat h) txs m). list_all storable v \<and> length v \<le> max_undo_records fAssetsIsActive"
    by (rule block_spends_storable [OF un assms(7,6)]) (use assms(3-5) in \<open>simp_all add: block_wf_def list_all_iff\<close>)
  then have "UndoWriteToDisk ex_keys ex_hashes (cs_vtxundo s) hp \<noteq> None" for hp
    unfolding x(2) using assms(5) by (intro UndoWriteToDisk_total [OF ex_keys_law]) (auto simp: block_wf_def dest: in_tl)
  then have "write_undo ex_connect ((ex_node h)\<lparr>nd_script_cache := cs_script_cache s\<rparr>) 1 (ex_index h) 1 (cs_vtxundo s) \<noteq> None"
    by (intro write_undo_total) (simp_all add: E ex_status)
  moreover have "connect_block_txs ex_connect (ex_node h) (ex_block_of txs) 1 (ex_index h) 2 (c, base) ac False G = (Inr s, G)"
    by (rule ex_block_txs [OF s(1,3)]) (use assms(2,4) s(2) in \<open>simp_all add: INT_MAX_def\<close>)
  ultimately show ?thesis
    by (auto simp: ConnectBlock_def ex_entry_checked [OF g] gbind_def gpure_def gret_def Let_def block_some_def ex_status ex_genesis_hash simp del: One_nat_def)
qed

lemma ex_connected_spend:
  assumes "stands (\<lambda>_. 0) v ex_outputs" "best_of v = 1"
  shows "\<exists>N' v' ac' H. ConnectBlock ex_connect (ex_node 20) (ex_block_of [ex_reward, ex_spending]) 1 v ac False G = (Inr (N', v', ac'), H)"
  by (rule ex_connected [of ex_outputs 20 "[ex_reward, ex_spending]" ac G 2])
    (use assms ex_txs_connected ex_rewarded ex_wf ex_outputs_restorable ex_fresh(1) in simp_all)

lemma ex_connected_reward:
  assumes "stands (\<lambda>_. 0) v Map.empty" "best_of v = 1"
  shows "\<exists>N' v' ac' H. ConnectBlock ex_connect (ex_node 1) (ex_block_of [ex_reward]) 1 v ac False G = (Inr (N', v', ac'), H)"
proof (rule ex_connected [of Map.empty 1 "[ex_reward]" ac G 0])
  fix v assume "stands (\<lambda>_. 0) v (Map.empty :: utxo_map)"
  with ex_reward_connected [of "ex_start v ac" Map.empty "bt_store (nd_tree (ex_node 1))" 1 "ex_block_of [ex_reward]" G] ex_fresh(2)
  show "\<exists>s. connect_txs ex_connect (bt_store (nd_tree (ex_node 1))) 1 (ex_index 1) (ex_block_of [ex_reward]) True False 0 [ex_reward]
      (ex_start v ac) G = (Inr s, G) \<and> cs_nFees s = 0 \<and> cs_checks s = []"
    by (auto simp: gbind_def gret_def)
qed (use ex_rewarded1 ex_wf ex_fresh(2) assms in \<open>simp_all add: restorable_map_def\<close>)

lemma ex_outputs_stand: "stands (\<lambda>_. 0) (ex_db_view ex_outputs) ex_outputs"
  by (rule ex_db_stands(1)) (simp add: ex_outputs_def ex_coin_storable)

theorem disconnect_undoes_connect_witness:
  "\<exists>N' v' ac' H w'. ConnectBlock ex_connect (ex_node 20) (ex_block_of [ex_reward, ex_spending]) 1 (ex_db_view ex_outputs) ClearDirtyCache False
      ex_globals = (Inr (N', v', ac'), H) \<and> cache_utxo v' = block_effect ex_hashes 20 [ex_reward, ex_spending] ex_outputs \<and>
     fst (DisconnectBlock ex_connect N' (ex_block_of [ex_reward, ex_spending]) 1 v' ac' H) = Inr (True, w', ac') \<and> stands (\<lambda>_. 0) w' ex_outputs"
proof -
  let ?blk = "ex_block_of [ex_reward, ex_spending]"
  from ex_connected_spend [OF ex_outputs_stand ex_best] obtain N' v' ac' H where
    c: "ConnectBlock ex_connect (ex_node 20) ?blk 1 (ex_db_view ex_outputs) ClearDirtyCache False ex_globals = (Inr (N', v', ac'), H)" by blast
  note E = ex_env_simps ex_block_header
  note v = ex_outputs_stand
  then have "stands (ce_usage ex_connect) v' (cache_utxo v')"
    using ConnectBlock_stands [OF c, of ex_outputs] ex_wf(1) ex_fresh(1) by (simp add: E ex_block_header)
  obtain r H2 where d: "DisconnectBlock ex_connect N' ?blk 1 v' ac' H = (r, H2)" by (rule prod.exhaust)
  have "block_plain ex_hashes 20 [ex_reward, ex_spending] ex_outputs"
    using ex_first_effect ex_spending_facts
    by (simp add: ex_reward_facts(3)) (simp add: plain_tx_def spent_coins_def coin_at_def)
  with disconnect_undoes_connect [OF c, of ex_outputs "ex_index 20" ex_connect v' ac' H r H2] v ex_outputs_restorable ex_wf ex_fresh(1) ex_keys_law d
    \<open>stands (ce_usage ex_connect) v' (cache_utxo v')\<close>
  have "cache_utxo v' = block_effect ex_hashes 20 [ex_reward, ex_spending] ex_outputs \<and> (\<exists>w'. r = Inr (True, w', ac') \<and> stands (\<lambda>_. 0) w' ex_outputs)"
    by (auto simp: E ex_block_header ex_status simp del: block_effect.simps block_plain.simps One_nat_def)
  with c d show ?thesis by auto
qed

end
