(* ===== verification/Supply.thy ===== *)
theory Supply
  imports ConnectExample
begin

text \<open>
  The total of the unspent outputs: a transaction cannot raise it by more than it pays in fees less, a block by no more than its
  subsidy, and a chain of blocks by no more than the sum of the subsidies.
\<close>

section \<open>Totals\<close>

definition coin_value :: "utxo_map \<Rightarrow> COutPoint \<Rightarrow> int" where
  "coin_value m q = (case m q of None \<Rightarrow> 0 | Some c \<Rightarrow> nValue (coin_out c))"

definition total_value :: "utxo_map \<Rightarrow> int" where
  "total_value m = (\<Sum>q \<in> dom m. coin_value m q)"

lemma total_value_superset: "finite S \<Longrightarrow> dom m \<subseteq> S \<Longrightarrow> total_value m = (\<Sum>q \<in> S. coin_value m q)"
  unfolding total_value_def by (rule sum.mono_neutral_left) (auto simp: coin_value_def split: option.splits)

lemma total_value_update:
  assumes "finite (dom m)"
  shows "total_value (m(q := x)) = total_value m - coin_value m q + (case x of None \<Rightarrow> 0 | Some c \<Rightarrow> nValue (coin_out c))"
proof -
  let ?S = "insert q (dom m)"
  have S: "finite ?S" "q \<in> ?S" using assms by auto
  have "total_value (m(q := x)) = (\<Sum>r \<in> ?S. coin_value (m(q := x)) r)"
    by (rule total_value_superset) (use assms in \<open>auto split: if_splits\<close>)
  also have "\<dots> = coin_value (m(q := x)) q + (\<Sum>r \<in> ?S - {q}. coin_value (m(q := x)) r)" by (rule sum.remove [OF S])
  also have "(\<Sum>r \<in> ?S - {q}. coin_value (m(q := x)) r) = (\<Sum>r \<in> ?S - {q}. coin_value m r)"
    by (rule sum.cong) (auto simp: coin_value_def)
  also have "\<dots> = (\<Sum>r \<in> ?S. coin_value m r) - coin_value m q" using sum.remove [OF S, of "coin_value m"] by simp
  also have "(\<Sum>r \<in> ?S. coin_value m r) = total_value m" by (rule total_value_superset [symmetric]) (use S in auto)
  finally show ?thesis by (simp add: coin_value_def fun_upd_def)
qed

lemma finite_dom_update: "finite (dom m) \<Longrightarrow> finite (dom (m(q := x)))"
  by (rule finite_subset [of _ "insert q (dom m)"]) (auto split: if_splits)

lemma total_without:
  assumes "finite (dom m)" "distinct (map prevout ins)" "\<forall>i \<in> set ins. m (prevout i) \<noteq> None"
  shows "finite (dom (without (map prevout ins) m)) \<and>
    total_value (without (map prevout ins) m) = total_value m - sum_list (map (input_value m) ins)"
  using assms
proof (induction ins arbitrary: m)
  case (Cons i ins)
  let ?m = "m(prevout i := None)"
  have ne: "\<forall>j \<in> set ins. prevout j \<noteq> prevout i" using Cons.prems(2) by (auto simp: image_iff)
  then have v: "map (input_value ?m) ins = map (input_value m) ins" by (simp add: input_value_def coin_at_def)
  have "finite (dom (without (map prevout ins) ?m)) \<and>
      total_value (without (map prevout ins) ?m) = total_value ?m - sum_list (map (input_value ?m) ins)"
    by (rule Cons.IH) (use Cons.prems finite_dom_update [OF Cons.prems(1), of "prevout i" None] ne in \<open>auto simp: fun_upd_def\<close>)
  moreover have "coin_value m (prevout i) = input_value m i"
    using Cons.prems(3) by (auto simp: coin_value_def input_value_def coin_at_def)
  ultimately show ?case unfolding v using total_value_update [OF Cons.prems(1), of "prevout i" None] by simp
qed simp

lemma total_with_outputs:
  assumes "finite (dom m)" "i + length outs \<le> 2 ^ 32" "\<forall>x \<in> set outs. 0 \<le> nValue x"
    and "\<forall>j \<ge> i. j < i + length outs \<longrightarrow> m \<lparr>COutPoint.op_hash = txid, op_n = of_nat j\<rparr> = None"
  shows "finite (dom (with_outputs txid cb h i outs m)) \<and>
    total_value (with_outputs txid cb h i outs m) \<le> total_value m + sum_list (map nValue outs)"
  using assms
proof (induction outs arbitrary: m i)
  case Nil
  have "with_outputs txid cb h i [] m = m" by (auto simp: with_outputs_def fun_eq_iff Let_def)
  then show ?case using Nil by simp
next
  case (Cons out outs)
  let ?p = "\<lambda>j. \<lparr>COutPoint.op_hash = txid, op_n = (of_nat j :: u32)\<rparr>"
  let ?m = "if IsUnspendable (scriptPubKey out) then m else m(?p i := Some (mk_Coin out h cb))"
  have ne: "(of_nat j :: u32) \<noteq> of_nat i" if "Suc i \<le> j" "j < Suc i + length outs" for j
    using Cons.prems(2) that by (simp add: word_of_nat_eq_iff take_bit_nat_eq_self)
  have "finite (dom (with_outputs txid cb h (Suc i) outs ?m)) \<and>
    total_value (with_outputs txid cb h (Suc i) outs ?m) \<le> total_value ?m + sum_list (map nValue outs)"
  proof (rule Cons.IH)
    show "finite (dom ?m)" using Cons.prems(1) finite_dom_update [of m "?p i" "Some (mk_Coin out h cb)"] by simp
    show "\<forall>j \<ge> Suc i. j < Suc i + length outs \<longrightarrow> ?m (?p j) = None" using Cons.prems(4) ne by auto
  qed (use Cons.prems in auto)
  moreover have "total_value ?m \<le> total_value m + nValue out"
  proof -
    have "coin_value m (?p i) = 0" using Cons.prems(4) by (simp add: coin_value_def)
    then show ?thesis using Cons.prems(1,3) total_value_update [of m "?p i" "Some (mk_Coin out h cb)"] by (simp add: mk_Coin_def)
  qed
  ultimately show ?case unfolding with_outputs_Cons [OF Cons.prems(2)] by simp
qed

lemma total_tx_effect:
  assumes "finite (dom m)" "fresh C [tx] m" "tx_shape tx" "inputs_unspent m tx" "\<forall>x \<in> set (vout tx). 0 \<le> nValue x"
  shows "finite (dom (tx_effect C h tx m)) \<and> total_value (tx_effect C h tx m) \<le> total_value m - value_in m tx + value_out tx"
proof -
  let ?m = "if IsCoinBase tx then m else without (map prevout (vin tx)) m"
  have 1: "finite (dom ?m) \<and> total_value ?m = total_value m - value_in m tx"
    using total_without [OF assms(1), of "vin tx"] assms(1,3,4) by (auto simp: tx_shape_def inputs_unspent_def value_in_def)
  have "?m q = None" if "COutPoint.op_hash q = tx_hash C tx" for q using assms(2) that by (simp add: fresh_def without_def)
  with total_with_outputs [of ?m 0 "vout tx" "tx_hash C tx" "IsCoinBase tx" h] 1 assms(3,5) show ?thesis
    by (simp add: tx_effect_def value_out_def tx_shape_def)
qed

definition nonneg :: "utxo_map \<Rightarrow> bool" where
  "nonneg m \<longleftrightarrow> (\<forall>q c. m q = Some c \<longrightarrow> 0 \<le> nValue (coin_out c))"

lemma nonneg_tx_effect: "nonneg m \<Longrightarrow> \<forall>x \<in> set (vout tx). 0 \<le> nValue x \<Longrightarrow> nonneg (tx_effect C h tx m)"
  using nth_mem by (fastforce simp: nonneg_def tx_effect_def with_outputs_def without_def mk_Coin_def Let_def split: if_splits)

text \<open>An output is worth at most the total, and outputs that only keep their values or go away do not raise it.\<close>

lemma value_le_total: "finite (dom m) \<Longrightarrow> nonneg m \<Longrightarrow> m q = Some c \<Longrightarrow> nValue (coin_out c) \<le> total_value m"
proof -
  assume a: "finite (dom m)" "nonneg m" "m q = Some c"
  have "0 \<le> coin_value m r" for r using a(2) by (simp add: coin_value_def nonneg_def split: option.split)
  then have "coin_value m q \<le> total_value m" unfolding total_value_def using a by (intro member_le_sum) auto
  then show ?thesis using a(3) by (simp add: coin_value_def)
qed

lemma total_le:
  assumes "finite (dom m)" "nonneg m" "\<And>q c'. m' q = Some c' \<Longrightarrow> \<exists>c. m q = Some c \<and> nValue (coin_out c') = nValue (coin_out c)"
  shows "finite (dom m') \<and> nonneg m' \<and> total_value m' \<le> total_value m"
proof -
  have sub: "dom m' \<subseteq> dom m" using assms(3) by blast
  have "coin_value m' q \<le> coin_value m q" for q
    using assms(2) assms(3) [of q] by (cases "m' q"; cases "m q") (auto simp: coin_value_def nonneg_def)
  then have "total_value m' \<le> total_value m"
    unfolding total_value_superset [OF assms(1) sub] unfolding total_value_def by (rule sum_mono)
  moreover have "nonneg m'" unfolding nonneg_def using assms(2,3) unfolding nonneg_def by metis
  ultimately show ?thesis using finite_subset [OF sub assms(1)] by blast
qed

section \<open>Blocks and chains\<close>

lemma total_spends:
  assumes "finite (dom m)" "fresh (ce_crypto E) txs m" "list_all tx_shape txs" "block_valid E st p b txs m" "list_all (\<lambda>tx. \<not> IsCoinBase tx) txs" "nonneg m"
  shows "finite (dom (block_effect (ce_crypto E) (nat (nHeight b)) txs m)) \<and> nonneg (block_effect (ce_crypto E) (nat (nHeight b)) txs m) \<and>
    total_value (block_effect (ce_crypto E) (nat (nHeight b)) txs m) \<le> total_value m - block_fees (ce_crypto E) (nat (nHeight b)) txs m"
  using assms
proof (induction txs arbitrary: m)
  case (Cons tx txs)
  let ?m = "tx_effect (ce_crypto E) (nat (nHeight b)) tx m"
  from Cons.prems have "\<not> IsCoinBase tx" "tx_valid E st p b m tx" "tx_shape tx" by auto
  moreover have "fresh (ce_crypto E) [tx] m" using Cons.prems(2) by (subst (asm) fresh_Cons) simp
  ultimately have "finite (dom ?m) \<and> total_value ?m \<le> total_value m - value_in m tx + value_out tx"
    using Cons.prems(1) by (intro total_tx_effect) (auto simp: tx_valid_def inputs_unspent_def input_ok_def MoneyRange_def)
  moreover have "nonneg ?m" using Cons.prems(4,6) \<open>\<not> IsCoinBase tx\<close> by (intro nonneg_tx_effect) (auto simp: tx_valid_def MoneyRange_def)
  ultimately show ?case using Cons.IH [of ?m] fresh_step [OF Cons.prems(2)] Cons.prems(3-5) \<open>\<not> IsCoinBase tx\<close>
    by (auto simp: tx_fee_def)
qed simp

lemma drop_bit_le: "0 \<le> x \<Longrightarrow> drop_bit n x \<le> (x :: int)"
  using zdiv_mono2 [of x 1 "2 ^ n"] by (simp add: drop_bit_eq_div)

lemma GetBlockSubsidy_range: "0 \<le> GetBlockSubsidy K h \<and> GetBlockSubsidy K h \<le> 5000 * COIN"
  using drop_bit_le [of "5000 * COIN"] by (simp add: GetBlockSubsidy_def Let_def COIN_def)

lemma check_reward_limit:
  assumes "check_reward E b prv coinbase fees = Inr ()" "MoneyRange fees" "nHeight b < nBudgetPaymentsStartBlock (ce_params E)"
  shows "value_out coinbase \<le> fees + GetBlockSubsidy (ce_params E) (nHeight prv) \<and> (\<forall>x \<in> set (vout coinbase). 0 \<le> nValue x)"
proof -
  let ?r = "fees + GetBlockSubsidy (ce_params E) (nHeight prv)"
  have "in_int64 ?r" using assms(2) GetBlockSubsidy_range [of "ce_params E" "nHeight prv"]
    by (simp add: in_int64_def MoneyRange_def MAX_MONEY_def COIN_def)
  then have "int64 (int64 ?r + 0) = ?r" by (simp add: int64_id)
  with assms(1,3) obtain w where w: "GetValueOut coinbase = Some w" "w \<le> ?r"
    by (auto simp: check_reward_def Let_def sbind_Inr_iff IsBlockValueValid_def block_if_def split: option.splits if_splits)
  then have "w = value_out coinbase" "\<forall>x \<in> set (vout coinbase). MoneyRange (nValue x)"
    using GetValueOut_loop_eq [of 0 "vout coinbase"]
    by (auto simp: GetValueOut_def value_out_def MoneyRange_def MAX_MONEY_def COIN_def split: if_splits)
  with w(2) show ?thesis by (simp add: MoneyRange_def)
qed

lemma ConnectBlock_total:
  assumes "ConnectBlock E N block p v ac False G = (Inr (N', v', ac'), H)" "stands (ce_usage E) v m" "finite (dom m)"
    and "fresh (ce_crypto E) (vtx block) m" "fChecked block \<longrightarrow> block_wf (vtx block)"
    and "Headers.GetHash (be_header (ce_block E)) (GetBlockHeader block) \<noteq> hashGenesisBlock (be_header (ce_block E))"
    and "bt_store (nd_tree N) p = Some b" "pprev b = Some q" "bt_store (nd_tree N) q = Some prv"
    and "nHeight b < nBudgetPaymentsStartBlock (ce_params E)" "nonneg m"
  shows "finite (dom (cache_utxo v')) \<and> nonneg (cache_utxo v') \<and> total_value (cache_utxo v') \<le> total_value m + GetBlockSubsidy (ce_params E) (nHeight prv)"
proof -
  let ?C = "ce_crypto E"
  from assms(1,2,5,4,6) obtain b1 q1 prv1 hp sc where
    "bt_store (nd_tree N) p = Some b1" "pprev b1 = Some q1" "bt_store (nd_tree N) q1 = Some prv1"
    "block_wf (vtx block)" "block_valid E (bt_store (nd_tree N)) p b1 (vtx block) m"
    "stands (ce_usage E) v' (block_effect ?C (nat (nHeight b1)) (vtx block) m)"
    "check_reward E b1 prv1 (hd (vtx block)) (block_fees ?C (nat (nHeight b1)) (vtx block) m) = Inr ()"
    "MoneyRange (block_fees ?C (nat (nHeight b1)) (vtx block) m)"
    by (rule ConnectBlock_effect)
  then have c: "block_wf (vtx block)" "block_valid E (bt_store (nd_tree N)) p b (vtx block) m"
    "cache_utxo v' = block_effect ?C (nat (nHeight b)) (vtx block) m"
    "check_reward E b prv (hd (vtx block)) (block_fees ?C (nat (nHeight b)) (vtx block) m) = Inr ()"
    "MoneyRange (block_fees ?C (nat (nHeight b)) (vtx block) m)"
    using assms(7-9) by (simp_all add: stands_def)
  obtain tx txs where vtx: "vtx block = tx # txs" using c(1) by (cases "vtx block") (auto simp: block_wf_def)
  let ?m = "tx_effect ?C (nat (nHeight b)) tx m"
  have wf: "IsCoinBase tx" "list_all (\<lambda>tx. \<not> IsCoinBase tx) txs" "tx_shape tx" "list_all tx_shape txs"
    using c(1) by (auto simp: block_wf_def vtx list_all_iff)
  have r: "value_out tx \<le> block_fees ?C (nat (nHeight b)) txs ?m + GetBlockSubsidy (ce_params E) (nHeight prv)" "\<forall>x \<in> set (vout tx). 0 \<le> nValue x"
    using check_reward_limit [OF c(4,5) assms(10)] wf(1) by (auto simp: vtx tx_fee_def)
  have "fresh ?C [tx] m" using assms(4) unfolding vtx by (subst (asm) fresh_Cons) simp
  from total_tx_effect [OF assms(3) this wf(3) _ r(2), of "nat (nHeight b)"] wf(1)
  have "finite (dom ?m)" "total_value ?m \<le> total_value m + value_out tx" by (auto simp: inputs_unspent_def value_in_def)
  moreover have "nonneg ?m" using assms(11) r(2) by (rule nonneg_tx_effect)
  ultimately show ?thesis using total_spends [of ?m E txs "bt_store (nd_tree N)" p b] fresh_step [of ?C tx txs m "nat (nHeight b)"] assms(4) c(2,3) wf r(1)
    by (simp add: vtx)
qed

text \<open>Writing a view to disk: the amounts that are read back are those of the view if the format keeps them.\<close>

lemma reread_amount: "reread ec coin = Some coin' \<Longrightarrow> \<not> IsSpent coin \<and> nValue (coin_out coin') = amount_reread (nValue (coin_out coin))"
  by (auto simp: reread_def coin_bytes_def db_decode_def dest: coin_written_amount split: option.splits if_splits sum.splits)

lemma Flush_values:
  assumes "stands u v m" "Flush u full (fst v) (snd v) = Inr v'"
    and "\<forall>d. snd v = ViewDB d \<longrightarrow> (\<forall>q c. m q = Some c \<longrightarrow> amount_kept (nValue (coin_out c)))"
  shows "stands u v' (cache_utxo v') \<and> (\<forall>q c'. cache_utxo v' q = Some c' \<longrightarrow> (\<exists>c. m q = Some c \<and> nValue (coin_out c') = nValue (coin_out c)))"
proof (cases "snd v")
  case (ViewCache c1 b1)
  with Flush_correct [of u "fst v" "snd v" full] assms(1,2) show ?thesis by (auto simp: stands_def)
next
  case (ViewDB d)
  let ?c = "fst v"
  have inv: "cache_inv u ?c (ViewDB d)" "view_inv u (ViewDB d)" and m: "m = utxo (ViewCache ?c (ViewDB d))"
    using assms(1) ViewDB by (auto simp: stands_def view_inv.simps)
  note simps = utxo.simps view_inv.simps
  from inv have dist: "distinct (map fst (cacheCoins ?c))" by (simp add: cache_inv_def)
  obtain ds d' where b: "db_BatchWrite full d (cacheCoins ?c) (hashBlock ?c) = Inr (ds, d')"
    and v': "v' = (?c \<lparr>cacheCoins := [], cachedCoinsUsage := 0\<rparr>, ViewDB d')"
    using assms(2) ViewDB by (auto simp: Flush_def sbind_Inr_iff)
  from dist b have w: "written (cacheCoins ?c) d d'" by (rule db_BatchWrite_Inr)
  have val: "\<exists>c. m q = Some c \<and> nValue (coin_out c') = nValue (coin_out c) \<and> \<not> IsSpent c'" if "db_coin d' q = Some c'" for q c'
  proof (cases "map_of (cacheCoins ?c) q")
    case None
    then show ?thesis using that inv(2) by (auto simp: db_coin_written [OF w] m simps)
  next
    case (Some e)
    then have ok: "entry_ok (ViewDB d) q e" using inv(1) by (simp add: cache_inv_def)
    show ?thesis
    proof (cases "DIRTY e")
      case True
      with that Some have r: "reread (db_ec d) (ce_coin e) = Some c'" by (simp add: db_coin_written [OF w])
      from reread_amount [OF r] have mq: "m q = Some (ce_coin e)" using Some by (simp add: m simps)
      with assms(3) ViewDB have k: "amount_kept (nValue (coin_out (ce_coin e)))" by blast
      with reread_amount [OF r] have "nValue (coin_out c') = nValue (coin_out (ce_coin e))" by (simp add: amount_kept_reread)
      moreover from this k have "\<not> IsSpent c'" by (simp add: IsSpent_def CTxOut_IsNull_def amount_kept_def MoneyRange_def)
      ultimately show ?thesis using mq by blast
    next
      case False
      with that Some ok have "live (ce_coin e) = Some c'" by (simp add: db_coin_written [OF w] entry_ok_def simps)
      then show ?thesis using Some by (auto simp: m live_def simps split: if_splits)
    qed
  qed
  have u': "cache_utxo v' q = db_coin d' q" for q by (simp add: v' simps)
  have "view_inv u (ViewDB d')" using val by (fastforce simp: simps)
  then have "stands u v' (cache_utxo v')" using assms(1) by (simp add: stands_def v' cache_inv_def map_usage_def simps)
  with val u' show ?thesis by simp blast
qed

text \<open>
  The histories of the view that starts on an empty database. A block is connected on a view, which becomes the view of the next height; in between, caches are stacked, flushed
  into the view below and dropped, as \<^verbatim>\<open>ConnectTip\<close> does, and coins are read and evicted. A flush may write to the database at any
  time up to height 4,998,552; above it, the run allows it only if the disk format keeps the amounts of the view.
\<close>

inductive chain_run :: "block_params \<Rightarrow> crypto \<Rightarrow> usage \<Rightarrow> int \<Rightarrow> view \<Rightarrow> bool" for K C u where
  start: "u [] = 0 \<Longrightarrow> chain_run K C u 0 (\<lparr>hashBlock = best, cacheCoins = [], cachedCoinsUsage = 0\<rparr>,
    ViewDB \<lparr>db_ec = ec, db_coins = \<lambda>_. None, db_best = None, db_heads = None\<rparr>)"
| block: "chain_run K C u h v \<Longrightarrow> ce_params E = K \<Longrightarrow> ce_crypto E = C \<Longrightarrow> ce_usage E = u \<Longrightarrow>
    fChecked block \<longrightarrow> block_wf (vtx block) \<Longrightarrow> fresh C (vtx block) (cache_utxo v) \<Longrightarrow>
    Headers.GetHash (be_header (ce_block E)) (GetBlockHeader block) \<noteq> hashGenesisBlock (be_header (ce_block E)) \<Longrightarrow>
    bt_store (nd_tree N) p = Some b \<Longrightarrow> nHeight b = h + 1 \<Longrightarrow> pprev b = Some q \<Longrightarrow> bt_store (nd_tree N) q = Some prv \<Longrightarrow> nHeight prv = h \<Longrightarrow>
    ConnectBlock E N block p v ac False G = (Inr (N', v', ac'), H) \<Longrightarrow> chain_run K C u (h + 1) v'"
| layer: "chain_run K C u h v \<Longrightarrow> chain_run K C u h (new_view v)"
| flush: "chain_run K C u h v \<Longrightarrow> Flush u full (fst v) (snd v) = Inr v' \<Longrightarrow>
    (\<forall>d. snd v = ViewDB d \<longrightarrow> h \<le> 4998552 \<or> (\<forall>q c. cache_utxo v q = Some c \<longrightarrow> amount_kept (nValue (coin_out c)))) \<Longrightarrow> chain_run K C u h v'"
| drop: "chain_run K C u h (c, ViewCache c1 base) \<Longrightarrow> cacheCoins c = [] \<Longrightarrow> chain_run K C u h (c1, base)"
| read: "chain_run K C u h v \<Longrightarrow> AccessCoin u (fst v) (snd v) q = (coin, v') \<Longrightarrow> chain_run K C u h v'"
| evict: "chain_run K C u h v \<Longrightarrow> chain_run K C u h (Uncache u (fst v) q, snd v)"

section \<open>The sum of all subsidies\<close>

definition subsidy_of_era :: "nat \<Rightarrow> int" where
  "subsidy_of_era k = (if k \<ge> 64 then 0 else drop_bit k (5000 * COIN))"

lemma main_subsidy: "GetBlockSubsidy main_block_params (int i) = subsidy_of_era (i div 3200000)"
proof -
  have "int i sdiv 3200000 = int (i div 3200000)" by (cases "i = 0") (simp_all add: signed_divide_int_def zdiv_int)
  then show ?thesis by (simp add: GetBlockSubsidy_def main_block_params_def subsidy_of_era_def Let_def)
qed

lemma sum_eras: "(\<Sum>i < n * e. f (i div e)) = int e * (\<Sum>k < n. f k)" if "0 < e" for f :: "nat \<Rightarrow> int"
proof (induction n)
  case (Suc n)
  have "(\<Sum>i < Suc n * e. f (i div e)) = (\<Sum>i < n * e. f (i div e)) + (\<Sum>i \<in> {n * e..<n * e + e}. f (i div e))"
    by (simp add: lessThan_atLeast0 add.commute sum.atLeastLessThan_concat)
  also have "(\<Sum>i \<in> {n * e..<n * e + e}. f (i div e)) = (\<Sum>i \<in> {n * e..<n * e + e}. f n)"
    by (intro sum.cong refl arg_cong [of _ _ f] div_nat_eqI) (auto simp: algebra_simps)
  finally show ?case using Suc.IH by (simp add: algebra_simps)
qed simp

lemma sum_era_subsidies: "(\<Sum>k < n. subsidy_of_era k) \<le> 10000 * COIN"
proof -
  have "(\<Sum>k < n. subsidy_of_era k) \<le> (\<Sum>k < max n 64. subsidy_of_era k)"
    by (rule sum_mono2) (auto simp: subsidy_of_era_def COIN_def)
  also have "\<dots> = (\<Sum>k < 64. subsidy_of_era k)" by (rule sum.mono_neutral_right) (auto simp: subsidy_of_era_def)
  also have "\<dots> \<le> 10000 * COIN" by code_simp
  finally show ?thesis .
qed

lemma main_subsidies: "(\<Sum>i \<in> {0..<h}. GetBlockSubsidy main_block_params i) \<le> 32000000000 * COIN"
proof -
  have "(\<Sum>i \<in> {0..<h}. GetBlockSubsidy main_block_params i) = (\<Sum>i < nat h. subsidy_of_era (i div 3200000))"
    by (rule sum.reindex_bij_witness [of _ int nat]) (auto simp: main_subsidy [symmetric])
  also have "\<dots> \<le> (\<Sum>i < nat h * 3200000. subsidy_of_era (i div 3200000))"
    by (rule sum_mono2) (auto simp: subsidy_of_era_def COIN_def)
  also have "\<dots> = int 3200000 * (\<Sum>k < nat h. subsidy_of_era k)" by (rule sum_eras) simp
  also have "\<dots> \<le> 32000000000 * COIN" using sum_era_subsidies [of "nat h"] by (simp add: COIN_def)
  finally show ?thesis .
qed

lemma early_subsidies:
  assumes "h \<le> 4998552"
  shows "(\<Sum>i \<in> {0..<h}. GetBlockSubsidy main_block_params i) \<le> 2049638230412172402"
proof -
  let ?f = "\<lambda>i :: nat. subsidy_of_era (i div 3200000)"
  have "(\<Sum>i \<in> {0..<h}. GetBlockSubsidy main_block_params i) = (\<Sum>i < nat h. ?f i)"
    by (rule sum.reindex_bij_witness [of _ int nat]) (auto simp: main_subsidy [symmetric])
  also have "\<dots> \<le> (\<Sum>i \<in> {0..<4998552}. ?f i)" by (rule sum_mono2) (use assms in \<open>auto simp: subsidy_of_era_def COIN_def\<close>)
  also have "\<dots> = (\<Sum>i \<in> {0..<3200000}. ?f i) + (\<Sum>i \<in> {3200000..<4998552}. ?f i)" by (rule sum.atLeastLessThan_concat [symmetric]) simp_all
  also have "(\<Sum>i \<in> {0..<3200000}. ?f i) = (\<Sum>i \<in> {0..<3200000 :: nat}. 500000000000)" by (rule sum.cong) (auto simp: subsidy_of_era_def COIN_def)
  also have "(\<Sum>i \<in> {3200000..<4998552}. ?f i) = (\<Sum>i \<in> {3200000..<4998552 :: nat}. 250000000000)"
  proof (rule sum.cong)
    fix i :: nat assume "i \<in> {3200000..<4998552}"
    then have "i div 3200000 = 1" by (intro div_nat_eqI) auto
    then show "?f i = 250000000000" by (simp add: subsidy_of_era_def COIN_def drop_bit_eq_div)
  qed simp
  finally show ?thesis by simp
qed

lemma chain_run_total:
  assumes "chain_run main_block_params C u h v" "h < INT_MAX"
  shows "0 \<le> h \<and> stands u v (cache_utxo v) \<and> finite (dom (cache_utxo v)) \<and> nonneg (cache_utxo v) \<and>
    total_value (cache_utxo v) \<le> (\<Sum>i \<in> {0..<h}. GetBlockSubsidy main_block_params i)"
  using assms
proof (induction rule: chain_run.induct)
  case (start best ec)
  have "cache_utxo (\<lparr>hashBlock = best, cacheCoins = [], cachedCoinsUsage = 0\<rparr>, ViewDB \<lparr>db_ec = ec, db_coins = \<lambda>_. None, db_best = None, db_heads = None\<rparr>) =
      (\<lambda>_. None)" by (simp add: fun_eq_iff db_coin_def utxo.simps)
  with start show ?case by (simp add: total_value_def nonneg_def stands_def cache_inv_def map_usage_def db_coin_def view_inv.simps)
next
  case (block h v E blk N p b q prv ac G N' v' ac' H)
  then have IH: "0 \<le> h" "stands u v (cache_utxo v)" "finite (dom (cache_utxo v))" "nonneg (cache_utxo v)"
    "total_value (cache_utxo v) \<le> (\<Sum>i \<in> {0..<h}. GetBlockSubsidy main_block_params i)" by auto
  have "nHeight b < nBudgetPaymentsStartBlock (ce_params E)" using block by (simp add: main_block_params_def)
  then have "finite (dom (cache_utxo v')) \<and> nonneg (cache_utxo v') \<and> total_value (cache_utxo v') \<le> total_value (cache_utxo v) + GetBlockSubsidy main_block_params h"
    using ConnectBlock_total [of E N blk p v ac G N' v' ac' H "cache_utxo v" b q prv] block IH by simp
  moreover have "stands u v' (cache_utxo v')"
    using ConnectBlock_stands [of E N blk p v ac G N' v' ac' H "cache_utxo v"] block IH(2) by simp
  moreover have "{0..<h + 1} = insert h {0..<h}" using IH(1) by auto
  ultimately show ?case using IH(1,5) by simp
next
  case (layer h v)
  then have "stands u (new_view v) (cache_utxo v)" by (intro new_view_stands) simp
  then show ?case using layer by (simp add: stands_def)
next
  case (flush h v full v')
  then have IH: "0 \<le> h" "stands u v (cache_utxo v)" "finite (dom (cache_utxo v))" "nonneg (cache_utxo v)"
    "total_value (cache_utxo v) \<le> (\<Sum>i \<in> {0..<h}. GetBlockSubsidy main_block_params i)" by auto
  have "amount_kept (nValue (coin_out c))" if "cache_utxo v q = Some c" "h \<le> 4998552" for q c
    using value_le_total [OF IH(3,4) that(1)] IH(4,5) early_subsidies [OF that(2)] that(1)
    by (simp add: amount_kept_def nonneg_def MoneyRange_def MAX_MONEY_def COIN_def)
  with flush(3) have "\<forall>d. snd v = ViewDB d \<longrightarrow> (\<forall>q c. cache_utxo v q = Some c \<longrightarrow> amount_kept (nValue (coin_out c)))" by blast
  note f = Flush_values [OF IH(2) flush(2) this]
  with total_le [OF IH(3,4), of "cache_utxo v'"] IH(1,5) show ?case by simp
next
  case (drop h c c1 base)
  then have "cache_utxo (c, ViewCache c1 base) = cache_utxo (c1, base)" by (simp add: fun_eq_iff utxo.simps)
  with drop show ?case by (simp add: stands_def view_inv.simps)
next
  case (read h v q coin v')
  then have "stands u v' (cache_utxo v)" using stands_AccessCoin [of u v "cache_utxo v" q coin v'] by auto
  then show ?case using read by (simp add: stands_def)
next
  case (evict h v q)
  then have "stands u (Uncache u (fst v) q, snd v) (cache_utxo v)"
    using Uncache_correct [of u "fst v" "snd v" q] by (simp add: stands_def)
  then show ?case using evict by (simp add: stands_def)
qed

text \<open>
  C3. The supply is bounded as documented. Take any history of the view of a main network node that starts on an empty database: blocks that
  \<^verbatim>\<open>ConnectBlock\<close> accepts at successive heights, caches stacked, flushed and dropped, coins read and evicted, and flushes that
  write the coins to disk in the compressed format. The unspent outputs of the view are worth no more than the sum of the subsidies of
  the heights, and so never more than 32,000,000,000 coins: no transaction, fee or coinbase creates a coin beyond them. The
  format of the database can change large amounts (C39). Up to height 4,998,552 there are not enough coins for that. A flush to
  disk above that height is part of the history only if the format keeps every amount of the view. Transaction hashes are new, blocks that are marked as checked are well
  formed, and heights stay below the 32-bit maximum that turns off the budget rules.
\<close>

theorem supply_bounded:
  assumes "chain_run main_block_params C u h v" and "h < INT_MAX"
  shows "total_value (cache_utxo v) \<le> (\<Sum>i \<in> {0..<h}. GetBlockSubsidy main_block_params i) \<and>
    (\<Sum>i \<in> {0..<h}. GetBlockSubsidy main_block_params i) \<le> 32000000000 * COIN"
  using chain_run_total [OF assms] main_subsidies [of h] by simp

text \<open>An empty cache is flushed, and a block is connected on it.\<close>

theorem supply_bounded_witness:
  "\<exists>v. chain_run main_block_params ex_hashes (\<lambda>_. 0) 1 v \<and> total_value (cache_utxo v) \<le> 5000 * COIN"
proof -
  let ?d = "\<lparr>db_ec = ex_keys, db_coins = \<lambda>_. None, db_best = None, db_heads = None\<rparr>"
  let ?c = "\<lparr>hashBlock = 1, cacheCoins = [], cachedCoinsUsage = 0\<rparr>"
  let ?v = "(?c, ViewDB (?d\<lparr>db_best := Some 1\<rparr>))"
  have f: "Flush (\<lambda>_. 0) (\<lambda>_. False) ?c (ViewDB ?d) = Inr ?v"
    by (simp add: Flush_def db_BatchWrite_def db_old_tip_def db_GetBestBlock_def db_GetHeadBlocks_def WriteBatch_def)
  have "chain_run main_block_params ex_hashes (\<lambda>_. 0) 0 (?c, ViewDB ?d)" by (rule chain_run.start) simp
  then have run: "chain_run main_block_params ex_hashes (\<lambda>_. 0) 0 ?v" by (rule chain_run.flush [where full = "\<lambda>_. False"]) (use f in simp_all)
  have m: "cache_utxo ?v = Map.empty" by (simp add: fun_eq_iff db_coin_def utxo.simps)
  have "stands (\<lambda>_. 0) ?v Map.empty" using chain_run_total [OF run] unfolding m by (simp add: INT_MAX_def)
  moreover have "best_of ?v = 1" by (simp add: best_of_def)
  ultimately obtain N' v' ac' H where c: "ConnectBlock ex_connect (ex_node 1) (ex_block_of [ex_reward]) 1 ?v ClearDirtyCache False ex_globals = (Inr (N', v', ac'), H)"
    using ex_connected_reward by blast
  have "chain_run main_block_params ex_hashes (\<lambda>_. 0) (0 + 1) v'"
    by (rule chain_run.block [where E = ex_connect and N = "ex_node 1" and b = "ex_index 1" and q = 0 and block = "ex_block_of [ex_reward]"
          and prv = "the (bt_store (nd_tree (ex_node 1)) 0)" and p = 1, OF run _ _ _ _ _ _ _ _ _ _ _ c])
      (use ex_wf(2) ex_fresh(2) m ex_env_simps(12) [of 1] in \<open>simp_all add: ex_env_simps ex_block_header ex_status del: One_nat_def\<close>)
  moreover have "{0..<1 :: int} = {0}" by auto
  ultimately show ?thesis using supply_bounded [of ex_hashes "\<lambda>_. 0" 1 v'] GetBlockSubsidy_range [of main_block_params 0]
    by (intro exI [of _ v']) (simp add: INT_MAX_def)
qed

end
