(* ===== verification/BlockRules.thy ===== *)
theory BlockRules
  imports Supply
begin

text \<open>
  What it takes for a block to be connected: the rules that every transaction of it satisfies against the outputs that are unspent
  at its place in the block, its scripts included, and the limit on its coinbase.
\<close>

section \<open>Scripts\<close>

text \<open>
  The scripts of a transaction have been run: each input's script and witness satisfy the script of the output it spends, or the
  node has run them before with the same rules.
\<close>

definition tx_authorised :: "connect_env \<Rightarrow> CBlockIndex \<Rightarrow> bytes list \<Rightarrow> utxo_map \<Rightarrow> CTransaction \<Rightarrow> bool" where
  "tx_authorised E b cache m tx \<longleftrightarrow>
     (let flags = GetBlockScriptFlags (ce_params E) b in
      IsCoinBase tx \<or> list_all (passes (ce_Verify E) (ce_crypto E)) (input_checks m flags tx 0 (vin tx)) \<or>
      script_cache_entry (ce_crypto E) (ce_nonce E) tx flags \<in> set cache)"

fun block_authorised :: "connect_env \<Rightarrow> CBlockIndex \<Rightarrow> bytes list \<Rightarrow> CTransaction list \<Rightarrow> utxo_map \<Rightarrow> bool" where
  "block_authorised E b cache [] m \<longleftrightarrow> True"
| "block_authorised E b cache (tx # txs) m \<longleftrightarrow> tx_authorised E b cache m tx \<and>
     block_authorised E b cache txs (tx_effect (ce_crypto E) (nat (nHeight b)) tx m)"

lemma CheckInputs_cache: "CheckInputs V C nonce u threads tx v fsc flags False cache = Inr (chk, v', cache') \<Longrightarrow> cache' = cache"
  by (auto simp: CheckInputs_def Let_def sbind_Inr_iff split: if_splits)

lemma connect_tx_scripts:
  assumes "stands (ce_usage E) (cs_view s) m" "connect_tx E st p b block True False i tx s G = (Inr s', H)" "MoneyRange (cs_nFees s)"
  shows "cs_script_cache s' = cs_script_cache s \<and> (\<exists>chk. cs_checks s' = cs_checks s @ chk \<and>
    (list_all (passes (ce_Verify E) (ce_crypto E)) chk \<longrightarrow> tx_authorised E b (cs_script_cache s) m tx))"
proof -
  let ?u = "ce_usage E" and ?C = "ce_crypto E" and ?flags = "GetBlockScriptFlags (ce_params E) b"
  from assms(2) obtain s1 G1 cost v2 chk v3 cache v4 ac vprevout where
    1: "(if IsCoinBase tx then gret s else connect_inputs E st p b block tx s) G = (Inr s1, G1)"
      "GetTransactionSigOpCost ?u (fst (cs_view s1)) (snd (cs_view s1)) tx ?flags = Inr (cost, v2)"
      "CheckInputs (ce_Verify E) ?C (ce_nonce E) ?u (ce_threads E) tx v2 True ?flags False (cs_script_cache s1) = Inr (chk, v3, cache)"
      "s' = s1\<lparr>cs_view := v4, cs_assets := ac, cs_nSigOpsCost := cs_nSigOpsCost s1 + cost,
        cs_vtxundo := (if i > 0 then cs_vtxundo s1 @ [vprevout] else cs_vtxundo s1), cs_checks := cs_checks s1 @ chk, cs_script_cache := cache\<rparr>"
    by (simp add: connect_tx_def gbind_def gpure_def gret_def block_tx_def block_if_def Let_def case_prod_unfold
        split: sum.splits if_splits) (metis surjective_pairing)+
  have 2: "stands ?u (cs_view s1) m \<and> cs_checks s1 = cs_checks s \<and> cs_script_cache s1 = cs_script_cache s"
  proof (cases "IsCoinBase tx")
    case True
    then show ?thesis using 1(1) assms(1) by (auto simp: gret_def)
  next
    case False
    then have c: "connect_inputs E st p b block tx s G = (Inr s1, G1)" using 1(1) by simp
    from connect_inputs_effect [OF assms(1) c False assms(3)]
    have e: "stands ?u (cs_view s1) m" "s1 = s\<lparr>cs_view := cs_view s1, cs_nFees := cs_nFees s1\<rparr>" by blast+
    from arg_cong [OF e(2), of cs_checks] arg_cong [OF e(2), of cs_script_cache] e(1) show ?thesis by simp
  qed
  have "stands ?u v2 m" using 2 1(2) stands_SigOpCost by metis
  from CheckInputs_checks [OF this 1(3)] 1(4) 2 CheckInputs_cache [OF 1(3)] show ?thesis by (auto simp: tx_authorised_def Let_def)
qed

lemma connect_txs_scripts:
  assumes "stands (ce_usage E) (cs_view s) m" "connect_txs E st p b block True False i txs s G = (Inr s', H)" "MoneyRange (cs_nFees s)"
    and "fresh (ce_crypto E) txs m" "list_all tx_shape txs"
  shows "cs_script_cache s' = cs_script_cache s \<and> (\<exists>chk. cs_checks s' = cs_checks s @ chk \<and>
    (list_all (passes (ce_Verify E) (ce_crypto E)) chk \<longrightarrow> block_authorised E b (cs_script_cache s) txs m))"
  using assms
proof (induction txs arbitrary: s m i G)
  case Nil
  then show ?case by (simp add: gret_def)
next
  case (Cons tx txs)
  from Cons.prems(2) obtain s1 G1 where 1: "connect_tx E st p b block True False i tx s G = (Inr s1, G1)"
    and 2: "connect_txs E st p b block True False (Suc i) txs s1 G1 = (Inr s', H)" by (auto simp: gcheck_iff)
  from Cons.prems(4) have f: "fresh (ce_crypto E) [tx] m" by (subst (asm) fresh_Cons) simp
  from Cons.prems(5) have sh: "tx_shape tx" "list_all tx_shape txs" by auto
  from connect_tx_effect [OF Cons.prems(1) 1 Cons.prems(3) f sh(1)]
  have "stands (ce_usage E) (cs_view s1) (tx_effect (ce_crypto E) (nat (nHeight b)) tx m)" "MoneyRange (cs_nFees s1)" by auto
  from Cons.IH [OF this(1) 2 this(2) fresh_step [OF Cons.prems(4)] sh(2)] connect_tx_scripts [OF Cons.prems(1) 1 Cons.prems(3)]
  show ?case by auto
qed

section \<open>The rules of a connected block\<close>

lemma ConnectBlock_scripts:
  assumes "ConnectBlock E N block p v ac False G = (Inr (N', v', ac'), H)" "stands (ce_usage E) v m"
    and "fChecked block \<longrightarrow> block_wf (vtx block)" "fresh (ce_crypto E) (vtx block) m"
    and "Headers.GetHash (be_header (ce_block E)) (GetBlockHeader block) \<noteq> hashGenesisBlock (be_header (ce_block E))"
    and "bt_store (nd_tree N) p = Some b" "script_checks E (nd_tree N) p b = Some True"
  shows "block_authorised E b (nd_script_cache N) (vtx block) m"
proof -
  from assms(1) obtain b1 hash hashPrev block1 v1 where
    e: "connect_entry E N block p v False = Inr (b1, hash, hashPrev, block1, v1)"
    by (auto simp: ConnectBlock_def gcheck_iff gpure_def)
  note a = connect_entry_accepts [OF e assms(2,3)]
  have b: "b1 = b" using a(1) assms(6) by simp
  from assms(1) e a(2) assms(5) obtain s G1 where "connect_block_txs E N block1 p b hash v1 ac False G = (Inr s, G1)"
    by (auto simp: b ConnectBlock_def gcheck_iff gpure_def gret_def Let_def block_some_def split: option.splits)
  with assms(7) obtain G2 where
    t: "connect_txs E (bt_store (nd_tree N)) p b block1 True False 0 (vtx block1)
        \<lparr>cs_view = v1, cs_assets = ac, cs_nFees = 0, cs_nSigOpsCost = 0, cs_vtxundo = [], cs_checks = [],
         cs_script_cache = nd_script_cache N\<rparr> G = (Inr s, G2)"
      "run_queue (ce_Verify E) (ce_crypto E) (cs_checks s) = Inr ()"
    by (auto simp: connect_block_txs_def gcheck_iff gpure_def gret_def Let_def block_some_def split: option.splits)
  from a(4) have "list_all tx_shape (vtx block1)" using a(5) by (simp add: block_wf_def list_all_iff)
  from connect_txs_scripts [OF _ t(1) _ _ this, of m] a(5,7) assms(4) t(2) show ?thesis
    by (auto simp: MoneyRange_def MAX_MONEY_def COIN_def run_queue_passes)
qed

text \<open>
  C1. What a connected block satisfies. Take a block that \<^verbatim>\<open>ConnectBlock\<close> accepts on a view that stands for the unspent outputs \<open>m\<close>,
  that is not the genesis block, whose transactions have hashes that are fresh for \<open>m\<close> and for each other, and that is well formed if it
  is already marked as checked. Then it begins with its only coinbase. Every other transaction, against the outputs that are unspent after
  the transactions before it, spends only unspent outputs, no coinbase before its maturity, at most what its inputs are worth, within the
  range of amounts, and not before its relative lock times. If scripts are checked for the block (\<^const>\<open>script_checks\<close>: unless it is an ancestor of both
  the block given by \<^verbatim>\<open>-assumevalid\<close> and the best header, whose chain has the minimum work, under more than two weeks of work), each input's script and
  witness satisfy the script of the output it spends, or the cache of the node records that it has run them before under the same
  flags. Below the height at which budget payments start, the coinbase pays no more than the fees and the subsidy. The new view stands for
  the result of the transactions in turn.
\<close>

theorem connected_block_rules:
  assumes "ConnectBlock E N block p v ac False G = (Inr (N', v', ac'), H)" and "stands (ce_usage E) v m"
    and "fChecked block \<longrightarrow> block_wf (vtx block)" and "fresh (ce_crypto E) (vtx block) m"
    and "Headers.GetHash (be_header (ce_block E)) (GetBlockHeader block) \<noteq> hashGenesisBlock (be_header (ce_block E))"
    and "bt_store (nd_tree N) p = Some b"
  shows "block_wf (vtx block) \<and> block_valid E (bt_store (nd_tree N)) p b (vtx block) m \<and>
    (script_checks E (nd_tree N) p b = Some True \<longrightarrow> block_authorised E b (nd_script_cache N) (vtx block) m) \<and>
    (nHeight b < nBudgetPaymentsStartBlock (ce_params E) \<longrightarrow> (\<exists>q prv. pprev b = Some q \<and> bt_store (nd_tree N) q = Some prv \<and>
      value_out (hd (vtx block)) \<le> block_fees (ce_crypto E) (nat (nHeight b)) (vtx block) m + GetBlockSubsidy (ce_params E) (nHeight prv))) \<and>
    stands (ce_usage E) v' (block_effect (ce_crypto E) (nat (nHeight b)) (vtx block) m)"
proof -
  from assms(1-5) obtain b1 q prv where
    "bt_store (nd_tree N) p = Some b1" "pprev b1 = Some q" "bt_store (nd_tree N) q = Some prv" "block_wf (vtx block)"
    "block_valid E (bt_store (nd_tree N)) p b1 (vtx block) m"
    "stands (ce_usage E) v' (block_effect (ce_crypto E) (nat (nHeight b1)) (vtx block) m)"
    "check_reward E b1 prv (hd (vtx block)) (block_fees (ce_crypto E) (nat (nHeight b1)) (vtx block) m) = Inr ()"
    "MoneyRange (block_fees (ce_crypto E) (nat (nHeight b1)) (vtx block) m)"
    by (rule ConnectBlock_effect)
  with assms(6) check_reward_limit [of E b prv "hd (vtx block)"] ConnectBlock_scripts [OF assms] show ?thesis by auto
qed

theorem connected_block_rules_witness:
  "\<exists>N' v' ac' H. ConnectBlock ex_connect (ex_node 20) (ex_block_of [ex_reward, ex_spending]) 1 (ex_db_view ex_outputs) ClearDirtyCache False
      ex_globals = (Inr (N', v', ac'), H) \<and> block_authorised ex_connect (ex_index 20) [] [ex_reward, ex_spending] ex_outputs \<and>
     value_out ex_reward \<le> block_fees ex_hashes 20 [ex_reward, ex_spending] ex_outputs + GetBlockSubsidy main_block_params 19"
proof -
  from ex_connected_spend [OF ex_outputs_stand ex_best] obtain N' v' ac' H where
    c: "ConnectBlock ex_connect (ex_node 20) (ex_block_of [ex_reward, ex_spending]) 1 (ex_db_view ex_outputs) ClearDirtyCache False ex_globals
      = (Inr (N', v', ac'), H)" by blast
  have "script_checks ex_connect (nd_tree (ex_node 20)) 1 (ex_index 20) = Some True" "nd_script_cache (ex_node 20) = []"
    "nBudgetPaymentsStartBlock main_block_params = INT_MAX" by (simp_all add: script_checks_def ex_connect_def ex_node_def main_block_params_def)
  with connected_block_rules [OF c, of ex_outputs "ex_index 20"] c ex_outputs_stand ex_wf(1) ex_fresh(1) show ?thesis
    by (auto simp: ex_env_simps ex_block_header ex_status INT_MAX_def dest!: ex_parent simp del: One_nat_def block_authorised.simps block_fees.simps)
qed

end
