(* ===== verification/TipAssets.thy ===== *)
theory TipAssets
  imports ConnectExample
begin

text \<open>
  The tip of the active chain: what \<^verbatim>\<open>DisconnectTip\<close> does to the asset data of the node.
\<close>

section \<open>Undoing and the asset data\<close>

text \<open>All that undoing a block may change of the node's asset data is the cache of recently used assets.\<close>

definition same_assets :: "assets_globals \<Rightarrow> assets_globals \<Rightarrow> bool" where
  "same_assets G H \<longleftrightarrow> (\<exists>lru. H = G\<lparr>passetsCache := lru\<rparr>)"

lemma same_assets_refl: "same_assets G G"
  unfolding same_assets_def by (intro exI [of _ "passetsCache G"]) simp

lemma same_assets_update: "same_assets G H \<Longrightarrow> same_assets G (H\<lparr>passetsCache := lru\<rparr>)"
  unfolding same_assets_def by auto

lemma same_assets_ask:
  assumes "same_assets G H"
  shows "same_assets G (snd (CheckIfAssetExists c H n b))" "same_assets G (snd (GetAssetMetaDataIfExists c H n))"
  using assms by (auto simp: CheckIfAssetExists_def GetAssetMetaDataIfExists_def same_assets_update split: option.splits prod.splits)

lemma same_assets_remove:
  assumes "same_assets G H"
  shows "same_assets G (snd (RemoveNewAsset H c asset a))" "same_assets G (snd (RemoveReissueAsset H c reissue a out d))"
proof -
  obtain ok H1 where 1: "CheckIfAssetExists c H (na_strName asset) True = (ok, H1)" by (rule prod.exhaust)
  show "same_assets G (snd (RemoveNewAsset H c asset a))"
    using same_assets_ask(1) [OF assms, of c "na_strName asset" True] 1 by (cases ok) (simp_all add: RemoveNewAsset_def Let_def)
  obtain r H2 where 2: "GetAssetMetaDataIfExists c H (re_strName reissue) = (r, H2)" by (rule prod.exhaust)
  show "same_assets G (snd (RemoveReissueAsset H c reissue a out d))"
    using same_assets_ask(2) [OF assms, of c "re_strName reissue"] 2
    by (cases r) (simp_all add: RemoveReissueAsset_def Let_def split: prod.split)
qed

lemma keeps_gread: "keeps Q (gread f)"
  by (simp add: keeps_def gread_def)

lemma keeps_or_failed: "keeps Q (or_failed x)"
  by (simp add: or_failed_def keeps_simple)

lemma keeps_if: "keeps Q m \<Longrightarrow> keeps Q n \<Longrightarrow> keeps Q (if b then m else n)" by simp

lemma keeps_prod: "(\<And>a b. keeps Q (f a b)) \<Longrightarrow> keeps Q (case x of (a, b) \<Rightarrow> f a b)" by (cases x) simp

lemmas keeps_undo = keeps_gbind keeps_simple keeps_gread keeps_or_failed keeps_if keeps_prod keeps_gask same_assets_ask same_assets_remove

lemma keeps_remove_issue: "keeps (same_assets G) (remove_issue c issue)"
  unfolding remove_issue_def by (intro keeps_undo)

lemma keeps_remove_unique_issues: "keeps (same_assets G) (remove_unique_issues C P c outs)"
  by (induction outs arbitrary: c) (auto intro!: keeps_undo keeps_remove_issue)

lemma keeps_remove_transfers: "keeps (same_assets G) (remove_transfers C P c tx txid is)"
  by (induction "is" arbitrary: c) (auto intro!: keeps_undo)

lemma keeps_remove_commands: "keeps (same_assets G) (remove_commands C P c tx is)"
  by (induction "is" arbitrary: c) (auto simp: remove_command_def Let_def intro!: keeps_undo)

lemma keeps_undo_assets: "keeps (same_assets G) (undo_assets C P c tx txid d s)"
  unfolding undo_assets_def remove_issue_and_owner_def remove_reissue_def remove_restricted_issue_def
  by (intro keeps_undo keeps_remove_issue keeps_remove_unique_issues keeps_remove_transfers keeps_remove_commands)

lemma keeps_ApplyTxInUndo: "keeps (same_assets G) (ApplyTxInUndo C P u coin v out ac)"
  unfolding ApplyTxInUndo_def by (auto intro!: keeps_undo split: prod.split option.split sum.split)

lemma keeps_restore_inputs: "keeps (same_assets G) (restore_inputs C P u ps v ac f)"
  by (induction ps arbitrary: v ac f) (auto intro!: keeps_undo keeps_ApplyTxInUndo)

lemma keeps_disconnect_txs: "keeps (same_assets G) (disconnect_txs C P u h d ps s)"
  by (induction ps arbitrary: s)
    (auto simp: disconnect_tx_def Let_def intro!: keeps_undo keeps_undo_assets keeps_restore_inputs split: option.split)

lemma keeps_DisconnectBlock: "keeps (same_assets G) (DisconnectBlock E N block p v ac)"
  unfolding DisconnectBlock_def Let_def by (intro keeps_undo keeps_disconnect_txs)

lemma keeps_DisconnectTip: "keeps (same_assets G) (DisconnectTip E N block)"
proof -
  have "keeps (same_assets G) (gerror f m)" if "keeps (same_assets G) m" for f :: "'d \<Rightarrow> 'e" and m :: "('d, 'x) gcheck"
    using that by (auto simp: keeps_def gerror_def split_beta split: sum.splits)
  then show ?thesis unfolding DisconnectTip_def Let_def tip_some_def flush_view_def
    by (auto intro!: keeps_undo keeps_DisconnectBlock split: prod.split coins_view.split)
qed

section \<open>Views on another cache\<close>

definition layered :: "view \<Rightarrow> bool" where
  "layered v \<longleftrightarrow> (\<exists>c base. snd v = ViewCache c base)"

lemma FetchCoin_layered: "layered (snd (FetchCoin u c base p)) \<longleftrightarrow> layered (c, base)"
proof -
  obtain r base' where g: "GetCoin u base p = (r, base')" by (rule prod.exhaust)
  have "(\<exists>c1 b1. base' = ViewCache c1 b1) \<longleftrightarrow> (\<exists>c1 b1. base = ViewCache c1 b1)"
    using g by (cases base) (auto split: prod.splits option.splits)
  then show ?thesis using g by (auto simp: FetchCoin_def FetchCoin_from_def layered_def Let_def split: option.splits)
qed

lemma layered_queries:
  "layered (snd (HaveCoin u c base p)) \<longleftrightarrow> layered (c, base)" "layered (snd (AccessCoin u c base p)) \<longleftrightarrow> layered (c, base)"
  "layered (snd (snd (SpendCoin u c base p t))) \<longleftrightarrow> layered (c, base)"
  using FetchCoin_layered [of u c base p]
  by (auto simp: HaveCoin_def AccessCoin_def SpendCoin_def layered_def Let_def split: prod.splits option.splits)

lemma layered_spend_coin:
  assumes "spend_coin C P u v ac p G = (ok, coin, v', ac')"
  shows "layered v' \<longleftrightarrow> layered v"
proof -
  let ?attempt = "\<lambda>coin. if AreAssetsDeployed then Some (fst (TrySpendCoin C P G ac (coin_out coin))) else None"
  obtain a b c base where s: "SpendCoin u (fst v) (snd v) p ?attempt = (a, b, c, base)" by (rule prod_cases4)
  with assms have "v' = (c, base)" by (auto simp: spend_coin_def split: option.splits)
  with layered_queries(3) [of u "fst v" "snd v" p ?attempt] s show ?thesis by simp
qed

lemma layered_undo_outputs: "layered (ou_view (undo_outputs C P u txid cb h i outs s G)) \<longleftrightarrow> layered (ou_view s)"
proof (induction outs arbitrary: i s)
  case (Cons out outs)
  have "layered (ou_view (undo_output C P u txid cb h i out s G)) \<longleftrightarrow> layered (ou_view s)"
    by (auto simp: undo_output_def Let_def split: prod.splits dest!: layered_spend_coin)
  with Cons.IH show ?case by simp
qed simp

lemma layered_access_by_txid: "layered (snd (access_by_txid u v txid n k)) \<longleftrightarrow> layered v"
proof (induction k arbitrary: v n)
  case (Suc k)
  let ?q = "AccessCoin u (fst v) (snd v) \<lparr>COutPoint.op_hash = txid, op_n = of_nat n\<rparr>"
  have "layered (snd ?q) \<longleftrightarrow> layered v" using layered_queries(2) [of u "fst v" "snd v"] by simp
  with Suc.IH [of "snd ?q" "Suc n"] show ?case by (cases ?q) (simp del: of_nat_Suc)
qed simp

lemma layered_ApplyTxInUndo:
  assumes "ApplyTxInUndo C P u coin v out ac G = (Inr (ok, v', ac'), H)"
  shows "layered v' \<longleftrightarrow> layered v"
proof -
  obtain hv v1 where h: "HaveCoin u (fst v) (snd v) out = (hv, v1)" by (rule prod.exhaust)
  obtain alt v2 where a: "AccessByTxid u v1 (COutPoint.op_hash out) = (alt, v2)" by (rule prod.exhaust)
  have "layered v1 \<longleftrightarrow> layered v" using layered_queries(1) [of u "fst v" "snd v" out] h by simp
  moreover have "layered v2 \<longleftrightarrow> layered v1"
    using layered_access_by_txid [of u v1 "COutPoint.op_hash out" 0 "GetMaxBlockWeight div (WITNESS_SCALE_FACTOR * 9)"] a by (simp add: AccessByTxid_def)
  moreover have "snd v' = snd v1 \<or> snd v' = snd v2"
    using assms h a by (auto simp: ApplyTxInUndo_def gfail_def gread_def split: if_splits sum.splits option.splits)
  ultimately show ?thesis unfolding layered_def by metis
qed

lemma layered_restore_inputs: "restore_inputs C P u ps v ac f G = (Inr (ok, v', ac'), H) \<Longrightarrow> layered v' \<longleftrightarrow> layered v"
proof (induction ps arbitrary: v ac f G)
  case (Cons q ps)
  obtain i c where q: "q = (i, c)" by (cases q)
  with Cons.prems obtain ok1 v1 ac1 G1 where "ApplyTxInUndo C P u c v (prevout i) ac G = (Inr (ok1, v1, ac1), G1)"
    "restore_inputs C P u ps v1 ac1 (f \<and> ok1) G1 = (Inr (ok, v', ac'), H)" by (auto simp: gcheck_iff)
  with Cons.IH layered_ApplyTxInUndo show ?case by blast
qed (simp add: gret_def)

lemma layered_disconnect_txs:
  "disconnect_txs C P u h d ps (f, v, ac, tc) G = (Inr (f', v', ac', tc'), H) \<Longrightarrow> layered v' \<longleftrightarrow> layered v"
proof (induction ps arbitrary: f v ac tc G)
  case (Cons q ps)
  obtain tx txundo where q: "q = (tx, txundo)" by (cases q)
  with Cons.prems obtain f1 v1 ac1 tc1 G1 where 1: "disconnect_tx C P u h d tx txundo (f, v, ac, tc) G = (Inr (f1, v1, ac1, tc1), G1)"
    "disconnect_txs C P u h d ps (f1, v1, ac1, tc1) G1 = (Inr (f', v', ac', tc'), H)" by (auto simp: gcheck_iff)
  let ?s = "undo_outputs C P u (tx_hash C tx) (IsCoinBase tx) h 0 (vout tx)
    \<lparr>ou_view = v, ou_tempCache = tc, ou_fClean = f, ou_vAssetTxIndex = [], ou_vNullAssetTxIndex = [], ou_verifier = None\<rparr> G"
  have "layered (ou_view ?s) \<longleftrightarrow> layered v" by (simp add: layered_undo_outputs)
  moreover have "layered v1 \<longleftrightarrow> layered (ou_view ?s)"
    using 1(1) by (auto simp: disconnect_tx_def Let_def gcheck_iff gbind_gread gret_def gfail_def split: option.splits if_splits
        dest: layered_restore_inputs)
  ultimately show ?case using Cons.IH [OF 1(2)] by simp
qed (simp add: gret_def)

lemma layered_DisconnectBlock:
  "DisconnectBlock E N block p v ac G = (Inr (ok, v', ac'), H) \<Longrightarrow> layered v' \<longleftrightarrow> layered v"
  by (auto simp: DisconnectBlock_def Let_def gcheck_iff gret_def dest!: layered_disconnect_txs) (auto simp: layered_def)

lemma flush_view_total:
  assumes "stands (ce_usage E) v m" "layered v"
  shows "\<exists>coins. flush_view E v G = (Inr coins, G) \<and> stands (ce_usage E) coins m"
proof -
  obtain c base where b: "snd v = ViewCache c base" using assms(2) by (auto simp: layered_def)
  with Flush_correct [of "ce_usage E" "fst v" "snd v" "ce_full E"] assms(1) obtain c' base' where
    f: "Flush (ce_usage E) (ce_full E) (fst v) (snd v) = Inr (c', base')" "view_inv (ce_usage E) base'" "utxo base' = m" "ce_usage E [] = 0"
    by (auto simp: stands_def view_inv.simps)
  moreover obtain c1 b1 where "base' = ViewCache c1 b1" using f(1) by (auto simp: b Flush_def sbind_Inr_iff)
  ultimately show ?thesis by (auto simp: flush_view_def gpure_def stands_def)
qed

section \<open>Issued assets and reorganisations\<close>

text \<open>
  C40. Disconnecting a block does not undo its effect on the assets. \<^verbatim>\<open>DisconnectTip\<close> works on an asset cache of its own and drops it: it
  does not flush it into the node's asset data, as \<^verbatim>\<open>ConnectTip\<close> does. So after a successful disconnection the assets, the
  asset database and the database of restrictions are what they were with the block connected, and an asset that the block issued
  is still there: a block of another branch that issues it is refused because its name is already used.
\<close>

theorem issued_asset_survives_disconnect:
  assumes "DisconnectTip E N block G = (Inr N', H)" and "map_of (setNewAssetsToAdd (passets G)) (na_strName asset) \<noteq> None"
    and "map_of (setNewAssetsToRemove (passets G)) (na_strName asset) = None"
  shows "passets H = passets G \<and> passetsdb H = passetsdb G \<and> prestricteddb H = prestricteddb G \<and>
    isl (fst (ContextualCheckNewAsset ClearDirtyCache asset fCheckMempool mempool H))"
proof -
  from keepsD [OF keeps_DisconnectTip same_assets_refl assms(1)] obtain lru where H: "H = G\<lparr>passetsCache := lru\<rparr>" by (auto simp: same_assets_def)
  have "fst (CheckIfAssetExists ClearDirtyCache H (na_strName asset) True)"
    using assms(2,3) by (auto simp: CheckIfAssetExists_def H ClearDirtyCache_def)
  then show ?thesis unfolding ContextualCheckNewAsset_def
    by (auto simp: H gbind_def gpure_def gask_def gfail_if_def gfail_def split: sum.splits prod.splits)
qed

definition ex_issued :: CNewAsset where
  "ex_issued = ex_new_asset\<lparr>na_strName := ''CROW''\<rparr>"

definition ex_issued_globals :: assets_globals where
  "ex_issued_globals = ex_globals\<lparr>passets := ClearDirtyCache\<lparr>setNewAssetsToAdd :=
     [(''CROW'', \<lparr>ca_asset = ex_issued, ca_address = ''B1'', ca_blockHeight = 20, ca_blockHash = 2\<rparr>)]\<rparr>\<rparr>"

lemma connected_node:
  assumes "ConnectBlock E N block p v ac False G = (Inr (N', v', ac'), H)" "stands (ce_usage E) v m"
    and "fChecked block \<longrightarrow> block_wf (vtx block)" "fresh (ce_crypto E) (vtx block) m"
    and "Headers.GetHash (be_header (ce_block E)) (GetBlockHeader block) \<noteq> hashGenesisBlock (be_header (ce_block E))"
    and "bt_store (nd_tree N) p = Some b" "nStatus b AND 16 = 0"
  shows "phashBlock b = Some (hashBlock (fst v'))" "\<exists>s. bt_store (nd_tree N') = (bt_store (nd_tree N))(p \<mapsto> b\<lparr>nStatus := s\<rparr>)"
proof -
  from assms(1-5) obtain b1 hp sc u where "bt_store (nd_tree N) p = Some b1" "phashBlock b1 = Some (hashBlock (fst v'))"
    "write_undo E (N\<lparr>nd_script_cache := sc\<rparr>) p b1 hp u = Some N'"
    by (rule ConnectBlock_effect)
  then have w: "phashBlock b = Some (hashBlock (fst v'))" "write_undo E (N\<lparr>nd_script_cache := sc\<rparr>) p b hp u = Some N'" using assms(6) by simp_all
  from w(2) assms(7) show "\<exists>s. bt_store (nd_tree N') = (bt_store (nd_tree N))(p \<mapsto> b\<lparr>nStatus := s\<rparr>)"
    by (rule write_undo_file) (auto intro: exI)
  show "phashBlock b = Some (hashBlock (fst v'))" by (rule w(1))
qed

lemma DisconnectBlock_node: "DisconnectBlock E (N\<lparr>nd_coins := c, nd_chain := chain\<rparr>) block p v ac = DisconnectBlock E N block p v ac"
  by (cases N) (simp only: DisconnectBlock_def node.update_convs node.select_convs)

lemma ex_tip_disconnected:
  "\<exists>N N' H. DisconnectTip ex_connect N (ex_block_of [ex_reward, ex_spending]) ex_issued_globals = (Inr N', H)"
proof -
  let ?blk = "ex_block_of [ex_reward, ex_spending]"
  note E = ex_env_simps ex_block_header ex_status
  from ex_connected_spend [OF ex_outputs_stand ex_best] obtain N1 v1 ac1 H1 where
    c: "ConnectBlock ex_connect (ex_node 20) ?blk 1 (ex_db_view ex_outputs) ClearDirtyCache False ex_globals = (Inr (N1, v1, ac1), H1)" by blast
  have v1: "stands (\<lambda>_. 0) v1 (cache_utxo v1)"
    using ConnectBlock_stands [OF c, of ex_outputs] ex_outputs_stand ex_wf(1) ex_fresh(1) by (simp add: E)
  obtain s where n: "hashBlock (fst v1) = 2" "bt_store (nd_tree N1) = (bt_store (nd_tree (ex_node 20)))(1 \<mapsto> (ex_index 20)\<lparr>nStatus := s\<rparr>)"
    using connected_node [OF c, of ex_outputs "ex_index 20"] ex_outputs_stand ex_wf(1) ex_fresh(1) by (auto simp: E simp del: One_nat_def)
  define N where "N = N1\<lparr>nd_coins := v1, nd_chain := replicate 20 None @ [Some 1]\<rparr>"
  have N: "Tip (nd_chain N) = Some 1" "bt_store (nd_tree N) 1 = Some ((ex_index 20)\<lparr>nStatus := s\<rparr>)" "nd_coins N = v1" "nd_tree N = nd_tree N1"
    by (simp_all add: N_def Tip_def n nth_append)
  let ?w = "(\<lparr>hashBlock = 2, cacheCoins = [], cachedCoinsUsage = 0\<rparr>, ViewCache (fst v1) (snd v1))"
  have g: "GetBestBlock (ViewCache (fst (new_view v1)) (snd (new_view v1))) = (2, ViewCache (fst ?w) (snd ?w))"
    using n(1) by (simp add: new_view_def)
  with stands_GetBestBlock [OF new_view_stands [OF v1], of "fst ?w" "snd ?w"] have w: "stands (\<lambda>_. 0) ?w (cache_utxo v1)" by simp
  obtain r H where d: "DisconnectBlock ex_connect N1 ?blk 1 ?w ClearDirtyCache ex_issued_globals = (r, H)" by (rule prod.exhaust)
  have "block_plain ex_hashes 20 [ex_reward, ex_spending] ex_outputs"
    using ex_first_effect ex_spending_facts by (simp add: ex_reward_facts(3)) (simp add: plain_tx_def spent_coins_def coin_at_def)
  with connect_then_disconnect [OF c, of ex_outputs "ex_index 20" ex_connect ?w ClearDirtyCache ex_issued_globals r H]
    ex_outputs_stand ex_outputs_restorable ex_wf ex_fresh(1) ex_keys_law d w
  obtain w' where r: "r = Inr (True, w', ClearDirtyCache)" "stands (\<lambda>_. 0) w' ex_outputs"
    by (auto simp: E simp del: block_effect.simps block_plain.simps One_nat_def)
  have "layered w'" using layered_DisconnectBlock [of ex_connect N1 ?blk 1 ?w ClearDirtyCache ex_issued_globals True w' ClearDirtyCache H] d r(1)
    by (simp add: layered_def)
  with flush_view_total [of ex_connect w' ex_outputs H] r(2) obtain coins where "flush_view ex_connect w' H = (Inr coins, H)" by (auto simp: E)
  moreover have "\<exists>chain. SetTip (bt_store (nd_tree N1)) (nd_chain N) (Some 0) = Some chain"
    by (simp add: SetTip_def n(2) ex_node_def CBlockIndex_of_header_def resize_def N_def numeral_eq_Suc)
  ultimately have "\<exists>N'. DisconnectTip ex_connect N ?blk ex_issued_globals = (Inr N', H)"
    using N d r g
    by (auto simp: DisconnectTip_def tip_some_def gbind_def gpure_def gret_def gerror_def Let_def E DisconnectBlock_node N_def simp del: One_nat_def GetBestBlock.simps)
  then show ?thesis by blast
qed

theorem issued_asset_survives_disconnect_witness:
  "\<exists>N N' H. DisconnectTip ex_connect N (ex_block_of [ex_reward, ex_spending]) ex_issued_globals = (Inr N', H) \<and>
     passets H = passets ex_issued_globals \<and> isl (fst (ContextualCheckNewAsset ClearDirtyCache ex_issued False [] H))"
proof -
  from ex_tip_disconnected obtain N N' H where "DisconnectTip ex_connect N (ex_block_of [ex_reward, ex_spending]) ex_issued_globals = (Inr N', H)" by blast
  with issued_asset_survives_disconnect [OF this, of ex_issued False "[]"] show ?thesis
    by (auto simp: ex_issued_globals_def ex_issued_def ClearDirtyCache_def)
qed

end
