(* ===== verification/Spec2Isabelle.thy ===== *)
theory Spec2Isabelle
  imports ScriptExec AssetSafety BlockVersion BlockChecks BlockRules TipAssets
begin

text \<open>
  A verification development of the BlackRaven node, a C++ full node of the Bitcoin family with assets
  (\<^verbatim>\<open>src/src\<close>). It models the consensus core of the node: how blocks and transactions are
  written and read, which scripts unlock an output, which transactions, assets, headers and blocks are accepted,
  how blocks are connected to and disconnected from the active chain, and the state these decisions read and change.

  \<^bold>\<open>Parts of the program and how they interact.\<close> A peer sends headers and transactions as bytes
  (\<^verbatim>\<open>serialize.h\<close>, \<^verbatim>\<open>primitives/\<close>). Headers enter a tree of block index
  entries (\<^verbatim>\<open>validation.cpp\<close>, \<^verbatim>\<open>chain.cpp\<close>) when their work, time and target are right
  (\<^verbatim>\<open>pow.cpp\<close>, \<^verbatim>\<open>arith_uint256.cpp\<close>); deployments of new rules are counted along the tree
  (\<^verbatim>\<open>versionbits.cpp\<close>). The transactions of a block are bound to its header by a Merkle root
  (\<^verbatim>\<open>consensus/merkle.cpp\<close>), checked on their own and against the unspent outputs
  (\<^verbatim>\<open>consensus/tx_verify.cpp\<close>, \<^verbatim>\<open>coins.cpp\<close>), against the asset data
  (\<^verbatim>\<open>assets/assets.cpp\<close>), against lock times, and by running the scripts of their inputs
  (\<^verbatim>\<open>script/interpreter.cpp\<close>). What a block changes is kept in caches over databases, and undo
  records (\<^verbatim>\<open>undo.h\<close>, \<^verbatim>\<open>compressor.cpp\<close>) allow taking it back. \<^verbatim>\<open>ConnectBlock\<close>, \<^verbatim>\<open>DisconnectBlock\<close>, \<^verbatim>\<open>ConnectTip\<close> and
  \<^verbatim>\<open>DisconnectTip\<close> of \<^verbatim>\<open>validation.cpp\<close> put these steps together.

  \<^bold>\<open>Conventions.\<close> Integers keep their width where the code can wrap: \<^verbatim>\<open>unsigned char\<close>,
  \<^verbatim>\<open>uint32_t\<close>, \<^verbatim>\<open>uint64_t\<close> and \<^verbatim>\<open>uint256\<close> are word types, \<^verbatim>\<open>CAmount\<close> is an integer to which the
  function \<^verbatim>\<open>int64\<close> applies the wrap-around where the code adds or multiplies. A reader or a check returns a
  sum whose left side is the exception or the reject reason of the code. The option type stands for code
  that may fail an assertion or follow a null pointer: \<^verbatim>\<open>None\<close> is that failure. Functions that are not part of
  the modelled sources (SHA-256, RIPEMD-160, X16R, KAWPOW, secp256k1, the clock, the memory pool) are
  arguments, and theorems that rely on them name what they rely on, such as the length of a hash.

  \<^bold>\<open>Theories.\<close> Each theory names the functions it models next to their definitions.

  \<^item> \<^verbatim>\<open>Prelude\<close> machine types, results, little-endian numbers and lemmas on lists, words and folds.
  \<^item> \<^verbatim>\<open>Serialize\<close> \<^verbatim>\<open>serialize.h\<close>. The locales \<^verbatim>\<open>serializer\<close> and \<^verbatim>\<open>canonical_serializer\<close> state what a format promises
    (read after write, and write after read); every format of the later theories interprets one of them.
  \<^item> \<^verbatim>\<open>Transaction\<close>, \<^verbatim>\<open>AssetTypes\<close> transactions and asset payloads with their formats: round trips, and
    that whatever is read is well typed. Exactly which transactions their format can tell apart.
  \<^item> \<^verbatim>\<open>Script\<close>, \<^verbatim>\<open>Interpreter\<close>, \<^verbatim>\<open>ScriptExec\<close>, \<^verbatim>\<open>SigHash\<close> \<^verbatim>\<open>script.h\<close>, \<^verbatim>\<open>EvalScript\<close> with every opcode,
    \<^verbatim>\<open>VerifyScript\<close>, signature hashes. Resource limits, what the usual output forms require, the
    reference meaning of the streamed signature hash and of the multi-signature loop.
  \<^item> \<^verbatim>\<open>Base58\<close>, \<^verbatim>\<open>Standard\<close>, \<^verbatim>\<open>Hex\<close> addresses, output templates and texts.
  \<^item> \<^verbatim>\<open>AssetNames\<close>, \<^verbatim>\<open>AssetScripts\<close>, \<^verbatim>\<open>Verifier\<close>, \<^verbatim>\<open>AssetTx\<close> asset names, asset outputs, verifier formulas
    (\<^verbatim>\<open>LibBoolEE.cpp\<close>) and transactions that issue assets. The evaluator of formulas agrees with their truth value.
  \<^item> \<^verbatim>\<open>Coins\<close> \<^verbatim>\<open>CCoinsViewCache\<close> over any stack of views and the database flush with its crash states. The
    database holds the compressed records of coins and reads coins back from them. The cache refines a map of unspent outputs.
  \<^item> \<^verbatim>\<open>Compressor\<close> the class of coins, coins and undo records on disk, and exactly which amounts survive there.
  \<^item> \<^verbatim>\<open>TxVerify\<close> \<^verbatim>\<open>CheckTransaction\<close>, \<^verbatim>\<open>CheckTxInputs\<close>, costs of signature operations, founder payment.
  \<^item> \<^verbatim>\<open>AssetsCache\<close>, \<^verbatim>\<open>AssetCommands\<close>, \<^verbatim>\<open>AssetsVerify\<close>, \<^verbatim>\<open>AssetSafety\<close> the cache of asset data over its
    databases, the commands on restricted assets as a refinement of plain sets, \<^verbatim>\<open>CheckTxAssets\<close> and what it guarantees.
  \<^item> \<^verbatim>\<open>ArithUint\<close>, \<^verbatim>\<open>BlockIndex\<close>, \<^verbatim>\<open>Pow\<close>, \<^verbatim>\<open>Headers\<close> 256-bit arithmetic as a refinement of the natural
    numbers, the block tree with skip pointers, retargeting, and acceptance of headers as a state
    machine, with blocks that fail and blocks that are reconsidered, whose reachable states satisfy the tree invariant.
  \<^item> \<^verbatim>\<open>VersionBits\<close>, \<^verbatim>\<open>BlockVersion\<close>, \<^verbatim>\<open>SequenceLocks\<close> deployments, the version of a mined block, absolute and relative lock times.
  \<^item> \<^verbatim>\<open>Merkle\<close> the constant-space Merkle calculator against the recursive tree.
  \<^item> \<^verbatim>\<open>Blocks\<close>, \<^verbatim>\<open>BlockChecks\<close> blocks with their wire format, hashes, weights and subsidy, \<^verbatim>\<open>CheckBlock\<close> and
    \<^verbatim>\<open>ContextualCheckBlock\<close>. The exact decision of \<^verbatim>\<open>CheckBlock\<close>, and that a header commits to the transactions.
  \<^item> \<^verbatim>\<open>Connect\<close>, \<^verbatim>\<open>ConnectSafety\<close>, \<^verbatim>\<open>Reorg\<close>, \<^verbatim>\<open>ConnectExample\<close> connecting and disconnecting a block, with the coins
    view as a refinement of a map of unspent outputs: the effect of each step on the map, the undo file, and that
    \<^verbatim>\<open>DisconnectBlock\<close> takes \<^verbatim>\<open>ConnectBlock\<close> back. The last of them evaluates both on concrete blocks, for the witnesses.
  \<^item> \<^verbatim>\<open>BlockRules\<close>, \<^verbatim>\<open>Supply\<close>, \<^verbatim>\<open>TipAssets\<close> what every connected block satisfies, the bound on the supply along a history of
    connected blocks, caches and flushes, and what \<^verbatim>\<open>DisconnectTip\<close> leaves of the asset data.

  \<^bold>\<open>Fuel and bounds.\<close> Most recursions are structural or are functions with a termination proof (among them
  the walk back to an ancestor along skip pointers). The loops that set the tip of the active chain and look for a fork take the height of
  their start as fuel, and the theorems show that it is never used up in a reachable tree. The search for another output of a
  transaction in \<^verbatim>\<open>AccessByTxid\<close> has the bound of the code, the number of outputs that fit in a block. The Merkle calculator has 32
  places as the code's array has, so its theorems are about at most \<^verbatim>\<open>2^31\<close> leaves; the final sweep has fuel 33 and is
  shown to end within it.

  \<^bold>\<open>Not modelled, and why.\<close> The choice of the best chain, block files, pruning and the flush schedule in
  \<^verbatim>\<open>validation.cpp\<close> order the modelled steps by disk space, memory use and time, and start threads and callbacks. The optional
  indexes of addresses, spent outputs, transactions and times are off by default and no rule reads them. The memory pool, block assembly
  and relay policy are not consensus rules. Smartnodes, special transactions, quorums and chain locks are disabled on the main network
  (\<^verbatim>\<open>fSmartnodesEnabled\<close> is false and \<^verbatim>\<open>DIP0003Height\<close> is \<^verbatim>\<open>INT_MAX\<close> in \<^verbatim>\<open>chainparams.cpp\<close>); where block connection asks
  them, the answer is a parameter. Messages, rewards and snapshots of assets are read by no consensus rule. Networking, wallet, RPC
  and the graphical interface are input and output. Hash functions and curve arithmetic are parameters, since their correctness
  is not a matter of this code.
\<close>

end
